(* ===== verification/Chord_Prelude.thy ===== *)
theory Chord_Prelude
  imports Main "HOL-Library.Word"
begin

text \<open>
  Shared vocabulary of the development: the machine types of the C++ source (bytes,
  \<open>unsigned int\<close>), the conversions between them, the errors a C++ routine can end with,
  the result type that carries them, and the list and word lemmas used by several components.

  The source is built by \<open>Makefile\<close> with g++ and without \<open>NDEBUG\<close>. So \<open>char\<close> is a signed
  8-bit type (the x86 ABI), \<open>int\<close> and \<open>unsigned int\<close> have 32 bits, \<open>size_t\<close> has 64 bits, and
  \<open>assert\<close> is active. A byte is kept as \<open>8 word\<close>; where the source looks at a \<open>char\<close> as an
  integer the conversion is written out, with \<open>sint\<close> or \<open>scast\<close> for the sign extension.
\<close>

unbundle bit_operations_syntax

section \<open>Machine types\<close>

type_synonym byte = "8 word"
type_synonym bytes = "byte list"
type_synonym u32 = "32 word"
type_synonym u64 = "64 word"

text \<open>\<open>cstr ''abc''\<close> is the byte sequence of a C string literal, without its final NUL.\<close>

definition cstr :: "string \<Rightarrow> bytes" where
  "cstr s = map of_char s"

text \<open>The integer conversions of the source.\<close>

definition char_to_int :: "byte \<Rightarrow> int" where
  "char_to_int c = sint c"

definition char_to_uint :: "byte \<Rightarrow> u32" where
  "char_to_uint c = scast c"

definition uint_to_char :: "u32 \<Rightarrow> byte" where
  "uint_to_char v = ucast v"

definition uchar_to_uint :: "byte \<Rightarrow> u32" where
  "uchar_to_uint c = ucast c"

text \<open>A \<open>size_t\<close> passed where an \<open>int\<close> is expected keeps its low 32 bits.\<close>

definition size_to_int :: "nat \<Rightarrow> int" where
  "size_to_int n = sint (of_nat n :: u32)"

text \<open>A \<open>size_t\<close> stored in a \<open>char\<close> keeps its low 8 bits.\<close>

definition size_to_char :: "nat \<Rightarrow> byte" where
  "size_to_char n = of_nat n"

section \<open>Errors and results\<close>

text \<open>
  How a routine of the source can fail: a failed \<open>assert\<close> and undefined behaviour end the
  process; the other constructors are C++ exceptions derived from \<open>std::exception\<close>.
\<close>

datatype ub = NullDereference | ReadPastEnd | WritePastEnd | IntegerOverflow

datatype cxx_error =
    AssertionFailure
  | UndefinedBehaviour ub
  | RuntimeError bytes
  | LengthError
  | OutOfRange
  | BadFunctionCall
  | BadWeakPtr
  | SystemError

type_synonym 'a result = "cxx_error + 'a"

fun is_exception :: "cxx_error \<Rightarrow> bool" where
  "is_exception AssertionFailure = False"
| "is_exception (UndefinedBehaviour u) = False"
| "is_exception (RuntimeError m) = True"
| "is_exception LengthError = True"
| "is_exception OutOfRange = True"
| "is_exception BadFunctionCall = True"
| "is_exception BadWeakPtr = True"
| "is_exception SystemError = True"

definition bind_result :: "'a result \<Rightarrow> ('a \<Rightarrow> 'b result) \<Rightarrow> 'b result" where
  "bind_result m k = (case m of Inl e \<Rightarrow> Inl e | Inr x \<Rightarrow> k x)"

definition assert_that :: "bool \<Rightarrow> unit result" where
  "assert_that b = (if b then Inr () else Inl AssertionFailure)"

named_theorems result_simps \<open>equations of the result type\<close>

lemma bind_result_Inr [simp, result_simps]: "bind_result (Inr x) k = k x"
  by (simp add: bind_result_def)

lemma bind_result_Inl [simp, result_simps]: "bind_result (Inl e) k = Inl e"
  by (simp add: bind_result_def)

lemma bind_result_eq_Inr:
  "bind_result m k = Inr y \<longleftrightarrow> (\<exists>x. m = Inr x \<and> k x = Inr y)"
  by (cases m) simp_all

lemma bind_result_assoc:
  "bind_result (bind_result m f) g = bind_result m (\<lambda>x. bind_result (f x) g)"
  by (cases m) simp_all

lemma assert_that_True [simp, result_simps]: "assert_that True = Inr ()"
  by (simp add: assert_that_def)

lemma assert_that_False [simp, result_simps]: "assert_that False = Inl AssertionFailure"
  by (simp add: assert_that_def)

section \<open>Lemmas on bytes and words\<close>

lemma unat_byte_less [simp]: "unat (b :: byte) < 256"
proof -
  have "unat b < 2 ^ LENGTH(8)" by (rule unsigned_less)
  then show ?thesis by simp
qed

lemma cstr_simps [simp]:
  "cstr [] = []"
  "cstr (c # s) = of_char c # cstr s"
  by (simp_all add: cstr_def)

lemma length_cstr [simp]: "length (cstr s) = length s"
  by (simp add: cstr_def)

lemma unat_of_nat_byte: "unat (of_nat n :: byte) = n mod 256"
  by (simp add: unat_of_nat)

lemma signed_take_bit_7:
  assumes "0 \<le> i" and "i < 256"
  shows "signed_take_bit 7 i = (if i < 128 then i else i - (256::int))"
proof (cases "i < 128")
  case True
  with assms show ?thesis by (simp add: signed_take_bit_int_eq_self)
next
  case False
  with assms have "(i + 128) mod 256 = i - 128"
    using mod_pos_pos_trivial [of "i - 128" 256] minus_mod_self2 [of "i + 128" 256] by simp
  with False show ?thesis
    by (simp add: signed_take_bit_eq_take_bit_shift take_bit_eq_mod)
qed

lemma sint_byte_eq:
  "sint (b :: byte) = (if unat b < 128 then int (unat b) else int (unat b) - 256)"
proof -
  have u: "int (unat b) < 256"
    using unat_byte_less [of b] by linarith
  have "sint b = signed_take_bit 7 (int (unat b))"
    by (simp add: sint_uint)
  also have "\<dots> = (if int (unat b) < 128 then int (unat b) else int (unat b) - 256)"
    by (rule signed_take_bit_7) (use u in linarith)+
  finally show ?thesis by (simp only: of_nat_less_numeral_iff)
qed

lemma char_to_int_small: "unat b < 128 \<Longrightarrow> char_to_int b = int (unat b)"
  by (simp add: char_to_int_def sint_byte_eq)

lemma char_to_int_size_to_char: "n < 128 \<Longrightarrow> char_to_int (size_to_char n) = int n"
  by (simp add: char_to_int_def size_to_char_def sint_byte_eq unat_of_nat_byte)

lemma size_to_int_small: "n < 2 ^ 31 \<Longrightarrow> size_to_int n = int n"
  by (simp add: size_to_int_def signed_of_nat signed_take_bit_int_eq_self)

text \<open>
  \<open>throw std::runtime_error("..." + i)\<close> with an integer \<open>i\<close> adds \<open>i\<close> to the pointer of the
  literal: the exception carries what is left of the literal from offset \<open>i\<close>, and outside the
  literal the pointer (and the read of the message) is undefined.
\<close>

definition throw_literal_plus :: "string \<Rightarrow> int \<Rightarrow> 'a result" where
  "throw_literal_plus lit i =
     (if 0 \<le> i \<and> i \<le> int (length lit) then Inl (RuntimeError (drop (nat i) (cstr lit)))
      else Inl (UndefinedBehaviour ReadPastEnd))"

section \<open>Byte sequences as numbers\<close>

definition little_endian :: "bytes \<Rightarrow> nat" where
  "little_endian bs = foldr (\<lambda>b v. unat b + 256 * v) bs 0"

definition big_endian :: "bytes \<Rightarrow> nat" where
  "big_endian bs = foldl (\<lambda>v b. v * 256 + unat b) 0 bs"

lemma little_endian_simps [simp]:
  "little_endian [] = 0"
  "little_endian (b # bs) = unat b + 256 * little_endian bs"
  by (simp_all add: little_endian_def)

lemma big_endian_rev: "big_endian bs = little_endian (rev bs)"
  by (simp add: big_endian_def little_endian_def foldr_conv_foldl algebra_simps)

lemma little_endian_append:
  "little_endian (xs @ ys) = little_endian xs + 256 ^ length xs * little_endian ys"
  by (induction xs) (simp_all add: algebra_simps)

lemma big_endian_Nil [simp]: "big_endian [] = 0"
  by (simp add: big_endian_def)

lemma big_endian_Cons: "big_endian (b # bs) = unat b * 256 ^ length bs + big_endian bs"
  by (simp add: big_endian_rev little_endian_append)

lemma little_endian_less: "little_endian bs < 256 ^ length bs"
proof (induction bs)
  case (Cons b bs)
  have "unat b + 256 * little_endian bs < 256 * (little_endian bs + 1)" by simp
  also have "\<dots> \<le> 256 * 256 ^ length bs" using Cons by (intro mult_le_mono2) simp
  finally show ?case by simp
qed simp

lemma big_endian_less: "big_endian bs < 256 ^ length bs"
  using little_endian_less [of "rev bs"] by (simp add: big_endian_rev)

lemma little_endian_inj:
  "length xs = length ys \<Longrightarrow> little_endian xs = little_endian ys \<Longrightarrow> xs = ys"
proof (induction xs ys rule: list_induct2)
  case (Cons x xs y ys)
  from Cons.prems have e: "unat x + 256 * little_endian xs = unat y + 256 * little_endian ys"
    by simp
  then have "unat x mod 256 = unat y mod 256"
    by (metis mod_mult_self2)
  then have "unat x = unat y" by simp
  with e Cons.IH show ?case by (simp add: word_unat_eq_iff)
qed simp

lemma big_endian_inj:
  "length xs = length ys \<Longrightarrow> big_endian xs = big_endian ys \<Longrightarrow> xs = ys"
  by (metis big_endian_rev length_rev little_endian_inj rev_rev_ident)

lemma big_endian_Cons_less_iff:
  assumes "length xs = length ys"
  shows "big_endian (x # xs) < big_endian (y # ys) \<longleftrightarrow>
    unat x < unat y \<or> unat x = unat y \<and> big_endian xs < big_endian ys"
proof -
  have digit: "u * n + p < v * n + q" if "u < v" "p < n" for u v p q n :: nat
  proof -
    have "u * n + p < (u + 1) * n" using that by simp
    also have "\<dots> \<le> v * n" using that by (intro mult_le_mono1) simp
    finally show ?thesis by simp
  qed
  show ?thesis
    using digit [of "unat x" "unat y"] digit [of "unat y" "unat x"] assms
      big_endian_less [of xs] big_endian_less [of ys]
    by (cases "unat x" "unat y" rule: linorder_cases) (simp_all add: big_endian_Cons leD not_less_iff_gr_or_eq)
qed

end
