(* ===== verification/Asio_Errors.thy ===== *)
theory Asio_Errors
  imports Chord_Prelude
begin

text \<open>
  The error codes of the bundled asio library (\<open>src/lib/asio-1.10.6/include/asio/error.hpp\<close> and
  \<open>impl/error.ipp\<close>): the four enumerations of error values, the categories they belong to, the
  conversion of an enumerator to an error code and the texts of the three categories that asio
  defines itself. The values are those of a Linux build: a \<open>basic_errors\<close> enumerator is the
  \<open>errno\<close> value of \<open>errno.h\<close> on x86-64, so \<open>try_again\<close> and \<open>would_block\<close> are one error code.
  \<open>error_code\<close> is \<open>std::error_code\<close>: a value with its category, equal when both agree, and
  converted to \<open>true\<close> when the value is not 0. The texts of the system category are those of the
  C library and are not modelled.
\<close>

datatype error_category = system_category | netdb_category | addrinfo_category | misc_category

record error_code =
  ec_value :: int
  ec_category :: error_category

definition error_code_of :: "int \<Rightarrow> error_category \<Rightarrow> error_code" where
  "error_code_of v c = \<lparr>ec_value = v, ec_category = c\<rparr>"

text \<open>A default-constructed error code, the one that reports success.\<close>

definition no_error :: error_code where
  "no_error = error_code_of 0 system_category"

definition failed :: "error_code \<Rightarrow> bool" where
  "failed ec \<longleftrightarrow> ec_value ec \<noteq> 0"

datatype basic_errors =
    access_denied
  | address_family_not_supported
  | address_in_use
  | already_connected
  | already_started
  | broken_pipe
  | connection_aborted
  | connection_refused
  | connection_reset
  | bad_descriptor
  | fault
  | host_unreachable
  | in_progress
  | interrupted
  | invalid_argument
  | message_size
  | name_too_long
  | network_down
  | network_reset
  | network_unreachable
  | no_descriptors
  | no_buffer_space
  | no_memory
  | no_permission
  | no_protocol_option
  | no_such_device
  | not_connected
  | not_socket
  | operation_aborted
  | operation_not_supported
  | shut_down
  | timed_out
  | try_again
  | would_block

primrec basic_value :: "basic_errors \<Rightarrow> int" where
  "basic_value access_denied = 13"
| "basic_value address_family_not_supported = 97"
| "basic_value address_in_use = 98"
| "basic_value already_connected = 106"
| "basic_value already_started = 114"
| "basic_value broken_pipe = 32"
| "basic_value connection_aborted = 103"
| "basic_value connection_refused = 111"
| "basic_value connection_reset = 104"
| "basic_value bad_descriptor = 9"
| "basic_value fault = 14"
| "basic_value host_unreachable = 113"
| "basic_value in_progress = 115"
| "basic_value interrupted = 4"
| "basic_value invalid_argument = 22"
| "basic_value message_size = 90"
| "basic_value name_too_long = 36"
| "basic_value network_down = 100"
| "basic_value network_reset = 102"
| "basic_value network_unreachable = 101"
| "basic_value no_descriptors = 24"
| "basic_value no_buffer_space = 105"
| "basic_value no_memory = 12"
| "basic_value no_permission = 1"
| "basic_value no_protocol_option = 92"
| "basic_value no_such_device = 19"
| "basic_value not_connected = 107"
| "basic_value not_socket = 88"
| "basic_value operation_aborted = 125"
| "basic_value operation_not_supported = 95"
| "basic_value shut_down = 108"
| "basic_value timed_out = 110"
| "basic_value try_again = 11"
| "basic_value would_block = 11"

datatype netdb_errors = host_not_found | host_not_found_try_again | no_data | no_recovery

primrec netdb_value :: "netdb_errors \<Rightarrow> int" where
  "netdb_value host_not_found = 1"
| "netdb_value host_not_found_try_again = 2"
| "netdb_value no_data = 4"
| "netdb_value no_recovery = 3"

datatype addrinfo_errors = service_not_found | socket_type_not_supported

primrec addrinfo_value :: "addrinfo_errors \<Rightarrow> int" where
  "addrinfo_value service_not_found = -8"
| "addrinfo_value socket_type_not_supported = -7"

datatype misc_errors = already_open | eof | not_found | fd_set_failure

primrec misc_value :: "misc_errors \<Rightarrow> int" where
  "misc_value already_open = 1"
| "misc_value eof = 2"
| "misc_value not_found = 3"
| "misc_value fd_set_failure = 4"

text \<open>\<open>make_error_code\<close>, one overload for each enumeration.\<close>

definition basic_error :: "basic_errors \<Rightarrow> error_code" where
  "basic_error e = error_code_of (basic_value e) system_category"

definition netdb_error :: "netdb_errors \<Rightarrow> error_code" where
  "netdb_error e = error_code_of (netdb_value e) netdb_category"

definition addrinfo_error :: "addrinfo_errors \<Rightarrow> error_code" where
  "addrinfo_error e = error_code_of (addrinfo_value e) addrinfo_category"

definition misc_error :: "misc_errors \<Rightarrow> error_code" where
  "misc_error e = error_code_of (misc_value e) misc_category"

definition netdb_message :: "int \<Rightarrow> string" where
  "netdb_message v =
     (if v = netdb_value host_not_found then ''Host not found (authoritative)''
      else if v = netdb_value host_not_found_try_again
        then ''Host not found (non-authoritative), try again later''
      else if v = netdb_value no_data
        then ''The query is valid, but it does not have associated data''
      else if v = netdb_value no_recovery
        then ''A non-recoverable error occurred during database lookup''
      else ''asio.netdb error'')"

definition addrinfo_message :: "int \<Rightarrow> string" where
  "addrinfo_message v =
     (if v = addrinfo_value service_not_found then ''Service not found''
      else if v = addrinfo_value socket_type_not_supported then ''Socket type not supported''
      else ''asio.addrinfo error'')"

definition misc_message :: "int \<Rightarrow> string" where
  "misc_message v =
     (if v = misc_value already_open then ''Already open''
      else if v = misc_value eof then ''End of file''
      else if v = misc_value not_found then ''Element not found''
      else if v = misc_value fd_set_failure
        then ''The descriptor does not fit into the select call's fd_set''
      else ''asio.misc error'')"

section \<open>Lemmas\<close>

lemmas error_defs = basic_error_def netdb_error_def addrinfo_error_def misc_error_def
  error_code_of_def no_error_def

lemma values_positive [simp]:
  "basic_value e \<noteq> 0" "misc_value m \<noteq> 0" "netdb_value n \<noteq> 0" "addrinfo_value a \<noteq> 0"
     apply (cases e; simp)
    apply (cases m; simp)
   apply (cases n; simp)
  apply (cases a; simp)
  done

lemma failed_simps [simp]:
  "\<not> failed no_error" "failed (basic_error e)" "failed (misc_error m)"
  "failed (netdb_error n)" "failed (addrinfo_error a)"
  by (simp_all add: failed_def error_defs)

text \<open>The categories keep the enumerations apart, whatever the values.\<close>

lemma errors_apart [simp]:
  "misc_error m \<noteq> basic_error e" "basic_error e \<noteq> misc_error m"
  "misc_error m \<noteq> error_code_of v system_category" "error_code_of v system_category \<noteq> misc_error m"
  "misc_error m \<noteq> no_error" "no_error \<noteq> misc_error m"
  "basic_error e \<noteq> no_error" "no_error \<noteq> basic_error e"
  by (simp_all add: error_defs)

lemma misc_error_inject [simp]: "misc_error a = misc_error b \<longleftrightarrow> a = b"
  by (cases a; cases b; simp add: error_defs)

lemma would_block_is_try_again: "basic_error would_block = basic_error try_again"
  by (simp add: error_defs)

lemma system_error_eq [simp]:
  "error_code_of v system_category = basic_error e \<longleftrightarrow> v = basic_value e"
  "basic_error e = error_code_of v system_category \<longleftrightarrow> v = basic_value e"
  "error_code_of v system_category = no_error \<longleftrightarrow> v = 0"
  by (auto simp: error_defs)

end
