(* ===== verification/C_Strings.thy ===== *)
theory C_Strings
  imports Chord_Prelude
begin

text \<open>
  The string routines of the program: \<open>src/StringTrim.h\<close>, and the parts of the C and C++
  libraries the source calls on strings (\<open>std::string::find\<close>, \<open>substr\<close>, \<open>atoi\<close>, printing an
  unsigned integer to a stream). A \<open>std::string\<close> is a byte sequence; \<open>npos\<close> is \<open>None\<close>.
\<close>

section \<open>Trimming\<close>

text \<open>\<open>std::isspace\<close> in the C locale; a negative \<open>char\<close> is not a space (glibc).\<close>

definition isspace :: "byte \<Rightarrow> bool" where
  "isspace c \<longleftrightarrow> c \<in> {0x09, 0x0a, 0x0b, 0x0c, 0x0d, 0x20}"

definition ltrim :: "bytes \<Rightarrow> bytes" where
  "ltrim s = dropWhile isspace s"

definition rtrim :: "bytes \<Rightarrow> bytes" where
  "rtrim s = rev (dropWhile isspace (rev s))"

definition trim :: "bytes \<Rightarrow> bytes" where
  "trim s = ltrim (rtrim s)"

section \<open>Searching and cutting\<close>

fun find_at :: "nat \<Rightarrow> bytes \<Rightarrow> bytes \<Rightarrow> nat option" where
  "find_at i needle [] = (if needle = [] then Some i else None)"
| "find_at i needle (c # s) =
     (if take (length needle) (c # s) = needle then Some i else find_at (Suc i) needle s)"

definition str_find :: "bytes \<Rightarrow> bytes \<Rightarrow> nat option" where
  "str_find s needle = find_at 0 needle s"

text \<open>\<open>substr(pos, n)\<close>; the count is a \<open>size_t\<close>, cut at the end of the string.\<close>

definition str_substr :: "bytes \<Rightarrow> nat \<Rightarrow> u64 \<Rightarrow> bytes result" where
  "str_substr s pos n =
     (if pos > length s then Inl OutOfRange else Inr (take (unat n) (drop pos s)))"

text \<open>\<open>substr(pos)\<close>\<close>

definition str_from :: "bytes \<Rightarrow> nat \<Rightarrow> bytes result" where
  "str_from s pos = (if pos > length s then Inl OutOfRange else Inr (drop pos s))"

section \<open>Decimal numbers\<close>

definition dec_digit :: "nat \<Rightarrow> byte" where
  "dec_digit d = of_nat (48 + d)"

fun dec_number :: "nat \<Rightarrow> bytes" where
  "dec_number n = (if n < 10 then [dec_digit n] else dec_number (n div 10) @ [dec_digit (n mod 10)])"

declare dec_number.simps [simp del]

definition isdigit :: "byte \<Rightarrow> bool" where
  "isdigit c \<longleftrightarrow> 48 \<le> unat c \<and> unat c \<le> 57"

fun digits_value :: "nat \<Rightarrow> bytes \<Rightarrow> nat" where
  "digits_value v [] = v"
| "digits_value v (c # s) = (if isdigit c then digits_value (10 * v + (unat c - 48)) s else v)"

text \<open>\<open>c_str()\<close> of a string that may hold NUL characters, as a C function sees it.\<close>

definition c_string :: "bytes \<Rightarrow> bytes" where
  "c_string s = takeWhile (\<lambda>c. c \<noteq> 0) s"

text \<open>
  \<open>atoi\<close>: blanks, a sign, digits up to the first other character. A value outside \<open>int\<close> is
  undefined behaviour.
\<close>

definition atoi :: "bytes \<Rightarrow> int result" where
  "atoi s =
     (let t = dropWhile isspace s;
          v = (case t of [] \<Rightarrow> 0
               | c # u \<Rightarrow> if c = 45 then - int (digits_value 0 u)
                          else if c = 43 then int (digits_value 0 u)
                          else int (digits_value 0 t))
      in if v < - (2 ^ 31) \<or> 2 ^ 31 \<le> v then Inl (UndefinedBehaviour IntegerOverflow) else Inr v)"

section \<open>Lemmas\<close>

lemma trim_conv:
  "trim s = rev (dropWhile isspace (rev (dropWhile isspace s)))"
proof -
  have "dropWhile P (rev (dropWhile P (rev s))) = rev (dropWhile P (rev (dropWhile P s)))"
    for P :: "byte \<Rightarrow> bool"
  proof (induction s)
    case (Cons c s)
    show ?case
    proof (cases "P c")
      case True
      then have "dropWhile P (rev s @ [c]) = (if \<forall>x \<in> set s. P x then [] else dropWhile P (rev s) @ [c])"
        by (auto simp: dropWhile_append)
      with True Cons show ?thesis by (auto simp: dropWhile_eq_Nil_conv dest: set_dropWhileD)
    next
      case False
      then have "dropWhile P (rev s @ [c]) = dropWhile P (rev s) @ [c]"
        by (auto simp: dropWhile_append dropWhile_eq_Nil_conv)
      with False show ?thesis by simp
    qed
  qed simp
  then show ?thesis by (simp add: trim_def ltrim_def rtrim_def)
qed

lemma trim_no_space: "\<forall>c \<in> set s. \<not> isspace c \<Longrightarrow> trim s = s"
proof -
  assume "\<forall>c \<in> set s. \<not> isspace c"
  then have "dropWhile isspace s = s" "dropWhile isspace (rev s) = rev s"
    by (simp_all add: dropWhile_eq_self_iff disj_imp hd_rev)
  then show "trim s = s" by (simp add: trim_def ltrim_def rtrim_def)
qed

lemma hd_trim: "trim s \<noteq> [] \<Longrightarrow> \<not> isspace (hd (trim s))"
  unfolding trim_def ltrim_def by (metis hd_dropWhile dropWhile_eq_Nil_conv)

lemma last_trim: "trim s \<noteq> [] \<Longrightarrow> \<not> isspace (last (trim s))"
  unfolding trim_conv by (metis hd_dropWhile dropWhile_eq_Nil_conv last_rev rev_is_Nil_conv)

lemma trim_idem: "trim (trim s) = trim s"
proof (cases "trim s = []")
  case False
  then have "dropWhile isspace (trim s) = trim s" "dropWhile isspace (rev (trim s)) = rev (trim s)"
    using hd_trim [OF False] last_trim [OF False] by (simp_all add: dropWhile_eq_self_iff hd_rev)
  then show ?thesis by (subst trim_conv) simp
next
  case True
  then show ?thesis unfolding True by (simp add: trim_def ltrim_def rtrim_def)
qed

lemma find_at_shift: "find_at i needle s = map_option (\<lambda>k. k + i) (find_at 0 needle s)"
proof (induction s arbitrary: i)
  case (Cons c s)
  show ?case
    using Cons [of "Suc i"] Cons [of "Suc 0"] by (auto simp: option.map_comp comp_def)
qed simp

lemma str_find_prefix: "str_find s needle = Some 0 \<longleftrightarrow> take (length needle) s = needle"
  by (cases s) (auto simp: str_find_def find_at_shift [of "Suc 0"])

lemma str_find_char:
  "str_find s [c] = (if c \<in> set s then Some (length (takeWhile (\<lambda>x. x \<noteq> c) s)) else None)"
  unfolding str_find_def
  by (induction s) (auto simp: find_at_shift [of "Suc 0"])

lemma str_find_char_append: "c \<notin> set xs \<Longrightarrow> str_find (xs @ c # ys) [c] = Some (length xs)"
proof -
  assume "c \<notin> set xs"
  then have "takeWhile (\<lambda>x. x \<noteq> c) (xs @ c # ys) = xs"
    by (induction xs) auto
  then show ?thesis by (simp add: str_find_char)
qed

lemma unat_dec_digit: "d < 10 \<Longrightarrow> unat (dec_digit d) = 48 + d"
  unfolding dec_digit_def unat_of_nat_byte by simp

lemma isdigit_dec_digit [simp]: "d < 10 \<Longrightarrow> isdigit (dec_digit d)"
  by (simp add: isdigit_def unat_dec_digit)

lemma dec_number_digits: "c \<in> set (dec_number n) \<Longrightarrow> isdigit c"
proof (induction n rule: dec_number.induct)
  case (1 n)
  then show ?case
    by (subst (asm) (2) dec_number.simps) (auto split: if_splits)
qed

lemma digits_value_append:
  "\<forall>c \<in> set s. isdigit c \<Longrightarrow> digits_value v (s @ t) = digits_value (digits_value v s) t"
  by (induction s arbitrary: v) auto

lemma digits_value_dec_number: "digits_value 0 (dec_number n) = n"
proof (induction n rule: dec_number.induct)
  case (1 n)
  show ?case
  proof (cases "n < 10")
    case True
    then show ?thesis by (simp add: dec_number.simps [of n] unat_dec_digit)
  next
    case False
    have "digits_value 0 (dec_number (n div 10) @ [dec_digit (n mod 10)])
        = 10 * digits_value 0 (dec_number (n div 10)) + n mod 10"
      using dec_number_digits [of _ "n div 10"] by (subst digits_value_append) (auto simp: unat_dec_digit)
    with False 1 show ?thesis by (simp add: dec_number.simps [of n])
  qed
qed

lemma dec_number_Cons:
  obtains c u where "dec_number n = c # u" "isdigit c"
proof -
  have "dec_number n \<noteq> []" by (subst dec_number.simps) simp
  then obtain c u where "dec_number n = c # u" by (cases "dec_number n") auto
  with that show thesis using dec_number_digits [of c n] by simp
qed

lemma isdigit_facts:
  assumes "isdigit c"
  shows "\<not> isspace c" and "c \<noteq> 45" and "c \<noteq> 43" and "c \<noteq> 0"
  using assms by (auto simp: isdigit_def isspace_def)

lemma atoi_dec_number: "n < 2 ^ 31 \<Longrightarrow> atoi (dec_number n) = Inr (int n)"
proof -
  assume n: "n < 2 ^ 31"
  obtain c u where s: "dec_number n = c # u" "isdigit c" by (rule dec_number_Cons)
  then have "dropWhile isspace (dec_number n) = c # u" "c \<noteq> 45" "c \<noteq> 43"
    using isdigit_facts by auto
  then show ?thesis
    using digits_value_dec_number [of n] n by (simp add: atoi_def s del: digits_value.simps)
qed

lemma c_string_dec_number: "c_string (dec_number n) = dec_number n"
  unfolding c_string_def by (rule takeWhile_eq_all_conv [THEN iffD2]) (auto dest: dec_number_digits isdigit_facts)

lemma length_dec_number: "n < 10 ^ k \<Longrightarrow> 0 < k \<Longrightarrow> length (dec_number n) \<le> k"
proof (induction n arbitrary: k rule: dec_number.induct)
  case (1 n)
  show ?case
  proof (cases "n < 10")
    case True
    with 1 show ?thesis by (simp add: dec_number.simps [of n])
  next
    case False
    then obtain j where k: "k = Suc j" "0 < j" using "1.prems" by (cases k; cases "k - 1") auto
    then have "n div 10 < 10 ^ j" using "1.prems" by (simp add: less_mult_imp_div_less mult.commute)
    with 1 False k show ?thesis by (simp add: dec_number.simps [of n])
  qed
qed

lemma atoi_prefix:
  assumes "n < 2 ^ 31" and "\<not> isdigit c"
  shows "atoi (dec_number n @ c # r) = Inr (int n)"
proof -
  obtain d u where s: "dec_number n = d # u" "isdigit d" by (rule dec_number_Cons)
  have "digits_value 0 (dec_number n @ c # r) = n"
    using digits_value_append [of "dec_number n" 0 "c # r"] dec_number_digits digits_value_dec_number assms(2)
    by simp
  moreover have "dropWhile isspace (dec_number n @ c # r) = d # u @ c # r" "d \<noteq> 45" "d \<noteq> 43"
    using s isdigit_facts by auto
  ultimately show ?thesis
    using assms(1) s by (simp add: atoi_def del: digits_value.simps)
qed

lemma trim_inner:
  assumes "\<not> isspace (hd (u @ [c]))" and "\<not> isspace c"
  shows "trim (u @ c # v) = u @ c # rev (dropWhile isspace (rev v))"
proof -
  have "dropWhile isspace (u @ c # v) = u @ c # v" using assms by (cases u) simp_all
  moreover have "dropWhile isspace (rev v @ c # rev u) = dropWhile isspace (rev v) @ c # rev u"
    using assms(2) by (induction "rev v") (auto simp: dropWhile_append)
  ultimately show ?thesis by (simp add: trim_conv)
qed

lemma trim_not_Nil: "c \<in> set s \<Longrightarrow> \<not> isspace c \<Longrightarrow> trim s \<noteq> []"
proof
  assume c: "c \<in> set s" "\<not> isspace c" and "trim s = []"
  then have all: "\<forall>x \<in> set (dropWhile isspace s). isspace x"
    by (simp add: trim_conv dropWhile_eq_Nil_conv)
  have "dropWhile isspace s \<noteq> []" using c by (auto simp: dropWhile_eq_Nil_conv)
  with all hd_dropWhile [of isspace s] hd_in_set [of "dropWhile isspace s"] show False by blast
qed

section \<open>What trimming leaves\<close>

text \<open>
  \<open>trim\<close> cuts white space, and only white space, from both ends: what is left starts and ends
  with another character or is empty.
\<close>

lemma trim_cuts_blanks:
  "\<exists>a b. s = a @ trim s @ b \<and> (\<forall>c \<in> set (a @ b). isspace c)
     \<and> (trim s = [] \<or> (\<not> isspace (hd (trim s)) \<and> \<not> isspace (last (trim s))))"
proof -
  have "s = takeWhile isspace s @ dropWhile isspace s" by simp
  moreover have "dropWhile isspace s =
      trim s @ rev (takeWhile isspace (rev (dropWhile isspace s)))"
    by (simp add: trim_conv flip: rev_append)
  ultimately have "s = takeWhile isspace s @ trim s @ rev (takeWhile isspace (rev (dropWhile isspace s)))"
    by metis
  moreover have "\<forall>c \<in> set (takeWhile isspace s @ rev (takeWhile isspace (rev (dropWhile isspace s)))).
      isspace c"
    by (auto dest: set_takeWhileD)
  ultimately show ?thesis using hd_trim last_trim by blast
qed

end
