(* ===== verification/Ip_Address.thy ===== *)
theory Ip_Address
  imports Asio_Errors C_Strings
begin

text \<open>
  The addresses of the bundled asio library: \<open>ip/address_v4.hpp\<close>, \<open>ip/impl/address_v4.ipp\<close>,
  \<open>ip/impl/address_v6.ipp\<close> and \<open>ip/impl/address.ipp\<close>, with the conversions to and from text at the
  end of \<open>detail/impl/socket_ops.ipp\<close>, on a little-endian machine whose \<open>unsigned long\<close> has 64 bits.

  The address of version 4 is kept as the source keeps it, a 32-bit word whose bytes in memory are in
  network order; that of version 6 is its sixteen bytes. What the C library does with text and with
  the names of interfaces is a parameter.
\<close>

section \<open>Errors\<close>

datatype ip_error = Thrown error_code | Out_Of_Range | Bad_Cast | Undefined ub

type_synonym 'a ip_result = "ip_error + 'a"

definition bind_ip :: "'a ip_result \<Rightarrow> ('a \<Rightarrow> 'b ip_result) \<Rightarrow> 'b ip_result" where
  "bind_ip m k = (case m of Inl e \<Rightarrow> Inl e | Inr x \<Rightarrow> k x)"

lemma bind_ip_simps [simp]: "bind_ip (Inr x) k = k x" "bind_ip (Inl e) k = Inl e"
  by (simp_all add: bind_ip_def)

text \<open>\<open>throw_error\<close>, for a call that reported its error in a code.\<close>

definition throw_ip :: "error_code \<times> 'a \<Rightarrow> 'a ip_result" where
  "throw_ip r = (if failed (fst r) then Inl (Thrown (fst r)) else Inr (snd r))"

section \<open>Words in memory\<close>

definition store_u32 :: "u32 \<Rightarrow> bytes" where
  "store_u32 w = map (\<lambda>k. ucast (drop_bit (8 * k) w)) [0, 1, 2, 3]"

definition load_u32 :: "bytes \<Rightarrow> u32" where
  "load_u32 bs = ucast (bs ! 0) OR push_bit 8 (ucast (bs ! 1))
     OR push_bit 16 (ucast (bs ! 2)) OR push_bit 24 (ucast (bs ! 3))"

definition store_u16 :: "16 word \<Rightarrow> bytes" where
  "store_u16 w = map (\<lambda>k. ucast (drop_bit (8 * k) w)) [0, 1]"

definition load_u16 :: "bytes \<Rightarrow> 16 word" where
  "load_u16 bs = ucast (bs ! 0) OR push_bit 8 (ucast (bs ! 1))"

text \<open>The byte order conversions of a little-endian machine.\<close>

definition host_to_network_long :: "u32 \<Rightarrow> u32" where
  "host_to_network_long v = load_u32 (rev (store_u32 v))"

definition network_to_host_long :: "u32 \<Rightarrow> u32" where
  "network_to_host_long v = load_u32 (rev (store_u32 v))"

definition host_to_network_short :: "16 word \<Rightarrow> 16 word" where
  "host_to_network_short v = load_u16 (rev (store_u16 v))"

definition network_to_host_short :: "16 word \<Rightarrow> 16 word" where
  "network_to_host_short v = load_u16 (rev (store_u16 v))"

text \<open>\<open>memcmp\<close> over two blocks of one length: the difference of the first bytes that differ.\<close>

fun memcmp :: "bytes \<Rightarrow> bytes \<Rightarrow> int" where
  "memcmp (a # as) (b # bs) = (if a = b then memcmp as bs else if a < b then -1 else 1)"
| "memcmp as bs = 0"

section \<open>Version 4\<close>

record address_v4 =
  s_addr :: u32

definition address_v4_any :: address_v4 where
  "address_v4_any = \<lparr>s_addr = 0\<rparr>"

definition address_v4_bytes :: "bytes \<Rightarrow> address_v4" where
  "address_v4_bytes bs = \<lparr>s_addr = load_u32 bs\<rparr>"

definition address_v4_ulong :: "u64 \<Rightarrow> address_v4 ip_result" where
  "address_v4_ulong a =
     (if a > 0xFFFFFFFF then Inl Out_Of_Range
      else Inr \<lparr>s_addr = host_to_network_long (ucast a)\<rparr>)"

definition v4_to_bytes :: "address_v4 \<Rightarrow> bytes" where
  "v4_to_bytes a = store_u32 (s_addr a)"

definition v4_to_ulong :: "address_v4 \<Rightarrow> u64" where
  "v4_to_ulong a = ucast (network_to_host_long (s_addr a))"

definition v4_is_loopback :: "address_v4 \<Rightarrow> bool" where
  "v4_is_loopback a \<longleftrightarrow> v4_to_ulong a AND 0xFF000000 = 0x7F000000"

definition v4_is_unspecified :: "address_v4 \<Rightarrow> bool" where
  "v4_is_unspecified a \<longleftrightarrow> v4_to_ulong a = 0"

definition v4_is_class_a :: "address_v4 \<Rightarrow> bool" where
  "v4_is_class_a a \<longleftrightarrow> v4_to_ulong a AND 0x80000000 = 0"

definition v4_is_class_b :: "address_v4 \<Rightarrow> bool" where
  "v4_is_class_b a \<longleftrightarrow> v4_to_ulong a AND 0xC0000000 = 0x80000000"

definition v4_is_class_c :: "address_v4 \<Rightarrow> bool" where
  "v4_is_class_c a \<longleftrightarrow> v4_to_ulong a AND 0xE0000000 = 0xC0000000"

definition v4_is_multicast :: "address_v4 \<Rightarrow> bool" where
  "v4_is_multicast a \<longleftrightarrow> v4_to_ulong a AND 0xF0000000 = 0xE0000000"

definition v4_loopback :: "address_v4 ip_result" where
  "v4_loopback = address_v4_ulong 0x7F000001"

definition v4_broadcast_all :: "address_v4 ip_result" where
  "v4_broadcast_all = address_v4_ulong 0xFFFFFFFF"

definition v4_broadcast :: "address_v4 \<Rightarrow> address_v4 \<Rightarrow> address_v4 ip_result" where
  "v4_broadcast addr net = address_v4_ulong (v4_to_ulong addr OR (v4_to_ulong net XOR 0xFFFFFFFF))"

definition v4_netmask :: "address_v4 \<Rightarrow> address_v4 ip_result" where
  "v4_netmask addr =
     (if v4_is_class_a addr then address_v4_ulong 0xFF000000
      else if v4_is_class_b addr then address_v4_ulong 0xFFFF0000
      else if v4_is_class_c addr then address_v4_ulong 0xFFFFFF00
      else address_v4_ulong 0xFFFFFFFF)"

definition v4_eq :: "address_v4 \<Rightarrow> address_v4 \<Rightarrow> bool" where
  "v4_eq a b \<longleftrightarrow> s_addr a = s_addr b"

definition v4_less :: "address_v4 \<Rightarrow> address_v4 \<Rightarrow> bool" where
  "v4_less a b \<longleftrightarrow> v4_to_ulong a < v4_to_ulong b"

definition v4_greater :: "address_v4 \<Rightarrow> address_v4 \<Rightarrow> bool" where
  "v4_greater a b \<longleftrightarrow> v4_to_ulong a > v4_to_ulong b"

definition v4_le :: "address_v4 \<Rightarrow> address_v4 \<Rightarrow> bool" where
  "v4_le a b \<longleftrightarrow> v4_to_ulong a \<le> v4_to_ulong b"

definition v4_ge :: "address_v4 \<Rightarrow> address_v4 \<Rightarrow> bool" where
  "v4_ge a b \<longleftrightarrow> v4_to_ulong a \<ge> v4_to_ulong b"

section \<open>Version 6\<close>

record address_v6 =
  s6_addr :: bytes
  scope_id :: u64

definition address_v6_any :: address_v6 where
  "address_v6_any = \<lparr>s6_addr = replicate 16 0, scope_id = 0\<rparr>"

definition address_v6_bytes :: "bytes \<Rightarrow> u64 \<Rightarrow> address_v6" where
  "address_v6_bytes bs scope = \<lparr>s6_addr = take 16 bs, scope_id = scope\<rparr>"

definition v6_to_bytes :: "address_v6 \<Rightarrow> bytes" where
  "v6_to_bytes a = s6_addr a"

definition v6_is_loopback :: "address_v6 \<Rightarrow> bool" where
  "v6_is_loopback a \<longleftrightarrow> (\<forall>i \<in> set [0..<15]. s6_addr a ! i = 0) \<and> s6_addr a ! 15 = 1"

definition v6_is_unspecified :: "address_v6 \<Rightarrow> bool" where
  "v6_is_unspecified a \<longleftrightarrow> (\<forall>i \<in> set [0..<16]. s6_addr a ! i = 0)"

definition v6_is_link_local :: "address_v6 \<Rightarrow> bool" where
  "v6_is_link_local a \<longleftrightarrow> s6_addr a ! 0 = 0xfe \<and> s6_addr a ! 1 AND 0xc0 = 0x80"

definition v6_is_site_local :: "address_v6 \<Rightarrow> bool" where
  "v6_is_site_local a \<longleftrightarrow> s6_addr a ! 0 = 0xfe \<and> s6_addr a ! 1 AND 0xc0 = 0xc0"

definition v6_is_v4_mapped :: "address_v6 \<Rightarrow> bool" where
  "v6_is_v4_mapped a \<longleftrightarrow> (\<forall>i \<in> set [0..<10]. s6_addr a ! i = 0)
     \<and> s6_addr a ! 10 = 0xff \<and> s6_addr a ! 11 = 0xff"

definition v6_is_v4_compatible :: "address_v6 \<Rightarrow> bool" where
  "v6_is_v4_compatible a \<longleftrightarrow> (\<forall>i \<in> set [0..<12]. s6_addr a ! i = 0)
     \<and> \<not> (s6_addr a ! 12 = 0 \<and> s6_addr a ! 13 = 0 \<and> s6_addr a ! 14 = 0
          \<and> (s6_addr a ! 15 = 0 \<or> s6_addr a ! 15 = 1))"

definition v6_is_multicast :: "address_v6 \<Rightarrow> bool" where
  "v6_is_multicast a \<longleftrightarrow> s6_addr a ! 0 = 0xff"

definition v6_is_multicast_global :: "address_v6 \<Rightarrow> bool" where
  "v6_is_multicast_global a \<longleftrightarrow> s6_addr a ! 0 = 0xff \<and> s6_addr a ! 1 AND 0x0f = 0x0e"

definition v6_is_multicast_link_local :: "address_v6 \<Rightarrow> bool" where
  "v6_is_multicast_link_local a \<longleftrightarrow> s6_addr a ! 0 = 0xff \<and> s6_addr a ! 1 AND 0x0f = 0x02"

definition v6_is_multicast_node_local :: "address_v6 \<Rightarrow> bool" where
  "v6_is_multicast_node_local a \<longleftrightarrow> s6_addr a ! 0 = 0xff \<and> s6_addr a ! 1 AND 0x0f = 0x01"

definition v6_is_multicast_org_local :: "address_v6 \<Rightarrow> bool" where
  "v6_is_multicast_org_local a \<longleftrightarrow> s6_addr a ! 0 = 0xff \<and> s6_addr a ! 1 AND 0x0f = 0x08"

definition v6_is_multicast_site_local :: "address_v6 \<Rightarrow> bool" where
  "v6_is_multicast_site_local a \<longleftrightarrow> s6_addr a ! 0 = 0xff \<and> s6_addr a ! 1 AND 0x0f = 0x05"

definition v6_to_v4 :: "address_v6 \<Rightarrow> address_v4 ip_result" where
  "v6_to_v4 a =
     (if \<not> v6_is_v4_mapped a \<and> \<not> v6_is_v4_compatible a then Inl Bad_Cast
      else Inr (address_v4_bytes [s6_addr a ! 12, s6_addr a ! 13, s6_addr a ! 14, s6_addr a ! 15]))"

definition v6_eq :: "address_v6 \<Rightarrow> address_v6 \<Rightarrow> bool" where
  "v6_eq a b \<longleftrightarrow> memcmp (s6_addr a) (s6_addr b) = 0 \<and> scope_id a = scope_id b"

definition v6_less :: "address_v6 \<Rightarrow> address_v6 \<Rightarrow> bool" where
  "v6_less a b =
     (let r = memcmp (s6_addr a) (s6_addr b)
      in if r < 0 then True else if r > 0 then False else scope_id a < scope_id b)"

definition v6_loopback :: address_v6 where
  "v6_loopback = address_v6_any\<lparr>s6_addr := (s6_addr address_v6_any)[15 := 1]\<rparr>"

definition v6_v4_mapped :: "address_v4 \<Rightarrow> address_v6" where
  "v6_v4_mapped a = address_v6_bytes (replicate 10 0 @ [0xFF, 0xFF] @ v4_to_bytes a) 0"

definition v6_v4_compatible :: "address_v4 \<Rightarrow> address_v6" where
  "v6_v4_compatible a = address_v6_bytes (replicate 12 0 @ v4_to_bytes a) 0"

section \<open>Either version\<close>

datatype address_type = Ipv4 | Ipv6

record address =
  type_of :: address_type
  ipv4_address :: address_v4
  ipv6_address :: address_v6

definition address_any :: address where
  "address_any = \<lparr>type_of = Ipv4, ipv4_address = address_v4_any, ipv6_address = address_v6_any\<rparr>"

definition address_of_v4 :: "address_v4 \<Rightarrow> address" where
  "address_of_v4 a = \<lparr>type_of = Ipv4, ipv4_address = a, ipv6_address = address_v6_any\<rparr>"

definition address_of_v6 :: "address_v6 \<Rightarrow> address" where
  "address_of_v6 a = \<lparr>type_of = Ipv6, ipv4_address = address_v4_any, ipv6_address = a\<rparr>"

definition assign_v4 :: "address_v4 \<Rightarrow> address \<Rightarrow> address" where
  "assign_v4 v a = a\<lparr>type_of := Ipv4, ipv4_address := v, ipv6_address := address_v6_any\<rparr>"

definition assign_v6 :: "address_v6 \<Rightarrow> address \<Rightarrow> address" where
  "assign_v6 v a = a\<lparr>type_of := Ipv6, ipv4_address := address_v4_any, ipv6_address := v\<rparr>"

definition to_v4 :: "address \<Rightarrow> address_v4 ip_result" where
  "to_v4 a = (if type_of a \<noteq> Ipv4 then Inl Bad_Cast else Inr (ipv4_address a))"

definition to_v6 :: "address \<Rightarrow> address_v6 ip_result" where
  "to_v6 a = (if type_of a \<noteq> Ipv6 then Inl Bad_Cast else Inr (ipv6_address a))"

definition is_loopback :: "address \<Rightarrow> bool" where
  "is_loopback a = (if type_of a = Ipv4 then v4_is_loopback (ipv4_address a)
     else v6_is_loopback (ipv6_address a))"

definition is_unspecified :: "address \<Rightarrow> bool" where
  "is_unspecified a = (if type_of a = Ipv4 then v4_is_unspecified (ipv4_address a)
     else v6_is_unspecified (ipv6_address a))"

definition is_multicast :: "address \<Rightarrow> bool" where
  "is_multicast a = (if type_of a = Ipv4 then v4_is_multicast (ipv4_address a)
     else v6_is_multicast (ipv6_address a))"

definition address_eq :: "address \<Rightarrow> address \<Rightarrow> bool" where
  "address_eq a b =
     (if type_of a \<noteq> type_of b then False
      else if type_of a = Ipv6 then v6_eq (ipv6_address a) (ipv6_address b)
      else v4_eq (ipv4_address a) (ipv4_address b))"

fun type_rank :: "address_type \<Rightarrow> nat" where
  "type_rank Ipv4 = 0"
| "type_rank Ipv6 = 1"

definition address_less :: "address \<Rightarrow> address \<Rightarrow> bool" where
  "address_less a b =
     (if type_rank (type_of a) < type_rank (type_of b) then True
      else if type_rank (type_of a) > type_rank (type_of b) then False
      else if type_of a = Ipv6 then v6_less (ipv6_address a) (ipv6_address b)
      else v4_less (ipv4_address a) (ipv4_address b))"

section \<open>Text\<close>

text \<open>
  What the C library does: each function gives its result and the value it leaves in \<open>errno\<close>, which
  the source sets to 0 before it calls. \<open>inet_pton\<close> gives a number and the bytes it stored,
  \<open>inet_ntop\<close> the text, \<open>None\<close> for a null pointer.
\<close>

record text_library =
  lib_inet_ntop :: "int \<Rightarrow> bytes \<Rightarrow> nat \<Rightarrow> bytes option \<times> int"
  lib_inet_pton :: "int \<Rightarrow> bytes \<Rightarrow> bytes \<Rightarrow> (int \<times> bytes) \<times> int"
  lib_if_indextoname :: "u32 \<Rightarrow> bytes option"
  lib_if_nametoindex :: "bytes \<Rightarrow> u32"

definition AF_INET :: int where "AF_INET = 2"
definition AF_INET6 :: int where "AF_INET6 = 10"
definition IF_NAMESIZE :: nat where "IF_NAMESIZE = 16"
definition max_addr_v4_str_len :: nat where "max_addr_v4_str_len = 16"
definition max_addr_v6_str_len :: nat where "max_addr_v6_str_len = 46 + 1 + IF_NAMESIZE"

text \<open>Writing a C string into a buffer: the bytes and a NUL have to fit.\<close>

definition write_text :: "nat \<Rightarrow> bytes \<Rightarrow> bytes ip_result" where
  "write_text room s = (if length s + 1 \<le> room then Inr s else Inl (Undefined WritePastEnd))"

text \<open>
  The name of the scope: a percent sign and, in a buffer of \<open>IF_NAMESIZE + 1\<close> bytes, the name of the
  interface or the number. \<open>if_indextoname\<close> stores at most \<open>IF_NAMESIZE\<close> bytes.
\<close>

definition scope_text :: "text_library \<Rightarrow> bytes \<Rightarrow> u64 \<Rightarrow> bytes ip_result" where
  "scope_text C addr scope =
     (let is_link_local = (addr ! 0 = 0xfe \<and> addr ! 1 AND 0xc0 = 0x80);
          is_multicast_link_local = (addr ! 0 = 0xff \<and> addr ! 1 AND 0x0f = 0x02);
          number = write_text IF_NAMESIZE (dec_number (unat scope));
          name = (if \<not> is_link_local \<and> \<not> is_multicast_link_local then number
                  else case lib_if_indextoname C (ucast scope) of
                    None \<Rightarrow> number
                  | Some s \<Rightarrow> Inr s)
      in bind_ip name (\<lambda>n. Inr (37 # n)))"

definition ops_inet_ntop ::
    "text_library \<Rightarrow> int \<Rightarrow> bytes \<Rightarrow> nat \<Rightarrow> u64 \<Rightarrow> (error_code \<times> bytes option) ip_result" where
  "ops_inet_ntop C af src len scope =
     (case lib_inet_ntop C af src len of
        (res, err) \<Rightarrow>
          let ec = error_code_of err system_category;
              ec = (if res = None \<and> \<not> failed ec then basic_error invalid_argument else ec)
          in case res of
               Some dest \<Rightarrow>
                 if af = AF_INET6 \<and> scope \<noteq> 0 then
                   bind_ip (scope_text C src scope) (\<lambda>name.
                     bind_ip (write_text len (dest @ name)) (\<lambda>text. Inr (ec, Some text)))
                 else Inr (ec, Some dest)
             | None \<Rightarrow> Inr (ec, None))"

text \<open>
  The text up to a percent sign is copied to a buffer for \<open>inet_pton\<close>; what follows the sign is the
  name or the number of the scope. \<open>scope\<close> is the pointer the caller passes and \<open>old\<close> what it
  points to.
\<close>

definition ops_inet_pton ::
    "text_library \<Rightarrow> int \<Rightarrow> bytes \<Rightarrow> bytes \<Rightarrow> u64 option
     \<Rightarrow> (int \<times> bytes \<times> u64 option \<times> error_code) ip_result" where
  "ops_inet_pton C af src dest scope =
     (let is_v6 = (af = AF_INET6);
          if_name = (if is_v6 \<and> 37 \<in> set src then Some (dropWhile (\<lambda>c. c \<noteq> 37) src) else None);
          head = takeWhile (\<lambda>c. c \<noteq> 37) src
      in if if_name \<noteq> None \<and> length head > max_addr_v6_str_len
         then Inr (0, dest, scope, basic_error invalid_argument)
         else
           case lib_inet_pton C af (if if_name = None then src else head) dest of
             ((res, dest1), err) \<Rightarrow>
               let ec = error_code_of err system_category;
                   ec = (if res \<le> 0 \<and> \<not> failed ec then basic_error invalid_argument else ec)
               in if res > 0 \<and> is_v6 \<and> scope \<noteq> None then
                    case if_name of
                      None \<Rightarrow> Inr (res, dest1, Some 0, ec)
                    | Some n \<Rightarrow>
                        let is_link_local = (dest1 ! 0 = 0xfe \<and> dest1 ! 1 AND 0xc0 = 0x80);
                            is_multicast_link_local = (dest1 ! 0 = 0xff \<and> dest1 ! 1 AND 0x0f = 0x02);
                            id = (if is_link_local \<or> is_multicast_link_local
                                  then ucast (lib_if_nametoindex C (tl n)) else 0 :: u64)
                        in if id \<noteq> 0 then Inr (res, dest1, Some id, ec)
                           else case atoi (tl n) of
                                  Inl e \<Rightarrow> Inl (Undefined IntegerOverflow)
                                | Inr v \<Rightarrow> Inr (res, dest1, Some (word_of_int v), ec)
                  else Inr (res, dest1, scope, ec))"

definition v4_to_string_ec :: "text_library \<Rightarrow> address_v4 \<Rightarrow> (error_code \<times> bytes) ip_result" where
  "v4_to_string_ec C a =
     bind_ip (ops_inet_ntop C AF_INET (v4_to_bytes a) max_addr_v4_str_len 0) (\<lambda>(ec, text).
       Inr (ec, case text of None \<Rightarrow> [] | Some s \<Rightarrow> s))"

definition v4_to_string :: "text_library \<Rightarrow> address_v4 \<Rightarrow> bytes ip_result" where
  "v4_to_string C a = bind_ip (v4_to_string_ec C a) throw_ip"

definition v4_from_string_ec :: "text_library \<Rightarrow> bytes \<Rightarrow> (error_code \<times> address_v4) ip_result" where
  "v4_from_string_ec C str =
     bind_ip (ops_inet_pton C AF_INET str (v4_to_bytes address_v4_any) None) (\<lambda>(res, dest, _, ec).
       Inr (ec, if res \<le> 0 then address_v4_any else address_v4_bytes dest))"

definition v4_from_string :: "text_library \<Rightarrow> bytes \<Rightarrow> address_v4 ip_result" where
  "v4_from_string C str = bind_ip (v4_from_string_ec C str) throw_ip"

definition v6_to_string_ec :: "text_library \<Rightarrow> address_v6 \<Rightarrow> (error_code \<times> bytes) ip_result" where
  "v6_to_string_ec C a =
     bind_ip (ops_inet_ntop C AF_INET6 (s6_addr a) max_addr_v6_str_len (scope_id a)) (\<lambda>(ec, text).
       Inr (ec, case text of None \<Rightarrow> [] | Some s \<Rightarrow> s))"

definition v6_to_string :: "text_library \<Rightarrow> address_v6 \<Rightarrow> bytes ip_result" where
  "v6_to_string C a = bind_ip (v6_to_string_ec C a) throw_ip"

definition v6_from_string_ec :: "text_library \<Rightarrow> bytes \<Rightarrow> (error_code \<times> address_v6) ip_result" where
  "v6_from_string_ec C str =
     bind_ip (ops_inet_pton C AF_INET6 str (s6_addr address_v6_any) (Some (scope_id address_v6_any)))
       (\<lambda>(res, dest, scope, ec).
         Inr (ec, if res \<le> 0 then address_v6_any
                  else \<lparr>s6_addr = dest, scope_id = (case scope of None \<Rightarrow> 0 | Some s \<Rightarrow> s)\<rparr>))"

definition v6_from_string :: "text_library \<Rightarrow> bytes \<Rightarrow> address_v6 ip_result" where
  "v6_from_string C str = bind_ip (v6_from_string_ec C str) throw_ip"

definition address_to_string_ec :: "text_library \<Rightarrow> address \<Rightarrow> (error_code \<times> bytes) ip_result" where
  "address_to_string_ec C a = (if type_of a = Ipv6 then v6_to_string_ec C (ipv6_address a)
     else v4_to_string_ec C (ipv4_address a))"

definition address_to_string :: "text_library \<Rightarrow> address \<Rightarrow> bytes ip_result" where
  "address_to_string C a = (if type_of a = Ipv6 then v6_to_string C (ipv6_address a)
     else v4_to_string C (ipv4_address a))"

text \<open>Version 6 is tried first.\<close>

definition address_from_string_ec :: "text_library \<Rightarrow> bytes \<Rightarrow> (error_code \<times> address) ip_result" where
  "address_from_string_ec C str =
     bind_ip (v6_from_string_ec C str) (\<lambda>(ec, a6).
       if \<not> failed ec then Inr (ec, address_any\<lparr>type_of := Ipv6, ipv6_address := a6\<rparr>)
       else bind_ip (v4_from_string_ec C str) (\<lambda>(ec, a4).
         if \<not> failed ec then Inr (ec, address_any\<lparr>type_of := Ipv4, ipv4_address := a4\<rparr>)
         else Inr (ec, address_any)))"

definition address_from_string :: "text_library \<Rightarrow> bytes \<Rightarrow> address ip_result" where
  "address_from_string C str = bind_ip (address_from_string_ec C str) throw_ip"

end
