(* ===== verification/Ip_Laws.thy ===== *)
theory Ip_Laws
  imports Ip_Address
begin

text \<open>
  Properties of addresses: the conversions of byte order, numbers and the two embeddings of version 4
  into version 6, the order of addresses, and the buffer for a numeric scope.
\<close>

section \<open>Byte order\<close>

lemma byte_bits [simp]: "8 \<le> k \<Longrightarrow> \<not> bit a k" for a :: byte
  by (auto dest: bit_imp_le_length)

lemma load_store_u32 [simp]: "load_u32 (store_u32 w) = w"
proof (rule bit_word_eqI)
  fix n assume "n < LENGTH(32)"
  then consider "n < 8" | "8 \<le> n" "n < 16" | "16 \<le> n" "n < 24" | "24 \<le> n" "n < 32" by force
  then show "bit (load_u32 (store_u32 w)) n = bit w n"
    by cases (auto simp: load_u32_def store_u32_def bit_simps)
qed

lemma length_store_u32 [simp]: "length (store_u32 w) = 4"
  by (simp add: store_u32_def)

lemma length_4: "length bs = 4 \<longleftrightarrow> (\<exists>a b c d. bs = [a, b, c, d])"
  by (auto simp: numeral_eq_Suc length_Suc_conv)

lemma store_load_u32 [simp]: "length bs = 4 \<Longrightarrow> store_u32 (load_u32 bs) = bs"
  unfolding length_4 load_u32_def store_u32_def
  by (auto intro!: bit_word_eqI simp: bit_simps)

lemma length_2: "length bs = 2 \<longleftrightarrow> (\<exists>a b. bs = [a, b])"
  by (auto simp: numeral_eq_Suc length_Suc_conv)

lemma load_store_u16 [simp]: "load_u16 (store_u16 w) = w"
  unfolding load_u16_def store_u16_def
  by (rule bit_word_eqI) (auto simp: bit_simps less_diff_conv)

lemma length_store_u16 [simp]: "length (store_u16 w) = 2"
  by (simp add: store_u16_def)

lemma store_load_u16 [simp]: "length bs = 2 \<Longrightarrow> store_u16 (load_u16 bs) = bs"
  unfolding length_2 load_u16_def store_u16_def
  by (auto intro!: bit_word_eqI simp: bit_simps)

lemma byte_order [simp]:
  "network_to_host_long (host_to_network_long v) = v" "host_to_network_long (network_to_host_long v) = v"
  "network_to_host_short (host_to_network_short p) = p" "host_to_network_short (network_to_host_short p) = p"
  by (simp_all add: network_to_host_long_def host_to_network_long_def
      network_to_host_short_def host_to_network_short_def)

lemma ucast_u64 [simp]: "(ucast (ucast w :: u64) :: u32) = w" for w :: u32
  by (rule bit_word_eqI) (simp add: bit_simps)

lemma u64_small: "a \<le> 0xFFFFFFFF \<Longrightarrow> ucast (ucast a :: u32) = a" for a :: u64
proof -
  assume "a \<le> 0xFFFFFFFF"
  then have "uint a < 2 ^ 32" by (simp add: word_le_def)
  then show ?thesis
    by (simp add: word_uint_eq_iff unsigned_ucast_eq unsigned_take_bit_eq take_bit_int_eq_self_iff)
qed

lemma u32_bound: "ucast w \<le> (0xFFFFFFFF :: u64)" for w :: u32
proof -
  have w: "uint w < 2 ^ 32" using uint_lt2p [of w] by simp
  then have "take_bit 64 (uint w) = uint w" by (intro take_bit_int_eq_self) simp_all
  with w show ?thesis by (simp add: word_le_def unsigned_ucast_eq)
qed

section \<open>Numbers and bytes\<close>

lemma v4_ulong_roundtrip: "address_v4_ulong (v4_to_ulong a) = Inr a"
  using u32_bound [of "network_to_host_long (s_addr a)"]
  by (simp add: address_v4_ulong_def v4_to_ulong_def not_less)

lemma v4_of_ulong:
  "address_v4_ulong n = (if n \<le> 0xFFFFFFFF then Inr a else Inl Out_Of_Range)
   \<Longrightarrow> n \<le> 0xFFFFFFFF \<Longrightarrow> v4_to_ulong a = n"
  by (auto simp: address_v4_ulong_def v4_to_ulong_def u64_small not_less split: if_splits)

lemma v4_to_ulong_inj: "v4_to_ulong a = v4_to_ulong b \<longleftrightarrow> a = b"
  using v4_ulong_roundtrip by (metis sum.inject(2))

lemma v4_bytes_roundtrip:
  "address_v4_bytes (v4_to_bytes a) = a" "length bs = 4 \<Longrightarrow> v4_to_bytes (address_v4_bytes bs) = bs"
  by (simp_all add: address_v4_bytes_def v4_to_bytes_def)

text \<open>
  An address of version 4 survives both embeddings into version 6 and both numeric forms: the
  mapped form always gives it back, the compatible form for every address but 0.0.0.0 and 0.0.0.1,
  whose compatible forms are the unspecified and the loopback address, for which the conversion
  throws.
\<close>

lemma v4_embeddings:
  "v6_to_v4 (v6_v4_mapped a) = Inr a
   \<and> v6_to_v4 (v6_v4_compatible a) = (if v4_to_ulong a \<in> {0, 1} then Inl Bad_Cast else Inr a)
   \<and> address_v4_ulong (v4_to_ulong a) = Inr a \<and> address_v4_bytes (v4_to_bytes a) = a"
proof -
  obtain p q r s where b: "v4_to_bytes a = [p, q, r, s]"
    using length_4 [of "v4_to_bytes a"] by (auto simp: v4_to_bytes_def)
  then have a: "a = address_v4_bytes [p, q, r, s]" using v4_bytes_roundtrip(1) [of a] by simp
  have st: "store_u32 (s_addr a) = [p, q, r, s]" using b by (simp add: v4_to_bytes_def)
  have n: "v4_to_ulong a = ucast (load_u32 [s, r, q, p])"
    by (simp add: v4_to_ulong_def network_to_host_long_def st)
  have z: "v4_to_ulong a = ucast x \<longleftrightarrow> [s, r, q, p] = store_u32 x" for x :: u32
  proof -
    have "v4_to_ulong a = ucast x \<longleftrightarrow> load_u32 [s, r, q, p] = x"
      unfolding n by (metis ucast_u64)
    also have "\<dots> \<longleftrightarrow> [s, r, q, p] = store_u32 x"
      by (metis length_4 load_store_u32 store_load_u32)
    finally show ?thesis .
  qed
  have zero: "v4_to_ulong a = 0 \<longleftrightarrow> s = 0 \<and> r = 0 \<and> q = 0 \<and> p = 0"
    using z [of 0] by (simp add: store_u32_def)
  have one: "v4_to_ulong a = 1 \<longleftrightarrow> s = 1 \<and> r = 0 \<and> q = 0 \<and> p = 0"
    using z [of 1] by (simp add: store_u32_def)
  have "v6_to_v4 (v6_v4_mapped a) = Inr a"
    by (simp add: v6_to_v4_def v6_v4_mapped_def b v6_is_v4_mapped_def address_v6_bytes_def a [symmetric] nth_append)
  moreover have "v6_to_v4 (v6_v4_compatible a) = (if v4_to_ulong a \<in> {0, 1} then Inl Bad_Cast else Inr a)"
    using zero one
    by (auto simp: v6_to_v4_def v6_v4_compatible_def b v6_is_v4_mapped_def v6_is_v4_compatible_def
        address_v6_bytes_def a [symmetric] nth_append)
  ultimately show ?thesis using v4_ulong_roundtrip v4_bytes_roundtrip(1) by simp
qed

section \<open>Order\<close>

lemma memcmp_key:
  assumes "length as = length bs"
  shows "memcmp as bs < 0 \<longleftrightarrow> big_endian as < big_endian bs"
    and "memcmp as bs > 0 \<longleftrightarrow> big_endian bs < big_endian as"
    and "memcmp as bs = 0 \<longleftrightarrow> as = bs"
  using assms
  by (induction as bs rule: list_induct2)
    (auto simp: big_endian_Cons_less_iff word_less_nat_alt word_unat_eq_iff)

text \<open>
  The place of an address in the order: those of version 4 by their number, then those of version 6
  by their bytes and their scope.
\<close>

definition v6_valid :: "address_v6 \<Rightarrow> bool" where
  "v6_valid a \<longleftrightarrow> length (s6_addr a) = 16"

definition address_valid :: "address \<Rightarrow> bool" where
  "address_valid a \<longleftrightarrow> v6_valid (ipv6_address a)"

definition v6_key :: "address_v6 \<Rightarrow> nat" where
  "v6_key a = big_endian (s6_addr a) * 2 ^ 64 + unat (scope_id a)"

definition address_key :: "address \<Rightarrow> nat" where
  "address_key a = (case type_of a of
     Ipv4 \<Rightarrow> unat (v4_to_ulong (ipv4_address a))
   | Ipv6 \<Rightarrow> 2 ^ 64 + v6_key (ipv6_address a))"

lemma digit_less:
  fixes x y n u v :: nat
  assumes "u < n" "v < n"
  shows "x * n + u < y * n + v \<longleftrightarrow> x < y \<or> x = y \<and> u < v"
proof -
  have "x * n + u < y * n + v" if "x < y" "u < n" for x y u v :: nat
  proof -
    have "x * n + u < (x + 1) * n" using that by simp
    also have "\<dots> \<le> y * n" using that by (intro mult_le_mono1) simp
    finally show ?thesis by simp
  qed
  from this [of x y u v] this [of y x v u] assms show ?thesis
    by (cases x y rule: linorder_cases) auto
qed

lemma scope_bound: "unat (s :: u64) < 2 ^ 64"
  by (rule less_le_trans [OF unsigned_less]) simp

lemma v6_order:
  assumes "v6_valid a" "v6_valid b"
  shows "v6_less a b \<longleftrightarrow> v6_key a < v6_key b" and "v6_eq a b \<longleftrightarrow> v6_key a = v6_key b"
proof -
  have len: "length (s6_addr a) = length (s6_addr b)" using assms by (simp add: v6_valid_def)
  note cmp = memcmp_key [OF len] and inj = big_endian_inj [OF len]
  have less: "v6_key x < v6_key y \<longleftrightarrow> big_endian (s6_addr x) < big_endian (s6_addr y)
      \<or> big_endian (s6_addr x) = big_endian (s6_addr y) \<and> scope_id x < scope_id y" for x y
    unfolding v6_key_def digit_less [OF scope_bound scope_bound] word_less_nat_alt ..
  show "v6_less a b \<longleftrightarrow> v6_key a < v6_key b"
    unfolding v6_less_def less Let_def using cmp by auto
  have "v6_key a = v6_key b \<longleftrightarrow> \<not> v6_key a < v6_key b \<and> \<not> v6_key b < v6_key a" by auto
  also have "\<dots> \<longleftrightarrow> big_endian (s6_addr a) = big_endian (s6_addr b) \<and> scope_id a = scope_id b"
    unfolding less by (auto simp: not_less_iff_gr_or_eq)
  also have "\<dots> \<longleftrightarrow> v6_eq a b" unfolding v6_eq_def cmp(3) by (metis inj)
  finally show "v6_eq a b \<longleftrightarrow> v6_key a = v6_key b" ..
qed

lemma address_order:
  assumes "address_valid a" "address_valid b"
  shows "address_less a b \<longleftrightarrow> address_key a < address_key b"
    and "address_eq a b \<longleftrightarrow> address_key a = address_key b"
proof -
  note v6 = v6_order [of "ipv6_address a" "ipv6_address b"] assms [unfolded address_valid_def]
  have "v4_eq (ipv4_address a) (ipv4_address b)
      \<longleftrightarrow> unat (v4_to_ulong (ipv4_address a)) = unat (v4_to_ulong (ipv4_address b))"
    using v4_to_ulong_inj [of "ipv4_address a" "ipv4_address b"]
    by (auto simp: v4_eq_def word_unat_eq_iff [symmetric])
  then show "address_less a b \<longleftrightarrow> address_key a < address_key b"
    and "address_eq a b \<longleftrightarrow> address_key a = address_key b"
    using v6 scope_bound [of "v4_to_ulong (ipv4_address a)"] scope_bound [of "v4_to_ulong (ipv4_address b)"]
    by (cases "type_of a"; cases "type_of b";
        auto simp: address_less_def address_eq_def address_key_def v4_less_def word_less_nat_alt)+
qed

section \<open>A numeric scope\<close>

lemma dec_number_length: "n < 10 ^ length (dec_number n)"
proof (induction n rule: dec_number.induct)
  case (1 n)
  show ?case
  proof (cases "n < 10")
    case True
    then show ?thesis by (simp add: dec_number.simps [of n])
  next
    case False
    then have "n div 10 < 10 ^ length (dec_number (n div 10))" using 1 by simp
    then have "n < 10 * 10 ^ length (dec_number (n div 10))" by linarith
    with False show ?thesis by (simp add: dec_number.simps [of n])
  qed
qed

lemma dec_number_fits: "length (dec_number n) \<le> 15 \<longleftrightarrow> n < 10 ^ 15"
proof
  assume "length (dec_number n) \<le> 15"
  then have "(10 :: nat) ^ length (dec_number n) \<le> 10 ^ 15" by (intro power_increasing) simp_all
  with dec_number_length [of n] show "n < 10 ^ 15" by (rule less_le_trans)
qed (rule length_dec_number, simp_all)

text \<open>
  The text of an address of version 6 with a scope, when it is not link local: the address, a
  percent sign and the number of the scope, as long as the number has at most fifteen digits. A scope
  of more digits, which the type allows, makes \<open>sprintf\<close> write past the end of a buffer of seventeen
  bytes.
\<close>

lemma scope_text_overruns:
  assumes "lib_inet_ntop C AF_INET6 (s6_addr a) max_addr_v6_str_len = (Some str, 0)"
    and "length str \<le> 45" and "scope_id a \<noteq> 0"
    and "\<not> v6_is_link_local a" and "\<not> v6_is_multicast_link_local a"
  shows "v6_to_string C a =
    (if unat (scope_id a) < 10 ^ 15 then Inr (str @ [37] @ dec_number (unat (scope_id a)))
     else Inl (Undefined WritePastEnd))"
proof -
  have local: "\<not> (s6_addr a ! 0 = 0xfe \<and> s6_addr a ! 1 AND 0xc0 = 0x80)"
    "\<not> (s6_addr a ! 0 = 0xff \<and> s6_addr a ! 1 AND 0x0f = 0x02)"
    using assms(4,5) by (simp_all add: v6_is_link_local_def v6_is_multicast_link_local_def)
  have scope: "scope_text C (s6_addr a) (scope_id a) =
      (if unat (scope_id a) < 10 ^ 15 then Inr (37 # dec_number (unat (scope_id a)))
       else Inl (Undefined WritePastEnd))"
    unfolding scope_text_def Let_def if_not_P [OF local(1)] using local dec_number_fits [of "unat (scope_id a)"]
    by (auto simp: write_text_def IF_NAMESIZE_def)
  have "length str + length (dec_number (unat (scope_id a))) + 2 \<le> max_addr_v6_str_len"
    if "unat (scope_id a) < 10 ^ 15"
    using that assms(2) dec_number_fits [of "unat (scope_id a)"]
    by (simp add: max_addr_v6_str_len_def IF_NAMESIZE_def)
  then show ?thesis
    using assms(1,3)
    by (auto simp: v6_to_string_def v6_to_string_ec_def ops_inet_ntop_def scope write_text_def
        error_code_of_def failed_def throw_ip_def Let_def)
qed

definition printing_library :: text_library where
  "printing_library = \<lparr>lib_inet_ntop = (\<lambda>af src len. (Some (cstr ''2001::1''), 0)),
     lib_inet_pton = (\<lambda>af src dest. ((0, dest), 0)), lib_if_indextoname = (\<lambda>i. None),
     lib_if_nametoindex = (\<lambda>s. 0)\<rparr>"

lemma scope_text_overruns_witness:
  "v6_to_string printing_library (address_v6_bytes (0x20 # 1 # replicate 13 0 @ [1]) (10 ^ 15))
    = Inl (Undefined WritePastEnd)"
  by (subst scope_text_overruns [where str = "cstr ''2001::1''"])
    (simp_all add: printing_library_def address_v6_bytes_def v6_is_link_local_def
      v6_is_multicast_link_local_def cstr_def)

end
