(* ===== verification/Ip_Endpoint.thy ===== *)
theory Ip_Endpoint
  imports Ip_Laws
begin

text \<open>
  Endpoints of the bundled asio library: \<open>ip/detail/endpoint.hpp\<close>, \<open>ip/detail/impl/endpoint.ipp\<close> and
  \<open>ip/basic_endpoint.hpp\<close>. An endpoint is the union of the socket address structures of Linux, kept
  here as the memory it occupies:

    \<^item> bytes 0 and 1 the family, in the byte order of the machine; 2 and 3 the port, in network order;
    \<^item> version 4: bytes 4 to 7 the address; the rest of the sixteen is unused;
    \<^item> version 6: bytes 4 to 7 the flow information, 8 to 23 the address, 24 to 27 the scope.
\<close>

section \<open>Memory\<close>

definition get_at :: "nat \<Rightarrow> nat \<Rightarrow> bytes \<Rightarrow> bytes" where
  "get_at k n d = take n (drop k d)"

definition put_at :: "nat \<Rightarrow> bytes \<Rightarrow> bytes \<Rightarrow> bytes" where
  "put_at k bs d = take k d @ bs @ drop (k + length bs) d"

lemma length_put_at [simp]: "k + length bs \<le> length d \<Longrightarrow> length (put_at k bs d) = length d"
  by (simp add: put_at_def)

lemma get_put_same [simp]: "k \<le> length d \<Longrightarrow> n = length bs \<Longrightarrow> get_at k n (put_at k bs d) = bs"
  by (simp add: get_at_def put_at_def)

lemma get_put_other [simp]:
  assumes "k + length bs \<le> length d" "j + n \<le> k \<or> k + length bs \<le> j"
  shows "get_at j n (put_at k bs d) = get_at j n d"
proof (cases "j + n \<le> k")
  case True
  then show ?thesis using assms(1) by (simp add: get_at_def put_at_def take_drop min_def)
next
  case False
  with assms(2) obtain i where "j = k + length bs + i" using le_Suc_ex by blast
  then show ?thesis using assms(1) by (simp add: get_at_def put_at_def add.commute)
qed

lemma length_get_at [simp]: "k + n \<le> length d \<Longrightarrow> length (get_at k n d) = n"
  by (simp add: get_at_def)

section \<open>The structures\<close>

record endpoint =
  ep_data :: bytes

definition sizeof_sockaddr_in :: nat where "sizeof_sockaddr_in = 16"
definition sizeof_sockaddr_in6 :: nat where "sizeof_sockaddr_in6 = 28"
definition sizeof_sockaddr_storage :: nat where "sizeof_sockaddr_storage = 128"

definition family_field :: "bytes \<Rightarrow> 16 word" where "family_field d = load_u16 (get_at 0 2 d)"
definition port_field :: "bytes \<Rightarrow> 16 word" where "port_field d = load_u16 (get_at 2 2 d)"
definition in4_field :: "bytes \<Rightarrow> u32" where "in4_field d = load_u32 (get_at 4 4 d)"
definition in6_field :: "bytes \<Rightarrow> bytes" where "in6_field d = get_at 8 16 d"
definition scope_field :: "bytes \<Rightarrow> u32" where "scope_field d = load_u32 (get_at 24 4 d)"

definition set_family :: "16 word \<Rightarrow> bytes \<Rightarrow> bytes" where "set_family f = put_at 0 (store_u16 f)"
definition set_port :: "16 word \<Rightarrow> bytes \<Rightarrow> bytes" where "set_port p = put_at 2 (store_u16 p)"
definition set_in4 :: "u32 \<Rightarrow> bytes \<Rightarrow> bytes" where "set_in4 a = put_at 4 (store_u32 a)"
definition set_flowinfo :: "u32 \<Rightarrow> bytes \<Rightarrow> bytes" where "set_flowinfo v = put_at 4 (store_u32 v)"
definition set_in6 :: "bytes \<Rightarrow> bytes \<Rightarrow> bytes" where "set_in6 bs = put_at 8 bs"
definition set_scope :: "u32 \<Rightarrow> bytes \<Rightarrow> bytes" where "set_scope s = put_at 24 (store_u32 s)"

text \<open>The bytes of a value-initialised union.\<close>

definition zero_data :: bytes where "zero_data = replicate 28 0"

section \<open>Endpoints\<close>

definition endpoint_default :: endpoint where
  "endpoint_default = \<lparr>ep_data = set_in4 0 (set_port 0 (set_family 2 zero_data))\<rparr>"

definition endpoint_of_family :: "int \<Rightarrow> 16 word \<Rightarrow> endpoint" where
  "endpoint_of_family fam port_num =
     (if fam = AF_INET
      then \<lparr>ep_data = set_in4 0 (set_port (host_to_network_short port_num) (set_family 2 zero_data))\<rparr>
      else \<lparr>ep_data = set_scope 0 (set_in6 (replicate 16 0) (set_flowinfo 0
        (set_port (host_to_network_short port_num) (set_family 10 zero_data))))\<rparr>)"

text \<open>The guards are those under which \<open>to_v4\<close> and \<open>to_v6\<close> do not throw.\<close>

definition endpoint_of :: "address \<Rightarrow> 16 word \<Rightarrow> endpoint ip_result" where
  "endpoint_of addr port_num =
     (if type_of addr = Ipv4 then
        bind_ip (to_v4 addr) (\<lambda>v4.
          Inr \<lparr>ep_data = set_in4 (host_to_network_long (ucast (v4_to_ulong v4)))
                 (set_port (host_to_network_short port_num) (set_family 2 zero_data))\<rparr>)
      else
        bind_ip (to_v6 addr) (\<lambda>v6.
          Inr \<lparr>ep_data = set_scope (ucast (scope_id v6)) (set_in6 (v6_to_bytes v6) (set_flowinfo 0
                 (set_port (host_to_network_short port_num) (set_family 10 zero_data))))\<rparr>))"

definition ep_is_v4 :: "endpoint \<Rightarrow> bool" where
  "ep_is_v4 e \<longleftrightarrow> family_field (ep_data e) = 2"

definition ep_size :: "endpoint \<Rightarrow> nat" where
  "ep_size e = (if ep_is_v4 e then sizeof_sockaddr_in else sizeof_sockaddr_in6)"

definition ep_capacity :: "endpoint \<Rightarrow> nat" where
  "ep_capacity e = length (ep_data e)"

definition ep_resize :: "nat \<Rightarrow> unit ip_result" where
  "ep_resize new_size =
     (if new_size > sizeof_sockaddr_storage then Inl (Thrown (basic_error invalid_argument)) else Inr ())"

definition ep_port :: "endpoint \<Rightarrow> 16 word" where
  "ep_port e = network_to_host_short (port_field (ep_data e))"

definition ep_set_port :: "16 word \<Rightarrow> endpoint \<Rightarrow> endpoint" where
  "ep_set_port p e = \<lparr>ep_data = set_port (host_to_network_short p) (ep_data e)\<rparr>"

definition ep_address :: "endpoint \<Rightarrow> address ip_result" where
  "ep_address e =
     (if ep_is_v4 e
      then bind_ip (address_v4_ulong (ucast (network_to_host_long (in4_field (ep_data e)))))
             (\<lambda>a. Inr (address_of_v4 a))
      else Inr (address_of_v6 (address_v6_bytes (in6_field (ep_data e)) (ucast (scope_field (ep_data e))))))"

definition ep_set_address :: "address \<Rightarrow> endpoint \<Rightarrow> endpoint ip_result" where
  "ep_set_address addr e = bind_ip (endpoint_of addr (ep_port e)) (\<lambda>tmp. Inr \<lparr>ep_data = ep_data tmp\<rparr>)"

definition ep_eq :: "endpoint \<Rightarrow> endpoint \<Rightarrow> bool ip_result" where
  "ep_eq e1 e2 = bind_ip (ep_address e1) (\<lambda>a1. bind_ip (ep_address e2) (\<lambda>a2.
     Inr (address_eq a1 a2 \<and> ep_port e1 = ep_port e2)))"

definition ep_less :: "endpoint \<Rightarrow> endpoint \<Rightarrow> bool ip_result" where
  "ep_less e1 e2 = bind_ip (ep_address e1) (\<lambda>a1. bind_ip (ep_address e2) (\<lambda>a2.
     Inr (if address_less a1 a2 then True
          else if \<not> address_eq a1 a2 then False
          else ep_port e1 < ep_port e2)))"

definition ep_to_string :: "text_library \<Rightarrow> endpoint \<Rightarrow> (error_code \<times> bytes) ip_result" where
  "ep_to_string C e =
     bind_ip (ep_address e) (\<lambda>addr. bind_ip (address_to_string_ec C addr) (\<lambda>(ec, a).
       if failed ec then Inr (ec, [])
       else Inr (ec, (if ep_is_v4 e then a else [91] @ a @ [93]) @ [58] @ dec_number (unat (ep_port e)))))"

section \<open>What is stored is read back\<close>

definition ep_valid :: "endpoint \<Rightarrow> bool" where
  "ep_valid e \<longleftrightarrow> length (ep_data e) = 28"

lemmas field_defs = family_field_def port_field_def in4_field_def in6_field_def scope_field_def
  set_family_def set_port_def set_in4_def set_flowinfo_def set_in6_def set_scope_def

lemma length_zero_data [simp]: "length zero_data = 28"
  by (simp add: zero_data_def)

lemma host_family [simp]: "(2 :: 16 word) \<noteq> 10" "(10 :: 16 word) \<noteq> 2"
  by simp_all

text \<open>The address an endpoint can hold: the other half is cleared, and a scope loses its upper half.\<close>

definition held_address :: "address \<Rightarrow> address" where
  "held_address a = (if type_of a = Ipv4 then address_of_v4 (ipv4_address a)
     else address_of_v6 ((ipv6_address a)\<lparr>scope_id := ucast (ucast (scope_id (ipv6_address a)) :: u32)\<rparr>))"

lemma low_scope: "ucast (ucast s :: u32) = s \<longleftrightarrow> s < 2 ^ 32" for s :: u64
proof
  assume "ucast (ucast s :: u32) = s"
  then show "s < 2 ^ 32" using u32_bound [of "ucast s"] by (simp add: word_le_nat_alt word_less_nat_alt)
next
  assume "s < 2 ^ 32"
  then have "s \<le> 0xFFFFFFFF" by (simp add: word_le_nat_alt word_less_nat_alt)
  then show "ucast (ucast s :: u32) = s" by (rule u64_small)
qed

lemma v6_with_scope: "\<lparr>s6_addr = s6_addr v, scope_id = x\<rparr> = v\<lparr>scope_id := x\<rparr>"
  by (cases v) simp

lemma endpoint_of_fields:
  assumes "address_valid a"
  obtains e where "endpoint_of a p = Inr e" "ep_valid e" "ep_port e = p" "ep_address e = Inr (held_address a)"
proof (cases "type_of a")
  case Ipv4
  let ?e = "\<lparr>ep_data = set_in4 (host_to_network_long (ucast (v4_to_ulong (ipv4_address a))))
      (set_port (host_to_network_short p) (set_family 2 zero_data))\<rparr>"
  have "endpoint_of a p = Inr ?e" using Ipv4 by (simp add: endpoint_of_def to_v4_def)
  moreover have "ep_valid ?e" by (simp add: ep_valid_def field_defs)
  moreover have "ep_port ?e = p" "ep_is_v4 ?e"
    "in4_field (ep_data ?e) = host_to_network_long (ucast (v4_to_ulong (ipv4_address a)))"
    by (simp_all add: ep_port_def ep_is_v4_def field_defs)
  moreover from this have "ep_address ?e = Inr (held_address a)"
    using Ipv4 v4_ulong_roundtrip [of "ipv4_address a"]
    by (simp add: ep_address_def held_address_def v4_to_ulong_def)
  ultimately show thesis using that by blast
next
  case Ipv6
  let ?v = "ipv6_address a"
  let ?e = "\<lparr>ep_data = set_scope (ucast (scope_id ?v)) (set_in6 (v6_to_bytes ?v) (set_flowinfo 0
      (set_port (host_to_network_short p) (set_family 10 zero_data))))\<rparr>"
  have len: "length (s6_addr ?v) = 16" using assms by (simp add: address_valid_def v6_valid_def)
  have "endpoint_of a p = Inr ?e" using Ipv6 by (simp add: endpoint_of_def to_v6_def)
  moreover have "ep_valid ?e" using len by (simp add: ep_valid_def field_defs v6_to_bytes_def)
  moreover have "ep_port ?e = p" "\<not> ep_is_v4 ?e" "in6_field (ep_data ?e) = s6_addr ?v"
    "scope_field (ep_data ?e) = ucast (scope_id ?v)"
    using len by (simp_all add: ep_port_def ep_is_v4_def field_defs v6_to_bytes_def)
  moreover from this have "ep_address ?e = Inr (held_address a)"
    using Ipv6 len by (simp add: ep_address_def held_address_def address_v6_bytes_def v6_with_scope)
  ultimately show thesis using that by blast
qed

lemma ep_address_ok:
  assumes "ep_valid e"
  obtains a where "ep_address e = Inr a" "address_valid a"
proof (cases "ep_is_v4 e")
  case True
  have "address_v4_ulong (ucast (network_to_host_long (in4_field (ep_data e)))) = Inr \<lparr>s_addr = in4_field (ep_data e)\<rparr>"
    using v4_ulong_roundtrip [of "\<lparr>s_addr = in4_field (ep_data e)\<rparr>"] by (simp add: v4_to_ulong_def)
  with True that show thesis
    by (simp add: ep_address_def address_of_v4_def address_valid_def v6_valid_def address_v6_any_def)
next
  case False
  with assms that show thesis
    by (simp add: ep_address_def address_of_v6_def address_valid_def v6_valid_def address_v6_bytes_def
        field_defs ep_valid_def)
qed

text \<open>
  C36. An endpoint made of an address and a port gives both back, whichever version the address has,
  and setting one keeps the other: the memory of the structures the system reads is laid out without
  overlap. The one thing lost is the upper half of a 64-bit scope.
\<close>

theorem endpoint_roundtrip:
  assumes "address_valid a" "address_valid b"
  shows "\<exists>e f. endpoint_of a p = Inr e \<and> ep_address e = Inr (held_address a) \<and> ep_port e = p
    \<and> ep_address (ep_set_port q e) = Inr (held_address a) \<and> ep_port (ep_set_port q e) = q
    \<and> ep_set_address b e = Inr f \<and> ep_address f = Inr (held_address b) \<and> ep_port f = p
    \<and> (held_address a = a \<longleftrightarrow> (if type_of a = Ipv4 then ipv6_address a = address_v6_any
          else ipv4_address a = address_v4_any \<and> scope_id (ipv6_address a) < 2 ^ 32))"
proof -
  obtain e where e: "endpoint_of a p = Inr e" "ep_valid e" "ep_port e = p" "ep_address e = Inr (held_address a)"
    by (rule endpoint_of_fields [OF assms(1)])
  obtain f where f: "endpoint_of b p = Inr f" "ep_port f = p" "ep_address f = Inr (held_address b)"
    by (rule endpoint_of_fields [OF assms(2)])
  have set: "ep_address (ep_set_port q e) = ep_address e" "ep_port (ep_set_port q e) = q"
    using e(2) by (simp_all add: ep_set_port_def ep_address_def ep_port_def ep_is_v4_def ep_valid_def field_defs)
  have held: "held_address a = a \<longleftrightarrow> (if type_of a = Ipv4 then ipv6_address a = address_v6_any
      else ipv4_address a = address_v4_any \<and> scope_id (ipv6_address a) < 2 ^ 32)"
    using low_scope [of "scope_id (ipv6_address a)"]
    by (cases a; cases "ipv6_address a"; cases "type_of a")
      (auto simp: held_address_def address_of_v4_def address_of_v6_def)
  have "ep_set_address b e = Inr f"
    using e(3) f(1) by (cases f) (simp add: ep_set_address_def)
  with e(1,3,4) f(2,3) set held show ?thesis by auto
qed

definition some_v4 :: address where
  "some_v4 = address_of_v4 (address_v4_bytes [127, 0, 0, 1])"

definition some_v6 :: address where
  "some_v6 = address_of_v6 (v6_loopback\<lparr>scope_id := 2 ^ 32\<rparr>)"

lemma some_valid: "address_valid some_v4" "address_valid some_v6"
  by (simp_all add: some_v4_def some_v6_def address_valid_def v6_valid_def address_of_v4_def
      address_of_v6_def address_v6_any_def v6_loopback_def)

theorem endpoint_roundtrip_witness:
  "\<exists>e f. endpoint_of some_v6 8000 = Inr e \<and> ep_address e \<noteq> Inr some_v6
    \<and> ep_set_address some_v4 e = Inr f \<and> ep_address f = Inr some_v4 \<and> ep_port f = 8000"
proof -
  have "held_address some_v6 \<noteq> some_v6" "held_address some_v4 = some_v4"
    by (simp_all add: held_address_def some_v6_def some_v4_def address_of_v6_def address_of_v4_def
        v6_loopback_def address_v6_any_def)
  moreover obtain e f where "endpoint_of some_v6 8000 = Inr e" "ep_address e = Inr (held_address some_v6)"
    "ep_set_address some_v4 e = Inr f" "ep_address f = Inr (held_address some_v4)" "ep_port f = 8000"
    using endpoint_roundtrip [OF some_valid(2,1), of 8000 0] by blast
  ultimately show ?thesis by simp
qed

section \<open>The order of endpoints\<close>

lemma ep_compare:
  assumes "ep_valid e" "ep_valid f"
  obtains a b where "ep_address e = Inr a" "ep_address f = Inr b"
    "ep_less e f = Inr (address_key a < address_key b \<or> address_key a = address_key b \<and> ep_port e < ep_port f)"
    "ep_eq e f = Inr (address_key a = address_key b \<and> ep_port e = ep_port f)"
proof -
  obtain a where a: "ep_address e = Inr a" "address_valid a" by (rule ep_address_ok [OF assms(1)])
  obtain b where b: "ep_address f = Inr b" "address_valid b" by (rule ep_address_ok [OF assms(2)])
  show thesis
    by (rule that [of a b]) (use a b address_order [OF a(2) b(2)] in \<open>auto simp: ep_less_def ep_eq_def\<close>)
qed

text \<open>
  C37. The comparison of endpoints never throws and is a strict total order up to equality: of two
  endpoints exactly one of less, equal and greater holds, and less is transitive; so endpoints can be
  the keys of ordered containers.
\<close>

theorem endpoints_ordered:
  assumes "ep_valid e" "ep_valid f" "ep_valid g"
  shows "(ep_less e f, ep_eq e f, ep_less f e)
      \<in> {(Inr True, Inr False, Inr False), (Inr False, Inr True, Inr False), (Inr False, Inr False, Inr True)}
    \<and> (ep_less e f = Inr True \<and> ep_less f g = Inr True \<longrightarrow> ep_less e g = Inr True)"
proof -
  obtain a b where ef: "ep_address e = Inr a" "ep_address f = Inr b"
    "ep_less e f = Inr (address_key a < address_key b \<or> address_key a = address_key b \<and> ep_port e < ep_port f)"
    "ep_eq e f = Inr (address_key a = address_key b \<and> ep_port e = ep_port f)"
    by (rule ep_compare [OF assms(1,2)])
  have fe: "ep_less f e = Inr (address_key b < address_key a \<or> address_key b = address_key a \<and> ep_port f < ep_port e)"
    by (rule ep_compare [OF assms(2,1)]) (use ef in simp)
  obtain c where c: "ep_address g = Inr c" by (rule ep_address_ok [OF assms(3)])
  have fg: "ep_less f g = Inr (address_key b < address_key c \<or> address_key b = address_key c \<and> ep_port f < ep_port g)"
    by (rule ep_compare [OF assms(2,3)]) (use ef(2) c in simp)
  have eg: "ep_less e g = Inr (address_key a < address_key c \<or> address_key a = address_key c \<and> ep_port e < ep_port g)"
    by (rule ep_compare [OF assms(1,3)]) (use ef(1) c in simp)
  have "(ep_less e f, ep_eq e f, ep_less f e)
      \<in> {(Inr True, Inr False, Inr False), (Inr False, Inr True, Inr False), (Inr False, Inr False, Inr True)}"
    unfolding ef(3,4) fe
    by (cases "address_key a" "address_key b" rule: linorder_cases;
        cases "ep_port e" "ep_port f" rule: linorder_cases;
        simp add: less_imp_not_less less_imp_not_eq less_imp_not_eq2)
  moreover have "ep_less e f = Inr True \<and> ep_less f g = Inr True \<longrightarrow> ep_less e g = Inr True"
    unfolding ef(3) fg eg sum.inject by (metis less_trans)
  ultimately show ?thesis ..
qed

theorem endpoints_ordered_witness:
  "\<exists>e. endpoint_of_family AF_INET 80 = e \<and> ep_less e endpoint_default = Inr False
    \<and> ep_less endpoint_default e = Inr True"
proof -
  let ?e = "endpoint_of_family AF_INET 80" and ?d = endpoint_default
  have v: "ep_valid ?e" "ep_valid ?d"
    by (simp_all add: ep_valid_def endpoint_of_family_def endpoint_default_def field_defs)
  have "ep_port ?d = network_to_host_short 0" "ep_port ?e = 80"
    by (simp_all add: ep_port_def endpoint_of_family_def endpoint_default_def field_defs)
  moreover have "network_to_host_short 0 = 0"
    by (simp add: network_to_host_short_def store_u16_def load_u16_def)
  moreover have "ep_address ?e = ep_address ?d"
    by (simp add: ep_address_def ep_is_v4_def endpoint_of_family_def endpoint_default_def field_defs)
  moreover obtain a b where "ep_address ?d = Inr a" "ep_address ?e = Inr b"
    "ep_less ?d ?e = Inr (address_key a < address_key b \<or> address_key a = address_key b \<and> ep_port ?d < ep_port ?e)"
    by (rule ep_compare [OF v(2,1)])
  ultimately have "ep_less ?d ?e = Inr True" by simp
  with endpoints_ordered [OF v v(1)] show ?thesis by auto
qed

end
