(* ===== verification/Socket_Ops.thy ===== *)
theory Socket_Ops
  imports Asio_Errors
begin

text \<open>
  The socket operations of the bundled asio library, \<open>detail/impl/socket_ops.ipp\<close> and the state
  bits of \<open>detail/socket_ops.hpp\<close>: every network call of the chat client ends here. Modelled is the
  Linux build, that is the branches the preprocessor keeps with \<open>ASIO_WINDOWS\<close>, \<open>__CYGWIN__\<close>,
  \<open>__MACH__\<close>, BSD, Symbian and Borland undefined and \<open>__linux__\<close>, \<open>EPROTO\<close>, \<open>SIOCATMARK\<close>
  defined.

  The operating system is a parameter, the record \<open>'w kernel\<close> of its system calls: each takes
  and returns a state \<open>'w os\<close> that holds \<open>errno\<close>, the memory of the process, into which a
  receiving call writes, and whatever else the system keeps. Nothing is assumed of a system call
  here. A loop that runs until the system gives an answer is a \<open>partial_function (option)\<close>: its
  value is \<open>None\<close> when it runs forever. An out-parameter is returned beside the result.
\<close>

section \<open>The operating system\<close>

type_synonym sockaddr = bytes

record iovec =
  iov_base :: nat
  iov_len :: nat

record msghdr =
  msg_name :: "sockaddr option"
  msg_namelen :: nat
  msg_iov :: "iovec list"
  msg_iovlen :: nat
  msg_flags :: int

record 'w os =
  errno :: int
  memory :: "nat \<Rightarrow> byte"
  outside :: 'w

text \<open>An address argument that may be a null pointer is an option of the address and its length.\<close>

type_synonym addr_arg = "(sockaddr \<times> nat) option"

record 'w kernel =
  sys_accept :: "int \<Rightarrow> addr_arg \<Rightarrow> 'w os \<Rightarrow> (int \<times> addr_arg) \<times> 'w os"
  sys_bind :: "int \<Rightarrow> sockaddr \<Rightarrow> nat \<Rightarrow> 'w os \<Rightarrow> int \<times> 'w os"
  sys_connect :: "int \<Rightarrow> sockaddr \<Rightarrow> nat \<Rightarrow> 'w os \<Rightarrow> int \<times> 'w os"
  sys_close :: "int \<Rightarrow> 'w os \<Rightarrow> int \<times> 'w os"
  sys_ioctl :: "int \<Rightarrow> int \<Rightarrow> int \<Rightarrow> 'w os \<Rightarrow> (int \<times> int) \<times> 'w os"
  sys_shutdown :: "int \<Rightarrow> int \<Rightarrow> 'w os \<Rightarrow> int \<times> 'w os"
  sys_listen :: "int \<Rightarrow> int \<Rightarrow> 'w os \<Rightarrow> int \<times> 'w os"
  sys_poll :: "int \<Rightarrow> int \<Rightarrow> int \<Rightarrow> 'w os \<Rightarrow> int \<times> 'w os"
  sys_socketpair :: "int \<Rightarrow> int \<Rightarrow> int \<Rightarrow> 'w os \<Rightarrow> (int \<times> int \<times> int) \<times> 'w os"
  sys_socket :: "int \<Rightarrow> int \<Rightarrow> int \<Rightarrow> 'w os \<Rightarrow> int \<times> 'w os"
  sys_recvmsg :: "int \<Rightarrow> msghdr \<Rightarrow> int \<Rightarrow> 'w os \<Rightarrow> (int \<times> msghdr) \<times> 'w os"
  sys_sendmsg :: "int \<Rightarrow> msghdr \<Rightarrow> int \<Rightarrow> 'w os \<Rightarrow> int \<times> 'w os"
  sys_setsockopt :: "int \<Rightarrow> int \<Rightarrow> int \<Rightarrow> bytes \<Rightarrow> nat \<Rightarrow> 'w os \<Rightarrow> int \<times> 'w os"
  sys_getsockopt :: "int \<Rightarrow> int \<Rightarrow> int \<Rightarrow> bytes \<Rightarrow> nat \<Rightarrow> 'w os \<Rightarrow> (int \<times> bytes \<times> nat) \<times> 'w os"
  sys_getpeername :: "int \<Rightarrow> sockaddr \<Rightarrow> nat \<Rightarrow> 'w os \<Rightarrow> (int \<times> sockaddr \<times> nat) \<times> 'w os"
  sys_getsockname :: "int \<Rightarrow> sockaddr \<Rightarrow> nat \<Rightarrow> 'w os \<Rightarrow> (int \<times> sockaddr \<times> nat) \<times> 'w os"

text \<open>The constants of the Linux headers the source names.\<close>

definition EPROTO :: int where "EPROTO = 71"
definition ENOTTY :: int where "ENOTTY = 25"
definition FIONBIO :: int where "FIONBIO = 0x5421"
definition FIONREAD :: int where "FIONREAD = 0x541B"
definition SIOCATMARK :: int where "SIOCATMARK = 0x8905"
definition POLLIN :: int where "POLLIN = 1"
definition POLLOUT :: int where "POLLOUT = 4"
definition MSG_NOSIGNAL :: int where "MSG_NOSIGNAL = 0x4000"
definition SOL_SOCKET :: int where "SOL_SOCKET = 1"
definition SO_ERROR :: int where "SO_ERROR = 4"
definition SO_SNDBUF :: int where "SO_SNDBUF = 7"
definition SO_RCVBUF :: int where "SO_RCVBUF = 8"
definition SO_LINGER :: int where "SO_LINGER = 13"

text \<open>
  Conversions: a \<open>size_t\<close> cast to \<open>socklen_t\<close>, a \<open>size_t\<close> that passes through an \<open>int\<close> into
  \<open>msg_iovlen\<close>, and an \<open>int\<close> read from or written to the bytes of an option (little endian).
\<close>

definition socklen :: "nat \<Rightarrow> nat" where
  "socklen n = n mod 2 ^ 32"

definition iov_count :: "nat \<Rightarrow> nat" where
  "iov_count n = unat (scast (of_nat n :: u32) :: u64)"

definition get_int :: "bytes \<Rightarrow> int" where
  "get_int bs = sint (word_rcat (rev (take 4 bs)) :: u32)"

definition put_int :: "int \<Rightarrow> bytes \<Rightarrow> bytes" where
  "put_int i bs =
     map (\<lambda>k. ucast (drop_bit (8 * k) (word_of_int i :: u32))) [0, 1, 2, 3] @ drop 4 bs"

definition linger_bytes :: "int \<Rightarrow> int \<Rightarrow> bytes" where
  "linger_bytes onoff seconds = put_int onoff [] @ put_int seconds []"

text \<open>Division of C, which rounds towards 0.\<close>

definition c_half :: "int \<Rightarrow> int" where
  "c_half i = (if i < 0 then - (- i div 2) else i div 2)"

section \<open>State bits\<close>

type_synonym state_type = "8 word"

definition user_set_non_blocking :: state_type where "user_set_non_blocking = 1"
definition internal_non_blocking :: state_type where "internal_non_blocking = 2"
definition non_blocking :: state_type where
  "non_blocking = (user_set_non_blocking OR internal_non_blocking)"
definition enable_connection_aborted :: state_type where "enable_connection_aborted = 4"
definition user_set_linger :: state_type where "user_set_linger = 8"
definition stream_oriented :: state_type where "stream_oriented = 16"
definition datagram_oriented :: state_type where "datagram_oriented = 32"
definition possible_dup :: state_type where "possible_dup = 64"

definition bit_set :: "state_type \<Rightarrow> state_type \<Rightarrow> bool" where
  "bit_set st b \<longleftrightarrow> st AND b \<noteq> 0"

definition invalid_socket :: int where "invalid_socket = -1"
definition socket_error_retval :: int where "socket_error_retval = -1"
definition custom_socket_option_level :: int where
  "custom_socket_option_level = sint (0xA5100000 :: u32)"
definition enable_connection_aborted_option :: int where "enable_connection_aborted_option = 1"
definition always_fail_option :: int where "always_fail_option = 2"

section \<open>Error reporting\<close>

definition clear_last_error :: "'w os \<Rightarrow> 'w os" where
  "clear_last_error w = w\<lparr>errno := 0\<rparr>"

text \<open>The error code that \<open>error_wrapper\<close> leaves after a system call.\<close>

definition error_wrapper :: "'w os \<Rightarrow> error_code" where
  "error_wrapper w = error_code_of (errno w) system_category"

definition blocked :: "error_code \<Rightarrow> bool" where
  "blocked ec \<longleftrightarrow> ec = basic_error would_block \<or> ec = basic_error try_again"

section \<open>Waiting for a socket\<close>

definition ops_poll_read ::
    "'w kernel \<Rightarrow> int \<Rightarrow> state_type \<Rightarrow> 'w os \<Rightarrow> (int \<times> error_code) \<times> 'w os" where
  "ops_poll_read K s st w =
     (if s = invalid_socket then ((socket_error_retval, basic_error bad_descriptor), w)
      else
        let timeout = (if bit_set st user_set_non_blocking then 0 else -1);
            (result, w1) = sys_poll K s POLLIN timeout (clear_last_error w);
            ec = error_wrapper w1
        in ((result,
             if result = 0
             then (if bit_set st user_set_non_blocking then basic_error would_block else no_error)
             else if result > 0 then no_error
             else ec), w1))"

definition ops_poll_write ::
    "'w kernel \<Rightarrow> int \<Rightarrow> state_type \<Rightarrow> 'w os \<Rightarrow> (int \<times> error_code) \<times> 'w os" where
  "ops_poll_write K s st w =
     (if s = invalid_socket then ((socket_error_retval, basic_error bad_descriptor), w)
      else
        let timeout = (if bit_set st user_set_non_blocking then 0 else -1);
            (result, w1) = sys_poll K s POLLOUT timeout (clear_last_error w);
            ec = error_wrapper w1
        in ((result,
             if result = 0
             then (if bit_set st user_set_non_blocking then basic_error would_block else no_error)
             else if result > 0 then no_error
             else ec), w1))"

definition ops_poll_connect :: "'w kernel \<Rightarrow> int \<Rightarrow> 'w os \<Rightarrow> (int \<times> error_code) \<times> 'w os" where
  "ops_poll_connect K s w =
     (if s = invalid_socket then ((socket_error_retval, basic_error bad_descriptor), w)
      else
        let (result, w1) = sys_poll K s POLLOUT (-1) (clear_last_error w);
            ec = error_wrapper w1
        in ((result, if result \<ge> 0 then no_error else ec), w1))"

section \<open>Accepting\<close>

definition call_accept ::
    "'w kernel \<Rightarrow> int \<Rightarrow> addr_arg \<Rightarrow> 'w os \<Rightarrow> (int \<times> addr_arg) \<times> 'w os" where
  "call_accept K s addr w = sys_accept K s (map_option (map_prod id socklen) addr) w"

definition ops_accept ::
    "'w kernel \<Rightarrow> int \<Rightarrow> addr_arg \<Rightarrow> 'w os \<Rightarrow> (int \<times> addr_arg \<times> error_code) \<times> 'w os" where
  "ops_accept K s addr w =
     (if s = invalid_socket then ((invalid_socket, addr, basic_error bad_descriptor), w)
      else
        let ((new_s, addr1), w1) = call_accept K s addr (clear_last_error w);
            ec = error_wrapper w1
        in if new_s = invalid_socket then ((new_s, addr1, ec), w1)
           else ((new_s, addr1, no_error), w1))"

partial_function (option) sync_accept ::
    "'w kernel \<Rightarrow> int \<Rightarrow> state_type \<Rightarrow> addr_arg \<Rightarrow> 'w os \<Rightarrow>
     ((int \<times> addr_arg \<times> error_code) \<times> 'w os) option" where
  "sync_accept K s st addr w =
     (case ops_accept K s addr w of ((new_socket, addr1, ec), w1) \<Rightarrow>
        if new_socket \<noteq> invalid_socket then Some ((new_socket, addr1, ec), w1)
        else if (if blocked ec then bit_set st user_set_non_blocking
                 else if ec = basic_error connection_aborted then bit_set st enable_connection_aborted
                 else if ec_value ec = EPROTO then bit_set st enable_connection_aborted
                 else True)
          then Some ((invalid_socket, addr1, ec), w1)
        else
          case ops_poll_read K s 0 w1 of ((ready, ec1), w2) \<Rightarrow>
            if ready < 0 then Some ((invalid_socket, addr1, ec1), w2)
            else sync_accept K s st addr1 w2)"

text \<open>The result is whether the operation is finished.\<close>

partial_function (option) non_blocking_accept ::
    "'w kernel \<Rightarrow> int \<Rightarrow> state_type \<Rightarrow> addr_arg \<Rightarrow> 'w os \<Rightarrow>
     ((bool \<times> int \<times> addr_arg \<times> error_code) \<times> 'w os) option" where
  "non_blocking_accept K s st addr w =
     (case ops_accept K s addr w of ((new_socket, addr1, ec), w1) \<Rightarrow>
        if new_socket \<noteq> invalid_socket then Some ((True, new_socket, addr1, ec), w1)
        else if ec = basic_error interrupted then non_blocking_accept K s st addr1 w1
        else if blocked ec then
          Some ((bit_set st user_set_non_blocking, new_socket, addr1, ec), w1)
        else if ec = basic_error connection_aborted \<or> ec_value ec = EPROTO then
          Some ((bit_set st enable_connection_aborted, new_socket, addr1, ec), w1)
        else Some ((True, new_socket, addr1, ec), w1))"

section \<open>Options\<close>

definition call_setsockopt ::
    "'w kernel \<Rightarrow> int \<Rightarrow> int \<Rightarrow> int \<Rightarrow> bytes \<Rightarrow> nat \<Rightarrow> 'w os \<Rightarrow> int \<times> 'w os" where
  "call_setsockopt K s level optname optval optlen w =
     sys_setsockopt K s level optname optval (socklen optlen) w"

definition ops_setsockopt ::
    "'w kernel \<Rightarrow> int \<Rightarrow> state_type \<Rightarrow> int \<Rightarrow> int \<Rightarrow> bytes \<Rightarrow> nat \<Rightarrow> 'w os \<Rightarrow>
     (int \<times> state_type \<times> error_code) \<times> 'w os" where
  "ops_setsockopt K s st level optname optval optlen w =
     (if s = invalid_socket then ((socket_error_retval, st, basic_error bad_descriptor), w)
      else if level = custom_socket_option_level \<and> optname = always_fail_option
        then ((socket_error_retval, st, basic_error invalid_argument), w)
      else if level = custom_socket_option_level \<and> optname = enable_connection_aborted_option
        then
          if optlen \<noteq> 4 then ((socket_error_retval, st, basic_error invalid_argument), w)
          else ((0, if get_int optval \<noteq> 0 then st OR enable_connection_aborted
                    else st AND NOT enable_connection_aborted, no_error), w)
      else
        let st1 = (if level = SOL_SOCKET \<and> optname = SO_LINGER then st OR user_set_linger else st);
            (result, w1) = call_setsockopt K s level optname optval optlen (clear_last_error w);
            ec = error_wrapper w1
        in ((result, st1, if result = 0 then no_error else ec), w1))"

definition call_getsockopt ::
    "'w kernel \<Rightarrow> int \<Rightarrow> int \<Rightarrow> int \<Rightarrow> bytes \<Rightarrow> nat \<Rightarrow> 'w os \<Rightarrow> (int \<times> bytes \<times> nat) \<times> 'w os" where
  "call_getsockopt K s level optname optval optlen w =
     sys_getsockopt K s level optname optval (socklen optlen) w"

definition ops_getsockopt ::
    "'w kernel \<Rightarrow> int \<Rightarrow> state_type \<Rightarrow> int \<Rightarrow> int \<Rightarrow> bytes \<Rightarrow> nat \<Rightarrow> 'w os \<Rightarrow>
     (int \<times> bytes \<times> nat \<times> error_code) \<times> 'w os" where
  "ops_getsockopt K s st level optname optval optlen w =
     (if s = invalid_socket
        then ((socket_error_retval, optval, optlen, basic_error bad_descriptor), w)
      else if level = custom_socket_option_level \<and> optname = always_fail_option
        then ((socket_error_retval, optval, optlen, basic_error invalid_argument), w)
      else if level = custom_socket_option_level \<and> optname = enable_connection_aborted_option
        then
          if optlen \<noteq> 4
          then ((socket_error_retval, optval, optlen, basic_error invalid_argument), w)
          else ((0, put_int (if bit_set st enable_connection_aborted then 1 else 0) optval, optlen,
                 no_error), w)
      else
        let ((result, optval1, optlen1), w1) =
              call_getsockopt K s level optname optval optlen (clear_last_error w);
            ec = error_wrapper w1;
            optval2 =
              (if result = 0 \<and> level = SOL_SOCKET \<and> optlen1 = 4
                  \<and> (optname = SO_SNDBUF \<or> optname = SO_RCVBUF)
               then put_int (c_half (get_int optval1)) optval1 else optval1)
        in ((result, optval2, optlen1, if result = 0 then no_error else ec), w1))"

section \<open>Opening, closing and the modes of a socket\<close>

definition ops_socket :: "'w kernel \<Rightarrow> int \<Rightarrow> int \<Rightarrow> int \<Rightarrow> 'w os \<Rightarrow> (int \<times> error_code) \<times> 'w os" where
  "ops_socket K af type protocol w =
     (let (s, w1) = sys_socket K af type protocol (clear_last_error w);
          ec = error_wrapper w1
      in ((s, if s \<ge> 0 then no_error else ec), w1))"

definition ops_socketpair ::
    "'w kernel \<Rightarrow> int \<Rightarrow> int \<Rightarrow> int \<Rightarrow> 'w os \<Rightarrow> (int \<times> (int \<times> int) \<times> error_code) \<times> 'w os" where
  "ops_socketpair K af type protocol w =
     (let ((result, sv), w1) = sys_socketpair K af type protocol (clear_last_error w);
          ec = error_wrapper w1
      in ((result, sv, if result = 0 then no_error else ec), w1))"

definition ops_close ::
    "'w kernel \<Rightarrow> int \<Rightarrow> state_type \<Rightarrow> bool \<Rightarrow> error_code \<Rightarrow> 'w os \<Rightarrow>
     (int \<times> state_type \<times> error_code) \<times> 'w os" where
  "ops_close K s st destruction ec0 w =
     (if s = invalid_socket then ((0, st, no_error), w)
      else
        let (st1, w1) =
              (if destruction \<and> bit_set st user_set_linger
               then case ops_setsockopt K s st SOL_SOCKET SO_LINGER (linger_bytes 0 0) 8 w of
                      ((_, st', _), w') \<Rightarrow> (st', w')
               else (st, w));
            (result, w2) = sys_close K s (clear_last_error w1);
            ec = error_wrapper w2
        in if result \<noteq> 0 \<and> blocked ec then
             let (_, w3) = sys_ioctl K s FIONBIO 0 w2;
                 st2 = st1 AND NOT non_blocking;
                 (result2, w4) = sys_close K s (clear_last_error w3);
                 ec2 = error_wrapper w4
             in ((result2, st2, if result2 = 0 then no_error else ec2), w4)
           else ((result, st1, if result = 0 then no_error else ec), w2))"

definition ops_set_user_non_blocking ::
    "'w kernel \<Rightarrow> int \<Rightarrow> state_type \<Rightarrow> bool \<Rightarrow> 'w os \<Rightarrow> (bool \<times> state_type \<times> error_code) \<times> 'w os" where
  "ops_set_user_non_blocking K s st value w =
     (if s = invalid_socket then ((False, st, basic_error bad_descriptor), w)
      else
        let ((result, _), w1) = sys_ioctl K s FIONBIO (if value then 1 else 0) (clear_last_error w);
            ec = error_wrapper w1
        in if result \<ge> 0 then
             ((True, if value then st OR user_set_non_blocking
                     else st AND NOT (user_set_non_blocking OR internal_non_blocking), no_error), w1)
           else ((False, st, ec), w1))"

definition ops_set_internal_non_blocking ::
    "'w kernel \<Rightarrow> int \<Rightarrow> state_type \<Rightarrow> bool \<Rightarrow> 'w os \<Rightarrow> (bool \<times> state_type \<times> error_code) \<times> 'w os" where
  "ops_set_internal_non_blocking K s st value w =
     (if s = invalid_socket then ((False, st, basic_error bad_descriptor), w)
      else if \<not> value \<and> bit_set st user_set_non_blocking
        then ((False, st, basic_error invalid_argument), w)
      else
        let ((result, _), w1) = sys_ioctl K s FIONBIO (if value then 1 else 0) (clear_last_error w);
            ec = error_wrapper w1
        in if result \<ge> 0 then
             ((True, if value then st OR internal_non_blocking
                     else st AND NOT internal_non_blocking, no_error), w1)
           else ((False, st, ec), w1))"

definition ops_ioctl ::
    "'w kernel \<Rightarrow> int \<Rightarrow> state_type \<Rightarrow> int \<Rightarrow> int \<Rightarrow> 'w os \<Rightarrow>
     (int \<times> state_type \<times> int \<times> error_code) \<times> 'w os" where
  "ops_ioctl K s st cmd arg w =
     (if s = invalid_socket then ((socket_error_retval, st, arg, basic_error bad_descriptor), w)
      else
        let ((result, arg1), w1) = sys_ioctl K s cmd arg (clear_last_error w);
            ec = error_wrapper w1
        in if result \<ge> 0 then
             ((result,
               if cmd = FIONBIO then
                 (if arg1 \<noteq> 0 then st OR user_set_non_blocking
                  else st AND NOT (user_set_non_blocking OR internal_non_blocking))
               else st, arg1, no_error), w1)
           else ((result, st, arg1, ec), w1))"

definition ops_sockatmark :: "'w kernel \<Rightarrow> int \<Rightarrow> 'w os \<Rightarrow> (bool \<times> error_code) \<times> 'w os" where
  "ops_sockatmark K s w =
     (if s = invalid_socket then ((False, basic_error bad_descriptor), w)
      else
        let ((result, value), w1) = sys_ioctl K s SIOCATMARK 0 w;
            ec = (if result = 0 then no_error else error_wrapper w1);
            ec1 = (if ec_value ec = ENOTTY then basic_error not_socket else ec)
        in ((if failed ec1 then False else value \<noteq> 0, ec1), w1))"

text \<open>\<open>ioctl_arg_type\<close> is an \<open>int\<close>: a negative count would become a huge \<open>size_t\<close>.\<close>

definition ops_available :: "'w kernel \<Rightarrow> int \<Rightarrow> 'w os \<Rightarrow> (nat \<times> error_code) \<times> 'w os" where
  "ops_available K s w =
     (if s = invalid_socket then ((0, basic_error bad_descriptor), w)
      else
        let ((result, value), w1) = sys_ioctl K s FIONREAD 0 w;
            ec = (if result = 0 then no_error else error_wrapper w1);
            ec1 = (if ec_value ec = ENOTTY then basic_error not_socket else ec)
        in ((if failed ec1 then 0 else unat (word_of_int value :: u64), ec1), w1))"

section \<open>Addresses and connections\<close>

definition call_bind :: "'w kernel \<Rightarrow> int \<Rightarrow> sockaddr \<Rightarrow> nat \<Rightarrow> 'w os \<Rightarrow> int \<times> 'w os" where
  "call_bind K s addr addrlen w = sys_bind K s addr (socklen addrlen) w"

definition ops_bind ::
    "'w kernel \<Rightarrow> int \<Rightarrow> sockaddr \<Rightarrow> nat \<Rightarrow> 'w os \<Rightarrow> (int \<times> error_code) \<times> 'w os" where
  "ops_bind K s addr addrlen w =
     (if s = invalid_socket then ((socket_error_retval, basic_error bad_descriptor), w)
      else
        let (result, w1) = call_bind K s addr addrlen (clear_last_error w);
            ec = error_wrapper w1
        in ((result, if result = 0 then no_error else ec), w1))"

definition ops_listen :: "'w kernel \<Rightarrow> int \<Rightarrow> int \<Rightarrow> 'w os \<Rightarrow> (int \<times> error_code) \<times> 'w os" where
  "ops_listen K s backlog w =
     (if s = invalid_socket then ((socket_error_retval, basic_error bad_descriptor), w)
      else
        let (result, w1) = sys_listen K s backlog (clear_last_error w);
            ec = error_wrapper w1
        in ((result, if result = 0 then no_error else ec), w1))"

definition ops_shutdown :: "'w kernel \<Rightarrow> int \<Rightarrow> int \<Rightarrow> 'w os \<Rightarrow> (int \<times> error_code) \<times> 'w os" where
  "ops_shutdown K s what w =
     (if s = invalid_socket then ((socket_error_retval, basic_error bad_descriptor), w)
      else
        let (result, w1) = sys_shutdown K s what (clear_last_error w);
            ec = error_wrapper w1
        in ((result, if result = 0 then no_error else ec), w1))"

definition call_connect :: "'w kernel \<Rightarrow> int \<Rightarrow> sockaddr \<Rightarrow> nat \<Rightarrow> 'w os \<Rightarrow> int \<times> 'w os" where
  "call_connect K s addr addrlen w = sys_connect K s addr (socklen addrlen) w"

definition ops_connect ::
    "'w kernel \<Rightarrow> int \<Rightarrow> sockaddr \<Rightarrow> nat \<Rightarrow> 'w os \<Rightarrow> (int \<times> error_code) \<times> 'w os" where
  "ops_connect K s addr addrlen w =
     (if s = invalid_socket then ((socket_error_retval, basic_error bad_descriptor), w)
      else
        let (result, w1) = call_connect K s addr addrlen (clear_last_error w);
            ec = error_wrapper w1
        in ((result,
             if result = 0 then no_error
             else if ec = basic_error try_again then basic_error no_buffer_space
             else ec), w1))"

definition sync_connect ::
    "'w kernel \<Rightarrow> int \<Rightarrow> sockaddr \<Rightarrow> nat \<Rightarrow> 'w os \<Rightarrow> error_code \<times> 'w os" where
  "sync_connect K s addr addrlen w =
     (case ops_connect K s addr addrlen w of ((_, ec), w1) \<Rightarrow>
        if ec \<noteq> basic_error in_progress \<and> ec \<noteq> basic_error would_block then (ec, w1)
        else case ops_poll_connect K s w1 of ((ready, ec1), w2) \<Rightarrow>
          if ready < 0 then (ec1, w2)
          else case ops_getsockopt K s 0 SOL_SOCKET SO_ERROR (put_int 0 []) 4 w2 of
            ((result, connect_error, _, ec2), w3) \<Rightarrow>
              if result = socket_error_retval then (ec2, w3)
              else (error_code_of (get_int connect_error) system_category, w3))"

definition non_blocking_connect ::
    "'w kernel \<Rightarrow> int \<Rightarrow> error_code \<Rightarrow> 'w os \<Rightarrow> (bool \<times> error_code) \<times> 'w os" where
  "non_blocking_connect K s ec w =
     (let (ready, w1) = sys_poll K s POLLOUT 0 w
      in if ready = 0 then ((False, ec), w1)
         else case ops_getsockopt K s 0 SOL_SOCKET SO_ERROR (put_int 0 []) 4 w1 of
           ((result, connect_error, _, ec1), w2) \<Rightarrow>
             if result = 0 then
               ((True, if get_int connect_error \<noteq> 0
                       then error_code_of (get_int connect_error) system_category
                       else no_error), w2)
             else ((True, ec1), w2))"

definition call_getpeername ::
    "'w kernel \<Rightarrow> int \<Rightarrow> sockaddr \<Rightarrow> nat \<Rightarrow> 'w os \<Rightarrow> (int \<times> sockaddr \<times> nat) \<times> 'w os" where
  "call_getpeername K s addr addrlen w = sys_getpeername K s addr (socklen addrlen) w"

definition ops_getpeername ::
    "'w kernel \<Rightarrow> int \<Rightarrow> sockaddr \<Rightarrow> nat \<Rightarrow> bool \<Rightarrow> 'w os \<Rightarrow>
     (int \<times> sockaddr \<times> nat \<times> error_code) \<times> 'w os" where
  "ops_getpeername K s addr addrlen cached w =
     (if s = invalid_socket
        then ((socket_error_retval, addr, addrlen, basic_error bad_descriptor), w)
      else
        let ((result, addr1, addrlen1), w1) = call_getpeername K s addr addrlen (clear_last_error w);
            ec = error_wrapper w1
        in ((result, addr1, addrlen1, if result = 0 then no_error else ec), w1))"

definition call_getsockname ::
    "'w kernel \<Rightarrow> int \<Rightarrow> sockaddr \<Rightarrow> nat \<Rightarrow> 'w os \<Rightarrow> (int \<times> sockaddr \<times> nat) \<times> 'w os" where
  "call_getsockname K s addr addrlen w = sys_getsockname K s addr (socklen addrlen) w"

definition ops_getsockname ::
    "'w kernel \<Rightarrow> int \<Rightarrow> sockaddr \<Rightarrow> nat \<Rightarrow> 'w os \<Rightarrow>
     (int \<times> sockaddr \<times> nat \<times> error_code) \<times> 'w os" where
  "ops_getsockname K s addr addrlen w =
     (if s = invalid_socket
        then ((socket_error_retval, addr, addrlen, basic_error bad_descriptor), w)
      else
        let ((result, addr1, addrlen1), w1) = call_getsockname K s addr addrlen (clear_last_error w);
            ec = error_wrapper w1
        in ((result, addr1, addrlen1, if result = 0 then no_error else ec), w1))"

end
