(* ===== verification/Socket_IO.thy ===== *)
theory Socket_IO
  imports Socket_Ops
begin

text \<open>
  Sending and receiving through a socket, the second half of \<open>detail/impl/socket_ops.ipp\<close> (Linux
  build): one attempt (\<open>ops_recv\<close>, \<open>ops_recvfrom\<close>, \<open>ops_recvmsg\<close>, \<open>ops_send\<close>, \<open>ops_sendto\<close>), the
  blocking loops around it (\<open>sync_...\<close>), which wait with \<open>poll\<close> while the attempt would block, and
  the loops of the asynchronous operations (\<open>non_blocking_...\<close>), which only retry an interrupted
  call and whose boolean result says whether the operation is finished.

  A gather or scatter list is the list of its \<open>iovec\<close>s; \<open>count\<close> is its length.
\<close>

section \<open>One attempt\<close>

definition empty_msghdr :: msghdr where
  "empty_msghdr = \<lparr>msg_name = None, msg_namelen = 0, msg_iov = [], msg_iovlen = 0, msg_flags = 0\<rparr>"

definition init_buf :: "nat \<Rightarrow> nat \<Rightarrow> iovec" where
  "init_buf data n = \<lparr>iov_base = data, iov_len = n\<rparr>"

definition ops_recv ::
    "'w kernel \<Rightarrow> int \<Rightarrow> iovec list \<Rightarrow> int \<Rightarrow> 'w os \<Rightarrow> (int \<times> error_code) \<times> 'w os" where
  "ops_recv K s bufs flags w =
     (let msg = empty_msghdr\<lparr>msg_iov := bufs, msg_iovlen := iov_count (length bufs)\<rparr>;
          ((result, _), w1) = sys_recvmsg K s msg flags (clear_last_error w);
          ec = error_wrapper w1
      in ((result, if result \<ge> 0 then no_error else ec), w1))"

definition ops_recvfrom ::
    "'w kernel \<Rightarrow> int \<Rightarrow> iovec list \<Rightarrow> int \<Rightarrow> sockaddr \<Rightarrow> nat \<Rightarrow> 'w os \<Rightarrow>
     (int \<times> sockaddr \<times> nat \<times> error_code) \<times> 'w os" where
  "ops_recvfrom K s bufs flags addr addrlen w =
     (let msg = empty_msghdr\<lparr>msg_name := Some addr, msg_namelen := socklen addrlen,
                             msg_iov := bufs, msg_iovlen := iov_count (length bufs)\<rparr>;
          ((result, msg1), w1) = sys_recvmsg K s msg flags (clear_last_error w);
          ec = error_wrapper w1
      in ((result, (case msg_name msg1 of None \<Rightarrow> addr | Some a \<Rightarrow> a), msg_namelen msg1,
           if result \<ge> 0 then no_error else ec), w1))"

definition ops_recvmsg ::
    "'w kernel \<Rightarrow> int \<Rightarrow> iovec list \<Rightarrow> int \<Rightarrow> 'w os \<Rightarrow> (int \<times> int \<times> error_code) \<times> 'w os" where
  "ops_recvmsg K s bufs in_flags w =
     (let msg = empty_msghdr\<lparr>msg_iov := bufs, msg_iovlen := iov_count (length bufs)\<rparr>;
          ((result, msg1), w1) = sys_recvmsg K s msg in_flags (clear_last_error w);
          ec = error_wrapper w1
      in if result \<ge> 0 then ((result, msg_flags msg1, no_error), w1)
         else ((result, 0, ec), w1))"

definition ops_send ::
    "'w kernel \<Rightarrow> int \<Rightarrow> iovec list \<Rightarrow> int \<Rightarrow> 'w os \<Rightarrow> (int \<times> error_code) \<times> 'w os" where
  "ops_send K s bufs flags w =
     (let msg = empty_msghdr\<lparr>msg_iov := bufs, msg_iovlen := iov_count (length bufs)\<rparr>;
          (result, w1) = sys_sendmsg K s msg (flags OR MSG_NOSIGNAL) (clear_last_error w);
          ec = error_wrapper w1
      in ((result, if result \<ge> 0 then no_error else ec), w1))"

definition ops_sendto ::
    "'w kernel \<Rightarrow> int \<Rightarrow> iovec list \<Rightarrow> int \<Rightarrow> sockaddr \<Rightarrow> nat \<Rightarrow> 'w os \<Rightarrow>
     (int \<times> error_code) \<times> 'w os" where
  "ops_sendto K s bufs flags addr addrlen w =
     (let msg = empty_msghdr\<lparr>msg_name := Some addr, msg_namelen := socklen addrlen,
                             msg_iov := bufs, msg_iovlen := iov_count (length bufs)\<rparr>;
          (result, w1) = sys_sendmsg K s msg (flags OR MSG_NOSIGNAL) (clear_last_error w);
          ec = error_wrapper w1
      in ((result, if result \<ge> 0 then no_error else ec), w1))"

section \<open>The blocking loops\<close>

partial_function (option) recv_loop ::
    "'w kernel \<Rightarrow> int \<Rightarrow> state_type \<Rightarrow> iovec list \<Rightarrow> int \<Rightarrow> 'w os \<Rightarrow> ((nat \<times> error_code) \<times> 'w os) option" where
  "recv_loop K s st bufs flags w =
     (case ops_recv K s bufs flags w of ((bytes, ec), w1) \<Rightarrow>
        if bytes > 0 then Some ((nat bytes, ec), w1)
        else if bit_set st stream_oriented \<and> bytes = 0 then Some ((0, misc_error eof), w1)
        else if bit_set st user_set_non_blocking \<or> \<not> blocked ec then Some ((0, ec), w1)
        else case ops_poll_read K s 0 w1 of ((ready, ec1), w2) \<Rightarrow>
          if ready < 0 then Some ((0, ec1), w2)
          else recv_loop K s st bufs flags w2)"

definition sync_recv ::
    "'w kernel \<Rightarrow> int \<Rightarrow> state_type \<Rightarrow> iovec list \<Rightarrow> int \<Rightarrow> bool \<Rightarrow> 'w os \<Rightarrow>
     ((nat \<times> error_code) \<times> 'w os) option" where
  "sync_recv K s st bufs flags all_empty w =
     (if s = invalid_socket then Some ((0, basic_error bad_descriptor), w)
      else if all_empty \<and> bit_set st stream_oriented then Some ((0, no_error), w)
      else recv_loop K s st bufs flags w)"

partial_function (option) recvfrom_loop ::
    "'w kernel \<Rightarrow> int \<Rightarrow> state_type \<Rightarrow> iovec list \<Rightarrow> int \<Rightarrow> sockaddr \<Rightarrow> nat \<Rightarrow> 'w os \<Rightarrow>
     ((nat \<times> sockaddr \<times> nat \<times> error_code) \<times> 'w os) option" where
  "recvfrom_loop K s st bufs flags addr addrlen w =
     (case ops_recvfrom K s bufs flags addr addrlen w of ((bytes, addr1, addrlen1, ec), w1) \<Rightarrow>
        if bytes \<ge> 0 then Some ((nat bytes, addr1, addrlen1, ec), w1)
        else if bit_set st user_set_non_blocking \<or> \<not> blocked ec
          then Some ((0, addr1, addrlen1, ec), w1)
        else case ops_poll_read K s 0 w1 of ((ready, ec1), w2) \<Rightarrow>
          if ready < 0 then Some ((0, addr1, addrlen1, ec1), w2)
          else recvfrom_loop K s st bufs flags addr1 addrlen1 w2)"

definition sync_recvfrom ::
    "'w kernel \<Rightarrow> int \<Rightarrow> state_type \<Rightarrow> iovec list \<Rightarrow> int \<Rightarrow> sockaddr \<Rightarrow> nat \<Rightarrow> 'w os \<Rightarrow>
     ((nat \<times> sockaddr \<times> nat \<times> error_code) \<times> 'w os) option" where
  "sync_recvfrom K s st bufs flags addr addrlen w =
     (if s = invalid_socket then Some ((0, addr, addrlen, basic_error bad_descriptor), w)
      else recvfrom_loop K s st bufs flags addr addrlen w)"

text \<open>\<open>out_flags\<close> is an out-parameter that an invalid socket leaves as it was.\<close>

partial_function (option) recvmsg_loop ::
    "'w kernel \<Rightarrow> int \<Rightarrow> state_type \<Rightarrow> iovec list \<Rightarrow> int \<Rightarrow> 'w os \<Rightarrow>
     ((nat \<times> int \<times> error_code) \<times> 'w os) option" where
  "recvmsg_loop K s st bufs in_flags w =
     (case ops_recvmsg K s bufs in_flags w of ((bytes, out, ec), w1) \<Rightarrow>
        if bytes \<ge> 0 then Some ((nat bytes, out, ec), w1)
        else if bit_set st user_set_non_blocking \<or> \<not> blocked ec then Some ((0, out, ec), w1)
        else case ops_poll_read K s 0 w1 of ((ready, ec1), w2) \<Rightarrow>
          if ready < 0 then Some ((0, out, ec1), w2)
          else recvmsg_loop K s st bufs in_flags w2)"

definition sync_recvmsg ::
    "'w kernel \<Rightarrow> int \<Rightarrow> state_type \<Rightarrow> iovec list \<Rightarrow> int \<Rightarrow> int \<Rightarrow> 'w os \<Rightarrow>
     ((nat \<times> int \<times> error_code) \<times> 'w os) option" where
  "sync_recvmsg K s st bufs in_flags out_flags w =
     (if s = invalid_socket then Some ((0, out_flags, basic_error bad_descriptor), w)
      else recvmsg_loop K s st bufs in_flags w)"

partial_function (option) send_loop ::
    "'w kernel \<Rightarrow> int \<Rightarrow> state_type \<Rightarrow> iovec list \<Rightarrow> int \<Rightarrow> 'w os \<Rightarrow> ((nat \<times> error_code) \<times> 'w os) option" where
  "send_loop K s st bufs flags w =
     (case ops_send K s bufs flags w of ((bytes, ec), w1) \<Rightarrow>
        if bytes \<ge> 0 then Some ((nat bytes, ec), w1)
        else if bit_set st user_set_non_blocking \<or> \<not> blocked ec then Some ((0, ec), w1)
        else case ops_poll_write K s 0 w1 of ((ready, ec1), w2) \<Rightarrow>
          if ready < 0 then Some ((0, ec1), w2)
          else send_loop K s st bufs flags w2)"

definition sync_send ::
    "'w kernel \<Rightarrow> int \<Rightarrow> state_type \<Rightarrow> iovec list \<Rightarrow> int \<Rightarrow> bool \<Rightarrow> 'w os \<Rightarrow>
     ((nat \<times> error_code) \<times> 'w os) option" where
  "sync_send K s st bufs flags all_empty w =
     (if s = invalid_socket then Some ((0, basic_error bad_descriptor), w)
      else if all_empty \<and> bit_set st stream_oriented then Some ((0, no_error), w)
      else send_loop K s st bufs flags w)"

partial_function (option) sendto_loop ::
    "'w kernel \<Rightarrow> int \<Rightarrow> state_type \<Rightarrow> iovec list \<Rightarrow> int \<Rightarrow> sockaddr \<Rightarrow> nat \<Rightarrow> 'w os \<Rightarrow>
     ((nat \<times> error_code) \<times> 'w os) option" where
  "sendto_loop K s st bufs flags addr addrlen w =
     (case ops_sendto K s bufs flags addr addrlen w of ((bytes, ec), w1) \<Rightarrow>
        if bytes \<ge> 0 then Some ((nat bytes, ec), w1)
        else if bit_set st user_set_non_blocking \<or> \<not> blocked ec then Some ((0, ec), w1)
        else case ops_poll_write K s 0 w1 of ((ready, ec1), w2) \<Rightarrow>
          if ready < 0 then Some ((0, ec1), w2)
          else sendto_loop K s st bufs flags addr addrlen w2)"

definition sync_sendto ::
    "'w kernel \<Rightarrow> int \<Rightarrow> state_type \<Rightarrow> iovec list \<Rightarrow> int \<Rightarrow> sockaddr \<Rightarrow> nat \<Rightarrow> 'w os \<Rightarrow>
     ((nat \<times> error_code) \<times> 'w os) option" where
  "sync_sendto K s st bufs flags addr addrlen w =
     (if s = invalid_socket then Some ((0, basic_error bad_descriptor), w)
      else sendto_loop K s st bufs flags addr addrlen w)"

section \<open>The loops of the asynchronous operations\<close>

text \<open>\<open>bytes_transferred\<close> is an out-parameter: its argument is what it held before the call.\<close>

partial_function (option) non_blocking_recv ::
    "'w kernel \<Rightarrow> int \<Rightarrow> iovec list \<Rightarrow> int \<Rightarrow> bool \<Rightarrow> nat \<Rightarrow> 'w os \<Rightarrow>
     ((bool \<times> nat \<times> error_code) \<times> 'w os) option" where
  "non_blocking_recv K s bufs flags is_stream transferred w =
     (case ops_recv K s bufs flags w of ((bytes, ec), w1) \<Rightarrow>
        if is_stream \<and> bytes = 0 then Some ((True, transferred, misc_error eof), w1)
        else if ec = basic_error interrupted
          then non_blocking_recv K s bufs flags is_stream transferred w1
        else if blocked ec then Some ((False, transferred, ec), w1)
        else if bytes \<ge> 0 then Some ((True, nat bytes, no_error), w1)
        else Some ((True, 0, ec), w1))"

partial_function (option) non_blocking_recvfrom ::
    "'w kernel \<Rightarrow> int \<Rightarrow> iovec list \<Rightarrow> int \<Rightarrow> sockaddr \<Rightarrow> nat \<Rightarrow> nat \<Rightarrow> 'w os \<Rightarrow>
     ((bool \<times> nat \<times> sockaddr \<times> nat \<times> error_code) \<times> 'w os) option" where
  "non_blocking_recvfrom K s bufs flags addr addrlen transferred w =
     (case ops_recvfrom K s bufs flags addr addrlen w of ((bytes, addr1, addrlen1, ec), w1) \<Rightarrow>
        if ec = basic_error interrupted
          then non_blocking_recvfrom K s bufs flags addr1 addrlen1 transferred w1
        else if blocked ec then Some ((False, transferred, addr1, addrlen1, ec), w1)
        else if bytes \<ge> 0 then Some ((True, nat bytes, addr1, addrlen1, no_error), w1)
        else Some ((True, 0, addr1, addrlen1, ec), w1))"

partial_function (option) non_blocking_recvmsg ::
    "'w kernel \<Rightarrow> int \<Rightarrow> iovec list \<Rightarrow> int \<Rightarrow> nat \<Rightarrow> 'w os \<Rightarrow>
     ((bool \<times> nat \<times> int \<times> error_code) \<times> 'w os) option" where
  "non_blocking_recvmsg K s bufs in_flags transferred w =
     (case ops_recvmsg K s bufs in_flags w of ((bytes, out, ec), w1) \<Rightarrow>
        if ec = basic_error interrupted
          then non_blocking_recvmsg K s bufs in_flags transferred w1
        else if blocked ec then Some ((False, transferred, out, ec), w1)
        else if bytes \<ge> 0 then Some ((True, nat bytes, out, no_error), w1)
        else Some ((True, 0, out, ec), w1))"

partial_function (option) non_blocking_send ::
    "'w kernel \<Rightarrow> int \<Rightarrow> iovec list \<Rightarrow> int \<Rightarrow> nat \<Rightarrow> 'w os \<Rightarrow>
     ((bool \<times> nat \<times> error_code) \<times> 'w os) option" where
  "non_blocking_send K s bufs flags transferred w =
     (case ops_send K s bufs flags w of ((bytes, ec), w1) \<Rightarrow>
        if ec = basic_error interrupted then non_blocking_send K s bufs flags transferred w1
        else if blocked ec then Some ((False, transferred, ec), w1)
        else if bytes \<ge> 0 then Some ((True, nat bytes, no_error), w1)
        else Some ((True, 0, ec), w1))"

partial_function (option) non_blocking_sendto ::
    "'w kernel \<Rightarrow> int \<Rightarrow> iovec list \<Rightarrow> int \<Rightarrow> sockaddr \<Rightarrow> nat \<Rightarrow> nat \<Rightarrow> 'w os \<Rightarrow>
     ((bool \<times> nat \<times> error_code) \<times> 'w os) option" where
  "non_blocking_sendto K s bufs flags addr addrlen transferred w =
     (case ops_sendto K s bufs flags addr addrlen w of ((bytes, ec), w1) \<Rightarrow>
        if ec = basic_error interrupted
          then non_blocking_sendto K s bufs flags addr addrlen transferred w1
        else if blocked ec then Some ((False, transferred, ec), w1)
        else if bytes \<ge> 0 then Some ((True, nat bytes, no_error), w1)
        else Some ((True, 0, ec), w1))"

section \<open>What a blocking receive reports\<close>

text \<open>
  The documented behaviour of two system calls: one that fails says why in \<open>errno\<close>, and \<open>poll\<close>
  does not fail with \<open>EAGAIN\<close>.
\<close>

definition recv_reports :: "'w kernel \<Rightarrow> bool" where
  "recv_reports K \<longleftrightarrow>
     (\<forall>s msg flags w. fst (fst (sys_recvmsg K s msg flags w)) < 0 \<longrightarrow>
        errno (snd (sys_recvmsg K s msg flags w)) \<noteq> 0)"

definition poll_reports :: "'w kernel \<Rightarrow> bool" where
  "poll_reports K \<longleftrightarrow>
     (\<forall>s ev t w. fst (sys_poll K s ev t w) < 0 \<longrightarrow>
        errno (snd (sys_poll K s ev t w)) \<notin> {0, basic_value try_again})"

text \<open>A socket that \<open>poll\<close> has found readable does not block the next receive.\<close>

definition poll_honest :: "'w kernel \<Rightarrow> int \<Rightarrow> bool" where
  "poll_honest K s \<longleftrightarrow>
     (\<forall>w w1 msg flags. sys_poll K s POLLIN (-1) w = (1, w1) \<longrightarrow>
        (case sys_recvmsg K s msg flags (clear_last_error w1) of ((n, _), w2) \<Rightarrow>
           n \<ge> 0 \<or> errno w2 \<noteq> basic_value try_again))"

text \<open>Without a limit on the time, \<open>poll\<close> answers that the socket is ready or fails.\<close>

definition poll_waits :: "'w kernel \<Rightarrow> int \<Rightarrow> bool" where
  "poll_waits K s \<longleftrightarrow> (\<forall>w. fst (sys_poll K s POLLIN (-1) w) \<in> {-1, 1})"

lemma blocked_iff: "blocked (error_code_of v system_category) \<longleftrightarrow> v = basic_value try_again"
  by (simp add: blocked_def)

lemma blocked_simps [simp]: "\<not> blocked no_error" "\<not> blocked (misc_error m)"
  by (simp_all add: blocked_def)

lemma ops_recv_cases:
  assumes "ops_recv K s bufs flags w = ((bytes, ec), w1)"
  shows "bytes \<ge> 0 \<and> ec = no_error \<or> bytes < 0 \<and> ec = error_wrapper w1"
  using assms by (auto simp: ops_recv_def Let_def split: prod.splits if_splits)

lemma ops_recv_fails:
  assumes "ops_recv K s bufs flags w = ((bytes, ec), w1)" "recv_reports K" "bytes < 0"
  shows "failed ec"
  using assms
  by (auto simp: ops_recv_def Let_def recv_reports_def error_wrapper_def failed_def error_code_of_def
      split: prod.splits if_splits) (metis fst_conv snd_conv)+

lemma ops_poll_read_fails:
  assumes "ops_poll_read K s st w = ((ready, ec), w1)" "poll_reports K" "ready < 0" "s \<noteq> invalid_socket"
  shows "failed ec" "\<not> blocked ec"
  using assms
  by (auto simp: ops_poll_read_def Let_def poll_reports_def error_wrapper_def failed_def
      error_code_of_def blocked_iff [unfolded error_code_of_def] split: prod.splits if_splits)
    (metis fst_conv snd_conv)+

lemma recv_loop_outcome:
  assumes "recv_loop K s st bufs flags w = Some ((n, ec), w')"
    and "recv_reports K" "poll_reports K" "s \<noteq> invalid_socket" "bit_set st stream_oriented"
  shows "n > 0 \<and> ec = no_error \<or>
         n = 0 \<and> failed ec \<and> (blocked ec \<longrightarrow> bit_set st user_set_non_blocking)"
proof -
  have "case r of ((n, ec), w') \<Rightarrow> n > 0 \<and> ec = no_error \<or>
         n = 0 \<and> failed ec \<and> (blocked ec \<longrightarrow> bit_set st user_set_non_blocking)"
    if "recv_loop K s st bufs flags w = Some r" "recv_reports K" "poll_reports K"
      "s \<noteq> invalid_socket" "bit_set st stream_oriented" for r
    using that
  proof (induction rule: recv_loop.raw_induct [rotated, consumes 1, case_names step])
    case (step loop K s st bufs flags w r)
    obtain bytes ec w1 where a: "ops_recv K s bufs flags w = ((bytes, ec), w1)"
      by (metis surj_pair)
    obtain ready ec1 w2 where p: "ops_poll_read K s 0 w1 = ((ready, ec1), w2)"
      by (metis surj_pair)
    note fails = ops_recv_cases [OF a] ops_recv_fails [OF a step.prems(1)]
      ops_poll_read_fails [OF p step.prems(2) _ step.prems(3)]
    show ?case
      using step.hyps step.prems fails step.IH [of K s st bufs flags w2 r]
      by (auto simp: a p split: if_splits)
  qed
  from this [OF assms] show ?thesis by simp
qed

lemma recv_loop_returns:
  assumes "poll_honest K s" "poll_waits K s"
  shows "\<exists>r. recv_loop K s st bufs flags w = Some r"
proof -
  obtain bytes ec w1 where a: "ops_recv K s bufs flags w = ((bytes, ec), w1)"
    by (metis surj_pair)
  obtain ready ec1 w2 where p: "ops_poll_read K s 0 w1 = ((ready, ec1), w2)"
    by (metis surj_pair)
  show ?thesis
  proof (cases "bytes > 0 \<or> (bit_set st stream_oriented \<and> bytes = 0)
      \<or> bit_set st user_set_non_blocking \<or> \<not> blocked ec \<or> ready < 0")
    case True
    then show ?thesis by (subst recv_loop.simps) (auto simp: a p)
  next
    case False
    have "ready = 1 \<and> sys_poll K s POLLIN (-1) (clear_last_error w1) = (1, w2)"
      using p False assms(2) spec [OF assms(2) [unfolded poll_waits_def], of "clear_last_error w1"]
      by (auto simp: ops_poll_read_def Let_def bit_set_def socket_error_retval_def
          split: prod.splits if_splits)
    then have "sys_poll K s POLLIN (-1) (clear_last_error w1) = (1, w2)" by simp
    note next_recv = assms(1) [unfolded poll_honest_def, rule_format, OF this]
    obtain bytes' ec' w3 where b: "ops_recv K s bufs flags w2 = ((bytes', ec'), w3)"
      by (metis surj_pair)
    have "\<not> blocked ec'"
      using b next_recv
      by (auto simp: ops_recv_def Let_def error_wrapper_def blocked_iff
          split: prod.splits if_splits) (smt (verit) case_prod_conv)+
    then have "\<exists>r. recv_loop K s st bufs flags w2 = Some r"
      by (subst recv_loop.simps) (auto simp: b)
    then show ?thesis using False by (subst recv_loop.simps) (auto simp: a p)
  qed
qed

end
