(* ===== verification/Asio_Buffers.thy ===== *)
theory Asio_Buffers
  imports Socket_IO
begin

text \<open>
  The buffers of the bundled asio library: \<open>buffer.hpp\<close> (ranges of memory, their offsets, the
  copies between sequences of them), \<open>detail/consuming_buffers.hpp\<close> (the sub-range of a sequence
  that a composed transfer still has to fill) and the Linux part of
  \<open>detail/buffer_sequence_adapter.hpp\<close>.

  \<open>mutable_buffer\<close> and \<open>const_buffer\<close> have the same two members and the conversion between them
  copies both, so one record stands for both classes; a null pointer is the address 0. A buffer
  sequence is a list, and an iterator into it is the list of the elements from its position to the
  end, so two iterators into one sequence are equal when these lists are equally long. Sizes are natural numbers: the sum of the
  sizes of a sequence is taken to fit \<open>size_t\<close>. The debugging checks of
  \<open>ASIO_ENABLE_BUFFER_DEBUGGING\<close> are off in this build. \<open>memcpy\<close> acts on the memory of the
  process, a map from addresses to bytes.
\<close>

section \<open>Buffers\<close>

record buf =
  buf_data :: nat
  buf_size :: nat

definition empty_buffer :: buf where
  "empty_buffer = \<lparr>buf_data = 0, buf_size = 0\<rparr>"

definition buffer_at :: "nat \<Rightarrow> nat \<Rightarrow> buf" where
  "buffer_at data n = \<lparr>buf_data = data, buf_size = n\<rparr>"

definition buffer_plus :: "buf \<Rightarrow> nat \<Rightarrow> buf" where
  "buffer_plus b start =
     (if start > buf_size b then empty_buffer
      else buffer_at (buf_data b + start) (buf_size b - start))"

text \<open>The overload with the offset on the left.\<close>

definition plus_buffer :: "nat \<Rightarrow> buf \<Rightarrow> buf" where
  "plus_buffer start b =
     (if start > buf_size b then empty_buffer
      else buffer_at (buf_data b + start) (buf_size b - start))"

definition buffer_max :: "buf \<Rightarrow> nat \<Rightarrow> buf" where
  "buffer_max b m = buffer_at (buf_data b) (if buf_size b < m then buf_size b else m)"

text \<open>
  The buffers of a vector, a string or an array of \<open>count\<close> elements of \<open>width\<close> bytes stored at
  \<open>data\<close>; an empty vector has no first element to point at.
\<close>

definition buffer_of_vector :: "nat \<Rightarrow> nat \<Rightarrow> nat \<Rightarrow> buf" where
  "buffer_of_vector data count width = buffer_at (if count \<noteq> 0 then data else 0) (count * width)"

definition buffer_of_string :: "nat \<Rightarrow> nat \<Rightarrow> nat \<Rightarrow> buf" where
  "buffer_of_string data count width = buffer_at data (count * width)"

definition buffer_of_string_max :: "nat \<Rightarrow> nat \<Rightarrow> nat \<Rightarrow> nat \<Rightarrow> buf" where
  "buffer_of_string_max data count width m =
     buffer_at data (if count * width < m then count * width else m)"

fun seq_size_from :: "nat \<Rightarrow> buf list \<Rightarrow> nat" where
  "seq_size_from tot [] = tot"
| "seq_size_from tot (b # bs) = seq_size_from (tot + buf_size b) bs"

definition seq_size :: "buf list \<Rightarrow> nat" where
  "seq_size bs = seq_size_from 0 bs"

section \<open>Copying\<close>

type_synonym mem = "nat \<Rightarrow> byte"

definition memcpy :: "mem \<Rightarrow> nat \<Rightarrow> nat \<Rightarrow> nat \<Rightarrow> mem" where
  "memcpy m dst src n = (\<lambda>a. if dst \<le> a \<and> a < dst + n then m (src + (a - dst)) else m a)"

definition buffer_copy :: "mem \<Rightarrow> buf \<Rightarrow> buf \<Rightarrow> nat \<times> mem" where
  "buffer_copy m target source =
     (let target_size = buf_size target; source_size = buf_size source;
          n = (if target_size < source_size then target_size else source_size)
      in (n, memcpy m (buf_data target) (buf_data source) n))"

text \<open>The overload with a limit narrows the target first.\<close>

definition buffer_copy_max :: "mem \<Rightarrow> buf \<Rightarrow> buf \<Rightarrow> nat \<Rightarrow> nat \<times> mem" where
  "buffer_copy_max m target source max_bytes = buffer_copy m (buffer_max target max_bytes) source"

fun gather_from :: "mem \<Rightarrow> nat \<Rightarrow> buf \<Rightarrow> buf list \<Rightarrow> nat \<times> mem" where
  "gather_from m tot target_buffer [] = (tot, m)"
| "gather_from m tot target_buffer (source # sources) =
     (if buf_size target_buffer = 0 then (tot, m)
      else case buffer_copy m target_buffer source of (bytes_copied, m1) \<Rightarrow>
        gather_from m1 (tot + bytes_copied) (buffer_plus target_buffer bytes_copied) sources)"

definition buffer_gather :: "mem \<Rightarrow> buf \<Rightarrow> buf list \<Rightarrow> nat \<times> mem" where
  "buffer_gather m target source = gather_from m 0 target source"

fun scatter_from :: "mem \<Rightarrow> nat \<Rightarrow> buf list \<Rightarrow> buf \<Rightarrow> nat \<times> mem" where
  "scatter_from m tot [] source_buffer = (tot, m)"
| "scatter_from m tot (target # targets) source_buffer =
     (if buf_size source_buffer = 0 then (tot, m)
      else case buffer_copy m target source_buffer of (bytes_copied, m1) \<Rightarrow>
        scatter_from m1 (tot + bytes_copied) targets (buffer_plus source_buffer bytes_copied))"

definition buffer_scatter :: "mem \<Rightarrow> buf list \<Rightarrow> buf \<Rightarrow> nat \<times> mem" where
  "buffer_scatter m target source = scatter_from m 0 target source"

text \<open>
  The copy between two sequences: the iterators are the remaining lists, each with the offset into
  its first buffer.
\<close>

lemma buffer_copy_count [simp]: "fst (buffer_copy m t s) = min (buf_size t) (buf_size s)"
  by (simp add: buffer_copy_def Let_def)

lemma buffer_max_size [simp]: "buf_size (buffer_max b m) = min (buf_size b) m"
  by (simp add: buffer_max_def buffer_at_def)

lemma buffer_max_data [simp]: "buf_data (buffer_max b m) = buf_data b"
  by (simp add: buffer_max_def buffer_at_def)

lemma buffer_plus_size [simp]: "buf_size (buffer_plus b n) = buf_size b - n"
  by (simp add: buffer_plus_def buffer_at_def empty_buffer_def)

lemma copy_step_less:
  assumes "n = min a b"
  shows "length (if n = a then ts else t # ts) + length (if n = b then ss else s # ss)
         < Suc (length ts) + Suc (length ss)"
  using assms by (auto simp: min_def)

lemma copy_max_step_less:
  assumes "n = min (min a (m - tot)) b" "tot < m"
  shows "(m - (tot + n)) + length (if n = a then ts else t # ts)
           + length (if n = b then ss else s # ss)
         < (m - tot) + Suc (length ts) + Suc (length ss)"
proof (cases "n = a \<or> n = b")
  case False
  with assms have "n = m - tot" by (auto simp: min_def split: if_splits)
  with False assms(2) show ?thesis by simp
qed auto

lemma buffer_copy_max_count [simp]:
  "fst (buffer_copy_max m t s k) = min (min (buf_size t) k) (buf_size s)"
  by (simp add: buffer_copy_max_def)

function copy_loop :: "mem \<Rightarrow> nat \<Rightarrow> buf list \<Rightarrow> nat \<Rightarrow> buf list \<Rightarrow> nat \<Rightarrow> nat \<times> mem" where
  "copy_loop m tot [] toff source soff = (tot, m)"
| "copy_loop m tot (t # ts) toff [] soff = (tot, m)"
| "copy_loop m tot (t # ts) toff (s # ss) soff =
     (case buffer_copy m (buffer_plus t toff) (buffer_plus s soff) of (n, m1) \<Rightarrow>
        let t_done = (n = buf_size (buffer_plus t toff));
            s_done = (n = buf_size (buffer_plus s soff))
        in copy_loop m1 (tot + n)
             (if t_done then ts else t # ts) (if t_done then 0 else toff + n)
             (if s_done then ss else s # ss) (if s_done then 0 else soff + n))"
  by pat_completeness auto
termination
  apply (relation "measure (\<lambda>(m, tot, ts, toff, ss, soff). length ts + length ss)")
    apply simp
  subgoal premises p for m tot t ts toff s ss soff n m1 t_done s_done
  proof -
    have "n = min (buf_size (buffer_plus t toff)) (buf_size (buffer_plus s soff))"
      using p(1) by (metis buffer_copy_count fst_conv)
    from copy_step_less [OF this] show ?thesis
      by (simp only: p(2,3) in_measure prod.case list.size add_Suc_right add_0_right)
  qed
  done

definition buffer_copy_seq :: "mem \<Rightarrow> buf list \<Rightarrow> buf list \<Rightarrow> nat \<times> mem" where
  "buffer_copy_seq m target source = copy_loop m 0 target 0 source 0"

text \<open>
  The limited copy. The source's loop goes on while the total is different from the limit, this one while it
  is less: the total starts at zero, and a step never takes it past the limit.
\<close>

lemma copy_max_total:
  assumes "buffer_copy_max m t s (max_bytes - tot) = (n, m1)" "tot \<le> max_bytes"
  shows "tot + n \<le> max_bytes" "tot \<ge> max_bytes \<longleftrightarrow> tot = max_bytes"
  using assms buffer_copy_max_count [of m t s "max_bytes - tot"] by auto

function copy_max_loop ::
    "mem \<Rightarrow> nat \<Rightarrow> nat \<Rightarrow> buf list \<Rightarrow> nat \<Rightarrow> buf list \<Rightarrow> nat \<Rightarrow> nat \<times> mem" where
  "copy_max_loop m max_bytes tot [] toff source soff = (tot, m)"
| "copy_max_loop m max_bytes tot (t # ts) toff [] soff = (tot, m)"
| "copy_max_loop m max_bytes tot (t # ts) toff (s # ss) soff =
     (if tot \<ge> max_bytes then (tot, m)
      else case buffer_copy_max m (buffer_plus t toff) (buffer_plus s soff) (max_bytes - tot) of
        (n, m1) \<Rightarrow>
          let t_done = (n = buf_size (buffer_plus t toff));
              s_done = (n = buf_size (buffer_plus s soff))
          in copy_max_loop m1 max_bytes (tot + n)
               (if t_done then ts else t # ts) (if t_done then 0 else toff + n)
               (if s_done then ss else s # ss) (if s_done then 0 else soff + n))"
  by pat_completeness auto
termination
  apply (relation "measure (\<lambda>(m, b, tot, ts, toff, ss, soff). (b - tot) + length ts + length ss)")
    apply simp
  subgoal premises p for m max_bytes tot t ts toff s ss soff n m1 t_done s_done
  proof -
    have "n = min (min (buf_size (buffer_plus t toff)) (max_bytes - tot)) (buf_size (buffer_plus s soff))"
      using p(2) by (metis buffer_copy_max_count fst_conv)
    from copy_max_step_less [OF this, of ts t ss s] p(1) show ?thesis
      by (simp only: p(3,4) in_measure prod.case list.size add_Suc_right add_Suc add_0_right not_le simp_thms)
  qed
  done

definition buffer_copy_seq_max :: "mem \<Rightarrow> buf list \<Rightarrow> buf list \<Rightarrow> nat \<Rightarrow> nat \<times> mem" where
  "buffer_copy_seq_max m target source max_bytes = copy_max_loop m max_bytes 0 target 0 source 0"

section \<open>Consuming a sequence\<close>

text \<open>The iterator over the part of a sequence that is to be transferred next.\<close>

record buffers_iterator =
  it_at_end :: bool
  it_first :: buf
  it_rest :: "buf list"
  it_offset :: nat
  it_max :: nat

definition end_iterator :: buffers_iterator where
  "end_iterator = \<lparr>it_at_end = True, it_first = empty_buffer, it_rest = [], it_offset = 0,
                   it_max = 0\<rparr>"

definition make_iterator :: "bool \<Rightarrow> buf \<Rightarrow> buf list \<Rightarrow> nat \<Rightarrow> buffers_iterator" where
  "make_iterator at_end first rest max_size =
     \<lparr>it_at_end = (if max_size > 0 then at_end else True), it_first = buffer_max first max_size,
      it_rest = rest, it_offset = 0, it_max = max_size\<rparr>"

definition it_increment :: "buffers_iterator \<Rightarrow> buffers_iterator" where
  "it_increment it =
     (if \<not> it_at_end it then
        (case it_rest it of
           [] \<Rightarrow> it\<lparr>it_at_end := True\<rparr>
         | b # bs \<Rightarrow>
             if it_offset it + buf_size (it_first it) \<ge> it_max it then it\<lparr>it_at_end := True\<rparr>
             else
               let offset = it_offset it + buf_size (it_first it)
               in it\<lparr>it_offset := offset, it_first := buffer_max b (it_max it - offset),
                     it_rest := bs\<rparr>)
      else it)"

definition it_equal :: "buffers_iterator \<Rightarrow> buffers_iterator \<Rightarrow> bool" where
  "it_equal a b \<longleftrightarrow>
     (if it_at_end a \<and> it_at_end b then True
      else \<not> it_at_end a \<and> \<not> it_at_end b
        \<and> buf_data (it_first a) = buf_data (it_first b)
        \<and> buf_size (it_first a) = buf_size (it_first b)
        \<and> length (it_rest a) = length (it_rest b))"

record consuming_buffers =
  cb_buffers :: "buf list"
  cb_at_end :: bool
  cb_first :: buf
  cb_rest :: "buf list"
  cb_max :: nat

definition size_max :: nat where
  "size_max = 2 ^ 64 - 1"

definition consuming :: "buf list \<Rightarrow> consuming_buffers" where
  "consuming bs =
     (case bs of
        [] \<Rightarrow> \<lparr>cb_buffers = bs, cb_at_end = True, cb_first = empty_buffer, cb_rest = bs,
               cb_max = size_max\<rparr>
      | b # rest \<Rightarrow> \<lparr>cb_buffers = bs, cb_at_end = False, cb_first = b, cb_rest = rest,
                    cb_max = size_max\<rparr>)"

text \<open>
  Copying and assigning: \<open>begin_remainder_\<close> of the copy is advanced from the start of the copied
  sequence by the distance it has in the other object.
\<close>

definition cb_copy :: "consuming_buffers \<Rightarrow> consuming_buffers" where
  "cb_copy other =
     (let distance = length (cb_buffers other) - length (cb_rest other)
      in \<lparr>cb_buffers = cb_buffers other, cb_at_end = cb_at_end other, cb_first = cb_first other,
          cb_rest = drop distance (cb_buffers other), cb_max = cb_max other\<rparr>)"

definition cb_assign :: "consuming_buffers \<Rightarrow> consuming_buffers \<Rightarrow> consuming_buffers" where
  "cb_assign this other =
     (let distance = length (cb_buffers other) - length (cb_rest other)
      in this\<lparr>cb_buffers := cb_buffers other, cb_at_end := cb_at_end other,
              cb_first := cb_first other, cb_rest := drop distance (cb_buffers other),
              cb_max := cb_max other\<rparr>)"

definition cb_iterator :: "consuming_buffers \<Rightarrow> buffers_iterator" where
  "cb_iterator c = make_iterator (cb_at_end c) (cb_first c) (cb_rest c) (cb_max c)"

definition cb_prepare :: "nat \<Rightarrow> consuming_buffers \<Rightarrow> consuming_buffers" where
  "cb_prepare max_size c = c\<lparr>cb_max := max_size\<rparr>"

text \<open>The step to the next buffer that both loops of \<open>consume\<close> take.\<close>

definition cb_next :: "consuming_buffers \<Rightarrow> consuming_buffers" where
  "cb_next c =
     (case cb_rest c of
        [] \<Rightarrow> c\<lparr>cb_at_end := True\<rparr>
      | b # bs \<Rightarrow> c\<lparr>cb_first := b, cb_rest := bs\<rparr>)"

definition cb_left :: "consuming_buffers \<Rightarrow> nat" where
  "cb_left c = length (cb_rest c) + (if cb_at_end c then 0 else 1)"

lemma cb_next_left: "\<not> cb_at_end c \<Longrightarrow> cb_left (cb_next c) < cb_left c"
  by (cases "cb_rest c") (auto simp: cb_next_def cb_left_def)

function consume_bytes :: "nat \<Rightarrow> consuming_buffers \<Rightarrow> consuming_buffers" where
  "consume_bytes n c =
     (if n > 0 \<and> \<not> cb_at_end c then
        if buf_size (cb_first c) \<le> n then consume_bytes (n - buf_size (cb_first c)) (cb_next c)
        else c\<lparr>cb_first := buffer_plus (cb_first c) n\<rparr>
      else c)"
  by pat_completeness auto
termination
  by (relation "measure (\<lambda>(n, c). cb_left c)") (auto simp: cb_next_left)

function skip_empty :: "consuming_buffers \<Rightarrow> consuming_buffers" where
  "skip_empty c =
     (if \<not> cb_at_end c \<and> buf_size (cb_first c) = 0 then skip_empty (cb_next c) else c)"
  by pat_completeness auto
termination
  by (relation "measure cb_left") (auto simp: cb_next_left)

declare consume_bytes.simps [simp del] skip_empty.simps [simp del]

definition cb_consume :: "nat \<Rightarrow> consuming_buffers \<Rightarrow> consuming_buffers" where
  "cb_consume n c = skip_empty (consume_bytes n c)"

section \<open>Handing a sequence to the operating system\<close>

definition max_buffers :: nat where
  "max_buffers = 64"

definition init_native_buffer :: "buf \<Rightarrow> iovec" where
  "init_native_buffer b = \<lparr>iov_base = buf_data b, iov_len = buf_size b\<rparr>"

record adapter =
  ad_buffers :: "iovec list"
  ad_total :: nat

definition ad_count :: "adapter \<Rightarrow> nat" where
  "ad_count a = length (ad_buffers a)"

definition ad_all_empty :: "adapter \<Rightarrow> bool" where
  "ad_all_empty a \<longleftrightarrow> ad_total a = 0"

text \<open>The constructor's loop runs over any sequence; here over one with a consuming iterator.\<close>

function adapt_from :: "adapter \<Rightarrow> buffers_iterator \<Rightarrow> adapter" where
  "adapt_from a it =
     (if \<not> it_equal it end_iterator \<and> ad_count a < max_buffers then
        adapt_from \<lparr>ad_buffers = ad_buffers a @ [init_native_buffer (it_first it)],
                    ad_total = ad_total a + buf_size (it_first it)\<rparr> (it_increment it)
      else a)"
  by pat_completeness auto
termination
  by (relation "measure (\<lambda>(a, it). max_buffers - ad_count a)") (auto simp: ad_count_def)

declare adapt_from.simps [simp del]

definition adapt :: "consuming_buffers \<Rightarrow> adapter" where
  "adapt c = adapt_from \<lparr>ad_buffers = [], ad_total = 0\<rparr> (cb_iterator c)"

fun all_empty_from :: "nat \<Rightarrow> buf list \<Rightarrow> bool" where
  "all_empty_from i [] = True"
| "all_empty_from i (b # bs) =
     (if i < max_buffers then
        if buf_size b > 0 then False else all_empty_from (i + 1) bs
      else True)"

definition sequence_all_empty :: "buf list \<Rightarrow> bool" where
  "sequence_all_empty bs = all_empty_from 0 bs"

section \<open>Sequences as lists of addresses\<close>

text \<open>
  The abstraction the proofs use: a buffer is the list of the addresses it covers, a sequence their
  concatenation, and a partly consumed sequence the addresses still to be filled.
\<close>

definition addrs :: "buf \<Rightarrow> nat list" where
  "addrs b = [buf_data b ..< buf_data b + buf_size b]"

definition seq_addrs :: "buf list \<Rightarrow> nat list" where
  "seq_addrs bs = concat (map addrs bs)"

definition remaining :: "consuming_buffers \<Rightarrow> nat list" where
  "remaining c = (if cb_at_end c then [] else addrs (cb_first c) @ seq_addrs (cb_rest c))"

definition iov_addrs :: "iovec list \<Rightarrow> nat list" where
  "iov_addrs vs = concat (map (\<lambda>v. [iov_base v ..< iov_base v + iov_len v]) vs)"

definition offered :: "consuming_buffers \<Rightarrow> nat list" where
  "offered c = iov_addrs (ad_buffers (adapt c))"

lemma length_addrs [simp]: "length (addrs b) = buf_size b"
  by (simp add: addrs_def)

lemma addrs_empty_iff [simp]: "addrs b = [] \<longleftrightarrow> buf_size b = 0"
  by (auto simp: addrs_def)

lemma seq_addrs_simps [simp]:
  "seq_addrs [] = []" "seq_addrs (b # bs) = addrs b @ seq_addrs bs"
  by (simp_all add: seq_addrs_def)

lemma iov_addrs_simps [simp]:
  "iov_addrs [] = []" "iov_addrs (vs @ ws) = iov_addrs vs @ iov_addrs ws"
  "iov_addrs [init_native_buffer b] = addrs b"
  by (simp_all add: iov_addrs_def init_native_buffer_def addrs_def)

lemma addrs_buffer_max [simp]: "addrs (buffer_max b m) = take m (addrs b)"
  by (simp add: addrs_def buffer_max_def buffer_at_def take_upt min_def)

lemma addrs_buffer_plus [simp]: "addrs (buffer_plus b n) = drop n (addrs b)"
  by (cases "n > buf_size b") (auto simp: addrs_def buffer_plus_def buffer_at_def empty_buffer_def)

lemma seq_size_addrs: "seq_size bs = length (seq_addrs bs)"
proof -
  have "seq_size_from n bs = n + length (seq_addrs bs)" for n
    by (induction bs arbitrary: n) auto
  then show ?thesis by (simp add: seq_size_def)
qed

subsection \<open>Consuming\<close>

lemma remaining_consuming [simp]: "remaining (consuming bs) = seq_addrs bs"
  by (cases bs) (auto simp: remaining_def consuming_def)

lemma remaining_prepare [simp]: "remaining (cb_prepare m c) = remaining c"
  by (simp add: remaining_def cb_prepare_def)

lemma prepare_simps [simp]:
  "cb_max (cb_prepare m c) = m" "cb_at_end (cb_prepare m c) = cb_at_end c"
  "cb_first (cb_prepare m c) = cb_first c" "cb_rest (cb_prepare m c) = cb_rest c"
  "cb_left (cb_prepare m c) = cb_left c"
  by (simp_all add: cb_prepare_def cb_left_def)

lemma remaining_next [simp]: "\<not> cb_at_end c \<Longrightarrow> remaining (cb_next c) = seq_addrs (cb_rest c)"
  by (auto simp: remaining_def cb_next_def split: list.splits)

lemma remaining_consume_bytes: "remaining (consume_bytes n c) = drop n (remaining c)"
proof (induction n c rule: consume_bytes.induct)
  case (1 n c)
  show ?case
  proof (cases "n > 0 \<and> \<not> cb_at_end c")
    case True
    with 1 show ?thesis
      by (subst consume_bytes.simps) (auto simp: remaining_def [of c] remaining_def [of "c\<lparr>cb_first := _\<rparr>"])
  next
    case False
    then show ?thesis by (subst consume_bytes.simps) (auto simp: remaining_def)
  qed
qed

lemma remaining_skip_empty [simp]: "remaining (skip_empty c) = remaining c"
proof (induction c rule: skip_empty.induct)
  case (1 c)
  then show ?case by (subst skip_empty.simps) (auto simp: remaining_def [of c])
qed

lemma skip_empty_first: "cb_at_end (skip_empty c) \<or> buf_size (cb_first (skip_empty c)) > 0"
proof (induction c rule: skip_empty.induct)
  case (1 c)
  then show ?case by (subst (1 2) skip_empty.simps) auto
qed

lemma remaining_consume: "remaining (cb_consume n c) = drop n (remaining c)"
  by (simp add: cb_consume_def remaining_consume_bytes)

text \<open>After consuming, the sequence is at its end exactly when no byte is left.\<close>

lemma consume_at_end: "cb_at_end (cb_consume n c) \<longleftrightarrow> remaining (cb_consume n c) = []"
  using skip_empty_first [of "consume_bytes n c"] by (auto simp: cb_consume_def remaining_def)

lemma consume_bytes_left: "cb_left (consume_bytes n c) \<le> cb_left c"
proof (induction n c rule: consume_bytes.induct)
  case (1 n c)
  then show ?case
    using cb_next_left [of c] by (subst consume_bytes.simps) (auto simp: cb_left_def [of "c\<lparr>cb_first := _\<rparr>"] cb_left_def [of c])
qed

lemma skip_empty_left: "cb_left (skip_empty c) \<le> cb_left c"
proof (induction c rule: skip_empty.induct)
  case (1 c)
  then show ?case using cb_next_left [of c] by (subst skip_empty.simps) auto
qed

lemma consume_left: "cb_left (cb_consume n c) \<le> cb_left c"
  using skip_empty_left [of "consume_bytes n c"] consume_bytes_left [of n c]
  by (simp add: cb_consume_def)

lemma consume_zero_left:
  assumes "\<not> cb_at_end c" "buf_size (cb_first c) = 0"
  shows "cb_left (cb_consume 0 c) < cb_left c"
proof -
  have "cb_consume 0 c = skip_empty (cb_next c)"
    using assms by (simp add: cb_consume_def consume_bytes.simps [of 0 c] skip_empty.simps [of c])
  with skip_empty_left [of "cb_next c"] cb_next_left [OF assms(1)] show ?thesis by simp
qed

subsection \<open>What is handed to the operating system\<close>

definition it_addrs :: "buffers_iterator \<Rightarrow> nat list" where
  "it_addrs it =
     (if it_at_end it then []
      else addrs (it_first it)
        @ take (it_max it - (it_offset it + buf_size (it_first it))) (seq_addrs (it_rest it)))"

lemma it_equal_end [simp]: "it_equal it end_iterator \<longleftrightarrow> it_at_end it"
  by (auto simp: it_equal_def end_iterator_def)

lemma it_addrs_increment:
  assumes "\<not> it_at_end it"
  shows "it_addrs it = addrs (it_first it) @ it_addrs (it_increment it)"
  using assms
  by (auto simp: it_addrs_def it_increment_def Let_def min_def split: list.splits if_splits)

lemma adapt_from_addrs:
  "\<exists>rest. iov_addrs (ad_buffers a) @ it_addrs it = iov_addrs (ad_buffers (adapt_from a it)) @ rest
     \<and> (rest \<noteq> [] \<longrightarrow> ad_count (adapt_from a it) \<ge> max_buffers)"
proof (induction a it rule: adapt_from.induct)
  case (1 a it)
  show ?case
  proof (cases "\<not> it_at_end it \<and> ad_count a < max_buffers")
    case True
    with 1 show ?thesis by (subst (1 2) adapt_from.simps) (simp add: it_addrs_increment)
  next
    case False
    then show ?thesis by (subst (1 2) adapt_from.simps) (auto simp: it_addrs_def)
  qed
qed

lemma adapt_from_total:
  "ad_total a = length (iov_addrs (ad_buffers a)) \<Longrightarrow>
   ad_total (adapt_from a it) = length (iov_addrs (ad_buffers (adapt_from a it)))"
proof (induction a it rule: adapt_from.induct)
  case (1 a it)
  then show ?case by (subst (1 2) adapt_from.simps) simp
qed

lemma adapt_from_count: "ad_count a \<le> max_buffers \<Longrightarrow> ad_count (adapt_from a it) \<le> max_buffers"
proof (induction a it rule: adapt_from.induct)
  case (1 a it)
  then show ?case by (subst adapt_from.simps) (simp add: ad_count_def)
qed

lemma it_addrs_iterator: "it_addrs (cb_iterator c) = take (cb_max c) (remaining c)"
  by (auto simp: it_addrs_def cb_iterator_def make_iterator_def remaining_def min_def)

lemma iterator_at_end [simp]: "it_at_end (cb_iterator c) \<longleftrightarrow> cb_max c = 0 \<or> cb_at_end c"
  by (simp add: cb_iterator_def make_iterator_def)

lemma offered_prefix: "\<exists>rest. take (cb_max c) (remaining c) = offered c @ rest"
  using adapt_from_addrs [of "\<lparr>ad_buffers = [], ad_total = 0\<rparr>" "cb_iterator c"]
  by (auto simp: offered_def adapt_def it_addrs_iterator)

lemma offered_is_take: "offered c = take (length (offered c)) (remaining c)"
  and offered_length: "length (offered c) \<le> cb_max c" "length (offered c) \<le> length (remaining c)"
proof -
  obtain rest where r: "take (cb_max c) (remaining c) = offered c @ rest"
    using offered_prefix by blast
  have "take (length (offered c)) (take (cb_max c) (remaining c)) = offered c"
    by (simp add: r)
  moreover have l: "length (offered c) \<le> cb_max c \<and> length (offered c) \<le> length (remaining c)"
    using arg_cong [OF r, of length] by (simp add: min_def split: if_splits)
  ultimately show "offered c = take (length (offered c)) (remaining c)"
    by (simp add: min_def)
  show "length (offered c) \<le> cb_max c" "length (offered c) \<le> length (remaining c)"
    using l by simp_all
qed

lemma all_empty_offered: "ad_all_empty (adapt c) \<longleftrightarrow> offered c = []"
  using adapt_from_total [of "\<lparr>ad_buffers = [], ad_total = 0\<rparr>" "cb_iterator c"]
  by (simp add: ad_all_empty_def offered_def adapt_def)

lemma offered_empty_first:
  assumes "offered c = []" "\<not> cb_at_end c" "cb_max c > 0"
  shows "buf_size (cb_first c) = 0"
proof (rule ccontr)
  assume "buf_size (cb_first c) \<noteq> 0"
  let ?it = "cb_iterator c" let ?a = "\<lparr>ad_buffers = [], ad_total = 0\<rparr>"
  let ?a1 = "\<lparr>ad_buffers = [init_native_buffer (it_first ?it)], ad_total = buf_size (it_first ?it)\<rparr>"
  have "adapt c = adapt_from ?a1 (it_increment ?it)"
    using assms(2,3) unfolding adapt_def
    by (subst adapt_from.simps) (simp add: ad_count_def max_buffers_def)
  moreover have "\<exists>rest. iov_addrs (ad_buffers (adapt_from a it)) = iov_addrs (ad_buffers a) @ rest" for a it
  proof (induction a it rule: adapt_from.induct)
    case (1 a it)
    then show ?case by (subst adapt_from.simps) auto
  qed
  ultimately have "\<exists>rest. offered c = addrs (it_first ?it) @ rest"
    by (metis offered_def adapter.select_convs(1) iov_addrs_simps(3))
  with assms \<open>buf_size (cb_first c) \<noteq> 0\<close> show False
    by (auto simp: cb_iterator_def make_iterator_def)
qed

section \<open>Copies\<close>

definition write_at :: "nat list \<Rightarrow> bytes \<Rightarrow> mem \<Rightarrow> mem" where
  "write_at as bs m = fold (\<lambda>(a, b) m. m(a := b)) (zip as bs) m"

lemma write_at_simps [simp]:
  "write_at [] bs m = m" "write_at as [] m = m"
  "write_at (a # as) (b # bs) m = write_at as bs (m(a := b))"
  by (simp_all add: write_at_def)

lemma write_at_append:
  "length xs = length as \<Longrightarrow> write_at (as @ as') (xs @ ys) m = write_at as' ys (write_at as xs m)"
  by (simp add: write_at_def)

lemma write_at_take:
  assumes "length as \<le> n \<or> length bs \<le> n"
  shows "write_at as bs m = write_at (take n as) (take n bs) m"
proof -
  have "zip (take n as) (take n bs) = take n (zip as bs)" by (simp add: take_zip)
  also have "\<dots> = zip as bs" using assms by (intro take_all) (auto simp: min_def)
  finally show ?thesis by (simp add: write_at_def)
qed

lemma write_at_other: "a \<notin> set as \<Longrightarrow> write_at as bs m a = m a"
proof (induction as arbitrary: bs m)
  case (Cons x as)
  then show ?case by (cases bs) auto
qed simp

lemma write_at_nth:
  assumes "distinct as" "i < length as" "i < length bs"
  shows "write_at as bs m (as ! i) = bs ! i"
  using assms
proof (induction as arbitrary: bs m i)
  case (Cons x as)
  then show ?case
    by (cases bs; cases i) (auto simp: write_at_other)
qed simp

lemma write_at_map:
  assumes "distinct as"
  shows "map (write_at as bs m) (take (length bs) as) = take (length as) bs"
  using assms by (intro nth_equalityI) (auto simp: write_at_nth)

text \<open>\<open>memcpy\<close> between ranges that do not overlap writes the source's bytes at the target.\<close>

lemma memcpy_write_at:
  assumes "{d..<d + n} \<inter> {s..<s + n} = {}"
  shows "memcpy m d s n = write_at [d..<d + n] (map m [s..<s + n]) m"
proof
  fix a
  show "memcpy m d s n a = write_at [d..<d + n] (map m [s..<s + n]) m a"
  proof (cases "a \<in> {d..<d + n}")
    case True
    then obtain i where i: "a = [d..<d + n] ! i" "i < n" "a = d + i"
      by (metis atLeastLessThan_iff le_add_diff_inverse less_diff_conv2 nth_upt add.commute)
    have "write_at [d..<d + n] (map m [s..<s + n]) m ([d..<d + n] ! i) = map m [s..<s + n] ! i"
      using i(2) by (intro write_at_nth) auto
    with i show ?thesis by (simp add: memcpy_def)
  next
    case False
    then show ?thesis by (auto simp: memcpy_def write_at_other)
  qed
qed

lemma buffer_copy_write_at:
  assumes "set (addrs t) \<inter> set (addrs s) = {}"
  shows "buffer_copy m t s =
    (min (buf_size t) (buf_size s), write_at (addrs t) (map m (addrs s)) m)"
proof -
  let ?n = "min (buf_size t) (buf_size s)"
  have "{buf_data t..<buf_data t + ?n} \<inter> {buf_data s..<buf_data s + ?n} = {}"
    using assms by (auto simp: addrs_def)
  note c = memcpy_write_at [OF this, of m]
  have "write_at (addrs t) (map m (addrs s)) m
      = write_at (take ?n (addrs t)) (take ?n (map m (addrs s))) m"
    by (rule write_at_take) auto
  also have "\<dots> = memcpy m (buf_data t) (buf_data s) ?n"
    by (simp add: c addrs_def take_map take_upt)
  finally show ?thesis by (simp add: buffer_copy_def Let_def min_def)
qed

text \<open>The loop between two sequences, read as lists of addresses from the current offsets.\<close>

definition within :: "nat \<Rightarrow> buf list \<Rightarrow> bool" where
  "within off bs \<longleftrightarrow> (case bs of [] \<Rightarrow> off = 0 | b # _ \<Rightarrow> off \<le> buf_size b)"

lemma advance_addrs:
  assumes "off \<le> buf_size b" "n \<le> buf_size b - off"
  defines "d \<equiv> n = buf_size (buffer_plus b off)"
  shows "drop (if d then 0 else off + n) (seq_addrs (if d then bs else b # bs))
           = drop (off + n) (seq_addrs (b # bs))"
    and "within (if d then 0 else off + n) (if d then bs else b # bs)"
    and "set (seq_addrs (if d then bs else b # bs)) \<subseteq> set (seq_addrs (b # bs))"
  using assms by (auto simp: within_def d_def split: list.splits)

lemma write_at_two:
  assumes "n \<le> length T" "n \<le> length B"
  shows "write_at (drop n T) (take k (drop n B)) (write_at (take n T) (take n B) m)
           = write_at T (take (n + k) B) m"
proof -
  have "write_at T (take (n + k) B) m
      = write_at (take n T @ drop n T) (take n B @ take k (drop n B)) m"
    by (simp add: take_add)
  also have "\<dots> = write_at (drop n T) (take k (drop n B)) (write_at (take n T) (take n B) m)"
    using assms by (intro write_at_append) simp
  finally show ?thesis by simp
qed

lemma map_write_at_other:
  "set as \<inter> set as' = {} \<Longrightarrow> map (write_at as bs m) as' = map m as'"
  by (intro map_cong refl write_at_other) auto

lemma buffer_copy_max_write_at:
  assumes "set (addrs t) \<inter> set (addrs s) = {}"
  shows "buffer_copy_max m t s k =
    (let n = min (min (buf_size t) k) (buf_size s)
     in (n, write_at (take n (addrs t)) (take n (map m (addrs s))) m))"
proof -
  have "set (addrs (buffer_max t k)) \<inter> set (addrs s) = {}"
    using assms by (auto dest: in_set_takeD)
  note c = buffer_copy_write_at [OF this, of m]
  let ?n = "min (min (buf_size t) k) (buf_size s)"
  have "write_at (take k (addrs t)) (map m (addrs s)) m
      = write_at (take ?n (take k (addrs t))) (take ?n (map m (addrs s))) m"
    by (rule write_at_take) auto
  also have "take ?n (take k (addrs t)) = take ?n (addrs t)" by (simp add: min_def)
  finally show ?thesis by (simp add: buffer_copy_max_def c Let_def)
qed

lemma copy_max_loop_correct:
  assumes "tot \<le> mx" "within toff tgt" "within soff src"
    and "set (seq_addrs tgt) \<inter> set (seq_addrs src) = {}"
  shows "copy_max_loop m mx tot tgt toff src soff =
    (let T = drop toff (seq_addrs tgt); S = drop soff (seq_addrs src);
         k = min (mx - tot) (min (length T) (length S))
     in (tot + k, write_at T (take k (map m S)) m))"
  using assms
proof (induction m mx tot tgt toff src soff rule: copy_max_loop.induct)
  case (3 m mx tot t ts toff s ss soff)
  show ?case
  proof (cases "tot \<ge> mx")
    case True
    then show ?thesis by (simp add: Let_def)
  next
    case False
    let ?t = "buffer_plus t toff" and ?s = "buffer_plus s soff"
    let ?T = "drop toff (seq_addrs (t # ts))" and ?S = "drop soff (seq_addrs (s # ss))"
    define n where "n = min (min (buf_size ?t) (mx - tot)) (buf_size ?s)"
    define m1 where "m1 = write_at (take n (addrs ?t)) (take n (map m (addrs ?s))) m"
    have off: "toff \<le> buf_size t" "soff \<le> buf_size s"
      using "3.prems" by (auto simp: within_def)
    have "set (addrs ?t) \<inter> set (addrs ?s) = {}"
      using "3.prems"(4) by (auto dest!: in_set_dropD)
    then have c: "buffer_copy_max m ?t ?s (mx - tot) = (n, m1)"
      by (simp add: buffer_copy_max_write_at n_def m1_def Let_def)
    have n: "n \<le> buf_size t - toff" "n \<le> buf_size s - soff" "n \<le> mx - tot"
      by (auto simp: n_def)
    have prefix: "take n (addrs ?t) = take n ?T" "take n (map m (addrs ?s)) = take n (map m ?S)"
      using off n by (auto simp: take_map)
    have m1: "m1 = write_at (take n ?T) (take n (map m ?S)) m"
      by (simp only: m1_def prefix)
    let ?td = "n = buf_size ?t" and ?sd = "n = buf_size ?s"
    let ?ts = "if ?td then ts else t # ts" and ?to = "if ?td then 0 else toff + n"
    let ?ss = "if ?sd then ss else s # ss" and ?so = "if ?sd then 0 else soff + n"
    note adv = advance_addrs [OF off(1) n(1), of ts] advance_addrs [OF off(2) n(2), of ss]
    have T1: "drop ?to (seq_addrs ?ts) = drop n ?T" and S1: "drop ?so (seq_addrs ?ss) = drop n ?S"
      using adv(1,4) by (simp_all only: drop_drop add.commute)
    have disj: "set (seq_addrs ?ts) \<inter> set (seq_addrs ?ss) = {}"
      using adv(3,6) "3.prems"(4) by blast
    have "set (take n ?T) \<inter> set (drop n ?S) = {}"
      using "3.prems"(4) by (auto dest!: in_set_takeD in_set_dropD simp del: seq_addrs_simps)
    then have same: "map m1 (drop n ?S) = drop n (map m ?S)"
      unfolding m1 by (simp only: map_write_at_other drop_map)
    have rec: "copy_max_loop m mx tot (t # ts) toff (s # ss) soff
        = copy_max_loop m1 mx (tot + n) ?ts ?to ?ss ?so"
      using False by (subst copy_max_loop.simps) (simp only: c Let_def prod.case if_False)
    let ?k = "min (mx - (tot + n)) (min (length (drop n ?T)) (length (drop n ?S)))"
    have len: "n \<le> length ?T" "n \<le> length ?S" using off n by auto
    have "copy_max_loop m1 mx (tot + n) ?ts ?to ?ss ?so
        = (tot + n + ?k, write_at (drop n ?T) (take ?k (map m1 (drop n ?S))) m1)"
      using "3.IH" [OF False c [symmetric] refl refl _ adv(2) adv(5) disj] False n(3)
      by (simp only: T1 S1 Let_def)
    also have "\<dots> = (tot + n + ?k, write_at ?T (take (n + ?k) (map m ?S)) m)"
      by (simp only: same) (simp only: m1 write_at_two len length_map)
    finally have loop: "copy_max_loop m mx tot (t # ts) toff (s # ss) soff
        = (tot + (n + ?k), write_at ?T (take (n + ?k) (map m ?S)) m)"
      by (simp only: rec add.assoc)
    have k: "n + ?k = min (mx - tot) (min (length ?T) (length ?S))"
      using len n(3) unfolding length_drop [of n] by arith
    show ?thesis by (simp only: loop k Let_def)
  qed
qed (auto simp: Let_def within_def)

section \<open>Properties\<close>

text \<open>
  C21. Copying a limited number of bytes from one sequence of buffers to another, with whatever
  sizes, empty buffers and boundaries the two have: when the targets are distinct addresses that do
  not overlap the sources, as many bytes are copied as the limit and the smaller sequence allow,
  the first addresses of the target sequence hold the first bytes of the source sequence in order,
  and no other byte of the memory changes.
\<close>

theorem copy_between_sequences:
  assumes "distinct (seq_addrs target)" "set (seq_addrs target) \<inter> set (seq_addrs source) = {}"
    and "buffer_copy_seq_max m target source max_bytes = (n, m')"
  shows "n = min max_bytes (min (seq_size target) (seq_size source)) \<and>
    map m' (take n (seq_addrs target)) = map m (take n (seq_addrs source)) \<and>
    (\<forall>a. a \<notin> set (take n (seq_addrs target)) \<longrightarrow> m' a = m a)"
proof -
  let ?T = "seq_addrs target" and ?S = "seq_addrs source"
  have c: "n = min max_bytes (min (length ?T) (length ?S))" "m' = write_at ?T (take n (map m ?S)) m"
    using assms(3) copy_max_loop_correct [of 0 max_bytes 0 target 0 source m] assms(2)
    by (auto simp: buffer_copy_seq_max_def within_def Let_def split: list.splits)
  then have "n \<le> length ?T" "n \<le> length ?S" by auto
  moreover have "m' = write_at (take n ?T) (take n (map m ?S)) m"
    using write_at_take [of ?T n "take n (map m ?S)" m] by (simp add: c(2))
  ultimately have "map m' (take n ?T) = map m (take n ?S)" "a \<notin> set (take n ?T) \<Longrightarrow> m' a = m a" for a
    using assms(1) write_at_map [of "take n ?T" "take n (map m ?S)" m]
    by (auto simp: write_at_other take_map)
  then show ?thesis by (simp add: seq_size_addrs c(1))
qed

theorem copy_between_sequences_witness:
  "\<exists>m'. buffer_copy_seq_max of_nat [buffer_at 2 2, buffer_at 7 0, buffer_at 20 4]
          [buffer_at 40 0, buffer_at 50 3, buffer_at 60 9] 5 = (5, m')
      \<and> map m' [2, 3, 20, 21, 22] = [50, 51, 52, 60, 61] \<and> m' 23 = 23"
proof -
  let ?t = "[buffer_at 2 2, buffer_at 7 0, buffer_at 20 4]"
  let ?s = "[buffer_at 40 0, buffer_at 50 3, buffer_at 60 9]"
  obtain n m' where c: "buffer_copy_seq_max of_nat ?t ?s 5 = (n, m')" by (metis surj_pair)
  have addrs: "seq_addrs ?t = [2, 3, 20, 21, 22, 23]"
    "seq_addrs ?s = [50, 51, 52, 60, 61, 62, 63, 64, 65, 66, 67, 68]"
    by (simp_all add: addrs_def buffer_at_def upt_rec)
  have d: "distinct (seq_addrs ?t)" "set (seq_addrs ?t) \<inter> set (seq_addrs ?s) = {}"
    unfolding addrs by simp_all
  note r = copy_between_sequences [OF d c, unfolded seq_size_addrs addrs]
  from r have n: "n = 5" by simp
  from r show ?thesis unfolding n using c [unfolded n] by (intro exI [of _ m'] conjI) simp_all
qed

text \<open>
  Consuming bytes of a buffer sequence, whatever its buffers: what remains afterwards is what
  remained before without its first bytes, and the sequence counts as finished exactly when nothing
  remains, so empty buffers at its front or end never keep a transfer going.
\<close>

lemma consume_drops:
  "remaining (cb_consume n c) = drop n (remaining c)
   \<and> (cb_at_end (cb_consume n c) \<longleftrightarrow> length (remaining c) \<le> n)"
  by (simp add: consume_at_end remaining_consume)

end
