(* ===== verification/Socket_Service.thy ===== *)
theory Socket_Service
  imports Asio_Buffers
begin

text \<open>
  The socket service of the bundled asio library: \<open>detail/reactive_socket_service_base.hpp\<close> with its
  \<open>.ipp\<close> file, the synchronous operations of \<open>detail/reactive_socket_service.hpp\<close>, and
  \<open>detail/socket_holder.hpp\<close>. It is the layer between the socket objects of the program and the
  operations of \<open>Socket_Ops\<close> and \<open>Socket_IO\<close>: it keeps the descriptor, the state bits and the
  reactor's data of one socket.

  The reactor is used through its interface, a record of its operations. The state of the reactor is
  part of what \<open>outside\<close> holds.
\<close>

record 'd base_implementation =
  si_socket :: int
  si_state :: state_type
  si_reactor_data :: "'d option"

text \<open>
  An operation as the service sees it: what identifies it and the error code its handler will get.
\<close>

record reactor_op =
  op_name :: nat
  op_ec :: error_code

record ('d, 'w) reactor =
  re_register :: "int \<Rightarrow> 'd option \<Rightarrow> 'w os \<Rightarrow> (int \<times> 'd option) \<times> 'w os"
  re_deregister :: "int \<Rightarrow> 'd option \<Rightarrow> bool \<Rightarrow> 'w os \<Rightarrow> 'd option \<times> 'w os"
  re_cancel_ops :: "int \<Rightarrow> 'd option \<Rightarrow> 'w os \<Rightarrow> 'w os"
  re_start_op :: "nat \<Rightarrow> int \<Rightarrow> 'd option \<Rightarrow> reactor_op \<Rightarrow> bool \<Rightarrow> bool \<Rightarrow> 'w os \<Rightarrow> 'w os"
  re_post :: "reactor_op \<Rightarrow> bool \<Rightarrow> 'w os \<Rightarrow> 'w os"

definition read_op :: nat where "read_op = 0"
definition connect_op :: nat where "connect_op = 1"

definition SOCK_STREAM :: int where "SOCK_STREAM = 1"
definition SOCK_DGRAM :: int where "SOCK_DGRAM = 2"

section \<open>Owning a descriptor\<close>

text \<open>\<open>~socket_holder\<close>: a descriptor that was not released is closed.\<close>

definition drop_holder :: "'w kernel \<Rightarrow> int \<Rightarrow> 'w os \<Rightarrow> 'w os" where
  "drop_holder K s w =
     (if s \<noteq> invalid_socket then snd (ops_close K s 0 True no_error w) else w)"

definition is_open :: "'d base_implementation \<Rightarrow> bool" where
  "is_open impl \<longleftrightarrow> si_socket impl \<noteq> invalid_socket"

definition construct :: "'d base_implementation \<Rightarrow> 'd base_implementation" where
  "construct impl = impl\<lparr>si_socket := invalid_socket, si_state := 0\<rparr>"

text \<open>\<open>move_descriptor\<close> of the reactor passes the data on and clears the source.\<close>

definition base_move_construct ::
    "'d base_implementation \<Rightarrow> 'd base_implementation \<Rightarrow>
     'd base_implementation \<times> 'd base_implementation" where
  "base_move_construct impl other =
     (impl\<lparr>si_socket := si_socket other, si_state := si_state other, si_reactor_data := si_reactor_data other\<rparr>,
      other\<lparr>si_socket := invalid_socket, si_state := 0, si_reactor_data := None\<rparr>)"

definition destroy ::
    "'w kernel \<Rightarrow> ('d, 'w) reactor \<Rightarrow> 'd base_implementation \<Rightarrow> 'w os \<Rightarrow>
     'd base_implementation \<times> 'w os" where
  "destroy K R impl w =
     (if si_socket impl \<noteq> invalid_socket then
        let (data, w1) = re_deregister R (si_socket impl) (si_reactor_data impl)
                           (\<not> bit_set (si_state impl) possible_dup) w;
            ((_, st, _), w2) = ops_close K (si_socket impl) (si_state impl) True no_error w1
        in (impl\<lparr>si_state := st, si_reactor_data := data\<rparr>, w2)
      else (impl, w))"

definition base_move_assign ::
    "'w kernel \<Rightarrow> ('d, 'w) reactor \<Rightarrow> 'd base_implementation \<Rightarrow> 'd base_implementation \<Rightarrow> 'w os \<Rightarrow>
     ('d base_implementation \<times> 'd base_implementation) \<times> 'w os" where
  "base_move_assign K R impl other w =
     (let (impl1, w1) = destroy K R impl w
      in ((impl1\<lparr>si_socket := si_socket other, si_state := si_state other,
                 si_reactor_data := si_reactor_data other\<rparr>,
           other\<lparr>si_socket := invalid_socket, si_state := 0, si_reactor_data := None\<rparr>), w1))"

definition service_close ::
    "'w kernel \<Rightarrow> ('d, 'w) reactor \<Rightarrow> 'd base_implementation \<Rightarrow> error_code \<Rightarrow> 'w os \<Rightarrow>
     ('d base_implementation \<times> error_code) \<times> 'w os" where
  "service_close K R impl ec w =
     (let (data, w1) =
            (if is_open impl
             then re_deregister R (si_socket impl) (si_reactor_data impl)
                    (\<not> bit_set (si_state impl) possible_dup) w
             else (si_reactor_data impl, w));
          ((_, st, ec1), w2) = ops_close K (si_socket impl) (si_state impl) False ec w1
      in ((construct (impl\<lparr>si_state := st, si_reactor_data := data\<rparr>), ec1), w2))"

definition service_cancel ::
    "('d, 'w) reactor \<Rightarrow> 'd base_implementation \<Rightarrow> 'w os \<Rightarrow> error_code \<times> 'w os" where
  "service_cancel R impl w =
     (if \<not> is_open impl then (basic_error bad_descriptor, w)
      else (no_error, re_cancel_ops R (si_socket impl) (si_reactor_data impl) w))"

definition type_state :: "int \<Rightarrow> state_type" where
  "type_state type =
     (if type = SOCK_STREAM then stream_oriented
      else if type = SOCK_DGRAM then datagram_oriented
      else 0)"

definition do_open ::
    "'w kernel \<Rightarrow> ('d, 'w) reactor \<Rightarrow> 'd base_implementation \<Rightarrow> int \<Rightarrow> int \<Rightarrow> int \<Rightarrow> 'w os \<Rightarrow>
     ('d base_implementation \<times> error_code) \<times> 'w os" where
  "do_open K R impl af type protocol w =
     (if is_open impl then ((impl, misc_error already_open), w)
      else
        let ((sock, ec), w1) = ops_socket K af type protocol w
        in if sock = invalid_socket then ((impl, ec), w1)
           else
             let ((err, data), w2) = re_register R sock (si_reactor_data impl) w1
             in if err \<noteq> 0 then
                  ((impl\<lparr>si_reactor_data := data\<rparr>, error_code_of err system_category),
                   drop_holder K sock w2)
                else
                  ((impl\<lparr>si_reactor_data := data, si_socket := sock, si_state := type_state type\<rparr>,
                    no_error), w2))"

definition do_assign ::
    "('d, 'w) reactor \<Rightarrow> 'd base_implementation \<Rightarrow> int \<Rightarrow> int \<Rightarrow> 'w os \<Rightarrow>
     ('d base_implementation \<times> error_code) \<times> 'w os" where
  "do_assign R impl type native_socket w =
     (if is_open impl then ((impl, misc_error already_open), w)
      else
        let ((err, data), w1) = re_register R native_socket (si_reactor_data impl) w
        in if err \<noteq> 0 then
             ((impl\<lparr>si_reactor_data := data\<rparr>, error_code_of err system_category), w1)
           else
             ((impl\<lparr>si_reactor_data := data, si_socket := native_socket,
                    si_state := type_state type OR possible_dup\<rparr>, no_error), w1))"

section \<open>Starting operations\<close>

definition start_op ::
    "'w kernel \<Rightarrow> ('d, 'w) reactor \<Rightarrow> 'd base_implementation \<Rightarrow> nat \<Rightarrow> reactor_op \<Rightarrow>
     bool \<Rightarrow> bool \<Rightarrow> bool \<Rightarrow> 'w os \<Rightarrow> 'd base_implementation \<times> 'w os" where
  "start_op K R impl op_type op is_continuation is_non_blocking noop w =
     (if \<not> noop then
        if bit_set (si_state impl) non_blocking then
          (impl, re_start_op R op_type (si_socket impl) (si_reactor_data impl) op
                   is_continuation is_non_blocking w)
        else
          case ops_set_internal_non_blocking K (si_socket impl) (si_state impl) True w of
            ((ok, st, ec), w1) \<Rightarrow>
              let impl1 = impl\<lparr>si_state := st\<rparr>; op1 = op\<lparr>op_ec := ec\<rparr>
              in if ok then
                   (impl1, re_start_op R op_type (si_socket impl) (si_reactor_data impl) op1
                             is_continuation is_non_blocking w1)
                 else (impl1, re_post R op1 is_continuation w1)
      else (impl, re_post R op is_continuation w))"

text \<open>
  The call of \<open>start_op\<close> passes \<open>true\<close> where the parameter is \<open>is_continuation\<close>, and
  \<open>is_continuation\<close> where it is \<open>is_non_blocking\<close>.
\<close>

definition start_accept_op ::
    "'w kernel \<Rightarrow> ('d, 'w) reactor \<Rightarrow> 'd base_implementation \<Rightarrow> reactor_op \<Rightarrow> bool \<Rightarrow> bool \<Rightarrow>
     'w os \<Rightarrow> 'd base_implementation \<times> 'w os" where
  "start_accept_op K R impl op is_continuation peer_is_open w =
     (if \<not> peer_is_open then start_op K R impl read_op op True is_continuation False w
      else (impl, re_post R (op\<lparr>op_ec := misc_error already_open\<rparr>) is_continuation w))"

definition start_connect_op ::
    "'w kernel \<Rightarrow> ('d, 'w) reactor \<Rightarrow> 'd base_implementation \<Rightarrow> reactor_op \<Rightarrow> bool \<Rightarrow>
     sockaddr \<Rightarrow> nat \<Rightarrow> 'w os \<Rightarrow> 'd base_implementation \<times> 'w os" where
  "start_connect_op K R impl op is_continuation addr addrlen w =
     (let ((ok, st, ec), w1) =
            (if bit_set (si_state impl) non_blocking then ((True, si_state impl, op_ec op), w)
             else ops_set_internal_non_blocking K (si_socket impl) (si_state impl) True w);
          impl1 = impl\<lparr>si_state := st\<rparr>
      in if ok then
           case ops_connect K (si_socket impl) addr addrlen w1 of ((result, ec1), w2) \<Rightarrow>
             if result \<noteq> 0 \<and> (ec1 = basic_error in_progress \<or> ec1 = basic_error would_block)
             then (impl1, re_start_op R connect_op (si_socket impl) (si_reactor_data impl)
                            (op\<lparr>op_ec := no_error\<rparr>) is_continuation False w2)
             else (impl1, re_post R (op\<lparr>op_ec := ec1\<rparr>) is_continuation w2)
         else (impl1, re_post R (op\<lparr>op_ec := ec\<rparr>) is_continuation w1))"

section \<open>Synchronous operations\<close>

definition service_listen ::
    "'w kernel \<Rightarrow> 'd base_implementation \<Rightarrow> int \<Rightarrow> 'w os \<Rightarrow> error_code \<times> 'w os" where
  "service_listen K impl backlog w =
     (case ops_listen K (si_socket impl) backlog w of ((_, ec), w1) \<Rightarrow> (ec, w1))"

definition service_io_control ::
    "'w kernel \<Rightarrow> 'd base_implementation \<Rightarrow> int \<Rightarrow> int \<Rightarrow> 'w os \<Rightarrow>
     ('d base_implementation \<times> int \<times> error_code) \<times> 'w os" where
  "service_io_control K impl name data w =
     (case ops_ioctl K (si_socket impl) (si_state impl) name data w of ((_, st, arg, ec), w1) \<Rightarrow>
        ((impl\<lparr>si_state := st\<rparr>, arg, ec), w1))"

definition get_non_blocking :: "'d base_implementation \<Rightarrow> bool" where
  "get_non_blocking impl \<longleftrightarrow> si_state impl AND user_set_non_blocking \<noteq> 0"

definition set_non_blocking ::
    "'w kernel \<Rightarrow> 'd base_implementation \<Rightarrow> bool \<Rightarrow> 'w os \<Rightarrow>
     ('d base_implementation \<times> error_code) \<times> 'w os" where
  "set_non_blocking K impl mode w =
     (case ops_set_user_non_blocking K (si_socket impl) (si_state impl) mode w of
        ((_, st, ec), w1) \<Rightarrow> ((impl\<lparr>si_state := st\<rparr>, ec), w1))"

definition get_native_non_blocking :: "'d base_implementation \<Rightarrow> bool" where
  "get_native_non_blocking impl \<longleftrightarrow> si_state impl AND internal_non_blocking \<noteq> 0"

definition set_native_non_blocking ::
    "'w kernel \<Rightarrow> 'd base_implementation \<Rightarrow> bool \<Rightarrow> 'w os \<Rightarrow>
     ('d base_implementation \<times> error_code) \<times> 'w os" where
  "set_native_non_blocking K impl mode w =
     (case ops_set_internal_non_blocking K (si_socket impl) (si_state impl) mode w of
        ((_, st, ec), w1) \<Rightarrow> ((impl\<lparr>si_state := st\<rparr>, ec), w1))"

definition service_shutdown ::
    "'w kernel \<Rightarrow> 'd base_implementation \<Rightarrow> int \<Rightarrow> 'w os \<Rightarrow> error_code \<times> 'w os" where
  "service_shutdown K impl what w =
     (case ops_shutdown K (si_socket impl) what w of ((_, ec), w1) \<Rightarrow> (ec, w1))"

text \<open>Sending and receiving some bytes of what is left of a sequence.\<close>

definition service_send ::
    "'w kernel \<Rightarrow> 'd base_implementation \<Rightarrow> int \<Rightarrow> consuming_buffers \<Rightarrow> 'w os \<Rightarrow>
     ((nat \<times> error_code) \<times> 'w os) option" where
  "service_send K impl flags buffers w =
     (let bufs = adapt buffers
      in sync_send K (si_socket impl) (si_state impl) (ad_buffers bufs) flags (ad_all_empty bufs) w)"

definition service_receive ::
    "'w kernel \<Rightarrow> 'd base_implementation \<Rightarrow> int \<Rightarrow> consuming_buffers \<Rightarrow> 'w os \<Rightarrow>
     ((nat \<times> error_code) \<times> 'w os) option" where
  "service_receive K impl flags buffers w =
     (let bufs = adapt buffers
      in sync_recv K (si_socket impl) (si_state impl) (ad_buffers bufs) flags (ad_all_empty bufs) w)"

text \<open>The overloads for \<open>null_buffers\<close> only wait.\<close>

definition service_send_null ::
    "'w kernel \<Rightarrow> 'd base_implementation \<Rightarrow> 'w os \<Rightarrow> (nat \<times> error_code) \<times> 'w os" where
  "service_send_null K impl w =
     (case ops_poll_write K (si_socket impl) (si_state impl) w of ((_, ec), w1) \<Rightarrow> ((0, ec), w1))"

definition service_receive_null ::
    "'w kernel \<Rightarrow> 'd base_implementation \<Rightarrow> 'w os \<Rightarrow> (nat \<times> error_code) \<times> 'w os" where
  "service_receive_null K impl w =
     (case ops_poll_read K (si_socket impl) (si_state impl) w of ((_, ec), w1) \<Rightarrow> ((0, ec), w1))"

definition service_bind ::
    "'w kernel \<Rightarrow> 'd base_implementation \<Rightarrow> sockaddr \<Rightarrow> nat \<Rightarrow> 'w os \<Rightarrow> error_code \<times> 'w os" where
  "service_bind K impl addr n w =
     (case ops_bind K (si_socket impl) addr n w of ((_, ec), w1) \<Rightarrow> (ec, w1))"

definition service_connect ::
    "'w kernel \<Rightarrow> 'd base_implementation \<Rightarrow> sockaddr \<Rightarrow> nat \<Rightarrow> 'w os \<Rightarrow> error_code \<times> 'w os" where
  "service_connect K impl addr n w = sync_connect K (si_socket impl) addr n w"

text \<open>
  Accepting into a peer socket. The endpoint's storage and capacity are the address argument, its
  later \<open>resize\<close> is left out; the
  peer is assigned the new descriptor with \<open>do_assign\<close>, and when that fails the holder closes it.
\<close>

definition service_accept ::
    "'w kernel \<Rightarrow> ('d, 'w) reactor \<Rightarrow> 'd base_implementation \<Rightarrow> int \<Rightarrow> 'd base_implementation \<Rightarrow>
     addr_arg \<Rightarrow> error_code \<Rightarrow> 'w os \<Rightarrow>
     (('d base_implementation \<times> addr_arg \<times> error_code) \<times> 'w os) option" where
  "service_accept K R impl type peer endpoint ec w =
     (if is_open peer then Some ((peer, endpoint, misc_error already_open), w)
      else
        case sync_accept K (si_socket impl) (si_state impl) endpoint w of
          None \<Rightarrow> None
        | Some ((new_socket, endpoint1, ec1), w1) \<Rightarrow>
            if new_socket \<noteq> invalid_socket then
              case do_assign R peer type new_socket w1 of ((peer1, ec2), w2) \<Rightarrow>
                if \<not> failed ec2 then Some ((peer1, endpoint1, ec2), w2)
                else Some ((peer1, endpoint1, ec2), drop_holder K new_socket w2)
            else Some ((peer, endpoint, ec1), w1))"

end
