(* ===== verification/Asio_Transfer.thy ===== *)
theory Asio_Transfer
  imports Socket_Service
begin

text \<open>
  The composed operations of the bundled asio library that the program calls: \<open>asio::read\<close>
  (\<open>impl/read.hpp\<close>), \<open>asio::write\<close> (\<open>impl/write.hpp\<close>) and \<open>asio::connect\<close> (\<open>impl/connect.hpp\<close>),
  with the completion conditions of \<open>completion_condition.hpp\<close>. They are templates over the stream,
  the condition and the endpoint iterator, here function arguments. A \<open>read_some\<close> or \<open>write_some\<close>
  that blocks forever is \<open>None\<close>, and so is the transfer that calls it.

  The contract between a stream and its client is the locale \<open>byte_stream\<close>, proved of the socket
  service over a system that delivers a stream of bytes (locale \<open>stream_kernel\<close>).
\<close>

section \<open>Completion conditions\<close>

definition default_max_transfer_size :: nat where
  "default_max_transfer_size = 65536"

definition adapt_condition_bool :: "bool \<Rightarrow> nat" where
  "adapt_condition_bool result = (if result then 0 else default_max_transfer_size)"

definition transfer_all :: "error_code \<Rightarrow> nat \<Rightarrow> nat" where
  "transfer_all ec n = (if failed ec then 0 else default_max_transfer_size)"

definition transfer_at_least :: "nat \<Rightarrow> error_code \<Rightarrow> nat \<Rightarrow> nat" where
  "transfer_at_least minimum ec n =
     (if failed ec \<or> n \<ge> minimum then 0 else default_max_transfer_size)"

definition transfer_exactly :: "nat \<Rightarrow> error_code \<Rightarrow> nat \<Rightarrow> nat" where
  "transfer_exactly m ec n =
     (if failed ec \<or> n \<ge> m then 0
      else if m - n < default_max_transfer_size then m - n else default_max_transfer_size)"

section \<open>Reading and writing\<close>

type_synonym 'w transfer_some = "consuming_buffers \<Rightarrow> 'w os \<Rightarrow> ((nat \<times> error_code) \<times> 'w os) option"

partial_function (option) read_loop ::
    "'w transfer_some \<Rightarrow> (error_code \<Rightarrow> nat \<Rightarrow> nat) \<Rightarrow> consuming_buffers \<Rightarrow> nat \<Rightarrow> error_code \<Rightarrow>
     'w os \<Rightarrow> ((nat \<times> error_code) \<times> 'w os) option" where
  "read_loop read_some condition tmp transferred ec w =
     (if it_equal (cb_iterator tmp) end_iterator then Some ((transferred, ec), w)
      else
        Option.bind (read_some tmp w) (\<lambda>((n, ec1), w1).
          read_loop read_some condition
            (cb_prepare (condition ec1 (transferred + n)) (cb_consume n tmp))
            (transferred + n) ec1 w1))"

definition asio_read_seq ::
    "'w transfer_some \<Rightarrow> buf list \<Rightarrow> (error_code \<Rightarrow> nat \<Rightarrow> nat) \<Rightarrow> 'w os \<Rightarrow>
     ((nat \<times> error_code) \<times> 'w os) option" where
  "asio_read_seq read_some buffers condition w =
     read_loop read_some condition (cb_prepare (condition no_error 0) (consuming buffers)) 0
       no_error w"

partial_function (option) write_loop ::
    "'w transfer_some \<Rightarrow> (error_code \<Rightarrow> nat \<Rightarrow> nat) \<Rightarrow> consuming_buffers \<Rightarrow> nat \<Rightarrow> error_code \<Rightarrow>
     'w os \<Rightarrow> ((nat \<times> error_code) \<times> 'w os) option" where
  "write_loop write_some condition tmp transferred ec w =
     (if it_equal (cb_iterator tmp) end_iterator then Some ((transferred, ec), w)
      else
        Option.bind (write_some tmp w) (\<lambda>((n, ec1), w1).
          write_loop write_some condition
            (cb_prepare (condition ec1 (transferred + n)) (cb_consume n tmp))
            (transferred + n) ec1 w1))"

definition asio_write_seq ::
    "'w transfer_some \<Rightarrow> buf list \<Rightarrow> (error_code \<Rightarrow> nat \<Rightarrow> nat) \<Rightarrow> 'w os \<Rightarrow>
     ((nat \<times> error_code) \<times> 'w os) option" where
  "asio_write_seq write_some buffers condition w =
     write_loop write_some condition (cb_prepare (condition no_error 0) (consuming buffers)) 0
       no_error w"

text \<open>The overloads without an error code throw what they report, as \<open>throw_error\<close> does.\<close>

definition throw_error :: "error_code \<Rightarrow> 'a \<Rightarrow> error_code + 'a" where
  "throw_error ec x = (if failed ec then Inl ec else Inr x)"

definition asio_read_throw ::
    "'w transfer_some \<Rightarrow> buf list \<Rightarrow> 'w os \<Rightarrow> ((error_code + nat) \<times> 'w os) option" where
  "asio_read_throw read_some buffers w =
     map_option (\<lambda>((n, ec), w1). (throw_error ec n, w1))
       (asio_read_seq read_some buffers transfer_all w)"

definition asio_read_ec ::
    "'w transfer_some \<Rightarrow> buf list \<Rightarrow> 'w os \<Rightarrow> ((nat \<times> error_code) \<times> 'w os) option" where
  "asio_read_ec read_some buffers w = asio_read_seq read_some buffers transfer_all w"

definition asio_read_condition_throw ::
    "'w transfer_some \<Rightarrow> buf list \<Rightarrow> (error_code \<Rightarrow> nat \<Rightarrow> nat) \<Rightarrow> 'w os \<Rightarrow>
     ((error_code + nat) \<times> 'w os) option" where
  "asio_read_condition_throw read_some buffers condition w =
     map_option (\<lambda>((n, ec), w1). (throw_error ec n, w1))
       (asio_read_seq read_some buffers condition w)"

definition asio_write_throw ::
    "'w transfer_some \<Rightarrow> buf list \<Rightarrow> 'w os \<Rightarrow> ((error_code + nat) \<times> 'w os) option" where
  "asio_write_throw write_some buffers w =
     map_option (\<lambda>((n, ec), w1). (throw_error ec n, w1))
       (asio_write_seq write_some buffers transfer_all w)"

definition asio_write_ec ::
    "'w transfer_some \<Rightarrow> buf list \<Rightarrow> 'w os \<Rightarrow> ((nat \<times> error_code) \<times> 'w os) option" where
  "asio_write_ec write_some buffers w = asio_write_seq write_some buffers transfer_all w"

definition asio_write_condition_throw ::
    "'w transfer_some \<Rightarrow> buf list \<Rightarrow> (error_code \<Rightarrow> nat \<Rightarrow> nat) \<Rightarrow> 'w os \<Rightarrow>
     ((error_code + nat) \<times> 'w os) option" where
  "asio_write_condition_throw write_some buffers condition w =
     map_option (\<lambda>((n, ec), w1). (throw_error ec n, w1))
       (asio_write_seq write_some buffers condition w)"

section \<open>Connecting\<close>

text \<open>
  An iterator over endpoints is the list from its position to the end. The condition may move the
  iterator; \<open>close_socket\<close> and \<open>connect_socket\<close> are the socket's operations, whose error code
  replaces the one before. A condition that moves the iterator to the end makes the loop increment
  the end iterator: there is no defined result (\<open>None\<close>).
\<close>

definition default_connect_condition :: "error_code \<Rightarrow> 'e list \<Rightarrow> 'e list" where
  "default_connect_condition ec next = next"

partial_function (option) connect_loop ::
    "('w \<Rightarrow> error_code \<times> 'w) \<Rightarrow> ('e \<Rightarrow> 'w \<Rightarrow> error_code \<times> 'w) \<Rightarrow>
     (error_code \<Rightarrow> 'e list \<Rightarrow> 'e list) \<Rightarrow> 'e list \<Rightarrow> error_code \<Rightarrow> 'w \<Rightarrow>
     (('e list \<times> error_code) \<times> 'w) option" where
  "connect_loop close_socket connect_socket condition it ec w =
     (if it = [] then Some (([], if \<not> failed ec then misc_error not_found else ec), w)
      else
        case condition ec it of
          [] \<Rightarrow> None
        | e # es \<Rightarrow>
            case close_socket w of (_, w1) \<Rightarrow>
              case connect_socket e w1 of (ec1, w2) \<Rightarrow>
                if \<not> failed ec1 then Some ((e # es, ec1), w2)
                else connect_loop close_socket connect_socket condition es ec1 w2)"

definition asio_connect ::
    "('w \<Rightarrow> error_code \<times> 'w) \<Rightarrow> ('e \<Rightarrow> 'w \<Rightarrow> error_code \<times> 'w) \<Rightarrow>
     (error_code \<Rightarrow> 'e list \<Rightarrow> 'e list) \<Rightarrow> 'e list \<Rightarrow> 'w \<Rightarrow>
     (('e list \<times> error_code) \<times> 'w) option" where
  "asio_connect close_socket connect_socket condition it w =
     connect_loop close_socket connect_socket condition it no_error w"

definition asio_connect_ec ::
    "('w \<Rightarrow> error_code \<times> 'w) \<Rightarrow> ('e \<Rightarrow> 'w \<Rightarrow> error_code \<times> 'w) \<Rightarrow> 'e list \<Rightarrow> 'w \<Rightarrow>
     (('e list \<times> error_code) \<times> 'w) option" where
  "asio_connect_ec close_socket connect_socket it w =
     asio_connect close_socket connect_socket default_connect_condition it w"

definition asio_connect_throw ::
    "('w \<Rightarrow> error_code \<times> 'w) \<Rightarrow> ('e \<Rightarrow> 'w \<Rightarrow> error_code \<times> 'w) \<Rightarrow> 'e list \<Rightarrow> 'w \<Rightarrow>
     ((error_code + 'e list) \<times> 'w) option" where
  "asio_connect_throw close_socket connect_socket it w =
     map_option (\<lambda>((r, ec), w1). (throw_error ec r, w1))
       (asio_connect_ec close_socket connect_socket it w)"

definition asio_connect_condition_throw ::
    "('w \<Rightarrow> error_code \<times> 'w) \<Rightarrow> ('e \<Rightarrow> 'w \<Rightarrow> error_code \<times> 'w) \<Rightarrow>
     (error_code \<Rightarrow> 'e list \<Rightarrow> 'e list) \<Rightarrow> 'e list \<Rightarrow> 'w \<Rightarrow> ((error_code + 'e list) \<times> 'w) option" where
  "asio_connect_condition_throw close_socket connect_socket condition it w =
     map_option (\<lambda>((r, ec), w1). (throw_error ec r, w1))
       (asio_connect close_socket connect_socket condition it w)"

section \<open>The contract of a stream\<close>

text \<open>
  What a stream promises to a reader: while it has bytes, a read that offers room stores at least
  one of them, in order, at the addresses it was given; when it has none left the read reports the
  end of the file. A read that offers no room reports success.
\<close>

locale byte_stream =
  fixes read_some :: "'w transfer_some" and content :: "'w os \<Rightarrow> bytes"
  assumes read_nothing: "offered c = [] \<Longrightarrow> read_some c w = Some ((0, no_error), w)"
    and read_end: "offered c \<noteq> [] \<Longrightarrow> content w = [] \<Longrightarrow>
      \<exists>w1. read_some c w = Some ((0, misc_error eof), w1) \<and> content w1 = [] \<and> memory w1 = memory w"
    and read_bytes: "offered c \<noteq> [] \<Longrightarrow> content w \<noteq> [] \<Longrightarrow>
      \<exists>n w1. read_some c w = Some ((n, no_error), w1)
        \<and> 0 < n \<and> n \<le> length (offered c) \<and> n \<le> length (content w)
        \<and> content w1 = drop n (content w)
        \<and> memory w1 = write_at (offered c) (take n (content w)) (memory w)"
begin

lemma read_loop_all:
  assumes "cb_max tmp = default_max_transfer_size"
  shows "\<exists>w1. read_loop read_some transfer_all tmp sofar no_error w =
      Some ((sofar + min (length (remaining tmp)) (length (content w)),
             if length (content w) < length (remaining tmp) then misc_error eof else no_error), w1)
    \<and> content w1 = drop (length (remaining tmp)) (content w)
    \<and> memory w1 = write_at (remaining tmp) (content w) (memory w)"
  using assms
proof (induction "length (remaining tmp) + cb_left tmp" arbitrary: tmp sofar w rule: less_induct)
  case less
  note max = less.prems
  show ?case
  proof (cases "cb_at_end tmp")
    case True
    then show ?thesis by (subst read_loop.simps) (simp add: remaining_def)
  next
    case False
    have pos: "cb_max tmp > 0" by (simp add: max default_max_transfer_size_def)
    have unfold: "read_loop read_some transfer_all tmp sofar no_error w =
        Option.bind (read_some tmp w) (\<lambda>((n, ec1), w1).
          read_loop read_some transfer_all
            (cb_prepare (transfer_all ec1 (sofar + n)) (cb_consume n tmp)) (sofar + n) ec1 w1)"
      using False pos by (subst read_loop.simps) simp
    have all: "transfer_all no_error k = default_max_transfer_size" for k
      by (simp add: transfer_all_def)
    have stop: "read_loop read_some transfer_all
        (cb_prepare (transfer_all (misc_error eof) k) (cb_consume n tmp)) d (misc_error eof) w1
          = Some ((d, misc_error eof), w1)" for k n d w1
      by (subst read_loop.simps) (simp add: transfer_all_def)
    consider "offered tmp = []" | "offered tmp \<noteq> []" "content w = []"
      | "offered tmp \<noteq> []" "content w \<noteq> []" by blast
    then show ?thesis
    proof cases
      case 1
      let ?next = "cb_prepare default_max_transfer_size (cb_consume 0 tmp)"
      have "cb_left ?next < cb_left tmp"
        using consume_zero_left [OF False offered_empty_first [OF 1 False pos]] by simp
      then have "\<exists>w1. read_loop read_some transfer_all ?next sofar no_error w =
          Some ((sofar + min (length (remaining ?next)) (length (content w)),
            if length (content w) < length (remaining ?next) then misc_error eof else no_error), w1)
          \<and> content w1 = drop (length (remaining ?next)) (content w)
          \<and> memory w1 = write_at (remaining ?next) (content w) (memory w)"
        by (intro less.hyps) (simp_all add: remaining_consume)
      then show ?thesis by (simp add: unfold read_nothing [OF 1] all remaining_consume)
    next
      case 2
      then obtain w1 where "read_some tmp w = Some ((0, misc_error eof), w1)" "content w1 = []"
        "memory w1 = memory w" using read_end by blast
      moreover have "remaining tmp \<noteq> []"
        using 2 offered_length(2) [of tmp] by auto
      ultimately show ?thesis using 2 stop by (simp add: unfold)
    next
      case 3
      then obtain n w1 where r: "read_some tmp w = Some ((n, no_error), w1)" "0 < n"
        "n \<le> length (offered tmp)" "n \<le> length (content w)" "content w1 = drop n (content w)"
        "memory w1 = write_at (offered tmp) (take n (content w)) (memory w)"
        using read_bytes by blast
      let ?next = "cb_prepare default_max_transfer_size (cb_consume n tmp)"
      let ?R = "remaining tmp" and ?C = "content w"
      have n: "n \<le> length ?R" using r(3) offered_length(2) [of tmp] by simp
      have rest: "remaining ?next = drop n ?R" by (simp add: remaining_consume)
      have "length (remaining ?next) + cb_left ?next < length ?R + cb_left tmp"
        using n r(2) consume_left [of n tmp] by (simp add: remaining_consume)
      from less.hyps [OF this, of "sofar + n" w1] obtain w2 where
        w2: "read_loop read_some transfer_all ?next (sofar + n) no_error w1 =
          Some ((sofar + n + min (length (drop n ?R)) (length (drop n ?C)),
            if length (drop n ?C) < length (drop n ?R) then misc_error eof else no_error), w2)"
        "content w2 = drop (length (drop n ?R)) (drop n ?C)"
        "memory w2 = write_at (drop n ?R) (drop n ?C) (memory w1)"
        by (auto simp: remaining_consume r(5))
      have "memory w1 = write_at (take n (offered tmp)) (take n ?C) (memory w)"
        using write_at_take [of "offered tmp" n "take n ?C"] by (simp add: r(6))
      also have "take n (offered tmp) = take n ?R"
        using r(3) by (subst offered_is_take) (simp add: min_def)
      finally have "memory w2 = write_at ?R ?C (memory w)"
        using write_at_two [OF n r(4), of "length ?C"] by (simp add: w2(3))
      then show ?thesis
        using n r(4) w2 by (auto simp: unfold r(1) all min_def)
    qed
  qed
qed

lemma read_exact:
  "\<exists>w1. asio_read_seq read_some bufs transfer_all w =
      Some ((min (seq_size bufs) (length (content w)),
             if length (content w) < seq_size bufs then misc_error eof else no_error), w1)
    \<and> content w1 = drop (seq_size bufs) (content w)
    \<and> memory w1 = write_at (seq_addrs bufs) (content w) (memory w)"
  using read_loop_all [of "cb_prepare default_max_transfer_size (consuming bufs)" 0 w]
  by (simp add: asio_read_seq_def transfer_all_def seq_size_addrs)

end

section \<open>The socket service as a stream\<close>

text \<open>
  A system that delivers a stream of bytes to one socket, as \<open>recvmsg\<close> and \<open>poll\<close> document it. Each
  receive stores some of the bytes, as few as it likes, reports the end when no byte will come, or
  reports \<open>EAGAIN\<close> when no byte has come yet; waiting without a limit makes the socket ready.
\<close>

locale stream_kernel =
  fixes K :: "'w kernel" and impl :: "'d base_implementation"
    and content :: "'w \<Rightarrow> bytes" and ready :: "'w \<Rightarrow> bool"
  assumes open_stream: "si_socket impl \<noteq> invalid_socket" "bit_set (si_state impl) stream_oriented"
      "\<not> bit_set (si_state impl) user_set_non_blocking"
    and recvmsg_stream: "iov_addrs (msg_iov msg) \<noteq> [] \<Longrightarrow> msg_iovlen msg = length (msg_iov msg) \<Longrightarrow>
      case sys_recvmsg K (si_socket impl) msg 0 w of ((r, _), w1) \<Rightarrow>
        (r = 0 \<and> content (outside w) = [] \<and> content (outside w1) = [] \<and> memory w1 = memory w)
        \<or> (0 < r \<and> nat r \<le> length (iov_addrs (msg_iov msg)) \<and> nat r \<le> length (content (outside w))
           \<and> content (outside w1) = drop (nat r) (content (outside w))
           \<and> memory w1 = write_at (iov_addrs (msg_iov msg)) (take (nat r) (content (outside w))) (memory w))
        \<or> (r < 0 \<and> \<not> ready (outside w) \<and> errno w1 = basic_value try_again
           \<and> content (outside w1) = content (outside w) \<and> memory w1 = memory w)"
    and poll_stream: "\<exists>w1. sys_poll K (si_socket impl) POLLIN (-1) w = (1, w1) \<and> ready (outside w1)
      \<and> content (outside w1) = content (outside w) \<and> memory w1 = memory w"
begin

abbreviation stored :: "iovec list \<Rightarrow> 'w os \<Rightarrow> int \<Rightarrow> error_code \<Rightarrow> 'w os \<Rightarrow> bool" where
  "stored bufs w r ec w1 \<equiv>
     (r = 0 \<and> content (outside w) = [] \<and> content (outside w1) = [] \<and> memory w1 = memory w)
     \<or> (0 < r \<and> ec = no_error \<and> nat r \<le> length (iov_addrs bufs) \<and> nat r \<le> length (content (outside w))
        \<and> content (outside w1) = drop (nat r) (content (outside w))
        \<and> memory w1 = write_at (iov_addrs bufs) (take (nat r) (content (outside w))) (memory w))"

lemma iov_count_small: "n \<le> max_buffers \<Longrightarrow> iov_count n = n"
proof -
  assume n: "n \<le> max_buffers"
  have "sint (of_nat n :: u32) = int n"
    using n by (simp add: max_buffers_def sint_uint unat_of_nat signed_take_bit_int_eq_self_iff
        uint_nat)
  then have "scast (of_nat n :: u32) = (of_nat n :: u64)" by (simp add: scast_eq)
  then show "iov_count n = n"
    using n by (simp add: iov_count_def unat_of_nat max_buffers_def)
qed

lemma one_receive:
  assumes "iov_addrs bufs \<noteq> []" "length bufs \<le> max_buffers"
    and "ops_recv K (si_socket impl) bufs 0 w = ((r, ec), w1)"
  shows "stored bufs w r ec w1
    \<or> (r < 0 \<and> \<not> ready (outside w) \<and> blocked ec \<and> content (outside w1) = content (outside w)
       \<and> memory w1 = memory w)"
  using recvmsg_stream [of "empty_msghdr\<lparr>msg_iov := bufs, msg_iovlen := iov_count (length bufs)\<rparr>"
      "clear_last_error w"] assms
  by (auto simp: ops_recv_def Let_def iov_count_small clear_last_error_def error_wrapper_def
      blocked_iff split: prod.splits if_splits)

lemma recv_loop_stream:
  assumes "iov_addrs bufs \<noteq> []" "length bufs \<le> max_buffers"
  shows "\<exists>r ec w1. recv_loop K (si_socket impl) (si_state impl) bufs 0 w = Some ((r, ec), w1)
    \<and> (if content (outside w) = [] then r = 0 \<and> ec = misc_error eof else 0 < r)
    \<and> stored bufs w (int r) ec w1"
proof -
  have final: "\<exists>r ec w1. recv_loop K (si_socket impl) (si_state impl) bufs 0 w = Some ((r, ec), w1)
    \<and> (if content (outside w) = [] then r = 0 \<and> ec = misc_error eof else 0 < r)
    \<and> stored bufs w (int r) ec w1"
    if "ops_recv K (si_socket impl) bufs 0 w = ((r, ec), w1)" "r \<ge> 0" for w r ec w1
    using one_receive [OF assms that(1)] that(2) open_stream
    by (subst recv_loop.simps) (auto simp: that(1))
  obtain r ec w1 where a: "ops_recv K (si_socket impl) bufs 0 w = ((r, ec), w1)"
    by (metis surj_pair)
  show ?thesis
  proof (cases "r \<ge> 0")
    case True
    with final a show ?thesis by blast
  next
    case False
    with one_receive [OF assms a] have b: "blocked ec" "content (outside w1) = content (outside w)"
      "memory w1 = memory w" by auto
    obtain w2 where p: "sys_poll K (si_socket impl) POLLIN (-1) (clear_last_error w1) = (1, w2)"
      "ready (outside w2)" "content (outside w2) = content (outside w1)" "memory w2 = memory w1"
      using poll_stream [of "clear_last_error w1"] by (auto simp: clear_last_error_def)
    have p': "ops_poll_read K (si_socket impl) 0 w1 = ((1, no_error), w2)"
      using p open_stream by (simp add: ops_poll_read_def bit_set_def)
    have again: "recv_loop K (si_socket impl) (si_state impl) bufs 0 w
        = recv_loop K (si_socket impl) (si_state impl) bufs 0 w2"
      using False b open_stream by (subst recv_loop.simps) (simp add: a p')
    obtain r' ec' w3 where a': "ops_recv K (si_socket impl) bufs 0 w2 = ((r', ec'), w3)"
      by (metis surj_pair)
    have "r' \<ge> 0" using one_receive [OF assms a'] p(2) by auto
    from final [OF a' this] show ?thesis by (simp add: again p b)
  qed
qed

end

sublocale stream_kernel \<subseteq> byte_stream "service_receive K impl 0" "\<lambda>w. content (outside w)"
proof
  fix c w
  have count: "length (ad_buffers (adapt c)) \<le> max_buffers"
    using adapt_from_count [of "\<lparr>ad_buffers = [], ad_total = 0\<rparr>" "cb_iterator c"]
    by (simp add: adapt_def ad_count_def)
  show "offered c = [] \<Longrightarrow> service_receive K impl 0 c w = Some ((0, no_error), w)"
    using open_stream
    by (simp add: service_receive_def Let_def sync_recv_def all_empty_offered)
  assume o: "offered c \<noteq> []"
  then have a: "iov_addrs (ad_buffers (adapt c)) \<noteq> []" by (simp add: offered_def)
  have l: "service_receive K impl 0 c w
      = recv_loop K (si_socket impl) (si_state impl) (ad_buffers (adapt c)) 0 w"
    using open_stream o by (simp add: service_receive_def Let_def sync_recv_def all_empty_offered)
  note r = recv_loop_stream [OF a count, of w]
  show "content (outside w) = [] \<Longrightarrow> \<exists>w1. service_receive K impl 0 c w = Some ((0, misc_error eof), w1)
      \<and> content (outside w1) = [] \<and> memory w1 = memory w"
    using r by (auto simp: l)
  show "content (outside w) \<noteq> [] \<Longrightarrow> \<exists>n w1. service_receive K impl 0 c w = Some ((n, no_error), w1)
      \<and> 0 < n \<and> n \<le> length (offered c) \<and> n \<le> length (content (outside w))
      \<and> content (outside w1) = drop n (content (outside w))
      \<and> memory w1 = write_at (offered c) (take n (content (outside w))) (memory w)"
    using r by (auto simp: l offered_def)
qed

context stream_kernel
begin

lemma service_read:
  "\<exists>w1. asio_read_seq (service_receive K impl 0) bufs transfer_all w =
      Some ((min (seq_size bufs) (length (content (outside w))),
             if length (content (outside w)) < seq_size bufs then misc_error eof else no_error), w1)
    \<and> content (outside w1) = drop (seq_size bufs) (content (outside w))
    \<and> memory w1 = write_at (seq_addrs bufs) (content (outside w)) (memory w)"
  by (rule read_exact)

end

end
