(* ===== verification/Sha1.thy ===== *)
theory Sha1
  imports Chord_Prelude
begin

text \<open>
  The class \<open>SHA1\<close> of \<open>src/sha1.h\<close> and \<open>src/sha1.cpp\<close>: its fields, the block routine
  \<open>process\<close>, the streaming routine \<open>addBytes\<close> and the final \<open>getDigest\<close>, statement by
  statement. Theory \<open>Sha1_Spec\<close> relates them to the secure hash standard.

  The constructor does not initialise \<open>bytes\<close>, so the model's constructor takes its
  indeterminate contents as an argument.
\<close>

section \<open>The object\<close>

record sha1 =
  H0 :: u32
  H1 :: u32
  H2 :: u32
  H3 :: u32
  H4 :: u32
  bytes :: bytes
  unprocessedBytes :: nat
  size_field :: u32



definition new_SHA1 :: "bytes \<Rightarrow> sha1" where
  "new_SHA1 indeterminate =
     \<lparr>H0 = 0x67452301, H1 = 0xefcdab89, H2 = 0x98badcfe, H3 = 0x10325476, H4 = 0xc3d2e1f0,
      bytes = indeterminate, unprocessedBytes = 0, size_field = 0\<rparr>"

text \<open>The destructor erases the data (the memory is freed right after).\<close>

definition erase_SHA1 :: "sha1 \<Rightarrow> sha1" where
  "erase_SHA1 s =
     s\<lparr>H0 := 0, H1 := 0, H2 := 0, H3 := 0, H4 := 0, bytes := replicate 64 0,
       unprocessedBytes := 0, size_field := 0\<rparr>"

section \<open>Utility methods\<close>

definition lrot :: "u32 \<Rightarrow> nat \<Rightarrow> u32" where
  "lrot x bits = push_bit bits x OR drop_bit (32 - bits) x"

definition storeBigEndianUint32 :: "bytes \<Rightarrow> nat \<Rightarrow> u32 \<Rightarrow> bytes" where
  "storeBigEndianUint32 buf p num =
     buf[p := uint_to_char (drop_bit 24 num),
         p + 1 := uint_to_char (drop_bit 16 num),
         p + 2 := uint_to_char (drop_bit 8 num),
         p + 3 := uint_to_char num]"

section \<open>The block routine\<close>

definition load_word :: "bytes \<Rightarrow> nat \<Rightarrow> u32" where
  "load_word b t =
     push_bit 24 (uchar_to_uint (b ! (t * 4))) + push_bit 16 (uchar_to_uint (b ! (t * 4 + 1)))
     + push_bit 8 (uchar_to_uint (b ! (t * 4 + 2))) + uchar_to_uint (b ! (t * 4 + 3))"

text \<open>The array \<open>W\<close> is filled from the left, so its filled part is a growing list.\<close>

definition expand_step :: "nat \<Rightarrow> u32 list \<Rightarrow> u32 list" where
  "expand_step t W = W @ [lrot (W ! (t - 3) XOR W ! (t - 8) XOR W ! (t - 14) XOR W ! (t - 16)) 1]"

definition expand_W :: "bytes \<Rightarrow> u32 list" where
  "expand_W b = fold expand_step [16..<80] (map (load_word b) [0..<16])"

type_synonym regs = "u32 \<times> u32 \<times> u32 \<times> u32 \<times> u32"

definition select_K :: "nat \<Rightarrow> u32" where
  "select_K t =
     (if t < 20 then 0x5a827999
      else if t < 40 then 0x6ed9eba1
      else if t < 60 then 0x8f1bbcdc
      else 0xca62c1d6)"

definition select_f :: "nat \<Rightarrow> u32 \<Rightarrow> u32 \<Rightarrow> u32 \<Rightarrow> u32" where
  "select_f t b c d =
     (if t < 20 then (b AND c) OR ((b XOR 0xFFFFFFFF) AND d)
      else if t < 40 then b XOR c XOR d
      else if t < 60 then (b AND c) OR (b AND d) OR (c AND d)
      else b XOR c XOR d)"

definition main_step :: "u32 list \<Rightarrow> nat \<Rightarrow> regs \<Rightarrow> regs" where
  "main_step W t = (\<lambda>(a, b, c, d, e).
     let temp = lrot a 5 + select_f t b c d + e + W ! t + select_K t
     in (temp, a, lrot b 30, c, d))"

definition main_loop :: "u32 list \<Rightarrow> regs \<Rightarrow> regs" where
  "main_loop W r = fold (main_step W) [0..<80] r"

definition process :: "sha1 \<Rightarrow> sha1 result" where
  "process s = bind_result (assert_that (unprocessedBytes s = 64)) (\<lambda>_.
     case main_loop (expand_W (bytes s)) (H0 s, H1 s, H2 s, H3 s, H4 s) of
       (a, b, c, d, e) \<Rightarrow>
         Inr (s\<lparr>H0 := H0 s + a, H1 := H1 s + b, H2 := H2 s + c, H3 := H3 s + d, H4 := H4 s + e,
                unprocessedBytes := 0\<rparr>))"

section \<open>Streaming\<close>

definition memcpy_at :: "bytes \<Rightarrow> nat \<Rightarrow> bytes \<Rightarrow> bytes" where
  "memcpy_at buf p src = take p buf @ src @ drop (p + length src) buf"

text \<open>
  The loop of \<open>addBytes\<close>. \<open>data\<close> is what the pointer points to and shrinks as the pointer
  advances; \<open>num\<close> is the count still to copy. Copying more bytes than \<open>data\<close> has would read
  past its end.
\<close>

function addBytes_loop :: "sha1 \<Rightarrow> bytes \<Rightarrow> nat \<Rightarrow> sha1 result" where
  "addBytes_loop s data num =
     (if num = 0 then Inr s
      else
        let needed = 64 - unprocessedBytes s;
            toCopy = (if num < needed then num else needed)
        in if needed = 0 then Inl AssertionFailure
           else if length data < toCopy then Inl (UndefinedBehaviour ReadPastEnd)
           else
             let s1 = s\<lparr>bytes := memcpy_at (bytes s) (unprocessedBytes s) (take toCopy data),
                        unprocessedBytes := unprocessedBytes s + toCopy\<rparr>
             in bind_result (if unprocessedBytes s1 = 64 then process s1 else Inr s1) (\<lambda>s2.
                  addBytes_loop s2 (drop toCopy data) (num - toCopy)))"
  by pat_completeness auto
termination
  by (relation "measure (\<lambda>(s, data, num). num)") (auto split: if_splits)

declare addBytes_loop.simps [simp del]

definition addBytes :: "sha1 \<Rightarrow> bytes \<Rightarrow> int \<Rightarrow> sha1 result" where
  "addBytes s data num =
     bind_result (assert_that (num > 0)) (\<lambda>_.
       addBytes_loop (s\<lparr>size_field := size_field s + of_int num\<rparr>) data (nat num))"

definition getDigest :: "sha1 \<Rightarrow> (bytes \<times> sha1) result" where
  "getDigest s =
     (let totalBitsL = push_bit 3 (size_field s);
          totalBitsH = drop_bit 29 (size_field s)
      in bind_result (addBytes s [0x80] 1) (\<lambda>s1.
         bind_result
           (if unprocessedBytes s1 > 56
            then addBytes s1 (replicate 64 0) (64 - int (unprocessedBytes s1))
            else Inr s1) (\<lambda>s2.
         bind_result (assert_that (unprocessedBytes s2 \<le> 56)) (\<lambda>_.
           let neededZeros = 56 - unprocessedBytes s2;
               footer = storeBigEndianUint32
                          (storeBigEndianUint32 (replicate 64 0) neededZeros totalBitsH)
                          (neededZeros + 4) totalBitsL
           in bind_result (addBytes s2 footer (int neededZeros + 8)) (\<lambda>s3.
              Inr (storeBigEndianUint32
                    (storeBigEndianUint32
                      (storeBigEndianUint32
                        (storeBigEndianUint32
                          (storeBigEndianUint32 (replicate 20 0) 0 (H0 s3))
                          4 (H1 s3))
                        8 (H2 s3))
                      12 (H3 s3))
                    16 (H4 s3), s3))))))"

end
