(* ===== verification/Sha1_Spec.thy ===== *)
theory Sha1_Spec
  imports Sha1
begin

text \<open>
  The secure hash standard's SHA-1 as a function on byte sequences, and the proof that the
  class of theory \<open>Sha1\<close> computes it: the block routine is the standard's compression, the
  streaming routine absorbs its input whatever the way it is cut into pieces, and the digest
  is the hash of everything absorbed. The interface locale \<open>hasher\<close> states what the rest of
  the program relies on; \<open>sha1_hasher\<close> interprets it on the class.
\<close>

section \<open>The standard\<close>

definition to_big_endian :: "nat \<Rightarrow> nat \<Rightarrow> bytes" where
  "to_big_endian n v = map (\<lambda>i. of_nat (v div 256 ^ (n - 1 - i))) [0..<n]"

definition Ch :: "u32 \<Rightarrow> u32 \<Rightarrow> u32 \<Rightarrow> u32" where
  "Ch x y z = (x AND y) XOR (NOT x AND z)"

definition Parity :: "u32 \<Rightarrow> u32 \<Rightarrow> u32 \<Rightarrow> u32" where
  "Parity x y z = x XOR y XOR z"

definition Maj :: "u32 \<Rightarrow> u32 \<Rightarrow> u32 \<Rightarrow> u32" where
  "Maj x y z = (x AND y) XOR (x AND z) XOR (y AND z)"

definition std_f :: "nat \<Rightarrow> u32 \<Rightarrow> u32 \<Rightarrow> u32 \<Rightarrow> u32" where
  "std_f t = (if t \<in> {0..19} then Ch else if t \<in> {40..59} then Maj else Parity)"

definition std_K :: "nat \<Rightarrow> u32" where
  "std_K t = [0x5a827999, 0x6ed9eba1, 0x8f1bbcdc, 0xca62c1d6] ! (t div 20)"

fun std_W :: "bytes \<Rightarrow> nat \<Rightarrow> u32" where
  "std_W block t =
     (if t < 16 then of_nat (big_endian (take 4 (drop (4 * t) block)))
      else word_rotl 1 (std_W block (t - 3) XOR std_W block (t - 8)
                        XOR std_W block (t - 14) XOR std_W block (t - 16)))"

declare std_W.simps [simp del]

fun std_round :: "bytes \<Rightarrow> nat \<Rightarrow> regs \<Rightarrow> regs" where
  "std_round block t (a, b, c, d, e) =
     (word_rotl 5 a + std_f t b c d + e + std_K t + std_W block t, a, word_rotl 30 b, c, d)"

fun add_regs :: "regs \<Rightarrow> regs \<Rightarrow> regs" where
  "add_regs (a, b, c, d, e) (a', b', c', d', e') = (a + a', b + b', c + c', d + d', e + e')"

definition std_compress :: "regs \<Rightarrow> bytes \<Rightarrow> regs" where
  "std_compress r block = add_regs r (fold (std_round block) [0..<80] r)"

definition std_IV :: regs where
  "std_IV = (0x67452301, 0xefcdab89, 0x98badcfe, 0x10325476, 0xc3d2e1f0)"

text \<open>The whole 64-byte blocks of a message, and what is left after them.\<close>

fun blocks_of :: "bytes \<Rightarrow> bytes list" where
  "blocks_of m = (if length m < 64 then [] else take 64 m # blocks_of (drop 64 m))"

fun tail_of :: "bytes \<Rightarrow> bytes" where
  "tail_of m = (if length m < 64 then m else tail_of (drop 64 m))"

declare blocks_of.simps [simp del] tail_of.simps [simp del]

definition std_pad :: "bytes \<Rightarrow> bytes" where
  "std_pad m =
     m @ [0x80] @ replicate ((119 - length m mod 64) mod 64) 0 @ to_big_endian 8 (8 * length m)"

fun regs_bytes :: "regs \<Rightarrow> bytes" where
  "regs_bytes (a, b, c, d, e) = concat (map (\<lambda>w. to_big_endian 4 (unat w)) [a, b, c, d, e])"

definition std_sha1 :: "bytes \<Rightarrow> bytes" where
  "std_sha1 m = regs_bytes (foldl std_compress std_IV (blocks_of (std_pad m)))"

section \<open>The block routine is the standard's compression\<close>

lemma lrot_eq_rotl:
  assumes "0 < n" and "n < 32"
  shows "lrot x n = word_rotl n x"
proof (rule bit_word_eqI)
  fix i
  assume "i < LENGTH(32)"
  then have i: "i < 32" by simp
  have m: "(i + 32 - n) mod 32 = (if n \<le> i then i - n else i + 32 - n)"
  proof (cases "n \<le> i")
    case True
    then have "(i + 32 - n) mod 32 = ((i - n) + 32) mod 32" by simp
    also have "\<dots> = i - n" using i by (simp only: mod_add_self2) simp
    finally show ?thesis using True by simp
  next
    case False
    with assms i show ?thesis by simp
  qed
  have hi: "\<not> bit x (32 + j)" for j
    using bit_imp_le_length [of x "32 + j"] by auto
  have "bit (lrot x n) i \<longleftrightarrow> n \<le> i \<and> bit x (i - n) \<or> bit x (32 - n + i)"
    using i by (simp add: lrot_def bit_or_iff bit_push_bit_iff bit_drop_bit_eq)
  also have "\<dots> \<longleftrightarrow> bit x ((i + 32 - n) mod 32)"
  proof (cases "n \<le> i")
    case True
    with assms hi [of "i - n"] m show ?thesis by simp
  next
    case False
    with assms m show ?thesis by (simp add: add.commute)
  qed
  also have "\<dots> \<longleftrightarrow> bit (word_rotl n x) i"
    using i assms by (simp add: bit_word_rotl_iff)
  finally show "bit (lrot x n) i = bit (word_rotl n x) i" .
qed

lemma xor_all_ones: "(b :: u32) XOR 0xFFFFFFFF = NOT b"
proof -
  have "(0xFFFFFFFF :: u32) = NOT 0" by simp
  then show ?thesis by (simp only: bit.xor_one_right bit.compl_zero)
qed

lemma select_f_eq: "t < 80 \<Longrightarrow> select_f t b c d = std_f t b c d"
  by (auto simp: select_f_def std_f_def Ch_def Parity_def Maj_def xor_all_ones bit_simps
      intro!: bit_word_eqI)

lemma select_K_eq: "t < 80 \<Longrightarrow> select_K t = std_K t"
  by (auto simp: select_K_def std_K_def nth_Cons' div_less_iff_less_mult)

lemma take_4_drop:
  assumes "p + 3 < length b"
  shows "take 4 (drop p b) = [b ! p, b ! (p + 1), b ! (p + 2), b ! (p + 3)]"
  using assms by (auto intro!: nth_equalityI simp: nth_Cons' less_Suc_eq numeral_eq_Suc)

lemma uchar_to_uint_of_nat: "uchar_to_uint c = of_nat (unat c)"
  by (simp add: uchar_to_uint_def)

lemma of_nat_big_endian_4:
  "(of_nat (big_endian [w, x, y, z]) :: u32) =
     push_bit 24 (of_nat (unat w)) + push_bit 16 (of_nat (unat x)) + push_bit 8 (of_nat (unat y))
     + of_nat (unat z)"
  by (simp only: big_endian_def foldl.simps of_nat_add of_nat_mult push_bit_eq_mult) simp

lemma load_word_eq:
  assumes "length b = 64" and "t < 16"
  shows "load_word b t = of_nat (big_endian (take 4 (drop (4 * t) b)))"
proof -
  have "4 * t + 3 < length b" using assms by simp
  then show ?thesis
    unfolding load_word_def
    by (simp only: take_4_drop of_nat_big_endian_4 uchar_to_uint_of_nat mult.commute [of t 4])
qed

lemma expand_W_prefix:
  assumes "length b = 64" and "16 \<le> n"
  shows "fold expand_step [16..<n] (map (load_word b) [0..<16]) = map (std_W b) [0..<n]"
  using assms(2)
proof (induction n rule: dec_induct)
  case base
  show ?case by (simp add: std_W.simps load_word_eq assms(1))
next
  case (step n)
  then show ?case
    by (simp add: expand_step_def lrot_eq_rotl std_W.simps [of b n])
qed

lemma expand_W_eq: "length b = 64 \<Longrightarrow> expand_W b = map (std_W b) [0..<80]"
  unfolding expand_W_def by (rule expand_W_prefix) simp_all

lemma main_step_eq:
  assumes "length b = 64" and "t < 80"
  shows "main_step (expand_W b) t r = std_round b t r"
  using assms
  by (cases r) (simp add: main_step_def Let_def expand_W_eq lrot_eq_rotl select_f_eq select_K_eq
      algebra_simps)

lemma main_loop_eq:
  assumes "length b = 64"
  shows "main_loop (expand_W b) r = fold (std_round b) [0..<80] r"
  unfolding main_loop_def
  by (rule fold_cong) (auto simp: fun_eq_iff main_step_eq assms)

definition hash_regs :: "sha1 \<Rightarrow> regs" where
  "hash_regs s = (H0 s, H1 s, H2 s, H3 s, H4 s)"

lemma process_eq:
  assumes "length (bytes s) = 64" and "unprocessedBytes s = 64"
  shows "\<exists>s'. process s = Inr s' \<and> hash_regs s' = std_compress (hash_regs s) (bytes s)
    \<and> unprocessedBytes s' = 0 \<and> bytes s' = bytes s \<and> size_field s' = size_field s"
  using assms
  by (simp add: process_def main_loop_eq std_compress_def hash_regs_def split: prod.split)

section \<open>Blocks of a growing message\<close>

lemma blocks_short [simp]: "length m < 64 \<Longrightarrow> blocks_of m = []"
  by (simp add: blocks_of.simps)

lemma rest_short [simp]: "length m < 64 \<Longrightarrow> tail_of m = m"
  by (simp add: tail_of.simps)

lemma blocks_64 [simp]: "length m = 64 \<Longrightarrow> blocks_of m = [m]"
  by (simp add: blocks_of.simps)

lemma rest_64 [simp]: "length m = 64 \<Longrightarrow> tail_of m = []"
  by (simp add: tail_of.simps)

lemma length_rest_less: "length (tail_of m) < 64"
  by (induction m rule: tail_of.induct) (subst tail_of.simps, simp)

lemma length_tail_of: "length (tail_of m) = length m mod 64"
proof (induction m rule: tail_of.induct)
  case (1 m)
  show ?case
  proof (cases "length m < 64")
    case False
    with 1 have "length (tail_of m) = (length m - 64) mod 64"
      by (simp add: tail_of.simps [of m])
    with False show ?thesis by (simp add: le_mod_geq)
  qed simp
qed

lemma blocks_of_append: "blocks_of (m @ x) = blocks_of m @ blocks_of (tail_of m @ x)"
proof (induction m rule: tail_of.induct)
  case (1 m)
  show ?case
  proof (cases "length m < 64")
    case False
    with 1 show ?thesis
      by (simp add: blocks_of.simps [of m] blocks_of.simps [of "m @ x"] tail_of.simps [of m])
  qed simp
qed

lemma tail_of_append: "tail_of (m @ x) = tail_of (tail_of m @ x)"
proof (induction m rule: tail_of.induct)
  case (1 m)
  show ?case
  proof (cases "length m < 64")
    case False
    with 1 show ?thesis
      by (simp add: tail_of.simps [of m] tail_of.simps [of "m @ x"])
  qed simp
qed

section \<open>Streaming absorbs the message\<close>

definition buffered :: "sha1 \<Rightarrow> bytes \<Rightarrow> bool" where
  "buffered s m \<longleftrightarrow>
     length (bytes s) = 64 \<and> unprocessedBytes s = length (tail_of m)
     \<and> take (length (tail_of m)) (bytes s) = tail_of m
     \<and> hash_regs s = foldl std_compress std_IV (blocks_of m)"

definition absorbed :: "sha1 \<Rightarrow> bytes \<Rightarrow> bool" where
  "absorbed s m \<longleftrightarrow> buffered s m \<and> size_field s = of_nat (length m)"

lemma length_memcpy_at:
  "p + length src \<le> length buf \<Longrightarrow> length (memcpy_at buf p src) = length buf"
  by (simp add: memcpy_at_def)

lemma take_memcpy_at:
  "p + length src \<le> length buf \<Longrightarrow>
     take (p + length src) (memcpy_at buf p src) = take p buf @ src"
  by (simp add: memcpy_at_def)

lemma buffered_copy:
  assumes "buffered s m" and "length (tail_of m) + length src \<le> 64"
    and "s1 = s\<lparr>bytes := memcpy_at (bytes s) (unprocessedBytes s) src,
                 unprocessedBytes := unprocessedBytes s + length src\<rparr>"
  shows "\<exists>s2. (if unprocessedBytes s1 = 64 then process s1 else Inr s1) = Inr s2
           \<and> buffered s2 (m @ src) \<and> size_field s2 = size_field s"
proof -
  let ?n = "length (tail_of m) + length src"
  have b1: "length (bytes s1) = 64" "unprocessedBytes s1 = ?n"
      "take ?n (bytes s1) = tail_of m @ src" "hash_regs s1 = hash_regs s" "size_field s1 = size_field s"
    using assms by (simp_all add: buffered_def length_memcpy_at take_memcpy_at hash_regs_def)
  show ?thesis
  proof (cases "?n = 64")
    case True
    with b1 have bl: "bytes s1 = tail_of m @ src" by simp
    from process_eq [OF b1(1)] b1(2) True obtain s2 where
      "process s1 = Inr s2" "hash_regs s2 = std_compress (hash_regs s1) (bytes s1)"
      "unprocessedBytes s2 = 0" "bytes s2 = bytes s1" "size_field s2 = size_field s1"
      by auto
    with True b1 bl assms(1) show ?thesis
      by (auto simp: buffered_def blocks_of_append [of m] tail_of_append [of m])
  next
    case False
    with assms(2) have "?n < 64" by simp
    with False b1 assms(1) show ?thesis
      by (auto simp: buffered_def blocks_of_append [of m] tail_of_append [of m])
  qed
qed

lemma addBytes_loop_step:
  assumes "num \<noteq> 0" and "unprocessedBytes s < 64"
    and "k = (if num < 64 - unprocessedBytes s then num else 64 - unprocessedBytes s)"
    and "k \<le> length data"
    and "s1 = s\<lparr>bytes := memcpy_at (bytes s) (unprocessedBytes s) (take k data),
                 unprocessedBytes := unprocessedBytes s + k\<rparr>"
    and "(if unprocessedBytes s1 = 64 then process s1 else Inr s1) = Inr s2"
  shows "addBytes_loop s data num = addBytes_loop s2 (drop k data) (num - k)"
  using assms(1,2,4,6)
  unfolding addBytes_loop.simps [of s data num] Let_def assms(3) [symmetric] assms(5) [symmetric]
  by simp

lemma addBytes_loop_buffered:
  assumes "buffered s m" and "num \<le> length data"
  shows "\<exists>s'. addBytes_loop s data num = Inr s' \<and> buffered s' (m @ take num data)
           \<and> size_field s' = size_field s"
  using assms
proof (induction num arbitrary: s m data rule: less_induct)
  case (less num)
  show ?case
  proof (cases "num = 0")
    case True
    with less.prems show ?thesis by (simp add: addBytes_loop.simps)
  next
    case False
    define k where "k = (if num < 64 - unprocessedBytes s then num else 64 - unprocessedBytes s)"
    define s1 where "s1 = s\<lparr>bytes := memcpy_at (bytes s) (unprocessedBytes s) (take k data),
                 unprocessedBytes := unprocessedBytes s + k\<rparr>"
    have u: "unprocessedBytes s = length (tail_of m)"
      using less.prems by (simp add: buffered_def)
    have k: "0 < k" "k \<le> length data" "k \<le> num" "length (tail_of m) + k \<le> 64"
      using False less.prems u length_rest_less [of m] by (auto simp: k_def)
    obtain s2 where
      s2: "(if unprocessedBytes s1 = 64 then process s1 else Inr s1) = Inr s2"
        "buffered s2 (m @ take k data)" "size_field s2 = size_field s"
      using buffered_copy [OF less.prems(1), of "take k data" s1] k by (auto simp: s1_def)
    have step: "addBytes_loop s data num = addBytes_loop s2 (drop k data) (num - k)"
      using u length_rest_less [of m] addBytes_loop_step [OF False _ k_def k(2) s1_def s2(1)] by simp
    obtain s' where "addBytes_loop s2 (drop k data) (num - k) = Inr s'"
      "buffered s' ((m @ take k data) @ take (num - k) (drop k data))"
      "size_field s' = size_field s2"
      using less.IH [of "num - k" s2 "m @ take k data" "drop k data"] k s2(2) False
        diff_le_mono [OF less.prems(2), of k]
      by auto
    moreover have "take k data @ take (num - k) (drop k data) = take num data"
      using k(3) by (metis le_add_diff_inverse take_add)
    ultimately show ?thesis using s2(3) step by simp
  qed
qed

lemma addBytes_absorbed:
  assumes "absorbed s m" and "0 < n" and "n \<le> length data"
  shows "\<exists>s'. addBytes s data (int n) = Inr s' \<and> absorbed s' (m @ take n data)"
proof -
  let ?s = "s\<lparr>size_field := size_field s + of_int (int n)\<rparr>"
  have "buffered ?s m"
    using assms(1) by (simp add: absorbed_def buffered_def hash_regs_def)
  from addBytes_loop_buffered [OF this assms(3)] obtain s' where
    "addBytes_loop ?s data n = Inr s'" "buffered s' (m @ take n data)"
    "size_field s' = size_field ?s"
    by blast
  with assms show ?thesis
    by (auto simp: addBytes_def absorbed_def)
qed

lemma addBytes_nothing: "n \<le> 0 \<Longrightarrow> addBytes s data n = Inl AssertionFailure"
  by (simp add: addBytes_def assert_that_def)

lemma absorbed_new: "length b = 64 \<Longrightarrow> absorbed (new_SHA1 b) []"
  by (simp add: absorbed_def buffered_def new_SHA1_def hash_regs_def std_IV_def)

section \<open>The digest is the hash\<close>

lemma to_big_endian_4:
  "to_big_endian 4 v = [of_nat (v div 2 ^ 24), of_nat (v div 2 ^ 16), of_nat (v div 2 ^ 8), of_nat v]"
  by (simp add: to_big_endian_def upt_rec)

lemma unat_drop_bit: "unat (drop_bit n w) = unat (w :: u32) div 2 ^ n"
  by (simp only: unat_drop_bit_eq) (simp only: drop_bit_eq_div)

lemma uint_to_char_drop: "uint_to_char (drop_bit n w) = of_nat (unat w div 2 ^ n)"
  by (simp only: uint_to_char_def unat_drop_bit [symmetric] word_of_nat_eq_iff
      unsigned_of_nat) simp

lemma update_4:
  "(xs @ [a, b, c, d] @ ys)[length xs := e, length xs + 1 := f, length xs + 2 := g,
     length xs + 3 := h] = xs @ [e, f, g, h] @ ys"
  by (simp add: list_update_append numeral_eq_Suc)

lemma storeBigEndian_eq:
  assumes "p + 4 \<le> length buf"
  shows "storeBigEndianUint32 buf p w = take p buf @ to_big_endian 4 (unat w) @ drop (p + 4) buf"
proof -
  obtain a b c d where "take 4 (drop p buf) = [a, b, c, d]"
    using take_4_drop [of p buf] assms by simp
  then have buf: "buf = take p buf @ [a, b, c, d] @ drop (p + 4) buf"
    by (metis append_take_drop_id drop_drop add.commute)
  have p: "length (take p buf) = p" using assms by simp
  have "uint_to_char w = of_nat (unat w)"
    using uint_to_char_drop [of 0 w] by simp
  then show ?thesis
    using update_4 [of "take p buf" a b c d "drop (p + 4) buf"]
    unfolding storeBigEndianUint32_def to_big_endian_4 uint_to_char_drop p buf [symmetric]
    by simp
qed

lemma length_to_big_endian [simp]: "length (to_big_endian n v) = n"
  by (simp add: to_big_endian_def)

lemma digest_words:
  "storeBigEndianUint32 (storeBigEndianUint32 (storeBigEndianUint32 (storeBigEndianUint32
     (storeBigEndianUint32 (replicate 20 0) 0 a) 4 b) 8 c) 12 d) 16 e = regs_bytes (a, b, c, d, e)"
  by (simp add: storeBigEndian_eq)

lemma footer_words:
  assumes "z \<le> 56"
  shows "take (z + 8) (storeBigEndianUint32 (storeBigEndianUint32 (replicate 64 0) z h) (z + 4) l)
    = replicate z 0 @ to_big_endian 4 (unat h) @ to_big_endian 4 (unat l)"
  using assms by (simp add: storeBigEndian_eq min_def)

lemma byte_of_low_word:
  assumes "k \<le> 24"
  shows "(of_nat (x mod 2 ^ 32 div 2 ^ k) :: byte) = of_nat (x div 2 ^ k)"
proof -
  have "x mod 2 ^ 32 div 2 ^ k = take_bit (32 - k) (drop_bit k x)"
    by (simp only: drop_bit_take_bit flip: drop_bit_eq_div take_bit_eq_mod)
  then show ?thesis
    using assms by (simp add: word_of_nat_eq_iff drop_bit_eq_div)
qed

lemma length_field:
  assumes "n < 2 ^ 32"
  shows "to_big_endian 4 (unat (drop_bit 29 (of_nat n :: u32)))
       @ to_big_endian 4 (unat (push_bit 3 (of_nat n :: u32))) = to_big_endian 8 (8 * n)"
proof -
  have n: "unat (of_nat n :: u32) = n"
    using assms by (simp add: unat_of_nat)
  have h: "unat (drop_bit 29 (of_nat n :: u32)) = 8 * n div 2 ^ 32"
    by (simp only: unat_drop_bit n) simp
  have l: "unat (push_bit 3 (of_nat n :: u32)) = 8 * n mod 2 ^ 32"
    by (simp add: push_bit_eq_mult unat_word_ariths unat_of_nat mult.commute mod_mult_right_eq)
  show ?thesis
    unfolding h l to_big_endian_4 byte_of_low_word [OF order.refl]
    using byte_of_low_word [of 0 "8 * n"] byte_of_low_word [of 8 "8 * n"]
      byte_of_low_word [of 16 "8 * n"]
    by (simp add: to_big_endian_def upt_rec div_mult2_eq [symmetric])
qed

text \<open>
  Padding: the 0x80 byte, zeros up to 56 modulo 64 (a whole block more when the buffer
  holds over 56 bytes), and the 64-bit length.
\<close>

lemma padding_zeros:
  assumes "r = Suc n mod 64"
  shows "56 < r \<Longrightarrow> (64 - r) + 56 = (119 - n mod 64) mod (64::nat)"
    and "r \<le> 56 \<Longrightarrow> 56 - r = (119 - n mod 64) mod 64"
proof -
  define t where "t = n mod 64"
  have t: "t < 64" by (simp add: t_def)
  have r: "r = (if t = 63 then 0 else Suc t)"
    by (simp add: assms t_def mod_Suc)
  show "(64 - r) + 56 = (119 - n mod 64) mod 64" if "56 < r"
  proof -
    have "119 - t < 64" "(64 - r) + 56 = 119 - t" using that r t by (auto split: if_splits)
    then show ?thesis unfolding t_def [symmetric] by simp
  qed
  show "56 - r = (119 - n mod 64) mod 64" if "r \<le> 56"
  proof (cases "t = 63")
    case True
    then show ?thesis using r unfolding t_def [symmetric] by simp
  next
    case False
    then have "(119 - t) mod 64 = (119 - t - 64) mod 64" "119 - t - 64 = 56 - r" "56 - r < 64"
      using that r t by (auto simp: le_mod_geq)
    then show ?thesis unfolding t_def [symmetric] by simp
  qed
qed

lemma getDigest_last:
  assumes "absorbed s m" and "unprocessedBytes s \<le> 56"
    and "z = 56 - unprocessedBytes s"
    and "footer = storeBigEndianUint32 (storeBigEndianUint32 (replicate 64 0) z h) (z + 4) l"
  shows "\<exists>s'. addBytes s footer (int z + 8) = Inr s'
    \<and> absorbed s' (m @ replicate z 0 @ to_big_endian 4 (unat h) @ to_big_endian 4 (unat l))"
proof -
  have z: "z \<le> 56" using assms by simp
  have "length footer = 64"
    by (simp add: assms(4) storeBigEndianUint32_def)
  with addBytes_absorbed [OF assms(1), of "z + 8" footer] z obtain s' where
    "addBytes s footer (int (z + 8)) = Inr s'" "absorbed s' (m @ take (z + 8) footer)"
    by auto
  moreover have "take (z + 8) footer
      = replicate z 0 @ to_big_endian 4 (unat h) @ to_big_endian 4 (unat l)"
    unfolding assms(4) by (rule footer_words [OF z])
  ultimately show ?thesis by (auto simp: algebra_simps)
qed

lemma absorbed_rest: "absorbed s m \<Longrightarrow> unprocessedBytes s = length m mod 64"
  by (simp add: absorbed_def buffered_def length_tail_of)

lemma getDigest_absorbed:
  assumes "absorbed s m" and "length m < 2 ^ 32"
  shows "\<exists>s'. getDigest s = Inr (std_sha1 m, s')"
proof -
  let ?h = "drop_bit 29 (size_field s)" and ?l = "push_bit 3 (size_field s)"
  let ?fill = "\<lambda>s1. if unprocessedBytes s1 > 56
      then addBytes s1 (replicate 64 0) (64 - int (unprocessedBytes s1)) else Inr s1"
  obtain s1 where s1: "addBytes s [0x80] 1 = Inr s1" "absorbed s1 (m @ [0x80])"
    using addBytes_absorbed [OF assms(1), of 1 "[0x80]"] by auto
  define r where "r = Suc (length m) mod 64"
  have r: "unprocessedBytes s1 = r" "r < 64"
    using absorbed_rest [OF s1(2)] by (simp_all add: r_def)
  obtain s2 k where s2: "?fill s1 = Inr s2" "absorbed s2 (m @ [0x80] @ replicate k 0)"
      "unprocessedBytes s2 \<le> 56" "k + (56 - unprocessedBytes s2) = (119 - length m mod 64) mod 64"
  proof (cases "56 < r")
    case True
    have "0 < 64 - r" using r by simp
    with addBytes_absorbed [OF s1(2) this, of "replicate 64 0"] obtain s2 where
      *: "addBytes s1 (replicate 64 0) (int (64 - r)) = Inr s2"
        "absorbed s2 (m @ [0x80] @ replicate (64 - r) 0)"
      by (auto simp: min_def)
    moreover have "unprocessedBytes s2 = 0"
      using absorbed_rest [OF *(2)] True r unfolding r_def
      by (metis add_Suc_right append.assoc append_Nil2 le_add_diff_inverse length_append
          length_replicate less_imp_le mod_add_left_eq mod_self list.size(3,4) add.commute
          plus_1_eq_Suc add_0)
    ultimately show thesis
      using that [of s2 "64 - r"] True r padding_zeros(1) [OF r_def] by (simp add: of_nat_diff)
  next
    case False
    with that [of s1 0] s1 r padding_zeros(2) [OF r_def] show thesis by simp
  qed
  obtain s3 where s3: "addBytes s2 (storeBigEndianUint32 (storeBigEndianUint32 (replicate 64 0)
        (56 - unprocessedBytes s2) ?h) (56 - unprocessedBytes s2 + 4) ?l)
        (int (56 - unprocessedBytes s2) + 8) = Inr s3"
      "absorbed s3 ((m @ [0x80] @ replicate k 0) @ replicate (56 - unprocessedBytes s2) 0
        @ to_big_endian 4 (unat ?h) @ to_big_endian 4 (unat ?l))"
    using getDigest_last [OF s2(2,3) refl refl] by blast
  have "size_field s = of_nat (length m)"
    using assms(1) by (simp add: absorbed_def)
  then have len: "to_big_endian 4 (unat ?h) @ to_big_endian 4 (unat ?l)
      = to_big_endian 8 (8 * length m)"
    using length_field [OF assms(2)] by simp
  have "replicate k 0 @ replicate (56 - unprocessedBytes s2) (0 :: byte)
      = replicate ((119 - length m mod 64) mod 64) 0"
    unfolding s2(4) [symmetric] by (rule replicate_add [symmetric])
  then have "(m @ [0x80] @ replicate k 0) @ replicate (56 - unprocessedBytes s2) 0
      @ to_big_endian 8 (8 * length m) = std_pad m"
    unfolding std_pad_def by (metis append_assoc)
  then have "absorbed s3 (std_pad m)"
    using s3(2) len by simp
  then have "hash_regs s3 = foldl std_compress std_IV (blocks_of (std_pad m))"
    by (simp add: absorbed_def buffered_def)
  then have "regs_bytes (H0 s3, H1 s3, H2 s3, H3 s3, H4 s3) = std_sha1 m"
    by (simp add: hash_regs_def std_sha1_def)
  then show ?thesis
    using s1(1) s2(1,3) s3(1) by (simp add: getDigest_def Let_def digest_words)
qed

lemma length_std_sha1: "length (std_sha1 m) = 20"
proof -
  obtain a b c d e where "foldl std_compress std_IV (blocks_of (std_pad m)) = (a, b, c, d, e)"
    by (metis prod_cases5)
  then show ?thesis by (simp add: std_sha1_def)
qed

section \<open>The interface the identifiers rely on\<close>

locale hasher =
  fixes fresh :: "'i \<Rightarrow> 's"
    and usable :: "'i \<Rightarrow> bool"
    and add :: "'s \<Rightarrow> bytes \<Rightarrow> int \<Rightarrow> 's result"
    and digest :: "'s \<Rightarrow> (bytes \<times> 's) result"
    and holds :: "'s \<Rightarrow> bytes \<Rightarrow> bool"
    and hash :: "bytes \<Rightarrow> bytes"
  assumes fresh_holds: "usable i \<Longrightarrow> holds (fresh i) []"
    and add_holds: "holds s m \<Longrightarrow> 0 < n \<Longrightarrow> n \<le> length d \<Longrightarrow>
          \<exists>s'. add s d (int n) = Inr s' \<and> holds s' (m @ take n d)"
    and add_nothing: "k \<le> 0 \<Longrightarrow> add s d k = Inl AssertionFailure"
    and digest_hash: "holds s m \<Longrightarrow> length m < 2 ^ 32 \<Longrightarrow> \<exists>s'. digest s = Inr (hash m, s')"
    and length_hash: "length (hash m) = 20"
begin

lemma add_whole:
  assumes "holds s m" and "d \<noteq> []"
  shows "\<exists>s'. add s d (int (length d)) = Inr s' \<and> holds s' (m @ d)"
  using add_holds [OF assms(1), of "length d" d] assms(2) by simp

lemma add_pieces:
  assumes "holds s m" and "\<forall>d \<in> set ds. d \<noteq> []"
  shows "\<exists>s'. foldl (\<lambda>r d. bind_result r (\<lambda>s. add s d (int (length d)))) (Inr s) ds = Inr s'
           \<and> holds s' (m @ concat ds)"
  using assms
proof (induction ds arbitrary: s m)
  case (Cons d ds)
  then obtain s1 where s1: "add s d (int (length d)) = Inr s1" "holds s1 (m @ d)"
    using add_whole [of s m d] by auto
  from Cons.prems(2) have "\<forall>d \<in> set ds. d \<noteq> []" by simp
  from Cons.IH [OF s1(2) this] s1(1) show ?case by simp
qed simp

lemma digest_pieces:
  assumes "usable i" and "\<forall>d \<in> set ds. d \<noteq> []" and "length (concat ds) < 2 ^ 32"
  shows "\<exists>s'. bind_result
      (foldl (\<lambda>r d. bind_result r (\<lambda>s. add s d (int (length d)))) (Inr (fresh i)) ds) digest
    = Inr (hash (concat ds), s')"
  using add_pieces [OF fresh_holds [OF assms(1)] assms(2)] digest_hash [OF _ assms(3)] by auto

end

interpretation sha1_hasher: hasher new_SHA1 "\<lambda>b. length b = 64" addBytes getDigest absorbed std_sha1
  by unfold_locales
     (auto simp: absorbed_new addBytes_nothing length_std_sha1 intro: addBytes_absorbed getDigest_absorbed)

section \<open>Properties\<close>

text \<open>
  C6. The digest of a message is the standard's SHA-1 of it, however the message is cut into
  the pieces given to \<open>addBytes\<close>, and whatever the buffer held when the object was created.
\<close>

theorem sha1_of_pieces:
  assumes "length b = 64" and "\<forall>d \<in> set ds. d \<noteq> [] \<and> length d < 2 ^ 31"
    and "length (concat ds) < 2 ^ 32"
  shows "\<exists>s. bind_result
      (foldl (\<lambda>r d. bind_result r (\<lambda>s. addBytes s d (int (length d)))) (Inr (new_SHA1 b)) ds) getDigest
    = Inr (std_sha1 (concat ds), s)"
  using assms by (intro sha1_hasher.digest_pieces) auto

theorem sha1_of_pieces_witness:
  "\<exists>s. bind_result
      (foldl (\<lambda>r d. bind_result r (\<lambda>s. addBytes s d (int (length d))))
        (Inr (new_SHA1 (replicate 64 7))) [[97], [98, 99]]) getDigest
    = Inr (std_sha1 [97, 98, 99], s)"
  using sha1_of_pieces [of "replicate 64 7" "[[97], [98, 99]]"] by simp

text \<open>
  On a full buffer \<open>process\<close> is one application of the standard's compression function to
  the five hash words, and empties the buffer; on any other buffer its assertion fails.
\<close>

lemma process_compresses:
  assumes "length (bytes s) = 64"
  shows "if unprocessedBytes s = 64
    then \<exists>s'. process s = Inr s' \<and> hash_regs s' = std_compress (hash_regs s) (bytes s)
      \<and> unprocessedBytes s' = 0 \<and> size_field s' = size_field s
    else process s = Inl AssertionFailure"
  using assms process_eq [of s] by (auto simp: process_def)

lemma process_compresses_witness:
  "process (new_SHA1 (replicate 64 1)) = Inl AssertionFailure
   \<and> (\<exists>s'. process ((new_SHA1 (replicate 64 1))\<lparr>unprocessedBytes := 64\<rparr>) = Inr s'
      \<and> unprocessedBytes s' = 0)"
  using process_compresses [of "new_SHA1 (replicate 64 1)"]
    process_compresses [of "(new_SHA1 (replicate 64 1))\<lparr>unprocessedBytes := 64\<rparr>"]
  by (auto simp: new_SHA1_def)

end
