(* ===== verification/Chord_ID.thy ===== *)
theory Chord_ID
  imports Sha1_Spec
begin

text \<open>
  The class \<open>ID\<close> of \<open>src/ID.h\<close> and \<open>src/ID.cpp\<close>: a fixed array of \<open>ID_LEN\<close> = 20 chars, its
  constructors (from raw bytes, from a string and from a host and port, the last two by
  SHA-1), the access, comparison and arithmetic operators, the interval test and the
  hexadecimal printer. The loops run over the indices as in the source; \<open>char\<close> is signed.
\<close>

section \<open>The object and its constructors\<close>

abbreviation ID_LEN :: nat where "ID_LEN \<equiv> 20"

abbreviation M :: nat where "M \<equiv> 160"

typedef ID = "{bs :: bytes. length bs = ID_LEN}"
  morphisms c_str of_bytes
  by (rule exI [of _ "replicate ID_LEN 0"]) simp

setup_lifting type_definition_ID

lemma length_c_str [simp]: "length (c_str x) = ID_LEN"
  using c_str [of x] by simp

lemma c_str_of_bytes [simp]: "length bs = ID_LEN \<Longrightarrow> c_str (of_bytes bs) = bs"
  by (simp add: of_bytes_inverse)

lemma of_bytes_c_str [simp]: "of_bytes (c_str x) = x"
  by (rule c_str_inverse)

lemma ID_eq_iff: "x = y \<longleftrightarrow> c_str x = c_str y"
  by (simp add: c_str_inject)

text \<open>The default constructor; \<open>_id\<close> is initialised with zeros.\<close>

definition default_ID :: ID where
  "default_ID = of_bytes (replicate ID_LEN 0)"

text \<open>\<open>ID(const char *)\<close> reads 20 bytes from the pointer, whatever the pointer points to.\<close>

definition chars_ID :: "bytes \<Rightarrow> ID result" where
  "chars_ID memory =
     (if length memory < ID_LEN then Inl (UndefinedBehaviour ReadPastEnd)
      else Inr (of_bytes (map (\<lambda>i. memory ! i) [0..<ID_LEN])))"

definition copy_ID :: "ID \<Rightarrow> ID" where
  "copy_ID other = of_bytes (map (\<lambda>i. c_str other ! i) [0..<ID_LEN])"

definition port_bytes :: "u32 \<Rightarrow> bytes" where
  "port_bytes port =
     [uint_to_char port, uint_to_char (drop_bit 8 port), uint_to_char (drop_bit 16 port),
      uint_to_char (drop_bit 24 port)]"

text \<open>A string's \<open>c_str()\<close> points to its characters and a NUL.\<close>

definition host_port_ID :: "bytes \<Rightarrow> bytes \<Rightarrow> u32 \<Rightarrow> ID result" where
  "host_port_ID indeterminate host port =
     bind_result (addBytes (new_SHA1 indeterminate) (host @ [0]) (size_to_int (length host))) (\<lambda>s1.
     bind_result (addBytes s1 (port_bytes port) 4) (\<lambda>s2.
     bind_result (getDigest s2) (\<lambda>(digest, s3). chars_ID digest)))"

definition string_ID :: "bytes \<Rightarrow> bytes \<Rightarrow> ID result" where
  "string_ID indeterminate str =
     bind_result (addBytes (new_SHA1 indeterminate) (str @ [0]) (size_to_int (length str))) (\<lambda>s1.
     bind_result (getDigest s1) (\<lambda>(digest, s2). chars_ID digest))"

section \<open>Access\<close>

definition index_ID :: "ID \<Rightarrow> int \<Rightarrow> byte result" where
  "index_ID x i =
     (if i < 0 \<or> i \<ge> int ID_LEN
      then throw_literal_plus ''ID::operator[] - index out of bounds: '' i
      else Inr (c_str x ! nat i))"

text \<open>The other \<open>operator[]\<close> returns a reference: an assignment through it updates the array.\<close>

definition assign_index_ID :: "ID \<Rightarrow> int \<Rightarrow> byte \<Rightarrow> ID result" where
  "assign_index_ID x i c =
     (if i < 0 \<or> i \<ge> int ID_LEN
      then throw_literal_plus ''ID::operator[] - index out of bounds: '' i
      else Inr (of_bytes ((c_str x)[nat i := c])))"

section \<open>Comparison\<close>

fun eq_loop :: "bytes \<Rightarrow> bytes \<Rightarrow> bool" where
  "eq_loop (x # xs) (y # ys) = (if char_to_int x \<noteq> char_to_int y then False else eq_loop xs ys)"
| "eq_loop _ _ = True"

fun less_loop :: "bytes \<Rightarrow> bytes \<Rightarrow> bool" where
  "less_loop (x # xs) (y # ys) =
     (if char_to_int x < char_to_int y then True
      else if char_to_int x > char_to_int y then False
      else less_loop xs ys)"
| "less_loop _ _ = False"

definition eq_ID :: "ID \<Rightarrow> ID \<Rightarrow> bool" where
  "eq_ID lhs rhs = eq_loop (c_str lhs) (c_str rhs)"

definition neq_ID :: "ID \<Rightarrow> ID \<Rightarrow> bool" where
  "neq_ID lhs rhs = (\<not> eq_ID lhs rhs)"

definition less_ID_op :: "ID \<Rightarrow> ID \<Rightarrow> bool" where
  "less_ID_op lhs rhs = less_loop (c_str lhs) (c_str rhs)"

definition greater_ID_op :: "ID \<Rightarrow> ID \<Rightarrow> bool" where
  "greater_ID_op lhs rhs = less_ID_op rhs lhs"

definition le_ID_op :: "ID \<Rightarrow> ID \<Rightarrow> bool" where
  "le_ID_op lhs rhs = (\<not> greater_ID_op lhs rhs)"

definition ge_ID_op :: "ID \<Rightarrow> ID \<Rightarrow> bool" where
  "ge_ID_op lhs rhs = (\<not> less_ID_op lhs rhs)"

definition isInInterval :: "ID \<Rightarrow> ID \<Rightarrow> ID \<Rightarrow> bool" where
  "isInInterval this lower upper =
     (if less_ID_op lower upper then greater_ID_op this lower \<and> less_ID_op this upper
      else if greater_ID_op lower upper then greater_ID_op this lower \<or> less_ID_op this upper
      else True)"

section \<open>Arithmetic\<close>

definition add_step :: "bytes \<Rightarrow> nat \<Rightarrow> bytes \<times> byte \<Rightarrow> bytes \<times> byte" where
  "add_step other i = (\<lambda>(this, overflow).
     let val = char_to_uint (this ! i) + char_to_uint (other ! i) + char_to_uint overflow
     in (this[i := uint_to_char val], uint_to_char (drop_bit 8 val) AND 0x01))"

definition add_assign_ID :: "ID \<Rightarrow> ID \<Rightarrow> ID" where
  "add_assign_ID this other =
     of_bytes (fst (fold (add_step (c_str other)) (rev [0..<ID_LEN]) (c_str this, 0x00)))"

definition plus_ID :: "ID \<Rightarrow> ID \<Rightarrow> ID" where
  "plus_ID this rhs = add_assign_ID (copy_ID this) rhs"

definition sub_step :: "bytes \<Rightarrow> nat \<Rightarrow> bytes \<times> byte \<Rightarrow> bytes \<times> byte" where
  "sub_step other i = (\<lambda>(this, overflow).
     let val = char_to_uint (this ! i) + (char_to_uint (other ! i) XOR 0xff) + char_to_uint overflow;
         val = (if i = 0 then val + 1 else val)
     in (this[i := uint_to_char val], uint_to_char (drop_bit 8 val) AND 0x01))"

definition sub_assign_ID :: "ID \<Rightarrow> ID \<Rightarrow> ID" where
  "sub_assign_ID this other =
     of_bytes (fst (fold (sub_step (c_str other)) [0..<ID_LEN] (c_str this, 0x00)))"

definition minus_ID :: "ID \<Rightarrow> ID \<Rightarrow> ID" where
  "minus_ID this rhs = sub_assign_ID (copy_ID this) rhs"

section \<open>Printing\<close>

definition hex_digit :: "nat \<Rightarrow> byte" where
  "hex_digit d = (if d < 10 then of_nat (48 + d) else of_nat (87 + d))"

fun hex_number :: "nat \<Rightarrow> bytes" where
  "hex_number n = (if n < 16 then [hex_digit n] else hex_number (n div 16) @ [hex_digit (n mod 16)])"

declare hex_number.simps [simp del]

text \<open>\<open>std::setw(2)\<close> with \<open>std::setfill('0')\<close>: a minimum width, filled on the left.\<close>

definition setw_2 :: "bytes \<Rightarrow> bytes" where
  "setw_2 s = replicate (2 - length s) 48 @ s"

definition char_hex :: "byte \<Rightarrow> bytes" where
  "char_hex c = setw_2 (hex_number (unat (char_to_uint c)))"

definition toHexString :: "ID \<Rightarrow> bytes" where
  "toHexString this = concat (map char_hex (c_str this))"

end
