(* ===== verification/ID_Order.thy ===== *)
theory ID_Order
  imports Chord_ID
begin

text \<open>
  The order of the identifiers and the interval test. The comparison operators compare
  signed chars from the most significant byte on; that is the numeric order of the bytes
  with their top bits flipped (\<open>ring_key\<close>), a linear order, so \<open>ID\<close> is made an instance of
  \<open>linorder\<close> with the program's own operators. \<open>isInInterval\<close> is membership in an open arc of
  the circle this order closes to; the locale \<open>circle\<close> states the laws of arcs and distances
  the routing code relies on, and \<open>id_circle\<close> interprets it on \<open>isInInterval\<close>.
\<close>

section \<open>The order\<close>

definition ring_key :: "ID \<Rightarrow> nat" where
  "ring_key x = big_endian (map (\<lambda>c. c + 0x80) (c_str x))"

lemma unat_add_128: "int (unat ((c :: byte) + 0x80)) = char_to_int c + 128"
proof -
  define n where "n = unat c"
  have n: "n < 256" by (simp add: n_def)
  have u: "unat (c + 0x80) = (n + 128) mod 256"
    by (simp add: unat_word_ariths n_def)
  have s: "char_to_int c = (if n < 128 then int n else int n - 256)"
    unfolding char_to_int_def n_def by (rule sint_byte_eq)
  show ?thesis
  proof (cases "n < 128")
    case True
    then show ?thesis unfolding u s by simp
  next
    case False
    then have "(n + 128) mod 256 = n - 128" using n by (simp add: le_mod_geq)
    with False show ?thesis unfolding u s by simp
  qed
qed

lemma char_less_iff: "char_to_int x < char_to_int y \<longleftrightarrow> unat (x + 0x80) < unat (y + 0x80)"
  using unat_add_128 [of x] unat_add_128 [of y] by linarith

lemma char_eq_iff: "char_to_int x = char_to_int y \<longleftrightarrow> x = y"
  using unat_add_128 [of x] unat_add_128 [of y]
  by (metis add_right_cancel of_nat_eq_iff word_unat_eq_iff)

lemma less_loop_key:
  "length xs = length ys \<Longrightarrow> less_loop xs ys \<longleftrightarrow>
     big_endian (map (\<lambda>c. c + 0x80) xs) < big_endian (map (\<lambda>c. c + 0x80) ys)"
proof (induction xs ys rule: list_induct2)
  case (Cons x xs y ys)
  have "unat (x + 0x80) = unat (y + 0x80) \<longleftrightarrow> x = y"
    by (simp flip: word_unat_eq_iff)
  with Cons show ?case
    unfolding list.map
    by (subst big_endian_Cons_less_iff) (auto simp: char_less_iff)
qed simp

lemma less_ID_op_key: "less_ID_op x y \<longleftrightarrow> ring_key x < ring_key y"
  by (simp add: less_ID_op_def ring_key_def less_loop_key)

lemma ring_key_inj: "ring_key x = ring_key y \<longleftrightarrow> x = y"
proof
  assume "ring_key x = ring_key y"
  then have "map (\<lambda>c. c + 0x80) (c_str x) = map (\<lambda>c. c + 0x80) (c_str y)"
    unfolding ring_key_def by (rule big_endian_inj [rotated]) simp
  then have "c_str x = c_str y" by (simp add: inj_map_eq_map inj_def)
  then show "x = y" by (simp add: ID_eq_iff)
qed simp

lemma ring_key_less: "ring_key x < 2 ^ M"
  using big_endian_less [of "map (\<lambda>c. c + 0x80) (c_str x)"] by (simp add: ring_key_def)

lemma eq_loop_iff: "length xs = length ys \<Longrightarrow> eq_loop xs ys \<longleftrightarrow> xs = ys"
  by (induction xs ys rule: list_induct2) (auto simp: char_eq_iff)

lemma eq_ID_iff [simp]: "eq_ID x y \<longleftrightarrow> x = y"
  by (simp add: eq_ID_def eq_loop_iff ID_eq_iff)

lemma neq_ID_iff [simp]: "neq_ID x y \<longleftrightarrow> x \<noteq> y"
  by (simp add: neq_ID_def)

instantiation ID :: equal
begin
definition "equal_ID x y = eq_ID x y"
instance by standard (simp add: equal_ID_def)
end

instantiation ID :: linorder
begin
definition "less_eq_ID x y = le_ID_op x y"
definition "less_ID x y = less_ID_op x y"
instance
  by standard
    (auto simp: less_eq_ID_def less_ID_def le_ID_op_def greater_ID_op_def less_ID_op_key
      ring_key_inj)
end

text \<open>From here on the program's operators are the class's.\<close>

lemma ID_ops [simp]:
  "less_ID_op x y \<longleftrightarrow> x < y"
  "greater_ID_op x y \<longleftrightarrow> y < x"
  "le_ID_op x y \<longleftrightarrow> x \<le> y"
  "ge_ID_op x y \<longleftrightarrow> y \<le> x"
  by (auto simp: less_ID_def less_eq_ID_def greater_ID_op_def ge_ID_op_def le_ID_op_def
      less_ID_op_key)

lemma less_ID_key: "x < y \<longleftrightarrow> ring_key x < ring_key y"
  by (simp add: less_ID_def less_ID_op_key del: ID_ops)

lemma isInInterval_iff:
  "isInInterval x lower upper \<longleftrightarrow>
     lower < upper \<and> lower < x \<and> x < upper \<or> upper < lower \<and> (lower < x \<or> x < upper)
     \<or> lower = upper"
  by (auto simp: isInInterval_def)

section \<open>Arcs of a circle\<close>

text \<open>
  What the routing relies on: a distance once around the circle, and an interval test that
  is membership in the open arc (the whole circle when the ends agree).
\<close>

locale circle =
  fixes dist :: "'a \<Rightarrow> 'a \<Rightarrow> nat"
    and between :: "'a \<Rightarrow> 'a \<Rightarrow> 'a \<Rightarrow> bool"
  assumes dist_zero: "dist a b = 0 \<longleftrightarrow> a = b"
    and between_dist: "a \<noteq> b \<Longrightarrow> between x a b \<longleftrightarrow> 0 < dist a x \<and> dist a x < dist a b"
    and between_same: "between x a a"
    and dist_split: "dist a x \<le> dist a b \<Longrightarrow> dist a b = dist a x + dist x b"
begin

lemma not_between_ends:
  assumes "a \<noteq> b"
  shows "\<not> between a a b" and "\<not> between b a b"
  using assms dist_zero [of a a] by (simp_all add: between_dist)

lemma between_progress:
  assumes "a \<noteq> b" and "between x a b"
  shows "dist x b < dist a b" and "x \<noteq> a" and "x \<noteq> b"
proof -
  from assms have "0 < dist a x" "dist a x < dist a b" by (simp_all add: between_dist)
  with dist_split [of a x b] show "dist x b < dist a b" by simp
  show "x \<noteq> a" "x \<noteq> b" using assms not_between_ends [of a b] by auto
qed

lemma between_cases:
  assumes "a \<noteq> s" and "a \<noteq> x"
  shows "between x a s \<or> x = s \<or> between s a x"
proof -
  have "0 < dist a x" "0 < dist a s" using assms by (simp_all add: dist_zero neq0_conv [symmetric])
  moreover have "dist a x = dist a s \<Longrightarrow> x = s"
    using dist_split [of a x s] dist_zero [of x s] by simp
  ultimately show ?thesis
    using assms by (cases "dist a x" "dist a s" rule: linorder_cases) (auto simp: between_dist)
qed

lemma between_shrink:
  assumes "a \<noteq> b" and "between x a b" and "between y a x"
  shows "between y a b"
proof -
  have "a \<noteq> x" using between_progress [OF assms(1,2)] by auto
  with assms show ?thesis by (auto simp: between_dist)
qed

lemma between_rest:
  assumes "a \<noteq> b" and "between x a b" and "between y x b"
  shows "between y a b"
proof -
  have x: "0 < dist a x" "dist a x < dist a b" "x \<noteq> b"
    using assms between_progress [OF assms(1,2)] by (auto simp: between_dist)
  have y: "0 < dist x y" "dist x y < dist x b" using assms(3) x(3) by (auto simp: between_dist)
  have ab: "dist a b = dist a x + dist x b" using dist_split [of a x b] x by simp
  have xb: "dist x b = dist x y + dist y b" using dist_split [of x y b] y by simp
  have "dist a x \<le> dist a y"
  proof (rule ccontr)
    assume "\<not> dist a x \<le> dist a y"
    then have "dist a x = dist a y + dist y x" "dist y x \<noteq> 0 \<or> y = x"
      using dist_split [of a y x] dist_zero [of y x] by auto
    moreover have "dist y b = dist y x + dist x b \<or> dist y x = dist y b + dist b x"
      using dist_split [of y x b] dist_split [of y b x] by linarith
    ultimately show False
      using xb y dist_zero [of x b] dist_split [of a y b] ab x
      by (cases "dist a y \<le> dist a b") auto
  qed
  then have "dist a y = dist a x + dist x y" by (rule dist_split)
  with x y ab assms(1) show ?thesis by (auto simp: between_dist)
qed

end

definition ring_dist :: "ID \<Rightarrow> ID \<Rightarrow> nat" where
  "ring_dist a b = (ring_key b + (2 ^ M - ring_key a)) mod 2 ^ M"

lemma ring_dist_eq:
  "ring_dist a b =
     (if ring_key a \<le> ring_key b then ring_key b - ring_key a
      else ring_key b + (2 ^ M - ring_key a))"
  using ring_key_less [of a] ring_key_less [of b]
  by (auto simp: ring_dist_def le_mod_geq)

interpretation id_circle: circle ring_dist isInInterval
proof
  fix a b x :: ID
  show "ring_dist a b = 0 \<longleftrightarrow> a = b"
    using ring_key_less [of a] by (auto simp: ring_dist_eq simp flip: ring_key_inj)
  show "isInInterval x a b \<longleftrightarrow> 0 < ring_dist a x \<and> ring_dist a x < ring_dist a b" if "a \<noteq> b"
    using that ring_key_less [of a] ring_key_less [of b] ring_key_less [of x]
    by (auto simp: isInInterval_iff less_ID_key ring_dist_eq simp flip: ring_key_inj)
  show "isInInterval x a a"
    by (simp add: isInInterval_iff)
  show "ring_dist a b = ring_dist a x + ring_dist x b" if "ring_dist a x \<le> ring_dist a b"
    using that ring_key_less [of a] ring_key_less [of b] ring_key_less [of x]
    by (auto simp: ring_dist_eq split: if_splits)
qed

section \<open>Properties\<close>

text \<open>
  The six comparison operators are those of one linear order: the order of the 160-bit
  numbers whose bytes are the identifier's with their top bits flipped, most significant first.
\<close>

lemma operators_order:
  "eq_ID x y = (ring_key x = ring_key y) \<and> neq_ID x y = (ring_key x \<noteq> ring_key y)
   \<and> less_ID_op x y = (ring_key x < ring_key y) \<and> greater_ID_op x y = (ring_key y < ring_key x)
   \<and> le_ID_op x y = (ring_key x \<le> ring_key y) \<and> ge_ID_op x y = (ring_key y \<le> ring_key x)"
  using ring_key_inj [of x y]
  by (auto simp: less_ID_op_key less_eq_ID_def greater_ID_op_def ge_ID_op_def le_ID_op_def
      simp del: ID_ops)

text \<open>
  C39. \<open>isInInterval\<close> is membership in the open arc from \<open>lower\<close> clockwise to \<open>upper\<close>, and holds
  of every identifier, the end included, when the two ends are equal.
\<close>

theorem isInInterval_arc:
  "isInInterval x lower upper \<longleftrightarrow>
     (if lower = upper then True
      else ring_dist lower x \<in> {0 <..< ring_dist lower upper})"
  using id_circle.between_dist [of lower upper x] id_circle.between_same [of x lower] by auto

end
