(* ===== verification/ID_Hash.thy ===== *)
theory ID_Hash
  imports ID_Order
begin

text \<open>
  The hashing constructors of \<open>ID\<close> against the standard's SHA-1, through the interface
  \<open>hasher\<close>, and the hexadecimal form: its length and that it determines the identifier.
\<close>

section \<open>Hashing constructors\<close>

lemma chars_ID_exact: "length bs = ID_LEN \<Longrightarrow> chars_ID bs = Inr (of_bytes bs)"
  using map_nth [of bs] by (simp add: chars_ID_def)

definition sha1_ID :: "bytes \<Rightarrow> ID" where
  "sha1_ID m = of_bytes (std_sha1 m)"

lemma c_str_sha1_ID [simp]: "c_str (sha1_ID m) = std_sha1 m"
  by (simp add: sha1_ID_def length_std_sha1)

lemma string_ID_sha1:
  assumes "length b = 64" and "m \<noteq> []" and "length m < 2 ^ 31"
  shows "string_ID b m = Inr (sha1_ID m)"
proof -
  obtain s1 where s1: "addBytes (new_SHA1 b) (m @ [0]) (int (length m)) = Inr s1" "absorbed s1 m"
    using sha1_hasher.add_holds [OF sha1_hasher.fresh_holds [OF assms(1)], of "length m" "m @ [0]"] assms(2)
    by auto
  moreover obtain s2 where "getDigest s1 = Inr (std_sha1 m, s2)"
    using sha1_hasher.digest_hash [OF s1(2)] assms(3) by auto
  ultimately show ?thesis
    using size_to_int_small [OF assms(3)]
    by (simp add: string_ID_def sha1_ID_def chars_ID_exact length_std_sha1)
qed

lemma string_ID_empty: "string_ID b [] = Inl AssertionFailure"
  using sha1_hasher.add_nothing by (simp add: string_ID_def size_to_int_small)

lemma host_port_ID_sha1:
  assumes "length b = 64" and "host \<noteq> []" and "length host < 2 ^ 31"
  shows "host_port_ID b host port = Inr (sha1_ID (host @ port_bytes port))"
proof -
  have p: "length (port_bytes port) = 4" by (simp add: port_bytes_def)
  obtain s1 where s1: "addBytes (new_SHA1 b) (host @ [0]) (int (length host)) = Inr s1" "absorbed s1 host"
    using sha1_hasher.add_holds [OF sha1_hasher.fresh_holds [OF assms(1)], of "length host" "host @ [0]"] assms(2)
    by auto
  moreover obtain s2 where s2: "addBytes s1 (port_bytes port) 4 = Inr s2"
      "absorbed s2 (host @ port_bytes port)"
    using sha1_hasher.add_holds [OF s1(2), of 4 "port_bytes port"] p by auto
  moreover obtain s3 where "getDigest s2 = Inr (std_sha1 (host @ port_bytes port), s3)"
    using sha1_hasher.digest_hash [OF s2(2)] assms(3) p by auto
  ultimately show ?thesis
    using size_to_int_small [OF assms(3)]
    by (simp add: host_port_ID_def sha1_ID_def chars_ID_exact length_std_sha1)
qed

section \<open>Hexadecimal form\<close>

definition negative_count :: "ID \<Rightarrow> nat" where
  "negative_count x = length (filter (\<lambda>c. char_to_int c < 0) (c_str x))"

lemma unat_hex_digit: "d < 16 \<Longrightarrow> unat (hex_digit d) = (if d < 10 then 48 + d else 87 + d)"
  unfolding hex_digit_def by (auto simp only: unat_of_nat_byte split: if_split) simp_all

lemma hex_digit_inj:
  assumes "d < 16" and "e < 16"
  shows "hex_digit d = hex_digit e \<longleftrightarrow> d = e"
proof
  assume "hex_digit d = hex_digit e"
  then have "unat (hex_digit d) = unat (hex_digit e)" by simp
  with assms show "d = e" by (simp add: unat_hex_digit split: if_splits)
qed simp

lemma hex_number_digit: "n < 16 \<Longrightarrow> hex_number n = [hex_digit n]"
  by (simp add: hex_number.simps)

lemma hex_number_append: "0 < h \<Longrightarrow> d < 16 \<Longrightarrow> hex_number (h * 16 + d) = hex_number h @ [hex_digit d]"
  by (subst hex_number.simps) simp

lemma hex_number_ffffff: "hex_number 0xffffff = cstr ''ffffff''"
  by (simp add: hex_number.simps hex_digit_def)

lemma char_to_int_unat: "char_to_int c = (if unat c < 128 then int (unat c) else int (unat c) - 256)"
  unfolding char_to_int_def by (rule sint_byte_eq)

lemma negative_char_iff: "char_to_int c < 0 \<longleftrightarrow> 128 \<le> unat c"
proof -
  have "int (unat c) < 256" using unat_byte_less [of c] by linarith
  then show ?thesis by (subst char_to_int_unat) simp
qed

lemma int_unat_word_of_int: "int (unat (word_of_int i :: u32)) = i mod 2 ^ 32"
  by (simp add: unsigned_of_int take_bit_eq_mod)

lemma unat_char_to_uint:
  "unat (char_to_uint c) = (if char_to_int c < 0 then 0xffffff00 + unat c else unat c)"
proof -
  define n where "n = unat c"
  have n: "int n < 256" using unat_byte_less [of c] unfolding n_def by linarith
  have u: "int (unat (char_to_uint c)) = char_to_int c mod 2 ^ 32"
    unfolding char_to_uint_def char_to_int_def scast_eq by (rule int_unat_word_of_int)
  have c: "char_to_int c = (if n < 128 then int n else int n - 256)"
    unfolding n_def by (rule char_to_int_unat)
  show ?thesis
  proof (cases "n < 128")
    case True
    have "int n mod 2 ^ 32 = int n" using n by (simp add: mod_pos_pos_trivial)
    with True u c have "int (unat (char_to_uint c)) = int n" by simp
    then have "unat (char_to_uint c) = n" by (simp only: of_nat_eq_iff)
    with True c show ?thesis by (simp flip: n_def)
  next
    case False
    have "(int n - 256) mod 2 ^ 32 = int n + 0xffffff00"
      using n mod_add_self2 [of "int n - 256" "2 ^ 32"] by (simp add: mod_pos_pos_trivial)
    with False u c have "int (unat (char_to_uint c)) = int (0xffffff00 + n)" by simp
    then have "unat (char_to_uint c) = 0xffffff00 + n" by (simp only: of_nat_eq_iff)
    with False c n show ?thesis by (simp flip: n_def)
  qed
qed

lemma char_hex_eq:
  "char_hex c = (if char_to_int c < 0 then cstr ''ffffff'' else [])
     @ [hex_digit (unat c div 16), hex_digit (unat c mod 16)]"
proof (cases "char_to_int c < 0")
  case True
  have "unat (char_to_uint c) = (0xffffff * 16 + unat c div 16) * 16 + unat c mod 16"
    using True by (simp add: unat_char_to_uint)
  moreover have "unat c div 16 < 16" using unat_byte_less [of c] by linarith
  ultimately have "hex_number (unat (char_to_uint c))
      = cstr ''ffffff'' @ [hex_digit (unat c div 16), hex_digit (unat c mod 16)]"
    by (simp only: hex_number_append hex_number_ffffff) (simp add: hex_number_append hex_number_ffffff)
  with True show ?thesis by (simp add: char_hex_def setw_2_def)
next
  case False
  then have u: "unat (char_to_uint c) = unat c" by (simp add: unat_char_to_uint)
  show ?thesis
  proof (cases "unat c < 16")
    case True
    with False u show ?thesis
      by (simp add: char_hex_def setw_2_def hex_number_digit hex_digit_def [of 0])
  next
    case ge: False
    have "unat c div 16 < 16" using unat_byte_less [of c] by linarith
    with ge have "hex_number (unat c) = [hex_digit (unat c div 16), hex_digit (unat c mod 16)]"
      using hex_number_append [of "unat c div 16" "unat c mod 16"] by (simp add: hex_number_digit)
    with False u show ?thesis by (simp add: char_hex_def setw_2_def)
  qed
qed

lemma char_hex_prefix:
  assumes "char_hex c @ r = char_hex d @ s"
  shows "c = d \<and> r = s"
proof -
  have lt: "unat x div 16 < 16" "unat x mod 16 < 16" for x :: byte
    using unat_byte_less [of x] by linarith+
  have same: "x = y" if "hex_digit (unat x div 16) = hex_digit (unat y div 16)"
      "hex_digit (unat x mod 16) = hex_digit (unat y mod 16)" for x y :: byte
  proof -
    have "unat x div 16 = unat y div 16" "unat x mod 16 = unat y mod 16"
      using that lt hex_digit_inj by blast+
    then have "unat x = unat y" by (metis div_mult_mod_eq)
    then show "x = y" by (simp add: word_unat_eq_iff)
  qed
  have "hex_digit (unat x div 16) \<noteq> 102" if "\<not> char_to_int x < 0" for x
  proof
    assume "hex_digit (unat x div 16) = 102"
    then have "unat (hex_digit (unat x div 16)) = 102" by simp
    moreover have "unat x < 128"
      using that by (simp add: negative_char_iff)
    then have "unat x div 16 < 8" by linarith
    ultimately show False using unat_hex_digit [of "unat x div 16"] by (simp split: if_splits)
  qed
  with assms show ?thesis
    by (auto simp: char_hex_eq intro: same split: if_splits)
qed

lemma toHexString_eq_iff: "toHexString x = toHexString y \<longleftrightarrow> x = y"
proof
  have "length xs = length ys \<Longrightarrow> concat (map char_hex xs) = concat (map char_hex ys) \<Longrightarrow> xs = ys"
    for xs ys
    by (induction xs ys rule: list_induct2) (auto dest: char_hex_prefix)
  then show "toHexString x = toHexString y \<Longrightarrow> x = y"
    by (simp add: toHexString_def ID_eq_iff)
qed simp

lemma length_toHexString: "length (toHexString x) = 40 + 6 * negative_count x"
proof -
  have "length (concat (map char_hex xs)) = 2 * length xs + 6 * length (filter (\<lambda>c. char_to_int c < 0) xs)"
    for xs
    by (induction xs) (simp_all add: char_hex_eq)
  then show ?thesis by (simp add: toHexString_def negative_count_def)
qed

section \<open>Properties\<close>

text \<open>
  The identifier of a name is its SHA-1 hash, whatever the memory of the hash object held;
  the empty name aborts the process in the assertion of \<open>addBytes\<close>.
\<close>

lemma name_identifier:
  assumes "length b = 64" and "length m < 2 ^ 31"
  shows "string_ID b m =
    (if m = [] then Inl AssertionFailure else Inr (of_bytes (std_sha1 m)))"
  using assms string_ID_sha1 [of b m] string_ID_empty by (auto simp: sha1_ID_def)

text \<open>
  The identifier of a host and port is the hash of the host's characters followed by the
  port's four bytes, least significant first.
\<close>

lemma host_port_identifier:
  assumes "length b = 64" and "length host < 2 ^ 31"
  shows "host_port_ID b host port =
    (if host = [] then Inl AssertionFailure
     else Inr (of_bytes (std_sha1 (host @ [ucast port, ucast (drop_bit 8 port),
                                           ucast (drop_bit 16 port), ucast (drop_bit 24 port)]))))"
proof (cases "host = []")
  case True
  have "addBytes (new_SHA1 b) [0] 0 = Inl AssertionFailure" by (rule addBytes_nothing) simp
  with True show ?thesis by (simp add: host_port_ID_def size_to_int_small)
next
  case False
  with host_port_ID_sha1 [OF assms(1) _ assms(2), of port] show ?thesis
    by (simp add: sha1_ID_def port_bytes_def uint_to_char_def)
qed

text \<open>
  The printed form tells identifiers apart, but it has the forty digits of the usual
  hexadecimal form only when no byte is negative: each byte of 0x80 or more takes eight digits.
\<close>

lemma hex_form:
  "(toHexString x = toHexString y) = (x = y)
   \<and> length (toHexString x) = 40 + 6 * length (filter (\<lambda>c. 0x80 \<le> unat c) (c_str x))"
  using toHexString_eq_iff length_toHexString by (simp add: negative_count_def negative_char_iff)

end
