(* ===== verification/INode.thy ===== *)
theory INode
  imports ID_Hash C_Strings
begin

text \<open>
  The base class \<open>INode\<close> of \<open>src/INode.h\<close>: a node's name, host, port and identifier (the hash
  of its name), the serial form that travels in the messages, and the remote procedure codes.
  The locale \<open>wire_codec\<close> is the interface of a serial form: what is decoded from an encoding
  followed by anything is what was encoded.
\<close>

section \<open>The object\<close>

record inode =
  nd_name :: bytes
  nd_host :: bytes
  nd_port :: u32
  nd_id :: ID

text \<open>
  The hash object of the identifier's constructor is created on the heap with indeterminate
  contents; the result does not depend on them (\<open>string_ID_sha1\<close>), so zeros are used here.
\<close>

definition new_INode :: "bytes \<Rightarrow> bytes \<Rightarrow> u32 \<Rightarrow> inode result" where
  "new_INode name host port =
     bind_result (string_ID (replicate 64 0) name) (\<lambda>i.
       Inr \<lparr>nd_name = name, nd_host = host, nd_port = port, nd_id = i\<rparr>)"

definition copy_INode :: "inode \<Rightarrow> inode result" where
  "copy_INode n = new_INode (nd_name n) (nd_host n) (nd_port n)"

text \<open>\<open>operator==\<close> on nodes compares the identifiers.\<close>

definition eq_INode :: "inode \<Rightarrow> inode \<Rightarrow> bool" where
  "eq_INode lhs rhs = eq_ID (nd_id lhs) (nd_id rhs)"

section \<open>The serial form\<close>

definition serialize :: "inode \<Rightarrow> bytes" where
  "serialize n =
     (let nameLen = size_to_char (length (nd_name n));
          hostLen = size_to_char (length (nd_host n));
          portStr = dec_number (unat (nd_port n));
          portStrLen = size_to_char (length portStr)
      in nameLen # nd_name n @ hostLen # nd_host n @ portStrLen # portStr)"

text \<open>
  One length-prefixed field at \<open>position\<close> in the memory \<open>serial\<close> points to. The length is a
  signed char turned into an \<open>int\<close>; a negative one becomes a huge \<open>size_t\<close>, which
  \<open>std::string\<close> refuses with \<open>length_error\<close>. The result is the field and the new position.
\<close>

definition read_field :: "bytes \<Rightarrow> nat \<Rightarrow> (bytes \<times> nat) result" where
  "read_field serial position =
     (if position \<ge> length serial then Inl (UndefinedBehaviour ReadPastEnd)
      else
        let len = char_to_int (serial ! position);
            position = position + 1
        in if len < 0 then Inl LengthError
           else if length serial < position + nat len then Inl (UndefinedBehaviour ReadPastEnd)
           else Inr (take (nat len) (drop position serial), position + nat len))"

text \<open>The constructor from a serial form; the length it is given is never looked at.\<close>

definition parse_INode :: "bytes \<Rightarrow> nat \<Rightarrow> inode result" where
  "parse_INode serial len =
     bind_result (read_field serial 0) (\<lambda>(name, position).
     bind_result (read_field serial position) (\<lambda>(host, position).
     bind_result (read_field serial position) (\<lambda>(portStr, position).
     bind_result (atoi (c_string portStr)) (\<lambda>port.
     bind_result (string_ID (replicate 64 0) name) (\<lambda>i.
       Inr \<lparr>nd_name = name, nd_host = host, nd_port = of_int port, nd_id = i\<rparr>)))))"

section \<open>Remote procedure codes\<close>

datatype RPCCode =
    FIND_PREDECESSOR
  | FIND_SUCCESSOR
  | CLOSEST_PRECEDING_FINGER
  | JOIN
  | STABILIZE
  | NOTIFY
  | FIX_FINGER
  | GET_PREDECESSOR
  | SET_PREDECESSOR
  | GET_SUCCESSOR
  | SET_SUCCESSOR
  | GET_ID
  | RECEIVE
  | PING

definition RPCCodes :: "RPCCode list" where
  "RPCCodes =
     [FIND_PREDECESSOR, FIND_SUCCESSOR, CLOSEST_PRECEDING_FINGER, JOIN, STABILIZE, NOTIFY,
      FIX_FINGER, GET_PREDECESSOR, SET_PREDECESSOR, GET_SUCCESSOR, SET_SUCCESSOR, GET_ID,
      RECEIVE, PING]"

text \<open>The enumerators are numbered from 0; \<open>char(code)\<close> is the number as a char.\<close>

fun code_char :: "RPCCode \<Rightarrow> byte" where
  "code_char FIND_PREDECESSOR = 0"
| "code_char FIND_SUCCESSOR = 1"
| "code_char CLOSEST_PRECEDING_FINGER = 2"
| "code_char JOIN = 3"
| "code_char STABILIZE = 4"
| "code_char NOTIFY = 5"
| "code_char FIX_FINGER = 6"
| "code_char GET_PREDECESSOR = 7"
| "code_char SET_PREDECESSOR = 8"
| "code_char GET_SUCCESSOR = 9"
| "code_char SET_SUCCESSOR = 10"
| "code_char GET_ID = 11"
| "code_char RECEIVE = 12"
| "code_char PING = 13"

definition char_code :: "byte \<Rightarrow> RPCCode option" where
  "char_code c = find (\<lambda>k. code_char k = c) RPCCodes"

lemma char_code_char [simp]: "char_code (code_char k) = Some k"
  by (cases k) (simp_all add: char_code_def RPCCodes_def)

section \<open>Round trip\<close>

text \<open>A node that its serial form can carry.\<close>

definition sendable :: "inode \<Rightarrow> bool" where
  "sendable n \<longleftrightarrow>
     nd_name n \<noteq> [] \<and> length (nd_name n) < 128 \<and> length (nd_host n) < 128
     \<and> unat (nd_port n) < 2 ^ 31 \<and> nd_id n = sha1_ID (nd_name n)"

lemma string_ID_name:
  "m \<noteq> [] \<Longrightarrow> length m < 2 ^ 31 \<Longrightarrow> string_ID (replicate 64 0) m = Inr (sha1_ID m)"
  by (rule string_ID_sha1) simp_all

lemma read_field_at:
  assumes "length f < 128" and "p = length before"
  shows "read_field (before @ size_to_char (length f) # f @ after) p = Inr (f, p + 1 + length f)"
  using assms by (simp add: read_field_def nth_append char_to_int_size_to_char)

lemma length_dec_port: "length (dec_number (unat (p :: u32))) \<le> 10"
proof -
  have "unat p < 2 ^ LENGTH(32)" by (rule unsigned_less)
  then show ?thesis by (intro length_dec_number) simp_all
qed

lemma parse_serialize:
  assumes "sendable n"
  shows "parse_INode (serialize n @ rest) len = Inr n"
proof -
  let ?port = "dec_number (unat (nd_port n))"
  let ?m = "serialize n @ rest"
  have n: "length (nd_name n) < 128" "length (nd_host n) < 128" "unat (nd_port n) < 2 ^ 31"
      "nd_name n \<noteq> []" "nd_id n = sha1_ID (nd_name n)"
    using assms by (simp_all add: sendable_def)
  have port: "length ?port < 128" using length_dec_port [of "nd_port n"] by simp
  let ?p1 = "1 + length (nd_name n)"
  let ?p2 = "?p1 + 1 + length (nd_host n)"
  have "read_field ?m 0 = Inr (nd_name n, ?p1)"
    using read_field_at [OF n(1), of 0 "[]"] by (simp add: serialize_def Let_def)
  moreover have "read_field ?m ?p1 = Inr (nd_host n, ?p2)"
    using read_field_at [OF n(2), of ?p1 "size_to_char (length (nd_name n)) # nd_name n"]
    by (simp add: serialize_def Let_def)
  moreover have "read_field ?m ?p2 = Inr (?port, ?p2 + 1 + length ?port)"
    using read_field_at [OF port, of ?p2 "size_to_char (length (nd_name n)) # nd_name n
        @ size_to_char (length (nd_host n)) # nd_host n"]
    by (simp add: serialize_def Let_def)
  ultimately show ?thesis
    using n by (simp add: parse_INode_def c_string_dec_number atoi_dec_number string_ID_name)
qed

lemma length_serialize:
  "length (serialize n)
     = 3 + length (nd_name n) + length (nd_host n) + length (dec_number (unat (nd_port n)))"
  by (simp add: serialize_def Let_def)

section \<open>The interface of a serial form\<close>

locale wire_codec =
  fixes enc :: "'a \<Rightarrow> bytes"
    and dec :: "bytes \<Rightarrow> 'a result"
    and ok :: "'a \<Rightarrow> bool"
  assumes dec_enc: "ok x \<Longrightarrow> dec (enc x @ rest) = Inr x"
begin

lemma dec_enc_exact: "ok x \<Longrightarrow> dec (enc x) = Inr x"
  using dec_enc [of x "[]"] by simp

lemma enc_prefix_free:
  assumes "ok x" and "ok y" and "enc x @ r = enc y @ s"
  shows "x = y" and "r = s"
proof -
  from assms show "x = y" by (metis dec_enc sum.inject(2))
  with assms(3) show "r = s" by simp
qed

lemma enc_eq_iff: "ok x \<Longrightarrow> ok y \<Longrightarrow> enc x = enc y \<longleftrightarrow> x = y"
  using dec_enc_exact by (metis sum.inject(2))

end

interpretation node_codec: wire_codec serialize "\<lambda>m. parse_INode m (length m)" sendable
  by unfold_locales (rule parse_serialize)

interpretation id_codec: wire_codec c_str chars_ID "\<lambda>x. True"
proof
  fix x rest
  have "map ((!) (c_str x @ rest)) [0..<20] = map ((!) (c_str x)) [0..<20]"
    by (simp add: nth_append)
  also have "\<dots> = c_str x"
    using map_nth [of "c_str x"] by simp
  finally show "chars_ID (c_str x @ rest) = Inr x"
    by (simp add: chars_ID_def)
qed

text \<open>A name the length byte cannot hold, or an empty one, is not read back.\<close>

lemma parse_long_name:
  assumes "128 \<le> length (nd_name n)" and "length (nd_name n) < 256"
  shows "parse_INode (serialize n @ rest) len = Inl LengthError"
proof -
  have "char_to_int (size_to_char (length (nd_name n))) < 0"
    unfolding negative_char_iff size_to_char_def unat_of_nat_byte using assms by simp
  then show ?thesis
    by (simp add: parse_INode_def serialize_def Let_def read_field_def)
qed

lemma read_empty_field: "read_field (before @ 0 # rest) (length before) = Inr ([], length before + 1)"
  using read_field_at [of "[]" "length before" before rest] by (simp add: size_to_char_def)

section \<open>Properties\<close>

text \<open>
  C38. A node whose name and host fit a signed length byte and whose port fits an \<open>int\<close> is read
  back from its serial form unchanged, whatever follows it and whatever length is passed.
\<close>

theorem serial_roundtrip:
  assumes "0 < length (nd_name n)" and "length (nd_name n) < 128" and "length (nd_host n) < 128"
    and "unat (nd_port n) < 2 ^ 31" and "nd_id n = of_bytes (std_sha1 (nd_name n))"
  shows "parse_INode (serialize n @ rest) len = Inr n"
  using assms by (intro parse_serialize) (simp add: sendable_def sha1_ID_def)

theorem serial_roundtrip_witness:
  "parse_INode (serialize \<lparr>nd_name = [98], nd_host = [104], nd_port = 8000,
       nd_id = of_bytes (std_sha1 [98])\<rparr> @ [1, 2]) 0
   = Inr \<lparr>nd_name = [98], nd_host = [104], nd_port = 8000, nd_id = of_bytes (std_sha1 [98])\<rparr>"
  using serial_roundtrip [of "\<lparr>nd_name = [98], nd_host = [104], nd_port = 8000,
      nd_id = of_bytes (std_sha1 [98])\<rparr>" "[1, 2]" 0] by simp

text \<open>
  A name of 128 to 255 characters is written with a length byte that reads back negative:
  the receiver's \<open>std::string\<close> constructor throws, so such a node cannot be sent.
\<close>

lemma long_name_unreadable:
  assumes "length (nd_name n) \<in> {128..255}"
  shows "parse_INode (serialize n @ rest) len = Inl LengthError"
  using assms by (intro parse_long_name) auto

end
