(* ===== verification/ID_Arith.thy ===== *)
theory ID_Arith
  imports ID_Order
begin

text \<open>
  What \<open>operator+=\<close> and \<open>operator-=\<close> of \<open>src/ID.cpp\<close> compute. Their bytes are
  sign-extended before the addition, so the bit read as the carry is the true carry only
  when the two bytes have the same sign; the value theorems say exactly when the result is
  the sum (or the byte-reversed difference) modulo \<open>2 ^ 160\<close>.
\<close>

section \<open>One byte\<close>

definition negative :: "byte \<Rightarrow> bool" where
  "negative c \<longleftrightarrow> 128 \<le> unat c"

lemma sint_negative: "sint c = int (unat c) - 256 * of_bool (negative c)"
  unfolding negative_def by (subst sint_byte_eq) simp

lemma int_xor_255: "(i :: int) XOR 255 = 256 * (i div 256) + (255 - i mod 256)"
proof -
  have m: "(255 :: int) = mask 8" by (simp add: mask_eq_exp_minus_1)
  have "i XOR mask 8 = push_bit 8 (drop_bit 8 i) OR take_bit 8 (NOT i)"
    by (rule bit_eqI) (auto simp: bit_simps not_less not_le)
  also have "\<dots> = push_bit 8 (drop_bit 8 i) + take_bit 8 (NOT i)"
    by (rule disjunctive_add [symmetric]) (auto simp: bit_simps)
  also have "take_bit 8 (NOT i) = 255 - take_bit 8 i"
    by (simp add: take_bit_not_eq_mask_diff mask_eq_exp_minus_1)
  finally show ?thesis
    unfolding m [symmetric] by (simp add: push_bit_eq_mult drop_bit_eq_div take_bit_eq_mod)
qed

lemma shifted_div_mod:
  "(i - 256 * j) div 256 = i div 256 - (j :: int)"
  "(i - 256 * j) mod 256 = i mod (256 :: int)"
  using div_mult_self2 [of 256 i "- j"] mod_mult_self2 [of i 256 "- j"] by simp_all

lemma sint_xor_255:
  "sint (c :: byte) XOR 255 = int (255 - unat c) - 256 * of_bool (negative c)"
proof -
  have n: "int (unat c) < 256" using unat_byte_less [of c] by linarith
  have e: "int (255 - unat c) = 255 - int (unat c)" using n by linarith
  show ?thesis
    unfolding e int_xor_255 sint_negative shifted_div_mod
    using div_pos_pos_trivial [OF of_nat_0_le_iff n] mod_pos_pos_trivial [OF of_nat_0_le_iff n]
    by simp
qed

lemma word_of_int_xor: "(word_of_int i :: u32) XOR word_of_int j = word_of_int (i XOR j)"
  by (rule bit_word_eqI) (simp add: bit_simps bit_word_of_int_iff)

text \<open>
  A column: a 32-bit value that is a small natural number less 256 for each negative byte.
  Its low byte is the number's; its bit 8 is the number's carry, inverted when exactly one
  byte is negative.
\<close>

lemma column_value:
  assumes "v = (word_of_int (int s - 256 * of_bool p - 256 * of_bool q) :: u32)" and "s < 512"
  shows "uint_to_char v = of_nat s"
    and "uint_to_char (drop_bit 8 v) AND 1 = of_bool ((256 \<le> s) \<noteq> (p \<noteq> q))"
proof -
  define k where "k = int s - 256 * of_bool p - 256 * of_bool q"
  have v: "v = word_of_int k" using assms(1) by (simp only: k_def)
  have "uint_to_char v = word_of_int k"
    unfolding v by (rule bit_word_eqI) (simp add: uint_to_char_def bit_simps bit_word_of_int_iff)
  moreover have "k mod 256 = int s mod 256"
    by (simp only: k_def shifted_div_mod)
  then have "(word_of_int k :: byte) = word_of_int (int s)"
    by (simp only: word_of_int_eq_iff take_bit_eq_mod) simp
  ultimately show "uint_to_char v = of_nat s" by simp
  have "k div 256 = int s div 256 - of_bool p - of_bool q"
    by (simp only: k_def shifted_div_mod)
  moreover have "int s div 256 = of_bool (256 \<le> s)"
    using assms(2) by (auto simp: div_pos_pos_trivial div_pos_geq)
  ultimately have "odd (k div 256) \<longleftrightarrow> (256 \<le> s) \<noteq> (p \<noteq> q)"
    by (cases p; cases q) auto
  moreover have "bit v 8 \<longleftrightarrow> bit k 8" "bit k 8 \<longleftrightarrow> odd (k div 256)"
    unfolding v by (simp add: bit_word_of_int_iff) (simp add: bit_iff_odd)
  moreover have "uint_to_char (drop_bit 8 v) AND 1 = of_bool (bit v 8)"
    by (rule bit_word_eqI) (auto simp: uint_to_char_def bit_simps)
  ultimately show "uint_to_char (drop_bit 8 v) AND 1 = of_bool ((256 \<le> s) \<noteq> (p \<noteq> q))"
    by simp
qed

lemma of_bool_le_1: "(of_bool c :: nat) \<le> 1"
  by simp

lemma char_to_uint_of_bool: "char_to_uint (of_bool b) = of_bool b"
  by (cases b) (simp_all add: char_to_uint_def)

lemma add_column:
  fixes c :: bool
  assumes "s = unat x + unat y + of_bool c"
    and "v = char_to_uint x + char_to_uint y + char_to_uint (of_bool c)"
  shows "uint_to_char v = of_nat s"
    and "uint_to_char (drop_bit 8 v) AND 1 = of_bool ((256 \<le> s) \<noteq> (negative x \<noteq> negative y))"
proof -
  have "v = word_of_int (sint x + sint y + of_bool c)"
    unfolding assms(2) char_to_uint_of_bool unfolding char_to_uint_def scast_eq
    by (simp only: of_int_add of_int_of_bool)
  also have "sint x + sint y + of_bool c
      = int s - 256 * of_bool (negative x) - 256 * of_bool (negative y)"
    by (simp only: assms(1) sint_negative of_nat_add of_nat_of_bool)
  finally have v: "v = word_of_int \<dots>" .
  have "s < 512"
    using assms(1) unat_byte_less [of x] unat_byte_less [of y] of_bool_le_1 [of c]
    by linarith
  from column_value [OF v this] show "uint_to_char v = of_nat s"
    and "uint_to_char (drop_bit 8 v) AND 1 = of_bool ((256 \<le> s) \<noteq> (negative x \<noteq> negative y))" .
qed

lemma sub_column:
  fixes c :: bool
  assumes "s = unat x + (255 - unat y) + of_bool c"
    and "v = char_to_uint x + (char_to_uint y XOR 0xff) + of_bool c"
  shows "uint_to_char v = of_nat s"
    and "uint_to_char (drop_bit 8 v) AND 1 = of_bool ((256 \<le> s) \<noteq> (negative x \<noteq> negative y))"
proof -
  have "v = word_of_int (sint x + (sint y XOR 255) + of_bool c)"
    unfolding assms(2) char_to_uint_def scast_eq
    by (simp only: of_int_add of_int_of_bool word_of_int_xor [symmetric]) simp
  also have "sint x + (sint y XOR 255) + of_bool c
      = int s - 256 * of_bool (negative x) - 256 * of_bool (negative y)"
    unfolding sint_xor_255 unfolding sint_negative assms(1) by simp
  finally have v: "v = word_of_int \<dots>" .
  have "s < 512"
    using assms(1) unat_byte_less [of x] unat_byte_less [of y] of_bool_le_1 [of c]
    by linarith
  from column_value [OF v this] show "uint_to_char v = of_nat s"
    and "uint_to_char (drop_bit 8 v) AND 1 = of_bool ((256 \<le> s) \<noteq> (negative x \<noteq> negative y))" .
qed

section \<open>Chains of columns\<close>

text \<open>
  Columns are added from the least significant on; a column is a number and a mark that
  inverts its carry. The result is the total modulo \<open>256 ^ n\<close> exactly when no column but the
  last one is marked.
\<close>

fun chain :: "bool \<Rightarrow> (nat \<times> bool) list \<Rightarrow> bytes" where
  "chain c [] = []"
| "chain c ((s, f) # t) = of_nat (s + of_bool c) # chain ((256 \<le> s + of_bool c) \<noteq> f) t"

lemma length_chain [simp]: "length (chain c t) = length t"
  by (induction c t rule: chain.induct) simp_all

definition total :: "(nat \<times> bool) list \<Rightarrow> nat" where
  "total t = foldr (\<lambda>(s, f) v. s + 256 * v) t 0"

lemma total_simps [simp]:
  "total [] = 0"
  "total ((s, f) # t) = s + 256 * total t"
  by (simp_all add: total_def)

lemma mod_256_power_Suc:
  "(a + 256 * b) mod 256 ^ Suc n = a mod 256 + 256 * ((b + a div 256) mod (256 ^ n :: nat))"
proof -
  have "(a + 256 * b) mod (256 * 256 ^ n)
      = 256 * ((a + 256 * b) div 256 mod 256 ^ n) + (a + 256 * b) mod 256"
    by (rule mod_mult2_eq)
  then show ?thesis by (simp add: add.commute)
qed

lemma chain_head_mod:
  assumes "t \<noteq> []"
  shows "little_endian (chain c t) mod 256 = (total t + of_bool c) mod 256"
proof -
  obtain s f t' where t: "t = (s, f) # t'" using assms by (metis neq_Nil_conv surj_pair)
  have "total t + of_bool c = (s + of_bool c) + 256 * total t'" by (simp add: t)
  then show ?thesis
    unfolding t chain.simps little_endian_simps unat_of_nat_byte by (simp only: mod_mult_self2) simp
qed

lemma chain_total_iff:
  assumes "\<forall>(s, f) \<in> set t. s \<le> 510"
  shows "little_endian (chain c t) = (total t + of_bool c) mod 256 ^ length t \<longleftrightarrow>
    (\<forall>(s, f) \<in> set (butlast t). \<not> f)"
  using assms
proof (induction t arbitrary: c)
  case (Cons col t)
  obtain s f where col: "col = (s, f)" by (cases col)
  define v where "v = s + of_bool c"
  have "v \<le> 511" using Cons.prems by (simp add: col v_def)
  then have q: "v div 256 = of_bool (256 \<le> v)" by (auto simp: div_eq_dividend_iff div_if)
  let ?c = "(256 \<le> v) \<noteq> f"
  have "little_endian (chain c (col # t)) = v mod 256 + 256 * little_endian (chain ?c t)"
    unfolding col chain.simps little_endian_simps unat_of_nat_byte v_def by (rule refl)
  moreover have "(total (col # t) + of_bool c) mod 256 ^ length (col # t)
      = v mod 256 + 256 * ((total t + of_bool (256 \<le> v)) mod 256 ^ length t)"
  proof -
    have "total (col # t) + of_bool c = v + 256 * total t" by (simp add: col v_def)
    then show ?thesis unfolding list.size add_0_right add_Suc_right mod_256_power_Suc q
      by (simp only: add_0_right add_Suc_right mod_256_power_Suc q)
  qed
  ultimately have eq: "little_endian (chain c (col # t))
        = (total (col # t) + of_bool c) mod 256 ^ length (col # t) \<longleftrightarrow>
      little_endian (chain ?c t) = (total t + of_bool (256 \<le> v)) mod 256 ^ length t"
    by simp
  consider "t = []" | "t \<noteq> []" "f" | "t \<noteq> []" "\<not> f" by blast
  then show ?case
  proof cases
    case 1
    then show ?thesis unfolding eq by simp
  next
    case 2
    have "(total t + of_bool ?c) mod 256 \<noteq> (total t + of_bool (256 \<le> v)) mod 256"
      using \<open>f\<close> by (auto simp: mod_Suc split: if_splits)
    moreover have "(total t + of_bool (256 \<le> v)) mod 256 ^ length t mod 256
        = (total t + of_bool (256 \<le> v)) mod 256"
      using \<open>t \<noteq> []\<close> by (cases t) (simp_all add: mod_mod_cancel)
    ultimately have "little_endian (chain ?c t) \<noteq> (total t + of_bool (256 \<le> v)) mod 256 ^ length t"
      using chain_head_mod [OF \<open>t \<noteq> []\<close>, of ?c] by metis
    with 2 show ?thesis unfolding eq by (simp add: col)
  next
    case 3
    then show ?thesis unfolding eq using Cons.IH [of ?c] Cons.prems by (simp add: col)
  qed
qed simp

section \<open>The loops are chains\<close>

definition add_col :: "byte \<Rightarrow> byte \<Rightarrow> nat \<times> bool" where
  "add_col x y = (unat x + unat y, negative x \<noteq> negative y)"

definition sub_col :: "byte \<Rightarrow> byte \<Rightarrow> nat \<times> bool" where
  "sub_col x y = (unat x + (255 - unat y), negative x \<noteq> negative y)"

lemma add_step_last:
  assumes "length xs = length ys"
  shows "add_step (ys @ [y]) (length xs) (xs @ [x], of_bool c) =
    (xs @ [of_nat (unat x + unat y + of_bool c)],
     of_bool ((256 \<le> unat x + unat y + of_bool c) \<noteq> (negative x \<noteq> negative y)))"
  using add_column [OF refl refl, of x y c] assms [symmetric]
  by (simp add: add_step_def Let_def nth_append del: of_nat_add split del: split_of_bool)

lemma add_step_front:
  assumes "length xs = length ys" and "\<forall>i \<in> set is. i < length xs"
  shows "fold (add_step (ys @ [y])) is (xs @ [z], c) =
    (case fold (add_step ys) is (xs, c) of (r, c') \<Rightarrow> (r @ [z], c'))"
  using assms
proof (induction "is" arbitrary: xs c)
  case (Cons i "is")
  then show ?case
    by (simp add: add_step_def Let_def nth_append list_update_append)
qed simp

lemma add_loop_chain:
  "length xs = length ys \<Longrightarrow>
     fst (fold (add_step ys) (rev [0..<length xs]) (xs, of_bool c))
     = rev (chain c (map2 add_col (rev xs) (rev ys)))"
proof (induction xs arbitrary: ys c rule: rev_induct)
  case (snoc x xs)
  then obtain ys' y where ys: "ys = ys' @ [y]" "length xs = length ys'"
    by (metis append_butlast_last_id length_append_singleton length_butlast diff_Suc_1
        list.size(3) nat.distinct(1))
  let ?c = "(256 \<le> unat x + unat y + of_bool c) \<noteq> (negative x \<noteq> negative y)"
  have "fold (add_step ys) (rev [0..<length (xs @ [x])]) (xs @ [x], of_bool c)
      = fold (add_step (ys' @ [y])) (rev [0..<length xs])
          (xs @ [of_nat (unat x + unat y + of_bool c)], of_bool ?c)"
    using add_step_last [OF ys(2), of y x c] by (simp add: ys(1) del: of_nat_add split del: split_of_bool)
  also have "fst \<dots> = fst (fold (add_step ys') (rev [0..<length xs]) (xs, of_bool ?c))
      @ [of_nat (unat x + unat y + of_bool c)]"
    using add_step_front [OF ys(2), of "rev [0..<length xs]"] by (simp split: prod.split)
  also have "\<dots> = rev (chain c (map2 add_col (rev (xs @ [x])) (rev ys)))"
    unfolding snoc.IH [OF ys(2)] ys(1) by (simp add: add_col_def [of x y] split del: split_of_bool)
  finally show ?case .
qed simp

lemma c_str_add_assign:
  "c_str (add_assign_ID a b) = rev (chain False (map2 add_col (rev (c_str a)) (rev (c_str b))))"
proof -
  have "fst (fold (add_step (c_str b)) (rev [0..<20]) (c_str a, 0))
      = rev (chain False (map2 add_col (rev (c_str a)) (rev (c_str b))))"
    using add_loop_chain [of "c_str a" "c_str b" False] by simp
  then show ?thesis by (simp add: add_assign_ID_def)
qed

text \<open>
  The subtraction runs upwards. Its special case at index 0 amounts to starting with the
  carry set.
\<close>

definition sub_plain :: "bytes \<Rightarrow> nat \<Rightarrow> bytes \<times> byte \<Rightarrow> bytes \<times> byte" where
  "sub_plain other i = (\<lambda>(this, overflow).
     let val = char_to_uint (this ! i) + (char_to_uint (other ! i) XOR 0xff) + char_to_uint overflow
     in (this[i := uint_to_char val], uint_to_char (drop_bit 8 val) AND 0x01))"

lemma sub_step_plain: "0 < i \<Longrightarrow> sub_step ys i st = sub_plain ys i st"
  by (cases st) (simp add: sub_step_def sub_plain_def)

lemma sub_step_start: "sub_step ys 0 (xs, 0) = sub_plain ys 0 (xs, of_bool True)"
  using char_to_uint_of_bool [of False] char_to_uint_of_bool [of True]
  by (simp add: sub_step_def sub_plain_def)

lemma sub_loop_plain:
  "fold (sub_step ys) [0..<Suc n] (xs, 0) = fold (sub_plain ys) [0..<Suc n] (xs, of_bool True)"
proof -
  have "fold (sub_step ys) [Suc 0..<Suc n] st = fold (sub_plain ys) [Suc 0..<Suc n] st" for st
    by (rule fold_cong) (auto simp: sub_step_plain fun_eq_iff)
  moreover have "[0..<Suc n] = 0 # [Suc 0..<Suc n]" by (rule upt_conv_Cons) simp
  ultimately show ?thesis
    by (simp only: fold.simps comp_def sub_step_start)
qed

lemma sub_plain_head:
  "sub_plain (y # ys) 0 (x # xs, of_bool c) =
    (of_nat (unat x + (255 - unat y) + of_bool c) # xs,
     of_bool ((256 \<le> unat x + (255 - unat y) + of_bool c) \<noteq> (negative x \<noteq> negative y)))"
  using sub_column [OF refl refl, of x y c]
  by (simp add: sub_plain_def Let_def char_to_uint_of_bool del: of_nat_add split del: split_of_bool)

lemma sub_plain_tail:
  "fold (sub_plain (y # ys)) (map Suc is) (z # xs, c) =
    (case fold (sub_plain ys) is (xs, c) of (r, c') \<Rightarrow> (z # r, c'))"
  by (induction "is" arbitrary: xs c) (simp_all add: sub_plain_def Let_def)

lemma sub_loop_chain:
  "length xs = length ys \<Longrightarrow>
     fst (fold (sub_plain ys) [0..<length xs] (xs, of_bool c)) = chain c (map2 sub_col xs ys)"
proof (induction xs ys arbitrary: c rule: list_induct2)
  case (Cons x xs y ys)
  let ?c = "(256 \<le> unat x + (255 - unat y) + of_bool c) \<noteq> (negative x \<noteq> negative y)"
  have "[0..<length (x # xs)] = 0 # map Suc [0..<length xs]"
    by (simp add: upt_conv_Cons map_Suc_upt del: upt_Suc)
  then have "fold (sub_plain (y # ys)) [0..<length (x # xs)] (x # xs, of_bool c)
      = fold (sub_plain (y # ys)) (map Suc [0..<length xs])
          (of_nat (unat x + (255 - unat y) + of_bool c) # xs, of_bool ?c)"
    by (simp only: fold.simps comp_def sub_plain_head)
  also have "fst \<dots> = of_nat (unat x + (255 - unat y) + of_bool c)
      # fst (fold (sub_plain ys) [0..<length xs] (xs, of_bool ?c))"
    by (simp only: sub_plain_tail split: prod.split) simp
  finally show ?case
    unfolding Cons.IH by (simp add: sub_col_def [of x y] del: of_nat_add split del: split_of_bool)
qed simp

lemma c_str_sub_assign:
  "c_str (sub_assign_ID a b) = chain True (map2 sub_col (c_str a) (c_str b))"
proof -
  have "fst (fold (sub_step (c_str b)) [0..<20] (c_str a, 0))
      = chain True (map2 sub_col (c_str a) (c_str b))"
    using sub_loop_plain [of "c_str b" 19 "c_str a"] sub_loop_chain [of "c_str a" "c_str b" True]
    by simp
  then show ?thesis by (simp add: sub_assign_ID_def)
qed

section \<open>The values\<close>

lemma total_add_cols:
  "length xs = length ys \<Longrightarrow> total (map2 add_col xs ys) = little_endian xs + little_endian ys"
  by (induction xs ys rule: list_induct2) (simp_all add: add_col_def)

lemma total_sub_cols:
  "length xs = length ys \<Longrightarrow>
     total (map2 sub_col xs ys) + little_endian ys + 1 = little_endian xs + 256 ^ length xs"
proof (induction xs ys rule: list_induct2)
  case (Cons x xs y ys)
  define d where "d = 255 - unat y"
  have d: "d + unat y = 255" using unat_byte_less [of y] unfolding d_def by linarith
  have "256 * (total (map2 sub_col xs ys) + little_endian ys + 1)
      = 256 * (little_endian xs + 256 ^ length xs)"
    by (simp only: Cons.IH)
  with d show ?case by (simp add: sub_col_def [of x y] flip: d_def)
qed simp

definition id_value :: "ID \<Rightarrow> nat" where
  "id_value x = big_endian (c_str x)"

definition signs_agree :: "nat set \<Rightarrow> ID \<Rightarrow> ID \<Rightarrow> bool" where
  "signs_agree I a b \<longleftrightarrow> (\<forall>i \<in> I. negative (c_str a ! i) \<longleftrightarrow> negative (c_str b ! i))"

lemma copy_ID [simp]: "copy_ID x = x"
proof -
  have "map ((!) (c_str x)) [0..<20] = c_str x"
    using map_nth [of "c_str x"] by simp
  then show ?thesis by (simp add: copy_ID_def)
qed

lemma ball_butlast:
  "(\<forall>x \<in> set (butlast xs). P x) \<longleftrightarrow> (\<forall>i < length xs - 1. P (xs ! i))"
proof -
  have "set (butlast xs) = (!) xs ` {0..<length xs - 1}"
    by (simp add: butlast_conv_take nth_image)
  then show ?thesis by auto
qed

lemma unmarked_add_cols:
  "length xs = length ys \<Longrightarrow> (\<forall>(s, f) \<in> set (butlast (map2 add_col xs ys)). \<not> f) \<longleftrightarrow>
     (\<forall>i < length xs - 1. negative (xs ! i) \<longleftrightarrow> negative (ys ! i))"
  unfolding ball_butlast by (simp add: add_col_def)

lemma unmarked_sub_cols:
  "length xs = length ys \<Longrightarrow> (\<forall>(s, f) \<in> set (butlast (map2 sub_col xs ys)). \<not> f) \<longleftrightarrow>
     (\<forall>i < length xs - 1. negative (xs ! i) \<longleftrightarrow> negative (ys ! i))"
  unfolding ball_butlast by (simp add: sub_col_def)

lemma all_reversed: "(\<forall>i < n. P (n - i)) \<longleftrightarrow> (\<forall>j \<in> {1..<Suc n}. P j)"
proof (intro iffI ballI allI impI)
  fix j assume all: "\<forall>i < n. P (n - i)" and j: "j \<in> {1..<Suc n}"
  then have "n - j < n" by auto
  with all have "P (n - (n - j))" by blast
  with \<open>j \<in> {1..<Suc n}\<close> show "P j" by simp
next
  fix i assume all: "\<forall>j \<in> {1..<Suc n}. P j" and "i < n"
  then have "n - i \<in> {1..<Suc n}" by auto
  with all show "P (n - i)" by blast
qed

lemma id_value_less: "id_value x < 2 ^ M"
  using big_endian_less [of "c_str x"] by (simp add: id_value_def)

lemma plus_ID_value:
  "id_value (plus_ID a b) = (id_value a + id_value b) mod 2 ^ M \<longleftrightarrow> signs_agree {1..<ID_LEN} a b"
proof -
  let ?t = "map2 add_col (rev (c_str a)) (rev (c_str b))"
  have cols: "\<forall>(s, f) \<in> set ?t. s \<le> 510"
  proof -
    have "unat x + unat y \<le> 510" for x y :: byte
      using unat_byte_less [of x] unat_byte_less [of y] by linarith
    then show ?thesis by (auto simp: add_col_def)
  qed
  have "id_value (plus_ID a b) = little_endian (chain False ?t)"
    by (simp add: id_value_def plus_ID_def c_str_add_assign big_endian_rev)
  moreover have "total ?t = id_value a + id_value b"
    by (simp add: total_add_cols id_value_def big_endian_rev)
  moreover have "(\<forall>(s, f) \<in> set (butlast ?t). \<not> f) \<longleftrightarrow> signs_agree {1..<20} a b"
    using all_reversed [of 19 "\<lambda>j. negative (c_str a ! j) \<longleftrightarrow> negative (c_str b ! j)"]
    by (subst unmarked_add_cols) (simp_all add: signs_agree_def rev_nth)
  ultimately show ?thesis
    using chain_total_iff [OF cols, of False] by (simp add: power_mult [of 2 8 20, simplified])
qed

lemma minus_ID_value:
  "little_endian (c_str (minus_ID a b))
     = (little_endian (c_str a) + (2 ^ M - little_endian (c_str b))) mod 2 ^ M \<longleftrightarrow>
   signs_agree {0..<19} a b"
proof -
  let ?t = "map2 sub_col (c_str a) (c_str b)"
  have cols: "\<forall>(s, f) \<in> set ?t. s \<le> 510"
  proof -
    have "unat x + (255 - unat y) \<le> 510" for x y :: byte
      using unat_byte_less [of x] by linarith
    then show ?thesis by (auto simp: sub_col_def)
  qed
  have p: "(256 :: nat) ^ 20 = 2 ^ 160" by simp
  have "little_endian (c_str b) < 2 ^ 160"
    using little_endian_less [of "c_str b"] by simp
  then have t: "total ?t + of_bool True = little_endian (c_str a) + (2 ^ 160 - little_endian (c_str b))"
    using total_sub_cols [of "c_str a" "c_str b"] by simp
  have "(\<forall>(s, f) \<in> set (butlast ?t). \<not> f) \<longleftrightarrow> signs_agree {0..<19} a b"
    by (subst unmarked_sub_cols) (simp_all add: signs_agree_def Ball_def)
  then show ?thesis
    using chain_total_iff [OF cols, of True] unfolding t
    by (simp add: minus_ID_def c_str_sub_assign)
qed

lemma little_endian_zero: "little_endian bs = 0 \<Longrightarrow> bs = replicate (length bs) 0"
  by (induction bs) (auto simp: unat_eq_0)

lemma minus_ID_self: "minus_ID a a = default_ID"
proof -
  have "little_endian (c_str a) < 2 ^ 160"
    using little_endian_less [of "c_str a"] by simp
  then have "little_endian (c_str (minus_ID a a)) = 0"
    using minus_ID_value [of a a] by (simp add: signs_agree_def)
  then have "c_str (minus_ID a a) = replicate 20 0"
    using little_endian_zero [of "c_str (minus_ID a a)"] by simp
  then show ?thesis by (simp add: default_ID_def ID_eq_iff)
qed

section \<open>Properties\<close>

text \<open>
  C40. \<open>operator+\<close> is the sum modulo \<open>2 ^ M\<close> of the identifiers read most significant byte first
  exactly when below the most significant byte the two operands' bytes agree in sign: the carry
  is bit 8 of a sum of sign-extended chars, which one negative byte flips.
\<close>

theorem plus_exact_iff:
  "id_value (plus_ID a b) = (id_value a + id_value b) mod 2 ^ M \<longleftrightarrow>
   (\<forall>i \<in> {1..<ID_LEN}. negative (c_str a ! i) = negative (c_str b ! i))"
  using plus_ID_value [of a b] by (simp add: signs_agree_def)

theorem plus_exact_iff_witness:
  "id_value (plus_ID (of_bytes (replicate 19 0 @ [0x80])) (of_bytes (replicate 19 0 @ [0x01])))
     \<noteq> (id_value (of_bytes (replicate 19 0 @ [0x80])) + id_value (of_bytes (replicate 19 0 @ [0x01])))
       mod 2 ^ M
   \<and> id_value (plus_ID default_ID default_ID) = (id_value default_ID + id_value default_ID) mod 2 ^ M"
proof -
  have "negative (c_str (of_bytes (replicate 19 0 @ [0x80])) ! 19)
      \<noteq> negative (c_str (of_bytes (replicate 19 0 @ [0x01])) ! 19)"
    by (simp add: negative_def nth_append)
  then have "\<not> (\<forall>i \<in> {1..<ID_LEN}. negative (c_str (of_bytes (replicate 19 0 @ [0x80])) ! i)
      = negative (c_str (of_bytes (replicate 19 0 @ [0x01])) ! i))"
    by (auto intro!: bexI [of _ 19])
  then show ?thesis
    using plus_exact_iff [of default_ID default_ID] plus_exact_iff by blast
qed

text \<open>
  \<open>operator-\<close> runs from the most significant byte to the least, so it is a subtraction of the
  identifiers read least significant byte first, and that exactly when the operands' bytes agree
  in sign below the last; an identifier minus itself is zero.
\<close>

lemma minus_exact_iff:
  "(little_endian (c_str (minus_ID a b))
      = (little_endian (c_str a) + (2 ^ M - little_endian (c_str b))) mod 2 ^ M \<longleftrightarrow>
    (\<forall>i \<in> {0..<ID_LEN - 1}. negative (c_str a ! i) = negative (c_str b ! i)))
   \<and> minus_ID a a = default_ID"
  using minus_ID_value [of a b] minus_ID_self [of a] by (simp add: signs_agree_def)

lemma minus_exact_iff_witness: "minus_ID (of_bytes (replicate 20 5)) (of_bytes (replicate 20 5)) = default_ID"
  using minus_exact_iff [of "of_bytes (replicate 20 5)" "of_bytes (replicate 20 5)"] by simp

end
