(* ===== verification/Finger_Table.thy ===== *)
theory Finger_Table
  imports INode ID_Arith
begin

text \<open>
  The class \<open>FingerTable\<close> of \<open>src/FingerTable.h\<close> and \<open>src/FingerTable.cpp\<close>: \<open>M\<close> = 160 slots of
  shared pointers to nodes, the search for the nearest entry, the slot operations, the start of
  an interval, the removal of a node and the printer. The locale \<open>finger_slots\<close> is the
  interface the local node relies on.
\<close>

section \<open>Node pointers\<close>

text \<open>
  A \<open>Node\<close> is a shared pointer: null (\<open>None\<close>), the local node itself, or a \<open>RemoteNode\<close> object.
  Pointers are compared by identity, so a remote object carries the number of its allocation.
\<close>

datatype node = This | Remote nat inode

type_synonym node_ptr = "node option"

fun same_object :: "node \<Rightarrow> node \<Rightarrow> bool" where
  "same_object This This = True"
| "same_object (Remote i d) (Remote j e) = (i = j)"
| "same_object _ _ = False"

fun same_pointer :: "node_ptr \<Rightarrow> node_ptr \<Rightarrow> bool" where
  "same_pointer None None = True"
| "same_pointer (Some a) (Some b) = same_object a b"
| "same_pointer _ _ = False"

fun node_data :: "inode \<Rightarrow> node \<Rightarrow> inode" where
  "node_data this This = this"
| "node_data this (Remote i d) = d"

lemma same_object_refl [simp]: "same_object n n"
  by (cases n) simp_all

lemma same_pointer_refl [simp]: "same_pointer p p"
  by (cases p) simp_all

lemma same_pointer_Some: "same_pointer p (Some n) \<longleftrightarrow> (\<exists>m. p = Some m \<and> same_object m n)"
  by (cases p) simp_all

lemma same_object_This [simp]: "same_object n This \<longleftrightarrow> n = This"
  by (cases n) simp_all

section \<open>The object\<close>

record finger_table =
  entries :: "node_ptr list"
  ft_id :: ID

definition new_FingerTable :: finger_table where
  "new_FingerTable = \<lparr>entries = replicate M None, ft_id = default_ID\<rparr>"

definition new_FingerTable_id :: "ID \<Rightarrow> finger_table" where
  "new_FingerTable_id i = \<lparr>entries = replicate M None, ft_id = copy_ID i\<rparr>"

text \<open>
  The search loop of \<open>getNode\<close> tests the slot before the bound, so it also reads the memory just
  after the last slot; \<open>past\<close> says whether that memory reads as a null pointer (with g++ it is
  the virtual table pointer of \<open>_id\<close>, so it does not).
\<close>

definition slot_null :: "bool \<Rightarrow> node_ptr list \<Rightarrow> nat \<Rightarrow> bool" where
  "slot_null past es index = (if index < M then es ! index = None else past)"

function getNode_loop :: "bool \<Rightarrow> node_ptr list \<Rightarrow> nat \<Rightarrow> nat" where
  "getNode_loop past es index =
     (if slot_null past es index \<and> index < M then getNode_loop past es (index + 1) else index)"
  by pat_completeness auto
termination
  by (relation "measure (\<lambda>(past, es, index). M - index)") auto

declare getNode_loop.simps [simp del]

definition getNode :: "bool \<Rightarrow> finger_table \<Rightarrow> nat \<Rightarrow> node_ptr result" where
  "getNode past t index =
     (if index \<ge> M
      then throw_literal_plus ''FingerTable::getNode() - index out of bounds: '' (int index)
      else
        let index = getNode_loop past (entries t) index
        in if index = M then Inr None else Inr (entries t ! index))"

definition getNodeAt :: "finger_table \<Rightarrow> nat \<Rightarrow> node_ptr result" where
  "getNodeAt t index =
     (if index \<ge> M
      then throw_literal_plus ''FingerTable::getNodeAt() - index out of bounds: '' (int index)
      else Inr (entries t ! index))"

definition setNode :: "finger_table \<Rightarrow> nat \<Rightarrow> node_ptr \<Rightarrow> finger_table result" where
  "setNode t index n =
     (if index \<ge> M
      then throw_literal_plus ''FingerTable::setNode() - index out of bounds: '' (int index)
      else Inr (t\<lparr>entries := (entries t)[index := n]\<rparr>))"

definition start :: "finger_table \<Rightarrow> nat \<Rightarrow> ID result" where
  "start t k =
     (if k \<ge> M
      then throw_literal_plus ''FingerTable::start() - k out of bounds: '' (int k)
      else
        let b = (replicate ID_LEN 0)[ID_LEN - (k div 8) - 1 := push_bit (k mod 8) 0x01]
        in bind_result (chars_ID b) (\<lambda>bID. Inr (plus_ID (ft_id t) bID)))"

definition setId :: "finger_table \<Rightarrow> ID \<Rightarrow> finger_table" where
  "setId t i = t\<lparr>ft_id := i\<rparr>"

definition removeNode :: "finger_table \<Rightarrow> node_ptr \<Rightarrow> finger_table" where
  "removeNode t n =
     (if \<not> same_pointer n None
      then t\<lparr>entries := map (\<lambda>e. if same_pointer e n then None else e) (entries t)\<rparr>
      else t)"

section \<open>The printer\<close>

definition hexPrinter :: "bytes \<Rightarrow> bytes" where
  "hexPrinter c = concat (map (\<lambda>b. 0x20 # setw_2 (hex_number (unat b))) c)"

text \<open>
  \<open>getIdShort\<close> builds a string from seven characters that no NUL follows, so the string goes on
  with the memory after the array, up to the first NUL in it.
\<close>

definition short_nibble :: "byte \<Rightarrow> byte" where
  "short_nibble d = (if unat d \<le> 9 then d + 48 else d + 97 - 10)"

definition getIdShort :: "bytes \<Rightarrow> ID \<Rightarrow> bytes" where
  "getIdShort after i =
     (let first = c_str i ! 0;
          last = c_str i ! (ID_LEN - 1);
          st = [short_nibble (drop_bit 4 first), short_nibble (first AND 0x0f), 46, 46, 46,
                short_nibble (drop_bit 4 last), short_nibble (last AND 0x0f)]
      in takeWhile (\<lambda>c. c \<noteq> 0) (st @ after))"

definition entry_line :: "bytes \<Rightarrow> inode \<Rightarrow> finger_table \<Rightarrow> nat \<Rightarrow> bytes result" where
  "entry_line after this t i =
     (case entries t ! i of
        None \<Rightarrow> Inr []
      | Some n \<Rightarrow>
          bind_result (start t i) (\<lambda>s.
            Inr (dec_number i @ [9] @ getIdShort after s @ [9]
                 @ getIdShort after (nd_id (node_data this n)) @ [9]
                 @ getIdShort after (plus_ID s (nd_id (node_data this n))) @ [9]
                 @ nd_name (node_data this n) @ [9, 10])))"

text \<open>The identifier itself goes to the standard output, not into the returned string.\<close>

definition toString :: "bytes \<Rightarrow> inode \<Rightarrow> finger_table \<Rightarrow> (bytes \<times> bytes) result" where
  "toString after this t =
     bind_result
       (fold (\<lambda>i r. bind_result r (\<lambda>s. bind_result (entry_line after this t i) (\<lambda>l. Inr (s @ l))))
         [0..<M] (Inr []))
       (\<lambda>ls. Inr (hexPrinter (c_str (ft_id t)),
                  cstr ''Finger Table: n = '' @ [10] @ cstr ''i'' @ [9] @ cstr ''start'' @ [9]
                  @ cstr ''id'' @ [9] @ cstr ''start+id'' @ [9] @ cstr ''name'' @ [10] @ ls))"

section \<open>The slots\<close>

fun first_some :: "'a option list \<Rightarrow> 'a option" where
  "first_some [] = None"
| "first_some (None # es) = first_some es"
| "first_some (Some n # es) = Some n"

lemma first_some_in: "first_some es = Some n \<Longrightarrow> Some n \<in> set es"
  by (induction es rule: first_some.induct) auto

lemma first_some_None: "first_some es = None \<longleftrightarrow> set es \<subseteq> {None}"
  by (induction es rule: first_some.induct) auto

definition full_table :: "finger_table \<Rightarrow> bool" where
  "full_table t \<longleftrightarrow> length (entries t) = M"

lemma getNode_loop_first:
  "length es = M \<Longrightarrow> i \<le> M \<Longrightarrow>
     getNode_loop past es i \<le> M \<and>
     (if getNode_loop past es i = M then None else es ! getNode_loop past es i)
       = first_some (drop i es)"
proof (induction past es i rule: getNode_loop.induct)
  case (1 past es i)
  show ?case
  proof (cases "i < M")
    case False
    with "1.prems" have i: "i = M" by simp
    have "getNode_loop past es M = M" by (subst getNode_loop.simps) simp
    with i "1.prems"(1) show ?thesis by simp
  next
    case True
    then have d: "drop i es = es ! i # drop (Suc i) es"
      using "1.prems"(1) by (simp add: Cons_nth_drop_Suc)
    show ?thesis
    proof (cases "es ! i")
      case None
      then have g: "slot_null past es i \<and> i < M" using True by (simp add: slot_null_def)
      then have "getNode_loop past es i = getNode_loop past es (i + 1)"
        by (simp add: getNode_loop.simps [of past es i])
      with "1.IH" [OF g] "1.prems" True None d show ?thesis by (auto split: if_split_asm)
    next
      case (Some n)
      then show ?thesis
        using True d by (simp add: getNode_loop.simps [of past es i] slot_null_def)
    qed
  qed
qed

lemma getNode_first:
  "full_table t \<Longrightarrow> i < M \<Longrightarrow> getNode past t i = Inr (first_some (drop i (entries t)))"
  using getNode_loop_first [of "entries t" i past]
  by (auto simp: getNode_def full_table_def Let_def)

text \<open>
  Every literal of this class is shorter than \<open>M\<close>, so an index out of range never reaches the
  exception the code means to throw.
\<close>

lemma finger_out_of_range:
  assumes "M \<le> i"
  shows "getNode past t i = Inl (UndefinedBehaviour ReadPastEnd)"
    and "getNodeAt t i = Inl (UndefinedBehaviour ReadPastEnd)"
    and "setNode t i n = Inl (UndefinedBehaviour ReadPastEnd)"
    and "start t i = Inl (UndefinedBehaviour ReadPastEnd)"
  using assms
  by (simp_all add: getNode_def getNodeAt_def setNode_def start_def throw_literal_plus_def)

section \<open>The interface\<close>

locale finger_slots =
  fixes slots :: "'t \<Rightarrow> node_ptr list"
    and get_nearest :: "'t \<Rightarrow> nat \<Rightarrow> node_ptr result"
    and get_at :: "'t \<Rightarrow> nat \<Rightarrow> node_ptr result"
    and set_at :: "'t \<Rightarrow> nat \<Rightarrow> node_ptr \<Rightarrow> 't result"
    and clear :: "'t \<Rightarrow> node_ptr \<Rightarrow> 't"
    and wf :: "'t \<Rightarrow> bool"
  assumes length_slots: "wf t \<Longrightarrow> length (slots t) = M"
    and nearest_first: "wf t \<Longrightarrow> i < M \<Longrightarrow> get_nearest t i = Inr (first_some (drop i (slots t)))"
    and get_at_slot: "wf t \<Longrightarrow> i < M \<Longrightarrow> get_at t i = Inr (slots t ! i)"
    and set_at_slot: "wf t \<Longrightarrow> i < M \<Longrightarrow>
          \<exists>t'. set_at t i n = Inr t' \<and> wf t' \<and> slots t' = (slots t)[i := n]"
    and clear_slots: "wf t \<Longrightarrow> wf (clear t p) \<and> slots (clear t p) =
          (if p = None then slots t else map (\<lambda>e. if same_pointer e p then None else e) (slots t))"
begin

definition used :: "'t \<Rightarrow> nat" where
  "used t = length (filter (\<lambda>e. e \<noteq> None) (slots t))"

lemma nearest_in_slots:
  assumes "wf t" and "i < M" and "get_nearest t i = Inr (Some n)"
  shows "Some n \<in> set (slots t)"
  using assms nearest_first [of t i] first_some_in [of "drop i (slots t)" n]
  by (auto dest: in_set_dropD)

lemma get_after_set:
  assumes "wf t" and "i < M" and "j < M"
  shows "\<exists>t'. set_at t i n = Inr t' \<and> get_at t' j = (if i = j then Inr n else get_at t j)"
  using set_at_slot [OF assms(1,2), of n] assms get_at_slot length_slots by fastforce

lemma nearest_after_set:
  assumes "wf t" and "i < M"
  shows "\<exists>t'. set_at t i (Some n) = Inr t' \<and> get_nearest t' i = Inr (Some n)"
proof -
  obtain t' where t': "set_at t i (Some n) = Inr t'" "wf t'" "slots t' = (slots t)[i := Some n]"
    using set_at_slot [OF assms] by blast
  have "drop i ((slots t)[i := Some n]) = Some n # drop (Suc i) (slots t)"
    using assms length_slots [of t] by (simp add: drop_update_swap Cons_nth_drop_Suc [symmetric])
  with t' assms show ?thesis by (auto simp: nearest_first)
qed

lemma clear_used:
  assumes "wf t" and "Some n \<in> set (slots t)"
  shows "used (clear t (Some n)) < used t"
proof -
  have "length (filter (\<lambda>e. e \<noteq> None) (map (\<lambda>e. if same_pointer e p then None else e) es)) \<le>
      length (filter (\<lambda>e. e \<noteq> None) es)" for es p
    by (induction es) auto
  moreover have "Some n \<in> set es \<Longrightarrow>
      length (filter (\<lambda>e. e \<noteq> None) (map (\<lambda>e. if same_pointer e (Some n) then None else e) es)) <
      length (filter (\<lambda>e. e \<noteq> None) es)" for es
  proof (induction es)
    case (Cons e es)
    with calculation [of "Some n" es] show ?case by (cases "e = Some n") (auto simp: less_Suc_eq_le)
  qed simp
  ultimately show ?thesis using assms clear_slots [of t "Some n"] by (simp add: used_def)
qed

lemma clear_removes:
  assumes "wf t" and "i < M"
  shows "get_at (clear t (Some n)) i \<noteq> Inr (Some n)"
  using assms clear_slots [of t "Some n"] get_at_slot [of "clear t (Some n)" i] length_slots [of t]
  by auto

end

interpretation fingers: finger_slots entries "getNode past" getNodeAt setNode removeNode full_table
proof
  fix t :: finger_table and i n p
  assume t: "full_table t"
  show "length (entries t) = M" using t by (simp add: full_table_def)
  show "full_table (removeNode t p) \<and> entries (removeNode t p) =
      (if p = None then entries t else map (\<lambda>e. if same_pointer e p then None else e) (entries t))"
    using t by (cases p) (auto simp: removeNode_def full_table_def)
  assume i: "i < M"
  show "getNode past t i = Inr (first_some (drop i (entries t)))" by (rule getNode_first [OF t i])
  show "getNodeAt t i = Inr (entries t ! i)" using i by (simp add: getNodeAt_def)
  show "\<exists>t'. setNode t i n = Inr t' \<and> full_table t' \<and> entries t' = (entries t)[i := n]"
    using t i by (simp add: setNode_def full_table_def)
qed

section \<open>The start of an interval\<close>

definition power_bytes :: "nat \<Rightarrow> bytes" where
  "power_bytes k = (replicate ID_LEN 0)[ID_LEN - (k div 8) - 1 := push_bit (k mod 8) 0x01]"

lemma unat_power_byte:
  assumes "j < 8"
  shows "unat (push_bit j (1 :: byte)) = 2 ^ j" and "unat (2 ^ j :: byte) = 2 ^ j"
proof -
  have "j \<in> {0, 1, 2, 3, 4, 5, 6, 7}" using assms by auto
  then have "unat (2 ^ j :: byte) = 2 ^ j" by auto
  then show "unat (2 ^ j :: byte) = 2 ^ j" "unat (push_bit j (1 :: byte)) = 2 ^ j"
    by (simp_all add: push_bit_eq_mult)
qed

lemma big_endian_replicate_0 [simp]: "big_endian (replicate n 0) = 0"
  by (induction n) (simp_all add: big_endian_Cons)

lemma big_endian_single:
  "i < n \<Longrightarrow> big_endian ((replicate n 0)[i := c]) = unat c * 256 ^ (n - i - 1)"
proof (induction n arbitrary: i)
  case (Suc n)
  then show ?case by (cases i) (simp_all add: big_endian_Cons)
qed simp

lemma power_bytes_value: "k < M \<Longrightarrow> id_value (of_bytes (power_bytes k)) = 2 ^ k"
proof -
  assume k: "k < M"
  then have d: "k div 8 < 20" by simp
  have "(2 :: nat) ^ k = 2 ^ (k mod 8) * 256 ^ (k div 8)"
  proof -
    have "(256 :: nat) ^ (k div 8) = 2 ^ (8 * (k div 8))" by (simp add: power_mult)
    then show ?thesis by (metis mod_mult_div_eq power_add)
  qed
  moreover have "20 - (20 - k div 8 - 1) - 1 = k div 8" using d by simp
  ultimately show ?thesis
    using d by (simp add: id_value_def power_bytes_def big_endian_single unat_power_byte)
qed

lemma start_eq: "k < M \<Longrightarrow> start t k = Inr (plus_ID (ft_id t) (of_bytes (power_bytes k)))"
  by (simp add: start_def power_bytes_def chars_ID_exact)

lemma negative_power_byte:
  assumes "k < M" and "i < ID_LEN"
  shows "negative (power_bytes k ! i) \<longleftrightarrow> i = 19 - k div 8 \<and> k mod 8 = 7"
proof -
  have "2 ^ (k mod 8) \<ge> (128 :: nat) \<longleftrightarrow> k mod 8 = 7"
  proof
    assume "2 ^ (k mod 8) \<ge> (128 :: nat)"
    then have "(2 :: nat) ^ 7 \<le> 2 ^ (k mod 8)" by simp
    then have "7 \<le> k mod 8" by (subst (asm) power_increasing_iff) simp_all
    then show "k mod 8 = 7" by simp
  qed simp
  moreover have "k div 8 < 20" using assms by simp
  ultimately show ?thesis
    using assms by (auto simp: power_bytes_def negative_def nth_list_update unat_power_byte)
qed

lemma start_exact:
  assumes "k < M"
  shows "\<exists>s. start t k = Inr s \<and>
    (id_value s = (id_value (ft_id t) + 2 ^ k) mod 2 ^ M \<longleftrightarrow>
      (\<forall>i \<in> {1..<ID_LEN}. negative (c_str (ft_id t) ! i) \<longleftrightarrow> i = 19 - k div 8 \<and> k mod 8 = 7))"
proof -
  have "c_str (of_bytes (power_bytes k)) = power_bytes k" by (simp add: power_bytes_def)
  then have "signs_agree {1..<ID_LEN} (ft_id t) (of_bytes (power_bytes k)) \<longleftrightarrow>
      (\<forall>i \<in> {1..<ID_LEN}. negative (c_str (ft_id t) ! i) \<longleftrightarrow> i = 19 - k div 8 \<and> k mod 8 = 7)"
    using negative_power_byte [OF assms] by (auto simp: signs_agree_def)
  with plus_ID_value [of "ft_id t" "of_bytes (power_bytes k)"] start_eq [OF assms, of t]
    power_bytes_value [OF assms]
  show ?thesis by simp
qed

section \<open>Properties\<close>

text \<open>
  \<open>getNode\<close> returns the first entry at or after the index, null when there is none, and the
  slot it reads past the end of the table never matters.
\<close>

lemma getNode_nearest:
  assumes "length (entries t) = M" and "i < M"
  shows "getNode past t i =
    Inr (case dropWhile (\<lambda>e. e = None) (drop i (entries t)) of [] \<Rightarrow> None | e # es \<Rightarrow> e)"
proof -
  have "first_some es = (case dropWhile (\<lambda>e. e = None) es of [] \<Rightarrow> None | e # _ \<Rightarrow> e)"
    for es :: "node_ptr list"
    by (induction es rule: first_some.induct) auto
  with assms show ?thesis by (simp add: getNode_first full_table_def)
qed

lemma getNode_nearest_witness:
  "getNode True (new_FingerTable\<lparr>entries := (replicate M None)[3 := Some This]\<rparr>) 1 = Inr (Some This)"
  using getNode_nearest [of "new_FingerTable\<lparr>entries := (replicate M None)[3 := Some This]\<rparr>" 1 True]
  by (simp add: numeral_eq_Suc)

text \<open>
  What \<open>setNode\<close> stores at an index is what \<open>getNodeAt\<close> and \<open>getNode\<close> find there, and no
  other slot changes.
\<close>

lemma setNode_getNodeAt:
  assumes "length (entries t) = M" and "i < M" and "j < M"
  shows "\<exists>t'. setNode t i (Some n) = Inr t' \<and> ft_id t' = ft_id t
    \<and> getNodeAt t' j = (if i = j then Inr (Some n) else getNodeAt t j)
    \<and> getNode past t' i = Inr (Some n)"
proof -
  have t: "full_table t" using assms by (simp add: full_table_def)
  show ?thesis
    using fingers.get_after_set [OF t assms(2,3), of "Some n"]
      fingers.nearest_after_set [OF t assms(2), of n past]
    using assms(2) by (auto simp: setNode_def)
qed

text \<open>
  \<open>removeNode\<close> clears exactly the slots that hold the very object it is given; an entry for
  the same node held by another object stays.
\<close>

lemma removeNode_slots:
  assumes "length (entries t) = M" and "i < M"
  shows "getNodeAt (removeNode t p) i =
    (case (entries t ! i, p) of
       (Some (Remote a d), Some (Remote b e)) \<Rightarrow> Inr (if a = b then None else Some (Remote a d))
     | (Some This, Some This) \<Rightarrow> Inr None
     | (e, _) \<Rightarrow> Inr e)"
  using assms
  by (cases "entries t ! i"; cases p; cases "the (entries t ! i)"; cases "the p")
    (simp_all add: removeNode_def getNodeAt_def)

text \<open>
  \<open>start(k)\<close> is the documented \<open>(n + 2 ^ k) mod 2 ^ M\<close> exactly when below its most significant
  byte the identifier has no negative byte, apart from the byte of bit \<open>k\<close> when that is a top bit.
\<close>

lemma start_documented_iff:
  assumes "k < M"
  shows "\<exists>s. start t k = Inr s \<and>
    (id_value s = (id_value (ft_id t) + 2 ^ k) mod 2 ^ M \<longleftrightarrow>
      (\<forall>i \<in> {1..<ID_LEN}. negative (c_str (ft_id t) ! i) \<longleftrightarrow> i = 19 - k div 8 \<and> k mod 8 = 7))"
  by (rule start_exact [OF assms])

lemma start_documented_iff_witness:
  "\<exists>s. start new_FingerTable 9 = Inr s \<and> id_value s = (id_value default_ID + 2 ^ 9) mod 2 ^ M"
  using start_documented_iff [of 9 new_FingerTable]
  by (auto simp: new_FingerTable_def default_ID_def negative_def)

text \<open>
  No index out of range ends in the exception the code builds: the literal is shorter than
  the index, so adding the index to it is undefined behaviour.
\<close>

lemma finger_index_out_of_range:
  assumes "M \<le> i"
  shows "getNode past t i = Inl (UndefinedBehaviour ReadPastEnd)
    \<and> getNodeAt t i = Inl (UndefinedBehaviour ReadPastEnd)
    \<and> setNode t i n = Inl (UndefinedBehaviour ReadPastEnd)
    \<and> start t i = Inl (UndefinedBehaviour ReadPastEnd)"
  using finger_out_of_range [OF assms] by simp

end
