(* ===== verification/Local_State.thy ===== *)
theory Local_State
  imports Finger_Table
begin

text \<open>
  The data members of \<open>LocalNode\<close> (\<open>src/LocalNode.h\<close>) and the methods of \<open>src/LocalNode.cpp\<close>
  that touch them without talking to another node: construction, \<open>thisPtr\<close>, the getters and
  setters that run under the mutex, and the life of the server and periodic threads. Each is a
  function of the state of one process, so it is atomic in the interleavings of theory \<open>Network\<close>.
\<close>

section \<open>State\<close>

text \<open>
  \<open>ln_rcvFn\<close> says whether \<open>setReceiveFunction\<close> has been called (the program only ever sets
  \<open>ChatClient::receiveMessage\<close>, which prints to \<open>ln_out\<close>); \<open>ln_shared\<close> whether a shared pointer
  owns the object yet; \<open>ln_listening\<close> whether the server thread holds an open acceptor;
  \<open>ln_periodic\<close> whether the periodic thread runs; \<open>ln_next\<close> numbers the \<open>RemoteNode\<close> objects the
  process allocates; \<open>ln_out\<close> and \<open>ln_err\<close> are what the process has printed.
\<close>

record local_node =
  ln_inode :: inode
  ln_predecessor :: node_ptr
  ln_finger :: finger_table
  ln_rcvFn :: bool
  ln_stop :: bool
  ln_serverRunning :: bool
  ln_periodic :: bool
  ln_listening :: bool
  ln_shared :: bool
  ln_next :: nat
  ln_out :: bytes
  ln_err :: bytes

type_synonym 'a action = "local_node \<Rightarrow> 'a result \<times> local_node"

definition get_id :: "local_node \<Rightarrow> node \<Rightarrow> ID" where
  "get_id s n = nd_id (node_data (ln_inode s) n)"

section \<open>Construction\<close>

text \<open>\<open>init\<close> starts both threads; the object is not owned by a shared pointer yet.\<close>

definition init :: "inode \<Rightarrow> local_node" where
  "init d =
     \<lparr>ln_inode = d, ln_predecessor = None, ln_finger = setId new_FingerTable (nd_id d),
      ln_rcvFn = False, ln_stop = False, ln_serverRunning = True, ln_periodic = True,
      ln_listening = False, ln_shared = False, ln_next = 0, ln_out = [], ln_err = []\<rparr>"

definition new_LocalNode :: "bytes \<Rightarrow> bytes \<Rightarrow> u32 \<Rightarrow> local_node result" where
  "new_LocalNode name host port = bind_result (new_INode name host port) (\<lambda>d. Inr (init d))"

definition copy_LocalNode :: "inode \<Rightarrow> local_node result" where
  "copy_LocalNode n = bind_result (copy_INode n) (\<lambda>d. Inr (init d))"

text \<open>\<open>Node(new LocalNode(...))\<close>: the shared pointer takes ownership after the constructor.\<close>

definition own_LocalNode :: "local_node \<Rightarrow> local_node" where
  "own_LocalNode s = s\<lparr>ln_shared := True\<rparr>"

definition thisPtr :: "node action" where
  "thisPtr s = (if ln_shared s then Inr This else Inl BadWeakPtr, s)"

definition setReceiveFunction :: "local_node \<Rightarrow> local_node" where
  "setReceiveFunction s = s\<lparr>ln_rcvFn := True\<rparr>"

section \<open>Getters and setters under the mutex\<close>

text \<open>The setters put \<open>thisPtr()\<close> in place of a pointer to a node with this node's identifier.\<close>

definition own_pointer :: "node_ptr \<Rightarrow> node_ptr action" where
  "own_pointer n s =
     (case n of
        None \<Rightarrow> (Inr None, s)
      | Some m \<Rightarrow>
          if eq_ID (get_id s m) (nd_id (ln_inode s))
          then (bind_result (fst (thisPtr s)) (\<lambda>t. Inr (Some t)), s)
          else (Inr n, s))"

definition get_predecessor :: "node_ptr action" where
  "get_predecessor s = (Inr (ln_predecessor s), s)"

definition set_predecessor :: "node_ptr \<Rightarrow> unit action" where
  "set_predecessor n s =
     (case fst (own_pointer n s) of
        Inl e \<Rightarrow> (Inl e, s)
      | Inr p \<Rightarrow> (Inr (), s\<lparr>ln_predecessor := p\<rparr>))"

definition get_successor :: "node_ptr action" where
  "get_successor s =
     (case getNode False (ln_finger s) 0 of
        Inl e \<Rightarrow> (Inl e, s)
      | Inr (Some n) \<Rightarrow> (getNode False (ln_finger s) 0, s)
      | Inr None \<Rightarrow>
          (case bind_result (fst (thisPtr s)) (\<lambda>t. setNode (ln_finger s) 0 (Some t)) of
             Inl e \<Rightarrow> (Inl e, s)
           | Inr t \<Rightarrow> (getNode False t 0, s\<lparr>ln_finger := t\<rparr>)))"

definition set_successor :: "node_ptr \<Rightarrow> unit action" where
  "set_successor n s =
     (case bind_result (fst (own_pointer n s)) (\<lambda>p. setNode (ln_finger s) 0 p) of
        Inl e \<Rightarrow> (Inl e, s)
      | Inr t \<Rightarrow> (Inr (), s\<lparr>ln_finger := t\<rparr>))"

section \<open>Other accesses to the object\<close>

text \<open>The finger table is also used outside the mutex.\<close>

definition read_finger :: "nat \<Rightarrow> node_ptr action" where
  "read_finger i s = (getNode False (ln_finger s) i, s)"

definition write_finger :: "nat \<Rightarrow> node_ptr \<Rightarrow> unit action" where
  "write_finger i n s =
     (case setNode (ln_finger s) i n of
        Inl e \<Rightarrow> (Inl e, s)
      | Inr t \<Rightarrow> (Inr (), s\<lparr>ln_finger := t\<rparr>))"

definition forget_finger :: "node_ptr \<Rightarrow> unit action" where
  "forget_finger n s = (Inr (), s\<lparr>ln_finger := removeNode (ln_finger s) n\<rparr>)"

definition finger_start :: "nat \<Rightarrow> ID action" where
  "finger_start i s = (start (ln_finger s) i, s)"

definition allocate :: "inode \<Rightarrow> node action" where
  "allocate d s = (Inr (Remote (ln_next s) d), s\<lparr>ln_next := ln_next s + 1\<rparr>)"

text \<open>\<open>_rcvFn(message)\<close>: an empty function object throws; otherwise the message is printed.\<close>

definition receiveMessage :: "bytes \<Rightarrow> local_node \<Rightarrow> local_node" where
  "receiveMessage message s = s\<lparr>ln_out := ln_out s @ message @ [10]\<rparr>"

definition receive_here :: "bytes \<Rightarrow> unit action" where
  "receive_here message s =
     (if ln_rcvFn s then (Inr (), receiveMessage message s) else (Inl BadFunctionCall, s))"

section \<open>The threads\<close>

text \<open>
  The server thread: \<open>binds\<close> says whether the acceptor can be bound to the port. Once it
  listens it looks at \<open>_stop\<close> only after accepting a connection.
\<close>

definition server_start :: "bool \<Rightarrow> local_node \<Rightarrow> local_node" where
  "server_start binds s =
     (if binds \<and> \<not> ln_stop s
      then s\<lparr>ln_serverRunning := True, ln_listening := True\<rparr>
      else s\<lparr>ln_serverRunning := False, ln_listening := False\<rparr>)"

definition server_accept :: "local_node \<Rightarrow> local_node" where
  "server_accept s =
     (if ln_stop s then s\<lparr>ln_serverRunning := False, ln_listening := False\<rparr> else s)"

text \<open>The end of a round of the periodic thread: a stopped server is started again.\<close>

definition restart_server :: "bool \<Rightarrow> local_node \<Rightarrow> local_node" where
  "restart_server binds s = (if ln_serverRunning s then s else server_start binds s)"

text \<open>The top of the periodic loop.\<close>

definition periodic_exit :: "local_node \<Rightarrow> local_node" where
  "periodic_exit s = (if ln_stop s then s\<lparr>ln_periodic := False\<rparr> else s)"

text \<open>The destructor sets \<open>_stop\<close> and then joins both threads.\<close>

definition request_stop :: "local_node \<Rightarrow> local_node" where
  "request_stop s = s\<lparr>ln_stop := True\<rparr>"

definition joined :: "local_node \<Rightarrow> bool" where
  "joined s \<longleftrightarrow> \<not> ln_periodic s \<and> \<not> ln_listening s"

section \<open>Properties\<close>

text \<open>
  Asked to stop, the periodic thread leaves its loop by itself, but a server thread that
  waits for a connection does not: the destructor's \<open>join\<close> returns only once a peer connects.
\<close>

lemma destructor_needs_connection:
  assumes "ln_listening s" and "\<not> ln_stop s"
  shows "server_accept s = s
    \<and> \<not> ln_periodic (periodic_exit (request_stop s))
    \<and> \<not> joined (periodic_exit (request_stop s))
    \<and> joined (server_accept (periodic_exit (request_stop s)))"
  using assms by (simp add: periodic_exit_def request_stop_def joined_def server_accept_def)

lemma destructor_needs_connection_witness:
  "\<not> joined (periodic_exit (request_stop (server_start True
      (init \<lparr>nd_name = [98], nd_host = [104], nd_port = 1, nd_id = default_ID\<rparr>))))"
  using destructor_needs_connection
    [of "server_start True (init \<lparr>nd_name = [98], nd_host = [104], nd_port = 1, nd_id = default_ID\<rparr>)"]
  by (simp add: server_start_def init_def)

end
