(* ===== verification/Program.thy ===== *)
theory Program
  imports Local_State
begin

text \<open>
  Code that runs in one process and talks to others, as a value: a program returns, fails,
  performs one atomic access to its process's \<open>LocalNode\<close>, or exchanges a message over a new
  connection. Keeping the accesses apart is what lets theory \<open>Network\<close> interleave the threads of
  all processes at every point where the code can be interrupted.
\<close>

section \<open>Programs\<close>

text \<open>
  \<open>Act u k\<close> replaces the state \<open>s\<close> by \<open>u s\<close> and goes on with \<open>k s\<close>. \<open>Exchange host port m wait k\<close>
  resolves the address, connects and writes \<open>m\<close>; when \<open>wait\<close> holds it then reads until the
  peer closes the connection. \<open>k\<close> gets \<open>None\<close> when no connection can be made, else what the peer
  wrote. \<open>OutOfFuel\<close> marks the bound of a loop or recursion that is cut off.
\<close>

datatype 'a prog =
    Ret 'a
  | Fail cxx_error
  | OutOfFuel
  | Act "local_node \<Rightarrow> local_node" "local_node \<Rightarrow> 'a prog"
  | Exchange bytes bytes bytes bool "bytes option \<Rightarrow> 'a prog"

primrec bind_prog :: "'a prog \<Rightarrow> ('a \<Rightarrow> 'b prog) \<Rightarrow> 'b prog" where
  "bind_prog (Ret x) f = f x"
| "bind_prog (Fail e) f = Fail e"
| "bind_prog OutOfFuel f = OutOfFuel"
| "bind_prog (Act u k) f = Act u (\<lambda>s. bind_prog (k s) f)"
| "bind_prog (Exchange h p m w k) f = Exchange h p m w (\<lambda>r. bind_prog (k r) f)"

text \<open>\<open>catch (std::exception& e)\<close>\<close>

primrec catch_prog :: "'a prog \<Rightarrow> (cxx_error \<Rightarrow> 'a prog) \<Rightarrow> 'a prog" where
  "catch_prog (Ret x) h = Ret x"
| "catch_prog (Fail e) h = (if is_exception e then h e else Fail e)"
| "catch_prog OutOfFuel h = OutOfFuel"
| "catch_prog (Act u k) h = Act u (\<lambda>s. catch_prog (k s) h)"
| "catch_prog (Exchange a p m w k) h = Exchange a p m w (\<lambda>r. catch_prog (k r) h)"

definition lift_result :: "'a result \<Rightarrow> 'a prog" where
  "lift_result r = (case r of Inl e \<Rightarrow> Fail e | Inr x \<Rightarrow> Ret x)"

definition atomic :: "'a action \<Rightarrow> 'a prog" where
  "atomic f = Act (\<lambda>s. snd (f s)) (\<lambda>s. lift_result (fst (f s)))"

definition update :: "(local_node \<Rightarrow> local_node) \<Rightarrow> unit prog" where
  "update f = Act f (\<lambda>s. Ret ())"

text \<open>\<open>_name\<close>, \<open>_host\<close>, \<open>_port\<close> and \<open>_id\<close> of the local node never change.\<close>

definition this_inode :: "inode prog" where
  "this_inode = Act (\<lambda>s. s) (\<lambda>s. Ret (ln_inode s))"

definition this_pointer :: "node_ptr prog" where
  "this_pointer = bind_prog (atomic thisPtr) (\<lambda>n. Ret (Some n))"

text \<open>\<open>n->getId()\<close>, \<open>n->serialize()\<close> and the like need a pointer that is not null.\<close>

definition deref :: "node_ptr \<Rightarrow> inode prog" where
  "deref p =
     (case p of
        None \<Rightarrow> Fail (UndefinedBehaviour NullDereference)
      | Some This \<Rightarrow> this_inode
      | Some (Remote i d) \<Rightarrow> Ret d)"

lemma bind_prog_assoc: "bind_prog (bind_prog m f) g = bind_prog m (\<lambda>x. bind_prog (f x) g)"
  by (induction m) simp_all

lemma bind_prog_Ret [simp]: "bind_prog m Ret = m"
  by (induction m) simp_all

lemma lift_result_simps [simp]:
  "lift_result (Inl e) = Fail e"
  "lift_result (Inr x) = Ret x"
  by (simp_all add: lift_result_def)

section \<open>Execution by one process\<close>

text \<open>
  The processes by number, and the messages whose sender has already closed the connection and
  whose handler has not run yet. A process that has died or exited is not there.
\<close>

record world =
  procs :: "nat \<Rightarrow> local_node option"
  inflight :: "(nat \<times> bytes) list"

definition set_proc :: "nat \<Rightarrow> local_node option \<Rightarrow> world \<Rightarrow> world" where
  "set_proc p s w = w\<lparr>procs := (procs w)(p := s)\<rparr>"

datatype 'a outcome = Returned 'a | Raised cxx_error | Killed

text \<open>
  Resolution and routing are not the program's: \<open>route\<close> says which process a host and port
  lead to. A connection is refused when that process does not listen.
\<close>

definition connect ::
  "(bytes \<Rightarrow> bytes \<Rightarrow> nat option) \<Rightarrow> (nat \<Rightarrow> local_node option) \<Rightarrow> bytes \<Rightarrow> bytes \<Rightarrow> nat option"
where
  "connect route ns host port =
     (case route host port of
        None \<Rightarrow> None
      | Some q \<Rightarrow>
          (case ns q of
             None \<Rightarrow> None
           | Some s \<Rightarrow> if ln_listening s then Some q else None))"

text \<open>
  \<open>run\<close> executes a program in process \<open>p\<close>; \<open>call q m w\<close> is what serving the request \<open>m\<close> in process
  \<open>q\<close> does and writes back, \<open>None\<close> when it does not come back.
\<close>

primrec run ::
  "(bytes \<Rightarrow> bytes \<Rightarrow> nat option) \<Rightarrow> (nat \<Rightarrow> bytes \<Rightarrow> world \<Rightarrow> (world \<times> bytes) option) \<Rightarrow> nat
   \<Rightarrow> 'a prog \<Rightarrow> world \<Rightarrow> (world \<times> 'a outcome) option"
where
  "run route call p (Ret x) w = Some (w, if procs w p = None then Killed else Returned x)"
| "run route call p (Fail e) w = Some (w, if procs w p = None then Killed else Raised e)"
| "run route call p OutOfFuel w = (if procs w p = None then Some (w, Killed) else None)"
| "run route call p (Act u k) w =
     (case procs w p of
        None \<Rightarrow> Some (w, Killed)
      | Some s \<Rightarrow> run route call p (k s) (set_proc p (Some (u s)) w))"
| "run route call p (Exchange h pt m wait k) w =
     (if procs w p = None then Some (w, Killed)
      else
        case connect route (procs w) h pt of
          None \<Rightarrow> run route call p (k None) w
        | Some q \<Rightarrow>
            if wait
            then (case call q m w of
                    None \<Rightarrow> None
                  | Some (w', reply) \<Rightarrow> run route call p (k (Some reply)) w')
            else run route call p (k (Some [])) (w\<lparr>inflight := inflight w @ [(q, m)]\<rparr>))"

lemma run_dead [simp]: "procs w p = None \<Longrightarrow> run route call p m w = Some (w, Killed)"
  by (cases m) simp_all

lemma run_bind:
  "run route call p (bind_prog m f) w =
     (case run route call p m w of
        None \<Rightarrow> None
      | Some (w', Returned x) \<Rightarrow> run route call p (f x) w'
      | Some (w', Raised e) \<Rightarrow> Some (w', Raised e)
      | Some (w', Killed) \<Rightarrow> Some (w', Killed))"
  by (induction m arbitrary: w) (auto split: option.splits)

lemma run_catch:
  "run route call p (catch_prog m h) w =
     (case run route call p m w of
        Some (w', Raised e) \<Rightarrow>
          if is_exception e then run route call p (h e) w' else Some (w', Raised e)
      | r \<Rightarrow> r)"
  by (induction m arbitrary: w) (auto split: option.splits)

lemma run_atomic:
  "procs w p = Some s \<Longrightarrow> run route call p (bind_prog (atomic f) g) w =
     (case fst (f s) of
        Inl e \<Rightarrow> Some (set_proc p (Some (snd (f s))) w, Raised e)
      | Inr x \<Rightarrow> run route call p (g x) (set_proc p (Some (snd (f s))) w))"
  by (simp add: atomic_def set_proc_def split: sum.split)

lemma set_proc_same [simp]: "procs w p = Some s \<Longrightarrow> set_proc p (Some s) w = w"
  by (simp add: set_proc_def fun_upd_idem)

lemma procs_set_proc [simp]: "procs (set_proc p s w) = (procs w)(p := s)"
  by (simp add: set_proc_def)

lemma inflight_set_proc [simp]: "inflight (set_proc p s w) = inflight w"
  by (simp add: set_proc_def)

end
