(* ===== verification/Remote_Node.thy ===== *)
theory Remote_Node
  imports Program
begin

text \<open>
  The class \<open>RemoteNode\<close> of \<open>src/RemoteNode.h\<close> and \<open>src/RemoteNode.cpp\<close>: each operation builds a
  message, exchanges it with the process the node stands for and turns the reply into a new
  \<open>RemoteNode\<close>. The reads and buffers are those of the asio library under \<open>lib\<close>.
\<close>

section \<open>Reads\<close>

definition MAX_DATA_LENGTH :: nat where
  "MAX_DATA_LENGTH = 1024"

text \<open>
  \<open>asio::buffer(array, n)\<close> on an array of \<open>MAX_DATA_LENGTH\<close> chars: \<open>n\<close> becomes a \<open>size_t\<close> and is
  cut to the size of the array.
\<close>

definition buffer_size :: "int \<Rightarrow> nat" where
  "buffer_size n = min MAX_DATA_LENGTH (nat (n mod 2 ^ 64))"

text \<open>
  \<open>asio::read\<close> of \<open>n\<close> bytes from a stream that holds \<open>st\<close> and is then closed: the bytes read,
  what is left, and whether the end came first.
\<close>

definition asio_read :: "bytes \<Rightarrow> nat \<Rightarrow> bytes \<times> bytes \<times> bool" where
  "asio_read st n = (take n st, drop n st, length st < n)"

section \<open>Messages\<close>

definition createMessage :: "RPCCode \<Rightarrow> bytes \<Rightarrow> bytes" where
  "createMessage code payLoad =
     size_to_char (1 + length payLoad) # [] @ code_char code # payLoad"

text \<open>The reply: a header with the payload's length, and the payload. A short read throws.\<close>

definition read_reply :: "bytes \<Rightarrow> bytes result" where
  "read_reply st =
     (case asio_read st 1 of (header, st1, eof) \<Rightarrow>
        if eof then Inl SystemError
        else
          let payloadLength = char_to_int (hd header)
          in case asio_read st1 (buffer_size payloadLength) of (reply, st2, eof2) \<Rightarrow>
               if eof2 then Inl SystemError else Inr reply)"

definition sendMessage :: "inode \<Rightarrow> bytes \<Rightarrow> bool \<Rightarrow> bool \<Rightarrow> bytes prog" where
  "sendMessage d message responseExpected throwException =
     (let portStr = dec_number (unat (nd_port d))
      in Exchange (nd_host d) portStr message responseExpected (\<lambda>r.
           case (case r of
                   None \<Rightarrow> Inl SystemError
                 | Some st \<Rightarrow> if responseExpected then read_reply st else Inr []) of
             Inr reply \<Rightarrow> Ret reply
           | Inl e \<Rightarrow> if throwException then Fail e else Ret []))"

section \<open>Operations\<close>

text \<open>A reply that is not empty is the serial form of a node; \<open>c_str()\<close> adds a NUL.\<close>

definition new_RemoteNode :: "bytes \<Rightarrow> nat \<Rightarrow> node_ptr prog" where
  "new_RemoteNode serial s =
     bind_prog (lift_result (parse_INode serial s)) (\<lambda>d.
     bind_prog (atomic (allocate d)) (\<lambda>n. Ret (Some n)))"

definition reply_node :: "bytes \<Rightarrow> node_ptr prog" where
  "reply_node reply =
     (if reply \<noteq> [] then new_RemoteNode (reply @ [0]) (length reply) else Ret None)"

definition RemoteNode_findPredecessor :: "inode \<Rightarrow> ID \<Rightarrow> node_ptr prog" where
  "RemoteNode_findPredecessor d i =
     bind_prog (sendMessage d (createMessage FIND_PREDECESSOR (c_str i)) True False) reply_node"

definition RemoteNode_findSuccessor :: "inode \<Rightarrow> ID \<Rightarrow> node_ptr prog" where
  "RemoteNode_findSuccessor d i =
     bind_prog (sendMessage d (createMessage FIND_SUCCESSOR (c_str i)) True False) reply_node"

definition RemoteNode_closestPrecedingFinger :: "inode \<Rightarrow> ID \<Rightarrow> node_ptr prog" where
  "RemoteNode_closestPrecedingFinger d i =
     bind_prog (sendMessage d (createMessage CLOSEST_PRECEDING_FINGER (c_str i)) True False)
       reply_node"

text \<open>Not implemented for a remote node; the calls only log an error.\<close>

definition RemoteNode_join :: "inode \<Rightarrow> node_ptr \<Rightarrow> unit prog" where
  "RemoteNode_join d n = Ret ()"

definition RemoteNode_stabilize :: "inode \<Rightarrow> unit prog" where
  "RemoteNode_stabilize d = Ret ()"

definition RemoteNode_fixFingers :: "inode \<Rightarrow> unit prog" where
  "RemoteNode_fixFingers d = Ret ()"

definition RemoteNode_notify :: "inode \<Rightarrow> node_ptr \<Rightarrow> unit prog" where
  "RemoteNode_notify d n =
     bind_prog (deref n) (\<lambda>nd.
     bind_prog (sendMessage d (createMessage NOTIFY (serialize nd)) False False) (\<lambda>reply. Ret ()))"

definition RemoteNode_ping :: "inode \<Rightarrow> bool prog" where
  "RemoteNode_ping d =
     catch_prog
       (bind_prog (sendMessage d (createMessage PING []) False True) (\<lambda>reply. Ret True))
       (\<lambda>e. Ret False)"

definition RemoteNode_getPredecessor :: "inode \<Rightarrow> node_ptr prog" where
  "RemoteNode_getPredecessor d =
     bind_prog (sendMessage d (createMessage GET_PREDECESSOR []) True False) reply_node"

definition RemoteNode_setPredecessor :: "inode \<Rightarrow> node_ptr \<Rightarrow> unit prog" where
  "RemoteNode_setPredecessor d n =
     bind_prog (deref n) (\<lambda>nd.
     bind_prog (sendMessage d (createMessage SET_PREDECESSOR (serialize nd)) False False)
       (\<lambda>reply. Ret ()))"

definition RemoteNode_getSuccessor :: "inode \<Rightarrow> node_ptr prog" where
  "RemoteNode_getSuccessor d =
     bind_prog (sendMessage d (createMessage GET_SUCCESSOR []) True False) reply_node"

definition RemoteNode_setSuccessor :: "inode \<Rightarrow> node_ptr \<Rightarrow> unit prog" where
  "RemoteNode_setSuccessor d n =
     bind_prog (deref n) (\<lambda>nd.
     bind_prog (sendMessage d (createMessage SET_SUCCESSOR (serialize nd)) False False)
       (\<lambda>reply. Ret ()))"

definition RemoteNode_receive :: "inode \<Rightarrow> bytes \<Rightarrow> unit prog" where
  "RemoteNode_receive d message =
     bind_prog (sendMessage d (createMessage RECEIVE message) False False) (\<lambda>reply. Ret ())"

end
