(* ===== verification/Asio_Stream.thy ===== *)
theory Asio_Stream
  imports Asio_Transfer Remote_Node
begin

text \<open>
  The library under the program. The program's model reads a connection with \<open>asio_read\<close>, on the
  bytes the peer has sent; the theorems here show that this is what \<open>asio::read\<close> does, through the
  socket service, the loop around \<open>recvmsg\<close> and a system that may hand over the bytes in pieces of
  any size. The other properties of the socket layer that need an example of a system are here too.

  \<open>pipe_kernel\<close> is the example: a system with one stream of bytes, delivered in pieces of at most
  \<open>chunk\<close> bytes, each of which has to be waited for.
\<close>

section \<open>A system to run on\<close>

record pipe =
  pipe_bytes :: bytes
  pipe_ready :: bool

definition refuse :: "'w os \<Rightarrow> int \<times> 'w os" where
  "refuse w = (-1, w\<lparr>errno := 38\<rparr>)"

definition pipe_receive :: "nat \<Rightarrow> msghdr \<Rightarrow> pipe os \<Rightarrow> (int \<times> msghdr) \<times> pipe os" where
  "pipe_receive chunk msg w =
     (let p = outside w; as = iov_addrs (msg_iov msg);
          n = min (Suc chunk) (min (length as) (length (pipe_bytes p)))
      in if pipe_bytes p = [] then ((0, msg), w)
         else if \<not> pipe_ready p then ((-1, msg), w\<lparr>errno := basic_value try_again\<rparr>)
         else ((int n, msg),
               w\<lparr>memory := write_at as (take n (pipe_bytes p)) (memory w),
                 outside := \<lparr>pipe_bytes = drop n (pipe_bytes p), pipe_ready = False\<rparr>\<rparr>))"

definition pipe_kernel :: "nat \<Rightarrow> pipe kernel" where
  "pipe_kernel chunk =
     \<lparr>sys_accept = \<lambda>s a w. ((-1, a), w\<lparr>errno := 38\<rparr>),
      sys_bind = \<lambda>s a n. refuse,
      sys_connect = \<lambda>s a n. refuse,
      sys_close = \<lambda>s w. (0, w),
      sys_ioctl = \<lambda>s cmd arg w. ((-1, arg), w\<lparr>errno := 38\<rparr>),
      sys_shutdown = \<lambda>s what. refuse,
      sys_listen = \<lambda>s n. refuse,
      sys_poll = \<lambda>s ev t w. (1, w\<lparr>outside := (outside w)\<lparr>pipe_ready := True\<rparr>\<rparr>),
      sys_socketpair = \<lambda>af ty pr w. ((-1, 0, 0), w\<lparr>errno := 38\<rparr>),
      sys_socket = \<lambda>af ty pr. refuse,
      sys_recvmsg = \<lambda>s msg flags. pipe_receive chunk msg,
      sys_sendmsg = \<lambda>s msg flags. refuse,
      sys_setsockopt = \<lambda>s l n v len. refuse,
      sys_getsockopt = \<lambda>s l n v len w. ((-1, v, len), w\<lparr>errno := 38\<rparr>),
      sys_getpeername = \<lambda>s a n w. ((-1, a, n), w\<lparr>errno := 38\<rparr>),
      sys_getsockname = \<lambda>s a n w. ((-1, a, n), w\<lparr>errno := 38\<rparr>)\<rparr>"

lemma pipe_kernel_simps [simp]:
  "sys_recvmsg (pipe_kernel chunk) s msg flags = pipe_receive chunk msg"
  "sys_poll (pipe_kernel chunk) s ev t w = (1, w\<lparr>outside := (outside w)\<lparr>pipe_ready := True\<rparr>\<rparr>)"
  by (simp_all add: pipe_kernel_def)

definition stream_socket :: "nat base_implementation" where
  "stream_socket = \<lparr>si_socket = 5, si_state = stream_oriented, si_reactor_data = Some 1\<rparr>"

lemma stream_socket_simps [simp]:
  "si_socket stream_socket = 5" "si_state stream_socket = stream_oriented"
  by (simp_all add: stream_socket_def)

interpretation pipe: stream_kernel "pipe_kernel chunk" stream_socket pipe_bytes pipe_ready
proof
  show "si_socket stream_socket \<noteq> invalid_socket" "bit_set (si_state stream_socket) stream_oriented"
    "\<not> bit_set (si_state stream_socket) user_set_non_blocking"
    by (simp_all add: invalid_socket_def bit_set_def stream_oriented_def user_set_non_blocking_def)
next
  fix msg :: msghdr and w assume "iov_addrs (msg_iov msg) \<noteq> []"
  then show "case sys_recvmsg (pipe_kernel chunk) (si_socket stream_socket) msg 0 w of ((r, _), w1) \<Rightarrow>
      (r = 0 \<and> pipe_bytes (outside w) = [] \<and> pipe_bytes (outside w1) = [] \<and> memory w1 = memory w)
      \<or> (0 < r \<and> nat r \<le> length (iov_addrs (msg_iov msg)) \<and> nat r \<le> length (pipe_bytes (outside w))
         \<and> pipe_bytes (outside w1) = drop (nat r) (pipe_bytes (outside w))
         \<and> memory w1 = write_at (iov_addrs (msg_iov msg)) (take (nat r) (pipe_bytes (outside w))) (memory w))
      \<or> (r < 0 \<and> \<not> pipe_ready (outside w) \<and> errno w1 = basic_value try_again
         \<and> pipe_bytes (outside w1) = pipe_bytes (outside w) \<and> memory w1 = memory w)"
    by (auto simp: pipe_receive_def Let_def)
next
  fix w
  show "\<exists>w1. sys_poll (pipe_kernel chunk) (si_socket stream_socket) POLLIN (-1) w = (1, w1)
      \<and> pipe_ready (outside w1) \<and> pipe_bytes (outside w1) = pipe_bytes (outside w)
      \<and> memory w1 = memory w"
    by simp
qed

section \<open>Properties\<close>

text \<open>
  C14. \<open>asio::read\<close> into any sequence of buffers, through the socket service and over any system that
  delivers a stream in order, always returns, and does what the program's model assumes of it: it
  stores the bytes \<open>asio_read\<close> takes from the stream, in order, at the addresses of the buffers,
  leaves the bytes \<open>asio_read\<close> leaves, and reports the end of the file exactly when \<open>asio_read\<close>
  does, and otherwise success.
\<close>

theorem read_refines_asio_read:
  assumes "stream_kernel K impl content ready" "distinct (seq_addrs bufs)"
    and "asio_read (content (outside w)) (seq_size bufs) = (got, left, ended)"
  shows "\<exists>w1. asio_read_ec (service_receive K impl 0) bufs w
        = Some ((length got, if ended then misc_error eof else no_error), w1)
      \<and> content (outside w1) = left
      \<and> map (memory w1) (take (length got) (seq_addrs bufs)) = got
      \<and> (\<forall>a. a \<notin> set (seq_addrs bufs) \<longrightarrow> memory w1 a = memory w a)"
proof -
  have r: "got = take (seq_size bufs) (content (outside w))"
    "left = drop (seq_size bufs) (content (outside w))"
    "ended \<longleftrightarrow> length (content (outside w)) < seq_size bufs"
    using assms(3) by (auto simp: asio_read_def)
  obtain w1 where w1: "asio_read_seq (service_receive K impl 0) bufs transfer_all w =
      Some ((min (seq_size bufs) (length (content (outside w))),
             if length (content (outside w)) < seq_size bufs then misc_error eof else no_error), w1)"
    "content (outside w1) = drop (seq_size bufs) (content (outside w))"
    "memory w1 = write_at (seq_addrs bufs) (content (outside w)) (memory w)"
    using stream_kernel.service_read [OF assms(1), of bufs w] by blast
  have "map (memory w1) (take (length (content (outside w))) (seq_addrs bufs)) = got"
    using write_at_map [OF assms(2)] by (simp add: w1(3) r(1) seq_size_addrs)
  moreover have "take (length got) (seq_addrs bufs)
      = take (length (content (outside w))) (seq_addrs bufs)"
    by (simp add: r(1) seq_size_addrs min_def)
  ultimately show ?thesis
    using w1 by (auto simp: asio_read_ec_def r write_at_other min_def)
qed

theorem read_refines_asio_read_witness:
  "\<exists>w1. asio_read_ec (service_receive (pipe_kernel 2) stream_socket 0)
          [buffer_at 100 2, buffer_at 0 0, buffer_at 200 3]
          \<lparr>errno = 0, memory = \<lambda>_. 0, outside = \<lparr>pipe_bytes = [1, 2, 3, 4, 5, 6], pipe_ready = False\<rparr>\<rparr>
        = Some ((5, no_error), w1)
      \<and> pipe_bytes (outside w1) = [6] \<and> map (memory w1) [100, 101, 200, 201, 202] = [1, 2, 3, 4, 5]"
proof -
  let ?b = "[buffer_at 100 2, buffer_at 0 0, buffer_at 200 3]"
  let ?w = "\<lparr>errno = 0, memory = \<lambda>_. 0, outside = \<lparr>pipe_bytes = [1, 2, 3, 4, 5, 6], pipe_ready = False\<rparr>\<rparr>"
  have b: "seq_addrs ?b = [100, 101, 200, 201, 202]"
    by (simp add: addrs_def buffer_at_def upt_rec)
  have "asio_read (pipe_bytes (outside ?w)) (seq_size ?b) = ([1, 2, 3, 4, 5], [6], False)"
    by (simp add: asio_read_def seq_size_def buffer_at_def)
  from read_refines_asio_read [OF pipe.stream_kernel_axioms [of 2] _ this, unfolded b]
  show ?thesis by (auto simp: eval_nat_numeral)
qed

text \<open>
  A blocking receive on a stream reports what happened: it returns bytes and success, or no
  byte and an error, and \<open>would_block\<close> only to a user who asked for a non-blocking socket; a
  caller never sees an empty success.
\<close>

lemma receive_reports:
  assumes "recv_reports K" "poll_reports K" "s \<noteq> invalid_socket" "bit_set st stream_oriented"
    and "sync_recv K s st bufs flags False w = Some ((n, ec), w')"
  shows "n > 0 \<and> ec = no_error \<or>
         n = 0 \<and> failed ec \<and> (blocked ec \<longrightarrow> bit_set st user_set_non_blocking)"
  using assms recv_loop_outcome [of K s st bufs flags w n ec w'] by (simp add: sync_recv_def)

lemma pipe_laws:
  "recv_reports (pipe_kernel chunk)" "poll_reports (pipe_kernel chunk)"
  "poll_honest (pipe_kernel chunk) s" "poll_waits (pipe_kernel chunk) s"
  by (auto simp: recv_reports_def poll_reports_def poll_honest_def poll_waits_def pipe_receive_def
      Let_def clear_last_error_def)

text \<open>
  A blocking receive returns: on a system whose \<open>poll\<close> waits until the socket is readable and
  does not call it so when a receive would block, the loop ends, after at most one wait.
\<close>

lemma receive_returns:
  assumes "poll_honest K s" "poll_waits K s"
  shows "\<exists>r. sync_recv K s st bufs flags all_empty w = Some r"
  using recv_loop_returns [OF assms, of st bufs flags w] by (simp add: sync_recv_def)

lemma receive_returns_witness:
  "\<exists>r. sync_recv (pipe_kernel 2) 5 stream_oriented [init_buf 100 4] 0 False
     \<lparr>errno = 0, memory = \<lambda>_. 0, outside = \<lparr>pipe_bytes = [1, 2], pipe_ready = False\<rparr>\<rparr> = Some r"
  by (rule receive_returns [OF pipe_laws(3,4)])

lemma receive_reports_witness:
  "\<exists>n ec w'. sync_recv (pipe_kernel 2) 5 stream_oriented [init_buf 100 4] 0 False
       \<lparr>errno = 0, memory = \<lambda>_. 0, outside = \<lparr>pipe_bytes = [], pipe_ready = False\<rparr>\<rparr>
       = Some ((n, ec), w')
     \<and> (n > 0 \<and> ec = no_error \<or> n = 0 \<and> failed ec \<and>
          (blocked ec \<longrightarrow> bit_set stream_oriented user_set_non_blocking))"
proof -
  let ?w = "\<lparr>errno = 0, memory = \<lambda>_. 0, outside = \<lparr>pipe_bytes = [], pipe_ready = False\<rparr>\<rparr>"
  have s: "(5 :: int) \<noteq> invalid_socket" "bit_set stream_oriented stream_oriented"
    by (simp_all add: invalid_socket_def bit_set_def stream_oriented_def)
  have "sync_recv (pipe_kernel 2) 5 stream_oriented [init_buf 100 4] 0 False ?w
      = Some ((0, misc_error eof), clear_last_error ?w)"
    using s
    by (simp add: sync_recv_def recv_loop.simps ops_recv_def pipe_receive_def clear_last_error_def)
  from this receive_reports [OF pipe_laws(1,2) s this] show ?thesis by blast
qed

end
