(* ===== verification/Socket_Laws.thy ===== *)
theory Socket_Laws
  imports Asio_Stream
begin

text \<open>
  Properties of the socket layer: the state bits of a socket against the mode its descriptor really
  has, the option that hides aborted connections, and the ownership of descriptors. A law of the
  operating system that a theorem needs is a predicate on the record of system calls.
\<close>

section \<open>State bits\<close>

lemma bit_set_or: "bit_set (st OR b) c \<longleftrightarrow> bit_set st c \<or> bit_set b c"
  by (simp add: bit_set_def and.commute [of _ c] bit.conj_disj_distrib or_eq_0_iff)

lemma bit_set_clear: "bit_set (st AND NOT b) c \<longleftrightarrow> bit_set st (NOT b AND c)"
  by (simp add: bit_set_def and.assoc)

lemmas state_bits = user_set_non_blocking_def internal_non_blocking_def non_blocking_def
  enable_connection_aborted_def user_set_linger_def stream_oriented_def

lemma bit_set_zero [simp]: "\<not> bit_set st 0" "\<not> bit_set 0 c"
  by (simp_all add: bit_set_def)

lemma non_blocking_bits:
  "bit_set st non_blocking \<longleftrightarrow> bit_set st user_set_non_blocking \<or> bit_set st internal_non_blocking"
proof -
  have "st AND (user_set_non_blocking OR internal_non_blocking)
      = (st AND user_set_non_blocking) OR (st AND internal_non_blocking)"
    by (rule bit.conj_disj_distrib)
  then show ?thesis by (simp add: bit_set_def non_blocking_def or_eq_0_iff)
qed

section \<open>Blocking modes\<close>

text \<open>
  \<open>FIONBIO\<close> sets the mode of a descriptor, as documented, and no other command changes it; \<open>mode\<close>
  reads it off the state of the system.
\<close>

definition ioctl_sets_mode :: "'w kernel \<Rightarrow> ('w \<Rightarrow> int \<Rightarrow> bool) \<Rightarrow> bool" where
  "ioctl_sets_mode K mode \<longleftrightarrow>
     (\<forall>s cmd arg w. case sys_ioctl K s cmd arg w of ((r, arg1), w1) \<Rightarrow>
        (if cmd = FIONBIO
         then arg1 = arg \<and> (mode (outside w1) s \<longleftrightarrow> (if r \<ge> 0 then arg \<noteq> 0 else mode (outside w) s))
         else mode (outside w1) s \<longleftrightarrow> mode (outside w) s))"

text \<open>The calls that touch the modes of a socket.\<close>

datatype mode_call = User_mode bool | Internal_mode bool | Control int int

fun mode_step :: "'w kernel \<Rightarrow> int \<Rightarrow> mode_call \<Rightarrow> state_type \<times> 'w os \<Rightarrow> state_type \<times> 'w os" where
  "mode_step K s (User_mode b) (st, w) =
     (case ops_set_user_non_blocking K s st b w of ((_, st1, _), w1) \<Rightarrow> (st1, w1))"
| "mode_step K s (Internal_mode b) (st, w) =
     (case ops_set_internal_non_blocking K s st b w of ((_, st1, _), w1) \<Rightarrow> (st1, w1))"
| "mode_step K s (Control cmd arg) (st, w) =
     (case ops_ioctl K s st cmd arg w of ((_, st1, _, _), w1) \<Rightarrow> (st1, w1))"

definition modes_agree :: "('w \<Rightarrow> int \<Rightarrow> bool) \<Rightarrow> int \<Rightarrow> state_type \<times> 'w os \<Rightarrow> bool" where
  "modes_agree mode s = (\<lambda>(st, w). mode (outside w) s \<longleftrightarrow> bit_set st non_blocking)"

lemma outside_clear [simp]: "outside (clear_last_error w) = outside w"
  by (simp add: clear_last_error_def)

lemma mode_bits:
  "bit_set (st OR user_set_non_blocking) non_blocking"
  "bit_set (st OR internal_non_blocking) non_blocking"
  "\<not> bit_set (st AND NOT (user_set_non_blocking OR internal_non_blocking)) non_blocking"
  "\<not> bit_set st user_set_non_blocking \<Longrightarrow> \<not> bit_set (st AND NOT internal_non_blocking) non_blocking"
proof -
  have c: "NOT (user_set_non_blocking OR internal_non_blocking) AND non_blocking = 0"
    "NOT internal_non_blocking AND non_blocking = user_set_non_blocking"
    "bit_set user_set_non_blocking non_blocking" "bit_set internal_non_blocking non_blocking"
    by (simp_all add: state_bits bit_set_def)
  show "bit_set (st OR user_set_non_blocking) non_blocking"
    "bit_set (st OR internal_non_blocking) non_blocking"
    by (simp_all only: bit_set_or c simp_thms)
  show "\<not> bit_set (st AND NOT (user_set_non_blocking OR internal_non_blocking)) non_blocking"
    by (simp only: bit_set_clear c bit_set_zero simp_thms)
  show "\<not> bit_set st user_set_non_blocking \<Longrightarrow>
      \<not> bit_set (st AND NOT internal_non_blocking) non_blocking"
    by (simp only: bit_set_clear c simp_thms)
qed

lemma ioctl_law:
  assumes "ioctl_sets_mode K mode" "sys_ioctl K s cmd arg w = ((r, arg1), w1)"
  shows "cmd = FIONBIO \<Longrightarrow> arg1 = arg"
    and "mode (outside w1) s \<longleftrightarrow>
      (if cmd = FIONBIO \<and> r \<ge> 0 then arg \<noteq> 0 else mode (outside w) s)"
proof -
  have "case sys_ioctl K s cmd arg w of ((r, arg1), w1) \<Rightarrow>
        (if cmd = FIONBIO
         then arg1 = arg \<and> (mode (outside w1) s \<longleftrightarrow> (if r \<ge> 0 then arg \<noteq> 0 else mode (outside w) s))
         else mode (outside w1) s \<longleftrightarrow> mode (outside w) s)"
    by (rule assms(1) [unfolded ioctl_sets_mode_def, THEN spec [where x = s], THEN spec [where x = cmd],
          THEN spec [where x = arg], THEN spec [where x = w]])
  then show "cmd = FIONBIO \<Longrightarrow> arg1 = arg" "mode (outside w1) s \<longleftrightarrow>
      (if cmd = FIONBIO \<and> r \<ge> 0 then arg \<noteq> 0 else mode (outside w) s)"
    unfolding assms(2) by (auto split: if_splits)
qed

lemma mode_step_agrees:
  assumes law: "ioctl_sets_mode K mode" and agree: "modes_agree mode s (st, w)"
  shows "modes_agree mode s (mode_step K s c (st, w))"
proof (cases c)
  case (User_mode b)
  obtain r a w1 where i: "sys_ioctl K s FIONBIO (if b then 1 else 0) (clear_last_error w) = ((r, a), w1)"
    by (metis surj_pair)
  from ioctl_law [OF law i] agree show ?thesis
    by (auto simp: User_mode ops_set_user_non_blocking_def i Let_def modes_agree_def mode_bits
        simp del: bit.de_Morgan_disj split: if_splits)
next
  case (Internal_mode b)
  obtain r a w1 where i: "sys_ioctl K s FIONBIO (if b then 1 else 0) (clear_last_error w) = ((r, a), w1)"
    by (metis surj_pair)
  from ioctl_law [OF law i] agree show ?thesis
    by (auto simp: Internal_mode ops_set_internal_non_blocking_def i Let_def modes_agree_def mode_bits
        simp del: bit.de_Morgan_disj split: if_splits)
next
  case (Control cmd arg)
  obtain r a w1 where i: "sys_ioctl K s cmd arg (clear_last_error w) = ((r, a), w1)"
    by (metis surj_pair)
  from ioctl_law [OF law i] agree show ?thesis
    by (auto simp: Control ops_ioctl_def i Let_def modes_agree_def mode_bits
        simp del: bit.de_Morgan_disj split: if_splits)
qed

text \<open>A system with one descriptor whose mode \<open>FIONBIO\<close> sets.\<close>

definition mode_kernel :: "bool kernel" where
  "mode_kernel =
     \<lparr>sys_accept = \<lambda>s a w. ((-1, a), w\<lparr>errno := 103\<rparr>),
      sys_bind = \<lambda>s a n. refuse,
      sys_connect = \<lambda>s a n. refuse,
      sys_close = \<lambda>s w. (0, w),
      sys_ioctl = \<lambda>s cmd arg w.
        if cmd = FIONBIO then ((0, arg), w\<lparr>outside := (arg \<noteq> 0)\<rparr>) else ((-1, arg), w\<lparr>errno := 22\<rparr>),
      sys_shutdown = \<lambda>s what. refuse,
      sys_listen = \<lambda>s n. refuse,
      sys_poll = \<lambda>s ev t w. (-1, w\<lparr>errno := 4\<rparr>),
      sys_socketpair = \<lambda>af ty pr w. ((-1, 0, 0), w\<lparr>errno := 38\<rparr>),
      sys_socket = \<lambda>af ty pr. refuse,
      sys_recvmsg = \<lambda>s msg flags w. ((-1, msg), w\<lparr>errno := 38\<rparr>),
      sys_sendmsg = \<lambda>s msg flags. refuse,
      sys_setsockopt = \<lambda>s l n v len. refuse,
      sys_getsockopt = \<lambda>s l n v len w. ((-1, v, len), w\<lparr>errno := 38\<rparr>),
      sys_getpeername = \<lambda>s a n w. ((-1, a, n), w\<lparr>errno := 38\<rparr>),
      sys_getsockname = \<lambda>s a n w. ((-1, a, n), w\<lparr>errno := 38\<rparr>)\<rparr>"

lemma mode_kernel_simps [simp]:
  "sys_ioctl mode_kernel s cmd arg w =
     (if cmd = FIONBIO then ((0, arg), w\<lparr>outside := (arg \<noteq> 0)\<rparr>) else ((-1, arg), w\<lparr>errno := 22\<rparr>))"
  "sys_accept mode_kernel s a w = ((-1, a), w\<lparr>errno := 103\<rparr>)"
  "sys_poll mode_kernel s ev t w = (-1, w\<lparr>errno := 4\<rparr>)"
  by (simp_all add: mode_kernel_def)

text \<open>
  Whatever sequence of calls sets the user's mode, the internal mode or sends an \<open>ioctl\<close> to a
  socket, with whatever errors of the system: the descriptor is in non-blocking mode exactly when one
  of the two mode bits of the socket's state is set, as \<open>start_op\<close> relies on when it skips the system
  call.
\<close>

lemma modes_stay_in_step:
  assumes "ioctl_sets_mode K mode" "modes_agree mode s (st, w)"
  shows "modes_agree mode s (fold (mode_step K s) calls (st, w))"
  using assms(2)
proof (induction calls arbitrary: st w)
  case (Cons c calls)
  show ?case
    using mode_step_agrees [OF assms(1) Cons.prems, of c] Cons.IH
    by (cases "mode_step K s c (st, w)") simp
qed simp

lemma modes_stay_in_step_witness:
  "modes_agree (\<lambda>b s. b) 3 (fold (mode_step mode_kernel 3)
     [Internal_mode True, User_mode True, Internal_mode False, Control FIONBIO 0]
     (stream_oriented, \<lparr>errno = 0, memory = \<lambda>_. 0, outside = False\<rparr>))"
proof (rule modes_stay_in_step)
  show "ioctl_sets_mode mode_kernel (\<lambda>b s. b)"
    by (simp add: ioctl_sets_mode_def)
  show "modes_agree (\<lambda>b s. b) 3 (stream_oriented, \<lparr>errno = 0, memory = \<lambda>_. 0, outside = False\<rparr>)"
    by (simp add: modes_agree_def bit_set_def state_bits)
qed

section \<open>Aborted connections\<close>

lemma get_put_int: "get_int (put_int 1 bs) = 1" "get_int (put_int 0 bs) = 0"
  by (simp_all add: get_int_def put_int_def word_rcat_def)

text \<open>
  The option that enables reports of aborted connections is kept in the socket's state only: a
  set followed by a get returns 1 or 0 as the value set was non-zero or zero, neither makes a system
  call, and the other state bits stay.
\<close>

lemma abort_option_roundtrip:
  assumes "s \<noteq> invalid_socket"
    and "ops_setsockopt K s st custom_socket_option_level enable_connection_aborted_option v 4 w
      = ((r, st1, ec), w1)"
    and "ops_getsockopt K s st1 custom_socket_option_level enable_connection_aborted_option v0 4 w1
      = ((r1, v1, n, ec1), w2)"
  shows "r = 0 \<and> r1 = 0 \<and> ec = no_error \<and> ec1 = no_error \<and> w1 = w \<and> w2 = w
    \<and> get_int v1 = (if get_int v \<noteq> 0 then 1 else 0)
    \<and> st1 AND NOT enable_connection_aborted = st AND NOT enable_connection_aborted"
proof -
  have o: "enable_connection_aborted_option \<noteq> always_fail_option"
    by (simp add: enable_connection_aborted_option_def always_fail_option_def)
  have st1: "st1 = (if get_int v \<noteq> 0 then st OR enable_connection_aborted
      else st AND NOT enable_connection_aborted)" and "r = 0" "ec = no_error" "w1 = w"
    using assms(1,2) o by (auto simp: ops_setsockopt_def)
  moreover have "bit_set st1 enable_connection_aborted \<longleftrightarrow> get_int v \<noteq> 0"
    by (simp add: st1 bit_set_or bit_set_clear) (simp add: bit_set_def state_bits)
  moreover have "st1 AND NOT enable_connection_aborted = st AND NOT enable_connection_aborted"
    by (simp add: st1 bit.conj_disj_distrib2 and.assoc)
  ultimately show ?thesis
    using assms(1,3) o by (auto simp: ops_getsockopt_def get_put_int)
qed

lemma abort_option_roundtrip_witness:
  "\<exists>st1 v1. ops_setsockopt mode_kernel 3 stream_oriented custom_socket_option_level
        enable_connection_aborted_option [7, 0, 0, 0] 4 \<lparr>errno = 0, memory = \<lambda>_. 0, outside = False\<rparr>
      = ((0, st1, no_error), \<lparr>errno = 0, memory = \<lambda>_. 0, outside = False\<rparr>)
    \<and> st1 AND NOT enable_connection_aborted = stream_oriented AND NOT enable_connection_aborted
    \<and> get_int v1 = 1"
proof -
  let ?w = "\<lparr>errno = 0, memory = \<lambda>_. 0, outside = False\<rparr>"
  obtain r st1 ec w1 where a: "ops_setsockopt mode_kernel 3 stream_oriented custom_socket_option_level
      enable_connection_aborted_option [7, 0, 0, 0] 4 ?w = ((r, st1, ec), w1)" by (metis surj_pair)
  obtain r1 v1 n ec1 w2 where b: "ops_getsockopt mode_kernel 3 st1 custom_socket_option_level
      enable_connection_aborted_option [0, 0, 0, 0] 4 w1 = ((r1, v1, n, ec1), w2)" by (metis surj_pair)
  have "get_int [7, 0, 0, 0] \<noteq> 0" by (simp add: get_int_def word_rcat_def)
  with abort_option_roundtrip [OF _ a b] a show ?thesis
    by (auto simp: invalid_socket_def)
qed

text \<open>The errors Linux documents for \<open>poll\<close>: \<open>EINTR\<close>, \<open>ENOMEM\<close>, \<open>EFAULT\<close> and \<open>EINVAL\<close>.\<close>

definition poll_documented :: "'w kernel \<Rightarrow> bool" where
  "poll_documented K \<longleftrightarrow>
     (\<forall>s ev t w. fst (sys_poll K s ev t w) < 0 \<longrightarrow>
        errno (snd (sys_poll K s ev t w)) \<in> {4, 12, 14, 22})"

lemma poll_read_error:
  assumes "ops_poll_read K s st w = ((ready, ec), w1)" "poll_documented K" "ready < 0"
    "s \<noteq> invalid_socket"
  shows "ec_value ec \<in> {4, 12, 14, 22}" "\<not> blocked ec"
proof -
  have "ec = error_wrapper w1" "errno w1 \<in> {4, 12, 14, 22}"
    using assms by (auto simp: ops_poll_read_def Let_def poll_documented_def
        split: prod.splits if_splits) (metis fst_conv snd_conv)+
  then show "ec_value ec \<in> {4, 12, 14, 22}" "\<not> blocked ec"
    by (auto simp: error_wrapper_def blocked_iff error_code_of_def blocked_iff [unfolded error_code_of_def])
qed

lemma accept_outcome:
  assumes "ops_accept K s addr w = ((fd, a1, ec), w1)" "s \<noteq> invalid_socket"
  shows "fd \<noteq> invalid_socket \<and> ec = no_error \<or> fd = invalid_socket \<and> ec = error_wrapper w1"
  using assms by (auto simp: ops_accept_def Let_def split: prod.splits if_splits)

lemma system_value [simp]: "ec_value (error_wrapper w) = errno w"
  by (simp add: error_wrapper_def error_code_of_def)

lemma wrapper_eq [simp]: "error_wrapper w = basic_error e \<longleftrightarrow> errno w = basic_value e"
  by (simp add: error_wrapper_def)

lemma sync_accept_outcome:
  assumes "sync_accept K s st addr w = Some r" "poll_documented K" "s \<noteq> invalid_socket"
  shows "case r of ((fd, a1, ec), w1) \<Rightarrow>
     if fd = invalid_socket
     then (blocked ec \<longrightarrow> bit_set st user_set_non_blocking)
       \<and> (ec_value ec \<in> {basic_value connection_aborted, EPROTO} \<longrightarrow>
            bit_set st enable_connection_aborted)
     else ec = no_error"
  using assms
proof (induction rule: sync_accept.raw_induct [rotated, consumes 1, case_names step])
  case (step loop K s st addr w r)
  obtain fd a1 ec w1 where a: "ops_accept K s addr w = ((fd, a1, ec), w1)" by (metis surj_pair)
  obtain ready ec1 w2 where p: "ops_poll_read K s 0 w1 = ((ready, ec1), w2)" by (metis surj_pair)
  note facts = accept_outcome [OF a step.prems(2)] poll_read_error [OF p step.prems(1) _ step.prems(2)]
  show ?case
  proof (cases "fd \<noteq> invalid_socket")
    case True
    with step.hyps facts show ?thesis by (auto simp: a)
  next
    case False
    with facts have ec: "ec = error_wrapper w1" by auto
    show ?thesis
      using step.hyps step.prems False facts(2,3) step.IH [of K s st a1 w2 r]
      by (auto simp: a p ec EPROTO_def blocked_def split: if_splits)
  qed
qed

text \<open>
  A blocking accept hides connections that were aborted before they were accepted: it reports
  \<open>ECONNABORTED\<close> or \<open>EPROTO\<close> only when the user enabled those reports, and \<open>would_block\<close> only when
  the user asked for a non-blocking socket; otherwise it waits and tries again. A descriptor comes
  with success.
\<close>

lemma accept_hides_aborts:
  assumes "poll_documented K" "s \<noteq> invalid_socket"
    and "sync_accept K s st addr w = Some ((fd, addr1, ec), w1)"
  shows "if fd = invalid_socket
     then (blocked ec \<longrightarrow> bit_set st user_set_non_blocking)
       \<and> (ec_value ec \<in> {basic_value connection_aborted, EPROTO} \<longrightarrow>
            bit_set st enable_connection_aborted)
     else ec = no_error"
  using sync_accept_outcome [OF assms(3,1,2)] by simp

lemma accept_hides_aborts_witness:
  "\<exists>ec w1. sync_accept mode_kernel 3 stream_oriented None
       \<lparr>errno = 0, memory = \<lambda>_. 0, outside = False\<rparr> = Some ((invalid_socket, None, ec), w1)
     \<and> ec_value ec \<notin> {basic_value connection_aborted, EPROTO}"
proof -
  let ?w = "\<lparr>errno = 0, memory = \<lambda>_. 0, outside = False\<rparr>"
  have law: "poll_documented mode_kernel" by (simp add: poll_documented_def)
  have s: "(3 :: int) \<noteq> invalid_socket" by (simp add: invalid_socket_def)
  have "\<not> bit_set stream_oriented enable_connection_aborted"
    by (simp add: bit_set_def state_bits)
  moreover have "sync_accept mode_kernel 3 stream_oriented None ?w
      = Some ((invalid_socket, None, basic_error interrupted), ?w\<lparr>errno := 4\<rparr>)"
    by (simp add: sync_accept.simps ops_accept_def call_accept_def ops_poll_read_def
        clear_last_error_def error_wrapper_def blocked_iff bit_set_def state_bits
        invalid_socket_def EPROTO_def error_defs)
  ultimately show ?thesis
    using accept_hides_aborts [OF law s] by (metis (no_types, lifting))
qed

section \<open>Descriptors\<close>

text \<open>
  The system's calls against the set of open descriptors: \<open>socket\<close> opens a fresh one or fails with an
  \<open>errno\<close>, \<open>close\<close> releases its argument even when it fails, as on Linux, and the other calls of
  opening and closing, the reactor's included, keep the set.
\<close>

definition fd_laws :: "'w kernel \<Rightarrow> ('d, 'w) reactor \<Rightarrow> ('w \<Rightarrow> int set) \<Rightarrow> bool" where
  "fd_laws K R fds \<longleftrightarrow>
     (\<forall>af ty pr w. case sys_socket K af ty pr w of (s, w1) \<Rightarrow>
        (s = -1 \<and> errno w1 \<noteq> 0 \<and> fds (outside w1) = fds (outside w))
        \<or> (s \<ge> 0 \<and> s \<notin> fds (outside w) \<and> fds (outside w1) = insert s (fds (outside w))))
   \<and> (\<forall>s w. fds (outside (snd (sys_close K s w))) = fds (outside w) - {s})
   \<and> (\<forall>s cmd arg w. fds (outside (snd (sys_ioctl K s cmd arg w))) = fds (outside w))
   \<and> (\<forall>s l n v len w. fds (outside (snd (sys_setsockopt K s l n v len w))) = fds (outside w))
   \<and> (\<forall>s d w. fds (outside (snd (re_register R s d w))) = fds (outside w))
   \<and> (\<forall>s d c w. fds (outside (snd (re_deregister R s d c w))) = fds (outside w))"

lemma fd_lawsD:
  assumes "fd_laws K R fds"
  shows "sys_socket K af ty pr w = (s, w1) \<Longrightarrow>
      (s = -1 \<and> errno w1 \<noteq> 0 \<and> fds (outside w1) = fds (outside w))
      \<or> (s \<ge> 0 \<and> s \<notin> fds (outside w) \<and> fds (outside w1) = insert s (fds (outside w)))"
    and "fds (outside (snd (sys_close K s w))) = fds (outside w) - {s}"
    and "fds (outside (snd (sys_ioctl K s cmd arg w))) = fds (outside w)"
    and "fds (outside (snd (sys_setsockopt K s l n v len w))) = fds (outside w)"
    and "fds (outside (snd (re_register R s d w))) = fds (outside w)"
    and "fds (outside (snd (re_deregister R s d c w))) = fds (outside w)"
proof -
  note laws = assms [unfolded fd_laws_def]
  show "sys_socket K af ty pr w = (s, w1) \<Longrightarrow>
      (s = -1 \<and> errno w1 \<noteq> 0 \<and> fds (outside w1) = fds (outside w))
      \<or> (s \<ge> 0 \<and> s \<notin> fds (outside w) \<and> fds (outside w1) = insert s (fds (outside w)))"
    using laws [THEN conjunct1, THEN spec [where x = af], THEN spec [where x = ty],
        THEN spec [where x = pr], THEN spec [where x = w]] by simp
qed (use assms in \<open>simp_all add: fd_laws_def\<close>)

lemma setsockopt_fds:
  assumes "fd_laws K R fds"
  shows "fds (outside (snd (ops_setsockopt K s st l n v len w))) = fds (outside w)"
  using fd_lawsD(4) [OF assms, of s l n v "socklen len" "clear_last_error w"]
  by (simp add: ops_setsockopt_def call_setsockopt_def Let_def case_prod_beta)

lemma close_fds:
  assumes "fd_laws K R fds"
  shows "fds (outside (snd (ops_close K s st d ec w)))
    = (if s = invalid_socket then fds (outside w) else fds (outside w) - {s})"
  using assms
  by (simp add: ops_close_def Let_def case_prod_beta fd_lawsD(2,3) [OF assms] setsockopt_fds [OF assms])

lemma socket_outcome:
  assumes "fd_laws K R fds" "ops_socket K af ty pr w = ((s, ec), w1)"
  shows "s = -1 \<and> failed ec \<and> fds (outside w1) = fds (outside w)
    \<or> s \<ge> 0 \<and> ec = no_error \<and> s \<notin> fds (outside w) \<and> fds (outside w1) = insert s (fds (outside w))"
proof -
  obtain s' w' where r: "sys_socket K af ty pr (clear_last_error w) = (s', w')" by (metis surj_pair)
  have s: "s = s'" "w1 = w'" "ec = (if s' \<ge> 0 then no_error else error_wrapper w')"
    using assms(2) by (auto simp: ops_socket_def r)
  from fd_lawsD(1) [OF assms(1) r] show ?thesis
    by (cases "s' \<ge> 0") (simp_all add: s failed_def)
qed

lemma do_open_fds:
  assumes laws: "fd_laws K R fds" and closed: "\<not> is_open impl"
    and run: "do_open K R impl af ty pr w = ((impl1, ec), w1)"
  shows "if failed ec then \<not> is_open impl1 \<and> fds (outside w1) = fds (outside w)
    else is_open impl1 \<and> si_state impl1 = type_state ty \<and> si_socket impl1 \<notin> fds (outside w)
      \<and> fds (outside w1) = insert (si_socket impl1) (fds (outside w))"
proof -
  obtain s ec0 w0 where a: "ops_socket K af ty pr w = ((s, ec0), w0)" by (metis surj_pair)
  obtain err data w2 where b: "re_register R s (si_reactor_data impl) w0 = ((err, data), w2)"
    by (metis surj_pair)
  have b': "fds (outside w2) = fds (outside w0)"
    using fd_lawsD(5) [OF laws, of s "si_reactor_data impl" w0] by (simp add: b)
  have d: "fds (outside (drop_holder K s w2)) = fds (outside w2) - {s}" if "s \<ge> 0"
    using that by (simp add: drop_holder_def close_fds [OF laws] invalid_socket_def)
  consider "s = -1" "failed ec0" "fds (outside w0) = fds (outside w)"
    | "s \<ge> 0" "s \<notin> fds (outside w)" "fds (outside w0) = insert s (fds (outside w))"
    using socket_outcome [OF laws a] by blast
  then show ?thesis
  proof cases
    case 1
    then show ?thesis using run closed
      by (auto simp: do_open_def a invalid_socket_def)
  next
    case 2
    then show ?thesis using run closed d b'
      by (auto simp: do_open_def a b Let_def invalid_socket_def is_open_def failed_def
          error_code_of_def no_error_def split: if_splits)
  qed
qed

text \<open>A system with a set of descriptors, of which it can open number 3, and a reactor that takes all.\<close>

definition fd_kernel :: "int set kernel" where
  "fd_kernel =
     \<lparr>sys_accept = \<lambda>s a w. ((-1, a), w\<lparr>errno := 11\<rparr>),
      sys_bind = \<lambda>s a n. refuse,
      sys_connect = \<lambda>s a n. refuse,
      sys_close = \<lambda>s w. (0, w\<lparr>outside := outside w - {s}\<rparr>),
      sys_ioctl = \<lambda>s cmd arg w. ((0, arg), w),
      sys_shutdown = \<lambda>s what. refuse,
      sys_listen = \<lambda>s n. refuse,
      sys_poll = \<lambda>s ev t w. (1, w),
      sys_socketpair = \<lambda>af ty pr w. ((-1, 0, 0), w\<lparr>errno := 38\<rparr>),
      sys_socket = \<lambda>af ty pr w.
        if 3 \<in> outside w then (-1, w\<lparr>errno := 24\<rparr>) else (3, w\<lparr>outside := insert 3 (outside w)\<rparr>),
      sys_recvmsg = \<lambda>s msg flags w. ((-1, msg), w\<lparr>errno := 38\<rparr>),
      sys_sendmsg = \<lambda>s msg flags. refuse,
      sys_setsockopt = \<lambda>s l n v len w. (0, w),
      sys_getsockopt = \<lambda>s l n v len w. ((-1, v, len), w\<lparr>errno := 38\<rparr>),
      sys_getpeername = \<lambda>s a n w. ((-1, a, n), w\<lparr>errno := 38\<rparr>),
      sys_getsockname = \<lambda>s a n w. ((-1, a, n), w\<lparr>errno := 38\<rparr>)\<rparr>"

definition plain_reactor :: "(nat, 'w) reactor" where
  "plain_reactor =
     \<lparr>re_register = \<lambda>s d w. ((0, Some 1), w), re_deregister = \<lambda>s d c w. (None, w),
      re_cancel_ops = \<lambda>s d w. w, re_start_op = \<lambda>t s d op c n w. w, re_post = \<lambda>op c w. w\<rparr>"

lemma fd_kernel_laws: "fd_laws fd_kernel plain_reactor id"
  by (simp add: fd_laws_def fd_kernel_def plain_reactor_def)

text \<open>
  C20. Opening and closing a socket never leaks a descriptor, whatever fails: an open that reports an
  error leaves the set of open descriptors as it was and the socket closed, even when the descriptor
  had been created and only the reactor refused it; one that succeeds adds exactly the socket's
  descriptor; and closing removes it again and leaves the socket closed.
\<close>

theorem open_close_no_leak:
  assumes "fd_laws K R fds" "\<not> is_open impl"
    and "do_open K R impl af ty pr w = ((impl1, ec), w1)"
    and "service_close K R impl1 ec1 w1 = ((impl2, ec2), w2)"
  shows "(failed ec \<longrightarrow> \<not> is_open impl1 \<and> fds (outside w1) = fds (outside w))
    \<and> (\<not> failed ec \<longrightarrow> is_open impl1 \<and> fds (outside w1) = insert (si_socket impl1) (fds (outside w)))
    \<and> \<not> is_open impl2 \<and> fds (outside w2) = fds (outside w)"
proof -
  note o = do_open_fds [OF assms(1-3)]
  have closed: "\<not> is_open impl2" and set: "fds (outside w2)
      = (if is_open impl1 then fds (outside w1) - {si_socket impl1} else fds (outside w1))"
    using assms(4)
    by (auto simp: service_close_def construct_def is_open_def Let_def case_prod_beta
        close_fds [OF assms(1)] fd_lawsD(6) [OF assms(1)] split: if_splits)
  with o show ?thesis by (auto split: if_splits)
qed

theorem open_close_no_leak_witness:
  "\<exists>impl1 impl2 w1 w2 ec2.
     do_open fd_kernel plain_reactor \<lparr>si_socket = invalid_socket, si_state = 0, si_reactor_data = None\<rparr>
       2 SOCK_STREAM 6 \<lparr>errno = 0, memory = \<lambda>_. 0, outside = {0, 1, 2}\<rparr> = ((impl1, no_error), w1)
   \<and> outside w1 = insert (si_socket impl1) {0, 1, 2}
   \<and> service_close fd_kernel plain_reactor impl1 no_error w1 = ((impl2, ec2), w2)
   \<and> outside w2 = {0, 1, 2}"
proof -
  let ?i = "\<lparr>si_socket = invalid_socket, si_state = 0, si_reactor_data = None\<rparr>"
  let ?w = "\<lparr>errno = 0, memory = \<lambda>_. 0, outside = {0, 1, 2}\<rparr>"
  have c: "\<not> is_open ?i" by (simp add: is_open_def)
  obtain impl1 ec w1 where o: "do_open fd_kernel plain_reactor ?i 2 SOCK_STREAM 6 ?w = ((impl1, ec), w1)"
    by (metis surj_pair)
  obtain impl2 ec2 w2 where s: "service_close fd_kernel plain_reactor impl1 no_error w1 = ((impl2, ec2), w2)"
    by (metis surj_pair)
  have "ec = no_error"
    using o by (simp add: do_open_def is_open_def ops_socket_def fd_kernel_def plain_reactor_def
        clear_last_error_def invalid_socket_def)
  with open_close_no_leak [OF fd_kernel_laws c o s] o s show ?thesis by auto
qed

section \<open>Connecting to the first endpoint that answers\<close>

lemma default_connect_condition: "default_connect_condition ec it = it"
  by (simp add: default_connect_condition_def)

lemma connect_step:
  "connect_loop close_socket connect_socket default_connect_condition (e # es) ec w =
     (case close_socket w of (_, w1) \<Rightarrow>
        case connect_socket e w1 of (ec1, w2) \<Rightarrow>
          if \<not> failed ec1 then Some ((e # es, ec1), w2)
          else connect_loop close_socket connect_socket default_connect_condition es ec1 w2)"
  "connect_loop close_socket connect_socket default_connect_condition [] ec w =
     Some (([], if \<not> failed ec then misc_error not_found else ec), w)"
  by (subst connect_loop.simps, simp add: default_connect_condition)+

lemma connect_loop_result:
  assumes "\<And>e w. fst (connect_socket e w) = res e"
  shows "\<exists>w1. connect_loop close_socket connect_socket default_connect_condition es ec w
    = Some ((dropWhile (failed \<circ> res) es,
        case dropWhile (failed \<circ> res) es of e # _ \<Rightarrow> res e
        | [] \<Rightarrow> if es = [] then (if failed ec then ec else misc_error not_found) else res (last es)), w1)"
proof (induction es arbitrary: ec w)
  case Nil
  then show ?case by (simp add: connect_step)
next
  case (Cons e es)
  obtain c w1 where c: "close_socket w = (c, w1)" by (metis surj_pair)
  obtain ec1 w2 where d: "connect_socket e w1 = (ec1, w2)" by (metis surj_pair)
  with assms [of e w1] have "ec1 = res e" by simp
  with Cons.IH [of ec1 w2] show ?case
    by (cases "es = []") (auto simp: connect_step c d cong: list.case_cong)
qed

text \<open>
  \<open>asio::connect\<close> over a list of endpoints each of which either accepts the connection or gives an
  error of its own: the result is the position of the first endpoint that accepts, with success;
  when none does, the end with the last endpoint's error, and on an empty list \<open>not_found\<close>.
\<close>

lemma connect_first_reachable:
  assumes "\<And>e w. fst (connect_socket e w) = res e"
    and "asio_connect_ec close_socket connect_socket es w = Some ((it, ec), w1)"
  shows "it = dropWhile (failed \<circ> res) es
    \<and> ec = (case it of e # _ \<Rightarrow> res e
        | [] \<Rightarrow> if es = [] then misc_error not_found else res (last es))"
  using connect_loop_result [of connect_socket res close_socket es no_error w] assms
  by (auto simp: asio_connect_ec_def asio_connect_def)

lemma connect_first_reachable_witness:
  "\<exists>it ec. asio_connect_ec (\<lambda>n. (no_error, n + 1))
       (\<lambda>e n. (if e = (7 :: nat) then no_error else basic_error connection_refused, n)) [3, 7, 9] (0 :: int)
     = Some ((it, ec), 2) \<and> it = [7, 9] \<and> ec = no_error"
proof -
  let ?res = "\<lambda>e. if e = (7 :: nat) then no_error else basic_error connection_refused"
  obtain it ec where r: "asio_connect_ec (\<lambda>n. (no_error, n + 1)) (\<lambda>e n. (?res e, n)) [3, 7, 9] (0 :: int)
      = Some ((it, ec), 2)"
    by (simp add: asio_connect_ec_def asio_connect_def connect_step)
  moreover have "it = [7, 9] \<and> ec = no_error"
    using connect_first_reachable [where res = ?res, OF _ r] by simp
  ultimately show ?thesis by blast
qed

end
