(* ===== verification/Name_Lookup.thy ===== *)
theory Name_Lookup
  imports Ip_Endpoint Socket_Laws
begin

text \<open>
  Name lookup in the bundled asio library: \<open>getaddrinfo\<close>, \<open>getnameinfo\<close> and their errors
  (\<open>detail/impl/socket_ops.ipp\<close>), queries (\<open>ip/basic_resolver_query.hpp\<close>), the iterator over the results
  (\<open>ip/basic_resolver_iterator.hpp\<close>), the synchronous operations of the resolver
  (\<open>detail/resolver_service.hpp\<close>, \<open>ip/basic_resolver.hpp\<close>).

  The lookups of the C library are parameters. A list of results is the list of its nodes in the
  order of their \<open>ai_next\<close> pointers.
\<close>

section \<open>Results and errors of the C library\<close>

record addrinfo =
  ai_flags :: int
  ai_family :: int
  ai_socktype :: int
  ai_protocol :: int
  ai_addrlen :: nat
  ai_addr :: bytes
  ai_canonname :: "bytes option"

type_synonym lib_getaddrinfo = "bytes option \<Rightarrow> bytes option \<Rightarrow> addrinfo \<Rightarrow> (int \<times> addrinfo list) \<times> int"

type_synonym lib_getnameinfo = "bytes \<Rightarrow> nat \<Rightarrow> int \<Rightarrow> (int \<times> bytes \<times> bytes) \<times> int"

definition EAI_BADFLAGS :: int where "EAI_BADFLAGS = -1"
definition EAI_NONAME :: int where "EAI_NONAME = -2"
definition EAI_AGAIN :: int where "EAI_AGAIN = -3"
definition EAI_FAIL :: int where "EAI_FAIL = -4"
definition EAI_NODATA :: int where "EAI_NODATA = -5"
definition EAI_FAMILY :: int where "EAI_FAMILY = -6"
definition EAI_SOCKTYPE :: int where "EAI_SOCKTYPE = -7"
definition EAI_SERVICE :: int where "EAI_SERVICE = -8"
definition EAI_ADDRFAMILY :: int where "EAI_ADDRFAMILY = -9"
definition EAI_MEMORY :: int where "EAI_MEMORY = -10"

definition translate_addrinfo_error :: "int \<Rightarrow> int \<Rightarrow> error_code" where
  "translate_addrinfo_error error err =
     (if error = 0 then no_error
      else if error = EAI_AGAIN then netdb_error host_not_found_try_again
      else if error = EAI_BADFLAGS then basic_error invalid_argument
      else if error = EAI_FAIL then netdb_error no_recovery
      else if error = EAI_FAMILY then basic_error address_family_not_supported
      else if error = EAI_MEMORY then basic_error no_memory
      else if error = EAI_NONAME \<or> error = EAI_ADDRFAMILY \<or> error = EAI_NODATA
        then netdb_error host_not_found
      else if error = EAI_SERVICE then addrinfo_error service_not_found
      else if error = EAI_SOCKTYPE then addrinfo_error socket_type_not_supported
      else error_code_of err system_category)"

text \<open>An empty name is passed as a null pointer.\<close>

definition ops_getaddrinfo ::
    "lib_getaddrinfo \<Rightarrow> bytes \<Rightarrow> bytes \<Rightarrow> addrinfo \<Rightarrow> error_code \<times> addrinfo list" where
  "ops_getaddrinfo G host service hints =
     (let host = (if host \<noteq> [] then Some host else None);
          service = (if service \<noteq> [] then Some service else None)
      in case G host service hints of
           ((error, res), err) \<Rightarrow> (translate_addrinfo_error error err, res))"

definition background_getaddrinfo ::
    "lib_getaddrinfo \<Rightarrow> bool \<Rightarrow> bytes \<Rightarrow> bytes \<Rightarrow> addrinfo \<Rightarrow> error_code \<times> addrinfo list" where
  "background_getaddrinfo G expired host service hints =
     (if expired then (basic_error operation_aborted, []) else ops_getaddrinfo G host service hints)"

definition NI_NUMERICSERV :: int where "NI_NUMERICSERV = 2"
definition NI_DGRAM :: int where "NI_DGRAM = 16"
definition SOCK_STREAM :: int where "SOCK_STREAM = 1"
definition SOCK_DGRAM :: int where "SOCK_DGRAM = 2"
definition IPPROTO_TCP :: int where "IPPROTO_TCP = 6"

definition ops_getnameinfo :: "lib_getnameinfo \<Rightarrow> bytes \<Rightarrow> nat \<Rightarrow> int \<Rightarrow> error_code \<times> bytes \<times> bytes" where
  "ops_getnameinfo N addr addrlen flags =
     (case N addr addrlen flags of
        ((error, host, serv), err) \<Rightarrow> (translate_addrinfo_error error err, host, serv))"

definition sync_getnameinfo :: "lib_getnameinfo \<Rightarrow> bytes \<Rightarrow> nat \<Rightarrow> int \<Rightarrow> error_code \<times> bytes \<times> bytes" where
  "sync_getnameinfo N addr addrlen sock_type =
     (let flags = (if sock_type = SOCK_DGRAM then NI_DGRAM else 0)
      in case ops_getnameinfo N addr addrlen flags of
           (ec, names) \<Rightarrow> if failed ec then ops_getnameinfo N addr addrlen (flags OR NI_NUMERICSERV)
                          else (ec, names))"

definition background_getnameinfo ::
    "lib_getnameinfo \<Rightarrow> bool \<Rightarrow> bytes \<Rightarrow> nat \<Rightarrow> int \<Rightarrow> error_code \<times> bytes \<times> bytes" where
  "background_getnameinfo N expired addr addrlen sock_type =
     (if expired then (basic_error operation_aborted, [], [])
      else
        let flags = (if sock_type = SOCK_DGRAM then NI_DGRAM else 0)
        in case ops_getnameinfo N addr addrlen flags of
             (ec, names) \<Rightarrow> if failed ec then ops_getnameinfo N addr addrlen (flags OR NI_NUMERICSERV)
                            else (ec, names))"

section \<open>Protocols and queries\<close>

record tcp =
  tcp_family :: int

definition tcp_v4 :: tcp where "tcp_v4 = \<lparr>tcp_family = AF_INET\<rparr>"
definition tcp_v6 :: tcp where "tcp_v6 = \<lparr>tcp_family = AF_INET6\<rparr>"
definition tcp_type :: "tcp \<Rightarrow> int" where "tcp_type p = SOCK_STREAM"
definition tcp_protocol :: "tcp \<Rightarrow> int" where "tcp_protocol p = IPPROTO_TCP"

definition ep_protocol :: "endpoint \<Rightarrow> tcp" where
  "ep_protocol e = (if ep_is_v4 e then tcp_v4 else tcp_v6)"

definition PF_UNSPEC :: int where "PF_UNSPEC = 0"
definition passive_flag :: int where "passive_flag = 1"
definition address_configured :: int where "address_configured = 32"

record resolver_query =
  query_hints :: addrinfo
  query_host :: bytes
  query_service :: bytes

definition make_hints :: "int \<Rightarrow> int \<Rightarrow> tcp \<Rightarrow> addrinfo" where
  "make_hints flags family p = \<lparr>ai_flags = flags, ai_family = family, ai_socktype = tcp_type p,
     ai_protocol = tcp_protocol p, ai_addrlen = 0, ai_addr = [], ai_canonname = None\<rparr>"

definition query_of_service :: "bytes \<Rightarrow> resolver_query" where
  "query_of_service service = \<lparr>query_hints =
     make_hints (passive_flag OR address_configured) PF_UNSPEC (ep_protocol endpoint_default),
     query_host = [], query_service = service\<rparr>"

definition query_of_protocol_service :: "tcp \<Rightarrow> bytes \<Rightarrow> resolver_query" where
  "query_of_protocol_service p service = \<lparr>query_hints =
     make_hints (passive_flag OR address_configured) (tcp_family p) p, query_host = [], query_service = service\<rparr>"

definition query_of_host :: "bytes \<Rightarrow> bytes \<Rightarrow> resolver_query" where
  "query_of_host host service = \<lparr>query_hints =
     make_hints address_configured PF_UNSPEC (ep_protocol endpoint_default),
     query_host = host, query_service = service\<rparr>"

definition query_of_protocol_host :: "tcp \<Rightarrow> bytes \<Rightarrow> bytes \<Rightarrow> resolver_query" where
  "query_of_protocol_host p host service = \<lparr>query_hints = make_hints address_configured (tcp_family p) p,
     query_host = host, query_service = service\<rparr>"

section \<open>The iterator over the results\<close>

record resolver_entry =
  en_endpoint :: endpoint
  en_host :: bytes
  en_service :: bytes

text \<open>The values are shared; the number is the address of the vector, which is what is compared.\<close>

record resolver_iterator =
  it_values :: "(nat \<times> resolver_entry list) option"
  it_index :: nat

definition iterator_end :: resolver_iterator where
  "iterator_end = \<lparr>it_values = None, it_index = 0\<rparr>"

text \<open>
  Copying a result into an endpoint: the size is checked against a structure that is larger than the
  endpoint's memory, so a size that passes can still overrun it.
\<close>

definition endpoint_from :: "addrinfo \<Rightarrow> endpoint ip_result" where
  "endpoint_from ai = bind_ip (ep_resize (ai_addrlen ai)) (\<lambda>u.
     if ai_addrlen ai > ep_capacity endpoint_default then Inl (Undefined WritePastEnd)
     else if ai_addrlen ai > length (ai_addr ai) then Inl (Undefined ReadPastEnd)
     else Inr \<lparr>ep_data = put_at 0 (take (ai_addrlen ai) (ai_addr ai)) (ep_data endpoint_default)\<rparr>)"

fun create_loop :: "bytes \<Rightarrow> bytes \<Rightarrow> addrinfo list \<Rightarrow> resolver_entry list \<Rightarrow> resolver_entry list ip_result" where
  "create_loop host service [] vals = Inr vals"
| "create_loop host service (ai # ais) vals =
     (if ai_family ai = AF_INET \<or> ai_family ai = AF_INET6 then
        bind_ip (endpoint_from ai) (\<lambda>e.
          create_loop host service ais (vals @ [\<lparr>en_endpoint = e, en_host = host, en_service = service\<rparr>]))
      else create_loop host service ais vals)"

definition iterator_create ::
    "nat \<Rightarrow> addrinfo list \<Rightarrow> bytes \<Rightarrow> bytes \<Rightarrow> resolver_iterator ip_result" where
  "iterator_create p address_info host_name service_name =
     (case address_info of
        [] \<Rightarrow> Inr iterator_end
      | ai # _ \<Rightarrow>
          let actual_host_name = (case ai_canonname ai of Some n \<Rightarrow> n | None \<Rightarrow> host_name)
          in bind_ip (create_loop actual_host_name service_name address_info []) (\<lambda>vals.
               Inr (iterator_end\<lparr>it_values := Some (p, vals)\<rparr>)))"

definition iterator_create_endpoint ::
    "nat \<Rightarrow> endpoint \<Rightarrow> bytes \<Rightarrow> bytes \<Rightarrow> resolver_iterator" where
  "iterator_create_endpoint p e host_name service_name =
     iterator_end\<lparr>it_values := Some (p, [\<lparr>en_endpoint = e, en_host = host_name, en_service = service_name\<rparr>])\<rparr>"

definition iterator_create_range ::
    "nat \<Rightarrow> endpoint list \<Rightarrow> bytes \<Rightarrow> bytes \<Rightarrow> resolver_iterator" where
  "iterator_create_range p es host_name service_name =
     (if es = [] then iterator_end
      else iterator_end\<lparr>it_values :=
        Some (p, map (\<lambda>e. \<lparr>en_endpoint = e, en_host = host_name, en_service = service_name\<rparr>) es)\<rparr>)"

definition iterator_increment :: "resolver_iterator \<Rightarrow> resolver_iterator ip_result" where
  "iterator_increment it =
     (case it_values it of
        None \<Rightarrow> Inl (Undefined NullDereference)
      | Some (p, vs) \<Rightarrow>
          if it_index it + 1 = length vs then Inr iterator_end
          else Inr (it\<lparr>it_index := it_index it + 1\<rparr>))"

definition iterator_equal :: "resolver_iterator \<Rightarrow> resolver_iterator \<Rightarrow> bool" where
  "iterator_equal a b =
     (if it_values a = None \<and> it_values b = None then True
      else if map_option fst (it_values a) \<noteq> map_option fst (it_values b) then False
      else it_index a = it_index b)"

definition iterator_dereference :: "resolver_iterator \<Rightarrow> resolver_entry ip_result" where
  "iterator_dereference it =
     (case it_values it of
        None \<Rightarrow> Inl (Undefined NullDereference)
      | Some (p, vs) \<Rightarrow>
          if it_index it < length vs then Inr (vs ! it_index it) else Inl (Undefined ReadPastEnd))"

section \<open>Resolving\<close>

definition service_resolve ::
    "lib_getaddrinfo \<Rightarrow> nat \<Rightarrow> resolver_query \<Rightarrow> (error_code \<times> resolver_iterator) ip_result" where
  "service_resolve G p q =
     (case ops_getaddrinfo G (c_string (query_host q)) (c_string (query_service q)) (query_hints q) of
        (ec, address_info) \<Rightarrow>
          if failed ec then Inr (ec, iterator_end)
          else bind_ip (iterator_create p address_info (query_host q) (query_service q)) (\<lambda>it. Inr (ec, it)))"

definition service_resolve_endpoint ::
    "lib_getnameinfo \<Rightarrow> nat \<Rightarrow> endpoint \<Rightarrow> error_code \<times> resolver_iterator" where
  "service_resolve_endpoint N p e =
     (case sync_getnameinfo N (ep_data e) (ep_size e) (tcp_type (ep_protocol e)) of
        (ec, host, service) \<Rightarrow>
          (ec, if failed ec then iterator_end else iterator_create_endpoint p e host service))"

definition resolve :: "lib_getaddrinfo \<Rightarrow> nat \<Rightarrow> resolver_query \<Rightarrow> resolver_iterator ip_result" where
  "resolve G p q = bind_ip (service_resolve G p q) throw_ip"

definition resolve_endpoint :: "lib_getnameinfo \<Rightarrow> nat \<Rightarrow> endpoint \<Rightarrow> resolver_iterator ip_result" where
  "resolve_endpoint N p e = throw_ip (service_resolve_endpoint N p e)"

text \<open>A loop that reads the entries from an iterator to the end, as \<open>asio::connect\<close> does.\<close>

partial_function (option) entries_from ::
    "resolver_iterator \<Rightarrow> resolver_entry list \<Rightarrow> resolver_entry list ip_result option" where
  "entries_from it seen =
     (if iterator_equal it iterator_end then Some (Inr seen)
      else
        case iterator_dereference it of
          Inl e \<Rightarrow> Some (Inl e)
        | Inr x \<Rightarrow>
            case iterator_increment it of
              Inl e \<Rightarrow> Some (Inl e)
            | Inr it1 \<Rightarrow> entries_from it1 (seen @ [x]))"

section \<open>What a lookup yields\<close>

definition internet :: "addrinfo \<Rightarrow> bool" where
  "internet ai \<longleftrightarrow> ai_family ai = AF_INET \<or> ai_family ai = AF_INET6"

text \<open>What the C library documents of an internet address: its length is one of the two structures.\<close>

definition well_formed :: "addrinfo \<Rightarrow> bool" where
  "well_formed ai \<longleftrightarrow> (internet ai \<longrightarrow>
     ai_addrlen ai = length (ai_addr ai) \<and> length (ai_addr ai) \<in> {16, 28})"

definition held_endpoint :: "addrinfo \<Rightarrow> endpoint" where
  "held_endpoint ai = \<lparr>ep_data = ai_addr ai @ drop (length (ai_addr ai)) (ep_data endpoint_default)\<rparr>"

lemma default_length [simp]: "length (ep_data endpoint_default) = 28"
  by (simp add: endpoint_default_def field_defs)

lemma endpoint_from_held:
  "well_formed ai \<Longrightarrow> internet ai \<Longrightarrow> endpoint_from ai = Inr (held_endpoint ai)"
  by (auto simp: endpoint_from_def well_formed_def ep_resize_def ep_capacity_def sizeof_sockaddr_storage_def
      held_endpoint_def put_at_def)

lemma create_loop_held:
  assumes "\<forall>ai \<in> set ais. well_formed ai"
  shows "create_loop host service ais vals = Inr (vals @
    map (\<lambda>ai. \<lparr>en_endpoint = held_endpoint ai, en_host = host, en_service = service\<rparr>) (filter internet ais))"
  using assms
  by (induction ais arbitrary: vals) (auto simp: internet_def [symmetric] endpoint_from_held)

lemma entries_from_index:
  assumes "i < length vs"
  shows "entries_from \<lparr>it_values = Some (p, vs), it_index = i\<rparr> seen = Some (Inr (seen @ drop i vs))"
  using assms
proof (induction "length vs - i" arbitrary: i seen)
  case (Suc n)
  have step: "entries_from \<lparr>it_values = Some (p, vs), it_index = i\<rparr> seen
      = entries_from (if i + 1 = length vs then iterator_end else \<lparr>it_values = Some (p, vs), it_index = i + 1\<rparr>)
          (seen @ [vs ! i])"
    using Suc.prems
    by (subst entries_from.simps)
      (simp add: iterator_equal_def iterator_end_def iterator_dereference_def iterator_increment_def)
  show ?case
  proof (cases "i + 1 = length vs")
    case True
    then have "drop i vs = [vs ! i]" using Suc.prems by (simp add: Cons_nth_drop_Suc [symmetric])
    with True show ?thesis
      unfolding step by (subst entries_from.simps) (simp add: iterator_equal_def iterator_end_def)
  next
    case False
    with Suc.hyps(1) [of "i + 1" "seen @ [vs ! i]"] Suc.hyps(2) Suc.prems show ?thesis
      unfolding step by (simp add: Cons_nth_drop_Suc [symmetric])
  qed
qed simp

lemma entries_from_end: "entries_from iterator_end seen = Some (Inr seen)"
  by (subst entries_from.simps) (simp add: iterator_equal_def iterator_end_def)

lemma entries_from_empty:
  "entries_from \<lparr>it_values = Some (p, []), it_index = 0\<rparr> seen = Some (Inl (Undefined ReadPastEnd))"
  by (subst entries_from.simps) (simp add: iterator_equal_def iterator_end_def iterator_dereference_def)

text \<open>The entries a list of results stands for.\<close>

definition lookup_entries :: "bytes \<Rightarrow> bytes \<Rightarrow> addrinfo list \<Rightarrow> resolver_entry list" where
  "lookup_entries host service ais =
     map (\<lambda>ai. \<lparr>en_endpoint = held_endpoint ai,
            en_host = (case ai_canonname (hd ais) of Some n \<Rightarrow> n | None \<Rightarrow> host),
            en_service = service\<rparr>) (filter internet ais)"

lemma iterator_create_entries:
  assumes "\<forall>ai \<in> set ais. well_formed ai"
  obtains it where "iterator_create p ais host service = Inr it"
    "entries_from it [] = Some (if ais \<noteq> [] \<and> filter internet ais = [] then Inl (Undefined ReadPastEnd)
       else Inr (lookup_entries host service ais))"
proof (cases ais)
  case Nil
  then show thesis
    using that [of iterator_end] by (simp add: iterator_create_def entries_from_end lookup_entries_def)
next
  case (Cons a as)
  let ?vs = "lookup_entries host service ais"
  have "iterator_create p ais host service = Inr \<lparr>it_values = Some (p, ?vs), it_index = 0\<rparr>"
    using create_loop_held [OF assms, of _ service "[]"]
    by (simp add: iterator_create_def Cons lookup_entries_def iterator_end_def Let_def del: create_loop.simps)
  moreover have "entries_from \<lparr>it_values = Some (p, ?vs), it_index = 0\<rparr> []
      = Some (if filter internet ais = [] then Inl (Undefined ReadPastEnd) else Inr ?vs)"
    by (cases "filter internet ais = []")
      (simp_all add: entries_from_index entries_from_empty lookup_entries_def)
  ultimately show thesis using that Cons by simp
qed

lemma resolve_entries:
  assumes "G (if c_string host = [] then None else Some (c_string host))
      (if c_string service = [] then None else Some (c_string service))
      (query_hints (query_of_host host service)) = ((error, ais), err)"
    and "\<forall>ai \<in> set ais. well_formed ai"
  obtains it where "entries_from it [] = Some (if ais \<noteq> [] \<and> filter internet ais = [] then Inl (Undefined ReadPastEnd)
       else Inr (lookup_entries host service ais))"
    "resolve G p (query_of_host host service) =
       (if failed (translate_addrinfo_error error err) then Inl (Thrown (translate_addrinfo_error error err)) else Inr it)"
proof -
  let ?ec = "translate_addrinfo_error error err"
  have g: "ops_getaddrinfo G (c_string host) (c_string service) (query_hints (query_of_host host service)) = (?ec, ais)"
    using assms(1) by (simp add: ops_getaddrinfo_def Let_def split: if_splits)
  obtain it where it: "iterator_create p ais host service = Inr it"
    "entries_from it [] = Some (if ais \<noteq> [] \<and> filter internet ais = [] then Inl (Undefined ReadPastEnd)
       else Inr (lookup_entries host service ais))"
    by (rule iterator_create_entries [OF assms(2)])
  have q: "query_host (query_of_host host service) = host" "query_service (query_of_host host service) = service"
    by (simp_all add: query_of_host_def)
  have "resolve G p (query_of_host host service) = (if failed ?ec then Inl (Thrown ?ec) else Inr it)"
    by (simp add: resolve_def service_resolve_def q g it(1) throw_ip_def)
  with it(2) show thesis by (rule that)
qed

text \<open>
  C35. A lookup that the C library answers with a list of results yields, to a loop over its iterator,
  the internet addresses of the list in their order, each in an endpoint that holds its bytes and with
  the canonical name if there is one; a failed lookup throws the translated error; and a list without
  any internet address gives an iterator that is not the end but has nothing to read.
\<close>

theorem lookup_yields_entries:
  assumes "G (if c_string host = [] then None else Some (c_string host))
      (if c_string service = [] then None else Some (c_string service))
      (query_hints (query_of_host host service)) = ((error, ais), err)"
    and "\<forall>ai \<in> set ais. well_formed ai"
  shows "(case resolve G p (query_of_host host service) of
      Inl e \<Rightarrow> failed (translate_addrinfo_error error err) \<and> e = Thrown (translate_addrinfo_error error err)
    | Inr it \<Rightarrow> \<not> failed (translate_addrinfo_error error err)
        \<and> entries_from it [] = Some (if ais \<noteq> [] \<and> filter internet ais = [] then Inl (Undefined ReadPastEnd)
            else Inr (lookup_entries host service ais)))"
  by (rule resolve_entries [where G = G and host = host and service = service and p = p, OF assms]) simp

text \<open>A library that knows one name, with an address of each version and one of another family.\<close>

definition internet_result :: "int \<Rightarrow> bytes \<Rightarrow> addrinfo" where
  "internet_result family addr = \<lparr>ai_flags = 0, ai_family = family, ai_socktype = SOCK_STREAM,
     ai_protocol = IPPROTO_TCP, ai_addrlen = length addr, ai_addr = addr, ai_canonname = None\<rparr>"

definition some_results :: "addrinfo list" where
  "some_results = [internet_result 1 [0], internet_result AF_INET (2 # replicate 15 0),
     internet_result AF_INET6 (10 # replicate 27 0)]"

definition small_library :: lib_getaddrinfo where
  "small_library host service hints =
     (if host = Some (cstr ''node'') then ((0, some_results), 0) else ((EAI_NONAME, []), 0))"

lemma some_results_ok: "\<forall>ai \<in> set some_results. well_formed ai"
  by (simp add: some_results_def internet_result_def well_formed_def internet_def AF_INET_def AF_INET6_def)

theorem lookup_yields_entries_witness:
  "\<exists>it. resolve small_library 5 (query_of_host (cstr ''node'') (cstr ''80'')) = Inr it
    \<and> entries_from it [] = Some (Inr (lookup_entries (cstr ''node'') (cstr ''80'') some_results))
    \<and> length (lookup_entries (cstr ''node'') (cstr ''80'') some_results) = 2"
proof -
  have c: "c_string (cstr ''node'') = cstr ''node''" "c_string (cstr ''80'') = cstr ''80''"
    by (simp_all add: c_string_def cstr_def)
  have n: "cstr ''node'' \<noteq> []" "cstr ''80'' \<noteq> []" by (simp_all add: cstr_def)
  have g: "small_library (Some (cstr ''node'')) service hints = ((0, some_results), 0)" for service hints
    by (simp add: small_library_def)
  have f: "filter internet some_results = [internet_result AF_INET (2 # replicate 15 0), internet_result AF_INET6 (10 # replicate 27 0)]"
    by (simp add: some_results_def internet_result_def internet_def AF_INET_def AF_INET6_def)
  have "small_library (if c_string (cstr ''node'') = [] then None else Some (c_string (cstr ''node'')))
      (if c_string (cstr ''80'') = [] then None else Some (c_string (cstr ''80'')))
      (query_hints (query_of_host (cstr ''node'') (cstr ''80''))) = ((0, some_results), 0)"
    by (simp only: c n g if_False)
  from lookup_yields_entries [where p = 5 and G = small_library and host = "cstr ''node''" and service = "cstr ''80''",
      OF this some_results_ok] f show ?thesis
    by (auto simp: translate_addrinfo_error_def lookup_entries_def split: sum.splits)
qed

end
