(* ===== verification/Remote_Send.thy ===== *)
theory Remote_Send
  imports Name_Lookup
begin

text \<open>
  \<open>RemoteNode::sendMessage\<close> as the code has it, over the library's lookup, \<open>asio::connect\<close>, \<open>asio::write\<close>
  and \<open>asio::read\<close>, up to its handler of exceptions. The program's model (theory \<open>Remote_Node\<close>) has one
  action for the exchange; here are the lines this action stands for.
\<close>

section \<open>The connection\<close>

text \<open>
  The port as text, the query, the lookup, and \<open>asio::connect\<close> over the results, whose failures leave as
  exceptions. \<open>close_socket\<close> and \<open>connect_socket\<close> are the socket's operations.
\<close>

definition remote_connect ::
    "lib_getaddrinfo \<Rightarrow> ('w \<Rightarrow> error_code \<times> 'w) \<Rightarrow> (endpoint \<Rightarrow> 'w \<Rightarrow> error_code \<times> 'w) \<Rightarrow> bytes \<Rightarrow> nat \<Rightarrow> 'w
     \<Rightarrow> (resolver_entry ip_result \<times> 'w) option" where
  "remote_connect G close_socket connect_socket host port w =
     (case resolve G 0 (query_of_host host (dec_number port)) of
        Inl e \<Rightarrow> Some (Inl e, w)
      | Inr it \<Rightarrow>
          case entries_from it [] of
            None \<Rightarrow> None
          | Some (Inl e) \<Rightarrow> Some (Inl e, w)
          | Some (Inr es) \<Rightarrow>
              map_option (\<lambda>(r, w1). ((case r of Inl ec \<Rightarrow> Inl (Thrown ec) | Inr it1 \<Rightarrow> Inr (hd it1)), w1))
                (asio_connect_throw close_socket (connect_socket \<circ> en_endpoint) es w))"

section \<open>The exchange\<close>

text \<open>
  The message is written; a reply is a byte with its length, which is a \<open>char\<close> and may be negative, and
  then as many bytes, into an array of \<open>MAX_DATA_LENGTH\<close>. The message lies in the buffer \<open>message\<close>, the
  local variables \<open>header\<close> and \<open>reply\<close> at the addresses of these names; both are zero at first.
\<close>

definition zeroed :: "nat \<Rightarrow> nat \<Rightarrow> 'w os \<Rightarrow> 'w os" where
  "zeroed a n w = w\<lparr>memory := write_at [a..<a + n] (replicate n 0) (memory w)\<rparr>"

definition remote_exchange ::
    "'w transfer_some \<Rightarrow> 'w transfer_some \<Rightarrow> buf \<Rightarrow> nat \<Rightarrow> nat \<Rightarrow> bool \<Rightarrow> 'w os \<Rightarrow> ((error_code + bytes) \<times> 'w os) option" where
  "remote_exchange write_some read_some message header reply responseExpected w =
     Option.bind (asio_write_throw write_some [message] w) (\<lambda>(written, w1).
       case written of
         Inl ec \<Rightarrow> Some (Inl ec, w1)
       | Inr n \<Rightarrow>
           if \<not> responseExpected then Some (Inr [], w1)
           else
             Option.bind (asio_read_throw read_some [buffer_at header 1] (zeroed header 1 w1)) (\<lambda>(got, w2).
               case got of
                 Inl ec \<Rightarrow> Some (Inl ec, w2)
               | Inr reply_length \<Rightarrow>
                   let payloadLength = char_to_int (memory w2 header)
                   in map_option (\<lambda>(got, w3).
                        (map_sum id (\<lambda>reply_length. map (memory w3) [reply..<reply + reply_length]) got, w3))
                      (asio_read_throw read_some [buffer_at reply (buffer_size payloadLength)]
                        (zeroed reply MAX_DATA_LENGTH w2))))"

section \<open>The whole\<close>

text \<open>
  What \<open>sendMessage\<close> ends with. The handler catches every exception of the library; with \<open>throwException\<close>
  it throws a copy of it as a \<open>std::exception\<close>, without the library's class and message, otherwise it
  returns an empty string. Undefined behaviour is not an exception.
\<close>

datatype send_failure = Plain_Exception | Send_Undefined ub

definition caught :: "bool \<Rightarrow> send_failure + bytes" where
  "caught throwException = (if throwException then Inl Plain_Exception else Inr [])"

definition remote_send ::
    "lib_getaddrinfo \<Rightarrow> ('w os \<Rightarrow> error_code \<times> 'w os) \<Rightarrow> (endpoint \<Rightarrow> 'w os \<Rightarrow> error_code \<times> 'w os)
     \<Rightarrow> 'w transfer_some \<Rightarrow> 'w transfer_some \<Rightarrow> bytes \<Rightarrow> nat \<Rightarrow> buf \<Rightarrow> nat \<Rightarrow> nat \<Rightarrow> bool \<Rightarrow> bool \<Rightarrow> 'w os
     \<Rightarrow> ((send_failure + bytes) \<times> 'w os) option" where
  "remote_send G close_socket connect_socket write_some read_some host port message header reply
       responseExpected throwException w =
     Option.bind (remote_connect G close_socket connect_socket host port w) (\<lambda>(r, w1).
       case r of
         Inl (Undefined u) \<Rightarrow> Some (Inl (Send_Undefined u), w1)
       | Inl e \<Rightarrow> Some (caught throwException, w1)
       | Inr e \<Rightarrow>
           map_option (\<lambda>(got, w2). ((case got of Inl ec \<Rightarrow> caught throwException | Inr bs \<Rightarrow> Inr bs), w2))
             (remote_exchange write_some read_some message header reply responseExpected w1))"

section \<open>Attempts\<close>

text \<open>
  What \<open>asio::connect\<close> would get from each entry in turn: the error of the attempt and the state after
  it, each attempt starting from the state the one before left. The results may depend on the state.
\<close>

fun attempts ::
    "('w \<Rightarrow> error_code \<times> 'w) \<Rightarrow> (endpoint \<Rightarrow> 'w \<Rightarrow> error_code \<times> 'w) \<Rightarrow> resolver_entry list \<Rightarrow> 'w
     \<Rightarrow> (resolver_entry \<times> error_code \<times> 'w) list" where
  "attempts close_socket connect_socket [] w = []"
| "attempts close_socket connect_socket (e # es) w =
     (case connect_socket (en_endpoint e) (snd (close_socket w)) of
        (ec, w1) \<Rightarrow> (e, ec, w1) # attempts close_socket connect_socket es w1)"

definition attempt_failed :: "resolver_entry \<times> error_code \<times> 'w \<Rightarrow> bool" where
  "attempt_failed = (\<lambda>(e, ec, w). failed ec)"

lemma attempt_failed_simp [simp]: "attempt_failed (e, ec, w) \<longleftrightarrow> failed ec"
  by (simp add: attempt_failed_def)

lemma attempts_entries: "map fst (attempts close_socket connect_socket es w) = es"
  by (induction es arbitrary: w) (auto split: prod.splits)

text \<open>The state a connection that fails ends in: that of the last attempt.\<close>

definition after_attempts :: "(resolver_entry \<times> error_code \<times> 'w) list \<Rightarrow> 'w \<Rightarrow> 'w" where
  "after_attempts rs w = (if rs = [] then w else snd (snd (last rs)))"

lemma connect_loop_attempts:
  "connect_loop close_socket (connect_socket \<circ> en_endpoint) default_connect_condition es ec w =
     (case dropWhile attempt_failed (attempts close_socket connect_socket es w) of
        (e, ec1, w1) # rs \<Rightarrow> Some ((e # map fst rs, ec1), w1)
      | [] \<Rightarrow> Some (([], if es = [] then (if failed ec then ec else misc_error not_found)
            else fst (snd (last (attempts close_socket connect_socket es w)))),
          after_attempts (attempts close_socket connect_socket es w) w))"
proof (induction es arbitrary: ec w)
  case Nil
  then show ?case by (simp add: connect_step after_attempts_def)
next
  case (Cons e es)
  obtain c w1 where c: "close_socket w = (c, w1)" by (metis surj_pair)
  obtain ec1 w2 where d: "connect_socket (en_endpoint e) w1 = (ec1, w2)" by (metis surj_pair)
  let ?rs = "attempts close_socket connect_socket es w2"
  have e: "?rs = [] \<longleftrightarrow> es = []" using attempts_entries [of close_socket connect_socket es w2] by (metis map_is_Nil_conv)
  show ?case
  proof (cases "failed ec1")
    case True
    with Cons.IH [of ec1 w2] e show ?thesis
      by (simp add: connect_step c d after_attempts_def cong: list.case_cong)
  next
    case False
    with attempts_entries [of close_socket connect_socket es w2] show ?thesis by (simp add: connect_step c d)
  qed
qed

lemma connect_attempts:
  "asio_connect_throw close_socket (connect_socket \<circ> en_endpoint) es w =
     (case dropWhile attempt_failed (attempts close_socket connect_socket es w) of
        (e, ec, w1) # rs \<Rightarrow> Some (Inr (e # map fst rs), w1)
      | [] \<Rightarrow> Some (Inl (if es = [] then misc_error not_found
            else fst (snd (last (attempts close_socket connect_socket es w)))),
          after_attempts (attempts close_socket connect_socket es w) w))"
proof (cases "dropWhile attempt_failed (attempts close_socket connect_socket es w)")
  case Nil
  have f: "failed (fst (snd (last (attempts close_socket connect_socket es w))))" if "es \<noteq> []"
  proof -
    have "attempts close_socket connect_socket es w \<noteq> []"
      using that attempts_entries [of close_socket connect_socket es w] by auto
    then have "last (attempts close_socket connect_socket es w) \<in> set (attempts close_socket connect_socket es w)" by simp
    then have "attempt_failed (last (attempts close_socket connect_socket es w))" using Nil by (simp add: dropWhile_eq_Nil_conv)
    then show ?thesis by (simp add: attempt_failed_def split_beta)
  qed
  show ?thesis
    using f by (cases "es = []")
      (simp_all add: asio_connect_throw_def asio_connect_ec_def asio_connect_def connect_loop_attempts throw_error_def Nil
        del: dropWhile_eq_Nil_conv)
next
  case (Cons r rs)
  then have "\<not> attempt_failed r" using hd_dropWhile [of attempt_failed] by (metis list.distinct(1) list.sel(1))
  with Cons show ?thesis
    by (cases r) (simp add: asio_connect_throw_def asio_connect_ec_def asio_connect_def connect_loop_attempts throw_error_def)
qed

text \<open>What is read from the connection is what the program's model reads.\<close>

lemma zeroed_outside [simp]: "outside (zeroed a n w) = outside w"
  by (simp add: zeroed_def)

context stream_kernel
begin

text \<open>One buffer is filled, or the stream ends.\<close>

lemma read_one_buffer:
  "\<exists>w1. asio_read_throw (service_receive K impl 0) [buffer_at a n] w =
      Some ((if length (content (outside w)) < n then Inl (misc_error eof) else Inr n), w1)
    \<and> content (outside w1) = drop n (content (outside w))
    \<and> (n \<le> length (content (outside w)) \<longrightarrow> map (memory w1) [a..<a + n] = take n (content (outside w)))"
proof -
  have b: "seq_addrs [buffer_at a n] = [a..<a + n]" by (simp add: seq_addrs_def addrs_def buffer_at_def)
  then have n: "seq_size [buffer_at a n] = n" by (simp add: seq_size_addrs)
  obtain w1 where w1: "asio_read_seq (service_receive K impl 0) [buffer_at a n] transfer_all w =
      Some ((min n (length (content (outside w))),
             if length (content (outside w)) < n then misc_error eof else no_error), w1)"
    "content (outside w1) = drop n (content (outside w))"
    "memory w1 = write_at [a..<a + n] (content (outside w)) (memory w)"
    using service_read [of "[buffer_at a n]" w, unfolded b n] by blast
  have "map (memory w1) (take (length (content (outside w))) [a..<a + n]) = take n (content (outside w))"
    using write_at_map [of "[a..<a + n]"] by (simp add: w1(3))
  with w1(1,2) show ?thesis by (auto simp: asio_read_throw_def throw_error_def min_def)
qed

lemma exchange_read:
  "\<exists>w2. Option.bind (asio_read_throw (service_receive K impl 0) [buffer_at header 1] (zeroed header 1 w)) (\<lambda>(got, w2).
               case got of
                 Inl ec \<Rightarrow> Some (Inl ec, w2)
               | Inr reply_length \<Rightarrow>
                   let payloadLength = char_to_int (memory w2 header)
                   in map_option (\<lambda>(got, w3).
                        (map_sum id (\<lambda>reply_length. map (memory w3) [reply..<reply + reply_length]) got, w3))
                      (asio_read_throw (service_receive K impl 0) [buffer_at reply (buffer_size payloadLength)]
                        (zeroed reply MAX_DATA_LENGTH w2)))
     = Some ((case read_reply (content (outside w)) of Inl e \<Rightarrow> Inl (misc_error eof) | Inr bs \<Rightarrow> Inr bs), w2)"
proof -
  let ?st = "content (outside w)"
  obtain w2 where w2: "asio_read_throw (service_receive K impl 0) [buffer_at header 1] (zeroed header 1 w) =
      Some ((if length ?st < 1 then Inl (misc_error eof) else Inr 1), w2)"
    "content (outside w2) = drop 1 ?st" "1 \<le> length ?st \<longrightarrow> map (memory w2) [header..<header + 1] = take 1 ?st"
    using read_one_buffer [of header 1 "zeroed header 1 w"] by auto
  show ?thesis
  proof (cases ?st)
    case Nil
    with w2(1) show ?thesis by (simp add: read_reply_def asio_read_def)
  next
    case (Cons h st)
    let ?n = "buffer_size (char_to_int h)"
    have h: "memory w2 header = h" using w2(3) Cons by simp
    obtain w3 where w3: "asio_read_throw (service_receive K impl 0) [buffer_at reply ?n] (zeroed reply MAX_DATA_LENGTH w2) =
        Some ((if length st < ?n then Inl (misc_error eof) else Inr ?n), w3)"
      "?n \<le> length st \<longrightarrow> map (memory w3) [reply..<reply + ?n] = take ?n st"
      using read_one_buffer [of reply ?n "zeroed reply MAX_DATA_LENGTH w2"] w2(2) Cons by auto
    with w2(1) h Cons show ?thesis by (auto simp: read_reply_def asio_read_def Let_def)
  qed
qed

end

section \<open>Theorems\<close>

text \<open>
  C7. The exchange of \<open>sendMessage\<close> over the bundled library gives what the program's model of it gives.
  After the request is written, over any system that delivers a stream of bytes in order, it returns:
  with the empty string when no reply is expected; with the reply the model's \<open>read_reply\<close> takes from the
  stream, the length byte read as a signed \<open>char\<close> and the array's size as the bound; and with the error
  of the end of the file when the stream ends before that. An error of the write is passed on.
\<close>

theorem remote_exchange_reply:
  assumes "stream_kernel K impl content ready"
    and "asio_write_throw write_some [message] w = Some (written, w1)"
  shows "\<exists>w2. remote_exchange write_some (service_receive K impl 0) message header reply responseExpected w = Some
    ((case written of
        Inl ec \<Rightarrow> Inl ec
      | Inr n \<Rightarrow>
          if responseExpected
          then (case read_reply (content (outside w1)) of Inl e \<Rightarrow> Inl (misc_error eof) | Inr bs \<Rightarrow> Inr bs)
          else Inr []), w2)"
  using stream_kernel.exchange_read [OF assms(1), of header w1 reply] assms(2)
  by (cases written) (auto simp: remote_exchange_def)

text \<open>A write that takes all it is offered.\<close>

definition accepts_all :: "'w transfer_some" where
  "accepts_all c w = Some ((length (offered c), no_error), w)"

lemma accepts_all_writes:
  "asio_write_throw accepts_all [buffer_at 500 2] w = Some (Inr 2, w)"
proof -
  let ?c = "cb_prepare default_max_transfer_size (consuming [buffer_at 500 2])"
  let ?d = "cb_prepare default_max_transfer_size (cb_consume 2 ?c)"
  have r: "remaining ?c = [500, 501]" by (simp add: addrs_def buffer_at_def upt_rec)
  then have "cb_at_end ?d" by (simp add: consume_at_end remaining_consume del: remaining_prepare)
  moreover have "\<not> cb_at_end ?c" by (simp add: consuming_def)
  moreover have "adapt ?c = \<lparr>ad_buffers = [init_native_buffer (buffer_at 500 2)], ad_total = 2\<rparr>"
    unfolding adapt_def
    by (subst adapt_from.simps, simp, subst adapt_from.simps)
      (simp add: consuming_def cb_iterator_def make_iterator_def it_increment_def ad_count_def max_buffers_def
        default_max_transfer_size_def cb_prepare_def buffer_max_def buffer_at_def)
  ultimately have c: "\<not> it_equal (cb_iterator ?c) end_iterator" "length (offered ?c) = 2" "it_equal (cb_iterator ?d) end_iterator"
    by (simp_all add: offered_def default_max_transfer_size_def buffer_at_def)
  have t: "transfer_all no_error n = default_max_transfer_size" for n by (simp add: transfer_all_def)
  have "write_loop accepts_all transfer_all ?d 2 no_error w = Some ((2, no_error), w)"
    by (subst write_loop.simps) (simp only: c if_True)
  then have "write_loop accepts_all transfer_all ?c 0 no_error w = Some ((2, no_error), w)"
    by (subst write_loop.simps) (simp only: c if_False accepts_all_def bind.simps prod.case t add_0)
  then show ?thesis by (simp add: asio_write_throw_def asio_write_seq_def t throw_error_def)
qed

theorem remote_exchange_reply_witness:
  "\<exists>w2. remote_exchange accepts_all (service_receive (pipe_kernel 2) stream_socket 0) (buffer_at 500 2) 100 200 True
      \<lparr>errno = 0, memory = \<lambda>_. 0, outside = \<lparr>pipe_bytes = [3, 65, 66, 67, 9], pipe_ready = False\<rparr>\<rparr>
    = Some (Inr [65, 66, 67], w2)"
proof -
  let ?w = "\<lparr>errno = 0, memory = \<lambda>_. 0, outside = \<lparr>pipe_bytes = [3, 65, 66, 67, 9], pipe_ready = False\<rparr>\<rparr>"
  have "read_reply [3, 65, 66, 67, 9] = Inr [65, 66, 67]" by code_simp
  with remote_exchange_reply [OF pipe.stream_kernel_axioms [of 2] accepts_all_writes [of ?w], of 100 200 True]
  show ?thesis by simp
qed

text \<open>
  C34. \<open>RemoteNode::sendMessage\<close> talks to the first internet address of the lookup that accepts its
  connection, where each attempt may depend on the state the ones before left. When the exchange with it
  fails, when no address accepts, when there is none and when the lookup itself fails, the exception of the
  library is caught: with \<open>throwException\<close> a plain \<open>std::exception\<close> leaves, which has lost the error, and
  without it the result is the empty string. A lookup whose results have no internet address among them is
  undefined behaviour, as the iterator reads past the end of an empty vector.
\<close>

theorem remote_send_first_reachable:
  assumes "G (if c_string host = [] then None else Some (c_string host)) (Some (dec_number port))
      (query_hints (query_of_host host (dec_number port))) = ((error, ais), err)"
    and "\<forall>ai \<in> set ais. well_formed ai"
    and "rs = attempts close_socket connect_socket (lookup_entries host (dec_number port) ais) w"
  shows "remote_send G close_socket connect_socket write_some read_some host port message header reply
      responseExpected throwException w =
    (if failed (translate_addrinfo_error error err) then Some (caught throwException, w)
     else if ais \<noteq> [] \<and> filter internet ais = [] then Some (Inl (Send_Undefined ReadPastEnd), w)
     else case dropWhile attempt_failed rs of
         [] \<Rightarrow> Some (caught throwException, after_attempts rs w)
       | (e, ec, w1) # _ \<Rightarrow>
           map_option (\<lambda>(got, w2). ((case got of Inl ec \<Rightarrow> caught throwException | Inr bs \<Rightarrow> Inr bs), w2))
             (remote_exchange write_some read_some message header reply responseExpected w1))"
proof -
  let ?es = "lookup_entries host (dec_number port) ais"
  have p: "(if c_string (dec_number port) = [] then None else Some (c_string (dec_number port))) = Some (dec_number port)"
    unfolding c_string_dec_number by (rule dec_number_Cons [of port]) simp
  obtain it where it: "entries_from it [] = Some (if ais \<noteq> [] \<and> filter internet ais = [] then Inl (Undefined ReadPastEnd)
       else Inr ?es)"
    "resolve G 0 (query_of_host host (dec_number port)) = (if failed (translate_addrinfo_error error err)
       then Inl (Thrown (translate_addrinfo_error error err)) else Inr it)"
    by (rule resolve_entries [where G = G and host = host and service = "dec_number port" and p = 0,
        unfolded p, OF assms(1,2)])
  have k: "asio_connect_throw close_socket (connect_socket \<circ> en_endpoint) ?es w =
     (case dropWhile attempt_failed rs of
        (e, ec, w1) # rs \<Rightarrow> Some (Inr (e # map fst rs), w1)
      | [] \<Rightarrow> Some (Inl (if ?es = [] then misc_error not_found else fst (snd (last rs))), after_attempts rs w))"
    unfolding assms(3) by (rule connect_attempts)
  define es d where "es = ?es" and "d = dropWhile attempt_failed rs"
  show ?thesis
    using it k unfolding es_def [symmetric] d_def [symmetric]
    by (cases d) (auto simp: remote_send_def remote_connect_def)
qed

text \<open>One of the two addresses, that of version 4, refuses.\<close>

definition refuses_v4 :: "endpoint \<Rightarrow> nat os \<Rightarrow> error_code \<times> nat os" where
  "refuses_v4 e w = (if ep_data e ! 0 = 2 then basic_error connection_refused else no_error, w\<lparr>outside := outside w + 1\<rparr>)"

theorem remote_send_first_reachable_witness:
  "remote_send small_library (\<lambda>w. (no_error, w)) refuses_v4 accepts_all accepts_all (cstr ''node'') 8001
       (buffer_at 500 2) 100 200 False True \<lparr>errno = 0, memory = \<lambda>_. 0, outside = 0\<rparr>
     = Some (Inr [], \<lparr>errno = 0, memory = \<lambda>_. 0, outside = 2\<rparr>)"
proof -
  let ?w = "\<lparr>errno = 0, memory = \<lambda>_. 0, outside = 0\<rparr> :: nat os"
  have c: "c_string (cstr ''node'') = cstr ''node''" by (simp add: c_string_def cstr_def)
  have g: "small_library (if c_string (cstr ''node'') = [] then None else Some (c_string (cstr ''node''))) (Some (dec_number 8001))
      (query_hints (query_of_host (cstr ''node'') (dec_number 8001))) = ((0, some_results), 0)"
    by (simp only: c small_library_def) (simp add: cstr_def)
  have f: "filter internet some_results = [internet_result AF_INET (2 # replicate 15 0), internet_result AF_INET6 (10 # replicate 27 0)]"
    by (simp add: some_results_def internet_result_def internet_def AF_INET_def AF_INET6_def)
  have es: "lookup_entries (cstr ''node'') (dec_number 8001) some_results =
      [\<lparr>en_endpoint = held_endpoint (internet_result AF_INET (2 # replicate 15 0)), en_host = cstr ''node'', en_service = dec_number 8001\<rparr>,
       \<lparr>en_endpoint = held_endpoint (internet_result AF_INET6 (10 # replicate 27 0)), en_host = cstr ''node'', en_service = dec_number 8001\<rparr>]"
    unfolding lookup_entries_def f by (simp add: some_results_def internet_result_def)
  have first: "ep_data (held_endpoint (internet_result AF_INET (2 # replicate 15 0))) ! 0 = 2"
    "ep_data (held_endpoint (internet_result AF_INET6 (10 # replicate 27 0))) ! 0 = 10"
    by (simp_all add: held_endpoint_def internet_result_def)
  show ?thesis
    using remote_send_first_reachable [where G = small_library and host = "cstr ''node''" and port = 8001
        and connect_socket = refuses_v4 and close_socket = "\<lambda>w. (no_error, w)" and w = ?w
        and write_some = accepts_all and read_some = accepts_all and message = "buffer_at 500 2"
        and header = 100 and reply = 200 and responseExpected = False and throwException = True,
        OF g some_results_ok refl]
    unfolding es f by (simp add: first refuses_v4_def translate_addrinfo_error_def remote_exchange_def accepts_all_writes)
qed

end
