(* ===== verification/Composed_Ops.thy ===== *)
theory Composed_Ops
  imports Asio_Stream
begin

text \<open>
  The asynchronous transfers of the bundled asio library that take several operations, \<open>read_op\<close> of
  \<open>impl/read.hpp\<close> and \<open>write_op\<close> of \<open>impl/write.hpp\<close>: a function object that is called when it is
  started and whenever an operation of the stream completes, and that starts the next one or calls the
  handler.
\<close>

section \<open>Operations that start each other\<close>

text \<open>
  What a call of the function object ends with: an operation of the stream on these buffers, the call of
  the handler with the error code and the number of bytes, or an exception.
\<close>

datatype effect = Await consuming_buffers | Complete error_code nat | Raise cxx_error

text \<open>
  The stream and the \<open>io_service\<close>: each operation ends with what the stream transfers and reports, and
  the function object is called with that.
\<close>

partial_function (option) drive ::
    "'w transfer_some \<Rightarrow> (error_code \<Rightarrow> nat \<Rightarrow> 'op \<times> 'w os \<Rightarrow> effect \<times> 'op \<times> 'w os) \<Rightarrow> effect \<times> 'op \<times> 'w os \<Rightarrow>
     ((nat \<times> error_code) result \<times> 'op \<times> 'w os) option" where
  "drive transfer call st =
     (case st of (e, op, w) \<Rightarrow>
        (case e of
           Complete ec n \<Rightarrow> Some (Inr (n, ec), op, w)
         | Raise x \<Rightarrow> Some (Inl x, op, w)
         | Await c \<Rightarrow> Option.bind (transfer c w) (\<lambda>((n, ec), w1). drive transfer call (call ec n (op, w1)))))"

text \<open>A function object that does not touch the memory.\<close>

definition pure_call :: "(error_code \<Rightarrow> nat \<Rightarrow> 'op \<Rightarrow> effect \<times> 'op) \<Rightarrow> error_code \<Rightarrow> nat \<Rightarrow> 'op \<times> 'w os \<Rightarrow> effect \<times> 'op \<times> 'w os" where
  "pure_call call ec n = (\<lambda>(op, w). case call ec n op of (e, op1) \<Rightarrow> (e, op1, w))"

definition outcome :: "((nat \<times> error_code) result \<times> 'op \<times> 'w os) option \<Rightarrow> ((nat \<times> error_code) result \<times> 'w os) option" where
  "outcome = map_option (\<lambda>(res, op, w). (res, w))"

lemma drive_simps [simp]:
  "drive transfer call (Complete ec n, op, w) = Some (Inr (n, ec), op, w)"
  "drive transfer call (Raise x, op, w) = Some (Inl x, op, w)"
  "drive transfer call (Await c, op, w) = Option.bind (transfer c w) (\<lambda>((n, ec), w1). drive transfer call (call ec n (op, w1)))"
  by (subst drive.simps, simp)+

lemma outcome_simps [simp]: "outcome (Some (res, op, w)) = Some (res, w)" "outcome None = None"
  by (simp_all add: outcome_def)

section \<open>Reading\<close>

record read_op =
  ro_buffers :: consuming_buffers
  ro_start :: int
  ro_total :: nat

definition new_read_op :: "buf list \<Rightarrow> read_op" where
  "new_read_op buffers = \<lparr>ro_buffers = consuming buffers, ro_start = 0, ro_total = 0\<rparr>"

text \<open>The object moves into the operation it starts; the buffers are copied by that.\<close>

definition read_op_move :: "read_op \<Rightarrow> read_op" where
  "read_op_move other = \<lparr>ro_buffers = cb_copy (ro_buffers other), ro_start = ro_start other, ro_total = ro_total other\<rparr>"

definition read_op_call :: "(error_code \<Rightarrow> nat \<Rightarrow> nat) \<Rightarrow> int \<Rightarrow> error_code \<Rightarrow> nat \<Rightarrow> read_op \<Rightarrow> effect \<times> read_op" where
  "read_op_call condition phase ec n op =
     (let op0 = op\<lparr>ro_start := phase\<rparr>
      in if phase = 1 then
           let op1 = op0\<lparr>ro_buffers := cb_prepare (condition ec (ro_total op0)) (ro_buffers op0)\<rparr>
           in (Await (ro_buffers op1), read_op_move op1)
         else
           let op1 = op0\<lparr>ro_total := ro_total op0 + n, ro_buffers := cb_consume n (ro_buffers op0)\<rparr>;
               op2 = op1\<lparr>ro_buffers := cb_prepare (condition ec (ro_total op1)) (ro_buffers op1)\<rparr>
           in if (\<not> failed ec \<and> n = 0) \<or> it_equal (cb_iterator (ro_buffers op2)) end_iterator
              then (Complete ec (ro_total op2), op2)
              else (Await (ro_buffers op2), read_op_move op2))"

definition async_read ::
    "'w transfer_some \<Rightarrow> buf list \<Rightarrow> (error_code \<Rightarrow> nat \<Rightarrow> nat) \<Rightarrow> 'w os \<Rightarrow> ((nat \<times> error_code) result \<times> read_op \<times> 'w os) option" where
  "async_read read_some buffers condition w =
     drive read_some (pure_call (read_op_call condition 0))
       (pure_call (read_op_call condition 1) no_error 0 (new_read_op buffers, w))"

definition async_read_all ::
    "'w transfer_some \<Rightarrow> buf list \<Rightarrow> 'w os \<Rightarrow> ((nat \<times> error_code) result \<times> read_op \<times> 'w os) option" where
  "async_read_all read_some buffers w = async_read read_some buffers transfer_all w"

text \<open>The specialisation for one buffer.\<close>

record read_op1 =
  r1_buffer :: buf
  r1_start :: int
  r1_total :: nat

definition new_read_op1 :: "buf \<Rightarrow> read_op1" where
  "new_read_op1 buffer = \<lparr>r1_buffer = buffer, r1_start = 0, r1_total = 0\<rparr>"

definition read_op1_call :: "(error_code \<Rightarrow> nat \<Rightarrow> nat) \<Rightarrow> int \<Rightarrow> error_code \<Rightarrow> nat \<Rightarrow> read_op1 \<Rightarrow> effect \<times> read_op1" where
  "read_op1_call condition phase ec transferred op =
     (let op0 = op\<lparr>r1_start := phase\<rparr>
      in if phase = 1 then
           let n = condition ec (r1_total op0)
           in (Await (consuming [buffer_max (buffer_plus (r1_buffer op0) (r1_total op0)) n]), op0)
         else
           let op1 = op0\<lparr>r1_total := r1_total op0 + transferred\<rparr>
           in if \<not> failed ec \<and> transferred = 0 then (Complete ec (r1_total op1), op1)
              else
                let n = condition ec (r1_total op1)
                in if n = 0 \<or> r1_total op1 = buf_size (r1_buffer op1) then (Complete ec (r1_total op1), op1)
                   else (Await (consuming [buffer_max (buffer_plus (r1_buffer op1) (r1_total op1)) n]), op1))"

definition async_read1 ::
    "'w transfer_some \<Rightarrow> buf \<Rightarrow> (error_code \<Rightarrow> nat \<Rightarrow> nat) \<Rightarrow> 'w os \<Rightarrow> ((nat \<times> error_code) result \<times> read_op1 \<times> 'w os) option" where
  "async_read1 read_some buffer condition w =
     drive read_some (pure_call (read_op1_call condition 0))
       (pure_call (read_op1_call condition 1) no_error 0 (new_read_op1 buffer, w))"

section \<open>Writing\<close>

record write_op =
  wo_buffers :: consuming_buffers
  wo_start :: int
  wo_total :: nat

definition new_write_op :: "buf list \<Rightarrow> write_op" where
  "new_write_op buffers = \<lparr>wo_buffers = consuming buffers, wo_start = 0, wo_total = 0\<rparr>"

definition write_op_move :: "write_op \<Rightarrow> write_op" where
  "write_op_move other = \<lparr>wo_buffers = cb_copy (wo_buffers other), wo_start = wo_start other, wo_total = wo_total other\<rparr>"

definition write_op_call :: "(error_code \<Rightarrow> nat \<Rightarrow> nat) \<Rightarrow> int \<Rightarrow> error_code \<Rightarrow> nat \<Rightarrow> write_op \<Rightarrow> effect \<times> write_op" where
  "write_op_call condition phase ec n op =
     (let op0 = op\<lparr>wo_start := phase\<rparr>
      in if phase = 1 then
           let op1 = op0\<lparr>wo_buffers := cb_prepare (condition ec (wo_total op0)) (wo_buffers op0)\<rparr>
           in (Await (wo_buffers op1), write_op_move op1)
         else
           let op1 = op0\<lparr>wo_total := wo_total op0 + n, wo_buffers := cb_consume n (wo_buffers op0)\<rparr>;
               op2 = op1\<lparr>wo_buffers := cb_prepare (condition ec (wo_total op1)) (wo_buffers op1)\<rparr>
           in if (\<not> failed ec \<and> n = 0) \<or> it_equal (cb_iterator (wo_buffers op2)) end_iterator
              then (Complete ec (wo_total op2), op2)
              else (Await (wo_buffers op2), write_op_move op2))"

definition async_write ::
    "'w transfer_some \<Rightarrow> buf list \<Rightarrow> (error_code \<Rightarrow> nat \<Rightarrow> nat) \<Rightarrow> 'w os \<Rightarrow> ((nat \<times> error_code) result \<times> write_op \<times> 'w os) option" where
  "async_write write_some buffers condition w =
     drive write_some (pure_call (write_op_call condition 0))
       (pure_call (write_op_call condition 1) no_error 0 (new_write_op buffers, w))"

definition async_write_all ::
    "'w transfer_some \<Rightarrow> buf list \<Rightarrow> 'w os \<Rightarrow> ((nat \<times> error_code) result \<times> write_op \<times> 'w os) option" where
  "async_write_all write_some buffers w = async_write write_some buffers transfer_all w"

text \<open>The specialisation for one constant buffer.\<close>

record write_op1 =
  w1_buffer :: buf
  w1_start :: int
  w1_total :: nat

definition new_write_op1 :: "buf \<Rightarrow> write_op1" where
  "new_write_op1 buffer = \<lparr>w1_buffer = buffer, w1_start = 0, w1_total = 0\<rparr>"

definition write_op1_call :: "(error_code \<Rightarrow> nat \<Rightarrow> nat) \<Rightarrow> int \<Rightarrow> error_code \<Rightarrow> nat \<Rightarrow> write_op1 \<Rightarrow> effect \<times> write_op1" where
  "write_op1_call condition phase ec transferred op =
     (let op0 = op\<lparr>w1_start := phase\<rparr>
      in if phase = 1 then
           let n = condition ec (w1_total op0)
           in (Await (consuming [buffer_max (buffer_plus (w1_buffer op0) (w1_total op0)) n]), op0)
         else
           let op1 = op0\<lparr>w1_total := w1_total op0 + transferred\<rparr>
           in if \<not> failed ec \<and> transferred = 0 then (Complete ec (w1_total op1), op1)
              else
                let n = condition ec (w1_total op1)
                in if n = 0 \<or> w1_total op1 = buf_size (w1_buffer op1) then (Complete ec (w1_total op1), op1)
                   else (Await (consuming [buffer_max (buffer_plus (w1_buffer op1) (w1_total op1)) n]), op1))"

definition async_write1 ::
    "'w transfer_some \<Rightarrow> buf \<Rightarrow> (error_code \<Rightarrow> nat \<Rightarrow> nat) \<Rightarrow> 'w os \<Rightarrow> ((nat \<times> error_code) result \<times> write_op1 \<times> 'w os) option" where
  "async_write1 write_some buffer condition w =
     drive write_some (pure_call (write_op1_call condition 0))
       (pure_call (write_op1_call condition 1) no_error 0 (new_write_op1 buffer, w))"

section \<open>The copies of a sequence\<close>

text \<open>The rest of a partly consumed sequence is an end of the sequence, so a copy is equal.\<close>

definition cb_valid :: "consuming_buffers \<Rightarrow> bool" where
  "cb_valid c \<longleftrightarrow> (\<exists>k. cb_rest c = drop k (cb_buffers c))"

lemma copy_same: "cb_valid c \<Longrightarrow> cb_copy c = c"
proof -
  assume "cb_valid c"
  then obtain k where k: "cb_rest c = drop k (cb_buffers c)" by (auto simp: cb_valid_def)
  then have "drop (length (cb_buffers c) - length (cb_rest c)) (cb_buffers c) = cb_rest c"
    by (cases "k \<le> length (cb_buffers c)") simp_all
  then show ?thesis by (simp add: cb_copy_def Let_def)
qed

lemma valid_consuming [simp]: "cb_valid (consuming bs)"
  by (cases bs) (auto simp: cb_valid_def consuming_def intro: exI [of _ "Suc 0"] exI [of _ 0])

lemma valid_prepare [simp]: "cb_valid (cb_prepare m c) \<longleftrightarrow> cb_valid c"
  by (simp add: cb_valid_def cb_prepare_def)

lemma valid_next: "cb_valid c \<Longrightarrow> cb_valid (cb_next c)"
proof -
  assume "cb_valid c"
  then obtain k where "cb_rest c = drop k (cb_buffers c)" by (auto simp: cb_valid_def)
  then have "cb_rest c = b # bs \<Longrightarrow> bs = drop (Suc k) (cb_buffers c)" for b bs
    by (metis drop_Suc list.sel(3) tl_drop)
  with \<open>cb_valid c\<close> show ?thesis
    by (cases "cb_rest c") (auto simp: cb_valid_def cb_next_def)
qed

lemma valid_consume_bytes: "cb_valid c \<Longrightarrow> cb_valid (consume_bytes n c)"
proof (induction n c rule: consume_bytes.induct)
  case (1 n c)
  then show ?case by (subst consume_bytes.simps) (auto simp: valid_next, simp add: cb_valid_def)
qed

lemma valid_skip_empty: "cb_valid c \<Longrightarrow> cb_valid (skip_empty c)"
proof (induction c rule: skip_empty.induct)
  case (1 c)
  then show ?case by (subst skip_empty.simps) (simp add: valid_next)
qed

lemma valid_consume: "cb_valid c \<Longrightarrow> cb_valid (cb_consume n c)"
  by (simp add: cb_consume_def valid_consume_bytes valid_skip_empty)

section \<open>The same transfer at once\<close>

text \<open>
  What a stream promises to both: an operation that is offered no room succeeds with no bytes, and one
  that is offered room succeeds only with some.
\<close>

locale progressing =
  fixes transfer :: "'w transfer_some"
  assumes transfer_nothing: "offered c = [] \<Longrightarrow> transfer c w = Some ((0, no_error), w)"
    and transfer_progress: "offered c \<noteq> [] \<Longrightarrow> transfer c w = Some ((n, ec), w1) \<Longrightarrow> failed ec \<or> n \<noteq> 0"

text \<open>Where the operation is when the buffers \<open>tmp\<close> are left.\<close>

definition at_stage :: "consuming_buffers \<Rightarrow> nat \<Rightarrow> error_code \<Rightarrow> effect" where
  "at_stage tmp sofar ec = (if it_equal (cb_iterator tmp) end_iterator then Complete ec sofar else Await tmp)"

definition has_room :: "consuming_buffers \<Rightarrow> bool" where
  "has_room tmp \<longleftrightarrow> it_equal (cb_iterator tmp) end_iterator \<or> offered tmp \<noteq> []"

lemma room_after_consume: "has_room (cb_prepare m (cb_consume n c))"
  using offered_empty_first [of "cb_prepare m (cb_consume n c)"] skip_empty_first [of "consume_bytes n c"]
  by (auto simp: has_room_def cb_consume_def)

abbreviation done_reading :: "((nat \<times> error_code) \<times> 'w) option \<Rightarrow> ((nat \<times> error_code) result \<times> 'w) option" where
  "done_reading \<equiv> map_option (\<lambda>(r, w). (Inr r, w))"

abbreviation reading_op :: "consuming_buffers \<Rightarrow> int \<Rightarrow> nat \<Rightarrow> read_op" where
  "reading_op tmp phase sofar \<equiv> \<lparr>ro_buffers = tmp, ro_start = phase, ro_total = sofar\<rparr>"

lemma next_stage:
  assumes "cb_valid tmp" "failed ec \<or> n \<noteq> 0"
  shows "read_op_call condition 0 ec n (reading_op tmp phase sofar) =
    (let tmp1 = cb_prepare (condition ec (sofar + n)) (cb_consume n tmp)
     in (at_stage tmp1 (sofar + n) ec, reading_op tmp1 0 (sofar + n)))"
  using assms by (auto simp: read_op_call_def Let_def at_stage_def read_op_move_def copy_same valid_consume)

context progressing
begin

lemma loop_then_drive:
  assumes "read_loop transfer condition tmp sofar ec w = Some r" "cb_valid tmp" "has_room tmp"
  shows "outcome (drive transfer (pure_call (read_op_call condition 0)) (at_stage tmp sofar ec, reading_op tmp phase sofar, w))
    = done_reading (Some r)"
proof -
  have "tr = transfer \<Longrightarrow> cb_valid tmp \<Longrightarrow> has_room tmp \<Longrightarrow>
      outcome (drive tr (pure_call (read_op_call condition 0)) (at_stage tmp sofar ec, reading_op tmp phase sofar, w)) = done_reading (Some r)"
    if "read_loop tr condition tmp sofar ec w = Some r" for tr and phase
    using that
  proof (induction arbitrary: phase rule: read_loop.raw_induct [rotated, consumes 1, case_names step])
    case (step loop tr condition tmp sofar ec w r)
    show ?case
    proof (cases "it_equal (cb_iterator tmp) end_iterator")
      case True
      with step.hyps show ?thesis by (auto simp: at_stage_def)
    next
      case False
      with step.hyps obtain n ec1 w1 where t: "tr tmp w = Some ((n, ec1), w1)"
        and l: "loop tr condition (cb_prepare (condition ec1 (sofar + n)) (cb_consume n tmp)) (sofar + n) ec1 w1 = Some r"
        by (auto simp: bind_eq_Some_conv)
      have "failed ec1 \<or> n \<noteq> 0" using transfer_progress [of tmp w n ec1 w1] t step.prems False by (auto simp: has_room_def)
      from next_stage [OF step.prems(2) this] step.IH [OF l step.prems(1) _ room_after_consume, of 0] step.prems False t show ?thesis
        by (simp add: at_stage_def [of tmp] pure_call_def Let_def valid_consume)
    qed
  qed
  from this [OF assms(1) refl assms(2,3)] show ?thesis .
qed

lemma drive_then_loop:
  assumes "drive transfer (pure_call (read_op_call condition 0)) (at_stage tmp sofar ec, reading_op tmp phase sofar, w) = Some r"
    and "cb_valid tmp" "has_room tmp"
  shows "done_reading (read_loop transfer condition tmp sofar ec w) = outcome (Some r)"
proof -
  have "done_reading (read_loop transfer condition tmp sofar ec w) = outcome (Some r)"
    if "drive tr call st = Some r" "tr = transfer" "call = pure_call (read_op_call condition 0)"
      "st = (at_stage tmp sofar ec, reading_op tmp phase sofar, w)" "cb_valid tmp" "has_room tmp" for tr call st tmp sofar ec phase w r
    using that
  proof (induction arbitrary: tmp sofar ec phase w rule: drive.raw_induct [rotated, consumes 1, case_names step])
    case (step loop tr call st r)
    show ?case
    proof (cases "it_equal (cb_iterator tmp) end_iterator")
      case True
      with step.hyps step.prems show ?thesis by (subst read_loop.simps) (auto simp: at_stage_def outcome_def)
    next
      case False
      with step.hyps step.prems obtain n ec1 w1 where t: "transfer tmp w = Some ((n, ec1), w1)"
        and l: "loop transfer (pure_call (read_op_call condition 0))
          (pure_call (read_op_call condition 0) ec1 n (reading_op tmp phase sofar, w1)) = Some r"
        by (auto simp: at_stage_def bind_eq_Some_conv)
      have p: "failed ec1 \<or> n \<noteq> 0" using transfer_progress [of tmp w n ec1 w1] t step.prems False by (auto simp: has_room_def)
      let ?tmp = "cb_prepare (condition ec1 (sofar + n)) (cb_consume n tmp)"
      have "pure_call (read_op_call condition 0) ec1 n (reading_op tmp phase sofar, w1) =
          (at_stage ?tmp (sofar + n) ec1, reading_op ?tmp 0 (sofar + n), w1)"
        using next_stage [OF step.prems(4) p, of condition phase sofar] by (simp add: pure_call_def Let_def)
      from step.IH [OF l refl refl this _ room_after_consume] step.prems(4) False t show ?thesis
        by (subst read_loop.simps) (simp add: valid_consume)
    qed
  qed
  from this [OF assms(1) refl refl refl assms(2,3)] show ?thesis .
qed

lemma drive_is_loop:
  assumes "cb_valid tmp" "has_room tmp"
  shows "outcome (drive transfer (pure_call (read_op_call condition 0)) (at_stage tmp sofar ec, reading_op tmp phase sofar, w))
    = done_reading (read_loop transfer condition tmp sofar ec w)"
proof (cases "read_loop transfer condition tmp sofar ec w")
  case (Some r)
  with loop_then_drive [OF Some assms] show ?thesis by simp
next
  case None
  show ?thesis
  proof (cases "drive transfer (pure_call (read_op_call condition 0)) (at_stage tmp sofar ec, reading_op tmp phase sofar, w)")
    case (Some r)
    from drive_then_loop [OF Some assms] None show ?thesis by (simp add: outcome_def)
  qed (simp add: None)
qed

end

section \<open>Function objects that do the same\<close>

text \<open>
  Two runs agree when a relation between their states is kept: they wait for operations on which the
  stream does the same, or end in the same way.
\<close>

definition keeps_step ::
    "'w transfer_some \<Rightarrow> (error_code \<Rightarrow> nat \<Rightarrow> 'a \<times> 'w os \<Rightarrow> effect \<times> 'a \<times> 'w os) \<Rightarrow>
     (error_code \<Rightarrow> nat \<Rightarrow> 'b \<times> 'w os \<Rightarrow> effect \<times> 'b \<times> 'w os) \<Rightarrow>
     (effect \<times> 'a \<times> 'w os \<Rightarrow> effect \<times> 'b \<times> 'w os \<Rightarrow> bool) \<Rightarrow> bool" where
  "keeps_step transfer call call' R \<longleftrightarrow> (\<forall>e op w e' op' w'. R (e, op, w) (e', op', w') \<longrightarrow> w' = w \<and>
     (case e of
        Await c \<Rightarrow> (\<exists>c'. e' = Await c' \<and> transfer c' w = transfer c w \<and>
          (\<forall>n ec w1. transfer c w = Some ((n, ec), w1) \<longrightarrow> R (call ec n (op, w1)) (call' ec n (op', w1))))
      | _ \<Rightarrow> e' = e))"

lemma keeps_step_sym: "keeps_step transfer call call' R \<Longrightarrow> keeps_step transfer call' call (\<lambda>s t. R t s)"
  unfolding keeps_step_def by (auto split: effect.splits) (metis effect.distinct effect.inject effect.exhaust)+

lemma drive_follows:
  assumes "drive transfer call st = Some r" "keeps_step transfer call call' R" "R st st'"
  shows "outcome (drive transfer call' st') = outcome (Some r)"
proof -
  have "outcome (drive transfer call' st') = outcome (Some r)"
    if "drive tr c st = Some r" "tr = transfer" "c = call" "R st st'" for tr c st r st'
    using that
  proof (induction arbitrary: st' rule: drive.raw_induct [rotated, consumes 1, case_names step])
    case (step loop tr c st r)
    obtain e op w e' op' w' where st: "st = (e, op, w)" "st' = (e', op', w')" by (metis surj_pair)
    note k = assms(2) [unfolded keeps_step_def, rule_format, OF step.prems(3) [unfolded st]]
    show ?case
    proof (cases e)
      case (Await b)
      with step.hyps step.prems(1,2) st obtain n ec w1 where t: "transfer b w = Some ((n, ec), w1)"
        and l: "loop transfer call (call ec n (op, w1)) = Some r"
        by (auto simp: bind_eq_Some_conv)
      from Await k t obtain b' where "e' = Await b'" "w' = w" "transfer b' w = Some ((n, ec), w1)"
        "R (call ec n (op, w1)) (call' ec n (op', w1))" by auto
      with step.IH [OF l refl refl] st show ?thesis by simp
    qed (use k step.hyps st in \<open>auto simp: outcome_def\<close>)
  qed
  from this [OF assms(1) refl refl assms(3)] show ?thesis .
qed

lemma drive_agrees:
  assumes "keeps_step transfer call call' R" "R st st'"
  shows "outcome (drive transfer call' st') = outcome (drive transfer call st)"
proof (cases "drive transfer call st")
  case (Some r)
  with drive_follows [OF Some assms] show ?thesis by simp
next
  case None
  show ?thesis
  proof (cases "drive transfer call' st'")
    case (Some r)
    from drive_follows [OF Some keeps_step_sym [OF assms(1)], of st] assms(2) None show ?thesis
      by (auto simp: outcome_def)
  qed (simp add: None)
qed

text \<open>Writing is reading in the other direction.\<close>

definition as_write :: "read_op \<Rightarrow> write_op" where
  "as_write op = \<lparr>wo_buffers = ro_buffers op, wo_start = ro_start op, wo_total = ro_total op\<rparr>"

lemma write_call: "write_op_call condition phase ec n (as_write op) =
    (case read_op_call condition phase ec n op of (e, op1) \<Rightarrow> (e, as_write op1))"
  by (simp add: write_op_call_def read_op_call_def as_write_def write_op_move_def read_op_move_def Let_def)

lemma async_write_is_read: "outcome (async_write transfer buffers condition w) = outcome (async_read transfer buffers condition w)"
proof -
  let ?R = "\<lambda>(e, op, w) st'. st' = (e, as_write op, w)"
  have "keeps_step transfer (pure_call (read_op_call condition 0)) (pure_call (write_op_call condition 0)) ?R"
    by (auto simp: keeps_step_def pure_call_def write_call split: effect.split prod.splits)
  moreover have "new_write_op buffers = as_write (new_read_op buffers)"
    by (simp add: new_write_op_def new_read_op_def as_write_def)
  ultimately show ?thesis
    unfolding async_write_def async_read_def
    by (intro drive_agrees [where R = ?R]) (auto simp: pure_call_def write_call split: prod.split)
qed

definition as_write1 :: "read_op1 \<Rightarrow> write_op1" where
  "as_write1 op = \<lparr>w1_buffer = r1_buffer op, w1_start = r1_start op, w1_total = r1_total op\<rparr>"

lemma write1_call: "write_op1_call condition phase ec n (as_write1 op) =
    (case read_op1_call condition phase ec n op of (e, op1) \<Rightarrow> (e, as_write1 op1))"
  by (simp add: write_op1_call_def read_op1_call_def as_write1_def Let_def)

lemma async_write1_is_read1: "outcome (async_write1 transfer b condition w) = outcome (async_read1 transfer b condition w)"
proof -
  let ?R = "\<lambda>(e, op, w) st'. st' = (e, as_write1 op, w)"
  have "keeps_step transfer (pure_call (read_op1_call condition 0)) (pure_call (write_op1_call condition 0)) ?R"
    by (auto simp: keeps_step_def pure_call_def write1_call split: effect.split prod.splits)
  moreover have "new_write_op1 b = as_write1 (new_read_op1 b)"
    by (simp add: new_write_op1_def new_read_op1_def as_write1_def)
  ultimately show ?thesis
    unfolding async_write1_def async_read1_def
    by (intro drive_agrees [where R = ?R]) (auto simp: pure_call_def write1_call split: prod.split)
qed

lemma write_loop_is_read_loop: "write_loop transfer condition tmp sofar ec w = read_loop transfer condition tmp sofar ec w"
proof -
  have "read_loop tr condition tmp sofar ec w = Some r" if "write_loop tr condition tmp sofar ec w = Some r" for tr condition tmp sofar ec w r
    using that
  proof (induction rule: write_loop.raw_induct [rotated, consumes 1, case_names step])
    case step
    from step.hyps show ?case by (subst read_loop.simps) (auto simp: bind_eq_Some_conv dest: step.IH split: if_splits)
  qed
  moreover have "write_loop tr condition tmp sofar ec w = Some r" if "read_loop tr condition tmp sofar ec w = Some r" for tr condition tmp sofar ec w r
    using that
  proof (induction rule: read_loop.raw_induct [rotated, consumes 1, case_names step])
    case step
    from step.hyps show ?case by (subst write_loop.simps) (auto simp: bind_eq_Some_conv dest: step.IH split: if_splits)
  qed
  ultimately show ?thesis by (metis not_None_eq)
qed

section \<open>Starting\<close>

text \<open>A sequence offers nothing when it is at its end, or when as many of its buffers are empty as the system takes at once.\<close>

lemma offered_at_end: "it_equal (cb_iterator c) end_iterator \<Longrightarrow> offered c = []"
  using offered_prefix [of c] by (auto simp: remaining_def)

lemma adapt_from_more: "\<exists>rest. iov_addrs (ad_buffers (adapt_from a it)) = iov_addrs (ad_buffers a) @ rest"
proof (induction a it rule: adapt_from.induct)
  case (1 a it)
  then show ?case by (subst adapt_from.simps) auto
qed

lemma adapt_from_empty:
  assumes "iov_addrs (ad_buffers (adapt_from a it)) = iov_addrs (ad_buffers a)" "\<not> it_at_end it"
    and "it_first it = buffer_max b (it_max it - it_offset it)" "it_offset it < it_max it"
  shows "\<forall>x \<in> set (take (max_buffers - ad_count a) (b # it_rest it)). buf_size x = 0"
  using assms
proof (induction a it arbitrary: b rule: adapt_from.induct)
  case (1 a it)
  show ?case
  proof (cases "ad_count a < max_buffers")
    case True
    let ?a = "\<lparr>ad_buffers = ad_buffers a @ [init_native_buffer (it_first it)], ad_total = ad_total a + buf_size (it_first it)\<rparr>"
    have step: "adapt_from a it = adapt_from ?a (it_increment it)"
      using True 1(3) by (subst adapt_from.simps) simp
    obtain rest where "iov_addrs (ad_buffers (adapt_from ?a (it_increment it))) = iov_addrs (ad_buffers ?a) @ rest"
      using adapt_from_more by blast
    with 1(2) have e: "addrs (it_first it) = []" "rest = []" by (simp_all add: step)
    then have b: "buf_size b = 0" "buf_size (it_first it) = 0" using 1(4,5) by simp_all
    have n: "max_buffers - ad_count a = Suc (max_buffers - ad_count ?a)" using True by (simp add: ad_count_def)
    show ?thesis
    proof (cases "it_rest it")
      case Nil
      then show ?thesis unfolding n Nil take_Suc_Cons list.set take_Nil using b(1) by blast
    next
      case (Cons b1 bs)
      have i: "\<not> it_at_end (it_increment it)" "it_rest (it_increment it) = bs" "it_offset (it_increment it) = it_offset it"
          "it_max (it_increment it) = it_max it" "it_first (it_increment it) = buffer_max b1 (it_max it - it_offset it)"
        using 1(3,5) b Cons by (simp_all add: it_increment_def)
      have iov: "iov_addrs (ad_buffers (adapt_from ?a (it_increment it))) = iov_addrs (ad_buffers ?a)"
        using 1(2) e(1) unfolding step by simp
      have "\<not> it_equal it end_iterator \<and> ad_count a < max_buffers" using True 1(3) by simp
      from 1(1) [OF this iov i(1), of b1] have "\<forall>x \<in> set (take (max_buffers - ad_count ?a) (b1 # it_rest (it_increment it))). buf_size x = 0"
        unfolding i using 1(5) by blast
      then show ?thesis unfolding i n Cons take_Suc_Cons list.set ball_simps using b(1) by blast
    qed
  qed simp
qed

lemma offered_leading:
  assumes "offered c = []" "\<not> cb_at_end c" "cb_max c > 0"
  shows "\<forall>x \<in> set (take max_buffers (cb_first c # cb_rest c)). buf_size x = 0"
proof -
  let ?a = "\<lparr>ad_buffers = [], ad_total = 0\<rparr> :: adapter"
  have "\<forall>x \<in> set (take (max_buffers - ad_count ?a) (cb_first c # it_rest (cb_iterator c))). buf_size x = 0"
    by (rule adapt_from_empty) (use assms in \<open>simp_all add: offered_def adapt_def cb_iterator_def make_iterator_def\<close>)
  then show ?thesis by (simp add: ad_count_def cb_iterator_def make_iterator_def)
qed

lemma adapt_from_skips:
  assumes "\<forall>x \<in> set (take (max_buffers - ad_count a) (b # it_rest it)). buf_size x = 0"
    and "it_first it = buffer_max b k"
  shows "iov_addrs (ad_buffers (adapt_from a it)) = iov_addrs (ad_buffers a)"
  using assms
proof (induction a it arbitrary: b k rule: adapt_from.induct)
  case (1 a it)
  show ?case
  proof (cases "\<not> it_at_end it \<and> ad_count a < max_buffers")
    case True
    let ?a = "\<lparr>ad_buffers = ad_buffers a @ [init_native_buffer (it_first it)], ad_total = ad_total a + buf_size (it_first it)\<rparr>"
    have step: "adapt_from a it = adapt_from ?a (it_increment it)"
      using True by (subst adapt_from.simps) simp
    have n: "max_buffers - ad_count a = Suc (max_buffers - ad_count ?a)" using True by (auto simp: ad_count_def)
    have b: "buf_size (it_first it) = 0" "\<forall>x \<in> set (take (max_buffers - ad_count ?a) (it_rest it)). buf_size x = 0"
      using 1(2) unfolding 1(3) n take_Suc_Cons by simp_all
    have "iov_addrs (ad_buffers (adapt_from ?a (it_increment it))) = iov_addrs (ad_buffers ?a)"
    proof (cases "it_rest it")
      case Nil
      then have "it_at_end (it_increment it)" using True by (simp add: it_increment_def)
      then show ?thesis by (subst adapt_from.simps) simp
    next
      case (Cons b1 bs)
      show ?thesis
      proof (cases "it_at_end (it_increment it)")
        case False
        then have i: "it_rest (it_increment it) = bs" "it_first (it_increment it) = buffer_max b1 (it_max it - it_offset it)"
          using True Cons b(1) by (auto simp: it_increment_def split: if_splits)
        show ?thesis
          by (rule 1(1) [of b1 "it_max it - it_offset it"]) (use True b(2) in \<open>simp_all only: i Cons it_equal_end simp_thms\<close>)
      qed (subst adapt_from.simps, simp)
    qed
    with b(1) show ?thesis unfolding step by simp
  qed (subst adapt_from.simps, auto)
qed

text \<open>The first buffers hold a byte, or none does.\<close>

definition leads :: "buf list \<Rightarrow> bool" where
  "leads bs \<longleftrightarrow> list_ex (\<lambda>b. 0 < buf_size b) (take max_buffers bs) \<or> seq_size bs = 0"

context progressing
begin

lemma async_read_is_read:
  assumes "leads buffers"
  shows "outcome (async_read transfer buffers condition w) = done_reading (asio_read_seq transfer buffers condition w)"
proof -
  let ?c = "cb_prepare (condition no_error 0) (consuming buffers)"
  have start: "async_read transfer buffers condition w =
      drive transfer (pure_call (read_op_call condition 0)) (Await ?c, reading_op ?c 1 0, w)"
    by (simp add: async_read_def pure_call_def read_op_call_def new_read_op_def read_op_move_def copy_same)
  have sync: "asio_read_seq transfer buffers condition w = read_loop transfer condition ?c 0 no_error w"
    by (simp add: asio_read_seq_def)
  have idle: "outcome (async_read transfer buffers condition w) = done_reading (Some ((0, no_error), w))" if "offered ?c = []"
    using that by (simp add: start transfer_nothing pure_call_def read_op_call_def Let_def)
  show ?thesis
  proof (cases "it_equal (cb_iterator ?c) end_iterator")
    case True
    then have "read_loop transfer condition ?c 0 no_error w = Some ((0, no_error), w)"
      by (subst read_loop.simps) simp
    moreover have "offered ?c = []" by (rule offered_at_end [OF True])
    ultimately show ?thesis using idle by (simp only: sync)
  next
    case False
    show ?thesis
    proof (cases "offered ?c = []")
      case True
      obtain b bs where b: "buffers = b # bs" using False by (cases buffers) (auto simp: consuming_def)
      have "seq_size buffers = 0"
        using offered_leading [OF True] False assms by (auto simp: leads_def b consuming_def list_ex_iff)
      then have "remaining (cb_consume 0 ?c) = []" by (simp add: remaining_consume seq_size_addrs)
      then have "cb_at_end (cb_consume 0 ?c)" by (simp add: consume_at_end)
      then have "read_loop transfer condition ?c 0 no_error w = Some ((0, no_error), w)"
        using False by (subst read_loop.simps) (simp add: transfer_nothing [OF True], subst read_loop.simps, simp)
      then show ?thesis using idle [OF True] by (simp only: sync)
    next
      case room: False
      then have "outcome (drive transfer (pure_call (read_op_call condition 0)) (at_stage ?c 0 no_error, reading_op ?c 1 0, w))
          = done_reading (read_loop transfer condition ?c 0 no_error w)"
        by (intro drive_is_loop) (simp_all add: has_room_def)
      with False show ?thesis by (simp add: start sync at_stage_def)
    qed
  qed
qed

lemma async_write_is_write:
  "leads buffers \<Longrightarrow> outcome (async_write transfer buffers condition w) = done_reading (asio_write_seq transfer buffers condition w)"
  using async_read_is_read by (simp add: async_write_is_read asio_write_seq_def asio_read_seq_def write_loop_is_read_loop)

end

sublocale byte_stream \<subseteq> progressing read_some
proof
  show "offered c = [] \<Longrightarrow> read_some c w = Some ((0, no_error), w)" for c w by (rule read_nothing)
  show "offered c \<noteq> [] \<Longrightarrow> read_some c w = Some ((n, ec), w1) \<Longrightarrow> failed ec \<or> n \<noteq> 0" for c w n ec w1
    using read_end [of c w] read_bytes [of c w] by (cases "content w = []") auto
qed

interpretation pipe_ops: progressing "service_receive (pipe_kernel chunk) stream_socket 0" for chunk
  by (rule pipe.progressing_axioms)

section \<open>One buffer\<close>

text \<open>A stream that looks only at what the system is given, and reports no more than that.\<close>

locale adapting = progressing transfer for transfer :: "'w transfer_some" +
  assumes same_adapter: "ad_buffers (adapt c) = ad_buffers (adapt c') \<Longrightarrow> transfer c w = transfer c' w"
    and counts: "transfer c w = Some ((n, ec), w1) \<Longrightarrow> n \<le> length (offered c)"

text \<open>What is left of a sequence of one buffer.\<close>

definition one_left :: "buf \<Rightarrow> nat \<Rightarrow> consuming_buffers \<Rightarrow> bool" where
  "one_left b t c \<longleftrightarrow> cb_rest c = [] \<and> t \<le> buf_size b \<and>
     (if cb_at_end c then t = buf_size b else cb_first c = buffer_plus b t)"

lemma plus_twice: "t + n \<le> buf_size b \<Longrightarrow> buffer_plus (buffer_plus b t) n = buffer_plus b (t + n)"
  by (simp add: buffer_plus_def buffer_at_def)

lemma consume_one:
  assumes "one_left b t c" "\<not> cb_at_end c" "t + n \<le> buf_size b"
  shows "one_left b (t + n) (cb_consume n c)" "cb_at_end (cb_consume n c) \<longleftrightarrow> t + n = buf_size b"
proof -
  have c: "cb_rest c = []" "cb_first c = buffer_plus b t" "cb_next c = c\<lparr>cb_at_end := True\<rparr>"
    using assms(1,2) by (simp_all add: one_left_def cb_next_def)
  have "remaining c = drop t (addrs b)" using c assms(2) by (simp add: remaining_def)
  then show e: "cb_at_end (cb_consume n c) \<longleftrightarrow> t + n = buf_size b"
    using assms(3) consume_drops [of n c] by auto
  have "consume_bytes n c = (if n = 0 then c else if buf_size b - t \<le> n then c\<lparr>cb_at_end := True\<rparr> else c\<lparr>cb_first := buffer_plus b (t + n)\<rparr>)"
    using assms(2,3) c by (auto simp: consume_bytes.simps [of n c] consume_bytes.simps [of _ "c\<lparr>cb_at_end := True\<rparr>"] plus_twice)
  moreover have "skip_empty d = (if \<not> cb_at_end d \<and> buf_size (cb_first d) = 0 then d\<lparr>cb_at_end := True\<rparr> else d)" if "cb_rest d = []" for d
    using that by (simp add: skip_empty.simps [of d] skip_empty.simps [of "d\<lparr>cb_at_end := True\<rparr>"] cb_next_def)
  ultimately show "one_left b (t + n) (cb_consume n c)"
    using assms(3) c e by (auto simp: one_left_def cb_consume_def)
qed

lemma adapt_one:
  assumes "cb_rest c = []" "\<not> cb_at_end c" "cb_max c > 0"
  shows "ad_buffers (adapt c) = [init_native_buffer (buffer_max (cb_first c) (cb_max c))]"
proof -
  let ?it = "cb_iterator c"
  have "\<not> it_at_end ?it" "it_first ?it = buffer_max (cb_first c) (cb_max c)" "it_at_end (it_increment ?it)"
    using assms by (simp_all add: it_increment_def cb_iterator_def make_iterator_def)
  then show ?thesis
    unfolding adapt_def
    by (simp add: adapt_from.simps [of _ ?it] adapt_from.simps [of _ "it_increment ?it"] ad_count_def max_buffers_def)
qed

context adapting
begin

lemma same_for_one:
  assumes "one_left b t c" "buf_size b \<le> size_max" "c' = consuming [buffer_max (buffer_plus b t) (cb_max c)]" "\<not> cb_at_end c"
  shows "transfer c' w = transfer c w"
proof (cases "offered c = []")
  case True
  have "cb_max c = 0 \<or> t = buf_size b"
    using offered_empty_first [OF True assms(4)] assms(1,4) by (cases "cb_max c = 0") (auto simp: one_left_def)
  then have "remaining c' = []" using assms(1) by (auto simp: assms(3))
  then have "offered c' = []" using offered_length(2) [of c'] by simp
  with True show ?thesis by (simp add: transfer_nothing)
next
  case False
  then have m: "cb_max c > 0" using offered_length(1) [of c] by (cases "cb_max c") auto
  have first: "cb_rest c = []" "cb_first c = buffer_plus b t" using assms(1,4) by (simp_all add: one_left_def)
  have "buffer_max (buffer_max (buffer_plus b t) (cb_max c)) size_max = buffer_max (buffer_plus b t) (cb_max c)"
    using assms(2) by (auto simp: buffer_max_def buffer_plus_def buffer_at_def empty_buffer_def)
  moreover have "cb_rest c' = []" "\<not> cb_at_end c'" "cb_first c' = buffer_max (buffer_plus b t) (cb_max c)" "cb_max c' = size_max"
    by (simp_all add: assms(3) consuming_def)
  ultimately have "ad_buffers (adapt c') = ad_buffers (adapt c)"
    using adapt_one [of c] adapt_one [of c'] first m assms(4) by (simp add: size_max_def)
  then show ?thesis by (rule same_adapter)
qed

lemma async_read1_is_read:
  assumes "buf_size b \<le> size_max"
  shows "outcome (async_read1 transfer b condition w) = outcome (async_read transfer [b] condition w)"
proof -
  define R where "R = (\<lambda>(e, op :: read_op, w :: 'w os) (e', op' :: read_op1, w' :: 'w os). w' = w \<and> r1_buffer op' = b
    \<and> r1_total op' = ro_total op \<and>
    (case e of Await c \<Rightarrow> ro_buffers op = c \<and> cb_valid c \<and> one_left b (ro_total op) c \<and> \<not> cb_at_end c
          \<and> e' = Await (consuming [buffer_max (buffer_plus b (ro_total op)) (cb_max c)])
      | _ \<Rightarrow> e' = e))"
  have next_call: "R (pure_call (read_op_call condition 0) ec n (op, w1)) (pure_call (read_op1_call condition 0) ec n (op', w1))"
    if o: "r1_buffer op' = b" "r1_total op' = ro_total op" "ro_buffers op = c" and c: "cb_valid c" "one_left b (ro_total op) c" "\<not> cb_at_end c"
      and n: "n \<le> length (offered c)" for op op' c ec n w1
  proof -
    have "length (remaining c) = buf_size b - ro_total op" using c(2,3) by (simp add: remaining_def one_left_def)
    then have fits: "ro_total op + n \<le> buf_size b" using n offered_length(2) [of c] c(2) by (auto simp: one_left_def)
    note one = consume_one [OF c(2,3) fits]
    have "one_left b (ro_total op + n) (cb_prepare m (cb_consume n c))" for m
      using one(1) by (simp add: one_left_def)
    with o c one(2) valid_consume [OF c(1)] show ?thesis
      by (auto simp: R_def pure_call_def read_op_call_def read_op1_call_def Let_def read_op_move_def copy_same)
  qed
  have "keeps_step transfer (pure_call (read_op_call condition 0)) (pure_call (read_op1_call condition 0)) R"
    unfolding keeps_step_def
  proof (intro allI impI, goal_cases)
    case (1 e op w e' op' w')
    show ?case
    proof (cases e)
      case (Await c)
      with 1 have r: "w' = w" "r1_buffer op' = b" "r1_total op' = ro_total op" "ro_buffers op = c" "cb_valid c"
        "one_left b (ro_total op) c" "\<not> cb_at_end c" "e' = Await (consuming [buffer_max (buffer_plus b (ro_total op)) (cb_max c)])"
        by (auto simp: R_def)
      from same_for_one [OF r(6) assms refl r(7)] next_call [OF r(2-7)] counts r(1,8) show ?thesis
        unfolding Await effect.case by blast
    qed (use 1 in \<open>auto simp: R_def\<close>)
  qed
  moreover have "R (pure_call (read_op_call condition 1) no_error 0 (new_read_op [b], w))
      (pure_call (read_op1_call condition 1) no_error 0 (new_read_op1 b, w))"
    by (simp add: R_def pure_call_def read_op_call_def read_op1_call_def new_read_op_def new_read_op1_def read_op_move_def copy_same one_left_def)
      (simp add: consuming_def buffer_plus_def buffer_at_def)
  ultimately show ?thesis unfolding async_read1_def async_read_def by (rule drive_agrees)
qed

end

lemma adapt_determined: "ad_buffers (adapt c) = ad_buffers (adapt c') \<Longrightarrow> adapt c = adapt c'"
  using adapt_from_total [of "\<lparr>ad_buffers = [], ad_total = 0\<rparr>" "cb_iterator c"]
    adapt_from_total [of "\<lparr>ad_buffers = [], ad_total = 0\<rparr>" "cb_iterator c'"]
  by (cases "adapt c", cases "adapt c'") (simp add: adapt_def)

sublocale stream_kernel \<subseteq> adapting "service_receive K impl 0"
proof
  show "ad_buffers (adapt c) = ad_buffers (adapt c') \<Longrightarrow> service_receive K impl 0 c w = service_receive K impl 0 c' w" for c c' w
    using adapt_determined [of c c'] by (simp add: service_receive_def)
  show "service_receive K impl 0 c w = Some ((n, ec), w1) \<Longrightarrow> n \<le> length (offered c)" for c w n ec w1
    using read_nothing [of c w] read_end [of c w] read_bytes [of c w]
    by (cases "offered c = []"; cases "content (outside w) = []") auto
qed

context stream_kernel
begin

lemma service_adapting: "adapting (service_receive K impl 0)"
  by (rule adapting_axioms)

end

lemma offered_skips: "\<not> leads bs \<Longrightarrow> offered (cb_prepare m (consuming bs)) = []"
proof (cases bs)
  case (Cons b rest)
  assume l: "\<not> leads bs"
  let ?c = "cb_prepare m (consuming bs)" and ?a = "\<lparr>ad_buffers = [], ad_total = 0\<rparr> :: adapter"
  have "\<forall>x \<in> set (take (max_buffers - ad_count ?a) (b # it_rest (cb_iterator ?c))). buf_size x = 0"
    using l by (simp add: Cons leads_def list_ex_iff ad_count_def cb_iterator_def make_iterator_def consuming_def)
  from adapt_from_skips [OF this] show ?thesis
    by (simp add: offered_def adapt_def Cons cb_iterator_def make_iterator_def consuming_def)
qed (simp add: leads_def seq_size_addrs)

context progressing
begin

lemma async_read_stops:
  assumes "\<not> leads buffers"
  shows "outcome (async_read transfer buffers condition w) = Some (Inr (0, no_error), w)"
  using offered_skips [OF assms]
  by (simp add: async_read_def pure_call_def read_op_call_def new_read_op_def read_op_move_def transfer_nothing Let_def)

end

section \<open>Properties\<close>

text \<open>
  C16. \<open>async_read\<close> into any buffers with any completion condition, over any system that delivers a
  stream in pieces, gives its handler what \<open>read\<close> returns, and the specialisation for one buffer does
  the same; unless the first 64 buffers, as many as the system takes at once, are empty and a later
  one is not: then it reports success with no bytes, where \<open>read\<close> goes on to the later buffers.
\<close>

theorem async_read_agrees:
  assumes "stream_kernel K impl content ready" "buf_size b \<le> size_max"
  shows "outcome (async_read (service_receive K impl 0) buffers condition w) =
      (if leads buffers then map_option (\<lambda>(r, w). (Inr r, w)) (asio_read_seq (service_receive K impl 0) buffers condition w)
       else Some (Inr (0, no_error), w))
    \<and> outcome (async_read1 (service_receive K impl 0) b condition w) =
      map_option (\<lambda>(r, w). (Inr r, w)) (asio_read_seq (service_receive K impl 0) [b] condition w)"
proof -
  have a: "adapting (service_receive K impl 0)" by (rule stream_kernel.service_adapting [OF assms(1)])
  then have p: "progressing (service_receive K impl 0)" by (rule adapting.axioms)
  have "leads [b]" by (auto simp: leads_def seq_size_addrs max_buffers_def)
  then show ?thesis
    using progressing.async_read_is_read [OF p] progressing.async_read_stops [OF p] adapting.async_read1_is_read [OF a assms(2)] by simp
qed

definition six_bytes :: "pipe os" where
  "six_bytes = \<lparr>errno = 0, memory = \<lambda>_. 0, outside = \<lparr>pipe_bytes = [1, 2, 3, 4, 5, 6], pipe_ready = False\<rparr>\<rparr>"

theorem async_read_agrees_witness:
  "(\<exists>w1. outcome (async_read (service_receive (pipe_kernel 2) stream_socket 0) [buffer_at 100 2, buffer_at 200 3] transfer_all six_bytes)
      = Some (Inr (5, no_error), w1))
   \<and> outcome (async_read (service_receive (pipe_kernel 2) stream_socket 0) (replicate 64 (buffer_at 0 0) @ [buffer_at 100 2]) transfer_all six_bytes)
      = Some (Inr (0, no_error), six_bytes)
   \<and> (\<exists>w1. outcome (async_read1 (service_receive (pipe_kernel 2) stream_socket 0) (buffer_at 100 4) transfer_all six_bytes)
      = Some (Inr (4, no_error), w1))"
proof -
  have small: "buf_size (buffer_at 100 4) \<le> size_max" by (simp add: buffer_at_def size_max_def)
  note agrees = async_read_agrees [OF pipe.stream_kernel_axioms [of 2] small, of _ transfer_all six_bytes]
  have leads: "leads [buffer_at 100 2, buffer_at 200 3]" "\<not> leads (replicate 64 (buffer_at 0 0) @ [buffer_at 100 2])"
    by (simp_all add: leads_def max_buffers_def buffer_at_def list_ex_iff seq_size_addrs seq_addrs_def addrs_def)
  have sizes: "seq_size [buffer_at 100 2, buffer_at 200 3] = 5" "seq_size [buffer_at 100 4] = 4"
    by (simp_all add: seq_size_addrs buffer_at_def)
  have sync: "\<exists>w1. asio_read_seq (service_receive (pipe_kernel 2) stream_socket 0) bufs transfer_all six_bytes = Some ((seq_size bufs, no_error), w1)"
    if "seq_size bufs \<le> 6" for bufs
    using pipe.service_read [where bufs = bufs and w = six_bytes and chunk = 2] that by (auto simp: six_bytes_def)
  show ?thesis
    using agrees leads
      sync [of "[buffer_at 100 2, buffer_at 200 3]"] sync [of "[buffer_at 100 4]"] by (auto simp: sizes)
qed

end
