(* ===== verification/Async_Connect.thy ===== *)
theory Async_Connect
  imports Composed_Ops
begin

text \<open>
  The asynchronous \<open>connect\<close> of the bundled asio library, \<open>impl/connect.hpp\<close>: \<open>connect_op\<close> tries the
  endpoints of a list in turn. An iterator is the list from its position to the end, as for the
  synchronous function; the operations of the socket are parameters.
\<close>

section \<open>The function object\<close>

text \<open>
  A call ends with a connection that has been started, with a call of itself that has been posted, or
  with the call of the handler.
\<close>

datatype 'e connect_effect = Connecting 'e | Posted error_code | Connected error_code "'e list"

definition check_condition :: "(error_code \<Rightarrow> 'e list \<Rightarrow> 'e list) \<Rightarrow> error_code \<Rightarrow> 'e list \<Rightarrow> 'e list" where
  "check_condition condition ec it = (if it \<noteq> [] then condition ec it else it)"

text \<open>The specialisation for the default condition.\<close>

definition check_default_condition :: "error_code \<Rightarrow> 'e list \<Rightarrow> 'e list" where
  "check_default_condition ec it = it"

record 'e connect_op =
  co_iter :: "'e list"
  co_start :: int

text \<open>From the top of the loop; the second case is the fall into the middle of it.\<close>

definition connect_op_round ::
    "('w \<Rightarrow> error_code \<times> 'w) \<Rightarrow> (error_code \<Rightarrow> 'e list \<Rightarrow> 'e list) \<Rightarrow> int \<Rightarrow> error_code \<Rightarrow> 'e connect_op \<Rightarrow> 'w \<Rightarrow>
     'e connect_effect \<times> 'e connect_op \<times> 'w" where
  "connect_op_round close_socket check phase ec op w =
     (let op1 = op\<lparr>co_iter := check ec (co_iter op)\<rparr>
      in case co_iter op1 of
           e # es \<Rightarrow> (case close_socket w of (_, w1) \<Rightarrow> (Connecting e, op1, w1))
         | [] \<Rightarrow> if phase \<noteq> 0 then (Posted (misc_error not_found), op1, w) else (Connected ec [], op1, w))"

definition connect_op_call ::
    "('w \<Rightarrow> error_code \<times> 'w) \<Rightarrow> ('w \<Rightarrow> bool) \<Rightarrow> (error_code \<Rightarrow> 'e list \<Rightarrow> 'e list) \<Rightarrow> int \<Rightarrow> error_code \<Rightarrow>
     'e connect_op \<Rightarrow> 'w \<Rightarrow> 'e connect_effect \<times> 'e connect_op \<times> 'w" where
  "connect_op_call close_socket opened check phase ec op w =
     (let op0 = op\<lparr>co_start := phase\<rparr>
      in if phase = 1 then connect_op_round close_socket check phase ec op0 w
         else if co_iter op0 = [] then (Connected ec [], op0, w)
         else if \<not> opened w then (Connected (basic_error operation_aborted) (co_iter op0), op0, w)
         else if \<not> failed ec then (Connected ec (co_iter op0), op0, w)
         else connect_op_round close_socket check phase ec (op0\<lparr>co_iter := tl (co_iter op0)\<rparr>) w)"

text \<open>The socket's connection ends with an error code, a posted call comes with its own.\<close>

partial_function (option) drive_connect ::
    "('e \<Rightarrow> 'w \<Rightarrow> error_code \<times> 'w) \<Rightarrow> (error_code \<Rightarrow> 'e connect_op \<Rightarrow> 'w \<Rightarrow> 'e connect_effect \<times> 'e connect_op \<times> 'w) \<Rightarrow>
     'e connect_effect \<times> 'e connect_op \<times> 'w \<Rightarrow> (('e list \<times> error_code) \<times> 'w) option" where
  "drive_connect connect_socket call st =
     (case st of (e, op, w) \<Rightarrow>
        (case e of
           Connecting p \<Rightarrow> (case connect_socket p w of (ec, w1) \<Rightarrow> drive_connect connect_socket call (call ec op w1))
         | Posted ec \<Rightarrow> drive_connect connect_socket call (call ec op w)
         | Connected ec it \<Rightarrow> Some ((it, ec), w)))"

definition async_connect_with ::
    "('w \<Rightarrow> error_code \<times> 'w) \<Rightarrow> ('e \<Rightarrow> 'w \<Rightarrow> error_code \<times> 'w) \<Rightarrow> ('w \<Rightarrow> bool) \<Rightarrow>
     (error_code \<Rightarrow> 'e list \<Rightarrow> 'e list) \<Rightarrow> 'e list \<Rightarrow> 'w \<Rightarrow> (('e list \<times> error_code) \<times> 'w) option" where
  "async_connect_with close_socket connect_socket opened check it w =
     drive_connect connect_socket (connect_op_call close_socket opened check 0)
       (connect_op_call close_socket opened check 1 no_error \<lparr>co_iter = it, co_start = 0\<rparr> w)"

definition async_connect ::
    "('w \<Rightarrow> error_code \<times> 'w) \<Rightarrow> ('e \<Rightarrow> 'w \<Rightarrow> error_code \<times> 'w) \<Rightarrow> ('w \<Rightarrow> bool) \<Rightarrow> 'e list \<Rightarrow> 'w \<Rightarrow>
     (('e list \<times> error_code) \<times> 'w) option" where
  "async_connect close_socket connect_socket opened it w =
     async_connect_with close_socket connect_socket opened check_default_condition it w"

definition async_connect_condition ::
    "('w \<Rightarrow> error_code \<times> 'w) \<Rightarrow> ('e \<Rightarrow> 'w \<Rightarrow> error_code \<times> 'w) \<Rightarrow> ('w \<Rightarrow> bool) \<Rightarrow>
     (error_code \<Rightarrow> 'e list \<Rightarrow> 'e list) \<Rightarrow> 'e list \<Rightarrow> 'w \<Rightarrow> (('e list \<times> error_code) \<times> 'w) option" where
  "async_connect_condition close_socket connect_socket opened condition it w =
     async_connect_with close_socket connect_socket opened (check_condition condition) it w"

section \<open>The same connection at once\<close>

lemma drive_connect_simps [simp]:
  "drive_connect connect_socket call (Connecting p, op, w) = (case connect_socket p w of (ec, w1) \<Rightarrow> drive_connect connect_socket call (call ec op w1))"
  "drive_connect connect_socket call (Posted ec, op, w) = drive_connect connect_socket call (call ec op w)"
  "drive_connect connect_socket call (Connected ec it, op, w) = Some ((it, ec), w)"
  by (subst drive_connect.simps, simp)+

lemma default_check: "check_default_condition = check_condition default_connect_condition"
  by (intro ext) (simp add: check_default_condition_def check_condition_def default_connect_condition_def)

text \<open>
  The loop of the synchronous function, where nothing has failed before it starts: then the code of an
  empty list is set in another way.
\<close>

abbreviation keeps_open :: "('e \<Rightarrow> 'w \<Rightarrow> error_code \<times> 'w) \<Rightarrow> ('w \<Rightarrow> bool) \<Rightarrow> bool" where
  "keeps_open connect_socket opened \<equiv> \<forall>e w. opened (snd (connect_socket e w))"

abbreviation stays_inside :: "(error_code \<Rightarrow> 'e list \<Rightarrow> 'e list) \<Rightarrow> bool" where
  "stays_inside condition \<equiv> \<forall>ec it. it \<noteq> [] \<longrightarrow> condition ec it \<noteq> []"

abbreviation connecting :: "'e list \<Rightarrow> int \<Rightarrow> 'e connect_op" where
  "connecting it phase \<equiv> \<lparr>co_iter = it, co_start = phase\<rparr>"

lemma connect_then_drive:
  assumes "connect_loop close_socket connect_socket condition it ec w = Some r"
    and "keeps_open connect_socket opened" "stays_inside condition" "failed ec"
  shows "drive_connect connect_socket (connect_op_call close_socket opened (check_condition condition) 0)
    (connect_op_round close_socket (check_condition condition) 0 ec (connecting it k) w) = Some r"
  using assms
proof (induction arbitrary: k rule: connect_loop.raw_induct [rotated, consumes 1, case_names step])
  case (step loop close_socket connect_socket condition it ec w r)
  show ?case
  proof (cases it)
    case Nil
    with step.hyps step.prems(3) show ?thesis by (simp add: connect_op_round_def check_condition_def)
  next
    case (Cons x xs)
    then obtain e es where c: "condition ec it = e # es" using step.prems(2) by (metis list.exhaust list.distinct(1))
    obtain cc w1 ec1 w2 where w: "close_socket w = (cc, w1)" "connect_socket e w1 = (ec1, w2)" by (metis surj_pair)
    have o: "opened w2" using step.prems(1) w(2) by (metis snd_conv)
    show ?thesis
    proof (cases "failed ec1")
      case True
      with step.hyps Cons c w have l: "loop close_socket connect_socket condition es ec1 w2 = Some r" by simp
      from step.IH [OF l step.prems(1,2) True, of 0] Cons c w True o show ?thesis
        by (simp add: connect_op_round_def [of _ _ _ ec] check_condition_def [of _ ec] connect_op_call_def Let_def)
    next
      case False
      with step.hyps Cons c w o show ?thesis
        by (simp add: connect_op_round_def check_condition_def connect_op_call_def Let_def)
    qed
  qed
qed

lemma drive_then_connect:
  assumes "drive_connect connect_socket (connect_op_call close_socket opened (check_condition condition) 0)
      (connect_op_round close_socket (check_condition condition) 0 ec (connecting it k) w) = Some r"
    and "keeps_open connect_socket opened" "stays_inside condition" "failed ec"
  shows "connect_loop close_socket connect_socket condition it ec w = Some r"
proof -
  let ?call = "connect_op_call close_socket opened (check_condition condition) 0"
  let ?round = "connect_op_round close_socket (check_condition condition) 0"
  have "(\<forall>ec it op w. st = (Connected ec it, op, w) \<longrightarrow> r = ((it, ec), w)) \<and>
      (\<forall>it ec w k. st = ?round ec (connecting it k) w \<longrightarrow> failed ec \<longrightarrow> connect_loop close_socket connect_socket condition it ec w = Some r)"
    if "drive_connect cs call st = Some r" "cs = connect_socket" "call = ?call" for cs call st r
    using that
  proof (induction rule: drive_connect.raw_induct [rotated, consumes 1, case_names step])
    case (step loop cs call st r)
    have "connect_loop close_socket connect_socket condition it ec w = Some r"
      if st: "st = ?round ec (connecting it k) w" and ec: "failed ec" for it ec w k
    proof (cases it)
      case Nil
      with step.hyps step.prems st ec show ?thesis
        by (subst connect_loop.simps) (simp add: connect_op_round_def check_condition_def)
    next
      case (Cons x xs)
      then obtain e es where c: "condition ec it = e # es" using assms(3) by (metis list.exhaust list.distinct(1))
      obtain cc w1 ec1 w2 where w: "close_socket w = (cc, w1)" "connect_socket e w1 = (ec1, w2)" by (metis surj_pair)
      have o: "opened w2" using assms(2) w(2) by (metis snd_conv)
      have st: "st = (Connecting e, connecting (e # es) k, w1)"
        using st Cons c w by (simp add: connect_op_round_def check_condition_def)
      have l: "loop connect_socket ?call (?call ec1 (connecting (e # es) k) w2) = Some r"
        using step.hyps step.prems(1,2) w(2) by (simp add: st)
      show ?thesis
      proof (cases "failed ec1")
        case True
        then have "?call ec1 (connecting (e # es) k) w2 = ?round ec1 (connecting es 0) w2"
          using o by (simp add: connect_op_call_def)
        from step.IH [OF l refl refl, THEN conjunct2, rule_format, OF this True] Cons c w True show ?thesis
          by (subst connect_loop.simps) simp
      next
        case False
        have "?call ec1 (connecting (e # es) k) w2 = (Connected ec1 (e # es), connecting (e # es) 0, w2)"
          using False o by (simp add: connect_op_call_def)
        with step.IH [OF l refl refl] have "r = ((e # es, ec1), w2)" by simp
        then show ?thesis using Cons c w False by (subst connect_loop.simps) simp
      qed
    qed
    with step.hyps show ?case by auto
  qed
  from this [OF assms(1) refl refl] assms(4) show ?thesis by blast
qed

lemma round_is_loop:
  assumes "keeps_open connect_socket opened" "stays_inside condition" "failed ec"
  shows "drive_connect connect_socket (connect_op_call close_socket opened (check_condition condition) 0)
      (connect_op_round close_socket (check_condition condition) 0 ec (connecting it k) w)
    = connect_loop close_socket connect_socket condition it ec w"
  using connect_then_drive [OF _ assms] drive_then_connect [OF _ assms] by (metis not_None_eq)

section \<open>Properties\<close>

text \<open>
  The asynchronous \<open>connect\<close> tries the endpoints the synchronous one tries, in the same order, and
  calls its handler with the same endpoint and error code, or ends as little as it does, when connecting
  leaves the socket open and the condition never skips to the end of the list. For a condition that does,
  the synchronous loop goes past the end of the list, and the asynchronous one reports that nothing is left.
\<close>

lemma async_connect_agrees:
  assumes "\<forall>e w. opened (snd (connect_socket e w))" "\<forall>ec it. it \<noteq> [] \<longrightarrow> condition ec it \<noteq> []"
  shows "async_connect_condition close_socket connect_socket opened condition it w = asio_connect close_socket connect_socket condition it w
    \<and> async_connect close_socket connect_socket opened it w = asio_connect_ec close_socket connect_socket it w
    \<and> async_connect_condition close_socket connect_socket opened (\<lambda>ec it. []) (e # es) w = Some (([], misc_error not_found), w)
    \<and> asio_connect close_socket connect_socket (\<lambda>ec it. []) (e # es) w = None"
proof -
  have agree: "async_connect_with close_socket connect_socket opened (check_condition condition) it w
      = asio_connect close_socket connect_socket condition it w"
    if inside: "\<forall>ec it. it \<noteq> [] \<longrightarrow> condition ec it \<noteq> []" for condition :: "error_code \<Rightarrow> 'a list \<Rightarrow> 'a list"
  proof (cases it)
    case Nil
    then show ?thesis
      by (simp add: async_connect_with_def asio_connect_def connect_op_call_def connect_op_round_def check_condition_def connect_loop.simps)
  next
    case (Cons x xs)
    then obtain p ps where c: "condition no_error it = p # ps" using inside by (metis list.exhaust list.distinct(1))
    obtain cc w1 ec1 w2 where w: "close_socket w = (cc, w1)" "connect_socket p w1 = (ec1, w2)" by (metis surj_pair)
    have "opened w2" using assms(1) w(2) by (metis snd_conv)
    with Cons c w round_is_loop [OF assms(1) inside, of ec1 close_socket ps 0 w2] show ?thesis
      by (simp add: async_connect_with_def asio_connect_def connect_loop.simps [of _ _ _ "x # xs"]
          connect_op_call_def connect_op_round_def [of _ _ 1] check_condition_def [of _ no_error] Let_def)
  qed
  have "\<forall>ec it. it \<noteq> [] \<longrightarrow> default_connect_condition ec it \<noteq> []" by (simp add: default_connect_condition_def)
  from agree [OF this] agree [OF assms(2)] show ?thesis
    by (simp add: async_connect_def async_connect_condition_def asio_connect_ec_def default_check)
      (simp add: async_connect_with_def asio_connect_def connect_op_call_def connect_op_round_def check_condition_def connect_loop.simps)
qed

text \<open>A socket that connects to the second of three endpoints.\<close>

lemma async_connect_agrees_witness:
  "async_connect (\<lambda>w. (no_error, w)) (\<lambda>e w. (if e = 2 then no_error else basic_error connection_refused, w + 1)) (\<lambda>w. True)
     [1, 2, 3 :: nat] (0 :: nat) = Some (([2, 3], no_error), 2)"
proof -
  let ?close = "\<lambda>w :: nat. (no_error, w)"
  let ?connect = "\<lambda>(e :: nat) (w :: nat). (if e = 2 then no_error else basic_error connection_refused, w + 1)"
  let ?opened = "\<lambda>w :: nat. True"
  have "\<forall>e w. ?opened (snd (?connect e w))" "\<forall>ec (it :: nat list). it \<noteq> [] \<longrightarrow> default_connect_condition ec it \<noteq> []"
    by (simp_all add: default_connect_condition_def)
  from async_connect_agrees [OF this, where close_socket = ?close and it = "[1, 2, 3]" and w = 0]
  have "async_connect ?close ?connect ?opened [1, 2, 3] 0 = asio_connect_ec ?close ?connect [1, 2, 3] 0" by blast
  also have "asio_connect_ec ?close ?connect [1, 2, 3] 0 = Some (([2, 3], no_error), 2)"
    by (simp add: asio_connect_ec_def asio_connect_def connect_loop.simps default_connect_condition_def)
  finally show ?thesis .
qed

end
