(* ===== verification/Streambuf.thy ===== *)
theory Streambuf
  imports Asio_Transfer
begin

text \<open>
  The stream buffer of the bundled asio library, \<open>basic_streambuf.hpp\<close>: one vector of characters in
  which the input sequence, between \<open>gptr\<close> and \<open>pptr\<close>, is followed by the output sequence, up to
  \<open>epptr\<close>.

  The vector's storage is a range of the memory; the pointers are kept as the offsets from its start that
  \<open>reserve\<close> computes with. Where the storage of a vector that grows is put, and how large it is, is a
  parameter.
\<close>

section \<open>The buffer\<close>

record streambuf =
  sb_max :: nat
  sb_base :: nat
  sb_length :: nat
  sb_capacity :: nat
  sb_gptr :: int
  sb_egptr :: int
  sb_pptr :: int
  sb_epptr :: int

text \<open>The address and the capacity of the new storage of a vector that grows to \<open>n\<close> characters.\<close>

type_synonym growth = "streambuf \<Rightarrow> nat \<Rightarrow> nat \<times> nat"

definition vector_resize :: "growth \<Rightarrow> nat \<Rightarrow> streambuf \<Rightarrow> mem \<Rightarrow> streambuf \<times> mem" where
  "vector_resize G n b m =
     (let len = sb_length b
      in if n \<le> sb_capacity b then
           (b\<lparr>sb_length := n\<rparr>, write_at [sb_base b + len ..< sb_base b + n] (replicate (n - len) 0) m)
         else
           let (a, c) = G b n;
               m1 = write_at [a ..< a + len] (map m [sb_base b ..< sb_base b + len]) m
           in (b\<lparr>sb_base := a, sb_length := n, sb_capacity := c\<rparr>,
               write_at [a + len ..< a + n] (replicate (n - len) 0) m1))"

definition buffer_delta :: nat where "buffer_delta = 128"

text \<open>The constructor; \<open>max_size\<close> is the greatest \<open>size_t\<close> when none is given.\<close>

definition new_streambuf :: "growth \<Rightarrow> nat \<Rightarrow> mem \<Rightarrow> streambuf \<times> mem" where
  "new_streambuf G max_size m =
     (let pend = min max_size buffer_delta;
          (b, m1) = vector_resize G (max pend 1)
            \<lparr>sb_max = max_size, sb_base = 0, sb_length = 0, sb_capacity = 0, sb_gptr = 0, sb_egptr = 0, sb_pptr = 0, sb_epptr = 0\<rparr> m
      in (b\<lparr>sb_gptr := 0, sb_egptr := 0, sb_pptr := 0, sb_epptr := int pend\<rparr>, m1))"

definition sb_size :: "streambuf \<Rightarrow> nat" where
  "sb_size b = nat (sb_pptr b - sb_gptr b)"

definition sb_data :: "streambuf \<Rightarrow> buf" where
  "sb_data b = buffer_at (sb_base b + nat (sb_gptr b)) (nat (sb_pptr b - sb_gptr b))"

text \<open>\<open>reserve\<close>: when it throws, the state is what the steps before have made of it.\<close>

definition reserve :: "growth \<Rightarrow> nat \<Rightarrow> streambuf \<Rightarrow> mem \<Rightarrow> unit result \<times> streambuf \<times> mem" where
  "reserve G n b m =
     (let gnext = sb_gptr b; pnext = sb_pptr b; pend = sb_epptr b
      in if int n \<le> pend - pnext then (Inr (), b, m)
         else
           let (pnext1, m1) =
                 (if gnext > 0 then
                    let k = nat (pnext - gnext)
                    in (pnext - gnext,
                        write_at [sb_base b ..< sb_base b + k]
                          (map m [sb_base b + nat gnext ..< sb_base b + nat gnext + k]) m)
                  else (pnext, m))
           in if int n > pend - pnext1 then
                if n \<le> sb_max b \<and> pnext1 \<le> int (sb_max b - n) then
                  let pend1 = pnext1 + int n;
                      (b1, m2) = vector_resize G (max (nat pend1) 1) b m1
                  in (Inr (), b1\<lparr>sb_gptr := 0, sb_egptr := pnext1, sb_pptr := pnext1, sb_epptr := pend1\<rparr>, m2)
                else (Inl LengthError, b, m1)
              else (Inr (), b\<lparr>sb_gptr := 0, sb_egptr := pnext1, sb_pptr := pnext1, sb_epptr := pend\<rparr>, m1))"

definition sb_prepare :: "growth \<Rightarrow> nat \<Rightarrow> streambuf \<Rightarrow> mem \<Rightarrow> buf result \<times> streambuf \<times> mem" where
  "sb_prepare G n b m =
     (case reserve G n b m of
        (Inl e, b1, m1) \<Rightarrow> (Inl e, b1, m1)
      | (Inr u, b1, m1) \<Rightarrow> (Inr (buffer_at (sb_base b1 + nat (sb_pptr b1)) n), b1, m1))"

text \<open>\<open>pbump\<close> and \<open>gbump\<close> take an \<open>int\<close>, to which the count of 64 bits is converted.\<close>

definition to_int :: "nat \<Rightarrow> int" where
  "to_int n = signed_take_bit 31 (int n)"

definition sb_commit :: "nat \<Rightarrow> streambuf \<Rightarrow> streambuf" where
  "sb_commit n b =
     (let n1 = (if sb_pptr b + int n > sb_epptr b then nat (sb_epptr b - sb_pptr b) else n);
          pptr = sb_pptr b + to_int n1
      in b\<lparr>sb_pptr := pptr, sb_egptr := pptr\<rparr>)"

definition sb_consume :: "nat \<Rightarrow> streambuf \<Rightarrow> streambuf" where
  "sb_consume n b =
     (let b1 = (if sb_egptr b < sb_pptr b then b\<lparr>sb_egptr := sb_pptr b\<rparr> else b);
          n1 = (if sb_gptr b1 + int n > sb_pptr b1 then nat (sb_pptr b1 - sb_gptr b1) else n)
      in b1\<lparr>sb_gptr := sb_gptr b1 + to_int n1\<rparr>)"

text \<open>The two functions of \<open>std::streambuf\<close> it overrides; \<open>None\<close> is \<open>eof()\<close>.\<close>

definition underflow :: "streambuf \<Rightarrow> mem \<Rightarrow> byte option \<times> streambuf" where
  "underflow b m =
     (if sb_gptr b < sb_pptr b then (Some (m (sb_base b + nat (sb_gptr b))), b\<lparr>sb_egptr := sb_pptr b\<rparr>)
      else (None, b))"

definition overflow_reserve :: "growth \<Rightarrow> streambuf \<Rightarrow> mem \<Rightarrow> unit result \<times> streambuf \<times> mem" where
  "overflow_reserve G b m =
     (if sb_pptr b = sb_epptr b then
        let buffer_size = nat (sb_pptr b - sb_gptr b)
        in if buffer_size < sb_max b \<and> sb_max b - buffer_size < buffer_delta
           then reserve G (sb_max b - buffer_size) b m else reserve G buffer_delta b m
      else (Inr (), b, m))"

definition overflow :: "growth \<Rightarrow> byte option \<Rightarrow> streambuf \<Rightarrow> mem \<Rightarrow> unit result \<times> streambuf \<times> mem" where
  "overflow G c b m =
     (case c of
        None \<Rightarrow> (Inr (), b, m)
      | Some x \<Rightarrow>
          (case overflow_reserve G b m of
             (Inl e, b1, m1) \<Rightarrow> (Inl e, b1, m1)
           | (Inr u, b1, m1) \<Rightarrow>
               (Inr (), b1\<lparr>sb_pptr := sb_pptr b1 + 1\<rparr>, m1(sb_base b1 + nat (sb_pptr b1) := x))))"

text \<open>How much to read: the friend of the class, and the template for others derived from it.\<close>

definition read_size_helper :: "streambuf \<Rightarrow> nat \<Rightarrow> nat" where
  "read_size_helper b max_size = min (max 512 (sb_capacity b - sb_size b)) (min max_size (sb_max b - sb_size b))"

definition read_size_helper_other :: "streambuf \<Rightarrow> nat \<Rightarrow> nat" where
  "read_size_helper_other b max_size = min 512 (min max_size (sb_max b - sb_size b))"

section \<open>The sequence it holds\<close>

definition sb_content :: "streambuf \<Rightarrow> mem \<Rightarrow> bytes" where
  "sb_content b m = map m (addrs (sb_data b))"

definition sb_ok :: "streambuf \<Rightarrow> bool" where
  "sb_ok b \<longleftrightarrow> 0 \<le> sb_gptr b \<and> sb_gptr b \<le> sb_egptr b \<and> sb_egptr b \<le> sb_pptr b \<and> sb_pptr b \<le> sb_epptr b
     \<and> sb_epptr b \<le> int (sb_max b) \<and> sb_length b = max (nat (sb_epptr b)) 1 \<and> sb_length b \<le> sb_capacity b"

lemma sb_ok_facts:
  assumes "sb_ok b"
  shows "0 \<le> sb_gptr b" "sb_gptr b \<le> sb_pptr b" "sb_pptr b \<le> sb_epptr b" "sb_epptr b \<le> int (sb_max b)"
    "sb_size b \<le> sb_max b" "nat (sb_pptr b) = nat (sb_gptr b) + sb_size b" "int (sb_size b) = sb_pptr b - sb_gptr b"
  using assms by (auto simp: sb_ok_def sb_size_def)

text \<open>The storage of a vector that grows is large enough.\<close>

definition grows :: "growth \<Rightarrow> bool" where
  "grows G \<longleftrightarrow> (\<forall>b n. n \<le> snd (G b n))"

lemma length_content [simp]: "length (sb_content b m) = sb_size b"
  by (simp add: sb_content_def sb_size_def sb_data_def buffer_at_def)

lemma content_nth: "i < sb_size b \<Longrightarrow> sb_content b m ! i = m (sb_base b + nat (sb_gptr b) + i)"
  by (simp add: sb_content_def sb_data_def buffer_at_def addrs_def sb_size_def)

lemma content_eqI:
  assumes "sb_size b1 = sb_size b" "\<And>i. i < sb_size b \<Longrightarrow> m1 (sb_base b1 + nat (sb_gptr b1) + i) = m (sb_base b + nat (sb_gptr b) + i)"
  shows "sb_content b1 m1 = sb_content b m"
  using assms by (intro nth_equalityI) (simp_all add: content_nth)

lemma write_range:
  "length bs = n \<Longrightarrow> write_at [a ..< a + n] bs m x = (if a \<le> x \<and> x < a + n then bs ! (x - a) else m x)"
proof -
  assume n: "length bs = n"
  show "write_at [a ..< a + n] bs m x = (if a \<le> x \<and> x < a + n then bs ! (x - a) else m x)"
  proof (cases "a \<le> x \<and> x < a + n")
    case True
    then have "write_at [a ..< a + n] bs m ([a ..< a + n] ! (x - a)) = bs ! (x - a)"
      using n by (intro write_at_nth) auto
    with True show ?thesis by simp
  next
    case False
    then show ?thesis by (auto simp: write_at_other)
  qed
qed

lemma resize_works:
  assumes "vector_resize G n b m = (b1, m1)" "sb_length b \<le> n" "sb_length b \<le> sb_capacity b" "grows G"
  shows "\<exists>a c. b1 = b\<lparr>sb_base := a, sb_length := n, sb_capacity := c\<rparr> \<and> n \<le> c
    \<and> (\<forall>i < sb_length b. m1 (a + i) = m (sb_base b + i))"
proof (cases "n \<le> sb_capacity b")
  case True
  then have "b1 = b\<lparr>sb_length := n\<rparr>" "m1 = write_at [sb_base b + sb_length b ..< sb_base b + n] (replicate (n - sb_length b) 0) m"
    using assms(1) by (simp_all add: vector_resize_def Let_def)
  moreover have "m1 (sb_base b + i) = m (sb_base b + i)" if "i < sb_length b" for i
    using that by (simp add: calculation(2) write_at_other)
  moreover have "b\<lparr>sb_length := n\<rparr> = b\<lparr>sb_base := sb_base b, sb_length := n, sb_capacity := sb_capacity b\<rparr>" by simp
  ultimately show ?thesis using True by metis
next
  case False
  obtain a c where g: "G b n = (a, c)" by (metis surj_pair)
  have b1: "b1 = b\<lparr>sb_base := a, sb_length := n, sb_capacity := c\<rparr>"
    and m1: "m1 = write_at [a + sb_length b ..< a + n] (replicate (n - sb_length b) 0)
      (write_at [a ..< a + sb_length b] (map m [sb_base b ..< sb_base b + sb_length b]) m)"
    using assms(1) False by (simp_all add: vector_resize_def Let_def g)
  have "m1 (a + i) = m (sb_base b + i)" if "i < sb_length b" for i
    using that by (simp add: m1 write_at_other write_range)
  moreover have "n \<le> c" using assms(4) g by (metis grows_def snd_conv)
  ultimately show ?thesis using b1 by blast
qed

section \<open>Reserving\<close>

text \<open>What \<open>reserve\<close> leaves behind when it throws: the content moved, the pointers not.\<close>

definition shifted :: "nat \<Rightarrow> bytes \<Rightarrow> bytes" where
  "shifted k c = drop k c @ drop (length c - k) c"

lemma shifted_nth: "i < length c \<Longrightarrow> shifted k c ! i = (if k + i < length c then c ! (k + i) else c ! i)"
  by (auto simp: shifted_def nth_append)

lemma length_shifted [simp]: "length (shifted k c) = length c"
  by (simp add: shifted_def)

lemma reserve_works:
  assumes r: "reserve G n b m = (res, b1, m1)" and ok: "sb_ok b" and G: "grows G" and fits: "sb_size b + n \<le> sb_max b"
  shows "res = Inr () \<and> sb_ok b1 \<and> sb_content b1 m1 = sb_content b m \<and> sb_max b1 = sb_max b
    \<and> int n \<le> sb_epptr b1 - sb_pptr b1"
proof -
  let ?g = "nat (sb_gptr b)" and ?k = "nat (sb_pptr b - sb_gptr b)" and ?B = "sb_base b"
  note o = ok [unfolded sb_ok_def]
  have gk: "sb_gptr b = int ?g" "sb_pptr b = int (?g + ?k)" "sb_size b = ?k" using o by (simp_all add: sb_size_def)
  define m0 where "m0 = (if sb_gptr b > 0 then write_at [?B ..< ?B + ?k] (map m [?B + ?g ..< ?B + ?g + ?k]) m else m)"
  have m0: "m0 (?B + i) = m (?B + ?g + i)" if "i < ?k" for i
    using that o by (auto simp: m0_def write_range)
  have moved: "(if sb_gptr b > 0 then let k = nat (sb_pptr b - sb_gptr b)
      in (sb_pptr b - sb_gptr b, write_at [?B ..< ?B + k] (map m [?B + nat (sb_gptr b) ..< ?B + nat (sb_gptr b) + k]) m)
      else (sb_pptr b, m)) = (int ?k, m0)"
    using o by (auto simp: m0_def Let_def)
  consider (room) "int n \<le> sb_epptr b - sb_pptr b" | (shift) "\<not> int n \<le> sb_epptr b - sb_pptr b" "int n \<le> sb_epptr b - int ?k"
    | (grow) "\<not> int n \<le> sb_epptr b - sb_pptr b" "\<not> int n \<le> sb_epptr b - int ?k" by blast
  then show ?thesis
  proof cases
    case room
    with r ok show ?thesis by (auto simp: reserve_def)
  next
    case shift
    then have e: "res = Inr ()" "b1 = b\<lparr>sb_gptr := 0, sb_egptr := int ?k, sb_pptr := int ?k, sb_epptr := sb_epptr b\<rparr>" "m1 = m0"
      using r unfolding reserve_def Let_def [of "sb_gptr b"] Let_def [of "sb_pptr b"] Let_def [of "sb_epptr b"] moved by auto
    have "sb_content b1 m1 = sb_content b m"
      by (rule content_eqI) (simp_all add: e sb_size_def m0)
    with e shift o show ?thesis by (auto simp: sb_ok_def)
  next
    case grow
    let ?n = "?k + n"
    obtain b2 m2 where v: "vector_resize G (max ?n 1) b m0 = (b2, m2)" by (metis surj_pair)
    have gp: "sb_gptr b \<le> sb_pptr b" by (rule sb_ok_facts [OF ok])
    then have k: "nat (sb_pptr b - sb_gptr b + int n) = ?n" by (simp add: nat_add_distrib)
    have "n \<le> sb_max b \<and> int ?k \<le> int (sb_max b - n)" using fits gk(3) by auto
    then have e: "res = Inr ()" "b1 = b2\<lparr>sb_gptr := 0, sb_egptr := int ?k, sb_pptr := int ?k, sb_epptr := int ?k + int n\<rparr>" "m1 = m2"
      using r grow v unfolding reserve_def Let_def [of "sb_gptr b"] Let_def [of "sb_pptr b"] Let_def [of "sb_epptr b"] moved
      by (auto simp: Let_def k gp)
    have "sb_length b \<le> max ?n 1" using o grow by auto
    from resize_works [OF v this _ G] o obtain a c where b2: "b2 = b\<lparr>sb_base := a, sb_length := max ?n 1, sb_capacity := c\<rparr>"
      "max ?n 1 \<le> c" "\<And>i. i < sb_length b \<Longrightarrow> m2 (a + i) = m0 (?B + i)" by auto
    have kl: "?k \<le> sb_length b" using o by auto
    have "sb_content b1 m1 = sb_content b m"
      by (rule content_eqI) (use kl m0 b2(3) in \<open>simp_all add: e b2(1) sb_size_def\<close>)
    with e b2 fits gk(3) show ?thesis by (auto simp: sb_ok_def)
  qed
qed

lemma reserve_throws:
  assumes ok: "sb_ok b" and over: "sb_size b + n > sb_max b" and r: "reserve G n b m = (res, b1, m1)"
  shows "res = Inl LengthError \<and> b1 = b \<and> sb_content b1 m1 = shifted (nat (sb_gptr b)) (sb_content b m)"
proof -
  let ?g = "nat (sb_gptr b)" and ?k = "nat (sb_pptr b - sb_gptr b)" and ?B = "sb_base b"
  note o = ok [unfolded sb_ok_def]
  have size: "sb_size b = ?k" by (simp add: sb_size_def)
  have *: "\<not> int n \<le> sb_epptr b - sb_pptr b" "int n > sb_epptr b - (sb_pptr b - sb_gptr b)"
    "\<not> (n \<le> sb_max b \<and> sb_pptr b - sb_gptr b \<le> int (sb_max b - n))"
    using o over by (auto simp: size)
  then have e: "res = Inl LengthError" "b1 = b"
      "m1 = (if sb_gptr b > 0 then write_at [?B ..< ?B + ?k] (map m [?B + ?g ..< ?B + ?g + ?k]) m else m)"
    using r o unfolding reserve_def by (auto simp: Let_def split: if_splits)
  have "sb_content b1 m1 = shifted ?g (sb_content b m)"
  proof (rule nth_equalityI)
    fix i assume "i < length (sb_content b1 m1)"
    then have i: "i < ?k" by (simp add: e(2) size)
    have "sb_content b m ! j = m (?B + ?g + j)" if "j < ?k" for j using content_nth [of j b m] that size by simp
    moreover have "m1 (?B + ?g + i) = (if ?g + i < ?k then m (?B + ?g + (?g + i)) else m (?B + ?g + i))"
      using o by (auto simp: e(3) write_range ac_simps)
    ultimately show "sb_content b1 m1 ! i = shifted ?g (sb_content b m) ! i"
      using i by (simp add: e(2) content_nth size shifted_nth)
  qed (simp add: e(2))
  with e show ?thesis by simp
qed

section \<open>The operations\<close>

lemma to_int_small: "n < 2 ^ 31 \<Longrightarrow> to_int n = int n"
  by (simp add: to_int_def signed_take_bit_int_eq_self_iff)

text \<open>What is written into the output sequence and committed is appended to the input sequence.\<close>

lemma commit_works:
  assumes "sb_ok b" "int (length xs) \<le> sb_epptr b - sb_pptr b" "length xs < 2 ^ 31"
    and "m1 = write_at [sb_base b + nat (sb_pptr b) ..< sb_base b + nat (sb_pptr b) + length xs] xs m"
  shows "sb_ok (sb_commit (length xs) b) \<and> sb_content (sb_commit (length xs) b) m1 = sb_content b m @ xs
    \<and> sb_max (sb_commit (length xs) b) = sb_max b"
proof -
  note o = assms(1) [unfolded sb_ok_def]
  let ?c = "sb_commit (length xs) b"
  have c: "?c = b\<lparr>sb_pptr := sb_pptr b + int (length xs), sb_egptr := sb_pptr b + int (length xs)\<rparr>"
    using assms(2,3) by (simp add: sb_commit_def Let_def to_int_small)
  have size: "sb_size ?c = sb_size b + length xs" using o by (simp add: c sb_size_def) linarith
  have "sb_content ?c m1 = sb_content b m @ xs"
  proof (rule nth_equalityI)
    fix i assume "i < length (sb_content ?c m1)"
    then have i: "i < sb_size b + length xs" by (simp add: size)
    have p: "nat (sb_pptr b) = nat (sb_gptr b) + sb_size b" by (rule sb_ok_facts [OF assms(1)])
    have "sb_content ?c m1 ! i = m1 (sb_base b + nat (sb_gptr b) + i)" using i size by (simp add: content_nth) (simp add: c)
    also have "\<dots> = (if i < sb_size b then m (sb_base b + nat (sb_gptr b) + i) else xs ! (i - sb_size b))"
      using i by (auto simp: assms(4) write_range p)
    also have "\<dots> = (sb_content b m @ xs) ! i" using content_nth [of i b m] by (simp add: nth_append)
    finally show "sb_content ?c m1 ! i = (sb_content b m @ xs) ! i" .
  qed (simp add: size)
  moreover have "sb_ok ?c" using o assms(2) by (auto simp: c sb_ok_def)
  ultimately show ?thesis by (simp add: c)
qed

lemma consume_works:
  assumes "sb_ok b" "sb_max b < 2 ^ 31"
  shows "sb_ok (sb_consume n b) \<and> sb_content (sb_consume n b) m = drop n (sb_content b m) \<and> sb_max (sb_consume n b) = sb_max b"
proof -
  note o = assms(1) [unfolded sb_ok_def]
  let ?c = "sb_consume n b" and ?n = "min n (sb_size b)"
  have "sb_size b \<le> sb_max b" by (rule sb_ok_facts [OF assms(1)])
  then have small: "?n < 2 ^ 31" using assms(2) by simp
  have "(if sb_gptr b + int n > sb_pptr b then nat (sb_pptr b - sb_gptr b) else n) = ?n" using o by (auto simp: sb_size_def)
  then have c: "?c = b\<lparr>sb_egptr := sb_pptr b, sb_gptr := sb_gptr b + int ?n\<rparr>"
    using o to_int_small [OF small] by (auto simp: sb_consume_def Let_def)
  have size: "sb_size ?c = sb_size b - n" using o by (auto simp: c sb_size_def)
  have "sb_content ?c m = drop n (sb_content b m)"
  proof (rule nth_equalityI)
    fix i assume "i < length (sb_content ?c m)"
    then have i: "i < sb_size b - n" by (simp add: size)
    then have "sb_content ?c m ! i = m (sb_base b + nat (sb_gptr b) + (n + i))"
      using o size by (simp add: content_nth) (simp add: c nat_add_distrib ac_simps)
    then show "sb_content ?c m ! i = drop n (sb_content b m) ! i" using i by (simp add: content_nth)
  qed (simp add: size)
  moreover have "sb_ok ?c" using o by (auto simp: c sb_ok_def sb_size_def)
  ultimately show ?thesis by (simp add: c)
qed

text \<open>\<open>overflow\<close> appends a character as long as the limit allows it, and throws otherwise.\<close>

lemma overflow_works:
  assumes ok: "sb_ok b" and G: "grows G" and r: "overflow G (Some x) b m = (res, b1, m1)"
  shows "if sb_size b < sb_max b
    then res = Inr () \<and> sb_ok b1 \<and> sb_content b1 m1 = sb_content b m @ [x] \<and> sb_max b1 = sb_max b
    else res = Inl LengthError \<and> b1 = b \<and> sb_content b1 m1 = sb_content b m"
proof -
  note o = ok [unfolded sb_ok_def]
  obtain res0 b0 m0 where r0: "overflow_reserve G b m = (res0, b0, m0)" by (metis surj_pair)
  show ?thesis
  proof (cases "sb_size b < sb_max b")
    case True
    have "res0 = Inr () \<and> sb_ok b0 \<and> sb_content b0 m0 = sb_content b m \<and> sb_max b0 = sb_max b \<and> 1 \<le> sb_epptr b0 - sb_pptr b0"
    proof (cases "sb_pptr b = sb_epptr b")
      case False
      with r0 ok o show ?thesis by (auto simp: overflow_reserve_def)
    next
      case full: True
      let ?n = "if sb_max b - sb_size b < buffer_delta then sb_max b - sb_size b else buffer_delta"
      have "reserve G ?n b m = (res0, b0, m0)"
        using r0 True unfolding overflow_reserve_def Let_def sb_size_def [symmetric] by (simp add: full split: if_splits)
      moreover have "sb_size b + ?n \<le> sb_max b" using True by auto
      moreover have "1 \<le> int ?n" using True by (auto simp: buffer_delta_def)
      ultimately show ?thesis using reserve_works [OF _ ok G] by fastforce
    qed
    then have s: "res0 = Inr ()" "sb_ok b0" "sb_content b0 m0 = sb_content b m" "sb_max b0 = sb_max b" "1 \<le> sb_epptr b0 - sb_pptr b0"
      by simp_all
    have e: "res = Inr ()" "b1 = b0\<lparr>sb_pptr := sb_pptr b0 + 1\<rparr>" "m1 = m0(sb_base b0 + nat (sb_pptr b0) := x)"
      using r r0 s(1) by (simp_all add: overflow_def)
    note o0 = s(2) [unfolded sb_ok_def]
    have "sb_ok b1" using o0 s(5) by (auto simp: e(2) sb_ok_def)
    moreover have "sb_content b1 m1 = sb_content b0 m0 @ [x]"
    proof (rule nth_equalityI)
      have size: "sb_size b1 = sb_size b0 + 1" using sb_ok_facts(2) [OF s(2)] by (simp add: e(2) sb_size_def)
      then show "length (sb_content b1 m1) = length (sb_content b0 m0 @ [x])" by simp
      fix i assume "i < length (sb_content b1 m1)"
      then have i: "i < sb_size b0 + 1" by (simp add: size)
      have p: "nat (sb_pptr b0) = nat (sb_gptr b0) + sb_size b0" by (rule sb_ok_facts [OF s(2)])
      have "sb_content b1 m1 ! i = m1 (sb_base b0 + nat (sb_gptr b0) + i)" using i size by (simp add: content_nth) (simp add: e(2))
      also have "\<dots> = (sb_content b0 m0 @ [x]) ! i" using i content_nth [of i b0 m0] by (auto simp: e(3) p nth_append)
      finally show "sb_content b1 m1 ! i = (sb_content b0 m0 @ [x]) ! i" .
    qed
    ultimately show ?thesis using True s e(1,2) by simp
  next
    case False
    have g: "sb_gptr b = 0" and full: "sb_pptr b = sb_epptr b" using False o by (auto simp: sb_size_def)
    have "reserve G buffer_delta b m = (res0, b0, m0)"
      using r0 False unfolding overflow_reserve_def Let_def sb_size_def [symmetric] by (simp add: full)
    moreover have "sb_size b + buffer_delta > sb_max b" using False by (simp add: buffer_delta_def)
    ultimately have "res0 = Inl LengthError \<and> b0 = b \<and> sb_content b0 m0 = shifted (nat (sb_gptr b)) (sb_content b m)"
      using reserve_throws [OF ok] by blast
    then have e: "res0 = Inl LengthError" "b0 = b" "sb_content b m0 = sb_content b m" by (auto simp: g shifted_def)
    have "res = Inl LengthError" "b1 = b" "m1 = m0" using r r0 e(1,2) by (simp_all add: overflow_def)
    with False e(3) show ?thesis by simp
  qed
qed

lemma underflow_works:
  assumes "sb_ok b" "underflow b m = (c, b1)"
  shows "c = (case sb_content b m of [] \<Rightarrow> None | x # xs \<Rightarrow> Some x) \<and> sb_ok b1 \<and> sb_content b1 m = sb_content b m
    \<and> sb_max b1 = sb_max b \<and> (c \<noteq> None \<longrightarrow> sb_egptr b1 = sb_pptr b1)"
proof (cases "sb_gptr b < sb_pptr b")
  case True
  then have "addrs (sb_data b) = (sb_base b + nat (sb_gptr b)) # tl (addrs (sb_data b))"
    by (simp add: addrs_def sb_data_def buffer_at_def upt_conv_Cons)
  then have "sb_content b m = m (sb_base b + nat (sb_gptr b)) # map m (tl (addrs (sb_data b)))"
    unfolding sb_content_def by (metis list.simps(9))
  moreover have "c = Some (m (sb_base b + nat (sb_gptr b)))" "b1 = b\<lparr>sb_egptr := sb_pptr b\<rparr>"
    using True assms(2) by (simp_all add: underflow_def)
  moreover have "sb_content (b\<lparr>sb_egptr := sb_pptr b\<rparr>) m = sb_content b m" by (simp add: sb_content_def sb_data_def)
  moreover have "sb_ok (b\<lparr>sb_egptr := sb_pptr b\<rparr>)" using sb_ok_facts [OF assms(1)] assms(1) by (auto simp: sb_ok_def)
  ultimately show ?thesis by simp
next
  case False
  then have "sb_content b m = []" by (simp add: sb_content_def sb_data_def buffer_at_def addrs_def)
  with False assms show ?thesis by (simp add: underflow_def)
qed

lemma new_streambuf_works:
  assumes "new_streambuf G mx m = (b, m1)" "grows G"
  shows "sb_ok b \<and> sb_content b m1 = [] \<and> sb_max b = mx"
proof -
  let ?b = "\<lparr>sb_max = mx, sb_base = 0, sb_length = 0, sb_capacity = 0, sb_gptr = 0, sb_egptr = 0, sb_pptr = 0, sb_epptr = 0\<rparr>"
  obtain b2 m2 where v: "vector_resize G (max (min mx buffer_delta) 1) ?b m = (b2, m2)" by (metis surj_pair)
  from resize_works [OF v _ _ assms(2)] obtain a c where "b2 = ?b\<lparr>sb_base := a, sb_length := max (min mx buffer_delta) 1, sb_capacity := c\<rparr>"
    "max (min mx buffer_delta) 1 \<le> c" by auto
  with assms(1) v show ?thesis
    by (auto simp: new_streambuf_def Let_def sb_ok_def sb_content_def sb_data_def buffer_at_def addrs_def)
qed

lemma prepare_works:
  assumes "sb_prepare G n b m = (res, b1, m1)" "sb_ok b" "grows G" "sb_size b + n \<le> sb_max b"
  shows "res = Inr (buffer_at (sb_base b1 + nat (sb_pptr b1)) n) \<and> sb_ok b1 \<and> sb_content b1 m1 = sb_content b m
    \<and> sb_max b1 = sb_max b \<and> int n \<le> sb_epptr b1 - sb_pptr b1"
proof -
  obtain res0 b0 m0 where r: "reserve G n b m = (res0, b0, m0)" by (metis surj_pair)
  from reserve_works [OF r assms(2-4)] assms(1) r show ?thesis by (auto simp: sb_prepare_def)
qed

section \<open>Calls\<close>

text \<open>
  What a user calls: bytes are written into the output sequence that \<open>prepare\<close> gave and committed; or a
  character is put, characters are consumed, or the next one is looked at.
\<close>

datatype sb_call = Transfer bytes | Put byte | Take_Off nat | Look

definition sb_transfer :: "growth \<Rightarrow> bytes \<Rightarrow> streambuf \<times> mem \<Rightarrow> streambuf \<times> mem" where
  "sb_transfer G xs = (\<lambda>(b, m).
     case sb_prepare G (length xs) b m of
       (Inl e, b1, m1) \<Rightarrow> (b1, m1)
     | (Inr t, b1, m1) \<Rightarrow> (sb_commit (length xs) b1, write_at (addrs t) xs m1))"

fun sb_step :: "growth \<Rightarrow> sb_call \<Rightarrow> streambuf \<times> mem \<Rightarrow> streambuf \<times> mem" where
  "sb_step G (Transfer xs) (b, m) = sb_transfer G xs (b, m)"
| "sb_step G (Put x) (b, m) = snd (overflow G (Some x) b m)"
| "sb_step G (Take_Off n) (b, m) = (sb_consume n b, m)"
| "sb_step G Look (b, m) = (snd (underflow b m), m)"

text \<open>The plain sequence with a limit, and when \<open>prepare\<close> may be called.\<close>

fun bytes_step :: "nat \<Rightarrow> sb_call \<Rightarrow> bytes \<Rightarrow> bytes" where
  "bytes_step limit (Transfer xs) c = c @ xs"
| "bytes_step limit (Put x) c = (if length c < limit then c @ [x] else c)"
| "bytes_step limit (Take_Off n) c = drop n c"
| "bytes_step limit Look c = c"

fun sb_allowed :: "nat \<Rightarrow> sb_call list \<Rightarrow> bytes \<Rightarrow> bool" where
  "sb_allowed limit [] c \<longleftrightarrow> True"
| "sb_allowed limit (a # as) c \<longleftrightarrow>
     (case a of Transfer xs \<Rightarrow> length c + length xs \<le> limit | _ \<Rightarrow> True) \<and> sb_allowed limit as (bytes_step limit a c)"

lemma transfer_works:
  assumes "sb_ok b" "grows G" "sb_max b < 2 ^ 31" "sb_size b + length xs \<le> sb_max b" "sb_transfer G xs (b, m) = (b1, m1)"
  shows "sb_ok b1 \<and> sb_content b1 m1 = sb_content b m @ xs \<and> sb_max b1 = sb_max b"
proof -
  obtain res b0 m0 where p: "sb_prepare G (length xs) b m = (res, b0, m0)" by (metis surj_pair)
  note w = prepare_works [OF p assms(1,2,4)]
  have e: "b1 = sb_commit (length xs) b0"
    "m1 = write_at [sb_base b0 + nat (sb_pptr b0) ..< sb_base b0 + nat (sb_pptr b0) + length xs] xs m0"
    using assms(5) w by (auto simp: sb_transfer_def p addrs_def buffer_at_def)
  have "length xs < 2 ^ 31" using assms(3,4) by simp
  from commit_works [OF _ _ this e(2)] w show ?thesis by (auto simp: e(1))
qed

lemma sb_step_works:
  assumes "sb_ok b" "grows G" "sb_max b < 2 ^ 31" "sb_allowed (sb_max b) [a] (sb_content b m)" "sb_step G a (b, m) = (b1, m1)"
  shows "sb_ok b1 \<and> sb_content b1 m1 = bytes_step (sb_max b) a (sb_content b m) \<and> sb_max b1 = sb_max b"
proof (cases a)
  case (Transfer xs)
  then show ?thesis using transfer_works [OF assms(1-3)] assms(4,5) by simp
next
  case (Put x)
  then obtain res where "overflow G (Some x) b m = (res, b1, m1)" using assms(5) by (metis prod.collapse sb_step.simps(2))
  from overflow_works [OF assms(1,2) this] Put assms(1) show ?thesis by (auto split: if_splits)
next
  case (Take_Off n)
  then show ?thesis using consume_works [OF assms(1,3)] assms(5) by auto
next
  case Look
  obtain c b2 where u: "underflow b m = (c, b2)" by (metis surj_pair)
  from underflow_works [OF assms(1) u] Look u assms(5) show ?thesis by auto
qed

lemma sb_run_works:
  "sb_ok b \<Longrightarrow> grows G \<Longrightarrow> sb_max b < 2 ^ 31 \<Longrightarrow> sb_allowed (sb_max b) as (sb_content b m) \<Longrightarrow>
    fold (sb_step G) as (b, m) = (b1, m1) \<Longrightarrow> sb_ok b1 \<and> sb_max b1 = sb_max b
      \<and> sb_content b1 m1 = fold (bytes_step (sb_max b)) as (sb_content b m)"
proof (induction as arbitrary: b m)
  case (Cons a as)
  obtain b2 m2 where s: "sb_step G a (b, m) = (b2, m2)" by (metis surj_pair)
  have "sb_allowed (sb_max b) [a] (sb_content b m)" using Cons.prems(4) by simp
  from sb_step_works [OF Cons.prems(1-3) this s] Cons.IH [of b2 m2] Cons.prems s show ?case by simp
qed simp

text \<open>
  C18. A stream buffer is a sequence of bytes with a limit, whatever the vector's allocator does: after any
  calls that ask for no more room than the limit leaves, the input sequence is what appending, putting and
  consuming make of a plain sequence. The limit is below two gigabytes, as the bumps of the pointers take
  an \<open>int\<close>.
\<close>

theorem streambuf_is_sequence:
  assumes "grows G" "limit < 2 ^ 31" "sb_allowed limit calls []" "new_streambuf G limit m = (b0, m0)"
    and "fold (sb_step G) calls (b0, m0) = (b, m1)"
  shows "sb_content b m1 = fold (bytes_step limit) calls [] \<and> sb_size b \<le> limit"
proof -
  note n = new_streambuf_works [OF assms(4,1)]
  have "sb_ok b \<and> sb_max b = limit \<and> sb_content b m1 = fold (bytes_step limit) calls []"
    using sb_run_works [OF _ assms(1) _ _ assms(5)] n assms(2,3) by simp
  then show ?thesis using sb_ok_facts(5) [of b] by simp
qed

definition next_storage :: growth where
  "next_storage b n = (sb_base b + sb_capacity b + 16, 2 * n)"

theorem streambuf_is_sequence_witness:
  "sb_content (fst (fold (sb_step next_storage) [Transfer [1, 2, 3], Put 4, Take_Off 2, Transfer (replicate 190 7), Look] (new_streambuf next_storage 200 (\<lambda>a. 9))))
     (snd (fold (sb_step next_storage) [Transfer [1, 2, 3], Put 4, Take_Off 2, Transfer (replicate 190 7), Look] (new_streambuf next_storage 200 (\<lambda>a. 9))))
   = [3, 4] @ replicate 190 7"
proof -
  let ?calls = "[Transfer [1, 2, 3], Put 4, Take_Off 2, Transfer (replicate 190 7), Look]" and ?n = "new_streambuf next_storage 200 (\<lambda>a. 9)"
  have G: "grows next_storage" by (simp add: grows_def next_storage_def)
  have "sb_allowed 200 ?calls []" "fold (bytes_step 200) ?calls [] = [3, 4] @ replicate 190 7" by simp_all
  with streambuf_is_sequence [OF G, of 200 ?calls "\<lambda>a. 9" "fst ?n" "snd ?n"] show ?thesis by (simp add: prod_eq_iff)
qed

text \<open>
  C19. A \<open>prepare\<close> that throws, as it does exactly when there is more asked for than the limit leaves,
  damages the input sequence when characters have been consumed: they are moved to the start of the
  vector before the test and the pointers stay.
\<close>

theorem failed_prepare_damages_content:
  assumes "grows G" "sb_ok b" "sb_prepare G n b m = (res, b1, m1)"
  shows "(case res of Inl e \<Rightarrow> sb_size b + n > sb_max b \<and> e = LengthError \<and> b1 = b
        \<and> sb_content b1 m1 = shifted (nat (sb_gptr b)) (sb_content b m)
    | Inr t \<Rightarrow> sb_size b + n \<le> sb_max b \<and> sb_content b1 m1 = sb_content b m)"
proof -
  obtain res0 where r: "reserve G n b m = (res0, b1, m1)"
      "res = (case res0 of Inl e \<Rightarrow> Inl e | Inr u \<Rightarrow> Inr (buffer_at (sb_base b1 + nat (sb_pptr b1)) n))"
    using assms(3) by (cases "reserve G n b m") (auto simp: sb_prepare_def split: sum.splits)
  show ?thesis
  proof (cases "sb_size b + n \<le> sb_max b")
    case True
    with reserve_works [OF r(1) assms(2,1)] r(2) show ?thesis by simp
  next
    case False
    with reserve_throws [OF assms(2) _ r(1)] r(2) show ?thesis by auto
  qed
qed

theorem failed_prepare_damages_content_witness:
  "\<exists>b1 m1. sb_prepare next_storage 150 (sb_consume 2 (fst (sb_transfer next_storage [1, 2, 3, 4, 5] (new_streambuf next_storage 150 (\<lambda>a. 9)))))
      (snd (sb_transfer next_storage [1, 2, 3, 4, 5] (new_streambuf next_storage 150 (\<lambda>a. 9)))) = (Inl LengthError, b1, m1)
    \<and> sb_content b1 m1 = [5, 4, 5]"
proof -
  have G: "grows next_storage" by (simp add: grows_def next_storage_def)
  obtain b0 m0 where n: "new_streambuf next_storage 150 (\<lambda>a. 9) = (b0, m0)" by (metis surj_pair)
  note new = new_streambuf_works [OF n G]
  then have "sb_size b0 = 0" by (metis length_content list.size(3))
  obtain b m where t: "sb_transfer next_storage [1, 2, 3, 4, 5] (b0, m0) = (b, m)" by (metis surj_pair)
  have w: "sb_ok b \<and> sb_content b m = [1, 2, 3, 4, 5] \<and> sb_max b = 150"
    using transfer_works [OF _ G _ _ t] new \<open>sb_size b0 = 0\<close> by simp
  then have c: "sb_ok (sb_consume 2 b)" "sb_content (sb_consume 2 b) m = [3, 4, 5]" "sb_max (sb_consume 2 b) = 150"
    using consume_works [of b 2 m] by simp_all
  obtain res b1 m1 where p: "sb_prepare next_storage 150 (sb_consume 2 b) m = (res, b1, m1)" by (metis surj_pair)
  have "sb_gptr (sb_consume 2 (fst (sb_transfer next_storage [1, 2, 3, 4, 5] (new_streambuf next_storage 150 (\<lambda>a. 9))))) = 2" by code_simp
  then have "sb_gptr (sb_consume 2 b) = 2" by (simp add: n t)
  moreover have "sb_size (sb_consume 2 b) = 3" using arg_cong [OF c(2), of length] by simp
  ultimately have "res = Inl LengthError \<and> sb_content b1 m1 = [5, 4, 5]"
    using failed_prepare_damages_content [OF G c(1) p] c(2,3) by (auto simp: shifted_def split: sum.splits)
  with p show ?thesis by (simp add: n t)
qed

end
