(* ===== verification/Read_Until.thy ===== *)
theory Read_Until
  imports Streambuf Asio_Stream "HOL-Library.Sublist"
begin

text \<open>
  Reading until a delimiter, \<open>impl/read_until.hpp\<close> of the bundled asio library: a loop that searches
  what a stream buffer holds and reads more until a match is found. A search does not begin again with
  the data it has seen, but at the start of a match that the end of the data cuts off.
\<close>

section \<open>Searching\<close>

text \<open>What the search says: the value to return, or where the next search starts.\<close>

datatype search_result = Found nat | Search_From nat

definition find_char :: "byte \<Rightarrow> nat \<Rightarrow> bytes \<Rightarrow> search_result" where
  "find_char delim pos data =
     (let iter = pos + length (takeWhile (\<lambda>x. x \<noteq> delim) (drop pos data))
      in if iter \<noteq> length data then Found (iter + 1) else Search_From (length data))"

text \<open>
  The inner loop of \<open>partial_search\<close>: a full match, a match up to the end of the data, or none;
  \<open>moved\<close> tells whether the second iterator has left its start.
\<close>

fun test_match :: "bool \<Rightarrow> bytes \<Rightarrow> bytes \<Rightarrow> bool option" where
  "test_match moved xs [] = Some True"
| "test_match moved [] (y # ys) = (if moved then Some False else None)"
| "test_match moved (x # xs) (y # ys) = (if x \<noteq> y then None else test_match True xs ys)"

fun partial_search :: "nat \<Rightarrow> bytes \<Rightarrow> bytes \<Rightarrow> nat \<times> bool" where
  "partial_search i [] d = (i, False)"
| "partial_search i (x # xs) d =
     (case test_match False (x # xs) d of
        Some full \<Rightarrow> (i, full)
      | None \<Rightarrow> partial_search (i + 1) xs d)"

definition find_string :: "bytes \<Rightarrow> nat \<Rightarrow> bytes \<Rightarrow> search_result" where
  "find_string delim pos data =
     (case partial_search pos (drop pos data) delim of (iter, full) \<Rightarrow>
        if iter \<noteq> length data then if full then Found (iter + length delim) else Search_From iter
        else Search_From (length data))"

text \<open>A match condition of the user: from a position on, the position it returns and whether it is a match.\<close>

definition find_match :: "(nat \<Rightarrow> bytes \<Rightarrow> nat \<times> bool) \<Rightarrow> nat \<Rightarrow> bytes \<Rightarrow> search_result" where
  "find_match condition pos data =
     (case condition pos data of (iter, matched) \<Rightarrow>
        if matched then Found iter else if iter \<noteq> length data then Search_From iter else Search_From (length data))"

section \<open>The loop\<close>

partial_function (option) until_loop ::
    "'w transfer_some \<Rightarrow> growth \<Rightarrow> (nat \<Rightarrow> bytes \<Rightarrow> search_result) \<Rightarrow> nat \<Rightarrow> streambuf \<Rightarrow> 'w os
     \<Rightarrow> ((nat \<times> error_code) result \<times> streambuf \<times> 'w os) option" where
  "until_loop read_some G search pos b w =
     (case search pos (sb_content b (memory w)) of
        Found n \<Rightarrow> Some (Inr (n, no_error), b, w)
      | Search_From p \<Rightarrow>
          if sb_size b = sb_max b then Some (Inr (0, misc_error not_found), b, w)
          else
            (case sb_prepare G (read_size_helper b 65536) b (memory w) of (res, b1, m1) \<Rightarrow>
               (case res of
                  Inl e \<Rightarrow> Some (Inl e, b1, w\<lparr>memory := m1\<rparr>)
                | Inr t \<Rightarrow>
                    Option.bind (read_some (consuming [t]) (w\<lparr>memory := m1\<rparr>)) (\<lambda>((n, ec), w2).
                      if failed ec then Some (Inr (0, ec), sb_commit n b1, w2)
                      else until_loop read_some G search p (sb_commit n b1) w2))))"

definition read_until_char where
  "read_until_char read_some G b delim w = until_loop read_some G (find_char delim) 0 b w"

definition read_until_string where
  "read_until_string read_some G b delim w = until_loop read_some G (find_string delim) 0 b w"

definition read_until_match where
  "read_until_match read_some G b condition w = until_loop read_some G (find_match condition) 0 b w"

text \<open>The overloads without an error code throw it.\<close>

definition throwing :: "((nat \<times> error_code) result \<times> 's) option \<Rightarrow> ((error_code + nat) result \<times> 's) option" where
  "throwing = map_option (\<lambda>(res, s). (map_sum id (\<lambda>(n, ec). throw_error ec n) res, s))"

definition read_until_char_throw where
  "read_until_char_throw read_some G b delim w = throwing (read_until_char read_some G b delim w)"

definition read_until_string_throw where
  "read_until_string_throw read_some G b delim w = throwing (read_until_string read_some G b delim w)"

definition read_until_match_throw where
  "read_until_match_throw read_some G b condition w = throwing (read_until_match read_some G b condition w)"

section \<open>What a search has to promise\<close>

text \<open>
  \<open>hit data n\<close> says that the first match in the data ends at \<open>n\<close>, \<open>clear pos data\<close> that no match
  begins before \<open>pos\<close>, whatever follows the data.
\<close>

locale incremental_search =
  fixes search :: "nat \<Rightarrow> bytes \<Rightarrow> search_result" and hit :: "bytes \<Rightarrow> nat \<Rightarrow> bool" and clear :: "nat \<Rightarrow> bytes \<Rightarrow> bool"
  assumes clear_start: "clear 0 data"
    and search_hits: "clear pos data \<Longrightarrow> pos \<le> length data \<Longrightarrow> search pos data = Found n \<Longrightarrow> hit data n"
    and search_misses: "clear pos data \<Longrightarrow> pos \<le> length data \<Longrightarrow> search pos data = Search_From p \<Longrightarrow>
      p \<le> length data \<and> clear p (data @ rest) \<and> \<not> hit data n"

text \<open>And a stream: what it will deliver does not depend on the memory of the program.\<close>

locale detached_stream = byte_stream +
  assumes content_memory: "content (w\<lparr>memory := m\<rparr>) = content w"

sublocale stream_kernel \<subseteq> detached_stream "service_receive K impl 0" "\<lambda>w. content (outside w)"
  by unfold_locales simp

context detached_stream
begin

text \<open>One read: some bytes go from the stream to the end of the buffer, or the stream is at its end.\<close>

lemma one_read:
  assumes "sb_ok b" "grows G" "sb_size b < sb_max b"
  shows "\<exists>t b1 m1 n ec w2. sb_prepare G (read_size_helper b 65536) b (memory w) = (Inr t, b1, m1)
    \<and> read_some (consuming [t]) (w\<lparr>memory := m1\<rparr>) = Some ((n, ec), w2)
    \<and> sb_ok (sb_commit n b1) \<and> sb_max (sb_commit n b1) = sb_max b
    \<and> sb_content (sb_commit n b1) (memory w2) = sb_content b (memory w) @ take n (content w) \<and> content w2 = drop n (content w)
    \<and> (if content w = [] then n = 0 \<and> ec = misc_error eof else 0 < n \<and> n \<le> length (content w) \<and> ec = no_error)"
proof -
  let ?n = "read_size_helper b 65536"
  have k: "0 < ?n" "?n \<le> 65536" "sb_size b + ?n \<le> sb_max b" using assms(3) by (auto simp: read_size_helper_def)
  obtain res b1 m1 where p: "sb_prepare G ?n b (memory w) = (res, b1, m1)" by (metis surj_pair)
  note w = prepare_works [OF p assms(1,2) k(3)]
  define t where "t = buffer_at (sb_base b1 + nat (sb_pptr b1)) ?n"
  have t: "addrs t = [sb_base b1 + nat (sb_pptr b1) ..< sb_base b1 + nat (sb_pptr b1) + ?n]" "buf_size t = ?n"
    by (simp_all add: t_def addrs_def buffer_at_def)
  let ?c = "consuming [t]" and ?w = "w\<lparr>memory := m1\<rparr>"
  have o: "offered ?c \<noteq> []"
    using offered_empty_first [of ?c] k(1) t(2) by (auto simp: consuming_def Asio_Buffers.size_max_def)
  have take: "take j (offered ?c) = take j (addrs t)" if "j \<le> length (offered ?c)" for j
    using that offered_is_take [of ?c] by (metis append_Nil2 min_def remaining_consuming seq_addrs_simps take_take)
  have len: "length (offered ?c) \<le> ?n" using offered_length(2) [of ?c] t(2) by simp
  have cw: "content ?w = content w" by (rule content_memory)
  show ?thesis
  proof (cases "content w = []")
    case True
    then obtain w2 where r: "read_some ?c ?w = Some ((0, misc_error eof), w2)" "content w2 = []" "memory w2 = m1"
      using read_end [OF o] cw by fastforce
    have "sb_ok (sb_commit 0 b1) \<and> sb_content (sb_commit 0 b1) m1 = sb_content b (memory w) \<and> sb_max (sb_commit 0 b1) = sb_max b"
      using commit_works [of b1 "[]" m1 m1] w by simp
    with True r p w show ?thesis by (auto simp: t_def)
  next
    case False
    then obtain n w2 where r: "read_some ?c ?w = Some ((n, no_error), w2)" "0 < n" "n \<le> length (offered ?c)"
      "n \<le> length (content w)" "content w2 = drop n (content w)" "memory w2 = write_at (offered ?c) (take n (content w)) m1"
      using read_bytes [OF o, of ?w, unfolded cw] by auto
    let ?xs = "take n (content w)"
    have n: "length ?xs = n" "n \<le> ?n" using r(3,4) len by simp_all
    have "memory w2 = write_at (take n (offered ?c)) ?xs m1"
      using write_at_take [of "offered ?c" n ?xs m1] n by (simp add: r(6))
    also have "take n (offered ?c) = [sb_base b1 + nat (sb_pptr b1) ..< sb_base b1 + nat (sb_pptr b1) + length ?xs]"
      using take [OF r(3)] n by (simp add: t(1))
    finally have m: "memory w2 = write_at [sb_base b1 + nat (sb_pptr b1) ..< sb_base b1 + nat (sb_pptr b1) + length ?xs] ?xs m1" .
    have "int (length ?xs) \<le> sb_epptr b1 - sb_pptr b1" "length ?xs < 2 ^ 31" using w n k(2) by auto
    from commit_works [OF _ this m] w n(1)
    have "sb_ok (sb_commit n b1) \<and> sb_content (sb_commit n b1) (memory w2) = sb_content b (memory w) @ ?xs \<and> sb_max (sb_commit n b1) = sb_max b"
      by simp
    with False r p w show ?thesis by (auto simp: t_def)
  qed
qed

end

locale reading_until = incremental_search search hit clear + detached_stream read_some content
  for search :: "nat \<Rightarrow> bytes \<Rightarrow> search_result" and hit :: "bytes \<Rightarrow> nat \<Rightarrow> bool" and clear :: "nat \<Rightarrow> bytes \<Rightarrow> bool"
    and read_some :: "'w transfer_some" and content :: "'w os \<Rightarrow> bytes"
begin

lemma until_loop_works:
  assumes "sb_ok b" "grows G" "clear pos (sb_content b (memory w))" "pos \<le> sb_size b"
  shows "\<exists>n ec b' w'. until_loop read_some G search pos b w = Some (Inr (n, ec), b', w')
    \<and> sb_ok b' \<and> sb_max b' = sb_max b
    \<and> sb_content b' (memory w') @ content w' = sb_content b (memory w) @ content w
    \<and> (ec = no_error \<and> hit (sb_content b' (memory w')) n
       \<or> ec = misc_error not_found \<and> n = 0 \<and> sb_size b' = sb_max b \<and> (\<forall>k. \<not> hit (sb_content b' (memory w')) k)
       \<or> ec = misc_error eof \<and> n = 0 \<and> content w' = [] \<and> (\<forall>k. \<not> hit (sb_content b' (memory w')) k))"
  using assms
proof (induction "length (content w)" arbitrary: b w pos rule: less_induct)
  case less
  let ?data = "sb_content b (memory w)"
  have pos: "pos \<le> length ?data" using less.prems(4) by simp
  show ?case
  proof (cases "search pos ?data")
    case (Found n)
    with less.prems(1) search_hits [OF less.prems(3) pos Found] show ?thesis by (subst until_loop.simps) simp
  next
    case (Search_From p)
    note miss = search_misses [OF less.prems(3) pos Search_From]
    show ?thesis
    proof (cases "sb_size b = sb_max b")
      case True
      with less.prems(1) miss Search_From show ?thesis by (subst until_loop.simps) simp
    next
      case False
      then have "sb_size b < sb_max b" using sb_ok_facts(5) [OF less.prems(1)] by simp
      from one_read [OF less.prems(1,2) this, of w] obtain t b1 m1 n ec w2 where
        rd: "sb_prepare G (read_size_helper b 65536) b (memory w) = (Inr t, b1, m1)"
          "read_some (consuming [t]) (w\<lparr>memory := m1\<rparr>) = Some ((n, ec), w2)"
        and b2: "sb_ok (sb_commit n b1)" "sb_max (sb_commit n b1) = sb_max b"
          "sb_content (sb_commit n b1) (memory w2) = ?data @ take n (content w)" "content w2 = drop n (content w)"
        and n: "if content w = [] then n = 0 \<and> ec = misc_error eof else 0 < n \<and> n \<le> length (content w) \<and> ec = no_error"
        by blast
      have step: "until_loop read_some G search pos b w =
          (if failed ec then Some (Inr (0, ec), sb_commit n b1, w2) else until_loop read_some G search p (sb_commit n b1) w2)"
        using False Search_From rd by (subst until_loop.simps) simp
      show ?thesis
      proof (cases "content w = []")
        case True
        then have "until_loop read_some G search pos b w = Some (Inr (0, misc_error eof), sb_commit 0 b1, w2)"
          using step n by simp
        with True b2 n miss show ?thesis by auto
      next
        case more: False
        then have go: "until_loop read_some G search pos b w = until_loop read_some G search p (sb_commit n b1) w2"
          using step n by simp
        have "length (content w2) < length (content w)" using more n b2(4) by auto
        moreover have "clear p (sb_content (sb_commit n b1) (memory w2))" using miss by (simp add: b2(3))
        moreover have "p \<le> sb_size (sb_commit n b1)"
          using miss [of "[]" 0] arg_cong [OF b2(3), of length] by simp
        ultimately show ?thesis
          using less.hyps [of w2 "sb_commit n b1" p] b2 less.prems(2) unfolding go by simp
      qed
    qed
  qed
qed

end

section \<open>The searches keep the promise\<close>

text \<open>The first place where the delimiter is; no place before \<open>pos\<close>, whatever follows.\<close>

definition first_end :: "bytes \<Rightarrow> bytes \<Rightarrow> nat \<Rightarrow> bool" where
  "first_end delim data n \<longleftrightarrow> (\<exists>i. n = i + length delim \<and> n \<le> length data \<and> prefix delim (drop i data)
     \<and> (\<forall>j < i. \<not> prefix delim (drop j data)))"

definition none_before :: "bytes \<Rightarrow> nat \<Rightarrow> bytes \<Rightarrow> bool" where
  "none_before delim pos data \<longleftrightarrow> (\<forall>j < pos. \<forall>rest. \<not> prefix delim (drop j (data @ rest)))"

lemma test_match_works:
  "test_match moved xs d = Some True \<Longrightarrow> prefix d xs"
  "test_match moved xs d = Some False \<Longrightarrow> length xs < length d"
  "test_match moved xs d = None \<Longrightarrow> moved \<or> xs \<noteq> [] \<Longrightarrow> \<not> prefix d (xs @ rest)"
  by (induction moved xs d rule: test_match.induct) (auto split: if_splits)

lemma partial_search_works:
  assumes "partial_search i xs d = (k, full)"
  shows "\<exists>j. k = i + j \<and> j \<le> length xs \<and> (\<forall>l < j. \<forall>rest. \<not> prefix d (drop l xs @ rest))
    \<and> (if full then j < length xs \<and> prefix d (drop j xs) else j = length xs \<or> length xs - j < length d)"
  using assms
proof (induction i xs d rule: partial_search.induct)
  case (2 i x xs d)
  show ?case
  proof (cases "test_match False (x # xs) d")
    case None
    note miss = test_match_works(3) [OF None]
    from 2 None obtain j where j: "k = i + 1 + j" "j \<le> length xs" "\<forall>l < j. \<forall>rest. \<not> prefix d (drop l xs @ rest)"
      "if full then j < length xs \<and> prefix d (drop j xs) else j = length xs \<or> length xs - j < length d" by auto
    have "\<not> prefix d (drop l (x # xs) @ rest)" if "l < Suc j" for l rest
      using that j(3) miss [of rest] by (cases l) auto
    with j show ?thesis by (intro exI [of _ "Suc j"]) auto
  next
    case (Some m)
    with 2 have "k = i" "full = m" by simp_all
    with Some test_match_works(1,2) [of False "x # xs" d] show ?thesis by (cases m) auto
  qed
qed simp

lemma find_string_works:
  assumes "delim \<noteq> []" "none_before delim pos data" "pos \<le> length data"
  shows "find_string delim pos data = Found n \<Longrightarrow> first_end delim data n"
    and "find_string delim pos data = Search_From p \<Longrightarrow> p \<le> length data \<and> none_before delim p (data @ more_bytes) \<and> \<not> first_end delim data n"
proof -
  obtain k full where s: "partial_search pos (drop pos data) delim = (k, full)" by (metis surj_pair)
  from partial_search_works [OF this, unfolded drop_drop length_drop] obtain j where j: "k = pos + j" "j \<le> length data - pos"
    "\<forall>l < j. \<forall>rest. \<not> prefix delim (drop (l + pos) data @ rest)"
    "if full then j < length data - pos \<and> prefix delim (drop (j + pos) data)
     else j = length data - pos \<or> length data - pos - j < length delim"
    by blast
  have before: "\<not> prefix delim (drop l (data @ rest))" if "l < k" for l rest
  proof (cases "l < pos")
    case True
    with assms(2) show ?thesis by (auto simp: none_before_def)
  next
    case False
    then have "l - pos < j" "l - pos + pos = l" "l \<le> length data" using that j(1,2) assms(3) by auto
    with j(3) show ?thesis by (metis drop_append drop_0 diff_is_0_eq)
  qed
  have found: "first_end delim data (k + length delim)" if full
  proof -
    have "prefix delim (drop k data)" "k \<le> length data" using that j assms(3) by (auto simp: add.commute)
    moreover have "k + length delim \<le> length data" using prefix_length_le [OF calculation(1)] calculation(2) by simp
    moreover have "\<not> prefix delim (drop l data)" if "l < k" for l using before [OF that, of "[]"] by simp
    ultimately show ?thesis unfolding first_end_def by blast
  qed
  have none: "\<not> first_end delim data n" if "\<not> full"
  proof
    assume "first_end delim data n"
    then obtain i where i: "prefix delim (drop i data)" by (auto simp: first_end_def)
    then have "i < length data" using assms(1) by (cases "i < length data") simp_all
    have "\<not> i < k" using before [of i "[]"] i by auto
    then have "length (drop i data) < length delim"
      using that j(1,4) \<open>i < length data\<close> by auto
    with prefix_length_le [OF i] show False by simp
  qed
  have inside: "k < length data" if full using that j by auto
  show "find_string delim pos data = Found n \<Longrightarrow> first_end delim data n"
    using found s by (auto simp: find_string_def split: if_splits)
  show "find_string delim pos data = Search_From p \<Longrightarrow> p \<le> length data \<and> none_before delim p (data @ more_bytes) \<and> \<not> first_end delim data n"
    using none inside before s j(1,2) assms(3) by (auto simp: find_string_def none_before_def split: if_splits)
qed

text \<open>The search for one character is the search for the string of it.\<close>

lemma partial_search_char: "partial_search i xs [c] = (i + length (takeWhile (\<lambda>x. x \<noteq> c) xs), c \<in> set xs)"
  by (induction i xs "[c]" rule: partial_search.induct) auto

lemma takeWhile_end: "length (takeWhile P xs) = length xs \<longleftrightarrow> (\<forall>x \<in> set xs. P x)"
  by (induction xs) auto

lemma find_char_string: "pos \<le> length data \<Longrightarrow> find_char c pos data = find_string [c] pos data"
  using takeWhile_end [of "\<lambda>x. x \<noteq> c" "drop pos data"]
  by (auto simp: find_char_def find_string_def partial_search_char Let_def)

interpretation string_search: incremental_search "find_string (x # xs)" "first_end (x # xs)" "none_before (x # xs)" for x xs
proof
  fix pos data n p rest
  show "none_before (x # xs) 0 data" by (simp add: none_before_def)
  assume a: "none_before (x # xs) pos data" "pos \<le> length data"
  show "find_string (x # xs) pos data = Found n \<Longrightarrow> first_end (x # xs) data n"
    by (rule find_string_works(1) [OF _ a]) simp_all
  show "find_string (x # xs) pos data = Search_From p
      \<Longrightarrow> p \<le> length data \<and> none_before (x # xs) p (data @ rest) \<and> \<not> first_end (x # xs) data n"
    by (rule find_string_works(2) [OF _ a]) simp_all
qed

interpretation char_search: incremental_search "find_char x" "first_end [x]" "none_before [x]" for x
proof
  fix pos data n p rest
  show "none_before [x] 0 data" by (simp add: none_before_def)
  assume a: "none_before [x] pos data" "pos \<le> length data"
  show "find_char x pos data = Found n \<Longrightarrow> first_end [x] data n"
    using string_search.search_hits [OF a] find_char_string [OF a(2)] by simp
  show "find_char x pos data = Search_From p
      \<Longrightarrow> p \<le> length data \<and> none_before [x] p (data @ rest) \<and> \<not> first_end [x] data n"
    using string_search.search_misses [OF a] find_char_string [OF a(2)] by simp
qed

context stream_kernel
begin

lemma service_detached: "detached_stream (service_receive K impl 0) (\<lambda>w. content (outside w))"
  by (rule detached_stream_axioms)

end

interpretation pipe_until: reading_until "find_string (x # xs)" "first_end (x # xs)" "none_before (x # xs)"
    "service_receive (pipe_kernel chunk) stream_socket 0" "\<lambda>w. pipe_bytes (outside w)" for x xs chunk
  by (intro reading_until.intro string_search.incremental_search_axioms pipe.service_detached)

section \<open>Properties\<close>

lemma first_end_more:
  assumes "first_end delim data n"
  shows "first_end delim (data @ rest) n"
proof -
  obtain i where i: "n = i + length delim" "n \<le> length data" "prefix delim (drop i data)" "\<And>j. j < i \<Longrightarrow> \<not> prefix delim (drop j data)"
    using assms by (auto simp: first_end_def)
  have "\<not> prefix delim (drop j (data @ rest))" if "j < i" for j
  proof
    assume "prefix delim (drop j (data @ rest))"
    then have "take (length delim) (drop j (data @ rest)) = delim" by (metis prefix_def append_eq_conv_conj)
    then have "take (length delim) (drop j data) = delim" using that i(1,2) by simp
    then have "prefix delim (drop j data)" by (metis take_is_prefix)
    with i(4) [OF that] show False by simp
  qed
  moreover have "prefix delim (drop i (data @ rest))" using i(1,2,3) by (auto simp: prefix_def)
  ultimately show ?thesis using i(1,2) unfolding first_end_def by (metis le_add1 le_trans length_append)
qed

text \<open>
  C15. \<open>read_until\<close> with a string returns, over any system that delivers a stream in pieces of any size
  and for any limit of the stream buffer, and finds the first occurrence of the delimiter in what the
  buffer held and the stream delivers, however the pieces cut it: the value returned is the number of bytes
  up to its end, and these are in the buffer. Otherwise the buffer is full without an occurrence, or the
  stream is at its end without one. Nothing is lost: the buffer and the stream hold together what they
  held.
\<close>

theorem read_until_finds_first:
  assumes "stream_kernel K impl content ready" "grows G" "sb_ok b" "delim \<noteq> []"
    and "everything = sb_content b (memory w) @ content (outside w)"
  shows "\<exists>n ec b' w'. read_until_string (service_receive K impl 0) G b delim w = Some (Inr (n, ec), b', w')
    \<and> sb_content b' (memory w') @ content (outside w') = everything
    \<and> (ec = no_error \<and> first_end delim everything n \<and> n \<le> sb_size b'
       \<or> ec = misc_error not_found \<and> n = 0 \<and> sb_size b' = sb_max b \<and> (\<forall>k. \<not> first_end delim (take (sb_max b) everything) k)
       \<or> ec = misc_error eof \<and> n = 0 \<and> content (outside w') = [] \<and> (\<forall>k. \<not> first_end delim everything k))"
proof -
  obtain x xs where d: "delim = x # xs" using assms(4) by (cases delim) auto
  have "reading_until (find_string delim) (first_end delim) (none_before delim) (service_receive K impl 0) (\<lambda>w. content (outside w))"
    unfolding d by (intro reading_until.intro string_search.incremental_search_axioms stream_kernel.service_detached [OF assms(1)])
  from reading_until.until_loop_works [OF this assms(3,2), of 0 w] obtain n ec b' w' where
    l: "until_loop (service_receive K impl 0) G (find_string delim) 0 b w = Some (Inr (n, ec), b', w')"
    and c: "sb_content b' (memory w') @ content (outside w') = everything"
    and r: "ec = no_error \<and> first_end delim (sb_content b' (memory w')) n
       \<or> ec = misc_error not_found \<and> n = 0 \<and> sb_size b' = sb_max b \<and> (\<forall>k. \<not> first_end delim (sb_content b' (memory w')) k)
       \<or> ec = misc_error eof \<and> n = 0 \<and> content (outside w') = [] \<and> (\<forall>k. \<not> first_end delim (sb_content b' (memory w')) k)"
    by (auto simp: none_before_def assms(5))
  have "sb_content b' (memory w') = take (sb_max b) everything" if "sb_size b' = sb_max b"
    using that by (simp flip: c)
  moreover have "n \<le> sb_size b'" if "first_end delim (sb_content b' (memory w')) n" using that by (auto simp: first_end_def)
  moreover have "first_end delim everything n" if "first_end delim (sb_content b' (memory w')) n"
    using first_end_more [OF that] by (metis c)
  ultimately show ?thesis
    using l c r unfolding read_until_string_def by (metis append_Nil2)
qed

theorem read_until_finds_first_witness:
  "\<exists>b' w'. read_until_string (service_receive (pipe_kernel 2) stream_socket 0) next_storage
        (fst (new_streambuf next_storage 100 (\<lambda>a. 0))) [13, 10]
        \<lparr>errno = 0, memory = snd (new_streambuf next_storage 100 (\<lambda>a. 0)),
          outside = \<lparr>pipe_bytes = [72, 13, 13, 10, 73, 13, 10], pipe_ready = False\<rparr>\<rparr> = Some (Inr (4, no_error), b', w')"
proof -
  obtain b m where n: "new_streambuf next_storage 100 (\<lambda>a. 0) = (b, m)" by (metis surj_pair)
  have G: "grows next_storage" by (simp add: grows_def next_storage_def)
  let ?w = "\<lparr>errno = 0, memory = m, outside = \<lparr>pipe_bytes = [72, 13, 13, 10, 73, 13, 10], pipe_ready = False\<rparr>\<rparr>"
  let ?e = "[72, 13, 13, 10, 73, 13, 10] :: bytes" and ?d = "[13, 10] :: bytes"
  have b: "sb_ok b" "sb_content b m = []" "sb_max b = 100" using new_streambuf_works [OF n G] by simp_all
  then have e: "?e = sb_content b (memory ?w) @ pipe_bytes (outside ?w)" by simp
  have one: "first_end ?d ?e k \<longleftrightarrow> k = 4" for k
  proof -
    have m: "prefix ?d (drop 2 ?e)" "\<not> prefix ?d (drop 0 ?e)" "\<not> prefix ?d (drop 1 ?e)" by simp_all
    have "i = 2" if "prefix ?d (drop i ?e)" "\<forall>j < i. \<not> prefix ?d (drop j ?e)" for i
    proof -
      have "\<not> 2 < i" using that(2) m(1) by blast
      moreover have "i \<noteq> 0" "i \<noteq> 1" using that(1) m(2,3) by metis+
      ultimately show ?thesis by linarith
    qed
    moreover have "\<forall>j < 2. \<not> prefix ?d (drop j ?e)"
    proof (intro allI impI)
      fix j :: nat assume "j < 2"
      then have "j = 0 \<or> j = 1" by linarith
      with m(2,3) show "\<not> prefix ?d (drop j ?e)" by metis
    qed
    moreover have len: "length ?e = 7" "length ?d = 2" by simp_all
    ultimately show ?thesis
    proof (intro iffI)
      assume "first_end ?d ?e k"
      then obtain i where "k = i + 2" "prefix ?d (drop i ?e)" "\<forall>j < i. \<not> prefix ?d (drop j ?e)"
        unfolding first_end_def len by blast
      with \<open>\<And>i. prefix ?d (drop i ?e) \<Longrightarrow> \<forall>j < i. \<not> prefix ?d (drop j ?e) \<Longrightarrow> i = 2\<close> show "k = 4" by fastforce
    next
      assume "k = 4"
      then have "k = 2 + length ?d \<and> k \<le> length ?e" by simp
      with m(1) \<open>\<forall>j < 2. \<not> prefix ?d (drop j ?e)\<close> show "first_end ?d ?e k" unfolding first_end_def by blast
    qed
  qed
  from read_until_finds_first [OF pipe.stream_kernel_axioms [of 2] G b(1) _ e, of "[13, 10]"] obtain k ec b' w' where
    "read_until_string (service_receive (pipe_kernel 2) stream_socket 0) next_storage b [13, 10] ?w = Some (Inr (k, ec), b', w')"
    "ec = no_error \<and> k = 4 \<or> sb_size b' = 100 \<and> sb_content b' (memory w') @ pipe_bytes (outside w') = ?e \<or> \<not> first_end ?d ?e 4"
    by (auto simp: one b(3))
  moreover have "sb_size b' \<noteq> 100" if "sb_content b' (memory w') @ pipe_bytes (outside w') = ?e"
    using arg_cong [OF that, of length] by simp
  ultimately show ?thesis using one [of 4] by (auto simp: n)
qed

end
