(* ===== verification/Streambuf_Transfer.thy ===== *)
theory Streambuf_Transfer
  imports Composed_Ops Read_Until
begin

text \<open>
  Transfers that use a stream buffer of the bundled asio library: the overloads of \<open>read\<close> and \<open>write\<close>
  in \<open>impl/read.hpp\<close> and \<open>impl/write.hpp\<close>, and the asynchronous functions of these and of
  \<open>impl/read_until.hpp\<close>.
\<close>

section \<open>Reading into a stream buffer and writing from one\<close>

partial_function (option) read_streambuf_loop ::
    "'w transfer_some \<Rightarrow> growth \<Rightarrow> (error_code \<Rightarrow> nat \<Rightarrow> nat) \<Rightarrow> nat \<Rightarrow> nat \<Rightarrow> error_code \<Rightarrow> streambuf \<Rightarrow> 'w os
     \<Rightarrow> ((nat \<times> error_code) result \<times> streambuf \<times> 'w os) option" where
  "read_streambuf_loop read_some G condition bytes_available sofar ec b w =
     (if bytes_available > 0 then
        (case sb_prepare G bytes_available b (memory w) of (res, b1, m1) \<Rightarrow>
           (case res of
              Inl e \<Rightarrow> Some (Inl e, b1, w\<lparr>memory := m1\<rparr>)
            | Inr t \<Rightarrow>
                Option.bind (read_some (consuming [t]) (w\<lparr>memory := m1\<rparr>)) (\<lambda>((n, ec1), w2).
                  let b2 = sb_commit n b1
                  in read_streambuf_loop read_some G condition (read_size_helper b2 (condition ec1 (sofar + n)))
                       (sofar + n) ec1 b2 w2)))
      else Some (Inr (sofar, ec), b, w))"

definition read_streambuf where
  "read_streambuf read_some G b condition w =
     read_streambuf_loop read_some G condition (read_size_helper b (condition no_error 0)) 0 no_error b w"

definition read_streambuf_ec where
  "read_streambuf_ec read_some G b w = read_streambuf read_some G b transfer_all w"

definition read_streambuf_throw where
  "read_streambuf_throw read_some G b w = throwing (read_streambuf read_some G b transfer_all w)"

definition read_streambuf_condition_throw where
  "read_streambuf_condition_throw read_some G b condition w = throwing (read_streambuf read_some G b condition w)"

definition write_streambuf ::
    "'w transfer_some \<Rightarrow> streambuf \<Rightarrow> (error_code \<Rightarrow> nat \<Rightarrow> nat) \<Rightarrow> 'w os \<Rightarrow> ((nat \<times> error_code) result \<times> streambuf \<times> 'w os) option" where
  "write_streambuf write_some b condition w =
     map_option (\<lambda>((n, ec), w1). (Inr (n, ec), sb_consume n b, w1)) (asio_write_seq write_some [sb_data b] condition w)"

definition write_streambuf_ec where
  "write_streambuf_ec write_some b w = write_streambuf write_some b transfer_all w"

definition write_streambuf_throw where
  "write_streambuf_throw write_some b w = throwing (write_streambuf write_some b transfer_all w)"

definition write_streambuf_condition_throw where
  "write_streambuf_condition_throw write_some b condition w = throwing (write_streambuf write_some b condition w)"

section \<open>The asynchronous functions\<close>

text \<open>
  Their state is the function object and the stream buffer it refers to. Each ends a call by preparing
  the buffer for the next operation, which may throw.
\<close>

definition start_read :: "growth \<Rightarrow> nat \<Rightarrow> 'op \<Rightarrow> streambuf \<Rightarrow> 'w os \<Rightarrow> effect \<times> ('op \<times> streambuf) \<times> 'w os" where
  "start_read G n op b w =
     (case sb_prepare G n b (memory w) of (res, b1, m1) \<Rightarrow>
        (case res of Inl x \<Rightarrow> Raise x | Inr t \<Rightarrow> Await (consuming [t]), (op, b1), w\<lparr>memory := m1\<rparr>))"

record read_streambuf_op =
  rs_start :: int
  rs_total :: nat

definition read_streambuf_call ::
    "growth \<Rightarrow> (error_code \<Rightarrow> nat \<Rightarrow> nat) \<Rightarrow> int \<Rightarrow> error_code \<Rightarrow> nat \<Rightarrow> (read_streambuf_op \<times> streambuf) \<times> 'w os \<Rightarrow>
     effect \<times> (read_streambuf_op \<times> streambuf) \<times> 'w os" where
  "read_streambuf_call G condition phase ec n st =
     (case st of ((op, b), w) \<Rightarrow>
        let op0 = op\<lparr>rs_start := phase\<rparr>
        in if phase = 1 then start_read G (read_size_helper b (condition ec (rs_total op0))) op0 b w
           else
             let op1 = op0\<lparr>rs_total := rs_total op0 + n\<rparr>;
                 b1 = sb_commit n b;
                 bytes_available = read_size_helper b1 (condition ec (rs_total op1))
             in if (\<not> failed ec \<and> n = 0) \<or> bytes_available = 0 then (Complete ec (rs_total op1), (op1, b1), w)
                else start_read G bytes_available op1 b1 w)"

definition async_read_streambuf where
  "async_read_streambuf read_some G b condition w =
     drive read_some (read_streambuf_call G condition 0)
       (read_streambuf_call G condition 1 no_error 0 ((\<lparr>rs_start = 0, rs_total = 0\<rparr>, b), w))"

definition async_read_streambuf_all where
  "async_read_streambuf_all read_some G b w = async_read_streambuf read_some G b transfer_all w"

text \<open>Writing: the characters are consumed before the handler is called.\<close>

definition write_streambuf_handler :: "nat \<Rightarrow> streambuf \<Rightarrow> streambuf" where
  "write_streambuf_handler bytes_transferred b = sb_consume bytes_transferred b"

definition async_write_streambuf ::
    "'w transfer_some \<Rightarrow> streambuf \<Rightarrow> (error_code \<Rightarrow> nat \<Rightarrow> nat) \<Rightarrow> 'w os \<Rightarrow> ((nat \<times> error_code) result \<times> streambuf \<times> 'w os) option" where
  "async_write_streambuf write_some b condition w =
     map_option (\<lambda>(res, w1). (res, case res of Inl x \<Rightarrow> b | Inr (n, ec) \<Rightarrow> write_streambuf_handler n b, w1))
       (outcome (async_write1 write_some (sb_data b) condition w))"

definition async_write_streambuf_all where
  "async_write_streambuf_all write_some b w = async_write_streambuf write_some b transfer_all w"

record until_op =
  uo_start :: int
  uo_position :: nat

definition until_not_found :: nat where
  "until_not_found = size_max"

text \<open>The search: the position to keep and how much to read, nothing when it is done.\<close>

definition until_look :: "(nat \<Rightarrow> bytes \<Rightarrow> search_result) \<Rightarrow> until_op \<Rightarrow> streambuf \<Rightarrow> mem \<Rightarrow> until_op \<times> nat" where
  "until_look search op b m =
     (case search (uo_position op) (sb_content b m) of
        Found n \<Rightarrow> (op\<lparr>uo_position := n\<rparr>, 0)
      | Search_From p \<Rightarrow>
          if sb_size b = sb_max b then (op\<lparr>uo_position := until_not_found\<rparr>, 0)
          else (op\<lparr>uo_position := p\<rparr>, read_size_helper b 65536))"

definition until_finish :: "error_code \<Rightarrow> until_op \<Rightarrow> effect" where
  "until_finish ec op =
     Complete (if uo_position op = until_not_found then misc_error not_found else ec)
       (if failed ec \<or> uo_position op = until_not_found then 0 else uo_position op)"

definition until_round ::
    "growth \<Rightarrow> (nat \<Rightarrow> bytes \<Rightarrow> search_result) \<Rightarrow> int \<Rightarrow> error_code \<Rightarrow> (until_op \<times> streambuf) \<times> 'w os \<Rightarrow> effect \<times> (until_op \<times> streambuf) \<times> 'w os" where
  "until_round G search phase ec st =
     (case st of ((op, b), w) \<Rightarrow>
        (case until_look search op b (memory w) of (op1, bytes_to_read) \<Rightarrow>
           if phase = 0 \<and> bytes_to_read = 0 then (until_finish ec op1, (op1, b), w)
           else start_read G bytes_to_read op1 b w))"

definition until_op_call ::
    "growth \<Rightarrow> (nat \<Rightarrow> bytes \<Rightarrow> search_result) \<Rightarrow> int \<Rightarrow> error_code \<Rightarrow> nat \<Rightarrow> (until_op \<times> streambuf) \<times> 'w os \<Rightarrow>
     effect \<times> (until_op \<times> streambuf) \<times> 'w os" where
  "until_op_call G search phase ec n st =
     (case st of ((op, b), w) \<Rightarrow>
        let op0 = op\<lparr>uo_start := phase\<rparr>
        in if phase = 1 then until_round G search phase ec ((op0, b), w)
           else
             let b1 = sb_commit n b
             in if failed ec \<or> n = 0 then (until_finish ec op0, (op0, b1), w)
                else until_round G search phase ec ((op0, b1), w))"

text \<open>The objects for a string and for a match condition differ in the search.\<close>

definition until_string_call ::
    "growth \<Rightarrow> bytes \<Rightarrow> int \<Rightarrow> error_code \<Rightarrow> nat \<Rightarrow> (until_op \<times> streambuf) \<times> 'w os \<Rightarrow> effect \<times> (until_op \<times> streambuf) \<times> 'w os" where
  "until_string_call G delim = until_op_call G (find_string delim)"

definition until_match_call ::
    "growth \<Rightarrow> (nat \<Rightarrow> bytes \<Rightarrow> nat \<times> bool) \<Rightarrow> int \<Rightarrow> error_code \<Rightarrow> nat \<Rightarrow> (until_op \<times> streambuf) \<times> 'w os \<Rightarrow>
     effect \<times> (until_op \<times> streambuf) \<times> 'w os" where
  "until_match_call G condition = until_op_call G (find_match condition)"

definition async_until where
  "async_until read_some call b w =
     drive read_some (call (0 :: int)) (call 1 no_error 0 ((\<lparr>uo_start = 0, uo_position = 0\<rparr>, b), w))"

definition async_read_until_char where
  "async_read_until_char read_some G b delim w = async_until read_some (until_op_call G (find_char delim)) b w"

definition async_read_until_string where
  "async_read_until_string read_some G b delim w = async_until read_some (until_string_call G delim) b w"

definition async_read_until_match where
  "async_read_until_match read_some G b condition w = async_until read_some (until_match_call G condition) b w"

section \<open>The asynchronous functions do what the others do\<close>

lemma start_read_nothing:
  assumes "sb_ok b"
  shows "\<exists>t. buf_size t = 0 \<and> start_read G 0 op b w = (Await (consuming [t]), (op, b), w)"
proof -
  have "sb_prepare G 0 b (memory w) = (Inr (buffer_at (sb_base b + nat (sb_pptr b)) 0), b, memory w)"
    using sb_ok_facts(3) [OF assms] by (simp add: sb_prepare_def reserve_def Let_def)
  then show ?thesis by (intro exI [of _ "buffer_at (sb_base b + nat (sb_pptr b)) 0"]) (simp add: start_read_def buffer_at_def)
qed

lemma offered_empty: "buf_size t = 0 \<Longrightarrow> offered (consuming [t]) = []"
  using offered_length(2) [of "consuming [t]"] by simp

lemma commit_nothing:
  assumes "sb_ok b"
  shows "sb_commit 0 b = b\<lparr>sb_egptr := sb_pptr b\<rparr>" "sb_content (sb_commit 0 b) m = sb_content b m"
  using sb_ok_facts(3) [OF assms]
  by (simp_all add: sb_commit_def to_int_def sb_content_def sb_data_def)

context reading_until
begin

lemma round_agrees:
  assumes "sb_ok b" "grows G" "clear pos (sb_content b (memory w))" "pos \<le> sb_size b"
    and "\<And>data n. hit data n \<Longrightarrow> n \<le> length data" "sb_size b + length (content w) < size_max"
  shows "\<exists>n ec b' w' op'. until_loop read_some G search pos b w = Some (Inr (n, ec), b', w')
    \<and> drive read_some (until_op_call G search 0) (until_round G search 0 no_error ((\<lparr>uo_start = 0, uo_position = pos\<rparr>, b), w))
      = Some (Inr (n, ec), (op', b'), w')"
  using assms(1-4,6)
proof (induction "length (content w)" arbitrary: b w pos rule: less_induct)
  case less
  let ?data = "sb_content b (memory w)"
  have pos: "pos \<le> length ?data" using less.prems(4) by simp
  show ?case
  proof (cases "search pos ?data")
    case (Found n)
    then have "n \<noteq> size_max" using assms(5) [OF search_hits [OF less.prems(3) pos Found]] less.prems(5) by simp
    with Found show ?thesis
      by (subst until_loop.simps) (simp add: until_round_def until_look_def until_finish_def until_not_found_def)
  next
    case (Search_From p)
    note miss = search_misses [OF less.prems(3) pos Search_From]
    show ?thesis
    proof (cases "sb_size b = sb_max b")
      case True
      with Search_From show ?thesis
        by (subst until_loop.simps) (simp add: until_round_def until_look_def until_finish_def until_not_found_def)
    next
      case False
      then have small: "sb_size b < sb_max b" using sb_ok_facts(5) [OF less.prems(1)] by simp
      then have k: "read_size_helper b 65536 \<noteq> 0" by (auto simp: read_size_helper_def)
      from one_read [OF less.prems(1,2) small, of w] obtain t b1 m1 n ec w2 where
        rd: "sb_prepare G (read_size_helper b 65536) b (memory w) = (Inr t, b1, m1)"
          "read_some (consuming [t]) (w\<lparr>memory := m1\<rparr>) = Some ((n, ec), w2)"
        and b2: "sb_ok (sb_commit n b1)" "sb_max (sb_commit n b1) = sb_max b"
          "sb_content (sb_commit n b1) (memory w2) = ?data @ take n (content w)" "content w2 = drop n (content w)"
        and n: "if content w = [] then n = 0 \<and> ec = misc_error eof else 0 < n \<and> n \<le> length (content w) \<and> ec = no_error"
        by blast
      let ?op = "\<lparr>uo_start = 0, uo_position = p\<rparr>"
      have loop: "until_loop read_some G search pos b w =
          (if failed ec then Some (Inr (0, ec), sb_commit n b1, w2) else until_loop read_some G search p (sb_commit n b1) w2)"
        using False Search_From rd by (subst until_loop.simps) simp
      have round: "drive read_some (until_op_call G search 0) (until_round G search 0 no_error ((\<lparr>uo_start = 0, uo_position = pos\<rparr>, b), w))
          = drive read_some (until_op_call G search 0) (until_op_call G search 0 ec n ((?op, b1), w2))"
        using False Search_From rd k by (simp add: until_round_def until_look_def start_read_def)
      have "p \<le> length ?data" using miss [of "[]" 0] by simp
      then have p: "p \<noteq> until_not_found" using less.prems(5) by (simp add: until_not_found_def)
      show ?thesis
      proof (cases "content w = []")
        case True
        with n p show ?thesis unfolding loop round by (simp add: until_op_call_def until_finish_def)
      next
        case more: False
        with n have "until_op_call G search 0 ec n ((?op, b1), w2) = until_round G search 0 no_error ((?op, sb_commit n b1), w2)"
          by (simp add: until_op_call_def)
        moreover have "length (content w2) < length (content w)" using more n b2(4) by auto
        moreover have "clear p (sb_content (sb_commit n b1) (memory w2))" using miss by (simp add: b2(3))
        moreover have size: "sb_size (sb_commit n b1) = sb_size b + n"
          using arg_cong [OF b2(3), of length] more n by simp
        moreover have "p \<le> sb_size (sb_commit n b1)" using \<open>p \<le> length ?data\<close> size by simp
        moreover have "sb_size (sb_commit n b1) + length (content w2) < size_max"
          using less.prems(5) size b2(4) more n by simp
        ultimately show ?thesis
          using less.hyps [of w2 "sb_commit n b1" p] b2 less.prems(2) more n unfolding loop round by simp
      qed
    qed
  qed
qed

text \<open>
  Started, the object always waits for an operation, so when nothing has to be read it waits for an empty
  one; the read position of the stream buffer's end is the only thing that tells the difference.
\<close>

lemma async_until_agrees:
  assumes "sb_ok b" "grows G" "\<And>data n. hit data n \<Longrightarrow> n \<le> length data" "sb_size b + length (content w) < size_max"
  shows "\<exists>n ec b' w' op' b2. until_loop read_some G search 0 b w = Some (Inr (n, ec), b', w')
    \<and> async_until read_some (until_op_call G search) b w = Some (Inr (n, ec), (op', b2), w')
    \<and> (b2 = b' \<or> b2 = b'\<lparr>sb_egptr := sb_pptr b'\<rparr>)"
proof -
  let ?op = "\<lambda>k. \<lparr>uo_start = k, uo_position = 0\<rparr>"
  obtain n ec b' w' op' where
    l: "until_loop read_some G search 0 b w = Some (Inr (n, ec), b', w')"
    and d: "drive read_some (until_op_call G search 0) (until_round G search 0 no_error ((?op 0, b), w)) = Some (Inr (n, ec), (op', b'), w')"
    using round_agrees [OF assms(1,2) clear_start _ assms(3,4)] by blast
  obtain op0 k where look: "until_look search (?op 0) b (memory w) = (op0, k)" by (metis surj_pair)
  then have look1: "until_look search (?op 1) b (memory w) = (op0\<lparr>uo_start := 1\<rparr>, k)"
    by (auto simp: until_look_def split: search_result.splits if_splits)
  have start: "uo_start op0 = 0" using look by (auto simp: until_look_def split: search_result.splits if_splits)
  have async: "async_until read_some (until_op_call G search) b w = drive read_some (until_op_call G search 0) (start_read G k (op0\<lparr>uo_start := 1\<rparr>) b w)"
    by (simp add: async_until_def until_op_call_def until_round_def look1)
  show ?thesis
  proof (cases "k = 0")
    case True
    have "until_round G search 0 no_error ((?op 0, b), w) = (until_finish no_error op0, (op0, b), w)"
      using True by (simp add: until_round_def look)
    moreover obtain n0 ec0 where f0: "until_finish no_error op0 = Complete ec0 n0" by (simp add: until_finish_def)
    ultimately have "drive read_some (until_op_call G search 0) (until_round G search 0 no_error ((?op 0, b), w)) = Some (Inr (n0, ec0), (op0, b), w)"
      by simp
    with d have "n0 = n" "ec0 = ec" "b' = b" "w' = w" by simp_all
    with f0 have f: "until_finish no_error op0 = Complete ec n" "b' = b" "w' = w" by simp_all
    obtain t where "buf_size t = 0" "start_read G 0 (op0\<lparr>uo_start := 1\<rparr>) b w = (Await (consuming [t]), (op0\<lparr>uo_start := 1\<rparr>, b), w)"
      using start_read_nothing [OF assms(1), of G "op0\<lparr>uo_start := 1\<rparr>" w] by (elim exE conjE)
    moreover have "op0\<lparr>uo_start := 0\<rparr> = op0" using start by simp
    ultimately have "async_until read_some (until_op_call G search) b w = Some (Inr (n, ec), (op0, sb_commit 0 b), w)"
      by (simp add: async True read_nothing offered_empty until_op_call_def f(1))
    with l show ?thesis using commit_nothing(1) [OF assms(1)] by (auto simp: f(2,3))
  next
    case False
    have "drive read_some (until_op_call G search 0) (start_read G k (op0\<lparr>uo_start := 1\<rparr>) b w)
        = Some (Inr (n, ec), (op', b'), w')"
      using d False start
      by (auto simp: until_round_def look start_read_def until_op_call_def split: prod.splits sum.splits)
    with l show ?thesis by (auto simp: async)
  qed
qed

end

section \<open>Filling a stream buffer\<close>

lemma all_transfers: "transfer_all no_error k = 65536" "transfer_all (misc_error eof) k = 0"
  by (simp_all add: transfer_all_def default_max_transfer_size_def)

context detached_stream
begin

abbreviation fill_stage :: "growth \<Rightarrow> nat \<Rightarrow> nat \<Rightarrow> streambuf \<Rightarrow> 'a os \<Rightarrow> effect \<times> (read_streambuf_op \<times> streambuf) \<times> 'a os" where
  "fill_stage G n sofar b w \<equiv>
     (if n = 0 then (Complete no_error sofar, (\<lparr>rs_start = 0, rs_total = sofar\<rparr>, b), w)
      else start_read G n \<lparr>rs_start = 0, rs_total = sofar\<rparr> b w)"

lemma fill_agrees:
  assumes "sb_ok b" "grows G"
  shows "\<exists>b' w' op'. let k = min (sb_max b - sb_size b) (length (content w));
        res = (Inr (sofar + k, if length (content w) < sb_max b - sb_size b then misc_error eof else no_error))
    in read_streambuf_loop read_some G transfer_all (read_size_helper b 65536) sofar no_error b w = Some (res, b', w')
      \<and> drive read_some (read_streambuf_call G transfer_all 0) (fill_stage G (read_size_helper b 65536) sofar b w) = Some (res, (op', b'), w')
      \<and> sb_ok b' \<and> sb_content b' (memory w') = sb_content b (memory w) @ take k (content w) \<and> content w' = drop k (content w)"
  using assms
proof (induction "length (content w)" arbitrary: b w sofar rule: less_induct)
  case less
  show ?case
  proof (cases "sb_size b = sb_max b")
    case True
    then have "read_size_helper b 65536 = 0" by (simp add: read_size_helper_def)
    with True less.prems(1) show ?thesis by (subst read_streambuf_loop.simps) simp
  next
    case False
    then have small: "sb_size b < sb_max b" using sb_ok_facts(5) [OF less.prems(1)] by simp
    then have k: "read_size_helper b 65536 \<noteq> 0" by (auto simp: read_size_helper_def)
    from one_read [OF less.prems small, of w] obtain t b1 m1 n ec w2 where
      rd: "sb_prepare G (read_size_helper b 65536) b (memory w) = (Inr t, b1, m1)"
        "read_some (consuming [t]) (w\<lparr>memory := m1\<rparr>) = Some ((n, ec), w2)"
      and b2: "sb_ok (sb_commit n b1)" "sb_max (sb_commit n b1) = sb_max b"
        "sb_content (sb_commit n b1) (memory w2) = sb_content b (memory w) @ take n (content w)" "content w2 = drop n (content w)"
      and n: "if content w = [] then n = 0 \<and> ec = misc_error eof else 0 < n \<and> n \<le> length (content w) \<and> ec = no_error"
      by blast
    let ?b = "sb_commit n b1"
    have loop: "read_streambuf_loop read_some G transfer_all (read_size_helper b 65536) sofar no_error b w =
        read_streambuf_loop read_some G transfer_all (read_size_helper ?b (transfer_all ec (sofar + n))) (sofar + n) ec ?b w2"
      using k rd by (subst read_streambuf_loop.simps) (simp add: Let_def)
    have stage: "drive read_some (read_streambuf_call G transfer_all 0) (fill_stage G (read_size_helper b 65536) sofar b w) =
        drive read_some (read_streambuf_call G transfer_all 0)
          (read_streambuf_call G transfer_all 0 ec n ((\<lparr>rs_start = 0, rs_total = sofar\<rparr>, b1), w2))"
      using k rd by (simp add: start_read_def)
    show ?thesis
    proof (cases "content w = []")
      case True
      then have "read_size_helper ?b (transfer_all ec (sofar + n)) = 0" using n by (simp add: all_transfers read_size_helper_def)
      with True n small b2 show ?thesis
        unfolding loop stage by (subst read_streambuf_loop.simps) (simp add: read_streambuf_call_def Let_def all_transfers)
    next
      case more: False
      have size: "sb_size ?b = sb_size b + n" using arg_cong [OF b2(3), of length] more n by simp
      have "read_streambuf_call G transfer_all 0 ec n ((\<lparr>rs_start = 0, rs_total = sofar\<rparr>, b1), w2)
          = fill_stage G (read_size_helper ?b 65536) (sofar + n) ?b w2"
        using more n by (simp add: read_streambuf_call_def Let_def all_transfers)
      moreover have "length (content w2) < length (content w)" using more n b2(4) by auto
      moreover have "sb_size b + n \<le> sb_max b" using sb_ok_facts(5) [OF b2(1)] size b2(2) by simp
      ultimately show ?thesis
        using less.hyps [of w2 ?b "sofar + n"] b2 less.prems(2) more n small unfolding loop stage
        by (auto simp: Let_def size all_transfers min_def take_add [symmetric] add.commute split: if_splits)
    qed
  qed
qed

lemma async_fill_agrees:
  assumes "sb_ok b" "grows G" "res = (Inr (min (sb_max b - sb_size b) (length (content w)),
      if length (content w) < sb_max b - sb_size b then misc_error eof else no_error))"
  shows "\<exists>b' w' op' b2. read_streambuf_ec read_some G b w = Some (res, b', w')
    \<and> async_read_streambuf_all read_some G b w = Some (res, (op', b2), w')
    \<and> sb_content b2 (memory w') = sb_content b' (memory w')
    \<and> sb_content b' (memory w') = sb_content b (memory w) @ take (sb_max b - sb_size b) (content w)
    \<and> content w' = drop (sb_max b - sb_size b) (content w)"
proof -
  let ?k = "read_size_helper b 65536"
  let ?start = "start_read G ?k \<lparr>rs_start = 1, rs_total = 0\<rparr> b w"
  have short: "take (min (sb_max b - sb_size b) (length (content w))) (content w) = take (sb_max b - sb_size b) (content w)"
      "drop (min (sb_max b - sb_size b) (length (content w))) (content w) = drop (sb_max b - sb_size b) (content w)"
    by (simp_all add: min_def)
  from fill_agrees [OF assms(1,2), of w 0, unfolded Let_def add_0 short, folded assms(3)] obtain b' w' op' where
    l: "read_streambuf_loop read_some G transfer_all ?k 0 no_error b w = Some (res, b', w')"
    and d: "drive read_some (read_streambuf_call G transfer_all 0) (fill_stage G ?k 0 b w) = Some (res, (op', b'), w')"
    and c: "sb_content b' (memory w') = sb_content b (memory w) @ take (sb_max b - sb_size b) (content w)"
      "content w' = drop (sb_max b - sb_size b) (content w)"
    by blast
  from l have sync: "read_streambuf_ec read_some G b w = Some (res, b', w')"
    by (simp add: read_streambuf_ec_def read_streambuf_def all_transfers)
  have async: "async_read_streambuf_all read_some G b w = drive read_some (read_streambuf_call G transfer_all 0) ?start"
    by (simp add: async_read_streambuf_all_def async_read_streambuf_def read_streambuf_call_def all_transfers)
  show ?thesis
  proof (cases "?k = 0")
    case True
    from start_read_nothing [OF assms(1), of G "\<lparr>rs_start = 1, rs_total = 0\<rparr>" w] obtain t where
      t: "buf_size t = 0" "start_read G 0 \<lparr>rs_start = 1, rs_total = 0\<rparr> b w = (Await (consuming [t]), (\<lparr>rs_start = 1, rs_total = 0\<rparr>, b), w)"
      by (elim exE conjE)
    have "res = Inr (0, no_error)" "b' = b" "w' = w" using d True by simp_all
    moreover have "async_read_streambuf_all read_some G b w = Some (Inr (0, no_error), (\<lparr>rs_start = 0, rs_total = 0\<rparr>, sb_commit 0 b), w)"
      by (simp add: async True t(2) read_nothing offered_empty [OF t(1)] read_streambuf_call_def Let_def)
    ultimately show ?thesis using sync c commit_nothing(2) [OF assms(1)] by auto
  next
    case False
    obtain res0 b0 m0 where p: "sb_prepare G ?k b (memory w) = (res0, b0, m0)" by (metis surj_pair)
    have "sb_size b + ?k \<le> sb_max b" using sb_ok_facts(5) [OF assms(1)] by (auto simp: read_size_helper_def)
    with prepare_works [OF p assms(1,2)] obtain t where "sb_prepare G ?k b (memory w) = (Inr t, b0, m0)" using p by auto
    then have "drive read_some (read_streambuf_call G transfer_all 0) ?start
        = drive read_some (read_streambuf_call G transfer_all 0) (start_read G ?k \<lparr>rs_start = 0, rs_total = 0\<rparr> b w)"
      by (simp add: start_read_def read_streambuf_call_def)
    with d False sync c async show ?thesis by auto
  qed
qed

end

text \<open>The delimiter is inside what was searched.\<close>

lemma first_end_inside: "first_end delim data n \<Longrightarrow> n \<le> length data"
  by (auto simp: first_end_def)

lemma content_egptr: "b2 = b \<or> b2 = b\<lparr>sb_egptr := e\<rparr> \<Longrightarrow> sb_content b2 m = sb_content b m"
  by (auto simp: sb_content_def sb_data_def)

section \<open>Properties\<close>

text \<open>
  C17. The asynchronous \<open>read_until\<close> with a string calls its handler with what the synchronous one
  returns, over any system that delivers a stream in pieces, and both leave the same bytes in the stream
  buffer and in the stream.
\<close>

theorem async_read_until_agrees:
  assumes "stream_kernel K impl content ready" "grows G" "sb_ok b" "delim \<noteq> []"
    and "sb_size b + length (content (outside w)) < size_max"
  shows "\<exists>n ec b' w' op' b2. read_until_string (service_receive K impl 0) G b delim w = Some (Inr (n, ec), b', w')
    \<and> async_read_until_string (service_receive K impl 0) G b delim w = Some (Inr (n, ec), (op', b2), w')
    \<and> sb_content b2 (memory w') = sb_content b' (memory w')"
proof -
  obtain x xs where d: "delim = x # xs" using assms(4) by (cases delim) auto
  have r: "reading_until (find_string delim) (first_end delim) (none_before delim) (service_receive K impl 0) (\<lambda>w. content (outside w))"
    unfolding d by (intro reading_until.intro string_search.incremental_search_axioms stream_kernel.service_detached [OF assms(1)])
  from reading_until.async_until_agrees [OF r assms(3,2) first_end_inside assms(5)] show ?thesis
    unfolding read_until_string_def async_read_until_string_def until_string_call_def by (metis content_egptr)
qed

theorem async_read_until_agrees_witness:
  "\<exists>n ec b' w' op' b2. read_until_string (service_receive (pipe_kernel 2) stream_socket 0) next_storage
        (fst (new_streambuf next_storage 100 (\<lambda>a. 0))) [13, 10] (six_bytes\<lparr>memory := snd (new_streambuf next_storage 100 (\<lambda>a. 0))\<rparr>) = Some (Inr (n, ec), b', w')
    \<and> async_read_until_string (service_receive (pipe_kernel 2) stream_socket 0) next_storage
        (fst (new_streambuf next_storage 100 (\<lambda>a. 0))) [13, 10] (six_bytes\<lparr>memory := snd (new_streambuf next_storage 100 (\<lambda>a. 0))\<rparr>) = Some (Inr (n, ec), (op', b2), w')"
proof -
  obtain b m where n: "new_streambuf next_storage 100 (\<lambda>a. 0) = (b, m)" by (metis surj_pair)
  have G: "grows next_storage" by (simp add: grows_def next_storage_def)
  have b: "sb_ok b" "sb_max b = 100" using new_streambuf_works [OF n G] by simp_all
  have "sb_size b + length (pipe_bytes (outside (six_bytes\<lparr>memory := m\<rparr>))) < size_max"
    using sb_ok_facts(5) [OF b(1)] b(2) by (simp add: six_bytes_def size_max_def)
  from async_read_until_agrees [OF pipe.stream_kernel_axioms [of 2] G b(1) _ this, of "[13, 10]"] show ?thesis
    unfolding n fst_conv snd_conv by blast
qed

text \<open>
  \<open>read\<close> and \<open>async_read\<close> into a stream buffer take as many bytes of the stream as the limit of the
  buffer leaves room for, or all, and then report its end; they append them in order and agree.
\<close>

lemma streambuf_read_fills:
  assumes "stream_kernel K impl content ready" "grows G" "sb_ok b"
    and "res = (Inr (min (sb_max b - sb_size b) (length (content (outside w))),
      if length (content (outside w)) < sb_max b - sb_size b then misc_error eof else no_error))"
  shows "\<exists>b' w' op' b2. read_streambuf_ec (service_receive K impl 0) G b w = Some (res, b', w')
    \<and> async_read_streambuf_all (service_receive K impl 0) G b w = Some (res, (op', b2), w')
    \<and> sb_content b2 (memory w') = sb_content b' (memory w')
    \<and> sb_content b' (memory w') = sb_content b (memory w) @ take (sb_max b - sb_size b) (content (outside w))
    \<and> content (outside w') = drop (sb_max b - sb_size b) (content (outside w))"
  using detached_stream.async_fill_agrees [OF stream_kernel.service_detached [OF assms(1)] assms(3,2,4)] .

lemma streambuf_read_fills_witness:
  "\<exists>b' w'. read_streambuf_ec (service_receive (pipe_kernel 2) stream_socket 0) next_storage
      (fst (new_streambuf next_storage 4 (\<lambda>a. 0))) (six_bytes\<lparr>memory := snd (new_streambuf next_storage 4 (\<lambda>a. 0))\<rparr>) = Some (Inr (4, no_error), b', w')
    \<and> sb_content b' (memory w') = [1, 2, 3, 4] \<and> pipe_bytes (outside w') = [5, 6]"
proof -
  obtain b m where n: "new_streambuf next_storage 4 (\<lambda>a. 0) = (b, m)" by (metis surj_pair)
  have G: "grows next_storage" by (simp add: grows_def next_storage_def)
  have b: "sb_ok b" "sb_content b m = []" "sb_max b = 4" using new_streambuf_works [OF n G] by simp_all
  then have "sb_size b = 0" by (metis length_content list.size(3))
  with streambuf_read_fills [OF pipe.stream_kernel_axioms [of 2] G b(1) refl, of "six_bytes\<lparr>memory := m\<rparr>"] b show ?thesis
    unfolding n fst_conv snd_conv by (auto simp: six_bytes_def)
qed

end
