(* ===== verification/Task_Scheduler.thy ===== *)
theory Task_Scheduler
  imports Chord_Prelude
begin

text \<open>
  The scheduler of the bundled asio library: \<open>task_io_service\<close> (\<open>detail/task_io_service.hpp\<close>,
  \<open>detail/impl/task_io_service.ipp\<close>), the event its threads sleep on (\<open>detail/posix_event.hpp\<close>) and the
  context a thread has while it runs handlers (\<open>detail/task_io_service_thread_info.hpp\<close>).

  Any number of threads call the service. What one thread does while it holds the mutex, or in one
  operation on the atomic counter, is one step; between two steps any other thread may take one. A
  call made of several steps leaves the later ones in the thread's \<open>todo\<close>. Where the source runs two
  sections under one lock the model lets another thread in between them, which only adds executions. In
  one place it has fewer: \<open>posix_event\<close> releases the mutex before it signals a waiting thread, and here the
  signal is part of the section, so that no other thread takes a step between the two.
  Queues of operations are lists, which \<open>Op_Queue\<close> justifies; an operation is a pointer, and a call of
  \<open>run\<close> from within a handler is left out.
\<close>

section \<open>Data\<close>

text \<open>The pointers in the queue: the member \<open>task_operation_\<close>, the state of a descriptor, another operation.\<close>

datatype oper = Task_Operation | Descriptor nat | Handler nat

record task_io_service =
  one_thread :: bool
  wakeup_event :: nat
  has_task :: bool
  task_interrupted :: bool
  outstanding_work :: int
  ready_ops :: "oper list"
  is_stopped :: bool
  is_shutdown :: bool

text \<open>The four functions that run handlers.\<close>

datatype caller = Run | Run_One | Poll | Poll_One

text \<open>
  Where a thread is. \<open>In_Task\<close>: in the reactor, which may block. \<open>In_Op\<close>: executing an operation; the
  flag says whether the unit of work that the end of the operation will take back has been counted,
  which is not so at the start of a descriptor's operation. The flag of \<open>Op_Done\<close> and \<open>Op_Counted\<close> says
  that the operation threw.
\<close>

datatype place =
    Outside
  | At_Loop caller
  | Blocked caller
  | Signalled caller
  | In_Task caller bool
  | Task_Done caller
  | Task_Counted caller
  | At_Poll caller
  | After_Task caller
  | In_Op caller oper bool
  | Op_Done caller bool
  | Op_Counted caller bool

text \<open>
  The steps of a call. The flag of \<open>Start_Work\<close> tells work that stays with the caller (a \<open>work\<close> object,
  an operation the reactor keeps) from that of an operation which is about to be queued.
\<close>

datatype act = Start_Work bool | Finish_Work | Push "oper list" | Stop_All | Reset | Init_Task

record thread =
  place :: place
  todo :: "act list"
  private_op_queue :: "oper list"
  private_outstanding_work :: int

text \<open>
  The whole: the service, whether the reactor's interrupter is ready to be read, the threads, and how
  many units of work are kept outside the scheduler.
\<close>

record system =
  svc :: task_io_service
  interrupter :: bool
  threads :: "thread list"
  held :: nat

definition on_svc :: "(task_io_service \<Rightarrow> task_io_service) \<Rightarrow> system \<Rightarrow> system" where
  "on_svc f s = s\<lparr>svc := f (svc s)\<rparr>"

definition on_thread :: "nat \<Rightarrow> (thread \<Rightarrow> thread) \<Rightarrow> system \<Rightarrow> system" where
  "on_thread i f s = s\<lparr>threads := (threads s)[i := f (threads s ! i)]\<rparr>"

definition new_thread :: thread where
  "new_thread = \<lparr>place = Outside, todo = [], private_op_queue = [], private_outstanding_work = 0\<rparr>"

definition new_service :: "nat \<Rightarrow> task_io_service" where
  "new_service concurrency_hint = \<lparr>one_thread = (concurrency_hint = 1), wakeup_event = 0, has_task = False,
     task_interrupted = True, outstanding_work = 0, ready_ops = [], is_stopped = False, is_shutdown = False\<rparr>"

section \<open>The event\<close>

text \<open>The state is twice the number of waiting threads, plus one when the event is signalled.\<close>

definition event_set :: "nat \<Rightarrow> nat" where "event_set n = (if even n then n + 1 else n)"
definition event_unset :: "nat \<Rightarrow> nat" where "event_unset n = (if even n then n else n - 1)"

text \<open>
  \<open>pthread_cond_signal\<close> wakes a waiting thread if there is one; which one, \<open>w\<close>, is not determined. A
  thread that has been woken still counts as waiting until it has the mutex again.
\<close>

definition wake_waiter :: "nat \<Rightarrow> thread list \<Rightarrow> thread list" where
  "wake_waiter w ts =
     (if w < length ts then
        case place (ts ! w) of Blocked c \<Rightarrow> ts[w := (ts ! w)\<lparr>place := Signalled c\<rparr>] | _ \<Rightarrow> ts
      else ts)"

definition wake_all :: "thread list \<Rightarrow> thread list" where
  "wake_all = map (\<lambda>t. case place t of Blocked c \<Rightarrow> t\<lparr>place := Signalled c\<rparr> | _ \<Rightarrow> t)"

definition event_signal_all :: "system \<Rightarrow> system" where
  "event_signal_all s = (on_svc (wakeup_event_update event_set) s)\<lparr>threads := wake_all (threads s)\<rparr>"

definition unlock_and_signal_one :: "nat \<Rightarrow> system \<Rightarrow> system" where
  "unlock_and_signal_one w s =
     (let s1 = on_svc (wakeup_event_update event_set) s
      in if wakeup_event (svc s1) > 1 then s1\<lparr>threads := wake_waiter w (threads s1)\<rparr> else s1)"

definition maybe_unlock_and_signal_one :: "nat \<Rightarrow> system \<Rightarrow> bool \<times> system" where
  "maybe_unlock_and_signal_one w s =
     (let s1 = on_svc (wakeup_event_update event_set) s
      in if wakeup_event (svc s1) > 1 then (True, s1\<lparr>threads := wake_waiter w (threads s1)\<rparr>)
         else (False, s1))"

definition event_clear :: "system \<Rightarrow> system" where
  "event_clear s = on_svc (wakeup_event_update event_unset) s"

text \<open>The part of \<open>wait\<close> up to \<open>pthread_cond_wait\<close>, and what a thread does when that returns.\<close>

definition event_wait :: "caller \<Rightarrow> nat \<Rightarrow> system \<Rightarrow> system" where
  "event_wait c i s =
     (if even (wakeup_event (svc s))
      then on_thread i (place_update (\<lambda>_. Blocked c)) (on_svc (wakeup_event_update (\<lambda>n. n + 2)) s)
      else on_thread i (place_update (\<lambda>_. At_Loop c)) s)"

definition event_woken :: "caller \<Rightarrow> nat \<Rightarrow> system \<Rightarrow> system" where
  "event_woken c i s = event_wait c i (on_svc (wakeup_event_update (\<lambda>n. n - 2)) s)"

section \<open>Waking threads\<close>

definition interrupt_task :: "system \<Rightarrow> system" where
  "interrupt_task s =
     (if \<not> task_interrupted (svc s) \<and> has_task (svc s)
      then (on_svc (task_interrupted_update (\<lambda>_. True)) s)\<lparr>interrupter := True\<rparr>
      else s)"

definition wake_one_thread_and_unlock :: "nat \<Rightarrow> system \<Rightarrow> system" where
  "wake_one_thread_and_unlock w s =
     (case maybe_unlock_and_signal_one w s of
        (True, s1) \<Rightarrow> s1
      | (False, s1) \<Rightarrow> interrupt_task s1)"

definition stop_all_threads :: "system \<Rightarrow> system" where
  "stop_all_threads s = interrupt_task (event_signal_all (on_svc (is_stopped_update (\<lambda>_. True)) s))"

section \<open>Calls\<close>

definition push_ops :: "oper list \<Rightarrow> system \<Rightarrow> system" where
  "push_ops os = on_svc (ready_ops_update (\<lambda>q. q @ os))"

definition work_started :: "system \<Rightarrow> system" where
  "work_started = on_svc (outstanding_work_update (\<lambda>n. n + 1))"

definition work_finished :: "nat \<Rightarrow> system \<Rightarrow> system" where
  "work_finished i s =
     (let s1 = on_svc (outstanding_work_update (\<lambda>n. n - 1)) s
      in if outstanding_work (svc s1) = 0 then on_thread i (todo_update (\<lambda>as. Stop_All # as)) s1 else s1)"

definition init_task :: "nat \<Rightarrow> system \<Rightarrow> system" where
  "init_task w s =
     (if \<not> is_shutdown (svc s) \<and> \<not> has_task (svc s)
      then wake_one_thread_and_unlock w (push_ops [Task_Operation] (on_svc (has_task_update (\<lambda>_. True)) s))
      else s)"

fun do_act :: "nat \<Rightarrow> nat \<Rightarrow> act \<Rightarrow> system \<Rightarrow> system" where
  "do_act w i (Start_Work kept) s = (work_started s)\<lparr>held := held s + (if kept then 1 else 0)\<rparr>"
| "do_act w i Finish_Work s = work_finished i s"
| "do_act w i (Push os) s = wake_one_thread_and_unlock w (push_ops os s)"
| "do_act w i Stop_All s = stop_all_threads s"
| "do_act w i Reset s = on_svc (is_stopped_update (\<lambda>_. False)) s"
| "do_act w i Init_Task s = init_task w s"

text \<open>Whether the thread is inside a call of the service that executes handlers.\<close>

definition call_stack_contains :: "thread \<Rightarrow> bool" where
  "call_stack_contains t = (case place t of In_Op _ _ _ \<Rightarrow> True | _ \<Rightarrow> False)"

definition post_immediate_completion :: "nat \<Rightarrow> oper \<Rightarrow> bool \<Rightarrow> system \<Rightarrow> system" where
  "post_immediate_completion i x is_continuation s =
     (if (one_thread (svc s) \<or> is_continuation) \<and> call_stack_contains (threads s ! i)
      then on_thread i (\<lambda>t. t\<lparr>private_outstanding_work := private_outstanding_work t + 1,
             private_op_queue := private_op_queue t @ [x]\<rparr>) s
      else on_thread i (todo_update (\<lambda>as. as @ [Start_Work False, Push [x]])) s)"

definition post_deferred_completions :: "nat \<Rightarrow> oper list \<Rightarrow> system \<Rightarrow> system" where
  "post_deferred_completions i os s =
     (if os = [] then s
      else if one_thread (svc s) \<and> call_stack_contains (threads s ! i)
      then on_thread i (private_op_queue_update (\<lambda>q. q @ os)) s
      else on_thread i (todo_update (\<lambda>as. as @ [Push os])) s)"

definition post_deferred_completion :: "nat \<Rightarrow> oper \<Rightarrow> system \<Rightarrow> system" where
  "post_deferred_completion i x s =
     (if one_thread (svc s) \<and> call_stack_contains (threads s ! i)
      then on_thread i (private_op_queue_update (\<lambda>q. q @ [x])) s
      else on_thread i (todo_update (\<lambda>as. as @ [Push [x]])) s)"

definition do_dispatch :: "nat \<Rightarrow> oper \<Rightarrow> system \<Rightarrow> system" where
  "do_dispatch i x = on_thread i (todo_update (\<lambda>as. as @ [Start_Work False, Push [x]]))"

section \<open>Executing operations\<close>

text \<open>\<open>task_cleanup\<close> and \<open>work_cleanup\<close>: first the counter, then, under the mutex, the queue.\<close>

definition task_cleanup_count :: "nat \<Rightarrow> caller \<Rightarrow> system \<Rightarrow> system" where
  "task_cleanup_count i c s =
     (let n = private_outstanding_work (threads s ! i);
          s1 = (if n > 0 then on_svc (outstanding_work_update (\<lambda>k. k + n)) s else s)
      in on_thread i (\<lambda>t. t\<lparr>private_outstanding_work := 0, place := Task_Counted c\<rparr>) s1)"

definition task_cleanup_queue :: "nat \<Rightarrow> caller \<Rightarrow> system \<Rightarrow> system" where
  "task_cleanup_queue i c s =
     on_thread i (\<lambda>t. t\<lparr>private_op_queue := [],
         place := (if c = Run \<or> c = Run_One then At_Loop c else After_Task c)\<rparr>)
       (push_ops (private_op_queue (threads s ! i) @ [Task_Operation])
         (on_svc (task_interrupted_update (\<lambda>_. True)) s))"

definition work_cleanup_count :: "nat \<Rightarrow> caller \<Rightarrow> bool \<Rightarrow> system \<Rightarrow> system" where
  "work_cleanup_count i c thrown s =
     (let n = private_outstanding_work (threads s ! i);
          s1 = (if n > 1 then on_svc (outstanding_work_update (\<lambda>k. k + (n - 1))) s
                else if n < 1 then work_finished i s else s)
      in on_thread i (\<lambda>t. t\<lparr>private_outstanding_work := 0, place := Op_Counted c thrown\<rparr>) s1)"

text \<open>The loops of \<open>run\<close> and \<open>poll\<close> go on after an operation, unless it threw.\<close>

definition after_op :: "caller \<Rightarrow> bool \<Rightarrow> place" where
  "after_op c thrown =
     (if thrown then Outside
      else case c of Run \<Rightarrow> At_Loop Run | Poll \<Rightarrow> At_Poll Poll | _ \<Rightarrow> Outside)"

definition work_cleanup_queue :: "nat \<Rightarrow> caller \<Rightarrow> bool \<Rightarrow> system \<Rightarrow> system" where
  "work_cleanup_queue i c thrown s =
     on_thread i (\<lambda>t. t\<lparr>private_op_queue := [], place := after_op c thrown\<rparr>)
       (push_ops (private_op_queue (threads s ! i)) s)"

text \<open>An operation has been taken from the queue.\<close>

definition start_operation :: "nat \<Rightarrow> nat \<Rightarrow> caller \<Rightarrow> oper \<Rightarrow> bool \<Rightarrow> system \<Rightarrow> system" where
  "start_operation w i c x more_handlers s =
     (let s1 = on_thread i (place_update (\<lambda>_. In_Op c x (case x of Handler n \<Rightarrow> True | _ \<Rightarrow> False))) s
      in if more_handlers \<and> \<not> one_thread (svc s1) then wake_one_thread_and_unlock w s1 else s1)"

text \<open>One turn of the loop of \<open>do_run_one\<close>.\<close>

definition do_run_one :: "nat \<Rightarrow> nat \<Rightarrow> caller \<Rightarrow> system \<Rightarrow> system" where
  "do_run_one w i c s =
     (if is_stopped (svc s) then on_thread i (place_update (\<lambda>_. Outside)) s
      else case ready_ops (svc s) of
        x # q \<Rightarrow>
          let s1 = on_svc (ready_ops_update (\<lambda>_. q)) s;
              more_handlers = (q \<noteq> [])
          in if x = Task_Operation then
               let s2 = on_thread i (place_update (\<lambda>_. In_Task c (\<not> more_handlers)))
                          (on_svc (task_interrupted_update (\<lambda>_. more_handlers)) s1)
               in if more_handlers \<and> \<not> one_thread (svc s2) then unlock_and_signal_one w s2 else s2
             else start_operation w i c x more_handlers s1
      | [] \<Rightarrow> event_wait c i (event_clear s))"

text \<open>\<open>do_poll_one\<close> up to the call of the task, and from there on.\<close>

definition poll_operation :: "nat \<Rightarrow> nat \<Rightarrow> caller \<Rightarrow> system \<Rightarrow> system" where
  "poll_operation w i c s =
     (case ready_ops (svc s) of
        [] \<Rightarrow> on_thread i (place_update (\<lambda>_. Outside)) s
      | x # q \<Rightarrow> start_operation w i c x (q \<noteq> []) (on_svc (ready_ops_update (\<lambda>_. q)) s))"

definition do_poll_one :: "nat \<Rightarrow> nat \<Rightarrow> caller \<Rightarrow> system \<Rightarrow> system" where
  "do_poll_one w i c s =
     (if is_stopped (svc s) then on_thread i (place_update (\<lambda>_. Outside)) s
      else case ready_ops (svc s) of
        Task_Operation # q \<Rightarrow>
          on_thread i (place_update (\<lambda>_. In_Task c False)) (on_svc (ready_ops_update (\<lambda>_. q)) s)
      | _ \<Rightarrow> poll_operation w i c s)"

definition do_poll_one_after_task :: "nat \<Rightarrow> nat \<Rightarrow> caller \<Rightarrow> system \<Rightarrow> system" where
  "do_poll_one_after_task w i c s =
     (case ready_ops (svc s) of
        Task_Operation # q \<Rightarrow>
          on_thread i (place_update (\<lambda>_. Outside)) (snd (maybe_unlock_and_signal_one w s))
      | _ \<Rightarrow> poll_operation w i c s)"

text \<open>The start of \<open>run\<close>, \<open>run_one\<close>, \<open>poll\<close> and \<open>poll_one\<close>.\<close>

definition enter :: "nat \<Rightarrow> caller \<Rightarrow> system \<Rightarrow> system" where
  "enter i c s =
     (if outstanding_work (svc s) = 0 then on_thread i (todo_update (\<lambda>as. as @ [Stop_All])) s
      else on_thread i (\<lambda>t. t\<lparr>private_op_queue := [], private_outstanding_work := 0,
             place := (if c = Run \<or> c = Run_One then At_Loop c else At_Poll c)\<rparr>) s)"

text \<open>\<open>shutdown_service\<close>: the operations that are destroyed, in order.\<close>

definition shutdown_service :: "task_io_service \<Rightarrow> oper list \<times> task_io_service" where
  "shutdown_service v =
     (filter (\<lambda>x. x \<noteq> Task_Operation) (ready_ops v),
      v\<lparr>is_shutdown := True, ready_ops := [], has_task := False\<rparr>)"

end
