(* ===== verification/Scheduler_Steps.thy ===== *)
theory Scheduler_Steps
  imports Task_Scheduler
begin

text \<open>
  The executions of the scheduler: a step relation for any number of threads that run handlers, post
  them, stop and restart the service, while one of them at a time is in the reactor, and the reachable
  states. The handlers and the reactor are the environment: they call what they like, as long as an
  operation they hand over is not in a queue already and, where the source assumes that its work has
  been counted, they give up a unit of work they kept.
\<close>

section \<open>Steps\<close>

fun is_handler :: "oper \<Rightarrow> bool" where
  "is_handler (Handler n) = True"
| "is_handler x = False"

fun is_descriptor :: "oper \<Rightarrow> bool" where
  "is_descriptor (Descriptor d) = True"
| "is_descriptor x = False"

definition blocked :: "thread \<Rightarrow> bool" where
  "blocked t \<longleftrightarrow> (case place t of Blocked c \<Rightarrow> True | _ \<Rightarrow> False)"

text \<open>If a thread is blocked, a signal wakes one.\<close>

definition waiter_ok :: "nat \<Rightarrow> system \<Rightarrow> bool" where
  "waiter_ok w s \<longleftrightarrow> (\<forall>t \<in> set (threads s). \<not> blocked t) \<or> w < length (threads s) \<and> blocked (threads s ! w)"

definition thread_at :: "nat \<Rightarrow> place \<Rightarrow> system \<Rightarrow> bool" where
  "thread_at i p s \<longleftrightarrow> i < length (threads s) \<and> todo (threads s ! i) = [] \<and> place (threads s ! i) = p"

text \<open>Calls come from outside and from the handlers.\<close>

definition caller_at :: "nat \<Rightarrow> system \<Rightarrow> bool" where
  "caller_at i s \<longleftrightarrow> i < length (threads s) \<and> todo (threads s ! i) = []
     \<and> (case place (threads s ! i) of Outside \<Rightarrow> True | In_Op c x b \<Rightarrow> b | _ \<Rightarrow> False)"

fun pushes :: "act \<Rightarrow> oper list" where
  "pushes (Push os) = os"
| "pushes a = []"

text \<open>The operations on their way to be executed: in the queue, in a thread's own queue, about to be pushed.\<close>

definition owned :: "thread \<Rightarrow> oper list" where
  "owned t = private_op_queue t @ concat (map pushes (todo t))"

definition queued :: "system \<Rightarrow> oper list" where
  "queued s = ready_ops (svc s) @ concat (map owned (threads s))"

definition fresh_handlers :: "oper list \<Rightarrow> system \<Rightarrow> bool" where
  "fresh_handlers os s \<longleftrightarrow> distinct os \<and> list_all is_handler os \<and> set os \<inter> set (queued s) = {}"

text \<open>
  The reactor ran: it put operations into the thread's own queue, those that are not descriptors out of
  the work it kept, and may have read the interrupter.
\<close>

definition task_ran :: "nat \<Rightarrow> caller \<Rightarrow> oper list \<Rightarrow> bool \<Rightarrow> system \<Rightarrow> system" where
  "task_ran i c os consumed s =
     on_thread i (\<lambda>t. t\<lparr>private_op_queue := private_op_queue t @ os, place := Task_Done c\<rparr>)
       (s\<lparr>held := held s - length (filter is_handler os), interrupter := interrupter s \<and> \<not> consumed\<rparr>)"

text \<open>
  What the scheduler sees of \<open>descriptor_state::do_complete\<close>: no operation is complete, and the unit
  of work that the end of the operation takes back is added; or the first is executed and the others
  are posted.
\<close>

definition perform_none :: "nat \<Rightarrow> caller \<Rightarrow> oper \<Rightarrow> system \<Rightarrow> system" where
  "perform_none i c x =
     on_thread i (\<lambda>t. t\<lparr>place := In_Op c x True, todo := todo t @ [Start_Work False]\<rparr>)"

definition perform_some :: "nat \<Rightarrow> caller \<Rightarrow> oper list \<Rightarrow> system \<Rightarrow> system" where
  "perform_some i c os s =
     post_deferred_completions i (tl os)
       (on_thread i (place_update (\<lambda>_. In_Op c (hd os) True)) (s\<lparr>held := held s - length os\<rparr>))"

definition call_act :: "nat \<Rightarrow> act \<Rightarrow> system \<Rightarrow> system" where
  "call_act i a = on_thread i (todo_update (\<lambda>as. as @ [a]))"

text \<open>
  One step. With \<open>quiet\<close>, no thread leaves the service while its own queue holds operations, as one
  that called \<open>run_one\<close> or \<open>poll_one\<close>, or whose handler throws, may do.
\<close>

inductive step :: "bool \<Rightarrow> system \<Rightarrow> system \<Rightarrow> bool" for quiet where
  act: "i < length (threads s) \<Longrightarrow> todo (threads s ! i) = a # as \<Longrightarrow> waiter_ok w s
    \<Longrightarrow> step quiet s (do_act w i a (on_thread i (todo_update (\<lambda>_. as)) s))"
| enter: "thread_at i Outside s \<Longrightarrow> step quiet s (enter i c s)"
| loop: "thread_at i (At_Loop c) s \<Longrightarrow> waiter_ok w s \<Longrightarrow> step quiet s (do_run_one w i c s)"
| poll: "thread_at i (At_Poll c) s \<Longrightarrow> waiter_ok w s \<Longrightarrow> step quiet s (do_poll_one w i c s)"
| poll_after: "thread_at i (After_Task c) s \<Longrightarrow> waiter_ok w s \<Longrightarrow> step quiet s (do_poll_one_after_task w i c s)"
| spurious: "thread_at i (Blocked c) s \<Longrightarrow> step quiet s (on_thread i (place_update (\<lambda>_. Signalled c)) s)"
| woken: "thread_at i (Signalled c) s \<Longrightarrow> step quiet s (event_woken c i s)"
| task: "thread_at i (In_Task c b) s \<Longrightarrow> Task_Operation \<notin> set os \<Longrightarrow> distinct (filter is_descriptor os)
    \<Longrightarrow> fresh_handlers (filter is_handler os) s \<Longrightarrow> length (filter is_handler os) \<le> held s
    \<Longrightarrow> step quiet s (task_ran i c os consumed s)"
| task_count: "thread_at i (Task_Done c) s \<Longrightarrow> step quiet s (task_cleanup_count i c s)"
| task_queue: "thread_at i (Task_Counted c) s \<Longrightarrow> step quiet s (task_cleanup_queue i c s)"
| perform_none: "thread_at i (In_Op c (Descriptor d) False) s \<Longrightarrow> step quiet s (perform_none i c (Descriptor d) s)"
| perform_some: "thread_at i (In_Op c (Descriptor d) False) s \<Longrightarrow> os \<noteq> [] \<Longrightarrow> fresh_handlers os s
    \<Longrightarrow> length os \<le> held s \<Longrightarrow> step quiet s (perform_some i c os s)"
| finish: "thread_at i (In_Op c x True) s \<Longrightarrow> step quiet s (on_thread i (place_update (\<lambda>_. Op_Done c thrown)) s)"
| work_count: "thread_at i (Op_Done c thrown) s \<Longrightarrow> step quiet s (work_cleanup_count i c thrown s)"
| work_queue: "thread_at i (Op_Counted c thrown) s
    \<Longrightarrow> quiet \<longrightarrow> after_op c thrown \<noteq> Outside \<or> private_op_queue (threads s ! i) = []
    \<Longrightarrow> step quiet s (work_cleanup_queue i c thrown s)"
| post: "caller_at i s \<Longrightarrow> fresh_handlers [x] s \<Longrightarrow> step quiet s (post_immediate_completion i x is_continuation s)"
| dispatch: "caller_at i s \<Longrightarrow> \<not> call_stack_contains (threads s ! i) \<Longrightarrow> fresh_handlers [x] s
    \<Longrightarrow> step quiet s (do_dispatch i x s)"
| post_deferred: "caller_at i s \<Longrightarrow> fresh_handlers os s \<Longrightarrow> length os \<le> held s
    \<Longrightarrow> step quiet s (post_deferred_completions i os (s\<lparr>held := held s - length os\<rparr>))"
| keep_work: "caller_at i s \<Longrightarrow> step quiet s (call_act i (Start_Work True) s)"
| drop_work: "caller_at i s \<Longrightarrow> 0 < held s \<Longrightarrow> step quiet s (call_act i Finish_Work (s\<lparr>held := held s - 1\<rparr>))"
| control: "caller_at i s \<Longrightarrow> a \<in> {Stop_All, Reset, Init_Task} \<Longrightarrow> step quiet s (call_act i a s)"

definition new_system :: "nat \<Rightarrow> nat \<Rightarrow> system" where
  "new_system n concurrency_hint = \<lparr>svc = new_service concurrency_hint, interrupter = False,
     threads = replicate n new_thread, held = 0\<rparr>"

inductive reachable :: "bool \<Rightarrow> system \<Rightarrow> bool" for quiet where
  start: "reachable quiet (new_system n concurrency_hint)"
| step: "reachable quiet s \<Longrightarrow> step quiet s s1 \<Longrightarrow> reachable quiet s1"

section \<open>Playing an execution\<close>

text \<open>An execution can be given by what the environment does and which thread goes on; guards are checked.\<close>

datatype move =
    Goes nat nat
  | Enters nat caller
  | Ran nat "oper list" bool
  | Performed nat "oper list"
  | Finished nat bool
  | Posted nat oper bool
  | Called nat act

definition goes :: "bool \<Rightarrow> nat \<Rightarrow> nat \<Rightarrow> system \<Rightarrow> system option" where
  "goes quiet i w s =
     (if \<not> (i < length (threads s) \<and> waiter_ok w s) then None
      else case todo (threads s ! i) of
        a # as \<Rightarrow> Some (do_act w i a (on_thread i (todo_update (\<lambda>_. as)) s))
      | [] \<Rightarrow>
          case place (threads s ! i) of
            At_Loop c \<Rightarrow> Some (do_run_one w i c s)
          | At_Poll c \<Rightarrow> Some (do_poll_one w i c s)
          | After_Task c \<Rightarrow> Some (do_poll_one_after_task w i c s)
          | Signalled c \<Rightarrow> Some (event_woken c i s)
          | Task_Done c \<Rightarrow> Some (task_cleanup_count i c s)
          | Task_Counted c \<Rightarrow> Some (task_cleanup_queue i c s)
          | Op_Done c thrown \<Rightarrow> Some (work_cleanup_count i c thrown s)
          | Op_Counted c thrown \<Rightarrow>
              if quiet \<and> after_op c thrown = Outside \<and> private_op_queue (threads s ! i) \<noteq> [] then None
              else Some (work_cleanup_queue i c thrown s)
          | _ \<Rightarrow> None)"

fun make_move :: "bool \<Rightarrow> move \<Rightarrow> system \<Rightarrow> system option" where
  "make_move quiet (Goes i w) s = goes quiet i w s"
| "make_move quiet (Enters i c) s = (if thread_at i Outside s then Some (enter i c s) else None)"
| "make_move quiet (Ran i os consumed) s =
     (case place (threads s ! i) of
        In_Task c b \<Rightarrow>
          if thread_at i (In_Task c b) s \<and> Task_Operation \<notin> set os \<and> distinct (filter is_descriptor os)
             \<and> fresh_handlers (filter is_handler os) s \<and> length (filter is_handler os) \<le> held s
          then Some (task_ran i c os consumed s) else None
      | _ \<Rightarrow> None)"
| "make_move quiet (Performed i os) s =
     (case place (threads s ! i) of
        In_Op c (Descriptor d) False \<Rightarrow>
          if \<not> thread_at i (In_Op c (Descriptor d) False) s then None
          else if os = [] then Some (perform_none i c (Descriptor d) s)
          else if fresh_handlers os s \<and> length os \<le> held s then Some (perform_some i c os s) else None
      | _ \<Rightarrow> None)"
| "make_move quiet (Finished i thrown) s =
     (case place (threads s ! i) of
        In_Op c x True \<Rightarrow>
          if thread_at i (In_Op c x True) s then Some (on_thread i (place_update (\<lambda>_. Op_Done c thrown)) s) else None
      | _ \<Rightarrow> None)"
| "make_move quiet (Posted i x cont) s =
     (if caller_at i s \<and> fresh_handlers [x] s then Some (post_immediate_completion i x cont s) else None)"
| "make_move quiet (Called i a) s =
     (if \<not> caller_at i s then None
      else case a of
        Start_Work True \<Rightarrow> Some (call_act i a s)
      | Finish_Work \<Rightarrow> if 0 < held s then Some (call_act i Finish_Work (s\<lparr>held := held s - 1\<rparr>)) else None
      | Stop_All \<Rightarrow> Some (call_act i a s) | Reset \<Rightarrow> Some (call_act i a s) | Init_Task \<Rightarrow> Some (call_act i a s)
      | _ \<Rightarrow> None)"

fun play :: "bool \<Rightarrow> move list \<Rightarrow> system \<Rightarrow> system option" where
  "play quiet [] s = Some s"
| "play quiet (m # ms) s = (case make_move quiet m s of None \<Rightarrow> None | Some s1 \<Rightarrow> play quiet ms s1)"

lemma goes_step: "goes quiet i w s = Some s1 \<Longrightarrow> step quiet s s1"
  unfolding goes_def
  by (auto split: if_splits list.splits place.splits intro: step.intros simp: thread_at_def)

lemma make_move_step: "make_move quiet m s = Some s1 \<Longrightarrow> step quiet s s1"
  by (cases m)
    (auto split: if_splits place.splits oper.splits bool.splits act.splits
      intro: step.intros step.drop_work [simplified] goes_step)

lemma play_reachable: "play quiet ms s = Some s1 \<Longrightarrow> reachable quiet s \<Longrightarrow> reachable quiet s1"
proof (induction ms arbitrary: s)
  case (Cons m ms)
  then obtain s2 where "make_move quiet m s = Some s2" "play quiet ms s2 = Some s1" by (auto split: option.splits)
  with Cons make_move_step reachable.step show ?case by blast
qed simp

section \<open>Sums over the threads\<close>

definition total :: "(thread \<Rightarrow> int) \<Rightarrow> system \<Rightarrow> int" where
  "total f s = (\<Sum>t\<leftarrow>threads s. f t)"

lemma sum_list_upd:
  fixes f :: "'a \<Rightarrow> int"
  assumes "i < length xs"
  shows "(\<Sum>x\<leftarrow>xs[i := y]. f x) = (\<Sum>x\<leftarrow>xs. f x) - f (xs ! i) + f y"
  using assms by (induction xs arbitrary: i) (auto split: nat.splits)

lemma on_thread_simps [simp]:
  "svc (on_thread i f s) = svc s" "interrupter (on_thread i f s) = interrupter s" "held (on_thread i f s) = held s"
  "length (threads (on_thread i f s)) = length (threads s)"
  "j < length (threads s) \<Longrightarrow> threads (on_thread i f s) ! j = (if j = i then f (threads s ! i) else threads s ! j)"
  by (auto simp: on_thread_def nth_list_update)

lemma on_svc_simps [simp]:
  "svc (on_svc f s) = f (svc s)" "interrupter (on_svc f s) = interrupter s" "held (on_svc f s) = held s"
  "threads (on_svc f s) = threads s"
  by (simp_all add: on_svc_def)

lemma total_frame [simp]:
  "total f (on_svc g s) = total f s" "total f (s\<lparr>held := n\<rparr>) = total f s" "total f (s\<lparr>interrupter := b\<rparr>) = total f s"
  by (simp_all add: total_def)

lemma total_on_thread:
  "i < length (threads s) \<Longrightarrow> total f (on_thread i g s) = total f s - f (threads s ! i) + f (g (threads s ! i))"
  by (simp add: total_def on_thread_def sum_list_upd)

lemma total_nonneg: "(\<And>t. t \<in> set (threads s) \<Longrightarrow> 0 \<le> f t) \<Longrightarrow> 0 \<le> total f s"
  unfolding total_def by (rule sum_list_nonneg) auto

lemma total_ge:
  assumes "i < length (threads s)" "\<And>t. t \<in> set (threads s) \<Longrightarrow> 0 \<le> f t"
  shows "f (threads s ! i) \<le> total f s"
proof -
  have "0 \<le> total f (s\<lparr>threads := (threads s)[i := threads s ! i]\<rparr>)" using assms(2) by (intro total_nonneg) simp
  from assms show ?thesis
    using member_le_sum_list [of "f (threads s ! i)" "map f (threads s)"] unfolding total_def
    by auto
qed

section \<open>What waking leaves alone\<close>

text \<open>A property of threads or a count over them that does not tell a blocked thread from a woken one.\<close>

definition rousable :: "(thread \<Rightarrow> 'a) \<Rightarrow> bool" where
  "rousable f \<longleftrightarrow> (\<forall>t c. place t = Blocked c \<longrightarrow> f (t\<lparr>place := Signalled c\<rparr>) = f t)"

definition all_threads :: "(thread \<Rightarrow> bool) \<Rightarrow> system \<Rightarrow> bool" where
  "all_threads P s \<longleftrightarrow> (\<forall>t \<in> set (threads s). P t)"

lemma map_wake_waiter: "rousable f \<Longrightarrow> map f (wake_waiter w ts) = map f ts"
  by (auto simp: wake_waiter_def rousable_def map_update list_update_same_conv split: place.splits)

lemma map_wake_all: "rousable f \<Longrightarrow> map f (wake_all ts) = map f ts"
  by (auto simp: wake_all_def rousable_def split: place.splits)

lemma map_all_cong: "map P ts = map P us \<Longrightarrow> (\<forall>t \<in> set ts. P t) \<longleftrightarrow> (\<forall>t \<in> set us. P t)"
  by (auto dest!: arg_cong [where f = set])

lemma wake_waiter_all: "rousable P \<Longrightarrow> (\<forall>t \<in> set (wake_waiter w ts). P t) \<longleftrightarrow> (\<forall>t \<in> set ts. P t)"
  by (rule map_all_cong [OF map_wake_waiter])

lemma wake_all_all: "rousable P \<Longrightarrow> (\<forall>t \<in> set (wake_all ts). P t) \<longleftrightarrow> (\<forall>t \<in> set ts. P t)"
  by (rule map_all_cong [OF map_wake_all])

lemma length_wake [simp]: "length (wake_waiter w ts) = length ts" "length (wake_all ts) = length ts"
  by (auto simp: wake_waiter_def wake_all_def split: place.splits)

lemmas wake_defs = wake_one_thread_and_unlock_def maybe_unlock_and_signal_one_def interrupt_task_def Let_def

lemma wake_one_frame [simp]:
  "ready_ops (svc (wake_one_thread_and_unlock w s)) = ready_ops (svc s)"
  "has_task (svc (wake_one_thread_and_unlock w s)) = has_task (svc s)"
  "one_thread (svc (wake_one_thread_and_unlock w s)) = one_thread (svc s)"
  "outstanding_work (svc (wake_one_thread_and_unlock w s)) = outstanding_work (svc s)"
  "is_stopped (svc (wake_one_thread_and_unlock w s)) = is_stopped (svc s)"
  "wakeup_event (svc (wake_one_thread_and_unlock w s)) = event_set (wakeup_event (svc s))"
  "held (wake_one_thread_and_unlock w s) = held s"
  "length (threads (wake_one_thread_and_unlock w s)) = length (threads s)"
  by (auto simp: wake_defs)

lemma wake_one_threads:
  "threads (wake_one_thread_and_unlock w s) =
     (if event_set (wakeup_event (svc s)) > 1 then wake_waiter w (threads s) else threads s)"
  by (auto simp: wake_defs)

lemma unlock_frame [simp]:
  "svc (unlock_and_signal_one w s) = svc s\<lparr>wakeup_event := event_set (wakeup_event (svc s))\<rparr>"
  "held (unlock_and_signal_one w s) = held s" "interrupter (unlock_and_signal_one w s) = interrupter s"
  "threads (unlock_and_signal_one w s) =
     (if event_set (wakeup_event (svc s)) > 1 then wake_waiter w (threads s) else threads s)"
  by (simp_all add: unlock_and_signal_one_def Let_def)

lemma maybe_unlock_frame [simp]:
  "svc (snd (maybe_unlock_and_signal_one w s)) = svc s\<lparr>wakeup_event := event_set (wakeup_event (svc s))\<rparr>"
  "held (snd (maybe_unlock_and_signal_one w s)) = held s"
  "interrupter (snd (maybe_unlock_and_signal_one w s)) = interrupter s"
  "threads (snd (maybe_unlock_and_signal_one w s)) =
     (if event_set (wakeup_event (svc s)) > 1 then wake_waiter w (threads s) else threads s)"
  by (simp_all add: maybe_unlock_and_signal_one_def Let_def)

lemma stop_all_frame [simp]:
  "ready_ops (svc (stop_all_threads s)) = ready_ops (svc s)"
  "has_task (svc (stop_all_threads s)) = has_task (svc s)"
  "one_thread (svc (stop_all_threads s)) = one_thread (svc s)"
  "outstanding_work (svc (stop_all_threads s)) = outstanding_work (svc s)"
  "is_stopped (svc (stop_all_threads s))"
  "wakeup_event (svc (stop_all_threads s)) = event_set (wakeup_event (svc s))"
  "held (stop_all_threads s) = held s"
  "threads (stop_all_threads s) = wake_all (threads s)"
  by (auto simp: stop_all_threads_def interrupt_task_def event_signal_all_def)

lemma push_ops_simps [simp]:
  "svc (push_ops os s) = svc s\<lparr>ready_ops := ready_ops (svc s) @ os\<rparr>" "held (push_ops os s) = held s"
  "interrupter (push_ops os s) = interrupter s" "threads (push_ops os s) = threads s"
  by (simp_all add: push_ops_def)

lemma total_wake [simp]:
  "rousable f \<Longrightarrow> total f (wake_one_thread_and_unlock w s) = total f s"
  "rousable f \<Longrightarrow> total f (unlock_and_signal_one w s) = total f s"
  "rousable f \<Longrightarrow> total f (snd (maybe_unlock_and_signal_one w s)) = total f s"
  "rousable f \<Longrightarrow> total f (stop_all_threads s) = total f s"
  "total f (push_ops os s) = total f s"
  by (simp_all add: total_def wake_one_threads map_wake_waiter map_wake_all)

lemma all_threads_wake [simp]:
  "rousable P \<Longrightarrow> all_threads P (wake_one_thread_and_unlock w s) = all_threads P s"
  "rousable P \<Longrightarrow> all_threads P (unlock_and_signal_one w s) = all_threads P s"
  "rousable P \<Longrightarrow> all_threads P (snd (maybe_unlock_and_signal_one w s)) = all_threads P s"
  "rousable P \<Longrightarrow> all_threads P (stop_all_threads s) = all_threads P s"
  "all_threads P (push_ops os s) = all_threads P s"
  by (simp_all add: all_threads_def wake_one_threads wake_waiter_all wake_all_all)

lemma all_threads_simps [simp]:
  "all_threads P (on_svc g s) = all_threads P s" "all_threads P (s\<lparr>held := n\<rparr>) = all_threads P s"
  "all_threads P (s\<lparr>interrupter := b\<rparr>) = all_threads P s"
  by (simp_all add: all_threads_def)

lemma all_threads_at: "all_threads P s \<Longrightarrow> i < length (threads s) \<Longrightarrow> P (threads s ! i)"
  by (simp add: all_threads_def)

lemma all_threads_on_thread:
  "all_threads P s \<Longrightarrow> (i < length (threads s) \<Longrightarrow> P (f (threads s ! i))) \<Longrightarrow> all_threads P (on_thread i f s)"
  by (cases "i < length (threads s)")
    (auto simp: all_threads_def on_thread_def list_update_beyond dest: set_update_subset_insert [THEN subsetD])


lemma nth_wake_waiter: "\<not> blocked (ts ! i) \<Longrightarrow> wake_waiter w ts ! i = ts ! i"
  by (cases "i = w") (auto simp: wake_waiter_def blocked_def nth_list_update split: place.splits)

lemma thread_at_unlock:
  "thread_at i p s \<Longrightarrow> (\<And>c. p \<noteq> Blocked c) \<Longrightarrow> thread_at i p (snd (maybe_unlock_and_signal_one w s))"
  by (auto simp: thread_at_def nth_wake_waiter blocked_def split: place.splits)

lemma thread_atD:
  assumes "thread_at i p s"
  shows "i < length (threads s)" "todo (threads s ! i) = []" "place (threads s ! i) = p"
  using assms by (simp_all add: thread_at_def)

lemma thread_at_on_svc [simp]: "thread_at i p (on_svc f s) = thread_at i p s"
  by (simp add: thread_at_def)

end
