(* ===== verification/Scheduler_Work.thy ===== *)
theory Scheduler_Work
  imports Scheduler_Steps
begin

text \<open>
  The scheduler's account of work: \<open>outstanding_work_\<close> is the number of units kept outside, of handlers
  in the queue and of what each thread holds, so it is 0 only when there is nothing left to do; and the
  reactor is run by at most one thread.
\<close>

section \<open>What a thread holds\<close>

definition handlers :: "oper list \<Rightarrow> int" where
  "handlers os = int (length (filter is_handler os))"

lemma handlers_simps [simp]:
  "handlers [] = 0" "handlers (x # os) = (if is_handler x then 1 else 0) + handlers os"
  "handlers (os @ ps) = handlers os + handlers ps" "0 \<le> handlers os"
  by (simp_all add: handlers_def)

lemma handlers_all: "list_all is_handler os \<Longrightarrow> handlers os = int (length os)"
  by (simp add: handlers_def filter_id_conv list_all_iff)

fun act_credit :: "act \<Rightarrow> int" where
  "act_credit (Start_Work kept) = (if kept then 0 else -1)"
| "act_credit Finish_Work = 1"
| "act_credit (Push os) = handlers os"
| "act_credit a = 0"

definition acts_credit :: "act list \<Rightarrow> int" where
  "acts_credit as = (\<Sum>a\<leftarrow>as. act_credit a)"

lemma acts_credit_simps [simp]:
  "acts_credit [] = 0" "acts_credit (a # as) = act_credit a + acts_credit as"
  "acts_credit (as @ bs) = acts_credit as + acts_credit bs"
  by (simp_all add: acts_credit_def)

text \<open>A unit for the operation that runs, one for each handler in the thread's own queue that has been counted.\<close>

fun in_flight :: "place \<Rightarrow> int" where
  "in_flight (In_Op c x b) = of_bool b"
| "in_flight (Op_Done c b) = 1"
| "in_flight p = 0"

definition credit :: "thread \<Rightarrow> int" where
  "credit t = in_flight (place t) + handlers (private_op_queue t) - private_outstanding_work t + acts_credit (todo t)"

fun in_reactor :: "place \<Rightarrow> bool" where
  "in_reactor (In_Task c b) = True"
| "in_reactor (Task_Done c) = True"
| "in_reactor (Task_Counted c) = True"
| "in_reactor p = False"

fun in_operation :: "place \<Rightarrow> bool" where
  "in_operation (In_Op c x b) = True"
| "in_operation (Op_Done c b) = True"
| "in_operation (Op_Counted c b) = True"
| "in_operation p = False"

definition reactor_thread :: "thread \<Rightarrow> int" where
  "reactor_thread t = of_bool (in_reactor (place t))"

fun acts_ok :: "int \<Rightarrow> act list \<Rightarrow> bool" where
  "acts_ok n [] = (0 \<le> n)"
| "acts_ok n (a # as) = (acts_ok n as \<and> 0 \<le> n + acts_credit (a # as))"

definition thread_ok :: "thread \<Rightarrow> bool" where
  "thread_ok t \<longleftrightarrow> Task_Operation \<notin> set (private_op_queue t)
     \<and> list_all (\<lambda>a. list_all is_handler (pushes a)) (todo t)
     \<and> 0 \<le> private_outstanding_work t \<and> private_outstanding_work t \<le> handlers (private_op_queue t)
     \<and> (\<not> in_reactor (place t) \<and> \<not> in_operation (place t) \<longrightarrow> private_op_queue t = [])
     \<and> (in_flight (place t) = 0 \<longrightarrow> private_outstanding_work t = 0)
     \<and> (\<not> in_reactor (place t) \<longrightarrow> list_all is_handler (private_op_queue t))
     \<and> acts_ok (in_flight (place t)) (todo t)"

lemma rousable_counts [simp]:
  "rousable thread_ok" "rousable credit" "rousable reactor_thread"
  by (auto simp: rousable_def thread_ok_def credit_def reactor_thread_def)

lemma acts_ok_nonneg: "acts_ok n as \<Longrightarrow> 0 \<le> n + acts_credit as"
  by (cases as) auto

lemma thread_ok_credit: "thread_ok t \<Longrightarrow> 0 \<le> credit t"
  using acts_ok_nonneg [of "in_flight (place t)" "todo t"] by (auto simp: thread_ok_def credit_def)

section \<open>The invariant\<close>

definition books_ok :: "system \<Rightarrow> bool" where
  "books_ok s \<longleftrightarrow> all_threads thread_ok s
     \<and> int (count_list (ready_ops (svc s)) Task_Operation) + total reactor_thread s = of_bool (has_task (svc s))
     \<and> outstanding_work (svc s) = int (held s) + handlers (ready_ops (svc s)) + total credit s"

lemma books_ok_new: "books_ok (new_system n k)"
  by (simp add: books_ok_def new_system_def new_service_def all_threads_def total_def new_thread_def
      thread_ok_def credit_def reactor_thread_def sum_list_replicate)

lemma count_list_Task [simp]:
  "list_all is_handler os \<Longrightarrow> count_list os Task_Operation = 0"
  "Task_Operation \<notin> set os \<Longrightarrow> count_list os Task_Operation = 0"
  by (auto simp: count_list_0_iff list_all_iff)

lemma books_ok_act:
  assumes "books_ok s" "i < length (threads s)" "todo (threads s ! i) = a # as"
  shows "books_ok (do_act w i a (on_thread i (todo_update (\<lambda>_. as)) s))"
proof -
  from assms have t: "thread_ok (threads s ! i)" by (simp add: books_ok_def all_threads_at)
  let ?s = "on_thread i (todo_update (\<lambda>_. as)) s"
  have all: "all_threads thread_ok ?s"
    using assms t by (intro all_threads_on_thread) (simp_all add: books_ok_def thread_ok_def)
  have all1: "all_threads thread_ok (on_thread i (todo_update (\<lambda>as. Stop_All # as)) (on_svc f ?s))" if "a = Finish_Work" for f
    using all assms t that
    by (intro all_threads_on_thread) (simp_all add: thread_ok_def acts_ok_nonneg)
  have sum: "total credit ?s = total credit s - act_credit a" "total reactor_thread ?s = total reactor_thread s"
    using assms(2,3) by (simp_all add: total_on_thread credit_def reactor_thread_def)
  show ?thesis
    using assms all sum t all1
    by (cases a)
      (auto simp: books_ok_def work_started_def work_finished_def init_task_def Let_def total_on_thread
        credit_def reactor_thread_def handlers_all thread_ok_def)
qed


text \<open>A thread that neither runs an operation nor the reactor holds nothing, and may go anywhere.\<close>

lemma in_flight_nonneg [simp]: "0 \<le> in_flight p"
  by (cases p) auto

lemma idle_thread:
  assumes "thread_ok t" "todo t = []" "\<not> in_reactor (place t)" "\<not> in_operation (place t)"
  shows "private_op_queue t = []" "private_outstanding_work t = 0" "credit t = 0" "reactor_thread t = 0"
    "thread_ok (t\<lparr>place := p\<rparr>)" "credit (t\<lparr>place := p\<rparr>) = in_flight p"
    "reactor_thread (t\<lparr>place := p\<rparr>) = of_bool (in_reactor p)"
  using assms by (cases "place t"; auto simp: thread_ok_def credit_def reactor_thread_def)+

definition moves :: "nat \<Rightarrow> place \<Rightarrow> system \<Rightarrow> system" where
  "moves i p = on_thread i (place_update (\<lambda>_. p))"

lemma books_ok_moves:
  assumes "books_ok s" "thread_at i p0 s" "\<not> in_reactor p0" "\<not> in_operation p0"
  shows "all_threads thread_ok (moves i p s)" "total credit (moves i p s) = total credit s + in_flight p"
    "total reactor_thread (moves i p s) = total reactor_thread s + of_bool (in_reactor p)"
proof -
  note at = thread_atD [OF assms(2)]
  have "thread_ok (threads s ! i)" using assms(1) at by (simp add: books_ok_def all_threads_at)
  note idle = idle_thread [OF this at(2)] 
  show "all_threads thread_ok (moves i p s)" "total credit (moves i p s) = total credit s + in_flight p"
    "total reactor_thread (moves i p s) = total reactor_thread s + of_bool (in_reactor p)"
    using assms(1,3,4) at idle
    by (simp_all add: moves_def books_ok_def all_threads_on_thread total_on_thread)
qed

lemma moves_simps [simp]:
  "svc (moves i p s) = svc s" "interrupter (moves i p s) = interrupter s" "held (moves i p s) = held s"
  "moves i p (on_svc f s) = on_svc f (moves i p s)"
  by (simp_all add: moves_def on_thread_def on_svc_def)

lemma books_ok_loop:
  assumes "books_ok s" "thread_at i (At_Loop c) s"
  shows "books_ok (do_run_one w i c s)"
proof -
  have m: "all_threads thread_ok (moves i p s)" "total credit (moves i p s) = total credit s + in_flight p"
    "total reactor_thread (moves i p s) = total reactor_thread s + of_bool (in_reactor p)" for p
    using books_ok_moves [OF assms] by simp_all
  show ?thesis
  proof (cases "ready_ops (svc s)")
    case Nil
    with assms(1) m show ?thesis
      by (simp add: do_run_one_def event_wait_def event_clear_def books_ok_def flip: moves_def)
  next
    case (Cons x q)
    with assms(1) m show ?thesis
      by (cases x) (simp_all add: do_run_one_def start_operation_def Let_def books_ok_def flip: moves_def)
  qed
qed


lemma books_ok_poll_operation:
  assumes "books_ok s" "thread_at i p0 s" "\<not> in_reactor p0" "\<not> in_operation p0"
    and "\<And>q. ready_ops (svc s) \<noteq> Task_Operation # q"
  shows "books_ok (poll_operation w i c s)"
proof -
  note m = books_ok_moves [OF assms(1-4)]
  show ?thesis
  proof (cases "ready_ops (svc s)")
    case (Cons x q)
    with assms(5) have "x \<noteq> Task_Operation" by auto
    with Cons assms(1) m show ?thesis
      by (cases x) (simp_all add: poll_operation_def start_operation_def Let_def books_ok_def flip: moves_def)
  qed (use assms(1) m in \<open>simp add: poll_operation_def books_ok_def flip: moves_def\<close>)
qed

lemma books_ok_poll:
  assumes "books_ok s" "thread_at i (At_Poll c) s"
  shows "books_ok (do_poll_one w i c s)"
proof -
  note m = books_ok_moves [OF assms, simplified] and op = books_ok_poll_operation [OF assms, simplified]
  show ?thesis
    using assms(1) m op by (auto simp: do_poll_one_def books_ok_def simp flip: moves_def split: list.split oper.split)
qed

lemma books_ok_after:
  assumes "books_ok s" "thread_at i (After_Task c) s"
  shows "books_ok (do_poll_one_after_task w i c s)"
proof -
  let ?s = "snd (maybe_unlock_and_signal_one w s)"
  have "books_ok ?s" using assms(1) by (simp add: books_ok_def)
  then have m: "books_ok (moves i Outside ?s)"
    using books_ok_moves [OF _ thread_at_unlock [OF assms(2)], of w Outside] by (simp add: books_ok_def)
  show ?thesis
    using assms(1) m books_ok_poll_operation [OF assms, simplified]
    by (auto simp: do_poll_one_after_task_def simp flip: moves_def split: list.split oper.split)
qed

lemma books_ok_simple_moves:
  assumes "books_ok s" "thread_at i p0 s" "\<not> in_reactor p0" "\<not> in_operation p0" "in_flight p = 0" "\<not> in_reactor p"
  shows "books_ok (moves i p s)"
  using assms(1,5,6) books_ok_moves [OF assms(1-4), of p] by (simp add: books_ok_def)

lemma books_ok_enter:
  assumes "books_ok s" "thread_at i Outside s"
  shows "books_ok (enter i c s)"
proof (cases "outstanding_work (svc s) = 0")
  case True
  from assms have "thread_ok (threads s ! i)" by (simp add: books_ok_def all_threads_at thread_at_def)
  with assms True show ?thesis
    by (auto simp: enter_def books_ok_def all_threads_on_thread total_on_thread thread_at_def thread_ok_def
        credit_def reactor_thread_def)
next
  case False
  from assms have "thread_ok (threads s ! i)" by (simp add: books_ok_def all_threads_at thread_at_def)
  with assms False show ?thesis
    by (auto simp: enter_def books_ok_def all_threads_on_thread total_on_thread thread_at_def thread_ok_def
        credit_def reactor_thread_def)
qed

lemma books_ok_woken:
  assumes "books_ok s" "thread_at i (Signalled c) s"
  shows "books_ok (event_woken c i s)"
  using assms(1) books_ok_moves [OF assms]
  by (simp add: event_woken_def event_wait_def books_ok_def flip: moves_def)


text \<open>Steps of a thread that runs an operation or the reactor.\<close>

lemma books_ok_upd:
  assumes "books_ok s" "i < length (threads s)" "thread_ok (f (threads s ! i))"
  shows "all_threads thread_ok (on_thread i f s)"
    "total credit (on_thread i f s) = total credit s - credit (threads s ! i) + credit (f (threads s ! i))"
    "total reactor_thread (on_thread i f s)
      = total reactor_thread s - reactor_thread (threads s ! i) + reactor_thread (f (threads s ! i))"
  using assms by (simp_all add: books_ok_def all_threads_on_thread total_on_thread)

lemma books_ok_thread: "books_ok s \<Longrightarrow> i < length (threads s) \<Longrightarrow> thread_ok (threads s ! i)"
  by (simp add: books_ok_def all_threads_at)

lemmas thread_simps = thread_ok_def credit_def reactor_thread_def

lemma books_ok_task:
  assumes "books_ok s" "thread_at i (In_Task c b) s" "Task_Operation \<notin> set os"
    and "length (filter is_handler os) \<le> held s"
  shows "books_ok (task_ran i c os consumed s)"
proof -
  note at = thread_atD [OF assms(2)]
  note t = books_ok_thread [OF assms(1) at(1)]
  let ?f = "\<lambda>t. t\<lparr>private_op_queue := private_op_queue t @ os, place := Task_Done c\<rparr>"
  let ?s = "s\<lparr>held := held s - length (filter is_handler os), interrupter := interrupter s \<and> \<not> consumed\<rparr>"
  have f: "thread_ok (?f (threads s ! i))" using t at assms(3) by (simp add: thread_ok_def add_increasing2)
  have c: "credit (?f (threads s ! i)) = credit (threads s ! i) + handlers os"
    "reactor_thread (?f (threads s ! i)) = reactor_thread (threads s ! i)"
    using at by (simp_all add: credit_def reactor_thread_def)
  have "on_thread i ?f ?s = (on_thread i ?f s)\<lparr>held := held s - length (filter is_handler os),
      interrupter := interrupter s \<and> \<not> consumed\<rparr>" by (simp add: on_thread_def)
  with books_ok_upd [OF assms(1) at(1), of ?f, OF f] c assms(1,4) show ?thesis
    by (simp add: task_ran_def books_ok_def handlers_def)
qed

lemma books_ok_task_count:
  assumes "books_ok s" "thread_at i (Task_Done c) s"
  shows "books_ok (task_cleanup_count i c s)"
proof -
  note at = thread_atD [OF assms(2)]
  note t = books_ok_thread [OF assms(1) at(1)]
  let ?f = "\<lambda>t. t\<lparr>private_outstanding_work := 0, place := Task_Counted c\<rparr>"
  have f: "thread_ok (?f (threads s ! i))" "private_outstanding_work (threads s ! i) \<ge> 0"
    using t at by (auto simp: thread_ok_def)
  have c: "credit (?f (threads s ! i)) = credit (threads s ! i) + private_outstanding_work (threads s ! i)"
    "reactor_thread (?f (threads s ! i)) = reactor_thread (threads s ! i)"
    using at by (simp_all add: credit_def reactor_thread_def)
  have o: "on_thread i ?f (on_svc g s) = on_svc g (on_thread i ?f s)" for g by (simp add: on_thread_def on_svc_def)
  from books_ok_upd [OF assms(1) at(1), of ?f, OF f(1)] c f(2) assms(1) show ?thesis
    by (simp add: task_cleanup_count_def books_ok_def o Let_def)
qed

lemma on_thread_commute:
  "on_thread i f (on_svc g s) = on_svc g (on_thread i f s)"
  "on_thread i f (push_ops os s) = push_ops os (on_thread i f s)"
  "on_thread i f (s\<lparr>held := n\<rparr>) = (on_thread i f s)\<lparr>held := n\<rparr>"
  by (simp_all add: on_thread_def on_svc_def push_ops_def)

lemma books_ok_task_queue:
  assumes "books_ok s" "thread_at i (Task_Counted c) s"
  shows "books_ok (task_cleanup_queue i c s)"
proof -
  note at = thread_atD [OF assms(2)]
  note t = books_ok_thread [OF assms(1) at(1)]
  let ?p = "if c = Run \<or> c = Run_One then At_Loop c else After_Task c"
  let ?f = "\<lambda>t. t\<lparr>private_op_queue := [], place := ?p\<rparr>"
  let ?t = "threads s ! i"
  have p: "in_flight ?p = 0" "\<not> in_reactor ?p" by simp_all
  have f: "thread_ok (?f ?t)" using t at by (simp add: thread_ok_def)
  have c: "credit (?f ?t) = credit ?t - handlers (private_op_queue ?t)" "reactor_thread (?f ?t) = reactor_thread ?t - 1"
    using at by (simp_all add: credit_def reactor_thread_def)
  have "count_list (private_op_queue ?t) Task_Operation = 0" using t by (simp add: thread_ok_def)
  with books_ok_upd [OF assms(1) at(1), of ?f, OF f] c assms(1) show ?thesis
    unfolding task_cleanup_queue_def on_thread_commute
    by (simp add: books_ok_def)
qed

lemma books_ok_work_count:
  assumes "books_ok s" "thread_at i (Op_Done c thrown) s"
  shows "books_ok (work_cleanup_count i c thrown s)"
proof -
  note at = thread_atD [OF assms(2)]
  note t = books_ok_thread [OF assms(1) at(1)]
  let ?f = "\<lambda>t. t\<lparr>private_outstanding_work := 0, place := Op_Counted c thrown\<rparr>"
  let ?g = "\<lambda>t. ?f (todo_update (\<lambda>as. Stop_All # as) t)"
  let ?t = "threads s ! i" and ?n = "private_outstanding_work (threads s ! i)"
  have f: "thread_ok (?f ?t)" "thread_ok (?g ?t)" "?n \<ge> 0" using t at by (auto simp: thread_ok_def)
  have c: "credit (?f ?t) = credit ?t + ?n - 1" "reactor_thread (?f ?t) = reactor_thread ?t"
    "credit (?g ?t) = credit ?t + ?n - 1" "reactor_thread (?g ?t) = reactor_thread ?t"
    using at by (simp_all add: credit_def reactor_thread_def)
  have two: "on_thread i ?f (on_thread i (todo_update (\<lambda>as. Stop_All # as)) s) = on_thread i ?g s"
    using at(1) by (simp add: on_thread_def)
  note F = books_ok_upd [OF assms(1) at(1), of ?f, OF f(1)] and G = books_ok_upd [OF assms(1) at(1), of ?g, OF f(2)]
  consider "?n > 1" | "?n = 1" | "?n = 0" using f(3) by linarith
  then show ?thesis
  proof cases
    case 3
    with F G c assms(1) show ?thesis
      by (auto simp: work_cleanup_count_def work_finished_def on_thread_commute two books_ok_def Let_def)
  qed (use F c assms(1) in \<open>simp_all add: work_cleanup_count_def on_thread_commute books_ok_def Let_def\<close>)
qed

lemma books_ok_work_queue:
  assumes "books_ok s" "thread_at i (Op_Counted c thrown) s"
  shows "books_ok (work_cleanup_queue i c thrown s)"
proof -
  note at = thread_atD [OF assms(2)]
  note t = books_ok_thread [OF assms(1) at(1)]
  let ?f = "\<lambda>t. t\<lparr>private_op_queue := [], place := after_op c thrown\<rparr>"
  let ?t = "threads s ! i"
  have p: "in_flight (after_op c thrown) = 0" "\<not> in_reactor (after_op c thrown)"
    by (cases c; simp add: after_op_def)+
  have f: "thread_ok (?f ?t)" using t at p by (simp add: thread_ok_def)
  have c: "credit (?f ?t) = credit ?t - handlers (private_op_queue ?t)" "reactor_thread (?f ?t) = reactor_thread ?t"
    using at p by (simp_all add: credit_def reactor_thread_def)
  have "count_list (private_op_queue ?t) Task_Operation = 0" using t by (simp add: thread_ok_def)
  with books_ok_upd [OF assms(1) at(1), of ?f, OF f] c assms(1) show ?thesis
    unfolding work_cleanup_queue_def on_thread_commute by (simp add: books_ok_def)
qed


text \<open>Calls: a thread outside or in an operation gets something to do, or into its own queue.\<close>

lemma caller_atD:
  assumes "caller_at i s"
  shows "i < length (threads s)" "todo (threads s ! i) = []" "\<not> in_reactor (place (threads s ! i))"
    "in_operation (place (threads s ! i)) \<Longrightarrow> in_flight (place (threads s ! i)) = 1"
  using assms by (auto simp: caller_at_def split: place.splits)

lemma fresh_handlersD: "fresh_handlers os s \<Longrightarrow> list_all is_handler os"
  by (simp add: fresh_handlers_def)

lemma is_handler_facts: "is_handler x \<Longrightarrow> x \<noteq> Task_Operation" "list_all is_handler os \<Longrightarrow> Task_Operation \<notin> set os"
  by (auto simp: list_all_iff)

lemma books_ok_todo:
  assumes "books_ok s" "i < length (threads s)" "todo (threads s ! i) = []" "acts_ok 0 as"
    "list_all (\<lambda>a. list_all is_handler (pushes a)) as"
  shows "all_threads thread_ok (on_thread i (todo_update (\<lambda>bs. bs @ as)) s)"
    "total credit (on_thread i (todo_update (\<lambda>bs. bs @ as)) s) = total credit s + acts_credit as"
    "total reactor_thread (on_thread i (todo_update (\<lambda>bs. bs @ as)) s) = total reactor_thread s"
proof -
  have "acts_ok n as" if "0 \<le> n" for n
    using assms(4) that by (induction as) auto
  with books_ok_thread [OF assms(1,2)] assms(3,5)
  have "thread_ok (todo_update (\<lambda>bs. bs @ as) (threads s ! i))" by (simp add: thread_ok_def)
  from books_ok_upd [OF assms(1,2), of "todo_update (\<lambda>bs. bs @ as)", OF this] assms(3)
  show "all_threads thread_ok (on_thread i (todo_update (\<lambda>bs. bs @ as)) s)"
    "total credit (on_thread i (todo_update (\<lambda>bs. bs @ as)) s) = total credit s + acts_credit as"
    "total reactor_thread (on_thread i (todo_update (\<lambda>bs. bs @ as)) s) = total reactor_thread s"
    by (simp_all add: credit_def reactor_thread_def)
qed

lemma books_ok_private:
  assumes "books_ok s" "i < length (threads s)" "in_operation (place (threads s ! i))"
    "\<not> in_reactor (place (threads s ! i))" "in_flight (place (threads s ! i)) = 1"
    "list_all is_handler os" "0 \<le> n" "n \<le> int (length os)"
    and f: "f = (\<lambda>t. t\<lparr>private_outstanding_work := private_outstanding_work t + n,
             private_op_queue := private_op_queue t @ os\<rparr>)"
  shows "all_threads thread_ok (on_thread i f s)" "total credit (on_thread i f s) = total credit s + int (length os) - n"
    "total reactor_thread (on_thread i f s) = total reactor_thread s"
proof -
  let ?t = "threads s ! i"
  have "thread_ok (f ?t)" using books_ok_thread [OF assms(1,2)] assms(3-8) is_handler_facts(2)
    by (auto simp: thread_ok_def f handlers_all)
  from books_ok_upd [OF assms(1,2), of f, OF this]
  show "all_threads thread_ok (on_thread i f s)" "total credit (on_thread i f s) = total credit s + int (length os) - n"
    "total reactor_thread (on_thread i f s) = total reactor_thread s"
    using assms(6) by (simp_all add: credit_def reactor_thread_def f handlers_all)
qed

lemma call_stack_place: "call_stack_contains t \<Longrightarrow> in_operation (place t)"
  by (auto simp: call_stack_contains_def split: place.splits)

lemma books_ok_post:
  assumes "books_ok s" "caller_at i s" "fresh_handlers [x] s"
  shows "books_ok (post_immediate_completion i x is_continuation s)" "books_ok (do_dispatch i x s)"
proof -
  note c = caller_atD [OF assms(2)] and x = fresh_handlersD [OF assms(3)]
  have T: "books_ok (on_thread i (todo_update (\<lambda>bs. bs @ [Start_Work False, Push [x]])) s)"
    using books_ok_todo [OF assms(1) c(1,2), of "[Start_Work False, Push [x]]"] assms(1) x by (simp add: books_ok_def)
  then show "books_ok (do_dispatch i x s)" by (simp add: do_dispatch_def)
  have P: "books_ok (on_thread i (\<lambda>t. t\<lparr>private_outstanding_work := private_outstanding_work t + 1,
             private_op_queue := private_op_queue t @ [x]\<rparr>) s)" if "call_stack_contains (threads s ! i)"
    using books_ok_private [OF assms(1) c(1) call_stack_place [OF that] c(3) c(4) [OF call_stack_place [OF that]] x _ _ refl, of 1] assms(1)
    by (simp add: books_ok_def)
  show "books_ok (post_immediate_completion i x is_continuation s)"
    using T P by (simp add: post_immediate_completion_def)
qed

text \<open>Posting operations whose work is counted: with the unit taken from what is kept, the books balance.\<close>

lemma books_ok_deferred:
  assumes "all_threads thread_ok s"
    and "int (count_list (ready_ops (svc s)) Task_Operation) + total reactor_thread s = of_bool (has_task (svc s))"
    and "outstanding_work (svc s) = int (held s) + handlers (ready_ops (svc s)) + total credit s + int (length os)"
    and "i < length (threads s)" "todo (threads s ! i) = []" "\<not> in_reactor (place (threads s ! i))"
    "in_operation (place (threads s ! i)) \<Longrightarrow> in_flight (place (threads s ! i)) = 1" "list_all is_handler os"
  shows "books_ok (post_deferred_completions i os s)"
proof (cases "os = []")
  case False
  define s0 where "s0 = on_svc (outstanding_work_update (\<lambda>k. k - int (length os))) s"
  have b: "books_ok s0" using assms(1-3) by (simp add: s0_def books_ok_def)
  have s: "s = on_svc (outstanding_work_update (\<lambda>k. k + int (length os))) s0" by (simp add: s0_def on_svc_def)
  have t: "threads s0 = threads s" by (simp add: s0_def)
  have T: "books_ok (on_svc (outstanding_work_update (\<lambda>k. k + int (length os)))
      (on_thread i (todo_update (\<lambda>bs. bs @ [Push os])) s0))"
    using books_ok_todo [OF b, of i "[Push os]"] b assms(4-8) by (simp add: books_ok_def t handlers_all)
  have P: "books_ok (on_svc (outstanding_work_update (\<lambda>k. k + int (length os)))
      (on_thread i (private_op_queue_update (\<lambda>q. q @ os)) s0))" if "call_stack_contains (threads s ! i)"
  proof -
    have f: "private_op_queue_update (\<lambda>q. q @ os) = (\<lambda>t. t\<lparr>private_outstanding_work := private_outstanding_work t + 0,
        private_op_queue := private_op_queue t @ os\<rparr>)" by (rule ext) simp
    show ?thesis
      using books_ok_private [OF b _ _ _ _ assms(8) _ _ f] b assms(4,6,7) call_stack_place [OF that]
      by (simp add: books_ok_def t)
  qed
  have "svc s0 = svc s\<lparr>outstanding_work := outstanding_work (svc s) - int (length os)\<rparr>" by (simp add: s0_def)
  with T P False show ?thesis
    by (subst s) (simp add: post_deferred_completions_def on_thread_commute t)
qed (use assms in \<open>simp add: post_deferred_completions_def books_ok_def\<close>)

lemma books_ok_call:
  assumes "books_ok s" "caller_at i s"
  shows "books_ok (call_act i (Start_Work True) s)" "a \<in> {Stop_All, Reset, Init_Task} \<Longrightarrow> books_ok (call_act i a s)"
    "0 < held s \<Longrightarrow> books_ok (call_act i Finish_Work (s\<lparr>held := held s - Suc 0\<rparr>))"
  using assms(1) books_ok_todo [OF assms(1) caller_atD(1,2) [OF assms(2)], of "[_]"]
  by (auto simp: call_act_def books_ok_def on_thread_commute)

lemma books_ok_perform_none:
  assumes "books_ok s" "thread_at i (In_Op c (Descriptor d) False) s"
  shows "books_ok (perform_none i c x s)"
proof -
  note at = thread_atD [OF assms(2)]
  note t = books_ok_thread [OF assms(1) at(1)]
  let ?f = "\<lambda>t. t\<lparr>place := In_Op c x True, todo := todo t @ [Start_Work False]\<rparr>"
  have f: "thread_ok (?f (threads s ! i))" using t at by (simp add: thread_ok_def)
  from books_ok_upd [OF assms(1) at(1), of ?f, OF f] at assms(1) show ?thesis
    by (simp add: perform_none_def books_ok_def credit_def reactor_thread_def)
qed

lemma books_ok_perform_some:
  assumes "books_ok s" "thread_at i (In_Op c (Descriptor d) False) s" "os \<noteq> []" "list_all is_handler os"
    "length os \<le> held s"
  shows "books_ok (perform_some i c os s)"
proof -
  note at = thread_atD [OF assms(2)]
  note t = books_ok_thread [OF assms(1) at(1)]
  let ?f = "place_update (\<lambda>_. In_Op c (hd os) True)"
  have f: "thread_ok (?f (threads s ! i))" using t at by (simp add: thread_ok_def)
  from assms(3) obtain x xs where os: "os = x # xs" by (cases os) auto
  show ?thesis
    unfolding perform_some_def on_thread_commute
    using books_ok_upd [OF assms(1) at(1), of ?f, OF f] at assms(1,4,5)
    by (intro books_ok_deferred) (simp_all add: books_ok_def credit_def reactor_thread_def os)
qed

lemma books_ok_finish:
  assumes "books_ok s" "thread_at i (In_Op c x True) s"
  shows "books_ok (on_thread i (place_update (\<lambda>_. Op_Done c thrown)) s)"
proof -
  note at = thread_atD [OF assms(2)]
  note t = books_ok_thread [OF assms(1) at(1)]
  let ?f = "place_update (\<lambda>_. Op_Done c thrown)"
  have f: "thread_ok (?f (threads s ! i))" using t at by (simp add: thread_ok_def)
  from books_ok_upd [OF assms(1) at(1), of ?f, OF f] at assms(1) show ?thesis
    by (simp add: books_ok_def credit_def reactor_thread_def)
qed

lemma books_ok_step:
  assumes "step quiet s s1" "books_ok s"
  shows "books_ok s1"
  using assms
proof (cases rule: step.cases)
  case (post_deferred i os)
  note c = caller_atD [OF post_deferred(2)]
  show ?thesis
    unfolding post_deferred(1) using assms(2) c post_deferred(4) fresh_handlersD [OF post_deferred(3)]
    by (intro books_ok_deferred) (simp_all add: books_ok_def)
next
  case (spurious i c)
  then show ?thesis using assms(2) books_ok_simple_moves [OF assms(2), of i "Blocked c" "Signalled c"]
    by (simp add: moves_def)
qed (use assms(2) in \<open>auto intro: books_ok_act books_ok_enter books_ok_loop books_ok_poll books_ok_after books_ok_woken
  books_ok_task books_ok_task_count books_ok_task_queue books_ok_perform_none books_ok_finish
  books_ok_work_count books_ok_work_queue books_ok_post books_ok_call
  books_ok_perform_some [OF _ _ _ fresh_handlersD]\<close>)

lemma books_ok_reachable: "reachable quiet s \<Longrightarrow> books_ok s"
  by (induction rule: reachable.induct) (auto intro: books_ok_new books_ok_step)


section \<open>The theorems\<close>

lemma total_two:
  assumes "\<And>t. 0 \<le> f t" "i < length (threads s)" "j < length (threads s)" "i \<noteq> j"
  shows "f (threads s ! i) + f (threads s ! j) \<le> total f s"
proof -
  have "total f s = (\<Sum>k<length (threads s). f (threads s ! k))"
    by (simp add: total_def sum_list_sum_nth atLeast0LessThan)
  moreover have "(\<Sum>k \<in> {i, j}. f (threads s ! k)) \<le> (\<Sum>k<length (threads s). f (threads s ! k))"
    using assms by (intro sum_mono2) auto
  ultimately show ?thesis using assms(4) by simp
qed

text \<open>
  C23. At most one thread is in the reactor at a time, under every interleaving: the task's operation is
  in the queue once, or one thread is in the reactor, never both and never twice.
\<close>

theorem one_thread_in_reactor:
  assumes "reachable quiet s"
  shows "count_list (ready_ops (svc s)) Task_Operation \<le> 1
    \<and> (\<forall>i < length (threads s). in_reactor (place (threads s ! i)) \<longrightarrow>
        Task_Operation \<notin> set (ready_ops (svc s))
        \<and> (\<forall>j < length (threads s). in_reactor (place (threads s ! j)) \<longrightarrow> j = i))"
proof -
  have nonneg: "0 \<le> reactor_thread t" for t by (simp add: reactor_thread_def)
  have sum: "int (count_list (ready_ops (svc s)) Task_Operation) + total reactor_thread s \<le> 1"
    using books_ok_reachable [OF assms] by (auto simp: books_ok_def)
  have one: "reactor_thread (threads s ! i) \<le> total reactor_thread s" if "i < length (threads s)" for i
    using that nonneg by (rule total_ge)
  have two: "reactor_thread (threads s ! i) + reactor_thread (threads s ! j) \<le> total reactor_thread s"
    if "i < length (threads s)" "j < length (threads s)" "i \<noteq> j" for i j
    using nonneg that by (rule total_two)
  have "0 \<le> total reactor_thread s" using nonneg by (intro total_nonneg)
  with sum have "count_list (ready_ops (svc s)) Task_Operation \<le> 1" by linarith
  moreover have "Task_Operation \<notin> set (ready_ops (svc s)) \<and> (\<forall>j < length (threads s). in_reactor (place (threads s ! j)) \<longrightarrow> j = i)"
    if i: "i < length (threads s)" "in_reactor (place (threads s ! i))" for i
  proof -
    have "count_list (ready_ops (svc s)) Task_Operation = 0"
      using one [OF i(1)] i(2) sum by (simp add: reactor_thread_def)
    moreover have "j = i" if "j < length (threads s)" "in_reactor (place (threads s ! j))" for j
      using two [OF i(1) that(1)] i(2) that(2) sum by (force simp: reactor_thread_def)
    ultimately show ?thesis by (simp add: count_list_0_iff)
  qed
  ultimately show ?thesis by blast
qed

text \<open>A run in which one thread gets to the reactor.\<close>

definition start_reactor :: "move list" where
  "start_reactor = [Called 0 Init_Task, Goes 0 0, Called 0 (Start_Work True), Goes 0 0]"

definition in_reactor_run :: "move list" where
  "in_reactor_run = start_reactor @ [Enters 1 Run, Goes 1 0]"

definition outcome :: "bool \<Rightarrow> move list \<Rightarrow> system" where
  "outcome quiet ms = the (play quiet ms (new_system 2 0))"

lemma outcome_reachable: "play quiet ms (new_system 2 0) \<noteq> None \<Longrightarrow> reachable quiet (outcome quiet ms)"
  unfolding outcome_def by (auto intro: play_reachable reachable.start)

lemma run_reachable:
  "reachable True (outcome True start_reactor)" "reachable True (outcome True in_reactor_run)"
  by (rule outcome_reachable, code_simp)+

theorem one_thread_in_reactor_witness:
  "in_reactor (place (threads (outcome True in_reactor_run) ! 1)) \<and> \<not> in_reactor (place (threads (outcome True in_reactor_run) ! 0))
   \<and> Task_Operation \<notin> set (ready_ops (svc (outcome True in_reactor_run)))"
proof -
  have n: "length (threads (outcome True in_reactor_run)) = 2" and p: "place (threads (outcome True in_reactor_run) ! 1) = In_Task Run True" by code_simp+
  from one_thread_in_reactor [OF run_reachable(2)]
  have "in_reactor (place (threads (outcome True in_reactor_run) ! 1)) \<longrightarrow> Task_Operation \<notin> set (ready_ops (svc (outcome True in_reactor_run)))
      \<and> (\<forall>j < 2. in_reactor (place (threads (outcome True in_reactor_run) ! j)) \<longrightarrow> j = 1)"
    unfolding n by (elim conjE) (drule spec [of _ 1], simp)
  with p show ?thesis by (auto dest: spec [of _ 0])
qed

text \<open>
  C24. The count of outstanding work is right in every reachable state. When it is zero, so that \<open>run\<close>
  returns, there is nothing left: no work is kept outside, no handler is in the common queue, and no
  thread that is not in the middle of a call runs a handler or has one in its own queue. When no thread
  runs anything and no call is going on, it is the work kept outside and the number of handlers in the
  queue, so \<open>run\<close> does not return before they have been executed.
\<close>

theorem outstanding_work_exact:
  assumes "reachable quiet s"
  shows "(outstanding_work (svc s) = 0 \<longrightarrow> held s = 0 \<and> (\<forall>x \<in> set (ready_ops (svc s)). \<not> is_handler x)
      \<and> (\<forall>t \<in> set (threads s). todo t = [] \<longrightarrow>
            (\<forall>x \<in> set (private_op_queue t). \<not> is_handler x) \<and> in_flight (place t) = 0))
    \<and> ((\<forall>t \<in> set (threads s). todo t = [] \<and> place t = Outside) \<longrightarrow>
        outstanding_work (svc s) = int (held s) + int (length (filter is_handler (ready_ops (svc s)))))"
proof -
  have ok: "\<forall>t \<in> set (threads s). thread_ok t"
    and work: "outstanding_work (svc s) = int (held s) + handlers (ready_ops (svc s)) + total credit s"
    using books_ok_reachable [OF assms] by (simp_all add: books_ok_def all_threads_def)
  have nonneg: "0 \<le> credit t" if "t \<in> set (threads s)" for t using ok that by (simp add: thread_ok_credit)
  then have sum: "0 \<le> total credit s" by (rule total_nonneg)
  have none: "handlers os = 0 \<longleftrightarrow> (\<forall>x \<in> set os. \<not> is_handler x)" for os
    by (simp add: handlers_def filter_empty_conv)
  have zero: "held s = 0 \<and> (\<forall>x \<in> set (ready_ops (svc s)). \<not> is_handler x)
      \<and> (\<forall>t \<in> set (threads s). todo t = [] \<longrightarrow> (\<forall>x \<in> set (private_op_queue t). \<not> is_handler x) \<and> in_flight (place t) = 0)"
    if w: "outstanding_work (svc s) = 0"
  proof -
    have z: "held s = 0" "handlers (ready_ops (svc s)) = 0" "total credit s = 0"
      using work w sum handlers_simps(4) [of "ready_ops (svc s)"] by linarith+
    have "handlers (private_op_queue t) = 0 \<and> in_flight (place t) = 0" if t: "t \<in> set (threads s)" "todo t = []" for t
    proof -
      obtain i where i: "i < length (threads s)" "t = threads s ! i" using t(1) by (metis in_set_conv_nth)
      then have "credit t \<le> 0" using total_ge [where f = credit, OF i(1) nonneg] z(3) by simp
      with t(2) have c: "in_flight (place t) + handlers (private_op_queue t) \<le> private_outstanding_work t"
        by (simp add: credit_def)
      from ok t(1) have k: "private_outstanding_work t \<le> handlers (private_op_queue t)"
        "in_flight (place t) = 0 \<longrightarrow> private_outstanding_work t = 0" by (simp_all add: thread_ok_def)
      with c in_flight_nonneg [of "place t"] have "in_flight (place t) = 0" by linarith
      with k c handlers_simps(4) [of "private_op_queue t"] show ?thesis by simp
    qed
    with z none show ?thesis by simp
  qed
  have quietly: "outstanding_work (svc s) = int (held s) + int (length (filter is_handler (ready_ops (svc s))))"
    if out: "\<forall>t \<in> set (threads s). todo t = [] \<and> place t = Outside"
  proof -
    have "credit t = 0" if "t \<in> set (threads s)" for t
      using that out ok by (auto simp: thread_ok_def credit_def)
    then have "total credit s = 0" by (simp add: total_def cong: map_cong)
    with work show ?thesis by (simp add: handlers_def)
  qed
  show ?thesis using zero quietly by blast
qed

theorem outstanding_work_exact_witness:
  "outstanding_work (svc (outcome True start_reactor)) = 1 \<and> held (outcome True start_reactor) = 1
   \<and> outstanding_work (svc (outcome True start_reactor)) = int (held (outcome True start_reactor)) + int (length (filter is_handler (ready_ops (svc (outcome True start_reactor)))))"
proof -
  have "held (outcome True start_reactor) = 1" "\<forall>t \<in> set (threads (outcome True start_reactor)). todo t = [] \<and> place t = Outside"
    "filter is_handler (ready_ops (svc (outcome True start_reactor))) = []" by code_simp+
  with outstanding_work_exact [OF run_reachable(1)] show ?thesis by simp
qed

end
