(* ===== verification/Scheduler_Wakeups.thy ===== *)
theory Scheduler_Wakeups
  imports Scheduler_Work
begin

text \<open>
  Wake-ups are not lost: while there is an operation in the common queue and a thread sleeps, another
  thread is on its way to the queue, as long as no thread leaves the service with operations in its own
  queue. An execution shows what happens when one does.
\<close>

section \<open>Sleeping and looking\<close>

text \<open>The flag says whether the reactor's interrupter is ready, so that a wait in the reactor ends at once.\<close>

fun idle :: "bool \<Rightarrow> place \<Rightarrow> bool" where
  "idle b (Blocked c) = True"
| "idle b (In_Task c blocking) = (blocking \<and> \<not> b)"
| "idle b p = False"

text \<open>The thread comes to the common queue by itself, or, if it has been woken, when it sees the signal.\<close>

fun active :: "bool \<Rightarrow> place \<Rightarrow> bool" where
  "active b (At_Loop c) = True"
| "active b (At_Poll c) = True"
| "active b (After_Task c) = True"
| "active b (Task_Done c) = True"
| "active b (Task_Counted c) = True"
| "active b (In_Task c blocking) = (\<not> blocking \<or> b)"
| "active b p = False"

fun looks :: "bool \<Rightarrow> place \<Rightarrow> bool" where
  "looks b (Signalled c) = True"
| "looks b p = active b p"

fun waits :: "place \<Rightarrow> int" where
  "waits (Blocked c) = 1"
| "waits (Signalled c) = 1"
| "waits p = 0"

definition waiting :: "thread \<Rightarrow> int" where
  "waiting t = waits (place t)"

definition some_thread :: "(place \<Rightarrow> bool) \<Rightarrow> system \<Rightarrow> bool" where
  "some_thread P s \<longleftrightarrow> (\<exists>t \<in> set (threads s). P (place t))"

lemma rousable_waiting [simp]: "rousable waiting"
  by (auto simp: rousable_def waiting_def)

text \<open>
  The event counts the threads that wait; a stopped service has no sleeping thread; a reactor that
  counts as interrupted is.
\<close>

definition sleep_ok :: "system \<Rightarrow> bool" where
  "sleep_ok s \<longleftrightarrow>
     int (wakeup_event (svc s) div 2) = total waiting s
   \<and> (is_stopped (svc s) \<longrightarrow> odd (wakeup_event (svc s)) \<and> \<not> some_thread (idle (interrupter s)) s)
   \<and> (task_interrupted (svc s) \<longrightarrow> interrupter s \<or> \<not> some_thread (\<lambda>p. \<exists>c. p = In_Task c True) s)"

definition wake_ok :: "system \<Rightarrow> bool" where
  "wake_ok s \<longleftrightarrow> sleep_ok s
   \<and> (\<not> is_stopped (svc s) \<and> even (wakeup_event (svc s)) \<and> ready_ops (svc s) \<noteq> [] \<longrightarrow> some_thread (active (interrupter s)) s)
   \<and> (\<not> is_stopped (svc s) \<and> ready_ops (svc s) \<noteq> [] \<and> some_thread (idle (interrupter s)) s
       \<longrightarrow> some_thread (looks (interrupter s)) s)"

lemma wake_ok_new: "wake_ok (new_system n k)"
  by (simp add: wake_ok_def sleep_ok_def new_system_def new_service_def total_def some_thread_def new_thread_def
      waiting_def sum_list_replicate)

lemma some_thread_cong:
  "threads s = threads r \<Longrightarrow> some_thread P s = some_thread P r"
  by (simp add: some_thread_def)

lemma some_thread_nth: "some_thread P s \<longleftrightarrow> (\<exists>j < length (threads s). P (place (threads s ! j)))"
  by (force simp: some_thread_def in_set_conv_nth)

lemma flag_matters:
  assumes "\<And>c. p \<noteq> In_Task c True"
  shows "idle b p = idle b1 p" "active b p = active b1 p" "looks b p = looks b1 p"
  using assms by (cases p; auto)+

text \<open>A step that changes the thread \<open>i\<close> alone, and nothing a sleeping thread depends on.\<close>

lemma upd_facts:
  assumes "i < length (threads s)" and th: "threads s1 = (threads s)[i := t]"
    and int: "interrupter s1 = interrupter s \<or> \<not> some_thread (\<lambda>p. \<exists>c. p = In_Task c True) s1"
    and t: "\<And>b. \<not> idle b (place t)" "\<And>c. place t \<noteq> In_Task c True"
  shows "j < length (threads s) \<Longrightarrow> P = active \<or> P = looks \<Longrightarrow>
      P (interrupter s1) (place (threads s1 ! j)) = P (interrupter s) (place (threads s1 ! j))"
    "some_thread (idle (interrupter s1)) s1 \<Longrightarrow> some_thread (idle (interrupter s)) s"
    "some_thread (\<lambda>p. \<exists>c. p = In_Task c True) s1 \<Longrightarrow> some_thread (\<lambda>p. \<exists>c. p = In_Task c True) s"
proof -
  have nth: "place (threads s1 ! j) = (if j = i then place t else place (threads s ! j))" if "j < length (threads s)" for j
    using that by (simp add: th nth_list_update)
  have len: "length (threads s1) = length (threads s)" by (simp add: th)
  have same: "P (interrupter s1) (place (threads s1 ! j)) = P (interrupter s) (place (threads s1 ! j))"
    if "j < length (threads s)" "P = idle \<or> P = active \<or> P = looks" for j P
    using int flag_matters [of "place (threads s1 ! j)" "interrupter s1" "interrupter s"] that
    by (auto simp: some_thread_nth len)
  show "P (interrupter s1) (place (threads s1 ! j)) = P (interrupter s) (place (threads s1 ! j))"
    if "j < length (threads s)" "P = active \<or> P = looks" using same that by blast
  show "some_thread (idle (interrupter s)) s" if "some_thread (idle (interrupter s1)) s1"
  proof -
    from that obtain j where j: "j < length (threads s)" "idle (interrupter s1) (place (threads s1 ! j))"
      by (auto simp: some_thread_nth len)
    with t(1) have "j \<noteq> i" by (auto simp: nth)
    with j same [OF j(1), of idle] show ?thesis by (auto simp: some_thread_nth nth)
  qed
  show "some_thread (\<lambda>p. \<exists>c. p = In_Task c True) s" if "some_thread (\<lambda>p. \<exists>c. p = In_Task c True) s1"
  proof -
    from that obtain j c where j: "j < length (threads s)" "place (threads s1 ! j) = In_Task c True"
      by (auto simp: some_thread_nth len)
    with t(2) have "j \<noteq> i" by (auto simp: nth)
    with j show ?thesis by (auto simp: some_thread_nth nth)
  qed
qed

lemma sleep_ok_upd:
  assumes "sleep_ok s" "i < length (threads s)" and th: "threads s1 = (threads s)[i := t]"
    and svc: "wakeup_event (svc s1) = wakeup_event (svc s)" "is_stopped (svc s1) = is_stopped (svc s)"
    and int: "task_interrupted (svc s1) = task_interrupted (svc s) \<and> interrupter s1 = interrupter s
      \<or> \<not> some_thread (\<lambda>p. \<exists>c. p = In_Task c True) s1"
    and t: "waits (place t) = waits (place (threads s ! i))" "\<And>b. \<not> idle b (place t)"
      "\<And>c. place t \<noteq> In_Task c True"
  shows "sleep_ok s1"
proof -
  have "total waiting s1 = total waiting s"
    using assms(2) t(1) by (simp add: total_def th sum_list_upd waiting_def)
  moreover have "interrupter s1 = interrupter s \<or> \<not> some_thread (\<lambda>p. \<exists>c. p = In_Task c True) s1" using int by blast
  note upd_facts [OF assms(2) th this t(2,3)]
  ultimately show ?thesis using int svc assms(1) unfolding sleep_ok_def by auto
qed

lemma active_looks: "active b p \<Longrightarrow> looks b p"
  by (cases p) auto

lemma wake_ok_upd:
  assumes "wake_ok s" "i < length (threads s)" and th: "threads s1 = (threads s)[i := t]"
    and svc: "wakeup_event (svc s1) = wakeup_event (svc s)" "is_stopped (svc s1) = is_stopped (svc s)"
    and int: "task_interrupted (svc s1) = task_interrupted (svc s) \<and> interrupter s1 = interrupter s
      \<or> \<not> some_thread (\<lambda>p. \<exists>c. p = In_Task c True) s1"
    and t: "waits (place t) = waits (place (threads s ! i))" "\<And>b. \<not> idle b (place t)"
      "\<And>c. place t \<noteq> In_Task c True"
    and act: "is_stopped (svc s) \<or> ((\<forall>b. active b (place (threads s ! i)) \<longrightarrow> active b (place t))
      \<and> (\<forall>b. looks b (place (threads s ! i)) \<longrightarrow> looks b (place t)))"
    and ready: "ready_ops (svc s1) \<noteq> [] \<Longrightarrow> ready_ops (svc s) \<noteq> [] \<or> (\<forall>b. active b (place t))"
  shows "wake_ok s1"
proof -
  have sleep: "sleep_ok s1" using assms(1) by (intro sleep_ok_upd [OF _ assms(2) th svc int t]) (simp add: wake_ok_def)
  have "interrupter s1 = interrupter s \<or> \<not> some_thread (\<lambda>p. \<exists>c. p = In_Task c True) s1" using int by blast
  note facts = upd_facts [OF assms(2) th this t(2,3)]
  have nth: "place (threads s1 ! j) = (if j = i then place t else place (threads s ! j))" if "j < length (threads s)" for j
    using that by (simp add: th nth_list_update)
  have len: "length (threads s1) = length (threads s)" by (simp add: th)
  have keeps: "some_thread (P (interrupter s1)) s1"
    if P: "P = active \<or> P = looks" and some: "some_thread (P (interrupter s)) s"
      and act: "\<forall>b. P b (place (threads s ! i)) \<longrightarrow> P b (place t)" for P
  proof -
    from some obtain j where j: "j < length (threads s)" "P (interrupter s) (place (threads s ! j))"
      by (auto simp: some_thread_nth)
    with act have "P (interrupter s) (place (threads s1 ! j))" by (auto simp: nth)
    with j(1) facts(1) [OF j(1) P] show ?thesis by (auto simp: some_thread_nth len)
  qed
  have here: "some_thread (P (interrupter s1)) s1" if "\<forall>b. P b (place t)" for P
    using that assms(2) by (auto simp: some_thread_nth len nth intro!: exI [of _ i])
  have "some_thread (active (interrupter s1)) s1"
    if "\<not> is_stopped (svc s1)" "even (wakeup_event (svc s1))" "ready_ops (svc s1) \<noteq> []"
    using ready [OF that(3)] act that(1,2) svc assms(1) keeps [of active] here [of active]
    unfolding wake_ok_def by auto
  moreover have "some_thread (looks (interrupter s1)) s1"
    if "\<not> is_stopped (svc s1)" "ready_ops (svc s1) \<noteq> []" "some_thread (idle (interrupter s1)) s1"
    using ready [OF that(2)] act that(1) facts(2) [OF that(3)] svc assms(1) keeps [of looks] here [of looks] active_looks
    unfolding wake_ok_def by auto
  ultimately show ?thesis using sleep unfolding wake_ok_def by blast
qed

section \<open>Waking\<close>

lemma event_set_facts: "odd (event_set n)" "event_set n div 2 = n div 2"
  by (auto simp: event_set_def elim!: oddE)

lemma waits_bounds: "0 \<le> waits p" "waits p \<noteq> 0 \<longleftrightarrow> (\<exists>c. p = Blocked c \<or> p = Signalled c)"
  by (cases p; auto)+

lemma woken_looks:
  assumes "sleep_ok s" "1 < event_set (wakeup_event (svc s))" "waiter_ok w s"
  shows "\<exists>t \<in> set (wake_waiter w (threads s)). \<exists>c. place t = Signalled c"
proof -
  have "0 < wakeup_event (svc s) div 2" using assms(2) by (auto simp: event_set_def split: if_splits)
  then have "total waiting s > 0" using assms(1) by (simp add: sleep_ok_def)
  then have "\<exists>t \<in> set (threads s). waiting t \<noteq> 0"
    unfolding total_def by (metis (no_types, lifting) less_irrefl map_eq_conv sum_list_triv mult_zero_right map_cong sum_list_0)
  then obtain t c where t: "t \<in> set (threads s)" "place t = Blocked c \<or> place t = Signalled c"
    by (auto simp: waiting_def waits_bounds(2))
  show ?thesis
  proof (cases "\<exists>t \<in> set (threads s). blocked t")
    case True
    with assms(3) have w: "w < length (threads s)" "blocked (threads s ! w)" by (auto simp: waiter_ok_def)
    then obtain c where "place (threads s ! w) = Blocked c" by (auto simp: blocked_def split: place.splits)
    with w(1) show ?thesis
      by (intro bexI [of _ "(threads s ! w)\<lparr>place := Signalled c\<rparr>"]) (simp_all add: wake_waiter_def set_update_memI)
  next
    case False
    then have "wake_waiter w (threads s) = threads s" by (auto simp: wake_waiter_def blocked_def split: place.splits)
    with False t show ?thesis by (auto simp: blocked_def)
  qed
qed


text \<open>Signalling an event: some thread that waits is woken, or none waits.\<close>

lemma place_wake_waiter:
  "j < length ts \<Longrightarrow> place (wake_waiter w ts ! j) = place (ts ! j)
     \<or> (\<exists>c. place (ts ! j) = Blocked c \<and> place (wake_waiter w ts ! j) = Signalled c)"
  by (auto simp: wake_waiter_def nth_list_update split: place.splits)

lemma place_wake_all:
  "j < length ts \<Longrightarrow> place (wake_all ts ! j) = (case place (ts ! j) of Blocked c \<Rightarrow> Signalled c | p \<Rightarrow> p)"
  by (auto simp: wake_all_def split: place.splits)

lemma some_thread_wake:
  assumes "\<And>c. P (Signalled c) \<Longrightarrow> P (Blocked c)" "some_thread P (s\<lparr>threads := wake_waiter w (threads s)\<rparr>)"
  shows "some_thread P s"
proof -
  from assms(2) obtain j where j: "j < length (threads s)" "P (place (wake_waiter w (threads s) ! j))"
    by (auto simp: some_thread_nth)
  with place_wake_waiter [OF j(1), of w] assms(1) show ?thesis by (auto simp: some_thread_nth)
qed

lemma sleep_ok_signal:
  assumes "sleep_ok s" "svc s1 = svc s\<lparr>wakeup_event := event_set (wakeup_event (svc s))\<rparr>"
    "interrupter s1 = interrupter s" "threads s1 = (if b then wake_waiter w (threads s) else threads s)"
  shows "sleep_ok s1"
proof -
  have "total waiting s1 = total waiting s"
    using assms(4) rousable_waiting by (simp add: total_def map_wake_waiter)
  moreover have idle: "some_thread (idle (interrupter s)) s" if "some_thread (idle (interrupter s1)) s1"
    using that some_thread_wake [where P = "idle (interrupter s)" and s = s and w = w] assms(3,4) by (auto simp: some_thread_def split: if_splits)
  moreover have "some_thread (\<lambda>p. \<exists>c. p = In_Task c True) s" if "some_thread (\<lambda>p. \<exists>c. p = In_Task c True) s1"
    using that some_thread_wake [where P = "\<lambda>p. \<exists>c. p = In_Task c True" and s = s and w = w] assms(4)
    by (auto simp: some_thread_def split: if_splits)
  ultimately show ?thesis
    using assms(1,2,3) by (auto simp: sleep_ok_def event_set_facts)
qed

lemma no_waiters:
  assumes "sleep_ok s" "\<not> 1 < event_set (wakeup_event (svc s))"
  shows "\<forall>t \<in> set (threads s). waits (place t) = 0"
proof -
  have "total waiting s = 0" using assms by (auto simp: sleep_ok_def event_set_def split: if_splits)
  moreover have "0 \<le> waiting t" for t by (simp add: waiting_def waits_bounds)
  ultimately have "waiting t = 0" if "t \<in> set (threads s)" for t
    using that total_ge [of _ s waiting] by (force simp: in_set_conv_nth intro: antisym)
  then show ?thesis by (simp add: waiting_def)
qed

lemma wake_ok_unlock:
  assumes "sleep_ok s" "waiter_ok w s" "\<not> some_thread (\<lambda>p. \<exists>c. p = In_Task c True) s"
  shows "wake_ok (unlock_and_signal_one w s)"
proof -
  have sleep: "sleep_ok (unlock_and_signal_one w s)"
    by (rule sleep_ok_signal [OF assms(1), where w = w and b = "1 < event_set (wakeup_event (svc s))"]) simp_all
  have "some_thread (looks b) (unlock_and_signal_one w s)" if "1 < event_set (wakeup_event (svc s))" for b
    using woken_looks [OF assms(1) that assms(2)] that by (force simp: some_thread_def)
  moreover have "\<not> some_thread (idle (interrupter s)) s" if "\<not> 1 < event_set (wakeup_event (svc s))"
    using no_waiters [OF assms(1) that] assms(3) by (fastforce simp: some_thread_def elim!: idle.elims)
  ultimately show ?thesis
    using sleep by (auto simp: wake_ok_def event_set_facts some_thread_def)
qed


lemma maybe_unlock_eq: "snd (maybe_unlock_and_signal_one w s) = unlock_and_signal_one w s"
  by (simp add: maybe_unlock_and_signal_one_def unlock_and_signal_one_def Let_def)

text \<open>Waking one thread, or else the reactor.\<close>

lemma sleep_ok_interrupt:
  assumes "sleep_ok s" "some_thread (\<lambda>p. \<exists>c. p = In_Task c True) s \<Longrightarrow> has_task (svc s)"
  shows "sleep_ok (interrupt_task s)" "\<not> some_thread (\<lambda>p. \<exists>c. p = In_Task c True \<and> \<not> interrupter (interrupt_task s)) (interrupt_task s)"
proof -
  have mono: "\<not> some_thread (idle True) s" if "\<not> some_thread (idle False) s"
    using that by (auto simp: some_thread_def elim!: idle.elims)
  show "sleep_ok (interrupt_task s)"
    using assms mono by (cases "interrupter s") (auto simp: sleep_ok_def interrupt_task_def total_def some_thread_def)
  show "\<not> some_thread (\<lambda>p. \<exists>c. p = In_Task c True \<and> \<not> interrupter (interrupt_task s)) (interrupt_task s)"
    using assms by (auto simp: sleep_ok_def interrupt_task_def some_thread_def)
qed

lemma wake_ok_wake_one:
  assumes "sleep_ok s" "waiter_ok w s" "some_thread (\<lambda>p. \<exists>c. p = In_Task c True) s \<Longrightarrow> has_task (svc s)"
  shows "wake_ok (wake_one_thread_and_unlock w s)"
proof (cases "1 < event_set (wakeup_event (svc s))")
  case True
  then have eq: "wake_one_thread_and_unlock w s = unlock_and_signal_one w s"
    by (simp add: wake_one_thread_and_unlock_def maybe_unlock_and_signal_one_def unlock_and_signal_one_def Let_def)
  have "sleep_ok (unlock_and_signal_one w s)"
    by (rule sleep_ok_signal [OF assms(1), where w = w and b = True]) (use True in simp_all)
  moreover have "some_thread (looks b) (unlock_and_signal_one w s)" for b
    using woken_looks [OF assms(1) True assms(2)] True by (force simp: some_thread_def)
  ultimately show ?thesis unfolding eq by (simp add: wake_ok_def event_set_facts)
next
  case False
  let ?s = "unlock_and_signal_one w s"
  have eq: "wake_one_thread_and_unlock w s = interrupt_task ?s"
    using False by (simp add: wake_one_thread_and_unlock_def maybe_unlock_and_signal_one_def unlock_and_signal_one_def Let_def)
  have sl: "sleep_ok ?s"
    by (rule sleep_ok_signal [OF assms(1), where w = w and b = False]) (use False in simp_all)
  have ht: "has_task (svc ?s)" if "some_thread (\<lambda>p. \<exists>c. p = In_Task c True) ?s"
    using that assms(3) False by (simp add: some_thread_def)
  note i = sleep_ok_interrupt [OF sl ht]
  have z: "\<forall>t \<in> set (threads s). waits (place t) = 0"
    using assms(1) False by (intro no_waiters) simp_all
  have thr: "threads (interrupt_task ?s) = threads s" using False by (simp add: interrupt_task_def)
  have "\<not> some_thread (idle (interrupter (interrupt_task ?s))) (interrupt_task ?s)"
    using i(2) z by (fastforce simp: some_thread_def thr elim!: idle.elims)
  with i(1) show ?thesis unfolding eq by (auto simp: wake_ok_def interrupt_task_def event_set_facts)
qed


section \<open>Every step keeps it\<close>

lemma places_cong:
  assumes "map place (threads s1) = map place (threads s)" "interrupter s1 = interrupter s"
    "wakeup_event (svc s1) = wakeup_event (svc s)" "is_stopped (svc s1) = is_stopped (svc s)"
    "task_interrupted (svc s1) = task_interrupted (svc s)"
  shows "sleep_ok s \<Longrightarrow> sleep_ok s1" "wake_ok s \<Longrightarrow> (ready_ops (svc s1) \<noteq> [] \<Longrightarrow> ready_ops (svc s) \<noteq> []) \<Longrightarrow> wake_ok s1"
proof -
  have some: "some_thread P s1 = some_thread P s" for P
  proof -
    have "some_thread P r \<longleftrightarrow> (\<exists>p \<in> set (map place (threads r)). P p)" for r :: system by (auto simp: some_thread_def)
    then show ?thesis by (simp only: assms(1))
  qed
  have "total waiting r = sum_list (map waits (map place (threads r)))" for r :: system
    by (simp add: total_def waiting_def comp_def)
  then have tot: "total waiting s1 = total waiting s" by (simp only: assms(1))
  show "sleep_ok s \<Longrightarrow> sleep_ok s1" "wake_ok s \<Longrightarrow> (ready_ops (svc s1) \<noteq> [] \<Longrightarrow> ready_ops (svc s) \<noteq> []) \<Longrightarrow> wake_ok s1"
    using assms(2-5) by (auto simp: wake_ok_def sleep_ok_def some tot)
qed

lemma map_place_todo [simp]:
  "map place (threads (on_thread i (todo_update f) s)) = map place (threads s)"
  "map place (threads (on_thread i (private_op_queue_update g) s)) = map place (threads s)"
  "map place (threads (on_thread i (\<lambda>t. t\<lparr>private_outstanding_work := h t, private_op_queue := k t\<rparr>) s)) = map place (threads s)"
  by (cases "i < length (threads s)"; simp add: on_thread_def map_update list_update_same_conv list_update_beyond)+

lemma waiter_ok_cong:
  assumes "map place (threads s1) = map place (threads s)"
  shows "waiter_ok w s1 = waiter_ok w s"
proof -
  have "length (threads s1) = length (threads s)" using assms by (rule map_eq_imp_length_eq)
  moreover have "blocked (threads s1 ! j) = blocked (threads s ! j)" if "j < length (threads s)" for j
    using assms that calculation by (metis blocked_def nth_map)
  ultimately show ?thesis unfolding waiter_ok_def by (metis in_set_conv_nth)
qed

lemma waiter_ok_upd:
  assumes "waiter_ok w s" "\<not> blocked (threads s ! i)" "threads s1 = (threads s)[i := t]" "\<not> blocked t"
  shows "waiter_ok w s1"
  using assms unfolding waiter_ok_def
  by (cases "i < length (threads s)") (auto simp: nth_list_update list_update_beyond dest!: set_update_subset_insert [THEN subsetD])

text \<open>What the books say of the reactor.\<close>

lemma reactor_facts:
  assumes "books_ok s"
  shows "some_thread in_reactor s \<Longrightarrow> has_task (svc s)"
    "ready_ops (svc s) = Task_Operation # q \<Longrightarrow> \<not> some_thread in_reactor s"
    "i < length (threads s) \<Longrightarrow> in_reactor (place (threads s ! i)) \<Longrightarrow> threads s1 = (threads s)[i := t]
      \<Longrightarrow> \<not> in_reactor (place t) \<or> (\<forall>c. place t \<noteq> In_Task c True) \<Longrightarrow> \<not> some_thread (\<lambda>p. \<exists>c. p = In_Task c True) s1"
proof -
  have nonneg: "0 \<le> reactor_thread t" for t by (simp add: reactor_thread_def)
  have sum: "int (count_list (ready_ops (svc s)) Task_Operation) + total reactor_thread s = of_bool (has_task (svc s))"
    using assms by (simp add: books_ok_def)
  have one: "1 \<le> total reactor_thread s" if "some_thread in_reactor s"
    using that total_ge [of _ s reactor_thread] nonneg by (fastforce simp: some_thread_nth reactor_thread_def)
  show "some_thread in_reactor s \<Longrightarrow> has_task (svc s)" using one sum by (cases "has_task (svc s)") auto
  show "ready_ops (svc s) = Task_Operation # q \<Longrightarrow> \<not> some_thread in_reactor s"
    using one sum by (cases "has_task (svc s)") auto
  show "\<not> some_thread (\<lambda>p. \<exists>c. p = In_Task c True) s1"
    if i: "i < length (threads s)" "in_reactor (place (threads s ! i))" "threads s1 = (threads s)[i := t]"
      "\<not> in_reactor (place t) \<or> (\<forall>c. place t \<noteq> In_Task c True)"
  proof -
  have "\<not> in_reactor (place (threads s ! j))" if j: "j < length (threads s)" "j \<noteq> i" for j
  proof
    assume "in_reactor (place (threads s ! j))"
    with i(2) have "2 \<le> total reactor_thread s"
      using total_two [of reactor_thread i s j, OF nonneg i(1) j(1)] j(2) by (simp add: reactor_thread_def)
    with sum show False by (cases "has_task (svc s)") auto
  qed
  then have other: "place (threads s ! j) \<noteq> In_Task c True" if "j < length (threads s)" "j \<noteq> i" for j c
    using that by (metis in_reactor.simps(1))
  have "place (threads s1 ! j) \<noteq> In_Task c True" if "j < length (threads s)" for j c
    using other [OF that] i that by (cases "j = i") auto
  with i(3) show ?thesis by (simp add: some_thread_nth)
  qed
qed

lemma in_task_reactor: "some_thread (\<lambda>p. \<exists>c. p = In_Task c True) s \<Longrightarrow> some_thread in_reactor s"
  unfolding some_thread_nth by (metis in_reactor.simps(1))


lemma threads_on_thread: "threads (on_thread i f s) = (threads s)[i := f (threads s ! i)]"
  by (simp add: on_thread_def)

text \<open>The turn of a thread that takes an operation from the queue.\<close>

lemma wake_ok_start_operation:
  assumes "wake_ok s" "books_ok s" "waiter_ok w s" "thread_at i p s" "\<And>b. \<not> idle b p" "waits p = 0" "\<not> one_thread (svc s)"
    and q: "svc s1 = svc s\<lparr>ready_ops := q\<rparr>" "interrupter s1 = interrupter s" "threads s1 = threads s"
  shows "wake_ok (start_operation w i c x (q \<noteq> []) s1)"
proof -
  note at = thread_atD [OF assms(4)]
  let ?f = "place_update (\<lambda>_. In_Op c x (case x of Handler n \<Rightarrow> True | _ \<Rightarrow> False))"
  let ?s = "on_thread i ?f s1"
  have th: "threads ?s = (threads s)[i := ?f (threads s ! i)]" by (simp add: threads_on_thread q)
  have sl: "sleep_ok ?s"
    by (rule sleep_ok_upd [OF _ at(1) th]) (use assms(1,6) at q in \<open>simp_all add: wake_ok_def\<close>)
  show ?thesis
  proof (cases "q = []")
    case True
    with sl q show ?thesis by (simp add: start_operation_def wake_ok_def)
  next
    case False
    have "waiter_ok w ?s"
      using assms(5) [of True] at by (intro waiter_ok_upd [OF assms(3) _ th]) (auto simp: blocked_def split: place.splits)
    moreover have "has_task (svc ?s)" if "some_thread (\<lambda>p. \<exists>c. p = In_Task c True) ?s"
    proof -
      from that th at(1) have "some_thread (\<lambda>p. \<exists>c. p = In_Task c True) s"
        by (auto simp: some_thread_nth nth_list_update split: if_splits)
      with reactor_facts(1) [OF assms(2)] in_task_reactor q show ?thesis by simp
    qed
    ultimately show ?thesis
      using False sl assms(7) q by (simp add: start_operation_def Let_def wake_ok_wake_one)
  qed
qed

lemma wake_ok_loop:
  assumes "wake_ok s" "books_ok s" "waiter_ok w s" "thread_at i (At_Loop c) s" "\<not> one_thread (svc s)"
  shows "wake_ok (do_run_one w i c s)"
proof -
  note at = thread_atD [OF assms(4)]
  consider (stopped) "is_stopped (svc s)" | (empty) "\<not> is_stopped (svc s)" "ready_ops (svc s) = []"
    | (task) q where "\<not> is_stopped (svc s)" "ready_ops (svc s) = Task_Operation # q"
    | (op) x q where "\<not> is_stopped (svc s)" "ready_ops (svc s) = x # q" "x \<noteq> Task_Operation"
    by (cases "ready_ops (svc s)") auto
  then show ?thesis
  proof cases
    case stopped
    have "wake_ok (on_thread i (place_update (\<lambda>_. Outside)) s)"
      by (rule wake_ok_upd [OF assms(1) at(1) threads_on_thread]) (use stopped at in simp_all)
    with stopped show ?thesis by (simp add: do_run_one_def)
  next
    case empty
    let ?n = "wakeup_event (svc s)"
    let ?s = "on_thread i (place_update (\<lambda>_. Blocked c)) (on_svc (wakeup_event_update (\<lambda>n. n + 2)) (event_clear s))"
    have "total waiting ?s = total waiting s + 1"
      using at by (simp add: total_on_thread event_clear_def waiting_def)
    moreover have "event_unset ?n div 2 = ?n div 2" by (auto simp: event_unset_def elim!: oddE)
    moreover have "some_thread (\<lambda>p. \<exists>c. p = In_Task c True) s" if "some_thread (\<lambda>p. \<exists>c. p = In_Task c True) ?s"
      using that at(1) by (auto simp: some_thread_nth threads_on_thread event_clear_def nth_list_update split: if_splits)
    ultimately have "wake_ok ?s"
      using assms(1) empty by (auto simp: wake_ok_def sleep_ok_def event_clear_def)
    moreover have "even (event_unset ?n)" by (simp add: event_unset_def)
    ultimately show ?thesis using empty by (simp add: do_run_one_def event_wait_def event_clear_def)
  next
    case task
    let ?f = "place_update (\<lambda>_. In_Task c (q = []))"
    let ?s = "on_thread i ?f (on_svc (task_interrupted_update (\<lambda>_. q \<noteq> [])) (on_svc (ready_ops_update (\<lambda>_. q)) s))"
    have th: "threads ?s = (threads s)[i := ?f (threads s ! i)]" by (simp add: threads_on_thread)
    have none: "\<not> some_thread (\<lambda>p. \<exists>c. p = In_Task c True) s"
      using reactor_facts(2) [OF assms(2) task(2)] in_task_reactor by blast
    show ?thesis
    proof (cases "q = []")
      case False
      have none1: "\<not> some_thread (\<lambda>p. \<exists>c. p = In_Task c True) ?s"
        using none at(1) False by (auto simp: some_thread_nth th nth_list_update split: if_splits)
      have "sleep_ok ?s"
        by (rule sleep_ok_upd [OF _ at(1) th]) (use assms(1) at none1 False in \<open>simp_all add: wake_ok_def\<close>)
      moreover have "waiter_ok w ?s"
        using at by (intro waiter_ok_upd [OF assms(3) _ th]) (auto simp: blocked_def)
      ultimately have "wake_ok (unlock_and_signal_one w ?s)" using none1 by (rule wake_ok_unlock)
      with False task assms(5) show ?thesis by (simp add: do_run_one_def Let_def)
    next
      case True
      have "total waiting ?s = total waiting s" using at by (simp add: total_on_thread waiting_def)
      with assms(1) True task have "wake_ok ?s" by (simp add: wake_ok_def sleep_ok_def)
      with True task show ?thesis by (simp add: do_run_one_def Let_def)
    qed
  next
    case op
    have "wake_ok (start_operation w i c x (q \<noteq> []) (on_svc (ready_ops_update (\<lambda>_. q)) s))"
      by (rule wake_ok_start_operation [OF assms(1-4) _ _ assms(5)]) simp_all
    with op show ?thesis by (simp add: do_run_one_def Let_def)
  qed
qed

lemma wake_ok_poll_operation:
  assumes "wake_ok s" "books_ok s" "waiter_ok w s" "thread_at i p s" "\<And>b. \<not> idle b p" "waits p = 0" "\<not> one_thread (svc s)"
  shows "wake_ok (poll_operation w i c s)"
proof (cases "ready_ops (svc s)")
  case Nil
  note at = thread_atD [OF assms(4)]
  have "sleep_ok (on_thread i (place_update (\<lambda>_. Outside)) s)"
    by (rule sleep_ok_upd [OF _ at(1) threads_on_thread]) (use assms(1,6) at in \<open>simp_all add: wake_ok_def\<close>)
  with Nil show ?thesis by (simp add: poll_operation_def wake_ok_def)
next
  case (Cons x q)
  have "wake_ok (start_operation w i c x (q \<noteq> []) (on_svc (ready_ops_update (\<lambda>_. q)) s))"
    by (rule wake_ok_start_operation [OF assms]) simp_all
  with Cons show ?thesis by (simp add: poll_operation_def)
qed

lemma wake_ok_poll:
  assumes "wake_ok s" "books_ok s" "waiter_ok w s" "thread_at i (At_Poll c) s" "\<not> one_thread (svc s)"
  shows "wake_ok (do_poll_one w i c s)"
proof -
  note at = thread_atD [OF assms(4)]
  have out: "wake_ok (on_thread i (place_update (\<lambda>_. Outside)) s)" if "is_stopped (svc s)"
    by (rule wake_ok_upd [OF assms(1) at(1) threads_on_thread]) (use that at in simp_all)
  have task: "wake_ok (on_thread i (place_update (\<lambda>_. In_Task c False)) (on_svc (ready_ops_update (\<lambda>_. q)) s))"
    if "ready_ops (svc s) = Task_Operation # q" for q
    by (rule wake_ok_upd [OF assms(1) at(1), where t = "(threads s ! i)\<lparr>place := In_Task c False\<rparr>"])
      (use that at in \<open>simp_all add: threads_on_thread\<close>)
  have "wake_ok (poll_operation w i c s)"
    by (rule wake_ok_poll_operation [OF assms(1-4) _ _ assms(5)]) simp_all
  with out task show ?thesis by (auto simp: do_poll_one_def split: list.split oper.split)
qed


lemma wake_waiter_upd:
  assumes "\<not> blocked (ts ! i)" "\<not> blocked t" "i < length ts"
  shows "(wake_waiter w ts)[i := t] = wake_waiter w (ts[i := t])"
proof (cases "w = i")
  case True
  then have "wake_waiter w ts = ts" "wake_waiter w (ts[i := t]) = ts[i := t]"
    using assms by (auto simp: wake_waiter_def blocked_def split: place.splits)
  then show ?thesis by simp
qed (use assms in \<open>auto simp: wake_waiter_def blocked_def list_update_swap split: place.splits\<close>)

lemma wake_ok_after:
  assumes "wake_ok s" "books_ok s" "waiter_ok w s" "thread_at i (After_Task c) s" "\<not> one_thread (svc s)"
  shows "wake_ok (do_poll_one_after_task w i c s)"
proof -
  note at = thread_atD [OF assms(4)]
  let ?f = "place_update (\<lambda>_. Outside)" and ?t = "(threads s ! i)\<lparr>place := Outside\<rparr>"
  have task: "wake_ok (on_thread i ?f (snd (maybe_unlock_and_signal_one w s)))"
    if q: "ready_ops (svc s) = Task_Operation # q" for q
  proof -
    let ?s = "on_thread i ?f s"
    have nb: "\<not> blocked (threads s ! i)" "\<not> blocked ?t" using at by (simp_all add: blocked_def)
    have none: "\<not> some_thread (\<lambda>p. \<exists>c. p = In_Task c True) s"
      using reactor_facts(2) [OF assms(2) q] in_task_reactor by blast
    then have none1: "\<not> some_thread (\<lambda>p. \<exists>c. p = In_Task c True) ?s"
      using at(1) by (auto simp: some_thread_nth threads_on_thread nth_list_update split: if_splits)
    have "sleep_ok ?s"
      by (rule sleep_ok_upd [OF _ at(1) threads_on_thread]) (use assms(1) at in \<open>simp_all add: wake_ok_def\<close>)
    moreover have "waiter_ok w ?s" by (rule waiter_ok_upd [OF assms(3) nb(1) threads_on_thread]) (use nb in simp)
    ultimately have "wake_ok (unlock_and_signal_one w ?s)" using none1 by (rule wake_ok_unlock)
    moreover have "on_thread i ?f (snd (maybe_unlock_and_signal_one w s)) = unlock_and_signal_one w ?s"
      using at(1) nb wake_waiter_upd [OF nb at(1), of w]
      by (simp add: maybe_unlock_eq unlock_and_signal_one_def Let_def on_thread_def on_svc_def nth_wake_waiter)
    ultimately show ?thesis by simp
  qed
  have "wake_ok (poll_operation w i c s)"
    by (rule wake_ok_poll_operation [OF assms(1-4) _ _ assms(5)]) simp_all
  with task show ?thesis by (auto simp: do_poll_one_after_task_def split: list.split oper.split)
qed

text \<open>Waking up.\<close>

lemma wake_ok_spurious:
  assumes "wake_ok s" "thread_at i (Blocked c) s"
  shows "wake_ok (on_thread i (place_update (\<lambda>_. Signalled c)) s)" (is "wake_ok ?s")
proof -
  note at = thread_atD [OF assms(2)]
  have tot: "total waiting ?s = total waiting s" using at by (simp add: total_on_thread waiting_def)
  have from_s: "some_thread P s" if "some_thread P ?s" "\<not> P (Signalled c)" for P
    using that at(1) by (auto simp: some_thread_nth threads_on_thread nth_list_update split: if_splits)
  have to_s: "some_thread P ?s" if "some_thread P s" "\<not> P (Blocked c)" for P
  proof -
    from that(1) obtain j where j: "j < length (threads s)" "P (place (threads s ! j))" by (auto simp: some_thread_nth)
    with that(2) at have "j \<noteq> i" by auto
    with j show ?thesis by (auto simp: some_thread_nth threads_on_thread nth_list_update)
  qed
  have "some_thread (looks b) ?s" for b
    using at(1) by (auto simp: some_thread_nth threads_on_thread intro!: exI [of _ i])
  with from_s to_s [of "active (interrupter s)"] assms(1) show ?thesis
    by (auto simp: wake_ok_def sleep_ok_def tot)
qed

lemma wake_ok_woken:
  assumes "wake_ok s" "thread_at i (Signalled c) s"
  shows "wake_ok (event_woken c i s)"
proof -
  note at = thread_atD [OF assms(2)]
  let ?n = "wakeup_event (svc s)"
  have "1 \<le> total waiting s"
    using total_ge [of i s waiting] at waits_bounds(1) by (simp add: waiting_def)
  with assms(1) have n: "2 \<le> ?n" by (simp add: wake_ok_def sleep_ok_def) linarith
  show ?thesis
  proof (cases "even ?n")
    case True
    let ?s = "on_thread i (place_update (\<lambda>_. Blocked c)) s"
    have "on_svc (wakeup_event_update (\<lambda>n. n + 2)) (on_svc (wakeup_event_update (\<lambda>n. n - 2)) s) = s"
      by (rule system.equality; (rule task_io_service.equality)?) (use n in simp_all)
    moreover have "even (wakeup_event (svc (on_svc (wakeup_event_update (\<lambda>n. n - 2)) s)))" using True n by simp
    ultimately have e: "event_woken c i s = ?s"
      unfolding event_woken_def event_wait_def by (simp only: if_True)
    have tot: "total waiting ?s = total waiting s" using at by (simp add: total_on_thread waiting_def)
    have from_s: "some_thread P s" if "some_thread P ?s" "\<not> P (Blocked c)" for P
      using that at(1) by (auto simp: some_thread_nth threads_on_thread nth_list_update split: if_splits)
    have to_s: "some_thread P ?s" if "some_thread P s" "\<not> P (Signalled c)" for P
    proof -
      from that(1) obtain j where j: "j < length (threads s)" "P (place (threads s ! j))" by (auto simp: some_thread_nth)
      with that(2) at have "j \<noteq> i" by auto
      with j show ?thesis by (auto simp: some_thread_nth threads_on_thread nth_list_update)
    qed
    have "some_thread (looks b) s1" if "some_thread (active b) s1" for b s1
      using that active_looks by (auto simp: some_thread_def)
    with from_s [of "\<lambda>p. \<exists>c. p = In_Task c True"] to_s [of "active (interrupter s)"] assms(1) True show ?thesis
      unfolding e by (auto simp: wake_ok_def sleep_ok_def tot)
  next
    case False
    let ?s = "on_thread i (place_update (\<lambda>_. At_Loop c)) (on_svc (wakeup_event_update (\<lambda>n. n - 2)) s)"
    have e: "event_woken c i s = ?s" "odd (?n - 2)" "int ((?n - 2) div 2) = int (?n div 2) - 1"
      using False n by (simp_all add: event_woken_def event_wait_def)
    have tot: "total waiting ?s = total waiting s - 1" using at by (simp add: total_on_thread waiting_def)
    have from_s: "some_thread P s" if "some_thread P ?s" "\<not> P (At_Loop c)" for P
      using that at(1) by (auto simp: some_thread_nth threads_on_thread nth_list_update split: if_splits)
    have "some_thread (looks b) ?s" for b
      using at(1) by (auto simp: some_thread_nth threads_on_thread intro!: exI [of _ i])
    with from_s assms(1) show ?thesis
      unfolding e(1) using e(2,3) by (auto simp: wake_ok_def sleep_ok_def tot)
  qed
qed


text \<open>The acts of a call.\<close>

lemma wake_ok_act:
  assumes "wake_ok s0" "books_ok s0" "waiter_ok w s0" "i < length (threads s0)" "todo (threads s0 ! i) = a # as"
  shows "wake_ok (do_act w i a (on_thread i (todo_update (\<lambda>_. as)) s0))"
proof -
  let ?s = "on_thread i (todo_update (\<lambda>_. as)) s0"
  have ok: "wake_ok ?s" by (rule places_cong(2) [OF _ _ _ _ _ assms(1)]) simp_all
  then have sl: "sleep_ok ?s" by (simp add: wake_ok_def)
  have b: "has_task (svc ?s)" if "some_thread (\<lambda>p. \<exists>c. p = In_Task c True) ?s"
  proof -
    have "some_thread (\<lambda>p. \<exists>c. p = In_Task c True) s0"
      using that assms(4) by (auto simp: some_thread_nth threads_on_thread nth_list_update split: if_splits)
    then show ?thesis using reactor_facts(1) [OF assms(2)] in_task_reactor by simp
  qed
  have w: "waiter_ok w ?s" using assms(3) waiter_ok_cong [of ?s s0] by simp
  show ?thesis
  proof (cases a)
    case (Push os)
    have "sleep_ok (push_ops os ?s)" by (rule places_cong(1) [OF _ _ _ _ _ sl]) simp_all
    moreover have "waiter_ok w (push_ops os ?s)" using w waiter_ok_cong [of "push_ops os ?s" ?s] by simp
    ultimately have "wake_ok (wake_one_thread_and_unlock w (push_ops os ?s))"
      by (rule wake_ok_wake_one) (use b in \<open>simp add: some_thread_def\<close>)
    with Push show ?thesis by simp
  next
    case Init_Task
    let ?p = "push_ops [Task_Operation] (on_svc (has_task_update (\<lambda>_. True)) ?s)"
    have "sleep_ok ?p" by (rule places_cong(1) [OF _ _ _ _ _ sl]) simp_all
    moreover have "waiter_ok w ?p" using w waiter_ok_cong [of ?p ?s] by simp
    ultimately have "wake_ok (wake_one_thread_and_unlock w ?p)" by (rule wake_ok_wake_one) simp
    with Init_Task ok show ?thesis by (simp add: init_task_def)
  next
    case Stop_All
    let ?t = "event_signal_all (on_svc (is_stopped_update (\<lambda>_. True)) ?s)"
    have th: "threads ?t = wake_all (threads ?s)" by (simp add: event_signal_all_def)
    have from_s: "some_thread P ?s" if "some_thread P ?t" "\<And>c. \<not> P (Signalled c)" for P
    proof -
      from that(1) obtain j where "j < length (threads ?s)" "P (place (wake_all (threads ?s) ! j))"
        by (auto simp: some_thread_nth th)
      with that(2) show ?thesis
        by (auto simp: some_thread_nth place_wake_all split: place.splits intro!: exI [of _ j])
    qed
    have nb: "\<not> some_thread (\<lambda>p. \<exists>c. p = Blocked c) ?t"
      by (auto simp: some_thread_nth th place_wake_all split: place.splits)
    have tot: "total waiting ?t = total waiting ?s" by (simp add: total_def th map_wake_all)
    have in_task: "interrupter (interrupt_task ?t)" if "some_thread (\<lambda>p. \<exists>c. p = In_Task c True) ?t"
      using from_s [OF that] b sl by (auto simp: interrupt_task_def sleep_ok_def event_signal_all_def)
    have thr: "threads (interrupt_task ?t) = threads ?t" by (simp add: interrupt_task_def)
    have "\<not> some_thread (idle (interrupter (interrupt_task ?t))) (interrupt_task ?t)"
      using nb in_task by (fastforce simp: some_thread_def thr elim!: idle.elims)
    moreover have "sleep_ok (interrupt_task ?t)"
    proof -
      have sm: "some_thread P (interrupt_task ?t) = some_thread P ?t" for P by (simp add: some_thread_def thr)
      have tt: "total waiting (interrupt_task ?t) = total waiting ?s" using tot by (simp add: total_def thr)
      have ev: "wakeup_event (svc (interrupt_task ?t)) = event_set (wakeup_event (svc ?s))"
        by (simp add: interrupt_task_def event_signal_all_def)
      have "int (event_set (wakeup_event (svc ?s)) div 2) = total waiting ?s"
        using sl by (simp only: sleep_ok_def event_set_facts)
      with calculation in_task event_set_facts(1) [of "wakeup_event (svc ?s)"] show ?thesis
        unfolding sleep_ok_def tt ev sm by blast
    qed
    ultimately show ?thesis
      using Stop_All by (simp add: wake_ok_def) (simp add: stop_all_threads_def)
  next
    case Reset
    with ok show ?thesis by (auto simp: wake_ok_def sleep_ok_def some_thread_def total_def)
  next
    case Finish_Work
    then show ?thesis
      by simp (rule places_cong(2) [OF _ _ _ _ _ ok]; simp add: work_finished_def Let_def split: if_splits)
  next
    case (Start_Work kept)
    have "wake_ok ((work_started ?s)\<lparr>held := h\<rparr>)" for h
      by (rule places_cong(2) [OF _ _ _ _ _ ok]) (simp_all add: work_started_def)
    with Start_Work show ?thesis by simp
  qed
qed


text \<open>Changes of one thread that are no business of those that sleep.\<close>

lemma one_thread_kept: "step quiet s s1 \<Longrightarrow> one_thread (svc s1) = one_thread (svc s)"
proof (induction rule: step.induct)
  case (act i s a as w)
  then show ?case by (cases a) (simp_all add: work_started_def work_finished_def init_task_def Let_def)
qed (auto simp: enter_def do_run_one_def do_poll_one_def do_poll_one_after_task_def poll_operation_def start_operation_def
  event_wait_def event_clear_def event_woken_def task_ran_def task_cleanup_count_def task_cleanup_queue_def
  perform_none_def perform_some_def work_cleanup_count_def work_cleanup_queue_def work_finished_def
  post_immediate_completion_def do_dispatch_def post_deferred_completions_def call_act_def Let_def
  split: list.split oper.split)

lemma wake_ok_places:
  assumes "wake_ok s" "map place (threads s1) = map place (threads s)" "svc s1 = svc s" "interrupter s1 = interrupter s"
  shows "wake_ok s1"
  using assms(2-4) by (intro places_cong(2) [OF _ _ _ _ _ assms(1)]) simp_all

lemma wake_ok_task:
  assumes "wake_ok s" "books_ok s" "thread_at i (In_Task c b) s"
  shows "wake_ok (task_ran i c os consumed s)"
proof -
  note at = thread_atD [OF assms(3)]
  let ?t = "(threads s ! i)\<lparr>private_op_queue := private_op_queue (threads s ! i) @ os, place := Task_Done c\<rparr>"
  have th: "threads (task_ran i c os consumed s) = (threads s)[i := ?t]"
    by (simp add: task_ran_def threads_on_thread)
  have "\<not> some_thread (\<lambda>p. \<exists>c. p = In_Task c True) (task_ran i c os consumed s)"
    by (rule reactor_facts(3) [OF assms(2) at(1) _ th]) (use at in simp_all)
  then show ?thesis
    by (intro wake_ok_upd [OF assms(1) at(1) th]) (use at in \<open>simp_all add: task_ran_def\<close>)
qed

lemma wake_ok_task_count:
  assumes "wake_ok s" "thread_at i (Task_Done c) s"
  shows "wake_ok (task_cleanup_count i c s)"
proof -
  note at = thread_atD [OF assms(2)]
  let ?t = "(threads s ! i)\<lparr>private_outstanding_work := 0, place := Task_Counted c\<rparr>"
  have th: "threads (task_cleanup_count i c s) = (threads s)[i := ?t]"
    by (simp add: task_cleanup_count_def Let_def threads_on_thread)
  show ?thesis
    by (rule wake_ok_upd [OF assms(1) at(1) th]) (use at in \<open>simp_all add: task_cleanup_count_def Let_def split: if_splits\<close>)
qed

lemma wake_ok_task_queue:
  assumes "wake_ok s" "books_ok s" "thread_at i (Task_Counted c) s"
  shows "wake_ok (task_cleanup_queue i c s)"
proof -
  note at = thread_atD [OF assms(3)]
  let ?p = "if c = Run \<or> c = Run_One then At_Loop c else After_Task c"
  let ?t = "(threads s ! i)\<lparr>private_op_queue := [], place := ?p\<rparr>"
  have th: "threads (task_cleanup_queue i c s) = (threads s)[i := ?t]"
    by (simp add: task_cleanup_queue_def threads_on_thread)
  have "\<not> some_thread (\<lambda>p. \<exists>c. p = In_Task c True) (task_cleanup_queue i c s)"
    by (rule reactor_facts(3) [OF assms(2) at(1) _ th]) (use at in simp_all)
  then show ?thesis
    by (intro wake_ok_upd [OF assms(1) at(1) th]) (use at in \<open>simp_all add: task_cleanup_queue_def\<close>)
qed

lemma wake_ok_work_count:
  assumes "wake_ok s" "thread_at i (Op_Done c thrown) s"
  shows "wake_ok (work_cleanup_count i c thrown s)"
proof -
  note at = thread_atD [OF assms(2)]
  let ?as = "if private_outstanding_work (threads s ! i) < 1 \<and> outstanding_work (svc s) - 1 = 0
    then Stop_All # todo (threads s ! i) else todo (threads s ! i)"
  have th: "threads (work_cleanup_count i c thrown s)
      = (threads s)[i := (threads s ! i)\<lparr>todo := ?as, private_outstanding_work := 0, place := Op_Counted c thrown\<rparr>]"
    using at(1) by (auto simp: work_cleanup_count_def work_finished_def Let_def threads_on_thread
        intro!: arg_cong [where f = "list_update (threads s) i"] thread.equality)
  show ?thesis
    by (rule wake_ok_upd [OF assms(1) at(1) th])
      (use at in \<open>simp_all add: work_cleanup_count_def work_finished_def Let_def split: if_splits\<close>)
qed

lemma wake_ok_work_queue:
  assumes "wake_ok s" "thread_at i (Op_Counted c thrown) s"
    "after_op c thrown \<noteq> Outside \<or> private_op_queue (threads s ! i) = []"
  shows "wake_ok (work_cleanup_queue i c thrown s)"
proof -
  note at = thread_atD [OF assms(2)]
  let ?t = "(threads s ! i)\<lparr>private_op_queue := [], place := after_op c thrown\<rparr>"
  have th: "threads (work_cleanup_queue i c thrown s) = (threads s)[i := ?t]"
    by (simp add: work_cleanup_queue_def threads_on_thread)
  have p: "after_op c thrown = Outside \<or> after_op c thrown = At_Loop Run \<or> after_op c thrown = At_Poll Poll"
    by (cases c) (simp_all add: after_op_def)
  then have "waits (after_op c thrown) = 0" "\<not> idle b (after_op c thrown)" "after_op c thrown \<noteq> In_Task c1 True"
    "after_op c thrown \<noteq> Outside \<longrightarrow> active b (after_op c thrown)" for b c1 by auto
  with assms(3) show ?thesis
    by (intro wake_ok_upd [OF assms(1) at(1) th]) (use at in \<open>auto simp: work_cleanup_queue_def\<close>)
qed

lemma wake_ok_in_op:
  assumes "wake_ok s" "thread_at i p s" "\<And>b. \<not> looks b p" "waits p = 0"
    "threads s1 = (threads s)[i := t]" "svc s1 = svc s" "interrupter s1 = interrupter s"
    "waits (place t) = 0" "\<And>b. \<not> idle b (place t)" "\<And>c. place t \<noteq> In_Task c True"
  shows "wake_ok s1"
  using assms(2-4,6-) thread_atD [OF assms(2)] active_looks [of _ p]
  by (intro wake_ok_upd [OF assms(1) thread_atD(1) [OF assms(2)] assms(5)]) auto


lemma wake_ok_perform:
  assumes "wake_ok s" "thread_at i (In_Op c (Descriptor d) False) s"
  shows "wake_ok (perform_none i c x s)" "wake_ok (perform_some i c os s)"
proof -
  note at = thread_atD [OF assms(2)]
  show "wake_ok (perform_none i c x s)"
    unfolding perform_none_def by (rule wake_ok_in_op [OF assms _ _ threads_on_thread]) simp_all
  let ?s = "on_thread i (place_update (\<lambda>_. In_Op c (hd os) True)) (s\<lparr>held := held s - length os\<rparr>)"
  have "wake_ok ?s"
    by (rule wake_ok_in_op [OF assms, of _ "(threads s ! i)\<lparr>place := In_Op c (hd os) True\<rparr>"]) (simp_all add: threads_on_thread)
  then show "wake_ok (perform_some i c os s)"
    by (rule wake_ok_places) (simp_all add: perform_some_def post_deferred_completions_def)
qed

lemma wake_ok_enter:
  assumes "wake_ok s" "thread_at i Outside s"
  shows "wake_ok (enter i c s)"
proof -
  note at = thread_atD [OF assms(2)]
  let ?p = "if c = Run \<or> c = Run_One then At_Loop c else At_Poll c"
  let ?f = "\<lambda>t. t\<lparr>private_op_queue := [], private_outstanding_work := 0, place := ?p\<rparr>"
  have "wake_ok (on_thread i (todo_update (\<lambda>as. as @ [Stop_All])) s)" by (rule wake_ok_places [OF assms(1)]) simp_all
  moreover have "wake_ok (on_thread i ?f s)"
    by (rule wake_ok_upd [OF assms(1) at(1) threads_on_thread]) (use at in simp_all)
  ultimately show ?thesis by (simp add: enter_def)
qed

lemma wake_ok_step:
  assumes "step True s s1" "books_ok s" "wake_ok s" "\<not> one_thread (svc s)"
  shows "wake_ok s1"
  using assms(1)
proof (cases rule: step.cases)
  case (act i a as w)
  with assms(2,3) show ?thesis by (simp add: wake_ok_act)
next
  case (finish i c x thrown)
  then show ?thesis
    using wake_ok_in_op [OF assms(3) finish(2) _ _ threads_on_thread] by simp
next
  case (post i x is_continuation)
  show ?thesis unfolding post(1)
    by (rule wake_ok_places [OF assms(3)]) (simp_all add: post_immediate_completion_def)
next
  case (dispatch i x)
  show ?thesis unfolding dispatch(1) by (rule wake_ok_places [OF assms(3)]) (simp_all add: do_dispatch_def)
next
  case (post_deferred i os)
  show ?thesis unfolding post_deferred(1)
    by (rule wake_ok_places [OF assms(3)]) (simp_all add: post_deferred_completions_def)
next
  case (keep_work i)
  show ?thesis unfolding keep_work(1) by (rule wake_ok_places [OF assms(3)]) (simp_all add: call_act_def)
next
  case (drop_work i)
  show ?thesis unfolding drop_work(1) by (rule wake_ok_places [OF assms(3)]) (simp_all add: call_act_def)
next
  case (control i a)
  show ?thesis unfolding control(1) by (rule wake_ok_places [OF assms(3)]) (simp_all add: call_act_def)
qed (use assms(2-4) in \<open>simp_all add: wake_ok_enter wake_ok_loop wake_ok_poll wake_ok_after wake_ok_spurious
  wake_ok_woken wake_ok_task wake_ok_task_count wake_ok_task_queue wake_ok_perform wake_ok_work_count wake_ok_work_queue\<close>)

lemma reachable_one_thread: "reachable quiet s \<Longrightarrow> \<exists>n k. one_thread (svc s) = one_thread (svc (new_system n k))"
  by (induction rule: reachable.induct) (auto simp: one_thread_kept)

lemma wake_ok_reachable:
  assumes "reachable True s" "\<not> one_thread (svc s)"
  shows "wake_ok s"
  using assms by (induction rule: reachable.induct) (auto simp: wake_ok_new one_thread_kept intro: wake_ok_step books_ok_reachable)

section \<open>The theorems\<close>

text \<open>
  C25. No wake-up is lost, in every execution in which no thread leaves the service with operations in its
  own queue (the next theorem shows what happens when one does). In every state such an execution of a
  service that expects more than one thread reaches: while an operation waits in the common queue and some
  thread sleeps on the event or in the reactor, another thread looks at the queue next or has been woken to
  do so; and a stopped service has no sleeping thread. The signal to a sleeping thread counts as part of
  the critical section before it.
\<close>

theorem no_lost_wakeup:
  assumes "reachable True s" "\<not> one_thread (svc s)"
    and "i < length (threads s)" "idle (interrupter s) (place (threads s ! i))"
  shows "\<not> is_stopped (svc s) \<and> (ready_ops (svc s) \<noteq> [] \<longrightarrow>
    (\<exists>j < length (threads s). looks (interrupter s) (place (threads s ! j))))"
proof -
  have "some_thread (idle (interrupter s)) s" using assms(3,4) by (auto simp: some_thread_nth)
  with wake_ok_reachable [OF assms(1,2)] show ?thesis
    by (auto simp: wake_ok_def sleep_ok_def some_thread_nth)
qed


theorem no_lost_wakeup_witness:
  "idle (interrupter (outcome True in_reactor_run)) (place (threads (outcome True in_reactor_run) ! 1))
   \<and> \<not> is_stopped (svc (outcome True in_reactor_run))"
proof -
  have "\<not> one_thread (svc (outcome True in_reactor_run))" "1 < length (threads (outcome True in_reactor_run))"
    "idle (interrupter (outcome True in_reactor_run)) (place (threads (outcome True in_reactor_run) ! 1))"
    by code_simp+
  with no_lost_wakeup [OF run_reachable(2)] show ?thesis by blast
qed

text \<open>
  The end of an operation in the thread that executes it, with the counter and the queue of
  \<open>work_cleanup\<close>; and the first of the actions a call has left the thread to do.
\<close>

definition operation_ends :: "nat \<Rightarrow> caller \<Rightarrow> bool \<Rightarrow> system \<Rightarrow> system" where
  "operation_ends i c thrown s =
     work_cleanup_queue i c thrown (work_cleanup_count i c thrown (on_thread i (place_update (\<lambda>_. Op_Done c thrown)) s))"

definition next_act :: "nat \<Rightarrow> nat \<Rightarrow> system \<Rightarrow> system" where
  "next_act w i s =
     (case todo (threads s ! i) of
        [] \<Rightarrow> s
      | a # as \<Rightarrow> do_act w i a (on_thread i (todo_update (\<lambda>_. as)) s))"

text \<open>Every execution in which no thread leaves with operations is an execution.\<close>

lemma quiet_step: "step True s s1 \<Longrightarrow> step quiet s s1"
  by (erule step.cases) (auto intro: step.intros step.drop_work [simplified])

lemma quiet_reachable: "reachable True s \<Longrightarrow> reachable quiet s"
  by (induction rule: reachable.induct) (auto intro: reachable.intros quiet_step)

text \<open>A handler that posts its continuation and returns to the caller of \<open>run_one\<close> or \<open>poll_one\<close>.\<close>

lemma continuation_left:
  fixes x :: oper
  assumes "reachable True s" "thread_at i (In_Op c y True) s" "c = Run_One \<or> c = Poll_One"
  defines "s1 \<equiv> operation_ends i c False (post_immediate_completion i x True s)"
  shows "ready_ops (svc s1) = ready_ops (svc s) @ private_op_queue (threads s ! i) @ [x]"
    "is_stopped (svc s1) = is_stopped (svc s)" "interrupter s1 = interrupter s" "length (threads s1) = length (threads s)"
    "j < length (threads s) \<Longrightarrow> j \<noteq> i \<Longrightarrow> threads s1 ! j = threads s ! j"
    "place (threads s1 ! i) = Outside" "todo (threads s1 ! i) = []"
proof -
  note at = thread_atD [OF assms(2)]
  have "0 \<le> private_outstanding_work (threads s ! i)"
    using all_threads_at [OF _ at(1), of thread_ok] books_ok_reachable [OF assms(1)] by (simp add: books_ok_def thread_ok_def)
  moreover have "after_op c False = Outside" using assms(3) by (auto simp: after_op_def)
  ultimately show "ready_ops (svc s1) = ready_ops (svc s) @ private_op_queue (threads s ! i) @ [x]"
    "is_stopped (svc s1) = is_stopped (svc s)" "interrupter s1 = interrupter s" "length (threads s1) = length (threads s)"
    "j < length (threads s) \<Longrightarrow> j \<noteq> i \<Longrightarrow> threads s1 ! j = threads s ! j"
    "place (threads s1 ! i) = Outside" "todo (threads s1 ! i) = []"
    using at by (simp_all add: s1_def operation_ends_def post_immediate_completion_def call_stack_contains_def
        work_cleanup_count_def work_cleanup_queue_def Let_def)
qed

lemma continuation_reachable:
  assumes "reachable True s" "thread_at i (In_Op c y True) s" "fresh_handlers [x] s"
  shows "reachable False (operation_ends i c thrown (post_immediate_completion i x True s))"
proof -
  note at = thread_atD [OF assms(2)]
  let ?s1 = "post_immediate_completion i x True s"
  have "caller_at i s" using at by (simp add: caller_at_def)
  then have 1: "reachable False ?s1" by (rule reachable.step [OF quiet_reachable [OF assms(1)] step.post [OF _ assms(3)]])
  have a1: "thread_at i (In_Op c y True) ?s1"
    using at by (simp add: thread_at_def post_immediate_completion_def call_stack_contains_def)
  let ?s2 = "on_thread i (place_update (\<lambda>_. Op_Done c thrown)) ?s1"
  have 2: "reachable False ?s2" by (rule reachable.step [OF 1 step.finish [OF a1]])
  have a2: "thread_at i (Op_Done c thrown) ?s2" using thread_atD [OF a1] by (simp add: thread_at_def)
  have 3: "reachable False (work_cleanup_count i c thrown ?s2)" by (rule reachable.step [OF 2 step.work_count [OF a2]])
  have "0 \<le> private_outstanding_work (threads s ! i)"
    using all_threads_at [OF _ at(1), of thread_ok] books_ok_reachable [OF assms(1)] by (simp add: books_ok_def thread_ok_def)
  then have a3: "thread_at i (Op_Counted c thrown) (work_cleanup_count i c thrown ?s2)"
    using at by (simp add: thread_at_def work_cleanup_count_def post_immediate_completion_def call_stack_contains_def Let_def)
  show ?thesis
    unfolding operation_ends_def by (rule reachable.step [OF 3 step.work_queue [OF a3]]) simp
qed

text \<open>A handler that posts another otherwise leaves the thread two actions, which every service allows.\<close>

lemma next_act_reachable:
  assumes "reachable quiet s" "i < length (threads s)" "waiter_ok w s"
  shows "reachable quiet (next_act w i s)"
  using assms by (auto simp: next_act_def split: list.split intro: reachable.step [OF _ step.act])

lemma posted_looks:
  assumes "reachable True s" "thread_at i (In_Op c y True) s" "fresh_handlers [x] s" "\<not> one_thread (svc s)"
    and "j < length (threads s)" "j \<noteq> i" "idle (interrupter s) (place (threads s ! j))" "waiter_ok w s"
  defines "s3 \<equiv> next_act w i (next_act w i (post_immediate_completion i x False s))"
  shows "x \<in> set (ready_ops (svc s3))" "some_thread (looks (interrupter s3)) s3"
proof -
  note at = thread_atD [OF assms(2)]
  define s1 where "s1 = post_immediate_completion i x False s"
  define s2 where "s2 = next_act w i s1"
  have t: "todo_update (\<lambda>as. as @ bs) r = r\<lparr>todo := bs\<rparr>" if "todo r = []" for bs and r :: thread
    using that by (cases r) simp
  have s1: "s1 = s\<lparr>threads := (threads s)[i := (threads s ! i)\<lparr>todo := [Start_Work False, Push [x]]\<rparr>]\<rparr>"
    using assms(4) by (simp add: s1_def post_immediate_completion_def on_thread_def t [OF at(2)])
  have s2: "threads s2 = (threads s)[i := (threads s ! i)\<lparr>todo := [Push [x]]\<rparr>]" "interrupter s2 = interrupter s"
    "is_stopped (svc s2) = is_stopped (svc s)" "one_thread (svc s2) = one_thread (svc s)"
    using at by (simp_all add: s2_def next_act_def s1 on_thread_def work_started_def)
  have s3: "s3 = wake_one_thread_and_unlock w (push_ops [x] (on_thread i (todo_update (\<lambda>_. [])) s2))"
    unfolding s3_def s1_def [symmetric] s2_def [symmetric] using at(1) s2(1) by (simp add: next_act_def)
  have blk: "blocked (threads s1 ! k) = blocked (threads s ! k)" "blocked (threads s2 ! k) = blocked (threads s ! k)"
    if "k < length (threads s)" for k
    using that by (cases "k = i"; simp add: s2(1) s1 blocked_def)+
  have "length (threads s1) = length (threads s)" "length (threads s2) = length (threads s)" by (simp_all add: s1 s2(1))
  then have w: "waiter_ok w s1" "waiter_ok w s2"
    using assms(8) blk by (auto simp: waiter_ok_def all_set_conv_all_nth)
  have "reachable True s1"
    unfolding s1_def using at by (intro reachable.step [OF assms(1) step.post [OF _ assms(3)]]) (simp add: caller_at_def)
  then have "reachable True s3"
    unfolding s3_def s1_def [symmetric] using w at(1) unfolding s2_def
    by (intro next_act_reachable) (simp_all add: s1 s2(1) [unfolded s2_def s1])
  moreover have "\<not> one_thread (svc s3)" using assms(4) s2(4) by (simp add: s3)
  ultimately have ok: "wake_ok s3" by (rule wake_ok_reachable)
  have "\<not> is_stopped (svc s)"
    using wake_ok_reachable [OF assms(1,4)] assms(5,7) by (auto simp: wake_ok_def sleep_ok_def some_thread_nth)
  then have live: "\<not> is_stopped (svc s3)" "ready_ops (svc s3) \<noteq> []" using s2(3) by (simp_all add: s3)
  show "x \<in> set (ready_ops (svc s3))" by (simp add: s3)
  have j: "place (threads s3 ! j) = place (threads s ! j) \<or> (\<exists>c. place (threads s3 ! j) = Signalled c)"
    using place_wake_waiter [of j "threads (on_thread i (todo_update (\<lambda>_. [])) s2)" w] assms(5,6)
    by (auto simp: s3 wake_one_threads s2(1))
  have len: "length (threads s3) = length (threads s)" by (simp add: s3 s2(1))
  show "some_thread (looks (interrupter s3)) s3"
  proof (cases "idle (interrupter s3) (place (threads s3 ! j))")
    case True
    then have "some_thread (idle (interrupter s3)) s3" using assms(5) len by (auto simp: some_thread_nth)
    with ok live show ?thesis by (simp add: wake_ok_def)
  next
    case False
    with j assms(7) have "looks (interrupter s3) (place (threads s3 ! j))"
      by (cases "place (threads s ! j)") auto
    then show ?thesis using assms(5) len by (auto simp: some_thread_nth)
  qed
qed

text \<open>
  One thread runs the reactor for a second, which executes a handler in \<open>run_one\<close>.
\<close>

definition one_handler_run :: "move list" where
  "one_handler_run = [Called 0 Init_Task, Goes 0 0, Posted 0 (Handler 1) False, Goes 0 0, Goes 0 0,
     Enters 0 Run_One, Goes 0 0, Ran 0 [] False, Goes 0 0, Goes 0 0, Goes 0 0,
     Enters 1 Run, Goes 1 0]"

text \<open>
  C26. The restriction is needed. Take any state such an execution reaches in which a thread executes a
  handler in \<open>run_one\<close> or \<open>poll_one\<close>, while some thread sleeps and no other one is up to anything in the
  service. When the handler posts another as its continuation and returns, \<open>run_one\<close> returns and leaves the
  continuation in the common queue, with no one woken: the sleeping threads still sleep, no thread looks
  at the queue, and nothing the service itself can do is left, so that the continuation waits for an
  event or a call from outside. Posted without being called a continuation, it is pushed by the thread
  itself, and then a thread looks at the queue.
\<close>

theorem run_one_strands_handler:
  assumes "reachable True s" "thread_at i (In_Op c y True) s" "c = Run_One \<or> c = Poll_One" "fresh_handlers [x] s"
    and "\<not> one_thread (svc s)" "j < length (threads s)" "j \<noteq> i" "idle (interrupter s) (place (threads s ! j))"
    and "\<forall>k < length (threads s). k \<noteq> i \<longrightarrow>
      todo (threads s ! k) = [] \<and> (place (threads s ! k) = Outside \<or> idle (interrupter s) (place (threads s ! k)))"
  shows "(let s1 = operation_ends i c False (post_immediate_completion i x True s)
      in reachable False s1 \<and> \<not> is_stopped (svc s1) \<and> x \<in> set (ready_ops (svc s1))
        \<and> ready_ops (svc s1) = ready_ops (svc s) @ private_op_queue (threads s ! i) @ [x]
        \<and> idle (interrupter s1) (place (threads s1 ! j))
        \<and> (\<forall>k < length (threads s1). \<not> looks (interrupter s1) (place (threads s1 ! k)))
        \<and> (\<forall>k w. goes False k w s1 = None))
    \<and> (\<forall>w. waiter_ok w s \<longrightarrow>
        (let s1 = next_act w i (next_act w i (post_immediate_completion i x False s))
         in x \<in> set (ready_ops (svc s1)) \<and> (\<exists>k < length (threads s1). looks (interrupter s1) (place (threads s1 ! k)))))"
proof -
  let ?s1 = "operation_ends i c False (post_immediate_completion i x True s)"
  note left = continuation_left [OF assms(1-3), where x = x] and at = thread_atD [OF assms(2)]
  have others: "todo (threads ?s1 ! k) = [] \<and> (place (threads ?s1 ! k) = Outside \<or> idle (interrupter ?s1) (place (threads ?s1 ! k)))"
    if "k < length (threads ?s1)" for k
    using that assms(9) left by (cases "k = i") auto
  have "\<not> is_stopped (svc s)"
    using wake_ok_reachable [OF assms(1,5)] assms(6,8) by (auto simp: wake_ok_def sleep_ok_def some_thread_nth)
  moreover have "\<not> looks (interrupter ?s1) (place (threads ?s1 ! k))" if "k < length (threads ?s1)" for k
    using others [OF that] by (cases "place (threads ?s1 ! k)") auto
  moreover have "goes False k w ?s1 = None" for k w
    using others [of k] by (auto simp: goes_def split: place.splits)
  ultimately show ?thesis
    using left assms(6-8) continuation_reachable [OF assms(1,2,4), of False] posted_looks [OF assms(1,2,4,5-8)]
    by (simp add: some_thread_nth Let_def)
qed

theorem run_one_strands_handler_witness:
  "\<exists>s1. reachable False s1 \<and> ready_ops (svc s1) = [Handler 2] \<and> place (threads s1 ! 0) = Outside
     \<and> place (threads s1 ! 1) = In_Task Run True \<and> (\<forall>k w. goes False k w s1 = None)"
proof -
  let ?s = "outcome True one_handler_run"
  have r: "reachable True ?s" by (rule outcome_reachable) code_simp
  have s: "thread_at 0 (In_Op Run_One (Handler 1) True) ?s" "fresh_handlers [Handler 2] ?s" "\<not> one_thread (svc ?s)"
    "1 < length (threads ?s)" "idle (interrupter ?s) (place (threads ?s ! 1))" "length (threads ?s) = 2"
    "todo (threads ?s ! 1) = []" "ready_ops (svc ?s) = []" "private_op_queue (threads ?s ! 0) = []"
    "place (threads (operation_ends 0 Run_One False (post_immediate_completion 0 (Handler 2) True ?s)) ! 0) = Outside"
    "place (threads (operation_ends 0 Run_One False (post_immediate_completion 0 (Handler 2) True ?s)) ! 1) = In_Task Run True"
    by code_simp+
  have "\<forall>k < length (threads ?s). k \<noteq> 0 \<longrightarrow>
      todo (threads ?s ! k) = [] \<and> (place (threads ?s ! k) = Outside \<or> idle (interrupter ?s) (place (threads ?s ! k)))"
    using s by (auto simp: less_2_cases_iff)
  from run_one_strands_handler [OF r s(1) _ s(2-4) _ s(5) this]
  have "let s1 = operation_ends 0 Run_One False (post_immediate_completion 0 (Handler 2) True ?s)
    in reachable False s1 \<and> ready_ops (svc s1) = [] @ [] @ [Handler 2] \<and> (\<forall>k w. goes False k w s1 = None)"
    unfolding s(8,9) Let_def by simp
  with s(10,11) show ?thesis unfolding Let_def append_Nil by blast
qed

end
