(* ===== verification/Scheduler_Queues.thy ===== *)
theory Scheduler_Queues
  imports Scheduler_Work
begin

text \<open>
  The scheduler's queues hold every operation once, although an operation has room for one queue only,
  and the states of descriptors are reused by the reactor without asking: the task's operation comes
  after all of them, so when the reactor runs none is queued.
\<close>

section \<open>How often an operation is queued\<close>

definition owned_count :: "oper \<Rightarrow> thread \<Rightarrow> int" where
  "owned_count x t = int (count_list (owned t) x)"

definition queued_count :: "oper \<Rightarrow> system \<Rightarrow> int" where
  "queued_count x s = int (count_list (ready_ops (svc s)) x) + total (owned_count x) s"

lemma count_list_concat: "int (count_list (concat (map f ts)) x) = (\<Sum>t\<leftarrow>ts. int (count_list (f t) x))"
  by (induction ts) simp_all

lemma queued_count: "int (count_list (queued s) x) = queued_count x s"
  by (simp add: queued_def queued_count_def total_def owned_count_def [abs_def] count_list_concat)

lemma rousable_owned [simp]: "rousable (owned_count x)"
  by (simp add: rousable_def owned_count_def owned_def)

lemma owned_count_nonneg: "0 \<le> owned_count x t"
  by (simp add: owned_count_def)

lemma fresh_count: "fresh_handlers os s \<Longrightarrow> x \<in> set os \<Longrightarrow> queued_count x s = 0"
proof -
  assume "fresh_handlers os s" "x \<in> set os"
  then have "x \<notin> set (queued s)" by (auto simp: fresh_handlers_def)
  then show ?thesis by (simp add: count_list_0_iff flip: queued_count)
qed

lemma handler_not_descriptor: "is_handler x \<Longrightarrow> \<not> is_descriptor x" "is_handler x \<Longrightarrow> x \<noteq> Task_Operation"
  by (cases x; simp)+

lemma distinct_count: "distinct os \<Longrightarrow> int (count_list os x) = (if x \<in> set os then 1 else 0)"
  by (induction os) auto

text \<open>Descriptors come before the task's operation.\<close>

fun descriptors_first :: "oper list \<Rightarrow> bool" where
  "descriptors_first [] = True"
| "descriptors_first (Task_Operation # q) = list_all (\<lambda>x. \<not> is_descriptor x) q"
| "descriptors_first (Descriptor d # q) = (Task_Operation \<in> set q \<and> descriptors_first q)"
| "descriptors_first (Handler n # q) = descriptors_first q"

lemma no_descriptors_first: "list_all (\<lambda>x. \<not> is_descriptor x) q \<Longrightarrow> descriptors_first q"
  by (induction q rule: descriptors_first.induct) auto

lemma descriptors_first_tl: "descriptors_first (x # q) \<Longrightarrow> descriptors_first q"
  by (cases x) (auto intro: no_descriptors_first)

lemma descriptors_first_append:
  "descriptors_first q \<Longrightarrow> list_all is_handler os \<Longrightarrow> descriptors_first (q @ os)"
proof (induction q rule: descriptors_first.induct)
  case 1
  then show ?case by (auto intro!: no_descriptors_first simp: list_all_iff handler_not_descriptor)
qed (auto simp: list_all_iff handler_not_descriptor)

lemma descriptors_first_none:
  "descriptors_first q \<Longrightarrow> Task_Operation \<notin> set q \<Longrightarrow> list_all (\<lambda>x. \<not> is_descriptor x) q"
  by (induction q rule: descriptors_first.induct) auto

lemma descriptors_first_task:
  "list_all (\<lambda>x. \<not> is_descriptor x) q \<Longrightarrow> Task_Operation \<notin> set q \<Longrightarrow> Task_Operation \<notin> set os
    \<Longrightarrow> descriptors_first (q @ os @ [Task_Operation])"
proof (induction q)
  case Nil
  then show ?case
  proof (induction os)
    case (Cons x os)
    then show ?case by (cases x) auto
  qed simp
next
  case (Cons x q)
  then show ?case by (cases x) auto
qed

section \<open>The invariant\<close>

definition own_queue_ok :: "thread \<Rightarrow> bool" where
  "own_queue_ok t \<longleftrightarrow> (\<forall>c b. place t = In_Task c b \<longrightarrow> private_op_queue t = [])"

lemma rousable_own_queue [simp]: "rousable own_queue_ok"
  by (auto simp: rousable_def own_queue_ok_def)

definition queues_ok :: "system \<Rightarrow> bool" where
  "queues_ok s \<longleftrightarrow> (\<forall>x. x \<noteq> Task_Operation \<longrightarrow> queued_count x s \<le> 1)
     \<and> descriptors_first (ready_ops (svc s)) \<and> all_threads own_queue_ok s"

lemma queues_ok_new: "queues_ok (new_system n k)"
  by (simp add: queues_ok_def queued_count_def new_system_def new_service_def total_def sum_list_replicate
      all_threads_def own_queue_ok_def owned_count_def owned_def new_thread_def)

text \<open>A step that queues nothing new.\<close>

lemma queues_ok_less:
  assumes "queues_ok s" "\<And>x. x \<noteq> Task_Operation \<Longrightarrow> queued_count x s1 \<le> queued_count x s"
    "descriptors_first (ready_ops (svc s1))" "all_threads own_queue_ok s1"
  shows "queues_ok s1"
  using assms unfolding queues_ok_def by (metis order_trans)

lemma queued_count_wake [simp]:
  "queued_count x (wake_one_thread_and_unlock w s) = queued_count x s"
  "queued_count x (unlock_and_signal_one w s) = queued_count x s"
  "queued_count x (snd (maybe_unlock_and_signal_one w s)) = queued_count x s"
  "queued_count x (stop_all_threads s) = queued_count x s"
  by (simp_all add: queued_count_def)

lemma queued_count_on_thread:
  "i < length (threads s) \<Longrightarrow> queued_count x (on_thread i f s)
     = queued_count x s - owned_count x (threads s ! i) + owned_count x (f (threads s ! i))"
  by (simp add: queued_count_def total_on_thread)

lemma queued_count_svc:
  "ready_ops (f (svc s)) = ready_ops (svc s) \<Longrightarrow> queued_count x (on_svc f s) = queued_count x s"
  "queued_count x (s\<lparr>held := n\<rparr>) = queued_count x s"
  by (simp_all add: queued_count_def)

lemma queued_count_push:
  "queued_count x (push_ops os s) = queued_count x s + int (count_list os x)"
  by (simp add: queued_count_def)

lemma queued_count_pop:
  "ready_ops (svc s) = y # q \<Longrightarrow> queued_count x (on_svc (ready_ops_update (\<lambda>_. q)) s)
     = queued_count x s - (if y = x then 1 else 0)"
  by (simp add: queued_count_def)

lemma owned_simps [simp]:
  "owned (t\<lparr>place := p\<rparr>) = owned t" "owned (t\<lparr>private_outstanding_work := n\<rparr>) = owned t"
  by (simp_all add: owned_def)

lemma own_queue_ok_at:
  "queues_ok s \<Longrightarrow> i < length (threads s) \<Longrightarrow> own_queue_ok (f (threads s ! i)) \<Longrightarrow> all_threads own_queue_ok (on_thread i f s)"
  by (simp add: queues_ok_def all_threads_on_thread)

lemma queues_ok_upd:
  assumes "queues_ok s" "i < length (threads s)" "own_queue_ok (f (threads s ! i))"
    "\<And>x. x \<noteq> Task_Operation \<Longrightarrow> owned_count x (f (threads s ! i)) \<le> owned_count x (threads s ! i)"
  shows "queues_ok (on_thread i f s)"
  using assms(1)
proof (rule queues_ok_less)
  show "descriptors_first (ready_ops (svc (on_thread i f s)))" using assms(1) by (simp add: queues_ok_def)
qed (use assms in \<open>simp_all add: queued_count_on_thread own_queue_ok_at\<close>)

lemma queues_ok_svc:
  "ready_ops (f (svc s)) = ready_ops (svc s) \<Longrightarrow> queues_ok s \<Longrightarrow> queues_ok (on_svc f s)"
  "queues_ok (s\<lparr>held := n\<rparr>) = queues_ok s" "queues_ok (s\<lparr>interrupter := b\<rparr>) = queues_ok s"
  by (simp_all add: queues_ok_def queued_count_svc) (simp add: queued_count_def)

lemma queues_ok_wake [simp]:
  "queues_ok (wake_one_thread_and_unlock w s) = queues_ok s" "queues_ok (unlock_and_signal_one w s) = queues_ok s"
  "queues_ok (snd (maybe_unlock_and_signal_one w s)) = queues_ok s" "queues_ok (stop_all_threads s) = queues_ok s"
  by (simp_all add: queues_ok_def)


section \<open>Every step keeps it\<close>

lemma owned_todo [simp]:
  "owned_count x (t\<lparr>todo := as\<rparr>) = int (count_list (private_op_queue t) x) + int (count_list (concat (map pushes as)) x)"
  by (simp add: owned_count_def owned_def)

lemma owned_count_split:
  "owned_count x t = int (count_list (private_op_queue t) x) + int (count_list (concat (map pushes (todo t))) x)"
  by (simp add: owned_count_def owned_def)

lemma own_queue_todo [simp]: "own_queue_ok (todo_update f t) = own_queue_ok t"
  by (simp add: own_queue_ok_def)

lemma queues_own: "queues_ok s \<Longrightarrow> i < length (threads s) \<Longrightarrow> own_queue_ok (threads s ! i)"
  by (simp add: queues_ok_def all_threads_at)

lemma queues_ok_act:
  assumes "queues_ok s" "books_ok s" "i < length (threads s)" "todo (threads s ! i) = a # as"
  shows "queues_ok (do_act w i a (on_thread i (todo_update (\<lambda>_. as)) s))"
proof -
  let ?s = "on_thread i (todo_update (\<lambda>_. as)) s"
  have ok: "queues_ok ?s"
    using assms by (intro queues_ok_upd) (simp_all add: owned_count_split queues_own)
  have cnt: "queued_count x ?s = queued_count x s - int (count_list (pushes a) x)" for x
    using assms(3,4) by (simp add: queued_count_on_thread owned_count_split)
  show ?thesis
  proof (cases a)
    case (Push os)
    have "list_all is_handler os" using books_ok_thread [OF assms(2,3)] assms(4) Push by (simp add: thread_ok_def)
    then have "queues_ok (push_ops os ?s)"
      using assms(1) ok cnt Push by (intro queues_ok_less [OF assms(1)])
        (simp_all add: queued_count_push queues_ok_def descriptors_first_append)
    with Push show ?thesis by simp
  next
    case Init_Task
    let ?p = "push_ops [Task_Operation] (on_svc (has_task_update (\<lambda>_. True)) ?s)"
    have "queues_ok ?p" if "\<not> has_task (svc s)"
    proof (rule queues_ok_less [OF ok])
      have "count_list (ready_ops (svc s)) Task_Operation = 0"
        using assms(2) that total_nonneg [of s reactor_thread] by (auto simp: books_ok_def reactor_thread_def)
      then have "Task_Operation \<notin> set (ready_ops (svc s))" by (simp add: count_list_0_iff)
      moreover have "descriptors_first (ready_ops (svc s))" using assms(1) by (simp add: queues_ok_def)
      ultimately show "descriptors_first (ready_ops (svc ?p))"
        using descriptors_first_task [of "ready_ops (svc s)" "[]"] descriptors_first_none by simp
    qed (use ok in \<open>simp_all add: queued_count_push queued_count_svc queues_ok_def\<close>)
    with Init_Task ok show ?thesis by (simp add: init_task_def)
  next
    case Finish_Work
    have "queues_ok (on_svc (outstanding_work_update (\<lambda>n. n - 1)) ?s)" by (intro queues_ok_svc ok) simp
    moreover have "queues_ok (on_thread i (todo_update (\<lambda>as. Stop_All # as)) (on_svc (outstanding_work_update (\<lambda>n. n - 1)) ?s))"
      using calculation assms(3) queues_own [OF assms(1,3)]
      by (intro queues_ok_upd) (simp_all add: owned_count_split)
    ultimately show ?thesis using Finish_Work by (simp add: work_finished_def Let_def)
  qed (use ok in \<open>simp_all add: work_started_def queues_ok_svc\<close>)
qed

lemma queues_ok_place:
  assumes "queues_ok s" "i < length (threads s)" "\<And>c b. p = In_Task c b \<Longrightarrow> private_op_queue (threads s ! i) = []"
  shows "queues_ok (on_thread i (place_update (\<lambda>_. p)) s)"
  using assms by (intro queues_ok_upd) (auto simp: owned_count_split own_queue_ok_def)

lemma queues_ok_pop:
  assumes "queues_ok s" "ready_ops (svc s) = y # q"
  shows "queues_ok (on_svc (ready_ops_update (\<lambda>_. q)) s)"
  using assms by (intro queues_ok_less [OF assms(1)])
    (auto simp: queued_count_pop queues_ok_def dest: descriptors_first_tl)

lemma queues_ok_start:
  assumes "queues_ok s" "i < length (threads s)"
  shows "queues_ok (start_operation w i c x m s)"
  using assms by (auto simp: start_operation_def Let_def intro!: queues_ok_place)

lemma idle_empty:
  "books_ok s \<Longrightarrow> thread_at i p s \<Longrightarrow> \<not> in_reactor p \<Longrightarrow> \<not> in_operation p \<Longrightarrow> private_op_queue (threads s ! i) = []"
  using thread_atD [of i p s] books_ok_thread [of s i] by (simp add: thread_ok_def)

lemma queues_ok_wait:
  assumes "queues_ok s" "i < length (threads s)"
  shows "queues_ok (event_wait c i s)"
  using assms by (auto simp: event_wait_def intro!: queues_ok_place queues_ok_svc)

lemma queues_ok_loop:
  assumes "queues_ok s" "books_ok s" "thread_at i (At_Loop c) s"
  shows "queues_ok (do_run_one w i c s)"
proof -
  note at = thread_atD [OF assms(3)] and e = idle_empty [OF assms(2,3)]
  show ?thesis
  proof (cases "ready_ops (svc s)")
    case Nil
    then show ?thesis
      using assms(1) at by (auto simp: do_run_one_def event_clear_def intro!: queues_ok_place queues_ok_wait queues_ok_svc)
  next
    case (Cons y q)
    note pop = queues_ok_pop [OF assms(1) Cons]
    have "queues_ok (on_thread i (place_update (\<lambda>_. In_Task c b)) (on_svc (task_interrupted_update (\<lambda>_. m))
        (on_svc (ready_ops_update (\<lambda>_. q)) s)))" for b m
      using at e by (intro queues_ok_place queues_ok_svc(1) [OF _ pop]) simp_all
    with Cons pop at assms(1) show ?thesis
      by (auto simp: do_run_one_def Let_def intro!: queues_ok_place queues_ok_start)
  qed
qed

lemma queues_ok_poll_operation:
  assumes "queues_ok s" "i < length (threads s)"
  shows "queues_ok (poll_operation w i c s)"
  using assms queues_ok_pop
  by (auto simp: poll_operation_def intro!: queues_ok_place queues_ok_start split: list.split)

lemma queues_ok_poll:
  assumes "queues_ok s" "books_ok s" "thread_at i (At_Poll c) s"
  shows "queues_ok (do_poll_one w i c s)"
  using assms(1) thread_atD [OF assms(3)] idle_empty [OF assms(2,3)] queues_ok_pop [OF assms(1)]
  by (auto simp: do_poll_one_def intro!: queues_ok_place queues_ok_poll_operation split: list.split oper.split)

lemma queues_ok_after:
  assumes "queues_ok s" "thread_at i (After_Task c) s"
  shows "queues_ok (do_poll_one_after_task w i c s)"
proof -
  have "length (threads (snd (maybe_unlock_and_signal_one w s))) = length (threads s)" by simp
  with assms(1) thread_atD [OF assms(2)] show ?thesis
  by (auto simp: do_poll_one_after_task_def simp del: maybe_unlock_frame(4)
      intro!: queues_ok_place queues_ok_poll_operation split: list.split oper.split)
qed


text \<open>The end of the reactor's run and of an operation.\<close>

lemma reactor_sum:
  "books_ok s \<Longrightarrow> int (count_list (ready_ops (svc s)) Task_Operation) + total reactor_thread s \<le> 1"
  by (auto simp: books_ok_def)

lemma reactor_has_task:
  assumes "books_ok s" "i < length (threads s)" "in_reactor (place (threads s ! i))"
  shows "Task_Operation \<notin> set (ready_ops (svc s))"
proof -
  have "1 \<le> total reactor_thread s"
    using total_ge [OF assms(2), of reactor_thread] assms(3) by (simp add: reactor_thread_def)
  with reactor_sum [OF assms(1)] have "count_list (ready_ops (svc s)) Task_Operation = 0" by linarith
  then show ?thesis by (simp add: count_list_0_iff)
qed

lemma no_descriptor_queued:
  assumes "queues_ok s" "books_ok s" "thread_at i (In_Task c b) s"
  shows "queued_count (Descriptor d) s = 0"
proof -
  note at = thread_atD [OF assms(3)]
  have nonneg: "0 \<le> reactor_thread t" for t by (simp add: reactor_thread_def)
  have "Task_Operation \<notin> set (ready_ops (svc s))" using reactor_has_task [OF assms(2) at(1)] at by simp
  then have "list_all (\<lambda>x. \<not> is_descriptor x) (ready_ops (svc s))"
    using assms(1) by (intro descriptors_first_none) (simp_all add: queues_ok_def)
  then have ready: "count_list (ready_ops (svc s)) (Descriptor d) = 0"
    by (force simp: count_list_0_iff list_all_iff)
  have "owned_count (Descriptor d) (threads s ! j) = 0" if j: "j < length (threads s)" for j
  proof -
    have t: "thread_ok (threads s ! j)" using books_ok_thread [OF assms(2) j] .
    have p: "count_list (concat (map pushes (todo (threads s ! j)))) (Descriptor d) = 0"
      using t by (force simp: thread_ok_def list_all_iff count_list_0_iff)
    have "count_list (private_op_queue (threads s ! j)) (Descriptor d) = 0"
    proof (cases "j = i")
      case True
      then show ?thesis using queues_own [OF assms(1) at(1)] at by (simp add: own_queue_ok_def)
    next
      case False
      have "total reactor_thread s \<le> 1" using reactor_sum [OF assms(2)] by linarith
      with total_two [of reactor_thread j s i, OF nonneg j at(1) False] at
      have "\<not> in_reactor (place (threads s ! j))" by (auto simp: reactor_thread_def)
      with t show ?thesis by (force simp: thread_ok_def list_all_iff count_list_0_iff)
    qed
    with p show ?thesis by (simp add: owned_count_split)
  qed
  then have "owned_count (Descriptor d) t = 0" if "t \<in> set (threads s)" for t
    using that by (metis in_set_conv_nth)
  then have "total (owned_count (Descriptor d)) s = 0" by (simp add: total_def cong: map_cong)
  with ready show ?thesis by (simp add: queued_count_def)
qed

lemma queues_ok_task:
  assumes "queues_ok s" "books_ok s" "thread_at i (In_Task c b) s" "Task_Operation \<notin> set os"
    "distinct (filter is_descriptor os)" "fresh_handlers (filter is_handler os) s"
  shows "queues_ok (task_ran i c os consumed s)"
proof -
  note at = thread_atD [OF assms(3)]
  let ?f = "\<lambda>t. t\<lparr>private_op_queue := private_op_queue t @ os, place := Task_Done c\<rparr>"
  let ?s = "s\<lparr>held := held s - length (filter is_handler os), interrupter := interrupter s \<and> \<not> consumed\<rparr>"
  have s: "queues_ok ?s" using assms(1) by (simp add: queues_ok_svc)
  have cnt: "queued_count x (task_ran i c os consumed s) = queued_count x s + int (count_list os x)" for x
    using at by (simp add: task_ran_def queued_count_on_thread owned_count_split)
      (simp add: queued_count_def)
  have "queued_count x s + int (count_list os x) \<le> 1" if x: "x \<noteq> Task_Operation" for x
  proof (cases "x \<in> set os")
    case True
    show ?thesis
    proof (cases x)
      case (Handler n)
      have "count_list os x = count_list (filter is_handler os) x" using Handler by (induction os) auto
      moreover have "queued_count x s = 0" using fresh_count [OF assms(6)] True Handler by simp
      moreover have "int (count_list (filter is_handler os) x) \<le> 1"
        using distinct_count [of "filter is_handler os" x] assms(6) by (simp add: fresh_handlers_def)
      ultimately show ?thesis by simp
    next
      case (Descriptor d)
      have "count_list os x = count_list (filter is_descriptor os) x" using Descriptor by (induction os) auto
      moreover have "int (count_list (filter is_descriptor os) x) \<le> 1"
        using distinct_count [of "filter is_descriptor os" x] assms(5) by simp
      moreover have "queued_count x s = 0" using no_descriptor_queued [OF assms(1-3)] Descriptor by simp
      ultimately show ?thesis by simp
    qed (use x in simp)
  next
    case False
    then show ?thesis using assms(1) x by (simp add: queues_ok_def)
  qed
  moreover have "all_threads own_queue_ok (task_ran i c os consumed s)"
    unfolding task_ran_def using s at by (intro own_queue_ok_at) (simp_all add: own_queue_ok_def)
  ultimately show ?thesis
    using assms(1) cnt by (simp add: queues_ok_def) (simp add: task_ran_def)
qed

lemma queues_ok_moved:
  assumes "queues_ok s" "thread_at i p s" "descriptors_first (ready_ops (svc s) @ private_op_queue (threads s ! i) @ os)"
    "set os \<subseteq> {Task_Operation}" "\<And>c b. q \<noteq> In_Task c b"
  shows "queues_ok (on_thread i (\<lambda>t. t\<lparr>private_op_queue := [], place := q\<rparr>)
    (push_ops (private_op_queue (threads s ! i) @ os) s))"
proof (rule queues_ok_less [OF assms(1)])
  note at = thread_atD [OF assms(2)]
  show "queued_count x (on_thread i (\<lambda>t. t\<lparr>private_op_queue := [], place := q\<rparr>)
      (push_ops (private_op_queue (threads s ! i) @ os) s)) \<le> queued_count x s" if "x \<noteq> Task_Operation" for x
  proof -
    have "count_list os x = 0" using assms(4) that by (auto simp: count_list_0_iff)
    then show ?thesis using at by (simp add: queued_count_on_thread queued_count_push owned_count_split)
  qed
  show "all_threads own_queue_ok (on_thread i (\<lambda>t. t\<lparr>private_op_queue := [], place := q\<rparr>)
      (push_ops (private_op_queue (threads s ! i) @ os) s))"
    using assms(1,5) by (auto simp: queues_ok_def own_queue_ok_def intro!: all_threads_on_thread)
qed (use assms(3) in simp)

lemma queues_ok_task_queue:
  assumes "queues_ok s" "books_ok s" "thread_at i (Task_Counted c) s"
  shows "queues_ok (task_cleanup_queue i c s)"
proof -
  note at = thread_atD [OF assms(3)]
  have "Task_Operation \<notin> set (ready_ops (svc s))"
    using reactor_has_task [OF assms(2) at(1)] at by simp
  moreover have "Task_Operation \<notin> set (private_op_queue (threads s ! i))"
    using books_ok_thread [OF assms(2) at(1)] by (simp add: thread_ok_def)
  ultimately have "descriptors_first (ready_ops (svc s) @ private_op_queue (threads s ! i) @ [Task_Operation])"
    using assms(1) by (intro descriptors_first_task descriptors_first_none) (simp_all add: queues_ok_def)
  then have "queues_ok (on_thread i (\<lambda>t. t\<lparr>private_op_queue := [],
      place := if c = Run \<or> c = Run_One then At_Loop c else After_Task c\<rparr>)
    (push_ops (private_op_queue (threads s ! i) @ [Task_Operation]) s))"
    using assms(1,3) by (intro queues_ok_moved) (simp_all split: if_splits)
  then have "queues_ok (on_svc (task_interrupted_update (\<lambda>_. True)) (on_thread i (\<lambda>t. t\<lparr>private_op_queue := [],
      place := if c = Run \<or> c = Run_One then At_Loop c else After_Task c\<rparr>)
    (push_ops (private_op_queue (threads s ! i) @ [Task_Operation]) s)))"
    by (intro queues_ok_svc(1)) simp_all
  moreover have "task_cleanup_queue i c s = on_svc (task_interrupted_update (\<lambda>_. True)) (on_thread i (\<lambda>t. t\<lparr>private_op_queue := [],
      place := if c = Run \<or> c = Run_One then At_Loop c else After_Task c\<rparr>)
    (push_ops (private_op_queue (threads s ! i) @ [Task_Operation]) s))"
    by (simp add: task_cleanup_queue_def on_thread_def push_ops_def on_svc_def)
  ultimately show ?thesis by simp
qed

lemma queues_ok_work_queue:
  assumes "queues_ok s" "books_ok s" "thread_at i (Op_Counted c thrown) s"
  shows "queues_ok (work_cleanup_queue i c thrown s)"
proof -
  note at = thread_atD [OF assms(3)]
  have "list_all is_handler (private_op_queue (threads s ! i))"
    using books_ok_thread [OF assms(2) at(1)] at by (simp add: thread_ok_def)
  then have "descriptors_first (ready_ops (svc s) @ private_op_queue (threads s ! i) @ [])"
    using assms(1) by (simp add: queues_ok_def descriptors_first_append)
  then show ?thesis
    using queues_ok_moved [OF assms(1,3), of "[]" "after_op c thrown"]
    by (simp add: work_cleanup_queue_def after_op_def split: caller.split if_splits)
qed

lemma queues_ok_work_count:
  assumes "queues_ok s" "i < length (threads s)"
  shows "queues_ok (work_cleanup_count i c thrown s)"
proof -
  let ?f = "\<lambda>t. t\<lparr>private_outstanding_work := 0, place := Op_Counted c thrown\<rparr>"
  have f: "queues_ok (on_thread i ?f r)" if "queues_ok r" "i < length (threads r)" for r
    using that by (intro queues_ok_upd) (simp_all add: owned_count_split own_queue_ok_def)
  have o: "queues_ok (on_svc (outstanding_work_update g) r)" if "queues_ok r" for g r
    using that by (intro queues_ok_svc) simp_all
  have t: "queues_ok (on_thread i (todo_update (\<lambda>as. Stop_All # as)) r)" if "queues_ok r" "i < length (threads r)" for r
    using that by (intro queues_ok_upd) (simp_all add: owned_count_split queues_own)
  show ?thesis
    using assms by (auto simp: work_cleanup_count_def work_finished_def Let_def intro!: f o t)
qed

lemma queues_ok_task_count:
  assumes "queues_ok s" "i < length (threads s)"
  shows "queues_ok (task_cleanup_count i c s)"
proof -
  let ?f = "\<lambda>t. t\<lparr>private_outstanding_work := 0, place := Task_Counted c\<rparr>"
  have f: "queues_ok (on_thread i ?f r)" if "queues_ok r" "i < length (threads r)" for r
    using that by (intro queues_ok_upd) (simp_all add: owned_count_split own_queue_ok_def)
  have o: "queues_ok (on_svc (outstanding_work_update g) r)" if "queues_ok r" for g r
    using that by (intro queues_ok_svc) simp_all
  show ?thesis using assms by (auto simp: task_cleanup_count_def Let_def intro!: f o)
qed

text \<open>Operations that are handed over.\<close>

lemma queues_ok_new_ops:
  assumes "queues_ok s" "i < length (threads s)" "fresh_handlers os s" "own_queue_ok (f (threads s ! i))"
    and "\<And>x. owned_count x (f (threads s ! i)) = owned_count x (threads s ! i) + int (count_list os x)"
  shows "queues_ok (on_thread i f s)"
proof -
  have "queued_count x s + int (count_list os x) \<le> 1" if x: "x \<noteq> Task_Operation" for x
  proof (cases "x \<in> set os")
    case True
    then show ?thesis
      using fresh_count [OF assms(3)] distinct_count [of os x] assms(3) by (simp add: fresh_handlers_def)
  next
    case False
    then show ?thesis using assms(1) x by (simp add: queues_ok_def)
  qed
  then show ?thesis
    using assms(1,2,4,5) own_queue_ok_at [of s i f] by (simp add: queues_ok_def queued_count_on_thread)
qed


lemma queues_ok_post:
  assumes "queues_ok s" "caller_at i s" "fresh_handlers [x] s"
  shows "queues_ok (post_immediate_completion i x is_continuation s)" "queues_ok (do_dispatch i x s)"
proof -
  have at: "i < length (threads s)" "\<And>c b. place (threads s ! i) \<noteq> In_Task c b"
    using assms(2) by (auto simp: caller_at_def)
  have T: "queues_ok (on_thread i (todo_update (\<lambda>bs. bs @ [Start_Work False, Push [x]])) s)"
    using at by (intro queues_ok_new_ops [OF assms(1) at(1) assms(3)]) (simp_all add: owned_count_split own_queue_ok_def)
  then show "queues_ok (do_dispatch i x s)" by (simp add: do_dispatch_def)
  have "queues_ok (on_thread i (\<lambda>t. t\<lparr>private_outstanding_work := private_outstanding_work t + 1,
      private_op_queue := private_op_queue t @ [x]\<rparr>) s)"
    using at by (intro queues_ok_new_ops [OF assms(1) at(1) assms(3)]) (simp_all add: owned_count_split own_queue_ok_def)
  with T show "queues_ok (post_immediate_completion i x is_continuation s)"
    by (simp add: post_immediate_completion_def)
qed

lemma queues_ok_deferred:
  assumes "queues_ok s" "i < length (threads s)" "\<And>c b. place (threads s ! i) \<noteq> In_Task c b" "fresh_handlers os s"
  shows "queues_ok (post_deferred_completions i os s)"
proof -
  have "queues_ok (on_thread i (todo_update (\<lambda>bs. bs @ [Push os])) s)"
    using assms(3) by (intro queues_ok_new_ops [OF assms(1,2,4)]) (simp_all add: owned_count_split own_queue_ok_def)
  moreover have "queues_ok (on_thread i (private_op_queue_update (\<lambda>q. q @ os)) s)"
    using assms(3) by (intro queues_ok_new_ops [OF assms(1,2,4)]) (simp_all add: owned_count_split own_queue_ok_def)
  ultimately show ?thesis using assms(1) by (simp add: post_deferred_completions_def)
qed

lemma fresh_handlers_cong: "queued r = queued s \<Longrightarrow> fresh_handlers os r = fresh_handlers os s"
  by (simp add: fresh_handlers_def)

lemma queues_ok_call:
  assumes "queues_ok s" "i < length (threads s)" "pushes a = []"
  shows "queues_ok (call_act i a s)"
  unfolding call_act_def using assms by (intro queues_ok_upd) (simp_all add: owned_count_split queues_own)

lemma queues_ok_perform:
  assumes "queues_ok s" "thread_at i (In_Op c (Descriptor d) False) s"
  shows "queues_ok (perform_none i c x s)" "fresh_handlers os s \<Longrightarrow> os \<noteq> [] \<Longrightarrow> queues_ok (perform_some i c os s)"
proof -
  note at = thread_atD [OF assms(2)]
  show "queues_ok (perform_none i c x s)"
    unfolding perform_none_def using assms(1) at by (intro queues_ok_upd) (simp_all add: owned_count_split own_queue_ok_def)
  assume f: "fresh_handlers os s" "os \<noteq> []"
  let ?s = "on_thread i (place_update (\<lambda>_. In_Op c (hd os) True)) (s\<lparr>held := held s - length os\<rparr>)"
  have "queues_ok ?s" using assms(1) at by (intro queues_ok_place) (simp_all add: queues_ok_svc)
  moreover have "map owned (threads ?s) = map owned (threads s)"
    by (simp add: on_thread_def map_update) (metis length_map list_update_id list_update_beyond not_le nth_map)
  then have "queued ?s = queued s" by (simp add: queued_def)
  then have "fresh_handlers (tl os) ?s"
    using f by (cases os) (auto simp: fresh_handlers_def)
  ultimately show "queues_ok (perform_some i c os s)"
    unfolding perform_some_def using at by (intro queues_ok_deferred) simp_all
qed

lemma queues_ok_step:
  assumes "step quiet s s1" "books_ok s" "queues_ok s"
  shows "queues_ok s1"
  using assms(1)
proof (cases rule: step.cases)
  case (act i a as w)
  with assms(2,3) show ?thesis by (simp add: queues_ok_act)
next
  case (enter i c)
  note at = thread_atD [OF enter(2)] and e = idle_empty [OF assms(2) enter(2)]
  have "queues_ok (on_thread i (todo_update (\<lambda>as. as @ [Stop_All])) s)"
    using assms(3) at by (intro queues_ok_upd) (simp_all add: owned_count_split queues_own)
  moreover have "queues_ok (on_thread i (\<lambda>t. t\<lparr>private_op_queue := [], private_outstanding_work := 0,
             place := (if c = Run \<or> c = Run_One then At_Loop c else At_Poll c)\<rparr>) s)"
    using assms(3) at by (intro queues_ok_upd) (simp_all add: owned_count_split own_queue_ok_def)
  ultimately show ?thesis using enter(1) by (simp add: enter_def)
next
  case (woken i c)
  then show ?thesis
    using assms(3) thread_atD [OF woken(2)] by (auto simp: event_woken_def intro!: queues_ok_wait queues_ok_svc)
next
  case (post_deferred i os)
  have "fresh_handlers os (s\<lparr>held := held s - length os\<rparr>)"
    using post_deferred(3) by (simp add: fresh_handlers_def queued_def)
  then show ?thesis
    unfolding post_deferred(1) using assms(3) post_deferred(2)
    by (intro queues_ok_deferred) (auto simp: queues_ok_svc caller_at_def)
next
  case (drop_work i)
  then show ?thesis using assms(3) by (auto simp: queues_ok_svc caller_at_def intro!: queues_ok_call)
qed (use assms(2,3) in \<open>auto simp: caller_at_def thread_at_def intro!: queues_ok_loop queues_ok_poll queues_ok_after
  queues_ok_place queues_ok_task queues_ok_task_count queues_ok_task_queue queues_ok_perform queues_ok_work_count
  queues_ok_work_queue queues_ok_post queues_ok_call\<close>)

lemma queues_ok_reachable: "reachable quiet s \<Longrightarrow> queues_ok s"
  by (induction rule: reachable.induct) (auto intro: queues_ok_new queues_ok_step books_ok_reachable)

section \<open>The theorem\<close>

lemma distinct_count_list: "(\<And>x. count_list xs x \<le> 1) \<Longrightarrow> distinct xs"
proof (induction xs)
  case (Cons a xs)
  have "count_list xs x \<le> 1" for x using Cons.prems [of x] by (simp split: if_splits)
  moreover have "a \<notin> set xs" using Cons.prems [of a] by (simp add: count_list_0_iff)
  ultimately show ?case using Cons.IH by simp
qed simp

text \<open>
  C27. Every operation is in one queue at most once, in the common one, in a thread's own or in a call on
  its way there, so the next pointers of the intrusive queues are never shared; and while a thread runs
  the reactor no descriptor's operation is queued anywhere, so the reactor may hand any of them out
  again, as \<open>epoll_reactor::run\<close> relies on.
\<close>

theorem operations_queued_once:
  assumes "reachable quiet s"
  shows "distinct (queued s) \<and> (\<forall>i < length (threads s). \<forall>c b.
    thread_at i (In_Task c b) s \<longrightarrow> (\<forall>x \<in> set (queued s). \<not> is_descriptor x))"
proof -
  note b = books_ok_reachable [OF assms] and q = queues_ok_reachable [OF assms]
  have "queued_count x s \<le> 1" for x
  proof (cases "x = Task_Operation")
    case True
    have "owned_count Task_Operation t = 0" if "t \<in> set (threads s)" for t
      using b that by (force simp: books_ok_def all_threads_def thread_ok_def owned_count_split count_list_0_iff list_all_iff)
    then have "total (owned_count Task_Operation) s = 0" by (simp add: total_def cong: map_cong)
    moreover have "0 \<le> total reactor_thread s" by (rule total_nonneg) (simp add: reactor_thread_def)
    ultimately show ?thesis using reactor_sum [OF b] True by (simp add: queued_count_def)
  next
    case False
    then show ?thesis using q by (simp add: queues_ok_def)
  qed
  then have "count_list (queued s) x \<le> 1" for x using queued_count [of s x] by (metis of_nat_le_1_iff)
  then have "distinct (queued s)" by (rule distinct_count_list)
  moreover have "\<not> is_descriptor x" if "thread_at i (In_Task c b) s" "x \<in> set (queued s)" for i c b x
  proof (cases x)
    case (Descriptor d)
    have "count_list (queued s) x = 0"
      using no_descriptor_queued [OF q b that(1), of d] queued_count [of s x] Descriptor by simp
    with that(2) show ?thesis by (simp add: count_list_0_iff)
  qed simp_all
  ultimately show ?thesis by blast
qed

definition posting_run :: "move list" where
  "posting_run = in_reactor_run @ [Posted 0 (Handler 7) False, Goes 0 0, Goes 0 0, Posted 0 (Handler 8) True, Goes 0 0]"

theorem operations_queued_once_witness:
  "thread_at 1 (In_Task Run True) (outcome True posting_run) \<and> queued (outcome True posting_run) = [Handler 7, Handler 8]
   \<and> distinct (queued (outcome True posting_run)) \<and> filter is_descriptor (queued (outcome True posting_run)) = []"
proof -
  have r: "reachable True (outcome True posting_run)" by (rule outcome_reachable) code_simp
  have p: "thread_at 1 (In_Task Run True) (outcome True posting_run)" and q: "queued (outcome True posting_run) = [Handler 7, Handler 8]"
    by code_simp+
  from operations_queued_once [OF r] thread_atD(1) [OF p] p
  have "distinct (queued (outcome True posting_run)) \<and> (\<forall>x \<in> set (queued (outcome True posting_run)). \<not> is_descriptor x)"
    by blast
  with p q show ?thesis by (auto simp: filter_empty_conv)
qed

end
