(* ===== verification/Scheduler_Frame.thy ===== *)
theory Scheduler_Frame
  imports Scheduler_Queues
begin

text \<open>
  Where operations go in one step of the scheduler: what a thread does by itself moves an operation
  between the queues or takes it to execute it, and touches no operation another thread executes; what
  a call hands over is added.
\<close>

section \<open>A thread goes on\<close>

text \<open>Threads stay where they are when they execute an operation.\<close>

definition ops_kept :: "system \<Rightarrow> system \<Rightarrow> bool" where
  "ops_kept s s1 \<longleftrightarrow> length (threads s1) = length (threads s) \<and> (\<forall>j < length (threads s). \<forall>c x b.
     place (threads s ! j) = In_Op c x b \<longrightarrow> place (threads s1 ! j) = In_Op c x b)"

lemma ops_kept_refl [simp]: "ops_kept s s"
  by (simp add: ops_kept_def)

lemma ops_kept_trans: "ops_kept s t \<Longrightarrow> ops_kept t u \<Longrightarrow> ops_kept s u"
  by (auto simp: ops_kept_def)

lemma ops_kept_same: "threads s1 = threads s \<Longrightarrow> ops_kept s s1"
  by (simp add: ops_kept_def)

lemma ops_kept_wake_waiter: "threads s1 = wake_waiter w (threads s) \<Longrightarrow> ops_kept s s1"
  by (auto simp: ops_kept_def nth_wake_waiter blocked_def split: place.splits)

lemma ops_kept_wake_all: "threads s1 = wake_all (threads s) \<Longrightarrow> ops_kept s s1"
  by (auto simp: ops_kept_def wake_all_def split: place.splits)

lemma ops_kept_or: "threads s1 = wake_waiter w (threads s) \<or> threads s1 = threads s \<Longrightarrow> ops_kept s s1"
  using ops_kept_wake_waiter ops_kept_same by blast

lemma ops_kept_wake [simp]:
  "ops_kept s (wake_one_thread_and_unlock w s)" "ops_kept s (unlock_and_signal_one w s)"
  "ops_kept s (snd (maybe_unlock_and_signal_one w s))" "ops_kept s (stop_all_threads s)"
  "ops_kept s (on_svc f s)" "ops_kept s (push_ops os s)" "ops_kept s (s\<lparr>held := n\<rparr>)"
  by (rule ops_kept_or [of _ w], simp add: wake_one_threads)
    (rule ops_kept_or [of _ w], simp, rule ops_kept_or [of _ w], simp, rule ops_kept_wake_all, simp,
      (rule ops_kept_same, simp)+)

text \<open>Thread \<open>i\<close> is not executing an operation before, or stays at it.\<close>

lemma ops_kept_on_thread:
  assumes "\<And>c x b. place (threads s ! i) = In_Op c x b \<Longrightarrow> place (f (threads s ! i)) = In_Op c x b"
  shows "ops_kept s (on_thread i f s)"
  unfolding ops_kept_def
proof (intro conjI allI impI)
  fix j c x b assume "j < length (threads s)" "place (threads s ! j) = In_Op c x b"
  then show "place (threads (on_thread i f s) ! j) = In_Op c x b" using assms by (cases "j = i") auto
qed simp

text \<open>
  One step moves operations: those that are queued stay so, but for one at most that thread \<open>i\<close> takes.
\<close>

definition goes_on :: "nat \<Rightarrow> system \<Rightarrow> system \<Rightarrow> bool" where
  "goes_on i s s1 \<longleftrightarrow> ops_kept s s1 \<and> held s \<le> held s1
     \<and> ((\<forall>x. x \<noteq> Task_Operation \<longrightarrow> queued_count x s1 = queued_count x s)
        \<or> (\<exists>c y. y \<noteq> Task_Operation \<and> place (threads s1 ! i) = In_Op c y (is_handler y)
            \<and> (\<forall>c x b. place (threads s ! i) \<noteq> In_Op c x b)
            \<and> (\<forall>x. x \<noteq> Task_Operation \<longrightarrow> queued_count x s1 = queued_count x s - (if x = y then 1 else 0))))"

lemma goes_on_moved:
  "ops_kept s s1 \<Longrightarrow> held s \<le> held s1 \<Longrightarrow> (\<And>x. x \<noteq> Task_Operation \<Longrightarrow> queued_count x s1 = queued_count x s)
    \<Longrightarrow> goes_on i s s1"
  by (simp add: goes_on_def)

lemma goes_on_act:
  assumes "i < length (threads s)" "todo (threads s ! i) = a # as"
  shows "goes_on i s (do_act w i a (on_thread i (todo_update (\<lambda>_. as)) s))"
proof -
  let ?s = "on_thread i (todo_update (\<lambda>_. as)) s"
  have k: "ops_kept s ?s" by (rule ops_kept_on_thread) simp
  have cnt: "queued_count x ?s = queued_count x s - int (count_list (pushes a) x)" for x
    using assms by (simp add: queued_count_on_thread owned_count_split)
  show ?thesis
  proof (cases a)
    case (Start_Work kept)
    have "ops_kept s (work_started ?s\<lparr>held := n\<rparr>)" for n
      by (rule ops_kept_trans [OF k ops_kept_same]) (simp add: work_started_def)
    with Start_Work cnt show ?thesis
      by (intro goes_on_moved) (auto simp: work_started_def queued_count_svc)
  next
    case Finish_Work
    let ?t = "on_svc (outstanding_work_update (\<lambda>n. n - 1)) ?s"
    have "ops_kept ?t (on_thread i (todo_update (\<lambda>as. Stop_All # as)) ?t)" by (rule ops_kept_on_thread) simp
    moreover have t: "ops_kept s ?t" by (rule ops_kept_trans [OF k]) simp
    ultimately have "ops_kept s (on_thread i (todo_update (\<lambda>as. Stop_All # as)) ?t)" by (blast intro: ops_kept_trans)
    moreover have "queued_count x ?t = queued_count x s" for x using cnt Finish_Work by (simp add: queued_count_svc)
    moreover have "queued_count x (on_thread i (todo_update (\<lambda>as. Stop_All # as)) ?t) = queued_count x ?t" for x
      using assms(1) by (simp add: queued_count_on_thread owned_count_split)
    ultimately show ?thesis
      using Finish_Work t by (intro goes_on_moved) (auto simp: work_finished_def Let_def)
  next
    case (Push os)
    have "ops_kept s (wake_one_thread_and_unlock w (push_ops os ?s))"
      by (rule ops_kept_trans [OF k], rule ops_kept_trans [OF ops_kept_wake(6)], rule ops_kept_wake)
    with Push cnt show ?thesis by (intro goes_on_moved) (auto simp: queued_count_push)
  next
    case Stop_All
    have "ops_kept s (stop_all_threads ?s)" by (rule ops_kept_trans [OF k]) simp
    with Stop_All cnt show ?thesis by (intro goes_on_moved) auto
  next
    case Reset
    have "ops_kept s (on_svc (is_stopped_update (\<lambda>_. False)) ?s)" by (rule ops_kept_trans [OF k]) simp
    with Reset cnt show ?thesis by (intro goes_on_moved) (auto simp: queued_count_svc)
  next
    case Init_Task
    have "ops_kept s (wake_one_thread_and_unlock w (push_ops [Task_Operation] (on_svc (has_task_update (\<lambda>_. True)) ?s)))"
      by (rule ops_kept_trans [OF k], rule ops_kept_trans [OF ops_kept_wake(5)], rule ops_kept_trans [OF ops_kept_wake(6)], rule ops_kept_wake)
    with Init_Task cnt k show ?thesis
      by (intro goes_on_moved) (auto simp: init_task_def queued_count_push queued_count_svc)
  qed
qed

lemma ops_kept_place:
  "(\<And>c x b. place (threads s ! i) \<noteq> In_Op c x b) \<Longrightarrow> ops_kept s (on_thread i (place_update f) s)"
  by (rule ops_kept_on_thread) blast

lemma queued_place [simp]:
  "queued_count x (on_thread i (place_update f) s) = queued_count x s"
proof (cases "i < length (threads s)")
  case True
  then show ?thesis by (simp add: queued_count_on_thread owned_count_split)
next
  case False
  then show ?thesis by (simp add: queued_count_def total_def on_thread_def list_update_beyond)
qed


lemma ops_kept_svc_thread:
  "threads r = threads s \<Longrightarrow> ops_kept r t \<Longrightarrow> ops_kept s t"
  by (simp add: ops_kept_def)

text \<open>The loop and the polls.\<close>

lemma goes_on_place:
  assumes "\<And>c x b. place (threads s ! i) \<noteq> In_Op c x b" "threads r = threads s" "held r = held s"
    "\<And>x. x \<noteq> Task_Operation \<Longrightarrow> queued_count x r = queued_count x s"
  shows "goes_on i s (on_thread i (place_update f) r)"
proof (rule goes_on_moved)
  show "ops_kept s (on_thread i (place_update f) r)"
    by (rule ops_kept_svc_thread [OF assms(2)], rule ops_kept_place) (simp add: assms)
qed (use assms in simp_all)

lemma goes_on_wait:
  assumes "\<And>c x b. place (threads s ! i) \<noteq> In_Op c x b" "threads r = threads s" "held r = held s"
    "\<And>x. x \<noteq> Task_Operation \<Longrightarrow> queued_count x r = queued_count x s"
  shows "goes_on i s (event_wait c i r)"
  using assms by (auto simp: event_wait_def queued_count_svc intro!: goes_on_place)

lemma goes_on_start:
  assumes "i < length (threads s)" "\<And>c x b. place (threads s ! i) \<noteq> In_Op c x b" "threads r = threads s" "held r = held s"
    "y \<noteq> Task_Operation" "\<And>x. x \<noteq> Task_Operation \<Longrightarrow> queued_count x r = queued_count x s - (if x = y then 1 else 0)"
  shows "goes_on i s (start_operation w i c y m r)"
proof -
  let ?b = "case y of Handler n \<Rightarrow> True | _ \<Rightarrow> False"
  let ?r = "on_thread i (place_update (\<lambda>_. In_Op c y ?b)) r"
  have b: "?b = is_handler y" by (cases y) simp_all
  have k: "ops_kept s ?r" by (rule ops_kept_svc_thread [OF assms(3)], rule ops_kept_place) (simp add: assms)
  have at: "i < length (threads ?r)" "place (threads ?r ! i) = In_Op c y (is_handler y)" using assms by (simp_all add: b)
  have w: "ops_kept ?r (wake_one_thread_and_unlock w ?r)" by simp
  have "place (threads (wake_one_thread_and_unlock w ?r) ! i) = In_Op c y (is_handler y)"
    using w at unfolding ops_kept_def by blast
  moreover have "ops_kept s (wake_one_thread_and_unlock w ?r)" by (rule ops_kept_trans [OF k w])
  ultimately show ?thesis
    using k at assms unfolding goes_on_def start_operation_def by (auto simp: Let_def)
qed

lemma goes_on_unlock:
  assumes "goes_on i s r" "\<And>x. x \<noteq> Task_Operation \<Longrightarrow> queued_count x r = queued_count x s"
  shows "goes_on i s (unlock_and_signal_one w r)"
  using assms ops_kept_trans [of s r "unlock_and_signal_one w r"] by (auto simp: goes_on_def)

lemma goes_on_loop:
  assumes "thread_at i (At_Loop c) s"
  shows "goes_on i s (do_run_one w i c s)"
proof -
  note at = thread_atD [OF assms]
  show ?thesis
  proof (cases "ready_ops (svc s)")
    case Nil
    with at show ?thesis
      by (auto simp: do_run_one_def event_clear_def queued_count_svc intro!: goes_on_place goes_on_wait)
  next
    case (Cons y q)
    let ?p = "on_svc (ready_ops_update (\<lambda>_. q)) s"
    have "goes_on i s (start_operation w i c y m ?p)" if "y \<noteq> Task_Operation" for m
      using at that by (intro goes_on_start) (auto simp: queued_count_pop [OF Cons])
    moreover have "goes_on i s (on_thread i (place_update f) (on_svc (task_interrupted_update g) ?p))"
      if "y = Task_Operation" for f g
      using at that by (intro goes_on_place) (auto simp: queued_count_pop [OF Cons] queued_count_svc)
    ultimately show ?thesis
      using Cons at by (auto simp: do_run_one_def Let_def queued_count_svc queued_count_pop intro!: goes_on_place goes_on_unlock)
  qed
qed

lemma goes_on_poll_operation:
  assumes "i < length (threads s)" "\<And>c x b. place (threads s ! i) \<noteq> In_Op c x b"
    "\<And>q. ready_ops (svc s) \<noteq> Task_Operation # q"
  shows "goes_on i s (poll_operation w i c s)"
proof (cases "ready_ops (svc s)")
  case Nil
  with assms show ?thesis by (auto simp: poll_operation_def intro!: goes_on_place)
next
  case (Cons y q)
  with assms(3) have "y \<noteq> Task_Operation" by blast
  with Cons assms(1,2) show ?thesis
    by (auto simp: poll_operation_def queued_count_pop intro!: goes_on_start)
qed

lemma goes_on_poll:
  assumes "thread_at i (At_Poll c) s"
  shows "goes_on i s (do_poll_one w i c s)"
proof -
  note at = thread_atD [OF assms]
  have "goes_on i s (poll_operation w i c s)" if "\<And>q. ready_ops (svc s) \<noteq> Task_Operation # q"
    using at that by (intro goes_on_poll_operation) auto
  with at show ?thesis
    by (auto simp: do_poll_one_def queued_count_pop intro!: goes_on_place split: list.split oper.split)
qed

lemma goes_on_after:
  assumes "thread_at i (After_Task c) s"
  shows "goes_on i s (do_poll_one_after_task w i c s)"
proof -
  note at = thread_atD [OF assms]
  let ?r = "snd (maybe_unlock_and_signal_one w s)"
  have "goes_on i s (poll_operation w i c s)" if "\<And>q. ready_ops (svc s) \<noteq> Task_Operation # q"
    using at that by (intro goes_on_poll_operation) auto
  moreover have "goes_on i s (on_thread i (place_update (\<lambda>_. Outside)) ?r)"
  proof (rule goes_on_moved)
    have "threads ?r ! i = threads s ! i" using at by (auto simp: nth_wake_waiter blocked_def)
    with at have "ops_kept ?r (on_thread i (place_update (\<lambda>_. Outside)) ?r)" by (intro ops_kept_place) simp
    then show "ops_kept s (on_thread i (place_update (\<lambda>_. Outside)) ?r)" using ops_kept_trans ops_kept_wake(3) by blast
  qed simp_all
  ultimately show ?thesis
    by (auto simp: do_poll_one_after_task_def split: list.split oper.split)
qed

text \<open>The ends of the reactor's run and of an operation.\<close>

lemma goes_on_thread:
  assumes "i < length (threads s)" "\<And>c x b. place (threads s ! i) \<noteq> In_Op c x b" "threads r = threads s" "held r = held s"
    "\<And>x. x \<noteq> Task_Operation \<Longrightarrow> queued_count x r - owned_count x (threads s ! i) + owned_count x (f (threads s ! i)) = queued_count x s"
  shows "goes_on i s (on_thread i f r)"
proof (rule goes_on_moved)
  show "ops_kept s (on_thread i f r)"
    using assms(2,3) by (intro ops_kept_svc_thread [OF assms(3)] ops_kept_on_thread) auto
qed (use assms in \<open>simp_all add: queued_count_on_thread\<close>)

lemma goes_on_work_count:
  assumes "thread_at i (Op_Done c thrown) s"
  shows "goes_on i s (work_cleanup_count i c thrown s)"
proof -
  note at = thread_atD [OF assms]
  let ?f = "\<lambda>t. t\<lparr>private_outstanding_work := 0, place := Op_Counted c thrown\<rparr>"
  have 1: "goes_on i s (on_thread i ?f (on_svc (outstanding_work_update g) s))" for g
    using at by (intro goes_on_thread) (simp_all add: queued_count_svc owned_count_split)
  have 2: "goes_on i s (on_thread i ?f s)"
    using at by (intro goes_on_thread) (simp_all add: owned_count_split)
  have "on_thread i ?f (on_thread i (todo_update (\<lambda>as. Stop_All # as)) r) = on_thread i (\<lambda>t. ?f (todo_update (\<lambda>as. Stop_All # as) t)) r"
    if "i < length (threads r)" for r using that by (simp add: on_thread_def)
  moreover have "goes_on i s (on_thread i (\<lambda>t. ?f (todo_update (\<lambda>as. Stop_All # as) t)) (on_svc (outstanding_work_update g) s))" for g
    using at by (intro goes_on_thread) (simp_all add: queued_count_svc owned_count_split)
  ultimately show ?thesis
    using 1 2 at by (simp add: work_cleanup_count_def work_finished_def Let_def)
qed

lemma goes_on_cleanups:
  "thread_at i (Task_Done c) s \<Longrightarrow> goes_on i s (task_cleanup_count i c s)"
  "thread_at i (Task_Counted c) s \<Longrightarrow> goes_on i s (task_cleanup_queue i c s)"
  "thread_at i (Op_Counted c thrown) s \<Longrightarrow> goes_on i s (work_cleanup_queue i c thrown s)"
  by (auto dest: thread_atD simp: task_cleanup_count_def task_cleanup_queue_def work_cleanup_queue_def Let_def
      queued_count_svc queued_count_push owned_count_split intro!: goes_on_thread)

lemma goes_goes_on:
  assumes "goes quiet i w s = Some s1"
  shows "goes_on i s s1"
proof (cases "todo (threads s ! i)")
  case Nil
  then have "thread_at i (place (threads s ! i)) s" using assms by (auto simp: goes_def thread_at_def split: if_splits)
  with Nil assms show ?thesis
    by (auto simp: goes_def event_woken_def queued_count_svc split: if_splits place.splits
      intro!: goes_on_loop goes_on_poll goes_on_after goes_on_wait goes_on_cleanups goes_on_work_count)
next
  case (Cons a as)
  with assms goes_on_act show ?thesis by (auto simp: goes_def split: if_splits)
qed

section \<open>Calls\<close>

text \<open>Thread \<open>i\<close> has taken a descriptor's operation and not performed it yet.\<close>

definition takes :: "system \<Rightarrow> nat \<Rightarrow> nat \<Rightarrow> bool" where
  "takes s i d \<longleftrightarrow> i < length (threads s) \<and> (\<exists>c. place (threads s ! i) = In_Op c (Descriptor d) False)"

text \<open>Operations \<open>xs\<close> are queued, and no thread but those in \<open>A\<close> loses what it has taken.\<close>

definition adds :: "oper list \<Rightarrow> nat set \<Rightarrow> system \<Rightarrow> system \<Rightarrow> bool" where
  "adds xs A s s1 \<longleftrightarrow> (\<forall>x. x \<noteq> Task_Operation \<longrightarrow> queued_count x s1 = queued_count x s + int (count_list xs x))
     \<and> (\<forall>i d. i \<notin> A \<longrightarrow> takes s i d \<longrightarrow> takes s1 i d)"

lemma queued_iff: "x \<in> set (queued s) \<longleftrightarrow> 0 < queued_count x s"
  by (simp add: count_list_0_iff zero_less_iff_neq_zero flip: queued_count)

lemma adds_queued:
  assumes "adds xs A s s1" "x \<noteq> Task_Operation"
  shows "x \<in> set (queued s1) \<longleftrightarrow> x \<in> set (queued s) \<or> x \<in> set xs"
proof -
  have "queued_count x s1 = queued_count x s + int (count_list xs x)" using assms by (simp add: adds_def)
  moreover have "0 \<le> queued_count x s" by (metis of_nat_0_le_iff queued_count)
  moreover have "x \<in> set xs \<longleftrightarrow> 0 < int (count_list xs x)" by (simp add: count_list_0_iff zero_less_iff_neq_zero)
  ultimately show ?thesis by (auto simp: queued_iff)
qed

lemma adds_takes: "adds xs A s s1 \<Longrightarrow> i \<notin> A \<Longrightarrow> takes s i d \<Longrightarrow> takes s1 i d"
  by (simp add: adds_def)

lemma adds_on_thread:
  assumes "i < length (threads s)" "\<And>d. i \<notin> A \<Longrightarrow> takes s i d \<Longrightarrow> place (f (threads s ! i)) = place (threads s ! i)"
    "\<And>x. x \<noteq> Task_Operation \<Longrightarrow> owned_count x (f (threads s ! i)) = owned_count x (threads s ! i) + int (count_list xs x)"
  shows "adds xs A s (on_thread i f s)"
  using assms(1,3) assms(2) by (auto simp: adds_def queued_count_on_thread takes_def)

lemma adds_held [simp]: "adds xs A s (s1\<lparr>held := n\<rparr>) = adds xs A s s1" "adds xs A (s\<lparr>held := n\<rparr>) s1 = adds xs A s s1"
  by (simp_all add: adds_def queued_count_svc takes_def)

lemma adds_from: "svc r = svc s \<Longrightarrow> threads r = threads s \<Longrightarrow> adds xs A r t = adds xs A s t"
  by (simp add: adds_def queued_count_def total_def takes_def)

lemma adds_refl [simp]: "adds [] A s s"
  by (simp add: adds_def)

lemma adds_work_started: "adds [] A s (work_started s)"
  by (simp add: adds_def work_started_def queued_count_svc takes_def)

lemma adds_post:
  assumes "i < length (threads s)"
  shows "adds [x] A s (post_immediate_completion i x is_continuation s)"
  unfolding post_immediate_completion_def using assms by (auto simp: owned_count_split intro!: adds_on_thread)

lemma adds_deferred:
  assumes "i < length (threads s)"
  shows "adds os A s (post_deferred_completions i os s)"
  unfolding post_deferred_completions_def using assms by (auto simp: owned_count_split intro!: adds_on_thread)

lemma adds_call: "i < length (threads s) \<Longrightarrow> pushes a = [] \<Longrightarrow> adds [] A s (call_act i a s)"
  unfolding call_act_def by (auto simp: owned_count_split intro!: adds_on_thread)

lemma adds_enter: "books_ok s \<Longrightarrow> thread_at i Outside s \<Longrightarrow> adds [] A s (enter i c s)"
  using idle_empty [of s i Outside] thread_atD [of i Outside s]
  by (auto simp: enter_def owned_count_split takes_def intro!: adds_on_thread)

lemma adds_place:
  "thread_at i p s \<Longrightarrow> (\<And>c d. p \<noteq> In_Op c (Descriptor d) False) \<Longrightarrow> adds [] A s (on_thread i (place_update f) s)"
  by (auto dest: thread_atD simp: owned_count_split takes_def intro!: adds_on_thread)

lemma adds_task_ran: "thread_at i (In_Task c b) s \<Longrightarrow> adds os A s (task_ran i c os consumed s)"
proof -
  assume a: "thread_at i (In_Task c b) s"
  let ?s = "s\<lparr>held := held s - length (filter is_handler os), interrupter := interrupter s \<and> \<not> consumed\<rparr>"
  have "adds os A ?s (task_ran i c os consumed s)"
    unfolding task_ran_def using thread_atD [OF a] by (intro adds_on_thread) (auto simp: owned_count_split takes_def)
  then show ?thesis using adds_from [of ?s s] by simp
qed

lemma adds_perform:
  assumes "i < length (threads s)"
  shows "adds [] {i} s (perform_none i c x s)" "os \<noteq> [] \<Longrightarrow> adds (tl os) {i} s (perform_some i c os s)"
proof -
  show "adds [] {i} s (perform_none i c x s)"
    unfolding perform_none_def using assms by (intro adds_on_thread) (auto simp: owned_count_split)
  let ?s = "on_thread i (place_update (\<lambda>_. In_Op c (hd os) True)) (s\<lparr>held := held s - length os\<rparr>)"
  have "adds [] {i} (s\<lparr>held := held s - length os\<rparr>) ?s" using assms by (intro adds_on_thread) (auto simp: owned_count_split)
  then have 1: "adds [] {i} s ?s" by simp
  have "adds (tl os) {i} ?s (perform_some i c os s)" unfolding perform_some_def using assms by (intro adds_deferred) simp
  with 1 show "adds (tl os) {i} s (perform_some i c os s)" if "os \<noteq> []" by (auto simp: adds_def)
qed

text \<open>The work kept outside.\<close>

lemma held_simps [simp]:
  "held (post_immediate_completion i x k s) = held s" "held (post_deferred_completions i os s) = held s"
  "held (call_act i a s) = held s" "held (enter i c s) = held s" "held (work_started s) = held s"
  "held (task_ran i c os consumed s) = held s - length (filter is_handler os)"
  "held (perform_none i c x s) = held s" "held (perform_some i c os s) = held s - length os"
  by (simp_all add: post_immediate_completion_def post_deferred_completions_def call_act_def enter_def
      work_started_def task_ran_def perform_none_def perform_some_def)

end
