(* ===== verification/Op_Queue.thy ===== *)
theory Op_Queue
  imports Chord_Prelude
begin

text \<open>
  The intrusive queue of operations of the bundled asio library, \<open>detail/op_queue.hpp\<close>: every
  operation has a pointer \<open>next_\<close>, a queue the pointers to its first and last operation. The queues
  share one heap of \<open>next_\<close> pointers, which is what makes them delicate: pushing onto one queue
  writes into an operation, and an operation that sat in two queues would tie them together.

  An operation is its address, a null pointer is \<open>None\<close>. The refinement lemma at the end shows that
  any number of queues over one heap behave as lists under any sequence of pushes, pops and splices.
\<close>

type_synonym next_heap = "nat \<Rightarrow> nat option"

record op_queue =
  front_ptr :: "nat option"
  back_ptr :: "nat option"

definition new_queue :: op_queue where
  "new_queue = \<lparr>front_ptr = None, back_ptr = None\<rparr>"

definition queue_front :: "op_queue \<Rightarrow> nat option" where
  "queue_front q = front_ptr q"

definition queue_empty :: "op_queue \<Rightarrow> bool" where
  "queue_empty q \<longleftrightarrow> front_ptr q = None"

definition queue_pop :: "next_heap \<Rightarrow> op_queue \<Rightarrow> op_queue \<times> next_heap" where
  "queue_pop nx q =
     (case front_ptr q of
        None \<Rightarrow> (q, nx)
      | Some tmp \<Rightarrow>
          let front = nx tmp
          in (\<lparr>front_ptr = front, back_ptr = (if front = None then None else back_ptr q)\<rparr>,
              nx(tmp := None)))"

definition queue_push :: "next_heap \<Rightarrow> op_queue \<Rightarrow> nat \<Rightarrow> op_queue \<times> next_heap" where
  "queue_push nx q h =
     (let nx1 = nx(h := None)
      in case back_ptr q of
           Some b \<Rightarrow> (q\<lparr>back_ptr := Some h\<rparr>, nx1(b := Some h))
         | None \<Rightarrow> (\<lparr>front_ptr = Some h, back_ptr = Some h\<rparr>, nx1))"

definition queue_splice :: "next_heap \<Rightarrow> op_queue \<Rightarrow> op_queue \<Rightarrow> (op_queue \<times> op_queue) \<times> next_heap" where
  "queue_splice nx q other =
     (case front_ptr other of
        None \<Rightarrow> ((q, other), nx)
      | Some other_front \<Rightarrow>
          let (front, nx1) = (case back_ptr q of
                Some b \<Rightarrow> (front_ptr q, nx(b := Some other_front))
              | None \<Rightarrow> (Some other_front, nx))
          in ((\<lparr>front_ptr = front, back_ptr = back_ptr other\<rparr>,
               \<lparr>front_ptr = None, back_ptr = None\<rparr>), nx1))"

text \<open>The destructor: the operations in the order in which they are destroyed.\<close>

partial_function (option) queue_destroy ::
    "next_heap \<Rightarrow> op_queue \<Rightarrow> nat list \<Rightarrow> (nat list \<times> next_heap) option" where
  "queue_destroy nx q destroyed =
     (case front_ptr q of
        None \<Rightarrow> Some (destroyed, nx)
      | Some op \<Rightarrow> case queue_pop nx q of (q1, nx1) \<Rightarrow> queue_destroy nx1 q1 (destroyed @ [op]))"

section \<open>Queues as lists\<close>

fun chain :: "next_heap \<Rightarrow> nat option \<Rightarrow> nat list \<Rightarrow> bool" where
  "chain nx p [] \<longleftrightarrow> p = None"
| "chain nx p (a # as) \<longleftrightarrow> p = Some a \<and> chain nx (nx a) as"

definition queue_is :: "next_heap \<Rightarrow> op_queue \<Rightarrow> nat list \<Rightarrow> bool" where
  "queue_is nx q as \<longleftrightarrow> chain nx (front_ptr q) as \<and> distinct as
     \<and> back_ptr q = (if as = [] then None else Some (last as))"

lemma chain_update: "a \<notin> set as \<Longrightarrow> chain (nx(a := v)) p as = chain nx p as"
  by (induction as arbitrary: p) auto

lemma chain_append:
  assumes "chain nx p as" "as \<noteq> []" "distinct as" "chain nx r bs" "last as \<notin> set bs"
  shows "chain (nx(last as := r)) p (as @ bs)"
  using assms
proof (induction as arbitrary: p)
  case (Cons a as)
  show ?case
  proof (cases "as = []")
    case True
    with Cons.prems chain_update [of a bs nx r r] show ?thesis by (simp add: fun_upd_def)
  next
    case False
    with Cons.prems have "a \<noteq> last as" by auto
    with Cons False show ?thesis by simp
  qed
qed simp

lemma queue_frame: "a \<notin> set as \<Longrightarrow> queue_is (nx(a := v)) q as = queue_is nx q as"
  by (simp add: queue_is_def chain_update)

lemma queue_front_is: "queue_is nx q as \<Longrightarrow> queue_front q = (case as of [] \<Rightarrow> None | a # _ \<Rightarrow> Some a)"
  by (cases as) (auto simp: queue_is_def queue_front_def)

lemma pop_is:
  assumes "queue_is nx q as" "queue_pop nx q = (q1, nx1)"
  shows "queue_is nx1 q1 (tl as)"
    and "\<And>r bs. queue_is nx r bs \<Longrightarrow> set as \<inter> set bs = {} \<Longrightarrow> queue_is nx1 r bs"
proof -
  show "queue_is nx1 q1 (tl as)"
  proof (cases as)
    case Nil
    with assms show ?thesis by (auto simp: queue_is_def queue_pop_def)
  next
    case (Cons a rest)
    have "chain (nx(a := None)) (nx a) rest"
      using assms(1) Cons by (simp add: queue_is_def chain_update)
    moreover have "nx a = None \<longleftrightarrow> rest = []"
      using assms(1) Cons by (cases rest) (auto simp: queue_is_def)
    ultimately show ?thesis
      using assms Cons by (auto simp: queue_is_def queue_pop_def Let_def)
  qed
  show "queue_is nx1 r bs" if "queue_is nx r bs" "set as \<inter> set bs = {}" for r bs
    using assms that by (cases as) (auto simp: queue_is_def queue_pop_def Let_def chain_update)
qed

lemma push_is:
  assumes "queue_is nx q as" "h \<notin> set as" "queue_push nx q h = (q1, nx1)"
  shows "queue_is nx1 q1 (as @ [h])"
    and "\<And>r bs. queue_is nx r bs \<Longrightarrow> set as \<inter> set bs = {} \<Longrightarrow> h \<notin> set bs \<Longrightarrow> queue_is nx1 r bs"
proof -
  show "queue_is nx1 q1 (as @ [h])"
  proof (cases "as = []")
    case True
    with assms show ?thesis by (auto simp: queue_is_def queue_push_def Let_def)
  next
    case False
    have "chain (nx(h := None)) (front_ptr q) as" "chain (nx(h := None)) (Some h) [h]"
      using assms(1,2) by (auto simp: queue_is_def chain_update)
    moreover have "last as \<noteq> h" using False assms(2) last_in_set by blast
    ultimately have "chain (nx(h := None, last as := Some h)) (front_ptr q) (as @ [h])"
      using assms(1) False by (intro chain_append) (auto simp: queue_is_def)
    with assms False show ?thesis
      by (auto simp: queue_is_def queue_push_def Let_def)
  qed
  show "queue_is nx1 r bs" if "queue_is nx r bs" "set as \<inter> set bs = {}" "h \<notin> set bs" for r bs
  proof (cases "as = []")
    case True
    with assms that show ?thesis by (auto simp: queue_is_def queue_push_def Let_def chain_update)
  next
    case False
    then have "last as \<notin> set bs" using that(2) last_in_set by blast
    with assms that False show ?thesis
      by (auto simp: queue_is_def queue_push_def Let_def chain_update)
  qed
qed

lemma splice_is:
  assumes "queue_is nx q as" "queue_is nx other bs" "set as \<inter> set bs = {}"
    and "queue_splice nx q other = ((q1, other1), nx1)"
  shows "queue_is nx1 q1 (as @ bs)" "queue_is nx1 other1 []"
    and "\<And>r cs. queue_is nx r cs \<Longrightarrow> set as \<inter> set cs = {} \<Longrightarrow> queue_is nx1 r cs"
proof -
  have last: "as \<noteq> [] \<Longrightarrow> last as \<notin> set cs" if "set as \<inter> set cs = {}" for cs
    using that last_in_set by blast
  show "queue_is nx1 q1 (as @ bs)"
  proof (cases "as = [] \<or> bs = []")
    case True
    with assms show ?thesis
      by (cases bs) (auto simp: queue_is_def queue_splice_def Let_def split: if_splits)
  next
    case False
    then obtain b rest where b: "bs = b # rest" by (cases bs) auto
    have "chain (nx(last as := Some b)) (front_ptr q) (as @ bs)"
      using assms(1,2) False last [OF assms(3)] by (intro chain_append) (auto simp: queue_is_def b)
    with assms False b show ?thesis
      by (auto simp: queue_is_def queue_splice_def Let_def)
  qed
  show "queue_is nx1 other1 []"
    using assms by (cases bs) (auto simp: queue_is_def queue_splice_def Let_def split: option.splits)
  show "queue_is nx1 r cs" if "queue_is nx r cs" "set as \<inter> set cs = {}" for r cs
    using assms that last [OF that(2)]
    by (cases "as = []"; cases bs) (auto simp: queue_is_def queue_splice_def Let_def chain_update)
qed

section \<open>Many queues over one heap\<close>

datatype queue_call = Push nat nat | Pop nat | Splice nat nat

type_synonym queue_state = "next_heap \<times> (nat \<Rightarrow> op_queue)"

fun queue_step :: "queue_call \<Rightarrow> queue_state \<Rightarrow> queue_state" where
  "queue_step (Push i h) (nx, qs) = (case queue_push nx (qs i) h of (q, nx1) \<Rightarrow> (nx1, qs(i := q)))"
| "queue_step (Pop i) (nx, qs) = (case queue_pop nx (qs i) of (q, nx1) \<Rightarrow> (nx1, qs(i := q)))"
| "queue_step (Splice i j) (nx, qs) =
     (case queue_splice nx (qs i) (qs j) of ((q, r), nx1) \<Rightarrow> (nx1, qs(i := q, j := r)))"

text \<open>The same calls on lists, and when a call is one the users of the queues may make.\<close>

fun list_step :: "queue_call \<Rightarrow> (nat \<Rightarrow> nat list) \<Rightarrow> nat \<Rightarrow> nat list" where
  "list_step (Push i h) A = A(i := A i @ [h])"
| "list_step (Pop i) A = A(i := tl (A i))"
| "list_step (Splice i j) A = A(i := A i @ A j, j := [])"

fun allowed :: "queue_call \<Rightarrow> (nat \<Rightarrow> nat list) \<Rightarrow> bool" where
  "allowed (Push i h) A \<longleftrightarrow> (\<forall>k. h \<notin> set (A k))"
| "allowed (Pop i) A \<longleftrightarrow> True"
| "allowed (Splice i j) A \<longleftrightarrow> i \<noteq> j"

fun allowed_run :: "queue_call list \<Rightarrow> (nat \<Rightarrow> nat list) \<Rightarrow> bool" where
  "allowed_run [] A \<longleftrightarrow> True"
| "allowed_run (c # cs) A \<longleftrightarrow> allowed c A \<and> allowed_run cs (list_step c A)"

definition queues_are :: "queue_state \<Rightarrow> (nat \<Rightarrow> nat list) \<Rightarrow> bool" where
  "queues_are s A \<longleftrightarrow>
     (\<forall>i. queue_is (fst s) (snd s i) (A i)) \<and> (\<forall>i j. i \<noteq> j \<longrightarrow> set (A i) \<inter> set (A j) = {})"

lemma queue_step_are:
  assumes "queues_are s A" "allowed c A"
  shows "queues_are (queue_step c s) (list_step c A)"
proof -
  obtain nx qs where s: "s = (nx, qs)" by (cases s)
  have rep: "queue_is nx (qs i) (A i)" and apart: "i \<noteq> j \<Longrightarrow> set (A i) \<inter> set (A j) = {}" for i j
    using assms(1) by (simp_all add: queues_are_def s)
  show ?thesis
  proof (cases c)
    case (Push i h)
    obtain q nx1 where p: "queue_push nx (qs i) h = (q, nx1)" by (metis surj_pair)
    have h: "\<And>k. h \<notin> set (A k)" using assms(2) Push by simp
    note push = push_is [OF rep h p]
    show ?thesis
      using push(1) push(2) [OF rep apart h] h apart by (auto simp: queues_are_def s Push p)
  next
    case (Pop i)
    obtain q nx1 where p: "queue_pop nx (qs i) = (q, nx1)" by (metis surj_pair)
    note pop = pop_is [OF rep p]
    have "set (tl (A i)) \<subseteq> set (A i)" by (cases "A i") auto
    then show ?thesis
      using pop(1) pop(2) [OF rep apart] apart by (auto simp: queues_are_def s Pop p) blast+
  next
    case (Splice i j)
    obtain q r nx1 where p: "queue_splice nx (qs i) (qs j) = ((q, r), nx1)" by (metis surj_pair)
    have ij: "i \<noteq> j" using assms(2) Splice by simp
    note splice = splice_is [OF rep rep apart [OF ij] p]
    show ?thesis
      using splice(1,2) splice(3) [OF rep apart] apart ij
      by (auto simp: queues_are_def s Splice p)
  qed
qed

text \<open>
  C22. Any number of operation queues over one heap of \<open>next_\<close> pointers, under any sequence of
  pushes, pops and splices in which no operation is pushed while it is still in a queue and no queue
  is spliced into itself: each queue is at all times the list its calls make it, whatever the calls
  on the other queues write into the shared pointers.
\<close>

theorem queues_refine_lists:
  assumes "queues_are s A" "allowed_run calls A"
  shows "queues_are (fold queue_step calls s) (fold list_step calls A)"
  using assms
  by (induction calls arbitrary: s A) (auto simp: queue_step_are)

theorem queues_refine_lists_witness:
  "queues_are (fold queue_step [Push 0 5, Push 1 7, Push 0 6, Splice 1 0, Pop 1, Push 0 7]
      ((\<lambda>_. Some 9), (\<lambda>_. new_queue)))
    (fold list_step [Push 0 5, Push 1 7, Push 0 6, Splice 1 0, Pop 1, Push 0 7] (\<lambda>_. []))"
proof (rule queues_refine_lists)
  show "queues_are ((\<lambda>_. Some 9), (\<lambda>_. new_queue)) (\<lambda>_. [])"
    by (simp add: queues_are_def queue_is_def new_queue_def)
  show "allowed_run [Push 0 5, Push 1 7, Push 0 6, Splice 1 0, Pop 1, Push 0 7] (\<lambda>_. [])"
    by simp
qed

lemma destroy_all:
  assumes "queue_is nx q as"
  shows "\<exists>nx1. queue_destroy nx q ds = Some (ds @ as, nx1)"
  using assms
proof (induction as arbitrary: nx q ds)
  case Nil
  then show ?case by (subst queue_destroy.simps) (simp add: queue_is_def)
next
  case (Cons a as)
  obtain q1 nx1 where p: "queue_pop nx q = (q1, nx1)" by (metis surj_pair)
  with pop_is(1) [OF Cons.prems] have "queue_is nx1 q1 as" by simp
  from Cons.IH [OF this, of "ds @ [a]"] Cons.prems p show ?case
    by (subst queue_destroy.simps) (simp add: queue_is_def)
qed

end
