(* ===== verification/Object_Pool.thy ===== *)
theory Object_Pool
  imports Op_Queue
begin

text \<open>
  The pool of the bundled asio library, \<open>detail/object_pool.hpp\<close>, in which the epoll reactor keeps
  the states of its descriptors: a doubly linked list of live objects and a list of free ones, both
  through pointers in the objects. An object is its address; the address that \<open>new\<close> returns is an
  argument. The pool refines a pair of lists.
\<close>

record object_pool =
  live_list :: "nat option"
  free_list :: "nat option"
  obj_next :: next_heap
  obj_prev :: next_heap

text \<open>The pointers of objects that do not exist yet are arbitrary.\<close>

definition new_pool :: "next_heap \<Rightarrow> next_heap \<Rightarrow> object_pool" where
  "new_pool nx pv = \<lparr>live_list = None, free_list = None, obj_next = nx, obj_prev = pv\<rparr>"

definition pool_first :: "object_pool \<Rightarrow> nat option" where
  "pool_first p = live_list p"

definition pool_alloc :: "nat \<Rightarrow> object_pool \<Rightarrow> nat \<times> object_pool" where
  "pool_alloc created p =
     (let (obj, p1) = (case free_list p of
              Some f \<Rightarrow> (f, p\<lparr>free_list := obj_next p f\<rparr>)
            | None \<Rightarrow> (created, p));
          p2 = p1\<lparr>obj_next := (obj_next p1)(obj := live_list p1), obj_prev := (obj_prev p1)(obj := None)\<rparr>;
          p3 = (case live_list p2 of
              Some l \<Rightarrow> p2\<lparr>obj_prev := (obj_prev p2)(l := Some obj)\<rparr>
            | None \<Rightarrow> p2)
      in (obj, p3\<lparr>live_list := Some obj\<rparr>))"

definition pool_free :: "nat \<Rightarrow> object_pool \<Rightarrow> object_pool" where
  "pool_free obj p =
     (let p1 = (if live_list p = Some obj then p\<lparr>live_list := obj_next p obj\<rparr> else p);
          p2 = (case obj_prev p1 obj of
              Some a \<Rightarrow> p1\<lparr>obj_next := (obj_next p1)(a := obj_next p1 obj)\<rparr>
            | None \<Rightarrow> p1);
          p3 = (case obj_next p2 obj of
              Some b \<Rightarrow> p2\<lparr>obj_prev := (obj_prev p2)(b := obj_prev p2 obj)\<rparr>
            | None \<Rightarrow> p2)
      in p3\<lparr>obj_next := (obj_next p3)(obj := free_list p3), obj_prev := (obj_prev p3)(obj := None),
            free_list := Some obj\<rparr>)"

text \<open>The objects in the order in which they are deleted.\<close>

partial_function (option) destroy_list :: "next_heap \<Rightarrow> nat option \<Rightarrow> nat list \<Rightarrow> nat list option" where
  "destroy_list nx list destroyed =
     (case list of
        None \<Rightarrow> Some destroyed
      | Some obj \<Rightarrow> destroy_list nx (nx obj) (destroyed @ [obj]))"

definition destroy_pool :: "object_pool \<Rightarrow> nat list option" where
  "destroy_pool p =
     Option.bind (destroy_list (obj_next p) (live_list p) [])
       (destroy_list (obj_next p) (free_list p))"

section \<open>Pools as lists\<close>

text \<open>The pointers back: each object's is the one before it.\<close>

fun back_chain :: "next_heap \<Rightarrow> nat option \<Rightarrow> nat list \<Rightarrow> bool" where
  "back_chain pv p [] \<longleftrightarrow> True"
| "back_chain pv p (a # as) \<longleftrightarrow> pv a = p \<and> back_chain pv (Some a) as"

definition pool_is :: "object_pool \<Rightarrow> nat list \<Rightarrow> nat list \<Rightarrow> bool" where
  "pool_is p L F \<longleftrightarrow> chain (obj_next p) (live_list p) L \<and> back_chain (obj_prev p) None L
     \<and> chain (obj_next p) (free_list p) F \<and> distinct (L @ F)"

text \<open>The lists are the only ones.\<close>

lemma chain_unique: "chain nx p as \<Longrightarrow> chain nx p bs \<Longrightarrow> as = bs"
proof (induction as arbitrary: p bs)
  case Nil
  then show ?case by (cases bs) auto
next
  case (Cons a as)
  then show ?case by (cases bs) auto
qed

lemma pool_is_unique: "pool_is p L F \<Longrightarrow> pool_is p L1 F1 \<Longrightarrow> L1 = L \<and> F1 = F"
  using chain_unique by (auto simp: pool_is_def)

lemma back_chain_update: "a \<notin> set as \<Longrightarrow> back_chain (pv(a := v)) p as = back_chain pv p as"
  by (induction as arbitrary: p) auto

lemma chain_middle:
  "chain nx p (xs @ a # ys) \<Longrightarrow> chain nx (nx a) ys"
  by (induction xs arbitrary: p) auto

lemma back_chain_middle:
  "back_chain pv p (xs @ a # ys) \<longleftrightarrow> back_chain pv p xs \<and> pv a = (if xs = [] then p else Some (last xs))
     \<and> back_chain pv (Some a) ys"
  by (induction xs arbitrary: p) auto

text \<open>Taking an object out of the middle.\<close>

lemma chain_unlink:
  assumes "chain nx p (xs @ a # ys)" "distinct (xs @ a # ys)" "xs \<noteq> []"
  shows "chain (nx(last xs := nx a)) p (xs @ ys)"
  using assms
proof (induction xs arbitrary: p)
  case (Cons x xs)
  show ?case
  proof (cases "xs = []")
    case True
    with Cons.prems have "chain nx (nx a) ys" "x \<notin> set ys" by auto
    with True Cons.prems chain_update [of x ys nx "nx a" "nx a"] show ?thesis by (simp add: fun_upd_def)
  next
    case False
    with Cons.prems have "x \<noteq> last xs" using last_in_set [OF False] by auto
    with False Cons show ?thesis by simp
  qed
qed simp

lemma pool_alloc_is:
  assumes "pool_is p L F" "F = [] \<Longrightarrow> created \<notin> set L" "pool_alloc created p = (x, q)"
  shows "x = (if F = [] then created else hd F)" "pool_is q (x # L) (tl F)"
proof -
  have fl: "free_list p = (if F = [] then None else Some (hd F))"
    using assms(1) by (cases F) (auto simp: pool_is_def)
  show x: "x = (if F = [] then created else hd F)"
    using assms(3) fl by (auto simp: pool_alloc_def Let_def split: if_splits option.splits)
  have xL: "x \<notin> set L" using assms(1,2) x by (cases F) (auto simp: pool_is_def)
  have xF: "x \<notin> set (tl F)" using assms(1) x by (cases F) (auto simp: pool_is_def)
  have F: "chain (obj_next p) (if F = [] then None else obj_next p (hd F)) (tl F)"
    using assms(1) by (cases F) (auto simp: pool_is_def)
  show "pool_is q (x # L) (tl F)"
  proof (cases L)
    case Nil
    with assms x xF F fl show ?thesis
      by (cases F) (auto simp: pool_is_def pool_alloc_def Let_def chain_update split: if_splits)
  next
    case (Cons l ls)
    with assms(1) xL have l: "live_list p = Some l" "l \<noteq> x" "l \<notin> set ls" "distinct (tl F)" "set L \<inter> set (tl F) = {}"
      by (cases F; auto simp: pool_is_def)+
    with Cons assms x xL xF F fl show ?thesis
      by (cases F) (auto simp: pool_is_def pool_alloc_def Let_def chain_update back_chain_update split: if_splits)
  qed
qed

lemma pool_free_is:
  assumes "pool_is p L F" "x \<in> set L"
  shows "pool_is (pool_free x p) (remove1 x L) (x # F)"
proof -
  obtain xs ys where L: "L = xs @ x # ys" and x: "x \<notin> set xs" using split_list_first [OF assms(2)] by blast
  note p = assms(1) [unfolded pool_is_def L]
  have d: "distinct (xs @ x # ys)" "distinct F" "set (xs @ x # ys) \<inter> set F = {}" using p by auto
  have nx: "obj_next p x = (if ys = [] then None else Some (hd ys))"
    using chain_middle [of "obj_next p" "live_list p" xs x ys] p by (cases ys) auto
  have pv: "obj_prev p x = (if xs = [] then None else Some (last xs))"
    using p by (auto simp: back_chain_middle)
  have live: "live_list p = Some x \<longleftrightarrow> xs = []" using p x by (cases xs) auto
  let ?nx = "if xs = [] then obj_next p else (obj_next p)(last xs := obj_next p x)"
  let ?pv = "if ys = [] then obj_prev p else (obj_prev p)(hd ys := obj_prev p x)"
  have lx: "last xs \<noteq> x" if "xs \<noteq> []" using that x last_in_set by blast
  have hy: "hd ys \<noteq> x" if "ys \<noteq> []" using that d(1) hd_in_set by force
  have q: "pool_free x p = p\<lparr>live_list := (if xs = [] then obj_next p x else live_list p),
      free_list := Some x, obj_next := ?nx(x := free_list p), obj_prev := ?pv(x := None)\<rparr>"
    using lx hy by (auto simp: pool_free_def Let_def nx pv live)
  have c: "chain ?nx (if xs = [] then obj_next p x else live_list p) (xs @ ys)"
    using chain_unlink [of "obj_next p" "live_list p" xs x ys] p d(1)
      chain_middle [of "obj_next p" "live_list p" xs x ys] by auto
  have b: "back_chain ?pv None (xs @ ys)"
  proof (cases ys)
    case Nil
    with p show ?thesis by (simp add: back_chain_middle)
  next
    case (Cons y zs)
    with p d(1) pv show ?thesis by (auto simp: back_chain_middle back_chain_update)
  qed
  have f: "chain ?nx (free_list p) F"
    using p d(3) last_in_set [of xs] by (cases "xs = []") (auto simp: chain_update disjoint_iff)
  show ?thesis
    using c b f d x unfolding q by (auto simp: pool_is_def L remove1_append chain_update back_chain_update)
qed

section \<open>Calls\<close>

datatype pool_call = Alloc nat | Free nat

fun pool_step :: "pool_call \<Rightarrow> object_pool \<Rightarrow> object_pool" where
  "pool_step (Alloc created) p = snd (pool_alloc created p)"
| "pool_step (Free x) p = pool_free x p"

text \<open>
  The same on lists, and which calls are allowed: \<open>new\<close> returns an address not in use, and what is freed
  is live.
\<close>

fun lists_step :: "pool_call \<Rightarrow> nat list \<times> nat list \<Rightarrow> nat list \<times> nat list" where
  "lists_step (Alloc created) (L, F) = (if F = [] then (created # L, []) else (hd F # L, tl F))"
| "lists_step (Free x) (L, F) = (remove1 x L, x # F)"

fun pool_allowed :: "pool_call \<Rightarrow> nat list \<times> nat list \<Rightarrow> bool" where
  "pool_allowed (Alloc created) (L, F) \<longleftrightarrow> created \<notin> set L \<union> set F"
| "pool_allowed (Free x) (L, F) \<longleftrightarrow> x \<in> set L"

fun pool_allowed_run :: "pool_call list \<Rightarrow> nat list \<times> nat list \<Rightarrow> bool" where
  "pool_allowed_run [] A \<longleftrightarrow> True"
| "pool_allowed_run (c # cs) A \<longleftrightarrow> pool_allowed c A \<and> pool_allowed_run cs (lists_step c A)"

lemma pool_step_is:
  assumes "pool_is p (fst A) (snd A)" "pool_allowed c A"
  shows "pool_is (pool_step c p) (fst (lists_step c A)) (snd (lists_step c A))"
proof (cases c)
  case (Alloc created)
  obtain x q where q: "pool_alloc created p = (x, q)" by (cases "pool_alloc created p")
  have fr: "snd A = [] \<Longrightarrow> created \<notin> set (fst A)" using assms(2) Alloc by (cases A) simp
  from pool_alloc_is [OF assms(1) fr q] q Alloc show ?thesis by (cases A) auto
next
  case (Free x)
  with assms pool_free_is show ?thesis by (cases A) auto
qed

lemma destroy_list_is: "chain nx p as \<Longrightarrow> destroy_list nx p ds = Some (ds @ as)"
proof (induction as arbitrary: p ds)
  case Nil
  then show ?case by (subst destroy_list.simps) simp
next
  case (Cons a as)
  then show ?case by (subst destroy_list.simps) simp
qed

lemma destroy_pool_is: "pool_is p L F \<Longrightarrow> destroy_pool p = Some (L @ F)"
  using destroy_list_is [of "obj_next p" "live_list p" L "[]"] destroy_list_is [of "obj_next p" "free_list p" F L]
  by (simp add: destroy_pool_def pool_is_def)

lemma pool_run_is:
  "pool_is p (fst A) (snd A) \<Longrightarrow> pool_allowed_run cs A \<Longrightarrow>
    pool_is (fold pool_step cs p) (fst (fold lists_step cs A)) (snd (fold lists_step cs A))"
  by (induction cs arbitrary: p A) (simp_all add: pool_step_is)

text \<open>
  A pool is the pair of its live and its free objects under any calls: the live objects can be walked
  from the first, which is the last one allocated, an object that was freed is used again before a new
  one is made, and the destructor returns and deletes every object once.
\<close>

lemma pool_refines_lists:
  assumes "pool_allowed_run calls ([], [])" "fold lists_step calls ([], []) = (L, F)"
  shows "pool_is (fold pool_step calls (new_pool nx pv)) L F
    \<and> destroy_pool (fold pool_step calls (new_pool nx pv)) = Some (L @ F) \<and> distinct (L @ F)"
proof -
  have "pool_is (new_pool nx pv) (fst ([], [])) (snd ([], []))" by (simp add: pool_is_def new_pool_def)
  from pool_run_is [OF this assms(1)] assms(2) have "pool_is (fold pool_step calls (new_pool nx pv)) L F" by simp
  with destroy_pool_is show ?thesis by (auto simp: pool_is_def)
qed

end
