(* ===== verification/Time_Traits.thy ===== *)
theory Time_Traits
  imports Chord_Prelude "HOL-Library.Signed_Division"
begin

text \<open>
  Time arithmetic of the bundled asio library, \<open>detail/chrono_time_traits.hpp\<close>: the addition and
  the subtraction that saturate instead of overflowing, and the conversion of durations.

  A time point and a duration are the 64-bit signed tick counts the clocks of the standard library
  have, as integers. Every arithmetic operation of the source goes through \<open>int64\<close>, which is \<open>None\<close>
  when the exact value does not fit: signed overflow is undefined behaviour in C++. A theorem that a
  routine is \<open>Some\<close> value therefore says that no step of it overflows.
\<close>

definition int64 :: "int \<Rightarrow> int option" where
  "int64 x = (if - (2 ^ 63) \<le> x \<and> x < 2 ^ 63 then Some x else None)"

definition time_max :: int where "time_max = 2 ^ 63 - 1"

definition time_min :: int where "time_min = - (2 ^ 63)"

definition in_int64 :: "int \<Rightarrow> bool" where
  "in_int64 x \<longleftrightarrow> time_min \<le> x \<and> x \<le> time_max"

lemma int64_some [simp]: "in_int64 x \<Longrightarrow> int64 x = Some x"
  by (simp add: in_int64_def time_min_def time_max_def int64_def)

section \<open>Addition and subtraction\<close>

definition chrono_add :: "int \<Rightarrow> int \<Rightarrow> int option" where
  "chrono_add t d =
     (if t \<ge> 0 then
        Option.bind (int64 (time_max - t)) (\<lambda>room.
          if room < d then Some time_max else int64 (t + d))
      else
        Option.bind (int64 (t - time_min)) (\<lambda>above.
          Option.bind (int64 (- above)) (\<lambda>room.
            if room > d then Some time_min else int64 (t + d))))"

definition chrono_subtract :: "int \<Rightarrow> int \<Rightarrow> int option" where
  "chrono_subtract t1 t2 =
     (if t1 \<ge> 0 then
        if t2 \<ge> 0 then int64 (t1 - t2)
        else if t2 = time_min then Some time_max
        else
          Option.bind (int64 (time_max - t1)) (\<lambda>room.
            Option.bind (int64 (0 - t2)) (\<lambda>m.
              if room < m then Some time_max else int64 (t1 - t2)))
      else
        if t2 < 0 then int64 (t1 - t2)
        else if t1 = time_min then Some time_min
        else
          Option.bind (int64 (time_max - t2)) (\<lambda>room.
            Option.bind (int64 (0 - t1)) (\<lambda>m.
              if room < m then Some time_min
              else Option.bind (int64 (t2 - t1)) (\<lambda>x. int64 (- x)))))"

definition chrono_less_than :: "int \<Rightarrow> int \<Rightarrow> bool" where
  "chrono_less_than t1 t2 \<longleftrightarrow> t1 < t2"

text \<open>The value the two routines are meant to have: the exact one, kept inside the range.\<close>

definition saturate :: "int \<Rightarrow> int" where
  "saturate x = max time_min (min time_max x)"

lemma time_add_saturates:
  "in_int64 t \<Longrightarrow> in_int64 u \<Longrightarrow> chrono_add t u = Some (saturate (t + u))"
  by (auto simp: chrono_add_def saturate_def in_int64_def int64_def time_min_def time_max_def)

lemma time_subtract_saturates:
  "in_int64 t \<Longrightarrow> in_int64 u \<Longrightarrow> chrono_subtract t u = Some (saturate (t - u))"
  by (auto simp: chrono_subtract_def saturate_def in_int64_def int64_def time_min_def time_max_def)

text \<open>
  The time arithmetic saturates: on every pair of 64-bit tick counts the sum and the difference
  are the exact ones, moved to the nearer end of the range when they lie outside it, and no
  subtraction or negation on the way there overflows.
\<close>

lemma time_arithmetic_saturates:
  assumes "in_int64 t" "in_int64 u"
  shows "chrono_add t u = Some (saturate (t + u))
    \<and> chrono_subtract t u = Some (saturate (t - u))"
  using assms by (simp add: time_add_saturates time_subtract_saturates)

lemma time_arithmetic_saturates_witness:
  "chrono_add time_max 1 = Some time_max \<and> chrono_subtract (-2) time_max = Some time_min"
  using time_arithmetic_saturates [of time_max 1] time_arithmetic_saturates [of "-2" time_max]
  by (simp add: in_int64_def saturate_def time_max_def time_min_def)

section \<open>Durations\<close>

text \<open>
  Division of C++ rounds towards zero, as \<open>sdiv\<close> does; the only quotient of two \<open>int64_t\<close> that
  overflows is that of the least one by \<open>-1\<close>, and the divisors here are positive.
\<close>

text \<open>The compile-time \<open>gcd\<close> of the header.\<close>

fun chrono_gcd :: "nat \<Rightarrow> nat \<Rightarrow> nat" where
  "chrono_gcd v1 v2 = (if v2 = 0 then v1 else chrono_gcd v2 (v1 mod v2))"

declare chrono_gcd.simps [simp del]

lemma chrono_gcd_gcd: "chrono_gcd a b = gcd a b"
  by (induction a b rule: chrono_gcd.induct) (simp add: chrono_gcd.simps gcd_non_0_nat)

text \<open>
  \<open>duration_cast<Num, Den>\<close> for a clock whose ticks are \<open>pnum/pden\<close> seconds; the multiplications at
  run time go through \<open>int64\<close>, those on the template arguments are done by the compiler.
\<close>

definition duration_cast :: "nat \<Rightarrow> nat \<Rightarrow> nat \<Rightarrow> nat \<Rightarrow> int \<Rightarrow> int option" where
  "duration_cast pnum pden N D ticks =
     (let num1 = pnum div chrono_gcd pnum N;
          num2 = N div chrono_gcd pnum N;
          den1 = pden div chrono_gcd pden D;
          den2 = D div chrono_gcd pden D;
          num = num1 * den2;
          den = num2 * den1
      in if num = 1 \<and> den = 1 then Some ticks
         else if num \<noteq> 1 \<and> den = 1 then int64 (ticks * int num)
         else if num = 1 \<and> pden \<noteq> 1 then Some (ticks sdiv int den)
         else map_option (\<lambda>x. x sdiv int den) (int64 (ticks * int num)))"

definition total_seconds :: "nat \<Rightarrow> nat \<Rightarrow> int \<Rightarrow> int option" where
  "total_seconds pnum pden = duration_cast pnum pden 1 1"

definition total_milliseconds :: "nat \<Rightarrow> nat \<Rightarrow> int \<Rightarrow> int option" where
  "total_milliseconds pnum pden = duration_cast pnum pden 1 1000"

definition total_microseconds :: "nat \<Rightarrow> nat \<Rightarrow> int \<Rightarrow> int option" where
  "total_microseconds pnum pden = duration_cast pnum pden 1 1000000"

text \<open>What the cast computes when its one multiplication does not overflow.\<close>

lemma sdiv_scale: "0 < c \<Longrightarrow> 0 < b \<Longrightarrow> (a * c) sdiv (b * c) = a sdiv (b :: int)"
  by (simp add: signed_divide_int_def abs_mult sgn_mult)

lemma in_int64_between:
  assumes "in_int64 y" "0 \<le> x \<and> x \<le> y \<or> y \<le> x \<and> x \<le> 0"
  shows "in_int64 x"
  using assms by (auto simp: in_int64_def time_min_def time_max_def)

lemma in_int64_scale: "in_int64 (t * int M) \<Longrightarrow> m \<le> M \<Longrightarrow> in_int64 (t * int m)"
  by (erule in_int64_between)
    (auto simp: mult_left_mono mult_left_mono_neg mult_nonpos_nonneg not_le intro: le_cases [of 0 t])

lemma gcd_split:
  fixes a b :: nat
  assumes "0 < b"
  obtains g where "a = a div chrono_gcd a b * g" "b = b div chrono_gcd a b * g" "0 < g"
  using assms that [of "gcd a b"] by (simp add: chrono_gcd_gcd)

lemma duration_cast_exact:
  assumes "0 < pnum" "0 < pden" "0 < N" "0 < D"
    and "in_int64 (ticks * int (pnum * D))"
  shows "duration_cast pnum pden N D ticks
    = Some ((ticks * int (pnum * D)) sdiv int (pden * N))"
proof -
  obtain g where g: "pnum = pnum div chrono_gcd pnum N * g" "N = N div chrono_gcd pnum N * g" "0 < g"
    using gcd_split [OF assms(3)] .
  obtain h where h: "pden = pden div chrono_gcd pden D * h" "D = D div chrono_gcd pden D * h" "0 < h"
    using gcd_split [OF assms(4)] .
  define n1 n2 d1 d2 where "n1 = pnum div chrono_gcd pnum N" and "n2 = N div chrono_gcd pnum N"
    and "d1 = pden div chrono_gcd pden D" and "d2 = D div chrono_gcd pden D"
  note g = g [folded n1_def n2_def] and h = h [folded d1_def d2_def]
  have pos: "0 < n2 * d1" using assms(2,3) g(2) h(1) by (metis mult_is_0 neq0_conv)
  have "(ticks * int (pnum * D)) sdiv int (pden * N)
      = (ticks * int (n1 * d2) * int (g * h)) sdiv (int (n2 * d1) * int (g * h))"
    by (subst g(1), subst g(2), subst h(1), subst h(2)) (simp add: algebra_simps)
  also have "\<dots> = (ticks * int (n1 * d2)) sdiv int (n2 * d1)"
    using pos g(3) h(3) by (intro sdiv_scale) simp_all
  finally have spec: "(ticks * int (pnum * D)) sdiv int (pden * N) = \<dots>" .
  have "n1 * d2 \<le> pnum * D" using g(1,3) h(2,3)
    by (metis (no_types) Suc_leI mult.right_neutral mult_le_mono mult_le_mono2 One_nat_def)
  with assms(5) have fits: "in_int64 (ticks * int (n1 * d2))" by (rule in_int64_scale)
  show ?thesis
    unfolding spec duration_cast_def Let_def n1_def [symmetric] n2_def [symmetric]
      d1_def [symmetric] d2_def [symmetric]
    using fits by (auto simp: signed_divide_int_def sgn_mult_abs)
qed

text \<open>For the nanosecond ticks of the steady and the system clock nothing is multiplied.\<close>

lemma nanosecond_totals:
  "total_seconds 1 1000000000 t = Some (t sdiv 1000000000)"
  "total_milliseconds 1 1000000000 t = Some (t sdiv 1000000)"
  "total_microseconds 1 1000000000 t = Some (t sdiv 1000)"
  by (simp_all add: total_seconds_def total_milliseconds_def total_microseconds_def
      duration_cast_def chrono_gcd_gcd Let_def)

end
