(* ===== verification/Timer_Queue.thy ===== *)
theory Timer_Queue
  imports Time_Traits Asio_Errors
begin

text \<open>
  The queue of timers of the bundled asio library, \<open>detail/timer_queue.hpp\<close>, and the set of such
  queues a reactor asks, \<open>detail/impl/timer_queue_set.ipp\<close>.

  The active timers are threaded on a doubly linked list through their \<open>next_\<close> and \<open>prev_\<close>
  pointers; those that expire at some time have an entry in a binary heap, and know its index. A
  timer is its address; \<open>tq_data\<close> is the memory its \<open>per_timer_data\<close> is in. The queue of
  operations of a timer is a list, which is what \<open>Op_Queue\<close> shows the intrusive queue to be, an
  operation its address, \<open>tq_ec\<close> the error code stored in it.

  A time is a tick count of \<open>Time_Traits\<close>; \<open>is_inf\<close> is \<open>is_positive_infinity\<close>, which is constantly false
  for the clocks of the standard library and asks the date library for its times.
\<close>

record per_timer_data =
  pt_ops :: "nat list"
  pt_index :: nat
  pt_next :: "nat option"
  pt_prev :: "nat option"

text \<open>A timer object that was not used yet; its index is what the memory held.\<close>

definition fresh_timer :: "nat \<Rightarrow> per_timer_data" where
  "fresh_timer g = \<lparr>pt_ops = [], pt_index = g, pt_next = None, pt_prev = None\<rparr>"

type_synonym heap_entry = "int \<times> nat"

record timer_queue =
  tq_timers :: "nat option"
  tq_heap :: "heap_entry list"
  tq_data :: "nat \<Rightarrow> per_timer_data"
  tq_ec :: "nat \<Rightarrow> error_code"

abbreviation set_index :: "nat \<Rightarrow> nat \<Rightarrow> (nat \<Rightarrow> per_timer_data) \<Rightarrow> nat \<Rightarrow> per_timer_data" where
  "set_index t i D \<equiv> D(t := D t\<lparr>pt_index := i\<rparr>)"

abbreviation set_next :: "nat \<Rightarrow> nat option \<Rightarrow> (nat \<Rightarrow> per_timer_data) \<Rightarrow> nat \<Rightarrow> per_timer_data" where
  "set_next t p D \<equiv> D(t := D t\<lparr>pt_next := p\<rparr>)"

abbreviation set_prev :: "nat \<Rightarrow> nat option \<Rightarrow> (nat \<Rightarrow> per_timer_data) \<Rightarrow> nat \<Rightarrow> per_timer_data" where
  "set_prev t p D \<equiv> D(t := D t\<lparr>pt_prev := p\<rparr>)"

abbreviation set_ops :: "nat \<Rightarrow> nat list \<Rightarrow> (nat \<Rightarrow> per_timer_data) \<Rightarrow> nat \<Rightarrow> per_timer_data" where
  "set_ops t os D \<equiv> D(t := D t\<lparr>pt_ops := os\<rparr>)"

text \<open>
  The greatest \<open>size_t\<close>, and the most entries of sixteen bytes a vector holds.
\<close>

definition size_max :: nat where "size_max = 2 ^ 64 - 1"

definition vector_max :: nat where "vector_max = 2 ^ 59 - 1"

section \<open>The heap\<close>

definition swap_heap :: "nat \<Rightarrow> nat \<Rightarrow> timer_queue \<Rightarrow> timer_queue" where
  "swap_heap index1 index2 q =
     (let tmp = tq_heap q ! index1;
          h1 = (tq_heap q)[index1 := tq_heap q ! index2];
          h2 = h1[index2 := tmp];
          D1 = set_index (snd (h2 ! index1)) index1 (tq_data q);
          D2 = set_index (snd (h2 ! index2)) index2 D1
      in q\<lparr>tq_heap := h2, tq_data := D2\<rparr>)"

abbreviation entry_less :: "timer_queue \<Rightarrow> nat \<Rightarrow> nat \<Rightarrow> bool" where
  "entry_less q i j \<equiv> chrono_less_than (fst (tq_heap q ! i)) (fst (tq_heap q ! j))"

function up_heap :: "nat \<Rightarrow> timer_queue \<Rightarrow> timer_queue" where
  "up_heap index q =
     (if index > 0 then
        let parent = (index - 1) div 2
        in if \<not> entry_less q index parent then q
           else up_heap parent (swap_heap index parent q)
      else q)"
  by pat_completeness auto
termination by (relation "measure fst") auto

definition min_child :: "timer_queue \<Rightarrow> nat \<Rightarrow> nat" where
  "min_child q child =
     (if child + 1 = length (tq_heap q) \<or> entry_less q child (child + 1) then child else child + 1)"

lemma swap_heap_length [simp]: "length (tq_heap (swap_heap i j q)) = length (tq_heap q)"
  by (simp add: swap_heap_def Let_def)

lemma min_child_ge: "child \<le> min_child q child"
  by (simp add: min_child_def)

lemma min_child_bound: "child < length (tq_heap q) \<Longrightarrow> min_child q child < length (tq_heap q)"
  by (simp add: min_child_def)

function down_heap :: "nat \<Rightarrow> timer_queue \<Rightarrow> timer_queue" where
  "down_heap index q =
     (let child = index * 2 + 1
      in if child < length (tq_heap q) then
           let m = min_child q child
           in if entry_less q index m then q
              else down_heap m (swap_heap index m q)
         else q)"
  by pat_completeness auto
termination
proof (relation "measure (\<lambda>(index, q). length (tq_heap q) - index)", goal_cases)
  case (2 index q child m)
  have "index < m" using min_child_ge [of child q] 2 by simp
  then show ?case using 2 min_child_bound [of child q] by simp
qed simp

declare up_heap.simps [simp del] and down_heap.simps [simp del]

definition pop_back :: "timer_queue \<Rightarrow> timer_queue" where
  "pop_back q = q\<lparr>tq_heap := butlast (tq_heap q)\<rparr>"

section \<open>Adding and removing timers\<close>

text \<open>The first half of \<open>remove_timer\<close>, on the heap, and the second, on the list.\<close>

definition remove_from_heap :: "nat \<Rightarrow> timer_queue \<Rightarrow> timer_queue" where
  "remove_from_heap t q =
     (let index = pt_index (tq_data q t)
      in if tq_heap q \<noteq> [] \<and> index < length (tq_heap q) then
           if index = length (tq_heap q) - 1 then pop_back q
           else
             let q1 = pop_back (swap_heap index (length (tq_heap q) - 1) q)
             in if index > 0 \<and> entry_less q1 index ((index - 1) div 2)
                then up_heap index q1
                else down_heap index q1
         else q)"

definition unlink_timer :: "nat \<Rightarrow> timer_queue \<Rightarrow> timer_queue" where
  "unlink_timer t q =
     (let first = (if tq_timers q = Some t then pt_next (tq_data q t) else tq_timers q);
          D1 = (case pt_prev (tq_data q t) of
                  Some p \<Rightarrow> set_next p (pt_next (tq_data q t)) (tq_data q)
                | None \<Rightarrow> tq_data q);
          D2 = (case pt_next (D1 t) of
                  Some n \<Rightarrow> set_prev n (pt_prev (D1 t)) D1
                | None \<Rightarrow> D1)
      in q\<lparr>tq_timers := first, tq_data := set_prev t None (set_next t None D2)\<rparr>)"

definition remove_timer :: "nat \<Rightarrow> timer_queue \<Rightarrow> timer_queue" where
  "remove_timer t q = unlink_timer t (remove_from_heap t q)"

definition link_timer :: "nat \<Rightarrow> timer_queue \<Rightarrow> timer_queue" where
  "link_timer t q =
     (let D1 = set_prev t None (set_next t (tq_timers q) (tq_data q));
          D2 = (case tq_timers q of Some f \<Rightarrow> set_prev f (Some t) D1 | None \<Rightarrow> D1)
      in q\<lparr>tq_timers := Some t, tq_data := D2\<rparr>)"

text \<open>
  \<open>room\<close> says whether \<open>push_back\<close> can have the memory it may ask for; when it cannot, it throws and
  the call has no result (\<open>None\<close>), but has already stored the index in the timer.
\<close>

definition enqueue_timer ::
    "(int \<Rightarrow> bool) \<Rightarrow> bool \<Rightarrow> int \<Rightarrow> nat \<Rightarrow> nat \<Rightarrow> timer_queue \<Rightarrow> timer_queue \<times> bool option" where
  "enqueue_timer is_inf room time t op q =
     (let finish = (\<lambda>q. let D = set_ops t (pt_ops (tq_data q t) @ [op]) (tq_data q)
            in (q\<lparr>tq_data := D\<rparr>,
                Some (pt_index (D t) = 0 \<and> hd (pt_ops (D t)) = op)))
      in if pt_prev (tq_data q t) = None \<and> tq_timers q \<noteq> Some t then
           if is_inf time then
             finish (link_timer t (q\<lparr>tq_data := set_index t size_max (tq_data q)\<rparr>))
           else
             let q1 = q\<lparr>tq_data := set_index t (length (tq_heap q)) (tq_data q)\<rparr>
             in if room \<and> length (tq_heap q1) < vector_max then
                  let q2 = q1\<lparr>tq_heap := tq_heap q1 @ [(time, t)]\<rparr>
                  in finish (link_timer t (up_heap (length (tq_heap q2) - 1) q2))
                else (q1, None)
         else finish q)"

definition timers_empty :: "timer_queue \<Rightarrow> bool" where
  "timers_empty q \<longleftrightarrow> tq_timers q = None"

section \<open>Expired and cancelled timers\<close>

text \<open>The loops take the operations they move as a list that grows at its end.\<close>

partial_function (option) ready_loop ::
    "int \<Rightarrow> nat list \<Rightarrow> timer_queue \<Rightarrow> (nat list \<times> timer_queue) option" where
  "ready_loop now ops q =
     (if tq_heap q \<noteq> [] \<and> \<not> chrono_less_than now (fst (tq_heap q ! 0)) then
        let t = snd (tq_heap q ! 0);
            ops1 = ops @ pt_ops (tq_data q t);
            q1 = q\<lparr>tq_data := set_ops t [] (tq_data q)\<rparr>
        in ready_loop now ops1 (remove_timer t q1)
      else Some (ops, q))"

definition get_ready_timers ::
    "int \<Rightarrow> nat list \<Rightarrow> timer_queue \<Rightarrow> (nat list \<times> timer_queue) option" where
  "get_ready_timers now ops q =
     (if tq_heap q \<noteq> [] then ready_loop now ops q else Some (ops, q))"

partial_function (option) all_loop ::
    "nat list \<Rightarrow> timer_queue \<Rightarrow> (nat list \<times> timer_queue) option" where
  "all_loop ops q =
     (case tq_timers q of
        Some t \<Rightarrow>
          let first = pt_next (tq_data q t);
              ops1 = ops @ pt_ops (tq_data q t);
              D = set_prev t None (set_next t None (set_ops t [] (tq_data q)))
          in all_loop ops1 (q\<lparr>tq_timers := first, tq_data := D\<rparr>)
      | None \<Rightarrow> Some (ops, q))"

definition get_all_timers :: "nat list \<Rightarrow> timer_queue \<Rightarrow> (nat list \<times> timer_queue) option" where
  "get_all_timers ops q = map_option (\<lambda>(ops, q). (ops, q\<lparr>tq_heap := []\<rparr>)) (all_loop ops q)"

text \<open>The recursion is on the operations that wait on the timer; \<open>n\<close> counts the cancelled ones.\<close>

fun cancel_loop ::
    "nat \<Rightarrow> nat \<Rightarrow> nat list \<Rightarrow> nat list \<Rightarrow> (nat \<Rightarrow> error_code)
     \<Rightarrow> nat \<times> nat list \<times> nat list \<times> (nat \<Rightarrow> error_code)" where
  "cancel_loop max_cancelled n [] ops ec = (n, [], ops, ec)"
| "cancel_loop max_cancelled n (op # waiting) ops ec =
     (if n \<noteq> max_cancelled
      then cancel_loop max_cancelled (n + 1) waiting (ops @ [op])
             (ec(op := basic_error operation_aborted))
      else (n, op # waiting, ops, ec))"

definition cancel_timer ::
    "nat \<Rightarrow> nat list \<Rightarrow> nat \<Rightarrow> timer_queue \<Rightarrow> nat \<times> nat list \<times> timer_queue" where
  "cancel_timer t ops max_cancelled q =
     (if pt_prev (tq_data q t) \<noteq> None \<or> tq_timers q = Some t then
        case cancel_loop max_cancelled 0 (pt_ops (tq_data q t)) ops (tq_ec q) of
          (n, waiting, ops1, ec) \<Rightarrow>
            let q1 = q\<lparr>tq_data := set_ops t waiting (tq_data q), tq_ec := ec\<rparr>
            in (n, ops1, if waiting = [] then remove_timer t q1 else q1)
      else (0, ops, q))"

section \<open>Waiting\<close>

text \<open>
  \<open>to_msec\<close> and \<open>to_usec\<close>: \<open>convert\<close> is the conversion of the duration's ticks, and \<open>static_cast<long>\<close>
  keeps a 64-bit value as it is.
\<close>

definition to_wait :: "(int \<Rightarrow> int option) \<Rightarrow> int \<Rightarrow> int \<Rightarrow> int option" where
  "to_wait convert d max_duration =
     (if d \<le> 0 then Some 0
      else map_option (\<lambda>n. if n = 0 then 1 else if n > max_duration then max_duration else n) (convert d))"

definition to_msec :: "int \<Rightarrow> int \<Rightarrow> int option" where
  "to_msec = to_wait (total_milliseconds 1 1000000000)"

definition to_usec :: "int \<Rightarrow> int \<Rightarrow> int option" where
  "to_usec = to_wait (total_microseconds 1 1000000000)"

definition wait_duration_msec :: "int \<Rightarrow> int \<Rightarrow> timer_queue \<Rightarrow> int option" where
  "wait_duration_msec now max_duration q =
     (if tq_heap q = [] then Some max_duration
      else Option.bind (chrono_subtract (fst (tq_heap q ! 0)) now) (\<lambda>d. to_msec d max_duration))"

definition wait_duration_usec :: "int \<Rightarrow> int \<Rightarrow> timer_queue \<Rightarrow> int option" where
  "wait_duration_usec now max_duration q =
     (if tq_heap q = [] then Some max_duration
      else Option.bind (chrono_subtract (fst (tq_heap q ! 0)) now) (\<lambda>d. to_usec d max_duration))"

end
