(* ===== verification/Timer_Laws.thy ===== *)
theory Timer_Laws
  imports Timer_Queue
begin

text \<open>
  What the timer queue promises: the heap stays ordered and its back pointers true, the list of
  active timers stays linked both ways, and under any sequence of calls the queue is the map from
  timers to deadlines and waiting operations that the calls describe.
\<close>

section \<open>Heaps of keys\<close>

abbreviation par :: "nat \<Rightarrow> nat" where "par i \<equiv> (i - 1) div 2"

definition heap_order :: "nat \<Rightarrow> (nat \<Rightarrow> int) \<Rightarrow> bool" where
  "heap_order n f \<longleftrightarrow> (\<forall>i. 0 < i \<and> i < n \<longrightarrow> f (par i) \<le> f i)"

text \<open>Ordered but for the key at \<open>k\<close>, which may be too small, or too great.\<close>

definition low_at :: "nat \<Rightarrow> (nat \<Rightarrow> int) \<Rightarrow> nat \<Rightarrow> bool" where
  "low_at n f k \<longleftrightarrow> (\<forall>i. 0 < i \<and> i < n \<and> i \<noteq> k \<longrightarrow> f (par i) \<le> f i)
     \<and> (\<forall>i. 0 < i \<and> i < n \<and> par i = k \<and> 0 < k \<longrightarrow> f (par k) \<le> f i)"

definition high_at :: "nat \<Rightarrow> (nat \<Rightarrow> int) \<Rightarrow> nat \<Rightarrow> bool" where
  "high_at n f k \<longleftrightarrow> (\<forall>i. 0 < i \<and> i < n \<and> par i \<noteq> k \<longrightarrow> f (par i) \<le> f i)
     \<and> (\<forall>i. 0 < i \<and> i < n \<and> par i = k \<and> 0 < k \<longrightarrow> f (par k) \<le> f i)"

lemma par_less: "0 < i \<Longrightarrow> par i < i"
  by auto

lemma heap_root: "heap_order n f \<Longrightarrow> i < n \<Longrightarrow> f 0 \<le> f i"
proof (induction i rule: less_induct)
  case (less i)
  show ?case
  proof (cases "i = 0")
    case False
    with less par_less [of i] have "f 0 \<le> f (par i)" "f (par i) \<le> f i"
      by (auto simp: heap_order_def)
    then show ?thesis by simp
  qed simp
qed

lemma low_done:
  assumes "low_at n f k" "k = 0 \<or> f (par k) \<le> f k"
  shows "heap_order n f"
  using assms by (auto simp: low_at_def heap_order_def)

lemma low_swap:
  assumes "low_at n f k" "0 < k" "k < n" "f k < f (par k)"
  shows "low_at n (f(k := f (par k), par k := f k)) (par k)"
proof -
  let ?p = "par k" and ?g = "f(k := f (par k), par k := f k)"
  have p: "?p < k" using assms(2) by (rule par_less)
  have ord: "f (par i) \<le> f i" if "0 < i" "i < n" "i \<noteq> k" for i
    using assms(1) that by (simp add: low_at_def)
  have kids: "f ?p \<le> f i" if "0 < i" "i < n" "par i = k" for i
    using assms(1,2) that by (simp add: low_at_def)
  show ?thesis unfolding low_at_def
  proof (intro conjI allI impI; elim conjE)
    fix i assume i: "0 < i" "i < n" "i \<noteq> ?p"
    consider "i = k" | "i \<noteq> k" "par i = ?p" | "i \<noteq> k" "par i = k" | "i \<noteq> k" "par i \<noteq> ?p" "par i \<noteq> k"
      by blast
    then show "?g (par i) \<le> ?g i"
    proof cases
      case 1 then show ?thesis using p assms(4) by simp
    next
      case 2 then show ?thesis using ord [of i] i p assms(4) by simp
    next
      case 3 then show ?thesis using kids [of i] i p by simp
    next
      case 4 then show ?thesis using ord [of i] i by simp
    qed
  next
    fix i assume i: "0 < i" "i < n" "par i = ?p" "0 < ?p"
    have pp: "f (par ?p) \<le> f ?p" using ord [of ?p] p assms(3) i(4) by simp
    have "par ?p < ?p" using i(4) by (rule par_less)
    moreover have "i \<noteq> ?p" using par_less [OF i(1)] i(3) by simp
    ultimately show "?g (par ?p) \<le> ?g i"
      using pp ord [of i] i p by (cases "i = k") auto
  qed
qed

lemma par_iff: "0 < i \<Longrightarrow> par i = k \<longleftrightarrow> i = 2 * k + 1 \<or> i = 2 * k + 2"
  by auto

lemma high_done:
  assumes "high_at n f k"
    and "2 * k + 1 < n \<Longrightarrow> f k \<le> f (2 * k + 1)" "2 * k + 2 < n \<Longrightarrow> f k \<le> f (2 * k + 2)"
  shows "heap_order n f"
  unfolding heap_order_def
proof (intro allI impI)
  fix i assume i: "0 < i \<and> i < n"
  show "f (par i) \<le> f i"
  proof (cases "par i = k")
    case True
    with i assms(2,3) show ?thesis using par_iff [of i k] by auto
  next
    case False
    with assms(1) i show ?thesis by (simp add: high_at_def)
  qed
qed

lemma high_swap:
  assumes "high_at n f k" "0 < m" "par m = k" "m < n" "f m \<le> f k"
    and other: "\<And>i. 0 < i \<Longrightarrow> i < n \<Longrightarrow> par i = k \<Longrightarrow> f m \<le> f i"
  shows "high_at n (f(k := f m, m := f k)) m"
proof -
  let ?g = "f(k := f m, m := f k)"
  have km: "k < m" using assms(2,3) par_less by blast
  have ord: "f (par i) \<le> f i" if "0 < i" "i < n" "par i \<noteq> k" for i
    using assms(1) that by (simp add: high_at_def)
  have up: "f (par k) \<le> f m" if "0 < k" using assms(1-4) that by (simp add: high_at_def)
  show ?thesis unfolding high_at_def
  proof (intro conjI allI impI; elim conjE)
    fix i assume i: "0 < i" "i < n" "par i \<noteq> m"
    consider "par i = k" | "i = k" | "par i \<noteq> k" "i \<noteq> k" by blast
    then show "?g (par i) \<le> ?g i"
    proof cases
      case 1 then show ?thesis using other [OF i(1,2)] km assms(5) par_less [OF i(1)] by auto
    next
      case 2 then show ?thesis using up i km par_less [of k] by auto
    next
      case 3
      then have "i \<noteq> m" using assms(3) by auto
      with 3 show ?thesis using ord [OF i(1,2)] i by simp
    qed
  next
    fix i assume i: "0 < i" "i < n" "par i = m" "0 < m"
    then show "?g (par m) \<le> ?g i"
      using ord [OF i(1,2)] km assms(3) par_less [OF i(1)] by auto
  qed
qed

text \<open>Taking away the key at \<open>k\<close> by moving the last one to its place.\<close>

lemma replace_low:
  assumes "heap_order (Suc n) f" "0 < k" "k < n" "f n < f (par k)"
  shows "low_at n (f(k := f n)) k"
proof -
  have p: "par k < k" using assms(2) by (rule par_less)
  have ord: "f (par i) \<le> f i" if "0 < i" "i < n" for i
    using assms(1) that by (simp add: heap_order_def)
  have k: "f (par k) \<le> f k" using ord assms(2,3) by simp
  have kid: "f k \<le> f i" if "0 < i" "i < n" "par i = k" for i using ord [of i] that by simp
  show ?thesis unfolding low_at_def
  proof (intro conjI allI impI; elim conjE)
    fix i assume i: "0 < i" "i < n" "i \<noteq> k"
    then show "(f(k := f n)) (par i) \<le> (f(k := f n)) i"
      using ord [of i] kid [of i] k assms(4) by (cases "par i = k") auto
  next
    fix i assume i: "0 < i" "i < n" "par i = k" "0 < k"
    then have "i \<noteq> k" using par_less [of i] by simp
    then show "(f(k := f n)) (par k) \<le> (f(k := f n)) i"
      using kid [OF i(1-3)] k p by simp
  qed
qed

lemma replace_high:
  assumes "heap_order (Suc n) f" "k < n" "0 < k \<Longrightarrow> f (par k) \<le> f n"
  shows "high_at n (f(k := f n)) k"
proof -
  have ord: "f (par i) \<le> f i" if "0 < i" "i < n" for i
    using assms(1) that by (simp add: heap_order_def)
  show ?thesis unfolding high_at_def
  proof (intro conjI allI impI; elim conjE)
    fix i assume "0 < i" "i < n" "par i \<noteq> k"
    then show "(f(k := f n)) (par i) \<le> (f(k := f n)) i" using ord [of i] assms(3) by auto
  next
    fix i assume i: "0 < i" "i < n" "par i = k" "0 < k"
    then have "i \<noteq> k" "par k < k" using par_less [of i] par_less [of k] by simp_all
    then show "(f(k := f n)) (par k) \<le> (f(k := f n)) i"
      using ord [OF i(1,2)] ord [of k] i assms(2) by simp
  qed
qed

section \<open>Moving entries in the heap\<close>

abbreviation keys :: "timer_queue \<Rightarrow> nat \<Rightarrow> int" where
  "keys q \<equiv> \<lambda>i. fst (tq_heap q ! i)"

abbreviation ordered :: "timer_queue \<Rightarrow> bool" where
  "ordered q \<equiv> heap_order (length (tq_heap q)) (keys q)"

definition indexed :: "(nat \<Rightarrow> per_timer_data) \<Rightarrow> heap_entry list \<Rightarrow> bool" where
  "indexed D hs \<longleftrightarrow> (\<forall>i < length hs. pt_index (D (snd (hs ! i))) = i)"

text \<open>What moving entries of the heap leaves as it is.\<close>

definition shuffled :: "timer_queue \<Rightarrow> timer_queue \<Rightarrow> bool" where
  "shuffled q q' \<longleftrightarrow> tq_timers q' = tq_timers q \<and> tq_ec q' = tq_ec q
     \<and> set (tq_heap q') = set (tq_heap q) \<and> length (tq_heap q') = length (tq_heap q)
     \<and> (\<forall>t. tq_data q' t = tq_data q t\<lparr>pt_index := pt_index (tq_data q' t)\<rparr>)
     \<and> (\<forall>t. t \<notin> snd ` set (tq_heap q) \<longrightarrow> tq_data q' t = tq_data q t)
     \<and> (indexed (tq_data q) (tq_heap q) \<longrightarrow> indexed (tq_data q') (tq_heap q'))"

lemma shuffled_refl [simp]: "shuffled q q"
  by (simp add: shuffled_def)

lemma shuffled_trans:
  assumes "shuffled q q1" "shuffled q1 q2"
  shows "shuffled q q2"
proof -
  have "tq_data q2 t = tq_data q t\<lparr>pt_index := pt_index (tq_data q2 t)\<rparr>" for t
  proof -
    have "tq_data q2 t = tq_data q1 t\<lparr>pt_index := pt_index (tq_data q2 t)\<rparr>"
      and "tq_data q1 t = tq_data q t\<lparr>pt_index := pt_index (tq_data q1 t)\<rparr>"
      using assms unfolding shuffled_def by blast+
    then show ?thesis by (metis per_timer_data.update_convs(2) per_timer_data.surjective)
  qed
  with assms show ?thesis by (simp add: shuffled_def)
qed

lemma indexed_inj:
  assumes "indexed D hs" "i < length hs" "j < length hs" "snd (hs ! i) = snd (hs ! j)"
  shows "i = j"
  using assms by (metis indexed_def)

lemma swap_heap_keys:
  assumes "i < length (tq_heap q)" "j < length (tq_heap q)" "i \<noteq> j"
  shows "keys (swap_heap i j q) = (keys q)(i := keys q j, j := keys q i)"
  using assms by (auto simp: swap_heap_def Let_def fun_eq_iff nth_list_update)

lemma swap_heap_shuffled:
  assumes "i < length (tq_heap q)" "j < length (tq_heap q)" "i \<noteq> j"
  shows "shuffled q (swap_heap i j q)"
proof -
  let ?h = "tq_heap q" and ?q = "swap_heap i j q"
  have h: "tq_heap ?q = ?h[i := ?h ! j, j := ?h ! i]"
    by (simp add: swap_heap_def Let_def)
  have D: "tq_data ?q = set_index (snd (?h ! i)) j (set_index (snd (?h ! j)) i (tq_data q))"
    using assms by (simp add: swap_heap_def Let_def nth_list_update)
  have s: "set (tq_heap ?q) = set ?h" using assms by (simp add: h)
  have "indexed (tq_data ?q) (tq_heap ?q)" if ix: "indexed (tq_data q) ?h"
    unfolding indexed_def
  proof (intro allI impI)
    fix k assume k: "k < length (tq_heap ?q)"
    then have k: "k < length ?h" by simp
    have ne: "snd (?h ! i) \<noteq> snd (?h ! j)" using indexed_inj [OF ix assms(1,2)] assms(3) by blast
    show "pt_index (tq_data ?q (snd (tq_heap ?q ! k))) = k"
    proof (cases "k = i \<or> k = j")
      case True
      then show ?thesis using assms k ne by (auto simp: h D nth_list_update)
    next
      case False
      then have "snd (?h ! k) \<noteq> snd (?h ! i)" "snd (?h ! k) \<noteq> snd (?h ! j)"
        using indexed_inj [OF ix k] assms by blast+
      with False k ix show ?thesis by (simp add: h D nth_list_update indexed_def)
    qed
  qed
  moreover have "tq_data ?q t = tq_data q t" if "t \<notin> snd ` set ?h" for t
    using that assms by (auto simp: D)
  ultimately show ?thesis using s by (simp add: shuffled_def swap_heap_def Let_def)
qed

lemma up_heap_works:
  assumes "k < length (tq_heap q)" "low_at (length (tq_heap q)) (keys q) k"
  shows "shuffled q (up_heap k q) \<and> ordered (up_heap k q)"
  using assms
proof (induction k q rule: up_heap.induct)
  case (1 k q)
  show ?case
  proof (cases "k = 0 \<or> \<not> entry_less q k (par k)")
    case True
    then have "up_heap k q = q" by (subst up_heap.simps) (auto simp: Let_def)
    moreover have "ordered q"
      using True by (intro low_done [OF 1(3)]) (auto simp: chrono_less_than_def)
    ultimately show ?thesis by simp
  next
    case False
    then have k: "0 < k" and less: "keys q k < keys q (par k)" by (simp_all add: chrono_less_than_def)
    let ?q = "swap_heap k (par k) q"
    have p: "par k < length (tq_heap q)" "par k \<noteq> k" using par_less [OF k] 1(2) by simp_all
    have eq: "up_heap k q = up_heap (par k) ?q"
      using False by (subst up_heap.simps) (simp add: Let_def)
    have "low_at (length (tq_heap ?q)) (keys ?q) (par k)"
      unfolding swap_heap_keys [OF 1(2) p(1) p(2) [symmetric]] swap_heap_length
      using low_swap [OF 1(3) k 1(2) less] by simp
    with 1(1) [OF k refl] False p(1) have "shuffled ?q (up_heap (par k) ?q)" "ordered (up_heap (par k) ?q)"
      by simp_all
    then show ?thesis
      unfolding eq using shuffled_trans [OF swap_heap_shuffled [OF 1(2) p(1) p(2) [symmetric]]] by simp
  qed
qed

text \<open>An entry that is not earlier than the first one does not become the first.\<close>

lemma up_heap_first:
  assumes "0 < k" "k < length (tq_heap q)" "\<not> keys q k < keys q 0"
  shows "tq_heap (up_heap k q) ! 0 = tq_heap q ! 0"
  using assms
proof (induction k q rule: up_heap.induct)
  case (1 k q)
  show ?case
  proof (cases "entry_less q k (par k)")
    case False
    then show ?thesis by (subst up_heap.simps) (simp add: Let_def)
  next
    case True
    let ?q = "swap_heap k (par k) q"
    have p: "par k < length (tq_heap q)" "par k \<noteq> k" using par_less [OF 1(2)] 1(3) by simp_all
    have "par k \<noteq> 0"
    proof
      assume "par k = 0"
      with True have "keys q k < keys q 0" by (simp only: chrono_less_than_def)
      with 1(4) show False by contradiction
    qed
    note p = p this [unfolded neq0_conv]
    have "tq_heap ?q ! 0 = tq_heap q ! 0" "keys ?q (par k) = keys q k"
      using p 1(2,3) by (simp_all add: swap_heap_def Let_def nth_list_update)
    with 1(1) [OF 1(2) refl] True p 1(4) have "tq_heap (up_heap (par k) ?q) ! 0 = tq_heap q ! 0"
      by simp
    then show ?thesis using True 1(2) by (subst up_heap.simps) (simp add: Let_def)
  qed
qed

lemma min_child_least:
  assumes "2 * k + 1 < length (tq_heap q)" "0 < i" "i < length (tq_heap q)" "par i = k"
  shows "keys q (min_child q (2 * k + 1)) \<le> keys q i"
  using assms par_iff [of i k] by (auto simp: min_child_def chrono_less_than_def)

lemma down_heap_works:
  assumes "high_at (length (tq_heap q)) (keys q) k"
  shows "shuffled q (down_heap k q) \<and> ordered (down_heap k q)"
  using assms
proof (induction k q rule: down_heap.induct)
  case (1 k q)
  let ?n = "length (tq_heap q)" and ?m = "min_child q (k * 2 + 1)"
  show ?case
  proof (cases "k * 2 + 1 < ?n \<and> \<not> entry_less q k ?m")
    case False
    then have "down_heap k q = q" by (subst down_heap.simps) (simp add: Let_def)
    have kid: "keys q k \<le> keys q i" if "i < ?n" "i = 2 * k + 1 \<or> i = 2 * k + 2" for i
      using False that min_child_least [of k q i] par_iff [of i k]
      by (auto simp: chrono_less_than_def mult.commute)
    have "ordered q" by (rule high_done [OF 1(2)]) (simp_all add: kid)
    with \<open>down_heap k q = q\<close> show ?thesis by simp
  next
    case True
    let ?q = "swap_heap k ?m q"
    have m: "?m < ?n" "k < ?m" "par ?m = k"
      using True min_child_bound [of "k * 2 + 1" q] by (auto simp: min_child_def)
    have kn: "k < ?n" using m by simp
    have eq: "down_heap k q = down_heap ?m ?q"
      using True by (subst down_heap.simps) (simp add: Let_def)
    have "high_at ?n ((keys q)(k := keys q ?m, ?m := keys q k)) ?m"
      using 1(2) m True min_child_least [of k q]
      by (intro high_swap) (auto simp: chrono_less_than_def mult.commute)
    then have "high_at (length (tq_heap ?q)) (keys ?q) ?m"
      unfolding swap_heap_keys [OF kn m(1) less_imp_neq [OF m(2)]] swap_heap_length .
    with 1(1) [OF refl _ refl] True
    have "shuffled ?q (down_heap ?m ?q)" "ordered (down_heap ?m ?q)" by simp_all
    then show ?thesis
      unfolding eq using shuffled_trans [OF swap_heap_shuffled [OF kn m(1)]] m(2) by simp
  qed
qed

lemma pop_back_simps [simp]:
  "tq_heap (pop_back q) = butlast (tq_heap q)" "tq_data (pop_back q) = tq_data q"
  "tq_timers (pop_back q) = tq_timers q" "tq_ec (pop_back q) = tq_ec q"
  by (simp_all add: pop_back_def)

text \<open>Taking a timer's entry out of the heap.\<close>

definition entry_removed :: "nat \<Rightarrow> timer_queue \<Rightarrow> timer_queue \<Rightarrow> bool" where
  "entry_removed t q q' \<longleftrightarrow> tq_timers q' = tq_timers q \<and> tq_ec q' = tq_ec q
     \<and> set (tq_heap q') = {e \<in> set (tq_heap q). snd e \<noteq> t}
     \<and> length (tq_heap q') \<le> length (tq_heap q)
     \<and> (\<forall>u. tq_data q' u = tq_data q u\<lparr>pt_index := pt_index (tq_data q' u)\<rparr>)
     \<and> (\<forall>u. u \<notin> snd ` set (tq_heap q) \<longrightarrow> tq_data q' u = tq_data q u)
     \<and> indexed (tq_data q') (tq_heap q') \<and> ordered q'"

lemma set_butlast_indexed:
  assumes "indexed D hs" "hs \<noteq> []"
  shows "set (butlast hs) = {e \<in> set hs. snd e \<noteq> snd (last hs)}"
proof -
  obtain xs e where hs: "hs = xs @ [e]" using assms(2) by (cases hs rule: rev_cases) auto
  have "snd x \<noteq> snd e" if x: "x \<in> set xs" for x
  proof
    assume eq: "snd x = snd e"
    from x obtain i where "i < length xs" "x = xs ! i" by (metis in_set_conv_nth)
    then show False
      using indexed_inj [OF assms(1), of i "length xs"] eq by (simp add: hs nth_append)
  qed
  then show ?thesis by (auto simp: hs)
qed

lemma indexed_butlast: "indexed D hs \<Longrightarrow> indexed D (butlast hs)"
  by (simp add: indexed_def nth_butlast)

lemma par_before: "i < n \<Longrightarrow> par i < n"
  by simp

lemma heap_order_cong:
  "(\<And>i. i < n \<Longrightarrow> f i = g i) \<Longrightarrow> heap_order n f = heap_order n g"
  unfolding heap_order_def using par_before by metis

lemma low_at_cong:
  "(\<And>i. i < n \<Longrightarrow> f i = g i) \<Longrightarrow> k < n \<Longrightarrow> low_at n f k = low_at n g k"
  unfolding low_at_def using par_before by (smt (verit, best) less_trans)

lemma high_at_cong:
  "(\<And>i. i < n \<Longrightarrow> f i = g i) \<Longrightarrow> k < n \<Longrightarrow> high_at n f k = high_at n g k"
  unfolding high_at_def using par_before by (smt (verit, best) less_trans)

lemma order_butlast:
  assumes "ordered q"
  shows "ordered (pop_back q)"
proof -
  have "heap_order (length (tq_heap q) - 1) (keys q)"
    using assms unfolding heap_order_def by (meson diff_le_self order_less_le_trans)
  then show ?thesis
    by (subst heap_order_cong [where g = "keys q"]) (simp_all add: nth_butlast)
qed

lemma removed_by_shuffle:
  assumes "shuffled q q1" "indexed (tq_data q) (tq_heap q)" "tq_heap q1 \<noteq> []"
    and "snd (last (tq_heap q1)) = t" "shuffled (pop_back q1) q2" "ordered q2"
  shows "entry_removed t q q2"
proof -
  have ix: "indexed (tq_data q1) (tq_heap q1)" using assms(1,2) by (simp add: shuffled_def)
  have "set (tq_heap q2) = set (butlast (tq_heap q1))"
    using assms(5) by (simp add: shuffled_def)
  then have s: "set (tq_heap q2) = {e \<in> set (tq_heap q). snd e \<noteq> t}"
    using set_butlast_indexed [OF ix assms(3)] assms(1,4) by (simp add: shuffled_def)
  have d: "tq_data q2 u = tq_data q u\<lparr>pt_index := pt_index (tq_data q2 u)\<rparr>" for u
  proof -
    have "tq_data q2 u = tq_data q1 u\<lparr>pt_index := pt_index (tq_data q2 u)\<rparr>"
      and "tq_data q1 u = tq_data q u\<lparr>pt_index := pt_index (tq_data q1 u)\<rparr>"
      using assms(1,5) unfolding shuffled_def pop_back_simps by blast+
    then show ?thesis by (metis per_timer_data.update_convs(2) per_timer_data.surjective)
  qed
  have sub: "set (butlast (tq_heap q1)) \<subseteq> set (tq_heap q)"
    using assms(1) by (auto simp: shuffled_def dest: in_set_butlastD)
  have "tq_data q2 u = tq_data q u" if "u \<notin> snd ` set (tq_heap q)" for u
    using that assms(1,5) sub unfolding shuffled_def pop_back_simps by (metis image_mono subsetD)
  moreover have "indexed (tq_data q2) (tq_heap q2)"
    using assms(5) indexed_butlast [OF ix] by (simp add: shuffled_def)
  moreover have "tq_timers q2 = tq_timers q \<and> tq_ec q2 = tq_ec q
      \<and> length (tq_heap q2) \<le> length (tq_heap q)"
    using assms(1,5) by (simp add: shuffled_def)
  ultimately show ?thesis
    unfolding entry_removed_def using s d assms(6) by blast
qed

lemma remove_from_heap_works:
  assumes ix: "indexed (tq_data q) (tq_heap q)" and ord: "ordered q"
    and inh: "t \<in> snd ` set (tq_heap q)"
  shows "entry_removed t q (remove_from_heap t q)"
proof -
  obtain k where k: "k < length (tq_heap q)" "snd (tq_heap q ! k) = t"
    using inh by (auto simp: in_set_conv_nth)
  have at: "pt_index (tq_data q t) = k" using ix k by (auto simp: indexed_def)
  have ne: "tq_heap q \<noteq> []" using k by auto
  define n where "n = length (tq_heap q) - 1"
  have len: "length (tq_heap q) = Suc n" using ne by (simp add: n_def)
  show ?thesis
  proof (cases "k = n")
    case True
    then have "remove_from_heap t q = pop_back q"
      using ne k by (simp add: remove_from_heap_def at Let_def n_def)
    moreover have "snd (last (tq_heap q)) = t" using True k ne by (simp add: last_conv_nth n_def)
    ultimately show ?thesis
      using removed_by_shuffle [OF shuffled_refl ix ne _ shuffled_refl] order_butlast [OF ord] by simp
  next
    case False
    then have kn: "k < n" "n < length (tq_heap q)" "k \<noteq> n" using k by (simp_all add: len)
    define q1 where "q1 = swap_heap k n q"
    let ?b = "pop_back q1"
    have sh: "shuffled q q1" unfolding q1_def by (rule swap_heap_shuffled [OF k(1) kn(2,3)])
    have len1: "length (tq_heap q1) = Suc n" by (simp add: q1_def len)
    then have ne1: "tq_heap q1 \<noteq> []" by auto
    have last: "snd (last (tq_heap q1)) = t"
      using kn k(2) ne1 len1 by (simp add: last_conv_nth q1_def swap_heap_def Let_def len)
    have keys: "keys ?b i = ((keys q)(k := keys q n)) i" if "i < n" for i
      using that kn(1) len1 fun_cong [OF swap_heap_keys [OF k(1) kn(2,3)], of i]
      by (simp add: nth_butlast q1_def [symmetric])
    have eq: "remove_from_heap t q =
        (if k > 0 \<and> entry_less ?b k (par k) then up_heap k ?b else down_heap k ?b)"
      using kn(1) k(1) ne by (simp add: remove_from_heap_def at Let_def len q1_def)
    have kb: "keys ?b k = keys q n" "0 < k \<Longrightarrow> keys ?b (par k) = keys q (par k)"
      using keys [of k] keys [of "par k"] kn par_less [of k] by simp_all
    have ord: "heap_order (Suc n) (keys q)" using ord by (simp add: len)
    have "shuffled ?b (remove_from_heap t q) \<and> ordered (remove_from_heap t q)"
    proof (cases "k > 0 \<and> entry_less ?b k (par k)")
      case True
      have "low_at n ((keys q)(k := keys q n)) k"
        using True kn(1) kb unfolding chrono_less_than_def by (intro replace_low [OF ord]) auto
      moreover have "low_at n (keys ?b) k = low_at n ((keys q)(k := keys q n)) k"
        using keys kn by (intro low_at_cong)
      ultimately show ?thesis using up_heap_works [of k ?b] True kn(1) by (simp add: eq len1)
    next
      case False
      have "high_at n ((keys q)(k := keys q n)) k"
        using False kn(1) kb unfolding chrono_less_than_def by (intro replace_high [OF ord]) auto
      moreover have "high_at n (keys ?b) k = high_at n ((keys q)(k := keys q n)) k"
        using keys kn by (intro high_at_cong)
      ultimately show ?thesis unfolding eq if_not_P [OF False] using down_heap_works [of ?b k] by (simp add: len1)
    qed
    then show ?thesis using removed_by_shuffle [OF sh ix ne1 last] by blast
  qed
qed

end
