(* ===== verification/Timer_Calls.thy ===== *)
theory Timer_Calls
  imports Timer_Laws
begin

text \<open>
  The calls on a timer queue as calls on a map from timers to deadlines and waiting operations: the
  invariant of the queue, that every call keeps it, and what each call delivers.
\<close>

section \<open>The list of active timers\<close>

fun dchain :: "(nat \<Rightarrow> per_timer_data) \<Rightarrow> nat option \<Rightarrow> nat option \<Rightarrow> nat list \<Rightarrow> bool" where
  "dchain D p c [] \<longleftrightarrow> c = None"
| "dchain D p c (a # as) \<longleftrightarrow> c = Some a \<and> pt_prev (D a) = p \<and> dchain D (Some a) (pt_next (D a)) as"

lemma dchain_cong:
  "(\<And>a. a \<in> set as \<Longrightarrow> pt_next (D a) = pt_next (D' a) \<and> pt_prev (D a) = pt_prev (D' a))
   \<Longrightarrow> dchain D p c as = dchain D' p c as"
  by (induction as arbitrary: p c) auto

lemma dchain_at:
  assumes "dchain D p c (xs @ t # ys)"
  shows "pt_prev (D t) = (if xs = [] then p else Some (last xs))"
    and "pt_next (D t) = (if ys = [] then None else Some (hd ys))"
    and "c = Some (hd (xs @ [t]))"
  using assms
  by (induction xs arbitrary: p c) (auto split: if_splits; cases ys; auto)+

text \<open>The pointers after \<open>t\<close> was taken out of the list.\<close>

lemma dchain_unlink:
  assumes "dchain D p c (xs @ t # ys)" "distinct (xs @ t # ys)" "\<And>u. p = Some u \<Longrightarrow> u \<notin> set (xs @ t # ys)"
    and "\<And>u. u \<noteq> t \<Longrightarrow> pt_next (D' u) = (if pt_prev (D t) = Some u then pt_next (D t) else pt_next (D u))"
    and "\<And>u. u \<noteq> t \<Longrightarrow> pt_prev (D' u) = (if pt_next (D t) = Some u then pt_prev (D t) else pt_prev (D u))"
  shows "dchain D' p (if xs = [] then pt_next (D t) else c) (xs @ ys)"
  using assms(1-3)
proof (induction xs arbitrary: p c)
  case Nil
  then have t: "pt_prev (D t) = p" "dchain D (Some t) (pt_next (D t)) ys" by simp_all
  show ?case
  proof (cases ys)
    case (Cons b bs)
    have "pt_next (D' a) = pt_next (D a) \<and> pt_prev (D' a) = pt_prev (D a)" if a: "a \<in> set bs" for a
    proof -
      have "a \<noteq> t" "p \<noteq> Some a" "pt_next (D t) \<noteq> Some a" using a Nil.prems t Cons by auto
      then show ?thesis using assms(4,5) [of a] t(1) by simp
    qed
    then have "dchain D' (Some b) (pt_next (D b)) bs = dchain D (Some b) (pt_next (D b)) bs"
      by (rule dchain_cong)
    with Nil.prems t Cons show ?thesis by (auto simp: assms(4,5))
  qed (use t in simp)
next
  case (Cons a xs)
  have at: "pt_prev (D t) = Some (last (a # xs))" "pt_next (D t) = (if ys = [] then None else Some (hd ys))"
    using dchain_at [OF Cons.prems(1)] by simp_all
  have "dchain D' (Some a) (if xs = [] then pt_next (D t) else pt_next (D a)) (xs @ ys)"
    using Cons.prems by (intro Cons.IH) auto
  moreover have "pt_prev (D' a) = pt_prev (D a)"
    using Cons.prems(2) at(2) by (cases ys) (auto simp: assms(5))
  moreover have "pt_next (D' a) = (if xs = [] then pt_next (D t) else pt_next (D a))"
    using Cons.prems(2) at(1) last_in_set [of xs] by (auto simp: assms(4))
  ultimately show ?case using Cons.prems by auto
qed

section \<open>The invariant\<close>

text \<open>\<open>L\<close> are the active timers in the order of the list.\<close>

definition core_inv :: "timer_queue \<Rightarrow> nat list \<Rightarrow> bool" where
  "core_inv q L \<longleftrightarrow> distinct L \<and> dchain (tq_data q) None (tq_timers q) L
     \<and> (\<forall>t. t \<notin> set L \<longrightarrow> pt_next (tq_data q t) = None \<and> pt_prev (tq_data q t) = None)
     \<and> indexed (tq_data q) (tq_heap q) \<and> snd ` set (tq_heap q) \<subseteq> set L
     \<and> (\<forall>t \<in> set L. t \<notin> snd ` set (tq_heap q) \<longrightarrow> pt_index (tq_data q t) = size_max)
     \<and> ordered q \<and> length (tq_heap q) \<le> vector_max"

definition timer_inv :: "timer_queue \<Rightarrow> nat list \<Rightarrow> bool" where
  "timer_inv q L \<longleftrightarrow> core_inv q L \<and> (\<forall>t. pt_ops (tq_data q t) = [] \<longleftrightarrow> t \<notin> set L)"

definition active :: "timer_queue \<Rightarrow> nat \<Rightarrow> bool" where
  "active q t \<longleftrightarrow> pt_prev (tq_data q t) \<noteq> None \<or> tq_timers q = Some t"

lemma active_iff:
  assumes "core_inv q L"
  shows "active q t \<longleftrightarrow> t \<in> set L"
proof
  assume "t \<in> set L"
  then obtain xs ys where L: "L = xs @ t # ys" by (meson split_list)
  have "dchain (tq_data q) None (tq_timers q) (xs @ t # ys)" using assms L by (simp add: core_inv_def)
  from dchain_at [OF this] show "active q t" by (auto simp: active_def)
next
  assume a: "active q t"
  show "t \<in> set L"
  proof (rule ccontr)
    assume t: "t \<notin> set L"
    with assms a have "tq_timers q = Some t" by (simp add: active_def core_inv_def)
    with assms t show False by (cases L) (auto simp: core_inv_def)
  qed
qed

text \<open>
  The map a queue stands for: each active timer with its deadline, \<open>None\<close> for one that never expires,
  and its waiting operations.
\<close>

type_synonym timer_map = "nat \<Rightarrow> (int option \<times> nat list) option"

definition deadline :: "timer_queue \<Rightarrow> nat \<Rightarrow> int option" where
  "deadline q t = (let i = pt_index (tq_data q t)
     in if i < length (tq_heap q) then Some (fst (tq_heap q ! i)) else None)"

definition timer_view :: "timer_queue \<Rightarrow> timer_map" where
  "timer_view q = (\<lambda>t. if active q t then Some (deadline q t, pt_ops (tq_data q t)) else None)"

lemma deadline_iff:
  assumes "core_inv q L" "t \<in> set L"
  shows "deadline q t = Some d \<longleftrightarrow> (d, t) \<in> set (tq_heap q)"
proof
  assume "deadline q t = Some d"
  then have i: "pt_index (tq_data q t) < length (tq_heap q)" "fst (tq_heap q ! pt_index (tq_data q t)) = d"
    by (auto simp: deadline_def Let_def split: if_splits)
  have "t \<in> snd ` set (tq_heap q)"
  proof (rule ccontr)
    assume "t \<notin> snd ` set (tq_heap q)"
    with assms have "pt_index (tq_data q t) = size_max" "length (tq_heap q) \<le> vector_max"
      by (auto simp: core_inv_def)
    with i show False by (simp add: size_max_def vector_max_def)
  qed
  then obtain k where "k < length (tq_heap q)" "snd (tq_heap q ! k) = t" by (auto simp: in_set_conv_nth)
  moreover from this have "pt_index (tq_data q t) = k" using assms(1) by (auto simp: core_inv_def indexed_def)
  ultimately show "(d, t) \<in> set (tq_heap q)" using i by (metis nth_mem prod.collapse)
next
  assume "(d, t) \<in> set (tq_heap q)"
  then obtain k where k: "k < length (tq_heap q)" "tq_heap q ! k = (d, t)" by (auto simp: in_set_conv_nth)
  then have "pt_index (tq_data q t) = k" using assms(1) by (auto simp: core_inv_def indexed_def)
  with k show "deadline q t = Some d" by (simp add: deadline_def)
qed

lemma view_at:
  "core_inv q L \<Longrightarrow> timer_view q t = (if t \<in> set L then Some (deadline q t, pt_ops (tq_data q t)) else None)"
  by (simp add: timer_view_def active_iff)

lemma view_eqI:
  assumes "core_inv q L" "\<And>t. t \<notin> set L \<Longrightarrow> m t = None"
    and "\<And>t. t \<in> set L \<Longrightarrow> \<exists>d. m t = Some (d, pt_ops (tq_data q t)) \<and> (\<forall>x. d = Some x \<longleftrightarrow> (x, t) \<in> set (tq_heap q))"
  shows "timer_view q = m"
proof
  fix t
  show "timer_view q t = m t"
  proof (cases "t \<in> set L")
    case True
    then obtain d where d: "m t = Some (d, pt_ops (tq_data q t))" "\<forall>x. d = Some x \<longleftrightarrow> (x, t) \<in> set (tq_heap q)"
      using assms(3) by blast
    have "d = deadline q t"
      using d(2) deadline_iff [OF assms(1) True] by (metis option.exhaust)
    with d True show ?thesis by (simp add: view_at [OF assms(1)])
  qed (simp add: view_at [OF assms(1)] assms(2))
qed

section \<open>Removing a timer\<close>

lemma unlink_pointers:
  fixes q :: timer_queue and t :: nat
  defines "D \<equiv> tq_data q" and "D' \<equiv> tq_data (unlink_timer t q)"
  assumes "pt_prev (D t) \<noteq> Some t" "pt_next (D t) \<noteq> Some t"
    and "pt_prev (D t) \<noteq> pt_next (D t) \<or> pt_prev (D t) = None"
  shows "u \<noteq> t \<Longrightarrow> pt_next (D' u) = (if pt_prev (D t) = Some u then pt_next (D t) else pt_next (D u))"
    and "u \<noteq> t \<Longrightarrow> pt_prev (D' u) = (if pt_next (D t) = Some u then pt_prev (D t) else pt_prev (D u))"
    and "pt_next (D' t) = None" "pt_prev (D' t) = None"
    and "pt_ops (D' v) = pt_ops (D v)" "pt_index (D' v) = pt_index (D v)"
  using assms(3-5) unfolding D_def D'_def
  by (auto simp: unlink_timer_def Let_def split: option.splits)

lemma unlink_simps [simp]:
  "tq_heap (unlink_timer t q) = tq_heap q" "tq_ec (unlink_timer t q) = tq_ec q"
  "tq_timers (unlink_timer t q) = (if tq_timers q = Some t then pt_next (tq_data q t) else tq_timers q)"
  by (simp_all add: unlink_timer_def Let_def)

lemma remove_from_heap_cases:
  assumes "core_inv q L" "t \<in> set L"
  shows "entry_removed t q (remove_from_heap t q)"
proof (cases "t \<in> snd ` set (tq_heap q)")
  case True
  with assms(1) show ?thesis by (intro remove_from_heap_works) (auto simp: core_inv_def)
next
  case False
  with assms have "pt_index (tq_data q t) = size_max" "length (tq_heap q) \<le> vector_max"
    by (auto simp: core_inv_def)
  then have "remove_from_heap t q = q"
    by (simp add: remove_from_heap_def Let_def size_max_def vector_max_def)
  with assms(1) False show ?thesis by (auto simp: entry_removed_def core_inv_def)
qed

lemma remove_timer_core:
  assumes inv: "core_inv q L" and t: "t \<in> set L"
  shows "core_inv (remove_timer t q) (remove1 t L)"
    and "set (tq_heap (remove_timer t q)) = {e \<in> set (tq_heap q). snd e \<noteq> t}"
    and "\<And>u. pt_ops (tq_data (remove_timer t q) u) = pt_ops (tq_data q u)"
    and "tq_ec (remove_timer t q) = tq_ec q"
    and "length (tq_heap (remove_timer t q)) \<le> length (tq_heap q)"
proof -
  let ?q1 = "remove_from_heap t q" and ?q2 = "remove_timer t q"
  have er: "entry_removed t q ?q1" using remove_from_heap_cases [OF inv t] .
  have q2: "?q2 = unlink_timer t ?q1" by (simp add: remove_timer_def)
  have same: "pt_next (tq_data ?q1 u) = pt_next (tq_data q u)" "pt_prev (tq_data ?q1 u) = pt_prev (tq_data q u)"
    "pt_ops (tq_data ?q1 u) = pt_ops (tq_data q u)" for u
    using er unfolding entry_removed_def
    by (metis per_timer_data.ext_inject per_timer_data.surjective per_timer_data.update_convs(2))+
  obtain xs ys where L: "L = xs @ t # ys" using t by (meson split_list)
  have dis: "distinct (xs @ t # ys)" using inv L by (simp add: core_inv_def)
  have r: "remove1 t L = xs @ ys" using dis by (simp add: L remove1_append)
  have ch: "dchain (tq_data ?q1) None (tq_timers ?q1) (xs @ t # ys)"
    using inv er same L dchain_cong [of "xs @ t # ys" "tq_data ?q1" "tq_data q"]
    by (simp add: core_inv_def entry_removed_def)
  note at = dchain_at [OF ch]
  have apart: "last xs \<noteq> hd ys" if "xs \<noteq> []" "ys \<noteq> []"
    using dis last_in_set [OF that(1)] hd_in_set [OF that(2)] by auto
  have ne: "pt_prev (tq_data ?q1 t) \<noteq> Some t" "pt_next (tq_data ?q1 t) \<noteq> Some t"
    "pt_prev (tq_data ?q1 t) \<noteq> pt_next (tq_data ?q1 t) \<or> pt_prev (tq_data ?q1 t) = None"
    using at(1,2) dis last_in_set [of xs] list.set_sel(1) [of ys]
    by (auto dest: apart split: if_splits)
  note ptr = unlink_pointers [OF ne, folded q2]
  have "dchain (tq_data ?q2) None (if xs = [] then pt_next (tq_data ?q1 t) else tq_timers ?q1) (xs @ ys)"
    by (rule dchain_unlink [OF ch dis]) (simp_all add: ptr)
  moreover have "tq_timers ?q2 = (if xs = [] then pt_next (tq_data ?q1 t) else tq_timers ?q1)"
    using at(3) dis by (cases xs) (auto simp: q2)
  ultimately have chain: "dchain (tq_data ?q2) None (tq_timers ?q2) (remove1 t L)" by (simp add: r)
  have out: "pt_next (tq_data ?q2 u) = None \<and> pt_prev (tq_data ?q2 u) = None" if "u \<notin> set (remove1 t L)" for u
  proof (cases "u = t")
    case False
    with that have "u \<notin> set L" by simp
    moreover have "pt_prev (tq_data ?q1 t) \<noteq> Some u" "pt_next (tq_data ?q1 t) \<noteq> Some u"
      using at(1,2) that r last_in_set [of xs] list.set_sel(1) [of ys] by (auto split: if_splits)
    ultimately show ?thesis
      unfolding ptr(1) [OF False] ptr(2) [OF False] using inv by (simp add: same core_inv_def)
  qed (simp add: ptr)
  show heap: "set (tq_heap ?q2) = {e \<in> set (tq_heap q). snd e \<noteq> t}"
    and len: "length (tq_heap ?q2) \<le> length (tq_heap q)"
    and "tq_ec ?q2 = tq_ec q" and "pt_ops (tq_data ?q2 u) = pt_ops (tq_data q u)" for u
    using er by (simp_all add: q2 entry_removed_def ptr(5) [unfolded q2] same)
  have ix: "indexed (tq_data ?q2) (tq_heap ?q2)" "ordered ?q2"
    using er by (simp_all add: entry_removed_def indexed_def ptr(6)) (simp_all add: q2)
  have never: "pt_index (tq_data ?q2 u) = size_max"
    if "u \<in> set (remove1 t L)" "u \<notin> snd ` set (tq_heap ?q2)" for u
  proof -
    have u: "u \<in> set L" "u \<noteq> t" using that(1) dis by (auto simp: r L)
    then have "u \<notin> snd ` set (tq_heap q)" using that(2) heap by force
    then have "tq_data ?q1 u = tq_data q u" "pt_index (tq_data q u) = size_max"
      using er inv u(1) by (simp_all add: entry_removed_def core_inv_def)
    then show ?thesis by (simp add: ptr(6))
  qed
  have "snd ` set (tq_heap ?q2) \<subseteq> set (remove1 t L)"
    using inv dis by (auto simp: heap core_inv_def r L)
  then show "core_inv ?q2 (remove1 t L)"
    unfolding core_inv_def using chain out ix never len inv by (auto simp: core_inv_def)
qed

end
