(* ===== verification/Timer_Refinement.thy ===== *)
theory Timer_Refinement
  imports Timer_Calls
begin

text \<open>
  The timer queue refines a map from timers to deadlines and waiting operations: what every call
  makes of the map and what it delivers, and the properties of the queue and of the set of queues a
  reactor waits for.
\<close>

section \<open>Adding a timer\<close>

lemma link_simps [simp]:
  "tq_heap (link_timer t q) = tq_heap q" "tq_ec (link_timer t q) = tq_ec q"
  "tq_timers (link_timer t q) = Some t"
  "pt_ops (tq_data (link_timer t q) u) = pt_ops (tq_data q u)"
  "pt_index (tq_data (link_timer t q) u) = pt_index (tq_data q u)"
  by (auto simp: link_timer_def Let_def split: option.splits)

text \<open>What is left of the invariant between the insertion into the heap and that into the list.\<close>

lemma link_timer_core:
  assumes t: "t \<notin> set L" and ch: "distinct L" "dchain (tq_data q) None (tq_timers q) L"
    and out: "\<And>u. u \<notin> set L \<Longrightarrow> pt_next (tq_data q u) = None \<and> pt_prev (tq_data q u) = None"
    and heap: "indexed (tq_data q) (tq_heap q)" "snd ` set (tq_heap q) \<subseteq> set (t # L)" "ordered q"
      "length (tq_heap q) \<le> vector_max"
    and never: "\<And>u. u \<in> set (t # L) \<Longrightarrow> u \<notin> snd ` set (tq_heap q) \<Longrightarrow> pt_index (tq_data q u) = size_max"
  shows "core_inv (link_timer t q) (t # L)"
proof -
  have D: "pt_next (tq_data (link_timer t q) u) = (if u = t then tq_timers q else pt_next (tq_data q u))"
    "pt_prev (tq_data (link_timer t q) u) = (if tq_timers q = Some u then Some t
       else if u = t then None else pt_prev (tq_data q u))" for u
    using ch(2) t by (cases L; auto simp: link_timer_def Let_def)+
  have "dchain (tq_data (link_timer t q)) None (Some t) (t # L)"
  proof (cases L)
    case Nil
    with ch show ?thesis by (simp add: D)
  next
    case (Cons f fs)
    have "dchain (tq_data (link_timer t q)) (Some f) (pt_next (tq_data q f)) fs
        = dchain (tq_data q) (Some f) (pt_next (tq_data q f)) fs"
      using ch t Cons by (intro dchain_cong) (auto simp: D)
    with ch t Cons show ?thesis by (auto simp: D)
  qed
  moreover have "pt_next (tq_data (link_timer t q) u) = None \<and> pt_prev (tq_data (link_timer t q) u) = None"
    if "u \<notin> set (t # L)" for u
    using that out ch(2) by (cases L) (auto simp: D)
  ultimately show ?thesis
    using ch(1) t heap never by (simp add: core_inv_def indexed_def)
qed

lemma set_ops_links:
  "pt_next (set_ops t os D u) = pt_next (D u)" "pt_prev (set_ops t os D u) = pt_prev (D u)"
  "pt_index (set_ops t os D u) = pt_index (D u)"
  by simp_all

lemma core_inv_ops [simp]:
  "core_inv (q\<lparr>tq_data := set_ops t os (tq_data q)\<rparr>) L = core_inv q L"
  "core_inv (q\<lparr>tq_data := set_ops t os (tq_data q), tq_ec := ec\<rparr>) L = core_inv q L"
proof -
  have "dchain (set_ops t os (tq_data q)) None (tq_timers q) L = dchain (tq_data q) None (tq_timers q) L"
    by (rule dchain_cong) simp
  then show "core_inv (q\<lparr>tq_data := set_ops t os (tq_data q)\<rparr>) L = core_inv q L"
    "core_inv (q\<lparr>tq_data := set_ops t os (tq_data q), tq_ec := ec\<rparr>) L = core_inv q L"
    by (simp_all add: core_inv_def indexed_def set_ops_links del: fun_upd_apply)
qed

text \<open>The queue with a new entry at the end of its heap.\<close>

definition pushed :: "int \<Rightarrow> nat \<Rightarrow> timer_queue \<Rightarrow> timer_queue" where
  "pushed time t q = q\<lparr>tq_data := set_index t (length (tq_heap q)) (tq_data q),
     tq_heap := tq_heap q @ [(time, t)]\<rparr>"

lemma push_works:
  assumes "core_inv q L" "t \<notin> set L"
  shows "shuffled (pushed time t q) (up_heap (length (tq_heap q)) (pushed time t q))"
    and "ordered (up_heap (length (tq_heap q)) (pushed time t q))"
    and "indexed (tq_data (pushed time t q)) (tq_heap (pushed time t q))"
proof -
  let ?n = "length (tq_heap q)" and ?q = "pushed time t q"
  have ord: "heap_order ?n (keys q)" using assms(1) by (simp add: core_inv_def)
  have k: "keys ?q i = keys q i" if "i < ?n" for i using that by (simp add: pushed_def nth_append)
  have len: "length (tq_heap ?q) = Suc ?n" by (simp add: pushed_def)
  have "low_at (Suc ?n) (keys ?q) ?n"
    unfolding low_at_def
  proof (intro conjI allI impI; elim conjE)
    fix i assume "0 < i" "i < Suc ?n" "i \<noteq> ?n"
    then show "keys ?q (par i) \<le> keys ?q i"
      using ord k [of i] k [of "par i"] par_before [of i ?n] by (simp add: heap_order_def)
  next
    fix i assume "0 < i" "i < Suc ?n" "par i = ?n"
    then show "keys ?q (par ?n) \<le> keys ?q i" using par_less [of i] by simp
  qed
  then show "shuffled ?q (up_heap ?n ?q)" "ordered (up_heap ?n ?q)"
    using up_heap_works [of ?n ?q] len by simp_all
  have "t \<notin> snd ` set (tq_heap q)" using assms by (auto simp: core_inv_def)
  then have "snd (tq_heap q ! i) \<noteq> t" if "i < ?n" for i using that by force
  then show "indexed (tq_data ?q) (tq_heap ?q)"
    using assms(1) by (auto simp: pushed_def indexed_def core_inv_def nth_append less_Suc_eq)
qed

lemma push_link_core:
  fixes q :: timer_queue and t :: nat and time :: int
  assumes inv: "core_inv q L" and t: "t \<notin> set L" and len: "length (tq_heap q) < vector_max"
  defines "q' \<equiv> link_timer t (up_heap (length (tq_heap q)) (pushed time t q))"
  shows "core_inv q' (t # L)" "set (tq_heap q') = insert (time, t) (set (tq_heap q))"
    and "pt_ops (tq_data q' u) = pt_ops (tq_data q u)" "tq_ec q' = tq_ec q"
proof -
  let ?p = "pushed time t q" and ?u = "up_heap (length (tq_heap q)) (pushed time t q)"
  note push = push_works [OF inv t, of time]
  have sh: "tq_timers ?u = tq_timers q" "tq_ec ?u = tq_ec q" "length (tq_heap ?u) = Suc (length (tq_heap q))"
    "set (tq_heap ?u) = insert (time, t) (set (tq_heap q))" "indexed (tq_data ?u) (tq_heap ?u)"
    using push(1,3) by (simp_all add: shuffled_def pushed_def)
  have p: "set (tq_heap ?p) = insert (time, t) (set (tq_heap q))" by (simp add: pushed_def)
  have D: "tq_data ?u v = tq_data ?p v\<lparr>pt_index := pt_index (tq_data ?u v)\<rparr>" for v
    using push(1) unfolding shuffled_def by blast
  have same: "pt_next (tq_data ?u v) = pt_next (tq_data q v)" "pt_prev (tq_data ?u v) = pt_prev (tq_data q v)"
    "pt_ops (tq_data ?u v) = pt_ops (tq_data q v)" for v
    by (subst D, simp add: pushed_def)+
  have never: "pt_index (tq_data ?u v) = size_max" if "v \<in> set (t # L)" "v \<notin> snd ` set (tq_heap ?u)" for v
  proof -
    have v: "v \<in> set L" "v \<noteq> t" "v \<notin> snd ` set (tq_heap q)" "v \<notin> snd ` set (tq_heap ?p)"
      using that by (auto simp: sh p)
    then have "tq_data ?u v = tq_data ?p v" using push(1) unfolding shuffled_def by blast
    with v inv show ?thesis by (simp add: pushed_def core_inv_def)
  qed
  show "core_inv q' (t # L)"
    unfolding q'_def
  proof (rule link_timer_core [OF t])
    show "dchain (tq_data ?u) None (tq_timers ?u) L"
      using inv dchain_cong [of L "tq_data ?u" "tq_data q"] by (simp add: same sh core_inv_def)
    show "snd ` set (tq_heap ?u) \<subseteq> set (t # L)" using inv by (auto simp: sh core_inv_def)
  qed (use inv sh push(2) never len in \<open>auto simp: same core_inv_def\<close>)
  show "set (tq_heap q') = insert (time, t) (set (tq_heap q))" "tq_ec q' = tq_ec q"
    "pt_ops (tq_data q' u) = pt_ops (tq_data q u)"
    by (simp_all add: q'_def sh same)
qed

lemma never_link_core:
  assumes inv: "core_inv q L" and t: "t \<notin> set L"
  shows "core_inv (link_timer t (q\<lparr>tq_data := set_index t size_max (tq_data q)\<rparr>)) (t # L)"
proof (rule link_timer_core [OF t])
  let ?q = "q\<lparr>tq_data := set_index t size_max (tq_data q)\<rparr>"
  show "dchain (tq_data ?q) None (tq_timers ?q) L"
    using inv t dchain_cong [of L "tq_data ?q" "tq_data q"] by (simp add: core_inv_def)
  have "t \<notin> snd ` set (tq_heap q)" using assms by (auto simp: core_inv_def)
  then show "indexed (tq_data ?q) (tq_heap ?q)" using inv by (force simp: indexed_def core_inv_def)
qed (use inv in \<open>auto simp: core_inv_def\<close>)

section \<open>The calls on the map\<close>

datatype timer_call = Enqueue bool int nat nat | Cancel nat nat | Ready int | GetAll

definition timed :: "timer_map \<Rightarrow> nat set" where
  "timed m = {t. \<exists>d os. m t = Some (Some d, os)}"

text \<open>
  A timer that waits keeps its deadline whatever time it is enqueued with. A new one needs room in
  the heap unless it never expires.
\<close>

fun view_step :: "(int \<Rightarrow> bool) \<Rightarrow> timer_call \<Rightarrow> timer_map \<Rightarrow> timer_map" where
  "view_step is_inf (Enqueue room time t op) m =
     (case m t of
        Some (d, os) \<Rightarrow> m(t \<mapsto> (d, os @ [op]))
      | None \<Rightarrow>
          if is_inf time then m(t \<mapsto> (None, [op]))
          else if room \<and> card (timed m) < vector_max then m(t \<mapsto> (Some time, [op]))
          else m)"
| "view_step is_inf (Cancel t n) m =
     (case m t of
        Some (d, os) \<Rightarrow> m(t := (if drop n os = [] then None else Some (d, drop n os)))
      | None \<Rightarrow> m)"
| "view_step is_inf (Ready now) m =
     (\<lambda>t. case m t of Some (Some d, os) \<Rightarrow> if d \<le> now then None else m t | v \<Rightarrow> v)"
| "view_step is_inf GetAll m = (\<lambda>t. None)"

lemma timer_inv_core [simp]: "timer_inv q L \<Longrightarrow> core_inv q L"
  by (simp add: timer_inv_def)

lemma timed_card:
  assumes "core_inv q L"
  shows "timed (timer_view q) = snd ` set (tq_heap q)" "card (timed (timer_view q)) = length (tq_heap q)"
proof -
  have "t \<in> set L" if "(d, t) \<in> set (tq_heap q)" for d t
    using that assms by (force simp: core_inv_def)
  then show eq: "timed (timer_view q) = snd ` set (tq_heap q)"
    using deadline_iff [OF assms] by (force simp: timed_def view_at [OF assms])
  have "distinct (map snd (tq_heap q))"
    using assms indexed_inj [of "tq_data q" "tq_heap q"] by (auto simp: distinct_conv_nth core_inv_def)
  then show "card (timed (timer_view q)) = length (tq_heap q)"
    unfolding eq by (metis distinct_card length_map set_map)
qed

text \<open>How a call that puts an operation on a timer's queue changes the map.\<close>

lemma view_set_ops:
  assumes "core_inv q L" "t \<in> set L"
  shows "timer_view (q\<lparr>tq_data := set_ops t os (tq_data q)\<rparr>) = (timer_view q)(t \<mapsto> (deadline q t, os))"
    and "timer_view (q\<lparr>tq_data := set_ops t os (tq_data q), tq_ec := ec\<rparr>)
      = (timer_view q)(t \<mapsto> (deadline q t, os))"
  using assms active_iff [OF assms(1), of t]
  by (auto simp: timer_view_def active_def deadline_def Let_def fun_eq_iff)

lemma view_new_timer:
  assumes "core_inv q L" "t \<notin> set L" "core_inv q' (t # L)"
    and "\<And>x u. u \<in> set L \<Longrightarrow> (x, u) \<in> set (tq_heap q') \<longleftrightarrow> (x, u) \<in> set (tq_heap q)"
    and "\<And>u. u \<in> set L \<Longrightarrow> pt_ops (tq_data q' u) = pt_ops (tq_data q u)"
  shows "timer_view q' = (timer_view q)(t \<mapsto> (deadline q' t, pt_ops (tq_data q' t)))"
proof (rule view_eqI [OF assms(3)])
  show "\<exists>d. ((timer_view q)(t \<mapsto> (deadline q' t, pt_ops (tq_data q' t)))) u = Some (d, pt_ops (tq_data q' u))
      \<and> (\<forall>x. d = Some x \<longleftrightarrow> (x, u) \<in> set (tq_heap q'))" if "u \<in> set (t # L)" for u
    using that assms(2,4,5) deadline_iff [OF assms(1)] deadline_iff [OF assms(3)]
    by (auto simp: view_at [OF assms(1)])
qed (auto simp: view_at [OF assms(1)])

text \<open>The last part of \<open>enqueue_timer\<close>, and the call on a timer that waits, or does not.\<close>

definition add_op :: "nat \<Rightarrow> nat \<Rightarrow> timer_queue \<Rightarrow> timer_queue \<times> bool option" where
  "add_op t op q =
     (let os = pt_ops (tq_data q t) @ [op]
      in (q\<lparr>tq_data := set_ops t os (tq_data q)\<rparr>, Some (pt_index (tq_data q t) = 0 \<and> hd os = op)))"

lemma enqueue_active:
  "active q t \<Longrightarrow> enqueue_timer is_inf room time t op q = add_op t op q"
  by (cases "pt_prev (tq_data q t)") (auto simp: enqueue_timer_def add_op_def Let_def active_def)

lemma enqueue_new:
  "\<not> active q t \<Longrightarrow> enqueue_timer is_inf room time t op q =
     (if is_inf time then add_op t op (link_timer t (q\<lparr>tq_data := set_index t size_max (tq_data q)\<rparr>))
      else if room \<and> length (tq_heap q) < vector_max
      then add_op t op (link_timer t (up_heap (length (tq_heap q)) (pushed time t q)))
      else (q\<lparr>tq_data := set_index t (length (tq_heap q)) (tq_data q)\<rparr>, None))"
  by (simp add: enqueue_timer_def add_op_def Let_def active_def pushed_def)

lemma enqueue_works:
  assumes inv: "timer_inv q L"
    and r_def: "r = enqueue_timer is_inf room time t op q"
  shows "\<exists>L'. timer_inv (fst r) L' \<and> timer_view (fst r) = view_step is_inf (Enqueue room time t op) (timer_view q)"
proof -
  note core = timer_inv_core [OF inv]
  note act = active_iff [OF core, of t]
  have fin: "timer_inv (q1\<lparr>tq_data := set_ops t os (tq_data q1)\<rparr>) L'"
    if "core_inv q1 L'" "t \<in> set L'" "os \<noteq> []" "\<And>u. u \<noteq> t \<Longrightarrow> pt_ops (tq_data q1 u) = [] \<longleftrightarrow> u \<notin> set L'" for q1 L' os
    using that by (auto simp: timer_inv_def)
  show ?thesis
  proof (cases "t \<in> set L")
    case True
    then have "fst r = q\<lparr>tq_data := set_ops t (pt_ops (tq_data q t) @ [op]) (tq_data q)\<rparr>"
      using act by (simp add: r_def enqueue_active add_op_def Let_def)
    with True fin [OF core True, of "pt_ops (tq_data q t) @ [op]"] inv show ?thesis
      by (auto simp: view_set_ops [OF core True] view_at [OF core] timer_inv_def)
  next
    case new: False
    note enq = enqueue_new [of q t is_inf room time op] act new
    have none: "timer_view q t = None" by (simp add: view_at [OF core] new)
    have empty: "pt_ops (tq_data q t) = []" using inv new by (simp add: timer_inv_def)
    have added: ?thesis
      if c: "core_inv q1 (t # L)" and ops: "\<And>u. pt_ops (tq_data q1 u) = pt_ops (tq_data q u)"
        and h: "\<And>x u. u \<in> set L \<Longrightarrow> (x, u) \<in> set (tq_heap q1) \<longleftrightarrow> (x, u) \<in> set (tq_heap q)"
        and r: "fst r = q1\<lparr>tq_data := set_ops t [op] (tq_data q1)\<rparr>"
        and v: "view_step is_inf (Enqueue room time t op) (timer_view q) = (timer_view q)(t \<mapsto> (deadline q1 t, [op]))"
      for q1
    proof -
      have "timer_inv (fst r) (t # L)"
        unfolding r using inv by (intro fin c) (auto simp: ops timer_inv_def)
      moreover have "timer_view (fst r) = (timer_view q1)(t \<mapsto> (deadline q1 t, [op]))"
        unfolding r by (rule view_set_ops [OF c]) simp
      moreover have "timer_view q1 = (timer_view q)(t \<mapsto> (deadline q1 t, pt_ops (tq_data q1 t)))"
        by (rule view_new_timer [OF core new c h]) (simp_all add: ops)
      ultimately show ?thesis unfolding v by (metis fun_upd_upd)
    qed
    consider "is_inf time" | "\<not> is_inf time" "room" "length (tq_heap q) < vector_max"
      | "\<not> is_inf time" "\<not> (room \<and> length (tq_heap q) < vector_max)" by blast
    then show ?thesis
    proof cases
      case 1
      let ?q1 = "link_timer t (q\<lparr>tq_data := set_index t size_max (tq_data q)\<rparr>)"
      have c: "core_inv ?q1 (t # L)" by (rule never_link_core [OF core new])
      have "t \<notin> snd ` set (tq_heap q)" using core new by (auto simp: core_inv_def)
      then have "deadline ?q1 t = None"
        using deadline_iff [OF c, of t] by (cases "deadline ?q1 t") force+
      then show ?thesis
        using 1 enq none
        by (intro added [OF c]) (simp_all add: r_def add_op_def Let_def empty)
    next
      case 2
      let ?q1 = "link_timer t (up_heap (length (tq_heap q)) (pushed time t q))"
      note c = push_link_core [OF core new 2(3), of time]
      have "deadline ?q1 t = Some time" using deadline_iff [OF c(1), of t] c(2) by simp
      then show ?thesis
        using 2 enq none
        by (intro added [OF c(1)])
          (auto simp: r_def add_op_def Let_def empty c(2) [simplified] c(3) [simplified] timed_card(2) [OF core])
    next
      case 3
      have r: "fst r = q\<lparr>tq_data := set_index t (length (tq_heap q)) (tq_data q)\<rparr>" (is "_ = ?q1")
        using 3 enq by (auto simp: r_def)
      have "dchain (tq_data ?q1) None (tq_timers ?q1) L = dchain (tq_data q) None (tq_timers q) L"
        by (simp, rule dchain_cong) simp
      moreover have "snd (tq_heap q ! i) \<noteq> t" if "i < length (tq_heap q)" for i
        using that core new nth_mem by (fastforce simp: core_inv_def)
      ultimately have c: "core_inv ?q1 L"
        using core new by (auto simp: core_inv_def indexed_def)
      have "timer_view ?q1 = timer_view q"
        using deadline_iff [OF core] by (intro view_eqI [OF c]) (auto simp: view_at [OF core])
      moreover have "pt_ops (tq_data ?q1 u) = pt_ops (tq_data q u)" for u by simp
      then have "timer_inv ?q1 L" using inv c unfolding timer_inv_def by metis
      moreover have "view_step is_inf (Enqueue room time t op) (timer_view q) = timer_view q"
        using 3 none timed_card(2) [OF core] by auto
      ultimately show ?thesis unfolding r by metis
    qed
  qed
qed

text \<open>Removing a timer forgets it.\<close>

lemma remove_timer_view:
  assumes "core_inv q L" "t \<in> set L"
  shows "timer_view (remove_timer t q) = (timer_view q)(t := None)"
proof (rule view_eqI [OF remove_timer_core(1) [OF assms]])
  note rm = remove_timer_core [OF assms]
  have "distinct L" using assms(1) by (simp add: core_inv_def)
  then show "\<exists>d. ((timer_view q)(t := None)) u = Some (d, pt_ops (tq_data (remove_timer t q) u))
      \<and> (\<forall>x. d = Some x \<longleftrightarrow> (x, u) \<in> set (tq_heap (remove_timer t q)))" if "u \<in> set (remove1 t L)" for u
    using that deadline_iff [OF assms(1)] by (auto simp: view_at [OF assms(1)] rm(2,3))
  show "((timer_view q)(t := None)) u = None" if "u \<notin> set (remove1 t L)" for u
    using that \<open>distinct L\<close> by (auto simp: view_at [OF assms(1)])
qed

lemma remove_timer_inv:
  assumes "core_inv q L" "t \<in> set L" "\<And>u. pt_ops (tq_data q u) = [] \<longleftrightarrow> u \<notin> set L \<or> u = t"
  shows "timer_inv (remove_timer t q) (remove1 t L)"
proof -
  have "distinct L" using assms(1) by (simp add: core_inv_def)
  then show ?thesis
    using remove_timer_core(1,3) [OF assms(1,2)] assms(3) by (auto simp: timer_inv_def)
qed

section \<open>Cancelling\<close>

lemma cancel_loop_works:
  assumes "n \<le> m"
  shows "cancel_loop m n os ops ec =
    (n + min (m - n) (length os), drop (m - n) os, ops @ take (m - n) os,
     \<lambda>x. if x \<in> set (take (m - n) os) then basic_error operation_aborted else ec x)"
  using assms
proof (induction os arbitrary: n ops ec)
  case (Cons a os)
  show ?case
  proof (cases "n = m")
    case False
    then have "m - n = Suc (m - Suc n)" using Cons.prems by simp
    with Cons False show ?thesis by (auto simp: fun_eq_iff)
  qed simp
qed auto

lemma cancel_works:
  assumes inv: "timer_inv q L"
    and r: "cancel_timer t ops m q = (n, ops', q')"
  shows "\<exists>L'. timer_inv q' L'" "timer_view q' = view_step is_inf (Cancel t m) (timer_view q)"
    and "let os = pt_ops (tq_data q t) in n = min m (length os) \<and> ops' = ops @ take m os
      \<and> tq_ec q' = (\<lambda>x. if x \<in> set (take m os) then basic_error operation_aborted else tq_ec q x)"
proof -
  note core = timer_inv_core [OF inv]
  let ?os = "pt_ops (tq_data q t)"
  have "(\<exists>L'. timer_inv q' L') \<and> timer_view q' = view_step is_inf (Cancel t m) (timer_view q)
    \<and> n = min m (length ?os) \<and> ops' = ops @ take m ?os
    \<and> tq_ec q' = (\<lambda>x. if x \<in> set (take m ?os) then basic_error operation_aborted else tq_ec q x)"
  proof (cases "t \<in> set L")
    case False
    then have "\<not> active q t" "?os = []" "timer_view q t = None"
      using inv active_iff [OF core] by (auto simp: timer_inv_def view_at [OF core])
    then show ?thesis
      using r inv False by (auto simp: cancel_timer_def active_def)
  next
    case True
    then have act: "active q t" using active_iff [OF core] by simp
    define ec where "ec = (\<lambda>x. if x \<in> set (take m ?os) then basic_error operation_aborted else tq_ec q x)"
    define q1 where "q1 = q\<lparr>tq_data := set_ops t (drop m ?os) (tq_data q), tq_ec := ec\<rparr>"
    have res: "n = min m (length ?os)" "ops' = ops @ take m ?os"
      "q' = (if drop m ?os = [] then remove_timer t q1 else q1)"
      using r act by (auto simp: cancel_timer_def active_def cancel_loop_works Let_def q1_def ec_def split: if_splits)
    have core1: "core_inv q1 L" using core by (simp add: q1_def)
    have view1: "timer_view q1 = (timer_view q)(t \<mapsto> (deadline q t, drop m ?os))"
      unfolding q1_def by (rule view_set_ops [OF core True])
    have ops1: "pt_ops (tq_data q1 u) = [] \<longleftrightarrow> (if u = t then drop m ?os = [] else u \<notin> set L)" for u
      using inv by (simp add: q1_def timer_inv_def)
    have vt: "timer_view q t = Some (deadline q t, ?os)" using True by (simp add: view_at [OF core])
    show ?thesis
    proof (cases "drop m ?os = []")
      case True': True
      have q': "q' = remove_timer t q1" by (simp only: res(3) if_P [OF True'])
      have "timer_inv q' (remove1 t L)"
        unfolding q' by (rule remove_timer_inv [OF core1 True]) (use ops1 True True' in auto)
      note inv' = exI [of "timer_inv q'", OF this]
      have view: "timer_view q' = view_step is_inf (Cancel t m) (timer_view q)"
        unfolding q' remove_timer_view [OF core1 True] view1 using True' vt by simp
      have "tq_ec q' = ec"
        unfolding q' remove_timer_core(4) [OF core1 True] by (simp add: q1_def)
      then show ?thesis unfolding ec_def by (intro conjI inv' view res(1,2))
    next
      case False
      have q': "q' = q1" by (simp only: res(3) if_not_P [OF False])
      have "timer_inv q' L"
        unfolding q' timer_inv_def ops1 using core1 False True by auto
      note inv' = exI [of "timer_inv q'", OF this]
      have view: "timer_view q' = view_step is_inf (Cancel t m) (timer_view q)"
        unfolding q' view1 using False vt by simp
      have "tq_ec q' = ec" by (simp add: q' q1_def)
      then show ?thesis unfolding ec_def by (intro conjI inv' view res(1,2))
    qed
  qed
  note all = this
  show "\<exists>L'. timer_inv q' L'" using all by (rule conjunct1)
  show "timer_view q' = view_step is_inf (Cancel t m) (timer_view q)"
    using all [THEN conjunct2] by (rule conjunct1)
  show "let os = ?os in n = min m (length os) \<and> ops' = ops @ take m os
      \<and> tq_ec q' = (\<lambda>x. if x \<in> set (take m os) then basic_error operation_aborted else tq_ec q x)"
    unfolding Let_def using all [THEN conjunct2] by (rule conjunct2)
qed

section \<open>Expiring\<close>

abbreviation due :: "int \<Rightarrow> timer_map \<Rightarrow> nat set" where
  "due now m \<equiv> {t. \<exists>d os. m t = Some (Some d, os) \<and> d \<le> now}"

abbreviation time_of :: "timer_map \<Rightarrow> nat \<Rightarrow> int" where
  "time_of m t \<equiv> the (fst (the (m t)))"

abbreviation ops_of :: "timer_map \<Rightarrow> nat \<Rightarrow> nat list" where
  "ops_of m t \<equiv> snd (the (m t))"

text \<open>The timers \<open>ts\<close> are the expired ones, the earliest first.\<close>

definition expire_order :: "int \<Rightarrow> timer_map \<Rightarrow> nat list \<Rightarrow> bool" where
  "expire_order now m ts \<longleftrightarrow> distinct ts \<and> set ts = due now m \<and> sorted (map (time_of m) ts)"

lemma first_is_least:
  assumes "core_inv q L" "tq_heap q \<noteq> []" "tq_heap q ! 0 = (d, t)"
  shows "t \<in> set L" "timer_view q t = Some (Some d, pt_ops (tq_data q t))"
    and "timer_view q u = Some (Some x, os) \<Longrightarrow> d \<le> x"
proof -
  have m: "(d, t) \<in> set (tq_heap q)" using assms(2,3) by (metis length_greater_0_conv nth_mem)
  then show t: "t \<in> set L" using assms(1) by (force simp: core_inv_def)
  then show "timer_view q t = Some (Some d, pt_ops (tq_data q t))"
    using deadline_iff [OF assms(1) t] m by (simp add: view_at [OF assms(1)])
  show "d \<le> x" if "timer_view q u = Some (Some x, os)"
  proof -
    have "(x, u) \<in> set (tq_heap q)"
      using that deadline_iff [OF assms(1)] by (auto simp: view_at [OF assms(1)] split: if_splits)
    then obtain i where "i < length (tq_heap q)" "keys q i = x" by (metis fst_conv in_set_conv_nth)
    with heap_root [of "length (tq_heap q)" "keys q" i] assms(1,3) show ?thesis
      by (auto simp: core_inv_def)
  qed
qed

lemma ready_loop_works:
  assumes "timer_inv q L"
  shows "\<exists>ts q' L'. ready_loop now ops q = Some (ops @ concat (map (ops_of (timer_view q)) ts), q')
    \<and> timer_inv q' L' \<and> timer_view q' = view_step is_inf (Ready now) (timer_view q)
    \<and> expire_order now (timer_view q) ts \<and> tq_ec q' = tq_ec q"
  using assms
proof (induction "length L" arbitrary: q L ops)
  case (0 L q ops)
  then have "tq_heap q = []" "timer_view q = (\<lambda>t. None)"
    using view_at [OF timer_inv_core [OF 0(2)]] by (auto simp: timer_inv_def core_inv_def)
  with 0 show ?case
    by (intro exI [of _ "[]"] exI [of _ q] exI [of _ L]) (subst ready_loop.simps, auto simp: expire_order_def)
next
  case (Suc n L q ops)
  note core = timer_inv_core [OF Suc.prems]
  show ?case
  proof (cases "tq_heap q \<noteq> [] \<and> \<not> chrono_less_than now (fst (tq_heap q ! 0))")
    case False
    have late: "now < d" if "timer_view q t = Some (Some d, os)" for d t os
    proof -
      have "tq_heap q \<noteq> []"
        using that deadline_iff [OF core] by (auto simp: view_at [OF core] split: if_splits)
      with False first_is_least(3) [OF core this _ that] show ?thesis
        by (cases "tq_heap q ! 0") (simp add: chrono_less_than_def)
    qed
    then have due: "due now (timer_view q) = {}" by fastforce
    show ?thesis
    proof (intro exI conjI)
      show "ready_loop now ops q = Some (ops @ concat (map (ops_of (timer_view q)) []), q)"
        using False by (subst ready_loop.simps) auto
      show "timer_view q = view_step is_inf (Ready now) (timer_view q)"
        using late by (fastforce simp: fun_eq_iff split: option.splits)
    qed (use Suc.prems due in \<open>simp_all add: expire_order_def\<close>)
  next
    case True
    obtain d t where dt: "tq_heap q ! 0 = (d, t)" by (cases "tq_heap q ! 0")
    note first = first_is_least [OF core conjunct1 [OF True] dt]
    define q1 where "q1 = q\<lparr>tq_data := set_ops t [] (tq_data q)\<rparr>"
    define m where "m = timer_view q"
    have core1: "core_inv q1 L" using core by (simp add: q1_def)
    have inv2: "timer_inv (remove_timer t q1) (remove1 t L)"
      using Suc.prems first(1) by (intro remove_timer_inv [OF core1]) (auto simp: q1_def timer_inv_def)
    have view2: "timer_view (remove_timer t q1) = m(t := None)"
      unfolding remove_timer_view [OF core1 first(1)]
      by (simp add: q1_def view_set_ops(1) [OF core first(1)] m_def)
    have "length (remove1 t L) = n" using Suc.hyps(2) first(1) by (simp add: length_remove1)
    from Suc.hyps(1) [OF this [symmetric] inv2, of "ops @ ops_of m t"] obtain ts q' L' where
      ih: "ready_loop now (ops @ ops_of m t) (remove_timer t q1)
          = Some ((ops @ ops_of m t) @ concat (map (ops_of (m(t := None))) ts), q')"
        "timer_inv q' L'" "timer_view q' = view_step is_inf (Ready now) (m(t := None))"
        "expire_order now (m(t := None)) ts" "tq_ec q' = tq_ec (remove_timer t q1)"
      unfolding view2 by blast
    have mt: "m t = Some (Some d, ops_of m t)" "d \<le> now" "ops_of m t = pt_ops (tq_data q t)"
      using first(2) True dt by (simp_all add: m_def chrono_less_than_def)
    have "t \<notin> set ts" using ih(4) by (auto simp: expire_order_def)
    then have maps: "map (ops_of (m(t := None))) ts = map (ops_of m) ts"
      "map (time_of (m(t := None))) ts = map (time_of m) ts" by auto
    have due: "due now m = insert t (due now (m(t := None)))" using mt by (auto split: if_splits)
    have ts: "sorted (map (time_of m) ts)" "distinct ts" "set ts = due now (m(t := None))"
      using ih(4) unfolding expire_order_def maps(2) by blast+
    have "d \<le> time_of m u" if "u \<in> set ts" for u
      using that ts(3) first(3) [folded m_def] by (auto split: if_splits)
    moreover have "time_of m t = d" using first(2) by (simp add: m_def)
    ultimately have "sorted (map (time_of m) (t # ts))" using ts(1) by simp
    moreover have "set (t # ts) = due now m" by (simp only: list.set due ts(3))
    ultimately have "expire_order now m (t # ts)"
      using ts(2) \<open>t \<notin> set ts\<close> unfolding expire_order_def by simp
    note eo = this
    have vs: "view_step is_inf (Ready now) (m(t := None)) = view_step is_inf (Ready now) m"
      using mt by (auto simp: fun_eq_iff split: option.splits)
    have rl: "ready_loop now ops q = Some (ops @ concat (map (ops_of m) (t # ts)), q')"
      using True ih(1) [unfolded maps(1)] mt(3) by (subst ready_loop.simps) (simp add: Let_def dt q1_def)
    have "tq_ec q' = tq_ec q"
      using ih(5) remove_timer_core(4) [OF core1 first(1)] by (simp add: q1_def)
    then show ?thesis
      using rl ih(2) ih(3) [unfolded vs] eo unfolding m_def by (intro exI conjI)
  qed
qed

text \<open>Taking all timers: the list is emptied from its head, the heap at once.\<close>

lemma all_loop_works:
  assumes "dchain (tq_data q) p (tq_timers q) L" "distinct L"
  shows "\<exists>q'. all_loop ops q = Some (ops @ concat (map (\<lambda>t. pt_ops (tq_data q t)) L), q')
    \<and> tq_timers q' = None \<and> tq_ec q' = tq_ec q
    \<and> (\<forall>t. t \<notin> set L \<longrightarrow> tq_data q' t = tq_data q t)
    \<and> (\<forall>t \<in> set L. pt_ops (tq_data q' t) = [] \<and> pt_next (tq_data q' t) = None \<and> pt_prev (tq_data q' t) = None)"
  using assms
proof (induction L arbitrary: q p ops)
  case Nil
  then show ?case by (subst all_loop.simps) simp
next
  case (Cons t L)
  define D where "D = set_prev t None (set_next t None (set_ops t [] (tq_data q)))"
  define q1 where "q1 = q\<lparr>tq_timers := pt_next (tq_data q t), tq_data := D\<rparr>"
  have D1: "tq_data q1 = D" by (simp add: q1_def)
  have same: "D u = tq_data q u" if "u \<noteq> t" for u using that by (simp add: D_def)
  have "dchain D (Some t) (pt_next (tq_data q t)) L"
    using Cons.prems dchain_cong [of L D "tq_data q"] same by fastforce
  then have ch: "dchain (tq_data q1) (Some t) (tq_timers q1) L" by (simp add: q1_def)
  have "distinct L" using Cons.prems(2) by simp
  from Cons.IH [OF ch this, of "ops @ pt_ops (tq_data q t)"] obtain q' where
    ih: "all_loop (ops @ pt_ops (tq_data q t)) q1
        = Some ((ops @ pt_ops (tq_data q t)) @ concat (map (\<lambda>t. pt_ops (tq_data q1 t)) L), q')"
      "tq_timers q' = None" "tq_ec q' = tq_ec q1" "\<forall>t. t \<notin> set L \<longrightarrow> tq_data q' t = tq_data q1 t"
      "\<forall>t \<in> set L. pt_ops (tq_data q' t) = [] \<and> pt_next (tq_data q' t) = None \<and> pt_prev (tq_data q' t) = None"
    by blast
  have t: "t \<notin> set L" using Cons.prems(2) by simp
  then have ops: "map (\<lambda>t. pt_ops (tq_data q1 t)) L = map (\<lambda>t. pt_ops (tq_data q t)) L"
    by (intro map_cong refl) (metis D1 same t)
  have "all_loop ops q = all_loop (ops @ pt_ops (tq_data q t)) q1"
    using Cons.prems(1) by (subst all_loop.simps) (simp add: Let_def q1_def D_def)
  then have "all_loop ops q = Some (ops @ concat (map (\<lambda>t. pt_ops (tq_data q t)) (t # L)), q')"
    using ih(1) [unfolded ops] by simp
  moreover have "tq_data q' t = D t" using ih(4) t by (simp add: q1_def)
  then have "pt_ops (tq_data q' t) = []" "pt_next (tq_data q' t) = None" "pt_prev (tq_data q' t) = None"
    by (simp_all add: D_def)
  moreover have "tq_data q' u = tq_data q u" if "u \<notin> set (t # L)" for u
    using that ih(4) same [of u] by (simp add: q1_def)
  ultimately show ?case using ih(2,3,5) by (intro exI [of _ q']) (simp add: q1_def)
qed

lemma get_all_works:
  assumes inv: "timer_inv q L"
  shows "\<exists>q'. get_all_timers ops q = Some (ops @ concat (map (ops_of (timer_view q)) L), q')
    \<and> timer_inv q' [] \<and> timer_view q' = (\<lambda>t. None) \<and> tq_ec q' = tq_ec q"
proof -
  note core = timer_inv_core [OF inv]
  have L: "distinct L" "dchain (tq_data q) None (tq_timers q) L" using core by (simp_all add: core_inv_def)
  from all_loop_works [OF L(2,1), of ops] obtain q1 where
    q1: "all_loop ops q = Some (ops @ concat (map (\<lambda>t. pt_ops (tq_data q t)) L), q1)"
      "tq_timers q1 = None" "tq_ec q1 = tq_ec q" "\<forall>t. t \<notin> set L \<longrightarrow> tq_data q1 t = tq_data q t"
      "\<forall>t \<in> set L. pt_ops (tq_data q1 t) = [] \<and> pt_next (tq_data q1 t) = None \<and> pt_prev (tq_data q1 t) = None"
    by blast
  have "map (\<lambda>t. pt_ops (tq_data q t)) L = map (ops_of (timer_view q)) L"
    by (simp add: view_at [OF core])
  with q1(1) have res: "get_all_timers ops q
      = Some (ops @ concat (map (ops_of (timer_view q)) L), q1\<lparr>tq_heap := []\<rparr>)"
    by (simp add: get_all_timers_def)
  have "pt_ops (tq_data q1 t) = []" "pt_next (tq_data q1 t) = None" "pt_prev (tq_data q1 t) = None" for t
    using q1(4,5) inv by (cases "t \<in> set L"; simp add: timer_inv_def core_inv_def)+
  then have inv1: "timer_inv (q1\<lparr>tq_heap := []\<rparr>) []"
    by (simp add: timer_inv_def core_inv_def q1(2) indexed_def heap_order_def)
  then have "timer_view (q1\<lparr>tq_heap := []\<rparr>) = (\<lambda>t. None)"
    using view_at [OF timer_inv_core [OF inv1]] by (simp add: fun_eq_iff)
  with res inv1 q1(3) show ?thesis by auto
qed

section \<open>Any sequence of calls\<close>

text \<open>The calls, with the operations they deliver appended to a list.\<close>

fun run_call :: "(int \<Rightarrow> bool) \<Rightarrow> timer_call \<Rightarrow> nat list \<times> timer_queue \<Rightarrow> (nat list \<times> timer_queue) option" where
  "run_call is_inf (Enqueue room time t op) (ops, q) = Some (ops, fst (enqueue_timer is_inf room time t op q))"
| "run_call is_inf (Cancel t n) (ops, q) = Some (snd (cancel_timer t ops n q))"
| "run_call is_inf (Ready now) (ops, q) = get_ready_timers now ops q"
| "run_call is_inf GetAll (ops, q) = get_all_timers ops q"

fun run_calls :: "(int \<Rightarrow> bool) \<Rightarrow> timer_call list \<Rightarrow> nat list \<times> timer_queue \<Rightarrow> (nat list \<times> timer_queue) option" where
  "run_calls is_inf [] s = Some s"
| "run_calls is_inf (c # cs) s = Option.bind (run_call is_inf c s) (run_calls is_inf cs)"

text \<open>A new queue, in a memory of timers that were not used yet.\<close>

definition new_timer_queue :: "(nat \<Rightarrow> nat) \<Rightarrow> (nat \<Rightarrow> error_code) \<Rightarrow> timer_queue" where
  "new_timer_queue g ec = \<lparr>tq_timers = None, tq_heap = [], tq_data = (\<lambda>t. fresh_timer (g t)), tq_ec = ec\<rparr>"

lemma new_timer_queue_inv: "timer_inv (new_timer_queue g ec) []"
  by (simp add: new_timer_queue_def timer_inv_def core_inv_def fresh_timer_def indexed_def heap_order_def)

lemma new_timer_queue_view: "timer_view (new_timer_queue g ec) = (\<lambda>t. None)"
  using view_at [OF timer_inv_core [OF new_timer_queue_inv]] by (simp add: fun_eq_iff)

lemma ready_works:
  assumes "timer_inv q L"
  shows "\<exists>ts q' L'. get_ready_timers now ops q = Some (ops @ concat (map (ops_of (timer_view q)) ts), q')
    \<and> timer_inv q' L' \<and> timer_view q' = view_step is_inf (Ready now) (timer_view q)
    \<and> expire_order now (timer_view q) ts \<and> tq_ec q' = tq_ec q"
proof -
  have "get_ready_timers now ops q = ready_loop now ops q"
    by (cases "tq_heap q = []") (simp_all add: get_ready_timers_def ready_loop.simps [of now ops q])
  with ready_loop_works [OF assms] show ?thesis by simp
qed

lemma run_call_works:
  assumes "timer_inv q L"
  shows "\<exists>ops' q' L'. run_call is_inf c (ops, q) = Some (ops', q') \<and> timer_inv q' L'
    \<and> timer_view q' = view_step is_inf c (timer_view q)"
proof (cases c)
  case (Enqueue room time t op)
  then show ?thesis using enqueue_works [OF assms refl, of is_inf room time t op] by auto
next
  case (Cancel t n)
  obtain k ops' q' where r: "cancel_timer t ops n q = (k, ops', q')" by (metis surj_pair)
  show ?thesis
    unfolding Cancel run_call.simps r using cancel_works(1,2) [OF assms r] by fastforce
next
  case (Ready now)
  show ?thesis unfolding Ready run_call.simps using ready_works [OF assms] by blast
next
  case GetAll
  show ?thesis unfolding GetAll run_call.simps view_step.simps using get_all_works [OF assms] by blast
qed

lemma run_calls_works:
  assumes "timer_inv q L"
  shows "\<exists>ops' q' L'. run_calls is_inf cs (ops, q) = Some (ops', q') \<and> timer_inv q' L'
    \<and> timer_view q' = fold (view_step is_inf) cs (timer_view q)"
  using assms
proof (induction cs arbitrary: q L ops)
  case (Cons c cs)
  from run_call_works [OF Cons.prems, of is_inf c ops] obtain ops1 q1 L1 where
    c: "run_call is_inf c (ops, q) = Some (ops1, q1)" "timer_inv q1 L1"
      "timer_view q1 = view_step is_inf c (timer_view q)" by blast
  from Cons.IH [OF c(2), of ops1] show ?case unfolding run_calls.simps c(1) fold.simps c(3) by simp
qed auto

text \<open>
  C32. The timer queue under any sequence of calls, whatever the times and whether or not memory for
  the heap runs out: every call returns; the queue then stands for the map that the calls make, in
  which each waiting timer has its deadline and its operations; the two ends of the structure agree,
  as each active timer is once on the linked list, and the heap, which is ordered by time, holds
  exactly those that can expire, each at the index it knows.
\<close>

theorem timer_queue_refines_map:
  "\<exists>ops q L. run_calls is_inf calls ([], new_timer_queue g ec) = Some (ops, q)
    \<and> timer_view q = fold (view_step is_inf) calls (\<lambda>t. None) \<and> timer_inv q L"
  using run_calls_works [OF new_timer_queue_inv, of is_inf calls "[]" g ec]
  by (auto simp: new_timer_queue_view)

lemma reached_inv:
  assumes "run_calls is_inf calls ([], new_timer_queue g ec) = Some (ops0, q)"
  obtains L where "timer_inv q L"
  using run_calls_works [OF new_timer_queue_inv, of is_inf calls "[]" g ec] assms by auto

text \<open>
  Asked for the expired timers, the queue, whatever calls made it, delivers the operations of
  exactly those timers whose deadline is not after the present time, the earliest timer first and
  each timer's operations in the order in which they were added, and keeps the other timers as they
  are.
\<close>

lemma expired_in_order:
  assumes "run_calls is_inf calls ([], new_timer_queue g ec) = Some (ops0, q)"
  shows "\<exists>ts q'. get_ready_timers now ops q = Some (ops @ concat (map (ops_of (timer_view q)) ts), q')
    \<and> distinct ts \<and> set ts = due now (timer_view q) \<and> sorted (map (time_of (timer_view q)) ts)
    \<and> timer_view q' = (\<lambda>t. if t \<in> set ts then None else timer_view q t)"
proof -
  obtain L where "timer_inv q L" by (rule reached_inv [OF assms])
  from ready_works [OF this, of now ops is_inf] obtain ts q' where
    r: "get_ready_timers now ops q = Some (ops @ concat (map (ops_of (timer_view q)) ts), q')"
      "timer_view q' = view_step is_inf (Ready now) (timer_view q)"
      "distinct ts" "set ts = due now (timer_view q)" "sorted (map (time_of (timer_view q)) ts)"
    by (auto simp: expire_order_def)
  have "timer_view q' = (\<lambda>t. if t \<in> set ts then None else timer_view q t)"
    unfolding r(2,4) by (auto simp: fun_eq_iff split: option.splits)
  with r show ?thesis by blast
qed

text \<open>Three timers, one of them used twice; the second time it is enqueued with is ignored.\<close>

definition three_timers :: "timer_call list" where
  "three_timers = [Enqueue True 30 1 100, Enqueue True 10 2 101, Enqueue True 20 3 102, Enqueue True 99 2 103]"

definition three_queue :: timer_queue where
  "three_queue = snd (the (run_calls (\<lambda>x. False) three_timers ([], new_timer_queue (\<lambda>t. 7) (\<lambda>x. no_error))))"

lemma timed_simps [simp]:
  "timed (\<lambda>t. None) = {}" "timed (m(t \<mapsto> (Some d, os))) = insert t (timed m)"
  by (auto simp: timed_def)

lemma three_view:
  "run_calls (\<lambda>x. False) three_timers ([], new_timer_queue (\<lambda>t. 7) (\<lambda>x. no_error)) = Some ([], three_queue)"
  "timer_view three_queue = [1 \<mapsto> (Some 30, [100]), 2 \<mapsto> (Some 10, [101, 103]), 3 \<mapsto> (Some 20, [102])]"
proof -
  obtain ops q L where r: "run_calls (\<lambda>x. False) three_timers ([], new_timer_queue (\<lambda>t. 7) (\<lambda>x. no_error))
      = Some (ops, q)" "timer_view q = fold (view_step (\<lambda>x. False)) three_timers (\<lambda>t. None)"
    using run_calls_works [OF new_timer_queue_inv, of "\<lambda>x. False" three_timers "[]" "\<lambda>t. 7" "\<lambda>x. no_error"]
    by (auto simp: new_timer_queue_view)
  have q: "three_queue = q" by (simp add: three_queue_def r)
  have "ops = []" using r(1) by (auto simp: three_timers_def)
  with r(1) q show "run_calls (\<lambda>x. False) three_timers ([], new_timer_queue (\<lambda>t. 7) (\<lambda>x. no_error))
      = Some ([], three_queue)" by simp
  show "timer_view three_queue = [1 \<mapsto> (Some 30, [100]), 2 \<mapsto> (Some 10, [101, 103]), 3 \<mapsto> (Some 20, [102])]"
    unfolding q r(2) by (simp add: three_timers_def vector_max_def fun_upd_twist)
qed

lemma expired_in_order_witness:
  "\<exists>q'. get_ready_timers 20 [] three_queue = Some ([101, 103, 102], q')
    \<and> timer_view q' = [1 \<mapsto> (Some 30, [100])]"
proof -
  obtain ts q' where r: "get_ready_timers 20 [] three_queue
      = Some (concat (map (ops_of (timer_view three_queue)) ts), q')"
    "distinct ts" "set ts = due 20 (timer_view three_queue)"
    "sorted (map (time_of (timer_view three_queue)) ts)"
    "timer_view q' = (\<lambda>t. if t \<in> set ts then None else timer_view three_queue t)"
    using expired_in_order [OF three_view(1), of 20 "[]"] by auto
  have s: "set ts = {2, 3}" unfolding r(3) three_view(2) by (auto split: if_splits)
  then have "length ts = 2" using r(2) distinct_card [of ts] by simp
  then obtain a b where "ts = [a, b]" by (auto simp: numeral_2_eq_2 length_Suc_conv)
  with s r(4) have "ts = [2, 3]" by (auto simp: three_view(2) doubleton_eq_iff)
  with r(1,5) show ?thesis by (auto simp: three_view(2) fun_eq_iff)
qed

section \<open>Waking the reactor\<close>

text \<open>A new entry rises to the root exactly when it is strictly earlier than the others.\<close>

lemma new_at_root:
  assumes core: "core_inv q L" and new: "t \<notin> set L" and room: "length (tq_heap q) < vector_max"
  shows "pt_index (tq_data (up_heap (length (tq_heap q)) (pushed time t q)) t) = 0
    \<longleftrightarrow> (\<forall>u d os. timer_view q u = Some (Some d, os) \<longrightarrow> time < d)"
proof -
  let ?n = "length (tq_heap q)" and ?p = "pushed time t q"
  let ?u = "up_heap ?n ?p" and ?q1 = "link_timer t (up_heap (length (tq_heap q)) (pushed time t q))"
  note c = push_link_core [OF core new room, of time]
  have len: "length (tq_heap ?u) = Suc ?n"
    using push_works(1) [OF core new, of time] by (simp add: shuffled_def pushed_def)
  have ne: "tq_heap ?q1 \<noteq> []" using len by auto
  obtain d0 t0 where root: "tq_heap ?u ! 0 = (d0, t0)" by (cases "tq_heap ?u ! 0")
  have ix: "pt_index (tq_data ?u t0) = 0"
    using c(1) root len by (auto simp: core_inv_def indexed_def)
  have "(time, t) \<in> set (tq_heap ?u)" using c(2) by simp
  then obtain i where "i < length (tq_heap ?u)" "tq_heap ?u ! i = (time, t)" by (auto simp: in_set_conv_nth)
  then have "pt_index (tq_data ?u t) = 0 \<longleftrightarrow> t0 = t"
    using ix c(1) root by (fastforce simp: core_inv_def indexed_def)
  moreover have "t0 = t \<longleftrightarrow> (\<forall>u d os. timer_view q u = Some (Some d, os) \<longrightarrow> time < d)"
  proof
    assume t0: "t0 = t"
    show "\<forall>u d os. timer_view q u = Some (Some d, os) \<longrightarrow> time < d"
    proof (intro allI impI, rule ccontr)
      fix u d os assume u: "timer_view q u = Some (Some d, os)" and le: "\<not> time < d"
      then have m: "(d, u) \<in> set (tq_heap q)"
        using deadline_iff [OF core] by (auto simp: view_at [OF core] split: if_splits)
      obtain d1 t1 where r1: "tq_heap q ! 0 = (d1, t1)" by (cases "tq_heap q ! 0")
      have q: "tq_heap q \<noteq> []" using m by auto
      have "d1 \<le> d" by (rule first_is_least(3) [OF core q r1 u])
      with le r1 q have "tq_heap ?u ! 0 = tq_heap ?p ! 0"
        by (intro up_heap_first) (auto simp: pushed_def nth_append)
      then have "t1 = t" using root t0 r1 q by (simp add: pushed_def nth_append)
      with first_is_least(1) [OF core q r1] new show False by simp
    qed
  next
    assume all: "\<forall>u d os. timer_view q u = Some (Some d, os) \<longrightarrow> time < d"
    show "t0 = t"
    proof (rule ccontr)
      assume t0: "t0 \<noteq> t"
      have m0: "(d0, t0) \<in> set (tq_heap ?u)" using root len by (metis nth_mem zero_less_Suc)
      with c(2) t0 have "(d0, t0) \<in> set (tq_heap q)" by simp
      moreover from this have "t0 \<in> set L" using core by (force simp: core_inv_def)
      ultimately have "timer_view q t0 = Some (Some d0, pt_ops (tq_data q t0))"
        using deadline_iff [OF core] by (simp add: view_at [OF core])
      with all have "time < d0" by blast
      moreover have "timer_view ?q1 t = Some (Some time, pt_ops (tq_data ?q1 t))"
        using deadline_iff [OF c(1), of t] c(2) by (simp add: view_at [OF c(1)])
      then have "d0 \<le> time" using first_is_least(3) [OF c(1) ne] root by simp
      ultimately show False by simp
    qed
  qed
  ultimately show ?thesis by simp
qed

text \<open>
  A caller that adds an operation to a timer is told to wake the reactor exactly when the timer is
  new, can expire, and is strictly earlier than every other timer: only then is the time up to which
  the reactor waits too late.
\<close>

lemma wakes_for_new_earliest:
  assumes "run_calls is_inf calls ([], new_timer_queue g ec) = Some (ops0, q)"
    and "enqueue_timer is_inf room time t op q = (q', Some wake)"
    and "\<And>d os. timer_view q t = Some (d, os) \<Longrightarrow> op \<notin> set os"
  shows "wake \<longleftrightarrow> timer_view q t = None \<and> \<not> is_inf time
    \<and> (\<forall>u d os. timer_view q u = Some (Some d, os) \<longrightarrow> time < d)"
proof -
  obtain L where inv: "timer_inv q L" by (rule reached_inv [OF assms(1)])
  note core = timer_inv_core [OF inv]
  show ?thesis
  proof (cases "t \<in> set L")
    case True
    then have v: "timer_view q t = Some (deadline q t, pt_ops (tq_data q t))" by (simp add: view_at [OF core])
    have "pt_ops (tq_data q t) \<noteq> []" using inv True by (simp add: timer_inv_def)
    then have "hd (pt_ops (tq_data q t) @ [op]) \<noteq> op"
      using assms(3) [OF v] hd_in_set by fastforce
    moreover have "active q t" using True active_iff [OF core] by simp
    ultimately show ?thesis using assms(2) v by (auto simp: enqueue_active add_op_def Let_def)
  next
    case new: False
    have none: "timer_view q t = None" by (simp add: view_at [OF core] new)
    have empty: "pt_ops (tq_data q t) = []" using inv new by (simp add: timer_inv_def)
    note enq = enqueue_new [of q t is_inf room time op] active_iff [OF core, of t] new
    show ?thesis
    proof (cases "is_inf time")
      case True
      with enq assms(2) show ?thesis
        by (auto simp: add_op_def Let_def size_max_def)
    next
      case False
      let ?u = "up_heap (length (tq_heap q)) (pushed time t q)"
      have room: "length (tq_heap q) < vector_max" using False enq assms(2) by (auto split: if_splits)
      note c = push_link_core [OF core new room, of time]
      have wake: "wake \<longleftrightarrow> pt_index (tq_data ?u t) = 0"
        using False enq assms(2) c(3) [of t, simplified] empty by (auto simp: add_op_def Let_def split: if_splits)
      then show ?thesis using new_at_root [OF core new room, of time] none False by simp
    qed
  qed
qed

lemma wakes_for_new_earliest_witness:
  "snd (enqueue_timer (\<lambda>x. False) True 10 4 104 three_queue) = Some False
   \<and> snd (enqueue_timer (\<lambda>x. False) True 9 4 104 three_queue) = Some True"
proof -
  have w: "snd (enqueue_timer (\<lambda>x. False) True d 4 104 three_queue) = Some (d < 10)" if "d \<in> {9, 10}" for d
  proof -
    have "length (tq_heap three_queue) = 3"
    proof -
      obtain L where "timer_inv three_queue L" by (rule reached_inv [OF three_view(1)])
      from timed_card(2) [OF timer_inv_core [OF this]] show ?thesis unfolding three_view(2) by simp
    qed
    moreover have "\<not> active three_queue 4" using fun_cong [OF three_view(2), of 4] by (auto simp: timer_view_def)
    ultimately obtain q' wake where r: "enqueue_timer (\<lambda>x. False) True d 4 104 three_queue = (q', Some wake)"
      by (auto simp: enqueue_new vector_max_def add_op_def Let_def)
    have none: "timer_view three_queue 4 = None" by (simp add: three_view(2))
    have "wake \<longleftrightarrow> (\<forall>u x os. timer_view three_queue u = Some (Some x, os) \<longrightarrow> d < x)"
      by (subst wakes_for_new_earliest [OF three_view(1) r]) (simp_all add: none)
    also have "\<dots> \<longleftrightarrow> d < 10"
    proof
      assume all: "\<forall>u x os. timer_view three_queue u = Some (Some x, os) \<longrightarrow> d < x"
      have "timer_view three_queue 2 = Some (Some 10, [101, 103])" by (simp add: three_view(2))
      with all show "d < 10" by blast
    next
      assume d: "d < 10"
      have "10 \<le> x" if "timer_view three_queue u = Some (Some x, os)" for u x os
        using that unfolding three_view(2) by (auto split: if_splits)
      with d show "\<forall>u x os. timer_view three_queue u = Some (Some x, os) \<longrightarrow> d < x" by force
    qed
    finally show ?thesis using r by simp
  qed
  show ?thesis using w [of 10] w [of 9] by simp
qed

end
