(* ===== verification/Timer_Waits.thy ===== *)
theory Timer_Waits
  imports Timer_Refinement Op_Queue
begin

text \<open>
  How long a reactor may sleep: the wait of one timer queue, and the set of queues of a reactor,
  \<open>detail/impl/timer_queue_set.ipp\<close>, a list of queues linked through their \<open>next_\<close> pointers.
\<close>

section \<open>The wait of one queue\<close>

lemma sdiv_pos: "0 \<le> a \<Longrightarrow> 0 < b \<Longrightarrow> a sdiv b = a div (b :: int)"
  by (auto simp: signed_divide_int_def sgn_if)

lemma to_msec_value:
  "to_msec d m = Some (if d \<le> 0 then 0 else if d < 1000000 then 1 else min m (d div 1000000))"
proof (cases "0 < d")
  case True
  then have "to_msec d m = Some (let n = d div 1000000 in if n = 0 then 1 else if n > m then m else n)"
    unfolding to_msec_def to_wait_def nanosecond_totals by (simp add: sdiv_pos Let_def)
  moreover have "d div 1000000 = 0 \<longleftrightarrow> d < 1000000"
    using True by (simp add: zdiv_eq_0_iff)
  ultimately show ?thesis using True by (simp add: Let_def min_def)
qed (simp add: to_msec_def to_wait_def)

text \<open>The earliest deadline, as a hypothesis-free description of the front of the heap.\<close>

lemma front_deadline:
  assumes "core_inv q L"
  shows "tq_heap q = [] \<Longrightarrow> timer_view q t = Some (dl, os) \<Longrightarrow> dl = None"
    and "tq_heap q \<noteq> [] \<Longrightarrow> \<exists>u os. timer_view q u = Some (Some (keys q 0), os)"
    and "tq_heap q \<noteq> [] \<Longrightarrow> timer_view q t = Some (Some d, os) \<Longrightarrow> keys q 0 \<le> d"
proof -
  show "dl = None" if "tq_heap q = []" "timer_view q t = Some (dl, os)"
    using that deadline_iff [OF assms, of t] by (cases dl) (auto simp: view_at [OF assms] split: if_splits)
  show "\<exists>u os. timer_view q u = Some (Some (keys q 0), os)" if "tq_heap q \<noteq> []"
    using first_is_least(2) [OF assms that] by (metis prod.collapse)
  show "keys q 0 \<le> d" if "tq_heap q \<noteq> []" "timer_view q t = Some (Some d, os)"
    using first_is_least(3) [OF assms that(1) _ that(2)] by (metis prod.collapse)
qed

text \<open>
  C33. The wait a queue asks for, under a limit of the caller's that may be zero. It is zero when a timer
  has expired. When none has and one expires within a millisecond it is one, even if the limit is zero.
  Otherwise it stays within the limit, and is zero only if the limit is; it is then the limit, or so long
  that one millisecond more would reach a deadline (or all that a 64-bit duration can express). In no case
  does the reactor sleep past a deadline by more than the millisecond to which the wait is rounded up. No
  step of the computation overflows, however far apart the times are.
\<close>

theorem wait_until_earliest:
  assumes "run_calls is_inf calls ([], new_timer_queue g ec) = Some (ops0, q)"
    and "in_int64 now" and "0 \<le> m"
    and "\<And>t d os. timer_view q t = Some (Some d, os) \<Longrightarrow> in_int64 d"
  shows "\<exists>r. wait_duration_msec now m q = Some r \<and> 0 \<le> r
    \<and> (due now (timer_view q) \<noteq> {} \<longrightarrow> r = 0)
    \<and> (due now (timer_view q) = {} \<longrightarrow>
         (if \<exists>t d os. timer_view q t = Some (Some d, os) \<and> d < now + 1000000 then r = 1
          else r \<le> m \<and> (r = 0 \<longleftrightarrow> m = 0)
            \<and> (r = m \<or> (\<exists>t d os. timer_view q t = Some (Some d, os) \<and> d < now + (r + 1) * 1000000)
                 \<or> r = time_max div 1000000)))
    \<and> (\<forall>t d os. timer_view q t = Some (Some d, os) \<longrightarrow> r \<le> 1 \<or> now + r * 1000000 \<le> d)"
proof -
  obtain L where inv: "timer_inv q L" by (rule reached_inv [OF assms(1)])
  note core = timer_inv_core [OF inv]
  show ?thesis
  proof (cases "tq_heap q = []")
    case True
    then show ?thesis
      using assms(3) front_deadline(1) [OF core True] by (fastforce simp: wait_duration_msec_def)
  next
    case False
    let ?k = "keys q 0"
    define d where "d = saturate (?k - now)"
    obtain u os where u: "timer_view q u = Some (Some ?k, os)" using front_deadline(2) [OF core False] by blast
    have "chrono_subtract ?k now = Some d"
      unfolding d_def by (rule time_subtract_saturates [OF assms(4) [OF u] assms(2)])
    then have r: "wait_duration_msec now m q
        = Some (if d \<le> 0 then 0 else if d < 1000000 then 1 else min m (d div 1000000))" (is "_ = Some ?r")
      using False by (simp add: wait_duration_msec_def to_msec_value)
    have pos: "d \<le> 0 \<longleftrightarrow> ?k \<le> now" by (auto simp: d_def saturate_def time_min_def time_max_def)
    have le: "0 < d \<Longrightarrow> d \<le> ?k - now" by (auto simp: d_def saturate_def time_min_def)
    have soon: "d < 1000000 \<longleftrightarrow> ?k < now + 1000000" by (auto simp: d_def saturate_def time_min_def time_max_def)
    have "0 \<le> ?r" using assms(3) by (auto simp: min_def pos_imp_zdiv_nonneg_iff)
    moreover have due: "d \<le> 0 \<longleftrightarrow> due now (timer_view q) \<noteq> {}"
      unfolding pos using u front_deadline(3) [OF core False] by fastforce
    moreover have near: "(\<exists>t x os. timer_view q t = Some (Some x, os) \<and> x < now + 1000000) \<longleftrightarrow> d < 1000000"
      unfolding soon using u front_deadline(3) [OF core False] by fastforce
    moreover have "?r \<le> m \<and> (?r = 0 \<longleftrightarrow> m = 0)
        \<and> (?r = m \<or> (\<exists>t x os. timer_view q t = Some (Some x, os) \<and> x < now + (?r + 1) * 1000000) \<or> ?r = time_max div 1000000)"
      if "1000000 \<le> d"
    proof -
      have e: "?r = min m (d div 1000000)" using that by simp
      have p: "0 < d div 1000000" using that by (simp add: pos_imp_zdiv_pos_iff)
      have "d = time_max \<or> ?k - now = d" by (auto simp: d_def saturate_def) (use that in \<open>simp add: d_def saturate_def time_min_def\<close>)
      moreover have "?k < now + (d div 1000000 + 1) * 1000000" if "?k - now = d"
      proof -
        have "d < d div 1000000 * 1000000 + 1000000" using pos_mod_bound [of 1000000 d] div_mult_mod_eq [of d 1000000] by linarith
        with that show ?thesis by (simp add: distrib_right)
      qed
      moreover have "?r = m \<or> ?r = d div 1000000" unfolding e by (simp add: min_def)
      ultimately have "?r = m \<or> ?k < now + (?r + 1) * 1000000 \<or> ?r = time_max div 1000000"
        by (elim disjE) (simp_all only: simp_thms)
      with u have "?r = m \<or> (\<exists>t x os. timer_view q t = Some (Some x, os) \<and> x < now + (?r + 1) * 1000000) \<or> ?r = time_max div 1000000"
        by blast
      moreover have "?r \<le> m \<and> (?r = 0 \<longleftrightarrow> m = 0)" unfolding e using p assms(3) by (auto simp: min_def)
      ultimately show ?thesis by blast
    qed
    moreover have "?r \<le> 1 \<or> now + ?r * 1000000 \<le> x" if "timer_view q t = Some (Some x, os')" for t x os'
    proof (cases "d < 1000000")
      case False
      then have "?r * 1000000 \<le> d div 1000000 * 1000000" by (simp add: min_def)
      also have "\<dots> \<le> d" by simp
      also have "\<dots> \<le> ?k - now" using le False by simp
      also have "\<dots> \<le> x - now" using front_deadline(3) [OF core \<open>tq_heap q \<noteq> []\<close> that] by simp
      finally show ?thesis by simp
    qed simp
    ultimately show ?thesis
      unfolding r near by (intro exI [of _ ?r] conjI) (simp_all only: not_less [symmetric] if_True if_False split: if_split, auto)
  qed
qed

theorem wait_until_earliest_witness:
  "wait_duration_msec 9 0 three_queue = Some 1 \<and> wait_duration_msec 10 5 three_queue = Some 0
   \<and> (\<exists>r. wait_duration_msec (-50000000) 5 three_queue = Some r \<and> 1 \<le> r \<and> r \<le> 5)"
proof -
  have ok: "in_int64 d" if "timer_view three_queue t = Some (Some d, os)" for t d os
    using that unfolding three_view(2) by (auto simp: in_int64_def time_min_def time_max_def split: if_splits)
  have now: "in_int64 9" "in_int64 10" "in_int64 (-50000000)" by (simp_all add: in_int64_def time_min_def time_max_def)
  have due: "due 9 (timer_view three_queue) = {}" "due 10 (timer_view three_queue) \<noteq> {}" "due (-50000000) (timer_view three_queue) = {}"
    unfolding three_view(2) by (simp_all split: if_splits) (rule exI [of _ 2], simp)
  have near: "\<exists>t d os. timer_view three_queue t = Some (Some d, os) \<and> d < 9 + 1000000"
    unfolding three_view(2) by (auto intro: exI [of _ 1])
  have far: "\<not> (\<exists>t d os. timer_view three_queue t = Some (Some d, os) \<and> d < -50000000 + 1000000)"
    unfolding three_view(2) by (auto split: if_splits)
  have "wait_duration_msec 9 0 three_queue = Some 1"
    by (rule exE [OF wait_until_earliest [OF three_view(1) now(1), of 0]], simp, erule ok)
      (use due(1) near in \<open>simp only: if_True simp_thms\<close>)
  moreover have "wait_duration_msec 10 5 three_queue = Some 0"
    by (rule exE [OF wait_until_earliest [OF three_view(1) now(2), of 5]], simp, erule ok) (use due(2) in \<open>simp only: simp_thms\<close>)
  moreover have "\<exists>r. wait_duration_msec (-50000000) 5 three_queue = Some r \<and> 1 \<le> r \<and> r \<le> 5"
    by (rule exE [OF wait_until_earliest [OF three_view(1) now(3), of 5]], simp, erule ok)
      (use due(3) far in \<open>simp only: if_False simp_thms, auto\<close>)
  ultimately show ?thesis by blast
qed

section \<open>The set of queues of a reactor\<close>

text \<open>A queue is its address; \<open>next_\<close> is the pointer in its base class.\<close>

record timer_queue_set =
  first_queue :: "nat option"
  queue_next :: "nat \<Rightarrow> nat option"

definition new_queue_set :: "(nat \<Rightarrow> nat option) \<Rightarrow> timer_queue_set" where
  "new_queue_set nx = \<lparr>first_queue = None, queue_next = nx\<rparr>"

definition set_insert :: "nat \<Rightarrow> timer_queue_set \<Rightarrow> timer_queue_set" where
  "set_insert q s = \<lparr>first_queue = Some q, queue_next = (queue_next s)(q := first_queue s)\<rparr>"

partial_function (option) erase_loop :: "nat \<Rightarrow> nat \<Rightarrow> timer_queue_set \<Rightarrow> timer_queue_set option" where
  "erase_loop q p s =
     (case queue_next s p of
        None \<Rightarrow> Some s
      | Some n \<Rightarrow>
          if n = q
          then Some (s\<lparr>queue_next := (queue_next s)(p := queue_next s q, q := None)\<rparr>)
          else erase_loop q n s)"

definition set_erase :: "nat \<Rightarrow> timer_queue_set \<Rightarrow> timer_queue_set option" where
  "set_erase q s =
     (case first_queue s of
        None \<Rightarrow> Some s
      | Some f \<Rightarrow>
          if q = f
          then Some \<lparr>first_queue = queue_next s q, queue_next = (queue_next s)(q := None)\<rparr>
          else erase_loop q f s)"

partial_function (option) all_empty_loop ::
    "(nat \<Rightarrow> timer_queue) \<Rightarrow> (nat \<Rightarrow> nat option) \<Rightarrow> nat option \<Rightarrow> bool option" where
  "all_empty_loop Q nx p =
     (case p of
        None \<Rightarrow> Some True
      | Some a \<Rightarrow> if \<not> timers_empty (Q a) then Some False else all_empty_loop Q nx (nx a))"

definition all_empty :: "(nat \<Rightarrow> timer_queue) \<Rightarrow> timer_queue_set \<Rightarrow> bool option" where
  "all_empty Q s = all_empty_loop Q (queue_next s) (first_queue s)"

text \<open>The loop that asks each queue for its wait, limited by what the queues before it asked for.\<close>

partial_function (option) wait_loop ::
    "(int \<Rightarrow> timer_queue \<Rightarrow> int option) \<Rightarrow> (nat \<Rightarrow> timer_queue) \<Rightarrow> (nat \<Rightarrow> nat option)
     \<Rightarrow> nat option \<Rightarrow> int \<Rightarrow> int option" where
  "wait_loop wait Q nx p min_duration =
     (case p of
        None \<Rightarrow> Some min_duration
      | Some a \<Rightarrow> Option.bind (wait min_duration (Q a)) (wait_loop wait Q nx (nx a)))"

definition set_wait_duration_msec ::
    "(nat \<Rightarrow> timer_queue) \<Rightarrow> int \<Rightarrow> int \<Rightarrow> timer_queue_set \<Rightarrow> int option" where
  "set_wait_duration_msec Q now max_duration s =
     wait_loop (wait_duration_msec now) Q (queue_next s) (first_queue s) max_duration"

definition set_wait_duration_usec ::
    "(nat \<Rightarrow> timer_queue) \<Rightarrow> int \<Rightarrow> int \<Rightarrow> timer_queue_set \<Rightarrow> int option" where
  "set_wait_duration_usec Q now max_duration s =
     wait_loop (wait_duration_usec now) Q (queue_next s) (first_queue s) max_duration"

text \<open>The loops that collect operations from every queue.\<close>

partial_function (option) collect_loop ::
    "(nat list \<Rightarrow> timer_queue \<Rightarrow> (nat list \<times> timer_queue) option) \<Rightarrow> (nat \<Rightarrow> nat option) \<Rightarrow> nat option
     \<Rightarrow> nat list \<Rightarrow> (nat \<Rightarrow> timer_queue) \<Rightarrow> (nat list \<times> (nat \<Rightarrow> timer_queue)) option" where
  "collect_loop get nx p ops Q =
     (case p of
        None \<Rightarrow> Some (ops, Q)
      | Some a \<Rightarrow> Option.bind (get ops (Q a)) (\<lambda>(ops1, q). collect_loop get nx (nx a) ops1 (Q(a := q))))"

definition set_get_ready_timers ::
    "int \<Rightarrow> nat list \<Rightarrow> timer_queue_set \<Rightarrow> (nat \<Rightarrow> timer_queue) \<Rightarrow> (nat list \<times> (nat \<Rightarrow> timer_queue)) option" where
  "set_get_ready_timers now ops s Q = collect_loop (get_ready_timers now) (queue_next s) (first_queue s) ops Q"

definition set_get_all_timers ::
    "nat list \<Rightarrow> timer_queue_set \<Rightarrow> (nat \<Rightarrow> timer_queue) \<Rightarrow> (nat list \<times> (nat \<Rightarrow> timer_queue)) option" where
  "set_get_all_timers ops s Q = collect_loop get_all_timers (queue_next s) (first_queue s) ops Q"

text \<open>The set as the list of its queues.\<close>

definition set_is :: "timer_queue_set \<Rightarrow> nat list \<Rightarrow> bool" where
  "set_is s as \<longleftrightarrow> chain (queue_next s) (first_queue s) as \<and> distinct as"

lemma set_insert_is: "set_is s as \<Longrightarrow> q \<notin> set as \<Longrightarrow> set_is (set_insert q s) (q # as)"
  by (simp add: set_is_def set_insert_def chain_update)

lemma erase_loop_is:
  assumes "chain (queue_next s) (Some p) (p # as)" "distinct (p # as)" "q \<noteq> p"
  shows "\<exists>nx. erase_loop q p s = Some (s\<lparr>queue_next := nx\<rparr>) \<and> chain nx (Some p) (p # remove1 q as)
    \<and> (\<forall>u. u \<notin> set (p # as) \<longrightarrow> nx u = queue_next s u)"
  using assms
proof (induction as arbitrary: p)
  case Nil
  then show ?case by (subst erase_loop.simps) (auto intro!: exI [of _ "queue_next s"])
next
  case (Cons a as)
  show ?case
  proof (cases "a = q")
    case True
    have "chain ((queue_next s)(p := queue_next s q, q := None)) (queue_next s q) as"
      using Cons.prems True by (simp add: chain_update)
    with Cons.prems True show ?thesis by (subst erase_loop.simps) auto
  next
    case False
    from Cons.IH [of a] Cons.prems False obtain nx where
      nx: "erase_loop q a s = Some (s\<lparr>queue_next := nx\<rparr>)" "chain nx (Some a) (a # remove1 q as)"
        "\<forall>u. u \<notin> set (a # as) \<longrightarrow> nx u = queue_next s u" by auto
    moreover have "erase_loop q p s = erase_loop q a s"
      using Cons.prems False by (subst erase_loop.simps) simp
    moreover have "nx p = Some a" using nx(3) Cons.prems by simp
    ultimately show ?thesis using False by auto
  qed
qed

text \<open>Erasing a queue takes it out of the list, and one that is not there changes nothing.\<close>

lemma set_erase_is:
  assumes "set_is s as"
  shows "\<exists>s'. set_erase q s = Some s' \<and> set_is s' (remove1 q as)"
proof (cases as)
  case Nil
  with assms show ?thesis by (auto simp: set_is_def set_erase_def)
next
  case (Cons a bs)
  with assms have s: "first_queue s = Some a" "chain (queue_next s) (queue_next s a) bs" "distinct (a # bs)"
    by (auto simp: set_is_def)
  show ?thesis
  proof (cases "q = a")
    case True
    with s Cons show ?thesis by (auto simp: set_is_def set_erase_def chain_update)
  next
    case False
    with erase_loop_is [of s a bs q] s show ?thesis
      by (auto simp: set_is_def set_erase_def Cons)
  qed
qed

lemma collect_loop_is:
  assumes "chain nx p as" "distinct as"
    and "\<And>a ops. a \<in> set as \<Longrightarrow> \<exists>ops' q. get ops (Q a) = Some (ops', q) \<and> P (Q a) q"
  shows "\<exists>ops' Q'. collect_loop get nx p ops Q = Some (ops', Q')
    \<and> (\<forall>a. if a \<in> set as then P (Q a) (Q' a) else Q' a = Q a)"
  using assms
proof (induction as arbitrary: p ops Q)
  case Nil
  then show ?case by (subst collect_loop.simps) simp
next
  case (Cons a as)
  from Cons.prems(3) [of a ops] obtain ops1 q where g: "get ops (Q a) = Some (ops1, q)" "P (Q a) q" by auto
  have "\<exists>ops' Q'. collect_loop get nx (nx a) ops1 (Q(a := q)) = Some (ops', Q')
      \<and> (\<forall>b. if b \<in> set as then P ((Q(a := q)) b) (Q' b) else Q' b = (Q(a := q)) b)"
    using Cons.prems by (intro Cons.IH) auto
  then obtain ops' Q' where r: "collect_loop get nx (nx a) ops1 (Q(a := q)) = Some (ops', Q')"
    "\<And>b. if b \<in> set as then P ((Q(a := q)) b) (Q' b) else Q' b = (Q(a := q)) b" by blast
  have "collect_loop get nx p ops Q = Some (ops', Q')"
    using Cons.prems(1) g r(1) by (subst collect_loop.simps) simp
  moreover have "if b \<in> set (a # as) then P (Q b) (Q' b) else Q' b = Q b" for b
    using r(2) [of b] Cons.prems(2) g(2) by (auto split: if_splits)
  ultimately show ?case by blast
qed

text \<open>The queues of the set lose their expired timers and no others, and nothing else changes.\<close>

lemma set_ready_works:
  assumes "set_is s as" "\<And>a. a \<in> set as \<Longrightarrow> \<exists>L. timer_inv (Q a) L"
  shows "\<exists>ops' Q'. set_get_ready_timers now ops s Q = Some (ops', Q')
    \<and> (\<forall>a. if a \<in> set as
        then (\<exists>L. timer_inv (Q' a) L) \<and> timer_view (Q' a) = view_step is_inf (Ready now) (timer_view (Q a))
        else Q' a = Q a)"
  unfolding set_get_ready_timers_def
proof (rule collect_loop_is)
  show "\<exists>ops' q. get_ready_timers now ops (Q a) = Some (ops', q)
      \<and> (\<exists>L. timer_inv q L) \<and> timer_view q = view_step is_inf (Ready now) (timer_view (Q a))"
    if "a \<in> set as" for a ops
    using assms(2) [OF that] ready_works by blast
qed (use assms(1) in \<open>auto simp: set_is_def\<close>)

text \<open>
  The wait of the set is not the least wait of its queues: a queue whose next timer is less than a
  millisecond away answers one even when the limit it is given is zero, so a timer of an earlier queue
  that has already expired waits for another millisecond.
\<close>

definition one_timer :: "int \<Rightarrow> timer_queue" where
  "one_timer d = fst (enqueue_timer (\<lambda>x. False) True d 1 100 (new_timer_queue (\<lambda>t. 0) (\<lambda>x. no_error)))"

lemma one_timer_heap: "tq_heap (one_timer d) = [(d, 1)]"
  by (simp add: one_timer_def enqueue_timer_def new_timer_queue_def fresh_timer_def Let_def
      up_heap.simps vector_max_def)

lemma one_timer_wait:
  "in_int64 d \<Longrightarrow> in_int64 now \<Longrightarrow> wait_duration_msec now m (one_timer d) = to_msec (saturate (d - now)) m"
  by (simp add: wait_duration_msec_def one_timer_heap time_subtract_saturates)

lemma set_wait_not_minimum:
  "set_wait_duration_msec (\<lambda>a. one_timer (if a = 0 then 5 else 500010)) 10 1000
      (set_insert 0 (set_insert 1 (new_queue_set (\<lambda>x. None)))) = Some 1
   \<and> wait_duration_msec 10 1000 (one_timer 5) = Some 0"
proof -
  have "in_int64 10" "in_int64 5" "in_int64 500010"
    by (simp_all add: in_int64_def time_min_def time_max_def)
  then have "wait_duration_msec 10 m (one_timer 5) = Some 0"
    and "wait_duration_msec 10 m (one_timer 500010) = Some 1" for m
    by (simp_all add: one_timer_wait to_msec_value saturate_def time_min_def time_max_def)
  then show ?thesis
    by (simp add: set_wait_duration_msec_def wait_loop.simps set_insert_def new_queue_set_def)
qed

end
