(* ===== verification/Epoll_Reactor.thy ===== *)
theory Epoll_Reactor
  imports Object_Pool Socket_Ops Timer_Waits Task_Scheduler
begin

text \<open>
  The reactor of the bundled asio library: \<open>detail/impl/epoll_reactor.ipp\<close> with its headers and the
  interrupter it is woken by, \<open>detail/impl/eventfd_select_interrupter.ipp\<close>, in a build with eventfd,
  timerfd and epoll.

  The system calls are a parameter, the record \<open>'w epoll_kernel\<close>; the operations that wait for a
  descriptor are numbers, and \<open>perform\<close> stands for the function an operation carries: it takes the
  operation's error code and byte count and returns whether the operation is finished with their new
  values. The descriptor states are in the \<open>object_pool\<close>, their queues are lists, as \<open>Op_Queue\<close>
  justifies. What a function calls of the scheduler is returned as a list of \<open>sched_call\<close>s.
\<close>

section \<open>The system\<close>

type_synonym u32 = "32 word"

definition EPOLLIN :: u32 where "EPOLLIN = 0x001"
definition EPOLLPRI :: u32 where "EPOLLPRI = 0x002"
definition EPOLLOUT :: u32 where "EPOLLOUT = 0x004"
definition EPOLLERR :: u32 where "EPOLLERR = 0x008"
definition EPOLLHUP :: u32 where "EPOLLHUP = 0x010"
definition EPOLLET :: u32 where "EPOLLET = 0x80000000"

datatype ctl_op = EPOLL_CTL_ADD | EPOLL_CTL_DEL | EPOLL_CTL_MOD

text \<open>What the pointer in an event points to.\<close>

datatype event_data = Interrupter_Data | Timer_Data | State_Data nat | Null_Data

type_synonym epoll_event = "u32 \<times> event_data"

record 'w epoll_kernel =
  ek_eventfd :: "int \<Rightarrow> int \<Rightarrow> 'w os \<Rightarrow> int \<times> 'w os"
  ek_pipe :: "'w os \<Rightarrow> (int \<times> int \<times> int) \<times> 'w os"
  ek_fcntl :: "int \<Rightarrow> int \<Rightarrow> int \<Rightarrow> 'w os \<Rightarrow> 'w os"
  ek_close :: "int \<Rightarrow> 'w os \<Rightarrow> 'w os"
  ek_write_counter :: "int \<Rightarrow> 'w os \<Rightarrow> 'w os"
  ek_read :: "int \<Rightarrow> nat \<Rightarrow> 'w os \<Rightarrow> int \<times> 'w os"
  ek_epoll_create1 :: "int \<Rightarrow> 'w os \<Rightarrow> int \<times> 'w os"
  ek_epoll_create :: "int \<Rightarrow> 'w os \<Rightarrow> int \<times> 'w os"
  ek_epoll_ctl :: "int \<Rightarrow> ctl_op \<Rightarrow> int \<Rightarrow> epoll_event \<Rightarrow> 'w os \<Rightarrow> int \<times> 'w os"
  ek_epoll_wait :: "int \<Rightarrow> nat \<Rightarrow> int \<Rightarrow> 'w os \<Rightarrow> epoll_event list \<times> 'w os"
  ek_timerfd_create :: "int \<Rightarrow> int \<Rightarrow> 'w os \<Rightarrow> int \<times> 'w os"
  ek_timerfd_settime :: "int \<Rightarrow> int \<Rightarrow> int \<times> int \<Rightarrow> 'w os \<Rightarrow> 'w os"

definition EINVAL :: int where "EINVAL = 22"
definition ENOSYS :: int where "ENOSYS = 38"
definition EINTR :: int where "EINTR = 4"
definition F_SETFD :: int where "F_SETFD = 2"
definition F_SETFL :: int where "F_SETFL = 4"
definition FD_CLOEXEC :: int where "FD_CLOEXEC = 1"
definition O_NONBLOCK :: int where "O_NONBLOCK = 0x800"
definition CLOEXEC :: int where "CLOEXEC = 0x80000"
definition CLOCK_MONOTONIC :: int where "CLOCK_MONOTONIC = 1"
definition TFD_TIMER_ABSTIME :: int where "TFD_TIMER_ABSTIME = 1"

text \<open>The error a failed constructor throws.\<close>

definition system_error :: "'w os \<Rightarrow> error_code" where
  "system_error w = error_code_of (errno w) system_category"

section \<open>The interrupter\<close>

record interrupter =
  read_descriptor :: int
  write_descriptor :: int

definition set_flags :: "'w epoll_kernel \<Rightarrow> int \<Rightarrow> 'w os \<Rightarrow> 'w os" where
  "set_flags E fd w = ek_fcntl E fd F_SETFD FD_CLOEXEC (ek_fcntl E fd F_SETFL O_NONBLOCK w)"

definition open_descriptors :: "'w epoll_kernel \<Rightarrow> 'w os \<Rightarrow> (error_code + interrupter) \<times> 'w os" where
  "open_descriptors E w =
     (let (fd, w1) = ek_eventfd E 0 (CLOEXEC + O_NONBLOCK) w;
          (fd2, w2) = (if fd = -1 \<and> errno w1 = EINVAL then
                         let (fd1, v) = ek_eventfd E 0 0 w1
                         in (fd1, if fd1 \<noteq> -1 then set_flags E fd1 v else v)
                       else (fd, w1))
      in if fd2 = -1 then
           let ((result, a, b), w3) = ek_pipe E w2
           in if result = 0 then
                (Inr \<lparr>read_descriptor = a, write_descriptor = b\<rparr>, set_flags E b (set_flags E a w3))
              else (Inl (system_error w3), w3)
         else (Inr \<lparr>read_descriptor = fd2, write_descriptor = fd2\<rparr>, w2))"

definition close_descriptors :: "'w epoll_kernel \<Rightarrow> interrupter \<Rightarrow> 'w os \<Rightarrow> 'w os" where
  "close_descriptors E n w =
     (let w1 = (if write_descriptor n \<noteq> -1 \<and> write_descriptor n \<noteq> read_descriptor n
                then ek_close E (write_descriptor n) w else w)
      in if read_descriptor n \<noteq> -1 then ek_close E (read_descriptor n) w1 else w1)"

text \<open>\<open>recreate\<close>: when the descriptors cannot be opened again, the interrupter is left without any.\<close>

definition recreate :: "'w epoll_kernel \<Rightarrow> interrupter \<Rightarrow> 'w os \<Rightarrow> (error_code option \<times> interrupter) \<times> 'w os" where
  "recreate E n w =
     (case open_descriptors E (close_descriptors E n w) of
        (Inl ec, w1) \<Rightarrow> ((Some ec, \<lparr>read_descriptor = -1, write_descriptor = -1\<rparr>), w1)
      | (Inr m, w1) \<Rightarrow> ((None, m), w1))"

definition write_interrupt :: "'w epoll_kernel \<Rightarrow> interrupter \<Rightarrow> 'w os \<Rightarrow> 'w os" where
  "write_interrupt E n = ek_write_counter E (write_descriptor n)"

text \<open>\<open>reset\<close>, with the loop that empties a pipe.\<close>

partial_function (option) drain_pipe :: "'w epoll_kernel \<Rightarrow> int \<Rightarrow> int \<Rightarrow> 'w os \<Rightarrow> 'w os option" where
  "drain_pipe E fd bytes_read w =
     (if bytes_read = 1024 then case ek_read E fd 1024 w of (n, w1) \<Rightarrow> drain_pipe E fd n w1
      else Some w)"

partial_function (option) reset_interrupter :: "'w epoll_kernel \<Rightarrow> interrupter \<Rightarrow> 'w os \<Rightarrow> (bool \<times> 'w os) option" where
  "reset_interrupter E n w =
     (if write_descriptor n = read_descriptor n then
        case ek_read E (read_descriptor n) 8 (w\<lparr>errno := 0\<rparr>) of (bytes_read, w1) \<Rightarrow>
          if bytes_read < 0 \<and> errno w1 = EINTR then reset_interrupter E n w1
          else Some (bytes_read > 0, w1)
      else
        case ek_read E (read_descriptor n) 1024 w of (bytes_read, w1) \<Rightarrow>
          if bytes_read < 0 \<and> errno w1 = EINTR then reset_interrupter E n w1
          else map_option (Pair (bytes_read > 0)) (drain_pipe E (read_descriptor n) bytes_read w1))"

section \<open>The reactor\<close>

text \<open>The queues of a descriptor are indexed by \<open>op_types\<close>; \<open>connect_op\<close> is \<open>write_op\<close>.\<close>

definition read_ops :: nat where "read_ops = 0"
definition write_ops :: nat where "write_ops = 1"
definition except_ops :: nat where "except_ops = 2"
definition max_ops :: nat where "max_ops = 3"

record descriptor_state =
  descriptor :: int
  registered_events :: u32
  op_queues :: "nat list list"
  ds_shutdown :: bool
  ready_events :: u32

record epoll_reactor =
  interrupter_of :: interrupter
  epoll_fd :: int
  timer_fd :: int
  timer_set :: timer_queue_set
  timer_queues :: "nat \<Rightarrow> timer_queue"
  er_shutdown :: bool
  pool :: object_pool
  states :: "nat \<Rightarrow> descriptor_state"
  results :: "nat \<Rightarrow> error_code \<times> nat"

datatype sched_call =
    Work_Started
  | Post_Immediate nat bool
  | Post_Deferred "nat list"
  | Abandon "nat list"

type_synonym 'w perform = "nat \<Rightarrow> error_code \<times> nat \<Rightarrow> 'w os \<Rightarrow> (bool \<times> error_code \<times> nat) \<times> 'w os"

definition set_state :: "nat \<Rightarrow> (descriptor_state \<Rightarrow> descriptor_state) \<Rightarrow> epoll_reactor \<Rightarrow> epoll_reactor" where
  "set_state d f r = r\<lparr>states := (states r)(d := f (states r d))\<rparr>"

definition set_ec :: "error_code \<Rightarrow> nat \<Rightarrow> epoll_reactor \<Rightarrow> epoll_reactor" where
  "set_ec ec x r = r\<lparr>results := (results r)(x := (ec, snd (results r x)))\<rparr>"

text \<open>A descriptor state as its constructor leaves it; \<open>g\<close> stands for what is not initialised.\<close>

definition fresh_state :: "descriptor_state \<Rightarrow> descriptor_state" where
  "fresh_state g = g\<lparr>op_queues := [[], [], []], ready_events := 0\<rparr>"

section \<open>Start and end\<close>

definition do_epoll_create :: "'w epoll_kernel \<Rightarrow> 'w os \<Rightarrow> (error_code + int) \<times> 'w os" where
  "do_epoll_create E w =
     (let (fd, w1) = ek_epoll_create1 E CLOEXEC w;
          (fd2, w2) = (if fd = -1 \<and> (errno w1 = EINVAL \<or> errno w1 = ENOSYS) then
                         let (fd1, v) = ek_epoll_create E 20000 w1
                         in (fd1, if fd1 \<noteq> -1 then ek_fcntl E fd1 F_SETFD FD_CLOEXEC v else v)
                       else (fd, w1))
      in if fd2 = -1 then (Inl (system_error w2), w2) else (Inr fd2, w2))"

definition do_timerfd_create :: "'w epoll_kernel \<Rightarrow> 'w os \<Rightarrow> int \<times> 'w os" where
  "do_timerfd_create E w =
     (let (fd, w1) = ek_timerfd_create E CLOCK_MONOTONIC CLOEXEC w
      in if fd = -1 \<and> errno w1 = EINVAL then
           let (fd1, w2) = ek_timerfd_create E CLOCK_MONOTONIC 0 w1
           in (fd1, if fd1 \<noteq> -1 then ek_fcntl E fd1 F_SETFD FD_CLOEXEC w2 else w2)
         else (fd, w1))"

text \<open>The interrupter's and the timer's descriptors are added to the epoll set.\<close>

definition add_own_descriptors :: "'w epoll_kernel \<Rightarrow> int \<Rightarrow> int \<Rightarrow> interrupter \<Rightarrow> 'w os \<Rightarrow> 'w os" where
  "add_own_descriptors E epfd tfd n w =
     (let w1 = snd (ek_epoll_ctl E epfd EPOLL_CTL_ADD (read_descriptor n)
                 (EPOLLIN OR EPOLLERR OR EPOLLET, Interrupter_Data) w);
          w2 = write_interrupt E n w1
      in if tfd \<noteq> -1 then snd (ek_epoll_ctl E epfd EPOLL_CTL_ADD tfd (EPOLLIN OR EPOLLERR, Timer_Data) w2)
         else w2)"

text \<open>
  The constructor. When the epoll set cannot be created, the interrupter, which is complete, is destroyed
  again.
\<close>

definition new_reactor ::
    "'w epoll_kernel \<Rightarrow> epoll_reactor \<Rightarrow> 'w os \<Rightarrow> (error_code + epoll_reactor) \<times> 'w os" where
  "new_reactor E g w =
     (case open_descriptors E w of
        (Inl ec, w1) \<Rightarrow> (Inl ec, w1)
      | (Inr n, w1) \<Rightarrow>
          (case do_epoll_create E w1 of
             (Inl ec, w2) \<Rightarrow> (Inl ec, close_descriptors E n w2)
           | (Inr epfd, w2) \<Rightarrow>
               let (tfd, w3) = do_timerfd_create E w2
               in (Inr (g\<lparr>interrupter_of := n, epoll_fd := epfd, timer_fd := tfd,
                     timer_set := new_queue_set (queue_next (timer_set g)), er_shutdown := False,
                     pool := new_pool (obj_next (pool g)) (obj_prev (pool g))\<rparr>),
                   add_own_descriptors E epfd tfd n w3)))"

text \<open>The destructor; the members are destroyed after its body, the pool with its states and the interrupter.\<close>

definition destroy_reactor :: "'w epoll_kernel \<Rightarrow> epoll_reactor \<Rightarrow> 'w os \<Rightarrow> 'w os" where
  "destroy_reactor E r w =
     (let w1 = (if epoll_fd r \<noteq> -1 then ek_close E (epoll_fd r) w else w);
          w2 = (if timer_fd r \<noteq> -1 then ek_close E (timer_fd r) w1 else w1)
      in close_descriptors E (interrupter_of r) w2)"

text \<open>\<open>shutdown_service\<close>: the states are freed from the first on, and their operations abandoned.\<close>

partial_function (option) shutdown_loop ::
    "nat list \<Rightarrow> epoll_reactor \<Rightarrow> (nat list \<times> epoll_reactor) option" where
  "shutdown_loop ops r =
     (case pool_first (pool r) of
        Some d \<Rightarrow>
          shutdown_loop (ops @ concat (op_queues (states r d)))
            (set_state d (\<lambda>s. s\<lparr>op_queues := [[], [], []], ds_shutdown := True\<rparr>) r
              \<lparr>pool := pool_free d (pool r)\<rparr>)
      | None \<Rightarrow> Some (ops, r))"

definition shutdown_reactor :: "epoll_reactor \<Rightarrow> (sched_call list \<times> epoll_reactor) option" where
  "shutdown_reactor r =
     Option.bind (shutdown_loop [] (r\<lparr>er_shutdown := True\<rparr>)) (\<lambda>(ops, r1).
       map_option (\<lambda>(ops1, Q). ([Abandon ops1], r1\<lparr>timer_queues := Q\<rparr>))
         (set_get_all_timers ops (timer_set r1) (timer_queues r1)))"

section \<open>Waiting\<close>

text \<open>\<open>now\<close> is the time the clock shows; None is an overflow.\<close>

definition get_timeout :: "int \<Rightarrow> epoll_reactor \<Rightarrow> int option" where
  "get_timeout now r = set_wait_duration_msec (timer_queues r) now (5 * 60 * 1000) (timer_set r)"

text \<open>The time value as seconds and nanoseconds, with the flags.\<close>

definition get_timer_value :: "int \<Rightarrow> epoll_reactor \<Rightarrow> (int \<times> int \<times> int) option" where
  "get_timer_value now r =
     map_option (\<lambda>usec. (usec sdiv 1000000, if usec \<noteq> 0 then usec smod 1000000 * 1000 else 1,
         if usec \<noteq> 0 then 0 else TFD_TIMER_ABSTIME))
       (set_wait_duration_usec (timer_queues r) now (5 * 60 * 1000 * 1000) (timer_set r))"

definition set_timer :: "'w epoll_kernel \<Rightarrow> int \<Rightarrow> epoll_reactor \<Rightarrow> 'w os \<Rightarrow> 'w os option" where
  "set_timer E now r w =
     map_option (\<lambda>(sec, nsec, flags). ek_timerfd_settime E (timer_fd r) flags (sec, nsec) w)
       (get_timer_value now r)"

definition interrupt_reactor :: "'w epoll_kernel \<Rightarrow> epoll_reactor \<Rightarrow> 'w os \<Rightarrow> 'w os" where
  "interrupt_reactor E r w =
     snd (ek_epoll_ctl E (epoll_fd r) EPOLL_CTL_MOD (read_descriptor (interrupter_of r))
       (EPOLLIN OR EPOLLERR OR EPOLLET, Interrupter_Data) w)"

definition update_timeout :: "'w epoll_kernel \<Rightarrow> int \<Rightarrow> epoll_reactor \<Rightarrow> 'w os \<Rightarrow> 'w os option" where
  "update_timeout E now r w =
     (if timer_fd r \<noteq> -1 then set_timer E now r w else Some (interrupt_reactor E r w))"

section \<open>Descriptors\<close>

definition descriptor_events :: u32 where
  "descriptor_events = (EPOLLIN OR EPOLLERR OR EPOLLHUP OR EPOLLPRI OR EPOLLET)"

text \<open>\<open>created\<close> is the address of a new state, if one is needed, and \<open>g\<close> its content.\<close>

definition allocate_descriptor_state ::
    "nat \<times> descriptor_state \<Rightarrow> epoll_reactor \<Rightarrow> nat \<times> epoll_reactor" where
  "allocate_descriptor_state created r =
     (case pool_alloc (fst created) (pool r) of (d, p) \<Rightarrow>
        (d, if free_list (pool r) = None
            then r\<lparr>pool := p, states := (states r)(d := fresh_state (snd created))\<rparr>
            else r\<lparr>pool := p\<rparr>))"

definition free_descriptor_state :: "nat \<Rightarrow> epoll_reactor \<Rightarrow> epoll_reactor" where
  "free_descriptor_state d r = r\<lparr>pool := pool_free d (pool r)\<rparr>"

text \<open>
  The result is 0 or the error number, beside the descriptor data. The code locks the registered
  descriptors, then the new state, and calls \<open>epoll_ctl\<close> without a lock; no other thread has the new state
  before that call, and the three are one definition here.
\<close>

definition register_with ::
    "'w epoll_kernel \<Rightarrow> (descriptor_state \<Rightarrow> descriptor_state) \<Rightarrow> int \<Rightarrow> nat \<times> descriptor_state
     \<Rightarrow> epoll_reactor \<Rightarrow> 'w os \<Rightarrow> (int \<times> nat) \<times> epoll_reactor \<times> 'w os" where
  "register_with E init fd created r w =
     (let (d, r1) = allocate_descriptor_state created r;
          r2 = set_state d (\<lambda>s. (init (s\<lparr>descriptor := fd, ds_shutdown := False\<rparr>))
                 \<lparr>registered_events := descriptor_events\<rparr>) r1;
          (result, w1) = ek_epoll_ctl E (epoll_fd r2) EPOLL_CTL_ADD fd (descriptor_events, State_Data d) w
      in ((if result \<noteq> 0 then errno w1 else 0, d), r2, w1))"

definition register_descriptor ::
    "'w epoll_kernel \<Rightarrow> int \<Rightarrow> nat \<times> descriptor_state \<Rightarrow> epoll_reactor \<Rightarrow> 'w os
     \<Rightarrow> (int \<times> nat) \<times> epoll_reactor \<times> 'w os" where
  "register_descriptor E fd created r w = register_with E (\<lambda>s. s) fd created r w"

definition push_op :: "nat \<Rightarrow> nat \<Rightarrow> descriptor_state \<Rightarrow> descriptor_state" where
  "push_op j x s = s\<lparr>op_queues := (op_queues s)[j := op_queues s ! j @ [x]]\<rparr>"

definition register_internal_descriptor ::
    "'w epoll_kernel \<Rightarrow> nat \<Rightarrow> int \<Rightarrow> nat \<Rightarrow> nat \<times> descriptor_state \<Rightarrow> epoll_reactor \<Rightarrow> 'w os
     \<Rightarrow> (int \<times> nat) \<times> epoll_reactor \<times> 'w os" where
  "register_internal_descriptor E op_type fd x created r w = register_with E (push_op op_type x) fd created r w"

definition move_descriptor :: "nat option \<Rightarrow> nat option \<times> nat option" where
  "move_descriptor source = (source, None)"

section \<open>Operations\<close>

definition perform_op :: "'w perform \<Rightarrow> nat \<Rightarrow> epoll_reactor \<Rightarrow> 'w os \<Rightarrow> bool \<times> epoll_reactor \<times> 'w os" where
  "perform_op perform x r w =
     (case perform x (results r x) w of ((finished, res), w1) \<Rightarrow>
        (finished, r\<lparr>results := (results r)(x := res)\<rparr>, w1))"

text \<open>The end of \<open>start_op\<close>: the operation has to wait.\<close>

definition wait_op :: "nat \<Rightarrow> nat \<Rightarrow> nat \<Rightarrow> epoll_reactor \<Rightarrow> 'w os \<Rightarrow> sched_call list \<times> epoll_reactor \<times> 'w os" where
  "wait_op op_type d x r w = ([Work_Started], set_state d (push_op op_type x) r, w)"

definition reactor_start_op ::
    "'w epoll_kernel \<Rightarrow> 'w perform \<Rightarrow> nat \<Rightarrow> int \<Rightarrow> nat option \<Rightarrow> nat \<Rightarrow> bool \<Rightarrow> bool \<Rightarrow> epoll_reactor \<Rightarrow> 'w os
     \<Rightarrow> sched_call list \<times> epoll_reactor \<times> 'w os" where
  "reactor_start_op E perform op_type fd data x is_continuation allow_speculative r w =
     (case data of
        None \<Rightarrow> ([Post_Immediate x is_continuation], set_ec (basic_error bad_descriptor) x r, w)
      | Some d \<Rightarrow>
          let s = states r d
          in if ds_shutdown s then ([Post_Immediate x is_continuation], r, w)
             else if op_queues s ! op_type \<noteq> [] then wait_op op_type d x r w
             else if allow_speculative \<and> (op_type \<noteq> read_ops \<or> op_queues s ! except_ops = []) then
               case perform_op perform x r w of (finished, r1, w1) \<Rightarrow>
                 if finished then ([Post_Immediate x is_continuation], r1, w1)
                 else if op_type = write_ops \<and> registered_events s AND EPOLLOUT = 0 then
                   let ev = registered_events s OR EPOLLOUT;
                       (result, w2) = ek_epoll_ctl E (epoll_fd r1) EPOLL_CTL_MOD fd (ev, State_Data d) w1
                   in if result = 0 then
                        wait_op op_type d x (set_state d (\<lambda>s. s\<lparr>registered_events := registered_events s OR ev\<rparr>) r1) w2
                      else ([Post_Immediate x is_continuation], set_ec (system_error w2) x r1, w2)
                 else wait_op op_type d x r1 w1
             else
               let ev = (if op_type = write_ops then registered_events s OR EPOLLOUT else registered_events s);
                   w1 = snd (ek_epoll_ctl E (epoll_fd r) EPOLL_CTL_MOD fd (ev, State_Data d) w)
               in wait_op op_type d x (set_state d (\<lambda>s. s\<lparr>registered_events := ev\<rparr>) r) w1)"

text \<open>All operations of a descriptor are taken from their queues, and each gets the error.\<close>

definition abort_ops :: "nat \<Rightarrow> epoll_reactor \<Rightarrow> nat list \<times> epoll_reactor" where
  "abort_ops d r =
     (let ops = concat (op_queues (states r d))
      in (ops, fold (set_ec (basic_error operation_aborted)) ops
            (set_state d (\<lambda>s. s\<lparr>op_queues := [[], [], []]\<rparr>) r)))"

definition cancel_ops :: "nat option \<Rightarrow> epoll_reactor \<Rightarrow> sched_call list \<times> epoll_reactor" where
  "cancel_ops data r =
     (case data of
        None \<Rightarrow> ([], r)
      | Some d \<Rightarrow> case abort_ops d r of (ops, r1) \<Rightarrow> ([Post_Deferred ops], r1))"

definition deregister_descriptor ::
    "'w epoll_kernel \<Rightarrow> int \<Rightarrow> nat option \<Rightarrow> bool \<Rightarrow> epoll_reactor \<Rightarrow> 'w os
     \<Rightarrow> sched_call list \<times> nat option \<times> epoll_reactor \<times> 'w os" where
  "deregister_descriptor E fd data closing r w =
     (case data of
        None \<Rightarrow> ([], None, r, w)
      | Some d \<Rightarrow>
          if ds_shutdown (states r d) then ([], Some d, r, w)
          else
            let w1 = (if closing then w else snd (ek_epoll_ctl E (epoll_fd r) EPOLL_CTL_DEL fd (0, Null_Data) w));
                (ops, r1) = abort_ops d r;
                r2 = set_state d (\<lambda>s. s\<lparr>descriptor := -1, ds_shutdown := True\<rparr>) r1
            in ([Post_Deferred ops], None, free_descriptor_state d r2, w1))"

text \<open>The operations of an internal descriptor are destroyed: the list is what is destroyed.\<close>

definition deregister_internal_descriptor ::
    "'w epoll_kernel \<Rightarrow> int \<Rightarrow> nat option \<Rightarrow> epoll_reactor \<Rightarrow> 'w os
     \<Rightarrow> nat list \<times> nat option \<times> epoll_reactor \<times> 'w os" where
  "deregister_internal_descriptor E fd data r w =
     (case data of
        None \<Rightarrow> ([], None, r, w)
      | Some d \<Rightarrow>
          if ds_shutdown (states r d) then ([], Some d, r, w)
          else
            let w1 = snd (ek_epoll_ctl E (epoll_fd r) EPOLL_CTL_DEL fd (0, Null_Data) w);
                r1 = set_state d (\<lambda>s. s\<lparr>op_queues := [[], [], []], descriptor := -1, ds_shutdown := True\<rparr>) r
            in (concat (op_queues (states r d)), None, free_descriptor_state d r1, w1))"

section \<open>Events\<close>

text \<open>The head of \<open>run\<close>: the wait.\<close>

definition fetch_events ::
    "'w epoll_kernel \<Rightarrow> bool \<Rightarrow> int \<Rightarrow> epoll_reactor \<Rightarrow> 'w os \<Rightarrow> (epoll_event list \<times> 'w os) option" where
  "fetch_events E block now r w =
     map_option (\<lambda>timeout. ek_epoll_wait E (epoll_fd r) 128 timeout w)
       (if timer_fd r \<noteq> -1 then Some (if block then -1 else 0)
        else if block then get_timeout now r else Some 0)"

text \<open>The loop over the events: the descriptors that are ready, and whether to look at the timers.\<close>

fun dispatch_events :: "epoll_event list \<Rightarrow> bool \<Rightarrow> epoll_reactor \<Rightarrow> nat list \<times> bool \<times> epoll_reactor" where
  "dispatch_events [] check r = ([], check, r)"
| "dispatch_events ((events, data) # evs) check r =
     (case data of
        Interrupter_Data \<Rightarrow> dispatch_events evs (check \<or> timer_fd r = -1) r
      | Timer_Data \<Rightarrow> dispatch_events evs True r
      | State_Data d \<Rightarrow>
          (case dispatch_events evs check (set_state d (\<lambda>s. s\<lparr>ready_events := events\<rparr>) r) of
             (ds, c, r1) \<Rightarrow> (d # ds, c, r1))
      | Null_Data \<Rightarrow> dispatch_events evs check r)"

definition ready_timers ::
    "'w epoll_kernel \<Rightarrow> int \<Rightarrow> bool \<Rightarrow> epoll_reactor \<Rightarrow> 'w os \<Rightarrow> (nat list \<times> epoll_reactor \<times> 'w os) option" where
  "ready_timers E now check r w =
     (if \<not> check then Some ([], r, w)
      else Option.bind (set_get_ready_timers now [] (timer_set r) (timer_queues r)) (\<lambda>(ts, Q).
        let r1 = r\<lparr>timer_queues := Q\<rparr>
        in if timer_fd r1 \<noteq> -1 then map_option (\<lambda>w1. (ts, r1, w1)) (set_timer E now r1 w)
           else Some (ts, r1, w)))"

text \<open>
  The clock is read several times: \<open>now\<close> when the wait is computed, \<open>later\<close> when the timers are looked
  at.
\<close>

definition run_reactor ::
    "'w epoll_kernel \<Rightarrow> bool \<Rightarrow> int \<Rightarrow> int \<Rightarrow> oper list \<Rightarrow> epoll_reactor \<Rightarrow> 'w os
     \<Rightarrow> (oper list \<times> epoll_reactor \<times> 'w os) option" where
  "run_reactor E block now later ops r w =
     Option.bind (fetch_events E block now r w) (\<lambda>(evs, w1).
       case dispatch_events evs (timer_fd r = -1) r of (ds, check, r1) \<Rightarrow>
         map_option (\<lambda>(ts, r2, w2). (ops @ map Descriptor ds @ map Handler ts, r2, w2))
           (ready_timers E later check r1 w1))"

section \<open>Performing operations\<close>

definition ops_flag :: "nat \<Rightarrow> u32" where
  "ops_flag j = (if j = read_ops then EPOLLIN else if j = write_ops then EPOLLOUT else EPOLLPRI)"

definition event_for :: "u32 \<Rightarrow> nat \<Rightarrow> bool" where
  "event_for events j \<longleftrightarrow> events AND (ops_flag j OR EPOLLERR OR EPOLLHUP) \<noteq> 0"

text \<open>Operations are performed from the first on until one has to wait: the finished ones and the rest.\<close>

fun perform_queue ::
    "'w perform \<Rightarrow> nat list \<Rightarrow> (nat \<Rightarrow> error_code \<times> nat) \<Rightarrow> 'w os
     \<Rightarrow> nat list \<times> nat list \<times> (nat \<Rightarrow> error_code \<times> nat) \<times> 'w os" where
  "perform_queue perform [] res w = ([], [], res, w)"
| "perform_queue perform (x # xs) res w =
     (case perform x (res x) w of ((finished, v), w1) \<Rightarrow>
        if finished then
          (case perform_queue perform xs (res(x := v)) w1 of (finished_ops, rest, res1, w2) \<Rightarrow>
             (x # finished_ops, rest, res1, w2))
        else ([], x # xs, res(x := v), w1))"

text \<open>One turn of the loop over the queues.\<close>

definition perform_one ::
    "'w perform \<Rightarrow> u32 \<Rightarrow> nat \<Rightarrow> nat \<Rightarrow> nat list \<times> epoll_reactor \<times> 'w os \<Rightarrow> nat list \<times> epoll_reactor \<times> 'w os" where
  "perform_one perform events d j = (\<lambda>(ops, r, w).
     if event_for events j then
       (case perform_queue perform (op_queues (states r d) ! j) (results r) w of (finished_ops, rest, res, w1) \<Rightarrow>
          (ops @ finished_ops,
           set_state d (\<lambda>s. s\<lparr>op_queues := (op_queues s)[j := rest]\<rparr>) r\<lparr>results := res\<rparr>, w1))
     else (ops, r, w))"

text \<open>\<open>perform_io\<close> with the cleanup at its end: the operation to complete now, and the others.\<close>

definition perform_io ::
    "'w perform \<Rightarrow> u32 \<Rightarrow> nat \<Rightarrow> epoll_reactor \<Rightarrow> 'w os
     \<Rightarrow> nat option \<times> sched_call list \<times> epoll_reactor \<times> 'w os" where
  "perform_io perform events d r w =
     (case fold (perform_one perform events d) [except_ops, write_ops, read_ops] ([], r, w) of (ops, r1, w1) \<Rightarrow>
        case ops of
          [] \<Rightarrow> (None, [Work_Started], r1, w1)
        | x # xs \<Rightarrow> (Some x, if xs \<noteq> [] then [Post_Deferred xs] else [], r1, w1))"

section \<open>Timers\<close>

definition do_add_timer_queue :: "nat \<Rightarrow> epoll_reactor \<Rightarrow> epoll_reactor" where
  "do_add_timer_queue q r = r\<lparr>timer_set := set_insert q (timer_set r)\<rparr>"

definition do_remove_timer_queue :: "nat \<Rightarrow> epoll_reactor \<Rightarrow> epoll_reactor option" where
  "do_remove_timer_queue q r = map_option (\<lambda>s. r\<lparr>timer_set := s\<rparr>) (set_erase q (timer_set r))"

text \<open>
  The flag of the result says that there was no memory for the heap, so that the call throws; nothing
  is counted or called then.
\<close>

definition schedule_timer ::
    "'w epoll_kernel \<Rightarrow> (int \<Rightarrow> bool) \<Rightarrow> bool \<Rightarrow> int \<Rightarrow> nat \<Rightarrow> int \<Rightarrow> nat \<Rightarrow> nat \<Rightarrow> epoll_reactor \<Rightarrow> 'w os
     \<Rightarrow> (bool \<times> sched_call list \<times> epoll_reactor \<times> 'w os) option" where
  "schedule_timer E is_inf room now q time t x r w =
     (if er_shutdown r then Some (False, [Post_Immediate x False], r, w)
      else
        case enqueue_timer is_inf room time t x (timer_queues r q) of (tq, earliest) \<Rightarrow>
          let r1 = r\<lparr>timer_queues := (timer_queues r)(q := tq)\<rparr>
          in case earliest of
               None \<Rightarrow> Some (True, [], r1, w)
             | Some True \<Rightarrow> map_option (\<lambda>w1. (False, [Work_Started], r1, w1)) (update_timeout E now r1 w)
             | Some False \<Rightarrow> Some (False, [Work_Started], r1, w))"

definition reactor_cancel_timer ::
    "nat \<Rightarrow> nat \<Rightarrow> nat \<Rightarrow> epoll_reactor \<Rightarrow> nat \<times> sched_call list \<times> epoll_reactor" where
  "reactor_cancel_timer q t max_cancelled r =
     (case cancel_timer t [] max_cancelled (timer_queues r q) of (n, ops, tq) \<Rightarrow>
        (n, [Post_Deferred ops], r\<lparr>timer_queues := (timer_queues r)(q := tq)\<rparr>))"

section \<open>After a fork\<close>

partial_function (option) register_again ::
    "'w epoll_kernel \<Rightarrow> epoll_reactor \<Rightarrow> nat option \<Rightarrow> 'w os \<Rightarrow> (error_code option \<times> 'w os) option" where
  "register_again E r p w =
     (case p of
        None \<Rightarrow> Some (None, w)
      | Some d \<Rightarrow>
          case ek_epoll_ctl E (epoll_fd r) EPOLL_CTL_ADD (descriptor (states r d))
                 (registered_events (states r d), State_Data d) w of
            (result, w1) \<Rightarrow>
              if result \<noteq> 0 then Some (Some (system_error w1), w1)
              else register_again E r (obj_next (pool r) d) w1)"

text \<open>The child's part of \<open>fork_service\<close>; the error is what it throws.\<close>

definition fork_child ::
    "'w epoll_kernel \<Rightarrow> int \<Rightarrow> epoll_reactor \<Rightarrow> 'w os \<Rightarrow> (error_code option \<times> epoll_reactor \<times> 'w os) option" where
  "fork_child E now r w =
     (let w1 = (if epoll_fd r \<noteq> -1 then ek_close E (epoll_fd r) w else w)
      in case do_epoll_create E w1 of
           (Inl ec, w2) \<Rightarrow> Some (Some ec, r\<lparr>epoll_fd := -1\<rparr>, w2)
         | (Inr epfd, w2) \<Rightarrow>
             let w3 = (if timer_fd r \<noteq> -1 then ek_close E (timer_fd r) w2 else w2);
                 (tfd, w4) = do_timerfd_create E w3;
                 ((failure, n), w5) = recreate E (interrupter_of r) w4;
                 r1 = r\<lparr>epoll_fd := epfd, timer_fd := tfd, interrupter_of := n\<rparr>
             in case failure of
                  Some ec \<Rightarrow> Some (Some ec, r1, w5)
                | None \<Rightarrow>
                    Option.bind (update_timeout E now r1 (add_own_descriptors E epfd tfd n w5)) (\<lambda>w6.
                      map_option (\<lambda>(ec, w7). (ec, r1, w7)) (register_again E r1 (pool_first (pool r1)) w6)))"

end
