(* ===== verification/Op_Queue_Twice.thy ===== *)
theory Op_Queue_Twice
  imports Op_Queue
begin

text \<open>
  What is left of an intrusive queue when an operation is pushed onto it that is in it already. The code
  does not check this; a queue is meant to hold an operation once. The push writes the operation's only
  \<open>next_\<close> pointer, so that the operation becomes the last one and those that stood after it are not
  reached any more.
\<close>

text \<open>The operations that can be reached after a push, and after pushes in turn onto an empty queue.\<close>

definition push_linked :: "nat list \<Rightarrow> nat \<Rightarrow> nat list" where
  "push_linked xs x = (if x \<in> set xs then takeWhile (\<lambda>y. y \<noteq> x) xs @ [x] else xs @ [x])"

definition linked :: "nat list \<Rightarrow> nat list" where
  "linked xs = foldl push_linked [] xs"

definition pushed :: "nat list \<Rightarrow> op_queue \<times> next_heap" where
  "pushed xs = foldl (\<lambda>(q, nx) x. queue_push nx q x) (new_queue, \<lambda>a. None) xs"

text \<open>Each operation points to the next; of the last, which may point to itself, nothing is said.\<close>

fun links :: "next_heap \<Rightarrow> nat list \<Rightarrow> bool" where
  "links nx (a # b # as) \<longleftrightarrow> nx a = Some b \<and> links nx (b # as)"
| "links nx as \<longleftrightarrow> True"

lemma links_update: "a \<notin> set (butlast as) \<Longrightarrow> links (nx(a := v)) as = links nx as"
  by (induction nx as rule: links.induct) auto

lemma links_snoc: "links nx (as @ [b]) \<longleftrightarrow> links nx as \<and> (as \<noteq> [] \<longrightarrow> nx (last as) = Some b)"
  by (induction nx as rule: links.induct) auto

lemma links_prefix: "links nx (as @ bs) \<Longrightarrow> links nx as"
proof (induction bs rule: rev_induct)
  case (snoc b bs)
  then show ?case using links_snoc [of nx "as @ bs" b] by simp
qed simp

lemma links_chain: "links nx as \<Longrightarrow> as \<noteq> [] \<Longrightarrow> nx (last as) = None \<Longrightarrow> chain nx (Some (hd as)) as"
  by (induction nx as rule: links.induct) auto

text \<open>The pointers of a queue after any pushes.\<close>

definition linked_to :: "op_queue \<times> next_heap \<Rightarrow> nat list \<Rightarrow> bool" where
  "linked_to = (\<lambda>(q, nx) as. distinct as \<and> links nx as
     \<and> front_ptr q = (if as = [] then None else Some (hd as)) \<and> back_ptr q = (if as = [] then None else Some (last as)))"

lemma linked_to_push:
  assumes "linked_to (q, nx) as"
  shows "linked_to (queue_push nx q x) (push_linked as x)"
proof (cases "x \<in> set as")
  case False
  then have "x \<notin> set (butlast as)" by (auto dest: in_set_butlastD)
  moreover have "last as \<notin> set (butlast as)" if "as \<noteq> []"
  proof -
    have "distinct (butlast as @ [last as])" using assms that by (simp add: linked_to_def)
    then show ?thesis by simp
  qed
  ultimately show ?thesis
    using assms False
    by (cases "as = []") (auto simp: linked_to_def push_linked_def queue_push_def links_snoc links_update hd_append)
next
  case True
  then obtain ps rs where as: "as = ps @ x # rs" "x \<notin> set ps" by (metis split_list_first)
  have "takeWhile (\<lambda>y. y \<noteq> x) (ps @ x # rs) = ps" using as(2) by (induction ps) auto
  then have l: "push_linked as x = ps @ [x]" by (simp add: push_linked_def as(1))
  have d: "distinct as" "links nx as" "back_ptr q = Some (last (x # rs))" "front_ptr q = Some (hd (ps @ [x]))"
    using assms by (auto simp: linked_to_def as(1) hd_append)
  have "links nx (ps @ [x])" using links_prefix [of nx "ps @ [x]" rs] d(2) by (simp add: as(1))
  moreover have "last (x # rs) \<notin> set ps" using d(1) last_in_set [of "x # rs"] as by (auto split: if_splits)
  ultimately have "links (nx(x := None, last (x # rs) := Some x)) (ps @ [x])"
    using as(2) by (simp add: links_update butlast_append)
  moreover have "queue_push nx q x = (q\<lparr>back_ptr := Some x\<rparr>, nx(x := None, last (x # rs) := Some x))"
    using d(3) by (simp add: queue_push_def)
  moreover have "distinct (ps @ [x])" using d(1) by (simp add: as(1))
  ultimately show ?thesis unfolding l using d(4) by (simp add: linked_to_def)
qed

lemma pushed_linked_to: "linked_to (pushed xs) (linked xs)"
proof (induction xs rule: rev_induct)
  case Nil
  show ?case by (simp add: linked_to_def pushed_def linked_def new_queue_def)
next
  case (snoc x xs)
  obtain q nx where "pushed xs = (q, nx)" by (cases "pushed xs")
  with linked_to_push [of q nx "linked xs" x] snoc show ?case by (simp add: pushed_def linked_def)
qed

lemma set_linked: "set (linked xs) \<subseteq> set xs"
proof (induction xs rule: rev_induct)
  case (snoc x xs)
  then show ?case by (auto simp: linked_def push_linked_def dest: set_takeWhileD)
qed (simp add: linked_def)

lemma distinct_linked: "distinct (linked xs)"
  using pushed_linked_to [of xs] by (auto simp: linked_to_def)

lemma linked_distinct: "distinct xs \<Longrightarrow> linked xs = xs"
proof (induction xs rule: rev_induct)
  case (snoc x xs)
  then show ?case by (simp add: linked_def push_linked_def)
qed (simp add: linked_def)

text \<open>
  After the push of one more operation, as that of the task's at the end, the queue is the list of the
  operations that can be reached, with that one.
\<close>

lemma pushed_chain:
  assumes "z \<notin> set xs"
  shows "chain (snd (pushed (xs @ [z]))) (front_ptr (fst (pushed (xs @ [z])))) (linked xs @ [z])"
proof -
  have z: "z \<notin> set (linked xs)" using assms set_linked by blast
  have "linked_to (pushed (xs @ [z])) (linked xs @ [z])"
    using pushed_linked_to [of "xs @ [z]"] z by (simp add: linked_def push_linked_def)
  moreover have "snd (pushed (xs @ [z])) z = None"
  proof -
    obtain q nx where q: "pushed xs = (q, nx)" by (cases "pushed xs")
    with pushed_linked_to [of xs] z have "back_ptr q \<noteq> Some z" by (auto simp: linked_to_def)
    have "pushed (xs @ [z]) = queue_push nx q z" using q by (simp add: pushed_def)
    with \<open>back_ptr q \<noteq> Some z\<close> show ?thesis by (cases "back_ptr q") (simp_all add: queue_push_def Let_def)
  qed
  moreover obtain q nx where "pushed (xs @ [z]) = (q, nx)" by (cases "pushed (xs @ [z])")
  ultimately have "links nx (linked xs @ [z])" "front_ptr q = Some (hd (linked xs @ [z]))" "nx z = None"
    "pushed (xs @ [z]) = (q, nx)" by (simp_all add: linked_to_def)
  with links_chain [of nx "linked xs @ [z]"] show ?thesis by simp
qed

end
