(* ===== verification/Reactor_Steps.thy ===== *)
theory Reactor_Steps
  imports Scheduler_Queues Epoll_Reactor Op_Queue_Twice
begin

text \<open>
  The reactor and the scheduler together: any number of threads run handlers and the reactor, open and
  close sockets and start and cancel operations on them, over a kernel whose \<open>epoll\<close> reports edges. A
  function of the reactor runs under the lock of its descriptor and is one step; what it then calls of
  the scheduler are the scheduler's steps. The wait and the loop over the events are two steps, so that
  descriptors come and go in between, and so are the removal of a descriptor from the reactor and the
  close of the socket. The steps do not say which thread closes a socket; in the code it is the one that
  took it out of the reactor, so that there are more executions here.
\<close>

section \<open>Kernel and operations\<close>

text \<open>
  What the steps are about: the system calls, the functions of the operations, the descriptor and the
  queue an operation is for, and three views of the kernel: what a descriptor is registered for, whether
  it is ready in the direction of a queue, and whether an edge there has not been reported yet.
\<close>

record 'w setting =
  st_kernel :: "'w epoll_kernel"
  st_perform :: "'w perform"
  st_waits :: "nat \<Rightarrow> int \<times> nat"
  st_interest :: "'w os \<Rightarrow> int \<Rightarrow> epoll_event option"
  st_ready :: "'w os \<Rightarrow> int \<Rightarrow> nat \<Rightarrow> bool"
  st_pending :: "'w os \<Rightarrow> int \<Rightarrow> nat \<Rightarrow> bool"

text \<open>The descriptor is registered for events in the direction of queue \<open>j\<close>.\<close>

definition armed :: "'w setting \<Rightarrow> 'w os \<Rightarrow> int \<Rightarrow> nat \<Rightarrow> bool" where
  "armed S w fd j \<longleftrightarrow> (case st_interest S w fd of None \<Rightarrow> False | Some (events, data) \<Rightarrow> events AND ops_flag j \<noteq> 0)"

text \<open>It is ready, and the edge has been reported: no further event will come.\<close>

definition silent :: "'w setting \<Rightarrow> 'w os \<Rightarrow> int \<Rightarrow> nat \<Rightarrow> bool" where
  "silent S w fd j \<longleftrightarrow> armed S w fd j \<and> st_ready S w fd j \<and> \<not> st_pending S w fd j"

text \<open>
  A change in which every new readiness makes an edge and no edge is lost, but for descriptors in \<open>A\<close>.
\<close>

definition edges_kept :: "'w setting \<Rightarrow> int set \<Rightarrow> 'w os \<Rightarrow> 'w os \<Rightarrow> bool" where
  "edges_kept S A w w1 \<longleftrightarrow> (\<forall>fd. fd \<notin> A \<longrightarrow> st_interest S w1 fd = st_interest S w fd
     \<and> (\<forall>j. silent S w1 fd j \<longrightarrow> silent S w fd j))"

section \<open>The state\<close>

text \<open>
  The sockets are the open ones with the descriptor data they hold; \<open>closing\<close> are those whose data has
  been given back and whose descriptor is not closed yet. \<open>wd_events\<close> is the ready events a thread
  read when it took a descriptor's operation from the queue, \<open>fetched\<close> what the thread in the reactor
  got from \<open>epoll_wait\<close> and has not looked at.
\<close>

record 'w io_world =
  wd_sched :: system
  wd_reactor :: epoll_reactor
  wd_os :: "'w os"
  wd_events :: "nat \<Rightarrow> u32"
  fetched :: "epoll_event list option"
  sockets :: "(int \<times> nat) list"
  closing :: "(int \<times> nat) list"

text \<open>The operations waiting for the descriptors.\<close>

definition waiting_ops :: "epoll_reactor \<Rightarrow> (int \<times> nat) list \<Rightarrow> nat list" where
  "waiting_ops r ss = concat (map (\<lambda>(fd, d). concat (op_queues (states r d))) ss)"

definition wd_waiting :: "'w io_world \<Rightarrow> nat list" where
  "wd_waiting v = waiting_ops (wd_reactor v) (sockets v)"

text \<open>A handler that is nowhere: not in the scheduler and not waiting for a descriptor.\<close>

definition fresh_op :: "nat \<Rightarrow> 'w io_world \<Rightarrow> bool" where
  "fresh_op x v \<longleftrightarrow> Handler x \<notin> set (queued (wd_sched v)) \<and> x \<notin> set (wd_waiting v)"

text \<open>
  A thread that takes a descriptor's operation from the queue reads its events under the same lock.
\<close>

definition capture :: "nat \<Rightarrow> system \<Rightarrow> 'w io_world \<Rightarrow> nat \<Rightarrow> u32" where
  "capture i s1 v =
     (case place (threads s1 ! i) of
        In_Op c (Descriptor d) False \<Rightarrow>
          if place (threads (wd_sched v) ! i) = In_Op c (Descriptor d) False then wd_events v
          else (wd_events v)(i := ready_events (states (wd_reactor v) d))
      | _ \<Rightarrow> wd_events v)"

text \<open>What \<open>start_op\<close> calls: the work is counted before the lock of the descriptor is released.\<close>

definition count_or_post :: "nat \<Rightarrow> sched_call list \<Rightarrow> system \<Rightarrow> system" where
  "count_or_post i calls s =
     (case calls of
        [Post_Immediate x is_continuation] \<Rightarrow> post_immediate_completion i (Handler x) is_continuation s
      | _ \<Rightarrow> (work_started s)\<lparr>held := held s + 1\<rparr>)"

definition post_aborted :: "nat \<Rightarrow> sched_call list \<Rightarrow> system \<Rightarrow> system" where
  "post_aborted i calls s =
     (case calls of
        [Post_Deferred xs] \<Rightarrow> post_deferred_completions i (map Handler xs) (s\<lparr>held := held s - length xs\<rparr>)
      | _ \<Rightarrow> s)"

text \<open>
  \<open>start_op\<close> does not look whether \<open>epoll_ctl\<close> succeeds when it does not try the operation first.
\<close>

definition unnoticed_failure :: "'w epoll_kernel \<Rightarrow> nat \<Rightarrow> int \<Rightarrow> nat \<Rightarrow> bool \<Rightarrow> epoll_reactor \<Rightarrow> 'w os \<Rightarrow> bool" where
  "unnoticed_failure E op_type fd d allow_speculative r w \<longleftrightarrow>
     op_queues (states r d) ! op_type = []
     \<and> \<not> (allow_speculative \<and> (op_type \<noteq> read_ops \<or> op_queues (states r d) ! except_ops = []))
     \<and> fst (ek_epoll_ctl E (epoll_fd r) EPOLL_CTL_MOD fd
       (if op_type = write_ops then registered_events (states r d) OR EPOLLOUT else registered_events (states r d),
        State_Data d) w) \<noteq> 0"

section \<open>Steps\<close>

text \<open>
  Two things can go wrong without the code noticing. A socket may be opened while another is between
  leaving the reactor and its close, and get its descriptor state, which \<open>epoll\<close> may then report for both;
  and \<open>epoll_ctl\<close> may fail where \<open>start_op\<close> does not look. With \<open>calm\<close> neither happens. A thread in a call
  of the reactor is one the scheduler lets call it. The states of a wait's events are pushed one after the
  other onto the thread's queue, which holds those that can be reached then.
\<close>

inductive io_step :: "'w setting \<Rightarrow> bool \<Rightarrow> bool \<Rightarrow> 'w io_world \<Rightarrow> 'w io_world \<Rightarrow> bool" for S quiet calm where
  goes: "goes quiet i k (wd_sched v) = Some s1
    \<Longrightarrow> io_step S quiet calm v (v\<lparr>wd_sched := s1, wd_events := capture i s1 v\<rparr>)"
| enter: "thread_at i Outside (wd_sched v) \<Longrightarrow> io_step S quiet calm v (v\<lparr>wd_sched := enter i c (wd_sched v)\<rparr>)"
| spurious: "thread_at i (Blocked c) (wd_sched v)
    \<Longrightarrow> io_step S quiet calm v (v\<lparr>wd_sched := on_thread i (place_update (\<lambda>_. Signalled c)) (wd_sched v)\<rparr>)"
| finish: "thread_at i (In_Op c x True) (wd_sched v)
    \<Longrightarrow> io_step S quiet calm v (v\<lparr>wd_sched := on_thread i (place_update (\<lambda>_. Op_Done c thrown)) (wd_sched v)\<rparr>)"
| post: "caller_at i (wd_sched v) \<Longrightarrow> fresh_op x v
    \<Longrightarrow> io_step S quiet calm v (v\<lparr>wd_sched := post_immediate_completion i (Handler x) is_continuation (wd_sched v)\<rparr>)"
| post_deferred: "caller_at i (wd_sched v) \<Longrightarrow> distinct xs \<Longrightarrow> (\<forall>x \<in> set xs. fresh_op x v)
    \<Longrightarrow> length (wd_waiting v) + length xs \<le> held (wd_sched v)
    \<Longrightarrow> io_step S quiet calm v (v\<lparr>wd_sched := post_aborted i [Post_Deferred xs] (wd_sched v)\<rparr>)"
| control: "caller_at i (wd_sched v) \<Longrightarrow> a \<in> {Stop_All, Reset, Init_Task, Start_Work True}
    \<Longrightarrow> io_step S quiet calm v (v\<lparr>wd_sched := call_act i a (wd_sched v)\<rparr>)"
| drop_work: "caller_at i (wd_sched v) \<Longrightarrow> length (wd_waiting v) < held (wd_sched v)
    \<Longrightarrow> io_step S quiet calm v
         (v\<lparr>wd_sched := call_act i Finish_Work ((wd_sched v)\<lparr>held := held (wd_sched v) - 1\<rparr>)\<rparr>)"
| register: "caller_at i (wd_sched v) \<Longrightarrow> calm \<longrightarrow> closing v = []
    \<Longrightarrow> pool_is (pool (wd_reactor v)) L F \<Longrightarrow> fst created \<notin> set L \<union> set F
    \<Longrightarrow> register_descriptor (st_kernel S) fd created (wd_reactor v) (wd_os v) = ((err, d), r1, w1)
    \<Longrightarrow> io_step S quiet calm v
         (v\<lparr>wd_reactor := r1, wd_os := w1, sockets := (if err = 0 then (fd, d) # sockets v else sockets v)\<rparr>)"
| start: "caller_at i (wd_sched v) \<Longrightarrow> (fd, d) \<in> set (sockets v) \<Longrightarrow> fresh_op x v
    \<Longrightarrow> op_type < max_ops \<Longrightarrow> st_waits S x = (fd, op_type)
    \<Longrightarrow> calm \<longrightarrow> \<not> unnoticed_failure (st_kernel S) op_type fd d allow_speculative (wd_reactor v) (wd_os v)
    \<Longrightarrow> reactor_start_op (st_kernel S) (st_perform S) op_type fd (Some d) x is_continuation allow_speculative
          (wd_reactor v) (wd_os v) = (calls, r1, w1)
    \<Longrightarrow> io_step S quiet calm v
         (v\<lparr>wd_sched := count_or_post i calls (wd_sched v), wd_reactor := r1, wd_os := w1\<rparr>)"
| cancel: "caller_at i (wd_sched v) \<Longrightarrow> (fd, d) \<in> set (sockets v)
    \<Longrightarrow> cancel_ops (Some d) (wd_reactor v) = (calls, r1)
    \<Longrightarrow> io_step S quiet calm v (v\<lparr>wd_sched := post_aborted i calls (wd_sched v), wd_reactor := r1\<rparr>)"
| deregister: "caller_at i (wd_sched v) \<Longrightarrow> (fd, d) \<in> set (sockets v)
    \<Longrightarrow> deregister_descriptor (st_kernel S) fd (Some d) is_closing (wd_reactor v) (wd_os v) = (calls, data, r1, w1)
    \<Longrightarrow> io_step S quiet calm v
         (v\<lparr>wd_sched := post_aborted i calls (wd_sched v), wd_reactor := r1, wd_os := w1,
            sockets := remove1 (fd, d) (sockets v),
            closing := (if is_closing then (fd, d) # closing v else closing v)\<rparr>)"
| closed: "(fd, d) \<in> set (closing v) \<Longrightarrow> edges_kept S {fd} (wd_os v) w1 \<Longrightarrow> st_interest S w1 fd = None
    \<Longrightarrow> io_step S quiet calm v (v\<lparr>wd_os := w1, closing := remove1 (fd, d) (closing v)\<rparr>)"
| outside: "edges_kept S {} (wd_os v) w1 \<Longrightarrow> io_step S quiet calm v (v\<lparr>wd_os := w1\<rparr>)"
| fetch: "thread_at i (In_Task c b) (wd_sched v) \<Longrightarrow> fetched v = None
    \<Longrightarrow> fetch_events (st_kernel S) b now (wd_reactor v) (wd_os v) = Some (evs, w1)
    \<Longrightarrow> io_step S quiet calm v (v\<lparr>wd_os := w1, fetched := Some evs\<rparr>)"
| dispatch: "thread_at i (In_Task c b) (wd_sched v) \<Longrightarrow> fetched v = Some evs
    \<Longrightarrow> dispatch_events evs check (wd_reactor v) = (ds, check1, r1)
    \<Longrightarrow> distinct ts \<Longrightarrow> (\<forall>x \<in> set ts. fresh_op x v) \<Longrightarrow> length (wd_waiting v) + length ts \<le> held (wd_sched v)
    \<Longrightarrow> io_step S quiet calm v
         (v\<lparr>wd_sched := task_ran i c (map Descriptor (linked ds) @ map Handler ts) consumed (wd_sched v),
            wd_reactor := r1, fetched := None\<rparr>)"
| perform: "thread_at i (In_Op c (Descriptor d) False) (wd_sched v)
    \<Longrightarrow> perform_io (st_perform S) (wd_events v i) d (wd_reactor v) (wd_os v) = (first_op, calls, r1, w1)
    \<Longrightarrow> io_step S quiet calm v
         (v\<lparr>wd_sched :=
              (case first_op of
                 None \<Rightarrow> perform_none i c (Descriptor d) (wd_sched v)
               | Some x \<Rightarrow> perform_some i c
                   (map Handler (x # (case calls of [Post_Deferred xs] \<Rightarrow> xs | _ \<Rightarrow> []))) (wd_sched v)),
            wd_reactor := r1, wd_os := w1\<rparr>)"

text \<open>
  The start: a service without work and a reactor without sockets. Memory that is not a descriptor state
  yet counts as one without operations.
\<close>

definition new_io_world :: "nat \<Rightarrow> nat \<Rightarrow> epoll_reactor \<Rightarrow> 'w os \<Rightarrow> 'w io_world" where
  "new_io_world n concurrency_hint r w =
     \<lparr>wd_sched = new_system n concurrency_hint, wd_reactor = r, wd_os = w, wd_events = (\<lambda>i. 0), fetched = None,
      sockets = [], closing = []\<rparr>"

definition bare_reactor :: "'w setting \<Rightarrow> int \<Rightarrow> epoll_reactor \<Rightarrow> 'w os \<Rightarrow> bool" where
  "bare_reactor S epfd r w \<longleftrightarrow> epoll_fd r = epfd \<and> pool_is (pool r) [] [] \<and> (\<forall>d. op_queues (states r d) = [[], [], []])
     \<and> (\<forall>fd events d. st_interest S w fd \<noteq> Some (events, State_Data d))"

inductive io_reachable :: "'w setting \<Rightarrow> int \<Rightarrow> bool \<Rightarrow> bool \<Rightarrow> 'w io_world \<Rightarrow> bool" for S epfd quiet calm where
  start: "bare_reactor S epfd r w \<Longrightarrow> io_reachable S epfd quiet calm (new_io_world n concurrency_hint r w)"
| step: "io_reachable S epfd quiet calm v \<Longrightarrow> io_step S quiet calm v v1
    \<Longrightarrow> io_reachable S epfd quiet calm v1"

end
