(* ===== verification/Reactor_Laws.thy ===== *)
theory Reactor_Laws
  imports Scheduler_Frame Reactor_Steps "HOL-Library.Multiset"
begin

text \<open>
  What the operations of the reactor do to the queues of a descriptor and to the edges of the kernel,
  under the laws of an edge-triggered \<open>epoll\<close>, and what the calls they make do to the scheduler's
  queues.
\<close>

section \<open>The laws of the kernel\<close>

text \<open>
  The documented behaviour of \<open>epoll\<close> with edge-triggered descriptors: to register a descriptor, or to
  change its registration, reports it again if it is ready, and a descriptor is registered once; a wait loses no edge but those it reports, and
  reports a descriptor once. And of an operation: it is not finished only when the descriptor was not
  ready for it.
\<close>

locale edge_laws =
  fixes S :: "'w setting" and epfd :: int
  assumes add: "ek_epoll_ctl (st_kernel S) epfd EPOLL_CTL_ADD fd ev w = (0, w1) \<Longrightarrow>
      st_interest S w fd = None \<and> st_interest S w1 fd = Some ev \<and> edges_kept S {fd} w w1 \<and> (\<forall>j. \<not> silent S w1 fd j)"
    and modify: "ek_epoll_ctl (st_kernel S) epfd EPOLL_CTL_MOD fd ev w = (0, w1) \<Longrightarrow>
      st_interest S w1 fd = Some ev \<and> edges_kept S {fd} w w1 \<and> (\<forall>j. \<not> silent S w1 fd j)"
    and ctl_fails: "ek_epoll_ctl (st_kernel S) epfd oper fd ev w = (r, w1) \<Longrightarrow> r \<noteq> 0 \<Longrightarrow> oper \<noteq> EPOLL_CTL_DEL
      \<Longrightarrow> edges_kept S {} w w1 \<and> errno w1 \<noteq> 0"
    and delete: "ek_epoll_ctl (st_kernel S) epfd EPOLL_CTL_DEL fd ev w = (r, w1) \<Longrightarrow>
      st_interest S w1 fd = None \<and> edges_kept S {fd} w w1"
    and wait: "ek_epoll_wait (st_kernel S) epfd n t w = (evs, w1) \<Longrightarrow>
      (\<forall>fd. st_interest S w1 fd = st_interest S w fd)
      \<and> (\<forall>fd j. silent S w1 fd j \<longrightarrow> silent S w fd j
          \<or> (\<exists>m data events. st_interest S w fd = Some (m, data) \<and> (events, data) \<in> set evs \<and> event_for events j))
      \<and> (\<exists>fds. distinct fds \<and> map (\<lambda>fd. map_option snd (st_interest S w fd)) fds = map (\<lambda>ev. Some (snd ev)) evs)"
    and performs: "st_perform S x res w = ((finished, res1), w1) \<Longrightarrow>
      edges_kept S {} w w1 \<and> (\<not> finished \<longrightarrow> \<not> silent S w1 (fst (st_waits S x)) (snd (st_waits S x)))"

section \<open>Edges\<close>

lemma edges_kept_refl [simp]: "edges_kept S A w w"
  by (simp add: edges_kept_def)

lemma edges_kept_trans: "edges_kept S A w w1 \<Longrightarrow> edges_kept S A w1 w2 \<Longrightarrow> edges_kept S A w w2"
  by (auto simp: edges_kept_def)

lemma edges_kept_mono: "edges_kept S A w w1 \<Longrightarrow> A \<subseteq> B \<Longrightarrow> edges_kept S B w w1"
  by (auto simp: edges_kept_def)

lemma edges_keptD:
  "edges_kept S A w w1 \<Longrightarrow> fd \<notin> A \<Longrightarrow> st_interest S w1 fd = st_interest S w fd"
  "edges_kept S A w w1 \<Longrightarrow> fd \<notin> A \<Longrightarrow> silent S w1 fd j \<Longrightarrow> silent S w fd j"
  "edges_kept S A w w1 \<Longrightarrow> fd \<notin> A \<Longrightarrow> armed S w1 fd j = armed S w fd j"
  by (auto simp: edges_kept_def armed_def)

section \<open>Performing a queue\<close>


context edge_laws
begin

lemma perform_queue_works:
  assumes "perform_queue (st_perform S) xs res w = (fin, rest, res1, w1)" "\<forall>x \<in> set xs. st_waits S x = (fd, j)"
  shows "xs = fin @ rest \<and> edges_kept S {} w w1 \<and> (rest \<noteq> [] \<longrightarrow> \<not> silent S w1 fd j)"
  using assms
proof (induction xs arbitrary: res w fin rest res1 w1)
  case (Cons x xs)
  obtain finished v w2 where p: "st_perform S x (res x) w = ((finished, v), w2)" by (metis surj_pair)
  note law = performs [OF p]
  show ?case
  proof (cases finished)
    case True
    obtain fin2 where "perform_queue (st_perform S) xs (res(x := v)) w2 = (fin2, rest, res1, w1)" "fin = x # fin2"
      using Cons.prems(1) True by (auto simp: p split: prod.splits)
    with Cons.IH [OF this(1)] Cons.prems(2) law edges_kept_trans [of S "{}" w w2 w1] show ?thesis by simp
  next
    case False
    with Cons.prems law show ?thesis by (auto simp: p)
  qed
qed simp

end

text \<open>The state of descriptor \<open>d\<close> with other queues, all else as it was.\<close>

definition requeued :: "nat \<Rightarrow> nat list list \<Rightarrow> epoll_reactor \<Rightarrow> epoll_reactor \<Rightarrow> bool" where
  "requeued d Q r r1 \<longleftrightarrow> states r1 = (states r)(d := (states r d)\<lparr>op_queues := Q\<rparr>) \<and> pool r1 = pool r \<and> epoll_fd r1 = epoll_fd r"

lemma requeued_refl: "requeued d (op_queues (states r d)) r r"
  by (simp add: requeued_def)

lemma concat_update:
  "j < length Q \<Longrightarrow> Q ! j = fin @ rest \<Longrightarrow> mset (concat Q) = mset fin + mset (concat (Q[j := rest]))"
  by (induction Q arbitrary: j) (auto split: nat.splits)

text \<open>What the loop over the queues has done after the queues in \<open>J\<close>.\<close>

definition performed ::
    "'w setting \<Rightarrow> u32 \<Rightarrow> nat \<Rightarrow> int \<Rightarrow> nat set \<Rightarrow> epoll_reactor \<Rightarrow> 'w os \<Rightarrow> nat list \<times> epoll_reactor \<times> 'w os \<Rightarrow> bool" where
  "performed S events d fd J r w = (\<lambda>(ops, r1, w1). \<exists>Q. requeued d Q r r1 \<and> length Q = length (op_queues (states r d))
     \<and> edges_kept S {} w w1 \<and> mset (concat (op_queues (states r d))) = mset ops + mset (concat Q)
     \<and> (\<forall>j < length Q. set (Q ! j) \<subseteq> set (op_queues (states r d) ! j))
     \<and> (\<forall>j \<in> J. j < length Q \<longrightarrow> event_for events j \<longrightarrow> Q ! j \<noteq> [] \<longrightarrow> \<not> silent S w1 fd j))"

context edge_laws
begin

lemma perform_one_works:
  assumes "performed S events d fd J r w (ops, r1, w1)" "j < length (op_queues (states r d))" "j \<notin> J"
    and "\<forall>x \<in> set (op_queues (states r d) ! j). st_waits S x = (fd, j)"
  shows "performed S events d fd (insert j J) r w (perform_one (st_perform S) events d j (ops, r1, w1))"
proof -
  obtain Q where Q: "requeued d Q r r1" "length Q = length (op_queues (states r d))" "edges_kept S {} w w1"
    "mset (concat (op_queues (states r d))) = mset ops + mset (concat Q)"
    "\<And>j. j < length Q \<Longrightarrow> set (Q ! j) \<subseteq> set (op_queues (states r d) ! j)"
    "\<And>j. j \<in> J \<Longrightarrow> j < length Q \<Longrightarrow> event_for events j \<Longrightarrow> Q ! j \<noteq> [] \<Longrightarrow> \<not> silent S w1 fd j"
    using assms(1) unfolding performed_def by blast
  have q: "op_queues (states r1 d) = Q" using Q(1) by (simp add: requeued_def)
  show ?thesis
  proof (cases "event_for events j")
    case False
    with Q show ?thesis unfolding performed_def perform_one_def by (simp, intro exI [of _ Q]) auto
  next
    case True
    obtain fin rest res w2 where p: "perform_queue (st_perform S) (Q ! j) (results r1) w1 = (fin, rest, res, w2)"
      by (metis surj_pair)
    have "\<forall>x \<in> set (Q ! j). st_waits S x = (fd, j)" using Q(2) Q(5) [of j] assms(2,4) by auto
    note w = perform_queue_works [OF p this]
    let ?r = "set_state d (\<lambda>s. s\<lparr>op_queues := (op_queues s)[j := rest]\<rparr>) r1\<lparr>results := res\<rparr>"
    have "requeued d (Q[j := rest]) r ?r" using Q(1) by (simp add: requeued_def set_state_def)
    moreover have "mset (concat (op_queues (states r d))) = mset (ops @ fin) + mset (concat (Q[j := rest]))"
      using Q(2,4) concat_update [of j Q fin rest] w assms(2) by simp
    moreover have "edges_kept S {} w w2" using Q(3) w edges_kept_trans by blast
    moreover have "set (Q[j := rest] ! k) \<subseteq> set (op_queues (states r d) ! k)" if "k < length Q" for k
      using Q(5) [OF that] w that by (cases "k = j") auto
    moreover have "\<not> silent S w2 fd k"
      if "k \<in> insert j J" "k < length Q" "event_for events k" "Q[j := rest] ! k \<noteq> []" for k
    proof (cases "k = j")
      case True
      with that w show ?thesis by simp
    next
      case False
      with that Q(6) have "\<not> silent S w1 fd k" by auto
      with w show ?thesis using edges_keptD(2) by blast
    qed
    ultimately show ?thesis
      using True Q(2) unfolding performed_def perform_one_def
      by (simp add: p q) (rule exI [of _ "Q[j := rest]"], simp)
  qed
qed

lemma perform_io_works:
  assumes "perform_io (st_perform S) events d r w = (first_op, calls, r1, w1)" "length (op_queues (states r d)) = 3"
    and "\<And>j x. j < 3 \<Longrightarrow> x \<in> set (op_queues (states r d) ! j) \<Longrightarrow> st_waits S x = (fd, j)"
  shows "\<exists>ops. performed S events d fd {0, 1, 2} r w (ops, r1, w1)
    \<and> first_op = (case ops of [] \<Rightarrow> None | x # xs \<Rightarrow> Some x)
    \<and> (ops \<noteq> [] \<longrightarrow> (case calls of [Post_Deferred xs] \<Rightarrow> xs | _ \<Rightarrow> []) = tl ops)"
proof -
  have 0: "performed S events d fd {} r w ([], r, w)"
    unfolding performed_def by (auto intro!: exI [of _ "op_queues (states r d)"] requeued_refl)
  let ?a = "perform_one (st_perform S) events d"
  have s: "performed S events d fd (insert j J) r w (?a j t)"
    if "performed S events d fd J r w t" "j < 3" "j \<notin> J" for j J t
    using that assms(2,3) by (cases t) (auto intro!: perform_one_works)
  have "performed S events d fd {0, 1, 2} r w (?a 0 (?a 1 (?a 2 ([], r, w))))"
    using s [OF s [OF s [OF 0, of 2], of 1], of 0] by (simp add: insert_commute)
  then have "performed S events d fd {0, 1, 2} r w (fold ?a [except_ops, write_ops, read_ops] ([], r, w))"
    by (simp add: except_ops_def write_ops_def read_ops_def)
  moreover obtain ops r2 w2 where f: "fold ?a [except_ops, write_ops, read_ops] ([], r, w) = (ops, r2, w2)"
    by (metis surj_pair)
  ultimately show ?thesis
    using assms(1) unfolding perform_io_def f by (cases ops) (auto split: if_splits)
qed

end

section \<open>Starting an operation\<close>

text \<open>The state of descriptor \<open>d\<close> after an operation began to wait: its registration and its queue.\<close>

definition waits_now :: "nat \<Rightarrow> nat \<Rightarrow> nat \<Rightarrow> u32 \<Rightarrow> epoll_reactor \<Rightarrow> epoll_reactor \<Rightarrow> bool" where
  "waits_now op_type d x ev r r1 \<longleftrightarrow> pool r1 = pool r \<and> epoll_fd r1 = epoll_fd r
     \<and> states r1 = (states r)(d := push_op op_type x ((states r d)\<lparr>registered_events := ev\<rparr>))"

lemma or_and_zero: "(a OR b) AND c = 0 \<longleftrightarrow> a AND c = 0 \<and> b AND c = (0 :: 'a :: len word)"
  by (auto simp: bit_eq_iff bit_or_iff bit_and_iff)

lemma or_absorb: "a OR (a OR b) = a OR (b :: 'a :: len word)"
  by (rule bit_word_eqI) (auto simp: bit_or_iff)

lemma ops_flag_simps [simp]:
  "ops_flag read_ops = EPOLLIN" "ops_flag write_ops = EPOLLOUT" "ops_flag except_ops = EPOLLPRI"
  "ops_flag 0 = EPOLLIN" "ops_flag (Suc 0) = EPOLLOUT" "ops_flag 2 = EPOLLPRI"
  by (simp_all add: ops_flag_def read_ops_def write_ops_def except_ops_def)

context edge_laws
begin

text \<open>The descriptor's registration, and its edges, after a change of the registration.\<close>

lemma modified:
  assumes "ek_epoll_ctl (st_kernel S) epfd EPOLL_CTL_MOD fd (ev, State_Data d) w = (0, w1)"
  shows "edges_kept S {fd} w w1" "st_interest S w1 fd = Some (ev, State_Data d)" "\<not> silent S w1 fd j"
  using modify [OF assms] by auto

lemma start_works:
  assumes r: "reactor_start_op (st_kernel S) (st_perform S) op_type fd (Some d) x c spec r w = (calls, r1, w1)"
    and fd: "epoll_fd r = epfd" "st_interest S w fd = Some (registered_events (states r d), State_Data d)"
      "\<not> ds_shutdown (states r d)" "st_waits S x = (fd, op_type)" "op_type < 3"
    and flags: "registered_events (states r d) AND EPOLLIN \<noteq> 0" "registered_events (states r d) AND EPOLLPRI \<noteq> 0"
      "op_queues (states r d) ! op_type \<noteq> [] \<longrightarrow> registered_events (states r d) AND ops_flag op_type \<noteq> 0"
    and ok: "\<not> unnoticed_failure (st_kernel S) op_type fd d spec r w"
  shows "(calls = [Post_Immediate x c] \<and> states r1 = states r \<and> pool r1 = pool r \<and> epoll_fd r1 = epoll_fd r
        \<and> edges_kept S {} w w1)
    \<or> (calls = [Work_Started] \<and> (\<exists>ev. waits_now op_type d x ev r r1 \<and> (ev = registered_events (states r d) \<or> ev = registered_events (states r d) OR EPOLLOUT)
        \<and> ev AND ops_flag op_type \<noteq> 0 \<and> st_interest S w1 fd = Some (ev, State_Data d)
        \<and> edges_kept S {fd} w w1 \<and> (\<forall>j. silent S w1 fd j \<longrightarrow> silent S w fd j)
        \<and> (op_queues (states r d) ! op_type = [] \<longrightarrow> \<not> silent S w1 fd op_type)))"
    (is "?posted \<or> ?waits")
proof -
  let ?s = "states r d" and ?old = "registered_events (states r d)"
  have flag: "ops_flag op_type = (if op_type = write_ops then EPOLLOUT else if op_type = read_ops then EPOLLIN else EPOLLPRI)"
    by (simp add: ops_flag_def read_ops_def write_ops_def)
  note def = r [unfolded reactor_start_op_def Let_def]
  consider (queue) "op_queues ?s ! op_type \<noteq> []"
    | (attempt) "op_queues ?s ! op_type = []" "spec \<and> (op_type \<noteq> read_ops \<or> op_queues ?s ! except_ops = [])"
    | (arm) "op_queues ?s ! op_type = []" "\<not> (spec \<and> (op_type \<noteq> read_ops \<or> op_queues ?s ! except_ops = []))"
    by blast
  then show ?thesis
  proof cases
    case queue
    then have "calls = [Work_Started]" "waits_now op_type d x ?old r r1" "w1 = w"
      using def fd(3) by (auto simp: wait_op_def waits_now_def set_state_def push_op_def)
    with queue flags(3) fd(2) show ?thesis by auto
  next
    case arm
    let ?ev = "if op_type = write_ops then ?old OR EPOLLOUT else ?old"
    have w1: "calls = [Work_Started]" "waits_now op_type d x ?ev r r1"
      "w1 = snd (ek_epoll_ctl (st_kernel S) epfd EPOLL_CTL_MOD fd (?ev, State_Data d) w)"
      using def fd(1,3) arm by (auto simp: wait_op_def waits_now_def set_state_def push_op_def)
    moreover have "fst (ek_epoll_ctl (st_kernel S) epfd EPOLL_CTL_MOD fd (?ev, State_Data d) w) = 0"
      using ok fd(1) arm by (cases "op_type = write_ops"; auto simp: unnoticed_failure_def)
    ultimately have m: "ek_epoll_ctl (st_kernel S) epfd EPOLL_CTL_MOD fd (?ev, State_Data d) w = (0, w1)"
      by (simp add: prod_eq_iff)
    have "?ev AND ops_flag op_type \<noteq> 0"
      using flags by (auto simp: flag or_and_zero EPOLLOUT_def)
    with w1 modified [OF m] show ?thesis by auto
  next
    case attempt
    obtain finished res w2 where p: "st_perform S x (results r x) w = ((finished, res), w2)" by (metis surj_pair)
    note law = performs [OF p, unfolded fd(4) fst_conv snd_conv]
    have i: "st_interest S w2 fd = Some (?old, State_Data d)" using law fd(2) edges_keptD(1) by fastforce
    let ?r = "r\<lparr>results := (results r)(x := res)\<rparr>"
    show ?thesis
    proof (cases finished)
      case True
      with def attempt fd(3) law show ?thesis by (auto simp: perform_op_def p)
    next
      case False
      show ?thesis
      proof (cases "op_type = write_ops \<and> ?old AND EPOLLOUT = 0")
        case True
        let ?ev = "?old OR EPOLLOUT"
        obtain result w3 where m: "ek_epoll_ctl (st_kernel S) epfd EPOLL_CTL_MOD fd (?ev, State_Data d) w2 = (result, w3)"
          by (metis surj_pair)
        show ?thesis
        proof (cases "result = 0")
          case ok: True
          then have "calls = [Work_Started]" "waits_now op_type d x ?ev r r1" "w1 = w3"
            using def fd(1,3) attempt m False \<open>op_type = write_ops \<and> _\<close>
            by (auto simp: wait_op_def waits_now_def set_state_def push_op_def perform_op_def p or_absorb)
          moreover have "edges_kept S {fd} w w3"
            using law modified(1) [OF m [unfolded ok]] edges_kept_mono edges_kept_trans by blast
          moreover have "?ev AND ops_flag op_type \<noteq> 0" using True by (simp add: or_and_zero EPOLLOUT_def)
          ultimately show ?thesis using modified [OF m [unfolded ok]] by blast
        next
          case bad: False
          then have "calls = [Post_Immediate x c]" "states r1 = states r \<and> pool r1 = pool r \<and> epoll_fd r1 = epoll_fd r" "w1 = w3"
            using def fd(1,3) attempt m False True by (auto simp: perform_op_def p set_ec_def)
          moreover have "edges_kept S {} w w3" using law ctl_fails [OF m bad] edges_kept_trans by blast
          ultimately show ?thesis by blast
        qed
      next
        case keep: False
        then have "calls = [Work_Started]" "waits_now op_type d x ?old r r1" "w1 = w2"
          using def fd(3) attempt False by (auto simp: wait_op_def waits_now_def set_state_def push_op_def perform_op_def p)
        moreover have "?old AND ops_flag op_type \<noteq> 0" using keep flags by (auto simp: flag)
        moreover have "\<And>j. silent S w2 fd j \<Longrightarrow> silent S w fd j" using law edges_keptD(2) by blast
        ultimately show ?thesis
          using i law False edges_kept_mono [of S "{}" w w2 "{fd}"] by blast
      qed
    qed
  qed
qed

end

section \<open>Giving up operations\<close>

lemma fold_set_ec [simp]:
  "states (fold (set_ec ec) xs r) = states r" "pool (fold (set_ec ec) xs r) = pool r"
  "epoll_fd (fold (set_ec ec) xs r) = epoll_fd r"
  by (induction xs arbitrary: r) (simp_all add: set_ec_def)

lemma abort_works:
  "abort_ops d r = (ops, r1) \<Longrightarrow> requeued d [[], [], []] r r1 \<and> ops = concat (op_queues (states r d))"
  by (auto simp: abort_ops_def requeued_def set_state_def Let_def)

lemma cancel_ops_works:
  "cancel_ops (Some d) r = (calls, r1) \<Longrightarrow>
    requeued d [[], [], []] r r1 \<and> calls = [Post_Deferred (concat (op_queues (states r d)))]"
  using abort_works by (auto simp: cancel_ops_def split: prod.splits)

lemma deregister_works:
  assumes "deregister_descriptor E fd (Some d) is_closing r w = (calls, data, r1, w1)" "\<not> ds_shutdown (states r d)"
  shows "calls = [Post_Deferred (concat (op_queues (states r d)))]" "epoll_fd r1 = epoll_fd r"
    "pool r1 = pool_free d (pool r)" "op_queues (states r1 d) = [[], [], []]" "\<And>e. e \<noteq> d \<Longrightarrow> states r1 e = states r e"
    "w1 = (if is_closing then w else snd (ek_epoll_ctl E (epoll_fd r) EPOLL_CTL_DEL fd (0, Null_Data) w))"
  using assms abort_works [of d r]
  by (auto simp: deregister_descriptor_def Let_def requeued_def set_state_def free_descriptor_state_def split: prod.splits)

section \<open>Events and registration\<close>

lemma dispatch_works:
  assumes "dispatch_events evs check r = (ds, check1, r1)"
  shows "pool r1 = pool r \<and> epoll_fd r1 = epoll_fd r
    \<and> (\<forall>d. states r1 d = (states r d)\<lparr>ready_events := ready_events (states r1 d)\<rparr>)
    \<and> set ds = {d. \<exists>events. (events, State_Data d) \<in> set evs}
    \<and> (\<forall>d. d \<notin> set ds \<longrightarrow> states r1 d = states r d)
    \<and> (distinct ds \<longrightarrow> (\<forall>events d. (events, State_Data d) \<in> set evs \<longrightarrow> ready_events (states r1 d) = events))"
  using assms
proof (induction evs arbitrary: check r ds check1 r1)
  case (Cons ev evs)
  obtain events data where ev: "ev = (events, data)" by (cases ev)
  show ?case
  proof (cases data)
    case (State_Data d)
    let ?r = "set_state d (\<lambda>s. s\<lparr>ready_events := events\<rparr>) r"
    obtain ds2 where d: "dispatch_events evs check ?r = (ds2, check1, r1)" "ds = d # ds2"
      using Cons.prems by (auto simp: ev State_Data split: prod.splits)
    note IH = Cons.IH [OF d(1)]
    have s: "states ?r e = (if e = d then (states r d)\<lparr>ready_events := events\<rparr> else states r e)" for e
      by (simp add: set_state_def)
    have "pool r1 = pool r" "epoll_fd r1 = epoll_fd r" using IH by (simp_all add: set_state_def)
    moreover have "states r1 e = (states r e)\<lparr>ready_events := ready_events (states r1 e)\<rparr>" for e
      using IH s [of e] by (metis (no_types, lifting) descriptor_state.update_convs(5) descriptor_state.surjective)
    moreover have "set ds = {e. \<exists>events. (events, State_Data e) \<in> set (ev # evs)}"
      using IH d(2) by (auto simp: ev State_Data)
    moreover have "states r1 e = states r e" if "e \<notin> set ds" for e using that IH s [of e] d(2) by auto
    moreover have "ready_events (states r1 e) = events2" if "distinct ds" "(events2, State_Data e) \<in> set (ev # evs)" for e events2
    proof (cases "(events2, State_Data e) \<in> set evs")
      case True
      with that IH d(2) show ?thesis by auto
    next
      case False
      with that have e: "e = d" "events2 = events" by (auto simp: ev State_Data)
      with that(1) d(2) IH s [of d] show ?thesis by auto
    qed
    ultimately show ?thesis by blast
  qed (use Cons in \<open>auto simp: ev\<close>)
qed simp

lemma register_works:
  assumes "register_descriptor E fd created r w = ((err, d), r1, w1)" "pool_is (pool r) L F" "fst created \<notin> set L \<union> set F"
  shows "d \<notin> set L" "pool_is (pool r1) (d # L) (tl F)" "epoll_fd r1 = epoll_fd r" "\<And>e. e \<noteq> d \<Longrightarrow> states r1 e = states r e"
    "descriptor (states r1 d) = fd" "\<not> ds_shutdown (states r1 d)" "registered_events (states r1 d) = descriptor_events"
    "op_queues (states r1 d) = [[], [], []] \<or> op_queues (states r1 d) = op_queues (states r d)"
    "\<exists>result. ek_epoll_ctl E (epoll_fd r) EPOLL_CTL_ADD fd (descriptor_events, State_Data d) w = (result, w1)
      \<and> err = (if result \<noteq> 0 then errno w1 else 0)"
proof -
  obtain e q where a: "pool_alloc (fst created) (pool r) = (e, q)" by (metis surj_pair)
  obtain result v where c: "ek_epoll_ctl E (epoll_fd r) EPOLL_CTL_ADD fd (descriptor_events, State_Data e) w = (result, v)"
    by (metis surj_pair)
  have "F = [] \<Longrightarrow> fst created \<notin> set L" using assms(3) by simp
  note al = pool_alloc_is [OF assms(2) this a]
  note def = assms(1) [unfolded register_descriptor_def register_with_def allocate_descriptor_state_def]
  have d: "d = e" "w1 = v" "err = (if result \<noteq> 0 then errno v else 0)" "pool r1 = q"
    using def by (auto simp: a c Let_def set_state_def split: if_splits prod.splits)
  show "d \<notin> set L" using al d assms(2,3) by (cases F) (auto simp: pool_is_def)
  show "pool_is (pool r1) (d # L) (tl F)" using al d by simp
  show "\<exists>result. ek_epoll_ctl E (epoll_fd r) EPOLL_CTL_ADD fd (descriptor_events, State_Data d) w = (result, w1)
      \<and> err = (if result \<noteq> 0 then errno w1 else 0)" using c d by simp
  show "epoll_fd r1 = epoll_fd r" "\<And>e. e \<noteq> d \<Longrightarrow> states r1 e = states r e"
    "descriptor (states r1 d) = fd" "\<not> ds_shutdown (states r1 d)" "registered_events (states r1 d) = descriptor_events"
    "op_queues (states r1 d) = [[], [], []] \<or> op_queues (states r1 d) = op_queues (states r d)"
    using def by (auto simp: a c Let_def set_state_def fresh_state_def split: if_splits prod.splits)
qed

end
