(* ===== verification/Reactor_Safety.thy ===== *)
theory Reactor_Safety
  imports Reactor_Laws Scheduler_Wakeups
begin

text \<open>
  The invariant of the reactor and the scheduler together and what follows: the reactor keeps its side
  of the scheduler's contract, so that all that holds of the scheduler's executions holds here, and an
  operation never waits for a descriptor that is ready without an event on its way to it.
\<close>

section \<open>The invariant\<close>

text \<open>
  An event for queue \<open>j\<close> of descriptor \<open>d\<close> is on its way: fetched from the kernel, with the queued
  operation of the descriptor, or with a thread that has taken it.
\<close>

definition signalled :: "'w io_world \<Rightarrow> nat \<Rightarrow> nat \<Rightarrow> bool" where
  "signalled v d j \<longleftrightarrow>
     (\<exists>evs events. fetched v = Some evs \<and> (events, State_Data d) \<in> set evs \<and> event_for events j)
     \<or> Descriptor d \<in> set (queued (wd_sched v)) \<and> event_for (ready_events (states (wd_reactor v) d)) j
     \<or> (\<exists>i. takes (wd_sched v) i d \<and> event_for (wd_events v i) j)"

definition sock_ok :: "'w setting \<Rightarrow> epoll_reactor \<Rightarrow> int \<times> nat \<Rightarrow> bool" where
  "sock_ok S r = (\<lambda>(fd, d). descriptor (states r d) = fd \<and> \<not> ds_shutdown (states r d)
     \<and> length (op_queues (states r d)) = 3
     \<and> registered_events (states r d) AND EPOLLIN \<noteq> 0 \<and> registered_events (states r d) AND EPOLLPRI \<noteq> 0
     \<and> (\<forall>j < 3. \<forall>x \<in> set (op_queues (states r d) ! j). st_waits S x = (fd, j)))"

definition store_ok :: "'w setting \<Rightarrow> epoll_reactor \<Rightarrow> (int \<times> nat) list \<Rightarrow> bool" where
  "store_ok S r ss \<longleftrightarrow> (\<exists>L F. pool_is (pool r) L F \<and> snd ` set ss \<subseteq> set L) \<and> distinct (map snd ss)
     \<and> (\<forall>p \<in> set ss. sock_ok S r p) \<and> (\<forall>d. d \<notin> snd ` set ss \<longrightarrow> op_queues (states r d) = [[], [], []])"

definition kernel_ok :: "'w setting \<Rightarrow> 'w os \<Rightarrow> epoll_reactor \<Rightarrow> (int \<times> nat) list \<Rightarrow> (int \<times> nat) list \<Rightarrow> bool" where
  "kernel_ok S w r ss cl \<longleftrightarrow> distinct (map fst (ss @ cl))
     \<and> (\<forall>(fd, d) \<in> set ss. st_interest S w fd = Some (registered_events (states r d), State_Data d))
     \<and> (\<forall>(fd, d) \<in> set cl. \<exists>m. st_interest S w fd = Some (m, State_Data d))
     \<and> (\<forall>fd m d. st_interest S w fd = Some (m, State_Data d) \<longrightarrow> (fd, d) \<in> set (ss @ cl))"

definition ops_ok :: "system \<Rightarrow> nat list \<Rightarrow> bool" where
  "ops_ok s W \<longleftrightarrow> distinct W \<and> (\<forall>x \<in> set W. Handler x \<notin> set (queued s)) \<and> length W \<le> held s"

definition heard :: "'w setting \<Rightarrow> 'w io_world \<Rightarrow> bool" where
  "heard S v \<longleftrightarrow> (\<forall>(fd, d) \<in> set (sockets v). \<forall>j < 3. op_queues (states (wd_reactor v) d) ! j \<noteq> [] \<longrightarrow>
     armed S (wd_os v) fd j \<and> (silent S (wd_os v) fd j \<longrightarrow> signalled v d j))"

definition io_ok :: "'w setting \<Rightarrow> int \<Rightarrow> 'w io_world \<Rightarrow> bool" where
  "io_ok S epfd v \<longleftrightarrow> epoll_fd (wd_reactor v) = epfd \<and> store_ok S (wd_reactor v) (sockets v)
     \<and> kernel_ok S (wd_os v) (wd_reactor v) (sockets v) (closing v)
     \<and> ops_ok (wd_sched v) (wd_waiting v) \<and> heard S v"

lemma io_okD:
  assumes "io_ok S epfd v"
  shows "epoll_fd (wd_reactor v) = epfd" "store_ok S (wd_reactor v) (sockets v)"
    "kernel_ok S (wd_os v) (wd_reactor v) (sockets v) (closing v)" "ops_ok (wd_sched v) (wd_waiting v)" "heard S v"
  using assms by (simp_all add: io_ok_def)

section \<open>Parts of it\<close>

lemma waiting_other:
  assumes "d \<notin> snd ` set ss" "\<And>e. e \<noteq> d \<Longrightarrow> op_queues (states r1 e) = op_queues (states r e)"
  shows "waiting_ops r1 ss = waiting_ops r ss"
proof -
  have "(\<lambda>(fd, d). concat (op_queues (states r1 d))) p = (\<lambda>(fd, d). concat (op_queues (states r d))) p"
    if "p \<in> set ss" for p
    using that assms(1) assms(2) [of "snd p"] by (force split: prod.split)
  then show ?thesis unfolding waiting_ops_def by (metis (no_types, lifting) map_cong)
qed

lemma waiting_split: "waiting_ops r (xs @ (fd, d) # ys) = waiting_ops r xs @ concat (op_queues (states r d)) @ waiting_ops r ys"
  by (simp add: waiting_ops_def)

lemma waiting_change:
  assumes "(fd, d) \<in> set ss" "distinct (map snd ss)" "\<And>e. e \<noteq> d \<Longrightarrow> op_queues (states r1 e) = op_queues (states r e)"
  shows "mset (waiting_ops r1 ss) + mset (concat (op_queues (states r d)))
    = mset (waiting_ops r ss) + mset (concat (op_queues (states r1 d)))"
    "mset (waiting_ops r1 (remove1 (fd, d) ss)) + mset (concat (op_queues (states r d))) = mset (waiting_ops r ss)"
proof -
  obtain xs ys where ss: "ss = xs @ (fd, d) # ys" "(fd, d) \<notin> set xs" using split_list_first [OF assms(1)] by blast
  have "d \<notin> snd ` set xs" "d \<notin> snd ` set ys" using assms(2) by (auto simp: ss)
  then have "waiting_ops r1 xs = waiting_ops r xs" "waiting_ops r1 ys = waiting_ops r ys"
    using waiting_other [OF _ assms(3)] by blast+
  then show "mset (waiting_ops r1 ss) + mset (concat (op_queues (states r d)))
      = mset (waiting_ops r ss) + mset (concat (op_queues (states r1 d)))"
    "mset (waiting_ops r1 (remove1 (fd, d) ss)) + mset (concat (op_queues (states r d))) = mset (waiting_ops r ss)"
    using ss(2) by (simp_all add: ss waiting_split remove1_append) (simp add: waiting_ops_def)
qed

text \<open>Operations leave the reactor for the scheduler.\<close>

lemma ops_ok_leave:
  assumes "ops_ok s W" "mset W = mset xs + mset W1" "held s \<le> held s1 + length xs"
    "\<And>x. Handler x \<in> set (queued s1) \<Longrightarrow> Handler x \<in> set (queued s) \<or> x \<in> set xs"
  shows "ops_ok s1 W1"
proof -
  have d: "distinct (xs @ W1)" using assms(1,2) by (metis mset_append mset_eq_imp_distinct_iff ops_ok_def)
  have "set W = set xs \<union> set W1" using assms(2) by (metis mset_append mset_eq_setD set_append)
  moreover have "length W = length xs + length W1" using assms(2) by (metis mset_append length_append size_mset)
  ultimately show ?thesis using d assms(1,3,4) by (auto simp: ops_ok_def)
qed

lemma ops_ok_enter:
  assumes "ops_ok s W" "mset W1 = add_mset x (mset W)" "held s1 = held s + 1" "x \<notin> set W" "Handler x \<notin> set (queued s)"
    "\<And>x. Handler x \<in> set (queued s1) \<Longrightarrow> Handler x \<in> set (queued s)"
  shows "ops_ok s1 W1"
proof -
  have d: "distinct W1" using assms(1,2,4) by (metis distinct.simps(2) mset.simps(2) mset_eq_imp_distinct_iff ops_ok_def)
  have "set W1 = insert x (set W)" using assms(2) by (metis set_mset_add_mset_insert set_mset_mset)
  moreover have "length W1 = Suc (length W)" using assms(2) by (metis size_add_mset size_mset)
  ultimately show ?thesis using d assms(1,3,5,6) by (auto simp: ops_ok_def)
qed

lemma ops_ok_same:
  "ops_ok s W \<Longrightarrow> length W \<le> held s1 \<Longrightarrow>
    (\<And>x. Handler x \<in> set (queued s1) \<Longrightarrow> Handler x \<in> set (queued s) \<or> x \<notin> set W) \<Longrightarrow> ops_ok s1 W"
  by (auto simp: ops_ok_def)

lemma signalled_mono:
  assumes "signalled v d j" "fetched v1 = fetched v"
    "Descriptor d \<in> set (queued (wd_sched v)) \<Longrightarrow> Descriptor d \<in> set (queued (wd_sched v1))"
    "ready_events (states (wd_reactor v1) d) = ready_events (states (wd_reactor v) d)"
    "\<And>i. takes (wd_sched v) i d \<Longrightarrow> takes (wd_sched v1) i d \<and> wd_events v1 i = wd_events v i"
  shows "signalled v1 d j"
  using assms unfolding signalled_def by metis

lemma heard_mono:
  assumes "heard S v" "wd_reactor v1 = wd_reactor v" "wd_os v1 = wd_os v" "sockets v1 = sockets v"
    "\<And>d j. signalled v d j \<Longrightarrow> signalled v1 d j"
  shows "heard S v1"
  using assms unfolding heard_def by fastforce

lemma signalled_adds:
  assumes "signalled v d j" "adds xs {} (wd_sched v) (wd_sched v1)" "fetched v1 = fetched v" "wd_events v1 = wd_events v"
    "ready_events (states (wd_reactor v1) d) = ready_events (states (wd_reactor v) d)"
  shows "signalled v1 d j"
  using assms(1) by (rule signalled_mono) (use assms in \<open>auto simp: adds_queued intro: adds_takes\<close>)

text \<open>A call that touches only the scheduler.\<close>

lemma io_ok_call:
  assumes "io_ok S epfd v" "adds xs {} (wd_sched v) s1" "length (wd_waiting v) \<le> held s1"
    "\<And>x. Handler x \<in> set xs \<Longrightarrow> x \<notin> set (wd_waiting v)"
  shows "io_ok S epfd (v\<lparr>wd_sched := s1\<rparr>)"
proof -
  have "heard S (v\<lparr>wd_sched := s1\<rparr>)"
    using io_okD(5) [OF assms(1)] by (rule heard_mono) (use assms(2) in \<open>auto elim!: signalled_adds\<close>)
  moreover have "ops_ok s1 (wd_waiting v)"
    using io_okD(4) [OF assms(1)] assms(3) by (rule ops_ok_same) (use assms(2,4) in \<open>auto simp: adds_queued\<close>)
  ultimately show ?thesis using assms(1) by (simp add: io_ok_def wd_waiting_def)
qed

section \<open>Steps of the scheduler\<close>

lemma io_ok_goes:
  assumes "io_ok S epfd v" "goes quiet i k (wd_sched v) = Some s1"
  shows "io_ok S epfd (v\<lparr>wd_sched := s1, wd_events := capture i s1 v\<rparr>)"
proof -
  let ?v = "v\<lparr>wd_sched := s1, wd_events := capture i s1 v\<rparr>" and ?s = "wd_sched v"
  note g = goes_goes_on [OF assms(2), unfolded goes_on_def]
  have kept: "ops_kept ?s s1" and held: "held ?s \<le> held s1" using g by auto
  have takes: "takes s1 n d \<and> capture i s1 v n = wd_events v n" if "takes ?s n d" for n d
  proof -
    from that obtain c where n: "n < length (threads ?s)" "place (threads ?s ! n) = In_Op c (Descriptor d) False"
      by (auto simp: takes_def)
    with kept have n1: "n < length (threads s1)" "place (threads s1 ! n) = In_Op c (Descriptor d) False"
      by (auto simp: ops_kept_def)
    have "capture i s1 v n = wd_events v n"
      using n n1 by (cases "n = i") (auto simp: capture_def split: place.split oper.split bool.split)
    with n1 show ?thesis by (auto simp: takes_def)
  qed
  have less: "queued_count x s1 \<le> queued_count x ?s" if "x \<noteq> Task_Operation" for x using g that by auto
  have queue: "Descriptor d \<in> set (queued s1) \<or> takes s1 i d \<and> capture i s1 v i = ready_events (states (wd_reactor v) d)"
    if "Descriptor d \<in> set (queued ?s)" for d
  proof (cases "Descriptor d \<in> set (queued s1)")
    case False
    then have "queued_count (Descriptor d) s1 \<noteq> queued_count (Descriptor d) ?s" using that by (simp add: queued_iff)
    with g obtain c y where y: "place (threads s1 ! i) = In_Op c y (is_handler y)"
      "\<forall>c x b. place (threads ?s ! i) \<noteq> In_Op c x b"
      "\<forall>x. x \<noteq> Task_Operation \<longrightarrow> queued_count x s1 = queued_count x ?s - (if x = y then 1 else 0)"
      by auto
    then have "y = Descriptor d" using \<open>queued_count (Descriptor d) s1 \<noteq> _\<close> by (metis diff_0_right oper.distinct(1))
    with y have "place (threads s1 ! i) = In_Op c (Descriptor d) False"
      "\<forall>c x b. place (threads ?s ! i) \<noteq> In_Op c x b" by simp_all
    moreover have "i < length (threads s1)" using assms(2) kept by (auto simp: goes_def ops_kept_def split: if_splits)
    ultimately show ?thesis by (auto simp: takes_def capture_def)
  qed simp
  have "signalled ?v d j" if "signalled v d j" for d j
    using that takes [where d = d] queue [of d] unfolding signalled_def by simp metis
  then have "heard S ?v" using io_okD(5) [OF assms(1)] by (rule heard_mono [rotated -1]) simp_all
  moreover have "ops_ok s1 (wd_waiting v)"
  proof (rule ops_ok_same [OF io_okD(4) [OF assms(1)]])
    show "length (wd_waiting v) \<le> held s1" using held io_okD(4) [OF assms(1)] by (simp add: ops_ok_def)
    fix x assume "Handler x \<in> set (queued s1)"
    with less [of "Handler x"] show "Handler x \<in> set (queued ?s) \<or> x \<notin> set (wd_waiting v)" by (simp add: queued_iff)
  qed
  ultimately show ?thesis using assms(1) by (simp add: io_ok_def wd_waiting_def)
qed

lemma ops_ok_length: "io_ok S epfd v \<Longrightarrow> length (wd_waiting v) \<le> held (wd_sched v)"
  by (simp add: io_ok_def ops_ok_def)

lemma fresh_handler: "fresh_op x v \<Longrightarrow> fresh_handlers [Handler x] (wd_sched v)"
  by (simp add: fresh_op_def fresh_handlers_def)

lemma fresh_handler_list: "distinct xs \<Longrightarrow> \<forall>x \<in> set xs. fresh_op x v \<Longrightarrow> fresh_handlers (map Handler xs) (wd_sched v)"
  by (auto simp: fresh_op_def fresh_handlers_def distinct_map inj_on_def list_all_iff)

text \<open>Each step of the whole is one of the scheduler, or two, or none.\<close>

lemma reachable_post:
  "reachable quiet s \<Longrightarrow> caller_at i s \<Longrightarrow> fresh_handlers [x] s \<Longrightarrow> reachable quiet (post_immediate_completion i x k s)"
  by (rule reachable.step [OF _ step.post])

lemma reachable_deferred:
  "reachable quiet s \<Longrightarrow> caller_at i s \<Longrightarrow> fresh_handlers os s \<Longrightarrow> length os \<le> held s \<Longrightarrow>
    reachable quiet (post_deferred_completions i os (s\<lparr>held := held s - length os\<rparr>))"
  by (rule reachable.step [OF _ step.post_deferred])

lemma reachable_count:
  assumes "reachable quiet s" "caller_at i s"
  shows "reachable quiet ((work_started s)\<lparr>held := held s + 1\<rparr>)"
proof -
  have at: "i < length (threads s)" "todo (threads s ! i) = []" using assms(2) by (simp_all add: caller_at_def)
  let ?s = "call_act i (Start_Work True) s"
  have r: "reachable quiet ?s" by (rule reachable.step [OF assms(1) step.keep_work [OF assms(2)]])
  have t: "i < length (threads ?s)" "todo (threads ?s ! i) = [Start_Work True]" using at by (simp_all add: call_act_def)
  have "waiter_ok w ?s = waiter_ok w s" for w by (rule waiter_ok_cong) (simp add: call_act_def)
  moreover obtain w where "waiter_ok w s"
    unfolding waiter_ok_def by (metis in_set_conv_nth)
  ultimately have "reachable quiet (do_act w i (Start_Work True) (on_thread i (todo_update (\<lambda>_. [])) ?s))"
    using reachable.step [OF r step.act [OF t]] by blast
  moreover have "on_thread i (todo_update (\<lambda>_. [])) ?s = s"
  proof -
    have t: "(threads s ! i)\<lparr>todo := []\<rparr> = threads s ! i" using at by (cases "threads s ! i") simp
    have "(threads s)[i := (threads s ! i)\<lparr>todo := []\<rparr>] = threads s" unfolding t by simp
    with at show ?thesis by (simp add: call_act_def on_thread_def)
  qed
  ultimately show ?thesis by simp
qed

section \<open>Steps of the reactor\<close>

text \<open>A socket's descriptor names it and the other way round.\<close>

lemma kernel_sock:
  assumes "kernel_ok S w r ss cl" "(fd, d) \<in> set ss"
  shows "st_interest S w fd = Some (registered_events (states r d), State_Data d)"
    "(fd, e) \<in> set (ss @ cl) \<Longrightarrow> e = d" "(fd, e) \<notin> set cl"
proof -
  show i: "st_interest S w fd = Some (registered_events (states r d), State_Data d)"
    using assms by (auto simp: kernel_ok_def)
  show "e = d" if "(fd, e) \<in> set (ss @ cl)"
    using that i assms(1) by (auto simp: kernel_ok_def)
  show "(fd, e) \<notin> set cl" using assms by (force simp: kernel_ok_def)
qed

lemma sock_ok_cong: "states r1 d = states r d \<Longrightarrow> sock_ok S r1 (fd, d) = sock_ok S r (fd, d)"
  by (simp add: sock_ok_def)

lemma store_sock:
  assumes "store_ok S r ss" "(fd, d) \<in> set ss"
  shows "sock_ok S r (fd, d)" "d \<in> snd ` set ss" "(fd', d) \<in> set ss \<Longrightarrow> fd' = fd"
  using assms by (force simp: store_ok_def distinct_map inj_on_def)+

text \<open>A step that concerns one socket.\<close>

lemma io_ok_one:
  assumes ok: "io_ok S epfd v" and sock: "(fd, d) \<in> set (sockets v)"
    and r1: "pool r1 = pool (wd_reactor v)" "epoll_fd r1 = epoll_fd (wd_reactor v)"
      "\<And>e. e \<noteq> d \<Longrightarrow> states r1 e = states (wd_reactor v) e" "sock_ok S r1 (fd, d)"
    and w1: "edges_kept S {fd} (wd_os v) w1" "st_interest S w1 fd = Some (registered_events (states r1 d), State_Data d)"
    and ops: "ops_ok s1 (waiting_ops r1 (sockets v))"
    and others: "\<And>e j. e \<noteq> d \<Longrightarrow> signalled v e j \<Longrightarrow> signalled (v\<lparr>wd_sched := s1, wd_reactor := r1, wd_os := w1\<rparr>) e j"
    and own: "\<And>j. j < 3 \<Longrightarrow> op_queues (states r1 d) ! j \<noteq> [] \<Longrightarrow>
      armed S w1 fd j \<and> (silent S w1 fd j \<longrightarrow> signalled (v\<lparr>wd_sched := s1, wd_reactor := r1, wd_os := w1\<rparr>) d j)"
  shows "io_ok S epfd (v\<lparr>wd_sched := s1, wd_reactor := r1, wd_os := w1\<rparr>)"
proof -
  let ?r = "wd_reactor v" and ?v = "v\<lparr>wd_sched := s1, wd_reactor := r1, wd_os := w1\<rparr>"
  note inv = io_okD [OF ok] and k = kernel_sock [OF io_okD(3) [OF ok] sock] and st = store_sock [OF io_okD(2) [OF ok] sock]
  have other: "g = fd \<longleftrightarrow> e = d" if "(g, e) \<in> set (sockets v)" for g e
  proof
    show "e = d" if "g = fd" using k(2) [of e] \<open>(g, e) \<in> set (sockets v)\<close> that by simp
    show "g = fd" if "e = d" using st(3) [of g] \<open>(g, e) \<in> set (sockets v)\<close> that by simp
  qed
  have "sock_ok S r1 p" if "p \<in> set (sockets v)" for p
  proof (cases p)
    case (Pair g e)
    with that inv(2) have "sock_ok S ?r (g, e)" by (simp add: store_ok_def)
    with Pair that other [of g e] r1(3,4) sock_ok_cong [of r1 e ?r S g] show ?thesis by (cases "e = d") simp_all
  qed
  moreover have "op_queues (states r1 e) = [[], [], []]" if "e \<notin> snd ` set (sockets v)" for e
    using that inv(2) r1(3) [of e] st(2) by (cases "e = d") (simp_all add: store_ok_def)
  ultimately have "store_ok S r1 (sockets v)" using inv(2) r1(1) by (simp add: store_ok_def)
  moreover have "kernel_ok S w1 r1 (sockets v) (closing v)"
  proof -
    have i: "st_interest S w1 g = st_interest S (wd_os v) g" if "g \<noteq> fd" for g using w1(1) that by (simp add: edges_keptD)
    have "st_interest S w1 g = Some (registered_events (states r1 e), State_Data e)" if "(g, e) \<in> set (sockets v)" for g e
      using that kernel_sock(1) [OF inv(3) that] w1(2) i [of g] r1(3) [of e] other [OF that] by (cases "e = d") simp_all
    moreover have "\<exists>m. st_interest S w1 g = Some (m, State_Data e)" if "(g, e) \<in> set (closing v)" for g e
    proof -
      have "g \<noteq> fd" using that k(3) by blast
      with that inv(3) i show ?thesis by (auto simp: kernel_ok_def)
    qed
    moreover have "(g, e) \<in> set (sockets v @ closing v)" if "st_interest S w1 g = Some (m, State_Data e)" for g m e
      using that w1(2) i [of g] inv(3) sock by (cases "g = fd") (auto simp: kernel_ok_def)
    ultimately show ?thesis using inv(3) by (auto simp: kernel_ok_def)
  qed
  moreover have "heard S ?v"
    unfolding heard_def
  proof (intro ballI, clarify)
    fix g e j
    assume g: "(g, e) \<in> set (sockets ?v)" "j < (3 :: nat)" "op_queues (states (wd_reactor ?v) e) ! j \<noteq> []"
    show "armed S (wd_os ?v) g j \<and> (silent S (wd_os ?v) g j \<longrightarrow> signalled ?v e j)"
    proof (cases "e = d")
      case True
      with g other [of g e] own [of j] show ?thesis by simp
    next
      case False
      with g other [of g e] have "g \<notin> {fd}" by simp
      note e = edges_keptD [OF w1(1) this]
      have "armed S (wd_os v) g j \<and> (silent S (wd_os v) g j \<longrightarrow> signalled v e j)"
        using inv(5) g False r1(3) [of e] by (auto simp: heard_def)
      with e(2) [of j] e(3) [of j] others [OF False] show ?thesis by auto
    qed
  qed
  ultimately show ?thesis using inv(1) r1(2) ops by (simp add: io_ok_def wd_waiting_def)
qed

lemma sock_simps:
  "sock_ok S r (fd, d) \<Longrightarrow> length (op_queues (states r d)) = 3"
  "sock_ok S r (fd, d) \<Longrightarrow> \<not> ds_shutdown (states r d)"
  "sock_ok S r (fd, d) \<Longrightarrow> registered_events (states r d) AND EPOLLIN \<noteq> 0"
  "sock_ok S r (fd, d) \<Longrightarrow> registered_events (states r d) AND EPOLLPRI \<noteq> 0"
  by (simp_all add: sock_ok_def)

lemma heard_sock:
  "heard S v \<Longrightarrow> (fd, d) \<in> set (sockets v) \<Longrightarrow> j < 3 \<Longrightarrow> op_queues (states (wd_reactor v) d) ! j \<noteq> [] \<Longrightarrow>
    armed S (wd_os v) fd j \<and> (silent S (wd_os v) fd j \<longrightarrow> signalled v d j)"
  by (auto simp: heard_def)

lemma armed_flag:
  "kernel_ok S w r ss cl \<Longrightarrow> (fd, d) \<in> set ss \<Longrightarrow> armed S w fd j \<Longrightarrow> registered_events (states r d) AND ops_flag j \<noteq> 0"
  using kernel_sock(1) [of S w r ss cl fd d] by (simp add: armed_def)

lemma mset_push: "j < length Q \<Longrightarrow> mset (concat (Q[j := Q ! j @ [x]])) = add_mset x (mset (concat Q))"
  by (induction Q arbitrary: j) (auto split: nat.splits)

context edge_laws
begin

lemma io_ok_start:
  assumes ok: "io_ok S epfd v" and c: "caller_at i (wd_sched v)" and sock: "(fd, d) \<in> set (sockets v)"
    and x: "fresh_op x v" "op_type < max_ops" "st_waits S x = (fd, op_type)"
    and nf: "\<not> unnoticed_failure (st_kernel S) op_type fd d spec (wd_reactor v) (wd_os v)"
    and r: "reactor_start_op (st_kernel S) (st_perform S) op_type fd (Some d) x k spec (wd_reactor v) (wd_os v) = (calls, r1, w1)"
  shows "io_ok S epfd (v\<lparr>wd_sched := count_or_post i calls (wd_sched v), wd_reactor := r1, wd_os := w1\<rparr>)"
proof -
  let ?r = "wd_reactor v" and ?w = "wd_os v" and ?s = "wd_sched v"
  note inv = io_okD [OF ok] and sk = store_sock(1) [OF io_okD(2) [OF ok] sock]
    and ks = kernel_sock(1) [OF io_okD(3) [OF ok] sock]
  have at: "i < length (threads ?s)" using c by (simp add: caller_at_def)
  have j: "op_type < 3" using x(2) by (simp add: max_ops_def)
  have "op_queues (states ?r d) ! op_type \<noteq> [] \<longrightarrow> registered_events (states ?r d) AND ops_flag op_type \<noteq> 0"
    using heard_sock [OF inv(5) sock j] armed_flag [OF inv(3) sock] by blast
  note start = start_works [OF r inv(1) ks sock_simps(2) [OF sk] x(3) j sock_simps(3) [OF sk] sock_simps(4) [OF sk] this nf]
  show ?thesis
  proof (rule disjE [OF start], goal_cases)
    case 1
    then have calls: "calls = [Post_Immediate x k]" and st: "states r1 = states ?r" "pool r1 = pool ?r" "epoll_fd r1 = epoll_fd ?r"
      and e: "edges_kept S {} ?w w1" by simp_all
    let ?s1 = "post_immediate_completion i (Handler x) k ?s"
    have ad: "adds [Handler x] {} ?s ?s1" by (rule adds_post [OF at])
    let ?v = "v\<lparr>wd_sched := ?s1, wd_reactor := r1, wd_os := w1\<rparr>"
    have sig: "signalled ?v g j" if "signalled v g j" for g j
      by (rule signalled_adds [of v g j "[Handler x]" ?v]) (use that ad st in simp_all)
    have "io_ok S epfd ?v"
    proof (rule io_ok_one [OF ok sock st(2,3)])
      show "states r1 e = states ?r e" for e by (simp add: st)
      show "sock_ok S r1 (fd, d)" using sk by (simp add: st sock_ok_cong [of r1 d ?r])
      show "edges_kept S {fd} ?w w1" using e edges_kept_mono by blast
      show "st_interest S w1 fd = Some (registered_events (states r1 d), State_Data d)"
        using e ks by (simp add: st edges_keptD(1))
      have W: "waiting_ops r1 (sockets v) = wd_waiting v" by (simp add: waiting_ops_def wd_waiting_def st)
      show "ops_ok ?s1 (waiting_ops r1 (sockets v))"
        unfolding W
      proof (rule ops_ok_same [OF inv(4)])
        show "length (wd_waiting v) \<le> held ?s1" using ops_ok_length [OF ok] by simp
        show "Handler y \<in> set (queued ?s) \<or> y \<notin> set (wd_waiting v)" if "Handler y \<in> set (queued ?s1)" for y
          using that x(1) adds_queued [OF ad, of "Handler y"] by (auto simp: fresh_op_def)
      qed
      show "armed S w1 fd j \<and> (silent S w1 fd j \<longrightarrow> signalled ?v d j)"
        if "j < 3" "op_queues (states r1 d) ! j \<noteq> []" for j
        using heard_sock [OF inv(5) sock that(1)] that(2) sig [of d j] edges_keptD(2,3) [OF e, of fd j] by (auto simp: st)
    qed (rule sig)
    then show ?case by (simp add: calls count_or_post_def)
  next
    case 2
    then obtain ev where calls: "calls = [Work_Started]" and wn: "waits_now op_type d x ev ?r r1"
      and ev: "ev = registered_events (states ?r d) \<or> ev = registered_events (states ?r d) OR EPOLLOUT" "ev AND ops_flag op_type \<noteq> 0"
      and w1: "st_interest S w1 fd = Some (ev, State_Data d)" "edges_kept S {fd} ?w w1"
      and sil: "\<And>j. silent S w1 fd j \<Longrightarrow> silent S ?w fd j"
        "op_queues (states ?r d) ! op_type = [] \<Longrightarrow> \<not> silent S w1 fd op_type" by blast
    have q: "op_queues (states r1 d) = (op_queues (states ?r d))[op_type := op_queues (states ?r d) ! op_type @ [x]]"
      and st: "registered_events (states r1 d) = ev" "pool r1 = pool ?r" "epoll_fd r1 = epoll_fd ?r" "\<And>e. e \<noteq> d \<Longrightarrow> states r1 e = states ?r e"
        "\<And>e. ready_events (states r1 e) = ready_events (states ?r e)" "descriptor (states r1 d) = descriptor (states ?r d)"
        "ds_shutdown (states r1 d) = ds_shutdown (states ?r d)"
      using wn by (auto simp: waits_now_def push_op_def)
    let ?s1 = "(work_started ?s)\<lparr>held := held ?s + 1\<rparr>"
    have ad: "adds [] {} ?s ?s1" by (simp add: adds_work_started)
    let ?v = "v\<lparr>wd_sched := ?s1, wd_reactor := r1, wd_os := w1\<rparr>"
    have sig: "signalled ?v g j" if "signalled v g j" for g j
      by (rule signalled_adds [of v g j "[]" ?v]) (use that ad st in simp_all)
    have grow: "ev AND f \<noteq> 0" if "registered_events (states ?r d) AND f \<noteq> 0" for f
      using ev(1) that by (auto simp: or_and_zero)
    have len: "length (op_queues (states ?r d)) = 3" by (rule sock_simps [OF sk])
    have "io_ok S epfd ?v"
    proof (rule io_ok_one [OF ok sock st(2,3,4) _ w1(2)])
      have "st_waits S y = (fd, j)" if "j < 3" "y \<in> set (op_queues (states r1 d) ! j)" for j y
        using that sk len x(3) by (cases "j = op_type") (auto simp: q sock_ok_def)
      then show "sock_ok S r1 (fd, d)"
        using sk grow len by (simp add: sock_ok_def st q)
      show "st_interest S w1 fd = Some (registered_events (states r1 d), State_Data d)" using w1(1) by (simp add: st)
      have "mset (waiting_ops r1 (sockets v)) + mset (concat (op_queues (states ?r d)))
          = mset (wd_waiting v) + mset (concat (op_queues (states r1 d)))"
        unfolding wd_waiting_def using inv(2) st(4) by (intro waiting_change [OF sock]) (simp_all add: store_ok_def)
      moreover have "mset (concat (op_queues (states r1 d))) = add_mset x (mset (concat (op_queues (states ?r d))))"
        using len j by (simp add: q mset_push)
      ultimately have "mset (waiting_ops r1 (sockets v)) = add_mset x (mset (wd_waiting v))" by simp
      then show "ops_ok ?s1 (waiting_ops r1 (sockets v))"
      proof (rule ops_ok_enter [OF inv(4)])
        show "Handler y \<in> set (queued ?s)" if "Handler y \<in> set (queued ?s1)" for y
          using that adds_queued [OF ad, of "Handler y"] by simp
      qed (use x(1) in \<open>simp_all add: fresh_op_def\<close>)
      show "armed S w1 fd j \<and> (silent S w1 fd j \<longrightarrow> signalled ?v d j)"
        if jn: "j < 3" "op_queues (states r1 d) ! j \<noteq> []" for j
      proof (cases "op_queues (states ?r d) ! j = []")
        case True
        with jn(2) have "j = op_type" unfolding q by (metis nth_list_update_neq)
        with True ev(2) w1(1) sil(2) show ?thesis by (simp add: armed_def)
      next
        case False
        note h = heard_sock [OF inv(5) sock jn(1) False]
        then have "ev AND ops_flag j \<noteq> 0" using armed_flag [OF inv(3) sock] grow by blast
        with w1(1) h sil(1) sig show ?thesis by (auto simp: armed_def)
      qed
    qed (assumption, rule sig)
    then show ?case by (simp add: calls count_or_post_def)
  qed
qed

lemma io_ok_perform:
  assumes ok: "io_ok S epfd v" and at: "thread_at i (In_Op c (Descriptor d) False) (wd_sched v)"
    and p: "perform_io (st_perform S) (wd_events v i) d (wd_reactor v) (wd_os v) = (first_op, calls, r1, w1)"
    and s1: "s1 = (case first_op of None \<Rightarrow> perform_none i c (Descriptor d) (wd_sched v)
      | Some x \<Rightarrow> perform_some i c (map Handler (x # (case calls of [Post_Deferred xs] \<Rightarrow> xs | _ \<Rightarrow> []))) (wd_sched v))"
  shows "io_ok S epfd (v\<lparr>wd_sched := s1, wd_reactor := r1, wd_os := w1\<rparr>)"
    "\<exists>ops. s1 = (if ops = [] then perform_none i c (Descriptor d) (wd_sched v) else perform_some i c (map Handler ops) (wd_sched v))
      \<and> distinct ops \<and> set ops \<subseteq> set (wd_waiting v) \<and> length ops \<le> held (wd_sched v)"
proof -
  let ?r = "wd_reactor v" and ?w = "wd_os v" and ?s = "wd_sched v" and ?ev = "wd_events v i"
  note inv = io_okD [OF ok]
  have len: "length (op_queues (states ?r d)) = 3"
    using inv(2) by (cases "d \<in> snd ` set (sockets v)") (auto simp: store_ok_def sock_ok_def)
  obtain fd where fd: "(fd, d) \<in> set (sockets v) \<or> d \<notin> snd ` set (sockets v)" by force
  have waits: "st_waits S x = (fd, j)" if "j < 3" "x \<in> set (op_queues (states ?r d) ! j)" for j x
  proof (cases "(fd, d) \<in> set (sockets v)")
    case True
    with inv(2) that show ?thesis by (auto simp: store_ok_def sock_ok_def)
  next
    case False
    with fd inv(2) have "op_queues (states ?r d) = [[], [], []]" by (simp add: store_ok_def)
    with that show ?thesis by (auto simp: numeral_3_eq_3 less_Suc_eq)
  qed
  obtain ops where "performed S ?ev d fd {0, 1, 2} ?r ?w (ops, r1, w1)"
    and first: "first_op = (case ops of [] \<Rightarrow> None | x # xs \<Rightarrow> Some x)"
      "ops \<noteq> [] \<longrightarrow> (case calls of [Post_Deferred xs] \<Rightarrow> xs | _ \<Rightarrow> []) = tl ops"
    using perform_io_works [OF p len, of fd] waits by blast
  then obtain Q where Q: "requeued d Q ?r r1" "length Q = 3" "edges_kept S {} ?w w1"
    "mset (concat (op_queues (states ?r d))) = mset ops + mset (concat Q)"
    and sub_q: "\<forall>j < length Q. set (Q ! j) \<subseteq> set (op_queues (states ?r d) ! j)"
    and sil_q: "\<forall>j \<in> {0, 1, 2}. j < length Q \<longrightarrow> event_for ?ev j \<longrightarrow> Q ! j \<noteq> [] \<longrightarrow> \<not> silent S w1 fd j"
    unfolding performed_def len by blast
  have Q5: "set (Q ! j) \<subseteq> set (op_queues (states ?r d) ! j)" if "j < 3" for j using sub_q Q(2) that by simp
  have Q6: "\<not> silent S w1 fd j" if "j < 3" "event_for ?ev j" "Q ! j \<noteq> []" for j
  proof -
    have "j \<in> {0, 1, 2}" using that(1) by auto
    from bspec [OF sil_q this] Q(2) that show ?thesis by simp
  qed
  have st: "pool r1 = pool ?r" "epoll_fd r1 = epoll_fd ?r" "\<And>e. e \<noteq> d \<Longrightarrow> states r1 e = states ?r e"
    "op_queues (states r1 d) = Q" "\<And>e. ready_events (states r1 e) = ready_events (states ?r e)"
    "registered_events (states r1 d) = registered_events (states ?r d)"
    using Q(1) by (auto simp: requeued_def)
  have s1': "s1 = (if ops = [] then perform_none i c (Descriptor d) ?s else perform_some i c (map Handler ops) ?s)"
    using first by (cases ops) (auto simp: s1)
  have ad: "adds (map Handler (tl ops)) {i} ?s s1"
    using adds_perform [of i ?s] thread_atD [OF at] by (simp add: s1' map_tl)
  have mine: "e = d" if "takes ?s i e" for e using that thread_atD [OF at] by (auto simp: takes_def)
  let ?v = "v\<lparr>wd_sched := s1, wd_reactor := r1, wd_os := w1\<rparr>"
  have sig: "signalled ?v e j \<or> e = d \<and> event_for ?ev j" if "signalled v e j" for e j
  proof (cases "takes ?s i e \<and> event_for ?ev j")
    case True
    with mine show ?thesis by blast
  next
    case False
    from that [unfolded signalled_def] show ?thesis
    proof (elim disjE)
      assume "\<exists>n. takes ?s n e \<and> event_for (wd_events v n) j"
      then obtain n where n: "takes ?s n e" "event_for (wd_events v n) j" by blast
      with False have "n \<notin> {i}" by blast
      from adds_takes [OF ad this n(1)] n(2) show ?thesis unfolding signalled_def by auto
    next
      assume "Descriptor e \<in> set (queued ?s) \<and> event_for (ready_events (states ?r e)) j"
      with adds_queued [OF ad, of "Descriptor e"] show ?thesis unfolding signalled_def by (simp add: st)
    qed (auto simp: signalled_def)
  qed
  have dis: "distinct (map snd (sockets v))" using inv(2) by (simp add: store_ok_def)
  have W: "mset (wd_waiting v) = mset ops + mset (waiting_ops r1 (sockets v))"
  proof (cases "d \<in> snd ` set (sockets v)")
    case True
    with fd have "(fd, d) \<in> set (sockets v)" by blast
    from waiting_change(1) [OF this dis, of r1 ?r] st(3,4) Q(4) show ?thesis
      by (simp add: wd_waiting_def union_commute)
  next
    case False
    with inv(2) have "op_queues (states ?r d) = [[], [], []]" by (simp add: store_ok_def)
    with Q(4) have "ops = []" by simp
    moreover have "waiting_ops r1 (sockets v) = wd_waiting v"
      unfolding wd_waiting_def using st(3) by (intro waiting_other [OF False]) simp
    ultimately show ?thesis by simp
  qed
  have sub: "set ops \<subseteq> set (wd_waiting v)" using W by (metis mset_subset_eq_add_left set_mset_mono set_mset_mset)
  have dops: "distinct ops" using inv(4) W by (metis distinct_append mset_append mset_eq_imp_distinct_iff ops_ok_def)
  have lops: "length ops \<le> held ?s"
    using ops_ok_length [OF ok] arg_cong [OF W, of size] by simp
  show "\<exists>ops. s1 = (if ops = [] then perform_none i c (Descriptor d) ?s else perform_some i c (map Handler ops) ?s)
      \<and> distinct ops \<and> set ops \<subseteq> set (wd_waiting v) \<and> length ops \<le> held ?s"
    using s1' sub dops lops by blast
  have opsok: "ops_ok s1 (waiting_ops r1 (sockets v))"
  proof (rule ops_ok_leave [OF inv(4) W])
    show "held ?s \<le> held s1 + length ops" using lops by (simp add: s1')
    show "Handler x \<in> set (queued ?s) \<or> x \<in> set ops" if "Handler x \<in> set (queued s1)" for x
      using that adds_queued [OF ad, of "Handler x"] by (cases ops) auto
  qed
  show "io_ok S epfd ?v"
  proof (cases "d \<in> snd ` set (sockets v)")
    case True
    with fd have sock: "(fd, d) \<in> set (sockets v)" by blast
    note sk = store_sock(1) [OF inv(2) sock]
    show ?thesis
    proof (rule io_ok_one [OF ok sock st(1,2,3)])
      have "st_waits S x = (fd, j)" if "j < 3" "x \<in> set (Q ! j)" for j x using waits [of j x] Q5 [of j] that by auto
      then show "sock_ok S r1 (fd, d)" using sk Q(1,2) by (auto simp: sock_ok_def requeued_def)
      show "edges_kept S {fd} ?w w1" using Q(3) edges_kept_mono by blast
      show "st_interest S w1 fd = Some (registered_events (states r1 d), State_Data d)"
        using kernel_sock(1) [OF inv(3) sock] Q(3) by (simp add: st edges_keptD(1))
      show "armed S w1 fd j \<and> (silent S w1 fd j \<longrightarrow> signalled ?v d j)" if "j < 3" "op_queues (states r1 d) ! j \<noteq> []" for j
      proof -
        have "op_queues (states ?r d) ! j \<noteq> []" using Q5 [OF that(1)] that(2) by (auto simp: st)
        note h = heard_sock [OF inv(5) sock that(1) this]
        with edges_keptD(2,3) [OF Q(3), of fd j] sig [of d j] Q6 [of j] that show ?thesis by (auto simp: st)
      qed
    qed (use opsok sig in auto)
  next
    case False
    with inv(2) have q: "op_queues (states ?r d) = [[], [], []]" by (simp add: store_ok_def)
    have "concat Q = []" using Q(4) by (simp add: q)
    then have "\<forall>q \<in> set Q. q = []" by simp
    then have "Q = [[], [], []]" using Q(2) by (auto simp: numeral_3_eq_3 length_Suc_conv)
    with q have same: "states r1 e = states ?r e \<or> e = d" "op_queues (states r1 e) = op_queues (states ?r e)"
      "registered_events (states r1 e) = registered_events (states ?r e)" for e
      using st by (cases "e = d"; simp)+
    have "sock_ok S r1 p = sock_ok S ?r p" if "p \<in> set (sockets v)" for p
    proof (cases p)
      case (Pair g e)
      with that False have "e \<noteq> d" by force
      with same(1) [of e] have "states r1 e = states ?r e" by blast
      then show ?thesis unfolding Pair by (rule sock_ok_cong)
    qed
    then have socks: "(\<forall>p \<in> set (sockets v). sock_ok S r1 p) \<longleftrightarrow> (\<forall>p \<in> set (sockets v). sock_ok S ?r p)"
      by (rule ball_cong [OF refl])
    have "store_ok S r1 (sockets v)" using inv(2) unfolding store_ok_def socks same(2) st(1) .
    moreover have "kernel_ok S w1 r1 (sockets v) (closing v)"
      using inv(3) Q(3) same(3) by (simp add: kernel_ok_def edges_keptD(1))
    moreover have "heard S ?v"
      unfolding heard_def
    proof (intro ballI, clarify)
      fix g e j
      assume g: "(g, e) \<in> set (sockets ?v)" "j < (3 :: nat)" "op_queues (states (wd_reactor ?v) e) ! j \<noteq> []"
      then have "e \<noteq> d" using False by force
      with heard_sock [OF inv(5), of g e j] g sig [of e j] edges_keptD(2,3) [OF Q(3), of g j]
      show "armed S (wd_os ?v) g j \<and> (silent S (wd_os ?v) g j \<longrightarrow> signalled ?v e j)" by (auto simp: same(2))
    qed
    ultimately show ?thesis using inv(1) opsok st(2) by (simp add: io_ok_def wd_waiting_def)
  qed
qed

end

end
