(* ===== verification/Reactor_Composition.thy ===== *)
theory Reactor_Composition
  imports Reactor_Safety
begin

text \<open>
  The remaining steps of the reactor and the scheduler together: sockets that come and go, events that
  are fetched and handed to the scheduler, and changes of the kernel from outside. With them the
  invariant holds of every execution.
\<close>

section \<open>Reports\<close>

text \<open>The operations of a socket are heard if they were, up to events that are now on their way.\<close>

lemma heard_from:
  assumes "heard S v"
    and same: "\<And>fd d j. (fd, d) \<in> set (sockets v1) \<Longrightarrow> j < 3 \<Longrightarrow> op_queues (states (wd_reactor v1) d) ! j \<noteq> []
      \<Longrightarrow> (fd, d) \<in> set (sockets v) \<and> op_queues (states (wd_reactor v) d) ! j \<noteq> []
        \<and> st_interest S (wd_os v1) fd = st_interest S (wd_os v) fd
        \<and> (silent S (wd_os v1) fd j \<longrightarrow> silent S (wd_os v) fd j \<or> signalled v1 d j)"
    and sig: "\<And>fd d j. (fd, d) \<in> set (sockets v1) \<Longrightarrow> j < 3 \<Longrightarrow> op_queues (states (wd_reactor v1) d) ! j \<noteq> []
      \<Longrightarrow> signalled v d j \<Longrightarrow> signalled v1 d j"
  shows "heard S v1"
  unfolding heard_def
proof (intro ballI, clarify)
  fix fd d j
  assume a: "(fd, d) \<in> set (sockets v1)" "j < (3 :: nat)" "op_queues (states (wd_reactor v1) d) ! j \<noteq> []"
  note s = same [OF a]
  then have "armed S (wd_os v) fd j \<and> (silent S (wd_os v) fd j \<longrightarrow> signalled v d j)"
    using heard_sock [OF assms(1) _ a(2)] by blast
  with s sig [OF a] show "armed S (wd_os v1) fd j \<and> (silent S (wd_os v1) fd j \<longrightarrow> signalled v1 d j)"
    by (auto simp: armed_def)
qed

lemma signalled_other:
  assumes "signalled v e j" "adds xs {} (wd_sched v) s1" "states r1 e = states (wd_reactor v) e"
  shows "signalled (v\<lparr>wd_sched := s1, wd_reactor := r1, wd_os := w1, sockets := ss, closing := cl\<rparr>) e j"
  by (rule signalled_adds [OF assms(1)]) (use assms(2,3) in simp_all)

lemma post_aborted_works:
  assumes "caller_at i s"
  shows "adds (map Handler xs) {} s (post_aborted i [Post_Deferred xs] s)"
    "held (post_aborted i [Post_Deferred xs] s) = held s - length xs"
  using assms adds_deferred [of i "s\<lparr>held := held s - length xs\<rparr>" "map Handler xs" "{}"]
  by (simp_all add: post_aborted_def caller_at_def)

text \<open>The operations that leave the reactor are posted.\<close>

lemma ops_ok_aborted:
  assumes "ops_ok s W" "mset W = mset xs + mset W1" "caller_at i s"
  shows "ops_ok (post_aborted i [Post_Deferred xs] s) W1"
proof (rule ops_ok_leave [OF assms(1,2)])
  have "length xs \<le> length W" using arg_cong [OF assms(2), of size] by simp
  with assms(1) show "held s \<le> held (post_aborted i [Post_Deferred xs] s) + length xs"
    by (simp add: post_aborted_works(2) [OF assms(3)] ops_ok_def)
  show "Handler x \<in> set (queued s) \<or> x \<in> set xs" if "Handler x \<in> set (queued (post_aborted i [Post_Deferred xs] s))" for x
    using that adds_queued [OF post_aborted_works(1) [OF assms(3)], of "Handler x" xs] by auto
qed

text \<open>A reactor in which only the ready events differ.\<close>

definition same_but_ready :: "epoll_reactor \<Rightarrow> epoll_reactor \<Rightarrow> bool" where
  "same_but_ready r r1 \<longleftrightarrow> pool r1 = pool r \<and> epoll_fd r1 = epoll_fd r
     \<and> (\<forall>d. states r1 d = (states r d)\<lparr>ready_events := ready_events (states r1 d)\<rparr>)"

lemma same_states:
  assumes "same_but_ready r r1"
  shows "op_queues (states r1 d) = op_queues (states r d)" "registered_events (states r1 d) = registered_events (states r d)"
    "descriptor (states r1 d) = descriptor (states r d)" "ds_shutdown (states r1 d) = ds_shutdown (states r d)"
    "pool r1 = pool r" "epoll_fd r1 = epoll_fd r"
proof -
  have s: "states r1 d = (states r d)\<lparr>ready_events := ready_events (states r1 d)\<rparr>" using assms by (simp add: same_but_ready_def)
  show "op_queues (states r1 d) = op_queues (states r d)" "registered_events (states r1 d) = registered_events (states r d)"
    "descriptor (states r1 d) = descriptor (states r d)" "ds_shutdown (states r1 d) = ds_shutdown (states r d)"
    by (subst s, simp)+
  show "pool r1 = pool r" "epoll_fd r1 = epoll_fd r" using assms by (simp_all add: same_but_ready_def)
qed

lemma same_reactor:
  assumes "same_but_ready r r1"
  shows "store_ok S r1 ss = store_ok S r ss" "kernel_ok S w r1 ss cl = kernel_ok S w r ss cl" "waiting_ops r1 ss = waiting_ops r ss"
  by (simp_all add: store_ok_def kernel_ok_def waiting_ops_def sock_ok_def same_states [OF assms])

section \<open>Sockets\<close>

lemma distinct_map_remove1: "distinct (map f xs) \<Longrightarrow> distinct (map f (remove1 x xs))"
  using notin_set_remove1 by (induction xs) fastforce+

lemma io_ok_cancel:
  assumes ok: "io_ok S epfd v" and c: "caller_at i (wd_sched v)" and sock: "(fd, d) \<in> set (sockets v)"
    and r: "cancel_ops (Some d) (wd_reactor v) = (calls, r1)"
  shows "io_ok S epfd (v\<lparr>wd_sched := post_aborted i calls (wd_sched v), wd_reactor := r1\<rparr>)"
proof -
  let ?r = "wd_reactor v" and ?s = "wd_sched v" and ?xs = "concat (op_queues (states (wd_reactor v) d))"
  note inv = io_okD [OF ok] and sk = store_sock(1) [OF io_okD(2) [OF ok] sock] and cw = cancel_ops_works [OF r]
  let ?s1 = "post_aborted i [Post_Deferred ?xs] ?s"
  let ?v = "v\<lparr>wd_sched := ?s1, wd_reactor := r1, wd_os := wd_os v\<rparr>"
  have st: "pool r1 = pool ?r" "epoll_fd r1 = epoll_fd ?r" "\<And>e. e \<noteq> d \<Longrightarrow> states r1 e = states ?r e"
    "states r1 d = (states ?r d)\<lparr>op_queues := [[], [], []]\<rparr>"
    using cw by (auto simp: requeued_def)
  have "io_ok S epfd ?v"
  proof (rule io_ok_one [OF ok sock st(1,2,3)])
    show "sock_ok S r1 (fd, d)" using sk by (auto simp: sock_ok_def st(4) less_Suc_eq numeral_3_eq_3)
    show "st_interest S (wd_os v) fd = Some (registered_events (states r1 d), State_Data d)"
      using kernel_sock(1) [OF inv(3) sock] by (simp add: st(4))
    have "mset (waiting_ops r1 (sockets v)) + mset ?xs = mset (wd_waiting v) + mset (concat (op_queues (states r1 d)))"
      unfolding wd_waiting_def using inv(2) st(3) by (intro waiting_change [OF sock]) (simp_all add: store_ok_def)
    then have "mset (wd_waiting v) = mset ?xs + mset (waiting_ops r1 (sockets v))" by (simp add: st(4) union_commute)
    from ops_ok_aborted [OF inv(4) this c] show "ops_ok ?s1 (waiting_ops r1 (sockets v))" .
    show "signalled ?v e j" if "e \<noteq> d" "signalled v e j" for e j
      using signalled_adds [OF that(2) _ _ _ , of "map Handler ?xs" ?v] post_aborted_works(1) [OF c] st(3) [OF that(1)] by simp
    show "armed S (wd_os v) fd j \<and> (silent S (wd_os v) fd j \<longrightarrow> signalled ?v d j)"
      if "j < 3" "op_queues (states r1 d) ! j \<noteq> []" for j
      using that by (auto simp: st(4) less_Suc_eq numeral_3_eq_3)
  qed simp_all
  then show ?thesis using cw by simp
qed

lemma io_ok_deregister:
  assumes laws: "edge_laws S epfd"
    and ok: "io_ok S epfd v" and c: "caller_at i (wd_sched v)" and sock: "(fd, d) \<in> set (sockets v)"
    and r: "deregister_descriptor (st_kernel S) fd (Some d) is_closing (wd_reactor v) (wd_os v) = (calls, data, r1, w1)"
  shows "io_ok S epfd (v\<lparr>wd_sched := post_aborted i calls (wd_sched v), wd_reactor := r1, wd_os := w1,
    sockets := remove1 (fd, d) (sockets v), closing := (if is_closing then (fd, d) # closing v else closing v)\<rparr>)"
proof -
  let ?r = "wd_reactor v" and ?s = "wd_sched v" and ?xs = "concat (op_queues (states (wd_reactor v) d))"
  let ?ss = "remove1 (fd, d) (sockets v)" and ?cl = "if is_closing then (fd, d) # closing v else closing v"
  note inv = io_okD [OF ok] and k = kernel_sock [OF io_okD(3) [OF ok] sock]
    and st = deregister_works [OF r sock_simps(2) [OF store_sock(1) [OF io_okD(2) [OF ok] sock]]]
  let ?s1 = "post_aborted i [Post_Deferred ?xs] ?s"
  let ?v = "v\<lparr>wd_sched := ?s1, wd_reactor := r1, wd_os := w1, sockets := ?ss, closing := ?cl\<rparr>"
  have dist: "distinct (map snd (sockets v))" "distinct (map fst (sockets v @ closing v))"
    using inv(2,3) by (simp_all add: store_ok_def kernel_ok_def)
  then have ds: "distinct (sockets v)" by (simp add: distinct_map)
  then have mem: "p \<in> set ?ss \<longleftrightarrow> p \<in> set (sockets v) \<and> p \<noteq> (fd, d)" for p by simp
  have other: "e \<noteq> d \<and> g \<noteq> fd" if "(g, e) \<in> set ?ss" for g e
  proof -
    have ge: "(g, e) \<in> set (sockets v)" "(g, e) \<noteq> (fd, d)" using that by (simp_all add: mem)
    have "e \<noteq> d" using store_sock(3) [OF inv(2) sock, of g] ge by blast
    moreover have "g \<noteq> fd" using k(2) [of e] ge \<open>e \<noteq> d\<close> by auto
    ultimately show ?thesis ..
  qed
  have queues: "op_queues (states r1 e) = (if e = d then [[], [], []] else op_queues (states ?r e))" for e using st(4,5) by simp
  have kern: "st_interest S w1 g = st_interest S (wd_os v) g" "silent S w1 g j \<Longrightarrow> silent S (wd_os v) g j" if "g \<noteq> fd" for g j
    using edge_laws.delete [OF laws, of fd "(0, Null_Data)" "wd_os v" "fst (ek_epoll_ctl (st_kernel S) epfd EPOLL_CTL_DEL fd (0, Null_Data) (wd_os v))"
        "snd (ek_epoll_ctl (st_kernel S) epfd EPOLL_CTL_DEL fd (0, Null_Data) (wd_os v))"] st(6) inv(1) that
    by (auto simp: edges_keptD split: if_splits)
  have fd: "st_interest S w1 fd = (if is_closing then st_interest S (wd_os v) fd else None)"
    using edge_laws.delete [OF laws, of fd "(0, Null_Data)" "wd_os v" "fst (ek_epoll_ctl (st_kernel S) epfd EPOLL_CTL_DEL fd (0, Null_Data) (wd_os v))"
        "snd (ek_epoll_ctl (st_kernel S) epfd EPOLL_CTL_DEL fd (0, Null_Data) (wd_os v))"] st(6) inv(1)
    by simp
  have "store_ok S r1 ?ss"
  proof -
    obtain L F where p: "pool_is (pool ?r) L F" "snd ` set (sockets v) \<subseteq> set L" using inv(2) by (auto simp: store_ok_def)
    have "d \<in> set L" using p(2) store_sock(2) [OF inv(2) sock] by blast
    with p(1) have "pool_is (pool r1) (remove1 d L) (d # F)" by (simp add: st(3) pool_free_is)
    moreover have "snd ` set ?ss \<subseteq> set (remove1 d L)"
    proof
      fix e assume "e \<in> snd ` set ?ss"
      then obtain g where g: "(g, e) \<in> set ?ss" by force
      with p(2) have "e \<in> set L" by (force simp: mem)
      with other [OF g] p(1) show "e \<in> set (remove1 d L)" by (simp add: pool_is_def)
    qed
    moreover have "distinct (map snd ?ss)" using dist(1) by (rule distinct_map_remove1)
    moreover have "sock_ok S r1 p" if "p \<in> set ?ss" for p
    proof (cases p)
      case (Pair g e)
      with that other have "states r1 e = states ?r e" using st(5) by blast
      moreover have "sock_ok S ?r (g, e)" using store_sock(1) [OF inv(2)] that Pair by (simp add: mem)
      ultimately show ?thesis by (simp add: Pair sock_ok_cong [of r1 e ?r])
    qed
    moreover have "op_queues (states r1 e) = [[], [], []]" if "e \<notin> snd ` set ?ss" for e
    proof (cases "e = d")
      case False
      with that have "e \<notin> snd ` set (sockets v)" by (force simp: mem)
      with inv(2) False show ?thesis by (simp add: queues store_ok_def)
    qed (simp add: queues)
    ultimately show ?thesis unfolding store_ok_def by blast
  qed
  moreover have "kernel_ok S w1 r1 ?ss ?cl"
  proof -
    have "distinct (map fst (?ss @ ?cl))"
    proof -
      have "distinct (map fst ?ss)" using dist(2) by (intro distinct_map_remove1) simp
      moreover have "fd \<notin> fst ` set ?ss"
      proof
        assume "fd \<in> fst ` set ?ss"
        then obtain e where "(fd, e) \<in> set ?ss" by force
        from other [OF this] show False by simp
      qed
      moreover have "fd \<notin> fst ` set (closing v)" using dist(2) sock by force
      moreover have "fst ` set ?ss \<inter> fst ` set (closing v) = {}"
      proof -
        have "fst ` set ?ss \<subseteq> fst ` set (sockets v)" using mem by blast
        with dist(2) show ?thesis by auto
      qed
      ultimately show ?thesis using dist(2) by auto
    qed
    moreover have "st_interest S w1 g = Some (registered_events (states r1 e), State_Data e)" if "(g, e) \<in> set ?ss" for g e
      using kernel_sock(1) [OF inv(3)] that other [OF that] kern(1) st(5) by (simp add: mem)
    moreover have "\<exists>m. st_interest S w1 g = Some (m, State_Data e)" if "(g, e) \<in> set ?cl" for g e
    proof (cases "g = fd")
      case True
      with that k(3) have "is_closing" "e = d" by (auto split: if_splits)
      with True k(1) fd show ?thesis by simp
    next
      case False
      with that have "(g, e) \<in> set (closing v)" by (auto split: if_splits)
      with inv(3) kern(1) [OF False] show ?thesis by (auto simp: kernel_ok_def)
    qed
    moreover have "(g, e) \<in> set (?ss @ ?cl)" if "st_interest S w1 g = Some (m, State_Data e)" for g m e
    proof (cases "g = fd")
      case True
      with that fd k(1) have "is_closing" "e = d" by (auto split: if_splits)
      with True show ?thesis by simp
    next
      case False
      with that kern(1) inv(3) have "(g, e) \<in> set (sockets v @ closing v)" by (auto simp: kernel_ok_def)
      with False show ?thesis by (auto simp: mem)
    qed
    ultimately show ?thesis unfolding kernel_ok_def by blast
  qed
  moreover have "ops_ok ?s1 (waiting_ops r1 ?ss)"
  proof (rule ops_ok_aborted [OF inv(4) _ c])
    have "mset (waiting_ops r1 ?ss) + mset ?xs = mset (wd_waiting v)"
      unfolding wd_waiting_def using dist(1) st(5) by (intro waiting_change(2) [OF sock]) simp_all
    then show "mset (wd_waiting v) = mset ?xs + mset (waiting_ops r1 ?ss)" by (simp add: union_commute)
  qed
  moreover have "heard S ?v"
  proof (rule heard_from [OF inv(5)])
    fix g e j
    assume "(g, e) \<in> set (sockets ?v)"
    then have a: "(g, e) \<in> set ?ss" by simp
    have ge: "e \<noteq> d" "g \<noteq> fd" using other [OF a] by blast+
    show "signalled ?v e j" if "signalled v e j"
      using signalled_other [OF that post_aborted_works(1) [OF c] st(5) [OF ge(1)]] .
    show "(g, e) \<in> set (sockets v) \<and> op_queues (states ?r e) ! j \<noteq> []
        \<and> st_interest S (wd_os ?v) g = st_interest S (wd_os v) g
        \<and> (silent S (wd_os ?v) g j \<longrightarrow> silent S (wd_os v) g j \<or> signalled ?v e j)"
      if "op_queues (states (wd_reactor ?v) e) ! j \<noteq> []"
      using a that ge kern [OF ge(2)] by (simp add: mem queues)
  qed
  ultimately show ?thesis using inv(1) st(1,2) by (simp add: io_ok_def wd_waiting_def)
qed

lemma descriptor_events_flags: "descriptor_events AND EPOLLIN \<noteq> 0" "descriptor_events AND EPOLLPRI \<noteq> 0"
  by (simp_all add: descriptor_events_def EPOLLIN_def EPOLLPRI_def EPOLLERR_def EPOLLHUP_def EPOLLET_def)

text \<open>The kernel does not know the descriptor of a new socket, and no other socket has its state.\<close>

lemma io_ok_register:
  assumes laws: "edge_laws S epfd" and ok: "io_ok S epfd v"
    and p: "pool_is (pool (wd_reactor v)) L F" "fst created \<notin> set L \<union> set F"
    and r: "register_descriptor (st_kernel S) fd created (wd_reactor v) (wd_os v) = ((err, d), r1, w1)"
  shows "io_ok S epfd (v\<lparr>wd_reactor := r1, wd_os := w1, sockets := (if err = 0 then (fd, d) # sockets v else sockets v)\<rparr>)"
proof -
  let ?r = "wd_reactor v" and ?ss = "if err = 0 then (fd, d) # sockets v else sockets v"
  let ?v = "v\<lparr>wd_reactor := r1, wd_os := w1, sockets := ?ss\<rparr>"
  note inv = io_okD [OF ok] and st = register_works [OF r p]
  obtain L1 F1 where "pool_is (pool ?r) L1 F1" "snd ` set (sockets v) \<subseteq> set L1" using inv(2) by (auto simp: store_ok_def)
  with pool_is_unique [OF p(1)] have sub: "snd ` set (sockets v) \<subseteq> set L" by blast
  then have new: "d \<notin> snd ` set (sockets v)" using st(1) by blast
  then have "op_queues (states ?r d) = [[], [], []]" using inv(2) by (simp add: store_ok_def)
  then have queue: "op_queues (states r1 e) = op_queues (states ?r e)" "d = e \<Longrightarrow> op_queues (states r1 e) = [[], [], []]" for e
    using st(4) [of e] st(8) by (cases "e = d"; auto)+
  have old: "e \<noteq> d" if "(g, e) \<in> set (sockets v)" for g e using that new by force
  obtain result where res: "ek_epoll_ctl (st_kernel S) epfd EPOLL_CTL_ADD fd (descriptor_events, State_Data d) (wd_os v) = (result, w1)"
    "err = (if result \<noteq> 0 then errno w1 else 0)" using st(9) inv(1) by auto
  have bad: "err \<noteq> 0 \<and> edges_kept S {} (wd_os v) w1" if "result \<noteq> 0"
    using edge_laws.ctl_fails [OF laws res(1) that] res(2) that by simp
  have good: "st_interest S (wd_os v) fd = None \<and> st_interest S w1 fd = Some (descriptor_events, State_Data d)
      \<and> edges_kept S {fd} (wd_os v) w1" if "err = 0"
  proof -
    have "result = 0" using that bad by blast
    with res(1) edge_laws.add [OF laws, of fd "(descriptor_events, State_Data d)" "wd_os v" w1] show ?thesis by simp
  qed
  have known: "g \<noteq> fd" if "err = 0" "(g, e) \<in> set (sockets v @ closing v)" for g e
  proof -
    have "st_interest S (wd_os v) g \<noteq> None" using that(2) inv(3) by (auto simp: kernel_ok_def)
    with good [OF that(1)] show ?thesis by auto
  qed
  have kern: "edges_kept S (if err = 0 then {fd} else {}) (wd_os v) w1" using good bad res by (cases "result = 0") auto
  have same: "st_interest S w1 g = st_interest S (wd_os v) g" "silent S w1 g j \<Longrightarrow> silent S (wd_os v) g j"
    if "err = 0 \<longrightarrow> g \<noteq> fd" for g j using edges_keptD(1,2) [OF kern] that by (auto split: if_splits)
  have "store_ok S r1 ?ss"
  proof -
    have "snd ` set ?ss \<subseteq> set (d # L)" using sub by auto
    moreover have "distinct (map snd ?ss)" using inv(2) new by (auto simp: store_ok_def)
    moreover have "sock_ok S r1 q" if "q \<in> set ?ss" for q
    proof (cases "q = (fd, d) \<and> err = 0")
      case True
      then show ?thesis using st(5,6,7) queue(2) [of d]
        by (auto simp: sock_ok_def descriptor_events_flags less_Suc_eq numeral_3_eq_3)
    next
      case False
      with that obtain g e where q: "q = (g, e)" "(g, e) \<in> set (sockets v)" by (metis prod.exhaust set_ConsD)
      have "states r1 e = states ?r e" using st(4) old [OF q(2)] by blast
      then show ?thesis using store_sock(1) [OF inv(2) q(2)] by (simp add: q sock_ok_cong [of r1 e ?r])
    qed
    moreover have "op_queues (states r1 e) = [[], [], []]" if "e \<notin> snd ` set ?ss" for e
      using that inv(2) queue(1) by (auto simp: store_ok_def split: if_splits)
    ultimately show ?thesis unfolding store_ok_def using st(2) by blast
  qed
  moreover have "kernel_ok S w1 r1 ?ss (closing v)"
  proof -
    have "fd \<notin> fst ` set (sockets v @ closing v)" if "err = 0"
    proof
      assume "fd \<in> fst ` set (sockets v @ closing v)"
      then obtain e where "(fd, e) \<in> set (sockets v @ closing v)" by force
      from known [OF that this] show False by simp
    qed
    then have "distinct (map fst (?ss @ closing v))" using inv(3) by (auto simp: kernel_ok_def)
    moreover have "st_interest S w1 g = Some (registered_events (states r1 e), State_Data e)" if "(g, e) \<in> set ?ss" for g e
    proof (cases "(g, e) = (fd, d) \<and> err = 0")
      case True
      then show ?thesis using good st(7) by simp
    next
      case False
      with that have s: "(g, e) \<in> set (sockets v)" by (auto split: if_splits)
      then show ?thesis using kernel_sock(1) [OF inv(3) s] same(1) [of g] known [of g e] st(4) [OF old [OF s]] by auto
    qed
    moreover have "\<exists>m. st_interest S w1 g = Some (m, State_Data e)" if "(g, e) \<in> set (closing v)" for g e
      using that inv(3) same(1) [of g] known [of g e] by (auto simp: kernel_ok_def)
    moreover have "(g, e) \<in> set (?ss @ closing v)" if "st_interest S w1 g = Some (m, State_Data e)" for g m e
    proof (cases "err = 0 \<and> g = fd")
      case True
      with good that show ?thesis by simp
    next
      case False
      with same(1) [of g] that have "st_interest S (wd_os v) g = Some (m, State_Data e)" by simp
      with inv(3) have "(g, e) \<in> set (sockets v @ closing v)" unfolding kernel_ok_def by blast
      then show ?thesis by auto
    qed
    ultimately show ?thesis unfolding kernel_ok_def by blast
  qed
  moreover have "waiting_ops r1 ?ss = wd_waiting v"
  proof -
    have "waiting_ops r1 (sockets v) = wd_waiting v" by (simp add: waiting_ops_def wd_waiting_def queue(1))
    then show ?thesis using queue(2) [of d] by (simp add: waiting_ops_def)
  qed
  moreover have "heard S ?v"
  proof (rule heard_from [OF inv(5)])
    fix g e j
    assume a: "(g, e) \<in> set (sockets ?v)" "op_queues (states (wd_reactor ?v) e) ! j \<noteq> []" "j < (3 :: nat)"
    have s: "(g, e) \<in> set (sockets v)"
    proof (rule ccontr)
      assume "(g, e) \<notin> set (sockets v)"
      with a(1) have "e = d" by (auto split: if_splits)
      with a(2,3) queue(2) [of e] show False by (auto simp: less_Suc_eq numeral_3_eq_3)
    qed
    then have "err = 0 \<longrightarrow> g \<noteq> fd" using known [of g e] by simp
    with s a(2) same [of g] show "(g, e) \<in> set (sockets v) \<and> op_queues (states ?r e) ! j \<noteq> []
        \<and> st_interest S (wd_os ?v) g = st_interest S (wd_os v) g
        \<and> (silent S (wd_os ?v) g j \<longrightarrow> silent S (wd_os v) g j \<or> signalled ?v e j)"
      by (simp add: queue(1))
    show "signalled ?v e j" if "signalled v e j"
      using that by (rule signalled_mono) (simp_all add: st(4) [OF old [OF s]])
  qed
  ultimately show ?thesis using inv(1,4) st(3) by (simp add: io_ok_def wd_waiting_def)
qed

section \<open>The kernel and the events\<close>

text \<open>A change of the kernel, with sockets that are closed.\<close>

lemma io_ok_kernel:
  assumes ok: "io_ok S epfd v"
    and kern: "\<And>g. g \<notin> A \<Longrightarrow> st_interest S w1 g = st_interest S (wd_os v) g"
    and gone: "\<And>g. g \<in> A \<Longrightarrow> st_interest S w1 g = None \<and> g \<notin> fst ` set (sockets v @ closing v1)"
    and cl: "set (closing v) \<subseteq> set (closing v1) \<union> {p. fst p \<in> A}" "set (closing v1) \<subseteq> set (closing v)" "distinct (map fst (closing v1))"
    and same: "wd_sched v1 = wd_sched v" "wd_reactor v1 = wd_reactor v" "sockets v1 = sockets v" "wd_os v1 = w1"
    and sil: "\<And>g d j. (g, d) \<in> set (sockets v) \<Longrightarrow> silent S w1 g j \<Longrightarrow> silent S (wd_os v) g j \<or> signalled v1 d j"
    and sig: "\<And>d j. signalled v d j \<Longrightarrow> signalled v1 d j"
  shows "io_ok S epfd v1"
proof -
  note inv = io_okD [OF ok]
  have in_ss: "g \<notin> A" if "(g, d) \<in> set (sockets v @ closing v1)" for g d using gone [of g] that by force
  have int: "st_interest S w1 g = st_interest S (wd_os v) g" if "(g, d) \<in> set (sockets v @ closing v1)" for g d
    using kern [OF in_ss [OF that]] .
  have "kernel_ok S w1 (wd_reactor v) (sockets v) (closing v1)"
  proof -
    have "distinct (map fst (sockets v @ closing v1))"
    proof -
      have "fst ` set (closing v1) \<subseteq> fst ` set (closing v)" using cl(2) by blast
      with inv(3) cl(3) show ?thesis by (auto simp: kernel_ok_def)
    qed
    moreover have "st_interest S w1 g = Some (registered_events (states (wd_reactor v) d), State_Data d)"
      if "(g, d) \<in> set (sockets v)" for g d using kernel_sock(1) [OF inv(3) that] int [of g d] that by simp
    moreover have "\<exists>m. st_interest S w1 g = Some (m, State_Data d)" if "(g, d) \<in> set (closing v1)" for g d
    proof -
      have "(g, d) \<in> set (closing v)" using cl(2) that by blast
      with inv(3) int [of g d] that show ?thesis by (auto simp: kernel_ok_def)
    qed
    moreover have "(g, d) \<in> set (sockets v @ closing v1)" if "st_interest S w1 g = Some (m, State_Data d)" for g m d
    proof -
      have "g \<notin> A" using that gone [of g] by auto
      with that kern [of g] have "st_interest S (wd_os v) g = Some (m, State_Data d)" by simp
      with inv(3) have "(g, d) \<in> set (sockets v @ closing v)" unfolding kernel_ok_def by blast
      with cl(1) \<open>g \<notin> A\<close> show ?thesis by auto
    qed
    ultimately show ?thesis unfolding kernel_ok_def by blast
  qed
  moreover have "heard S v1"
    by (rule heard_from [OF inv(5)]) (use int sil sig in \<open>auto simp: same\<close>)
  ultimately show ?thesis using inv(1,2,4) by (simp add: io_ok_def same wd_waiting_def)
qed

lemma signalled_os: "signalled (v\<lparr>wd_os := w1, closing := cl\<rparr>) = signalled v"
  by (rule ext)+ (simp add: signalled_def)

lemma io_ok_outside:
  assumes "io_ok S epfd v" "edges_kept S {} (wd_os v) w1"
  shows "io_ok S epfd (v\<lparr>wd_os := w1\<rparr>)"
proof (rule io_ok_kernel [OF assms(1), where A = "{}" and ?w1.0 = w1])
  show "distinct (map fst (closing (v\<lparr>wd_os := w1\<rparr>)))" using io_okD(3) [OF assms(1)] by (simp add: kernel_ok_def)
qed (use assms(2) in \<open>auto simp: edges_keptD signalled_def\<close>)

lemma io_ok_closed:
  assumes ok: "io_ok S epfd v" and k: "(fd, d) \<in> set (closing v)" "edges_kept S {fd} (wd_os v) w1" "st_interest S w1 fd = None"
  shows "io_ok S epfd (v\<lparr>wd_os := w1, closing := remove1 (fd, d) (closing v)\<rparr>)"
proof -
  let ?cl = "remove1 (fd, d) (closing v)"
  have dist: "distinct (map fst (sockets v @ closing v))" using io_okD(3) [OF ok] by (simp add: kernel_ok_def)
  then have dc: "distinct (closing v)" by (simp add: distinct_map)
  have notin: "fd \<notin> fst ` set (sockets v)" using dist k(1) by force
  have fd: "fd \<notin> fst ` set ?cl"
  proof
    assume "fd \<in> fst ` set ?cl"
    then obtain e where "(fd, e) \<in> set ?cl" by force
    then have "(fd, e) \<in> set (closing v)" "e \<noteq> d" using dc by simp_all
    moreover have "inj_on fst (set (closing v))" using dist by (simp add: distinct_map)
    ultimately show False using k(1) inj_onD [of fst "set (closing v)" "(fd, d)" "(fd, e)"] by simp
  qed
  show ?thesis
  proof (rule io_ok_kernel [OF ok, where A = "{fd}" and ?w1.0 = w1])
    show "distinct (map fst (closing (v\<lparr>wd_os := w1, closing := ?cl\<rparr>)))" using dist distinct_map_remove1 [of fst "closing v"] by simp
    show "silent S (wd_os v) g j \<or> signalled (v\<lparr>wd_os := w1, closing := ?cl\<rparr>) e j"
      if "(g, e) \<in> set (sockets v)" "silent S w1 g j" for g e j
      using that notin edges_keptD(2) [OF k(2), of g j] by force
  qed (use k(2,3) notin fd dc in \<open>auto simp: edges_keptD signalled_os\<close>)
qed

lemma io_ok_fetch:
  assumes laws: "edge_laws S epfd" and ok: "io_ok S epfd v" and f: "fetched v = None"
    and e: "fetch_events (st_kernel S) b now (wd_reactor v) (wd_os v) = Some (evs, w1)"
  shows "io_ok S epfd (v\<lparr>wd_os := w1, fetched := Some evs\<rparr>)"
proof -
  note inv = io_okD [OF ok]
  obtain t where "ek_epoll_wait (st_kernel S) epfd 128 t (wd_os v) = (evs, w1)"
    using e inv(1) by (auto simp: fetch_events_def split: if_splits)
  note law = edge_laws.wait [OF laws this]
  show ?thesis
  proof (rule io_ok_kernel [OF ok, where A = "{}" and ?w1.0 = w1])
    show "distinct (map fst (closing (v\<lparr>wd_os := w1, fetched := Some evs\<rparr>)))" using inv(3) by (simp add: kernel_ok_def)
    show "silent S (wd_os v) g j \<or> signalled (v\<lparr>wd_os := w1, fetched := Some evs\<rparr>) d j"
      if "(g, d) \<in> set (sockets v)" "silent S w1 g j" for g d j
      using law that kernel_sock(1) [OF inv(3) that(1)] by (fastforce simp: signalled_def)
  qed (use law f in \<open>auto simp: signalled_def\<close>)
qed

text \<open>With \<open>calm\<close>, no two descriptors the kernel knows have the same state.\<close>

definition states_of :: "epoll_event list \<Rightarrow> nat list" where
  "states_of evs = concat (map (\<lambda>ev. case snd ev of State_Data d \<Rightarrow> [d] | _ \<Rightarrow> []) evs)"

lemma dispatched: "fst (dispatch_events evs check r) = states_of evs"
proof (induction evs arbitrary: check r)
  case (Cons ev evs)
  obtain events data where "ev = (events, data)" by (cases ev)
  with Cons show ?case
    by (cases data) (auto simp: states_of_def split: prod.splits, metis fst_conv)
qed (simp add: states_of_def)

definition calm_ok :: "'w setting \<Rightarrow> 'w io_world \<Rightarrow> bool" where
  "calm_ok S v \<longleftrightarrow> distinct (map snd (sockets v @ closing v))
     \<and> (\<forall>evs. fetched v = Some evs \<longrightarrow> distinct (states_of evs))"

text \<open>
  When the events are handed over none of the descriptors is queued, so that no other event of theirs is
  forgotten.
\<close>

lemma io_ok_dispatch:
  assumes ok: "io_ok S epfd v" and rs: "reachable quiet (wd_sched v)" and at: "thread_at i (In_Task c b) (wd_sched v)"
    and f: "fetched v = Some evs" and r: "dispatch_events evs check (wd_reactor v) = (ds, check1, r1)" and calm: "calm_ok S v"
    and ts: "distinct ts" "\<forall>x \<in> set ts. fresh_op x v" "length (wd_waiting v) + length ts \<le> held (wd_sched v)"
  shows "io_ok S epfd (v\<lparr>wd_sched := task_ran i c (map Descriptor (linked ds) @ map Handler ts) consumed (wd_sched v),
    wd_reactor := r1, fetched := None\<rparr>)" (is "io_ok S epfd ?v")
    and "reachable quiet (task_ran i c (map Descriptor (linked ds) @ map Handler ts) consumed (wd_sched v))" (is "reachable quiet ?s1")
proof -
  let ?os = "map Descriptor (linked ds) @ map Handler ts" and ?s = "wd_sched v"
  note inv = io_okD [OF ok] and d = dispatch_works [OF r]
  have ds: "distinct ds" using calm dispatched [of evs check "wd_reactor v"] r f by (simp add: calm_ok_def)
  have sbr: "same_but_ready (wd_reactor v) r1" using d by (simp add: same_but_ready_def)
  have fd: "filter is_descriptor ?os = map Descriptor (linked ds)" "filter is_handler ?os = map Handler ts"
    by (simp_all add: filter_map comp_def)
  show rs1: "reachable quiet ?s1"
    using rs by (rule reachable.step [OF _ step.task [OF at]])
      (use distinct_linked ts fresh_handler_list [OF ts(1,2)] in \<open>auto simp: fd distinct_map inj_on_def\<close>)
  have ad: "adds ?os {} ?s ?s1" by (rule adds_task_ran [OF at])
  have none: "Descriptor e \<notin> set (queued ?s)" for e
    using no_descriptor_queued [OF queues_ok_reachable [OF rs] books_ok_reachable [OF rs] at, of e] by (simp add: queued_iff)
  have "ops_ok ?s1 (wd_waiting v)"
  proof (rule ops_ok_same [OF inv(4)])
    show "length (wd_waiting v) \<le> held ?s1" using ts(3) by (simp add: fd)
    show "Handler x \<in> set (queued ?s) \<or> x \<notin> set (wd_waiting v)" if "Handler x \<in> set (queued ?s1)" for x
      using that adds_queued [OF ad, of "Handler x"] ts(2) by (auto simp: fresh_op_def)
  qed
  moreover have "heard S ?v"
  proof (rule heard_from [OF inv(5)])
    show "signalled ?v e j" if "signalled v e j" for e j
    proof -
      consider (event) events where "(events, State_Data e) \<in> set evs" "event_for events j"
        | (taken) n where "takes ?s n e" "event_for (wd_events v n) j"
        using \<open>signalled v e j\<close> f none by (auto simp: signalled_def)
      then show ?thesis
      proof cases
        case event
        then have "e \<in> set ds" "ready_events (states r1 e) = events" using d ds by blast+
        with event adds_queued [OF ad, of "Descriptor e"] linked_distinct [OF ds] show ?thesis by (simp add: signalled_def)
      next
        case taken
        then have "takes ?s1 n e" using adds_takes [OF ad] by blast
        with taken show ?thesis by (auto simp: signalled_def)
      qed
    qed
  qed (simp add: same_states [OF sbr])
  ultimately show "io_ok S epfd ?v"
    using inv(1,2,3) by (simp add: io_ok_def same_states [OF sbr] same_reactor [OF sbr] wd_waiting_def)
qed

section \<open>Executions\<close>

lemma reachable_perform:
  assumes "reachable quiet s" "thread_at i (In_Op c (Descriptor d) False) s" "ops_ok s W" "set ops \<subseteq> set W" "distinct ops"
    "length ops \<le> held s"
  shows "reachable quiet (if ops = [] then perform_none i c (Descriptor d) s else perform_some i c (map Handler ops) s)"
proof -
  have "fresh_handlers (map Handler ops) s"
    using assms(3,4,5) by (auto simp: fresh_handlers_def ops_ok_def distinct_map inj_on_def list_all_iff)
  with assms(6) show ?thesis
    using reachable.step [OF assms(1) step.perform_none [OF assms(2)]]
      reachable.step [OF assms(1) step.perform_some [OF assms(2)], of "map Handler ops"] by simp
qed

lemma reachable_aborted:
  assumes "reachable quiet s" "caller_at i s" "ops_ok s W" "set xs \<subseteq> set W" "distinct xs"
  shows "reachable quiet (post_aborted i [Post_Deferred xs] s)"
proof -
  have "fresh_handlers (map Handler xs) s"
    using assms(3,4,5) by (auto simp: fresh_handlers_def ops_ok_def distinct_map inj_on_def list_all_iff)
  moreover have "length xs \<le> length W" using assms(4,5) by (metis card_length card_mono distinct_card finite_set le_trans)
  ultimately show ?thesis
    using reachable_deferred [OF assms(1,2), of "map Handler xs"] assms(3) by (simp add: post_aborted_def ops_ok_def)
qed

lemma socket_ops:
  assumes "store_ok S r ss" "(fd, d) \<in> set ss" "distinct (waiting_ops r ss)"
  shows "set (concat (op_queues (states r d))) \<subseteq> set (waiting_ops r ss)" "distinct (concat (op_queues (states r d)))"
proof -
  obtain xs ys where "ss = xs @ (fd, d) # ys" using split_list [OF assms(2)] by blast
  with assms(3) show "set (concat (op_queues (states r d))) \<subseteq> set (waiting_ops r ss)" "distinct (concat (op_queues (states r d)))"
    by (auto simp: waiting_split)
qed

lemma count_or_post_reachable:
  assumes "reachable quiet s" "caller_at i s" "Handler x \<notin> set (queued s)" "calls = [Work_Started] \<or> calls = [Post_Immediate x k]"
  shows "reachable quiet (count_or_post i calls s)"
  using assms reachable_count reachable_post [of quiet s i "Handler x" k]
  by (auto simp: count_or_post_def fresh_handlers_def)

lemma start_calls:
  "reactor_start_op E f op_type fd (Some d) x k spec r w = (calls, r1, w1) \<Longrightarrow>
    calls = [Work_Started] \<or> calls = [Post_Immediate x k]"
  by (auto simp: reactor_start_op_def wait_op_def Let_def split: if_splits prod.splits)

text \<open>Every step of the whole is a step of the scheduler, or none, and keeps the invariant.\<close>

lemma io_ok_scheduler_steps:
  assumes ok: "io_ok S epfd v" and rs: "reachable quiet (wd_sched v)"
  shows "thread_at i Outside (wd_sched v) \<Longrightarrow> io_ok S epfd (v\<lparr>wd_sched := enter i c (wd_sched v)\<rparr>)"
    and "thread_at i (Blocked c) (wd_sched v)
      \<Longrightarrow> io_ok S epfd (v\<lparr>wd_sched := on_thread i (place_update (\<lambda>_. Signalled c)) (wd_sched v)\<rparr>)"
    and "thread_at i (In_Op c y True) (wd_sched v)
      \<Longrightarrow> io_ok S epfd (v\<lparr>wd_sched := on_thread i (place_update (\<lambda>_. Op_Done c thrown)) (wd_sched v)\<rparr>)"
    and "caller_at i (wd_sched v) \<Longrightarrow> fresh_op x v
      \<Longrightarrow> io_ok S epfd (v\<lparr>wd_sched := post_immediate_completion i (Handler x) k (wd_sched v)\<rparr>)"
    and "caller_at i (wd_sched v) \<Longrightarrow> \<forall>x \<in> set xs. fresh_op x v
      \<Longrightarrow> length (wd_waiting v) + length xs \<le> held (wd_sched v)
      \<Longrightarrow> io_ok S epfd (v\<lparr>wd_sched := post_aborted i [Post_Deferred xs] (wd_sched v)\<rparr>)"
    and "caller_at i (wd_sched v) \<Longrightarrow> a \<in> {Stop_All, Reset, Init_Task, Start_Work True}
      \<Longrightarrow> io_ok S epfd (v\<lparr>wd_sched := call_act i a (wd_sched v)\<rparr>)"
    and "caller_at i (wd_sched v) \<Longrightarrow> length (wd_waiting v) < held (wd_sched v)
      \<Longrightarrow> io_ok S epfd (v\<lparr>wd_sched := call_act i Finish_Work ((wd_sched v)\<lparr>held := held (wd_sched v) - 1\<rparr>)\<rparr>)"
proof -
  note len = ops_ok_length [OF ok] and call = io_ok_call [OF ok]
  show "io_ok S epfd (v\<lparr>wd_sched := enter i c (wd_sched v)\<rparr>)" if "thread_at i Outside (wd_sched v)"
    using adds_enter [OF books_ok_reachable [OF rs] that] len by (intro call [of "[]"]) simp_all
  show "io_ok S epfd (v\<lparr>wd_sched := on_thread i (place_update (\<lambda>_. Signalled c)) (wd_sched v)\<rparr>)"
    if "thread_at i (Blocked c) (wd_sched v)"
    using adds_place [OF that] len by (intro call [of "[]"]) simp_all
  show "io_ok S epfd (v\<lparr>wd_sched := on_thread i (place_update (\<lambda>_. Op_Done c thrown)) (wd_sched v)\<rparr>)"
    if "thread_at i (In_Op c y True) (wd_sched v)"
    using adds_place [OF that] len by (intro call [of "[]"]) simp_all
  show "io_ok S epfd (v\<lparr>wd_sched := post_immediate_completion i (Handler x) k (wd_sched v)\<rparr>)"
    if "caller_at i (wd_sched v)" "fresh_op x v"
    using that adds_post [of i "wd_sched v" "Handler x" "{}" k] len by (intro call [of "[Handler x]"]) (auto simp: caller_at_def fresh_op_def)
  show "io_ok S epfd (v\<lparr>wd_sched := post_aborted i [Post_Deferred xs] (wd_sched v)\<rparr>)"
    if "caller_at i (wd_sched v)" "\<forall>x \<in> set xs. fresh_op x v" "length (wd_waiting v) + length xs \<le> held (wd_sched v)"
    using that(2,3) post_aborted_works [OF that(1)] by (intro call [of "map Handler xs"]) (auto simp: fresh_op_def)
  show "io_ok S epfd (v\<lparr>wd_sched := call_act i a (wd_sched v)\<rparr>)"
    if "caller_at i (wd_sched v)" "a \<in> {Stop_All, Reset, Init_Task, Start_Work True}"
    using that adds_call [of i "wd_sched v" a "{}"] len by (intro call [of "[]"]) (auto simp: caller_at_def)
  show "io_ok S epfd (v\<lparr>wd_sched := call_act i Finish_Work ((wd_sched v)\<lparr>held := held (wd_sched v) - 1\<rparr>)\<rparr>)"
    if "caller_at i (wd_sched v)" "length (wd_waiting v) < held (wd_sched v)"
    using that adds_call [of i "(wd_sched v)\<lparr>held := held (wd_sched v) - 1\<rparr>" Finish_Work "{}"]
    by (intro call [of "[]"]) (auto simp: caller_at_def)
qed

lemma io_ok_step:
  assumes laws: "edge_laws S epfd" and ok: "io_ok S epfd v" and rs: "reachable quiet (wd_sched v)"
    and calm: "calm_ok S v" and step: "io_step S quiet True v v1"
  shows "io_ok S epfd v1 \<and> reachable quiet (wd_sched v1)"
  using step
proof cases
  case (goes i k s1)
  then show ?thesis using io_ok_goes [OF ok goes(2)] reachable.step [OF rs goes_step [OF goes(2)]] by simp
next
  case (enter i c)
  then show ?thesis using io_ok_scheduler_steps(1) [OF ok rs] reachable.step [OF rs step.enter] by simp
next
  case (spurious i c)
  then show ?thesis using io_ok_scheduler_steps(2) [OF ok rs] reachable.step [OF rs step.spurious] by simp
next
  case (finish i c x thrown)
  then show ?thesis using io_ok_scheduler_steps(3) [OF ok rs] reachable.step [OF rs step.finish] by simp
next
  case (post i x k)
  then show ?thesis
    using io_ok_scheduler_steps(4) [OF ok rs] reachable_post [OF rs _ fresh_handler] by simp
next
  case (post_deferred i xs)
  note works = io_ok_scheduler_steps(5) [OF ok rs post_deferred(2,4,5)]
  have "reachable quiet (post_aborted i [Post_Deferred xs] (wd_sched v))"
    using reachable_deferred [OF rs post_deferred(2) fresh_handler_list [OF post_deferred(3,4)]] post_deferred(5)
    by (simp add: post_aborted_def)
  with works show ?thesis by (simp add: post_deferred(1))
next
  case (control i a)
  then show ?thesis
    using io_ok_scheduler_steps(6) [OF ok rs] reachable.step [OF rs step.control] reachable.step [OF rs step.keep_work] by auto
next
  case (drop_work i)
  have "0 < held (wd_sched v)" using drop_work(3) by simp
  with drop_work show ?thesis
    using io_ok_scheduler_steps(7) [OF ok rs] reachable.step [OF rs step.drop_work [OF drop_work(2)]] by simp
next
  case (register i L F created fd err d r1 w1)
  then show ?thesis using io_ok_register [OF laws ok register(4,5,6)] rs by simp
next
  case (start i fd d x op_type k spec calls r1 w1)
  have "reachable quiet (count_or_post i calls (wd_sched v))"
    using start(4) start_calls [OF start(8)] by (intro count_or_post_reachable [OF rs start(2)]) (auto simp: fresh_op_def)
  with edge_laws.io_ok_start [OF laws ok start(2-6) start(7) [rule_format] start(8)] show ?thesis by (simp add: start(1))
next
  case (cancel i fd d calls r1)
  note inv = io_okD [OF ok]
  have d: "distinct (waiting_ops (wd_reactor v) (sockets v))" using inv(4) by (simp add: ops_ok_def wd_waiting_def)
  have "reachable quiet (post_aborted i calls (wd_sched v))"
    using reachable_aborted [OF rs cancel(2) inv(4)] socket_ops [OF inv(2) cancel(3) d] cancel_ops_works [OF cancel(4)]
    by (simp add: wd_waiting_def)
  with io_ok_cancel [OF ok cancel(2-4)] show ?thesis by (simp add: cancel(1))
next
  case (deregister i fd d is_closing calls data r1 w1)
  note inv = io_okD [OF ok]
  have d: "distinct (waiting_ops (wd_reactor v) (sockets v))" using inv(4) by (simp add: ops_ok_def wd_waiting_def)
  have "\<not> ds_shutdown (states (wd_reactor v) d)" using sock_simps(2) [OF store_sock(1) [OF inv(2) deregister(3)]] .
  then have "reachable quiet (post_aborted i calls (wd_sched v))"
    using reachable_aborted [OF rs deregister(2) inv(4)] socket_ops [OF inv(2) deregister(3) d] deregister_works(1) [OF deregister(4)]
    by (simp add: wd_waiting_def)
  with io_ok_deregister [OF laws ok deregister(2-4)] show ?thesis by (simp add: deregister(1))
next
  case (closed fd d w1)
  then show ?thesis using io_ok_closed [OF ok closed(2-4)] rs by simp
next
  case (outside w1)
  then show ?thesis using io_ok_outside [OF ok outside(2)] rs by simp
next
  case (fetch i c b now evs w1)
  then show ?thesis using io_ok_fetch [OF laws ok fetch(3,4)] rs by simp
next
  case (dispatch i c b evs check ds check1 r1 ts consumed)
  then show ?thesis using io_ok_dispatch [OF ok rs dispatch(2-4) calm dispatch(5-7)] by simp
next
  case (perform i c d first_op calls r1 w1)
  note works = edge_laws.io_ok_perform [OF laws ok perform(2,3) refl]
  from works(2) obtain ops where "(case first_op of None \<Rightarrow> perform_none i c (Descriptor d) (wd_sched v)
      | Some x \<Rightarrow> perform_some i c (map Handler (x # (case calls of [Post_Deferred xs] \<Rightarrow> xs | _ \<Rightarrow> []))) (wd_sched v))
      = (if ops = [] then perform_none i c (Descriptor d) (wd_sched v) else perform_some i c (map Handler ops) (wd_sched v))"
    "distinct ops" "set ops \<subseteq> set (wd_waiting v)" "length ops \<le> held (wd_sched v)" by blast
  with reachable_perform [OF rs perform(2) io_okD(4) [OF ok]] works(1) show ?thesis by (simp add: perform(1))
qed

end
