(* ===== verification/Epoll_Model.thy ===== *)
theory Epoll_Model
  imports Reactor_Composition "HOL-Library.AList"
begin

text \<open>
  An edge-triggered \<open>epoll\<close> with any number of descriptors, on which the laws of the reactor's kernel
  hold, and executions of the reactor and the scheduler over it, given by what each thread does.
\<close>

section \<open>The kernel\<close>

text \<open>
  The descriptors that are registered, which are ready in the direction of a queue, and the edges that no
  wait has reported yet.
\<close>

record epoll_set =
  watched :: "(int \<times> epoll_event) list"
  is_ready :: "int \<Rightarrow> nat \<Rightarrow> bool"
  edge :: "int \<Rightarrow> nat \<Rightarrow> bool"

type_synonym epoll_world = "epoll_set os"

definition EEXIST :: int where "EEXIST = 17"
definition ENOENT :: int where "ENOENT = 2"

definition on_set :: "(epoll_set \<Rightarrow> epoll_set) \<Rightarrow> epoll_world \<Rightarrow> epoll_world" where
  "on_set f w = w\<lparr>outside := f (outside w)\<rparr>"

definition watch :: "int \<Rightarrow> epoll_event \<Rightarrow> epoll_set \<Rightarrow> epoll_set" where
  "watch fd ev m = m\<lparr>watched := AList.update fd ev (watched m), edge := (edge m)(fd := is_ready m fd)\<rparr>"

definition unwatch :: "int \<Rightarrow> epoll_set \<Rightarrow> epoll_set" where
  "unwatch fd m = m\<lparr>watched := AList.delete fd (watched m)\<rparr>"

definition model_ctl :: "int \<Rightarrow> ctl_op \<Rightarrow> int \<Rightarrow> epoll_event \<Rightarrow> epoll_world \<Rightarrow> int \<times> epoll_world" where
  "model_ctl epfd oper fd ev w =
     (let known = map_of (watched (outside w)) fd \<noteq> None
      in case oper of
           EPOLL_CTL_ADD \<Rightarrow> if known then (-1, w\<lparr>errno := EEXIST\<rparr>) else (0, on_set (watch fd ev) w)
         | EPOLL_CTL_MOD \<Rightarrow> if known then (0, on_set (watch fd ev) w) else (-1, w\<lparr>errno := ENOENT\<rparr>)
         | EPOLL_CTL_DEL \<Rightarrow> if known then (0, on_set (unwatch fd) w) else (-1, w\<lparr>errno := ENOENT\<rparr>))"

text \<open>The events of a descriptor: the directions it is registered for and ready in, with a new edge.\<close>

definition flag_if :: "epoll_set \<Rightarrow> int \<Rightarrow> u32 \<Rightarrow> nat \<Rightarrow> u32" where
  "flag_if m fd wanted j = (if wanted AND ops_flag j \<noteq> 0 \<and> is_ready m fd j \<and> edge m fd j then ops_flag j else 0)"

definition occurred :: "epoll_set \<Rightarrow> int \<times> epoll_event \<Rightarrow> u32" where
  "occurred m = (\<lambda>(fd, wanted, data). flag_if m fd wanted 0 OR flag_if m fd wanted 1 OR flag_if m fd wanted 2)"

definition reported :: "nat \<Rightarrow> epoll_set \<Rightarrow> (int \<times> epoll_event) list" where
  "reported n m = take n (filter (\<lambda>e. occurred m e \<noteq> 0) (AList.clearjunk (watched m)))"

definition model_wait :: "int \<Rightarrow> nat \<Rightarrow> int \<Rightarrow> epoll_world \<Rightarrow> epoll_event list \<times> epoll_world" where
  "model_wait epfd n timeout w =
     (let m = outside w; es = reported n m
      in (map (\<lambda>e. (occurred m e, snd (snd e))) es,
          on_set (edge_update (\<lambda>ed fd j. ed fd j \<and> (fd \<in> fst ` set es \<longrightarrow> max_ops \<le> j))) w))"

definition model_kernel :: "epoll_set epoll_kernel" where
  "model_kernel = \<lparr>ek_eventfd = (\<lambda>n flags w. (3, w)), ek_pipe = (\<lambda>w. ((-1, -1, -1), w)), ek_fcntl = (\<lambda>fd cmd n w. w),
     ek_close = (\<lambda>fd. on_set (unwatch fd)), ek_write_counter = (\<lambda>fd w. w), ek_read = (\<lambda>fd n w. (8, w)),
     ek_epoll_create1 = (\<lambda>flags w. (4, w)), ek_epoll_create = (\<lambda>n w. (4, w)), ek_epoll_ctl = model_ctl,
     ek_epoll_wait = model_wait, ek_timerfd_create = (\<lambda>clock flags w. (-1, w)), ek_timerfd_settime = (\<lambda>fd flags v w. w)\<rparr>"

text \<open>Operation \<open>x\<close> is for descriptor \<open>x div 3\<close> and queue \<open>x mod 3\<close>, and finished when that is ready.\<close>

definition model_waits :: "nat \<Rightarrow> int \<times> nat" where
  "model_waits x = (int (x div 3), x mod 3)"

definition model_perform :: "epoll_set perform" where
  "model_perform x res w = ((case model_waits x of (fd, j) \<Rightarrow> is_ready (outside w) fd j, res), w)"

definition model_setting :: "epoll_set setting" where
  "model_setting = \<lparr>st_kernel = model_kernel, st_perform = model_perform, st_waits = model_waits,
     st_interest = (\<lambda>w fd. map_of (watched (outside w)) fd), st_ready = (\<lambda>w. is_ready (outside w)),
     st_pending = (\<lambda>w fd j. is_ready (outside w) fd j \<and> edge (outside w) fd j)\<rparr>"

section \<open>The laws\<close>

lemma model_simps [simp]:
  "st_interest model_setting w fd = map_of (watched (outside w)) fd"
  "st_ready model_setting w fd j = is_ready (outside w) fd j"
  "st_pending model_setting w fd j \<longleftrightarrow> is_ready (outside w) fd j \<and> edge (outside w) fd j"
  "st_perform model_setting = model_perform" "st_waits model_setting = model_waits"
  "ek_epoll_ctl (st_kernel model_setting) = model_ctl" "ek_epoll_wait (st_kernel model_setting) = model_wait"
  by (simp_all add: model_setting_def model_kernel_def)

lemma on_set_simps [simp]: "outside (on_set f w) = f (outside w)" "errno (on_set f w) = errno w"
  by (simp_all add: on_set_def)

lemma watch_simps [simp]:
  "map_of (watched (watch fd ev m)) g = (if g = fd then Some ev else map_of (watched m) g)"
  "is_ready (watch fd ev m) = is_ready m" "edge (watch fd ev m) g j = (if g = fd then is_ready m g j else edge m g j)"
  by (simp_all add: watch_def update_conv)

lemma unwatch_simps [simp]:
  "map_of (watched (unwatch fd m)) g = (if g = fd then None else map_of (watched m) g)"
  "is_ready (unwatch fd m) = is_ready m" "edge (unwatch fd m) = edge m"
  by (simp_all add: unwatch_def delete_conv)

lemma silent_model:
  "silent model_setting w fd j \<longleftrightarrow>
     (\<exists>wanted data. map_of (watched (outside w)) fd = Some (wanted, data) \<and> wanted AND ops_flag j \<noteq> 0)
     \<and> is_ready (outside w) fd j \<and> \<not> edge (outside w) fd j"
  by (auto simp: silent_def armed_def split: option.splits)

lemma occurred_for:
  assumes "wanted AND ops_flag j \<noteq> 0" "is_ready m fd j" "edge m fd j" "j < 3"
  shows "event_for (occurred m (fd, wanted, data)) j" "occurred m (fd, wanted, data) \<noteq> 0"
proof -
  have f: "flag_if m fd wanted j = ops_flag j" using assms by (simp add: flag_if_def)
  consider "j = 0" | "j = 1" | "j = 2" using assms(4) by linarith
  then show e: "event_for (occurred m (fd, wanted, data)) j"
    using f by cases (auto simp: event_for_def occurred_def or_and_zero EPOLLIN_def EPOLLOUT_def EPOLLPRI_def
        EPOLLERR_def EPOLLHUP_def bit.conj_disj_distrib2 or_eq_0_iff)
  then show "occurred m (fd, wanted, data) \<noteq> 0" by (auto simp: event_for_def)
qed

lemma reported_in: "(fd, ev) \<in> set (reported n m) \<Longrightarrow> map_of (watched m) fd = Some ev"
  by (auto simp: reported_def map_of_clearjunk dest!: in_set_takeD map_of_is_SomeI [OF distinct_clearjunk])

lemma distinct_map_part: "distinct (map f xs) \<Longrightarrow> distinct (map f (take n (filter P xs)))"
  by (simp add: distinct_map distinct_take inj_on_def) (meson filter_is_subset in_set_takeD subsetD)

lemma model_wait_law:
  assumes w: "model_wait epfd n t w = (evs, w1)"
  shows "\<forall>fd. map_of (watched (outside w1)) fd = map_of (watched (outside w)) fd"
    "silent model_setting w1 fd j \<Longrightarrow> silent model_setting w fd j
      \<or> (\<exists>m data events. map_of (watched (outside w)) fd = Some (m, data) \<and> (events, data) \<in> set evs \<and> event_for events j)"
    "\<exists>fds. distinct fds \<and> map (\<lambda>fd. map_option snd (map_of (watched (outside w)) fd)) fds = map (\<lambda>ev. Some (snd ev)) evs"
proof -
  let ?m = "outside w"
  have evs: "evs = map (\<lambda>e. (occurred ?m e, snd (snd e))) (reported n ?m)"
    and w1: "w1 = on_set (edge_update (\<lambda>ed fd j. ed fd j \<and> (fd \<in> fst ` set (reported n ?m) \<longrightarrow> max_ops \<le> j))) w"
    using w by (auto simp: model_wait_def Let_def)
  show "\<forall>fd. map_of (watched (outside w1)) fd = map_of (watched ?m) fd" by (simp add: w1)
  show "silent model_setting w fd j
      \<or> (\<exists>m data events. map_of (watched ?m) fd = Some (m, data) \<and> (events, data) \<in> set evs \<and> event_for events j)"
    if "silent model_setting w1 fd j"
  proof (cases "edge ?m fd j")
    case False
    with that show ?thesis by (auto simp: silent_model w1)
  next
    case True
    with that obtain wanted data where e: "map_of (watched ?m) fd = Some (wanted, data)" "wanted AND ops_flag j \<noteq> 0"
      "is_ready ?m fd j" "fd \<in> fst ` set (reported n ?m)" "j < 3"
      by (auto simp: silent_model w1 max_ops_def)
    then obtain ev where ev: "(fd, ev) \<in> set (reported n ?m)" by force
    from reported_in [OF this] e(1) have "ev = (wanted, data)" by simp
    with ev have "(occurred ?m (fd, wanted, data), data) \<in> set evs" by (force simp: evs)
    with e(1) occurred_for(1) [OF e(2,3) True e(5)] show ?thesis by blast
  qed
  show "\<exists>fds. distinct fds \<and> map (\<lambda>fd. map_option snd (map_of (watched ?m) fd)) fds = map (\<lambda>ev. Some (snd ev)) evs"
  proof (intro exI conjI)
    show "distinct (map fst (reported n ?m))"
      unfolding reported_def by (rule distinct_map_part) (rule distinct_clearjunk)
    show "map (\<lambda>fd. map_option snd (map_of (watched ?m) fd)) (map fst (reported n ?m)) = map (\<lambda>ev. Some (snd ev)) evs"
      using reported_in by (force simp: evs)
  qed
qed

interpretation model: edge_laws model_setting epfd
proof (unfold_locales, simp_all only: model_simps)
  fix fd ev w w1 n t evs r oper x res finished res1
  show "map_of (watched (outside w)) fd = None \<and> map_of (watched (outside w1)) fd = Some ev \<and> edges_kept model_setting {fd} w w1
      \<and> (\<forall>j. \<not> silent model_setting w1 fd j)" if "model_ctl epfd EPOLL_CTL_ADD fd ev w = (0, w1)"
    using that by (cases "map_of (watched (outside w)) fd") (auto simp: model_ctl_def Let_def silent_model edges_kept_def split: if_splits)
  show "map_of (watched (outside w1)) fd = Some ev \<and> edges_kept model_setting {fd} w w1
      \<and> (\<forall>j. \<not> silent model_setting w1 fd j)" if "model_ctl epfd EPOLL_CTL_MOD fd ev w = (0, w1)"
    using that by (auto simp: model_ctl_def Let_def silent_model edges_kept_def split: if_splits)
  show "edges_kept model_setting {} w w1 \<and> errno w1 \<noteq> 0"
    if "model_ctl epfd oper fd ev w = (r, w1)" "r \<noteq> 0" "oper \<noteq> EPOLL_CTL_DEL"
    using that by (cases oper) (auto simp: model_ctl_def Let_def silent_model edges_kept_def EEXIST_def ENOENT_def split: if_splits)
  show "map_of (watched (outside w1)) fd = None \<and> edges_kept model_setting {fd} w w1"
    if "model_ctl epfd EPOLL_CTL_DEL fd ev w = (r, w1)"
    using that by (cases "map_of (watched (outside w)) fd") (auto simp: model_ctl_def Let_def silent_model edges_kept_def split: if_splits)
  show "(\<forall>fd. map_of (watched (outside w1)) fd = map_of (watched (outside w)) fd)
      \<and> (\<forall>fd j. silent model_setting w1 fd j \<longrightarrow> silent model_setting w fd j
          \<or> (\<exists>m data events. map_of (watched (outside w)) fd = Some (m, data) \<and> (events, data) \<in> set evs \<and> event_for events j))
      \<and> (\<exists>fds. distinct fds \<and> map (\<lambda>fd. map_option snd (map_of (watched (outside w)) fd)) fds = map (\<lambda>ev. Some (snd ev)) evs)"
    if "model_wait epfd n t w = (evs, w1)"
    using model_wait_law [OF that] by blast
  show "edges_kept model_setting {} w w1
      \<and> (\<not> finished \<longrightarrow> \<not> silent model_setting w1 (fst (model_waits x)) (snd (model_waits x)))"
    if "model_perform x res w = ((finished, res1), w1)"
    using that by (auto simp: model_perform_def silent_model split: prod.splits)
qed

section \<open>Playing an execution\<close>

datatype world_move =
    Thread_Goes nat nat
  | Thread_Enters nat caller
  | Thread_Calls nat act
  | Opens nat "nat list" "nat list" int nat
  | Starts nat int nat nat bool
  | Cancels nat int nat
  | Leaves nat int nat bool
  | Closes int nat
  | Becomes_Ready int nat
  | Fetches nat
  | Hands nat
  | Performs nat

definition memory_state :: descriptor_state where
  "memory_state = \<lparr>descriptor = 0, registered_events = 0, op_queues = [[], [], []], ds_shutdown = False, ready_events = 0\<rparr>"

fun io_move :: "bool \<Rightarrow> bool \<Rightarrow> world_move \<Rightarrow> epoll_set io_world \<Rightarrow> epoll_set io_world option" where
  "io_move quiet calm (Thread_Goes i k) v =
     map_option (\<lambda>s1. v\<lparr>wd_sched := s1, wd_events := capture i s1 v\<rparr>) (goes quiet i k (wd_sched v))"
| "io_move quiet calm (Thread_Enters i c) v =
     (if thread_at i Outside (wd_sched v) then Some (v\<lparr>wd_sched := enter i c (wd_sched v)\<rparr>) else None)"
| "io_move quiet calm (Thread_Calls i a) v =
     (if caller_at i (wd_sched v) \<and> a \<in> {Stop_All, Reset, Init_Task, Start_Work True}
      then Some (v\<lparr>wd_sched := call_act i a (wd_sched v)\<rparr>) else None)"
| "io_move quiet calm (Opens i L F fd a) v =
     (if caller_at i (wd_sched v) \<and> (calm \<longrightarrow> closing v = []) \<and> pool_is (pool (wd_reactor v)) L F \<and> a \<notin> set L \<union> set F then
        case register_descriptor model_kernel fd (a, memory_state) (wd_reactor v) (wd_os v) of ((err, d), r1, w1) \<Rightarrow>
          Some (v\<lparr>wd_reactor := r1, wd_os := w1, sockets := (if err = 0 then (fd, d) # sockets v else sockets v)\<rparr>)
      else None)"
| "io_move quiet calm (Starts i fd d x spec) v =
     (if caller_at i (wd_sched v) \<and> (fd, d) \<in> set (sockets v) \<and> fresh_op x v \<and> fst (model_waits x) = fd
         \<and> (calm \<longrightarrow> \<not> unnoticed_failure model_kernel (snd (model_waits x)) fd d spec (wd_reactor v) (wd_os v)) then
        case reactor_start_op model_kernel model_perform (snd (model_waits x)) fd (Some d) x False spec (wd_reactor v) (wd_os v)
          of (calls, r1, w1) \<Rightarrow> Some (v\<lparr>wd_sched := count_or_post i calls (wd_sched v), wd_reactor := r1, wd_os := w1\<rparr>)
      else None)"
| "io_move quiet calm (Cancels i fd d) v =
     (if caller_at i (wd_sched v) \<and> (fd, d) \<in> set (sockets v) then
        case cancel_ops (Some d) (wd_reactor v) of (calls, r1) \<Rightarrow>
          Some (v\<lparr>wd_sched := post_aborted i calls (wd_sched v), wd_reactor := r1\<rparr>)
      else None)"
| "io_move quiet calm (Leaves i fd d is_closing) v =
     (if caller_at i (wd_sched v) \<and> (fd, d) \<in> set (sockets v) then
        case deregister_descriptor model_kernel fd (Some d) is_closing (wd_reactor v) (wd_os v) of (calls, data, r1, w1) \<Rightarrow>
          Some (v\<lparr>wd_sched := post_aborted i calls (wd_sched v), wd_reactor := r1, wd_os := w1,
            sockets := remove1 (fd, d) (sockets v),
            closing := (if is_closing then (fd, d) # closing v else closing v)\<rparr>)
      else None)"
| "io_move quiet calm (Closes fd d) v =
     (if (fd, d) \<in> set (closing v) then
        Some (v\<lparr>wd_os := on_set (unwatch fd) (wd_os v), closing := remove1 (fd, d) (closing v)\<rparr>) else None)"
| "io_move quiet calm (Becomes_Ready fd j) v =
     Some (v\<lparr>wd_os := on_set (\<lambda>m. m\<lparr>is_ready := (is_ready m)(fd := (is_ready m fd)(j := True)),
       edge := (edge m)(fd := (edge m fd)(j := True))\<rparr>) (wd_os v)\<rparr>)"
| "io_move quiet calm (Fetches i) v =
     (case place (threads (wd_sched v) ! i) of
        In_Task c b \<Rightarrow>
          if thread_at i (In_Task c b) (wd_sched v) \<and> fetched v = None then
            map_option (\<lambda>(evs, w1). v\<lparr>wd_os := w1, fetched := Some evs\<rparr>)
              (fetch_events model_kernel b 0 (wd_reactor v) (wd_os v))
          else None
      | _ \<Rightarrow> None)"
| "io_move quiet calm (Hands i) v =
     (case (place (threads (wd_sched v) ! i), fetched v) of
        (In_Task c b, Some evs) \<Rightarrow>
          (case dispatch_events evs False (wd_reactor v) of (ds, check1, r1) \<Rightarrow>
             if thread_at i (In_Task c b) (wd_sched v) \<and> length (wd_waiting v) \<le> held (wd_sched v) then
               Some (v\<lparr>wd_sched := task_ran i c (map Descriptor (linked ds)) False (wd_sched v), wd_reactor := r1, fetched := None\<rparr>)
             else None)
      | _ \<Rightarrow> None)"
| "io_move quiet calm (Performs i) v =
     (case place (threads (wd_sched v) ! i) of
        In_Op c (Descriptor d) False \<Rightarrow>
          if thread_at i (In_Op c (Descriptor d) False) (wd_sched v) then
            case perform_io model_perform (wd_events v i) d (wd_reactor v) (wd_os v) of (first_op, calls, r1, w1) \<Rightarrow>
              Some (v\<lparr>wd_sched :=
                (case first_op of
                   None \<Rightarrow> perform_none i c (Descriptor d) (wd_sched v)
                 | Some x \<Rightarrow> perform_some i c
                     (map Handler (x # (case calls of [Post_Deferred xs] \<Rightarrow> xs | _ \<Rightarrow> []))) (wd_sched v)),
                wd_reactor := r1, wd_os := w1\<rparr>)
          else None
      | _ \<Rightarrow> None)"

text \<open>A move is a step, and the moves given in turn are an execution.\<close>

lemma fetches_step:
  assumes "io_move quiet calm (Fetches i) v = Some v1"
  shows "io_step model_setting quiet calm v v1"
proof -
  obtain c b where at: "thread_at i (In_Task c b) (wd_sched v)" "fetched v = None"
    and m: "map_option (\<lambda>(evs, w1). v\<lparr>wd_os := w1, fetched := Some evs\<rparr>) (fetch_events model_kernel b 0 (wd_reactor v) (wd_os v)) = Some v1"
    using assms by (auto split: place.splits if_splits)
  from m obtain evs w1 where "fetch_events model_kernel b 0 (wd_reactor v) (wd_os v) = Some (evs, w1)"
    "v1 = v\<lparr>wd_os := w1, fetched := Some evs\<rparr>" by auto
  with io_step.fetch [OF at, of model_setting 0 evs w1] show ?thesis by (simp add: model_setting_def)
qed

lemma hands_step:
  assumes "io_move quiet calm (Hands i) v = Some v1"
  shows "io_step model_setting quiet calm v v1"
proof -
  obtain c b evs ds check1 r1 where "thread_at i (In_Task c b) (wd_sched v)" "fetched v = Some evs"
    "dispatch_events evs False (wd_reactor v) = (ds, check1, r1)" "length (wd_waiting v) \<le> held (wd_sched v)"
    "v1 = v\<lparr>wd_sched := task_ran i c (map Descriptor (linked ds)) False (wd_sched v), wd_reactor := r1, fetched := None\<rparr>"
    using assms by (auto split: place.splits if_splits option.splits prod.splits)
  then show ?thesis using io_step.dispatch [of i c b v evs False ds check1 r1 "[]" model_setting quiet calm False] by simp
qed

lemma performs_step:
  assumes "io_move quiet calm (Performs i) v = Some v1"
  shows "io_step model_setting quiet calm v v1"
proof -
  obtain c d first_op calls r1 w1 where "thread_at i (In_Op c (Descriptor d) False) (wd_sched v)"
    "perform_io model_perform (wd_events v i) d (wd_reactor v) (wd_os v) = (first_op, calls, r1, w1)"
    "v1 = v\<lparr>wd_sched :=
                (case first_op of
                   None \<Rightarrow> perform_none i c (Descriptor d) (wd_sched v)
                 | Some x \<Rightarrow> perform_some i c
                     (map Handler (x # (case calls of [Post_Deferred xs] \<Rightarrow> xs | _ \<Rightarrow> []))) (wd_sched v)),
                wd_reactor := r1, wd_os := w1\<rparr>"
    using assms by (auto split: place.splits oper.splits bool.splits if_splits prod.splits)
  then show ?thesis using io_step.perform [of i c d v model_setting first_op calls r1 w1 quiet calm] by simp
qed

lemma io_move_step:
  assumes "io_move quiet calm m v = Some v1"
  shows "io_step model_setting quiet calm v v1"
proof -
  have k: "st_kernel model_setting = model_kernel" by (simp add: model_setting_def)
  show ?thesis
  proof (cases m)
    case (Opens i L F fd a)
    then show ?thesis
      using assms io_step.register [of i v calm L F "(a, memory_state)" model_setting fd]
      by (auto simp: k split: if_splits prod.splits)
  next
    case (Starts i fd d x spec)
    have "snd (model_waits x) < max_ops" by (simp add: model_waits_def max_ops_def)
    with Starts show ?thesis
      using assms io_step.start [of i v fd d x "snd (model_waits x)" model_setting calm spec False]
      by (auto simp: k prod_eq_iff split: if_splits prod.splits)
  next
    case (Leaves i fd d is_closing)
    then show ?thesis
      using assms io_step.deregister [of i v fd d model_setting is_closing] by (auto simp: k split: if_splits prod.splits)
  next
    case (Closes fd d)
    have "edges_kept model_setting {fd} (wd_os v) (on_set (unwatch fd) (wd_os v))"
      by (auto simp: edges_kept_def silent_model)
    with Closes show ?thesis
      using assms io_step.closed [of fd d v model_setting "on_set (unwatch fd) (wd_os v)"] by (auto split: if_splits)
  next
    case (Becomes_Ready fd j)
    have "edges_kept model_setting {} w (on_set (\<lambda>m. m\<lparr>is_ready := (is_ready m)(fd := (is_ready m fd)(j := True)),
       edge := (edge m)(fd := (edge m fd)(j := True))\<rparr>) w)" for w
      by (auto simp: edges_kept_def silent_model split: if_splits)
    with Becomes_Ready show ?thesis using assms io_step.outside by fastforce
  next
    case (Fetches i)
    with assms fetches_step show ?thesis by blast
  next
    case (Hands i)
    with assms hands_step show ?thesis by blast
  next
    case (Performs i)
    with assms performs_step show ?thesis by blast
  qed (use assms in \<open>auto simp: k split: if_splits prod.splits intro: io_step.goes io_step.enter io_step.control io_step.cancel\<close>)
qed

primrec play_io :: "bool \<Rightarrow> bool \<Rightarrow> world_move list \<Rightarrow> epoll_set io_world \<Rightarrow> epoll_set io_world option" where
  "play_io quiet calm [] v = Some v"
| "play_io quiet calm (m # ms) v = Option.bind (io_move quiet calm m v) (play_io quiet calm ms)"

lemma play_io_reachable:
  "play_io quiet calm ms v = Some v1 \<Longrightarrow> io_reachable model_setting epfd quiet calm v
    \<Longrightarrow> io_reachable model_setting epfd quiet calm v1"
proof (induction ms arbitrary: v)
  case (Cons m ms)
  then obtain v2 where "io_move quiet calm m v = Some v2" "play_io quiet calm ms v2 = Some v1"
    by (auto simp: bind_eq_Some_conv)
  with Cons io_move_step io_reachable.step show ?case by blast
qed simp

text \<open>Two threads, and a reactor as its constructor leaves it.\<close>

definition empty_timers :: timer_queue where
  "empty_timers = \<lparr>tq_timers = None, tq_heap = [], tq_data = (\<lambda>t. fresh_timer 0),
     tq_ec = (\<lambda>x. no_error)\<rparr>"

definition bare_model :: epoll_reactor where
  "bare_model = \<lparr>interrupter_of = \<lparr>read_descriptor = 3, write_descriptor = 3\<rparr>, epoll_fd = 4, timer_fd = 7,
     timer_set = new_queue_set (\<lambda>i. None), timer_queues = (\<lambda>i. empty_timers), er_shutdown = False,
     pool = new_pool (\<lambda>i. None) (\<lambda>i. None), states = (\<lambda>d. memory_state), results = (\<lambda>x. (no_error, 0))\<rparr>"

definition bare_world :: epoll_world where
  "bare_world = \<lparr>errno = 0, memory = (\<lambda>a. 0), outside = \<lparr>watched = [], is_ready = (\<lambda>fd j. False), edge = (\<lambda>fd j. False)\<rparr>\<rparr>"

definition first_world :: "epoll_set io_world" where
  "first_world = new_io_world 2 0 bare_model bare_world"

lemma first_world_reachable: "io_reachable model_setting 4 quiet calm first_world"
  unfolding first_world_def
  by (rule io_reachable.start)
    (simp add: bare_reactor_def bare_model_def bare_world_def pool_is_def new_pool_def memory_state_def)

definition world_after :: "bool \<Rightarrow> bool \<Rightarrow> world_move list \<Rightarrow> epoll_set io_world" where
  "world_after quiet calm ms = the (play_io quiet calm ms first_world)"

lemma world_after_reachable:
  "play_io quiet calm ms first_world \<noteq> None \<Longrightarrow> io_reachable model_setting 4 quiet calm (world_after quiet calm ms)"
  unfolding world_after_def by (auto intro: play_io_reachable first_world_reachable)

text \<open>What an execution with concrete sockets and threads is computed with.\<close>

lemmas play_reactor_simps = first_world_def new_io_world_def bare_model_def bare_world_def memory_state_def
  model_kernel_def model_ctl_def model_wait_def reported_def occurred_def flag_if_def on_set_def watch_def unwatch_def
  pool_is_def pool_alloc_def pool_free_def new_pool_def
  register_descriptor_def register_with_def allocate_descriptor_state_def set_state_def fresh_state_def
  deregister_descriptor_def abort_ops_def free_descriptor_state_def fetch_events_def
  reactor_start_op_def perform_op_def model_perform_def model_waits_def wait_op_def push_op_def unnoticed_failure_def
  fresh_op_def wd_waiting_def waiting_ops_def count_or_post_def post_aborted_def capture_def
  max_ops_def read_ops_def write_ops_def except_ops_def
  EPOLLIN_def EPOLLOUT_def EPOLLPRI_def EPOLLET_def EPOLLERR_def EPOLLHUP_def descriptor_events_def
  Let_def numeral_2_eq_2

lemmas play_scheduler_simps = new_system_def new_service_def new_thread_def caller_at_def thread_at_def waiter_ok_def Scheduler_Steps.blocked_def
  queued_def owned_def post_deferred_completions_def work_started_def init_task_def call_act_def goes_def do_act.simps
  enter_def do_run_one_def start_operation_def on_svc_def on_thread_def wake_one_thread_and_unlock_def push_ops_def
  maybe_unlock_and_signal_one_def unlock_and_signal_one_def wake_waiter_def event_set_def event_clear_def event_unset_def
  interrupt_task_def

end
