(* ===== verification/Reactor_Properties.thy ===== *)
theory Reactor_Properties
  imports Epoll_Model
begin

text \<open>
  What holds of every execution of the reactor and the scheduler together, over any kernel with the laws
  of an edge-triggered \<open>epoll\<close>, and what goes wrong when a descriptor's state is used again before the
  descriptor is closed.
\<close>

section \<open>Reachable states\<close>

lemma io_ok_new: "bare_reactor S epfd r w \<Longrightarrow> io_ok S epfd (new_io_world n concurrency_hint r w)"
  by (auto simp: bare_reactor_def new_io_world_def io_ok_def store_ok_def kernel_ok_def ops_ok_def wd_waiting_def
      waiting_ops_def heard_def)

lemma distinct_concat_short:
  assumes "distinct xs" "\<And>x y d. x \<in> set xs \<Longrightarrow> y \<in> set xs \<Longrightarrow> d \<in> set (f x) \<Longrightarrow> d \<in> set (f y) \<Longrightarrow> x = y"
    "\<And>x. distinct (f x)"
  shows "distinct (concat (map f xs))"
  using assms(1,2)
proof (induction xs)
  case (Cons x xs)
  have "distinct (concat (map f xs))" using Cons.IH Cons.prems by (simp add: Cons.prems(2))
  moreover have "set (f x) \<inter> set (f y) = {}" if "y \<in> set xs" for y
    using Cons.prems that by fastforce
  ultimately show ?case using assms(3) by auto
qed simp

lemma fetched_once:
  assumes laws: "edge_laws S epfd" and k: "kernel_ok S w r ss cl" and d: "distinct (map snd (ss @ cl))"
    and wt: "ek_epoll_wait (st_kernel S) epfd n t w = (evs, w1)"
  shows "distinct (states_of evs)"
proof -
  let ?f = "\<lambda>x. case x of Some (State_Data d) \<Rightarrow> [d] | _ \<Rightarrow> []" and ?g = "\<lambda>fd. map_option snd (st_interest S w fd)"
  obtain fds where fds: "distinct fds" "map ?g fds = map (\<lambda>ev. Some (snd ev)) evs"
    using edge_laws.wait [OF laws wt] by blast
  have "states_of evs = concat (map ?f (map (\<lambda>ev. Some (snd ev)) evs))" by (simp add: states_of_def comp_def)
  also have "\<dots> = concat (map (\<lambda>fd. ?f (?g fd)) fds)" by (simp add: comp_def flip: fds(2))
  finally have e: "states_of evs = concat (map (\<lambda>fd. ?f (?g fd)) fds)" .
  have known: "(fd, e) \<in> set (ss @ cl)" if "e \<in> set (?f (?g fd))" for fd e
  proof -
    from that obtain m where "st_interest S w fd = Some (m, State_Data e)"
      by (cases "st_interest S w fd") (auto split: event_data.splits)
    with k show ?thesis unfolding kernel_ok_def by blast
  qed
  show ?thesis
    unfolding e
  proof (rule distinct_concat_short [OF fds(1)])
    show "fd = fd'" if "e \<in> set (?f (?g fd))" "e \<in> set (?f (?g fd'))" for fd fd' e
    proof -
      have "inj_on snd (set (ss @ cl))" using d unfolding distinct_map by blast
      from inj_onD [OF this, of "(fd, e)" "(fd', e)"] known [OF that(1)] known [OF that(2)] show ?thesis by simp
    qed
  qed (auto split: option.splits event_data.splits)
qed

lemma distinct_fewer: "distinct (map f (xs @ ys)) \<Longrightarrow> distinct (map f (remove1 p xs @ ys))"
  using distinct_map_remove1 [of f "xs @ ys" p] by (cases "p \<in> set xs") (simp_all only: remove1_append if_True remove1_idem not_False_eq_True)

lemma distinct_moved:
  assumes "p \<in> set xs"
  shows "distinct (map f (remove1 p xs @ p # ys)) = distinct (map f (xs @ ys))"
proof -
  have "mset (p # remove1 p xs) = mset xs" using assms by simp
  then have "image_mset f (mset (p # remove1 p xs)) = image_mset f (mset xs)" by simp
  then have "mset (map f (remove1 p xs @ p # ys)) = mset (map f (xs @ ys))" by (simp del: mset_remove1)
  then show ?thesis by (rule mset_eq_imp_distinct_iff)
qed

lemma calm_ok_step:
  assumes laws: "edge_laws S epfd" and ok: "io_ok S epfd v" and calm: "calm_ok S v" and step: "io_step S quiet True v v1"
  shows "calm_ok S v1"
  using step
proof cases
  case (register i L F created fd err d r1 w1)
  note inv = io_okD [OF ok]
  obtain L1 F1 where "pool_is (pool (wd_reactor v)) L1 F1" "snd ` set (sockets v) \<subseteq> set L1" using inv(2) by (auto simp: store_ok_def)
  with pool_is_unique [OF register(4)] register_works(1) [OF register(6,4,5)] have "d \<notin> snd ` set (sockets v)" by blast
  with register calm show ?thesis by (auto simp: calm_ok_def)
next
  case (deregister i fd d is_closing calls data r1 w1)
  have "distinct (map snd (sockets v @ closing v))" using calm by (simp add: calm_ok_def)
  with distinct_fewer [of snd "sockets v" "closing v" "(fd, d)"] distinct_moved [OF deregister(3), of snd "closing v"]
  have "distinct (map snd (remove1 (fd, d) (sockets v) @ (if is_closing then (fd, d) # closing v else closing v)))" by simp
  with calm show ?thesis by (simp add: deregister(1) calm_ok_def del: map_append distinct_append)
next
  case (closed fd d w1)
  have "distinct (map snd (closing v @ sockets v))" using calm by (auto simp: calm_ok_def)
  from distinct_fewer [OF this, of "(fd, d)"] calm show ?thesis by (auto simp: closed(1) calm_ok_def)
next
  case (fetch i c b now evs w1)
  note inv = io_okD [OF ok]
  obtain t where "ek_epoll_wait (st_kernel S) epfd 128 t (wd_os v) = (evs, w1)"
    using fetch(4) inv(1) by (auto simp: fetch_events_def split: if_splits)
  with fetched_once [OF laws inv(3)] calm fetch show ?thesis by (auto simp: calm_ok_def)
qed (use calm in \<open>simp_all add: calm_ok_def\<close>)

lemma io_reachable_ok:
  assumes "edge_laws S epfd" "io_reachable S epfd quiet True v"
  shows "io_ok S epfd v \<and> reachable quiet (wd_sched v) \<and> calm_ok S v"
  using assms(2)
proof induction
  case (start r w n concurrency_hint)
  then show ?case
    using io_ok_new reachable.start by (auto simp: new_io_world_def calm_ok_def)
next
  case (step v v1)
  then show ?case using io_ok_step [OF assms(1)] calm_ok_step [OF assms(1)] by blast
qed

section \<open>Theorems\<close>

text \<open>Socket 5 is opened and read from, and has data when the other thread is in the reactor.\<close>

definition open_socket :: "world_move list" where
  "open_socket = [Thread_Calls 0 Init_Task, Thread_Goes 0 0, Thread_Calls 0 (Start_Work True), Thread_Goes 0 0, Opens 0 [] [] 5 100]"

definition readable_run :: "world_move list" where
  "readable_run = open_socket @ [Starts 0 5 100 15 True, Thread_Enters 1 Run, Thread_Goes 1 0, Becomes_Ready 5 0, Fetches 1]"

lemma readable_reachable: "io_reachable model_setting 4 True True (world_after True True readable_run)"
  by (rule world_after_reachable) code_simp

text \<open>
  C28. No readiness is lost, as long as no socket is opened between another's leaving the reactor and its
  close, and \<open>epoll_ctl\<close> does not fail where \<open>start_op\<close> does not look at its result. In every such
  execution of threads that run handlers and the reactor, open and close sockets and start and cancel
  operations, over any kernel with the documented behaviour of edge-triggered \<open>epoll\<close>: when an operation waits for a descriptor and the descriptor is ready for it,
  the descriptor is registered for these events, and either the kernel still has the edge to report or
  the event is on its way: fetched, in the scheduler's queue with the descriptor, or with a thread that
  is about to perform the operations.
\<close>

theorem no_lost_readiness:
  assumes "edge_laws S epfd" "io_reachable S epfd quiet True v" "(fd, d) \<in> set (sockets v)" "j < max_ops"
    "op_queues (states (wd_reactor v) d) ! j \<noteq> []" "st_ready S (wd_os v) fd j"
  shows "armed S (wd_os v) fd j \<and> (st_pending S (wd_os v) fd j \<or> signalled v d j)"
proof -
  have "heard S v" using io_reachable_ok [OF assms(1,2)] io_okD(5) by blast
  from heard_sock [OF this assms(3) _ assms(5)] assms(4,6) show ?thesis by (auto simp: max_ops_def silent_def)
qed

theorem no_lost_readiness_witness:
  "op_queues (states (wd_reactor (world_after True True readable_run)) 100) = [[15], [], []]
   \<and> \<not> st_pending model_setting (wd_os (world_after True True readable_run)) 5 0
   \<and> signalled (world_after True True readable_run) 100 0"
proof -
  let ?v = "world_after True True readable_run"
  have w: "sockets ?v = [(5, 100)]" "op_queues (states (wd_reactor ?v) 100) = [[15], [], []]"
    "st_ready model_setting (wd_os ?v) 5 0" "\<not> st_pending model_setting (wd_os ?v) 5 0" by code_simp+
  with no_lost_readiness [OF model.edge_laws_axioms readable_reachable, of 5 100 0] show ?thesis
    by (simp add: max_ops_def)
qed

text \<open>
  C29. The reactor keeps its side of the scheduler's contract, under the same two conditions as before: an
  execution of the two together, with any number of sockets and over any kernel with the laws, is an execution of the scheduler alone, so that
  what holds of those holds here. The operations that wait for descriptors are all different, none of them
  is queued in the scheduler, and for each the scheduler has counted a unit of work.
\<close>

theorem reactor_keeps_contract:
  assumes "edge_laws S epfd" "io_reachable S epfd quiet True v"
  shows "reachable quiet (wd_sched v) \<and> distinct (wd_waiting v)
    \<and> (\<forall>x \<in> set (wd_waiting v). Handler x \<notin> set (queued (wd_sched v))) \<and> length (wd_waiting v) \<le> held (wd_sched v)"
  using io_reachable_ok [OF assms] io_okD(4) [of S epfd v] by (auto simp: ops_ok_def)

theorem reactor_keeps_contract_witness:
  "wd_waiting (world_after True True readable_run) = [15] \<and> held (wd_sched (world_after True True readable_run)) = 2
   \<and> reachable True (wd_sched (world_after True True readable_run))"
proof -
  have "wd_waiting (world_after True True readable_run) = [15]" "held (wd_sched (world_after True True readable_run)) = 2" by code_simp+
  with reactor_keeps_contract [OF model.edge_laws_axioms readable_reachable] show ?thesis by simp
qed

text \<open>
  C30. As long as no socket is opened between another's leaving the reactor and its close (and \<open>epoll_ctl\<close>
  does not fail unnoticed in \<open>start_op\<close>), the events of one wait are for different descriptor states, and none of these is still in a queue of the scheduler.
  The state has room for one event only and, as an operation, for one queue only, so that this is what
  the reactor needs to queue them.
\<close>

theorem events_handed_once:
  assumes "edge_laws S epfd" "io_reachable S epfd quiet True v" "thread_at i (In_Task c b) (wd_sched v)" "fetched v = Some evs"
    and "fst (dispatch_events evs check (wd_reactor v)) = ds"
  shows "distinct ds \<and> set (map Descriptor ds) \<inter> set (queued (wd_sched v)) = {}"
proof -
  have "calm_ok S v" and rs: "reachable quiet (wd_sched v)"
    using io_reachable_ok [OF assms(1,2)] io_reachable_ok [OF assms(1,2)] by auto
  then have "distinct ds" using assms(4) by (simp add: calm_ok_def dispatched flip: assms(5))
  moreover have "Descriptor e \<notin> set (queued (wd_sched v))" for e
    using no_descriptor_queued [OF queues_ok_reachable [OF rs] books_ok_reachable [OF rs] assms(3), of e] by (simp add: queued_iff)
  ultimately show ?thesis by auto
qed

theorem events_handed_once_witness:
  "fetched (world_after True True readable_run) = Some [(EPOLLIN, State_Data 100)]
   \<and> fst (dispatch_events [(EPOLLIN, State_Data 100)] False (wd_reactor (world_after True True readable_run))) = [100]
   \<and> Descriptor 100 \<notin> set (queued (wd_sched (world_after True True readable_run)))"
proof -
  let ?v = "world_after True True readable_run"
  have w: "fetched ?v = Some [(EPOLLIN, State_Data 100)]" "thread_at 1 (In_Task Run True) (wd_sched ?v)"
    "fst (dispatch_events [(EPOLLIN, State_Data 100)] False (wd_reactor ?v)) = [100]" by code_simp+
  from events_handed_once [OF model.edge_laws_axioms readable_reachable w(2,1,3)] w show ?thesis by simp
qed

text \<open>
  Sockets 5 and 7 are open, and an operation waits for 7. Thread 0 takes 5 out of the reactor, and before it
  closes it thread 1 opens 6, which gets the state of 5, and goes on to run the reactor, where data has come
  for all three.
\<close>

definition race_run :: "world_move list" where
  "race_run = [Opens 0 [] [] 5 100, Opens 0 [100] [] 7 102, Starts 0 7 102 21 True, Thread_Calls 0 Init_Task,
     Thread_Goes 0 0, Leaves 0 5 100 True, Opens 1 [102] [100] 6 104, Thread_Enters 1 Run, Thread_Goes 1 0,
     Becomes_Ready 5 0, Becomes_Ready 7 0, Becomes_Ready 6 0, Fetches 1]"

lemma race_played:
  "\<exists>v. play_io True False race_run first_world = Some v \<and> op_queues (states (wd_reactor v) 102) = [[21], [], []]
    \<and> silent model_setting (wd_os v) 7 0
    \<and> fetched v = Some [(EPOLLIN, State_Data 100), (EPOLLIN, State_Data 102), (EPOLLIN, State_Data 100)]"
  by (simp add: race_run_def; simp add: play_reactor_simps play_scheduler_simps silent_model)

lemma race_handed:
  "\<exists>v. play_io True False (race_run @ [Hands 1]) first_world = Some v \<and> op_queues (states (wd_reactor v) 102) = [[21], [], []]
    \<and> silent model_setting (wd_os v) 7 0 \<and> sockets v = [(6, 100), (7, 102)] \<and> queued (wd_sched v) = [Descriptor 100]
    \<and> fetched v = None \<and> map place (threads (wd_sched v)) = [Outside, Task_Done Run]"
  by (simp add: race_run_def; simp add: play_reactor_simps play_scheduler_simps silent_model task_ran_def linked_def push_linked_def)

text \<open>
  C31. When a socket is opened in that interval, an event can be lost. A socket leaves the reactor, which
  gives its descriptor state back and, as the close of the descriptor is to remove it from \<open>epoll\<close>, leaves
  the registration; before the close, another thread opens a socket, which gets the state. Then one wait
  reports the state twice, with the event of another socket between. The queue of the reactor, after these
  three pushes and that of the task's operation (at address 0), holds the state and the task's operation:
  the other socket, for which an operation waits, is not in it any more. After the hand-over its edge has
  been reported, and its event is neither fetched nor queued nor with any thread.
\<close>

theorem closing_race_drops_event:
  "io_reachable model_setting 4 True False (world_after True False race_run)
   \<and> op_queues (states (wd_reactor (world_after True False race_run)) 102) = [[21], [], []]
   \<and> silent model_setting (wd_os (world_after True False race_run)) 7 0
   \<and> (\<exists>evs. fetched (world_after True False race_run) = Some evs
        \<and> fst (dispatch_events evs False (wd_reactor (world_after True False race_run))) = [100, 102, 100])
   \<and> chain (snd (pushed [100, 102, 100, 0])) (front_ptr (fst (pushed [100, 102, 100, 0]))) [100, 0]
   \<and> io_reachable model_setting 4 True False (world_after True False (race_run @ [Hands 1]))
   \<and> (7, 102) \<in> set (sockets (world_after True False (race_run @ [Hands 1])))
   \<and> op_queues (states (wd_reactor (world_after True False (race_run @ [Hands 1]))) 102) = [[21], [], []]
   \<and> silent model_setting (wd_os (world_after True False (race_run @ [Hands 1]))) 7 0
   \<and> \<not> signalled (world_after True False (race_run @ [Hands 1])) 102 0"
proof -
  from race_played obtain v where v: "play_io True False race_run first_world = Some v"
    "op_queues (states (wd_reactor v) 102) = [[21], [], []]" "silent model_setting (wd_os v) 7 0"
    "fetched v = Some [(EPOLLIN, State_Data 100), (EPOLLIN, State_Data 102), (EPOLLIN, State_Data 100)]" by blast
  from race_handed obtain v1 where v1: "play_io True False (race_run @ [Hands 1]) first_world = Some v1"
    "op_queues (states (wd_reactor v1) 102) = [[21], [], []]" "silent model_setting (wd_os v1) 7 0" "(7, 102) \<in> set (sockets v1)"
    "queued (wd_sched v1) = [Descriptor 100]" "fetched v1 = None" "map place (threads (wd_sched v1)) = [Outside, Task_Done Run]"
    by auto
  have "world_after True False race_run = v" "world_after True False (race_run @ [Hands 1]) = v1"
    using v(1) v1(1) by (simp_all add: world_after_def)
  moreover have "io_reachable model_setting 4 True False v" "io_reachable model_setting 4 True False v1"
    using play_io_reachable [OF v(1) first_world_reachable] play_io_reachable [OF v1(1) first_world_reachable] .
  moreover have "chain (snd (pushed [100, 102, 100, 0])) (front_ptr (fst (pushed [100, 102, 100, 0]))) [100, 0]" by code_simp
  moreover have "\<not> signalled v1 102 0"
  proof -
    have "\<not> takes (wd_sched v1) i 102" for i
    proof
      assume "takes (wd_sched v1) i 102"
      then obtain c where "In_Op c (Descriptor 102) False \<in> set (map place (threads (wd_sched v1)))"
        by (force simp: takes_def in_set_conv_nth)
      with v1(7) show False by simp
    qed
    with v1(5,6) show ?thesis by (simp add: signalled_def)
  qed
  ultimately show ?thesis using v(2,3,4) v1(2-4) by (simp add: dispatched states_of_def)
qed

end
