(* ===== verification/Local_Node.thy ===== *)
theory Local_Node
  imports Remote_Node
begin

text \<open>
  The operations of \<open>LocalNode\<close> (\<open>src/LocalNode.cpp\<close>) that call other nodes, as programs: lookup,
  join, the periodic maintenance and the request handler. A call through a \<open>Node\<close> pointer goes to
  the local or the remote class by what the pointer is. Loops and the recursion of
  \<open>findSuccessor\<close> on the same object carry fuel.
\<close>

section \<open>Calls through a node pointer\<close>

definition dispatch :: "node_ptr \<Rightarrow> 'a prog \<Rightarrow> (inode \<Rightarrow> 'a prog) \<Rightarrow> 'a prog" where
  "dispatch n here remote =
     (case n of
        None \<Rightarrow> Fail (UndefinedBehaviour NullDereference)
      | Some This \<Rightarrow> here
      | Some (Remote k d) \<Rightarrow> remote d)"

definition getPredecessor :: "node_ptr \<Rightarrow> node_ptr prog" where
  "getPredecessor n = dispatch n (atomic get_predecessor) RemoteNode_getPredecessor"

definition getSuccessor :: "node_ptr \<Rightarrow> node_ptr prog" where
  "getSuccessor n = dispatch n (atomic get_successor) RemoteNode_getSuccessor"

section \<open>Lookup\<close>

text \<open>The loop runs from slot \<open>M - 1\<close> down; the second argument is the number of slots left.\<close>

fun cpf_loop :: "ID \<Rightarrow> nat \<Rightarrow> node_ptr prog" where
  "cpf_loop i 0 = this_pointer"
| "cpf_loop i (Suc j) =
     bind_prog (atomic (read_finger j)) (\<lambda>f.
       if f \<noteq> None
       then
         bind_prog (deref f) (\<lambda>d.
         bind_prog this_inode (\<lambda>me.
           if isInInterval (nd_id d) (nd_id me) i then Ret f else cpf_loop i j))
       else cpf_loop i j)"

definition LocalNode_closestPrecedingFinger :: "ID \<Rightarrow> node_ptr prog" where
  "LocalNode_closestPrecedingFinger i = cpf_loop i M"

definition closestPrecedingFinger :: "node_ptr \<Rightarrow> ID \<Rightarrow> node_ptr prog" where
  "closestPrecedingFinger n i =
     dispatch n (LocalNode_closestPrecedingFinger i) (\<lambda>d. RemoteNode_closestPrecedingFinger d i)"

fun LocalNode_findSuccessor :: "nat \<Rightarrow> ID \<Rightarrow> node_ptr prog" where
  "LocalNode_findSuccessor 0 i = OutOfFuel"
| "LocalNode_findSuccessor (Suc k) i =
     bind_prog this_inode (\<lambda>me.
       if eq_ID (nd_id me) i then this_pointer
       else
         bind_prog (atomic get_successor) (\<lambda>s.
         bind_prog (deref s) (\<lambda>d.
           if isInInterval i (nd_id me) (nd_id d) \<or> eq_ID i (nd_id d) then Ret s
           else
             bind_prog (LocalNode_closestPrecedingFinger i) (\<lambda>n.
               dispatch n (LocalNode_findSuccessor k i) (\<lambda>d. RemoteNode_findSuccessor d i)))))"

definition findSuccessor :: "nat \<Rightarrow> node_ptr \<Rightarrow> ID \<Rightarrow> node_ptr prog" where
  "findSuccessor k n i =
     dispatch n (LocalNode_findSuccessor k i) (\<lambda>d. RemoteNode_findSuccessor d i)"

text \<open>\<open>getSuccessor\<close> is called again by the second half of the loop's condition.\<close>

fun findPredecessor_loop :: "nat \<Rightarrow> ID \<Rightarrow> node_ptr \<Rightarrow> node_ptr prog" where
  "findPredecessor_loop 0 i n = OutOfFuel"
| "findPredecessor_loop (Suc k) i n =
     bind_prog (deref n) (\<lambda>nd.
     bind_prog (getSuccessor n) (\<lambda>s.
     bind_prog (deref s) (\<lambda>d.
       if isInInterval i (nd_id nd) (nd_id d) then Ret n
       else
         bind_prog (getSuccessor n) (\<lambda>s'.
         bind_prog (deref s') (\<lambda>d'.
           if eq_ID i (nd_id d') then Ret n
           else bind_prog (closestPrecedingFinger n i) (findPredecessor_loop k i))))))"

definition LocalNode_findPredecessor :: "nat \<Rightarrow> ID \<Rightarrow> node_ptr prog" where
  "LocalNode_findPredecessor k i = bind_prog this_pointer (findPredecessor_loop k i)"

section \<open>Joining and maintenance\<close>

definition LocalNode_join :: "nat \<Rightarrow> node_ptr \<Rightarrow> unit prog" where
  "LocalNode_join k n =
     bind_prog (deref n) (\<lambda>nd.
     bind_prog (atomic (set_predecessor None)) (\<lambda>u.
     bind_prog this_inode (\<lambda>me.
     bind_prog (findSuccessor k n (nd_id me)) (\<lambda>s.
       atomic (set_successor s)))))"

definition LocalNode_notify :: "node_ptr \<Rightarrow> unit prog" where
  "LocalNode_notify n =
     bind_prog (deref n) (\<lambda>nd.
     bind_prog (atomic get_predecessor) (\<lambda>p.
       if p = None then atomic (set_predecessor n)
       else
         bind_prog (atomic get_predecessor) (\<lambda>p'.
         bind_prog (deref p') (\<lambda>pd.
         bind_prog this_inode (\<lambda>me.
           if isInInterval (nd_id nd) (nd_id pd) (nd_id me)
           then atomic (set_predecessor n) else Ret ())))))"

definition notify :: "node_ptr \<Rightarrow> node_ptr \<Rightarrow> unit prog" where
  "notify n arg = dispatch n (LocalNode_notify arg) (\<lambda>d. RemoteNode_notify d arg)"

definition LocalNode_ping :: "bool prog" where
  "LocalNode_ping = Ret True"

definition ping :: "node_ptr \<Rightarrow> bool prog" where
  "ping n = dispatch n LocalNode_ping RemoteNode_ping"

fun ping_loop :: "nat \<Rightarrow> node_ptr \<Rightarrow> unit prog" where
  "ping_loop 0 s = OutOfFuel"
| "ping_loop (Suc k) s =
     bind_prog (ping s) (\<lambda>b.
       if b = False
       then
         bind_prog (atomic (forget_finger s)) (\<lambda>u.
         bind_prog (atomic get_successor) (ping_loop k))
       else Ret ())"

definition LocalNode_stabilize :: "nat \<Rightarrow> unit prog" where
  "LocalNode_stabilize k =
     bind_prog (atomic get_successor) (\<lambda>s.
     bind_prog (ping_loop k s) (\<lambda>u.
     bind_prog (bind_prog (atomic get_successor) getPredecessor) (\<lambda>x.
     bind_prog
       (if x \<noteq> None
        then
          bind_prog (deref x) (\<lambda>xd.
          bind_prog this_inode (\<lambda>me.
          bind_prog (bind_prog (atomic get_successor) deref) (\<lambda>sd.
            if isInInterval (nd_id xd) (nd_id me) (nd_id sd)
            then atomic (set_successor x) else Ret ())))
        else Ret ()) (\<lambda>u.
     bind_prog (atomic get_successor) (\<lambda>s.
     bind_prog this_pointer (\<lambda>t.
       notify s t))))))"

text \<open>\<open>r\<close> is the value of \<open>rand()\<close>.\<close>

definition finger_index :: "u32 \<Rightarrow> nat" where
  "finger_index r = unat (r mod (of_nat M - 2) + 1)"

definition LocalNode_fixFingers :: "nat \<Rightarrow> u32 \<Rightarrow> unit prog" where
  "LocalNode_fixFingers k r =
     bind_prog (atomic (finger_start (finger_index r))) (\<lambda>sID.
     bind_prog (LocalNode_findSuccessor k sID) (\<lambda>n.
     bind_prog
       (if n \<noteq> None
        then
          bind_prog (deref n) (\<lambda>d.
          bind_prog this_inode (\<lambda>me.
            if eq_ID (nd_id d) (nd_id me) then this_pointer else Ret n))
        else Ret n) (\<lambda>n.
       atomic (write_finger (finger_index r) n))))"

definition LocalNode_checkPredecessor :: "unit prog" where
  "LocalNode_checkPredecessor =
     bind_prog (atomic get_predecessor) (\<lambda>n.
       if n \<noteq> None
       then
         bind_prog this_pointer (\<lambda>t.
           if \<not> same_pointer n t
           then
             bind_prog (ping n) (\<lambda>b.
               if b = False then atomic (set_predecessor None) else Ret ())
           else Ret ())
       else Ret ())"

definition LocalNode_receive :: "bytes \<Rightarrow> unit prog" where
  "LocalNode_receive message = atomic (receive_here message)"

definition receive :: "node_ptr \<Rightarrow> bytes \<Rightarrow> unit prog" where
  "receive n message =
     dispatch n (LocalNode_receive message) (\<lambda>d. RemoteNode_receive d message)"

text \<open>One round of the periodic thread; \<open>binds\<close> is whether a restarted server gets its port.\<close>

definition LocalNode_periodic :: "nat \<Rightarrow> u32 \<Rightarrow> bool \<Rightarrow> unit prog" where
  "LocalNode_periodic k r binds =
     bind_prog LocalNode_checkPredecessor (\<lambda>u.
     bind_prog (LocalNode_stabilize k) (\<lambda>u.
     bind_prog (LocalNode_fixFingers k r) (\<lambda>u.
       update (restart_server binds))))"

section \<open>The request handler\<close>

text \<open>\<open>length - offset\<close> with \<open>offset = 1\<close>, a \<open>size_t\<close>.\<close>

definition rest_length :: "nat \<Rightarrow> nat" where
  "rest_length len = (len + (2 ^ 64 - 1)) mod 2 ^ 64"

definition reply_serial :: "node_ptr \<Rightarrow> bytes prog" where
  "reply_serial n = bind_prog (deref n) (\<lambda>d. Ret (serialize d))"

definition optional_node :: "bytes \<Rightarrow> nat \<Rightarrow> node_ptr prog" where
  "optional_node rest len =
     (if rest_length len = 0 then Ret None else new_RemoteNode rest (rest_length len))"

text \<open>
  The switch on the RPC code. \<open>message\<close> is the whole array and \<open>len\<close> how many bytes were read
  into it; a wrong length is only logged. The result is the response, empty for none.
\<close>

definition handle_code :: "nat \<Rightarrow> bytes \<Rightarrow> nat \<Rightarrow> bytes prog" where
  "handle_code k message len =
     (let rest = drop 1 message in
      case char_code (message ! 0) of
        Some FIND_PREDECESSOR \<Rightarrow>
          bind_prog (lift_result (chars_ID rest)) (\<lambda>i.
          bind_prog (LocalNode_findPredecessor k i) reply_serial)
      | Some FIND_SUCCESSOR \<Rightarrow>
          bind_prog (lift_result (chars_ID rest)) (\<lambda>i.
          bind_prog (LocalNode_findSuccessor k i) reply_serial)
      | Some CLOSEST_PRECEDING_FINGER \<Rightarrow>
          bind_prog (lift_result (chars_ID rest)) (\<lambda>i.
          bind_prog (LocalNode_closestPrecedingFinger i) reply_serial)
      | Some NOTIFY \<Rightarrow>
          bind_prog (new_RemoteNode rest (rest_length len)) (\<lambda>n.
          bind_prog (LocalNode_notify n) (\<lambda>u. Ret []))
      | Some GET_PREDECESSOR \<Rightarrow> bind_prog (atomic get_predecessor) reply_serial
      | Some SET_PREDECESSOR \<Rightarrow>
          bind_prog (optional_node rest len) (\<lambda>n.
          bind_prog (atomic (set_predecessor n)) (\<lambda>u. Ret []))
      | Some GET_SUCCESSOR \<Rightarrow> bind_prog (atomic get_successor) reply_serial
      | Some SET_SUCCESSOR \<Rightarrow>
          bind_prog (optional_node rest len) (\<lambda>n.
          bind_prog (atomic (set_successor n)) (\<lambda>u. Ret []))
      | Some GET_ID \<Rightarrow> bind_prog this_inode (\<lambda>me. Ret (c_str (nd_id me)))
      | Some RECEIVE \<Rightarrow>
          if rest_length len \<ge> 2 ^ 62 then Fail LengthError
          else bind_prog (atomic (receive_here (take (rest_length len) rest))) (\<lambda>u. Ret [])
      | Some JOIN \<Rightarrow> Ret []
      | Some STABILIZE \<Rightarrow> Ret []
      | Some FIX_FINGER \<Rightarrow> Ret []
      | Some PING \<Rightarrow> Ret []
      | None \<Rightarrow> Ret [])"

text \<open>The header of a response is its length as a char; one that is not positive is not sent.\<close>

definition respond :: "bytes \<Rightarrow> bytes" where
  "respond response =
     (let responseLength = size_to_char (length response)
      in if char_to_int responseLength > 0 then responseLength # response else [])"

text \<open>What the handler writes to a connection on which it can read \<open>st\<close>.\<close>

definition handleRequest :: "nat \<Rightarrow> bytes \<Rightarrow> bytes prog" where
  "handleRequest k st =
     catch_prog
       (case asio_read st 1 of (header, st1, eof) \<Rightarrow>
          if eof then Ret []
          else
            let messageLength = char_to_int (hd header)
            in case asio_read st1 (buffer_size messageLength) of (got, st2, eof2) \<Rightarrow>
                 if eof2 then Ret []
                 else
                   let message = got @ replicate (MAX_DATA_LENGTH - length got) 0
                   in bind_prog (handle_code k message (length got)) (\<lambda>response. Ret (respond response)))
       (\<lambda>e. Ret [])"

end
