(* ===== verification/Chat_Client.thy ===== *)
theory Chat_Client
  imports Local_Node
begin

text \<open>
  The class \<open>ChatClient\<close> of \<open>src/ChatClient.h\<close> and \<open>src/ChatClient.cpp\<close>: the console loop, the
  reading of a line into a command, and the sending of a message to the node found for a name.
  The client's node pointer \<open>_n\<close> is the local node of the process, \<open>Some This\<close>.
\<close>

section \<open>Sending\<close>

text \<open>The pointer a lookup returns is dereferenced without a test.\<close>

definition ChatClient_send :: "nat \<Rightarrow> ID \<Rightarrow> bytes \<Rightarrow> bool prog" where
  "ChatClient_send k i message =
     bind_prog (findSuccessor k (Some This) i) (\<lambda>n.
     bind_prog (deref n) (\<lambda>d.
       if eq_ID (nd_id d) i then bind_prog (receive n message) (\<lambda>u. Ret True) else Ret False))"

section \<open>Printing\<close>

definition print_out :: "bytes \<Rightarrow> unit prog" where
  "print_out t = update (\<lambda>s. s\<lparr>ln_out := ln_out s @ t\<rparr>)"

definition print_err :: "bytes \<Rightarrow> unit prog" where
  "print_err t = update (\<lambda>s. s\<lparr>ln_err := ln_err s @ t\<rparr>)"

text \<open>\<open>std::endl\<close> is a newline; 34 is a double quote, 9 a tab.\<close>

definition usage_text :: "bytes \<Rightarrow> bytes" where
  "usage_text name =
     cstr ''Welcome to Chord Chat!'' @ [10]
     @ cstr ''Usage'' @ [9]
     @ cstr ''- to send a message, type the recipients name followed by a double'' @ [10]
     @ [9] @ cstr ''  colon, then your chat message (e.g. '' @ [34] @ cstr ''bob: hi bob!'' @ [34]
     @ cstr '')'' @ [10]
     @ [9] @ cstr ''- for help, type '' @ [34] @ cstr ''help'' @ [34, 10]
     @ [9] @ cstr ''- to quit, type '' @ [34] @ cstr ''quit'' @ [34] @ cstr '' or '' @ [34]
     @ cstr ''exit'' @ [34, 10]
     @ cstr ''Your name is '' @ [39] @ name @ [39] @ cstr ''.'' @ [10]"

definition ChatClient_printUsage :: "unit prog" where
  "ChatClient_printUsage = bind_prog this_inode (\<lambda>me. print_out (usage_text (nd_name me)))"

section \<open>A line\<close>

datatype command =
    Quit
  | Help
  | Nothing
  | NoRecipient
  | NoMessage
  | Message bytes ID bytes

definition parse_line :: "bytes \<Rightarrow> command result" where
  "parse_line input =
     (let line = trim input in
      if str_find line (cstr ''exit'') = Some 0 \<or> str_find line (cstr ''quit'') = Some 0
      then Inr Quit
      else if str_find line (cstr ''help'') = Some 0 then Inr Help
      else if length line = 0 then Inr Nothing
      else
        case str_find line (cstr '':'') of
          None \<Rightarrow> Inr NoRecipient
        | Some colon \<Rightarrow>
            bind_result (str_substr line 0 (of_nat colon)) (\<lambda>n.
            let name = trim n in
            if length name = 0 then Inr NoRecipient
            else
              bind_result (string_ID (replicate 64 0) name) (\<lambda>i.
              bind_result (str_from line (colon + 1)) (\<lambda>m.
              let message = trim m in
              if length message = 0 then Inr NoMessage else Inr (Message name i message)))))"

text \<open>What one line does; the result is whether the loop is left.\<close>

definition ChatClient_line :: "nat \<Rightarrow> bytes \<Rightarrow> bool prog" where
  "ChatClient_line k line =
     bind_prog (lift_result (parse_line line)) (\<lambda>c.
       case c of
         Quit \<Rightarrow>
           bind_prog (print_err (cstr ''Exiting... Thanks for playing!'' @ [10])) (\<lambda>u. Ret True)
       | Help \<Rightarrow> bind_prog ChatClient_printUsage (\<lambda>u. Ret False)
       | Nothing \<Rightarrow> Ret False
       | NoRecipient \<Rightarrow>
           bind_prog (print_err (cstr ''Error - please specify recipient.'' @ [10])) (\<lambda>u. Ret False)
       | NoMessage \<Rightarrow>
           bind_prog (print_err (cstr ''Error - no message given.'' @ [10])) (\<lambda>u. Ret False)
       | Message name i message \<Rightarrow>
           bind_prog this_inode (\<lambda>me.
           bind_prog (ChatClient_send k i (cstr ''(from '' @ nd_name me @ cstr '') '' @ message)) (\<lambda>found.
             if \<not> found
             then
               bind_prog
                 (print_err (cstr ''Error - could not find user with name '' @ [34] @ name @ [34]
                    @ cstr ''.'' @ [10]))
                 (\<lambda>u. Ret False)
             else Ret False)))"

section \<open>The loop\<close>

text \<open>
  \<open>std::getline\<close> on a stream with \<open>rest\<close> unread characters. A line that the end of the input
  cuts off is delivered and leaves the stream not good; from then on the string is not touched.
\<close>

definition getline :: "bytes \<Rightarrow> bool \<Rightarrow> bytes \<Rightarrow> bytes \<times> bool \<times> bytes" where
  "getline rest good line =
     (if \<not> good then (rest, False, line)
      else if 10 \<in> set rest
      then (drop 1 (dropWhile (\<lambda>c. c \<noteq> 10) rest), True, takeWhile (\<lambda>c. c \<noteq> 10) rest)
      else ([], False, rest))"

fun ChatClient_loop :: "nat \<Rightarrow> nat \<Rightarrow> bytes \<Rightarrow> bool \<Rightarrow> bytes \<Rightarrow> unit prog" where
  "ChatClient_loop k 0 rest good line = OutOfFuel"
| "ChatClient_loop k (Suc n) rest good line =
     bind_prog (print_out (cstr ''> '')) (\<lambda>u.
       case getline rest good line of
         (rest', good', line') \<Rightarrow>
           bind_prog (ChatClient_line k line') (\<lambda>quit.
             if quit then Ret () else ChatClient_loop k n rest' good' (trim line')))"

definition ChatClient_run :: "nat \<Rightarrow> nat \<Rightarrow> bytes \<Rightarrow> unit prog" where
  "ChatClient_run k n input =
     bind_prog ChatClient_printUsage (\<lambda>u. ChatClient_loop k n input True [])"

text \<open>The constructors: the receive function is set, and only then can messages be received.\<close>

definition new_ChatClient :: "unit prog" where
  "new_ChatClient = update setReceiveFunction"

definition named_ChatClient :: "bytes \<Rightarrow> bytes \<Rightarrow> u32 \<Rightarrow> local_node result" where
  "named_ChatClient name host port =
     bind_result (new_LocalNode name host port) (\<lambda>s.
       Inr (setReceiveFunction (own_LocalNode s)))"

section \<open>Reading a line\<close>

lemma trim_suffix_prefix: "\<exists>a b. s = a @ trim s @ b"
proof -
  have "s = takeWhile isspace s @ dropWhile isspace s" by simp
  moreover have "dropWhile isspace s = trim s @ rev (takeWhile isspace (rev (dropWhile isspace s)))"
    by (simp add: trim_conv flip: rev_append)
  ultimately show ?thesis by metis
qed

lemma length_trim: "length (trim s) \<le> length s"
proof -
  obtain a b where "s = a @ trim s @ b" using trim_suffix_prefix by blast
  then have "length s = length (a @ trim s @ b)" by simp
  then show ?thesis by simp
qed

lemma str_substr_prefix:
  "k \<le> length s \<Longrightarrow> length s < 2 ^ 64 \<Longrightarrow> str_substr s 0 (of_nat k) = Inr (take k s)"
  by (simp add: str_substr_def unat_of_nat take_bit_nat_eq_self)

text \<open>A line with a name, a colon and a message, whatever blanks surround them.\<close>

lemma parse_message_line:
  assumes "trim input = name @ cstr '':'' @ message" and "58 \<notin> set name"
    and "trim name \<noteq> []" and "trim message \<noteq> []" and "length input < 2 ^ 31"
    and "\<forall>w \<in> {''exit'', ''quit'', ''help''}. take 4 (trim input) \<noteq> cstr w"
  shows "parse_line input = Inr (Message (trim name) (sha1_ID (trim name)) (trim message))"
proof -
  have line: "trim input = name @ 58 # message" using assms(1) by simp
  have len: "length (trim input) < 2 ^ 31" using length_trim [of input] assms(5) by simp
  have find: "str_find (trim input) [58] = Some (length name)"
    unfolding line by (rule str_find_char_append [OF assms(2)])
  have words: "str_find (trim input) (cstr ''exit'') \<noteq> Some 0" "str_find (trim input) (cstr ''quit'') \<noteq> Some 0"
      "str_find (trim input) (cstr ''help'') \<noteq> Some 0"
    using assms(6) by (simp_all add: str_find_prefix numeral_eq_Suc)
  have name: "string_ID (replicate 64 0) (trim name) = Inr (sha1_ID (trim name))"
    using assms(3) length_trim [of name] len line by (intro string_ID_name) simp_all
  have cut: "str_substr (trim input) 0 (of_nat (length name)) = Inr name"
    using str_substr_prefix [of "length name" "trim input"] len line by simp
  have rest: "str_from (trim input) (Suc (length name)) = Inr message"
    by (simp add: str_from_def line)
  show ?thesis
    using words find name cut rest assms(3,4) line
    by (simp add: parse_line_def Let_def)
qed

section \<open>Properties\<close>

text \<open>
  A line with a name, a colon and a message is a message for the hash of the trimmed name,
  unless its first letters are those of a command.
\<close>

lemma message_line:
  assumes "trim input = name @ cstr '':'' @ message" and "58 \<notin> set name"
    and "trim name \<noteq> []" and "trim message \<noteq> []" and "length input < 2 ^ 31"
    and "\<forall>w \<in> {''exit'', ''quit'', ''help''}. take 4 (trim input) \<noteq> cstr w"
  shows "parse_line input = Inr (Message (trim name) (sha1_ID (trim name)) (trim message))"
  by (rule parse_message_line [OF assms])

lemma message_line_witness:
  "parse_line (cstr '' bob : hi bob '') = Inr (Message (cstr ''bob'') (sha1_ID (cstr ''bob'')) (cstr ''hi bob''))"
  using message_line [of "cstr '' bob : hi bob ''" "cstr ''bob ''" "cstr '' hi bob''"]
  by (simp add: trim_def ltrim_def rtrim_def isspace_def)

text \<open>
  The loop is left exactly on the lines that begin, after blanks, with \<open>exit\<close> or \<open>quit\<close>; so a
  message to a user whose name begins like that is never sent.
\<close>

lemma quit_lines:
  "parse_line input = Inr Quit \<longleftrightarrow> take 4 (trim input) \<in> {cstr ''exit'', cstr ''quit''}"
  by (auto simp: parse_line_def Let_def str_find_prefix numeral_eq_Suc bind_result_eq_Inr split: option.splits if_splits)

end
