(* ===== verification/Chord_Chat.thy ===== *)
theory Chord_Chat
  imports Chat_Client
begin

text \<open>
  The program's entry point, \<open>src/ChordChat.cpp\<close>: the command line, the node strings
  \<open>name@host:port\<close>, and \<open>main\<close>.
\<close>

section \<open>Node strings\<close>

definition node_string_error :: "string \<Rightarrow> bytes \<Rightarrow> 'a result" where
  "node_string_error what str = Inl (RuntimeError (cstr what @ str))"

text \<open>The fields of a node string; the counts given to \<open>substr\<close> are differences of \<open>size_t\<close>.\<close>

definition createNodeFromString :: "bytes \<Rightarrow> (bytes \<times> bytes \<times> u32) result" where
  "createNodeFromString str =
     (case str_find str (cstr ''@'') of
        None \<Rightarrow> node_string_error (''Invalid node string, no '' @ [CHR 0x27] @ ''@'' @ [CHR 0x27] @ '' symbol: '') str
      | Some nameSep \<Rightarrow>
          bind_result (str_substr str 0 (of_nat nameSep)) (\<lambda>n.
          let name = trim n in
          if length name = 0 then node_string_error ''Invalid node string, no name given: '' str
          else
            case str_find str (cstr '':'') of
              None \<Rightarrow> node_string_error (''Invalid node string, no '' @ [CHR 0x27] @ '':'' @ [CHR 0x27] @ '' symbol: '') str
            | Some hostSep \<Rightarrow>
                bind_result (str_substr str (nameSep + 1) (of_nat hostSep - (of_nat nameSep + 1))) (\<lambda>h.
                let host = trim h in
                if length host = 0 then node_string_error ''Invalid node string, no host given: '' str
                else
                  bind_result (str_substr str (hostSep + 1) (of_nat (length str) - (of_nat hostSep + 1))) (\<lambda>p.
                  let portStr = trim p in
                  if length portStr = 0
                  then node_string_error ''Invalid node string, no port given: '' str
                  else
                    bind_result (atoi (c_string portStr)) (\<lambda>port.
                      Inr (name, host, of_int port))))))"

definition local_from_string :: "bytes \<Rightarrow> local_node result" where
  "local_from_string str =
     bind_result (createNodeFromString str) (\<lambda>(name, host, port).
     bind_result (new_LocalNode name host port) (\<lambda>s. Inr (own_LocalNode s)))"

definition remote_from_string :: "bytes \<Rightarrow> inode result" where
  "remote_from_string str =
     bind_result (createNodeFromString str) (\<lambda>(name, host, port). new_INode name host port)"

section \<open>main\<close>

text \<open>
  \<open>main\<close> creates the local node, and with it its process, from the first argument; what it
  then does in that process is a program. \<open>Usage\<close> and \<open>Failed\<close> end without a local node and hold
  what is printed; \<open>Aborted\<close> is a failed assertion or undefined behaviour.
\<close>

datatype startup = Usage bytes | Failed bytes | Aborted cxx_error | Started local_node "unit prog"

definition printUsage :: bytes where
  "printUsage =
     cstr ''Usage:'' @ [9] @ cstr ''ChordChat name@host:port <name@host:port>'' @ [10]
     @ [9] @ cstr ''where:'' @ [10]
     @ [9, 9] @ cstr ''name@host:port is the configuration for this local node, and'' @ [10]
     @ [9, 9] @ cstr ''<name@host:port> is an optional remote node to join.'' @ [10]"

text \<open>\<open>e.what()\<close>; the texts of the library's own exceptions are given by \<open>what\<close>.\<close>

definition exception_text :: "(cxx_error \<Rightarrow> bytes) \<Rightarrow> cxx_error \<Rightarrow> bytes" where
  "exception_text what e = (case e of RuntimeError m \<Rightarrow> m | _ \<Rightarrow> what e)"

definition main_body ::
  "(cxx_error \<Rightarrow> bytes) \<Rightarrow> nat \<Rightarrow> nat \<Rightarrow> bytes option \<Rightarrow> bytes \<Rightarrow> unit prog"
where
  "main_body what k n remote input =
     catch_prog
       (bind_prog
         (case remote of
            None \<Rightarrow> Ret ()
          | Some str \<Rightarrow>
              bind_prog (lift_result (remote_from_string str)) (\<lambda>d.
              bind_prog (atomic (allocate d)) (\<lambda>r.
                LocalNode_join k (Some r))))
         (\<lambda>u. bind_prog new_ChatClient (\<lambda>u. ChatClient_run k n input)))
       (\<lambda>e. print_err (cstr ''Exception: '' @ exception_text what e @ [10]))"

definition main :: "(cxx_error \<Rightarrow> bytes) \<Rightarrow> nat \<Rightarrow> nat \<Rightarrow> bytes list \<Rightarrow> bytes \<Rightarrow> startup" where
  "main what k n argv input =
     (let argc = length argv in
      if argc < 2 \<or> argc > 3 then Usage printUsage
      else
        case local_from_string (argv ! 1) of
          Inl e \<Rightarrow>
            if is_exception e then Failed (cstr ''Exception: '' @ exception_text what e @ [10])
            else Aborted e
        | Inr s \<Rightarrow> Started s (main_body what k n (if argc = 3 then Some (argv ! 2) else None) input))"

section \<open>Reading a node string\<close>

lemma unat_diff_1:
  assumes "a < h" and "h < 2 ^ 63"
  shows "unat (of_nat h - (of_nat a + 1) :: u64) = h - (a + 1)"
proof -
  have "(of_nat h - (of_nat a + 1) :: u64) = of_nat (h - (a + 1))"
    using assms(1) by (subst of_nat_diff) simp_all
  moreover have "h - (a + 1) < 2 ^ 64" using assms(2) by simp
  ultimately show ?thesis by (simp only: unat_of_nat take_bit_nat_eq_self) simp
qed

lemma node_string_fields:
  assumes "64 \<notin> set name" and "58 \<notin> set (name @ host)" and "trim name \<noteq> []" and "trim host \<noteq> []"
    and "length (name @ host) < 2 ^ 31" and "port < 2 ^ 31"
  shows "createNodeFromString (name @ cstr ''@'' @ host @ cstr '':'' @ dec_number port)
     = Inr (trim name, trim host, of_nat port)"
proof -
  let ?str = "name @ 64 # host @ 58 # dec_number port"
  have p: "length (dec_number port) \<le> 10"
    using assms(6) by (intro length_dec_number) simp_all
  obtain c u where du: "dec_number port = c # u" "isdigit c" by (rule dec_number_Cons)
  have tp: "trim (dec_number port) = dec_number port"
    by (rule trim_no_space) (auto dest: dec_number_digits isdigit_facts)
  have num: "atoi (c_string (c # u)) = Inr (int port)"
    using atoi_dec_number [OF assms(6)] c_string_dec_number [of port] du by simp
  have at: "str_find ?str [64] = Some (length name)"
    by (rule str_find_char_append [OF assms(1)])
  have colon: "str_find ?str [58] = Some (Suc (length name + length host))"
    using str_find_char_append [of 58 "name @ 64 # host" "dec_number port"] assms(2) by simp
  have n: "str_substr ?str 0 (of_nat (length name)) = Inr name"
    using str_substr_prefix [of "length name" ?str] assms(5) p by simp
  have h: "str_substr ?str (Suc (length name))
      (of_nat (Suc (length name + length host)) - (of_nat (length name) + 1)) = Inr host"
    using unat_diff_1 [of "length name" "Suc (length name + length host)"] assms(5)
    by (simp add: str_substr_def del: of_nat_Suc)
  have q: "str_substr ?str (Suc (Suc (length name + length host)))
      (of_nat (length ?str) - (of_nat (Suc (length name + length host)) + 1)) = Inr (dec_number port)"
    using unat_diff_1 [of "Suc (length name + length host)" "length ?str"] assms(5) p du
    by (simp add: str_substr_def del: of_nat_Suc)
  show ?thesis
    using at colon n h q assms(3,4) tp du num
    by (simp add: createNodeFromString_def Let_def del: of_nat_Suc)
qed

text \<open>A node string with the colon before the at sign: the count for the host wraps around.\<close>

lemma unat_wrap: "a < b \<Longrightarrow> b < 2 ^ 63 \<Longrightarrow> unat (of_nat a - of_nat b :: u64) = 2 ^ 64 - (b - a)"
proof -
  assume ab: "a < b" "b < 2 ^ 63"
  then have "b < 2 ^ 64" "a < 2 ^ 64" by simp_all
  then have "unat (of_nat b :: u64) = b" "unat (of_nat a :: u64) = a"
    by (simp_all only: unat_of_nat take_bit_nat_eq_self) simp_all
  with ab show ?thesis by (simp add: unat_sub_if')
qed

lemma node_string_swapped:
  assumes "58 \<notin> set name" and "64 \<notin> set name" and "trim host \<noteq> []"
    and "length (name @ host) < 2 ^ 31" and "port < 2 ^ 31"
  shows "createNodeFromString (name @ cstr '':'' @ dec_number port @ cstr ''@'' @ host)
     = Inr (trim (name @ cstr '':'' @ dec_number port), trim host, of_nat port)"
proof -
  let ?p = "dec_number port"
  let ?str = "name @ 58 # ?p @ 64 # host"
  obtain c u where du: "?p = c # u" "isdigit c" by (rule dec_number_Cons)
  have len: "length ?p \<le> 10" using assms(5) by (intro length_dec_number) simp_all
  have nodigit: "\<not> isdigit 64" "\<not> isdigit 58" "\<not> isspace 64" "\<not> isspace 58" by (simp_all add: isdigit_def isspace_def)
  have at: "str_find ?str [64] = Some (Suc (length name + length ?p))"
    using str_find_char_append [of 64 "name @ 58 # ?p" host] assms(2) nodigit dec_number_digits by fastforce
  have colon: "str_find ?str [58] = Some (length name)"
    by (rule str_find_char_append [OF assms(1)])
  have n: "str_substr ?str 0 (of_nat (Suc (length name + length ?p))) = Inr (name @ 58 # ?p)"
    using str_substr_prefix [of "Suc (length name + length ?p)" ?str] assms(4) len by (simp del: of_nat_Suc)
  have name: "trim (name @ 58 # ?p) \<noteq> []"
    using trim_not_Nil [of 58 "name @ 58 # ?p"] nodigit(4) by simp
  have h: "str_substr ?str (Suc (Suc (length name + length ?p)))
      (of_nat (length name) - (of_nat (Suc (length name + length ?p)) + 1)) = Inr host"
    using unat_wrap [of "length name" "Suc (Suc (length name + length ?p))"] assms(4) len
    by (simp add: str_substr_def)
  have q: "str_substr ?str (Suc (length name)) (of_nat (length ?str) - (of_nat (length name) + 1))
      = Inr (?p @ 64 # host)"
    using unat_diff_1 [of "length name" "length ?str"] assms(4) len
    by (simp add: str_substr_def del: of_nat_Suc)
  have tq: "trim (?p @ 64 # host) = ?p @ 64 # rev (dropWhile isspace (rev host))"
    using du isdigit_facts(1) nodigit(3) by (intro trim_inner) simp_all
  have cq: "c_string (?p @ 64 # r) = ?p @ 64 # c_string r" for r
    using c_string_dec_number [of port] unfolding c_string_def
    by (subst takeWhile_append2) (auto dest: dec_number_digits isdigit_facts)
  have num: "atoi (c_string (?p @ 64 # r)) = Inr (int port)" for r
    unfolding cq by (rule atoi_prefix [OF assms(5) nodigit(1)])
  show ?thesis
    using at colon n h q tq num assms(3) name
    by (simp add: createNodeFromString_def Let_def del: of_nat_Suc)
qed

text \<open>The process a well-formed node string starts.\<close>

lemma local_from_node_string:
  assumes "64 \<notin> set name" and "58 \<notin> set (name @ host)" and "trim name \<noteq> []" and "trim host \<noteq> []"
    and "length (name @ host) < 2 ^ 31" and "port < 2 ^ 31"
  shows "local_from_string (name @ cstr ''@'' @ host @ cstr '':'' @ dec_number port)
     = Inr (own_LocalNode (init \<lparr>nd_name = trim name, nd_host = trim host, nd_port = of_nat port,
         nd_id = sha1_ID (trim name)\<rparr>))"
proof -
  have "string_ID (replicate 64 0) (trim name) = Inr (sha1_ID (trim name))"
    using assms(3,5) length_trim [of name] by (intro string_ID_name) simp_all
  then show ?thesis
    using node_string_fields [OF assms]
    by (simp add: local_from_string_def new_LocalNode_def new_INode_def)
qed

section \<open>Properties\<close>

text \<open>
  The node string made of a name, a host and a decimal port is read back as these three,
  trimmed of blanks.
\<close>

lemma node_string_roundtrip:
  assumes "64 \<notin> set name" and "58 \<notin> set (name @ host)" and "trim name \<noteq> []" and "trim host \<noteq> []"
    and "length (name @ host) < 2 ^ 31" and "port < 2 ^ 31"
  shows "createNodeFromString (name @ cstr ''@'' @ host @ cstr '':'' @ dec_number port)
     = Inr (trim name, trim host, of_nat port)"
  by (rule node_string_fields [OF assms])

lemma node_string_roundtrip_witness:
  "createNodeFromString (cstr ''bob @ h:'' @ dec_number 80) = Inr (cstr ''bob'', cstr ''h'', 80)"
  using node_string_roundtrip [of "cstr ''bob ''" "cstr '' h''" 80]
  by (simp add: trim_def ltrim_def rtrim_def isspace_def)

text \<open>
  With the colon before the at sign the length of the host wraps around, so the string is
  accepted: what follows the at sign is the host and the name keeps the colon and the port.
\<close>

lemma colon_before_at:
  assumes "58 \<notin> set name" and "64 \<notin> set name" and "trim host \<noteq> []"
    and "length (name @ host) < 2 ^ 31" and "port < 2 ^ 31"
  shows "createNodeFromString (name @ cstr '':'' @ dec_number port @ cstr ''@'' @ host)
     = Inr (trim (name @ cstr '':'' @ dec_number port), trim host, of_nat port)"
  by (rule node_string_swapped [OF assms])

end
