(* ===== verification/Node_Invariant.thy ===== *)
theory Node_Invariant
  imports Chord_Chat
begin

text \<open>
  The invariant of a process's \<open>LocalNode\<close> and the proof that every atomic access of every
  operation keeps it. \<open>keeps\<close> is a Hoare-style judgement on programs: from any state that
  satisfies the invariant each access leads to one, whatever other threads did in between and
  whatever the peers answered. Theory \<open>Network\<close> lifts it to all interleavings.
\<close>

section \<open>The invariant\<close>

text \<open>A node record as the constructors make it: the identifier is the hash of the name.\<close>

definition named :: "inode \<Rightarrow> bool" where
  "named d \<longleftrightarrow> nd_name d \<noteq> [] \<and> nd_id d = sha1_ID (nd_name d)"

fun good_node :: "node \<Rightarrow> bool" where
  "good_node This = True"
| "good_node (Remote i d) = named d"

text \<open>A pointer the local node stores: the node itself is only ever reached through \<open>This\<close>.\<close>

fun stored_node :: "inode \<Rightarrow> node \<Rightarrow> bool" where
  "stored_node this This = True"
| "stored_node this (Remote i d) = (named d \<and> nd_id d \<noteq> nd_id this)"

definition good_ptr :: "node_ptr \<Rightarrow> bool" where
  "good_ptr p \<longleftrightarrow> (\<forall>n. p = Some n \<longrightarrow> good_node n)"

definition stored_ptr :: "inode \<Rightarrow> node_ptr \<Rightarrow> bool" where
  "stored_ptr this p \<longleftrightarrow> (\<forall>n. p = Some n \<longrightarrow> stored_node this n)"

definition node_ok :: "inode \<Rightarrow> local_node \<Rightarrow> bool" where
  "node_ok this s \<longleftrightarrow>
     ln_inode s = this \<and> named this \<and> ln_shared s
     \<and> full_table (ln_finger s) \<and> ft_id (ln_finger s) = nd_id this
     \<and> entries (ln_finger s) ! (M - 1) = None
     \<and> (\<forall>e \<in> set (entries (ln_finger s)). stored_ptr this e)
     \<and> stored_ptr this (ln_predecessor s)"

lemma ptr_simps [simp]:
  "good_ptr None" "stored_ptr this None"
  "good_ptr (Some n) = good_node n" "stored_ptr this (Some n) = stored_node this n"
  by (simp_all add: good_ptr_def stored_ptr_def)

lemma stored_node_good: "stored_node this n \<Longrightarrow> good_node n"
  by (cases n) simp_all

lemma stored_ptr_good: "stored_ptr this p \<Longrightarrow> good_ptr p"
  by (cases p) (auto intro: stored_node_good)

section \<open>Construction\<close>

lemma new_INode_named:
  assumes "new_INode name host port = Inr d" and "length name < 2 ^ 31"
  shows "named d" and "nd_name d = name" and "nd_host d = host" and "nd_port d = port"
proof -
  obtain i where i: "string_ID (replicate 64 0) name = Inr i"
      and d: "d = \<lparr>nd_name = name, nd_host = host, nd_port = port, nd_id = i\<rparr>"
    using assms(1) by (auto simp: new_INode_def bind_result_eq_Inr)
  from i have "name \<noteq> []" using string_ID_empty by auto
  with i assms(2) string_ID_name [of name] have "i = sha1_ID name" by simp
  with d \<open>name \<noteq> []\<close> show "named d" "nd_name d = name" "nd_host d = host" "nd_port d = port"
    by (simp_all add: named_def)
qed

lemma read_field_length: "read_field m p = Inr (f, q) \<Longrightarrow> length f < 128"
proof -
  have "nat (char_to_int c) < 128" for c
    using unat_add_128 [of c] unat_byte_less [of "c + 0x80"] by linarith
  then show "read_field m p = Inr (f, q) \<Longrightarrow> length f < 128"
    by (fastforce simp: read_field_def Let_def split: if_splits)
qed

lemma parse_INode_named:
  assumes "parse_INode m l = Inr d"
  shows "named d"
proof -
  obtain name p i where f: "read_field m 0 = Inr (name, p)"
      and i: "string_ID (replicate 64 0) name = Inr i" and d: "nd_name d = name" "nd_id d = i"
    using assms by (auto simp: parse_INode_def bind_result_eq_Inr)
  have "name \<noteq> []" using i string_ID_empty by auto
  moreover have "length name < 2 ^ 31" using read_field_length [OF f] by simp
  ultimately show ?thesis using i d string_ID_name [of name] by (simp add: named_def)
qed

lemma init_ok: "named d \<Longrightarrow> node_ok d (own_LocalNode (init d))"
  by (simp add: node_ok_def init_def own_LocalNode_def setId_def new_FingerTable_def full_table_def)

section \<open>Atomic accesses\<close>

lemma node_ok_thisPtr: "node_ok this s \<Longrightarrow> thisPtr s = (Inr This, s)"
  by (simp add: node_ok_def thisPtr_def)

lemma own_pointer_eq:
  assumes "node_ok this s"
  shows "own_pointer n s =
    (Inr (case n of Some (Remote i d) \<Rightarrow> if nd_id d = nd_id this then Some This else n | _ \<Rightarrow> n), s)"
  using assms node_ok_thisPtr [OF assms]
  by (auto simp: own_pointer_def get_id_def node_ok_def split: option.split node.split)

lemma own_pointer_stored:
  "good_ptr n \<Longrightarrow>
     stored_ptr this (case n of Some (Remote i d) \<Rightarrow> if nd_id d = nd_id this then Some This else n | _ \<Rightarrow> n)"
  by (auto split: option.split node.split)

lemma node_ok_predecessor:
  "node_ok this s \<Longrightarrow> stored_ptr this p \<Longrightarrow> node_ok this (s\<lparr>ln_predecessor := p\<rparr>)"
  by (simp add: node_ok_def)

lemma node_ok_setNode:
  assumes "node_ok this s" and "i < M - 1" and "stored_ptr this p"
  shows "setNode (ln_finger s) i p = Inr ((ln_finger s)\<lparr>entries := (entries (ln_finger s))[i := p]\<rparr>)"
    and "node_ok this (s\<lparr>ln_finger := (ln_finger s)\<lparr>entries := (entries (ln_finger s))[i := p]\<rparr>\<rparr>)"
proof -
  show "setNode (ln_finger s) i p = Inr ((ln_finger s)\<lparr>entries := (entries (ln_finger s))[i := p]\<rparr>)"
    using assms(2) by (simp add: setNode_def)
  have "set ((entries (ln_finger s))[i := p]) \<subseteq> insert p (set (entries (ln_finger s)))"
    by (rule set_update_subset_insert)
  then show "node_ok this (s\<lparr>ln_finger := (ln_finger s)\<lparr>entries := (entries (ln_finger s))[i := p]\<rparr>\<rparr>)"
    using assms by (auto simp: node_ok_def full_table_def)
qed

lemma node_ok_full: "node_ok this s \<Longrightarrow> full_table (ln_finger s)"
  by (simp add: node_ok_def)

lemma node_ok_getNode:
  assumes "node_ok this s" and "i < M"
  shows "\<exists>p. getNode past (ln_finger s) i = Inr p \<and> stored_ptr this p"
proof -
  have "getNode past (ln_finger s) i = Inr (first_some (drop i (entries (ln_finger s))))"
    using getNode_first [OF node_ok_full [OF assms(1)] assms(2)] .
  moreover have "stored_ptr this (first_some (drop i (entries (ln_finger s))))"
    using assms(1) first_some_in [of "drop i (entries (ln_finger s))"]
    by (cases "first_some (drop i (entries (ln_finger s)))") (fastforce simp: node_ok_def dest: in_set_dropD)+
  ultimately show ?thesis by blast
qed

text \<open>An access that keeps the invariant and whose value, when there is one, satisfies \<open>Q\<close>.\<close>

definition keeps_act :: "inode \<Rightarrow> ('a \<Rightarrow> bool) \<Rightarrow> 'a action \<Rightarrow> bool" where
  "keeps_act this Q f \<longleftrightarrow>
     (\<forall>s. node_ok this s \<longrightarrow> node_ok this (snd (f s)) \<and> (\<forall>x. fst (f s) = Inr x \<longrightarrow> Q x))"

named_theorems keeps \<open>operations that keep the invariant of a node\<close>

lemma keeps_get_predecessor [keeps]: "keeps_act this (stored_ptr this) get_predecessor"
  by (simp add: keeps_act_def get_predecessor_def node_ok_def)

lemma keeps_set_predecessor [keeps]: "good_ptr n \<Longrightarrow> keeps_act this (\<lambda>u. True) (set_predecessor n)"
  using own_pointer_stored [of n this]
  by (simp add: keeps_act_def set_predecessor_def own_pointer_eq node_ok_predecessor)

text \<open>The successor pointer is never null.\<close>

lemma get_successor_eq:
  assumes "node_ok this s"
  shows "get_successor s =
    (case first_some (entries (ln_finger s)) of
       Some n \<Rightarrow> (Inr (Some n), s)
     | None \<Rightarrow> (Inr (Some This),
         s\<lparr>ln_finger := (ln_finger s)\<lparr>entries := (entries (ln_finger s))[0 := Some This]\<rparr>\<rparr>))"
proof -
  let ?t = "(ln_finger s)\<lparr>entries := (entries (ln_finger s))[0 := Some This]\<rparr>"
  note set = node_ok_setNode [OF assms, of 0 "Some This", simplified]
  have t: "full_table (ln_finger s)" "full_table ?t"
    using node_ok_full [OF assms] by (simp_all add: full_table_def)
  have "entries (ln_finger s) \<noteq> []" using t(1) by (auto simp: full_table_def)
  then have "first_some (entries ?t) = Some This" by (cases "entries (ln_finger s)") simp_all
  with getNode_first [OF t(2), of 0] have new: "getNode past ?t 0 = Inr (Some This)" for past
    by simp
  show ?thesis
    using getNode_first [OF t(1), of 0] set(1) new
    by (simp add: get_successor_def node_ok_thisPtr [OF assms] split: option.split)
qed

lemma keeps_get_successor [keeps]:
  "keeps_act this (\<lambda>p. stored_ptr this p \<and> p \<noteq> None) get_successor"
proof -
  have "stored_ptr this (Some n)" if "node_ok this s" "first_some (entries (ln_finger s)) = Some n" for s n
    using that first_some_in [OF that(2)] by (auto simp: node_ok_def)
  then show ?thesis
    using node_ok_setNode(2) [of this _ 0 "Some This"]
    by (auto simp: keeps_act_def get_successor_eq split: option.split)
qed

lemma keeps_set_successor [keeps]: "good_ptr n \<Longrightarrow> keeps_act this (\<lambda>u. True) (set_successor n)"
  using own_pointer_stored [of n this]
  by (simp add: keeps_act_def set_successor_def own_pointer_eq node_ok_setNode)

lemma keeps_read_finger [keeps]: "i < M \<Longrightarrow> keeps_act this (stored_ptr this) (read_finger i)"
  using node_ok_getNode [of this _ i False] by (fastforce simp: keeps_act_def read_finger_def)

lemma keeps_write_finger [keeps]:
  "i < M - 1 \<Longrightarrow> stored_ptr this n \<Longrightarrow> keeps_act this (\<lambda>u. True) (write_finger i n)"
  by (simp add: keeps_act_def write_finger_def node_ok_setNode)

lemma keeps_forget_finger [keeps]: "keeps_act this (\<lambda>u. True) (forget_finger n)"
  by (auto simp: keeps_act_def forget_finger_def node_ok_def removeNode_def full_table_def)

lemma keeps_finger_start [keeps]: "keeps_act this (\<lambda>i. True) (finger_start k)"
  by (simp add: keeps_act_def finger_start_def)

lemma keeps_allocate [keeps]: "named d \<Longrightarrow> keeps_act this good_node (allocate d)"
  by (auto simp: keeps_act_def allocate_def node_ok_def)

lemma keeps_thisPtr [keeps]: "keeps_act this (\<lambda>n. n = This) thisPtr"
  by (simp add: keeps_act_def node_ok_thisPtr)

lemma keeps_receive_here [keeps]: "keeps_act this (\<lambda>u. True) (receive_here m)"
  by (simp add: keeps_act_def receive_here_def receiveMessage_def node_ok_def)

lemma node_ok_threads [simp]:
  "node_ok this (server_start b s) = node_ok this s"
  "node_ok this (server_accept s) = node_ok this s"
  "node_ok this (restart_server b s) = node_ok this s"
  "node_ok this (periodic_exit s) = node_ok this s"
  "node_ok this (request_stop s) = node_ok this s"
  "node_ok this (setReceiveFunction s) = node_ok this s"
  "node_ok this (s\<lparr>ln_out := t\<rparr>) = node_ok this s"
  "node_ok this (s\<lparr>ln_err := t\<rparr>) = node_ok this s"
  by (simp_all add: node_ok_def server_start_def server_accept_def restart_server_def
      periodic_exit_def request_stop_def setReceiveFunction_def)

section \<open>Programs\<close>

primrec keeps_prog :: "inode \<Rightarrow> ('a \<Rightarrow> bool) \<Rightarrow> 'a prog \<Rightarrow> bool" where
  "keeps_prog this Q (Ret x) = Q x"
| "keeps_prog this Q (Fail e) = True"
| "keeps_prog this Q OutOfFuel = True"
| "keeps_prog this Q (Act u k) =
     (\<forall>s. node_ok this s \<longrightarrow> node_ok this (u s) \<and> keeps_prog this Q (k s))"
| "keeps_prog this Q (Exchange h p m w k) = (\<forall>r. keeps_prog this Q (k r))"

lemma keeps_weaken: "keeps_prog this P m \<Longrightarrow> (\<And>x. P x \<Longrightarrow> Q x) \<Longrightarrow> keeps_prog this Q m"
  by (induction m) auto

lemma keeps_bind:
  "keeps_prog this P m \<Longrightarrow> (\<And>x. P x \<Longrightarrow> keeps_prog this Q (f x)) \<Longrightarrow> keeps_prog this Q (bind_prog m f)"
  by (induction m) auto

lemma keeps_catch:
  "keeps_prog this Q m \<Longrightarrow> (\<And>e. keeps_prog this Q (h e)) \<Longrightarrow> keeps_prog this Q (catch_prog m h)"
  by (induction m) auto

lemma keeps_lift: "(\<And>x. r = Inr x \<Longrightarrow> Q x) \<Longrightarrow> keeps_prog this Q (lift_result r)"
  by (cases r) simp_all

lemma keeps_atomic: "keeps_act this Q f \<Longrightarrow> keeps_prog this Q (atomic f)"
  by (auto simp: keeps_act_def atomic_def intro: keeps_lift)

lemma keeps_this_inode: "keeps_prog this (\<lambda>d. d = this) this_inode"
  by (simp add: this_inode_def node_ok_def)

lemma keeps_update: "(\<And>s. node_ok this s \<Longrightarrow> node_ok this (f s)) \<Longrightarrow> keeps_prog this (\<lambda>u. True) (update f)"
  by (simp add: update_def)

lemma keeps_this_pointer: "keeps_prog this (\<lambda>p. p = Some This) this_pointer"
  unfolding this_pointer_def by (rule keeps_bind [OF keeps_atomic [OF keeps_thisPtr]]) simp

lemma keeps_deref: "keeps_prog this (\<lambda>d. True) (deref p)"
  by (auto simp: deref_def this_inode_def node_ok_def split: option.split node.split)

lemma keeps_dispatch:
  assumes "keeps_prog this Q here" and "\<And>i d. n = Some (Remote i d) \<Longrightarrow> keeps_prog this Q (remote d)"
  shows "keeps_prog this Q (dispatch n here remote)"
  using assms by (auto simp: dispatch_def split: option.split node.split)

section \<open>Remote operations\<close>

lemma keeps_sendMessage: "keeps_prog this (\<lambda>r. True) (sendMessage d m w t)"
  by (auto simp: sendMessage_def Let_def split: option.split sum.split)

lemma keeps_new_RemoteNode: "keeps_prog this good_ptr (new_RemoteNode m l)"
  unfolding new_RemoteNode_def
  by (rule keeps_bind [OF keeps_lift [where Q = named]], erule parse_INode_named)
    (rule keeps_bind [OF keeps_atomic [OF keeps_allocate]], simp_all)

lemma keeps_reply_node: "keeps_prog this good_ptr (reply_node r)"
  by (simp add: reply_node_def keeps_new_RemoteNode)

lemma keeps_query: "keeps_prog this good_ptr (bind_prog (sendMessage d m w t) reply_node)"
  by (rule keeps_bind [OF keeps_sendMessage keeps_reply_node])

lemma keeps_post: "keeps_prog this (\<lambda>u. True) (bind_prog (sendMessage d m w t) (\<lambda>r. Ret ()))"
  by (rule keeps_bind [OF keeps_sendMessage]) simp

lemmas remote_operations =
  RemoteNode_findPredecessor_def RemoteNode_findSuccessor_def RemoteNode_closestPrecedingFinger_def
  RemoteNode_getPredecessor_def RemoteNode_getSuccessor_def

lemma keeps_remote_query:
  "keeps_prog this good_ptr (RemoteNode_findPredecessor d i)"
  "keeps_prog this good_ptr (RemoteNode_findSuccessor d i)"
  "keeps_prog this good_ptr (RemoteNode_closestPrecedingFinger d i)"
  "keeps_prog this good_ptr (RemoteNode_getPredecessor d)"
  "keeps_prog this good_ptr (RemoteNode_getSuccessor d)"
  by (simp_all add: remote_operations keeps_query)

lemma keeps_remote_post:
  "keeps_prog this (\<lambda>u. True) (RemoteNode_notify d n)"
  "keeps_prog this (\<lambda>u. True) (RemoteNode_receive d m)"
  unfolding RemoteNode_notify_def RemoteNode_receive_def
  by (rule keeps_bind [OF keeps_deref keeps_post]) (rule keeps_post)

lemma keeps_remote_ping: "keeps_prog this (\<lambda>b. True) (RemoteNode_ping d)"
  unfolding RemoteNode_ping_def
  by (rule keeps_catch [OF keeps_bind [OF keeps_sendMessage]]) simp_all

section \<open>Local operations\<close>

lemma keeps_getPredecessor: "keeps_prog this good_ptr (getPredecessor n)"
  unfolding getPredecessor_def
  by (rule keeps_dispatch)
    (auto intro: keeps_remote_query keeps_weaken [OF keeps_atomic [OF keeps_get_predecessor]] stored_ptr_good)

lemma keeps_successor: "keeps_prog this (\<lambda>p. stored_ptr this p \<and> p \<noteq> None) (atomic get_successor)"
  by (rule keeps_atomic [OF keeps_get_successor])

lemma keeps_getSuccessor: "keeps_prog this good_ptr (getSuccessor n)"
  unfolding getSuccessor_def
  by (rule keeps_dispatch)
    (auto intro: keeps_remote_query keeps_weaken [OF keeps_successor] stored_ptr_good)

lemma keeps_cpf_loop: "j \<le> M \<Longrightarrow> keeps_prog this (stored_ptr this) (cpf_loop i j)"
proof (induction j)
  case 0
  show ?case by (auto intro: keeps_weaken [OF keeps_this_pointer])
next
  case (Suc j)
  then have IH: "keeps_prog this (stored_ptr this) (cpf_loop i j)" and j: "j < M" by simp_all
  show ?case
    unfolding cpf_loop.simps
    by (rule keeps_bind [OF keeps_atomic [OF keeps_read_finger [OF j]]])
      (auto intro!: IH keeps_bind [OF keeps_deref] keeps_bind [OF keeps_this_inode] stored_ptr_good)
qed

lemma keeps_LocalNode_closestPrecedingFinger:
  "keeps_prog this (stored_ptr this) (LocalNode_closestPrecedingFinger i)"
  unfolding LocalNode_closestPrecedingFinger_def by (rule keeps_cpf_loop) simp

lemma keeps_closestPrecedingFinger: "keeps_prog this good_ptr (closestPrecedingFinger n i)"
  unfolding closestPrecedingFinger_def
  by (rule keeps_dispatch)
    (auto intro: keeps_remote_query keeps_weaken [OF keeps_LocalNode_closestPrecedingFinger] stored_ptr_good)

lemma keeps_LocalNode_findSuccessor: "keeps_prog this good_ptr (LocalNode_findSuccessor k i)"
proof (induction k)
  case (Suc k)
  show ?case
    unfolding LocalNode_findSuccessor.simps
    by (rule keeps_bind [OF keeps_this_inode])
      (auto intro!: Suc keeps_bind [OF keeps_successor] keeps_bind [OF keeps_deref]
        keeps_bind [OF keeps_LocalNode_closestPrecedingFinger] keeps_dispatch keeps_remote_query
        intro: stored_ptr_good stored_node_good keeps_weaken [OF keeps_this_pointer])
qed simp

lemma keeps_findSuccessor: "keeps_prog this good_ptr (findSuccessor k n i)"
  unfolding findSuccessor_def
  by (rule keeps_dispatch) (auto intro: keeps_remote_query keeps_LocalNode_findSuccessor)

lemma keeps_findPredecessor_loop: "good_ptr n \<Longrightarrow> keeps_prog this good_ptr (findPredecessor_loop k i n)"
proof (induction k arbitrary: n)
  case (Suc k)
  show ?case
    unfolding findPredecessor_loop.simps
    using Suc.prems
    by (intro keeps_bind [OF keeps_deref])
      (auto intro!: Suc keeps_bind [OF keeps_getSuccessor] keeps_bind [OF keeps_deref]
        keeps_bind [OF keeps_closestPrecedingFinger])
qed simp

lemma keeps_LocalNode_findPredecessor: "keeps_prog this good_ptr (LocalNode_findPredecessor k i)"
  unfolding LocalNode_findPredecessor_def
  by (rule keeps_bind [OF keeps_this_pointer]) (simp add: keeps_findPredecessor_loop)

lemma keeps_set:
  "good_ptr n \<Longrightarrow> keeps_prog this (\<lambda>u. True) (atomic (set_predecessor n))"
  "good_ptr n \<Longrightarrow> keeps_prog this (\<lambda>u. True) (atomic (set_successor n))"
  by (simp_all add: keeps_atomic keeps_set_predecessor keeps_set_successor)

lemma keeps_LocalNode_join: "good_ptr n \<Longrightarrow> keeps_prog this (\<lambda>u. True) (LocalNode_join k n)"
  unfolding LocalNode_join_def
  by (rule keeps_bind [OF keeps_deref])
    (auto intro!: keeps_bind [OF keeps_set(1)] keeps_bind [OF keeps_this_inode]
      keeps_bind [OF keeps_findSuccessor] keeps_set)

lemma keeps_predecessor: "keeps_prog this good_ptr (atomic get_predecessor)"
  by (rule keeps_weaken [OF keeps_atomic [OF keeps_get_predecessor]]) (rule stored_ptr_good)

lemma keeps_LocalNode_notify: "good_ptr n \<Longrightarrow> keeps_prog this (\<lambda>u. True) (LocalNode_notify n)"
  unfolding LocalNode_notify_def
  by (rule keeps_bind [OF keeps_deref], rule keeps_bind [OF keeps_predecessor])
    (auto intro!: keeps_set keeps_bind [OF keeps_predecessor] keeps_bind [OF keeps_deref]
      keeps_bind [OF keeps_this_inode])

lemma keeps_notify: "good_ptr n \<Longrightarrow> keeps_prog this (\<lambda>u. True) (notify p n)"
  unfolding notify_def by (rule keeps_dispatch) (auto intro: keeps_LocalNode_notify keeps_remote_post)

lemma keeps_ping: "keeps_prog this (\<lambda>b. True) (ping n)"
  unfolding ping_def LocalNode_ping_def by (rule keeps_dispatch) (auto intro: keeps_remote_ping)

lemma keeps_ping_loop: "keeps_prog this (\<lambda>u. True) (ping_loop k s)"
proof (induction k arbitrary: s)
  case (Suc k)
  show ?case
    unfolding ping_loop.simps
    by (rule keeps_bind [OF keeps_ping])
      (auto intro!: Suc keeps_bind [OF keeps_atomic [OF keeps_forget_finger]] keeps_bind [OF keeps_successor])
qed simp

lemma keeps_LocalNode_stabilize: "keeps_prog this (\<lambda>u. True) (LocalNode_stabilize k)"
proof -
  have x: "keeps_prog this good_ptr (bind_prog (atomic get_successor) getPredecessor)"
    by (rule keeps_bind [OF keeps_successor keeps_getPredecessor])
  have sd: "keeps_prog this (\<lambda>d. True) (bind_prog (atomic get_successor) deref)"
    by (rule keeps_bind [OF keeps_successor keeps_deref])
  show ?thesis
    unfolding LocalNode_stabilize_def
    by (rule keeps_bind [OF keeps_successor], rule keeps_bind [OF keeps_ping_loop], rule keeps_bind [OF x],
        rule keeps_bind [where P = "\<lambda>u. True"])
      (auto intro!: keeps_bind [OF keeps_successor] keeps_bind [OF keeps_this_pointer] keeps_notify
        keeps_bind [OF keeps_deref] keeps_bind [OF keeps_this_inode] keeps_bind [OF sd] keeps_set)
qed

lemma finger_index_range: "finger_index r \<in> {1..M - 2}"
proof -
  have m: "unat (r mod 158) = unat r mod 158" by (simp add: unat_mod_distrib)
  then have "unat (r mod 158) < 158" by simp
  then have "unat (r mod 158 + 1) = unat r mod 158 + 1"
    using m by (subst unat_add_lem [THEN iffD1]) simp_all
  then show ?thesis by (simp add: finger_index_def) 
qed

lemma keeps_LocalNode_fixFingers: "keeps_prog this (\<lambda>u. True) (LocalNode_fixFingers k r)"
proof -
  have i: "finger_index r < M - 1" using finger_index_range [of r] by simp
  have own: "keeps_prog this (stored_ptr this)
      (if n \<noteq> None
       then bind_prog (deref n) (\<lambda>d. bind_prog this_inode (\<lambda>me.
              if eq_ID (nd_id d) (nd_id me) then this_pointer else Ret n))
       else Ret n)" if "good_ptr n" for n
  proof (cases n)
    case (Some m)
    have this_ptr: "keeps_prog this (stored_ptr this) this_pointer"
      by (rule keeps_weaken [OF keeps_this_pointer]) simp
    show ?thesis
    proof (cases m)
      case This
      have "keeps_prog this (\<lambda>d. d = this) (deref n)" 
        using Some This by (simp add: deref_def keeps_this_inode)
      with Some show ?thesis
        by (auto intro!: this_ptr keeps_bind [OF keeps_this_inode] keeps_bind [where P = "\<lambda>d. d = this"])
    next
      case (Remote i e)
      have "keeps_prog this (stored_ptr this)
          (bind_prog this_inode (\<lambda>me. if eq_ID (nd_id e) (nd_id me) then this_pointer else Ret n))"
        using that Some Remote by (auto intro!: this_ptr keeps_bind [OF keeps_this_inode])
      with Some Remote show ?thesis by (simp add: deref_def)
    qed
  qed simp
  show ?thesis
    unfolding LocalNode_fixFingers_def
    by (rule keeps_bind [OF keeps_atomic [OF keeps_finger_start]],
        rule keeps_bind [OF keeps_LocalNode_findSuccessor], rule keeps_bind [OF own], assumption)
      (rule keeps_atomic [OF keeps_write_finger [OF i]])
qed

lemma keeps_LocalNode_checkPredecessor: "keeps_prog this (\<lambda>u. True) LocalNode_checkPredecessor"
  unfolding LocalNode_checkPredecessor_def
  by (rule keeps_bind [OF keeps_predecessor])
    (auto intro!: keeps_bind [OF keeps_this_pointer] keeps_bind [OF keeps_ping] keeps_set)

lemma keeps_receive: "keeps_prog this (\<lambda>u. True) (receive n m)"
  unfolding receive_def LocalNode_receive_def
  by (rule keeps_dispatch) (auto intro: keeps_remote_post keeps_atomic [OF keeps_receive_here])

lemma keeps_LocalNode_periodic: "keeps_prog this (\<lambda>u. True) (LocalNode_periodic k r b)"
  unfolding LocalNode_periodic_def
  by (rule keeps_bind [OF keeps_LocalNode_checkPredecessor], rule keeps_bind [OF keeps_LocalNode_stabilize],
      rule keeps_bind [OF keeps_LocalNode_fixFingers], rule keeps_update) simp

section \<open>The request handler\<close>

lemma keeps_reply_serial: "keeps_prog this (\<lambda>r. True) (reply_serial n)"
  unfolding reply_serial_def by (rule keeps_bind [OF keeps_deref]) simp

lemma keeps_optional_node: "keeps_prog this good_ptr (optional_node m l)"
  by (simp add: optional_node_def keeps_new_RemoteNode)

lemma keeps_handle_code: "keeps_prog this (\<lambda>r. True) (handle_code k m l)"
  unfolding handle_code_def Let_def
  by (auto split: option.split RPCCode.split
      intro!: keeps_bind [OF keeps_lift] keeps_bind [OF keeps_LocalNode_findPredecessor keeps_reply_serial]
        keeps_bind [OF keeps_LocalNode_findSuccessor keeps_reply_serial]
        keeps_bind [OF keeps_LocalNode_closestPrecedingFinger keeps_reply_serial]
        keeps_bind [OF keeps_new_RemoteNode] keeps_bind [OF keeps_LocalNode_notify]
        keeps_bind [OF keeps_predecessor keeps_reply_serial]
        keeps_bind [OF keeps_successor keeps_reply_serial]
        keeps_bind [OF keeps_optional_node] keeps_bind [OF keeps_set(1)] keeps_bind [OF keeps_set(2)]
        keeps_bind [OF keeps_this_inode] keeps_bind [OF keeps_atomic [OF keeps_receive_here]])

lemma keeps_handleRequest: "keeps_prog this (\<lambda>r. True) (handleRequest k st)"
  unfolding handleRequest_def
  by (rule keeps_catch)
    (auto simp: Let_def split: prod.split intro!: keeps_bind [OF keeps_handle_code])

section \<open>The client\<close>

lemma keeps_print: "keeps_prog this (\<lambda>u. True) (print_out t)" "keeps_prog this (\<lambda>u. True) (print_err t)"
  unfolding print_out_def print_err_def by (rule keeps_update, simp)+

lemma keeps_ChatClient_printUsage: "keeps_prog this (\<lambda>u. True) ChatClient_printUsage"
  unfolding ChatClient_printUsage_def by (rule keeps_bind [OF keeps_this_inode keeps_print(1)])

lemma keeps_ChatClient_send: "keeps_prog this (\<lambda>b. True) (ChatClient_send k i m)"
  unfolding ChatClient_send_def
  by (rule keeps_bind [OF keeps_findSuccessor], rule keeps_bind [OF keeps_deref])
    (auto intro!: keeps_bind [OF keeps_receive])

lemma keeps_ChatClient_line: "keeps_prog this (\<lambda>b. True) (ChatClient_line k line)"
  unfolding ChatClient_line_def
  by (rule keeps_bind [OF keeps_lift [where Q = "\<lambda>c. True"]])
    (auto split: command.split intro!: keeps_bind [OF keeps_print(2)]
      keeps_bind [OF keeps_ChatClient_printUsage] keeps_bind [OF keeps_this_inode]
      keeps_bind [OF keeps_ChatClient_send])

lemma keeps_ChatClient_loop: "keeps_prog this (\<lambda>u. True) (ChatClient_loop k n rest good line)"
proof (induction n arbitrary: rest good line)
  case (Suc n)
  show ?case
    unfolding ChatClient_loop.simps
    by (rule keeps_bind [OF keeps_print(1)])
      (auto split: prod.split intro!: Suc keeps_bind [OF keeps_ChatClient_line])
qed simp

lemma createNodeFromString_name:
  assumes "createNodeFromString str = Inr (name, host, port)"
  shows "length name \<le> length str"
proof -
  obtain a n where n: "str_substr str 0 (of_nat a) = Inr n" "name = trim n"
    using assms by (auto simp: createNodeFromString_def node_string_error_def bind_result_eq_Inr Let_def
        split: option.splits if_splits)
  then have "length n \<le> length str" by (auto simp: str_substr_def)
  then show ?thesis using length_trim [of n] n(2) by simp
qed

lemma keeps_main_body:
  assumes "\<forall>str. remote = Some str \<longrightarrow> length str < 2 ^ 31"
  shows "keeps_prog this (\<lambda>u. True) (main_body what k n remote input)"
proof -
  have named: "named d" if made: "remote_from_string str = Inr d" and len: "length str < 2 ^ 31" for str d
  proof -
    obtain name host port where c: "createNodeFromString str = Inr (name, host, port)"
        and d: "new_INode name host port = Inr d"
      using made by (auto simp: remote_from_string_def bind_result_eq_Inr)
    with len createNodeFromString_name [OF c] new_INode_named(1) [OF d] show ?thesis by simp
  qed
  show ?thesis
    unfolding main_body_def ChatClient_run_def new_ChatClient_def
    using assms
    by (auto split: option.split
        intro!: keeps_catch keeps_print keeps_update keeps_ChatClient_loop
          keeps_bind [OF keeps_ChatClient_printUsage] keeps_bind [where P = "\<lambda>u. True"]
          keeps_bind [OF keeps_lift [where Q = named]] keeps_bind [OF keeps_atomic [OF keeps_allocate]]
          keeps_LocalNode_join
        intro: named)
qed

lemma node_ok_known:
  assumes "node_ok this s" and "Some (Remote k d) = ln_predecessor s \<or> Some (Remote k d) \<in> set (entries (ln_finger s))"
  shows "nd_id d = sha1_ID (nd_name d)" and "nd_id d \<noteq> nd_id this"
proof -
  have "stored_ptr this (Some (Remote k d))"
    using assms(2)
  proof
    assume "Some (Remote k d) = ln_predecessor s"
    with assms(1) show ?thesis by (simp only: node_ok_def)
  next
    assume "Some (Remote k d) \<in> set (entries (ln_finger s))"
    with assms(1) show ?thesis unfolding node_ok_def by blast
  qed
  then show "nd_id d = sha1_ID (nd_name d)" "nd_id d \<noteq> nd_id this" by (auto simp: named_def)
qed

text \<open>
  The index \<open>fixFingers\<close> draws is never 0 and never the last slot, \<open>M - 1\<close>; every other
  index can be drawn.
\<close>

lemma fixFingers_range: "range finger_index = {1..M - 2}"
proof
  show "range finger_index \<subseteq> {1..M - 2}"
    using finger_index_range by auto
  show "{1..M - 2} \<subseteq> range finger_index"
  proof
    fix i assume i: "i \<in> {1..M - 2}"
    then have "unat (of_nat (i - 1) mod 158 + 1 :: u32) = i"
      by (simp add: unat_word_ariths unat_of_nat unat_mod_distrib take_bit_eq_mod del: of_nat_diff) (auto simp: mod_less)
    then have "finger_index (of_nat (i - 1)) = i" by (simp add: finger_index_def)
    then show "i \<in> range finger_index" by (metis rangeI)
  qed
qed

end
