(* ===== verification/Network.thy ===== *)
theory Network
  imports Node_Invariant
begin

text \<open>
  The processes of a network and their threads. \<open>serve\<close> and \<open>perform\<close> execute one request or one
  thread's work to its end while nothing else runs; \<open>net_step\<close> interleaves the threads of all
  processes at every atomic access and every message. The first is one of the executions of the
  second (\<open>perform_steps\<close>), and the invariant of every node holds in all of them.
\<close>

section \<open>One thread at a time\<close>

text \<open>An exception no handler catches, a failed assertion or undefined behaviour ends the process.\<close>

definition finish :: "nat \<Rightarrow> 'a \<Rightarrow> 'a outcome \<Rightarrow> world \<Rightarrow> world \<times> 'a" where
  "finish p none r w =
     (case r of
        Returned x \<Rightarrow> (w, x)
      | Raised e \<Rightarrow> (set_proc p None w, none)
      | Killed \<Rightarrow> (w, none))"

text \<open>
  A request: the server thread accepts the connection, if it still listens, and a handler runs.
  The fuel bounds the depth of nested requests and the loops of each handler.
\<close>

definition served :: "nat \<Rightarrow> bytes \<Rightarrow> bytes prog" where
  "served k m = Act server_accept (\<lambda>s. if ln_listening s then handleRequest k m else Ret [])"

primrec serve ::
  "(bytes \<Rightarrow> bytes \<Rightarrow> nat option) \<Rightarrow> nat \<Rightarrow> nat \<Rightarrow> bytes \<Rightarrow> world \<Rightarrow> (world \<times> bytes) option"
where
  "serve route 0 q m w = None"
| "serve route (Suc n) q m w =
     map_option (\<lambda>(w', r). finish q [] r w') (run route (serve route n) q (served (Suc n) m) w)"

definition perform ::
  "(bytes \<Rightarrow> bytes \<Rightarrow> nat option) \<Rightarrow> nat \<Rightarrow> nat \<Rightarrow> unit prog \<Rightarrow> world \<Rightarrow> world option"
where
  "perform route n p m w =
     map_option (\<lambda>(w', r). fst (finish p () r w')) (run route (serve route n) p m w)"

text \<open>The delivery of the \<open>i\<close>-th message in flight, by a handler nobody waits for.\<close>

definition deliver :: "(bytes \<Rightarrow> bytes \<Rightarrow> nat option) \<Rightarrow> nat \<Rightarrow> nat \<Rightarrow> world \<Rightarrow> world option" where
  "deliver route n i w =
     (if i < length (inflight w)
      then
        case inflight w ! i of
          (q, m) \<Rightarrow>
            map_option fst
              (serve route n q m (w\<lparr>inflight := take i (inflight w) @ drop (i + 1) (inflight w)\<rparr>))
      else None)"

section \<open>All threads at once\<close>

text \<open>
  A task is a stack: the frame on top runs, each frame below waits for the answer to the
  request the one above is serving. \<open>used\<close> keeps the numbers of all processes there ever were.
\<close>

datatype frame =
    Running nat "bytes prog"
  | Waiting nat "bytes option \<Rightarrow> bytes prog"

type_synonym task = "frame list"

record net =
  nodes :: "nat \<Rightarrow> local_node option"
  used :: "nat set"
  tasks :: "task list"

definition silent :: "'a prog \<Rightarrow> bytes prog" where
  "silent m = bind_prog m (\<lambda>x. Ret [])"

text \<open>The work a process starts by itself: rounds of the periodic thread and the main thread.\<close>

inductive own_work :: "local_node \<Rightarrow> bytes prog \<Rightarrow> bool" where
  round: "ln_periodic s \<Longrightarrow> \<not> ln_stop s \<Longrightarrow> own_work s (silent (LocalNode_periodic k r b))"
| main_thread: "\<forall>str. remote = Some str \<longrightarrow> length str < 2 ^ 31 \<Longrightarrow>
    own_work s (silent (main_body what k n remote input))"

text \<open>\<open>answer f fs\<close>: the frame waiting below gets \<open>f\<close>; without one the task ends.\<close>

fun answer :: "bytes option \<Rightarrow> task \<Rightarrow> task list" where
  "answer r [] = []"
| "answer r (Waiting p k # fs) = [Running p (k r) # fs]"
| "answer r (Running p m # fs) = [Running p m # fs]"

inductive net_step :: "(bytes \<Rightarrow> bytes \<Rightarrow> nat option) \<Rightarrow> net \<Rightarrow> net \<Rightarrow> bool"
  for route
where
  access: "nodes c p = Some s \<Longrightarrow> tasks c = ts @ (Running p (Act u k) # fs) # us \<Longrightarrow>
    net_step route c (c\<lparr>nodes := (nodes c)(p := Some (u s)),
                        tasks := ts @ (Running p (k s) # fs) # us\<rparr>)"
| refused: "nodes c p = Some s \<Longrightarrow> tasks c = ts @ (Running p (Exchange h pt m w k) # fs) # us \<Longrightarrow>
    connect route (nodes c) h pt = None \<Longrightarrow>
    net_step route c (c\<lparr>tasks := ts @ (Running p (k None) # fs) # us\<rparr>)"
| request: "nodes c p = Some s \<Longrightarrow> tasks c = ts @ (Running p (Exchange h pt m True k) # fs) # us \<Longrightarrow>
    connect route (nodes c) h pt = Some q \<Longrightarrow>
    net_step route c (c\<lparr>tasks := ts @ (Running q (served j m) # Waiting p k # fs) # us\<rparr>)"
| post: "nodes c p = Some s \<Longrightarrow> tasks c = ts @ (Running p (Exchange h pt m False k) # fs) # us \<Longrightarrow>
    connect route (nodes c) h pt = Some q \<Longrightarrow>
    net_step route c
      (c\<lparr>tasks := ts @ (Running p (k (Some [])) # fs) # us @ [[Running q (served j m)]]\<rparr>)"
| reply: "nodes c p = Some s \<Longrightarrow> tasks c = ts @ (Running p (Ret r) # fs) # us \<Longrightarrow>
    net_step route c (c\<lparr>tasks := ts @ answer (Some r) fs @ us\<rparr>)"
| crash: "nodes c p = Some s \<Longrightarrow> tasks c = ts @ (Running p (Fail e) # fs) # us \<Longrightarrow>
    net_step route c (c\<lparr>nodes := (nodes c)(p := None), tasks := ts @ answer (Some []) fs @ us\<rparr>)"
| lost: "nodes c p = None \<Longrightarrow> tasks c = ts @ (Running p m # fs) # us \<Longrightarrow>
    net_step route c (c\<lparr>tasks := ts @ answer (Some []) fs @ us\<rparr>)"
| begin_work: "nodes c p = Some s \<Longrightarrow> own_work s m \<Longrightarrow>
    net_step route c (c\<lparr>tasks := tasks c @ [[Running p m]]\<rparr>)"
| threads: "nodes c p = Some s \<Longrightarrow> f \<in> {server_start b, periodic_exit, request_stop} \<Longrightarrow>
    net_step route c (c\<lparr>nodes := (nodes c)(p := Some (f s))\<rparr>)"
| start_process: "p \<notin> used c \<Longrightarrow> local_from_string str = Inr s \<Longrightarrow> length str < 2 ^ 31 \<Longrightarrow>
    net_step route c (c\<lparr>nodes := (nodes c)(p := Some s), used := insert p (used c)\<rparr>)"
| exit_process: "net_step route c (c\<lparr>nodes := (nodes c)(p := None)\<rparr>)"

definition empty_net :: net where
  "empty_net = \<lparr>nodes = \<lambda>p. None, used = {}, tasks = []\<rparr>"

abbreviation reachable :: "(bytes \<Rightarrow> bytes \<Rightarrow> nat option) \<Rightarrow> net \<Rightarrow> bool" where
  "reachable route c \<equiv> (net_step route)\<^sup>*\<^sup>* empty_net c"

section \<open>The invariant of all nodes\<close>

text \<open>A frame keeps the invariant of the node of its process, as long as that process lives.\<close>

fun frame_ok :: "(nat \<Rightarrow> local_node option) \<Rightarrow> frame \<Rightarrow> bool" where
  "frame_ok ns (Running p m) = (\<forall>s. ns p = Some s \<longrightarrow> keeps_prog (ln_inode s) (\<lambda>r. True) m)"
| "frame_ok ns (Waiting p k) = (\<forall>s r. ns p = Some s \<longrightarrow> keeps_prog (ln_inode s) (\<lambda>r. True) (k r))"

fun frame_pid :: "frame \<Rightarrow> nat" where
  "frame_pid (Running p m) = p"
| "frame_pid (Waiting p k) = p"

definition all_frames :: "net \<Rightarrow> frame set" where
  "all_frames c = (\<Union>t \<in> set (tasks c). set t)"

definition net_ok :: "net \<Rightarrow> bool" where
  "net_ok c \<longleftrightarrow>
     (\<forall>p s. nodes c p = Some s \<longrightarrow> node_ok (ln_inode s) s \<and> p \<in> used c)
     \<and> (\<forall>f \<in> all_frames c. frame_ok (nodes c) f \<and> frame_pid f \<in> used c)"

lemma keeps_silent: "keeps_prog this (\<lambda>x. True) m \<Longrightarrow> keeps_prog this (\<lambda>r. True) (silent m)"
  unfolding silent_def by (rule keeps_bind) simp_all

lemma own_work_keeps: "own_work s m \<Longrightarrow> keeps_prog this (\<lambda>r. True) m"
  by (induction rule: own_work.induct)
    (simp_all add: keeps_silent keeps_LocalNode_periodic keeps_main_body)

lemma node_ok_inode: "node_ok d s \<Longrightarrow> ln_inode s = d"
  by (simp add: node_ok_def)

text \<open>What the frames need of the nodes: the same processes or fewer, with the same records.\<close>

definition same_records :: "(nat \<Rightarrow> local_node option) \<Rightarrow> (nat \<Rightarrow> local_node option) \<Rightarrow> bool" where
  "same_records ns ms \<longleftrightarrow> (\<forall>p s. ms p = Some s \<longrightarrow> (\<exists>t. ns p = Some t \<and> ln_inode t = ln_inode s))"

lemma frame_ok_mono:
  assumes "same_records ns ms" and "frame_ok ns f"
  shows "frame_ok ms f"
proof (cases f)
  case (Running p m)
  with assms show ?thesis by (fastforce simp: same_records_def)
next
  case (Waiting p k)
  show ?thesis
    unfolding Waiting frame_ok.simps
  proof (intro allI impI)
    fix s r assume "ms p = Some s"
    then obtain t where "ns p = Some t" "ln_inode t = ln_inode s"
      using assms(1) unfolding same_records_def by blast
    with assms(2) Waiting show "keeps_prog (ln_inode s) (\<lambda>r. True) (k r)" by fastforce
  qed
qed

lemma net_ok_update:
  assumes "net_ok c" and "same_records (nodes c) ns"
    and "\<And>p s. ns p = Some s \<Longrightarrow> node_ok (ln_inode s) s"
    and "\<And>f. f \<in> (\<Union>t \<in> set ts. set t) \<Longrightarrow> f \<in> all_frames c \<or> frame_ok ns f \<and> frame_pid f \<in> used c"
  shows "net_ok (c\<lparr>nodes := ns, tasks := ts\<rparr>)"
  unfolding net_ok_def
proof (intro conjI allI impI ballI)
  fix p s assume "nodes (c\<lparr>nodes := ns, tasks := ts\<rparr>) p = Some s"
  then have s: "ns p = Some s" by simp
  with assms(3) show "node_ok (ln_inode s) s" .
  from s assms(2) obtain t where "nodes c p = Some t" unfolding same_records_def by blast
  with assms(1) show "p \<in> used (c\<lparr>nodes := ns, tasks := ts\<rparr>)" by (auto simp: net_ok_def)
next
  fix f assume "f \<in> all_frames (c\<lparr>nodes := ns, tasks := ts\<rparr>)"
  then have "f \<in> all_frames c \<or> frame_ok ns f \<and> frame_pid f \<in> used c"
    using assms(4) by (simp add: all_frames_def)
  with assms(1,2) frame_ok_mono [of "nodes c" ns f]
  show "frame_ok (nodes (c\<lparr>nodes := ns, tasks := ts\<rparr>)) f" "frame_pid f \<in> used (c\<lparr>nodes := ns, tasks := ts\<rparr>)"
    by (auto simp: net_ok_def)
qed

lemma same_records_refl: "same_records ns ns"
  by (simp add: same_records_def)

lemma same_records_none: "same_records ns (ns(p := None))"
  by (simp add: same_records_def)

lemma same_records_some: "ns p = Some s \<Longrightarrow> ln_inode t = ln_inode s \<Longrightarrow> same_records ns (ns(p := Some t))"
  by (simp add: same_records_def)

lemma answer_frames:
  assumes "t \<in> set (answer r fs)" and "f \<in> set t"
  shows "f \<in> set fs \<or> (\<exists>p k. Waiting p k \<in> set fs \<and> f = Running p (k r))"
proof (cases fs)
  case (Cons g gs)
  with assms show ?thesis by (cases g) auto
qed (use assms in simp)

lemma local_from_string_ok:
  assumes "local_from_string str = Inr s" and "length str < 2 ^ 31"
  shows "node_ok (ln_inode s) s"
proof -
  obtain name host port t where c: "createNodeFromString str = Inr (name, host, port)"
      and t: "new_LocalNode name host port = Inr t" and s: "s = own_LocalNode t"
    using assms(1) by (auto simp: local_from_string_def bind_result_eq_Inr)
  from t obtain d where d: "new_INode name host port = Inr d" and "t = init d"
    by (auto simp: new_LocalNode_def bind_result_eq_Inr)
  have "length name < 2 ^ 31"
    using createNodeFromString_name [OF c] assms(2) by simp
  then have "named d" using new_INode_named(1) [OF d] by simp
  with \<open>t = init d\<close> s init_ok [of d] show ?thesis
    by (simp add: own_LocalNode_def init_def)
qed

lemma keeps_served: "keeps_prog this (\<lambda>r. True) (served k m)"
  by (simp add: served_def keeps_handleRequest)

lemma head_frame:
  "net_ok c \<Longrightarrow> tasks c = ts @ (f # fs) # us \<Longrightarrow> frame_ok (nodes c) f \<and> frame_pid f \<in> used c"
  by (auto simp: net_ok_def all_frames_def)

lemma rest_frames:
  assumes "net_ok c" and "tasks c = ts @ (f # fs) # us"
    and "t \<in> set (ts @ ns @ us)" and "g \<in> set t"
    and "\<And>n. n \<in> set ns \<Longrightarrow> g \<in> set n \<Longrightarrow> g \<in> set fs \<or> P g"
  shows "g \<in> all_frames c \<or> P g"
  using assms by (auto simp: all_frames_def)

lemma answered_frames:
  assumes ok: "net_ok c" and ts: "tasks c = ts @ (f # fs) # us"
    and g: "g \<in> (\<Union>t \<in> set (ts @ answer r fs @ us). set t)" and ns: "same_records (nodes c) ns"
  shows "g \<in> all_frames c \<or> frame_ok ns g \<and> frame_pid g \<in> used c"
proof -
  have "h \<in> all_frames c" if "h \<in> set fs" for h using that ts by (auto simp: all_frames_def)
  moreover have "frame_ok (nodes c) (Running p (k r)) \<and> p \<in> used c"
    if "Waiting p k \<in> set fs" for p k
  proof -
    have "Waiting p k \<in> all_frames c" using that ts by (auto simp: all_frames_def)
    with ok have "frame_ok (nodes c) (Waiting p k)" "p \<in> used c"
      by (auto simp: net_ok_def dest!: bspec)
    then show ?thesis by simp
  qed
  moreover obtain t where "t \<in> set (ts @ answer r fs @ us)" "g \<in> set t" using g by blast
  ultimately show ?thesis
  proof -
    assume rest: "\<And>h. h \<in> set fs \<Longrightarrow> h \<in> all_frames c"
      and wait: "\<And>p k. Waiting p k \<in> set fs \<Longrightarrow> frame_ok (nodes c) (Running p (k r)) \<and> p \<in> used c"
      and t: "t \<in> set (ts @ answer r fs @ us)" "g \<in> set t"
    show ?thesis
    proof (cases "t \<in> set (answer r fs)")
      case True
      from answer_frames [OF this t(2)] show ?thesis
        using rest wait frame_ok_mono [OF ns] by (auto simp del: frame_ok.simps)
    next
      case False
      with t ts show ?thesis by (auto simp: all_frames_def)
    qed
  qed
qed

lemma net_ok_tasks:
  assumes "net_ok c"
    and "\<And>f. f \<in> (\<Union>t \<in> set ts. set t) \<Longrightarrow> f \<in> all_frames c \<or> frame_ok (nodes c) f \<and> frame_pid f \<in> used c"
  shows "net_ok (c\<lparr>tasks := ts\<rparr>)"
proof -
  have "c\<lparr>tasks := ts\<rparr> = c\<lparr>nodes := nodes c, tasks := ts\<rparr>" by simp
  then show ?thesis
    using net_ok_update [OF assms(1) same_records_refl, of ts] assms by (simp add: net_ok_def)
qed

lemma net_ok_nodes:
  assumes "net_ok c" and "same_records (nodes c) ns"
    and "\<And>p s. ns p = Some s \<Longrightarrow> node_ok (ln_inode s) s"
  shows "net_ok (c\<lparr>nodes := ns\<rparr>)"
proof -
  have "c\<lparr>nodes := ns\<rparr> = c\<lparr>nodes := ns, tasks := tasks c\<rparr>" by simp
  then show ?thesis
    using net_ok_update [OF assms, where ts = "tasks c"] by (simp add: all_frames_def)
qed

lemma net_ok_node: "net_ok c \<Longrightarrow> nodes c p = Some s \<Longrightarrow> node_ok (ln_inode s) s \<and> p \<in> used c"
  by (simp add: net_ok_def)

lemma net_step_ok:
  assumes "net_step route c c'" and ok: "net_ok c"
  shows "net_ok c'"
  using assms(1)
proof cases
  case (access p s ts u k fs us)
  have s: "node_ok (ln_inode s) s" "p \<in> used c" using net_ok_node [OF ok access(2)] by simp_all
  have k: "node_ok (ln_inode s) (u s)" "keeps_prog (ln_inode s) (\<lambda>r. True) (k s)"
    using head_frame [OF ok access(3)] access(2) s(1) by auto
  have u: "same_records (nodes c) ((nodes c)(p := Some (u s)))"
    by (rule same_records_some [where ns = "nodes c", OF access(2) node_ok_inode [OF k(1)]])
  show ?thesis
    unfolding access(1)
    by (rule net_ok_update [OF ok u])
      (use k node_ok_inode [OF k(1)] s access(3) net_ok_node [OF ok] in \<open>auto simp: all_frames_def split: if_splits\<close>)
next
  case (refused p s ts h pt m w k fs us)
  have "frame_ok (nodes c) (Running p (k None)) \<and> p \<in> used c"
    using head_frame [OF ok refused(3)] by simp
  then show ?thesis
    unfolding refused(1)
    by (intro net_ok_tasks [OF ok]) (use refused(3) in \<open>auto simp: all_frames_def simp del: frame_ok.simps\<close>)
next
  case (request p s ts h pt m k fs us q j)
  have "frame_ok (nodes c) (Waiting p k) \<and> p \<in> used c"
    using head_frame [OF ok request(3)] by simp
  moreover have "q \<in> used c"
    using request(4) net_ok_node [OF ok] by (auto simp: connect_def split: option.splits if_splits)
  ultimately show ?thesis
    unfolding request(1)
    by (intro net_ok_tasks [OF ok])
      (use request(3) keeps_served in \<open>auto simp: all_frames_def\<close>)
next
  case (post p s ts h pt m k fs us q j)
  have "frame_ok (nodes c) (Running p (k (Some []))) \<and> p \<in> used c"
    using head_frame [OF ok post(3)] by simp
  moreover have "q \<in> used c"
    using post(4) net_ok_node [OF ok] by (auto simp: connect_def split: option.splits if_splits)
  ultimately show ?thesis
    unfolding post(1)
    by (intro net_ok_tasks [OF ok])
      (use post(3) keeps_served in \<open>auto simp: all_frames_def\<close>)
next
  case (reply p s ts r fs us)
  show ?thesis
    unfolding reply(1)
    by (rule net_ok_tasks [OF ok answered_frames [OF ok reply(3) _ same_records_refl]])
next
  case (crash p s ts e fs us)
  show ?thesis
    unfolding crash(1)
    by (rule net_ok_update [OF ok same_records_none _ answered_frames [OF ok crash(3) _ same_records_none]])
      (use net_ok_node [OF ok] in \<open>auto split: if_splits\<close>)
next
  case (lost p ts m fs us)
  show ?thesis
    unfolding lost(1)
    by (rule net_ok_tasks [OF ok answered_frames [OF ok lost(3) _ same_records_refl]])
next
  case (begin_work p s m)
  show ?thesis
    unfolding begin_work(1)
    by (rule net_ok_tasks [OF ok])
      (use own_work_keeps [OF begin_work(3)] net_ok_node [OF ok begin_work(2)] in \<open>auto simp: all_frames_def\<close>)
next
  case (threads p s f b)
  have s: "node_ok (ln_inode s) s" using net_ok_node [OF ok threads(2)] by simp
  then have f: "node_ok (ln_inode s) (f s)" using threads(3) by auto
  have i: "same_records (nodes c) ((nodes c)(p := Some (f s)))"
    by (rule same_records_some [where ns = "nodes c", OF threads(2) node_ok_inode [OF f]])
  show ?thesis
    unfolding threads(1)
    by (rule net_ok_nodes [OF ok i])
      (use f node_ok_inode [OF f] net_ok_node [OF ok] in \<open>auto split: if_splits\<close>)
next
  case (start_process p str s)
  have s: "node_ok (ln_inode s) s" using local_from_string_ok [OF start_process(3,4)] .
  have free: "frame_pid f \<noteq> p" if "f \<in> all_frames c" for f
    using that ok start_process(2) by (auto simp: net_ok_def)
  have "frame_ok ((nodes c)(p := Some s)) f" if "f \<in> all_frames c" for f
    using free [OF that] that ok by (cases f) (auto simp: net_ok_def dest!: bspec)
  then show ?thesis
    using ok s unfolding start_process(1) by (auto simp: net_ok_def all_frames_def)
next
  case (exit_process p)
  show ?thesis
    unfolding exit_process
    by (rule net_ok_nodes [OF ok same_records_none]) (use net_ok_node [OF ok] in \<open>auto split: if_splits\<close>)
qed

lemma reachable_ok: "reachable route c \<Longrightarrow> net_ok c"
proof (induction rule: rtranclp_induct)
  case base
  show ?case by (simp add: net_ok_def empty_net_def all_frames_def)
next
  case (step c c')
  then show ?case using net_step_ok by blast
qed

section \<open>Sequential execution is one interleaving\<close>

definition pending :: "nat \<Rightarrow> (nat \<times> bytes) list \<Rightarrow> task list" where
  "pending j x = map (\<lambda>(q, m). [Running q (served j m)]) x"

lemma pending_simps [simp]:
  "pending j [] = []"
  "pending j (x @ y) = pending j x @ pending j y"
  "pending j [(q, m)] = [[Running q (served j m)]]"
  by (simp_all add: pending_def)

text \<open>How a program looks when its execution has come to an outcome.\<close>

definition ended :: "nat \<Rightarrow> 'a outcome \<Rightarrow> 'a prog \<Rightarrow> world \<Rightarrow> bool" where
  "ended p r m w \<longleftrightarrow>
     (case r of
        Returned x \<Rightarrow> m = Ret x \<and> procs w p \<noteq> None
      | Raised e \<Rightarrow> m = Fail e \<and> procs w p \<noteq> None
      | Killed \<Rightarrow> procs w p = None)"

text \<open>\<open>c\<close> moves to the nodes of \<open>w'\<close>, a task changes from \<open>t\<close> to \<open>t'\<close>, and the messages posted
  since \<open>w\<close> have become tasks at the end.\<close>

definition moves ::
  "(bytes \<Rightarrow> bytes \<Rightarrow> nat option) \<Rightarrow> nat \<Rightarrow> world \<Rightarrow> task \<Rightarrow> world \<Rightarrow> task list \<Rightarrow> bool"
where
  "moves route j w t w' t' \<longleftrightarrow>
     (\<exists>x. inflight w' = inflight w @ x \<and>
        (\<forall>c ts us. nodes c = procs w \<longrightarrow> tasks c = ts @ t # us \<longrightarrow>
           (net_step route)\<^sup>*\<^sup>* c (c\<lparr>nodes := procs w', tasks := ts @ t' @ us @ pending j x\<rparr>)))"

lemma net_unchanged: "nodes c = ns \<Longrightarrow> tasks c = ts \<Longrightarrow> c\<lparr>nodes := ns, tasks := ts\<rparr> = c"
  by (cases c) simp

lemma moves_refl: "moves route j w t w [t]"
  unfolding moves_def by (rule exI [of _ "[]"]) (auto simp: net_unchanged)

lemma moves_trans:
  assumes "moves route j w t w1 [t1]" and "moves route j w1 t1 w2 t2"
  shows "moves route j w t w2 t2"
proof -
  obtain x where x: "inflight w1 = inflight w @ x"
      "\<And>c ts us. nodes c = procs w \<Longrightarrow> tasks c = ts @ t # us \<Longrightarrow>
         (net_step route)\<^sup>*\<^sup>* c (c\<lparr>nodes := procs w1, tasks := ts @ t1 # us @ pending j x\<rparr>)"
    using assms(1) by (auto simp: moves_def)
  obtain y where y: "inflight w2 = inflight w1 @ y"
      "\<And>c ts us. nodes c = procs w1 \<Longrightarrow> tasks c = ts @ t1 # us \<Longrightarrow>
         (net_step route)\<^sup>*\<^sup>* c (c\<lparr>nodes := procs w2, tasks := ts @ t2 @ us @ pending j y\<rparr>)"
    using assms(2) by (auto simp: moves_def)
  show ?thesis
    unfolding moves_def
  proof (intro exI conjI allI impI)
    show "inflight w2 = inflight w @ (x @ y)" using x(1) y(1) by simp
    fix c :: net and ts us assume c: "nodes c = procs w" "tasks c = ts @ t # us"
    let ?c1 = "c\<lparr>nodes := procs w1, tasks := ts @ t1 # us @ pending j x\<rparr>"
    have "(net_step route)\<^sup>*\<^sup>* ?c1
        (?c1\<lparr>nodes := procs w2, tasks := ts @ t2 @ (us @ pending j x) @ pending j y\<rparr>)"
      by (rule y(2)) simp_all
    with x(2) [OF c] show "(net_step route)\<^sup>*\<^sup>* c
        (c\<lparr>nodes := procs w2, tasks := ts @ t2 @ us @ pending j (x @ y)\<rparr>)"
      by simp
  qed
qed

text \<open>One step of the task, with no message posted.\<close>

lemma moves_step:
  assumes "inflight w' = inflight w"
    and "\<And>c ts us. nodes c = procs w \<Longrightarrow> tasks c = ts @ t # us \<Longrightarrow>
          net_step route c (c\<lparr>nodes := procs w', tasks := ts @ t' @ us\<rparr>)"
  shows "moves route j w t w' t'"
  unfolding moves_def by (rule exI [of _ "[]"]) (use assms in auto)

lemma moves_task_step:
  assumes "\<And>c ts us. nodes c = procs w \<Longrightarrow> tasks c = ts @ t # us \<Longrightarrow>
          net_step route c (c\<lparr>tasks := ts @ t' @ us\<rparr>)"
  shows "moves route j w t w t'"
proof (rule moves_step)
  fix c :: net and ts us assume c: "nodes c = procs w" "tasks c = ts @ t # us"
  show "net_step route c (c\<lparr>nodes := procs w, tasks := ts @ t' @ us\<rparr>)"
    using assms [OF c] by (simp flip: c(1))
qed simp

definition calls_move :: "(bytes \<Rightarrow> bytes \<Rightarrow> nat option) \<Rightarrow> nat \<Rightarrow> nat
    \<Rightarrow> (nat \<Rightarrow> bytes \<Rightarrow> world \<Rightarrow> (world \<times> bytes) option) \<Rightarrow> bool" where
  "calls_move route j i call \<longleftrightarrow>
     (\<forall>q m w w' r p k fs. call q m w = Some (w', r) \<longrightarrow>
        moves route j w (Running q (served i m) # Waiting p k # fs) w' [Running p (k (Some r)) # fs])"

lemma run_moves:
  assumes "calls_move route j i call"
  shows "run route call p m w = Some (w', r) \<Longrightarrow>
    \<exists>m'. ended p r m' w' \<and> moves route j w (Running p m # fs) w' [Running p m' # fs]"
proof (induction m arbitrary: w)
  case (Ret x)
  then show ?case
    by (intro exI [of _ "Ret x"]) (auto simp: ended_def moves_refl split: if_splits)
next
  case (Fail e)
  then show ?case
    by (intro exI [of _ "Fail e"]) (auto simp: ended_def moves_refl split: if_splits)
next
  case OutOfFuel
  then show ?case
    by (intro exI [of _ OutOfFuel]) (auto simp: ended_def moves_refl split: if_splits)
next
  case (Act u k)
  show ?case
  proof (cases "procs w p")
    case None
    with Act.prems show ?thesis
      by (intro exI [of _ "Act u k"]) (auto simp: ended_def moves_refl)
  next
    case (Some s)
    let ?w = "set_proc p (Some (u s)) w"
    from Act.prems Some have "run route call p (k s) ?w = Some (w', r)" by simp
    from Act.IH [OF _ this] obtain m' where m': "ended p r m' w'"
        "moves route j ?w (Running p (k s) # fs) w' [Running p m' # fs]" by blast
    have "moves route j w (Running p (Act u k) # fs) ?w [Running p (k s) # fs]"
    proof (rule moves_step)
      fix c :: net and ts us
      assume "nodes c = procs w" "tasks c = ts @ (Running p (Act u k) # fs) # us"
      with net_step.access [of c p s ts u k fs us route] Some
      show "net_step route c (c\<lparr>nodes := procs ?w, tasks := ts @ [Running p (k s) # fs] @ us\<rparr>)" by simp
    qed simp
    from moves_trans [OF this m'(2)] m'(1) show ?thesis by blast
  qed
next
  case (Exchange h pt m wait k)
  show ?case
  proof (cases "procs w p")
    case None
    with Exchange.prems show ?thesis
      by (intro exI [of _ "Exchange h pt m wait k"]) (auto simp: ended_def moves_refl)
  next
    case (Some s)
    let ?t = "Running p (Exchange h pt m wait k) # fs"
    have next_step: ?thesis if "run route call p (k a) w1 = Some (w', r)"
        "moves route j w ?t w1 [Running p (k a) # fs]" for a w1
      using Exchange.IH [OF _ that(1)] moves_trans [OF that(2)] by blast
    show ?thesis
    proof (cases "connect route (procs w) h pt")
      case None
      have "moves route j w ?t w [Running p (k None) # fs]"
        using net_step.refused [of _ p s _ h pt m wait k fs _ route] Some None
        by (intro moves_task_step) simp
      with next_step [of None w] Exchange.prems Some None show ?thesis by simp
    next
      case q: (Some q)
      show ?thesis
      proof (cases wait)
        case True
        then obtain w1 a where a: "call q m w = Some (w1, a)"
            "run route call p (k (Some a)) w1 = Some (w', r)"
          using Exchange.prems Some q by (auto split: option.splits)
        have "moves route j w ?t w [Running q (served i m) # Waiting p k # fs]"
          using net_step.request [of _ p s _ h pt m k fs _ route q i] Some q True
          by (intro moves_task_step) simp
        moreover have "moves route j w (Running q (served i m) # Waiting p k # fs) w1
            [Running p (k (Some a)) # fs]"
          using assms a(1) by (auto simp: calls_move_def)
        ultimately show ?thesis using next_step [OF a(2)] moves_trans by blast
      next
        case False
        let ?w = "w\<lparr>inflight := inflight w @ [(q, m)]\<rparr>"
        have "moves route j w ?t ?w [Running p (k (Some [])) # fs]"
          unfolding moves_def
        proof (intro exI conjI allI impI)
          show "inflight ?w = inflight w @ [(q, m)]" by simp
          fix c :: net and ts us assume c: "nodes c = procs w" "tasks c = ts @ ?t # us"
          have n: "procs ?w = nodes c" using c(1) by simp
          have "net_step route c
              (c\<lparr>tasks := ts @ (Running p (k (Some [])) # fs) # us @ [[Running q (served j m)]]\<rparr>)"
            using net_step.post [of c p s ts h pt m k fs us route q j] Some q False c by simp
          then show "(net_step route)\<^sup>*\<^sup>* c (c\<lparr>nodes := procs ?w,
              tasks := ts @ [Running p (k (Some [])) # fs] @ us @ pending j [(q, m)]\<rparr>)"
            unfolding n by simp
        qed
        with next_step [of "Some []" ?w] Exchange.prems Some q False show ?thesis by simp
      qed
    qed
  qed
qed

text \<open>The end of a program, as \<open>finish\<close> sees it, answers the frame below.\<close>

lemma finish_moves:
  assumes "ended p r m w" and "finish p [] r w = (w', a)"
  shows "moves route j w (Running p m # fs) w' (answer (Some a) fs)"
proof (cases r)
  case (Returned x)
  have r: "m = Ret x" "w' = w" "a = x"
    using assms Returned by (simp_all add: ended_def finish_def)
  obtain s where s: "procs w p = Some s" using assms(1) Returned by (auto simp: ended_def)
  show ?thesis
    unfolding r
  proof (rule moves_task_step)
    fix c :: net and ts us
    assume c: "nodes c = procs w" "tasks c = ts @ (Running p (Ret x) # fs) # us"
    with s have "nodes c p = Some s" by simp
    from net_step.reply [OF this c(2), of route]
    show "net_step route c (c\<lparr>tasks := ts @ answer (Some x) fs @ us\<rparr>)" .
  qed
next
  case (Raised e)
  have r: "m = Fail e" "w' = set_proc p None w" "a = []"
    using assms Raised by (simp_all add: ended_def finish_def)
  obtain s where s: "procs w p = Some s" using assms(1) Raised by (auto simp: ended_def)
  show ?thesis
  proof (rule moves_step)
    fix c :: net and ts us
    assume c: "nodes c = procs w" "tasks c = ts @ (Running p m # fs) # us"
    have "nodes c p = Some s" "tasks c = ts @ (Running p (Fail e) # fs) # us" using c r s by simp_all
    from net_step.crash [OF this, of route]
    show "net_step route c (c\<lparr>nodes := procs w', tasks := ts @ answer (Some a) fs @ us\<rparr>)"
      using r c(1) by simp
  qed (simp add: r)
next
  case Killed
  have r: "w' = w" "a = []" and none: "procs w p = None"
    using assms Killed by (simp_all add: ended_def finish_def)
  show ?thesis
    unfolding r
  proof (rule moves_task_step)
    fix c :: net and ts us
    assume c: "nodes c = procs w" "tasks c = ts @ (Running p m # fs) # us"
    with none have "nodes c p = None" by simp
    from net_step.lost [OF this c(2), of route]
    show "net_step route c (c\<lparr>tasks := ts @ answer (Some []) fs @ us\<rparr>)" .
  qed
qed

lemma serve_moves: "calls_move route j n (serve route n)"
proof (induction n)
  case 0
  show ?case by (simp add: calls_move_def)
next
  case (Suc n)
  show ?case
    unfolding calls_move_def
  proof (intro allI impI)
    fix q m w w' a p k fs
    assume "serve route (Suc n) q m w = Some (w', a)"
    then obtain w1 r where r: "run route (serve route n) q (served (Suc n) m) w = Some (w1, r)"
        "finish q [] r w1 = (w', a)"
      by auto
    from run_moves [OF Suc r(1), of "Waiting p k # fs"] obtain m' where
      m': "ended q r m' w1" "moves route j w (Running q (served (Suc n) m) # Waiting p k # fs) w1
        [Running q m' # Waiting p k # fs]"
      by blast
    from finish_moves [OF m'(1) r(2), of route j "Waiting p k # fs"]
    have "moves route j w1 (Running q m' # Waiting p k # fs) w' [Running p (k (Some a)) # fs]" by simp
    with m'(2) show "moves route j w (Running q (served (Suc n) m) # Waiting p k # fs) w'
        [Running p (k (Some a)) # fs]"
      by (rule moves_trans)
  qed
qed

lemma run_silent:
  "run route call p m w = Some (w', r) \<Longrightarrow>
   run route call p (silent m) w =
     Some (w', case r of Returned x \<Rightarrow> if procs w' p = None then Killed else Returned []
                       | Raised e \<Rightarrow> Raised e | Killed \<Rightarrow> Killed)"
  unfolding silent_def by (subst run_bind) (auto split: outcome.split)

lemma run_returned_alive: "run route call p m w = Some (w', Returned x) \<Longrightarrow> procs w' p \<noteq> None"
proof (induction m arbitrary: w)
  case (Act u k)
  then show ?case using Act.IH [OF rangeI] by (auto split: option.splits)
next
  case (Exchange h pt m wait k)
  then show ?case using Exchange.IH [OF rangeI] by (auto split: option.splits if_splits)
qed (auto split: if_splits)

text \<open>What a process does by itself, executed to its end, is an execution of the interleaving
  semantics in which no other task moves.\<close>

lemma perform_moves:
  assumes "perform route n p m w = Some w'"
  shows "moves route j w [Running p (silent m)] w' []"
proof -
  obtain w1 r where r: "run route (serve route n) p m w = Some (w1, r)"
      and w': "w' = fst (finish p () r w1)"
    using assms by (auto simp: perform_def)
  let ?r = "case r of Returned x \<Rightarrow> if procs w1 p = None then Killed else Returned ([] :: bytes)
                       | Raised e \<Rightarrow> Raised e | Killed \<Rightarrow> Killed"
  from run_moves [OF serve_moves run_silent [OF r]] obtain m' where
    m': "ended p ?r m' w1" "moves route j w [Running p (silent m)] w1 [[Running p m']]"
    by blast
  have "fst (finish p [] ?r w1) = w'"
    using w' run_returned_alive [of route "serve route n" p m w w1] r
    by (auto simp: finish_def split: outcome.splits)
  then obtain a where "finish p [] ?r w1 = (w', a)" by (metis prod.collapse)
  from finish_moves [OF m'(1) this, of route j "[]"] m'(2) moves_trans show ?thesis by fastforce
qed

section \<open>Properties\<close>

text \<open>
  C2. Whatever the interleaving of the threads of all processes, in every reachable network the
  identifier of every node is the SHA-1 of its name, its finger table keeps its size and its last
  slot empty, and every node it knows under an identifier of its own is represented by the node itself.
\<close>

theorem reachable_nodes:
  assumes "reachable route c" and "nodes c p = Some s"
  shows "nd_name (ln_inode s) \<noteq> [] \<and> nd_id (ln_inode s) = sha1_ID (nd_name (ln_inode s))
    \<and> length (entries (ln_finger s)) = M \<and> entries (ln_finger s) ! (M - 1) = None
    \<and> ft_id (ln_finger s) = nd_id (ln_inode s)
    \<and> (\<forall>k d. Some (Remote k d) \<in> insert (ln_predecessor s) (set (entries (ln_finger s))) \<longrightarrow>
         nd_id d = sha1_ID (nd_name d) \<and> nd_id d \<noteq> nd_id (ln_inode s))"
proof (intro conjI allI impI)
  have ok: "node_ok (ln_inode s) s" using net_ok_node [OF reachable_ok [OF assms(1)] assms(2)] by simp
  then show "nd_name (ln_inode s) \<noteq> []" "nd_id (ln_inode s) = sha1_ID (nd_name (ln_inode s))"
    "length (entries (ln_finger s)) = M" "entries (ln_finger s) ! (M - 1) = None"
    "ft_id (ln_finger s) = nd_id (ln_inode s)"
    by (simp_all add: node_ok_def named_def full_table_def)
  fix k d assume "Some (Remote k d) \<in> insert (ln_predecessor s) (set (entries (ln_finger s)))"
  then have "Some (Remote k d) = ln_predecessor s \<or> Some (Remote k d) \<in> set (entries (ln_finger s))" by simp
  from node_ok_known [OF ok this]
  show "nd_id d = sha1_ID (nd_name d)" "nd_id d \<noteq> nd_id (ln_inode s)" .
qed

theorem reachable_nodes_witness:
  "\<exists>c s. reachable (\<lambda>h p. None) c \<and> nodes c 0 = Some s \<and> nd_name (ln_inode s) = cstr ''bob''
     \<and> nd_id (ln_inode s) = sha1_ID (cstr ''bob'') \<and> ft_id (ln_finger s) = sha1_ID (cstr ''bob'')"
proof -
  have trim: "trim (cstr ''bob'') = cstr ''bob''" "trim (cstr ''h'') = cstr ''h''"
    by (simp_all add: trim_def ltrim_def rtrim_def isspace_def)
  let ?s = "own_LocalNode (init \<lparr>nd_name = cstr ''bob'', nd_host = cstr ''h'', nd_port = 1,
      nd_id = sha1_ID (cstr ''bob'')\<rparr>)"
  let ?str = "cstr ''bob'' @ cstr ''@'' @ cstr ''h'' @ cstr '':'' @ dec_number 1"
  let ?c = "empty_net\<lparr>nodes := (nodes empty_net)(0 := Some ?s), used := insert 0 (used empty_net)\<rparr>"
  have str: "local_from_string ?str = Inr ?s"
    using local_from_node_string [of "cstr ''bob''" "cstr ''h''" 1] trim by simp
  have l: "length ?str < 2 ^ 31" using length_dec_number [of 1 1] by simp
  have "0 \<notin> used empty_net" by (simp add: empty_net_def)
  from net_step.start_process [where route = "\<lambda>h p. None", OF this str l]
  have "net_step (\<lambda>h p. None) empty_net ?c" .
  then have c: "reachable (\<lambda>h p. None) ?c" by simp
  have n: "nodes ?c 0 = Some ?s" by simp
  from reachable_nodes [OF c n] c n show ?thesis
    by (intro exI [of _ ?c] exI [of _ ?s]) (simp add: own_LocalNode_def init_def)
qed

end
