(* ===== verification/Message_Passing.thy ===== *)
theory Message_Passing
  imports Network
begin

text \<open>
  What a request and its reply amount to: a message built by \<open>createMessage\<close> is read whole by
  \<open>handleRequest\<close> as long as its length fits the signed header byte, and the node a handler
  answers with is the node the caller gets. The lemmas \<open>run_...\<close> execute one operation at the
  head of a program, the lemmas \<open>handle_...\<close> one case of the handler's switch.
\<close>

declare LocalNode_findSuccessor.simps(2) [simp del]
declare findPredecessor_loop.simps(2) [simp del]
declare ping_loop.simps(2) [simp del]

section \<open>Running in a live process\<close>

lemma run_this_inode:
  "procs w p = Some s \<Longrightarrow> run route call p (bind_prog this_inode f) w = run route call p (f (ln_inode s)) w"
  by (simp add: this_inode_def)

lemma run_this_pointer:
  "procs w p = Some s \<Longrightarrow> ln_shared s \<Longrightarrow>
     run route call p (bind_prog this_pointer f) w = run route call p (f (Some This)) w"
  by (simp add: this_pointer_def bind_prog_assoc run_atomic thisPtr_def)

lemma run_deref:
  "procs w p = Some s \<Longrightarrow> run route call p (bind_prog (deref (Some n)) f) w
     = run route call p (f (node_data (ln_inode s) n)) w"
  by (cases n) (simp_all add: deref_def run_this_inode)

lemma run_get_predecessor:
  "procs w p = Some s \<Longrightarrow> run route call p (bind_prog (atomic get_predecessor) f) w
     = run route call p (f (ln_predecessor s)) w"
  by (simp add: run_atomic get_predecessor_def)

lemma run_get_successor:
  assumes "procs w p = Some s" and "node_ok this s" and "first_some (entries (ln_finger s)) = Some n"
  shows "run route call p (bind_prog (atomic get_successor) f) w = run route call p (f (Some n)) w"
  using assms by (simp add: run_atomic get_successor_eq)

lemma run_set_predecessor:
  assumes "procs w p = Some s" and "node_ok this s"
  shows "run route call p (bind_prog (atomic (set_predecessor n)) f) w =
    run route call p (f ())
      (set_proc p (Some (s\<lparr>ln_predecessor :=
         (case n of Some (Remote i d) \<Rightarrow> if nd_id d = nd_id this then Some This else n | _ \<Rightarrow> n)\<rparr>)) w)"
  using assms by (simp add: run_atomic set_predecessor_def own_pointer_eq)

lemma run_set_successor:
  assumes "procs w p = Some s" and "node_ok this s"
  shows "run route call p (bind_prog (atomic (set_successor n)) f) w =
    run route call p (f ())
      (set_proc p (Some (s\<lparr>ln_finger := (ln_finger s)\<lparr>entries := (entries (ln_finger s))[0 :=
         (case n of Some (Remote i d) \<Rightarrow> if nd_id d = nd_id this then Some This else n | _ \<Rightarrow> n)]\<rparr>\<rparr>)) w)"
  using assms by (simp add: run_atomic set_successor_def own_pointer_eq setNode_def)

section \<open>Requests\<close>

definition message_array :: "RPCCode \<Rightarrow> bytes \<Rightarrow> bytes" where
  "message_array code payLoad =
     code_char code # payLoad @ replicate (MAX_DATA_LENGTH - Suc (length payLoad)) 0"

lemma message_array_parts [simp]:
  "char_code (message_array code payLoad ! 0) = Some code"
  "drop (Suc 0) (message_array code payLoad)
     = payLoad @ replicate (MAX_DATA_LENGTH - Suc (length payLoad)) 0"
  unfolding message_array_def by (simp_all only: nth_Cons_0 char_code_char drop_Suc_Cons drop_0)

lemma buffer_size_small: "n \<le> 1024 \<Longrightarrow> buffer_size (int n) = n"
  by (simp add: buffer_size_def MAX_DATA_LENGTH_def)

lemma handleRequest_message:
  assumes "length payLoad \<le> 126"
  shows "handleRequest k (createMessage code payLoad) =
    catch_prog
      (bind_prog (handle_code k (message_array code payLoad) (Suc (length payLoad)))
        (\<lambda>response. Ret (respond response)))
      (\<lambda>e. Ret [])"
proof -
  have h: "char_to_int (size_to_char (Suc (length payLoad))) = int (Suc (length payLoad))"
    using assms by (intro char_to_int_size_to_char) simp
  have b: "buffer_size (int (Suc (length payLoad))) = Suc (length payLoad)"
    using assms by (intro buffer_size_small) simp
  show ?thesis
    unfolding handleRequest_def createMessage_def asio_read_def
    by (simp add: h b Let_def message_array_def del: of_nat_Suc)
qed

lemma rest_length_Suc: "n < 2 ^ 64 \<Longrightarrow> rest_length (Suc n) = n"
  by (simp add: rest_length_def)

lemma chars_ID_message: "chars_ID (c_str i @ rest) = Inr i"
  using id_codec.dec_enc by simp

lemma handle_find_successor:
  "handle_code k (message_array FIND_SUCCESSOR (c_str i)) l =
     bind_prog (LocalNode_findSuccessor k i) reply_serial"
  by (simp add: handle_code_def Let_def chars_ID_message)

lemma handle_find_predecessor:
  "handle_code k (message_array FIND_PREDECESSOR (c_str i)) l =
     bind_prog (LocalNode_findPredecessor k i) reply_serial"
  by (simp add: handle_code_def Let_def chars_ID_message)

lemma handle_closest_preceding_finger:
  "handle_code k (message_array CLOSEST_PRECEDING_FINGER (c_str i)) l =
     bind_prog (LocalNode_closestPrecedingFinger i) reply_serial"
  by (simp add: handle_code_def Let_def chars_ID_message)

lemma handle_get_predecessor:
  "handle_code k (message_array GET_PREDECESSOR []) l = bind_prog (atomic get_predecessor) reply_serial"
  by (simp add: handle_code_def Let_def)

lemma handle_get_successor:
  "handle_code k (message_array GET_SUCCESSOR []) l = bind_prog (atomic get_successor) reply_serial"
  by (simp add: handle_code_def Let_def)

lemma handle_receive:
  assumes "length m \<le> 126"
  shows "handle_code k (message_array RECEIVE m) (Suc (length m)) =
    bind_prog (atomic (receive_here m)) (\<lambda>u. Ret [])"
  using assms by (simp add: handle_code_def Let_def rest_length_Suc)

lemma handle_ping: "handle_code k (message_array PING []) l = Ret []"
  by (simp add: handle_code_def Let_def)

lemma handle_notify:
  assumes "sendable d" and "length (serialize d) \<le> 126"
  shows "handle_code k (message_array NOTIFY (serialize d)) (Suc (length (serialize d))) =
    bind_prog (atomic (allocate d)) (\<lambda>n. bind_prog (LocalNode_notify (Some n)) (\<lambda>u. Ret []))"
  using assms parse_serialize [OF assms(1)]
  by (simp add: handle_code_def Let_def new_RemoteNode_def bind_prog_assoc)

section \<open>Replies\<close>

text \<open>A node whose serial form fits the signed header byte of a message.\<close>

definition short :: "inode \<Rightarrow> bool" where
  "short d \<longleftrightarrow> sendable d \<and> length (serialize d) \<le> 126"

lemma serialize_not_Nil: "serialize d \<noteq> []"
  by (simp add: serialize_def Let_def)

lemma respond_short:
  assumes "short d"
  shows "read_reply (respond (serialize d)) = Inr (serialize d)"
proof -
  have l: "0 < length (serialize d)" "length (serialize d) \<le> 126"
    using assms serialize_not_Nil [of d] by (simp_all add: short_def)
  have h: "char_to_int (size_to_char (length (serialize d))) = int (length (serialize d))"
    using l by (intro char_to_int_size_to_char) simp
  have b: "buffer_size (int (length (serialize d))) = length (serialize d)"
    using l by (intro buffer_size_small) simp
  show ?thesis
    using l by (simp add: respond_def h read_reply_def asio_read_def b Let_def)
qed

lemma reply_node_short:
  "short d \<Longrightarrow> reply_node (serialize d) = bind_prog (atomic (allocate d)) (\<lambda>n. Ret (Some n))"
  using parse_serialize [of d "[0]"] serialize_not_Nil [of d]
  by (simp add: reply_node_def new_RemoteNode_def short_def)

text \<open>An allocation changes nothing but the object counter.\<close>

definition bump :: "local_node \<Rightarrow> local_node" where
  "bump s = s\<lparr>ln_next := ln_next s + 1\<rparr>"

lemma run_allocate:
  "procs w p = Some s \<Longrightarrow> run route call p (bind_prog (atomic (allocate d)) f) w
     = run route call p (f (Remote (ln_next s) d)) (set_proc p (Some (bump s)) w)"
  by (simp add: run_atomic allocate_def bump_def)

section \<open>Exchanges\<close>

text \<open>A query of \<open>RemoteNode\<close> whose request is answered with a node's serial form.\<close>

lemma run_query:
  assumes "connect route (procs w) (nd_host d) (dec_number (unat (nd_port d))) = Some q"
    and "procs w p \<noteq> None" and "call q m w = Some (w', respond (serialize e))" and "short e"
    and "procs w' p = Some s"
  shows "run route call p (bind_prog (sendMessage d m True t) reply_node) w =
    Some (set_proc p (Some (bump s)) w', Returned (Some (Remote (ln_next s) e)))"
  using assms run_allocate [of w' p s route call e "\<lambda>n. Ret (Some n)"]
  by (simp add: sendMessage_def Let_def respond_short reply_node_short)

text \<open>A query that fails, or to which nothing is written, gives the null pointer.\<close>

lemma run_query_nothing:
  assumes "procs w p = Some s"
    and "connect route (procs w) (nd_host d) (dec_number (unat (nd_port d))) = Some q \<Longrightarrow>
       call q m w = Some (w, [])"
    and "\<And>q'. connect route (procs w) (nd_host d) (dec_number (unat (nd_port d))) = Some q' \<Longrightarrow> q' = q"
  shows "run route call p (bind_prog (sendMessage d m True False) reply_node) w =
    Some (w, Returned None)"
  using assms
  by (cases "connect route (procs w) (nd_host d) (dec_number (unat (nd_port d)))")
    (auto simp: sendMessage_def Let_def read_reply_def asio_read_def reply_node_def)

text \<open>A message nobody waits for is in flight when the connection can be made, and lost else.\<close>

lemma run_post:
  assumes "procs w p = Some s"
  shows "run route call p (bind_prog (sendMessage d m False False) (\<lambda>r. Ret ())) w =
    Some (case connect route (procs w) (nd_host d) (dec_number (unat (nd_port d))) of
            None \<Rightarrow> w | Some q \<Rightarrow> w\<lparr>inflight := inflight w @ [(q, m)]\<rparr>, Returned ())"
  using assms by (auto simp: sendMessage_def Let_def split: option.split)

text \<open>\<open>ping\<close> succeeds when the connection can be made; it does not wait for an answer.\<close>

lemma run_remote_ping:
  assumes "procs w p = Some s"
  shows "run route call p (RemoteNode_ping d) w =
    Some (case connect route (procs w) (nd_host d) (dec_number (unat (nd_port d))) of
            None \<Rightarrow> (w, Returned False)
          | Some q \<Rightarrow> (w\<lparr>inflight := inflight w @ [(q, createMessage PING [])]\<rparr>, Returned True))"
  using assms by (auto simp: RemoteNode_ping_def sendMessage_def Let_def split: option.split)

section \<open>Serving\<close>

lemma serve_message:
  assumes "procs w q = Some t" and "ln_listening t" and "\<not> ln_stop t" and "length payLoad \<le> 126"
    and "run route (serve route n) q
      (handle_code (Suc n) (message_array code payLoad) (Suc (length payLoad))) w = Some (w', Returned r)"
    and "procs w' q \<noteq> None"
  shows "serve route (Suc n) q (createMessage code payLoad) w = Some (w', respond r)"
proof -
  obtain t' where "procs w' q = Some t'" using assms(6) by blast
  with assms show ?thesis
    by (simp add: served_def server_accept_def handleRequest_message run_catch run_bind finish_def)
qed

lemma serve_node:
  assumes "procs w q = Some t" and "ln_listening t" and "\<not> ln_stop t" and "length payLoad \<le> 126"
    and "handle_code (Suc n) (message_array code payLoad) (Suc (length payLoad))
      = bind_prog m reply_serial"
    and "run route (serve route n) q m w = Some (w', Returned (Some x))"
    and "procs w' q = Some t'"
  shows "serve route (Suc n) q (createMessage code payLoad) w
    = Some (w', respond (serialize (node_data (ln_inode t') x)))"
proof (rule serve_message [OF assms(1-4)])
  show "run route (serve route n) q
      (handle_code (Suc n) (message_array code payLoad) (Suc (length payLoad))) w
    = Some (w', Returned (serialize (node_data (ln_inode t') x)))"
    using assms(6,7) run_deref [OF assms(7), of route "serve route n" x "\<lambda>d. Ret (serialize d)"]
    by (simp add: assms(5) run_bind reply_serial_def del: bind_prog.simps)
qed (simp add: assms(7))

text \<open>The length of a reply that can be read: it fits the positive values of a char.\<close>

lemma read_reply_respond:
  assumes "length r \<le> 255"
  shows "read_reply (respond r) = (if 0 < length r \<and> length r \<le> 127 then Inr r else Inl SystemError)"
proof (cases "length r \<le> 127")
  case True
  then have h: "char_to_int (size_to_char (length r)) = int (length r)"
    by (intro char_to_int_size_to_char) simp
  have b: "buffer_size (int (length r)) = length r" using True by (intro buffer_size_small) simp
  show ?thesis
    using True by (auto simp: respond_def h read_reply_def asio_read_def b Let_def)
next
  case False
  have "unat (size_to_char (length r)) = length r"
    using assms unfolding size_to_char_def unat_of_nat_byte by simp
  then have "char_to_int (size_to_char (length r)) = int (length r) - 256"
    using assms False unfolding char_to_int_def by (subst sint_byte_eq) simp
  then show ?thesis
    using assms False by (simp add: respond_def read_reply_def asio_read_def Let_def)
qed

section \<open>Properties\<close>

text \<open>
  C12. A message made by \<open>createMessage\<close> with at most 126 bytes of payload reaches the switch of
  \<open>handleRequest\<close> whole: its code first, its payload next, its exact length, and zeros after it.
\<close>

theorem request_framing:
  assumes "length payLoad \<le> 126"
  shows "handleRequest k (createMessage code payLoad) =
    catch_prog
      (bind_prog
        (handle_code k (code_char code # payLoad @ replicate (MAX_DATA_LENGTH - Suc (length payLoad)) 0)
          (Suc (length payLoad)))
        (\<lambda>response. Ret (respond response)))
      (\<lambda>e. Ret [])"
  using handleRequest_message [OF assms] by (simp add: message_array_def)

theorem request_framing_witness:
  "handleRequest 1 (createMessage RECEIVE [104, 105]) =
    catch_prog
      (bind_prog (handle_code 1 (code_char RECEIVE # [104, 105] @ replicate 1021 0) 3)
        (\<lambda>response. Ret (respond response)))
      (\<lambda>e. Ret [])"
  using request_framing [of "[104, 105]" 1 RECEIVE] by (simp add: MAX_DATA_LENGTH_def numeral_3_eq_3)

text \<open>
  A reply of 1 to 127 bytes is read by the caller as it was given; an empty one, or one of 128
  to 255 bytes, is not written at all, so the caller's read fails.
\<close>

lemma reply_framing:
  assumes "length r \<le> 255"
  shows "read_reply (respond r) = (if 0 < length r \<and> length r \<le> 127 then Inr r else Inl SystemError)"
  by (rule read_reply_respond [OF assms])

lemma reply_framing_witness:
  "read_reply (respond [1, 2]) = Inr [1, 2] \<and> read_reply (respond (replicate 128 0)) = Inl SystemError"
  using reply_framing [of "[1, 2]"] reply_framing [of "replicate 128 0"] by simp

end
