(* ===== verification/Routing.thy ===== *)
theory Routing
  imports Message_Passing
begin

text \<open>
  Lookup in a settled network, one in which every node's successor pointer leads to the next
  node on the circle and every finger to some live node. Each hop of \<open>findSuccessor\<close> goes to a node strictly between the asking node and the
  identifier, so the lookup ends within as many hops as there are nodes, and it ends at the
  owner of the identifier: the first node at or after it on the circle.
\<close>

section \<open>The closest preceding finger\<close>

fun cpf_value :: "local_node \<Rightarrow> ID \<Rightarrow> nat \<Rightarrow> node" where
  "cpf_value s i 0 = This"
| "cpf_value s i (Suc j) =
     (case first_some (drop j (entries (ln_finger s))) of
        Some n \<Rightarrow> if isInInterval (get_id s n) (nd_id (ln_inode s)) i then n else cpf_value s i j
      | None \<Rightarrow> cpf_value s i j)"

lemma run_read_finger:
  assumes "procs w p = Some s" and "full_table (ln_finger s)" and "j < M"
  shows "run route call p (bind_prog (atomic (read_finger j)) f) w
    = run route call p (f (first_some (drop j (entries (ln_finger s))))) w"
  using assms by (simp add: run_atomic read_finger_def getNode_first)

lemma run_cpf_loop:
  assumes s: "procs w p = Some s" "full_table (ln_finger s)" "ln_shared s"
  shows "j \<le> M \<Longrightarrow> run route call p (bind_prog (cpf_loop i j) f) w
    = run route call p (f (Some (cpf_value s i j))) w"
proof (induction j)
  case 0
  then show ?case using run_this_pointer [OF s(1,3)] by simp
next
  case (Suc j)
  then have j: "j < M" by simp
  show ?case
    using Suc.IH j
    by (simp add: bind_prog_assoc run_read_finger [OF s(1,2) j] run_deref [OF s(1)] run_this_inode [OF s(1)]
        get_id_def split: option.split)
qed

lemma cpf_value_between:
  assumes "first_some (entries (ln_finger s)) = Some n"
    and "isInInterval (get_id s n) (nd_id (ln_inode s)) i" and "0 < j"
  shows "Some (cpf_value s i j) \<in> set (entries (ln_finger s))
    \<and> isInInterval (get_id s (cpf_value s i j)) (nd_id (ln_inode s)) i"
  using assms(3)
proof (induction j)
  case (Suc j)
  show ?case
  proof (cases "j = 0")
    case True
    then show ?thesis using assms(1,2) first_some_in [OF assms(1)] by simp
  next
    case False
    then have IH: "Some (cpf_value s i j) \<in> set (entries (ln_finger s))
        \<and> isInInterval (get_id s (cpf_value s i j)) (nd_id (ln_inode s)) i"
      using Suc.IH by simp
    show ?thesis
    proof (cases "first_some (drop j (entries (ln_finger s)))")
      case None
      with IH show ?thesis by simp
    next
      case (Some m)
      from first_some_in [OF this] have "Some m \<in> set (entries (ln_finger s))"
        by (rule in_set_dropD)
      with IH Some show ?thesis by simp
    qed
  qed
qed simp

text \<open>The result is the entry of the highest slot whose node lies between, or the node itself.\<close>

definition nearest_finger :: "local_node \<Rightarrow> ID \<Rightarrow> nat \<Rightarrow> node \<Rightarrow> bool" where
  "nearest_finger s i k x \<longleftrightarrow>
     (\<exists>j < k. entries (ln_finger s) ! j = Some x \<and> isInInterval (get_id s x) (nd_id (ln_inode s)) i
        \<and> (\<forall>l n. j < l \<longrightarrow> l < M \<longrightarrow> entries (ln_finger s) ! l = Some n \<longrightarrow>
             \<not> isInInterval (get_id s n) (nd_id (ln_inode s)) i))
     \<or> x = This \<and> (\<forall>l n. l < M \<longrightarrow> entries (ln_finger s) ! l = Some n \<longrightarrow>
             \<not> isInInterval (get_id s n) (nd_id (ln_inode s)) i)"

lemma nearest_finger_Suc: "nearest_finger s i k x \<Longrightarrow> nearest_finger s i (Suc k) x"
  unfolding nearest_finger_def using less_SucI by blast

lemma first_some_drop:
  "j < length es \<Longrightarrow> first_some (drop j es) = (case es ! j of None \<Rightarrow> first_some (drop (Suc j) es) | Some n \<Rightarrow> Some n)"
  by (simp add: Cons_nth_drop_Suc [symmetric] split: option.split)

lemma first_some_slot: "first_some es = Some n \<Longrightarrow> \<exists>l < length es. es ! l = Some n"
  using first_some_in in_set_conv_nth by metis

lemma cpf_value_nearest:
  assumes "length (entries (ln_finger s)) = M"
    and "\<And>l n. k \<le> l \<Longrightarrow> l < M \<Longrightarrow> entries (ln_finger s) ! l = Some n \<Longrightarrow>
      \<not> isInInterval (get_id s n) (nd_id (ln_inode s)) i"
  shows "k \<le> M \<Longrightarrow> nearest_finger s i k (cpf_value s i k)"
  using assms(2)
proof (induction k)
  case 0
  then show ?case by (auto simp: nearest_finger_def)
next
  case (Suc k)
  let ?es = "entries (ln_finger s)" and ?near = "\<lambda>n. isInInterval (get_id s n) (nd_id (ln_inode s)) i"
  have k: "k < length ?es" using Suc.prems(1) assms(1) by simp
  have rest: ?case if far: "\<And>n. first_some (drop k ?es) = Some n \<Longrightarrow> \<not> ?near n"
  proof -
    have "\<not> ?near n" if "k \<le> l" "l < M" "?es ! l = Some n" for l n
    proof (cases "k = l")
      case True
      with that far first_some_drop [OF k] show ?thesis by simp
    next
      case False
      with that Suc.prems(2) [of l n] show ?thesis by simp
    qed
    then have "nearest_finger s i k (cpf_value s i k)" using Suc.IH Suc.prems(1) by simp
    moreover have "cpf_value s i (Suc k) = cpf_value s i k" using far by (simp split: option.split)
    ultimately show ?thesis using nearest_finger_Suc by (simp only:)
  qed
  show ?case
  proof (cases "?es ! k")
    case None
    have "\<not> ?near n" if "first_some (drop k ?es) = Some n" for n
    proof -
      have "first_some (drop (Suc k) ?es) = Some n" using that None first_some_drop [OF k] by simp
      from first_some_slot [OF this] obtain l where l: "l < length (drop (Suc k) ?es)"
          "drop (Suc k) ?es ! l = Some n"
        by blast
      have "Suc k + l < M" using l(1) assms(1) by simp
      moreover have "?es ! (Suc k + l) = Some n" using l by simp
      ultimately show ?thesis using Suc.prems(2) [of "Suc k + l" n] by simp
    qed
    then show ?thesis by (rule rest)
  next
    case (Some n)
    show ?thesis
    proof (cases "?near n")
      case True
      then have "cpf_value s i (Suc k) = n" using Some first_some_drop [OF k] by simp
      with True Some Suc.prems(2) show ?thesis
        unfolding nearest_finger_def by (intro disjI1 exI [of _ k]) (simp add: Suc_le_eq)
    next
      case False
      with Some first_some_drop [OF k] show ?thesis by (intro rest) simp
    qed
  qed
qed

section \<open>Arcs\<close>

context circle begin

text \<open>The end of an arc with nothing inside owns every point of it.\<close>

lemma arc_end_owns:
  assumes "a \<noteq> i" and "between i a s \<or> i = s" and "u = a \<or> a \<noteq> s \<and> \<not> between u a s"
  shows "dist i s \<le> dist i u"
proof (cases "i = s")
  case True
  then show ?thesis using dist_zero [of i s] by simp
next
  case False
  then have i: "between i a s" using assms(2) by simp
  show ?thesis
  proof (cases "a = s")
    case True
    with assms(3) show ?thesis by auto
  next
    case as: False
    have ai: "0 < dist a i" "dist a i < dist a s" using i as by (simp_all add: between_dist)
    have split: "dist a s = dist a i + dist i s" using dist_split [of a i s] ai by simp
    show ?thesis
    proof (cases "u = a")
      case True
      have "\<not> dist i a < dist i s" using dist_split [of i a s] split ai by auto
      with True show ?thesis by simp
    next
      case False
      then have "0 < dist a u" using dist_zero [of a u] by auto
      with assms(3) False as have "dist a s \<le> dist a u" by (auto simp: between_dist)
      then have "dist a u = dist a i + dist i u" using dist_split [of a i u] ai by simp
      with \<open>dist a s \<le> dist a u\<close> split show ?thesis by simp
    qed
  qed
qed

end

section \<open>Settled networks\<close>

text \<open>\<open>route\<close> leads to every live node, and its record travels in a message.\<close>

definition served_node ::
  "(bytes \<Rightarrow> bytes \<Rightarrow> nat option) \<Rightarrow> nat \<Rightarrow> local_node \<Rightarrow> bool"
where
  "served_node route p s \<longleftrightarrow>
     node_ok (ln_inode s) s \<and> ln_listening s \<and> \<not> ln_stop s \<and> short (ln_inode s)
     \<and> route (nd_host (ln_inode s)) (dec_number (unat (nd_port (ln_inode s)))) = Some p"

definition node_id :: "local_node \<Rightarrow> ID" where
  "node_id s = nd_id (ln_inode s)"

text \<open>The pointer \<open>n\<close> of \<open>s\<close> leads to the live node \<open>t\<close>.\<close>

definition leads_to :: "(nat \<Rightarrow> local_node option) \<Rightarrow> local_node \<Rightarrow> node \<Rightarrow> nat \<Rightarrow> local_node \<Rightarrow> bool" where
  "leads_to ns s n q t \<longleftrightarrow> ns q = Some t \<and> node_data (ln_inode s) n = ln_inode t"

definition live_fingers :: "(nat \<Rightarrow> local_node option) \<Rightarrow> local_node \<Rightarrow> bool" where
  "live_fingers ns s \<longleftrightarrow>
     (\<forall>n. Some n \<in> set (entries (ln_finger s)) \<longrightarrow> (\<exists>q t. leads_to ns s n q t))"

text \<open>The successor pointer is right: no live node lies strictly between, and it is the node
  itself only when the node is alone.\<close>

definition right_successor :: "(nat \<Rightarrow> local_node option) \<Rightarrow> local_node \<Rightarrow> bool" where
  "right_successor ns s \<longleftrightarrow>
     (\<exists>n. first_some (entries (ln_finger s)) = Some n \<and>
        (\<forall>q t. ns q = Some t \<longrightarrow> node_id t = node_id s \<or>
           (node_id s \<noteq> get_id s n \<and> \<not> isInInterval (node_id t) (node_id s) (get_id s n))))"

definition settled :: "(bytes \<Rightarrow> bytes \<Rightarrow> nat option) \<Rightarrow> (nat \<Rightarrow> local_node option) \<Rightarrow> bool" where
  "settled route ns \<longleftrightarrow>
     (\<forall>p s. ns p = Some s \<longrightarrow> served_node route p s \<and> live_fingers ns s \<and> right_successor ns s)"

text \<open>The owner of an identifier: the first live node at or after it.\<close>

definition owner :: "(nat \<Rightarrow> local_node option) \<Rightarrow> ID \<Rightarrow> local_node \<Rightarrow> bool" where
  "owner ns i t \<longleftrightarrow>
     (\<exists>q. ns q = Some t) \<and> (\<forall>q u. ns q = Some u \<longrightarrow> ring_dist i (node_id t) \<le> ring_dist i (node_id u))"

section \<open>Networks that differ in object numbers\<close>

definition objects_only :: "(nat \<Rightarrow> local_node option) \<Rightarrow> (nat \<Rightarrow> local_node option) \<Rightarrow> bool" where
  "objects_only ns ms \<longleftrightarrow> (\<exists>f. ms = (\<lambda>p. map_option (\<lambda>s. s\<lparr>ln_next := f p\<rparr>) (ns p)))"

lemma objects_only_refl [simp]: "objects_only ns ns"
  unfolding objects_only_def
  by (rule exI [of _ "\<lambda>p. ln_next (the (ns p))"]) (auto simp: fun_eq_iff option.map_comp map_option_case split: option.split)

lemma objects_only_trans: "objects_only ns ms \<Longrightarrow> objects_only ms ls \<Longrightarrow> objects_only ns ls"
  unfolding objects_only_def by (auto simp: fun_eq_iff option.map_comp comp_def)

lemma objects_only_bump:
  assumes "objects_only ns ms" and "ms p = Some s"
  shows "objects_only ns (ms(p := Some (bump s)))"
proof -
  obtain f where f: "ms = (\<lambda>p. map_option (\<lambda>s. s\<lparr>ln_next := f p\<rparr>) (ns p))"
    using assms(1) unfolding objects_only_def by blast
  obtain t where "ns p = Some t" "s = t\<lparr>ln_next := f p\<rparr>" using assms(2) f by auto
  then show ?thesis
    unfolding objects_only_def
    by (intro exI [of _ "f(p := ln_next s + 1)"]) (auto simp: f fun_eq_iff bump_def)
qed

lemma objects_only_Some:
  "objects_only ns ms \<Longrightarrow> ns p = Some s \<Longrightarrow> \<exists>k. ms p = Some (s\<lparr>ln_next := k\<rparr>)"
  unfolding objects_only_def by auto

lemma objects_only_back:
  "objects_only ns ms \<Longrightarrow> ms p = Some s \<Longrightarrow> \<exists>t k. ns p = Some t \<and> s = t\<lparr>ln_next := k\<rparr>"
  unfolding objects_only_def by auto

lemma objects_only_dom: "objects_only ns ms \<Longrightarrow> dom ms = dom ns"
  unfolding objects_only_def by (auto simp: dom_def)

lemma settled_objects_only:
  assumes "objects_only ns ms" and "settled route ns"
  shows "settled route ms"
  unfolding settled_def
proof (intro allI impI)
  fix p s assume "ms p = Some s"
  then obtain t k where t: "ns p = Some t" "s = t\<lparr>ln_next := k\<rparr>"
    using objects_only_back [OF assms(1)] by blast
  then have old: "served_node route p t" "live_fingers ns t" "right_successor ns t"
    using assms(2) by (simp_all add: settled_def)
  have "served_node route p s"
    using old(1) t(2) by (simp add: served_node_def node_ok_def)
  moreover have "live_fingers ms s"
    unfolding live_fingers_def
  proof (intro allI impI)
    fix n assume "Some n \<in> set (entries (ln_finger s))"
    then obtain q u where u: "ns q = Some u" "node_data (ln_inode t) n = ln_inode u"
      using old(2) t(2) by (auto simp: live_fingers_def leads_to_def)
    from objects_only_Some [OF assms(1) u(1)] obtain l where "ms q = Some (u\<lparr>ln_next := l\<rparr>)" by blast
    with u(2) t(2) show "\<exists>q t. leads_to ms s n q t" by (force simp: leads_to_def)
  qed
  moreover have "right_successor ms s"
  proof -
    obtain n where n: "first_some (entries (ln_finger t)) = Some n"
      "\<And>q u. ns q = Some u \<Longrightarrow> node_id u = node_id t \<or>
         (node_id t \<noteq> get_id t n \<and> \<not> isInInterval (node_id u) (node_id t) (get_id t n))"
      using old(3) by (auto simp: right_successor_def)
    have "node_id u = node_id s \<or>
         (node_id s \<noteq> get_id s n \<and> \<not> isInInterval (node_id u) (node_id s) (get_id s n))"
      if "ms q = Some u" for q u
      using objects_only_back [OF assms(1) that] n(2) t(2)
      by (force simp: node_id_def get_id_def)
    then show ?thesis
      unfolding right_successor_def using n(1) t(2) by auto
  qed
  ultimately show "served_node route p s \<and> live_fingers ms s \<and> right_successor ms s" by simp
qed

lemma owner_objects_only:
  assumes "objects_only ns ms" and "owner ms i t"
  shows "\<exists>u. owner ns i u \<and> ln_inode u = ln_inode t"
proof -
  obtain q where "ms q = Some t" using assms(2) by (auto simp: owner_def)
  then obtain u k where u: "ns q = Some u" "t = u\<lparr>ln_next := k\<rparr>"
    using objects_only_back [OF assms(1)] by blast
  have "ring_dist i (node_id u) \<le> ring_dist i (node_id v)" if v: "ns r = Some v" for r v
  proof -
    obtain l where "ms r = Some (v\<lparr>ln_next := l\<rparr>)" using objects_only_Some [OF assms(1) v] by blast
    then have "ring_dist i (node_id t) \<le> ring_dist i (node_id (v\<lparr>ln_next := l\<rparr>))"
      using assms(2) unfolding owner_def by blast
    then show ?thesis by (simp add: u(2) node_id_def)
  qed
  with u show ?thesis by (auto simp: owner_def)
qed

section \<open>Lookup\<close>

definition arc :: "(nat \<Rightarrow> local_node option) \<Rightarrow> ID \<Rightarrow> ID \<Rightarrow> nat set" where
  "arc ns a i = {q. \<exists>t. ns q = Some t \<and> isInInterval (node_id t) a i}"

lemma arc_shrinks:
  assumes "finite (dom ns)" and "a \<noteq> i" and "ns q = Some t" and "isInInterval (node_id t) a i"
  shows "card (arc ns (node_id t) i) < card (arc ns a i)"
proof (rule psubset_card_mono)
  have "arc ns a i \<subseteq> dom ns" by (auto simp: arc_def)
  then show "finite (arc ns a i)" using assms(1) by (rule finite_subset)
  have "node_id t \<noteq> i" using id_circle.between_progress [OF assms(2,4)] by simp
  then have "q \<notin> arc ns (node_id t) i"
    using id_circle.not_between_ends [of "node_id t" i] assms(3) by (simp add: arc_def)
  moreover have "q \<in> arc ns a i" using assms(3,4) by (auto simp: arc_def)
  moreover have "arc ns (node_id t) i \<subseteq> arc ns a i"
    using id_circle.between_rest [OF assms(2,4)] by (auto simp: arc_def)
  ultimately show "arc ns (node_id t) i \<subset> arc ns a i" by blast
qed

lemma connect_served:
  "settled route ns \<Longrightarrow> ns q = Some t \<Longrightarrow>
     connect route ns (nd_host (ln_inode t)) (dec_number (unat (nd_port (ln_inode t)))) = Some q"
  by (simp add: settled_def served_node_def connect_def)

lemma owner_short: "settled route ns \<Longrightarrow> owner ns i t \<Longrightarrow> short (ln_inode t)"
  by (auto simp: settled_def served_node_def owner_def)

lemma owner_here: "ns q = Some t \<Longrightarrow> node_id t = i \<Longrightarrow> owner ns i t"
  using id_circle.dist_zero [of i i] by (auto simp: owner_def)

lemma owner_successor:
  assumes "right_successor ns s" and "first_some (entries (ln_finger s)) = Some n"
    and "leads_to ns s n q t" and "node_id s \<noteq> i"
    and "isInInterval i (node_id s) (get_id s n) \<or> i = get_id s n"
  shows "owner ns i t"
proof -
  have t: "node_id t = get_id s n" using assms(3) by (simp add: leads_to_def node_id_def get_id_def)
  have "ring_dist i (node_id t) \<le> ring_dist i (node_id u)" if "ns r = Some u" for r u
    using id_circle.arc_end_owns [OF assms(4,5), of "node_id u"] assms(1,2) that t
    by (auto simp: right_successor_def)
  with assms(3) show ?thesis by (auto simp: owner_def leads_to_def)
qed

text \<open>
  What is proved of a lookup by the process \<open>p\<close> with state \<open>s\<close>. \<open>A\<close> are the members of the
  settled network; other processes, such as one about to join, may be around.
\<close>

definition finds_owner ::
  "(bytes \<Rightarrow> bytes \<Rightarrow> nat option) \<Rightarrow> nat set \<Rightarrow> nat \<Rightarrow> nat \<Rightarrow> local_node \<Rightarrow> node_ptr prog \<Rightarrow> ID \<Rightarrow> world \<Rightarrow> bool"
where
  "finds_owner route A n p s m i w \<longleftrightarrow>
     (\<exists>w' x t. run route (serve route n) p m w = Some (w', Returned (Some x))
        \<and> objects_only (procs w) (procs w') \<and> inflight w' = inflight w
        \<and> owner (procs w |` A) i t \<and> node_data (ln_inode s) x = ln_inode t)"

lemma restrict_Some [simp]: "(ns |` A) p = Some s \<longleftrightarrow> p \<in> A \<and> ns p = Some s"
  by (simp add: restrict_map_def)

lemma connect_member:
  "settled route (ns |` A) \<Longrightarrow> (ns |` A) q = Some t \<Longrightarrow>
     connect route ns (nd_host (ln_inode t)) (dec_number (unat (nd_port (ln_inode t)))) = Some q"
  by (simp add: settled_def served_node_def connect_def)

text \<open>A lookup by the process \<open>q\<close> is the same lookup by a process that asks \<open>q\<close>.\<close>

lemma finds_owner_remote:
  assumes w: "settled route (procs w |` A)" "procs w p = Some s" "(procs w |` A) q = Some u"
    and q: "finds_owner route A n q u (LocalNode_findSuccessor (Suc n) i) i w"
  shows "finds_owner route A (Suc n) p s (RemoteNode_findSuccessor (ln_inode u) i) i w"
proof -
  have qu: "procs w q = Some u" using w(3) by simp
  obtain w' x t where run: "run route (serve route n) q (LocalNode_findSuccessor (Suc n) i) w
        = Some (w', Returned (Some x))"
      and obj: "objects_only (procs w) (procs w')" "inflight w' = inflight w"
      and t: "owner (procs w |` A) i t" "node_data (ln_inode u) x = ln_inode t"
    using q by (auto simp: finds_owner_def)
  obtain s' u' where live: "procs w' p = Some s'" "procs w' q = Some u'" "ln_inode u' = ln_inode u"
    using objects_only_Some [OF obj(1) w(2)] objects_only_Some [OF obj(1) qu] by auto
  have u: "ln_listening u" "\<not> ln_stop u" using w(1,3) by (auto simp: settled_def served_node_def)
  have "serve route (Suc n) q (createMessage FIND_SUCCESSOR (c_str i)) w
      = Some (w', respond (serialize (ln_inode t)))"
    using serve_node [OF qu u _ handle_find_successor run live(2)] t(2) live(3) by simp
  from run_query [where call = "serve route (Suc n)" and w = w and p = p and t = False,
      OF connect_member [OF w(1,3)] _ this owner_short [OF w(1) t(1)] live(1)] w(2)
  have "run route (serve route (Suc n)) p (RemoteNode_findSuccessor (ln_inode u) i) w
      = Some (set_proc p (Some (bump s')) w', Returned (Some (Remote (ln_next s') (ln_inode t))))"
    by (simp add: RemoteNode_findSuccessor_def)
  with obj t(1) objects_only_bump [OF obj(1) live(1)] show ?thesis
    unfolding finds_owner_def by fastforce
qed

lemma run_findSuccessor:
  assumes s: "procs w p = Some s" "node_ok (ln_inode s) s"
    and n: "first_some (entries (ln_finger s)) = Some n"
  shows "run route call p (LocalNode_findSuccessor (Suc k) i) w =
    (if node_id s = i then Some (w, Returned (Some This))
     else if isInInterval i (node_id s) (get_id s n) \<or> i = get_id s n
     then Some (w, Returned (Some n))
     else run route call p (dispatch (Some (cpf_value s i M)) (LocalNode_findSuccessor k i)
            (\<lambda>d. RemoteNode_findSuccessor d i)) w)"
proof -
  have ok: "full_table (ln_finger s)" "ln_shared s" using s(2) by (simp_all add: node_ok_def)
  have ptr: "run route call p this_pointer w = Some (w, Returned (Some This))"
    using run_this_pointer [OF s(1) ok(2), of route call Ret] s(1) by simp
  show ?thesis
    by (simp add: LocalNode_findSuccessor.simps(2) run_this_inode [OF s(1)] run_get_successor [OF s n]
        run_deref [OF s(1)] ptr
        LocalNode_closestPrecedingFinger_def run_cpf_loop [OF s(1) ok] node_id_def get_id_def s(1))
qed

text \<open>A lookup that does not end here goes on at a member strictly nearer.\<close>

lemma lookup_hop:
  assumes w: "settled route (procs w |` A)" "(procs w |` A) p = Some s"
  shows "finds_owner route A n p s (LocalNode_findSuccessor (Suc k) i) i w \<or>
    (\<exists>q u. (procs w |` A) q = Some u \<and> node_id s \<noteq> i \<and> isInInterval (node_id u) (node_id s) i
      \<and> (\<forall>call. run route call p (LocalNode_findSuccessor (Suc k) i) w
           = run route call p (RemoteNode_findSuccessor (ln_inode u) i) w))"
proof -
  have p: "procs w p = Some s" using w(2) by simp
  have s: "node_ok (ln_inode s) s" "live_fingers (procs w |` A) s" "right_successor (procs w |` A) s"
    using w by (simp_all add: settled_def served_node_def)
  obtain n0 where n0: "first_some (entries (ln_finger s)) = Some n0"
    using s(3) by (auto simp: right_successor_def)
  obtain q0 t0 where t0: "leads_to (procs w |` A) s n0 q0 t0"
    using s(2) first_some_in [OF n0] unfolding live_fingers_def by blast
  note run = run_findSuccessor [OF p s(1) n0]
  consider (here) "node_id s = i"
    | (successor) "node_id s \<noteq> i" "isInInterval i (node_id s) (get_id s n0) \<or> i = get_id s n0"
    | (hop) "node_id s \<noteq> i" "\<not> (isInInterval i (node_id s) (get_id s n0) \<or> i = get_id s n0)"
    by blast
  then show ?thesis
  proof cases
    case here
    have "owner (procs w |` A) i s" by (rule owner_here [where ns = "procs w |` A", OF w(2) here])
    then have "finds_owner route A n p s (LocalNode_findSuccessor (Suc k) i) i w"
      unfolding finds_owner_def run using here by fastforce
    then show ?thesis by blast
  next
    case successor
    have "owner (procs w |` A) i t0" by (rule owner_successor [OF s(3) n0 t0 successor])
    then have "finds_owner route A n p s (LocalNode_findSuccessor (Suc k) i) i w"
      unfolding finds_owner_def run using successor t0 by (fastforce simp: leads_to_def)
    then show ?thesis by blast
  next
    case hop
    have own: "node_id s = nd_id (ln_inode s)" by (simp add: node_id_def)
    have "node_id s \<noteq> get_id s n0" using hop(2) id_circle.between_same by auto
    then have "isInInterval (get_id s n0) (node_id s) i"
      using id_circle.between_cases [of "node_id s" "get_id s n0" i] hop by auto
    then have y: "Some (cpf_value s i M) \<in> set (entries (ln_finger s))"
        "isInInterval (get_id s (cpf_value s i M)) (node_id s) i"
      using cpf_value_between [OF n0, of i M] own by simp_all
    from y(1) s(2) obtain q u where u: "(procs w |` A) q = Some u"
        "node_data (ln_inode s) (cpf_value s i M) = ln_inode u"
      unfolding live_fingers_def leads_to_def by blast
    have "cpf_value s i M \<noteq> This"
      using y(2) id_circle.not_between_ends(1) [OF hop(1)] own by (auto simp: get_id_def)
    then obtain a where "cpf_value s i M = Remote a (ln_inode u)"
      using u(2) by (cases "cpf_value s i M") auto
    moreover have "node_id u = get_id s (cpf_value s i M)"
      using u(2) by (simp add: node_id_def get_id_def)
    ultimately have "isInInterval (node_id u) (node_id s) i"
      and "\<forall>call. run route call p (LocalNode_findSuccessor (Suc k) i) w
           = run route call p (RemoteNode_findSuccessor (ln_inode u) i) w"
      using hop y(2) by (simp_all add: run dispatch_def)
    with u(1) hop(1) show ?thesis by blast
  qed
qed

lemma lookup_settled:
  assumes "settled route (procs w |` A)" and "finite (dom (procs w |` A))"
    and "(procs w |` A) p = Some s" and "card (arc (procs w |` A) (node_id s) i) \<le> n"
  shows "finds_owner route A n p s (LocalNode_findSuccessor (Suc k) i) i w"
  using assms(3,4)
proof (induction n arbitrary: p s k)
  case 0
  have "finite (arc (procs w |` A) (node_id s) i)"
    by (rule finite_subset [OF _ assms(2)]) (auto simp: arc_def)
  with 0(2) have "q \<notin> arc (procs w |` A) (node_id s) i" for q by simp
  then show ?case using lookup_hop [OF assms(1) 0(1), of 0 k i] by (auto simp: arc_def)
next
  case (Suc n)
  from lookup_hop [OF assms(1) Suc.prems(1), of "Suc n" k i] show ?case
  proof (elim disjE exE conjE)
    fix q u
    assume u: "(procs w |` A) q = Some u" and hop: "node_id s \<noteq> i" "isInInterval (node_id u) (node_id s) i"
      and run: "\<forall>call. run route call p (LocalNode_findSuccessor (Suc k) i) w
           = run route call p (RemoteNode_findSuccessor (ln_inode u) i) w"
    have "card (arc (procs w |` A) (node_id u) i) \<le> n"
      using arc_shrinks [OF assms(2) hop(1) u hop(2)] Suc.prems(2) by simp
    from finds_owner_remote [OF assms(1) _ u Suc.IH [OF u this]] run Suc.prems(1)
    show ?thesis by (simp add: finds_owner_def)
  qed
qed

text \<open>The number of members bounds the number of hops.\<close>

lemma arc_bound: "finite (dom ns) \<Longrightarrow> card (arc ns a i) \<le> card (dom ns)"
  by (rule card_mono) (auto simp: arc_def)

section \<open>Properties\<close>

text \<open>
  \<open>closestPrecedingFinger(id)\<close> returns the node in the highest slot of the finger table that
  lies strictly between this node and \<open>id\<close>, and this node exactly when no slot holds one.
\<close>

lemma closest_finger:
  assumes "procs w p = Some s" and "length (entries (ln_finger s)) = M" and "ln_shared s"
  shows "\<exists>x. run route call p (LocalNode_closestPrecedingFinger i) w = Some (w, Returned (Some x)) \<and>
    ((\<exists>j < M. entries (ln_finger s) ! j = Some x \<and> isInInterval (get_id s x) (nd_id (ln_inode s)) i
        \<and> (\<forall>l n. j < l \<longrightarrow> l < M \<longrightarrow> entries (ln_finger s) ! l = Some n \<longrightarrow>
             \<not> isInInterval (get_id s n) (nd_id (ln_inode s)) i))
     \<or> x = This \<and> (\<forall>l n. l < M \<longrightarrow> entries (ln_finger s) ! l = Some n \<longrightarrow>
             \<not> isInInterval (get_id s n) (nd_id (ln_inode s)) i))"
proof (intro exI conjI)
  have "full_table (ln_finger s)" using assms(2) by (simp add: full_table_def)
  from run_cpf_loop [OF assms(1) this assms(3) le_refl, of route call i Ret] assms(1)
  show "run route call p (LocalNode_closestPrecedingFinger i) w
      = Some (w, Returned (Some (cpf_value s i M)))"
    by (simp add: LocalNode_closestPrecedingFinger_def del: cpf_loop.simps cpf_value.simps)
  have "nearest_finger s i M (cpf_value s i M)"
    by (rule cpf_value_nearest [OF assms(2)]) auto
  then show "(\<exists>j < M. entries (ln_finger s) ! j = Some (cpf_value s i M)
        \<and> isInInterval (get_id s (cpf_value s i M)) (nd_id (ln_inode s)) i
        \<and> (\<forall>l n. j < l \<longrightarrow> l < M \<longrightarrow> entries (ln_finger s) ! l = Some n \<longrightarrow>
             \<not> isInInterval (get_id s n) (nd_id (ln_inode s)) i))
     \<or> cpf_value s i M = This \<and> (\<forall>l n. l < M \<longrightarrow> entries (ln_finger s) ! l = Some n \<longrightarrow>
             \<not> isInInterval (get_id s n) (nd_id (ln_inode s)) i)"
    unfolding nearest_finger_def .
qed

lemma closest_finger_witness:
  "\<exists>s. run (\<lambda>h p. None) (\<lambda>q m w. None) 0 (LocalNode_closestPrecedingFinger default_ID)
      \<lparr>procs = [0 \<mapsto> s], inflight = []\<rparr> = Some (\<lparr>procs = [0 \<mapsto> s], inflight = []\<rparr>, Returned (Some This))"
proof -
  let ?s = "own_LocalNode (init \<lparr>nd_name = [98], nd_host = [104], nd_port = 1, nd_id = default_ID\<rparr>)"
  have "entries (ln_finger ?s) = replicate M None"
    by (simp add: own_LocalNode_def init_def setId_def new_FingerTable_def)
  then show ?thesis
    using closest_finger [of "\<lparr>procs = [0 \<mapsto> ?s], inflight = []\<rparr>" 0 ?s "\<lambda>h p. None" "\<lambda>q m w. None" default_ID]
    by (intro exI [of _ ?s]) (auto simp: own_LocalNode_def init_def)
qed

end
