(* ===== verification/Maintenance.thy ===== *)
theory Maintenance
  imports Routing
begin

text \<open>
  The periodic maintenance and joining: what \<open>notify\<close> does to the predecessor, that the ping
  loop of \<open>stabilize\<close> ends and what it leaves in the finger table, how \<open>join\<close> finds the
  successor of a new node, and what a request for a missing predecessor does.
\<close>

section \<open>notify\<close>

text \<open>The pointer the setters store.\<close>

definition own_or :: "inode \<Rightarrow> node \<Rightarrow> node" where
  "own_or this n =
     (case n of This \<Rightarrow> This | Remote i d \<Rightarrow> if nd_id d = nd_id this then This else n)"

lemma set_predecessor_eq:
  "node_ok this s \<Longrightarrow> set_predecessor (Some n) s = (Inr (), s\<lparr>ln_predecessor := Some (own_or this n)\<rparr>)"
  by (simp add: set_predecessor_def own_pointer_eq own_or_def split: node.split)

lemma set_successor_eq:
  "node_ok this s \<Longrightarrow> set_successor (Some n) s = (Inr (),
     s\<lparr>ln_finger := (ln_finger s)\<lparr>entries := (entries (ln_finger s))[0 := Some (own_or this n)]\<rparr>\<rparr>)"
  by (simp add: set_successor_def own_pointer_eq own_or_def setNode_def split: node.split)

text \<open>Whether the node \<open>n\<close> becomes the predecessor of \<open>s\<close>.\<close>

definition accepts :: "local_node \<Rightarrow> node \<Rightarrow> bool" where
  "accepts s n \<longleftrightarrow>
     (case ln_predecessor s of
        None \<Rightarrow> True
      | Some p \<Rightarrow> isInInterval (get_id s n) (get_id s p) (node_id s))"

lemma run_notify:
  assumes s: "procs w p = Some s" "node_ok (ln_inode s) s"
  shows "run route call p (LocalNode_notify (Some n)) w =
    Some (if accepts s n
          then set_proc p (Some (s\<lparr>ln_predecessor := Some (own_or (ln_inode s) n)\<rparr>)) w else w,
      Returned ())"
proof -
  have set: "run route call p (atomic (set_predecessor (Some n))) w =
      Some (set_proc p (Some (s\<lparr>ln_predecessor := Some (own_or (ln_inode s) n)\<rparr>)) w, Returned ())"
    using run_atomic [OF s(1), of route call "set_predecessor (Some n)" Ret] set_predecessor_eq [OF s(2)]
    by simp
  show ?thesis
    by (simp add: LocalNode_notify_def run_deref [OF s(1)] run_get_predecessor [OF s(1)] set
        run_this_inode [OF s(1)] accepts_def get_id_def node_id_def s(1)
        split: option.split)
qed

section \<open>The ping loop of stabilize\<close>

definition used_slots :: "local_node \<Rightarrow> nat" where
  "used_slots s = length (filter (\<lambda>e. e \<noteq> None) (entries (ln_finger s)))"

definition answers :: "(bytes \<Rightarrow> bytes \<Rightarrow> nat option) \<Rightarrow> world \<Rightarrow> node \<Rightarrow> bool" where
  "answers route w n \<longleftrightarrow>
     (case n of
        This \<Rightarrow> True
      | Remote i d \<Rightarrow> connect route (procs w) (nd_host d) (dec_number (unat (nd_port d))) \<noteq> None)"

definition after_ping :: "(bytes \<Rightarrow> bytes \<Rightarrow> nat option) \<Rightarrow> node \<Rightarrow> world \<Rightarrow> world" where
  "after_ping route n w =
     (case n of
        This \<Rightarrow> w
      | Remote i d \<Rightarrow>
          (case connect route (procs w) (nd_host d) (dec_number (unat (nd_port d))) of
             None \<Rightarrow> w
           | Some q \<Rightarrow> w\<lparr>inflight := inflight w @ [(q, createMessage PING [])]\<rparr>))"

lemma run_ping:
  "procs w p = Some s \<Longrightarrow>
     run route call p (ping (Some n)) w = Some (after_ping route n w, Returned (answers route w n))"
  by (cases n) (auto simp: ping_def dispatch_def LocalNode_ping_def run_remote_ping after_ping_def
      answers_def split: option.split)

text \<open>
  The finger table after the loop: the entries that are gone are objects that did not answer;
  when nothing is left the node itself is put in slot 0.
\<close>

definition dead_entry ::
  "(bytes \<Rightarrow> bytes \<Rightarrow> nat option) \<Rightarrow> world \<Rightarrow> local_node \<Rightarrow> node_ptr \<Rightarrow> bool"
where
  "dead_entry route w s e \<longleftrightarrow>
     (\<exists>n. Some n \<in> set (entries (ln_finger s)) \<and> same_pointer e (Some n) \<and> \<not> answers route w n)"

definition only_dead_dropped ::
  "(bytes \<Rightarrow> bytes \<Rightarrow> nat option) \<Rightarrow> world \<Rightarrow> local_node \<Rightarrow> local_node \<Rightarrow> bool"
where
  "only_dead_dropped route w s s' \<longleftrightarrow>
     (\<forall>i < M.
        entries (ln_finger s') ! i = entries (ln_finger s) ! i
        \<or> entries (ln_finger s') ! i = None \<and> dead_entry route w s (entries (ln_finger s) ! i)
        \<or> i = 0 \<and> entries (ln_finger s') ! i = Some This
            \<and> (entries (ln_finger s) ! i = None \<or> dead_entry route w s (entries (ln_finger s) ! i)))"

definition successor_checked ::
  "(bytes \<Rightarrow> bytes \<Rightarrow> nat option) \<Rightarrow> world \<Rightarrow> local_node \<Rightarrow> local_node \<Rightarrow> bool"
where
  "successor_checked route w s s' \<longleftrightarrow>
     node_ok (ln_inode s) s' \<and> (\<exists>t. s' = s\<lparr>ln_finger := t\<rparr>)
     \<and> (\<exists>n. first_some (entries (ln_finger s')) = Some n \<and> answers route w n)
     \<and> only_dead_dropped route w s s'"

lemma answers_set_proc:
  "procs w p = Some s \<Longrightarrow> ln_listening s' = ln_listening s \<Longrightarrow>
     answers route (set_proc p (Some s') w) n = answers route w n"
  by (auto simp: answers_def connect_def split: node.split option.split)

lemma length_entries: "node_ok this s \<Longrightarrow> length (entries (ln_finger s)) = M"
  by (simp add: node_ok_def full_table_def)

lemma forget_entries:
  assumes "node_ok this s"
  shows "entries (removeNode (ln_finger s) (Some n))
      = map (\<lambda>e. if same_pointer e (Some n) then None else e) (entries (ln_finger s))"
    and "node_ok this (s\<lparr>ln_finger := removeNode (ln_finger s) (Some n)\<rparr>)"
    and "Some n \<in> set (entries (ln_finger s)) \<Longrightarrow>
      used_slots (s\<lparr>ln_finger := removeNode (ln_finger s) (Some n)\<rparr>) < used_slots s"
proof -
  note full = node_ok_full [OF assms]
  show "entries (removeNode (ln_finger s) (Some n))
      = map (\<lambda>e. if same_pointer e (Some n) then None else e) (entries (ln_finger s))"
    using fingers.clear_slots [OF full, of "Some n"] by simp
  show "node_ok this (s\<lparr>ln_finger := removeNode (ln_finger s) (Some n)\<rparr>)"
    using keeps_forget_finger [of this "Some n"] assms by (simp add: keeps_act_def forget_finger_def)
  show "Some n \<in> set (entries (ln_finger s)) \<Longrightarrow>
      used_slots (s\<lparr>ln_finger := removeNode (ln_finger s) (Some n)\<rparr>) < used_slots s"
    using fingers.clear_used [OF full, of n] by (simp add: used_slots_def fingers.used_def)
qed

lemma dropped_after_forget:
  assumes s: "node_ok this s" and n: "Some n \<in> set (entries (ln_finger s))" "\<not> answers route w n"
    and s1: "s1 = s\<lparr>ln_finger := removeNode (ln_finger s) (Some n)\<rparr>"
    and rest: "only_dead_dropped route w s1 s'"
  shows "only_dead_dropped route w s s'"
  unfolding only_dead_dropped_def
proof (intro allI impI)
  fix i assume i: "i < M"
  let ?e = "entries (ln_finger s) ! i" and ?e1 = "entries (ln_finger s1) ! i"
  have e1: "?e1 = (if same_pointer ?e (Some n) then None else ?e)"
    using i length_entries [OF s] forget_entries(1) [OF s, of n] by (simp add: s1)
  have "set (entries (ln_finger s1)) \<subseteq> insert None (set (entries (ln_finger s)))"
    using forget_entries(1) [OF s, of n] by (auto simp: s1)
  then have mono: "dead_entry route w s1 e \<Longrightarrow> dead_entry route w s e" for e
    by (auto simp: dead_entry_def)
  have "same_pointer ?e (Some n) \<Longrightarrow> dead_entry route w s ?e"
    using n by (auto simp: dead_entry_def)
  moreover have "\<not> dead_entry route w s1 None" by (simp add: dead_entry_def)
  ultimately show "entries (ln_finger s') ! i = ?e
      \<or> entries (ln_finger s') ! i = None \<and> dead_entry route w s ?e
      \<or> i = 0 \<and> entries (ln_finger s') ! i = Some This \<and> (?e = None \<or> dead_entry route w s ?e)"
    using rest i e1 mono unfolding only_dead_dropped_def by (auto split: if_splits)
qed

lemma ping_loop_ends:
  assumes "procs w p = Some s" and "node_ok (ln_inode s) s" and "used_slots s < k"
  shows "\<exists>w' s'. run route call p (bind_prog (atomic get_successor) (ping_loop k)) w = Some (w', Returned ())
    \<and> procs w' = (procs w)(p := Some s') \<and> successor_checked route w s s'"
  using assms
proof (induction k arbitrary: w s)
  case (Suc k)
  note s = Suc.prems(1,2)
  show ?case
  proof (cases "first_some (entries (ln_finger s))")
    case None
    let ?s = "s\<lparr>ln_finger := (ln_finger s)\<lparr>entries := (entries (ln_finger s))[0 := Some This]\<rparr>\<rparr>"
    have "entries (ln_finger s) \<noteq> []" using length_entries [OF s(2)] by auto
    then have "first_some (entries (ln_finger ?s)) = Some This"
      by (cases "entries (ln_finger s)") simp_all
    moreover have "entries (ln_finger s) ! 0 \<in> set (entries (ln_finger s))"
      using length_entries [OF s(2)] by (intro nth_mem) simp
    then have "entries (ln_finger s) ! 0 = None"
      using None unfolding first_some_None by blast
    moreover have "node_ok (ln_inode s) ?s" using node_ok_setNode(2) [OF s(2), of 0 "Some This"] by simp
    ultimately have "successor_checked route w s ?s"
      using length_entries [OF s(2)]
      by (auto simp: successor_checked_def only_dead_dropped_def answers_def nth_list_update)
    moreover have "run route call p (bind_prog (atomic get_successor) (ping_loop (Suc k))) w
        = Some (set_proc p (Some ?s) w, Returned ())"
      using None by (simp add: run_atomic [OF s(1)] get_successor_eq [OF s(2)] ping_loop.simps(2)
          run_bind [of _ _ _ "ping (Some This)"] run_ping after_ping_def answers_def)
    ultimately show ?thesis by fastforce
  next
    case (Some n)
    have n: "Some n \<in> set (entries (ln_finger s))" by (rule first_some_in [OF Some])
    have run: "run route call p (bind_prog (atomic get_successor) (ping_loop (Suc k))) w =
        run route call p (ping_loop (Suc k) (Some n)) w"
      by (rule run_get_successor [OF s Some])
    show ?thesis
    proof (cases "answers route w n")
      case True
      have "procs (after_ping route n w) = procs w"
        by (simp add: after_ping_def split: node.split option.split)
      moreover have "successor_checked route w s s"
        using s Some True by (auto simp: successor_checked_def only_dead_dropped_def intro!: exI [of _ "ln_finger s"])
      moreover have "run route call p (ping_loop (Suc k) (Some n)) w = Some (after_ping route n w, Returned ())"
        using s(1) True calculation(1) by (simp add: ping_loop.simps(2) run_bind run_ping)
      ultimately show ?thesis using run s(1) by (intro exI [of _ "after_ping route n w"] exI [of _ s]) (simp add: fun_upd_idem)
    next
      case False
      let ?s = "s\<lparr>ln_finger := removeNode (ln_finger s) (Some n)\<rparr>"
      let ?w = "set_proc p (Some ?s) w"
      have "after_ping route n w = w"
        using False by (auto simp: after_ping_def answers_def split: node.splits option.split)
      then have "run route call p (ping_loop (Suc k) (Some n)) w
          = run route call p (bind_prog (atomic get_successor) (ping_loop k)) ?w"
        using s(1) False
        by (simp add: ping_loop.simps(2) run_bind [of _ _ _ "ping (Some n)"] run_ping run_atomic forget_finger_def)
      moreover have "\<exists>w' s'. run route call p (bind_prog (atomic get_successor) (ping_loop k)) ?w
          = Some (w', Returned ()) \<and> procs w' = (procs ?w)(p := Some s') \<and> successor_checked route ?w ?s s'"
        by (rule Suc.IH) (use forget_entries(2,3) [OF s(2), of n] n Suc.prems(3) in simp_all)
      then obtain w' s' where w': "run route call p (bind_prog (atomic get_successor) (ping_loop k)) ?w
          = Some (w', Returned ())" "procs w' = (procs ?w)(p := Some s')" "successor_checked route ?w ?s s'"
        by blast
      moreover have "successor_checked route w s s'"
      proof -
        have same: "answers route ?w m = answers route w m" for m
          by (rule answers_set_proc [OF s(1)]) simp
        have "only_dead_dropped route w ?s s'"
          using w'(3) unfolding successor_checked_def only_dead_dropped_def dead_entry_def same by simp
        from dropped_after_forget [OF s(2) n False refl this]
        show ?thesis using w'(3) by (auto simp: successor_checked_def same)
      qed
      ultimately show ?thesis using run by fastforce
    qed
  qed
qed simp

section \<open>A new successor\<close>

definition with_successor :: "local_node \<Rightarrow> node \<Rightarrow> local_node" where
  "with_successor s y =
     s\<lparr>ln_finger := (ln_finger s)\<lparr>entries :=
       (entries (ln_finger s))[0 := Some (own_or (ln_inode s) y)]\<rparr>\<rparr>"

lemma first_some_update: "es \<noteq> [] \<Longrightarrow> first_some (es[0 := Some y]) = Some y"
  by (cases es) simp_all

lemma stored_own_or: "good_node y \<Longrightarrow> stored_node this (own_or this y)"
  by (cases y) (simp_all add: own_or_def)

lemma with_successor_ok:
  assumes "node_ok (ln_inode s) s" and "good_node y"
  shows "node_ok (ln_inode s) (with_successor s y)"
    and "first_some (entries (ln_finger (with_successor s y))) = Some (own_or (ln_inode s) y)"
proof -
  show "node_ok (ln_inode s) (with_successor s y)"
    unfolding with_successor_def
    by (rule node_ok_setNode(2) [OF assms(1)]) (simp_all add: stored_own_or [OF assms(2)])
  have "entries (ln_finger s) \<noteq> []" using length_entries [OF assms(1)] by auto
  then show "first_some (entries (ln_finger (with_successor s y))) = Some (own_or (ln_inode s) y)"
    by (simp add: with_successor_def first_some_update)
qed

section \<open>join\<close>

lemma restrict_other: "p \<notin> A \<Longrightarrow> (ns(p := x)) |` A = ns |` A"
  by (auto simp: restrict_map_def fun_eq_iff)

lemma run_set_predecessor_None:
  "procs w p = Some s \<Longrightarrow> run route call p (bind_prog (atomic (set_predecessor None)) f) w
     = run route call p (f ()) (set_proc p (Some (s\<lparr>ln_predecessor := None\<rparr>)) w)"
  by (simp add: run_atomic set_predecessor_def own_pointer_def)

lemma run_join:
  assumes "procs w p = Some s"
  shows "run route call p (LocalNode_join k (Some (Remote a d))) w =
    run route call p (bind_prog (RemoteNode_findSuccessor d (node_id s)) (\<lambda>n. atomic (set_successor n)))
      (set_proc p (Some (s\<lparr>ln_predecessor := None\<rparr>)) w)"
  using assms
  by (simp add: LocalNode_join_def run_deref run_set_predecessor_None run_this_inode findSuccessor_def
      dispatch_def node_id_def)

lemma join_member:
  assumes A: "settled route (procs w |` A)" "finite (dom (procs w |` A))" "(procs w |` A) q = Some u"
    and s: "procs w p = Some s" "p \<notin> A" "node_ok (ln_inode s) s"
    and n: "card (dom (procs w |` A)) \<le> n"
  shows "\<exists>w' l t x. run route (serve route (Suc n)) p (LocalNode_join k (Some (Remote a (ln_inode u)))) w
      = Some (w', Returned ())
    \<and> procs w' p = Some (with_successor (s\<lparr>ln_predecessor := None, ln_next := l\<rparr>) x)
    \<and> owner (procs w |` A) (node_id s) t \<and> node_data (ln_inode s) x = ln_inode t
    \<and> objects_only (procs w |` A) (procs w' |` A) \<and> inflight w' = inflight w"
proof -
  let ?s = "s\<lparr>ln_predecessor := None\<rparr>"
  let ?w = "set_proc p (Some ?s) w"
  have same: "procs ?w |` A = procs w |` A" unfolding procs_set_proc by (rule restrict_other [OF s(2)])
  have "card (arc (procs ?w |` A) (node_id u) (node_id s)) \<le> n"
    using arc_bound [OF A(2)] n same le_trans by metis
  then have "finds_owner route A n q u (LocalNode_findSuccessor (Suc n) (node_id s)) (node_id s) ?w"
    using A same by (intro lookup_settled) simp_all
  then have "finds_owner route A (Suc n) p ?s (RemoteNode_findSuccessor (ln_inode u) (node_id s)) (node_id s) ?w"
    using A same by (intro finds_owner_remote [where q = q]) simp_all
  then obtain w1 x t where w1: "run route (serve route (Suc n)) p
        (RemoteNode_findSuccessor (ln_inode u) (node_id s)) ?w = Some (w1, Returned (Some x))"
      "objects_only (procs ?w) (procs w1)" "inflight w1 = inflight ?w"
      "owner (procs w |` A) (node_id s) t" "node_data (ln_inode s) x = ln_inode t"
    unfolding finds_owner_def same by auto
  obtain l where l: "procs w1 p = Some (?s\<lparr>ln_next := l\<rparr>)"
    using objects_only_Some [OF w1(2), of p ?s] by auto
  let ?s1 = "?s\<lparr>ln_next := l\<rparr>"
  have ok: "node_ok (ln_inode s) ?s1" using s(3) by (simp add: node_ok_def)
  let ?s2 = "with_successor ?s1 x"
  have "run route (serve route (Suc n)) p (LocalNode_join k (Some (Remote a (ln_inode u)))) w
      = Some (set_proc p (Some ?s2) w1, Returned ())"
    using w1(1) l run_atomic [OF l, of route "serve route (Suc n)" "set_successor (Some x)" Ret]
      set_successor_eq [OF ok, of x]
    by (simp add: run_join [OF s(1)] run_bind with_successor_def)
  moreover have "objects_only (procs w |` A) (procs (set_proc p (Some ?s2) w1) |` A)"
  proof -
    obtain f where "procs w1 = (\<lambda>p. map_option (\<lambda>s. s\<lparr>ln_next := f p\<rparr>) (procs ?w p))"
      using w1(2) unfolding objects_only_def by blast
    then have "procs (set_proc p (Some ?s2) w1) |` A
        = (\<lambda>p. map_option (\<lambda>s. s\<lparr>ln_next := f p\<rparr>) ((procs w |` A) p))"
      using s(2) by (auto simp: fun_eq_iff restrict_map_def)
    then show ?thesis unfolding objects_only_def by blast
  qed
  ultimately show ?thesis
    using w1(3,4,5)
    by (intro exI [of _ "set_proc p (Some ?s2) w1"] exI [of _ l] exI [of _ t] exI [of _ x]) simp
qed

text \<open>A contact that cannot be reached is not reported: the successor slot is cleared.\<close>

lemma join_unreachable:
  assumes s: "procs w p = Some s" "node_ok (ln_inode s) s"
    and none: "connect route (procs w) (nd_host d) (dec_number (unat (nd_port d))) = None"
  shows "run route call p (LocalNode_join k (Some (Remote a d))) w =
    Some (set_proc p (Some (s\<lparr>ln_predecessor := None,
        ln_finger := (ln_finger s)\<lparr>entries := (entries (ln_finger s))[0 := None]\<rparr>\<rparr>)) w, Returned ())"
proof -
  let ?s = "s\<lparr>ln_predecessor := None\<rparr>"
  let ?w = "set_proc p (Some ?s) w"
  have "connect route (procs ?w) (nd_host d) (dec_number (unat (nd_port d))) = None"
    using none s(1) by (auto simp: connect_def split: option.splits if_splits)
  then have "run route call p (RemoteNode_findSuccessor d (node_id s)) ?w = Some (?w, Returned None)"
    by (simp add: RemoteNode_findSuccessor_def sendMessage_def Let_def reply_node_def)
  moreover have "set_successor None ?s = (Inr (),
      ?s\<lparr>ln_finger := (ln_finger s)\<lparr>entries := (entries (ln_finger s))[0 := None]\<rparr>\<rparr>)"
    by (simp add: set_successor_def own_pointer_def setNode_def)
  ultimately show ?thesis
    using run_atomic [of ?w p ?s route call "set_successor None" Ret]
    by (simp add: run_join [OF s(1)] run_bind set_proc_def)
qed

section \<open>Requests that end a process\<close>

lemma serve_get_predecessor:
  assumes "procs w q = Some t" and "ln_listening t" and "\<not> ln_stop t"
  shows "serve route (Suc n) q (createMessage GET_PREDECESSOR []) w =
    (case ln_predecessor t of
       None \<Rightarrow> Some (set_proc q None w, [])
     | Some x \<Rightarrow> Some (w, respond (serialize (node_data (ln_inode t) x))))"
proof (cases "ln_predecessor t")
  case None
  then have "run route (serve route n) q (atomic get_predecessor) w = Some (w, Returned None)"
    using run_get_predecessor [OF assms(1), of route "serve route n" Ret] assms(1) by simp
  with None show ?thesis
    using assms
    by (simp add: served_def server_accept_def handleRequest_message run_catch run_bind
        handle_get_predecessor reply_serial_def deref_def finish_def)
next
  case (Some x)
  have "run route (serve route n) q (atomic get_predecessor) w = Some (w, Returned (Some x))"
    using run_get_predecessor [OF assms(1), of route "serve route n" Ret] Some assms(1) by simp
  from serve_node [OF assms _ handle_get_predecessor this assms(1)] Some show ?thesis by simp
qed

text \<open>No exception of the library or of the program leaves the handler's thread.\<close>

lemma handler_contains_exceptions:
  assumes "run route call q (handleRequest k m) w = Some (w', Raised e)"
  shows "\<not> is_exception e"
  using assms unfolding handleRequest_def
  by (auto simp: run_catch split: option.splits outcome.splits if_splits)

section \<open>stabilize\<close>

text \<open>The node \<open>stabilize\<close> takes as its new successor, given the successor's predecessor \<open>x\<close>.\<close>

definition better_successor :: "local_node \<Rightarrow> node \<Rightarrow> node_ptr \<Rightarrow> node_ptr" where
  "better_successor s n x =
     (case x of
        None \<Rightarrow> None
      | Some y \<Rightarrow> if isInInterval (get_id s y) (node_id s) (get_id s n) then Some y else None)"

lemma run_stabilize:
  assumes s: "procs w p = Some s" "node_ok (ln_inode s) s"
    and n: "first_some (entries (ln_finger s)) = Some n" "answers route w n"
    and x: "run route call p (getPredecessor (Some n)) (after_ping route n w) = Some (w1, Returned x)"
      "good_ptr x"
    and s1: "procs w1 p = Some s1" "node_ok (ln_inode s) s1" "ln_finger s1 = ln_finger s"
  shows "run route call p (LocalNode_stabilize (Suc k)) w =
    (case better_successor s n x of
       None \<Rightarrow> run route call p (notify (Some n) (Some This)) w1
     | Some y \<Rightarrow> run route call p (notify (Some (own_or (ln_inode s) y)) (Some This))
         (set_proc p (Some (with_successor s1 y)) w1))"
proof -
  let ?w = "after_ping route n w"
  have w: "procs ?w p = Some s"
    using s(1) by (simp add: after_ping_def split: node.split option.split)
  have i: "ln_inode s1 = ln_inode s" using node_ok_inode [OF s1(2)] .
  have sh: "ln_shared s1" using s1(2) by (simp add: node_ok_def)
  have n1: "first_some (entries (ln_finger s1)) = Some n" using n(1) s1(3) by simp
  have ids: "get_id s1 = get_id s" "node_id s1 = node_id s"
    by (simp_all add: get_id_def node_id_def i fun_eq_iff)
  note steps = run_get_successor [OF s n(1)] run_get_successor [OF w s(2) n(1)]
    run_get_successor [OF s1(1,2) n1] run_deref [OF s1(1)] run_this_inode [OF s1(1)]
    run_this_pointer [OF s1(1) sh]
  have ping: "run route call p (ping_loop (Suc k) (Some n)) w = Some (?w, Returned ())"
    using n(2) run_ping [OF s(1), of route call n] w by (simp add: ping_loop.simps(2) run_bind)
  let ?rest = "\<lambda>u. bind_prog (atomic get_successor) (\<lambda>s. bind_prog this_pointer (\<lambda>t. notify s t))"
  let ?adopt = "if x \<noteq> None
        then
          bind_prog (deref x) (\<lambda>xd.
          bind_prog this_inode (\<lambda>me.
          bind_prog (bind_prog (atomic get_successor) deref) (\<lambda>sd.
            if isInInterval (nd_id xd) (nd_id me) (nd_id sd)
            then atomic (set_successor x) else Ret ())))
        else Ret ()"
  have "run route call p (LocalNode_stabilize (Suc k)) w = run route call p (bind_prog ?adopt ?rest) w1"
    unfolding LocalNode_stabilize_def
    by (simp only: steps run_bind [of _ _ _ "ping_loop (Suc k) (Some n)"] ping option.case outcome.case
        prod.case bind_prog_assoc run_bind [of _ _ _ "getPredecessor (Some n)"] x(1))
  also have "\<dots> = (case better_successor s n x of
       None \<Rightarrow> run route call p (notify (Some n) (Some This)) w1
     | Some y \<Rightarrow> run route call p (notify (Some (own_or (ln_inode s) y)) (Some This))
         (set_proc p (Some (with_successor s1 y)) w1))"
  proof (cases x)
    case None
    then show ?thesis by (simp add: better_successor_def steps)
  next
    case (Some y)
    have adopt: "run route call p (bind_prog ?adopt ?rest) w1 =
        (if isInInterval (get_id s y) (node_id s) (get_id s n)
         then run route call p (bind_prog (atomic (set_successor x)) ?rest) w1
         else run route call p (?rest ()) w1)"
      using Some ids by (simp add: bind_prog_assoc steps flip: get_id_def node_id_def)
    let ?w2 = "set_proc p (Some (with_successor s1 y)) w1"
    have good: "good_node y" using x(2) Some by simp
    have "run route call p (bind_prog (atomic (set_successor x)) ?rest) w1 = run route call p (?rest ()) ?w2"
      using set_successor_eq [OF s1(2), of y]
      by (simp add: Some run_atomic [OF s1(1)] with_successor_def i)
    also have "\<dots> = run route call p (notify (Some (own_or (ln_inode s) y)) (Some This)) ?w2"
    proof -
      have p2: "procs ?w2 p = Some (with_successor s1 y)" by simp
      have ok2: "node_ok (ln_inode s1) (with_successor s1 y)"
        and f2: "first_some (entries (ln_finger (with_successor s1 y))) = Some (own_or (ln_inode s) y)"
        using with_successor_ok [OF _ good, of s1] s1(2) i by simp_all
      have sh2: "ln_shared (with_successor s1 y)" using sh by (simp add: with_successor_def)
      show ?thesis
        by (simp only: run_get_successor [OF p2 ok2 f2] run_this_pointer [OF p2 sh2])
    qed
    finally show ?thesis
      using adopt Some by (simp add: better_successor_def steps)
  qed
  finally show ?thesis .
qed

section \<open>Notifications over the network\<close>

lemma run_notify_remote:
  assumes "procs w p = Some s"
    and "connect route (procs w) (nd_host d) (dec_number (unat (nd_port d))) = Some q"
  shows "run route call p (notify (Some (Remote k d)) (Some This)) w =
    Some (w\<lparr>inflight := inflight w @ [(q, createMessage NOTIFY (serialize (ln_inode s)))]\<rparr>, Returned ())"
  using assms(2) run_post [OF assms(1), of route call d]
  by (simp add: notify_def dispatch_def RemoteNode_notify_def run_deref [OF assms(1)])

text \<open>The state of a node after it has handled a notification of the node \<open>d\<close>.\<close>

definition notified :: "local_node \<Rightarrow> inode \<Rightarrow> local_node" where
  "notified t d =
     (let t' = bump t; n = Remote (ln_next t) d
      in if accepts t n then t'\<lparr>ln_predecessor := Some (own_or (ln_inode t) n)\<rparr> else t')"

lemma serve_notify:
  assumes "procs w q = Some t" and "ln_listening t" and "\<not> ln_stop t" and "node_ok (ln_inode t) t"
    and "short d"
  shows "serve route (Suc n) q (createMessage NOTIFY (serialize d)) w
    = Some (set_proc q (Some (notified t d)) w, [])"
proof -
  have d: "sendable d" "length (serialize d) \<le> 126" using assms(5) by (simp_all add: short_def)
  let ?w = "set_proc q (Some (bump t)) w"
  have ok: "node_ok (ln_inode (bump t)) (bump t)" using assms(4) by (simp add: node_ok_def bump_def)
  have t1: "procs ?w q = Some (bump t)" by simp
  have "run route (serve route n) q (LocalNode_notify (Some (Remote (ln_next t) d))) ?w
      = Some (set_proc q (Some (notified t d)) w, Returned ())"
    unfolding run_notify [OF t1 ok]
    by (simp add: notified_def Let_def accepts_def bump_def get_id_def node_id_def set_proc_def
        split: option.split)
  then have "run route (serve route n) q
      (handle_code (Suc n) (message_array NOTIFY (serialize d)) (Suc (length (serialize d)))) w
    = Some (set_proc q (Some (notified t d)) w, Returned [])"
    by (simp add: handle_notify [OF d] run_allocate [OF assms(1)] run_bind [of _ _ _ "LocalNode_notify _"])
  from serve_message [OF assms(1-3) d(2) this] show ?thesis
    by (simp add: respond_def size_to_char_def char_to_int_def)
qed

end
