(* ===== verification/Delivery.thy ===== *)
theory Delivery
  imports Maintenance
begin

text \<open>
  What the chat client's operations come to: a message for a user of a settled network is put
  in flight to that user's process and printed there when it is delivered; a message for nobody
  is refused. Then the lengths of message that arrive whole, are dropped or are taken for
  another request, and the console loop at the end of its input.
\<close>

section \<open>Sending\<close>

lemma owner_found:
  assumes "owner ns i t" and "ns q = Some u" and "node_id u = i"
  shows "node_id t = i"
  using assms id_circle.dist_zero [of i i] id_circle.dist_zero [of i "node_id t"]
  by (fastforce simp: owner_def)

lemma send_settled:
  assumes A: "settled route (procs w |` A)" "finite (dom (procs w |` A))" "(procs w |` A) p = Some s"
    and n: "card (dom (procs w |` A)) \<le> n" and i: "i \<noteq> node_id s"
  shows "\<exists>w' found. run route (serve route n) p (ChatClient_send (Suc k) i m) w = Some (w', Returned found)
    \<and> objects_only (procs w) (procs w')
    \<and> found = (\<exists>q t. (procs w |` A) q = Some t \<and> node_id t = i)
    \<and> (if found
       then \<exists>q t. (procs w |` A) q = Some t \<and> node_id t = i
              \<and> inflight w' = inflight w @ [(q, createMessage RECEIVE m)]
       else inflight w' = inflight w)"
proof -
  have "card (arc (procs w |` A) (node_id s) i) \<le> n"
    using arc_bound [OF A(2)] n le_trans by blast
  from lookup_settled [OF A this, of k] obtain w1 x t where
    w1: "run route (serve route n) p (LocalNode_findSuccessor (Suc k) i) w = Some (w1, Returned (Some x))"
      "objects_only (procs w) (procs w1)" "inflight w1 = inflight w"
    and t: "owner (procs w |` A) i t" "node_data (ln_inode s) x = ln_inode t"
    by (auto simp: finds_owner_def)
  obtain l where s1: "procs w1 p = Some (s\<lparr>ln_next := l\<rparr>)"
    using objects_only_Some [OF w1(2)] A(3) by auto
  have find: "run route (serve route n) p (ChatClient_send (Suc k) i m) w =
      run route (serve route n) p
        (if node_id t = i then bind_prog (receive (Some x) m) (\<lambda>u. Ret True) else Ret False) w1"
    using w1(1) t(2)
    by (simp add: run_deref [OF s1] ChatClient_send_def findSuccessor_def dispatch_def run_bind [of _ _ _ "LocalNode_findSuccessor (Suc k) i"]
        node_id_def)
  have found: "node_id t = i \<longleftrightarrow> (\<exists>q t. (procs w |` A) q = Some t \<and> node_id t = i)"
    using owner_found [OF t(1)] t(1) by (auto simp: owner_def)
  show ?thesis
  proof (cases "node_id t = i")
    case False
    then have "run route (serve route n) p (ChatClient_send (Suc k) i m) w = Some (w1, Returned False)"
      using find s1 by simp
    with w1(2,3) show ?thesis
      unfolding found [symmetric] using False by (intro exI [of _ w1] exI [of _ False]) simp
  next
    case True
    then have "x \<noteq> This" using i t(2) by (auto simp: node_id_def)
    then obtain a where x: "x = Remote a (ln_inode t)" using t(2) by (cases x) auto
    obtain q where q: "(procs w |` A) q = Some t" using t(1) by (auto simp: owner_def)
    then obtain l' where t1: "procs w1 q = Some (t\<lparr>ln_next := l'\<rparr>)"
      using objects_only_Some [OF w1(2)] by auto
    have "connect route (procs w1) (nd_host (ln_inode t)) (dec_number (unat (nd_port (ln_inode t)))) = Some q"
      using A(1) q t1 by (simp add: settled_def served_node_def connect_def)
    then have "run route (serve route n) p (ChatClient_send (Suc k) i m) w
        = Some (w1\<lparr>inflight := inflight w @ [(q, createMessage RECEIVE m)]\<rparr>, Returned True)"
      using find True x s1 w1(3)
        run_post [OF s1, of route "serve route n" "ln_inode t" "createMessage RECEIVE m"]
      by (simp add: receive_def dispatch_def RemoteNode_receive_def run_bind [of _ _ _ "bind_prog _ _"])
    with w1(2) q True show ?thesis
      unfolding found [symmetric]
      by (intro exI [of _ "w1\<lparr>inflight := inflight w @ [(q, createMessage RECEIVE m)]\<rparr>"] exI [of _ True])
        auto
  qed
qed

text \<open>A lookup that comes back with nothing is dereferenced.\<close>

lemma send_nothing:
  assumes "procs w p = Some s"
    and "run route call p (LocalNode_findSuccessor k i) w = Some (w', Returned None)"
    and "procs w' p = Some s'"
  shows "run route call p (ChatClient_send k i m) w = Some (w', Raised (UndefinedBehaviour NullDereference))"
  using assms by (simp add: ChatClient_send_def findSuccessor_def dispatch_def run_bind deref_def)

section \<open>Receiving\<close>

lemma run_receive_here:
  assumes "procs w q = Some t" and "ln_rcvFn t"
  shows "run route call q (bind_prog (atomic (receive_here m)) f) w
    = run route call q (f ()) (set_proc q (Some (t\<lparr>ln_out := ln_out t @ m @ [10]\<rparr>)) w)"
  using assms by (simp add: run_atomic receive_here_def receiveMessage_def)

lemma serve_receive:
  assumes "procs w q = Some t" and "ln_listening t" and "\<not> ln_stop t" and "length m \<le> 126"
  shows "serve route (Suc n) q (createMessage RECEIVE m) w =
    Some (if ln_rcvFn t then set_proc q (Some (t\<lparr>ln_out := ln_out t @ m @ [10]\<rparr>)) w else w, [])"
proof (cases "ln_rcvFn t")
  case True
  have "run route (serve route n) q
      (handle_code (Suc n) (message_array RECEIVE m) (Suc (length m))) w
    = Some (set_proc q (Some (t\<lparr>ln_out := ln_out t @ m @ [10]\<rparr>)) w, Returned [])"
    by (simp add: handle_receive [OF assms(4)] run_receive_here [OF assms(1) True])
  from serve_message [OF assms this] True show ?thesis
    by (simp add: respond_def size_to_char_def char_to_int_def)
next
  case False
  have "run route (serve route n) q
      (handle_code (Suc n) (message_array RECEIVE m) (Suc (length m))) w = Some (w, Raised BadFunctionCall)"
    using assms(1) False by (simp add: handle_receive [OF assms(4)] run_atomic receive_here_def)
  then show ?thesis
    using assms False
    by (simp add: served_def server_accept_def handleRequest_message run_catch run_bind finish_def)
qed

section \<open>Message lengths\<close>

lemma handleRequest_long:
  assumes "127 \<le> length m" and "length m \<le> 254"
  shows "handleRequest k (createMessage code m) = Ret []"
proof -
  have "unat (size_to_char (Suc (length m))) = Suc (length m)"
    using assms(2) unfolding size_to_char_def unat_of_nat_byte by simp
  then have h: "char_to_int (size_to_char (Suc (length m))) = int (Suc (length m)) - 256"
    using assms unfolding char_to_int_def by (subst sint_byte_eq) simp
  have "(int (Suc (length m)) - 256) mod 2 ^ 64 = int (Suc (length m)) - 256 + 2 ^ 64"
    using assms by (subst mod_add_self2 [symmetric], subst mod_pos_pos_trivial) simp_all
  then have "buffer_size (int (Suc (length m)) - 256) = 1024"
    using assms by (simp add: buffer_size_def MAX_DATA_LENGTH_def)
  then show ?thesis
    using assms h by (simp add: handleRequest_def createMessage_def asio_read_def)
qed

lemma default_ID_message: "chars_ID (replicate 1023 0) = Inr default_ID"
proof -
  have "replicate 1023 (0 :: byte) = c_str default_ID @ replicate 1003 0"
    by (simp add: default_ID_def flip: replicate_add)
  then show ?thesis using chars_ID_message by simp
qed

lemma handleRequest_wrapped:
  assumes "length m = 255"
  shows "handleRequest k (createMessage code m) = handleRequest k (createMessage FIND_PREDECESSOR (c_str default_ID))"
proof -
  have h: "char_to_int (size_to_char (Suc (length m))) = 0"
    using assms by (simp add: size_to_char_def char_to_int_def)
  have b: "buffer_size 0 = 0" by (simp add: buffer_size_def)
  have a: "replicate MAX_DATA_LENGTH (0 :: byte) ! 0 = 0" "char_code 0 = Some FIND_PREDECESSOR"
    "drop (Suc 0) (replicate MAX_DATA_LENGTH (0 :: byte)) = replicate 1023 0"
    by (simp_all add: MAX_DATA_LENGTH_def char_code_def RPCCodes_def)
  have "handleRequest k (createMessage code m) =
      catch_prog (bind_prog (bind_prog (LocalNode_findPredecessor k default_ID) reply_serial)
        (\<lambda>response. Ret (respond response))) (\<lambda>e. Ret [])"
    using h b a by (simp add: handleRequest_def createMessage_def asio_read_def handle_code_def Let_def
        default_ID_message)
  then show ?thesis
    by (simp add: handleRequest_message handle_find_predecessor)
qed

section \<open>The console loop at the end of input\<close>

lemma parse_empty: "parse_line [] = Inr Nothing"
  by (simp add: parse_line_def trim_def ltrim_def rtrim_def str_find_def)

lemma loop_at_end:
  "procs w p = Some s \<Longrightarrow> run route call p (ChatClient_loop k n [] good []) w = None"
proof (induction n arbitrary: w s good)
  case (Suc n)
  have trim: "trim [] = []" by (simp add: trim_def ltrim_def rtrim_def)
  have "run route call p (ChatClient_loop k (Suc n) [] good []) w =
      run route call p (ChatClient_loop k n [] False []) (set_proc p (Some (s\<lparr>ln_out := ln_out s @ cstr ''> ''\<rparr>)) w)"
    using Suc.prems by (simp add: print_out_def update_def getline_def ChatClient_line_def parse_empty trim)
  then show ?case using Suc.IH [of "set_proc p (Some (s\<lparr>ln_out := ln_out s @ cstr ''> ''\<rparr>)) w"] by simp
qed simp

section \<open>Properties\<close>

text \<open>
  C13. A request whose payload has 127 to 254 bytes, a chat message for one, is dropped by the
  receiver without a reply; one with 255 bytes is handled as a lookup of the zero identifier.
\<close>

theorem long_messages:
  assumes "127 \<le> length m" and "length m \<le> 255"
  shows "handleRequest k (createMessage code m) =
    (if length m \<le> 254 then Ret []
     else handleRequest k (createMessage FIND_PREDECESSOR (c_str default_ID)))"
  using handleRequest_long [OF assms(1)] handleRequest_wrapped assms(2) by simp

theorem long_messages_witness:
  "handleRequest 1 (createMessage RECEIVE (replicate 200 104)) = Ret []
   \<and> handleRequest 1 (createMessage RECEIVE (replicate 255 104))
     = handleRequest 1 (createMessage FIND_PREDECESSOR (c_str default_ID))"
  using long_messages [of "replicate 200 104" 1 RECEIVE] long_messages [of "replicate 255 104" 1 RECEIVE]
  by simp

text \<open>
  At the end of its input the console loop does not end: no number of rounds is enough.
\<close>

lemma console_at_end:
  assumes "procs w p \<noteq> None"
  shows "\<forall>n. run route call p (ChatClient_loop k n [] good []) w = None"
  using assms loop_at_end by blast

lemma console_at_end_witness:
  "\<forall>n. run (\<lambda>h p. None) (\<lambda>q m w. None) 0 (ChatClient_loop 1 n [] True [])
     \<lparr>procs = [0 \<mapsto> init \<lparr>nd_name = [98], nd_host = [104], nd_port = 1, nd_id = default_ID\<rparr>], inflight = []\<rparr>
     = None"
  using console_at_end [of "\<lparr>procs = [0 \<mapsto> init \<lparr>nd_name = [98], nd_host = [104], nd_port = 1,
      nd_id = default_ID\<rparr>], inflight = []\<rparr>" 0] by simp

end
