(* ===== verification/Schedules.thy ===== *)
theory Schedules
  imports Message_Passing
begin

text \<open>
  What a network does one thing after the other: the work of one process, or the delivery of a
  message in flight. Every such schedule is an execution of the interleaved threads of theory
  \<open>Network\<close>, so what a schedule shows can happen in the program.
\<close>

datatype deed = Perform nat "unit prog" | Deliver nat

primrec schedule ::
  "(bytes \<Rightarrow> bytes \<Rightarrow> nat option) \<Rightarrow> nat \<Rightarrow> deed list \<Rightarrow> world \<Rightarrow> world option"
where
  "schedule route n [] w = Some w"
| "schedule route n (d # ds) w =
     (case (case d of Perform p m \<Rightarrow> perform route n p m w | Deliver i \<Rightarrow> deliver route n i w) of
        None \<Rightarrow> None
      | Some w' \<Rightarrow> schedule route n ds w')"

text \<open>The tasks a schedule starts.\<close>

fun works :: "deed list \<Rightarrow> task list" where
  "works [] = []"
| "works (Perform p m # ds) = [Running p (silent m)] # works ds"
| "works (Deliver i # ds) = works ds"

text \<open>A net with the processes of a world, work still to be done and the messages in flight.\<close>

definition faithful :: "nat \<Rightarrow> task list \<Rightarrow> world \<Rightarrow> net \<Rightarrow> bool" where
  "faithful n ts w c \<longleftrightarrow> nodes c = procs w \<and> tasks c = ts @ pending n (inflight w)"

lemma moves_faithful:
  assumes "moves route n w t w' t'" and "nodes c = procs w" and "tasks c = ts @ t # us"
  shows "\<exists>x c'. inflight w' = inflight w @ x \<and> (net_step route)\<^sup>*\<^sup>* c c' \<and> nodes c' = procs w'
    \<and> tasks c' = ts @ t' @ us @ pending n x \<and> used c' = used c"
proof -
  obtain x where x: "inflight w' = inflight w @ x"
      "(net_step route)\<^sup>*\<^sup>* c (c\<lparr>nodes := procs w', tasks := ts @ t' @ us @ pending n x\<rparr>)"
    using assms unfolding moves_def by blast
  show ?thesis
    by (rule exI [of _ x], rule exI [of _ "c\<lparr>nodes := procs w', tasks := ts @ t' @ us @ pending n x\<rparr>"])
      (use x in simp)
qed

text \<open>A message nobody waits for, handled to the end.\<close>

lemma served_moves:
  assumes "serve route n q m w = Some (w', r)"
  shows "moves route j w [Running q (served n m)] w' []"
proof (cases n)
  case 0
  with assms show ?thesis by simp
next
  case (Suc k)
  with assms obtain w1 o1 where o1: "run route (serve route k) q (served (Suc k) m) w = Some (w1, o1)"
      "finish q [] o1 w1 = (w', r)"
    by auto
  from run_moves [OF serve_moves o1(1), of j "[]"] obtain m' where m': "ended q o1 m' w1"
      "moves route j w [Running q (served (Suc k) m)] w1 [[Running q m']]"
    by blast
  have "moves route j w1 [Running q m'] w' []"
    using finish_moves [OF m'(1) o1(2), of route j "[]"] by simp
  with m'(2) Suc show ?thesis using moves_trans by blast
qed

lemma pending_split:
  "i < length x \<Longrightarrow> x ! i = (q, m) \<Longrightarrow>
     pending n x = pending n (take i x) @ [Running q (served n m)] # pending n (drop (i + 1) x)"
proof -
  assume "i < length x" "x ! i = (q, m)"
  then have "x = take i x @ (q, m) # drop (i + 1) x" using id_take_nth_drop by force
  then have "pending n x = pending n (take i x @ [(q, m)] @ drop (i + 1) x)" by simp
  then show ?thesis by (simp only: pending_simps) simp
qed

lemma deed_faithful:
  assumes d: "(case d of Perform p m \<Rightarrow> perform route n p m w | Deliver i \<Rightarrow> deliver route n i w) = Some w'"
    and c: "faithful n (works (d # ds)) w c"
  shows "\<exists>c'. (net_step route)\<^sup>*\<^sup>* c c' \<and> faithful n (works ds) w' c' \<and> used c' = used c"
proof (cases d)
  case (Perform p m)
  then have run: "perform route n p m w = Some w'" using d by simp
  have t: "nodes c = procs w" "tasks c = [] @ [Running p (silent m)] # (works ds @ pending n (inflight w))"
    using c Perform by (simp_all add: faithful_def)
  from moves_faithful [OF perform_moves [where j = n, OF run] t] obtain x c' where
    "inflight w' = inflight w @ x" "(net_step route)\<^sup>*\<^sup>* c c'" "nodes c' = procs w'"
    "tasks c' = works ds @ pending n (inflight w) @ pending n x" "used c' = used c"
    by auto
  then show ?thesis by (intro exI [of _ c']) (simp add: faithful_def)
next
  case (Deliver i)
  obtain q m r where i: "i < length (inflight w)" "inflight w ! i = (q, m)"
      and run: "serve route n q m (w\<lparr>inflight := take i (inflight w) @ drop (i + 1) (inflight w)\<rparr>) = Some (w', r)"
    using d Deliver by (auto simp: deliver_def split: if_splits prod.splits)
  have t: "nodes c = procs (w\<lparr>inflight := take i (inflight w) @ drop (i + 1) (inflight w)\<rparr>)"
      "tasks c = (works ds @ pending n (take i (inflight w))) @ [Running q (served n m)]
         # pending n (drop (i + 1) (inflight w))"
    using c Deliver pending_split [OF i, of n] by (simp_all add: faithful_def)
  from moves_faithful [OF served_moves [where j = n, OF run] t] obtain x c' where
    "inflight w' = (take i (inflight w) @ drop (i + 1) (inflight w)) @ x" "(net_step route)\<^sup>*\<^sup>* c c'"
    "nodes c' = procs w'" "used c' = used c"
    "tasks c' = (works ds @ pending n (take i (inflight w))) @ pending n (drop (i + 1) (inflight w)) @ pending n x"
    by auto
  then show ?thesis by (intro exI [of _ c']) (simp add: faithful_def)
qed

lemma schedule_faithful:
  "schedule route n ds w = Some w' \<Longrightarrow> faithful n (works ds) w c \<Longrightarrow>
     \<exists>c'. (net_step route)\<^sup>*\<^sup>* c c' \<and> faithful n [] w' c' \<and> used c' = used c"
proof (induction ds arbitrary: w c)
  case Nil
  then show ?case by auto
next
  case (Cons d ds)
  from Cons.prems(1) obtain w1 where w1:
      "(case d of Perform p m \<Rightarrow> perform route n p m w | Deliver i \<Rightarrow> deliver route n i w) = Some w1"
      "schedule route n ds w1 = Some w'"
    by (auto split: option.splits)
  from deed_faithful [OF w1(1) Cons.prems(2)] obtain c1 where c1: "(net_step route)\<^sup>*\<^sup>* c c1"
      "faithful n (works ds) w1 c1" "used c1 = used c"
    by blast
  from Cons.IH [OF w1(2) c1(2)] c1 show ?case by (metis rtranclp_trans)
qed

end
