(* ===== verification/Sha1_Test.thy ===== *)
theory Sha1_Test
  imports ID_Hash
begin

text \<open>
  Two hashes evaluated in the kernel: the first test vector of the standard, the message \<open>abc\<close>,
  and the name \<open>bob\<close>. Each is one block, whose schedule and eighty rounds are rewritten sixteen
  words and ten rounds at a time.
\<close>

section \<open>Cutting the loops\<close>

lemma schedule_indices: "[16..<80] = [16..<32] @ [32..<48] @ [48..<64] @ [64..<80]"
  using upt_add_eq_append [of 16 32 48] upt_add_eq_append [of 16 48 16]
    upt_add_eq_append [of 16 64 16] by simp

lemma round_indices:
  "[0..<80] = [0..<10] @ [10..<20] @ [20..<30] @ [30..<40] @ [40..<50] @ [50..<60]
      @ [60..<70] @ [70..<80]"
  using upt_add_eq_append [of 0 10 10] upt_add_eq_append [of 0 20 10] upt_add_eq_append [of 0 30 10]
    upt_add_eq_append [of 0 40 10] upt_add_eq_append [of 0 50 10] upt_add_eq_append [of 0 60 10]
    upt_add_eq_append [of 0 70 10] by simp

lemma std_IV_decimal: "std_IV = (1732584193, 4023233417, 2562383102, 271733878, 3285377520)"
  by (simp add: std_IV_def)

lemma replicate_52: "replicate 52 (z :: byte) =
    [z, z, z, z, z, z, z, z, z, z, z, z, z, z, z, z, z, z, z, z, z, z, z, z, z, z,
     z, z, z, z, z, z, z, z, z, z, z, z, z, z, z, z, z, z, z, z, z, z, z, z, z, z]"
  by (simp add: numeral_eq_Suc)

section \<open>The message abc\<close>

definition abc_block :: bytes where
  "abc_block =
     [97, 98, 99, 128, 0, 0, 0, 0, 0, 0, 0, 0, 0, 0, 0, 0, 0, 0, 0, 0, 0, 0, 0, 0, 0, 0, 0,
     0, 0, 0, 0, 0, 0, 0, 0, 0, 0, 0, 0, 0, 0, 0, 0, 0, 0, 0, 0, 0, 0, 0, 0, 0, 0, 0, 0, 0,
     0, 0, 0, 0, 0, 0, 0, 24]"

lemma abc_words: "map (load_word abc_block) [0..<16] =
     [1633837952, 0, 0, 0, 0, 0, 0, 0, 0, 0, 0, 0, 0, 0, 0, 24]"
  by (simp add: abc_block_def upt_rec load_word_def uchar_to_uint_def)

lemma abc_expand_16: "fold expand_step [16..<32]
     [1633837952, 0, 0, 0, 0, 0, 0, 0, 0, 0, 0, 0, 0, 0, 0, 24] =
     [1633837952, 0, 0, 0, 0, 0, 0, 0, 0, 0, 0, 0, 0, 0, 0, 24, 3267675904, 0, 48,
     2240384513, 0, 96, 185801731, 48, 2240384705, 371603462, 0, 384, 743206924, 240,
     2477765895, 1486413896]"
  by (simp add: upt_rec expand_step_def lrot_def)

lemma abc_expand_32: "fold expand_step [32..<48]
     [1633837952, 0, 0, 0, 0, 0, 0, 0, 0, 0, 0, 0, 0, 0, 0, 24, 3267675904, 0, 48,
     2240384513, 0, 96, 185801731, 48, 2240384705, 371603462, 0, 384, 743206924, 240,
     2477765895, 1486413896] =
     [1633837952, 0, 0, 0, 0, 0, 0, 0, 0, 0, 0, 0, 0, 0, 0, 24, 3267675904, 0, 48,
     2240384513, 0, 96, 185801731, 48, 2240384705, 371603462, 0, 384, 743206924, 240,
     2477765895, 1486413896, 2392494594, 1536, 2972827888, 371604422, 1321128990, 1650688161,
     371603462, 6336, 3537975492, 3840, 989548665, 2307785957, 3803855915, 24768, 87701453,
     1950713159]"
  by (simp add: upt_rec expand_step_def lrot_def)

lemma abc_expand_48: "fold expand_step [48..<64]
     [1633837952, 0, 0, 0, 0, 0, 0, 0, 0, 0, 0, 0, 0, 0, 0, 24, 3267675904, 0, 48,
     2240384513, 0, 96, 185801731, 48, 2240384705, 371603462, 0, 384, 743206924, 240,
     2477765895, 1486413896, 2392494594, 1536, 2972827888, 371604422, 1321128990, 1650688161,
     371603462, 6336, 3537975492, 3840, 989548665, 2307785957, 3803855915, 24768, 87701453,
     1950713159] =
     [1633837952, 0, 0, 0, 0, 0, 0, 0, 0, 0, 0, 0, 0, 0, 0, 24, 3267675904, 0, 48,
     2240384513, 0, 96, 185801731, 48, 2240384705, 371603462, 0, 384, 743206924, 240,
     2477765895, 1486413896, 2392494594, 1536, 2972827888, 371604422, 1321128990, 1650688161,
     371603462, 6336, 3537975492, 3840, 989548665, 2307785957, 3803855915, 24768, 87701453,
     1950713159, 3667138029, 641206806, 1650688929, 1321161950, 943043659, 62976, 512018339,
     2564836760, 1696405152, 1650822305, 1166361814, 1146637495, 2074109465, 1669377698,
     182801001, 1652246945]"
  by (simp add: upt_rec expand_step_def lrot_def)

lemma abc_expand_64: "fold expand_step [64..<80]
     [1633837952, 0, 0, 0, 0, 0, 0, 0, 0, 0, 0, 0, 0, 0, 0, 24, 3267675904, 0, 48,
     2240384513, 0, 96, 185801731, 48, 2240384705, 371603462, 0, 384, 743206924, 240,
     2477765895, 1486413896, 2392494594, 1536, 2972827888, 371604422, 1321128990, 1650688161,
     371603462, 6336, 3537975492, 3840, 989548665, 2307785957, 3803855915, 24768, 87701453,
     1950713159, 3667138029, 641206806, 1650688929, 1321161950, 943043659, 62976, 512018339,
     2564836760, 1696405152, 1650822305, 1166361814, 1146637495, 2074109465, 1669377698,
     182801001, 1652246945] =
     [1633837952, 0, 0, 0, 0, 0, 0, 0, 0, 0, 0, 0, 0, 0, 0, 24, 3267675904, 0, 48,
     2240384513, 0, 96, 185801731, 48, 2240384705, 371603462, 0, 384, 743206924, 240,
     2477765895, 1486413896, 2392494594, 1536, 2972827888, 371604422, 1321128990, 1650688161,
     371603462, 6336, 3537975492, 3840, 989548665, 2307785957, 3803855915, 24768, 87701453,
     1950713159, 3667138029, 641206806, 1650688929, 1321161950, 943043659, 62976, 512018339,
     2564836760, 1696405152, 1650822305, 1166361814, 1146637495, 2074109465, 1669377698,
     182801001, 1652246945, 2094292125, 983040, 4216354106, 3966199272, 3124505570, 6340608,
     976735493, 1166362356, 3092880854, 940186150, 31465987, 3888919638, 3873835881,
     16124416, 1469443919, 2184054905]"
  by (simp add: upt_rec expand_step_def lrot_def)

definition abc_schedule :: "u32 list" where
  "abc_schedule =
     [1633837952, 0, 0, 0, 0, 0, 0, 0, 0, 0, 0, 0, 0, 0, 0, 24, 3267675904, 0, 48,
     2240384513, 0, 96, 185801731, 48, 2240384705, 371603462, 0, 384, 743206924, 240,
     2477765895, 1486413896, 2392494594, 1536, 2972827888, 371604422, 1321128990, 1650688161,
     371603462, 6336, 3537975492, 3840, 989548665, 2307785957, 3803855915, 24768, 87701453,
     1950713159, 3667138029, 641206806, 1650688929, 1321161950, 943043659, 62976, 512018339,
     2564836760, 1696405152, 1650822305, 1166361814, 1146637495, 2074109465, 1669377698,
     182801001, 1652246945, 2094292125, 983040, 4216354106, 3966199272, 3124505570, 6340608,
     976735493, 1166362356, 3092880854, 940186150, 31465987, 3888919638, 3873835881,
     16124416, 1469443919, 2184054905]"

lemma abc_rounds_0: "fold (main_step abc_schedule) [0..<10]
     (1732584193, 4023233417, 2562383102, 271733878, 3285377520) =
     (2203187497, 1265296168, 664994293, 1716489264, 267514512)"
  by (simp add: upt_rec main_step_def abc_schedule_def select_f_def select_K_def lrot_def)

lemma abc_rounds_10: "fold (main_step abc_schedule) [10..<20]
     (2203187497, 1265296168, 664994293, 1716489264, 267514512) =
     (4254997885, 3697578013, 548051402, 3550778888, 3358553483)"
  by (simp add: upt_rec main_step_def abc_schedule_def select_f_def select_K_def lrot_def)

lemma abc_rounds_20: "fold (main_step abc_schedule) [20..<30]
     (4254997885, 3697578013, 548051402, 3550778888, 3358553483) =
     (3321605981, 2205201710, 3534361445, 1871544053, 303058665)"
  by (simp add: upt_rec main_step_def abc_schedule_def select_f_def select_K_def lrot_def)

lemma abc_rounds_30: "fold (main_step abc_schedule) [30..<40]
     (3321605981, 2205201710, 3534361445, 1871544053, 303058665) =
     (853417146, 1285055493, 4145604047, 64243702, 4147047474)"
  by (simp add: upt_rec main_step_def abc_schedule_def select_f_def select_K_def lrot_def)

lemma abc_rounds_40: "fold (main_step abc_schedule) [40..<50]
     (853417146, 1285055493, 4145604047, 64243702, 4147047474) =
     (302461381, 3136525111, 2947236018, 671539483, 2266265724)"
  by (simp add: upt_rec main_step_def abc_schedule_def select_f_def select_K_def lrot_def)

lemma abc_rounds_50: "fold (main_step abc_schedule) [50..<60]
     (302461381, 3136525111, 2947236018, 671539483, 2266265724) =
     (1062395482, 165119485, 882425812, 4061233743, 3617133995)"
  by (simp add: upt_rec main_step_def abc_schedule_def select_f_def select_K_def lrot_def)

lemma abc_rounds_60: "fold (main_step abc_schedule) [60..<70]
     (1062395482, 165119485, 882425812, 4061233743, 3617133995) =
     (1059424450, 1232114624, 3728167754, 51346605, 1141216638)"
  by (simp add: upt_rec main_step_def abc_schedule_def select_f_def select_K_def lrot_def)

lemma abc_rounds_70: "fold (main_step abc_schedule) [70..<80]
     (1059424450, 1232114624, 3728167754, 51346605, 1141216638) =
     (1112808245, 1463342561, 562251891, 1746824694, 3640522413)"
  by (simp add: upt_rec main_step_def abc_schedule_def select_f_def select_K_def lrot_def)

lemma abc_expanded: "expand_W abc_block = abc_schedule"
  by (simp only: expand_W_def abc_schedule_def schedule_indices fold_append comp_def abc_words
      abc_expand_16 abc_expand_32 abc_expand_48 abc_expand_64)

lemma abc_rounds: "main_loop abc_schedule std_IV =
    (1112808245, 1463342561, 562251891, 1746824694, 3640522413)"
  by (simp only: main_loop_def round_indices std_IV_decimal fold_append comp_def
      abc_rounds_0 abc_rounds_10 abc_rounds_20 abc_rounds_30 abc_rounds_40 abc_rounds_50
      abc_rounds_60 abc_rounds_70)

lemma sha1_abc: "std_sha1 [97, 98, 99] =
    [0xa9, 0x99, 0x3e, 0x36, 0x47, 0x06, 0x81, 0x6a, 0xba, 0x3e, 0x25, 0x71, 0x78,
      0x50, 0xc2, 0x6c, 0x9c, 0xd0, 0xd8, 0x9d]"
proof -
  have len: "length abc_block = 64" by (simp add: abc_block_def)
  have "std_pad [97, 98, 99] = abc_block"
    by (simp add: std_pad_def abc_block_def to_big_endian_def upt_rec replicate_52)
  then have "blocks_of (std_pad [97, 98, 99]) = [abc_block]" using len by simp
  moreover have "std_compress std_IV abc_block
      = add_regs std_IV (main_loop (expand_W abc_block) std_IV)"
    by (simp only: std_compress_def main_loop_eq [OF len])
  then have "std_compress std_IV abc_block = (2845392438, 1191608682, 3124634993, 2018558572, 2630932637)"
    unfolding abc_expanded abc_rounds by (simp add: std_IV_def)
  ultimately show ?thesis
    by (simp add: std_sha1_def to_big_endian_def upt_rec)
qed

section \<open>The name bob\<close>

definition bob_block :: bytes where
  "bob_block =
     [98, 111, 98, 128, 0, 0, 0, 0, 0, 0, 0, 0, 0, 0, 0, 0, 0, 0, 0, 0, 0, 0, 0, 0, 0, 0, 0,
     0, 0, 0, 0, 0, 0, 0, 0, 0, 0, 0, 0, 0, 0, 0, 0, 0, 0, 0, 0, 0, 0, 0, 0, 0, 0, 0, 0, 0,
     0, 0, 0, 0, 0, 0, 0, 24]"

lemma bob_words: "map (load_word bob_block) [0..<16] =
     [1651466880, 0, 0, 0, 0, 0, 0, 0, 0, 0, 0, 0, 0, 0, 0, 24]"
  by (simp add: bob_block_def upt_rec load_word_def uchar_to_uint_def)

lemma bob_expand_16: "fold expand_step [16..<32]
     [1651466880, 0, 0, 0, 0, 0, 0, 0, 0, 0, 0, 0, 0, 0, 0, 24] =
     [1651466880, 0, 0, 0, 0, 0, 0, 0, 0, 0, 0, 0, 0, 0, 0, 24, 3302933760, 0, 48,
     2310900225, 0, 96, 326833155, 48, 2310900417, 653666310, 0, 384, 1307332620, 240,
     2940969223, 2614665288]"
  by (simp add: upt_rec expand_step_def lrot_def)

lemma bob_expand_32: "fold expand_step [32..<48]
     [1651466880, 0, 0, 0, 0, 0, 0, 0, 0, 0, 0, 0, 0, 0, 0, 24, 3302933760, 0, 48,
     2310900225, 0, 96, 326833155, 48, 2310900417, 653666310, 0, 384, 1307332620, 240,
     2940969223, 2614665288] =
     [1651466880, 0, 0, 0, 0, 0, 0, 0, 0, 0, 0, 0, 0, 0, 0, 24, 3302933760, 0, 48,
     2310900225, 0, 96, 326833155, 48, 2310900417, 653666310, 0, 384, 1307332620, 240,
     2940969223, 2614665288, 2596707842, 1536, 934363377, 653667270, 3173942302, 1868726434,
     653666310, 6336, 4164102338, 3840, 4105834618, 3179939049, 3205690410, 24768,
     1575102421, 1234474308]"
  by (simp add: upt_rec expand_step_def lrot_def)

lemma bob_expand_48: "fold expand_step [48..<64]
     [1651466880, 0, 0, 0, 0, 0, 0, 0, 0, 0, 0, 0, 0, 0, 0, 24, 3302933760, 0, 48,
     2310900225, 0, 96, 326833155, 48, 2310900417, 653666310, 0, 384, 1307332620, 240,
     2940969223, 2614665288, 2596707842, 1536, 934363377, 653667270, 3173942302, 1868726434,
     653666310, 6336, 4164102338, 3840, 4105834618, 3179939049, 3205690410, 24768,
     1575102421, 1234474308] =
     [1651466880, 0, 0, 0, 0, 0, 0, 0, 0, 0, 0, 0, 0, 0, 0, 24, 3302933760, 0, 48,
     2310900225, 0, 96, 326833155, 48, 2310900417, 653666310, 0, 384, 1307332620, 240,
     2940969223, 2614665288, 2596707842, 1536, 934363377, 653667270, 3173942302, 1868726434,
     653666310, 6336, 4164102338, 3840, 4105834618, 3179939049, 3205690410, 24768,
     1575102421, 1234474308, 2861116898, 4129819174, 1868727202, 3173975262, 2781127721,
     62976, 2081441694, 3634384219, 1275184821, 1868860578, 4174665043, 2571717764,
     1352791784, 1652600239, 610533978, 1870285218]"
  by (simp add: upt_rec expand_step_def lrot_def)

lemma bob_expand_64: "fold expand_step [64..<80]
     [1651466880, 0, 0, 0, 0, 0, 0, 0, 0, 0, 0, 0, 0, 0, 0, 24, 3302933760, 0, 48,
     2310900225, 0, 96, 326833155, 48, 2310900417, 653666310, 0, 384, 1307332620, 240,
     2940969223, 2614665288, 2596707842, 1536, 934363377, 653667270, 3173942302, 1868726434,
     653666310, 6336, 4164102338, 3840, 4105834618, 3179939049, 3205690410, 24768,
     1575102421, 1234474308, 2861116898, 4129819174, 1868727202, 3173975262, 2781127721,
     62976, 2081441694, 3634384219, 1275184821, 1868860578, 4174665043, 2571717764,
     1352791784, 1652600239, 610533978, 1870285218] =
     [1651466880, 0, 0, 0, 0, 0, 0, 0, 0, 0, 0, 0, 0, 0, 0, 24, 3302933760, 0, 48,
     2310900225, 0, 96, 326833155, 48, 2310900417, 653666310, 0, 384, 1307332620, 240,
     2940969223, 2614665288, 2596707842, 1536, 934363377, 653667270, 3173942302, 1868726434,
     653666310, 6336, 4164102338, 3840, 4105834618, 3179939049, 3205690410, 24768,
     1575102421, 1234474308, 2861116898, 4129819174, 1868727202, 3173975262, 2781127721,
     62976, 2081441694, 3634384219, 1275184821, 1868860578, 4174665043, 2571717764,
     1352791784, 1652600239, 610533978, 1870285218, 3604318901, 983040, 3121641204,
     3848694239, 317991615, 6340608, 3794261341, 2492810697, 3301028518, 671754998,
     232857869, 3034346661, 2625104374, 16124416, 1217679919, 3476015930]"
  by (simp add: upt_rec expand_step_def lrot_def)

definition bob_schedule :: "u32 list" where
  "bob_schedule =
     [1651466880, 0, 0, 0, 0, 0, 0, 0, 0, 0, 0, 0, 0, 0, 0, 24, 3302933760, 0, 48,
     2310900225, 0, 96, 326833155, 48, 2310900417, 653666310, 0, 384, 1307332620, 240,
     2940969223, 2614665288, 2596707842, 1536, 934363377, 653667270, 3173942302, 1868726434,
     653666310, 6336, 4164102338, 3840, 4105834618, 3179939049, 3205690410, 24768,
     1575102421, 1234474308, 2861116898, 4129819174, 1868727202, 3173975262, 2781127721,
     62976, 2081441694, 3634384219, 1275184821, 1868860578, 4174665043, 2571717764,
     1352791784, 1652600239, 610533978, 1870285218, 3604318901, 983040, 3121641204,
     3848694239, 317991615, 6340608, 3794261341, 2492810697, 3301028518, 671754998,
     232857869, 3034346661, 2625104374, 16124416, 1217679919, 3476015930]"

lemma bob_rounds_0: "fold (main_step bob_schedule) [0..<10]
     (1732584193, 4023233417, 2562383102, 271733878, 3285377520) =
     (1961538963, 1257983443, 1682035433, 577133139, 2944076609)"
  by (simp add: upt_rec main_step_def bob_schedule_def select_f_def select_K_def lrot_def)

lemma bob_rounds_10: "fold (main_step bob_schedule) [10..<20]
     (1961538963, 1257983443, 1682035433, 577133139, 2944076609) =
     (1332635761, 1160357823, 3577942792, 797757767, 2173182141)"
  by (simp add: upt_rec main_step_def bob_schedule_def select_f_def select_K_def lrot_def)

lemma bob_rounds_20: "fold (main_step bob_schedule) [20..<30]
     (1332635761, 1160357823, 3577942792, 797757767, 2173182141) =
     (2110784929, 560192351, 2985138024, 1508951563, 1320651322)"
  by (simp add: upt_rec main_step_def bob_schedule_def select_f_def select_K_def lrot_def)

lemma bob_rounds_30: "fold (main_step bob_schedule) [30..<40]
     (2110784929, 560192351, 2985138024, 1508951563, 1320651322) =
     (4182844555, 3115289807, 3033176171, 2886455403, 2234916101)"
  by (simp add: upt_rec main_step_def bob_schedule_def select_f_def select_K_def lrot_def)

lemma bob_rounds_40: "fold (main_step bob_schedule) [40..<50]
     (4182844555, 3115289807, 3033176171, 2886455403, 2234916101) =
     (3112204082, 1805978078, 1550884357, 72711202, 2616888300)"
  by (simp add: upt_rec main_step_def bob_schedule_def select_f_def select_K_def lrot_def)

lemma bob_rounds_50: "fold (main_step bob_schedule) [50..<60]
     (3112204082, 1805978078, 1550884357, 72711202, 2616888300) =
     (715164613, 1722299755, 713120115, 822147298, 768325799)"
  by (simp add: upt_rec main_step_def bob_schedule_def select_f_def select_K_def lrot_def)

lemma bob_rounds_60: "fold (main_step bob_schedule) [60..<70]
     (715164613, 1722299755, 713120115, 822147298, 768325799) =
     (1192858428, 2056900143, 2306978872, 2332850348, 3864668325)"
  by (simp add: upt_rec main_step_def bob_schedule_def select_f_def select_K_def lrot_def)

lemma bob_rounds_70: "fold (main_step bob_schedule) [70..<80]
     (1192858428, 2056900143, 2306978872, 2332850348, 3864668325) =
     (3771922380, 853951013, 600795002, 1484098310, 576106522)"
  by (simp add: upt_rec main_step_def bob_schedule_def select_f_def select_K_def lrot_def)

lemma bob_expanded: "expand_W bob_block = bob_schedule"
  by (simp only: expand_W_def bob_schedule_def schedule_indices fold_append comp_def bob_words
      bob_expand_16 bob_expand_32 bob_expand_48 bob_expand_64)

lemma bob_rounds: "main_loop bob_schedule std_IV =
    (3771922380, 853951013, 600795002, 1484098310, 576106522)"
  by (simp only: main_loop_def round_indices std_IV_decimal fold_append comp_def
      bob_rounds_0 bob_rounds_10 bob_rounds_20 bob_rounds_30 bob_rounds_40 bob_rounds_50
      bob_rounds_60 bob_rounds_70)

lemma sha1_bob: "std_sha1 [98, 111, 98] =
    [0x48, 0x18, 0x1a, 0xcd, 0x22, 0xb3, 0xed, 0xae, 0xbc, 0x8a, 0x44, 0x78, 0x68,
      0xa7, 0xdf, 0x7c, 0xe6, 0x29, 0x92, 0x0a]"
proof -
  have len: "length bob_block = 64" by (simp add: bob_block_def)
  have "std_pad [98, 111, 98] = bob_block"
    by (simp add: std_pad_def bob_block_def to_big_endian_def upt_rec replicate_52)
  then have "blocks_of (std_pad [98, 111, 98]) = [bob_block]" using len by simp
  moreover have "std_compress std_IV bob_block
      = add_regs std_IV (main_loop (expand_W bob_block) std_IV)"
    by (simp only: std_compress_def main_loop_eq [OF len])
  then have "std_compress std_IV bob_block = (1209539277, 582217134, 3163178104, 1755832188, 3861484042)"
    unfolding bob_expanded bob_rounds by (simp add: std_IV_def)
  ultimately show ?thesis
    by (simp add: std_sha1_def to_big_endian_def upt_rec)
qed

lemma different_names: "sha1_ID [97, 98, 99] \<noteq> sha1_ID [98, 111, 98]"
  by (simp add: ID_eq_iff sha1_abc sha1_bob)

section \<open>A test vector\<close>

text \<open>The identifier of the name \<open>abc\<close> is the digest the standard prints for that message.\<close>

lemma identifier_of_abc:
  "string_ID (replicate 64 0) (cstr ''abc'') = Inr (of_bytes
    [0xa9, 0x99, 0x3e, 0x36, 0x47, 0x06, 0x81, 0x6a, 0xba, 0x3e, 0x25, 0x71, 0x78,
      0x50, 0xc2, 0x6c, 0x9c, 0xd0, 0xd8, 0x9d])"
  by (simp add: string_ID_sha1 sha1_ID_def sha1_abc)

end
