(* ===== verification/Two_Nodes.thy ===== *)
theory Two_Nodes
  imports Delivery Schedules Sha1_Test
begin

text \<open>
  The smallest network that forms: a node alone stabilises, a second one joins through it, each
  runs \<open>stabilize\<close> once more and the two notifications are delivered. Afterwards each is the
  other's successor and predecessor, and the network is settled.
\<close>

section \<open>A started node\<close>

definition started :: "inode \<Rightarrow> local_node" where
  "started d = server_start True (setReceiveFunction (own_LocalNode (init d)))"

lemma started_ok: "named d \<Longrightarrow> node_ok d (started d)"
  by (simp add: started_def init_ok)

lemma started_simps [simp]:
  "ln_inode (started d) = d" "ln_predecessor (started d) = None" "ln_listening (started d)"
  "\<not> ln_stop (started d)" "ln_rcvFn (started d)" "entries (ln_finger (started d)) = replicate M None"
  "ln_out (started d) = []" "ln_next (started d) = 0"
  by (simp_all add: started_def server_start_def setReceiveFunction_def own_LocalNode_def init_def
      setId_def new_FingerTable_def)

lemma short_named: "short d \<Longrightarrow> named d"
  by (simp add: short_def sendable_def named_def)

definition addr :: "(bytes \<Rightarrow> bytes \<Rightarrow> nat option) \<Rightarrow> inode \<Rightarrow> nat option" where
  "addr route d = route (nd_host d) (dec_number (unat (nd_port d)))"

lemma connect_addr:
  "addr route d = Some q \<Longrightarrow> ns q = Some t \<Longrightarrow> ln_listening t \<Longrightarrow>
     connect route ns (nd_host d) (dec_number (unat (nd_port d))) = Some q"
  by (simp add: addr_def connect_def)

section \<open>The lone node\<close>

text \<open>A node whose successor is the node itself.\<close>

definition alone :: "local_node \<Rightarrow> node_ptr \<Rightarrow> local_node" where
  "alone s p =
     s\<lparr>ln_predecessor := p,
       ln_finger := (ln_finger s)\<lparr>entries := (entries (ln_finger s))[0 := Some This]\<rparr>\<rparr>"

lemma run_get_predecessor_here:
  "procs w p = Some s \<Longrightarrow>
     run route call p (getPredecessor (Some This)) w = Some (w, Returned (ln_predecessor s))"
  using run_get_predecessor [of w p s route call Ret] by (simp add: getPredecessor_def dispatch_def)

lemma first_none: "first_some (replicate n None) = None"
  by (induction n) simp_all

lemma lone_stabilize:
  assumes s: "procs w p = Some s" "node_ok (ln_inode s) s"
    and none: "first_some (entries (ln_finger s)) = None" "ln_predecessor s = None"
  shows "run route call p (LocalNode_stabilize (Suc k)) w
    = Some (set_proc p (Some (alone s (Some This))) w, Returned ())"
proof -
  let ?s = "alone s None"
  let ?w = "set_proc p (Some ?s) w"
  have ok: "node_ok (ln_inode ?s) ?s"
    using node_ok_setNode(2) [OF s(2), of 0 "Some This"] none(2) s(2)
    by (simp add: alone_def node_ok_def)
  have "entries (ln_finger s) \<noteq> []" using length_entries [OF s(2)] by auto
  then have f: "first_some (entries (ln_finger ?s)) = Some This"
    by (simp add: alone_def first_some_update)
  have p: "procs ?w p = Some ?s" by simp
  have "?s = s\<lparr>ln_finger := (ln_finger s)\<lparr>entries := (entries (ln_finger s))[0 := Some This]\<rparr>\<rparr>"
    using none(2) by (cases s) (simp add: alone_def)
  then have "get_successor s = (Inr (Some This), ?s)"
    using none(1) by (simp add: get_successor_eq [OF s(2)])
  then have "run route call p (LocalNode_stabilize (Suc k)) w = run route call p (LocalNode_stabilize (Suc k)) ?w"
    unfolding LocalNode_stabilize_def run_get_successor [OF p ok f] by (simp add: run_atomic [OF s(1)])
  also have "\<dots> = run route call p (notify (Some This) (Some This)) ?w"
    using run_stabilize [OF p ok f, of route call ?w None ?s k] run_get_predecessor_here [OF p, of route call]
      ok none(2)
    by (simp add: answers_def after_ping_def alone_def better_successor_def)
  also have "\<dots> = Some (set_proc p (Some (alone s (Some This))) w, Returned ())"
  proof -
    have "?s\<lparr>ln_predecessor := Some This\<rparr> = alone s (Some This)"
      by (cases s) (simp add: alone_def)
    moreover have "ln_predecessor ?s = None" by (simp add: alone_def)
    ultimately show ?thesis
      using run_notify [OF p ok, of route call This]
      by (simp add: notify_def dispatch_def accepts_def own_or_def set_proc_def)
  qed
  finally show ?thesis .
qed

section \<open>The second node asks the first\<close>

text \<open>A node with the successor \<open>d\<close>, whose predecessor is \<open>d\<close> itself, keeps it and notifies it.\<close>

lemma stabilize_keeps:
  assumes s: "procs w p = Some s" "node_ok (ln_inode s) s"
    and n: "first_some (entries (ln_finger s)) = Some (Remote k d)"
    and t: "procs w q = Some t" "node_ok (ln_inode t) t" "ln_listening t" "\<not> ln_stop t" "ln_inode t = d"
      "ln_predecessor t = Some This" "p \<noteq> q"
    and d: "short d" "addr route d = Some q" "node_id s \<noteq> nd_id d"
  shows "run route (serve route (Suc n)) p (LocalNode_stabilize (Suc j)) w =
    Some (set_proc p (Some (bump s)) w \<lparr>inflight := inflight w
        @ [(q, createMessage PING []), (q, createMessage NOTIFY (serialize (ln_inode s)))]\<rparr>, Returned ())"
proof -
  let ?w = "w\<lparr>inflight := inflight w @ [(q, createMessage PING [])]\<rparr>"
  let ?w1 = "set_proc p (Some (bump s)) ?w"
  have c: "connect route (procs w) (nd_host d) (dec_number (unat (nd_port d))) = Some q"
    by (rule connect_addr [where ns = "procs w", OF d(2) t(1,3)])
  have w: "after_ping route (Remote k d) w = ?w" "answers route w (Remote k d)"
    using c by (simp_all add: after_ping_def answers_def)
  have "serve route (Suc n) q (createMessage GET_PREDECESSOR []) ?w = Some (?w, respond (serialize d))"
    using serve_get_predecessor [of ?w q t route n] t by simp
  then have x: "run route (serve route (Suc n)) p (getPredecessor (Some (Remote k d))) (after_ping route (Remote k d) w)
      = Some (?w1, Returned (Some (Remote (ln_next s) d)))"
    using run_query [where w = ?w and p = p and t = False and d = d and e = d and route = route and q = q
        and call = "serve route (Suc n)" and w' = ?w and s = s and m = "createMessage GET_PREDECESSOR []"] c d(1) s(1)
    by (simp add: w(1) getPredecessor_def dispatch_def RemoteNode_getPredecessor_def)
  have p1: "procs ?w1 p = Some (bump s)" by simp
  have ok1: "node_ok (ln_inode s) (bump s)" using s(2) by (simp add: node_ok_def bump_def)
  have q1: "connect route (procs ?w1) (nd_host d) (dec_number (unat (nd_port d))) = Some q"
    by (rule connect_addr [where ns = "procs ?w1" and t = t, OF d(2)]) (use t in simp_all)
  have "\<not> isInInterval (nd_id d) (node_id s) (nd_id d)"
    using id_circle.not_between_ends(2) [OF d(3)] .
  then have "better_successor s (Remote k d) (Some (Remote (ln_next s) d)) = None"
    by (simp add: better_successor_def get_id_def)
  then have "run route (serve route (Suc n)) p (LocalNode_stabilize (Suc j)) w =
      run route (serve route (Suc n)) p (notify (Some (Remote k d)) (Some This)) ?w1"
    using run_stabilize [OF s n w(2) x _ p1 ok1] short_named [OF d(1)] by (simp add: bump_def)
  also have "\<dots> = Some (?w1\<lparr>inflight := inflight ?w1
        @ [(q, createMessage NOTIFY (serialize (ln_inode s)))]\<rparr>, Returned ())"
    using run_notify_remote [OF p1 q1] by (simp add: bump_def)
  finally show ?thesis by (simp add: set_proc_def)
qed

text \<open>A lone node whose predecessor has become \<open>d\<close> takes \<open>d\<close> for its successor and notifies it.\<close>

lemma stabilize_adopts:
  assumes s: "procs w p = Some s" "node_ok (ln_inode s) s"
    and n: "first_some (entries (ln_finger s)) = Some This" "ln_predecessor s = Some (Remote k d)"
    and t: "procs w q = Some t" "ln_listening t" "p \<noteq> q"
    and d: "addr route d = Some q" "nd_id d \<noteq> node_id s" "named d"
  shows "run route (serve route n) p (LocalNode_stabilize (Suc j)) w =
    Some (set_proc p (Some (with_successor s (Remote k d))) w \<lparr>inflight := inflight w
        @ [(q, createMessage NOTIFY (serialize (ln_inode s)))]\<rparr>, Returned ())"
proof -
  let ?w1 = "set_proc p (Some (with_successor s (Remote k d))) w"
  have here: "after_ping route This w = w" "answers route w This"
    by (simp_all add: after_ping_def answers_def)
  have x: "run route (serve route n) p (getPredecessor (Some This)) (after_ping route This w)
      = Some (w, Returned (Some (Remote k d)))"
    using run_get_predecessor_here [OF s(1)] n(2) here by simp
  have "better_successor s This (Some (Remote k d)) = Some (Remote k d)"
    using id_circle.between_same by (simp add: better_successor_def get_id_def node_id_def)
  moreover have "own_or (ln_inode s) (Remote k d) = Remote k d"
    using d(2) by (simp add: own_or_def node_id_def)
  ultimately have "run route (serve route n) p (LocalNode_stabilize (Suc j)) w =
      run route (serve route n) p (notify (Some (Remote k d)) (Some This)) ?w1"
    using run_stabilize [OF s n(1) here(2) x _ s refl, of j] d(3) by simp
  also have "\<dots> = Some (?w1\<lparr>inflight := inflight w @ [(q, createMessage NOTIFY (serialize (ln_inode s)))]\<rparr>,
      Returned ())"
  proof -
    have p1: "procs ?w1 p = Some (with_successor s (Remote k d))" by simp
    have q1: "connect route (procs ?w1) (nd_host d) (dec_number (unat (nd_port d))) = Some q"
      by (rule connect_addr [where ns = "procs ?w1" and t = t, OF d(1)]) (use t in simp_all)
    show ?thesis using run_notify_remote [OF p1 q1] by (simp add: with_successor_def)
  qed
  finally show ?thesis by simp
qed

section \<open>Deliveries\<close>

lemma perform_returned:
  "run route (serve route n) p m w = Some (w', Returned ()) \<Longrightarrow> perform route n p m w = Some w'"
  by (simp add: perform_def finish_def)

lemma deliver_notify:
  assumes "i < length (inflight w)" and "inflight w ! i = (q, createMessage NOTIFY (serialize d))"
    and "procs w q = Some t" and "ln_listening t" and "\<not> ln_stop t" and "node_ok (ln_inode t) t"
    and "short d"
  shows "deliver route (Suc n) i w = Some (set_proc q (Some (notified t d))
    (w\<lparr>inflight := take i (inflight w) @ drop (i + 1) (inflight w)\<rparr>))"
  unfolding deliver_def
  using assms serve_notify [of "w\<lparr>inflight := take i (inflight w) @ drop (i + 1) (inflight w)\<rparr>" q t d route n]
  by (simp del: serve.simps)

lemma deliver_ping:
  assumes "i < length (inflight w)" and "inflight w ! i = (q, createMessage PING [])"
    and "procs w q = Some t" and "ln_listening t" and "\<not> ln_stop t"
  shows "deliver route (Suc n) i w = Some (w\<lparr>inflight := take i (inflight w) @ drop (i + 1) (inflight w)\<rparr>)"
proof -
  let ?w = "w\<lparr>inflight := take i (inflight w) @ drop (i + 1) (inflight w)\<rparr>"
  have "serve route (Suc n) q (createMessage PING []) ?w = Some (?w, respond [])"
    by (rule serve_message [OF _ assms(4,5)]) (use assms(3) in \<open>simp_all add: handle_ping\<close>)
  then show ?thesis
    using assms(1,2) by (simp add: deliver_def del: serve.simps)
qed

section \<open>Two nodes\<close>

text \<open>A node with one neighbour on both sides, or with none.\<close>

definition faces :: "local_node \<Rightarrow> node \<Rightarrow> bool" where
  "faces s n \<longleftrightarrow> node_ok (ln_inode s) s \<and> ln_listening s \<and> \<not> ln_stop s
     \<and> entries (ln_finger s) = (replicate M None)[0 := Some n]"

lemma faces_first: "faces s n \<Longrightarrow> first_some (entries (ln_finger s)) = Some n"
  by (simp add: faces_def first_some_update)

lemma faces_settled:
  assumes "\<And>p s. ns p = Some s \<Longrightarrow>
      (\<exists>n q t. faces s n \<and> leads_to ns s n q t \<and> short (ln_inode s) \<and> addr route (ln_inode s) = Some p
        \<and> (\<forall>r u. ns r = Some u \<longrightarrow> node_id u = node_id s \<or> node_id u = get_id s n \<and> node_id s \<noteq> get_id s n))"
  shows "settled route ns"
  unfolding settled_def
proof (intro allI impI conjI)
  fix p s assume "ns p = Some s"
  from assms [OF this] obtain n q t where n: "faces s n" "leads_to ns s n q t" "short (ln_inode s)"
      "addr route (ln_inode s) = Some p"
      and near: "\<And>r u. ns r = Some u \<Longrightarrow>
        node_id u = node_id s \<or> node_id u = get_id s n \<and> node_id s \<noteq> get_id s n"
    by blast
  show "served_node route p s" using n by (simp add: served_node_def faces_def addr_def)
  have "set (entries (ln_finger s)) \<subseteq> {None, Some n}"
    using n(1) set_update_subset_insert [of "replicate M None" 0 "Some n"] by (auto simp: faces_def)
  with n(2) show "live_fingers ns s" by (auto simp: live_fingers_def)
  have "node_id u = node_id s \<or> node_id s \<noteq> get_id s n \<and> \<not> isInInterval (node_id u) (node_id s) (get_id s n)"
    if "ns r = Some u" for r u
    using near [OF that] id_circle.not_between_ends(2) [of "node_id s" "get_id s n"] by auto
  with faces_first [OF n(1)] show "right_successor ns s" by (auto simp: right_successor_def)
qed

lemma faces_update:
  "faces s n \<Longrightarrow> node_ok (ln_inode s) (f s) \<Longrightarrow> ln_inode (f s) = ln_inode s \<Longrightarrow> ln_finger (f s) = ln_finger s
     \<Longrightarrow> ln_listening (f s) = ln_listening s \<Longrightarrow> ln_stop (f s) = ln_stop s \<Longrightarrow> faces (f s) n"
  by (simp add: faces_def)

lemma faces_with_successor:
  assumes "faces s n" and "named d" and "nd_id d \<noteq> node_id s"
  shows "faces (with_successor s (Remote k d)) (Remote k d)"
  using assms with_successor_ok(1) [of s "Remote k d"]
  by (simp add: faces_def with_successor_def own_or_def node_id_def)

lemma notified_other:
  assumes "accepts t (Remote (ln_next t) d)" and "nd_id d \<noteq> node_id t"
  shows "notified t d = (bump t)\<lparr>ln_predecessor := Some (Remote (ln_next t) d)\<rparr>"
  using assms by (simp add: notified_def Let_def accepts_def own_or_def node_id_def bump_def get_id_def)

lemma notified_faces:
  assumes "faces t n" and "accepts t (Remote (ln_next t) d)" and "nd_id d \<noteq> node_id t" and "named d"
  shows "faces (notified t d) n"
  using assms(1,3,4) unfolding notified_other [OF assms(2,3)]
  by (simp add: faces_def node_ok_def bump_def node_id_def)

lemma neighbours_meet:
  assumes s: "procs w p = Some s" "faces s This" "ln_predecessor s = Some This"
    and t: "procs w q = Some t" "faces t (Remote k (ln_inode s))" "ln_predecessor t = None"
    and short: "short (ln_inode s)" "short (ln_inode t)"
    and addr: "addr route (ln_inode s) = Some p" "addr route (ln_inode t) = Some q"
    and other: "p \<noteq> q" "node_id s \<noteq> node_id t" and empty: "inflight w = []"
  shows "\<exists>w' s' t' x y.
    schedule route (Suc n) [Perform q (LocalNode_stabilize (Suc j)), Deliver 1,
      Perform p (LocalNode_stabilize (Suc j)), Deliver 1, Deliver 0] w = Some w'
    \<and> procs w' = (procs w)(p := Some s', q := Some t') \<and> inflight w' = []
    \<and> ln_inode s' = ln_inode s \<and> faces s' (Remote x (ln_inode t)) \<and> ln_predecessor s' = Some (Remote x (ln_inode t))
    \<and> ln_inode t' = ln_inode t \<and> faces t' (Remote k (ln_inode s)) \<and> ln_predecessor t' = Some (Remote y (ln_inode s))"
proof -
  let ?a = "ln_inode s" and ?b = "ln_inode t"
  let ?ping = "(p, createMessage PING [])"
  note fs = s(2) [unfolded faces_def] and ft = t(2) [unfolded faces_def]
  have ids: "nd_id ?b \<noteq> node_id s" "nd_id ?a \<noteq> node_id t" "node_id t \<noteq> nd_id ?a"
    using other(2) by (simp_all add: node_id_def)
  have names: "named ?a" "named ?b" using short by (simp_all add: short_named)
  let ?t3 = "bump t"
  let ?w3 = "set_proc q (Some ?t3) w\<lparr>inflight := [?ping, (p, createMessage NOTIFY (serialize ?b))]\<rparr>"
  have 3: "perform route (Suc n) q (LocalNode_stabilize (Suc j)) w = Some ?w3"
    using perform_returned [OF stabilize_keeps [where w = w, OF t(1) _ faces_first [OF t(2)] s(1) _ _ _ refl s(3)
      _ short(1) addr(1) ids(3)]] fs ft other(1) empty by auto
  let ?s4 = "notified s ?b"
  let ?w4 = "set_proc p (Some ?s4) (?w3\<lparr>inflight := [?ping]\<rparr>)"
  have acc4: "accepts s (Remote (ln_next s) ?b)"
    using s(3) id_circle.between_same ids(1) by (simp add: accepts_def get_id_def node_id_def)
  have s4: "?s4 = (bump s)\<lparr>ln_predecessor := Some (Remote (ln_next s) ?b)\<rparr>"
    by (rule notified_other [OF acc4 ids(1)])
  have f4: "faces ?s4 This" by (rule notified_faces [OF s(2) acc4 ids(1) names(2)])
  have 4: "deliver route (Suc n) 1 ?w3 = Some ?w4"
    using deliver_notify [where w = ?w3 and i = 1 and q = p and d = ?b and t = s and route = route and n = n]
      s(1) fs short(2) other(1) by simp
  let ?s5 = "with_successor ?s4 (Remote (ln_next s) ?b)"
  let ?w5 = "set_proc p (Some ?s5) ?w4\<lparr>inflight := [?ping, (q, createMessage NOTIFY (serialize ?a))]\<rparr>"
  have i4: "ln_inode ?s4 = ?a" "node_id ?s4 = node_id s" by (simp_all add: s4 bump_def node_id_def)
  have 5: "perform route (Suc n) p (LocalNode_stabilize (Suc j)) ?w4 = Some ?w5"
    using perform_returned [OF stabilize_adopts [where w = ?w4 and p = p and q = q and s = ?s4 and t = ?t3
        and k = "ln_next s" and d = ?b and route = route and n = "Suc n" and j = j]]
      f4 ft other(1) addr(2) ids(1) names(2) i4 faces_first [OF f4]
    by (simp add: s4 faces_def bump_def del: serve.simps)
  let ?t6 = "notified ?t3 ?a"
  let ?w6 = "set_proc q (Some ?t6) (?w5\<lparr>inflight := [?ping]\<rparr>)"
  have f3: "faces ?t3 (Remote k ?a)" "node_id ?t3 = node_id t"
    using ft by (simp_all add: faces_def bump_def node_ok_def node_id_def)
  have acc6: "accepts ?t3 (Remote (ln_next ?t3) ?a)"
    using t(3) by (simp add: accepts_def bump_def)
  have t6: "?t6 = (bump ?t3)\<lparr>ln_predecessor := Some (Remote (ln_next ?t3) ?a)\<rparr>"
    by (rule notified_other [OF acc6]) (simp add: f3(2) ids(2))
  have f6: "faces ?t6 (Remote k ?a)"
    by (rule notified_faces [OF f3(1) acc6 _ names(1)]) (simp add: f3(2) ids(2))
  have 6: "deliver route (Suc n) 1 ?w5 = Some ?w6"
    using deliver_notify [where w = ?w5 and i = 1 and q = q and d = ?a and t = ?t3 and route = route and n = n]
      f3(1) short(1) other(1) by (simp add: faces_def bump_def)
  have f5: "faces ?s5 (Remote (ln_next s) ?b)"
    by (rule faces_with_successor [OF f4 names(2)]) (simp add: i4 ids(1))
  have 7: "deliver route (Suc n) 0 ?w6 = Some (?w6\<lparr>inflight := []\<rparr>)"
    using deliver_ping [where w = ?w6 and i = 0 and q = p and t = ?s5 and route = route and n = n] f5 other(1)
    by (simp add: faces_def)
  have p5: "ln_predecessor ?s5 = Some (Remote (ln_next s) ?b)" "ln_inode ?s5 = ?a"
    by (simp_all add: with_successor_def s4 bump_def)
  have p6: "ln_predecessor ?t6 = Some (Remote (ln_next ?t3) ?a)" "ln_inode ?t6 = ?b"
    unfolding t6 by (simp_all add: bump_def)
  show ?thesis
  proof (intro exI conjI)
    show "schedule route (Suc n) [Perform q (LocalNode_stabilize (Suc j)), Deliver 1,
      Perform p (LocalNode_stabilize (Suc j)), Deliver 1, Deliver 0] w = Some (?w6\<lparr>inflight := []\<rparr>)"
      by (simp only: schedule.simps deed.case option.case 3 4 5 6 7)
    show "procs (?w6\<lparr>inflight := []\<rparr>) = (procs w)(p := Some ?s5, q := Some ?t6)"
      using other(1) by (auto simp: fun_eq_iff)
  qed (use f5 f6 p5 p6 in simp_all)
qed

text \<open>From two nodes that have just been started, over the join of the second.\<close>

lemma alone_faces:
  assumes "named a" and "p = None \<or> p = Some This"
  shows "faces (alone (started a) p) This"
  using node_ok_setNode(2) [OF started_ok [OF assms(1)], of 0 "Some This"] assms(2)
  by (auto simp: faces_def alone_def node_ok_def)

lemma lone_settled:
  assumes "faces s This" and "short (ln_inode s)" and "addr route (ln_inode s) = Some p"
  shows "settled route [p \<mapsto> s]"
  by (rule faces_settled) (use assms in \<open>auto simp: leads_to_def split: if_splits\<close>)

lemma pair_settled:
  assumes "faces s (Remote x (ln_inode t))" and "faces t (Remote y (ln_inode s))"
    and "short (ln_inode s)" and "short (ln_inode t)"
    and "addr route (ln_inode s) = Some p" and "addr route (ln_inode t) = Some q"
    and "p \<noteq> q" and "node_id s \<noteq> node_id t"
  shows "settled route [p \<mapsto> s, q \<mapsto> t]"
proof (rule faces_settled)
  fix r u assume r: "[p \<mapsto> s, q \<mapsto> t] r = Some u"
  show "\<exists>n q' t'. faces u n \<and> leads_to [p \<mapsto> s, q \<mapsto> t] u n q' t' \<and> short (ln_inode u)
      \<and> addr route (ln_inode u) = Some r
      \<and> (\<forall>r' u'. [p \<mapsto> s, q \<mapsto> t] r' = Some u' \<longrightarrow>
           node_id u' = node_id u \<or> node_id u' = get_id u n \<and> node_id u \<noteq> get_id u n)"
  proof (cases "r = q")
    case True
    with r assms show ?thesis
      by (intro exI [of _ "Remote y (ln_inode s)"] exI [of _ p] exI [of _ s])
        (auto simp: leads_to_def get_id_def node_id_def split: if_splits)
  next
    case False
    with r assms show ?thesis
      by (intro exI [of _ "Remote x (ln_inode t)"] exI [of _ q] exI [of _ t])
        (auto simp: leads_to_def get_id_def node_id_def split: if_splits)
  qed
qed

lemma two_nodes_meet:
  assumes w: "procs w p = Some (started a)" "procs w q = Some (started b)" "inflight w = []" "p \<noteq> q"
    and short: "short a" "short b" and addr: "addr route a = Some p" "addr route b = Some q"
    and ids: "nd_id a \<noteq> nd_id b"
  shows "\<exists>w' s t x y z.
    schedule route (Suc (Suc n)) [Perform p (LocalNode_stabilize (Suc j)), Perform q (LocalNode_join k (Some (Remote c a))),
      Perform q (LocalNode_stabilize (Suc j)), Deliver 1,
      Perform p (LocalNode_stabilize (Suc j)), Deliver 1, Deliver 0] w = Some w'
    \<and> procs w' p = Some s \<and> procs w' q = Some t \<and> inflight w' = []
    \<and> ln_inode s = a \<and> faces s (Remote x b) \<and> ln_predecessor s = Some (Remote x b)
    \<and> ln_inode t = b \<and> faces t (Remote z a) \<and> ln_predecessor t = Some (Remote y a)"
proof -
  have names: "named a" "named b" using short by (simp_all add: short_named)
  let ?s1 = "alone (started a) (Some This)"
  let ?w1 = "set_proc p (Some ?s1) w"
  have 1: "perform route (Suc (Suc n)) p (LocalNode_stabilize (Suc j)) w = Some ?w1"
    by (rule perform_returned [OF lone_stabilize [OF w(1)]]) (use started_ok [OF names(1)] first_none in simp_all)
  have f1: "faces ?s1 This" by (rule alone_faces [OF names(1)]) simp
  have i1: "ln_inode ?s1 = a" "node_id ?s1 = nd_id a" by (simp_all add: alone_def node_id_def)
  have m: "procs ?w1 |` {p} = [p \<mapsto> ?s1]" by (auto simp: restrict_map_def fun_eq_iff)
  have A: "settled route (procs ?w1 |` {p})"
    unfolding m by (rule lone_settled [OF f1]) (use i1 short addr in simp_all)
  have "\<exists>w' l t x. run route (serve route (Suc (Suc n))) q (LocalNode_join k (Some (Remote c (ln_inode ?s1)))) ?w1
      = Some (w', Returned ())
    \<and> procs w' q = Some (with_successor (started b\<lparr>ln_predecessor := None, ln_next := l\<rparr>) x)
    \<and> owner (procs ?w1 |` {p}) (node_id (started b)) t \<and> node_data (ln_inode (started b)) x = ln_inode t
    \<and> objects_only (procs ?w1 |` {p}) (procs w' |` {p}) \<and> inflight w' = inflight ?w1"
    by (rule join_member [OF A]) (use w m started_ok [OF names(2)] in simp_all)
  then obtain w2 l t x where w2:
      "run route (serve route (Suc (Suc n))) q (LocalNode_join k (Some (Remote c a))) ?w1 = Some (w2, Returned ())"
      "procs w2 q = Some (with_successor (started b\<lparr>ln_predecessor := None, ln_next := l\<rparr>) x)"
      "owner (procs ?w1 |` {p}) (node_id (started b)) t" "node_data b x = ln_inode t"
      "objects_only (procs ?w1 |` {p}) (procs w2 |` {p})" "inflight w2 = []"
    using w(3) i1(1) by auto
  have 2: "perform route (Suc (Suc n)) q (LocalNode_join k (Some (Remote c a))) ?w1 = Some w2"
    by (rule perform_returned [OF w2(1)])
  have "ln_inode t = a" using w2(3) m i1(1) by (auto simp: owner_def split: if_splits)
  with w2(4) ids obtain z where z: "x = Remote z a" by (cases x) auto
  obtain l' where s2: "procs w2 p = Some (?s1\<lparr>ln_next := l'\<rparr>)"
    using objects_only_Some [OF w2(5), of p ?s1] by auto
  let ?s2 = "?s1\<lparr>ln_next := l'\<rparr>"
  let ?b2 = "started b\<lparr>ln_predecessor := None, ln_next := l\<rparr>"
  have fs: "faces ?s2 This" "ln_inode ?s2 = a" "ln_predecessor ?s2 = Some This" "node_id ?s2 = nd_id a"
    using f1 by (simp_all add: faces_def node_ok_def alone_def node_id_def)
  have "node_ok (ln_inode ?b2) ?b2" using started_ok [OF names(2)] by (simp add: node_ok_def)
  from with_successor_ok(1) [OF this, of x] z names(1) ids have ft: "faces (with_successor ?b2 x) (Remote z a)"
    by (simp add: faces_def with_successor_def own_or_def)
  have it: "ln_inode (with_successor ?b2 x) = b" "ln_predecessor (with_successor ?b2 x) = None"
    "node_id (with_successor ?b2 x) = nd_id b"
    by (simp_all add: with_successor_def node_id_def)
  obtain w' s' t' u v where w':
    "schedule route (Suc (Suc n)) [Perform q (LocalNode_stabilize (Suc j)), Deliver 1,
      Perform p (LocalNode_stabilize (Suc j)), Deliver 1, Deliver 0] w2 = Some w'"
    "procs w' = (procs w2)(p := Some s', q := Some t')" "inflight w' = []"
    "ln_inode s' = a" "faces s' (Remote u b)" "ln_predecessor s' = Some (Remote u b)"
    "ln_inode t' = b" "faces t' (Remote z a)" "ln_predecessor t' = Some (Remote v a)"
    using neighbours_meet [where w = w2 and p = p and q = q and s = ?s2 and t = "with_successor ?b2 x"
        and k = z and route = route and n = "Suc n" and j = j, OF s2 fs(1,3) w2(2)]
      fs ft it short addr w(4) ids w2(6) by auto
  show ?thesis
  proof (intro exI conjI)
    show "schedule route (Suc (Suc n)) [Perform p (LocalNode_stabilize (Suc j)),
      Perform q (LocalNode_join k (Some (Remote c a))), Perform q (LocalNode_stabilize (Suc j)), Deliver 1,
      Perform p (LocalNode_stabilize (Suc j)), Deliver 1, Deliver 0] w = Some w'"
      using w'(1) by (simp only: schedule.simps(2) deed.case 1 2 option.case)
  qed (use w' w(4) in simp_all)
qed

section \<open>Examples\<close>

text \<open>Two users, their processes on the ports 1 and 2 of any host, and a network they have formed.\<close>

definition user :: "bytes \<Rightarrow> u32 \<Rightarrow> inode" where
  "user name port = \<lparr>nd_name = name, nd_host = cstr ''h'', nd_port = port, nd_id = sha1_ID name\<rparr>"

definition by_port :: "bytes \<Rightarrow> bytes \<Rightarrow> nat option" where
  "by_port host port =
     (if port = dec_number 1 then Some 0 else if port = dec_number 2 then Some 1 else None)"

definition abc :: inode where
  "abc = user (cstr ''abc'') 1"

definition bob :: inode where
  "bob = user (cstr ''bob'') 2"

definition beside :: "inode \<Rightarrow> inode \<Rightarrow> local_node" where
  "beside d e = with_successor (started d) (Remote 0 e)\<lparr>ln_predecessor := Some (Remote 0 e)\<rparr>"

definition pair :: world where
  "pair = \<lparr>procs = [0 \<mapsto> beside abc bob, 1 \<mapsto> beside bob abc], inflight = []\<rparr>"

lemma users:
  "short abc" "short bob" "addr by_port abc = Some 0" "addr by_port bob = Some 1"
  "nd_id abc \<noteq> nd_id bob" "nd_id bob \<noteq> nd_id abc" "named abc" "named bob"
proof -
  have port: "dec_number (Suc 0) = [49]" "dec_number 2 = [50]" by (simp_all add: dec_number.simps dec_digit_def)
  show s: "short abc" "short bob"
    by (simp_all add: short_def sendable_def abc_def bob_def user_def serialize_def Let_def port)
  show "addr by_port abc = Some 0" "addr by_port bob = Some 1"
    by (simp_all add: addr_def by_port_def abc_def bob_def user_def port)
  show "nd_id abc \<noteq> nd_id bob" "nd_id bob \<noteq> nd_id abc"
    using different_names by (simp_all add: abc_def bob_def user_def)
  show "named abc" "named bob" using s by (simp_all add: short_named)
qed

lemma beside_simps [simp]:
  "ln_inode (beside d e) = d" "ln_predecessor (beside d e) = Some (Remote 0 e)"
  "node_id (beside d e) = nd_id d" "ln_rcvFn (beside d e)" "ln_out (beside d e) = []"
  by (simp_all add: beside_def with_successor_def node_id_def)

lemma beside_faces:
  assumes "named d" and "named e" and "nd_id d \<noteq> nd_id e"
  shows "faces (beside d e) (Remote 0 e)"
  using with_successor_ok(1) [of "started d" "Remote 0 e"] started_ok [OF assms(1)] assms(2,3)
  by (simp add: beside_def faces_def with_successor_def own_or_def node_ok_def)

lemma pair_nodes:
  "faces (beside abc bob) (Remote 0 bob)" "faces (beside bob abc) (Remote 0 abc)"
  by (rule beside_faces; simp add: users)+

lemma pair_simps [simp]:
  "procs pair = [0 \<mapsto> beside abc bob, 1 \<mapsto> beside bob abc]" "inflight pair = []"
  "[0 \<mapsto> beside abc bob, 1 \<mapsto> beside bob abc] |` {0, 1} = [0 \<mapsto> beside abc bob, 1 \<mapsto> beside bob abc]"
  by (auto simp: pair_def restrict_map_def fun_eq_iff)

lemma settled_pair: "settled by_port (procs pair)"
  using pair_settled [of "beside abc bob" 0 "beside bob abc" 0 by_port 0 1] pair_nodes users by simp

text \<open>The two users before the second has joined.\<close>

definition apart :: world where
  "apart = \<lparr>procs = [0 \<mapsto> alone (started abc) (Some This), 1 \<mapsto> started bob], inflight = []\<rparr>"

lemma apart_simps [simp]:
  "procs apart = [0 \<mapsto> alone (started abc) (Some This), 1 \<mapsto> started bob]" "inflight apart = []"
  by (simp_all add: apart_def)

lemma settled_apart: "settled by_port (procs apart |` {0})"
proof -
  have "procs apart |` {0} = [0 \<mapsto> alone (started abc) (Some This)]"
    by (auto simp: restrict_map_def fun_eq_iff)
  moreover have "ln_inode (alone (started abc) (Some This)) = abc" by (simp add: alone_def)
  ultimately show ?thesis
    using lone_settled [OF alone_faces [OF users(7)], of "Some This" by_port 0] users by simp
qed

text \<open>The first user has been notified of the second, which is up.\<close>

definition noticed :: world where
  "noticed = \<lparr>procs = [0 \<mapsto> alone (started abc) (Some (Remote 0 bob)), 1 \<mapsto> started bob], inflight = []\<rparr>"

lemma noticed_simps [simp]:
  "procs noticed = [0 \<mapsto> alone (started abc) (Some (Remote 0 bob)), 1 \<mapsto> started bob]"
  by (simp add: noticed_def)

lemma noticed_node:
  "node_ok (ln_inode (alone (started abc) (Some (Remote 0 bob)))) (alone (started abc) (Some (Remote 0 bob)))"
  "getNode False (ln_finger (alone (started abc) (Some (Remote 0 bob)))) 0 = Inr (Some This)"
proof -
  let ?s = "alone (started abc) (Some (Remote 0 bob))"
  have f: "faces (alone (started abc) None) This" by (rule alone_faces [OF users(7)]) simp
  then show ok: "node_ok (ln_inode ?s) ?s"
    using users(6,8) by (simp add: faces_def node_ok_def alone_def named_def)
  have "first_some (entries (ln_finger ?s)) = Some This"
    using faces_first [OF f] by (simp add: alone_def)
  then show "getNode False (ln_finger ?s) 0 = Inr (Some This)"
    using getNode_first [OF node_ok_full [OF ok], of 0] by simp
qed

end
