(* ===== verification/Spec2Isabelle.thy ===== *)
theory Spec2Isabelle
  imports Remote_Send Async_Connect Streambuf_Transfer Scheduler_Wakeups Reactor_Properties Two_Nodes
begin

text \<open>
  A verification development of the Chord chat client, a C++ program in which the users of a chat
  form a ring by the Chord protocol and send each other messages, and of the part of the bundled
  asio library that carries its traffic.

  \<^bold>\<open>The program and its parts.\<close> A user is a node with an identifier, the SHA-1 of its name. A node
  runs three threads over one object (\<open>src/src/LocalNode.cpp\<close>): a server that accepts connections
  and handles each request in a thread of its own, a periodic thread that maintains the ring, and the
  console of the chat client (\<open>src/src/ChatClient.cpp\<close>). A request to another node is a connection,
  a message of a header byte and a payload, and for most requests a reply
  (\<open>src/src/RemoteNode.cpp\<close>). Lookups walk the ring with the finger table
  (\<open>src/src/FingerTable.cpp\<close>).

  \<^bold>\<open>Theories, code and state.\<close> Each theory opens with what it holds. In the order of their
  dependence:

  \<^item> \<open>Chord_Prelude\<close>: machine types and conversions, \<open>cxx_error\<close> with the result type, list and word
    lemmas.
  \<^item> \<open>Sha1\<close> (\<open>sha1.h\<close>, \<open>sha1.cpp\<close>), \<open>Sha1_Spec\<close> (the standard's SHA-1 and the equivalence),
    \<open>Sha1_Test\<close> (two hashes evaluated in the kernel).
  \<^item> \<open>Chord_ID\<close> (\<open>ID.h\<close>, \<open>ID.cpp\<close>), \<open>ID_Order\<close> (the order and the circle the operators make),
    \<open>ID_Arith\<close> (when the arithmetic is the one of 160-bit numbers), \<open>ID_Hash\<close> (identifiers of names
    and addresses).
  \<^item> \<open>C_Strings\<close> (\<open>StringTrim.h\<close> and the string routines used), \<open>INode\<close> (\<open>INode.h\<close>: a node's record
    and its serial form), \<open>Finger_Table\<close> (\<open>FingerTable.h\<close>, \<open>FingerTable.cpp\<close>).
  \<^item> \<open>Local_State\<close>: the members of \<open>LocalNode\<close> as the record \<open>local_node\<close> and their accessors.
    \<open>Program\<close>: the type \<open>prog\<close> of code that runs in one process, a tree of atomic accesses to that
    record and of calls to other processes.
  \<^item> \<open>Remote_Node\<close> (\<open>RemoteNode.cpp\<close>: messages and calls), \<open>Local_Node\<close> (\<open>LocalNode.cpp\<close>: lookup,
    joining, maintenance, the request handler), \<open>Chat_Client\<close> (\<open>ChatClient.cpp\<close>), \<open>Chord_Chat\<close>
    (\<open>ChordChat.cpp\<close>: arguments and start).
  \<^item> \<open>Node_Invariant\<close> (the invariant of one process), \<open>Network\<close> (the processes and their interleaved
    threads as a step relation, its invariant by rule induction), \<open>Message_Passing\<close> (what a request
    and its reply amount to), \<open>Routing\<close> (lookup in a settled ring), \<open>Maintenance\<close> (one round of
    each maintenance operation, joining), \<open>Delivery\<close> (chat messages), \<open>Schedules\<close> (sequential
    schedules are executions of the interleaving), \<open>Two_Nodes\<close> (the smallest ring that forms).
  \<^item> \<open>Asio_Errors\<close> (\<open>error.hpp\<close>, \<open>impl/error.ipp\<close>), \<open>Socket_Ops\<close> and \<open>Socket_IO\<close>
    (\<open>detail/impl/socket_ops.ipp\<close>), \<open>Asio_Buffers\<close> (\<open>buffer.hpp\<close>, \<open>detail/consuming_buffers.hpp\<close>,
    \<open>detail/buffer_sequence_adapter.hpp\<close>), \<open>Socket_Service\<close> (\<open>detail/reactive_socket_service*\<close>,
    \<open>detail/socket_holder.hpp\<close>), \<open>Asio_Transfer\<close> (\<open>impl/read.hpp\<close>, \<open>impl/write.hpp\<close>,
    \<open>impl/connect.hpp\<close>, \<open>completion_condition.hpp\<close>), \<open>Asio_Stream\<close> and \<open>Socket_Laws\<close> (properties of
    these), \<open>Op_Queue\<close> (\<open>detail/op_queue.hpp\<close>), \<open>Op_Queue_Twice\<close> (what is left of such a queue when an
    operation is pushed that is in it); the files are under \<open>src/lib/asio-1.10.6/include/asio\<close>, in the
    branches a Linux build compiles.
  \<^item> \<open>Streambuf\<close> (\<open>basic_streambuf.hpp\<close>: an input and an output sequence in one vector, the pointers
    into it as offsets), \<open>Read_Until\<close> (\<open>impl/read_until.hpp\<close>: reading until a character, a string or
    a match of the user's), \<open>Composed_Ops\<close> and \<open>Async_Connect\<close> (the asynchronous functions of
    \<open>impl/read.hpp\<close>, \<open>impl/write.hpp\<close> and \<open>impl/connect.hpp\<close>: function objects that start an
    operation and are called when it ends), \<open>Streambuf_Transfer\<close> (the functions of these files and of
    \<open>impl/read_until.hpp\<close> that use a stream buffer).
  \<^item> \<open>Time_Traits\<close> (\<open>detail/chrono_time_traits.hpp\<close>: times that saturate), \<open>Timer_Queue\<close>
    (\<open>detail/timer_queue.hpp\<close>: a heap of entries that point back and forth to the timers, which form a
    linked list), \<open>Timer_Laws\<close> (its invariant under the primitive moves), \<open>Timer_Calls\<close> (every call
    keeps it), \<open>Timer_Refinement\<close> (a queue is a map from timers to deadlines), \<open>Timer_Waits\<close> (how
    long the reactor waits, \<open>detail/timer_queue_set\<close>).
  \<^item> \<open>Ip_Address\<close> (\<open>ip/impl/address*.ipp\<close>, the text of addresses in \<open>socket_ops.ipp\<close>), \<open>Ip_Laws\<close>
    (orders, embeddings, text), \<open>Ip_Endpoint\<close> (\<open>ip/detail/impl/endpoint.ipp\<close>: a union of socket
    addresses as bytes), \<open>Name_Lookup\<close> (\<open>ip/basic_resolver_*.hpp\<close> and the lookups of
    \<open>socket_ops.ipp\<close>), \<open>Remote_Send\<close> (\<open>RemoteNode::sendMessage\<close> over the library: the lookup, the
    connection, the exchange and the handler of exceptions).
  \<^item> \<open>Task_Scheduler\<close> (\<open>detail/impl/task_io_service.ipp\<close>, \<open>detail/posix_event.hpp\<close>),
    \<open>Scheduler_Steps\<close> (its executions by any number of threads), \<open>Scheduler_Work\<close> (the reactor's
    marker and the count of work), \<open>Scheduler_Wakeups\<close> (who is woken), \<open>Scheduler_Queues\<close> (an
    operation is queued once), \<open>Scheduler_Frame\<close> (what its steps leave alone).
  \<^item> \<open>Object_Pool\<close> (\<open>detail/object_pool.hpp\<close>: live and free objects in lists through their own
    pointers), \<open>Epoll_Reactor\<close> (\<open>detail/impl/epoll_reactor.ipp\<close> and the interrupter of
    \<open>detail/impl/eventfd_select_interrupter.ipp\<close>, the system calls a parameter), \<open>Reactor_Steps\<close> (the
    reactor, the scheduler and the kernel as one step relation), \<open>Reactor_Laws\<close> (the laws of an
    edge-triggered \<open>epoll\<close> and what each operation of the reactor does under them), \<open>Reactor_Safety\<close> and
    \<open>Reactor_Composition\<close> (the invariant of the whole and that every step keeps it), \<open>Epoll_Model\<close> (an
    \<open>epoll\<close> with the laws), \<open>Reactor_Properties\<close> (what follows).

  \<^bold>\<open>Interfaces.\<close> The locales are \<open>hasher\<close> (a hash fed in pieces), \<open>circle\<close> (the ring the interval
  test needs), \<open>wire_codec\<close> (what a serial form promises), \<open>finger_slots\<close> (lookup after store),
  \<open>byte_stream\<close> (what a stream promises to \<open>asio::read\<close>), \<open>stream_kernel\<close> (what a system promises
  to a stream socket), \<open>detached_stream\<close> (a stream that does not depend on the program's memory),
  \<open>incremental_search\<close> (what a search that goes on where it stopped promises), \<open>reading_until\<close> (both),
  \<open>progressing\<close> and \<open>adapting\<close> (what a stream promises to operations that start each other)
  and \<open>edge_laws\<close> (what \<open>epoll\<close> and the functions of operations promise to the reactor). Each is interpreted on the code's model in the theory of the component that
  provides it; \<open>stream_kernel\<close>, whose provider is the operating system, is shown to make the socket
  service a \<open>byte_stream\<close>, and a small system shows that it can hold; \<open>edge_laws\<close> holds of an \<open>epoll\<close>
  with any number of descriptors, written down in \<open>Epoll_Model\<close>.

  \<^bold>\<open>What the lemmas show.\<close> For the identifiers and hashes: the class computes SHA-1 however its input
  is cut; the comparison operators are one linear order and \<open>isInInterval\<close> its open arcs; the
  arithmetic is not the one of 160-bit numbers, and exactly when. For the ring: the invariant of every
  reachable network; a lookup in a settled ring finds the owner; \<open>notify\<close>, \<open>stabilize\<close>, \<open>join\<close> and
  the ping loop do on every branch what the protocol asks, with the ways in which they do not; two
  nodes that start apart converge; a chat message reaches its user. For messages: the framing, and
  which lengths break it. For the library: \<open>asio::read\<close> over a system that delivers in pieces is the
  function \<open>asio_read\<close> the program's model uses; a blocking receive returns and never reports an
  empty success; the state bits of a socket follow the mode of its descriptor; no descriptor leaks;
  the copies between buffer sequences and the intrusive queues refine their plain descriptions. A
  stream buffer is a sequence with a limit, except after a call that throws; reading until a delimiter
  finds its first occurrence however the stream is cut into pieces. The asynchronous reads, writes and
  connections call their handlers with what the synchronous functions return, with one exception: a read
  whose first 64 buffers are empty ends at once. A
  timer queue, with or without memory for its heap, is a map from timers to deadlines, delivers expired
  timers in order and asks for the right wait; times saturate and never overflow. Addresses and
  endpoints are linear orders and survive their conversions; a lookup's iterator shows the internet
  addresses in order, a message goes to the first that accepts, the exchange over the library is the one
  of the program's model, and a failure becomes the empty string or an exception that has lost its error.
  The scheduler has one thread in the reactor at most, an exact count of work and no operation queued
  twice; it loses no wake-up as long as no thread leaves it with operations in its own queue, and does when
  one does. The reactor and the scheduler together, with any number of threads and sockets, in executions
  in which no socket is opened while another is between leaving the reactor and its close and in which
  \<open>epoll_ctl\<close> does not fail where \<open>start_op\<close> does not look: the executions are executions of the scheduler,
  no operation waits for a ready descriptor without an event on its way, and no descriptor is queued
  twice. Without the first condition an event is lost, as an execution shows.

  \<^bold>\<open>Bounds and fuel.\<close> A lookup, the ping loop and the serving of calls between processes recurse on a
  number, their fuel; running out is the value \<open>OutOfFuel\<close>, which no property takes for a result. The
  theorems say how much is enough: in a settled ring calls between processes nest at most as deep as
  there are live nodes, and the ping loop needs one step more than there are finger slots. The loops
  of the library are \<open>partial_function\<close>s whose value is \<open>None\<close> when they never end, and their
  properties say when they end. In the
  scheduler a thread's critical section, or one access to the atomic counter, is a step; where the
  code holds the lock over two of them the model lets others in between, which only adds executions.
  There is one place in which the model has fewer: \<open>posix_event\<close> unlocks the mutex before it signals a
  waiting thread, and in the model the signal is part of the section, so that executions in which another
  thread takes a step between the two are left out. Its counter of work is an unbounded integer there.

  \<^bold>\<open>Not modelled.\<close> \<open>Logger.h\<close> and the spdlog library only write the log; \<open>UnitTests.cpp\<close> and the
  catch library are tests. Of asio, regular expressions as delimiters, the
  thin classes over the services (\<open>basic_socket.hpp\<close> and its like, which pass their arguments on) and the
  handlers' allocation and invocation hooks are not
  modelled; nor are signals, serial ports, SSL and the branches for other systems. In the scheduler, calls
  of \<open>run\<close> from inside a handler, the numbers the calls report and an exception of the reactor are left
  out. In the reactor a function under the lock of its descriptor is one step, and so is
  \<open>register_descriptor\<close>, which takes two locks in turn and calls \<open>epoll_ctl\<close> after them, for a state no other
  thread has yet. The close of a socket is a step of its own that is not tied to the thread which took the
  socket out of the reactor, so that there are more executions than the code has. The timers' operations
  and the interrupter are part of the reactor's definitions and not of its executions, where an expired
  timer's operation is one that is posted. Executions after \<open>shutdown_service\<close> and a \<open>fork\<close> are left out.
  In \<open>Remote_Send\<close> the construction of the service and the sockets and their destruction are left out.
  Threads are interleaved at the accesses to a \<open>LocalNode\<close>; data races inside one access, the memory
  model and time are outside the model.
\<close>

section \<open>Members of a network\<close>

lemma members_bound:
  assumes "finite A" and "card A \<le> n"
  shows "finite (dom (ns |` A))" and "card (dom (ns |` A)) \<le> n"
proof -
  have d: "dom (ns |` A) \<subseteq> A" by (auto simp: restrict_map_def split: if_splits)
  show "finite (dom (ns |` A))" using d assms(1) by (rule finite_subset)
  show "card (dom (ns |` A)) \<le> n" using card_mono [OF assms(1) d] assms(2) by simp
qed

text \<open>An owner among the members, written out.\<close>

lemma owner_member:
  assumes "owner (procs w |` A) i t"
  shows "\<exists>q \<in> A. procs w q = Some t \<and> (\<forall>r \<in> A. \<forall>u. procs w r = Some u \<longrightarrow>
    ring_dist i (nd_id (ln_inode t)) \<le> ring_dist i (nd_id (ln_inode u)))"
  using assms by (auto simp: owner_def node_id_def)

lemma owner_of_bob: "\<not> ring_dist (nd_id bob) (nd_id abc) \<le> ring_dist (nd_id bob) (nd_id bob)"
proof -
  have "ring_dist (nd_id bob) (nd_id bob) = 0" using id_circle.dist_zero by simp
  moreover have "ring_dist (nd_id bob) (nd_id abc) \<noteq> 0"
    using id_circle.dist_zero [of "nd_id bob" "nd_id abc"] users(5) by simp
  ultimately show ?thesis by simp
qed

section \<open>Lookup and joining\<close>

text \<open>
  C1. In a settled network of at most \<open>n\<close> members, a lookup by any member returns, with nesting
  depth \<open>n\<close>, the member that owns the identifier: the first at or after it on the circle.
\<close>

theorem lookup_finds_owner:
  assumes "settled route (procs w |` A)" and "finite A" and "card A \<le> n"
    and "p \<in> A" and "procs w p = Some s"
  shows "\<exists>w' x q t. run route (serve route n) p (LocalNode_findSuccessor (Suc k) i) w
      = Some (w', Returned (Some x))
    \<and> q \<in> A \<and> procs w q = Some t \<and> node_data (ln_inode s) x = ln_inode t
    \<and> (\<forall>r \<in> A. \<forall>u. procs w r = Some u \<longrightarrow>
         ring_dist i (nd_id (ln_inode t)) \<le> ring_dist i (nd_id (ln_inode u)))
    \<and> inflight w' = inflight w"
proof -
  have bound: "card (arc (procs w |` A) (node_id s) i) \<le> n"
    using members_bound [OF assms(2,3)] arc_bound le_trans by blast
  have "(procs w |` A) p = Some s" using assms(4,5) by simp
  from lookup_settled [OF assms(1) members_bound(1) [OF assms(2,3)] this bound, of k]
  obtain w' x t where "run route (serve route n) p (LocalNode_findSuccessor (Suc k) i) w
        = Some (w', Returned (Some x))" "owner (procs w |` A) i t" "node_data (ln_inode s) x = ln_inode t"
      "inflight w' = inflight w"
    by (auto simp: finds_owner_def)
  then show ?thesis using owner_member by blast
qed

theorem lookup_finds_owner_witness:
  "\<exists>w' x. run by_port (serve by_port 2) 0 (LocalNode_findSuccessor 1 (nd_id bob)) pair
     = Some (w', Returned (Some x)) \<and> node_data abc x = bob"
proof -
  have "settled by_port (procs pair |` {0, 1})" "finite {0, 1 :: nat}" "card {0, 1 :: nat} \<le> 2"
      "procs pair 0 = Some (beside abc bob)"
    using settled_pair by simp_all
  from lookup_finds_owner [OF this(1-3) _ this(4), of 0 "nd_id bob"]
  obtain w' x q t where run: "run by_port (serve by_port 2) 0 (LocalNode_findSuccessor (Suc 0) (nd_id bob)) pair
        = Some (w', Returned (Some x))" and t: "q \<in> {0, 1}" "procs pair q = Some t"
        "node_data (ln_inode (beside abc bob)) x = ln_inode t"
      and near: "\<forall>r \<in> {0, 1}. \<forall>u. procs pair r = Some u \<longrightarrow>
         ring_dist (nd_id bob) (nd_id (ln_inode t)) \<le> ring_dist (nd_id bob) (nd_id (ln_inode u))"
    by blast
  have "ring_dist (nd_id bob) (nd_id (ln_inode t)) \<le> ring_dist (nd_id bob) (nd_id bob)"
    using near by simp
  with t(1,2) owner_of_bob have "ln_inode t = bob" by (auto split: if_splits)
  then have "node_data abc x = bob" using t(3) by simp
  with run show ?thesis unfolding One_nat_def by blast
qed

text \<open>
  C11. A lookup asked of a remote node gives the caller the node the remote process found, as a new
  object, whenever that node's record is short enough for a reply.
\<close>

theorem remote_lookup_agrees:
  assumes "connect route (procs w) (nd_host d) (dec_number (unat (nd_port d))) = Some q"
    and "procs w q = Some t" and "ln_listening t" and "\<not> ln_stop t" and "procs w p \<noteq> None"
    and "run route (serve route n) q (LocalNode_findSuccessor (Suc n) i) w = Some (w', Returned (Some x))"
    and "procs w' q = Some t'" and "short (node_data (ln_inode t') x)" and "procs w' p = Some s"
  shows "run route (serve route (Suc n)) p (RemoteNode_findSuccessor d i) w
    = Some (set_proc p (Some (s\<lparr>ln_next := ln_next s + 1\<rparr>)) w',
        Returned (Some (Remote (ln_next s) (node_data (ln_inode t') x))))"
proof -
  have "serve route (Suc n) q (createMessage FIND_SUCCESSOR (c_str i)) w
      = Some (w', respond (serialize (node_data (ln_inode t') x)))"
    using serve_node [OF assms(2-4) _ handle_find_successor assms(6,7)] by simp
  from run_query [where call = "serve route (Suc n)", OF assms(1,5) this assms(8,9)]
  show ?thesis by (simp add: RemoteNode_findSuccessor_def bump_def)
qed

theorem remote_lookup_agrees_witness:
  "\<exists>w' k. run by_port (serve by_port 1) 0 (RemoteNode_findSuccessor bob (nd_id bob)) pair
     = Some (w', Returned (Some (Remote k bob)))"
proof -
  let ?t = "beside bob abc"
  have t: "procs pair 1 = Some ?t" "node_ok (ln_inode ?t) ?t" "ln_listening ?t" "\<not> ln_stop ?t"
      "first_some (entries (ln_finger ?t)) = Some (Remote 0 abc)"
    using pair_nodes(2) faces_first [OF pair_nodes(2)] by (simp_all add: faces_def)
  have c: "connect by_port (procs pair) (nd_host bob) (dec_number (unat (nd_port bob))) = Some 1"
    by (rule connect_addr [where ns = "procs pair" and t = ?t]) (use t users in simp_all)
  have run: "run by_port (serve by_port 0) 1 (LocalNode_findSuccessor (Suc 0) (nd_id bob)) pair
      = Some (pair, Returned (Some This))"
    using run_findSuccessor [OF t(1,2,5)] by simp
  have p: "procs pair 0 = Some (beside abc bob)" "procs pair 0 \<noteq> None" by simp_all
  have short: "short (node_data (ln_inode ?t) This)" using users(2) by simp
  from remote_lookup_agrees [OF c t(1,3,4) p(2) run t(1) short p(1)]
  have "\<exists>w' k. run by_port (serve by_port (Suc 0)) 0 (RemoteNode_findSuccessor bob (nd_id bob)) pair
     = Some (w', Returned (Some (Remote k (node_data (ln_inode ?t) This))))" by blast
  moreover have "node_data (ln_inode ?t) This = bob" by simp
  ultimately show ?thesis by (simp only: One_nat_def)
qed

text \<open>
  C5. A node outside a settled network, with an identifier none of its members has, that joins
  through any member takes the member that owns its identifier for its successor. Its predecessor
  is cleared, and the members keep their state but for the numbering of objects.
\<close>

theorem join_finds_successor:
  assumes "settled route (procs w |` A)" and "finite A" and "card A \<le> n"
    and "q \<in> A" and "procs w q = Some u"
    and "p \<notin> A" and "procs w p = Some s" and "node_ok (ln_inode s) s"
    and "\<forall>r \<in> A. \<forall>v. procs w r = Some v \<longrightarrow> nd_id (ln_inode v) \<noteq> nd_id (ln_inode s)"
  shows "\<exists>w' s' r t x. run route (serve route (Suc n)) p (LocalNode_join k (Some (Remote a (ln_inode u)))) w
      = Some (w', Returned ())
    \<and> procs w' p = Some s' \<and> ln_predecessor s' = None \<and> getNodeAt (ln_finger s') 0 = Inr (Some x)
    \<and> r \<in> A \<and> procs w r = Some t \<and> node_data (ln_inode s) x = ln_inode t
    \<and> (\<forall>r' \<in> A. \<forall>v. procs w r' = Some v \<longrightarrow> ring_dist (nd_id (ln_inode s)) (nd_id (ln_inode t))
         \<le> ring_dist (nd_id (ln_inode s)) (nd_id (ln_inode v)))
    \<and> (\<forall>r' \<in> A. \<forall>v. procs w r' = Some v \<longrightarrow> (\<exists>l. procs w' r' = Some (v\<lparr>ln_next := l\<rparr>)))"
proof -
  have u: "(procs w |` A) q = Some u" using assms(4,5) by simp
  note m = members_bound [OF assms(2,3), of "procs w"]
  from join_member [OF assms(1) m(1) u assms(7,6,8) m(2), of k a] obtain w' l t x where
    run: "run route (serve route (Suc n)) p (LocalNode_join k (Some (Remote a (ln_inode u)))) w = Some (w', Returned ())"
    and p: "procs w' p = Some (with_successor (s\<lparr>ln_predecessor := None, ln_next := l\<rparr>) x)"
    and t: "owner (procs w |` A) (node_id s) t" "node_data (ln_inode s) x = ln_inode t"
    and obj: "objects_only (procs w |` A) (procs w' |` A)"
    by blast
  from owner_member [OF t(1)] obtain r where r: "r \<in> A" "procs w r = Some t"
    and near: "\<forall>r' \<in> A. \<forall>v. procs w r' = Some v \<longrightarrow> ring_dist (nd_id (ln_inode s)) (nd_id (ln_inode t))
         \<le> ring_dist (nd_id (ln_inode s)) (nd_id (ln_inode v))"
    by (auto simp: node_id_def)
  have "nd_id (ln_inode t) \<noteq> nd_id (ln_inode s)" using assms(9) r by blast
  then have own: "own_or (ln_inode s) x = x" using t(2) by (auto simp: own_or_def split: node.split)
  let ?s = "with_successor (s\<lparr>ln_predecessor := None, ln_next := l\<rparr>) x"
  have "length (entries (ln_finger s)) = M" by (rule length_entries [OF assms(8)])
  then have "getNodeAt (ln_finger ?s) 0 = Inr (Some x)"
    by (simp add: with_successor_def own getNodeAt_def)
  moreover have "ln_predecessor ?s = None" by (simp add: with_successor_def)
  moreover have "\<exists>l. procs w' r' = Some (v\<lparr>ln_next := l\<rparr>)" if "r' \<in> A" "procs w r' = Some v" for r' v
    using objects_only_Some [OF obj, of r' v] that by simp
  ultimately show ?thesis using run p r t(2) near by blast
qed

theorem join_finds_successor_witness:
  "\<exists>w' s' x. run by_port (serve by_port 2) 1 (LocalNode_join 1 (Some (Remote 0 abc))) apart = Some (w', Returned ())
     \<and> procs w' 1 = Some s' \<and> getNodeAt (ln_finger s') 0 = Inr (Some x) \<and> node_data bob x = abc"
proof -
  have A: "settled by_port (procs apart |` {0})" "finite {0 :: nat}" "card {0 :: nat} \<le> 1" "0 \<in> {0 :: nat}"
      "procs apart 0 = Some (alone (started abc) (Some This))" "1 \<notin> {0 :: nat}"
      "procs apart 1 = Some (started bob)"
    using settled_apart by simp_all
  have b: "node_ok (ln_inode (started bob)) (started bob)" using started_ok [OF users(8)] by simp
  have ids: "\<forall>r \<in> {0 :: nat}. \<forall>v. procs apart r = Some v \<longrightarrow> nd_id (ln_inode v) \<noteq> nd_id (ln_inode (started bob))"
    using users by (simp add: alone_def)
  from join_finds_successor [OF A b ids, of 1 0] obtain w' s' r t x where
    "run by_port (serve by_port (Suc 1)) 1 (LocalNode_join 1 (Some (Remote 0 (ln_inode (alone (started abc) (Some This)))))) apart
       = Some (w', Returned ())"
    "procs w' 1 = Some s'" "getNodeAt (ln_finger s') 0 = Inr (Some x)"
    "r \<in> {0 :: nat}" "procs apart r = Some t" "node_data (ln_inode (started bob)) x = ln_inode t"
    by blast
  moreover have "ln_inode (alone (started abc) (Some This)) = abc" by (simp add: alone_def)
  moreover have "ln_inode t = abc" using calculation(4,5,7) by simp
  moreover have "Suc 1 = 2" by simp
  ultimately show ?thesis by (metis started_simps(1))
qed

text \<open>
  A contact that cannot be reached is not reported: \<open>join\<close> returns, with the successor slot and
  the predecessor cleared, as if the node had been started alone.
\<close>

lemma join_unreachable_contact:
  assumes "procs w p = Some s" and "node_ok (ln_inode s) s"
    and "connect route (procs w) (nd_host d) (dec_number (unat (nd_port d))) = None"
  shows "\<exists>s' t. run route call p (LocalNode_join k (Some (Remote a d))) w = Some (set_proc p (Some s') w, Returned ())
    \<and> ln_predecessor s' = None \<and> setNode (ln_finger s) 0 None = Inr t \<and> s' = s\<lparr>ln_predecessor := None, ln_finger := t\<rparr>"
  using join_unreachable [OF assms, of call k a] by (simp add: setNode_def)

lemma join_unreachable_contact_witness:
  "\<exists>s'. run (\<lambda>h p. None) (\<lambda>q m w. None) 1 (LocalNode_join 1 (Some (Remote 0 abc))) apart
     = Some (set_proc 1 (Some s') apart, Returned ()) \<and> ln_predecessor s' = None"
proof -
  have b: "procs apart 1 = Some (started bob)" "node_ok (ln_inode (started bob)) (started bob)"
    using started_ok [OF users(8)] by simp_all
  have "connect (\<lambda>h p. None) (procs apart) (nd_host abc) (dec_number (unat (nd_port abc))) = None"
    by (simp add: connect_def)
  from join_unreachable_contact [OF b this] show ?thesis by blast
qed

section \<open>Maintenance\<close>

text \<open>
  C10. \<open>notify(n)\<close> sets the predecessor to \<open>n\<close> when there is none or when \<open>n\<close> lies strictly between
  the predecessor and this node, and changes nothing else.
\<close>

theorem notify_predecessor:
  assumes "procs w p = Some s" and "node_ok (ln_inode s) s" and "nd_id d \<noteq> nd_id (ln_inode s)"
  shows "run route call p (LocalNode_notify (Some (Remote k d))) w =
    Some (if (case ln_predecessor s of None \<Rightarrow> True
              | Some m \<Rightarrow> isInInterval (nd_id d) (nd_id (node_data (ln_inode s) m)) (nd_id (ln_inode s)))
          then set_proc p (Some (s\<lparr>ln_predecessor := Some (Remote k d)\<rparr>)) w else w, Returned ())"
  using run_notify [OF assms(1,2), of route call "Remote k d"] assms(3)
  by (simp add: accepts_def own_or_def get_id_def node_id_def split: option.split)

theorem notify_predecessor_witness:
  "run (\<lambda>h p. None) (\<lambda>q m w. None) 1 (LocalNode_notify (Some (Remote 7 abc))) apart
     = Some (set_proc 1 (Some (started bob\<lparr>ln_predecessor := Some (Remote 7 abc)\<rparr>)) apart, Returned ())"
proof -
  have b: "procs apart 1 = Some (started bob)" "node_ok (ln_inode (started bob)) (started bob)"
    using started_ok [OF users(8)] by simp_all
  have "nd_id abc \<noteq> nd_id (ln_inode (started bob))" using users by simp
  from notify_predecessor [OF b this] show ?thesis by (simp only: started_simps option.case if_True)
qed

text \<open>
  C8. The ping loop of \<open>stabilize\<close> ends: with fuel above the number of finger slots it returns, and the
  successor then answers. An entry that has changed is empty now, or is the first one and names the node
  itself; it was empty before and the first, or it pointed to the same object as an entry of the table
  whose node did not answer.
\<close>

theorem ping_loop_terminates:
  assumes "procs w p = Some s" and "node_ok (ln_inode s) s" and "M < k"
  shows "\<exists>w' s' n. run route call p (bind_prog (atomic get_successor) (ping_loop k)) w = Some (w', Returned ())
    \<and> procs w' = (procs w)(p := Some s') \<and> getNode False (ln_finger s') 0 = Inr (Some n) \<and> answers route w n
    \<and> (\<forall>i < M. entries (ln_finger s') ! i \<noteq> entries (ln_finger s) ! i \<longrightarrow>
         (entries (ln_finger s') ! i = None \<or> i = 0 \<and> entries (ln_finger s') ! i = Some This)
         \<and> (i = 0 \<and> entries (ln_finger s) ! i = None
            \<or> (\<exists>m. Some m \<in> set (entries (ln_finger s)) \<and> same_pointer (entries (ln_finger s) ! i) (Some m)
                 \<and> \<not> answers route w m)))"
proof -
  have "used_slots s \<le> M"
    using length_filter_le [of "\<lambda>e. e \<noteq> None" "entries (ln_finger s)"] length_entries [OF assms(2)]
    by (simp add: used_slots_def)
  with assms(3) have "used_slots s < k" by simp
  from ping_loop_ends [OF assms(1,2) this] obtain w' s' where
    w': "run route call p (bind_prog (atomic get_successor) (ping_loop k)) w = Some (w', Returned ())"
      "procs w' = (procs w)(p := Some s')" "successor_checked route w s s'"
    by blast
  from w'(3) obtain n where n: "first_some (entries (ln_finger s')) = Some n" "answers route w n"
      and ok: "node_ok (ln_inode s) s'" and d: "only_dead_dropped route w s s'"
    by (auto simp: successor_checked_def)
  have "getNode False (ln_finger s') 0 = Inr (Some n)"
    using getNode_first [OF node_ok_full [OF ok], of 0] n(1) by simp
  moreover have "(entries (ln_finger s') ! i = None \<or> i = 0 \<and> entries (ln_finger s') ! i = Some This)
         \<and> (i = 0 \<and> entries (ln_finger s) ! i = None
            \<or> (\<exists>m. Some m \<in> set (entries (ln_finger s)) \<and> same_pointer (entries (ln_finger s) ! i) (Some m)
                 \<and> \<not> answers route w m))"
    if "i < M" "entries (ln_finger s') ! i \<noteq> entries (ln_finger s) ! i" for i
    using d that unfolding only_dead_dropped_def dead_entry_def by blast
  ultimately show ?thesis using w'(1,2) n(2) by blast
qed

theorem ping_loop_terminates_witness:
  "\<exists>w' s' n. run (\<lambda>h p. None) (\<lambda>q m w. None) 0 (bind_prog (atomic get_successor) (ping_loop 161)) pair
       = Some (w', Returned ())
     \<and> procs w' = (procs pair)(0 := Some s') \<and> getNode False (ln_finger s') 0 = Inr (Some n)
     \<and> answers (\<lambda>h p. None) pair n"
proof -
  have "procs pair 0 = Some (beside abc bob)" "node_ok (ln_inode (beside abc bob)) (beside abc bob)"
    using pair_nodes(1) by (simp_all add: faces_def)
  moreover have "M < (161 :: nat)" by simp
  ultimately show ?thesis
    by (rule ping_loop_terminates [where route = "\<lambda>h p. None" and call = "\<lambda>q m w. None", elim_format])
      (elim exE conjE, intro exI conjI)
qed

text \<open>
  C9. \<open>stabilize\<close> with a successor that answers: when the successor's predecessor lies strictly
  between this node and the successor it becomes the new successor; either way the successor is
  then notified of this node.
\<close>

theorem stabilize_step:
  assumes "procs w p = Some s" and "node_ok (ln_inode s) s"
    and "getNode False (ln_finger s) 0 = Inr (Some n)" and "answers route w n"
    and "run route call p (getPredecessor (Some n)) (after_ping route n w) = Some (w1, Returned (Some (Remote j d)))"
    and "nd_name d \<noteq> []" and "nd_id d = sha1_ID (nd_name d)" and "nd_id d \<noteq> nd_id (ln_inode s)"
    and "procs w1 p = Some s1" and "node_ok (ln_inode s) s1" and "ln_finger s1 = ln_finger s"
  shows "run route call p (LocalNode_stabilize (Suc k)) w =
    (if isInInterval (nd_id d) (nd_id (ln_inode s)) (nd_id (node_data (ln_inode s) n))
     then run route call p (notify (Some (Remote j d)) (Some This))
       (set_proc p (Some (s1\<lparr>ln_finger := (ln_finger s)\<lparr>entries := (entries (ln_finger s))[0 := Some (Remote j d)]\<rparr>\<rparr>)) w1)
     else run route call p (notify (Some n) (Some This)) w1)"
proof -
  have n: "first_some (entries (ln_finger s)) = Some n"
    using getNode_first [OF node_ok_full [OF assms(2)], of 0] assms(3) by simp
  have d: "named d" using assms(6,7) by (simp add: named_def)
  have i: "ln_inode s1 = ln_inode s" using node_ok_inode [OF assms(10)] .
  have "own_or (ln_inode s) (Remote j d) = Remote j d" using assms(8) by (simp add: own_or_def)
  moreover have "with_successor s1 (Remote j d)
      = s1\<lparr>ln_finger := (ln_finger s)\<lparr>entries := (entries (ln_finger s))[0 := Some (Remote j d)]\<rparr>\<rparr>"
    using assms(8) by (simp add: with_successor_def own_or_def i assms(11))
  ultimately show ?thesis
    using run_stabilize [OF assms(1,2) n assms(4,5) _ assms(9-11)] d
    by (simp add: better_successor_def get_id_def node_id_def)
qed

theorem stabilize_step_witness:
  "run by_port (\<lambda>q m w. None) 0 (LocalNode_stabilize 1) noticed
     = run by_port (\<lambda>q m w. None) 0 (notify (Some (Remote 0 bob)) (Some This))
         (set_proc 0 (Some (with_successor (alone (started abc) (Some (Remote 0 bob))) (Remote 0 bob))) noticed)"
proof -
  let ?s = "alone (started abc) (Some (Remote 0 bob))"
  have s: "procs noticed 0 = Some ?s" "node_ok (ln_inode ?s) ?s" "getNode False (ln_finger ?s) 0 = Inr (Some This)"
      "answers by_port noticed This"
    using noticed_node by (simp_all add: answers_def)
  have x: "run by_port (\<lambda>q m w. None) 0 (getPredecessor (Some This)) (after_ping by_port This noticed)
      = Some (noticed, Returned (Some (Remote 0 bob)))"
    using run_get_predecessor_here [OF s(1)] by (simp add: after_ping_def alone_def)
  have b: "nd_name bob \<noteq> []" "nd_id bob = sha1_ID (nd_name bob)" "nd_id bob \<noteq> nd_id (ln_inode ?s)"
    using users(6,8) by (simp_all add: named_def alone_def)
  have "isInInterval (nd_id bob) (nd_id (ln_inode ?s)) (nd_id (node_data (ln_inode ?s) This))"
    using id_circle.between_same b(3) by simp
  with stabilize_step [OF s x b s(1,2) refl, of 0] show ?thesis
    using b(3) by (simp add: with_successor_def own_or_def)
qed

text \<open>
  A request for the predecessor of a node that has none makes the handler dereference a null
  pointer: the process dies and the caller reads nothing. Otherwise the reply is the predecessor.
\<close>

lemma get_predecessor_request:
  assumes "procs w q = Some t" and "ln_listening t" and "\<not> ln_stop t"
  shows "serve route (Suc n) q (createMessage GET_PREDECESSOR []) w =
    (case ln_predecessor t of
       None \<Rightarrow> Some (set_proc q None w, [])
     | Some x \<Rightarrow> Some (w, respond (serialize (node_data (ln_inode t) x))))"
  by (rule serve_get_predecessor [OF assms])

lemma get_predecessor_request_witness:
  "serve by_port 1 1 (createMessage GET_PREDECESSOR []) apart = Some (set_proc 1 None apart, [])"
proof -
  have "procs apart 1 = Some (started bob)" "ln_listening (started bob)" "\<not> ln_stop (started bob)" by simp_all
  from get_predecessor_request [OF this, of by_port 0] show ?thesis
    by (simp only: started_simps option.case One_nat_def)
qed

text \<open>
  No exception leaves a request handler's thread: what ends one early is undefined behaviour or
  a failed assertion.
\<close>

lemma handler_contains_exception:
  assumes "run route call q (handleRequest k m) w = Some (w', Raised e)"
  shows "(\<exists>u. e = UndefinedBehaviour u) \<or> e = AssertionFailure"
  using handler_contains_exceptions [OF assms] by (cases e) simp_all

section \<open>Chat messages\<close>

text \<open>
  C4. A message of at most 126 bytes to another user of a settled network is in flight to that
  user's process when \<open>send\<close> returns true, and its delivery prints it there and nowhere else.
\<close>

theorem message_delivered:
  assumes "settled route (procs w |` A)" and "finite A" and "card A \<le> n"
    and "p \<in> A" and "procs w p = Some s" and "q \<in> A" and "procs w q = Some t"
    and "nd_id (ln_inode s) \<noteq> nd_id (ln_inode t)"
    and "\<forall>r \<in> A. \<forall>u. procs w r = Some u \<longrightarrow> nd_id (ln_inode u) = nd_id (ln_inode t) \<longrightarrow> r = q"
    and "ln_rcvFn t" and "length m \<le> 126"
  shows "\<exists>w1 w2. run route (serve route n) p (ChatClient_send (Suc k) (nd_id (ln_inode t)) m) w = Some (w1, Returned True)
    \<and> deliver route (Suc l) (length (inflight w)) w1 = Some w2 \<and> inflight w2 = inflight w
    \<and> (\<forall>r u. procs w r = Some u \<longrightarrow> (\<exists>v. procs w2 r = Some v
         \<and> ln_out v = (if r = q then ln_out u @ m @ [10] else ln_out u)))"
proof -
  note d = members_bound [OF assms(2,3), of "procs w"]
  have "node_id s \<noteq> nd_id (ln_inode t)" using assms(8) by (simp add: node_id_def)
  with send_settled [OF assms(1) d(1) _ d(2), of p s "nd_id (ln_inode t)" k m] assms(4,5)
  obtain w1 found where run: "run route (serve route n) p (ChatClient_send (Suc k) (nd_id (ln_inode t)) m) w
        = Some (w1, Returned found)"
      and obj: "objects_only (procs w) (procs w1)"
      and found: "found = (\<exists>q u. (procs w |` A) q = Some u \<and> node_id u = nd_id (ln_inode t))"
      and sent: "if found
         then \<exists>q' u. (procs w |` A) q' = Some u \<and> node_id u = nd_id (ln_inode t)
              \<and> inflight w1 = inflight w @ [(q', createMessage RECEIVE m)]
         else inflight w1 = inflight w"
    by auto
  have yes: "found" unfolding found using assms(6,7) by (auto simp: node_id_def)
  with sent assms(9) have fl: "inflight w1 = inflight w @ [(q, createMessage RECEIVE m)]"
    by (auto simp: node_id_def)
  obtain l' where t1: "procs w1 q = Some (t\<lparr>ln_next := l'\<rparr>)" using objects_only_Some [OF obj assms(7)] by blast
  have up: "ln_listening t" "\<not> ln_stop t"
    using assms(1,6,7) by (auto simp: settled_def served_node_def)
  let ?t = "t\<lparr>ln_next := l'\<rparr>"
  let ?w = "w1\<lparr>inflight := inflight w\<rparr>"
  let ?w2 = "set_proc q (Some (?t\<lparr>ln_out := ln_out t @ m @ [10]\<rparr>)) ?w"
  have q: "procs ?w q = Some ?t" "ln_listening ?t" "\<not> ln_stop ?t" "ln_rcvFn ?t" using t1 up assms(10) by simp_all
  have "serve route (Suc l) q (createMessage RECEIVE m) ?w = Some (?w2, [])"
    unfolding serve_receive [OF q(1-3) assms(11)] using q(4) by simp
  then have "deliver route (Suc l) (length (inflight w)) w1 = Some ?w2"
    by (simp add: deliver_def fl del: serve.simps)
  moreover have "\<exists>v. procs ?w2 r = Some v \<and> ln_out v = (if r = q then ln_out u @ m @ [10] else ln_out u)"
    if "procs w r = Some u" for r u
    using objects_only_Some [OF obj that] that assms(7) by auto
  ultimately show ?thesis using run yes by (intro exI [of _ w1] exI [of _ ?w2]) simp
qed

theorem message_delivered_witness:
  "\<exists>w1 w2. run by_port (serve by_port 2) 0 (ChatClient_send 1 (nd_id bob) (cstr ''hi'')) pair = Some (w1, Returned True)
    \<and> deliver by_port 1 0 w1 = Some w2 \<and> (\<exists>v. procs w2 1 = Some v \<and> ln_out v = cstr ''hi'' @ [10])"
proof -
  have A: "settled by_port (procs pair |` {0, 1})" "finite {0, 1 :: nat}" "card {0, 1 :: nat} \<le> 2" "0 \<in> {0, 1 :: nat}"
      "procs pair 0 = Some (beside abc bob)" "1 \<in> {0, 1 :: nat}" "procs pair 1 = Some (beside bob abc)"
    using settled_pair by simp_all
  have ids: "nd_id (ln_inode (beside abc bob)) \<noteq> nd_id (ln_inode (beside bob abc))"
      "\<forall>r \<in> {0, 1}. \<forall>u. procs pair r = Some u \<longrightarrow> nd_id (ln_inode u) = nd_id (ln_inode (beside bob abc)) \<longrightarrow> r = 1"
      "ln_rcvFn (beside bob abc)" "length (cstr ''hi'') \<le> 126"
    using users(5) by simp_all
  have b: "ln_inode (beside bob abc) = bob" "ln_out (beside bob abc) = []" "length (inflight pair) = 0" by simp_all
  from message_delivered [OF A ids, of 0 0, unfolded b] obtain w1 w2 where
    run: "run by_port (serve by_port 2) 0 (ChatClient_send (Suc 0) (nd_id bob) (cstr ''hi'')) pair
       = Some (w1, Returned True)"
    "deliver by_port (Suc 0) 0 w1 = Some w2" and
    out: "\<forall>r u. procs pair r = Some u \<longrightarrow> (\<exists>v. procs w2 r = Some v
         \<and> ln_out v = (if r = 1 then ln_out u @ cstr ''hi'' @ [10] else ln_out u))"
    by blast
  from out A(7) obtain v where "procs w2 1 = Some v" "ln_out v = ln_out (beside bob abc) @ cstr ''hi'' @ [10]"
    by (metis (full_types))
  with run b(2) show ?thesis unfolding One_nat_def append_Nil by auto
qed

text \<open>
  \<open>send\<close> to an identifier that no member of a settled network has returns false and puts
  nothing in flight.
\<close>

lemma unknown_user_refused:
  assumes "settled route (procs w |` A)" and "finite A" and "card A \<le> n"
    and "p \<in> A" and "procs w p = Some s"
    and "\<forall>r \<in> A. \<forall>u. procs w r = Some u \<longrightarrow> nd_id (ln_inode u) \<noteq> i"
  shows "\<exists>w1. run route (serve route n) p (ChatClient_send (Suc k) i m) w = Some (w1, Returned False)
    \<and> inflight w1 = inflight w"
proof -
  note d = members_bound [OF assms(2,3), of "procs w"]
  have s: "(procs w |` A) p = Some s" "i \<noteq> node_id s" using assms(4-6) by (auto simp: node_id_def)
  from send_settled [OF assms(1) d(1) s(1) d(2) s(2), of k m] obtain w1 found where
    run: "run route (serve route n) p (ChatClient_send (Suc k) i m) w = Some (w1, Returned found)"
    and found: "found = (\<exists>q u. (procs w |` A) q = Some u \<and> node_id u = i)"
    and sent: "if found
         then \<exists>q' u. (procs w |` A) q' = Some u \<and> node_id u = i
              \<and> inflight w1 = inflight w @ [(q', createMessage RECEIVE m)]
         else inflight w1 = inflight w"
    by auto
  have "\<not> found" unfolding found using assms(6) by (auto simp: node_id_def)
  with run sent show ?thesis by auto
qed

lemma unknown_user_refused_witness:
  "\<exists>w1. run by_port (serve by_port 1) 0 (ChatClient_send 1 (nd_id bob) (cstr ''hi'')) apart = Some (w1, Returned False)"
proof -
  have A: "settled by_port (procs apart |` {0})" "finite {0 :: nat}" "card {0 :: nat} \<le> 1" "0 \<in> {0 :: nat}"
      "procs apart 0 = Some (alone (started abc) (Some This))"
    using settled_apart by simp_all
  have ids: "\<forall>r \<in> {0 :: nat}. \<forall>u. procs apart r = Some u \<longrightarrow> nd_id (ln_inode u) \<noteq> nd_id bob"
    using users(5) by (simp add: alone_def)
  from unknown_user_refused [OF A ids, of 0 "cstr ''hi''"] show ?thesis unfolding One_nat_def by blast
qed

section \<open>Forming a network\<close>

text \<open>
  C3. Two nodes that have just been started form a network: the first stabilises alone, the second
  joins through it, each runs \<open>stabilize\<close> once more and the notifications are delivered. Each is
  then the other's successor and predecessor, nothing is in flight and the network is settled.
\<close>

theorem two_nodes_converge:
  assumes "procs w p = Some (started a)" and "procs w q = Some (started b)" and "inflight w = []" and "p \<noteq> q"
    and "short a" and "short b" and "nd_id a \<noteq> nd_id b"
    and "addr route a = Some p" and "addr route b = Some q"
  shows "\<exists>w' s t x y z.
    schedule route (Suc (Suc n)) [Perform p (LocalNode_stabilize (Suc j)), Perform q (LocalNode_join k (Some (Remote c a))),
      Perform q (LocalNode_stabilize (Suc j)), Deliver 1,
      Perform p (LocalNode_stabilize (Suc j)), Deliver 1, Deliver 0] w = Some w'
    \<and> procs w' p = Some s \<and> ln_predecessor s = Some (Remote x b) \<and> getNodeAt (ln_finger s) 0 = Inr (Some (Remote x b))
    \<and> procs w' q = Some t \<and> ln_predecessor t = Some (Remote y a) \<and> getNodeAt (ln_finger t) 0 = Inr (Some (Remote z a))
    \<and> inflight w' = [] \<and> settled route (procs w' |` {p, q})"
proof -
  from two_nodes_meet [OF assms(1-6) assms(8,9,7), of n j k c] obtain w' s t x y z where
    sched: "schedule route (Suc (Suc n)) [Perform p (LocalNode_stabilize (Suc j)), Perform q (LocalNode_join k (Some (Remote c a))),
      Perform q (LocalNode_stabilize (Suc j)), Deliver 1,
      Perform p (LocalNode_stabilize (Suc j)), Deliver 1, Deliver 0] w = Some w'"
    and w': "procs w' p = Some s" "procs w' q = Some t" "inflight w' = []"
    and s: "ln_inode s = a" "faces s (Remote x b)" "ln_predecessor s = Some (Remote x b)"
    and t: "ln_inode t = b" "faces t (Remote z a)" "ln_predecessor t = Some (Remote y a)"
    by blast
  have m: "procs w' |` {p, q} = [p \<mapsto> s, q \<mapsto> t]"
    using w' by (auto simp: restrict_map_def fun_eq_iff)
  have "settled route (procs w' |` {p, q})"
    unfolding m by (rule pair_settled [of s x t z]) (use s t assms in \<open>simp_all add: node_id_def\<close>)
  moreover have "getNodeAt (ln_finger u) 0 = Inr (Some n)" if "faces u n" for u n
    using that by (simp add: faces_def getNodeAt_def)
  ultimately show ?thesis using sched w' s t by blast
qed

theorem two_nodes_converge_witness:
  "\<exists>w'. schedule by_port 2 [Perform 0 (LocalNode_stabilize 1), Perform 1 (LocalNode_join 1 (Some (Remote 0 abc))),
      Perform 1 (LocalNode_stabilize 1), Deliver 1, Perform 0 (LocalNode_stabilize 1), Deliver 1, Deliver 0]
      \<lparr>procs = [0 \<mapsto> started abc, 1 \<mapsto> started bob], inflight = []\<rparr> = Some w'
    \<and> settled by_port (procs w' |` {0, 1})"
proof -
  let ?w = "\<lparr>procs = [0 \<mapsto> started abc, 1 \<mapsto> started bob], inflight = []\<rparr>"
  have w: "procs ?w 0 = Some (started abc)" "procs ?w 1 = Some (started bob)" "inflight ?w = []" "0 \<noteq> (1 :: nat)"
    by simp_all
  have "Suc (Suc 0) = 2" by simp
  with two_nodes_converge [OF w users(1,2,5,3,4), of 0 0 1 0] show ?thesis unfolding One_nat_def by metis
qed

text \<open>
  Whatever work and deliveries a schedule puts one after the other, the threads of the network,
  interleaved at every access and every message, have an execution that ends in the same state.
\<close>

lemma schedule_interleaved:
  assumes "schedule route n ds w = Some w'"
    and "nodes c = procs w" and "tasks c = works ds @ map (\<lambda>(q, m). [Running q (served n m)]) (inflight w)"
  shows "\<exists>c'. (net_step route)\<^sup>*\<^sup>* c c' \<and> nodes c' = procs w'
    \<and> tasks c' = map (\<lambda>(q, m). [Running q (served n m)]) (inflight w')"
  using schedule_faithful [OF assms(1), of c] assms(2,3) by (simp add: faithful_def pending_def) blast

lemma schedule_interleaved_witness:
  "\<exists>c'. (net_step by_port)\<^sup>*\<^sup>* \<lparr>nodes = procs apart, used = {0, 1},
        tasks = [[Running 1 (silent (LocalNode_notify (Some (Remote 7 abc))))]]\<rparr> c'
     \<and> nodes c' 1 = Some (started bob\<lparr>ln_predecessor := Some (Remote 7 abc)\<rparr>)"
proof -
  let ?m = "LocalNode_notify (Some (Remote 7 abc))"
  let ?c = "\<lparr>nodes = procs apart, used = {0, 1}, tasks = [[Running 1 (silent ?m)]]\<rparr>"
  let ?t = "started bob\<lparr>ln_predecessor := Some (Remote 7 abc)\<rparr>"
  have b: "procs apart 1 = Some (started bob)" "node_ok (ln_inode (started bob)) (started bob)"
    using started_ok [OF users(8)] by simp_all
  have "own_or bob (Remote 7 abc) = Remote 7 abc" using users(5) by (simp add: own_or_def)
  then have "run by_port (serve by_port 1) 1 ?m apart = Some (set_proc 1 (Some ?t) apart, Returned ())"
    unfolding run_notify [OF b] by (simp add: accepts_def)
  from perform_returned [OF this]
  have "schedule by_port 1 [Perform 1 ?m] apart = Some (set_proc 1 (Some ?t) apart)" by simp
  from schedule_interleaved [OF this, of ?c] show ?thesis by auto
qed

end
